(* ===== verification/Prelude.thy ===== *)
theory Prelude
  imports Main "HOL-Library.Word" "HOL-Library.AList" "HOL-Library.Multiset"
begin

section \<open>Shared types, arithmetic and containers\<close>

text \<open>
  What the components of the capture core share: the saturating and checked integer
  operations of Rust on 64-bit values, the error values of the pipeline, the hash map
  (an association list with one entry per key, iterated in an order the program cannot
  choose) with its interface as a locale, and a few generic facts on lists.

  Sizes, counters and timestamps are natural numbers, with every saturating operation of
  the source written out against \<open>u64_max\<close>; where the code multiplies or divides 64-bit
  values and a result could wrap, the component uses \<open>64 word\<close> and the word versions below.
\<close>

named_theorems cap_simps \<open>unfolding rules of the small helpers of the capture pipeline\<close>

subsection \<open>64-bit integers\<close>

type_synonym u64 = "64 word"
type_synonym u32 = "32 word"

definition u64_max :: nat where
  "u64_max = 2 ^ 64 - 1"

text \<open>\<open>u64::saturating_add\<close>, \<open>saturating_sub\<close> and \<open>saturating_mul\<close> on naturals below \<open>2^64\<close>.\<close>

definition sat_add :: "nat \<Rightarrow> nat \<Rightarrow> nat" where
  "sat_add a b = min (a + b) u64_max"

definition sat_sub :: "nat \<Rightarrow> nat \<Rightarrow> nat" where
  "sat_sub a b = a - b"

definition sat_mul :: "nat \<Rightarrow> nat \<Rightarrow> nat" where
  "sat_mul a b = min (a * b) u64_max"

lemma sat_add_le_max [simp]: "sat_add a b \<le> u64_max"
  by (simp add: sat_add_def)

lemma sat_add_le_sum: "sat_add a b \<le> a + b"
  by (simp add: sat_add_def)

lemma sat_add_eq: "a + b \<le> u64_max \<Longrightarrow> sat_add a b = a + b"
  by (simp add: sat_add_def)

lemma sat_add_less_maxD: "sat_add a b \<le> c \<Longrightarrow> c < u64_max \<Longrightarrow> a + b \<le> c"
  by (auto simp: sat_add_def min_def split: if_splits)

lemma sat_mul_le_max [simp]: "sat_mul a b \<le> u64_max"
  by (simp add: sat_mul_def)

text \<open>The same operations on machine words.\<close>

definition wsat_add :: "u64 \<Rightarrow> u64 \<Rightarrow> u64" where
  "wsat_add a b = (if unat a + unat b \<le> u64_max then a + b else - 1)"

definition wsat_sub :: "u64 \<Rightarrow> u64 \<Rightarrow> u64" where
  "wsat_sub a b = (if a \<le> b then 0 else a - b)"

definition wsat_mul :: "u64 \<Rightarrow> u64 \<Rightarrow> u64" where
  "wsat_mul a b = (if unat a * unat b \<le> u64_max then a * b else - 1)"

definition wchecked_add :: "'a::len word \<Rightarrow> 'a word \<Rightarrow> 'a word option" where
  "wchecked_add a b = (if unat a + unat b < 2 ^ LENGTH('a) then Some (a + b) else None)"

definition wchecked_mul :: "'a::len word \<Rightarrow> 'a word \<Rightarrow> 'a word option" where
  "wchecked_mul a b = (if unat a * unat b < 2 ^ LENGTH('a) then Some (a * b) else None)"

text \<open>\<open>u64::div_ceil\<close>; the callers never divide by zero.\<close>

definition wdiv_ceil :: "u64 \<Rightarrow> u64 \<Rightarrow> u64" where
  "wdiv_ceil a b = (if a mod b = 0 then a div b else a div b + 1)"

lemma unat_max_word: "unat (- 1 :: u64) = u64_max"
  by (simp add: u64_max_def unsigned_minus_1_eq_mask mask_eq_exp_minus_1)

lemma unat_le_max: "unat (a :: u64) \<le> u64_max"
proof -
  have "unat a < 2 ^ 64" using unsigned_less [of a] by simp
  then show ?thesis by (simp add: u64_max_def)
qed

lemma unat_wsat_add: "unat (wsat_add a b) = min (unat a + unat b) u64_max"
proof (cases "unat a + unat b \<le> u64_max")
  case True
  then have "unat (a + b) = unat a + unat b"
    by (simp add: unat_word_ariths u64_max_def)
  with True show ?thesis by (simp add: wsat_add_def)
next
  case False
  then show ?thesis by (simp add: wsat_add_def unat_max_word)
qed

lemma unat_wsat_sub: "unat (wsat_sub a b) = unat a - unat b"
  by (simp add: wsat_sub_def word_le_nat_alt unat_sub_if')

lemma unat_wsat_mul: "unat (wsat_mul a b) = min (unat a * unat b) u64_max"
proof (cases "unat a * unat b \<le> u64_max")
  case True
  then have "unat (a * b) = unat a * unat b"
    by (simp add: unat_word_ariths u64_max_def)
  with True show ?thesis by (simp add: wsat_mul_def)
next
  case False
  then show ?thesis by (simp add: wsat_mul_def unat_max_word)
qed

lemma wchecked_add_Some: "wchecked_add a b = Some c \<Longrightarrow> unat c = unat a + unat b"
  by (auto simp: wchecked_add_def unat_word_ariths split: if_splits)

lemma wchecked_mul_Some: "wchecked_mul a b = Some c \<Longrightarrow> unat c = unat a * unat b"
  by (auto simp: wchecked_mul_def unat_word_ariths split: if_splits)

subsection \<open>Errors and results\<close>

text \<open>
  The failures of the pipeline as values. \<open>External\<close> carries an error returned by code
  outside the repository (the Parquet encoder, the catalogue, the file system).
\<close>

datatype cap_error =
    WorkerNotRunning
  | ShuttingDown
  | ItemExceedsByteCapacity nat string
  | QueueOnlyControls
  | QueueFull nat nat
  | SealQueueFull
  | LostBeforeShutdown
  | CaptureWriteFailure cap_error
  | InitializationNeedsFreshSegment
  | MissingInstrumentMetadata
  | EmptyBatch
  | SchemaMismatch string
  | InvalidConfig string
  | External string

type_synonym 'a result = "cap_error + 'a"

definition map_result :: "('a \<Rightarrow> 'b) \<Rightarrow> 'a result \<Rightarrow> 'b result" where
  "map_result f r = (case r of Inl e \<Rightarrow> Inl e | Inr x \<Rightarrow> Inr (f x))"

lemma map_result_simps [simp]:
  "map_result f (Inl e) = Inl e" "map_result f (Inr x) = Inr (f x)"
  by (simp_all add: map_result_def)

lemma isl_map_result [simp]: "isl (map_result f r) = isl r"
  by (cases r) simp_all

subsection \<open>Hash maps\<close>

text \<open>
  The interface of \<open>std::collections::HashMap\<close> as far as the code uses it: lookup, insert,
  remove and the key set. Iteration order is not part of it.
\<close>

locale hash_map =
  fixes get :: "'m \<Rightarrow> 'k \<Rightarrow> 'v option"
    and ins :: "'k \<Rightarrow> 'v \<Rightarrow> 'm \<Rightarrow> 'm"
    and del :: "'k \<Rightarrow> 'm \<Rightarrow> 'm"
    and keys :: "'m \<Rightarrow> 'k list"
    and valid :: "'m \<Rightarrow> bool"
  assumes get_ins: "get (ins k v m) k' = (if k' = k then Some v else get m k')"
    and get_del: "get (del k m) k' = (if k' = k then None else get m k')"
    and keys_get: "k \<in> set (keys m) \<longleftrightarrow> get m k \<noteq> None"
    and valid_keys: "valid m \<Longrightarrow> distinct (keys m)"
    and valid_ins: "valid m \<Longrightarrow> valid (ins k v m)"
    and valid_del: "valid m \<Longrightarrow> valid (del k m)"
begin

lemma get_fold_del: "get (fold del ks m) k = (if k \<in> set ks then None else get m k)"
  by (induction ks arbitrary: m) (auto simp: get_del)

lemma keys_fold_del: "set (keys (fold del ks m)) = set (keys m) - set ks"
  by (auto simp: keys_get get_fold_del split: if_splits)

lemma drained:
  assumes "set (keys m) \<subseteq> set ks"
  shows "keys (fold del ks m) = []"
  using keys_fold_del [of ks m] assms by (metis Diff_eq_empty_iff set_empty)

lemma valid_fold_del: "valid m \<Longrightarrow> valid (fold del ks m)"
  by (induction ks arbitrary: m) (auto intro: valid_del)

lemma card_keys: "valid m \<Longrightarrow> card (set (keys m)) = length (keys m)"
  by (simp add: valid_keys distinct_card)

lemma length_keys_del: "valid m \<Longrightarrow> get m k \<noteq> None \<Longrightarrow> length (keys (del k m)) = length (keys m) - 1"
proof -
  assume m: "valid m" and k: "get m k \<noteq> None"
  have "set (keys (del k m)) = set (keys m) - {k}"
    by (auto simp: keys_get get_del split: if_splits)
  moreover have "k \<in> set (keys m)" using k by (simp add: keys_get)
  ultimately have "card (set (keys (del k m))) = card (set (keys m)) - 1" by simp
  then show ?thesis by (simp add: card_keys m valid_del)
qed

lemma length_keys_ins: "valid m \<Longrightarrow> length (keys (ins k v m)) =
    (if get m k = None then Suc (length (keys m)) else length (keys m))"
proof -
  assume m: "valid m"
  have "set (keys (ins k v m)) = insert k (set (keys m))"
    by (auto simp: keys_get get_ins split: if_splits)
  then have "card (set (keys (ins k v m))) = card (insert k (set (keys m)))" by simp
  then show ?thesis
    by (simp add: card_keys m valid_ins card_insert_if keys_get)
qed

end

text \<open>The model's hash maps: association lists with distinct keys.\<close>

type_synonym 'v hmap = "(string \<times> 'v) list"

definition hm_keys :: "('k \<times> 'v) list \<Rightarrow> 'k list" where
  "hm_keys m = map fst m"

definition hm_valid :: "('k \<times> 'v) list \<Rightarrow> bool" where
  "hm_valid m = distinct (map fst m)"

lemma hm_keys_Nil [simp]: "hm_keys [] = []" "(hm_keys m = []) = (m = [])"
  by (simp_all add: hm_keys_def)

lemma hm_valid_Nil [simp]: "hm_valid []"
  by (simp add: hm_valid_def)

lemma length_hm_keys [simp]: "length (hm_keys m) = length m"
  by (simp add: hm_keys_def)

interpretation hm: hash_map map_of AList.update AList.delete hm_keys hm_valid
proof unfold_locales
  fix k k' :: 'a and v :: 'b and m :: "('a \<times> 'b) list"
  show "map_of (AList.update k v m) k' = (if k' = k then Some v else map_of m k')"
    by (simp add: update_conv')
  show "map_of (AList.delete k m) k' = (if k' = k then None else map_of m k')"
    by (simp add: delete_conv')
  show "(k \<in> set (hm_keys m)) = (map_of m k \<noteq> None)"
    by (force simp: hm_keys_def map_of_eq_None_iff)
  show "distinct (hm_keys m)" if "hm_valid m"
    using that by (simp add: hm_valid_def hm_keys_def)
  show "hm_valid (AList.update k v m)" if "hm_valid m"
    using that by (simp add: hm_valid_def distinct_update)
  show "hm_valid (AList.delete k m)" if "hm_valid m"
    using that by (simp add: hm_valid_def distinct_delete)
qed

text \<open>
  Iterating a hash map visits every key once, in an order the program cannot choose: the
  model takes the order as a function of the current keys, and the theorems hold for every
  such function.
\<close>

definition perm_order :: "('k list \<Rightarrow> 'k list) \<Rightarrow> bool" where
  "perm_order ord = (\<forall>ks. mset (ord ks) = mset ks)"

lemma perm_order_set: "perm_order ord \<Longrightarrow> set (ord ks) = set ks"
  by (auto simp: perm_order_def dest!: spec [of _ ks] mset_eq_setD)

lemma perm_order_length: "perm_order ord \<Longrightarrow> length (ord ks) = length ks"
  by (auto simp: perm_order_def dest!: spec [of _ ks] mset_eq_length)

lemma perm_order_distinct: "perm_order ord \<Longrightarrow> distinct (ord ks) = distinct ks"
  by (auto simp: perm_order_def dest!: spec [of _ ks] mset_eq_imp_distinct_iff)

lemma perm_order_id [simp]: "perm_order (\<lambda>ks. ks)"
  by (simp add: perm_order_def)

subsection \<open>Lists\<close>

lemma sum_list_delete:
  assumes "hm_valid m" "map_of m k = Some v"
  shows "sum_list (map f (map snd (AList.delete k m))) + (f v :: nat) = sum_list (map f (map snd m))"
  using assms
proof (induction m)
  case Nil
  then show ?case by simp
next
  case (Cons p m)
  obtain a b where p: "p = (a, b)" by (cases p)
  show ?case
  proof (cases "a = k")
    case True
    have "k \<notin> fst ` set m" using Cons.prems(1) True p by (auto simp: hm_valid_def)
    then have "AList.delete k m = m" by (simp add: AList.delete_eq filter_id_conv) force
    then show ?thesis using True p Cons.prems(2) by simp
  next
    case False
    have "hm_valid m" using Cons.prems(1) by (simp add: hm_valid_def)
    then show ?thesis using Cons.IH Cons.prems False p by simp
  qed
qed

lemma map_of_delete_ne [simp]: "k' \<noteq> k \<Longrightarrow> map_of (AList.delete k m) k' = map_of m k'"
  by (simp add: hm.get_del)

lemma remdups_adj_sorted: "sorted xs \<Longrightarrow> sorted (remdups_adj xs) \<and> distinct (remdups_adj xs)"
  by (induction xs rule: remdups_adj.induct) auto

text \<open>\<open>Iterator::position\<close>: the index of the first element that satisfies the predicate.\<close>

fun position :: "('a \<Rightarrow> bool) \<Rightarrow> 'a list \<Rightarrow> nat option" where
  "position P [] = None"
| "position P (x # xs) = (if P x then Some 0 else map_option Suc (position P xs))"

lemma position_None: "position P xs = None \<longleftrightarrow> (\<forall>x \<in> set xs. \<not> P x)"
  by (induction xs) auto

lemma position_Some:
  "position P xs = Some i \<Longrightarrow> i < length xs \<and> P (xs ! i) \<and> (\<forall>j < i. \<not> P (xs ! j))"
proof (induction xs arbitrary: i)
  case Nil
  then show ?case by simp
next
  case (Cons x xs)
  show ?case
  proof (cases "P x")
    case True
    with Cons.prems show ?thesis by simp
  next
    case False
    with Cons.prems obtain j where j: "position P xs = Some j" "i = Suc j" by auto
    with Cons.IH [OF j(1)] False show ?thesis by (auto simp: nth_Cons split: nat.splits)
  qed
qed

lemma position_split:
  assumes "position P xs = Some i"
  shows "xs = take i xs @ xs ! i # drop (Suc i) xs" "\<forall>x \<in> set (take i xs). \<not> P x" "P (xs ! i)"
proof -
  note i = position_Some [OF assms]
  from i show "xs = take i xs @ xs ! i # drop (Suc i) xs" by (simp add: id_take_nth_drop)
  from i show "\<forall>x \<in> set (take i xs). \<not> P x" by (auto simp: in_set_conv_nth)
  from i show "P (xs ! i)" by simp
qed

text \<open>\<open>Iterator::rposition\<close>: the index of the last one.\<close>

definition rposition :: "('a \<Rightarrow> bool) \<Rightarrow> 'a list \<Rightarrow> nat option" where
  "rposition P xs = map_option (\<lambda>i. length xs - Suc i) (position P (rev xs))"

lemma rposition_None: "rposition P xs = None \<longleftrightarrow> (\<forall>x \<in> set xs. \<not> P x)"
  by (simp add: rposition_def position_None)

lemma rposition_Some:
  assumes "rposition P xs = Some i"
  shows "i < length xs" "P (xs ! i)" "\<forall>j. i < j \<longrightarrow> j < length xs \<longrightarrow> \<not> P (xs ! j)"
proof -
  from assms obtain k where k: "position P (rev xs) = Some k" "i = length xs - Suc k"
    by (auto simp: rposition_def)
  note p = position_Some [OF k(1)]
  show "i < length xs" using p k(2) by auto
  show "P (xs ! i)" using p k(2) rev_nth [of k xs] by simp
  show "\<forall>j. i < j \<longrightarrow> j < length xs \<longrightarrow> \<not> P (xs ! j)"
  proof (intro allI impI)
    fix j assume j: "i < j" "j < length xs"
    then have "length xs - Suc j < k" using k(2) p by simp
    with p have "\<not> P (rev xs ! (length xs - Suc j))" by blast
    with j show "\<not> P (xs ! j)" by (simp add: rev_nth)
  qed
qed

end
