(* ===== verification/Metrics.thy ===== *)
theory Metrics
  imports Prelude
begin

section \<open>Capture metrics\<close>

text \<open>
  \<open>crates/catalog-capture-core/src/metrics.rs\<close>: the reasons a partition buffer is flushed,
  the counters of one family runtime, operation timings, and the aggregation over families.
  A \<open>Duration\<close> is its number of nanoseconds.
\<close>

datatype flush_reason = Rows | Bytes | Interval | Seal | Shutdown | Manual | Budget

record flush_reason_metrics =
  row_threshold :: nat
  byte_threshold :: nat
  interval :: nat
  seal :: nat
  shutdown :: nat
  manual :: nat
  budget :: nat

fun flush_reason_record :: "flush_reason \<Rightarrow> flush_reason_metrics \<Rightarrow> flush_reason_metrics" where
  "flush_reason_record Rows m = m\<lparr>row_threshold := row_threshold m + 1\<rparr>"
| "flush_reason_record Bytes m = m\<lparr>byte_threshold := byte_threshold m + 1\<rparr>"
| "flush_reason_record Interval m = m\<lparr>interval := interval m + 1\<rparr>"
| "flush_reason_record Seal m = m\<lparr>seal := seal m + 1\<rparr>"
| "flush_reason_record Shutdown m = m\<lparr>shutdown := shutdown m + 1\<rparr>"
| "flush_reason_record Manual m = m\<lparr>manual := manual m + 1\<rparr>"
| "flush_reason_record Budget m = m\<lparr>budget := budget m + 1\<rparr>"

definition flush_reason_total :: "flush_reason_metrics \<Rightarrow> nat" where
  "flush_reason_total m = row_threshold m + byte_threshold m + interval m + seal m
     + shutdown m + manual m + budget m"

lemma flush_reason_total_record [simp]:
  "flush_reason_total (flush_reason_record r m) = Suc (flush_reason_total m)"
  by (cases r) (simp_all add: flush_reason_total_def)

record operation_timing =
  ot_count :: nat
  ot_total_ns :: nat
  ot_max_ns :: nat

definition timing_record :: "nat \<Rightarrow> operation_timing \<Rightarrow> operation_timing" where
  "timing_record elapsed t =
     (let ns = min elapsed u64_max
      in t\<lparr>ot_count := sat_add (ot_count t) 1,
           ot_total_ns := sat_add (ot_total_ns t) ns,
           ot_max_ns := max (ot_max_ns t) ns\<rparr>)"

definition timing_merge :: "operation_timing \<Rightarrow> operation_timing \<Rightarrow> operation_timing" where
  "timing_merge t other =
     t\<lparr>ot_count := sat_add (ot_count t) (ot_count other),
       ot_total_ns := sat_add (ot_total_ns t) (ot_total_ns other),
       ot_max_ns := max (ot_max_ns t) (ot_max_ns other)\<rparr>"

record capture_metrics =
  accepted_items :: nat
  dropped_items :: nat
  write_errors :: nat
  failed_workers :: nat
  flushed_batches :: nat
  flushed_rows :: nat
  completed_files :: nat
  completed_file_bytes :: nat
  active_partitions :: nat
  queued_items :: nat
  queue_capacity_items :: nat
  queue_capacity_bytes :: nat
  queued_bytes_now :: nat
  peak_items :: nat
  peak_bytes :: nat
  buffered_bytes :: nat
  oldest_queued_ns :: nat
  in_flight_items_now :: nat
  in_flight_bytes_now :: nat
  worker_busy_ns :: nat
  active_writers :: nat
  queue_wait :: operation_timing
  sink_write :: operation_timing
  sink_sync :: operation_timing
  sink_seal :: operation_timing
  flush_reasons :: flush_reason_metrics

definition zero_reasons :: flush_reason_metrics where
  "zero_reasons = \<lparr>row_threshold = 0, byte_threshold = 0, interval = 0, seal = 0,
     shutdown = 0, manual = 0, budget = 0\<rparr>"

definition zero_timing :: operation_timing where
  "zero_timing = \<lparr>ot_count = 0, ot_total_ns = 0, ot_max_ns = 0\<rparr>"

definition default_metrics :: capture_metrics where
  "default_metrics = \<lparr>accepted_items = 0, dropped_items = 0, write_errors = 0, failed_workers = 0,
     flushed_batches = 0, flushed_rows = 0, completed_files = 0, completed_file_bytes = 0,
     active_partitions = 0, queued_items = 0, queue_capacity_items = 0, queue_capacity_bytes = 0,
     queued_bytes_now = 0, peak_items = 0, peak_bytes = 0, buffered_bytes = 0,
     oldest_queued_ns = 0, in_flight_items_now = 0, in_flight_bytes_now = 0, worker_busy_ns = 0,
     active_writers = 0, queue_wait = zero_timing, sink_write = zero_timing,
     sink_sync = zero_timing, sink_seal = zero_timing, flush_reasons = zero_reasons\<rparr>"

text \<open>\<open>checked_div\<close> by zero is \<open>None\<close>, and \<open>unwrap_or(0)\<close> makes it zero.\<close>

definition average_file_bytes :: "capture_metrics \<Rightarrow> nat" where
  "average_file_bytes m =
     (if completed_files m = 0 then 0 else completed_file_bytes m div completed_files m)"

definition metrics_merge :: "capture_metrics \<Rightarrow> capture_metrics \<Rightarrow> capture_metrics" where
  "metrics_merge m other = m\<lparr>
     accepted_items := accepted_items m + accepted_items other,
     dropped_items := dropped_items m + dropped_items other,
     write_errors := write_errors m + write_errors other,
     failed_workers := failed_workers m + failed_workers other,
     flushed_batches := flushed_batches m + flushed_batches other,
     flushed_rows := flushed_rows m + flushed_rows other,
     completed_files := completed_files m + completed_files other,
     completed_file_bytes := completed_file_bytes m + completed_file_bytes other,
     active_partitions := active_partitions m + active_partitions other,
     queued_items := queued_items m + queued_items other,
     queue_capacity_items := queue_capacity_items m + queue_capacity_items other,
     queue_capacity_bytes := queue_capacity_bytes m + queue_capacity_bytes other,
     queued_bytes_now := queued_bytes_now m + queued_bytes_now other,
     peak_items := peak_items m + peak_items other,
     peak_bytes := peak_bytes m + peak_bytes other,
     buffered_bytes := buffered_bytes m + buffered_bytes other,
     oldest_queued_ns := max (oldest_queued_ns m) (oldest_queued_ns other),
     in_flight_items_now := in_flight_items_now m + in_flight_items_now other,
     in_flight_bytes_now := in_flight_bytes_now m + in_flight_bytes_now other,
     worker_busy_ns := max (worker_busy_ns m) (worker_busy_ns other),
     active_writers := active_writers m + active_writers other,
     queue_wait := timing_merge (queue_wait m) (queue_wait other),
     sink_write := timing_merge (sink_write m) (sink_write other),
     sink_sync := timing_merge (sink_sync m) (sink_sync other),
     sink_seal := timing_merge (sink_seal m) (sink_seal other),
     flush_reasons := (flush_reasons m)\<lparr>
       row_threshold := row_threshold (flush_reasons m) + row_threshold (flush_reasons other),
       byte_threshold := byte_threshold (flush_reasons m) + byte_threshold (flush_reasons other),
       interval := interval (flush_reasons m) + interval (flush_reasons other),
       seal := seal (flush_reasons m) + seal (flush_reasons other),
       shutdown := shutdown (flush_reasons m) + shutdown (flush_reasons other),
       manual := manual (flush_reasons m) + manual (flush_reasons other),
       budget := budget (flush_reasons m) + budget (flush_reasons other)\<rparr>\<rparr>"

text \<open>
  Aggregation is a commutative monoid, so the order in which the families are folded into
  the process snapshot does not show in it.
\<close>

lemma timing_merge_commute: "timing_merge a b = timing_merge b a"
  by (cases a; cases b) (simp add: timing_merge_def sat_add_def ac_simps)

lemma timing_merge_assoc: "timing_merge (timing_merge a b) c = timing_merge a (timing_merge b c)"
proof -
  have sat: "sat_add (sat_add x y) z = sat_add x (sat_add y z)" for x y z
    by (simp add: sat_add_def min_def)
  show ?thesis
    by (cases a; cases b; cases c) (simp add: timing_merge_def sat max.assoc)
qed

lemma metrics_merge_commute: "metrics_merge a b = metrics_merge b a"
proof -
  have "flush_reasons (metrics_merge a b) = flush_reasons (metrics_merge b a)"
    by (cases "flush_reasons a"; cases "flush_reasons b")
       (simp add: metrics_merge_def add.commute)
  then show ?thesis
    by (intro capture_metrics.equality)
       (simp_all add: metrics_merge_def add.commute max.commute timing_merge_commute)
qed

lemma metrics_merge_assoc:
  "metrics_merge (metrics_merge a b) c = metrics_merge a (metrics_merge b c)"
  by (intro capture_metrics.equality)
     (simp_all add: metrics_merge_def add.assoc max.assoc timing_merge_assoc)

end
