(* ===== verification/Failures.thy ===== *)
theory Failures
  imports Prelude
begin

section \<open>The bounded failure history\<close>

text \<open>
  \<open>crates/catalog-capture-core/src/failures.rs\<close>: a bounded list of coalesced failures shared
  by admission, the writer and the observers. Each observer keeps a cursor, the generation it
  has read up to, and asks which partitions failed since. The wall clock is read once per
  recorded failure; the model takes its readings as a function of the number of reads. The
  mutex around the state is not modelled: every operation holds it for its whole body.
\<close>

datatype failure_operation = Admission | Write | Sync | Seal

record partition_failure =
  pf_generation :: nat
  pf_partition :: "string option"
  pf_operation :: failure_operation
  pf_occurrences :: nat
  pf_first_ms :: nat
  pf_last_ms :: nat
  pf_range :: "(nat \<times> nat) option"

record failure_snapshot =
  fs_generation :: nat
  fs_evicted_through :: nat
  fs_records :: "partition_failure list"

datatype affected_partitions = Family | Partitions "string set"

fun affected_contains :: "affected_partitions \<Rightarrow> string \<Rightarrow> bool" where
  "affected_contains Family key = True"
| "affected_contains (Partitions ks) key = (key \<in> ks)"

record failure_tracker =
  ft_state :: failure_snapshot
  ft_capacity :: nat
  ft_wall :: "nat \<Rightarrow> nat"
  ft_reads :: nat

definition tracker_new :: "nat \<Rightarrow> (nat \<Rightarrow> nat) \<Rightarrow> failure_tracker" where
  "tracker_new capacity wall =
     \<lparr>ft_state = \<lparr>fs_generation = 0, fs_evicted_through = 0, fs_records = []\<rparr>,
      ft_capacity = max capacity 1, ft_wall = wall, ft_reads = 0\<rparr>"

text \<open>The merged event range of a coalesced record: known only when both sides are.\<close>

fun merge_range :: "(nat \<times> nat) option \<Rightarrow> (nat \<times> nat) option \<Rightarrow> (nat \<times> nat) option" where
  "merge_range (Some (a, b)) (Some (c, d)) = Some (min a c, max b d)"
| "merge_range _ _ = None"

definition tracker_record ::
  "string option \<Rightarrow> failure_operation \<Rightarrow> (nat \<times> nat) option \<Rightarrow> failure_tracker \<Rightarrow> failure_tracker" where
  "tracker_record part op rng t =
     (let s = ft_state t;
          generation = sat_add (fs_generation s) 1;
          now = ft_wall t (ft_reads t);
          rs = fs_records s;
          t' = t\<lparr>ft_reads := ft_reads t + 1\<rparr>
      in if rs \<noteq> [] \<and> pf_partition (last rs) = part \<and> pf_operation (last rs) = op
         then t'\<lparr>ft_state := s\<lparr>fs_generation := generation, fs_records := butlast rs @
                [(last rs)\<lparr>pf_generation := generation,
                           pf_occurrences := sat_add (pf_occurrences (last rs)) 1,
                           pf_last_ms := now,
                           pf_range := merge_range (pf_range (last rs)) rng\<rparr>]\<rparr>\<rparr>
         else
           let s' = (if length rs = ft_capacity t \<and> rs \<noteq> []
                     then s\<lparr>fs_evicted_through := pf_generation (hd rs), fs_records := tl rs\<rparr>
                     else s)
           in t'\<lparr>ft_state := s'\<lparr>fs_generation := generation, fs_records := fs_records s' @
                [\<lparr>pf_generation = generation, pf_partition = part, pf_operation = op,
                  pf_occurrences = 1, pf_first_ms = now, pf_last_ms = now, pf_range = rng\<rparr>]\<rparr>\<rparr>)"

definition tracker_snapshot :: "failure_tracker \<Rightarrow> failure_snapshot" where
  "tracker_snapshot t = ft_state t"

text \<open>The loop that collects the keys and gives up on the first failure of unknown scope.\<close>

fun collect_keys :: "string set \<Rightarrow> partition_failure list \<Rightarrow> affected_partitions" where
  "collect_keys keys [] = Partitions keys"
| "collect_keys keys (f # fs) =
     (case pf_partition f of None \<Rightarrow> Family | Some k \<Rightarrow> collect_keys (insert k keys) fs)"

definition changed_partitions ::
  "nat \<Rightarrow> failure_tracker \<Rightarrow> affected_partitions option \<times> nat" where
  "changed_partitions cursor t =
     (let s = ft_state t
      in if cursor = fs_generation s then (None, cursor)
         else if cursor < fs_evicted_through s \<or> fs_generation s < cursor
         then (Some Family, fs_generation s)
         else (Some (collect_keys {} (filter (\<lambda>f. cursor < pf_generation f) (fs_records s))),
               fs_generation s))"

subsection \<open>Events, and what the history keeps of them\<close>

type_synonym failure_event = "string option \<times> failure_operation \<times> (nat \<times> nat) option"

definition record_all :: "failure_event list \<Rightarrow> failure_tracker \<Rightarrow> failure_tracker" where
  "record_all es t = fold (\<lambda>(p, op, r). tracker_record p op r) es t"

lemma record_all_simps [simp]:
  "record_all [] t = t"
  "record_all ((p, op, r) # es) t = record_all es (tracker_record p op r t)"
  "record_all (xs @ ys) t = record_all ys (record_all xs t)"
  by (simp_all add: record_all_def)

text \<open>
  The invariant relates a tracker to the failures recorded in it so far: generations count
  them, the retained records are in increasing generation order above the evicted ones, a
  record stands for the event that made or last touched it, and every event newer than the
  eviction point is covered by a record of its own partition at its generation or later.
\<close>

definition history_ok :: "failure_event list \<Rightarrow> nat \<Rightarrow> partition_failure list \<Rightarrow> bool" where
  "history_ok es ev rs = (ev \<le> length es
     \<and> sorted_wrt (<) (map pf_generation rs)
     \<and> (\<forall>f \<in> set rs. ev < pf_generation f \<and> pf_generation f \<le> length es
          \<and> pf_partition f = fst (es ! (pf_generation f - 1)))
     \<and> (\<forall>i < length es. ev \<le> i \<longrightarrow>
          (\<exists>f \<in> set rs. i < pf_generation f \<and> pf_partition f = fst (es ! i))))"

definition tracker_inv :: "failure_event list \<Rightarrow> failure_tracker \<Rightarrow> bool" where
  "tracker_inv es t = (fs_generation (ft_state t) = length es \<and> 0 < ft_capacity t
     \<and> length (fs_records (ft_state t)) \<le> ft_capacity t
     \<and> history_ok es (fs_evicted_through (ft_state t)) (fs_records (ft_state t)))"

lemma tracker_inv_new: "tracker_inv [] (tracker_new capacity wall)"
  by (simp add: tracker_inv_def history_ok_def tracker_new_def)

lemma history_ok_push:
  assumes ok: "history_ok es ev rs" and g: "pf_generation f = Suc (length es)"
    and p: "pf_partition f = fst e"
  shows "history_ok (es @ [e]) ev (rs @ [f])"
proof -
  have sorted: "sorted_wrt (<) (map pf_generation (rs @ [f]))"
    using ok g by (auto simp: history_ok_def sorted_wrt_append)
  have mem: "\<forall>f' \<in> set (rs @ [f]). ev < pf_generation f' \<and> pf_generation f' \<le> length (es @ [e])
      \<and> pf_partition f' = fst ((es @ [e]) ! (pf_generation f' - 1))"
    using ok g p by (auto simp: history_ok_def nth_append)
  have cover: "\<exists>f' \<in> set (rs @ [f]). i < pf_generation f' \<and> pf_partition f' = fst ((es @ [e]) ! i)"
    if "i < length (es @ [e])" "ev \<le> i" for i
    using that ok g p by (cases "i < length es") (fastforce simp: history_ok_def nth_append)+
  show ?thesis using ok sorted mem cover by (auto simp: history_ok_def)
qed

lemma history_ok_touch:
  assumes ok: "history_ok es ev (rs @ [l])" and g: "pf_generation f = Suc (length es)"
    and pl: "pf_partition l = fst e" and pf: "pf_partition f = fst e"
  shows "history_ok (es @ [e]) ev (rs @ [f])"
proof -
  have sorted: "sorted_wrt (<) (map pf_generation (rs @ [f]))"
    using ok g by (auto simp: history_ok_def sorted_wrt_append)
  have mem: "\<forall>f' \<in> set (rs @ [f]). ev < pf_generation f' \<and> pf_generation f' \<le> length (es @ [e])
      \<and> pf_partition f' = fst ((es @ [e]) ! (pf_generation f' - 1))"
    using ok g pf by (auto simp: history_ok_def nth_append)
  have cover: "\<exists>f' \<in> set (rs @ [f]). i < pf_generation f' \<and> pf_partition f' = fst ((es @ [e]) ! i)"
    if i: "i < length (es @ [e])" "ev \<le> i" for i
  proof (cases "i < length es")
    case True
    with ok i obtain f' where f': "f' \<in> set (rs @ [l])" "i < pf_generation f'"
      "pf_partition f' = fst (es ! i)"
      by (auto simp: history_ok_def)
    show ?thesis
    proof (cases "f' \<in> set rs")
      case True
      with f' \<open>i < length es\<close> show ?thesis by (auto simp: nth_append)
    next
      case False
      with f' have "f' = l" by auto
      with f' \<open>i < length es\<close> pl pf g show ?thesis by (auto simp: nth_append)
    qed
  next
    case False
    with i g pf show ?thesis by (auto simp: nth_append)
  qed
  show ?thesis using ok sorted mem cover by (auto simp: history_ok_def)
qed

lemma history_ok_evict:
  assumes ok: "history_ok es ev (r # rs)"
  shows "history_ok es (pf_generation r) rs"
proof -
  have "\<exists>f \<in> set rs. i < pf_generation f \<and> pf_partition f = fst (es ! i)"
    if i: "i < length es" "pf_generation r \<le> i" for i
  proof -
    have "ev \<le> i" using ok i by (auto simp: history_ok_def)
    moreover have "\<forall>i < length es. ev \<le> i \<longrightarrow>
        (\<exists>f \<in> set (r # rs). i < pf_generation f \<and> pf_partition f = fst (es ! i))"
      using ok unfolding history_ok_def by blast
    ultimately obtain f where "f \<in> set (r # rs)" "i < pf_generation f"
      "pf_partition f = fst (es ! i)" using i(1) by blast
    with i(2) show ?thesis by auto
  qed
  with ok show ?thesis by (auto simp: history_ok_def)
qed

text \<open>One recorded failure keeps the invariant, as long as the generation has not saturated.\<close>

lemma tracker_inv_record:
  assumes inv: "tracker_inv es t" and n: "length es < u64_max"
  shows "tracker_inv (es @ [(p, op, r)]) (tracker_record p op r t)"
proof -
  let ?rs = "fs_records (ft_state t)" and ?ev = "fs_evicted_through (ft_state t)"
  have gen: "sat_add (fs_generation (ft_state t)) 1 = Suc (length es)"
    using inv n by (simp add: tracker_inv_def sat_add_eq)
  have ok: "history_ok es ?ev ?rs" using inv by (simp add: tracker_inv_def)
  consider (touch) "?rs \<noteq> []" "pf_partition (last ?rs) = p" "pf_operation (last ?rs) = op"
    | (push) "\<not> (?rs \<noteq> [] \<and> pf_partition (last ?rs) = p \<and> pf_operation (last ?rs) = op)"
    by blast
  then show ?thesis
  proof cases
    case touch
    have "history_ok es ?ev (butlast ?rs @ [last ?rs])" using ok touch(1) by simp
    from history_ok_touch [OF this, where e = "(p, op, r)"]
    show ?thesis using inv touch gen
      by (simp add: tracker_inv_def tracker_record_def Let_def)
  next
    case push
    show ?thesis
    proof (cases "length ?rs = ft_capacity t \<and> ?rs \<noteq> []")
      case True
      then obtain r0 rs0 where rs: "?rs = r0 # rs0" by (cases ?rs) auto
      with ok have "history_ok es (pf_generation r0) rs0" by (auto intro: history_ok_evict)
      from history_ok_push [OF this, where e = "(p, op, r)"]
      show ?thesis using inv True gen rs
        unfolding tracker_record_def Let_def if_not_P [OF push]
        by (simp add: tracker_inv_def)
    next
      case False
      from history_ok_push [OF ok, where e = "(p, op, r)"]
      show ?thesis using inv False gen
        unfolding tracker_record_def Let_def if_not_P [OF push] if_not_P [OF False]
        by (auto simp: tracker_inv_def)
    qed
  qed
qed

lemma tracker_inv_record_all:
  "tracker_inv es t \<Longrightarrow> length es + length xs \<le> u64_max \<Longrightarrow> tracker_inv (es @ xs) (record_all xs t)"
proof (induction xs arbitrary: es t)
  case Nil
  then show ?case by simp
next
  case (Cons x xs)
  obtain p op r where x: "x = (p, op, r)" by (cases x) auto
  have "tracker_inv (es @ [x]) (tracker_record p op r t)"
    using Cons.prems x by (auto intro: tracker_inv_record)
  from Cons.IH [OF this] Cons.prems(2) x show ?case by simp
qed

lemma collect_keys_Family: "collect_keys keys fs = Family \<longleftrightarrow> (\<exists>f \<in> set fs. pf_partition f = None)"
  by (induction keys fs rule: collect_keys.induct) (auto split: option.splits)

lemma collect_keys_Partitions:
  "collect_keys keys fs = Partitions ks \<Longrightarrow> ks = keys \<union> {k. \<exists>f \<in> set fs. pf_partition f = Some k}"
  by (induction keys fs rule: collect_keys.induct) (auto split: option.splits)

lemma collect_keys_contains:
  "affected_contains (collect_keys keys fs) k \<longleftrightarrow>
    k \<in> keys \<or> (\<exists>f \<in> set fs. pf_partition f = None \<or> pf_partition f = Some k)"
proof (cases "collect_keys keys fs")
  case Family
  then have "\<exists>f \<in> set fs. pf_partition f = None" by (simp only: collect_keys_Family)
  with Family show ?thesis by auto
next
  case (Partitions ks)
  then have "\<not> (\<exists>f \<in> set fs. pf_partition f = None)"
    using collect_keys_Family [of keys fs] by simp
  with Partitions collect_keys_Partitions [OF Partitions] show ?thesis by auto
qed

lemma poll_idle_iff: "fst (changed_partitions c t) = None \<longleftrightarrow> c = fs_generation (ft_state t)"
  by (simp add: changed_partitions_def Let_def)

lemma poll_cursor_gen: "snd (changed_partitions c t) = fs_generation (ft_state t)"
  by (simp add: changed_partitions_def Let_def)

text \<open>
  What a reader at cursor \<open>c\<close> is told, in terms of the recorded events: everything when
  history it has not read was evicted, and otherwise exactly the partitions of the events from
  \<open>c\<close> on, where an event of unknown scope stands for every partition.
\<close>

lemma poll_contains:
  assumes inv: "tracker_inv es t" and c: "c < length es"
  shows "\<exists>a. fst (changed_partitions c t) = Some a \<and> (affected_contains a k \<longleftrightarrow>
    c < fs_evicted_through (ft_state t)
    \<or> (\<exists>i < length es. c \<le> i \<and> (fst (es ! i) = None \<or> fst (es ! i) = Some k)))"
proof (cases "c < fs_evicted_through (ft_state t)")
  case True
  then show ?thesis using inv c by (auto simp: changed_partitions_def Let_def tracker_inv_def)
next
  case False
  let ?rs = "fs_records (ft_state t)"
  have ok: "history_ok es (fs_evicted_through (ft_state t)) ?rs"
    using inv by (simp add: tracker_inv_def)
  have fwd: "\<exists>i < length es. c \<le> i \<and> fst (es ! i) = pf_partition f"
    if "f \<in> set ?rs" "c < pf_generation f" for f
    using ok that by (intro exI [of _ "pf_generation f - 1"]) (auto simp: history_ok_def)
  have bwd: "\<exists>f \<in> set ?rs. c < pf_generation f \<and> pf_partition f = fst (es ! i)"
    if "i < length es" "c \<le> i" for i
  proof -
    have "\<forall>i < length es. fs_evicted_through (ft_state t) \<le> i \<longrightarrow>
        (\<exists>f \<in> set ?rs. i < pf_generation f \<and> pf_partition f = fst (es ! i))"
      using ok unfolding history_ok_def by blast
    moreover have "fs_evicted_through (ft_state t) \<le> i" using that False by simp
    ultimately show ?thesis using that by (meson le_less_trans)
  qed
  have "(\<exists>f \<in> set ?rs. c < pf_generation f \<and> (pf_partition f = None \<or> pf_partition f = Some k))
      \<longleftrightarrow> (\<exists>i < length es. c \<le> i \<and> (fst (es ! i) = None \<or> fst (es ! i) = Some k))"
    using fwd bwd by metis
  then show ?thesis using inv c False
    by (auto simp: changed_partitions_def Let_def tracker_inv_def collect_keys_contains)
qed

lemma evicted_mono:
  "tracker_inv es t \<Longrightarrow>
    fs_evicted_through (ft_state t) \<le> fs_evicted_through (ft_state (tracker_record p op r t))"
  by (cases "fs_records (ft_state t)")
     (auto simp: tracker_record_def Let_def tracker_inv_def history_ok_def)

subsection \<open>The history as an interface\<close>

text \<open>
  What admission and the writer rely on: recording an event moves the generation forward, and
  an observer that polls with the generation it saw before learns of every partition recorded
  in between.
\<close>

locale failure_log =
  fixes log :: "string option \<Rightarrow> failure_operation \<Rightarrow> (nat \<times> nat) option \<Rightarrow> 't \<Rightarrow> 't"
    and poll :: "nat \<Rightarrow> 't \<Rightarrow> affected_partitions option \<times> nat"
    and gen :: "'t \<Rightarrow> nat"
    and valid :: "'t \<Rightarrow> bool"
  assumes gen_log: "valid t \<Longrightarrow> gen t < u64_max \<Longrightarrow> gen (log p op r t) = Suc (gen t)"
    and valid_log: "valid t \<Longrightarrow> gen t < u64_max \<Longrightarrow> valid (log p op r t)"
    and poll_cursor: "snd (poll c t) = gen t"
    and poll_idle: "fst (poll (gen t) t) = None"
    and poll_kept: "valid t \<Longrightarrow> gen t < u64_max \<Longrightarrow> c \<le> gen t \<Longrightarrow> c < gen t \<Longrightarrow>
        fst (poll c t) = Some a \<Longrightarrow> affected_contains a k \<Longrightarrow>
        \<exists>a'. fst (poll c (log p op r t)) = Some a' \<and> affected_contains a' k"
    and poll_now: "valid t \<Longrightarrow> gen t < u64_max \<Longrightarrow> c \<le> gen t \<Longrightarrow>
        \<exists>a'. fst (poll c (log (Some k) op r t)) = Some a' \<and> affected_contains a' k"
begin

abbreviation log_all :: "failure_event list \<Rightarrow> 't \<Rightarrow> 't" where
  "log_all es t \<equiv> fold (\<lambda>(p, op, r). log p op r) es t"

lemma gen_log_all:
  "valid t \<Longrightarrow> gen t + length es \<le> u64_max \<Longrightarrow>
    gen (log_all es t) = gen t + length es \<and> valid (log_all es t)"
  by (induction es arbitrary: t) (auto simp: gen_log valid_log)

lemma poll_log_kept:
  "valid t \<Longrightarrow> gen t + length es \<le> u64_max \<Longrightarrow> c < gen t \<Longrightarrow>
    fst (poll c t) = Some a \<Longrightarrow> affected_contains a k \<Longrightarrow>
    \<exists>a'. fst (poll c (log_all es t)) = Some a' \<and> affected_contains a' k"
proof (induction es arbitrary: t a)
  case Nil
  then show ?case by auto
next
  case (Cons e es)
  obtain p op r where e: "e = (p, op, r)" by (cases e) auto
  from Cons.prems have g: "gen t < u64_max" by simp
  from poll_kept [OF Cons.prems(1) g less_imp_le [OF Cons.prems(3)] Cons.prems(3-5), of p op r]
  obtain a' where "fst (poll c (log p op r t)) = Some a'" "affected_contains a' k" by blast
  with Cons.IH [of "log p op r t" a'] Cons.prems g e show ?case by (auto simp: gen_log valid_log)
qed

lemma poll_log_all:
  "valid t \<Longrightarrow> gen t + length es \<le> u64_max \<Longrightarrow> c \<le> gen t \<Longrightarrow> (Some k, op, r) \<in> set es \<Longrightarrow>
    \<exists>a. fst (poll c (log_all es t)) = Some a \<and> affected_contains a k"
proof (induction es arbitrary: t)
  case Nil
  then show ?case by simp
next
  case (Cons e es)
  obtain p op' r' where e: "e = (p, op', r')" by (cases e) auto
  from Cons.prems have g: "gen t < u64_max" by simp
  show ?case
  proof (cases "(Some k, op, r) \<in> set es")
    case True
    with Cons.IH [of "log p op' r' t"] Cons.prems g e show ?thesis by (auto simp: gen_log valid_log)
  next
    case False
    with Cons.prems e have p: "p = Some k" "op' = op" "r' = r" by auto
    from poll_now [OF Cons.prems(1) g Cons.prems(3), of k op r] p
    obtain a where "fst (poll c (log p op' r' t)) = Some a" "affected_contains a k" by auto
    with poll_log_kept [of "log p op' r' t" es c a k] Cons.prems g e show ?thesis
      by (auto simp: gen_log valid_log)
  qed
qed

end

interpretation fl: failure_log tracker_record changed_partitions
  "\<lambda>t. fs_generation (ft_state t)" "\<lambda>t. \<exists>es. tracker_inv es t"
proof unfold_locales
  fix t :: failure_tracker and p :: "string option" and op r
  assume "\<exists>es. tracker_inv es t" "fs_generation (ft_state t) < u64_max"
  then obtain es where es: "tracker_inv es t" "length es < u64_max" by (auto simp: tracker_inv_def)
  note es' = tracker_inv_record [OF es, of p op r]
  show "fs_generation (ft_state (tracker_record p op r t)) = Suc (fs_generation (ft_state t))"
    using es es' by (simp add: tracker_inv_def)
  show "\<exists>es. tracker_inv es (tracker_record p op r t)" using es' by blast
next
  fix t :: failure_tracker and p :: "string option" and op r c a k
  assume "\<exists>es. tracker_inv es t" and lt: "fs_generation (ft_state t) < u64_max"
    and c: "c < fs_generation (ft_state t)"
    and a: "fst (changed_partitions c t) = Some a" "affected_contains a k"
  then obtain es where es: "tracker_inv es t" by blast
  then have n: "length es < u64_max" "c < length es" using lt c by (auto simp: tracker_inv_def)
  note es' = tracker_inv_record [OF es n(1), of p op r]
  have old: "c < fs_evicted_through (ft_state t)
      \<or> (\<exists>i < length es. c \<le> i \<and> (fst (es ! i) = None \<or> fst (es ! i) = Some k))"
    using poll_contains [OF es n(2), of k] a by auto
  have "c < length (es @ [(p, op, r)])" using n(2) by simp
  from poll_contains [OF es' this, of k] old evicted_mono [OF es, of p op r]
  show "\<exists>a'. fst (changed_partitions c (tracker_record p op r t)) = Some a' \<and> affected_contains a' k"
    by (fastforce simp: nth_append)
next
  fix t :: failure_tracker and op r c k
  assume "\<exists>es. tracker_inv es t" and lt: "fs_generation (ft_state t) < u64_max"
    and c: "c \<le> fs_generation (ft_state t)"
  then obtain es where es: "tracker_inv es t" by blast
  then have n: "length es < u64_max" "c < length (es @ [(Some k, op, r)])"
    using lt c by (auto simp: tracker_inv_def)
  from poll_contains [OF tracker_inv_record [OF es n(1)] n(2), of k] c es
  show "\<exists>a'. fst (changed_partitions c (tracker_record (Some k) op r t)) = Some a'
      \<and> affected_contains a' k"
    by (auto simp: tracker_inv_def)
qed (auto simp: poll_cursor_gen poll_idle_iff)

subsection \<open>Properties\<close>

text \<open>
  C22: no observer misses a failure. Whatever was recorded before an observer last polled, and
  whatever is recorded afterwards, its next poll names every partition that failed in between,
  despite coalescing and eviction, and leaves it at the current generation.
\<close>

theorem failure_observer_misses_nothing:
  assumes "length before + length later \<le> u64_max"
    and "cursor = snd (changed_partitions c0 (record_all before (tracker_new cap wall)))"
    and "(Some k, op, r) \<in> set later"
  shows "\<exists>a. changed_partitions cursor (record_all (before @ later) (tracker_new cap wall))
      = (Some a, length before + length later) \<and> affected_contains a k"
proof -
  let ?t = "record_all before (tracker_new cap wall)"
  have inv: "tracker_inv before ?t"
    using tracker_inv_record_all [OF tracker_inv_new, of before cap wall] assms(1) by simp
  then have gen: "fs_generation (ft_state ?t) = length before" by (simp add: tracker_inv_def)
  have "\<exists>a. fst (changed_partitions cursor (record_all later ?t)) = Some a \<and> affected_contains a k"
    unfolding record_all_def [of later]
    using fl.poll_log_all [of ?t later cursor k op r] inv gen assms by (auto simp: poll_cursor_gen)
  moreover have "fs_generation (ft_state (record_all later ?t)) = length before + length later"
    using tracker_inv_record_all [OF inv, of later] assms(1) by (simp add: tracker_inv_def)
  ultimately show ?thesis by (auto simp: prod_eq_iff poll_cursor_gen)
qed

theorem failure_observer_misses_nothing_witness:
  "\<exists>a. changed_partitions 1
      (record_all ([(Some ''A'', Write, None)] @ [(Some ''B'', Seal, None), (Some ''C'', Seal, None)])
        (tracker_new 1 (\<lambda>_. 0))) = (Some a, 1 + 2) \<and> affected_contains a ''B''"
  using failure_observer_misses_nothing [of "[(Some ''A'', Write, None)]"
      "[(Some ''B'', Seal, None), (Some ''C'', Seal, None)]" 1 0 1 "\<lambda>_. 0" "''B''" Seal None]
  by (simp add: u64_max_def poll_cursor_gen tracker_new_def tracker_record_def sat_add_def)

text \<open>
  no healthy partition is reported. As long as the history an observer has not read is still
  retained, a partition it is told about either failed itself since, or some failure since could
  not be attributed to a partition.
\<close>

theorem failure_observer_precise:
  assumes "length before + length later \<le> u64_max" and "later \<noteq> []"
    and "fs_evicted_through (ft_state (record_all (before @ later) (tracker_new cap wall)))
      \<le> length before"
    and "fst (changed_partitions (length before)
      (record_all (before @ later) (tracker_new cap wall))) = Some a"
    and "affected_contains a k"
  shows "\<exists>p op r. (p, op, r) \<in> set later \<and> (p = None \<or> p = Some k)"
proof -
  let ?t = "record_all (before @ later) (tracker_new cap wall)"
  have inv: "tracker_inv (before @ later) ?t"
    using tracker_inv_record_all [OF tracker_inv_new, of "before @ later" cap wall] assms(1) by simp
  have "length before < length (before @ later)" using assms(2) by simp
  from poll_contains [OF inv this, of k] assms(3-5)
  obtain i where i: "i < length (before @ later)" "length before \<le> i"
    "fst ((before @ later) ! i) = None \<or> fst ((before @ later) ! i) = Some k"
    by (auto simp: not_less)
  then have "later ! (i - length before) \<in> set later" by (intro nth_mem) auto
  with i show ?thesis by (cases "later ! (i - length before)") (fastforce simp: nth_append)
qed

theorem failure_observer_precise_witness:
  "\<exists>p op r. (p, op, r) \<in> set [(Some ''B'', Write, None :: (nat \<times> nat) option)]
      \<and> (p = None \<or> p = Some ''B'')"
  using failure_observer_precise [of "[(Some ''A'', Write, None)]" "[(Some ''B'', Write, None)]"
      2 "\<lambda>_. 0" "Partitions {''B''}" "''B''"]
  by (simp add: u64_max_def changed_partitions_def tracker_new_def tracker_record_def sat_add_def)

text \<open>
  a sustained fault stays bounded: the history never holds more than its capacity (at least
  one) of records, whatever is recorded.
\<close>

theorem failure_history_bounded:
  assumes "length es \<le> u64_max"
  shows "length (fs_records (ft_state (record_all es (tracker_new cap wall)))) \<le> max cap 1
    \<and> fs_generation (ft_state (record_all es (tracker_new cap wall))) = length es"
proof -
  have "ft_capacity (record_all es t) = ft_capacity t" for t
    by (induction es arbitrary: t) (auto simp: tracker_record_def Let_def)
  then show ?thesis
    using tracker_inv_record_all [OF tracker_inv_new, of es cap wall] assms
    by (simp add: tracker_inv_def tracker_new_def)
qed

theorem failure_history_bounded_witness:
  "length (fs_records (ft_state (record_all
      [(Some ''A'', Write, None), (Some ''B'', Write, None)] (tracker_new 1 (\<lambda>_. 0))))) \<le> max 1 1
   \<and> fs_generation (ft_state (record_all
      [(Some ''A'', Write, None), (Some ''B'', Write, None)] (tracker_new 1 (\<lambda>_. 0)))) = 2"
  using failure_history_bounded [of "[(Some ''A'', Write, None), (Some ''B'', Write, None)]" 1 "\<lambda>_. 0"]
  by (simp add: u64_max_def del: record_all_simps)

end
