(* ===== verification/Config.thy ===== *)
theory Config
  imports Prelude
begin

section \<open>Capture configuration, partition keys and flush profiles\<close>

text \<open>
  From \<open>crates/catalog-capture-core/src\<close>: \<open>item.rs\<close> (partition keys and capture items),
  \<open>config.rs\<close>, the lifecycle configuration of \<open>lifecycle/mod.rs\<close>, the per-family thresholds
  of \<open>flush_profile.rs\<close>, the row-group capacity model of \<open>lifecycle/row_group_capacity.rs\<close>
  and the configuration checks of \<open>budget.rs\<close>. Serde attributes are not modelled; the default
  values are. \<open>seconds_to_hard_limit\<close> is floating point and is left out.
\<close>

subsection \<open>Partition keys and capture items\<close>

record partition_key =
  pk_family :: string
  pk_type_name :: string
  pk_identifier :: "string option"
  pk_namespace :: "string option"

definition market_data_key :: "string \<Rightarrow> string \<Rightarrow> partition_key" where
  "market_data_key type_name ident =
     \<lparr>pk_family = ''market_data'', pk_type_name = type_name,
      pk_identifier = Some ident, pk_namespace = None\<rparr>"

definition custom_data_key :: "string \<Rightarrow> string option \<Rightarrow> string \<Rightarrow> partition_key" where
  "custom_data_key type_name ident topic =
     \<lparr>pk_family = ''custom_data'', pk_type_name = type_name,
      pk_identifier = ident, pk_namespace = Some topic\<rparr>"

definition unwrap_or :: "'a \<Rightarrow> 'a option \<Rightarrow> 'a" where
  "unwrap_or d x = (case x of None \<Rightarrow> d | Some v \<Rightarrow> v)"

lemma unwrap_or_simps [simp]: "unwrap_or d None = d" "unwrap_or d (Some v) = v"
  by (simp_all add: unwrap_or_def)

definition stable_key :: "partition_key \<Rightarrow> string" where
  "stable_key k = pk_family k @ ''|'' @ pk_type_name k @ ''|'' @
     unwrap_or ''_'' (pk_identifier k) @ ''|'' @ unwrap_or ''_'' (pk_namespace k)"

record 't capture_item =
  it_key :: partition_key
  it_event_ts :: nat
  it_init_ts :: "nat option"
  it_row_count :: nat
  it_bytes :: nat
  it_payload :: 't

abbreviation it_skey :: "'t capture_item \<Rightarrow> string" where
  "it_skey it \<equiv> stable_key (it_key it)"

subsection \<open>Lifecycle configuration\<close>

datatype lifecycle_mode = Chunked | Segment

record seal_config_file =
  sc_enabled :: bool
  sc_schedule :: string
  sc_timezone :: string
  sc_interval_secs :: nat

definition default_seal_config :: seal_config_file where
  "default_seal_config = \<lparr>sc_enabled = True, sc_schedule = ''06:00'', sc_timezone = ''UTC'',
     sc_interval_secs = 86400\<rparr>"

record lifecycle_config =
  lc_mode :: lifecycle_mode
  lc_row_group_rows :: nat
  lc_sync_interval_ms :: nat
  lc_seal :: seal_config_file

definition default_lifecycle :: lifecycle_config where
  "default_lifecycle = \<lparr>lc_mode = Segment, lc_row_group_rows = 5000, lc_sync_interval_ms = 1000,
     lc_seal = default_seal_config\<rparr>"

definition is_segment_mode :: "lifecycle_config \<Rightarrow> bool" where
  "is_segment_mode c = (lc_mode c = Segment)"

definition batch_row_threshold :: "lifecycle_config \<Rightarrow> nat \<Rightarrow> nat" where
  "batch_row_threshold c fallback_flush_rows =
     (if is_segment_mode c then max (lc_row_group_rows c) 1 else max fallback_flush_rows 1)"

text \<open>\<open>resolve_seal_schedule\<close> is the theory of the seal schedule's; here it is an argument.\<close>

definition resolved_seal ::
  "(seal_config_file \<Rightarrow> 's result) \<Rightarrow> lifecycle_config \<Rightarrow> 's option result" where
  "resolved_seal resolve_seal_schedule c =
     (if \<not> is_segment_mode c \<or> \<not> sc_enabled (lc_seal c) then Inr None
      else map_result Some (resolve_seal_schedule (lc_seal c)))"

subsection \<open>Capture configuration\<close>

datatype compression_kind = Snappy | Zstd
datatype overflow_policy = DropNewest | DropOldest | FailFast
datatype layout_compatibility = RustCanonicalOnly

datatype capture_flush_family =
    BookDeltas | BookDepth | Trades | Quotes | MarkPrices | IndexPrices | FundingRates
  | InstrumentStatus | InstrumentClose | OptionGreeks | Bars | CustomData | Instruments

text \<open>The derived \<open>Ord\<close>: the order of declaration.\<close>

fun family_rank :: "capture_flush_family \<Rightarrow> nat" where
  "family_rank BookDeltas = 0"
| "family_rank BookDepth = 1"
| "family_rank Trades = 2"
| "family_rank Quotes = 3"
| "family_rank MarkPrices = 4"
| "family_rank IndexPrices = 5"
| "family_rank FundingRates = 6"
| "family_rank InstrumentStatus = 7"
| "family_rank InstrumentClose = 8"
| "family_rank OptionGreeks = 9"
| "family_rank Bars = 10"
| "family_rank CustomData = 11"
| "family_rank Instruments = 12"

lemma family_rank_inject: "family_rank a = family_rank b \<Longrightarrow> a = b"
  by (cases a; cases b) simp_all

instantiation capture_flush_family :: linorder
begin

definition less_eq_capture_flush_family :: "capture_flush_family \<Rightarrow> capture_flush_family \<Rightarrow> bool" where
  "less_eq_capture_flush_family a b = (family_rank a \<le> family_rank b)"

definition less_capture_flush_family :: "capture_flush_family \<Rightarrow> capture_flush_family \<Rightarrow> bool" where
  "less_capture_flush_family a b = (family_rank a < family_rank b)"

instance
  by standard
     (auto simp: less_eq_capture_flush_family_def less_capture_flush_family_def
       intro: family_rank_inject)

end

record queue_limits =
  ql_capacity :: "nat option"
  ql_max_bytes :: "nat option"

record capture_config =
  cc_enabled :: bool
  cc_catalog_uri :: string
  cc_lifecycle :: lifecycle_config
  cc_queue_capacity :: nat
  cc_queue_max_bytes :: "nat option"
  cc_queues :: "(capture_flush_family \<times> queue_limits) list"
  cc_flush_rows :: nat
  cc_flush_interval_ms :: nat
  cc_max_buffer_bytes :: nat
  cc_max_total_buffer_bytes :: nat
  cc_max_active_partitions :: nat
  cc_compression :: compression_kind
  cc_overflow_policy :: overflow_policy
  cc_layout :: layout_compatibility

definition ingress_max_bytes :: "capture_config \<Rightarrow> nat" where
  "ingress_max_bytes c = unwrap_or (cc_max_total_buffer_bytes c) (cc_queue_max_bytes c)"

definition default_config :: capture_config where
  "default_config = \<lparr>cc_enabled = True, cc_catalog_uri = ''file://./data/catalog'',
     cc_lifecycle = default_lifecycle, cc_queue_capacity = 10000, cc_queue_max_bytes = None,
     cc_queues = [], cc_flush_rows = 5000, cc_flush_interval_ms = 1000,
     cc_max_buffer_bytes = 32 * 1024 * 1024, cc_max_total_buffer_bytes = 512 * 1024 * 1024,
     cc_max_active_partitions = 128, cc_compression = Snappy, cc_overflow_policy = DropNewest,
     cc_layout = RustCanonicalOnly\<rparr>"

text \<open>\<open>validate_capture_config\<close> of \<open>budget.rs\<close>: the first failing check is the error.\<close>

fun queues_ok :: "(capture_flush_family \<times> queue_limits) list \<Rightarrow> bool" where
  "queues_ok [] = True"
| "queues_ok ((_, limits) # qs) =
     (if ql_capacity limits = Some 0 \<or> ql_max_bytes limits = Some 0 then False else queues_ok qs)"

definition validate_capture_config :: "capture_config \<Rightarrow> unit result" where
  "validate_capture_config c =
     (if cc_queue_max_bytes c = Some 0 then Inl (InvalidConfig ''queue_max_bytes'')
      else if \<not> queues_ok (cc_queues c) then Inl (InvalidConfig ''queues'')
      else if cc_flush_rows c = 0 then Inl (InvalidConfig ''flush_rows'')
      else if cc_max_buffer_bytes c = 0 then Inl (InvalidConfig ''max_buffer_bytes'')
      else if cc_max_total_buffer_bytes c = 0 then Inl (InvalidConfig ''max_total_buffer_bytes'')
      else if cc_max_total_buffer_bytes c < cc_max_buffer_bytes c
      then Inl (InvalidConfig ''max_total_buffer_bytes below max_buffer_bytes'')
      else if cc_max_active_partitions c = 0 then Inl (InvalidConfig ''max_active_partitions'')
      else Inr ())"

subsection \<open>Row-group capacity\<close>

definition parquet_max_row_groups :: nat where
  "parquet_max_row_groups = 2 ^ 15 - 1"

definition row_group_roll_threshold :: nat where
  "row_group_roll_threshold = parquet_max_row_groups - 2767"

definition cloud_book_summary_rows_per_sec :: u64 where
  "cloud_book_summary_rows_per_sec = 830"

definition cloud_book_summary_poll_rows :: nat where
  "cloud_book_summary_poll_rows = 1000"

definition default_seal_interval_secs :: u64 where
  "default_seal_interval_secs = 86400"

definition custom_row_group_rows :: nat where
  "custom_row_group_rows = 50000"

definition custom_memory_flush_rows :: nat where
  "custom_memory_flush_rows = cloud_book_summary_poll_rows"

definition estimated_row_groups :: "u64 \<Rightarrow> u64 \<Rightarrow> u64 \<Rightarrow> u64" where
  "estimated_row_groups rows_per_sec row_group_rows duration_secs =
     (let rg = max row_group_rows 1;
          rows = wsat_mul rows_per_sec duration_secs
      in wsat_add rows (rg - 1) div rg)"

definition min_row_group_rows_for_day :: "u64 \<Rightarrow> u64 \<Rightarrow> u64 \<Rightarrow> u64" where
  "min_row_group_rows_for_day rows_per_sec seal_interval_secs max_day_row_groups =
     (let max_rg = max max_day_row_groups 1;
          rows = wsat_mul rows_per_sec seal_interval_secs
      in wsat_add rows (max_rg - 1) div max_rg)"

subsection \<open>Flush profiles\<close>

definition smoke_row_ceiling :: nat where
  "smoke_row_ceiling = 200"

definition family_row_threshold :: "capture_config \<Rightarrow> capture_flush_family \<Rightarrow> nat" where
  "family_row_threshold base family =
     (let configured = max (batch_row_threshold (cc_lifecycle base) (cc_flush_rows base)) 1
      in if configured < smoke_row_ceiling then configured
         else case family of
           BookDeltas \<Rightarrow> min (max configured 20000) 50000
         | BookDepth \<Rightarrow> 512
         | Trades \<Rightarrow> 2000
         | Quotes \<Rightarrow> 500
         | MarkPrices \<Rightarrow> 100
         | IndexPrices \<Rightarrow> 100
         | FundingRates \<Rightarrow> 100
         | InstrumentStatus \<Rightarrow> 100
         | InstrumentClose \<Rightarrow> 100
         | OptionGreeks \<Rightarrow> 2000
         | Bars \<Rightarrow> 500
         | CustomData \<Rightarrow> custom_memory_flush_rows
         | Instruments \<Rightarrow> 50)"

definition family_row_group_rows :: "capture_config \<Rightarrow> capture_flush_family \<Rightarrow> nat" where
  "family_row_group_rows base family =
     (let flush = family_row_threshold base family
      in if flush < smoke_row_ceiling then flush
         else case family of
           CustomData \<Rightarrow> custom_row_group_rows
         | other \<Rightarrow> family_row_threshold base other)"

definition capture_config_for_family :: "capture_config \<Rightarrow> capture_flush_family \<Rightarrow> capture_config" where
  "capture_config_for_family base family =
     (let flush_rows = family_row_threshold base family;
          row_group_rows = family_row_group_rows base family;
          config = (case map_of (cc_queues base) family of
              None \<Rightarrow> base
            | Some limits \<Rightarrow> base\<lparr>
                cc_queue_capacity := unwrap_or (cc_queue_capacity base) (ql_capacity limits),
                cc_queue_max_bytes := (case ql_max_bytes limits of
                    None \<Rightarrow> cc_queue_max_bytes base | Some b \<Rightarrow> Some b)\<rparr>);
          config = config\<lparr>cc_flush_rows := flush_rows\<rparr>
      in if is_segment_mode (cc_lifecycle config)
         then config\<lparr>cc_lifecycle := (cc_lifecycle config)\<lparr>lc_row_group_rows := row_group_rows\<rparr>\<rparr>
         else config)"

subsection \<open>Lemmas\<close>

lemmas profile_defs = family_row_threshold_def family_row_group_rows_def Let_def
  smoke_row_ceiling_def custom_memory_flush_rows_def cloud_book_summary_poll_rows_def
  custom_row_group_rows_def

lemma batch_row_threshold_pos: "0 < batch_row_threshold c n"
  by (simp add: batch_row_threshold_def less_max_iff_disj)

lemma append_delim_inject:
  "c \<notin> set a \<Longrightarrow> c \<notin> set a' \<Longrightarrow> a @ c # b = a' @ c # b' \<Longrightarrow> a = a' \<and> b = b'"
proof (induction a arbitrary: a')
  case Nil
  then show ?case by (cases a') auto
next
  case (Cons x a)
  then show ?case by (cases a') auto
qed

definition no_bar :: "string \<Rightarrow> bool" where
  "no_bar s = (CHR ''|'' \<notin> set s)"

definition plain_option :: "string option \<Rightarrow> bool" where
  "plain_option x = (case x of None \<Rightarrow> True | Some s \<Rightarrow> no_bar s \<and> s \<noteq> ''_'')"

definition plain_key :: "partition_key \<Rightarrow> bool" where
  "plain_key k = (no_bar (pk_family k) \<and> no_bar (pk_type_name k)
     \<and> plain_option (pk_identifier k) \<and> plain_option (pk_namespace k))"

lemma plain_option_no_bar: "plain_option x \<Longrightarrow> CHR ''|'' \<notin> set (unwrap_or ''_'' x)"
  by (cases x) (simp_all add: plain_option_def no_bar_def)

lemma plain_option_inject:
  "plain_option x \<Longrightarrow> plain_option y \<Longrightarrow> unwrap_or ''_'' x = unwrap_or ''_'' y \<Longrightarrow> x = y"
  by (cases x; cases y) (auto simp: plain_option_def)

lemma unat_max_one: "unat (max x 1 :: u64) = max (unat x) 1"
  by (simp add: max_def word_le_nat_alt)

lemma unat_max_one_minus: "unat (max x 1 - 1 :: u64) = max (unat x) 1 - 1"
proof -
  have "(1 :: u64) \<le> max x 1" by simp
  then have "unat (max x 1 - 1) = unat (max x 1) - unat (1 :: u64)" by (simp only: unat_sub)
  then show ?thesis by (simp add: unat_max_one)
qed

lemma unat_estimated_row_groups:
  assumes "unat rate * unat dur + max (unat rg) 1 - 1 \<le> u64_max"
  shows "unat (estimated_row_groups rate rg dur)
    = (unat rate * unat dur + max (unat rg) 1 - 1) div max (unat rg) 1"
proof -
  have "unat rate * unat dur \<le> u64_max" using assms by linarith
  then have "min (unat rate * unat dur) u64_max + (max (unat rg) 1 - 1)
      = unat rate * unat dur + max (unat rg) 1 - 1"
    using assms by (simp add: min_def)
  then show ?thesis using assms
    by (simp add: estimated_row_groups_def Let_def unat_div_distrib unat_wsat_add unat_wsat_mul
      unat_max_one unat_max_one_minus min_def)
qed

lemma min_row_group_rows_eq: "min_row_group_rows_for_day rate secs m = estimated_row_groups rate m secs"
  by (simp add: min_row_group_rows_for_day_def estimated_row_groups_def)

lemma ceil_div_le_iff: "0 < (b :: nat) \<Longrightarrow> (a + b - 1) div b \<le> c \<longleftrightarrow> a \<le> c * b"
proof -
  assume b: "0 < b"
  have "(a + b - 1) div b \<le> c \<longleftrightarrow> (a + b - 1) div b < Suc c"
    by (rule less_Suc_eq_le [symmetric])
  also have "\<dots> \<longleftrightarrow> a + b - 1 < Suc c * b" using b by (simp add: div_less_iff_less_mult)
  also have "\<dots> \<longleftrightarrow> a \<le> c * b" using b by auto
  finally show ?thesis .
qed

lemma family_config_fields [simp]:
  "cc_flush_rows (capture_config_for_family c f) = family_row_threshold c f"
  "cc_max_buffer_bytes (capture_config_for_family c f) = cc_max_buffer_bytes c"
  "cc_max_total_buffer_bytes (capture_config_for_family c f) = cc_max_total_buffer_bytes c"
  "cc_max_active_partitions (capture_config_for_family c f) = cc_max_active_partitions c"
  "cc_queues (capture_config_for_family c f) = cc_queues c"
  "cc_queue_capacity (capture_config_for_family c f) = (case map_of (cc_queues c) f of
      None \<Rightarrow> cc_queue_capacity c | Some l \<Rightarrow> unwrap_or (cc_queue_capacity c) (ql_capacity l))"
  "cc_queue_max_bytes (capture_config_for_family c f) = (case map_of (cc_queues c) f of
      None \<Rightarrow> cc_queue_max_bytes c
    | Some l \<Rightarrow> (case ql_max_bytes l of None \<Rightarrow> cc_queue_max_bytes c | Some b \<Rightarrow> Some b))"
  "cc_lifecycle (capture_config_for_family c f) = (if is_segment_mode (cc_lifecycle c)
      then (cc_lifecycle c)\<lparr>lc_row_group_rows := family_row_group_rows c f\<rparr> else cc_lifecycle c)"
  "cc_enabled (capture_config_for_family c f) = cc_enabled c"
  "cc_catalog_uri (capture_config_for_family c f) = cc_catalog_uri c"
  "cc_flush_interval_ms (capture_config_for_family c f) = cc_flush_interval_ms c"
  "cc_compression (capture_config_for_family c f) = cc_compression c"
  "cc_overflow_policy (capture_config_for_family c f) = cc_overflow_policy c"
  "cc_layout (capture_config_for_family c f) = cc_layout c"
  by (simp_all add: capture_config_for_family_def Let_def split: option.split)

lemma max_batch_row_threshold [simp]:
  "max (batch_row_threshold c n) (Suc 0) = batch_row_threshold c n"
  using batch_row_threshold_pos [of c n] by (simp add: max_def)

lemma family_row_threshold_pos: "0 < family_row_threshold c f"
  using batch_row_threshold_pos [of "cc_lifecycle c" "cc_flush_rows c"]
  by (cases f) (simp_all add: profile_defs less_max_iff_disj)

lemma family_row_group_ge: "family_row_threshold c f \<le> family_row_group_rows c f"
proof (cases "family_row_threshold c f < smoke_row_ceiling \<or> f \<noteq> CustomData")
  case True
  then show ?thesis
    by (cases f) (auto simp: family_row_group_rows_def Let_def)
next
  case False
  then show ?thesis by (simp add: profile_defs)
qed

lemma family_batch_rows:
  "batch_row_threshold (cc_lifecycle (capture_config_for_family c f))
      (cc_flush_rows (capture_config_for_family c f))
    = (if is_segment_mode (cc_lifecycle c) then family_row_group_rows c f else family_row_threshold c f)"
  using family_row_threshold_pos [of c f] family_row_group_ge [of c f]
  by (simp add: batch_row_threshold_def is_segment_mode_def max_def)

lemma family_threshold_of_batch:
  "batch_row_threshold (cc_lifecycle c') (cc_flush_rows c') = n
     \<Longrightarrow> n = family_row_threshold c f \<Longrightarrow> family_row_threshold c' f = n"
proof -
  assume n: "batch_row_threshold (cc_lifecycle c') (cc_flush_rows c') = n" "n = family_row_threshold c f"
  show "family_row_threshold c' f = n"
    using n by (cases f; cases "batch_row_threshold (cc_lifecycle c) (cc_flush_rows c) < 200")
      (simp_all add: profile_defs)
qed

lemma family_threshold_stable:
  "family_row_threshold (capture_config_for_family c f) f = family_row_threshold c f"
proof -
  let ?n = "batch_row_threshold (cc_lifecycle (capture_config_for_family c f))
      (cc_flush_rows (capture_config_for_family c f))"
  show ?thesis
  proof (cases "family_row_group_rows c f = family_row_threshold c f")
    case True
    then have "?n = family_row_threshold c f" unfolding family_batch_rows by simp
    then show ?thesis using family_threshold_of_batch by blast
  next
    case False
    then have f: "f = CustomData" and t: "family_row_threshold c f = 1000" "family_row_group_rows c f = 50000"
      by (cases f; simp add: profile_defs split: if_splits)+
    then have "?n = 50000 \<or> ?n = 1000" unfolding family_batch_rows by simp
    then show ?thesis unfolding t(1)
      unfolding family_row_threshold_def Let_def f by (auto simp: profile_defs)
  qed
qed

lemma family_row_group_stable:
  "family_row_group_rows (capture_config_for_family c f) f = family_row_group_rows c f"
  unfolding family_row_group_rows_def [of "capture_config_for_family c f"] family_threshold_stable
  using family_threshold_stable [of c f]
  by (cases f) (simp_all add: family_row_group_rows_def Let_def del: family_config_fields)

subsection \<open>Properties\<close>



text \<open>
  the row-group budget is exact. A seal window at a constant rate needs at most \<open>m\<close> row groups
  precisely when the rows per group reach the minimum computed for \<open>m\<close>, as long as the row counts
  fit in 64 bits.
\<close>

theorem row_group_budget_exact:
  assumes "0 < rg" and "0 < m"
    and "unat rate * unat secs + unat rg - 1 \<le> u64_max"
    and "unat rate * unat secs + unat m - 1 \<le> u64_max"
  shows "estimated_row_groups rate rg secs \<le> m \<longleftrightarrow> min_row_group_rows_for_day rate secs m \<le> rg"
proof -
  have pos: "0 < unat rg" "0 < unat m" using assms(1,2) by (simp_all add: word_gt_0 unat_gt_0)
  then have mx: "max (unat rg) 1 = unat rg" "max (unat m) 1 = unat m" by auto
  have "unat (estimated_row_groups rate rg secs) \<le> unat m \<longleftrightarrow> unat rate * unat secs \<le> unat m * unat rg"
    using unat_estimated_row_groups [of rate secs rg] ceil_div_le_iff [OF pos(1)] assms(3) mx by simp
  moreover have "unat (estimated_row_groups rate m secs) \<le> unat rg
      \<longleftrightarrow> unat rate * unat secs \<le> unat rg * unat m"
    using unat_estimated_row_groups [of rate secs m] ceil_div_le_iff [OF pos(2)] assms(4) mx by simp
  ultimately show ?thesis
    by (simp add: word_le_nat_alt min_row_group_rows_eq mult.commute)
qed

theorem row_group_budget_exact_witness:
  "estimated_row_groups 830 50000 86400 \<le> 30000 \<longleftrightarrow> min_row_group_rows_for_day 830 86400 30000 \<le> 50000"
  using row_group_budget_exact [of 50000 30000 830 86400] by (simp add: u64_max_def)

text \<open>
  the custom-data row group keeps one seal day of the observed book-summary load, and twenty
  times that load, under the roll threshold, which itself leaves room below the format's limit.
\<close>

theorem custom_row_groups_fit_seal_day:
  "estimated_row_groups cloud_book_summary_rows_per_sec (of_nat custom_row_group_rows)
      default_seal_interval_secs = 1435
   \<and> unat (estimated_row_groups (20 * cloud_book_summary_rows_per_sec)
      (of_nat custom_row_group_rows) default_seal_interval_secs) < row_group_roll_threshold
   \<and> row_group_roll_threshold = 30000 \<and> row_group_roll_threshold < parquet_max_row_groups"
  by (simp add: estimated_row_groups_def Let_def wsat_add_def wsat_mul_def u64_max_def
    cloud_book_summary_rows_per_sec_def custom_row_group_rows_def default_seal_interval_secs_def
    row_group_roll_threshold_def parquet_max_row_groups_def)

text \<open>
  a family profile is usable and stable. Both thresholds are positive, a row group holds at
  least one memory flush, tiny (smoke) settings are left alone, and applying a family's profile
  twice is the same as applying it once.
\<close>

theorem family_profile_sound:
  "0 < family_row_threshold c f
   \<and> family_row_threshold c f \<le> family_row_group_rows c f
   \<and> (family_row_threshold c f \<le> 50000)
   \<and> capture_config_for_family (capture_config_for_family c f) f = capture_config_for_family c f"
proof (intro conjI)
  show "0 < family_row_threshold c f" by (rule family_row_threshold_pos)
  show "family_row_threshold c f \<le> family_row_group_rows c f" by (rule family_row_group_ge)
  show "family_row_threshold c f \<le> 50000"
    by (cases f) (simp_all add: profile_defs)
  show "capture_config_for_family (capture_config_for_family c f) f = capture_config_for_family c f"
    by (rule capture_config.equality)
       (auto simp: family_threshold_stable family_row_group_stable is_segment_mode_def
          unwrap_or_def split: option.splits)
qed

text \<open>specialising a valid configuration to a family yields a valid configuration.\<close>

theorem family_config_valid:
  assumes "validate_capture_config c = Inr ()"
  shows "validate_capture_config (capture_config_for_family c f) = Inr ()"
proof -
  have q: "ql_capacity l \<noteq> Some 0 \<and> ql_max_bytes l \<noteq> Some 0"
    if "map_of (cc_queues c) f = Some l" for l
  proof -
    have "queues_ok qs \<Longrightarrow> map_of qs f = Some l \<Longrightarrow> ql_capacity l \<noteq> Some 0 \<and> ql_max_bytes l \<noteq> Some 0"
      for qs
      by (induction qs rule: queues_ok.induct) (auto split: if_splits)
    with assms that show ?thesis by (auto simp: validate_capture_config_def split: if_splits)
  qed
  have pos: "0 < family_row_threshold c f" using family_profile_sound by blast
  show ?thesis using assms pos q
    by (auto simp: validate_capture_config_def split: if_splits option.split)
qed

theorem family_config_valid_witness:
  "validate_capture_config (capture_config_for_family default_config Quotes) = Inr ()"
  using family_config_valid [of default_config Quotes]
  by (simp add: validate_capture_config_def default_config_def)

end
