(* ===== verification/Sink.thy ===== *)
theory Sink
  imports Prelude Metrics
begin

section \<open>Partition buffers and the sink interface\<close>

text \<open>
  \<open>buffer.rs\<close>, the \<open>FlushResult\<close> of \<open>runtime.rs\<close> and the trait \<open>CaptureSink\<close> of \<open>sink.rs\<close>
  (all under \<open>crates/catalog-capture-core/src\<close>). A trait implementation is a record of its
  operations on a state; the methods with a default body are definitions over the others. The
  contract the writer relies on is the locale \<open>capture_sink\<close>.
\<close>

subsection \<open>Partition buffers\<close>

record 't partition_buffer =
  pb_items :: "'t list"
  pb_rows :: nat
  pb_bytes :: nat
  pb_min :: "nat option"
  pb_max :: "nat option"

definition empty_buffer :: "'t partition_buffer" where
  "empty_buffer = \<lparr>pb_items = [], pb_rows = 0, pb_bytes = 0, pb_min = None, pb_max = None\<rparr>"

definition buffer_push :: "'t \<Rightarrow> nat \<Rightarrow> nat \<Rightarrow> nat \<Rightarrow> 't partition_buffer \<Rightarrow> 't partition_buffer" where
  "buffer_push item event_ts estimated_bytes row_count b = b\<lparr>
     pb_rows := pb_rows b + max row_count 1,
     pb_bytes := pb_bytes b + estimated_bytes,
     pb_min := Some (case pb_min b of None \<Rightarrow> event_ts | Some v \<Rightarrow> min v event_ts),
     pb_max := Some (case pb_max b of None \<Rightarrow> event_ts | Some v \<Rightarrow> max v event_ts),
     pb_items := pb_items b @ [item]\<rparr>"

definition should_flush_reason :: "nat \<Rightarrow> nat \<Rightarrow> 't partition_buffer \<Rightarrow> flush_reason option" where
  "should_flush_reason flush_rows max_buffer_bytes b =
     (if pb_rows b \<ge> flush_rows then Some Rows
      else if pb_bytes b \<ge> max_buffer_bytes then Some Bytes
      else None)"

text \<open>\<open>take\<close> hands the buffer out and leaves an empty one.\<close>

definition buffer_take :: "'t partition_buffer \<Rightarrow> 't partition_buffer \<times> 't partition_buffer" where
  "buffer_take b = (b, empty_buffer)"

lemma buffer_push_simps [simp]:
  "pb_items (buffer_push x ts by rc b) = pb_items b @ [x]"
  "pb_bytes (buffer_push x ts by rc b) = pb_bytes b + by"
  "pb_rows (buffer_push x ts by rc b) = pb_rows b + max rc 1"
  by (simp_all add: buffer_push_def)

lemma empty_buffer_simps [simp]:
  "pb_items empty_buffer = []" "pb_bytes empty_buffer = 0" "pb_rows empty_buffer = 0"
  "pb_min empty_buffer = None" "pb_max empty_buffer = None"
  by (simp_all add: empty_buffer_def)

text \<open>The buffer a sequence of pushes builds: items, event times, byte estimates and row counts.\<close>

fun push_all :: "('t \<times> nat \<times> nat \<times> nat) list \<Rightarrow> 't partition_buffer \<Rightarrow> 't partition_buffer" where
  "push_all [] b = b"
| "push_all ((x, ts, by, rc) # xs) b = push_all xs (buffer_push x ts by rc b)"

lemma push_all_append: "push_all (xs @ ys) b = push_all ys (push_all xs b)"
  by (induction xs b rule: push_all.induct) simp_all

subsection \<open>Flush results\<close>

record flush_result =
  fr_files :: "string list"
  fr_rows :: nat
  fr_bytes :: nat

definition empty_result :: flush_result where
  "empty_result = \<lparr>fr_files = [], fr_rows = 0, fr_bytes = 0\<rparr>"

lemma empty_result_simps [simp]:
  "fr_files empty_result = []" "fr_rows empty_result = 0" "fr_bytes empty_result = 0"
  by (simp_all add: empty_result_def)

definition merge_flush_results :: "flush_result \<Rightarrow> flush_result \<Rightarrow> flush_result" where
  "merge_flush_results l r = \<lparr>fr_files = fr_files l @ fr_files r,
     fr_rows = sat_add (fr_rows l) (fr_rows r), fr_bytes = sat_add (fr_bytes l) (fr_bytes r)\<rparr>"

text \<open>
  \<open>collect_flush_results\<close>: every result is looked at, the first error wins, and without an
  error the results are merged in order.
\<close>

fun collect_into :: "flush_result \<Rightarrow> cap_error option \<Rightarrow> flush_result result list \<Rightarrow> flush_result result" where
  "collect_into flushed failure [] = (case failure of Some e \<Rightarrow> Inl e | None \<Rightarrow> Inr flushed)"
| "collect_into flushed failure (Inr r # rs) = collect_into (merge_flush_results flushed r) failure rs"
| "collect_into flushed failure (Inl e # rs) =
     collect_into flushed (case failure of None \<Rightarrow> Some e | Some e0 \<Rightarrow> Some e0) rs"

definition collect_flush_results :: "flush_result result list \<Rightarrow> flush_result result" where
  "collect_flush_results rs = collect_into empty_result None rs"

lemma collect_into_isl:
  "isl (collect_into fl fa rs) \<longleftrightarrow> fa \<noteq> None \<or> (\<exists>r \<in> set rs. isl r)"
  by (induction fl fa rs rule: collect_into.induct) (auto split: option.splits)

lemma collect_flush_results_isl:
  "isl (collect_flush_results rs) \<longleftrightarrow> (\<exists>r \<in> set rs. isl r)"
  by (simp add: collect_flush_results_def collect_into_isl)

lemma collect_into_first_error:
  "collect_into fl fa rs = Inl e \<Longrightarrow> fa = Some e \<or> fa = None \<and> (\<exists>us vs. rs = us @ Inl e # vs \<and> (\<forall>u \<in> set us. \<not> isl u))"
proof (induction fl fa rs rule: collect_into.induct)
  case (1 fl fa)
  then show ?case by (cases fa) auto
next
  case (2 fl fa r rs)
  then show ?case by (auto intro: exI [of _ "Inr r # _"]) (metis Un_iff append_Cons empty_iff list.set(1) set_ConsD sum.disc(2))
next
  case (3 fl fa e' rs)
  show ?case
  proof (cases fa)
    case None
    with 3 have "e' = e" by auto
    then have "Inl e' # rs = [] @ Inl e # rs \<and> (\<forall>u \<in> set []. \<not> isl u)" by simp
    with None show ?thesis by blast
  next
    case (Some e0)
    with 3 show ?thesis by auto
  qed
qed

subsection \<open>Sequencing over keys\<close>

text \<open>An iterator of fallible effects consumed to its end: the state is threaded, the results kept.\<close>

fun map_state :: "('a \<Rightarrow> 's \<Rightarrow> 'b \<times> 's) \<Rightarrow> 'a list \<Rightarrow> 's \<Rightarrow> 'b list \<times> 's" where
  "map_state f [] s = ([], s)"
| "map_state f (x # xs) s =
     (let (r, s1) = f x s; (rs, s2) = map_state f xs s1 in (r # rs, s2))"

lemma map_state_induct:
  assumes refl: "\<And>s. R s s" and trans: "\<And>a b c. R a b \<Longrightarrow> R b c \<Longrightarrow> R a c"
    and step: "\<And>x s. x \<in> set xs \<Longrightarrow> I s \<Longrightarrow> R s (snd (f x s)) \<and> I (snd (f x s))"
    and init: "I s"
  shows "R s (snd (map_state f xs s)) \<and> I (snd (map_state f xs s))"
  using step init
proof (induction xs arbitrary: s)
  case Nil
  then show ?case by (simp add: refl)
next
  case (Cons x xs)
  from Cons.prems(1) [of x s] Cons.prems(2)
  have x: "R s (snd (f x s))" "I (snd (f x s))" by auto
  from Cons.IH [OF Cons.prems(1) x(2)]
  have "R (snd (f x s)) (snd (map_state f xs (snd (f x s))))
      \<and> I (snd (map_state f xs (snd (f x s))))" by simp
  with x show ?case by (auto simp: split_beta Let_def intro: trans)
qed

subsection \<open>The sink trait\<close>

record ('t, 's) sink_ops =
  so_write_batch :: "string \<Rightarrow> 't list \<Rightarrow> 's \<Rightarrow> string list result \<times> 's"
  so_write_initialization :: "string \<Rightarrow> 't \<Rightarrow> 's \<Rightarrow> flush_result result \<times> 's"
  so_on_tick :: "nat \<Rightarrow> 's \<Rightarrow> flush_result result \<times> 's"
  so_seal_all :: "'s \<Rightarrow> flush_result result \<times> 's"
  so_seal_partition :: "string \<Rightarrow> 's \<Rightarrow> flush_result result \<times> 's"
  so_seal_all_for_shutdown :: "'s \<Rightarrow> flush_result result \<times> 's"
  so_break_continuity :: "string option \<Rightarrow> 's \<Rightarrow> flush_result result \<times> 's"
  so_active_writers :: "'s \<Rightarrow> nat"
  so_is_segment_mode :: "'s \<Rightarrow> bool"

text \<open>The trait's default bodies.\<close>

definition default_write_initialization ::
  "(string \<Rightarrow> 't list \<Rightarrow> 's \<Rightarrow> string list result \<times> 's) \<Rightarrow>
   string \<Rightarrow> 't \<Rightarrow> 's \<Rightarrow> flush_result result \<times> 's" where
  "default_write_initialization write_batch key data s =
     (let (r, s') = write_batch key [data] s
      in (map_result (\<lambda>files. \<lparr>fr_files = files, fr_rows = 1, fr_bytes = 0\<rparr>) r, s'))"

definition default_ok :: "'s \<Rightarrow> flush_result result \<times> 's" where
  "default_ok s = (Inr empty_result, s)"

definition default_break_continuity ::
  "(string \<Rightarrow> 's \<Rightarrow> flush_result result \<times> 's) \<Rightarrow> ('s \<Rightarrow> flush_result result \<times> 's) \<Rightarrow>
   string option \<Rightarrow> 's \<Rightarrow> flush_result result \<times> 's" where
  "default_break_continuity seal_partition seal_all key s =
     (case key of Some k \<Rightarrow> seal_partition k s | None \<Rightarrow> seal_all s)"

definition default_sink_ops ::
  "(string \<Rightarrow> 't list \<Rightarrow> 's \<Rightarrow> string list result \<times> 's) \<Rightarrow> ('t, 's) sink_ops" where
  "default_sink_ops write_batch = \<lparr>
     so_write_batch = write_batch,
     so_write_initialization = default_write_initialization write_batch,
     so_on_tick = (\<lambda>_. default_ok),
     so_seal_all = default_ok,
     so_seal_partition = (\<lambda>_. default_ok),
     so_seal_all_for_shutdown = default_ok,
     so_break_continuity = default_break_continuity (\<lambda>_. default_ok) default_ok,
     so_active_writers = (\<lambda>_. 0),
     so_is_segment_mode = (\<lambda>_. False)\<rparr>"

text \<open>
  The contract of a row sink. \<open>rows s k\<close> are the payloads of partition \<open>k\<close> the sink holds or has
  published, in order. A successful write appends exactly its batch; a failed one may lose rows
  of its own partition only; sealing loses nothing unless it fails, and then only within the
  scope it was asked to seal; an initialization adds at most its own payload.
\<close>

locale capture_sink =
  fixes ops :: "('t, 's) sink_ops"
    and rows :: "'s \<Rightarrow> string \<Rightarrow> 't list"
    and ok :: "'s \<Rightarrow> bool"
  assumes write_ok: "ok s \<Longrightarrow> so_write_batch ops k b s = (Inr files, s') \<Longrightarrow>
        rows s' k' = (if k' = k then rows s k @ b else rows s k')"
    and write_other: "ok s \<Longrightarrow> so_write_batch ops k b s = (written, s') \<Longrightarrow> k' \<noteq> k \<Longrightarrow> rows s' k' = rows s k'"
    and init_rows: "ok s \<Longrightarrow> so_write_initialization ops k d s = (Inr res, s') \<Longrightarrow>
        rows s' k = rows s k \<or> rows s' k = rows s k @ [d]"
    and init_other: "ok s \<Longrightarrow> so_write_initialization ops k d s = (r, s') \<Longrightarrow> k' \<noteq> k \<Longrightarrow> rows s' k' = rows s k'"
    and tick_rows: "ok s \<Longrightarrow> so_on_tick ops now s = (Inr res, s') \<Longrightarrow> rows s' = rows s"
    and seal_all_rows: "ok s \<Longrightarrow> so_seal_all ops s = (Inr res, s') \<Longrightarrow> rows s' = rows s"
    and shutdown_rows: "ok s \<Longrightarrow> so_seal_all_for_shutdown ops s = (Inr res, s') \<Longrightarrow> rows s' = rows s"
    and seal_rows: "ok s \<Longrightarrow> so_seal_partition ops k s = (Inr res, s') \<Longrightarrow> rows s' = rows s"
    and seal_other: "ok s \<Longrightarrow> so_seal_partition ops k s = (r, s') \<Longrightarrow> k' \<noteq> k \<Longrightarrow> rows s' k' = rows s k'"
    and break_rows: "ok s \<Longrightarrow> so_break_continuity ops key s = (Inr res, s') \<Longrightarrow> rows s' = rows s"
    and break_other: "ok s \<Longrightarrow> so_break_continuity ops (Some k) s = (r, s') \<Longrightarrow> k' \<noteq> k \<Longrightarrow>
        rows s' k' = rows s k'"
    and ok_write: "ok s \<Longrightarrow> ok (snd (so_write_batch ops k b s))"
    and ok_init: "ok s \<Longrightarrow> ok (snd (so_write_initialization ops k d s))"
    and ok_tick: "ok s \<Longrightarrow> ok (snd (so_on_tick ops now s))"
    and ok_seal_all: "ok s \<Longrightarrow> ok (snd (so_seal_all ops s))"
    and ok_shutdown: "ok s \<Longrightarrow> ok (snd (so_seal_all_for_shutdown ops s))"
    and ok_seal: "ok s \<Longrightarrow> ok (snd (so_seal_partition ops k s))"
    and ok_break: "ok s \<Longrightarrow> ok (snd (so_break_continuity ops key s))"

text \<open>A call of a sink and a history of calls.\<close>

datatype 't sink_call =
    WriteCall string "'t list" | InitializeCall string 't | TickCall nat | SealAllCall
  | SealCall string | ShutdownCall | BreakCall "string option"

fun run_sink_call :: "('t, 's) sink_ops \<Rightarrow> 't sink_call \<Rightarrow> 's \<Rightarrow> 's" where
  "run_sink_call ops (WriteCall k b) s = snd (so_write_batch ops k b s)"
| "run_sink_call ops (InitializeCall k d) s = snd (so_write_initialization ops k d s)"
| "run_sink_call ops (TickCall now) s = snd (so_on_tick ops now s)"
| "run_sink_call ops SealAllCall s = snd (so_seal_all ops s)"
| "run_sink_call ops (SealCall k) s = snd (so_seal_partition ops k s)"
| "run_sink_call ops ShutdownCall s = snd (so_seal_all_for_shutdown ops s)"
| "run_sink_call ops (BreakCall key) s = snd (so_break_continuity ops key s)"

definition run_sink_calls :: "('t, 's) sink_ops \<Rightarrow> 't sink_call list \<Rightarrow> 's \<Rightarrow> 's" where
  "run_sink_calls ops cs s = fold (run_sink_call ops) cs s"

context capture_sink
begin

lemma run_sink_calls_ok: "ok s \<Longrightarrow> ok (run_sink_calls ops cs s)"
  unfolding run_sink_calls_def
proof (induction cs arbitrary: s)
  case (Cons c cs)
  have "ok (run_sink_call ops c s)"
    using Cons.prems by (cases c) (simp_all add: ok_write ok_init ok_tick ok_seal_all ok_seal ok_shutdown ok_break)
  from Cons.IH [OF this] show ?case by simp
qed simp

end

text \<open>
  A sink made of the default bodies (the chunked catalogue writer) keeps the contract as soon as
  its batch writer does.
\<close>

lemma default_sink_contract:
  assumes "\<And>s k b files s' k'. ok s \<Longrightarrow> w k b s = (Inr files, s') \<Longrightarrow>
      rows s' k' = (if k' = k then rows s k @ b else rows s k')"
    and "\<And>s k b r s' k'. ok s \<Longrightarrow> w k b s = (r, s') \<Longrightarrow> k' \<noteq> k \<Longrightarrow> rows s' k' = rows s k'"
    and "\<And>s k b. ok s \<Longrightarrow> ok (snd (w k b s))"
  shows "capture_sink (default_sink_ops w) rows ok"
proof unfold_locales
  fix s k d res s'
  assume s: "ok s" and w: "so_write_initialization (default_sink_ops w) k d s = (Inr res, s')"
  obtain r s1 where "w k [d] s = (r, s1)" by fastforce
  with w obtain files where "w k [d] s = (Inr files, s')"
    by (cases r) (auto simp: default_sink_ops_def default_write_initialization_def)
  from assms(1) [OF s this, of k]
  show "rows s' k = rows s k \<or> rows s' k = rows s k @ [d]" by simp
next
  fix s k d r s' k'
  assume s: "ok s" and k: "k' \<noteq> k"
    and w: "so_write_initialization (default_sink_ops w) k d s = (r, s')"
  obtain r1 s1 where w1: "w k [d] s = (r1, s1)" by fastforce
  with w have "s' = s1" by (auto simp: default_sink_ops_def default_write_initialization_def)
  with assms(2) [OF s w1 k] show "rows s' k' = rows s k'" by simp
next
  fix s k d
  assume "ok s"
  then show "ok (snd (so_write_initialization (default_sink_ops w) k d s))"
    using assms(3) [of s k "[d]"]
    by (simp add: default_sink_ops_def default_write_initialization_def split_beta)
qed (auto simp: default_sink_ops_def default_ok_def default_break_continuity_def
      assms split: option.splits dest: assms(1,2))

end
