(* ===== verification/Runtime.thy ===== *)
theory Runtime
  imports Sink Failures Config "HOL-Library.List_Lexorder" "HOL-Library.Char_ord"
begin

section \<open>The capture runtime: buffers in front of one sink\<close>

text \<open>
  \<open>crates/catalog-capture-core/src/runtime.rs\<close>: the writer thread's state of one family. Rows
  are collected per partition, flushed to the sink by row count, byte count, budget, interval or
  seal, and every failure is recorded with the partition it affects.

  What the environment decides is the record \<open>world\<close>, indexed by a counter the runtime advances
  at each use: the duration of a timed call, the length of a file as \<open>fs::metadata\<close> reports it,
  and the order in which the partition map is iterated.
\<close>

record world =
  w_elapsed :: "nat \<Rightarrow> nat"
  w_file_len :: "nat \<Rightarrow> string \<Rightarrow> nat option"
  w_order :: "nat \<Rightarrow> string list \<Rightarrow> string list"

record ('t, 's) runtime =
  rt_config :: capture_config
  rt_sink :: 's
  rt_metrics :: capture_metrics
  rt_failures :: failure_tracker
  rt_parts :: "(string \<times> 't partition_buffer) list"
  rt_world :: world
  rt_clk :: nat

definition runtime_new ::
  "capture_config \<Rightarrow> 's \<Rightarrow> world \<Rightarrow> (nat \<Rightarrow> nat) \<Rightarrow> ('t, 's) runtime" where
  "runtime_new config sink w wall = \<lparr>rt_config = config, rt_sink = sink,
     rt_metrics = default_metrics,
     rt_failures = tracker_new (cc_max_active_partitions config) wall,
     rt_parts = [], rt_world = w, rt_clk = 0\<rparr>"

definition elapsed :: "('t, 's) runtime \<Rightarrow> nat" where
  "elapsed rt = w_elapsed (rt_world rt) (rt_clk rt)"

definition rt_record_failure ::
  "string option \<Rightarrow> failure_operation \<Rightarrow> (nat \<times> nat) option \<Rightarrow> ('t, 's) runtime \<Rightarrow> ('t, 's) runtime" where
  "rt_record_failure part op rng rt =
     rt\<lparr>rt_failures := tracker_record part op rng (rt_failures rt)\<rparr>"

definition rt_set_metrics :: "(capture_metrics \<Rightarrow> capture_metrics) \<Rightarrow> ('t, 's) runtime \<Rightarrow> ('t, 's) runtime" where
  "rt_set_metrics f rt = rt\<lparr>rt_metrics := f (rt_metrics rt)\<rparr>"

text \<open>One timed call of the sink: the new sink state, the counter advanced, the duration kept.\<close>

definition rt_timed :: "(nat \<Rightarrow> capture_metrics \<Rightarrow> capture_metrics) \<Rightarrow> 's \<Rightarrow> ('t, 's) runtime \<Rightarrow> ('t, 's) runtime" where
  "rt_timed record_in s rt =
     rt\<lparr>rt_sink := s, rt_metrics := record_in (elapsed rt) (rt_metrics rt), rt_clk := Suc (rt_clk rt)\<rparr>"

definition in_write :: "nat \<Rightarrow> capture_metrics \<Rightarrow> capture_metrics" where
  "in_write d m = m\<lparr>sink_write := timing_record d (sink_write m)\<rparr>"

definition in_sync :: "nat \<Rightarrow> capture_metrics \<Rightarrow> capture_metrics" where
  "in_sync d m = m\<lparr>sink_sync := timing_record d (sink_sync m)\<rparr>"

definition in_seal :: "nat \<Rightarrow> capture_metrics \<Rightarrow> capture_metrics" where
  "in_seal d m = m\<lparr>sink_seal := timing_record d (sink_seal m)\<rparr>"

definition total_pending_bytes :: "('t, 's) runtime \<Rightarrow> nat" where
  "total_pending_bytes rt = sum_list (map pb_bytes (map snd (rt_parts rt)))"

definition sync_active_partitions :: "('t, 's) runtime \<Rightarrow> ('t, 's) runtime" where
  "sync_active_partitions rt = rt_set_metrics (\<lambda>m. m\<lparr>
     active_partitions := length (filter (\<lambda>(_, p). pb_items p \<noteq> []) (rt_parts rt)),
     buffered_bytes := total_pending_bytes rt\<rparr>) rt"

text \<open>
  The partition with the oldest first event, ties broken by key. Keys are distinct, so the
  minimum does not depend on the iteration order.
\<close>

definition oldest_ts :: "'t partition_buffer \<Rightarrow> nat" where
  "oldest_ts p = unwrap_or u64_max (pb_min p)"

definition older :: "string \<times> 't partition_buffer \<Rightarrow> string \<times> 't partition_buffer \<Rightarrow> bool" where
  "older l r = (oldest_ts (snd l) < oldest_ts (snd r)
     \<or> oldest_ts (snd l) = oldest_ts (snd r) \<and> fst l < fst r)"

fun min_older :: "string \<times> 't partition_buffer \<Rightarrow> (string \<times> 't partition_buffer) list \<Rightarrow>
    string \<times> 't partition_buffer" where
  "min_older best [] = best"
| "min_older best (x # xs) = min_older (if older x best then x else best) xs"

definition oldest_partition_key :: "('t, 's) runtime \<Rightarrow> string option" where
  "oldest_partition_key rt =
     (case filter (\<lambda>(_, p). pb_items p \<noteq> []) (rt_parts rt) of
        [] \<Rightarrow> None
      | x # xs \<Rightarrow> Some (fst (min_older x xs)))"

definition zip_range :: "nat option \<Rightarrow> nat option \<Rightarrow> (nat \<times> nat) option" where
  "zip_range a b = (case (a, b) of (Some x, Some y) \<Rightarrow> Some (x, y) | _ \<Rightarrow> None)"

definition files_len :: "world \<Rightarrow> nat \<Rightarrow> string list \<Rightarrow> nat" where
  "files_len w i files = sum_list (List.map_filter (w_file_len w i) files)"

subsection \<open>Flushing one partition\<close>

text \<open>After a failed write: record it, and end the partition's replay window in the sink.\<close>

definition write_failed ::
  "('t, 's) sink_ops \<Rightarrow> string \<Rightarrow> 't partition_buffer \<Rightarrow> ('t, 's) runtime \<Rightarrow> ('t, 's) runtime" where
  "write_failed ops key p rt =
     (let rt = rt_record_failure (Some key) Write (zip_range (pb_min p) (pb_max p)) rt;
          (broken, s) = so_break_continuity ops (Some key) (rt_sink rt);
          rt = rt\<lparr>rt_sink := s\<rparr>
      in if isl broken then rt_record_failure (Some key) failure_operation.Seal None rt else rt)"

definition flush_partition_with_reason ::
  "('t, 's) sink_ops \<Rightarrow> string \<Rightarrow> flush_reason \<Rightarrow> ('t, 's) runtime \<Rightarrow>
   flush_result result \<times> ('t, 's) runtime" where
  "flush_partition_with_reason ops key reason rt =
     (case map_of (rt_parts rt) key of
        None \<Rightarrow> (Inr empty_result, sync_active_partitions rt)
      | Some p \<Rightarrow>
          let rt = rt\<lparr>rt_parts := AList.delete key (rt_parts rt)\<rparr>
          in if pb_items p = [] then (Inr empty_result, sync_active_partitions rt)
             else
               let (written, s) = so_write_batch ops key (pb_items p) (rt_sink rt);
                   rt = rt_timed in_write s rt;
                   rt = (if isl written then write_failed ops key p rt else rt);
                   rt = sync_active_partitions rt
               in case written of
                    Inl e \<Rightarrow> (Inl e, rt)
                  | Inr files \<Rightarrow>
                      let bytes = files_len (rt_world rt) (rt_clk rt) files;
                          rt = rt_set_metrics (\<lambda>m. m\<lparr>
                            flushed_batches := flushed_batches m + 1,
                            flushed_rows := flushed_rows m + pb_rows p,
                            completed_files := completed_files m + length files,
                            completed_file_bytes := completed_file_bytes m + bytes,
                            flush_reasons := flush_reason_record reason (flush_reasons m)\<rparr>) rt;
                          rt = sync_active_partitions rt
                      in (Inr \<lparr>fr_files = files, fr_rows = pb_rows p, fr_bytes = bytes\<rparr>, rt))"

definition flush_partition ::
  "('t, 's) sink_ops \<Rightarrow> string \<Rightarrow> ('t, 's) runtime \<Rightarrow> flush_result result \<times> ('t, 's) runtime" where
  "flush_partition ops key rt = flush_partition_with_reason ops key Manual rt"

definition flush_oldest_partition ::
  "('t, 's) sink_ops \<Rightarrow> ('t, 's) runtime \<Rightarrow> flush_result result \<times> ('t, 's) runtime" where
  "flush_oldest_partition ops rt =
     (case oldest_partition_key rt of
        None \<Rightarrow> (Inr empty_result, rt)
      | Some key \<Rightarrow> flush_partition_with_reason ops key Budget rt)"

definition flush_all_with_reason ::
  "('t, 's) sink_ops \<Rightarrow> flush_reason \<Rightarrow> ('t, 's) runtime \<Rightarrow> flush_result result \<times> ('t, 's) runtime" where
  "flush_all_with_reason ops reason rt =
     (let keys = w_order (rt_world rt) (rt_clk rt) (hm_keys (rt_parts rt));
          (results, rt) = map_state (\<lambda>key. flush_partition_with_reason ops key reason) keys
            (rt\<lparr>rt_clk := Suc (rt_clk rt)\<rparr>)
      in (collect_flush_results results, sync_active_partitions rt))"

definition flush_all ::
  "('t, 's) sink_ops \<Rightarrow> ('t, 's) runtime \<Rightarrow> flush_result result \<times> ('t, 's) runtime" where
  "flush_all ops rt = flush_all_with_reason ops Manual rt"

subsection \<open>Accepting an item\<close>

text \<open>The loop that flushes oldest partitions until the aggregate budget holds or nothing shrinks.\<close>

function budget_loop ::
  "('t, 's) sink_ops \<Rightarrow> flush_result \<Rightarrow> ('t, 's) runtime \<Rightarrow> flush_result result \<times> ('t, 's) runtime" where
  "budget_loop ops result rt =
     (if total_pending_bytes rt \<le> cc_max_total_buffer_bytes (rt_config rt) then (Inr result, rt)
      else case flush_oldest_partition ops rt of
          (Inl e, rt') \<Rightarrow> (Inl e, rt')
        | (Inr r, rt') \<Rightarrow>
            if total_pending_bytes rt' \<ge> total_pending_bytes rt
            then (Inr (merge_flush_results result r), rt')
            else budget_loop ops (merge_flush_results result r) rt')"
  by pat_completeness auto
termination
  by (relation "measure (\<lambda>(ops, result, rt). total_pending_bytes rt)") auto

declare budget_loop.simps [simp del]

definition push_item :: "'t capture_item \<Rightarrow> ('t, 's) runtime \<Rightarrow> flush_reason option \<times> ('t, 's) runtime" where
  "push_item item rt =
     (let key = it_skey item;
          row_threshold = batch_row_threshold (cc_lifecycle (rt_config rt)) (cc_flush_rows (rt_config rt));
          p = buffer_push (it_payload item) (it_event_ts item) (it_bytes item) (it_row_count item)
                (unwrap_or empty_buffer (map_of (rt_parts rt) key));
          rt = rt\<lparr>rt_parts := AList.update key p (rt_parts rt)\<rparr>
      in (should_flush_reason row_threshold (cc_max_buffer_bytes (rt_config rt)) p,
          rt_set_metrics (\<lambda>m. m\<lparr>accepted_items := accepted_items m + 1\<rparr>) rt))"

definition submit_room ::
  "('t, 's) sink_ops \<Rightarrow> 't capture_item \<Rightarrow> flush_result \<Rightarrow> ('t, 's) runtime \<Rightarrow>
   flush_result result \<times> ('t, 's) runtime" where
  "submit_room ops item result rt =
     (let (reason, rt) = push_item item rt
      in case (case reason of
            None \<Rightarrow> (Inr result, rt)
          | Some r \<Rightarrow>
              let (flushed, rt) = flush_partition_with_reason ops (it_skey item) r rt
              in (map_result (merge_flush_results result) flushed, rt)) of
          (Inl e, rt) \<Rightarrow> (Inl e, rt)
        | (Inr result, rt) \<Rightarrow>
            (case budget_loop ops result rt of
               (Inl e, rt) \<Rightarrow> (Inl e, rt)
             | (Inr result, rt) \<Rightarrow> (Inr result, sync_active_partitions rt)))"

definition submit ::
  "('t, 's) sink_ops \<Rightarrow> 't capture_item \<Rightarrow> ('t, 's) runtime \<Rightarrow> flush_result result \<times> ('t, 's) runtime" where
  "submit ops item rt =
     (let key = it_skey item
      in if map_of (rt_parts rt) key = None
            \<and> length (rt_parts rt) \<ge> cc_max_active_partitions (rt_config rt)
         then let (flushed, rt) = flush_oldest_partition ops rt
              in case flushed of
                   Inl e \<Rightarrow> (Inl e, rt_record_failure (Some key) Admission
                     (Some (it_event_ts item, it_event_ts item)) rt)
                 | Inr r \<Rightarrow> submit_room ops item (merge_flush_results empty_result r) rt
         else submit_room ops item empty_result rt)"

subsection \<open>Sealing, ticking and breaking continuity\<close>

text \<open>Files a seal completed; the seals count a batch and a reason only when there are some.\<close>

definition count_files :: "flush_result \<Rightarrow> capture_metrics \<Rightarrow> capture_metrics" where
  "count_files res m = m\<lparr>completed_files := completed_files m + length (fr_files res),
     completed_file_bytes := completed_file_bytes m + fr_bytes res\<rparr>"

definition count_sealed :: "flush_reason \<Rightarrow> flush_result \<Rightarrow> capture_metrics \<Rightarrow> capture_metrics" where
  "count_sealed reason res m =
     (if fr_files res = [] then m
      else (count_files res m)\<lparr>flushed_batches := flushed_batches m + 1,
             flush_reasons := flush_reason_record reason (flush_reasons m)\<rparr>)"

definition break_continuity ::
  "('t, 's) sink_ops \<Rightarrow> string option \<Rightarrow> ('t, 's) runtime \<Rightarrow> flush_result result \<times> ('t, 's) runtime" where
  "break_continuity ops key rt =
     (let (flushed, rt) = (case key of Some k \<Rightarrow> flush_partition ops k rt | None \<Rightarrow> flush_all ops rt);
          (sealed, s) = so_break_continuity ops key (rt_sink rt);
          rt = rt_timed in_seal s rt;
          rt = (case sealed of
              Inl e \<Rightarrow> rt_record_failure key failure_operation.Seal None rt
            | Inr res \<Rightarrow> rt_set_metrics (count_files res) rt)
      in (collect_flush_results [flushed, sealed], rt))"

definition submit_initialization ::
  "('t, 's) sink_ops \<Rightarrow> 't capture_item \<Rightarrow> ('t, 's) runtime \<Rightarrow> flush_result result \<times> ('t, 's) runtime" where
  "submit_initialization ops item rt =
     (let key = it_skey item;
          (written, s) = so_write_initialization ops key (it_payload item) (rt_sink rt);
          rt = rt_timed in_write s rt
      in case written of
           Inr res \<Rightarrow> (Inr res, rt_set_metrics (\<lambda>m. m\<lparr>
               flushed_batches := flushed_batches m + (if 0 < fr_rows res then 1 else 0),
               flushed_rows := flushed_rows m + fr_rows res,
               completed_files := completed_files m + length (fr_files res),
               completed_file_bytes := completed_file_bytes m + fr_bytes res\<rparr>) rt)
         | Inl e \<Rightarrow>
             (let rt = rt_record_failure (Some key) Write None rt;
                  (_, rt) = break_continuity ops (Some key) rt
              in (Inl e, rt)))"

definition on_tick ::
  "('t, 's) sink_ops \<Rightarrow> nat \<Rightarrow> ('t, 's) runtime \<Rightarrow> flush_result result \<times> ('t, 's) runtime" where
  "on_tick ops now rt =
     (let (result, s) = so_on_tick ops now (rt_sink rt);
          rt = rt_timed in_sync s rt
      in case result of
           Inl e \<Rightarrow> (Inl e, snd (break_continuity ops None (rt_record_failure None Sync None rt)))
         | Inr res \<Rightarrow> (Inr res, rt_set_metrics (count_sealed flush_reason.Seal res) rt))"

definition seal_partition ::
  "('t, 's) sink_ops \<Rightarrow> string \<Rightarrow> ('t, 's) runtime \<Rightarrow> flush_result result \<times> ('t, 's) runtime" where
  "seal_partition ops key rt =
     (let (flushed, rt) = flush_partition_with_reason ops key flush_reason.Seal rt;
          (sealed, s) = so_seal_partition ops key (rt_sink rt);
          rt = rt_timed in_seal s rt;
          rt = (case sealed of
              Inl e \<Rightarrow> rt_record_failure (Some key) failure_operation.Seal None rt
            | Inr res \<Rightarrow> rt_set_metrics (count_sealed flush_reason.Seal res) rt)
      in (collect_flush_results [flushed, sealed], rt))"

definition seal_all_internal ::
  "('t, 's) sink_ops \<Rightarrow> flush_reason \<Rightarrow> ('s \<Rightarrow> flush_result result \<times> 's) \<Rightarrow>
   ('t, 's) runtime \<Rightarrow> flush_result result \<times> ('t, 's) runtime" where
  "seal_all_internal ops reason seal_sink rt =
     (let (flushed, rt) = flush_all_with_reason ops reason rt;
          (sealed, s) = seal_sink (rt_sink rt);
          rt = rt_timed in_seal s rt;
          rt = (case sealed of
              Inl e \<Rightarrow> rt_record_failure None failure_operation.Seal None rt
            | Inr res \<Rightarrow> rt_set_metrics (count_sealed reason res) rt)
      in (collect_flush_results [flushed, sealed], rt))"

definition seal_all ::
  "('t, 's) sink_ops \<Rightarrow> ('t, 's) runtime \<Rightarrow> flush_result result \<times> ('t, 's) runtime" where
  "seal_all ops rt = seal_all_internal ops flush_reason.Seal (so_seal_all ops) rt"

definition seal_all_for_shutdown ::
  "('t, 's) sink_ops \<Rightarrow> ('t, 's) runtime \<Rightarrow> flush_result result \<times> ('t, 's) runtime" where
  "seal_all_for_shutdown ops rt =
     seal_all_internal ops flush_reason.Shutdown (so_seal_all_for_shutdown ops) rt"

subsection \<open>What the small steps leave alone\<close>

lemma rt_step_simps [simp]:
  "rt_sink (rt_record_failure part op rng rt) = rt_sink rt"
  "rt_parts (rt_record_failure part op rng rt) = rt_parts rt"
  "rt_config (rt_record_failure part op rng rt) = rt_config rt"
  "rt_world (rt_record_failure part op rng rt) = rt_world rt"
  "rt_failures (rt_record_failure part op rng rt) = tracker_record part op rng (rt_failures rt)"
  "rt_sink (rt_set_metrics f rt) = rt_sink rt"
  "rt_parts (rt_set_metrics f rt) = rt_parts rt"
  "rt_config (rt_set_metrics f rt) = rt_config rt"
  "rt_world (rt_set_metrics f rt) = rt_world rt"
  "rt_failures (rt_set_metrics f rt) = rt_failures rt"
  "rt_sink (rt_timed g s rt) = s"
  "rt_parts (rt_timed g s rt) = rt_parts rt"
  "rt_config (rt_timed g s rt) = rt_config rt"
  "rt_world (rt_timed g s rt) = rt_world rt"
  "rt_failures (rt_timed g s rt) = rt_failures rt"
  "rt_sink (sync_active_partitions rt) = rt_sink rt"
  "rt_parts (sync_active_partitions rt) = rt_parts rt"
  "rt_config (sync_active_partitions rt) = rt_config rt"
  "rt_world (sync_active_partitions rt) = rt_world rt"
  "rt_failures (sync_active_partitions rt) = rt_failures rt"
  by (simp_all add: rt_record_failure_def rt_set_metrics_def rt_timed_def sync_active_partitions_def)

lemma write_failed_simps [simp]:
  "rt_parts (write_failed ops key p rt) = rt_parts rt"
  "rt_config (write_failed ops key p rt) = rt_config rt"
  "rt_world (write_failed ops key p rt) = rt_world rt"
  "rt_sink (write_failed ops key p rt) = snd (so_break_continuity ops (Some key) (rt_sink rt))"
  by (simp_all add: write_failed_def Let_def split_beta)

lemma total_pending_bytes_cong [simp]:
  "total_pending_bytes (sync_active_partitions rt) = total_pending_bytes rt"
  "total_pending_bytes (rt_set_metrics f rt) = total_pending_bytes rt"
  by (simp_all add: total_pending_bytes_def)

text \<open>A flush removes its partition's buffer whatever the sink answers, and no other.\<close>

lemma flush_parts:
  "rt_parts (snd (flush_partition_with_reason ops key reason rt)) = AList.delete key (rt_parts rt)"
proof (cases "map_of (rt_parts rt) key")
  case None
  then have "key \<notin> fst ` set (rt_parts rt)" by (simp add: map_of_eq_None_iff)
  then have "AList.delete key (rt_parts rt) = rt_parts rt" by (rule delete_id)
  with None show ?thesis by (simp add: flush_partition_with_reason_def)
next
  case (Some p)
  then show ?thesis
    by (simp add: flush_partition_with_reason_def Let_def split_beta split: sum.splits)
qed

lemma flush_config:
  "rt_config (snd (flush_partition_with_reason ops key reason rt)) = rt_config rt"
  "rt_world (snd (flush_partition_with_reason ops key reason rt)) = rt_world rt"
  by (simp_all add: flush_partition_with_reason_def Let_def split_beta split: option.splits sum.splits)

subsection \<open>The oldest partition\<close>

lemma older_trans: "older a b \<Longrightarrow> older b c \<Longrightarrow> older a c"
  by (auto simp: older_def)

lemma older_total: "fst a \<noteq> fst b \<Longrightarrow> older a b \<or> older b a"
  by (auto simp: older_def)

lemma older_irrefl: "\<not> older a a"
  by (simp add: older_def)

lemma min_older_in: "min_older x xs \<in> set (x # xs)"
  by (induction x xs rule: min_older.induct) auto

lemma min_older_least: "y \<in> set (x # xs) \<Longrightarrow> \<not> older y (min_older x xs)"
proof (induction x xs arbitrary: y rule: min_older.induct)
  case (1 best)
  then show ?case by (simp add: older_irrefl)
next
  case (2 best z zs)
  let ?b = "if older z best then z else best"
  have b: "\<not> older ?b (min_older ?b zs)" using "2.IH" [of ?b] by simp
  have step: "\<not> older z ?b \<and> \<not> older best ?b"
    by (auto simp: older_def)
  show ?case
  proof (cases "y \<in> set zs")
    case True
    then show ?thesis using "2.IH" [of y] by simp
  next
    case False
    with "2.prems" step have y: "\<not> older y ?b" by auto
    show ?thesis
    proof
      assume "older y (min_older best (z # zs))"
      then have o: "older y (min_older ?b zs)" by simp
      with b have "\<not> older ?b y" using older_trans by blast
      with y have eq: "oldest_ts (snd y) = oldest_ts (snd ?b)" "fst y = fst ?b"
        by (auto simp: older_def simp del: if_split_asm split del: if_split)
      with o b show False by (simp add: older_def)
    qed
  qed
qed

lemma oldest_key_Some:
  assumes "oldest_partition_key rt = Some k" and v: "hm_valid (rt_parts rt)"
  shows "\<exists>p. map_of (rt_parts rt) k = Some p \<and> pb_items p \<noteq> []
    \<and> (\<forall>k' p'. map_of (rt_parts rt) k' = Some p' \<longrightarrow> pb_items p' \<noteq> [] \<longrightarrow> \<not> older (k', p') (k, p))"
proof -
  let ?live = "filter (\<lambda>(_, p). pb_items p \<noteq> []) (rt_parts rt)"
  obtain x xs where live: "?live = x # xs" and k: "k = fst (min_older x xs)"
    using assms(1) by (auto simp: oldest_partition_key_def split: list.splits)
  have m: "min_older x xs \<in> set ?live" using min_older_in [of x xs] live by simp
  then have p: "map_of (rt_parts rt) k = Some (snd (min_older x xs))" "pb_items (snd (min_older x xs)) \<noteq> []"
    using v k by (auto simp: hm_valid_def)
  have "\<not> older (k', p') (k, snd (min_older x xs))"
    if "map_of (rt_parts rt) k' = Some p'" "pb_items p' \<noteq> []" for k' p'
  proof -
    have "(k', p') \<in> set ?live" using that by (auto dest: map_of_SomeD)
    then show ?thesis using min_older_least [of "(k', p')" x xs] live k by simp
  qed
  with p show ?thesis by blast
qed

lemma oldest_key_None:
  "oldest_partition_key rt = None \<longleftrightarrow> (\<forall>x \<in> set (rt_parts rt). pb_items (snd x) = [])"
proof -
  have "filter (\<lambda>(_, p). pb_items p \<noteq> []) (rt_parts rt) = [] \<longleftrightarrow>
      (\<forall>x \<in> set (rt_parts rt). pb_items (snd x) = [])"
    by (auto simp: filter_empty_conv)
  then show ?thesis
    by (cases "filter (\<lambda>(_, p). pb_items p \<noteq> []) (rt_parts rt)")
       (auto simp: oldest_partition_key_def)
qed

subsection \<open>Bounds\<close>

text \<open>
  Between operations every buffer holds something, is below its row and byte thresholds, and
  there are at most \<open>max_active_partitions\<close> of them.
\<close>

definition buffer_ok :: "capture_config \<Rightarrow> 't partition_buffer \<Rightarrow> bool" where
  "buffer_ok c p = (pb_items p \<noteq> [] \<and> 0 < pb_bytes p
     \<and> pb_rows p < batch_row_threshold (cc_lifecycle c) (cc_flush_rows c)
     \<and> pb_bytes p < cc_max_buffer_bytes c)"

definition buffers_inv :: "('t, 's) runtime \<Rightarrow> bool" where
  "buffers_inv rt = (hm_valid (rt_parts rt)
     \<and> length (rt_parts rt) \<le> cc_max_active_partitions (rt_config rt)
     \<and> (\<forall>k p. map_of (rt_parts rt) k = Some p \<longrightarrow> buffer_ok (rt_config rt) p))"

lemma buffers_inv_delete:
  assumes "buffers_inv rt" "rt_parts rt' = AList.delete k (rt_parts rt)" "rt_config rt' = rt_config rt"
  shows "buffers_inv rt'"
  using assms hm.valid_del [of "rt_parts rt" k] length_delete_le [of k "rt_parts rt"]
  by (auto simp: buffers_inv_def hm.get_del split: if_splits)

lemma flush_buffers_inv:
  "buffers_inv rt \<Longrightarrow> buffers_inv (snd (flush_partition_with_reason ops key reason rt))"
  by (rule buffers_inv_delete [OF _ flush_parts]) (simp_all add: flush_config)

lemma flush_total:
  assumes "hm_valid (rt_parts rt)" "map_of (rt_parts rt) key = Some p"
  shows "total_pending_bytes (snd (flush_partition_with_reason ops key reason rt)) + pb_bytes p
    = total_pending_bytes rt"
  using sum_list_delete [OF assms, of pb_bytes] by (simp add: total_pending_bytes_def flush_parts)

lemma flush_oldest_config:
  "rt_config (snd (flush_oldest_partition ops rt)) = rt_config rt"
  "rt_world (snd (flush_oldest_partition ops rt)) = rt_world rt"
  by (simp_all add: flush_oldest_partition_def flush_config split: option.splits)

lemma flush_oldest_buffers_inv:
  "buffers_inv rt \<Longrightarrow> buffers_inv (snd (flush_oldest_partition ops rt))"
  by (simp add: flush_oldest_partition_def flush_buffers_inv split: option.splits)

text \<open>As long as something is buffered, flushing the oldest partition makes progress.\<close>

lemma buffers_inv_key:
  assumes "buffers_inv rt" "rt_parts rt \<noteq> []"
  obtains k p where "oldest_partition_key rt = Some k" "map_of (rt_parts rt) k = Some p" "0 < pb_bytes p"
proof -
  obtain k0 p0 where "(k0, p0) \<in> set (rt_parts rt)" using assms(2) by (cases "rt_parts rt") auto
  moreover from this assms(1) have "buffer_ok (rt_config rt) p0"
    by (auto simp: buffers_inv_def hm_valid_def)
  ultimately have "oldest_partition_key rt \<noteq> None"
    unfolding oldest_key_None by (force simp: buffer_ok_def)
  then obtain k where k: "oldest_partition_key rt = Some k" by blast
  with oldest_key_Some [OF k] assms(1) obtain p where "map_of (rt_parts rt) k = Some p"
    by (auto simp: buffers_inv_def)
  with k assms(1) that show ?thesis by (auto simp: buffers_inv_def buffer_ok_def)
qed

lemma flush_oldest_shrinks:
  assumes inv: "buffers_inv rt" and some: "rt_parts rt \<noteq> []"
  shows "total_pending_bytes (snd (flush_oldest_partition ops rt)) < total_pending_bytes rt"
    "length (rt_parts (snd (flush_oldest_partition ops rt))) = length (rt_parts rt) - 1"
proof -
  obtain k p where k: "oldest_partition_key rt = Some k" "map_of (rt_parts rt) k = Some p" "0 < pb_bytes p"
    using buffers_inv_key [OF inv some] .
  have v: "hm_valid (rt_parts rt)" using inv by (simp add: buffers_inv_def)
  show "total_pending_bytes (snd (flush_oldest_partition ops rt)) < total_pending_bytes rt"
    using flush_total [OF v k(2), of ops Budget] k by (simp add: flush_oldest_partition_def)
  show "length (rt_parts (snd (flush_oldest_partition ops rt))) = length (rt_parts rt) - 1"
    using hm.length_keys_del [OF v, of k] k by (simp add: flush_oldest_partition_def flush_parts)
qed

lemma budget_loop_bounds:
  assumes "buffers_inv rt"
  shows "buffers_inv (snd (budget_loop ops res rt))
    \<and> rt_config (snd (budget_loop ops res rt)) = rt_config rt
    \<and> rt_world (snd (budget_loop ops res rt)) = rt_world rt
    \<and> (\<not> isl (fst (budget_loop ops res rt)) \<longrightarrow>
        total_pending_bytes (snd (budget_loop ops res rt)) \<le> cc_max_total_buffer_bytes (rt_config rt))"
  using assms
proof (induction ops res rt rule: budget_loop.induct)
  case (1 ops res rt)
  show ?case
  proof (cases "total_pending_bytes rt \<le> cc_max_total_buffer_bytes (rt_config rt)")
    case True
    then show ?thesis using "1.prems" by (simp add: budget_loop.simps [of ops res rt])
  next
    case False
    then have "rt_parts rt \<noteq> []" by (auto simp: total_pending_bytes_def)
    note less = flush_oldest_shrinks(1) [OF "1.prems" this, of ops]
    obtain r rt' where f: "flush_oldest_partition ops rt = (r, rt')" by fastforce
    have inv: "buffers_inv rt'" "rt_config rt' = rt_config rt" "rt_world rt' = rt_world rt"
      using flush_oldest_buffers_inv [OF "1.prems", of ops] flush_oldest_config [of ops rt] f by simp_all
    show ?thesis
    proof (cases r)
      case (Inl e)
      then show ?thesis using False f inv by (simp add: budget_loop.simps [of ops res rt])
    next
      case (Inr x)
      have nle: "\<not> total_pending_bytes rt' \<ge> total_pending_bytes rt" using less f by simp
      from "1.IH" [OF False f [symmetric] Inr nle inv(1)]
      show ?thesis using False f Inr nle inv by (simp add: budget_loop.simps [of ops res rt])
    qed
  qed
qed

text \<open>An accepted item leaves the invariant broken at most at its own partition, which is then flushed.\<close>

lemma push_item_simps:
  "rt_config (snd (push_item item rt)) = rt_config rt"
  "rt_world (snd (push_item item rt)) = rt_world rt"
  "rt_sink (snd (push_item item rt)) = rt_sink rt"
  "rt_failures (snd (push_item item rt)) = rt_failures rt"
  by (simp_all add: push_item_def Let_def)

lemma push_item_parts:
  "map_of (rt_parts (snd (push_item item rt))) k =
    (if k = it_skey item
     then Some (buffer_push (it_payload item) (it_event_ts item) (it_bytes item) (it_row_count item)
            (unwrap_or empty_buffer (map_of (rt_parts rt) k)))
     else map_of (rt_parts rt) k)"
  by (simp add: push_item_def Let_def hm.get_ins)

lemma push_item_valid:
  assumes "buffers_inv rt"
    and room: "map_of (rt_parts rt) (it_skey item) \<noteq> None
      \<or> length (rt_parts rt) < cc_max_active_partitions (rt_config rt)"
  shows "hm_valid (rt_parts (snd (push_item item rt)))"
    "length (rt_parts (snd (push_item item rt))) \<le> cc_max_active_partitions (rt_config rt)"
proof -
  have v: "hm_valid (rt_parts rt)" "length (rt_parts rt) \<le> cc_max_active_partitions (rt_config rt)"
    using assms(1) by (simp_all add: buffers_inv_def)
  let ?p = "buffer_push (it_payload item) (it_event_ts item) (it_bytes item) (it_row_count item)
      (unwrap_or empty_buffer (map_of (rt_parts rt) (it_skey item)))"
  have parts: "rt_parts (snd (push_item item rt)) = AList.update (it_skey item) ?p (rt_parts rt)"
    by (simp add: push_item_def Let_def)
  show "hm_valid (rt_parts (snd (push_item item rt)))"
    using v(1) by (simp add: parts hm.valid_ins)
  show "length (rt_parts (snd (push_item item rt))) \<le> cc_max_active_partitions (rt_config rt)"
    using hm.length_keys_ins [OF v(1), of "it_skey item" ?p] v(2) room
    by (cases "map_of (rt_parts rt) (it_skey item) = None") (simp_all add: parts)
qed

lemma push_item_due:
  assumes inv: "buffers_inv rt" and b: "0 < it_bytes item"
    and p: "map_of (rt_parts (snd (push_item item rt))) (it_skey item) = Some p"
    and none: "fst (push_item item rt) = None"
  shows "buffer_ok (rt_config rt) p"
  using assms by (auto simp: push_item_def Let_def hm.get_ins should_flush_reason_def buffer_ok_def
      split: if_splits)

lemma submit_room_bounds:
  assumes inv: "buffers_inv rt" and b: "0 < it_bytes item"
    and room: "map_of (rt_parts rt) (it_skey item) \<noteq> None
      \<or> length (rt_parts rt) < cc_max_active_partitions (rt_config rt)"
  shows "buffers_inv (snd (submit_room ops item res rt))
    \<and> rt_config (snd (submit_room ops item res rt)) = rt_config rt
    \<and> rt_world (snd (submit_room ops item res rt)) = rt_world rt
    \<and> (\<not> isl (fst (submit_room ops item res rt)) \<longrightarrow>
        total_pending_bytes (snd (submit_room ops item res rt)) \<le> cc_max_total_buffer_bytes (rt_config rt))"
proof -
  obtain reason rt1 where p: "push_item item rt = (reason, rt1)" by fastforce
  have v: "hm_valid (rt_parts rt1)" "length (rt_parts rt1) \<le> cc_max_active_partitions (rt_config rt)"
    using push_item_valid [OF inv room] p by simp_all
  have c: "rt_config rt1 = rt_config rt" "rt_world rt1 = rt_world rt"
    using push_item_simps [of item rt] p by simp_all
  have other: "buffer_ok (rt_config rt) q" if "map_of (rt_parts rt1) k = Some q" "k \<noteq> it_skey item" for k q
    using that inv push_item_parts [of item rt k] p by (auto simp: buffers_inv_def)
  let ?f = "case reason of None \<Rightarrow> (Inr res, rt1)
    | Some r \<Rightarrow> (map_result (merge_flush_results res) (fst (flush_partition_with_reason ops (it_skey item) r rt1)),
        snd (flush_partition_with_reason ops (it_skey item) r rt1))"
  obtain r2 rt2 where f: "?f = (r2, rt2)" by fastforce
  have inv2: "buffers_inv rt2" and c2: "rt_config rt2 = rt_config rt" "rt_world rt2 = rt_world rt"
  proof -
    show "rt_config rt2 = rt_config rt" "rt_world rt2 = rt_world rt"
      using f c by (auto simp: flush_config split: option.splits)
    then show "buffers_inv rt2"
    proof (cases reason)
      case None
      with f have rt2: "rt2 = rt1" by simp
      have "buffer_ok (rt_config rt) q" if "map_of (rt_parts rt1) k = Some q" for k q
        using that other push_item_due [OF inv b, of q] p None by (cases "k = it_skey item") auto
      with v c rt2 show ?thesis by (auto simp: buffers_inv_def)
    next
      case (Some r)
      with f have parts: "rt_parts rt2 = AList.delete (it_skey item) (rt_parts rt1)"
        by (auto simp: flush_parts)
      have "buffer_ok (rt_config rt) q" if "map_of (rt_parts rt2) k = Some q" for k q
        using that other parts by (auto simp: hm.get_del split: if_splits)
      with v c \<open>rt_config rt2 = rt_config rt\<close> parts length_delete_le [of "it_skey item" "rt_parts rt1"]
      show ?thesis by (auto simp: buffers_inv_def hm.valid_del)
    qed
  qed
  have eq: "submit_room ops item res rt = (case (r2, rt2) of
      (Inl e, rt) \<Rightarrow> (Inl e, rt)
    | (Inr result, rt) \<Rightarrow>
        (case budget_loop ops result rt of
           (Inl e, rt) \<Rightarrow> (Inl e, rt)
         | (Inr result, rt) \<Rightarrow> (Inr result, sync_active_partitions rt)))"
  proof (cases reason)
    case None
    with f show ?thesis by (simp add: submit_room_def p)
  next
    case (Some a)
    obtain q rt' where q: "flush_partition_with_reason ops (it_skey item) a rt1 = (q, rt')" by fastforce
    with f Some show ?thesis by (simp add: submit_room_def p)
  qed
  show ?thesis
  proof (cases r2)
    case (Inl e)
    then show ?thesis using eq inv2 c2 by simp
  next
    case (Inr x)
    obtain r3 rt3 where l: "budget_loop ops x rt2 = (r3, rt3)" by fastforce
    have sync: "buffers_inv (sync_active_partitions rt3) = buffers_inv rt3" by (simp add: buffers_inv_def)
    show ?thesis using budget_loop_bounds [OF inv2, of ops x] l eq c2 Inr sync
      by (cases r3) simp_all
  qed
qed

lemma submit_bounds_aux:
  assumes inv: "buffers_inv rt" and b: "0 < it_bytes item" and m: "0 < cc_max_active_partitions (rt_config rt)"
  shows "buffers_inv (snd (submit ops item rt)) \<and> rt_config (snd (submit ops item rt)) = rt_config rt
    \<and> rt_world (snd (submit ops item rt)) = rt_world rt
    \<and> (\<not> isl (fst (submit ops item rt)) \<longrightarrow>
        total_pending_bytes (snd (submit ops item rt)) \<le> cc_max_total_buffer_bytes (rt_config rt))"
proof (cases "map_of (rt_parts rt) (it_skey item) = None
    \<and> length (rt_parts rt) \<ge> cc_max_active_partitions (rt_config rt)")
  case False
  then show ?thesis using submit_room_bounds [OF inv b, of ops empty_result] by (auto simp: submit_def)
next
  case True
  then have ne: "rt_parts rt \<noteq> []" using m by auto
  obtain r rt1 where f: "flush_oldest_partition ops rt = (r, rt1)" by fastforce
  have inv1: "buffers_inv rt1" "rt_config rt1 = rt_config rt" "rt_world rt1 = rt_world rt"
    using flush_oldest_buffers_inv [OF inv, of ops] flush_oldest_config [of ops rt] f by simp_all
  have "map_of (rt_parts rt1) (it_skey item) \<noteq> None
      \<or> length (rt_parts rt1) < cc_max_active_partitions (rt_config rt1)"
    using flush_oldest_shrinks(2) [OF inv ne, of ops] inv f m inv1(2) by (auto simp: buffers_inv_def)
  note room = submit_room_bounds [OF inv1(1) b this, of ops]
  show ?thesis
  proof (cases r)
    case (Inl e)
    then show ?thesis using True f inv1 by (simp add: submit_def Let_def buffers_inv_def)
  next
    case (Inr x)
    then show ?thesis using True f inv1 room [of "merge_flush_results empty_result x"]
      by (simp add: submit_def Let_def)
  qed
qed

subsection \<open>Nothing is lost silently\<close>

text \<open>
  \<open>contents rows rt k\<close>: the payloads of partition \<open>k\<close> that have been accepted and not lost, in
  order: what the sink has, then what is buffered. An operation is \<open>accounted\<close> when every
  partition either keeps its contents, extended exactly by what was submitted, or is named by a
  failure recorded during the operation.
\<close>

definition contents :: "('s \<Rightarrow> string \<Rightarrow> 't list) \<Rightarrow> ('t, 's) runtime \<Rightarrow> string \<Rightarrow> 't list" where
  "contents rows rt k = rows (rt_sink rt) k @
     (case map_of (rt_parts rt) k of None \<Rightarrow> [] | Some p \<Rightarrow> pb_items p)"

definition tells :: "failure_event list \<Rightarrow> string \<Rightarrow> bool" where
  "tells es k = (\<exists>e \<in> set es. fst e = None \<or> fst e = Some k)"

definition accounted :: "('s \<Rightarrow> string \<Rightarrow> 't list) \<Rightarrow> (string \<Rightarrow> 't list) \<Rightarrow>
    ('t, 's) runtime \<Rightarrow> ('t, 's) runtime \<Rightarrow> bool" where
  "accounted rows add rt rt' = (\<exists>es. rt_failures rt' = record_all es (rt_failures rt)
     \<and> (\<forall>k. tells es k \<or> contents rows rt' k = contents rows rt k @ add k))"

definition rt_ok :: "('s \<Rightarrow> bool) \<Rightarrow> ('t, 's) runtime \<Rightarrow> bool" where
  "rt_ok ok rt = (ok (rt_sink rt) \<and> hm_valid (rt_parts rt))"

abbreviation nothing :: "string \<Rightarrow> 't list" where
  "nothing \<equiv> \<lambda>_. []"

lemma tells_simps [simp]:
  "tells [] k = False" "tells [(None, op, r)] k" "tells [(Some k', op, r)] k = (k' = k)"
  "tells (es @ es') k = (tells es k \<or> tells es' k)"
  by (auto simp: tells_def)

lemma accountedI:
  "rt_failures rt' = record_all es (rt_failures rt) \<Longrightarrow>
   (\<And>k. \<not> tells es k \<Longrightarrow> contents rows rt' k = contents rows rt k @ add k) \<Longrightarrow>
   accounted rows add rt rt'"
  unfolding accounted_def by blast

lemma accounted_same [intro]:
  "rt_failures rt' = rt_failures rt \<Longrightarrow> (\<And>k. contents rows rt' k = contents rows rt k) \<Longrightarrow>
   accounted rows nothing rt rt'"
  by (rule accountedI [where es = "[]"]) simp_all

lemma accounted_refl: "accounted rows nothing rt rt"
  by (rule accounted_same) simp_all

lemma accounted_trans:
  assumes "accounted rows a rt1 rt2" "accounted rows b rt2 rt3" "\<And>k. c k = a k @ b k"
  shows "accounted rows c rt1 rt3"
proof -
  obtain es es' where "rt_failures rt2 = record_all es (rt_failures rt1)"
    "\<forall>k. tells es k \<or> contents rows rt2 k = contents rows rt1 k @ a k"
    "rt_failures rt3 = record_all es' (rt_failures rt2)"
    "\<forall>k. tells es' k \<or> contents rows rt3 k = contents rows rt2 k @ b k"
    using assms(1,2) by (auto simp: accounted_def)
  then show ?thesis using assms(3)
    by (intro accountedI [where es = "es @ es'"]) (auto dest!: spec)
qed

lemma contents_step_simps [simp]:
  "contents rows (sync_active_partitions rt) = contents rows rt"
  "contents rows (rt_set_metrics f rt) = contents rows rt"
  "contents rows (rt_record_failure part op rng rt) = contents rows rt"
  by (simp_all add: contents_def fun_eq_iff)

lemma accounted_metrics: "accounted rows nothing rt (rt_set_metrics f rt)"
  "accounted rows nothing rt (sync_active_partitions rt)"
  by (rule accounted_same; simp)+

lemma rt_ok_simps [simp]:
  "rt_ok ok (sync_active_partitions rt) = rt_ok ok rt"
  "rt_ok ok (rt_set_metrics f rt) = rt_ok ok rt"
  "rt_ok ok (rt_record_failure part op rng rt) = rt_ok ok rt"
  by (simp_all add: rt_ok_def)

lemma write_failed_failures:
  "rt_failures (write_failed ops key p rt) = record_all ((Some key, Write, zip_range (pb_min p) (pb_max p))
     # (if isl (fst (so_break_continuity ops (Some key) (rt_sink rt)))
        then [(Some key, failure_operation.Seal, None)] else [])) (rt_failures rt)"
  by (simp add: write_failed_def Let_def split_beta)

context capture_sink
begin

lemma flush_accounted:
  assumes okay: "rt_ok ok rt"
  shows "accounted rows nothing rt (snd (flush_partition_with_reason ops key reason rt))
    \<and> rt_ok ok (snd (flush_partition_with_reason ops key reason rt))"
proof (cases "map_of (rt_parts rt) key")
  case None
  then show ?thesis using okay by (simp add: flush_partition_with_reason_def accounted_metrics)
next
  case (Some p)
  let ?rt1 = "rt\<lparr>rt_parts := AList.delete key (rt_parts rt)\<rparr>"
  have v: "hm_valid (AList.delete key (rt_parts rt))" using okay by (simp add: rt_ok_def hm.valid_del)
  show ?thesis
  proof (cases "pb_items p = []")
    case True
    have "contents rows ?rt1 k = contents rows rt k" for k
      using Some True by (simp add: contents_def hm.get_del)
    then have "accounted rows nothing rt (sync_active_partitions ?rt1)"
      by (intro accounted_same) simp_all
    then show ?thesis using Some True okay v
      by (simp add: flush_partition_with_reason_def rt_ok_def)
  next
    case False
    obtain written s where w: "so_write_batch ops key (pb_items p) (rt_sink rt) = (written, s)" by fastforce
    have oks: "ok s" using ok_write [of "rt_sink rt" key "pb_items p"] okay w by (simp add: rt_ok_def)
    have s0: "ok (rt_sink rt)" using okay by (simp add: rt_ok_def)
    show ?thesis
    proof (cases written)
      case (Inr files)
      let ?rt' = "snd (flush_partition_with_reason ops key reason rt)"
      have sink: "rt_sink ?rt' = s" and fails: "rt_failures ?rt' = rt_failures rt"
        using Some False w Inr by (simp_all add: flush_partition_with_reason_def Let_def)
      have "contents rows ?rt' k = contents rows rt k" for k
        using Some w Inr write_ok [OF s0, of key "pb_items p" files s k]
        by (simp add: contents_def sink flush_parts hm.get_del)
      moreover have "rt_ok ok ?rt'" using oks v by (simp add: rt_ok_def sink flush_parts)
      ultimately show ?thesis using fails by (intro conjI accounted_same)
    next
      case (Inl e)
      let ?rt2 = "rt_timed in_write s ?rt1"
      obtain b s' where br: "so_break_continuity ops (Some key) s = (b, s')" by fastforce
      have oks': "ok s'" using ok_break [OF oks, of "Some key"] br by simp
      have res: "snd (flush_partition_with_reason ops key reason rt)
          = sync_active_partitions (write_failed ops key p ?rt2)"
        using Some False w Inl by (simp add: flush_partition_with_reason_def Let_def)
      have "contents rows (write_failed ops key p ?rt2) k = contents rows rt k" if "k \<noteq> key" for k
        using that write_other [OF s0 w, of k] break_other [OF oks br, of k] br
        by (simp add: contents_def hm.get_del)
      then have "accounted rows nothing rt (write_failed ops key p ?rt2)"
        using write_failed_failures [of ops key p ?rt2]
        by (intro accountedI [where es = "(Some key, Write, zip_range (pb_min p) (pb_max p))
            # (if isl b then [(Some key, failure_operation.Seal, None)] else [])"])
           (auto simp: tells_def br)
      moreover have "rt_ok ok (write_failed ops key p ?rt2)"
        using oks' br v by (simp add: rt_ok_def)
      ultimately show ?thesis unfolding res
        by (auto intro: accounted_trans [OF _ accounted_metrics(2)])
    qed
  qed
qed

abbreviation safe_step :: "('t, 's) runtime \<Rightarrow> ('t, 's) runtime \<Rightarrow> bool" where
  "safe_step rt rt' \<equiv> accounted rows nothing rt rt' \<and> rt_ok ok rt'"

lemma safe_trans: "safe_step rt1 rt2 \<Longrightarrow> safe_step rt2 rt3 \<Longrightarrow> safe_step rt1 rt3"
  by (blast intro: accounted_trans [where a = nothing and b = nothing] append_Nil [symmetric])

lemma flush_oldest_safe: "rt_ok ok rt \<Longrightarrow> safe_step rt (snd (flush_oldest_partition ops rt))"
  by (simp add: flush_oldest_partition_def flush_accounted accounted_refl split: option.splits)

lemma flush_all_safe:
  assumes "rt_ok ok rt"
  shows "safe_step rt (snd (flush_all_with_reason ops reason rt))"
proof -
  let ?rt1 = "rt\<lparr>rt_clk := Suc (rt_clk rt)\<rparr>"
  let ?keys = "w_order (rt_world rt) (rt_clk rt) (hm_keys (rt_parts rt))"
  have ok1: "safe_step rt ?rt1" using assms by (auto simp: rt_ok_def contents_def)
  have "safe_step ?rt1 (snd (map_state (\<lambda>key. flush_partition_with_reason ops key reason) ?keys ?rt1))"
    using ok1 map_state_induct [where R = "accounted rows nothing" and I = "rt_ok ok"
        and f = "\<lambda>key. flush_partition_with_reason ops key reason" and xs = ?keys and s = ?rt1]
      accounted_refl flush_accounted accounted_trans [where a = nothing and b = nothing and c = nothing]
    by fastforce
  from safe_trans [OF ok1 this] show ?thesis
    by (auto simp: flush_all_with_reason_def Let_def split_beta
        intro: accounted_trans [OF _ accounted_metrics(2)])
qed

text \<open>A call of the sink whose failure, if it fails, is recorded with the scope it may affect.\<close>

lemma sink_call_safe:
  assumes "rt_ok ok rt" "ok (rt_sink rt')" "rt_parts rt' = rt_parts rt"
    "rt_failures rt' = record_all es (rt_failures rt)"
    "\<And>k. \<not> tells es k \<Longrightarrow> rows (rt_sink rt') k = rows (rt_sink rt) k"
  shows "safe_step rt rt'"
  using assms by (auto simp: rt_ok_def contents_def intro!: accountedI [where es = es])

lemma break_safe:
  assumes "rt_ok ok rt"
  shows "safe_step rt (snd (break_continuity ops key rt))"
proof -
  obtain flushed rt1 where f: "(case key of Some k \<Rightarrow> flush_partition ops k rt | None \<Rightarrow> flush_all ops rt)
      = (flushed, rt1)" by fastforce
  have one: "safe_step rt rt1"
    using f flush_accounted [OF assms] flush_all_safe [OF assms]
    by (auto simp: flush_partition_def flush_all_def split: option.splits) (metis sndI)+
  obtain sealed s where b: "so_break_continuity ops key (rt_sink rt1) = (sealed, s)" by fastforce
  have ok1: "ok (rt_sink rt1)" using one by (simp add: rt_ok_def)
  have oks: "ok s" using ok_break [OF ok1, of key] b by simp
  let ?rt2 = "snd (break_continuity ops key rt)"
  have "safe_step rt1 ?rt2"
  proof (cases sealed)
    case (Inl e)
    have "rows s k = rows (rt_sink rt1) k" if "\<not> tells [(key, failure_operation.Seal, None)] k" for k
      using that break_other [OF ok1, of _ sealed s k] b by (cases key) auto
    then show ?thesis using one oks f b Inl
      by (intro sink_call_safe [where es = "[(key, failure_operation.Seal, None)]"])
         (simp_all add: break_continuity_def Let_def)
  next
    case (Inr r)
    show ?thesis using one oks f b Inr break_rows [OF ok1, of key r s]
      by (intro sink_call_safe [where es = "[]"]) (simp_all add: break_continuity_def Let_def)
  qed
  with one show ?thesis by (rule safe_trans)
qed

lemma tick_safe:
  assumes "rt_ok ok rt"
  shows "safe_step rt (snd (on_tick ops now rt))"
proof -
  obtain r s where t: "so_on_tick ops now (rt_sink rt) = (r, s)" by fastforce
  have s0: "ok (rt_sink rt)" using assms by (simp add: rt_ok_def)
  have oks: "ok s" using ok_tick [OF s0, of now] t by simp
  show ?thesis
  proof (cases r)
    case (Inl e)
    have "safe_step rt (rt_record_failure None Sync None (rt_timed in_sync s rt))"
      using assms oks by (intro sink_call_safe [where es = "[(None, Sync, None)]"]) simp_all
    from safe_trans [OF this break_safe] this Inl t show ?thesis
      by (simp add: on_tick_def Let_def)
  next
    case (Inr res)
    then show ?thesis using assms oks t tick_rows [OF s0, of now res s]
      by (intro sink_call_safe [where es = "[]"]) (simp_all add: on_tick_def Let_def)
  qed
qed

lemma seal_partition_safe:
  assumes "rt_ok ok rt"
  shows "safe_step rt (snd (seal_partition ops key rt))"
proof -
  obtain flushed rt1 where f: "flush_partition_with_reason ops key flush_reason.Seal rt = (flushed, rt1)"
    by fastforce
  have one: "safe_step rt rt1" using flush_accounted [OF assms, of key flush_reason.Seal] f by simp
  obtain sealed s where b: "so_seal_partition ops key (rt_sink rt1) = (sealed, s)" by fastforce
  have ok1: "ok (rt_sink rt1)" using one by (simp add: rt_ok_def)
  have oks: "ok s" using ok_seal [OF ok1, of key] b by simp
  have "safe_step rt1 (snd (seal_partition ops key rt))"
  proof (cases sealed)
    case (Inl e)
    then show ?thesis using one oks f b seal_other [OF ok1 b]
      by (intro sink_call_safe [where es = "[(Some key, failure_operation.Seal, None)]"])
         (auto simp: seal_partition_def Let_def)
  next
    case (Inr r)
    show ?thesis using one oks f b Inr seal_rows [OF ok1, of key r s]
      by (intro sink_call_safe [where es = "[]"]) (simp_all add: seal_partition_def Let_def)
  qed
  with one show ?thesis by (rule safe_trans)
qed

lemma seal_all_internal_safe:
  assumes "rt_ok ok rt"
    and rows: "\<And>s r s'. ok s \<Longrightarrow> seal_sink s = (Inr r, s') \<Longrightarrow> rows s' = rows s"
    and ok: "\<And>s. ok s \<Longrightarrow> ok (snd (seal_sink s))"
  shows "safe_step rt (snd (seal_all_internal ops reason seal_sink rt))"
proof -
  obtain flushed rt1 where f: "flush_all_with_reason ops reason rt = (flushed, rt1)" by fastforce
  have one: "safe_step rt rt1" using flush_all_safe [OF assms(1), of reason] f by simp
  obtain sealed s where b: "seal_sink (rt_sink rt1) = (sealed, s)" by fastforce
  have ok1: "ok (rt_sink rt1)" using one by (simp add: rt_ok_def)
  have oks: "ok s" using ok [OF ok1] b by simp
  have "safe_step rt1 (snd (seal_all_internal ops reason seal_sink rt))"
  proof (cases sealed)
    case (Inl e)
    then show ?thesis using one oks f b
      by (intro sink_call_safe [where es = "[(None, failure_operation.Seal, None)]"])
         (auto simp: seal_all_internal_def Let_def)
  next
    case (Inr r)
    show ?thesis using one oks f b Inr rows [OF ok1, of r s]
      by (intro sink_call_safe [where es = "[]"]) (simp_all add: seal_all_internal_def Let_def)
  qed
  with one show ?thesis by (rule safe_trans)
qed

lemma budget_loop_safe: "rt_ok ok rt \<Longrightarrow> safe_step rt (snd (budget_loop ops res rt))"
proof (induction "total_pending_bytes rt" arbitrary: res rt rule: less_induct)
  case less
  show ?case
  proof (cases "total_pending_bytes rt \<le> cc_max_total_buffer_bytes (rt_config rt)")
    case True
    then show ?thesis using less.prems
      by (simp add: budget_loop.simps [of ops res rt] accounted_refl)
  next
    case False
    obtain r rt' where f: "flush_oldest_partition ops rt = (r, rt')" by fastforce
    have one: "safe_step rt rt'" using flush_oldest_safe [OF less.prems] f by simp
    show ?thesis
    proof (cases "\<exists>x. r = Inr x \<and> total_pending_bytes rt' < total_pending_bytes rt")
      case True
      then obtain x where x: "r = Inr x" "total_pending_bytes rt' < total_pending_bytes rt" by blast
      have "safe_step rt' (snd (budget_loop ops (merge_flush_results res x) rt'))"
        using less.hyps [OF x(2)] one by blast
      from safe_trans [OF one this] show ?thesis
        using False f x by (simp add: budget_loop.simps [of ops res rt])
    next
      case stop: False
      then have "snd (budget_loop ops res rt) = rt'"
        using False f by (cases r) (simp_all add: budget_loop.simps [of ops res rt])
      with one show ?thesis by simp
    qed
  qed
qed

text \<open>What an accepted item adds.\<close>

abbreviation adds :: "'t capture_item \<Rightarrow> string \<Rightarrow> 't list" where
  "adds item \<equiv> \<lambda>k. if k = it_skey item then [it_payload item] else []"

lemma push_item_accounted:
  assumes "rt_ok ok rt"
  shows "accounted rows (adds item) rt (snd (push_item item rt)) \<and> rt_ok ok (snd (push_item item rt))"
proof
  show "accounted rows (adds item) rt (snd (push_item item rt))"
    by (rule accountedI [where es = "[]"])
       (auto simp: push_item_simps contents_def push_item_parts split: option.splits)
  show "rt_ok ok (snd (push_item item rt))"
    using assms by (simp add: rt_ok_def push_item_simps) (simp add: push_item_def Let_def hm.valid_ins)
qed

lemma submit_room_accounted:
  assumes "rt_ok ok rt"
  shows "accounted rows (adds item) rt (snd (submit_room ops item res rt))
    \<and> rt_ok ok (snd (submit_room ops item res rt))"
proof -
  obtain reason rt1 where p: "push_item item rt = (reason, rt1)" by fastforce
  have one: "accounted rows (adds item) rt rt1" "rt_ok ok rt1"
    using push_item_accounted [OF assms, of item] p by simp_all
  define f where "f = (case reason of None \<Rightarrow> (Inr res, rt1)
    | Some r \<Rightarrow> (map_result (merge_flush_results res) (fst (flush_partition_with_reason ops (it_skey item) r rt1)),
        snd (flush_partition_with_reason ops (it_skey item) r rt1)))"
  obtain r2 rt2 where f2: "f = (r2, rt2)" by fastforce
  have two: "safe_step rt1 rt2"
    using f2 one(2) flush_accounted [OF one(2), of "it_skey item"] accounted_refl
    by (auto simp: f_def split: option.splits)
  have "snd (submit_room ops item res rt) = rt2 \<or> (\<exists>x. snd (submit_room ops item res rt) = snd (budget_loop ops x rt2))
    \<or> (\<exists>x. snd (submit_room ops item res rt) = sync_active_partitions (snd (budget_loop ops x rt2)))"
  proof -
    have "submit_room ops item res rt = (case f of (Inl e, rt) \<Rightarrow> (Inl e, rt)
      | (Inr result, rt) \<Rightarrow> (case budget_loop ops result rt of (Inl e, rt) \<Rightarrow> (Inl e, rt)
         | (Inr result, rt) \<Rightarrow> (Inr result, sync_active_partitions rt)))"
    proof (cases reason)
      case None
      then show ?thesis by (simp add: submit_room_def p f_def)
    next
      case (Some a)
      obtain q rt' where q: "flush_partition_with_reason ops (it_skey item) a rt1 = (q, rt')" by fastforce
      with Some show ?thesis by (simp add: submit_room_def p f_def)
    qed
    then show ?thesis using f2
      by (auto split: sum.splits prod.splits) (metis sndI)+
  qed
  then have "safe_step rt2 (snd (submit_room ops item res rt))"
    using two budget_loop_safe [of rt2] accounted_refl [of rows rt2]
      safe_trans [OF _ conjI [OF accounted_metrics(2)], of rt2]
    by (metis rt_ok_simps(1))
  with safe_trans [OF two this] one show ?thesis
    by (blast intro: accounted_trans [where b = nothing] append_Nil2 [symmetric])
qed

lemma submit_accounted:
  assumes "rt_ok ok rt"
  shows "accounted rows (adds item) rt (snd (submit ops item rt)) \<and> rt_ok ok (snd (submit ops item rt))"
proof (cases "map_of (rt_parts rt) (it_skey item) = None
    \<and> length (rt_parts rt) \<ge> cc_max_active_partitions (rt_config rt)")
  case False
  then show ?thesis using submit_room_accounted [OF assms, of item empty_result]
    by (auto simp: submit_def Let_def)
next
  case True
  obtain r rt1 where f: "flush_oldest_partition ops rt = (r, rt1)" by fastforce
  have one: "safe_step rt rt1" using flush_oldest_safe [OF assms] f by simp
  show ?thesis
  proof (cases r)
    case (Inl e)
    let ?rt2 = "rt_record_failure (Some (it_skey item)) Admission (Some (it_event_ts item, it_event_ts item)) rt1"
    have "accounted rows (adds item) rt1 ?rt2"
      by (rule accountedI [where es = "[(Some (it_skey item), Admission, Some (it_event_ts item, it_event_ts item))]"])
         auto
    with one Inl True f show ?thesis
      by (auto simp: submit_def Let_def intro: accounted_trans [where a = nothing])
  next
    case (Inr x)
    have "accounted rows (adds item) rt1 (snd (submit_room ops item (merge_flush_results empty_result x) rt1))
      \<and> rt_ok ok (snd (submit_room ops item (merge_flush_results empty_result x) rt1))"
      using submit_room_accounted one by blast
    with one Inr True f show ?thesis
      by (auto simp: submit_def Let_def intro: accounted_trans [where a = nothing])
  qed
qed

text \<open>
  An initialization is published ahead of what is still buffered for its partition: it is added
  exactly when the partition has nothing buffered, and no other partition is touched.
\<close>

lemma submit_initialization_accounted:
  assumes "rt_ok ok rt" and empty: "map_of (rt_parts rt) (it_skey item) = None"
  shows "(accounted rows (adds item) rt (snd (submit_initialization ops item rt))
      \<or> accounted rows nothing rt (snd (submit_initialization ops item rt)))
    \<and> rt_ok ok (snd (submit_initialization ops item rt))"
proof -
  obtain r s where w: "so_write_initialization ops (it_skey item) (it_payload item) (rt_sink rt) = (r, s)"
    by fastforce
  have s0: "ok (rt_sink rt)" using assms by (simp add: rt_ok_def)
  have oks: "ok s" using ok_init [OF s0, of "it_skey item" "it_payload item"] w by simp
  note other = init_other [OF s0 w]
  show ?thesis
  proof (cases r)
    case (Inl e)
    have "safe_step rt (rt_record_failure (Some (it_skey item)) Write None (rt_timed in_write s rt))"
      using assms oks other by (intro sink_call_safe [where es = "[(Some (it_skey item), Write, None)]"]) auto
    from safe_trans [OF this break_safe] this Inl w show ?thesis
      by (auto simp: submit_initialization_def Let_def split_beta)
  next
    case (Inr res)
    let ?rt' = "snd (submit_initialization ops item rt)"
    have rt': "rt_sink ?rt' = s" "rt_parts ?rt' = rt_parts rt" "rt_failures ?rt' = rt_failures rt"
      using w Inr by (simp_all add: submit_initialization_def Let_def)
    have k: "rows s (it_skey item) = rows (rt_sink rt) (it_skey item)
        \<or> rows s (it_skey item) = rows (rt_sink rt) (it_skey item) @ [it_payload item]"
      using init_rows [OF s0, of "it_skey item" "it_payload item" res s] w Inr by simp
    have "(\<forall>k. contents rows ?rt' k = contents rows rt k)
        \<or> (\<forall>k. contents rows ?rt' k = contents rows rt k @ adds item k)"
    proof (rule disj_forward [OF k])
      assume eq: "rows s (it_skey item) = rows (rt_sink rt) (it_skey item)"
      have "rows s k = rows (rt_sink rt) k" for k
        using eq other [of k] by (cases "k = it_skey item") simp_all
      then show "\<forall>k. contents rows ?rt' k = contents rows rt k" by (simp add: contents_def rt')
    next
      assume eq: "rows s (it_skey item) = rows (rt_sink rt) (it_skey item) @ [it_payload item]"
      have "rows s k = rows (rt_sink rt) k @ adds item k" for k
        using eq other [of k] by (cases "k = it_skey item") simp_all
      then show "\<forall>k. contents rows ?rt' k = contents rows rt k @ adds item k"
        using empty by (simp add: contents_def rt')
    qed
    then show ?thesis using rt' oks assms
      by (auto simp: rt_ok_def intro!: accountedI [where es = "[]"])
  qed
qed

end

subsection \<open>Draining\<close>

lemma map_state_flush_parts:
  "rt_parts (snd (map_state (\<lambda>key. flush_partition_with_reason ops key reason) keys rt))
    = fold AList.delete keys (rt_parts rt)"
  by (induction keys arbitrary: rt) (simp_all add: split_beta Let_def flush_parts)

lemma map_state_flush_config:
  "rt_config (snd (map_state (\<lambda>key. flush_partition_with_reason ops key reason) keys rt)) = rt_config rt"
  "rt_world (snd (map_state (\<lambda>key. flush_partition_with_reason ops key reason) keys rt)) = rt_world rt"
  by (induction keys arbitrary: rt) (simp_all add: split_beta Let_def flush_config)

lemma flush_all_parts:
  assumes "\<And>i. perm_order (w_order (rt_world rt) i)"
  shows "rt_parts (snd (flush_all_with_reason ops reason rt)) = []"
proof -
  have "set (hm_keys (rt_parts rt)) \<subseteq> set (w_order (rt_world rt) (rt_clk rt) (hm_keys (rt_parts rt)))"
    using perm_order_set [OF assms] by simp
  from hm.drained [OF this] show ?thesis
    by (simp add: flush_all_with_reason_def Let_def split_beta map_state_flush_parts)
qed

lemma flush_all_config:
  "rt_config (snd (flush_all_with_reason ops reason rt)) = rt_config rt"
  "rt_world (snd (flush_all_with_reason ops reason rt)) = rt_world rt"
  by (simp_all add: flush_all_with_reason_def Let_def split_beta map_state_flush_config)

subsection \<open>Properties\<close>

text \<open>
  memory stays bounded. An accepted or rejected item leaves every partition buffer non-empty
  and below its row and byte thresholds and at most \<open>max_active_partitions\<close> of them; when the
  submission succeeds, what all partitions buffer together is within \<open>max_total_buffer_bytes\<close>.
\<close>

theorem submit_within_bounds:
  assumes "buffers_inv rt" "0 < it_bytes item" "0 < cc_max_active_partitions (rt_config rt)"
    and "submit ops item rt = (r, rt')"
  shows "buffers_inv rt' \<and> rt_config rt' = rt_config rt
    \<and> (\<not> isl r \<longrightarrow> total_pending_bytes rt' \<le> cc_max_total_buffer_bytes (rt_config rt))"
  using submit_bounds_aux [OF assms(1-3), of ops] assms(4) by simp

definition sample_world :: world where
  "sample_world = \<lparr>w_elapsed = (\<lambda>_. 1), w_file_len = (\<lambda>_ _. None), w_order = (\<lambda>_ ks. rev ks)\<rparr>"

definition sample_item :: "nat capture_item" where
  "sample_item = \<lparr>it_key = market_data_key ''trades'' ''BTC'', it_event_ts = 7, it_init_ts = None,
     it_row_count = 1, it_bytes = 64, it_payload = 1\<rparr>"

definition sample_sink :: "(nat, (string \<times> nat list) list) sink_ops" where
  "sample_sink = default_sink_ops (\<lambda>k b s. (Inr [k], s @ [(k, b)]))"

theorem submit_within_bounds_witness:
  "buffers_inv (snd (submit sample_sink sample_item
      (runtime_new default_config [] sample_world (\<lambda>_. 0))))
    \<and> \<not> isl (fst (submit sample_sink sample_item
      (runtime_new default_config [] sample_world (\<lambda>_. 0))))"
proof
  let ?rt = "runtime_new default_config [] sample_world (\<lambda>_. 0) :: (nat, (string \<times> nat list) list) runtime"
  have "buffers_inv ?rt" by (simp add: buffers_inv_def runtime_new_def)
  from submit_within_bounds [OF this, of sample_item sample_sink
      "fst (submit sample_sink sample_item ?rt)" "snd (submit sample_sink sample_item ?rt)"]
  show "buffers_inv (snd (submit sample_sink sample_item ?rt))"
    by (simp add: sample_item_def runtime_new_def default_config_def)
  show "\<not> isl (fst (submit sample_sink sample_item ?rt))"
    by (simp add: submit_def submit_room_def push_item_def Let_def runtime_new_def default_config_def
        sample_item_def should_flush_reason_def batch_row_threshold_def default_lifecycle_def
        is_segment_mode_def budget_loop.simps total_pending_bytes_def rt_set_metrics_def
        buffer_push_def)
qed

text \<open>
  a full flush drains every partition, whatever the sink answers for each of them and in
  whatever order the partition map is iterated, and reports an error exactly when one of the
  partition flushes failed.
\<close>

theorem flush_all_drains:
  assumes "\<And>i. perm_order (w_order (rt_world rt) i)"
    and "flush_all_with_reason ops reason rt = (r, rt')"
  shows "rt_parts rt' = [] \<and> total_pending_bytes rt' = 0
    \<and> (isl r \<longleftrightarrow> (\<exists>x \<in> set (fst (map_state (\<lambda>key. flush_partition_with_reason ops key reason)
        (w_order (rt_world rt) (rt_clk rt) (hm_keys (rt_parts rt)))
        (rt\<lparr>rt_clk := Suc (rt_clk rt)\<rparr>))). isl x))"
proof -
  have "rt_parts rt' = []" using flush_all_parts [OF assms(1), of ops reason] assms(2) by simp
  moreover from assms(2) have "r = collect_flush_results (fst (map_state
      (\<lambda>key. flush_partition_with_reason ops key reason)
        (w_order (rt_world rt) (rt_clk rt) (hm_keys (rt_parts rt)))
        (rt\<lparr>rt_clk := Suc (rt_clk rt)\<rparr>)))"
    by (auto simp: flush_all_with_reason_def Let_def split_beta)
  ultimately show ?thesis by (simp add: total_pending_bytes_def collect_flush_results_isl)
qed

theorem flush_all_drains_witness:
  "rt_parts (snd (flush_all_with_reason sample_sink Interval
     (snd (submit sample_sink sample_item (runtime_new default_config [] sample_world (\<lambda>_. 0)))))) = []"
proof -
  let ?rt = "snd (submit sample_sink sample_item (runtime_new default_config [] sample_world (\<lambda>_. 0)))"
  have "buffers_inv (runtime_new default_config [] sample_world (\<lambda>_. 0) :: (nat, (string \<times> nat list) list) runtime)"
    by (simp add: buffers_inv_def runtime_new_def)
  from submit_bounds_aux [OF this, of sample_item sample_sink]
  have "rt_world ?rt = sample_world"
    by (simp add: runtime_new_def default_config_def sample_item_def)
  then have "perm_order (w_order (rt_world ?rt) i)" for i
    by (simp add: sample_world_def perm_order_def)
  from flush_all_drains [OF this, where ops = sample_sink and reason = Interval, OF prod.collapse [symmetric]]
  show ?thesis by blast
qed

end
