(* ===== verification/Queue.thy ===== *)
theory Queue
  imports Config Failures Metrics Sink
begin

section \<open>Admission: the queue between the producers and the writer\<close>

text \<open>
  The producer half of \<open>crates/catalog-capture-core/src/background.rs\<close>: the bounded queue in
  front of the writer thread, its overflow policies, and the markers it leaves where an item was
  lost. Every operation holds the queue's mutex for its whole body, so an operation is one
  function on the state; lock poisoning and logging are not modelled. A reply channel is its
  number. \<open>Instant::now\<close> is read once for each entry that is enqueued; the model takes its
  readings as a function of the number of reads.
\<close>

datatype 't queue_entry =
    Data "'t capture_item"
  | Recovery "'t capture_item"
  | Initialization "'t capture_item"
  | Gap "string option"
  | Seal "string option" "nat option"

record 't queued_entry =
  qe_entry :: "'t queue_entry"
  qe_at :: nat

record 't queue_state =
  qs_queue :: "'t queued_entry list"
  qs_bytes :: nat
  qs_pending :: "string option set"
  qs_gaps :: nat
  qs_peak_items :: nat
  qs_peak_bytes :: nat
  qs_in_flight_items :: nat
  qs_in_flight_bytes :: nat
  qs_started_at :: "nat option"
  qs_admitted :: nat
  qs_overflow_dropped :: nat
  qs_metrics :: capture_metrics
  qs_flush_reason :: "flush_reason option"
  qs_tick_requested :: bool
  qs_shutdown :: bool
  qs_flush_waiters :: "nat list"
  qs_shutdown_waiters :: "nat list"

definition queue_default :: "'t queue_state" where
  "queue_default = \<lparr>qs_queue = [], qs_bytes = 0, qs_pending = {}, qs_gaps = 0, qs_peak_items = 0,
     qs_peak_bytes = 0, qs_in_flight_items = 0, qs_in_flight_bytes = 0, qs_started_at = None,
     qs_admitted = 0, qs_overflow_dropped = 0, qs_metrics = default_metrics,
     qs_flush_reason = None, qs_tick_requested = False, qs_shutdown = False,
     qs_flush_waiters = [], qs_shutdown_waiters = []\<rparr>"

text \<open>The writer thread as its owner sees it: taken and joined, running, or finished.\<close>

datatype worker_handle = NoWorker | Running | Finished

record 't background =
  bg_config :: capture_config
  bg_failures :: failure_tracker
  bg_state :: "'t queue_state"
  bg_worker :: worker_handle
  bg_clock :: "nat \<Rightarrow> nat"
  bg_reads :: nat

definition background_new :: "capture_config \<Rightarrow> (nat \<Rightarrow> nat) \<Rightarrow> (nat \<Rightarrow> nat) \<Rightarrow> 't background" where
  "background_new config wall clock = \<lparr>bg_config = config,
     bg_failures = tracker_new (cc_max_active_partitions config) wall,
     bg_state = queue_default, bg_worker = Running, bg_clock = clock, bg_reads = 0\<rparr>"

fun entry_item :: "'t queue_entry \<Rightarrow> 't capture_item option" where
  "entry_item (Data x) = Some x"
| "entry_item (Recovery x) = Some x"
| "entry_item (Initialization x) = Some x"
| "entry_item _ = None"

definition is_data :: "'t queued_entry \<Rightarrow> bool" where
  "is_data q = (entry_item (qe_entry q) \<noteq> None)"

definition record_queue_peak :: "'t queue_state \<Rightarrow> 't queue_state" where
  "record_queue_peak st = st\<lparr>qs_peak_items := max (qs_peak_items st) (length (qs_queue st)),
     qs_peak_bytes := max (qs_peak_bytes st) (qs_bytes st)\<rparr>"

definition on_state :: "('t queue_state \<Rightarrow> 't queue_state) \<Rightarrow> 't background \<Rightarrow> 't background" where
  "on_state f bg = bg\<lparr>bg_state := f (bg_state bg)\<rparr>"

text \<open>\<open>entry.into()\<close>: the entry stamped with the instant.\<close>

definition stamped :: "'t queue_entry \<Rightarrow> 't background \<Rightarrow> 't queued_entry" where
  "stamped e bg = \<lparr>qe_entry = e, qe_at = bg_clock bg (bg_reads bg)\<rparr>"

definition push_back :: "'t queue_entry \<Rightarrow> 't background \<Rightarrow> 't background" where
  "push_back e bg = (on_state (\<lambda>st. st\<lparr>qs_queue := qs_queue st @ [stamped e bg]\<rparr>) bg)
     \<lparr>bg_reads := bg_reads bg + 1\<rparr>"

definition push_front :: "'t queue_entry \<Rightarrow> 't background \<Rightarrow> 't background" where
  "push_front e bg = (on_state (\<lambda>st. st\<lparr>qs_queue := stamped e bg # qs_queue st\<rparr>) bg)
     \<lparr>bg_reads := bg_reads bg + 1\<rparr>"

text \<open>
  The \<open>retain\<close> pass after an eviction: the entries kept, the gaps pending at the end and the
  number of gap markers.
\<close>

fun rebuild_gaps :: "string option set \<Rightarrow> 't queued_entry list \<Rightarrow>
    't queued_entry list \<times> string option set \<times> nat" where
  "rebuild_gaps pending [] = ([], pending, 0)"
| "rebuild_gaps pending (q # qs) =
     (case qe_entry q of
        Gap key \<Rightarrow>
          if None \<in> pending \<or> key \<in> pending then rebuild_gaps pending qs
          else let (kept, p, n) = rebuild_gaps (insert key pending) qs in (q # kept, p, n + 1)
      | Seal _ _ \<Rightarrow> let (kept, p, n) = rebuild_gaps pending qs in (q # kept, p, n)
      | Data x \<Rightarrow> let (kept, p, n) = rebuild_gaps (pending - {Some (it_skey x)} - {None}) qs
          in (q # kept, p, n)
      | Recovery x \<Rightarrow> let (kept, p, n) = rebuild_gaps (pending - {Some (it_skey x)} - {None}) qs
          in (q # kept, p, n)
      | Initialization x \<Rightarrow> let (kept, p, n) = rebuild_gaps (pending - {Some (it_skey x)} - {None}) qs
          in (q # kept, p, n))"

text \<open>Which marker a lost item of partition \<open>k\<close> gets: its own, or one for the whole family.\<close>

definition gap_key :: "nat \<Rightarrow> string option set \<Rightarrow> string \<Rightarrow> string option" where
  "gap_key max_active pending k =
     (if None \<in> pending \<or> card pending \<ge> max max_active 1 \<and> Some k \<notin> pending
      then None else Some k)"

definition record_admission_failure ::
  "'t capture_item \<Rightarrow> bool \<Rightarrow> 't background \<Rightarrow> 't background" where
  "record_admission_failure item at_front bg =
     (let bg = bg\<lparr>bg_failures := tracker_record (Some (it_skey item)) Admission
            (Some (it_event_ts item, it_event_ts item)) (bg_failures bg)\<rparr>;
          st = bg_state bg;
          key = gap_key (cc_max_active_partitions (bg_config bg)) (qs_pending st) (it_skey item);
          bg = (if at_front then
              let bg = push_front (Gap key) bg;
                  (kept, pending, count) = rebuild_gaps {} (qs_queue (bg_state bg))
              in on_state (\<lambda>st. st\<lparr>qs_queue := kept, qs_pending := pending, qs_gaps := count\<rparr>) bg
            else if key \<notin> qs_pending st then
              push_back (Gap key) (on_state (\<lambda>st. st\<lparr>qs_pending := insert key (qs_pending st),
                 qs_gaps := qs_gaps st + 1\<rparr>) bg)
            else bg)
      in on_state record_queue_peak bg)"

text \<open>The condition of the overflow loop.\<close>

definition queue_full :: "'t capture_item \<Rightarrow> 't background \<Rightarrow> bool" where
  "queue_full item bg =
     (sat_sub (length (qs_queue (bg_state bg))) (qs_gaps (bg_state bg))
        \<ge> max (cc_queue_capacity (bg_config bg)) 1
      \<or> sat_add (qs_bytes (bg_state bg)) (it_bytes item) > ingress_max_bytes (bg_config bg))"

definition count_overflow :: "'t background \<Rightarrow> 't background" where
  "count_overflow bg = on_state (\<lambda>st. st\<lparr>qs_overflow_dropped := qs_overflow_dropped st + 1\<rparr>) bg"

text \<open>Evicting the data entry at index \<open>i\<close>.\<close>

definition evict :: "nat \<Rightarrow> 't capture_item \<Rightarrow> 't background \<Rightarrow> 't background" where
  "evict i dropped bg = record_admission_failure dropped True
     (count_overflow (on_state (\<lambda>st. st\<lparr>
        qs_queue := take i (qs_queue st) @ drop (Suc i) (qs_queue st),
        qs_bytes := qs_bytes st - it_bytes dropped\<rparr>) bg))"

subsection \<open>Facts that the loop's termination needs\<close>

definition data_count :: "'t queued_entry list \<Rightarrow> nat" where
  "data_count qs = length (filter is_data qs)"

lemma data_count_simps [simp]:
  "data_count [] = 0" "data_count (xs @ ys) = data_count xs + data_count ys"
  "data_count (q # qs) = (if is_data q then Suc (data_count qs) else data_count qs)"
  by (simp_all add: data_count_def)

lemma rebuild_data: "filter is_data (fst (rebuild_gaps p qs)) = filter is_data qs"
  by (induction p qs rule: rebuild_gaps.induct)
     (auto simp: split_beta Let_def is_data_def split: queue_entry.splits)

lemma raf_queue:
  "qs_queue (bg_state (record_admission_failure item at_front bg)) =
    (let key = gap_key (cc_max_active_partitions (bg_config bg)) (qs_pending (bg_state bg)) (it_skey item)
     in if at_front then fst (rebuild_gaps {} (stamped (Gap key) bg # qs_queue (bg_state bg)))
        else if key \<notin> qs_pending (bg_state bg) then qs_queue (bg_state bg) @ [stamped (Gap key) bg]
        else qs_queue (bg_state bg))"
  by (simp add: record_admission_failure_def Let_def split_beta on_state_def push_front_def
      push_back_def record_queue_peak_def stamped_def)

lemma raf_simps [simp]:
  "bg_config (record_admission_failure item at_front bg) = bg_config bg"
  "bg_worker (record_admission_failure item at_front bg) = bg_worker bg"
  "bg_failures (record_admission_failure item at_front bg) = tracker_record (Some (it_skey item))
     Admission (Some (it_event_ts item, it_event_ts item)) (bg_failures bg)"
  "qs_bytes (bg_state (record_admission_failure item at_front bg)) = qs_bytes (bg_state bg)"
  "qs_shutdown (bg_state (record_admission_failure item at_front bg)) = qs_shutdown (bg_state bg)"
  "qs_admitted (bg_state (record_admission_failure item at_front bg)) = qs_admitted (bg_state bg)"
  "qs_overflow_dropped (bg_state (record_admission_failure item at_front bg))
     = qs_overflow_dropped (bg_state bg)"
  by (simp_all add: record_admission_failure_def Let_def split_beta on_state_def push_front_def
      push_back_def record_queue_peak_def)

lemma count_overflow_simps [simp]:
  "bg_config (count_overflow bg) = bg_config bg"
  "bg_worker (count_overflow bg) = bg_worker bg"
  "bg_failures (count_overflow bg) = bg_failures bg"
  "qs_queue (bg_state (count_overflow bg)) = qs_queue (bg_state bg)"
  "qs_bytes (bg_state (count_overflow bg)) = qs_bytes (bg_state bg)"
  "qs_pending (bg_state (count_overflow bg)) = qs_pending (bg_state bg)"
  "qs_gaps (bg_state (count_overflow bg)) = qs_gaps (bg_state bg)"
  "qs_shutdown (bg_state (count_overflow bg)) = qs_shutdown (bg_state bg)"
  "qs_admitted (bg_state (count_overflow bg)) = qs_admitted (bg_state bg)"
  "qs_overflow_dropped (bg_state (count_overflow bg)) = Suc (qs_overflow_dropped (bg_state bg))"
  by (simp_all add: count_overflow_def on_state_def)

lemma evict_data_count:
  assumes "position is_data (qs_queue (bg_state bg)) = Some i"
  shows "data_count (qs_queue (bg_state (evict i x bg))) < data_count (qs_queue (bg_state bg))"
proof -
  let ?qs = "qs_queue (bg_state bg)"
  note s = position_split [OF assms]
  have "data_count ?qs = Suc (data_count (take i ?qs @ drop (Suc i) ?qs))"
    using s(1,3) by (metis data_count_simps(2) data_count_simps(3) add_Suc_right)
  moreover have "data_count (qs_queue (bg_state (evict i x bg)))
      = data_count (take i ?qs @ drop (Suc i) ?qs)"
    unfolding data_count_def evict_def raf_queue Let_def if_True rebuild_data
    by (simp add: on_state_def count_overflow_def is_data_def stamped_def)
  ultimately show ?thesis by simp
qed

subsection \<open>Submission\<close>

text \<open>
  The overflow loop: \<open>None\<close> when there is room in the end, and otherwise what the submission
  returns.
\<close>

function make_room :: "'t capture_item \<Rightarrow> 't background \<Rightarrow> unit result option \<times> 't background" where
  "make_room item bg =
     (if \<not> queue_full item bg then (None, bg)
      else case cc_overflow_policy (bg_config bg) of
        DropNewest \<Rightarrow> (Some (Inr ()), record_admission_failure item False (count_overflow bg))
      | DropOldest \<Rightarrow>
          (case position is_data (qs_queue (bg_state bg)) of
             None \<Rightarrow> (Some (Inl QueueOnlyControls),
               record_admission_failure item False (count_overflow bg))
           | Some i \<Rightarrow> make_room item
               (evict i (the (entry_item (qe_entry (qs_queue (bg_state bg) ! i)))) bg))
      | FailFast \<Rightarrow> (Some (Inl (QueueFull (max (cc_queue_capacity (bg_config bg)) 1)
            (ingress_max_bytes (bg_config bg)))),
          record_admission_failure item False (count_overflow bg)))"
  by pat_completeness auto
termination
  by (relation "measure (\<lambda>(item, bg). data_count (qs_queue (bg_state bg)))")
     (auto simp: evict_data_count)

declare make_room.simps [simp del]

definition admit :: "('t capture_item \<Rightarrow> 't queue_entry) \<Rightarrow> 't capture_item \<Rightarrow> 't background \<Rightarrow> 't background" where
  "admit entry item bg =
     (let bg = on_state (\<lambda>st. st\<lparr>qs_pending := qs_pending st - {Some (it_skey item)} - {None},
            qs_bytes := qs_bytes st + it_bytes item\<rparr>) bg;
          bg = push_back (entry item) bg
      in on_state (\<lambda>st. record_queue_peak (st\<lparr>qs_admitted := qs_admitted st + 1\<rparr>)) bg)"

definition submit_entry :: "('t capture_item \<Rightarrow> 't queue_entry) \<Rightarrow> 't capture_item \<Rightarrow> 't background \<Rightarrow>
    unit result \<times> 't background" where
  "submit_entry entry item bg =
     (if bg_worker bg \<noteq> Running then (Inl WorkerNotRunning, bg)
      else if qs_shutdown (bg_state bg) then (Inl ShuttingDown, bg)
      else if it_bytes item > ingress_max_bytes (bg_config bg) then
        let bg' = record_admission_failure item False (count_overflow bg)
        in (if cc_overflow_policy (bg_config bg) = FailFast
            then Inl (ItemExceedsByteCapacity (ingress_max_bytes (bg_config bg)) (it_skey item))
            else Inr (), bg')
      else case make_room item bg of
          (Some r, bg) \<Rightarrow> (r, bg)
        | (None, bg) \<Rightarrow> (Inr (), admit entry item bg))"

definition submit_data :: "'t capture_item \<Rightarrow> 't background \<Rightarrow> unit result \<times> 't background" where
  "submit_data = submit_entry Data"

definition submit_after_partition_seal :: "'t capture_item \<Rightarrow> 't background \<Rightarrow> unit result \<times> 't background" where
  "submit_after_partition_seal = submit_entry Recovery"

definition bg_submit_initialization :: "'t capture_item \<Rightarrow> 't background \<Rightarrow> unit result \<times> 't background" where
  "bg_submit_initialization = submit_entry Initialization"

subsection \<open>Seals, flushes and shutdown as the caller requests them\<close>

definition enqueue_seal :: "string option \<Rightarrow> nat option \<Rightarrow> 't background \<Rightarrow> unit result \<times> 't background" where
  "enqueue_seal part reply bg =
     (if bg_worker bg \<noteq> Running then (Inl WorkerNotRunning, bg)
      else if qs_shutdown (bg_state bg) then (Inl ShuttingDown, bg)
      else if sat_sub (length (qs_queue (bg_state bg))) (qs_gaps (bg_state bg))
          \<ge> sat_add (max (cc_queue_capacity (bg_config bg)) 1)
               (max (cc_max_active_partitions (bg_config bg)) 1)
      then (Inl SealQueueFull, bg)
      else (Inr (), on_state record_queue_peak (push_back (Seal part reply) bg)))"

fun merge_flush_reason :: "flush_reason option \<Rightarrow> flush_reason \<Rightarrow> flush_reason option" where
  "merge_flush_reason current next = Some (
     if current = Some Shutdown \<or> next = Shutdown then Shutdown
     else if current = Some flush_reason.Seal \<or> next = flush_reason.Seal then flush_reason.Seal
     else if current = Some Manual \<or> next = Manual then Manual
     else if current = Some Budget \<or> next = Budget then Budget
     else if current = Some Interval \<or> next = Interval then Interval
     else if current = Some Bytes \<or> next = Bytes then Bytes
     else Rows)"

text \<open>\<open>request_flush\<close> up to the wait for the reply; \<open>tx\<close> is the caller's channel.\<close>

definition request_flush :: "bool \<Rightarrow> nat \<Rightarrow> 't background \<Rightarrow> unit result \<times> 't background" where
  "request_flush is_shutdown tx bg =
     (if bg_worker bg \<noteq> Running then (Inl WorkerNotRunning, bg)
      else (Inr (), on_state (\<lambda>st.
        if is_shutdown
        then st\<lparr>qs_shutdown := True, qs_flush_reason := Some Shutdown,
               qs_shutdown_waiters := qs_shutdown_waiters st @ [tx]\<rparr>
        else st\<lparr>qs_flush_reason := merge_flush_reason (qs_flush_reason st) Manual,
               qs_flush_waiters := qs_flush_waiters st @ [tx]\<rparr>) bg))"

definition bg_metrics :: "nat \<Rightarrow> 't background \<Rightarrow> capture_metrics" where
  "bg_metrics now bg =
     (let st = bg_state bg;
          m = (qs_metrics st)\<lparr>
            accepted_items := qs_admitted st,
            dropped_items := dropped_items (qs_metrics st) + qs_overflow_dropped st,
            queue_capacity_items := max (cc_queue_capacity (bg_config bg)) 1,
            queue_capacity_bytes := ingress_max_bytes (bg_config bg),
            queued_items := length (qs_queue st),
            queued_bytes_now := qs_bytes st,
            oldest_queued_ns := (case qs_queue st of [] \<Rightarrow> 0 | q # _ \<Rightarrow> min (now - qe_at q) u64_max),
            in_flight_items_now := qs_in_flight_items st,
            in_flight_bytes_now := qs_in_flight_bytes st,
            worker_busy_ns := (case qs_started_at st of None \<Rightarrow> 0 | Some t \<Rightarrow> min (now - t) u64_max),
            peak_items := qs_peak_items st,
            peak_bytes := qs_peak_bytes st\<rparr>
      in if \<not> qs_shutdown st \<and> bg_worker bg = Finished
         then m\<lparr>write_errors := write_errors m + 1, failed_workers := 1\<rparr>
         else m)"

definition queue_depth :: "'t background \<Rightarrow> nat" where
  "queue_depth bg = length (qs_queue (bg_state bg))"

text \<open>
  \<open>shutdown\<close> after its reply \<open>result\<close> has arrived and the worker has been joined, and \<open>Drop\<close>, which
  signals the drain without waiting for a reply.
\<close>

definition shutdown_joined :: "nat \<Rightarrow> flush_result result \<Rightarrow> 't background \<Rightarrow> flush_result result \<times> 't background" where
  "shutdown_joined now reply bg =
     (if bg_worker bg = NoWorker then (Inr empty_result, bg)
      else let bg = bg\<lparr>bg_worker := NoWorker\<rparr>
        in case reply of
             Inl e \<Rightarrow> (Inl e, bg)
           | Inr r \<Rightarrow>
               if cc_overflow_policy (bg_config bg) = FailFast \<and> dropped_items (bg_metrics now bg) > 0
               then (Inl LostBeforeShutdown, bg)
               else (Inr r, bg))"

definition drop_background :: "'t background \<Rightarrow> 't background" where
  "drop_background bg =
     (if bg_worker bg = NoWorker then bg
      else (on_state (\<lambda>st. st\<lparr>qs_shutdown := True, qs_flush_reason := Some Shutdown\<rparr>) bg)
             \<lparr>bg_worker := NoWorker\<rparr>)"

end
