(* ===== verification/Queue_Cover.thy ===== *)
theory Queue_Cover
  imports Queue
begin

section \<open>What the queue guarantees about lost items\<close>

text \<open>
  The queue is compared with the history of all items handed to it, each marked as kept or
  lost. Between two neighbouring kept items of a partition there is a slot; the history says
  whether an item of that partition was lost in it, the queue says whether it holds a marker in
  it that ends the partition's replay window. The theorem of this theory is that no slot with a
  loss is without a marker, under every overflow policy, coalescing and eviction.
\<close>

datatype mark = Item string | Cut "string option" | Skip

fun slots :: "string \<Rightarrow> bool \<Rightarrow> mark list \<Rightarrow> bool list" where
  "slots k c [] = [c]"
| "slots k c (Item a # ms) = (if a = k then c # slots k False ms else slots k c ms)"
| "slots k c (Cut p # ms) = slots k (c \<or> p = None \<or> p = Some k) ms"
| "slots k c (Skip # ms) = slots k c ms"

definition covers :: "mark list \<Rightarrow> mark list \<Rightarrow> bool" where
  "covers hs qs = (\<forall>k. list_all2 (\<longrightarrow>) (slots k False hs) (slots k False qs))"

lemma slots_ne [simp]: "slots k c ms \<noteq> []"
  by (induction k c ms rule: slots.induct) auto

lemma slots_hd: "slots k c ms = (c \<or> hd (slots k False ms)) # tl (slots k False ms)"
proof (induction ms arbitrary: c)
  case Nil
  then show ?case by simp
next
  case (Cons m ms)
  show ?case
  proof (cases m)
    case (Item a)
    then show ?thesis using Cons.IH [of c] by simp
  next
    case (Cut p)
    show ?thesis using Cons.IH [of "c \<or> p = None \<or> p = Some k"] Cons.IH [of "p = None \<or> p = Some k"] Cut
      by simp
  next
    case Skip
    then show ?thesis using Cons.IH [of c] by simp
  qed
qed

lemma slots_append:
  "slots k c (xs @ ys) = butlast (slots k c xs) @ slots k (last (slots k c xs)) ys"
  by (induction k c xs rule: slots.induct) simp_all

lemma list_all2_butlast: "list_all2 P xs ys \<Longrightarrow> list_all2 P (butlast xs) (butlast ys)"
  by (induction rule: list_all2_induct) (auto simp: list_all2_Nil list_all2_Nil2)

lemma list_all2_last: "list_all2 P xs ys \<Longrightarrow> xs \<noteq> [] \<Longrightarrow> P (last xs) (last ys)"
  by (induction rule: list_all2_induct) (auto simp: list_all2_Nil list_all2_Nil2)

lemma slots_mono:
  assumes "list_all2 (\<longrightarrow>) (slots k False hs) (slots k False qs)" "c \<longrightarrow> c'"
  shows "list_all2 (\<longrightarrow>) (slots k c hs) (slots k c' qs)"
proof -
  obtain a as where h: "slots k False hs = a # as" by (cases "slots k False hs") simp_all
  obtain b bs where q: "slots k False qs = b # bs" by (cases "slots k False qs") simp_all
  show ?thesis using assms unfolding slots_hd [of k c hs] slots_hd [of k c' qs] h q by auto
qed

lemma covers_append:
  assumes "covers hs qs" "covers hs' qs'"
  shows "covers (hs @ hs') (qs @ qs')"
  unfolding covers_def slots_append
proof
  fix k
  have a: "list_all2 (\<longrightarrow>) (slots k False hs) (slots k False qs)" using assms(1) by (simp add: covers_def)
  have b: "list_all2 (\<longrightarrow>) (slots k False hs') (slots k False qs')" using assms(2) by (simp add: covers_def)
  show "list_all2 (\<longrightarrow>) (butlast (slots k False hs) @ slots k (last (slots k False hs)) hs')
      (butlast (slots k False qs) @ slots k (last (slots k False qs)) qs')"
    using list_all2_butlast [OF a] slots_mono [OF b] list_all2_last [OF a]
    by (intro list_all2_appendI) simp_all
qed

lemma covers_refl: "covers ms ms"
  by (simp add: covers_def list_all2_refl)

lemma covers_marks [simp]:
  "covers [] []" "covers [] [Skip]" "covers [] [Cut p]" "covers [Item k] [Item k]"
  "covers [Cut (Some k)] [Cut (Some k)]" "covers [Cut (Some k)] [Cut None]"
  by (simp_all add: covers_def)

subsection \<open>Marks of the queue and of the history\<close>

definition entry_mark :: "'t queue_entry \<Rightarrow> mark" where
  "entry_mark e = (case entry_item e of Some x \<Rightarrow> Item (it_skey x)
     | None \<Rightarrow> (case e of Gap p \<Rightarrow> Cut p | _ \<Rightarrow> Skip))"

definition queue_marks :: "'t queued_entry list \<Rightarrow> mark list" where
  "queue_marks qs = map (\<lambda>q. entry_mark (qe_entry q)) qs"

text \<open>A history entry: what was submitted, and whether it is still kept.\<close>

type_synonym 't history = "('t queue_entry \<times> bool) list"

fun history_mark :: "'t queue_entry \<times> bool \<Rightarrow> mark" where
  "history_mark (e, kept) =
     (case entry_item e of None \<Rightarrow> Skip
      | Some x \<Rightarrow> if kept then Item (it_skey x) else Cut (Some (it_skey x)))"

definition history_marks :: "'t history \<Rightarrow> mark list" where
  "history_marks h = map history_mark h"

definition kept_entries :: "'t history \<Rightarrow> 't queue_entry list" where
  "kept_entries h = map fst (filter snd h)"

definition lost_entries :: "'t history \<Rightarrow> 't queue_entry list" where
  "lost_entries h = map fst (filter (\<lambda>x. \<not> snd x) h)"

fun lose_first :: "'t history \<Rightarrow> 't history" where
  "lose_first [] = []"
| "lose_first ((e, kept) # h) = (if kept then (e, False) # h else (e, kept) # lose_first h)"

lemma marks_append [simp]:
  "queue_marks (xs @ ys) = queue_marks xs @ queue_marks ys"
  "queue_marks [] = []" "queue_marks (q # xs) = entry_mark (qe_entry q) # queue_marks xs"
  "history_marks (h @ h') = history_marks h @ history_marks h'"
  "history_marks [] = []" "history_marks (x # h) = history_mark x # history_marks h"
  by (simp_all add: queue_marks_def history_marks_def)

lemma entries_append [simp]:
  "kept_entries (h @ h') = kept_entries h @ kept_entries h'"
  "lost_entries (h @ h') = lost_entries h @ lost_entries h'"
  "kept_entries [] = []" "lost_entries [] = []"
  "kept_entries ((e, b) # h) = (if b then e # kept_entries h else kept_entries h)"
  "lost_entries ((e, b) # h) = (if b then lost_entries h else e # lost_entries h)"
  by (simp_all add: kept_entries_def lost_entries_def)

lemma lose_first_fst [simp]: "map fst (lose_first h) = map fst h"
  by (induction h rule: lose_first.induct) auto

lemma lose_first_kept: "kept_entries (lose_first h) = tl (kept_entries h)"
  by (induction h rule: lose_first.induct) auto

lemma lose_first_lost:
  "kept_entries h = e # es \<Longrightarrow> mset (lost_entries (lose_first h)) = add_mset e (mset (lost_entries h))"
  by (induction h rule: lose_first.induct) auto

text \<open>The three shapes of an entry.\<close>

lemma entry_shapes:
  obtains (data) x where "entry_item e = Some x" "\<And>p. e \<noteq> Gap p" "\<And>p r. e \<noteq> Seal p r"
  | (gap) p where "e = Gap p" | (seal) p r where "e = Seal p r"
  by (cases e) auto

lemma entry_mark_simps [simp]:
  "entry_item e = Some x \<Longrightarrow> entry_mark e = Item (it_skey x)"
  "entry_mark (Gap p) = Cut p" "entry_mark (Seal p r) = Skip"
  by (simp_all add: entry_mark_def)

lemma rebuild_simps:
  "entry_item (qe_entry q) = Some x \<Longrightarrow> rebuild_gaps P (q # qs) =
     (let (kept, p, n) = rebuild_gaps (P - {Some (it_skey x)} - {None}) qs in (q # kept, p, n))"
  "qe_entry q = Gap key \<Longrightarrow> rebuild_gaps P (q # qs) =
     (if None \<in> P \<or> key \<in> P then rebuild_gaps P qs
      else let (kept, p, n) = rebuild_gaps (insert key P) qs in (q # kept, p, n + 1))"
  "qe_entry q = Seal a b \<Longrightarrow> rebuild_gaps P (q # qs) =
     (let (kept, p, n) = rebuild_gaps P qs in (q # kept, p, n))"
  by (auto split: queue_entry.splits)

text \<open>The partitions with a marker and no later data: what \<open>pending_gaps\<close> stands for.\<close>

fun gaps_pending :: "string option set \<Rightarrow> 't queued_entry list \<Rightarrow> string option set" where
  "gaps_pending P [] = P"
| "gaps_pending P (q # qs) =
     (case entry_item (qe_entry q) of
        Some x \<Rightarrow> gaps_pending (P - {Some (it_skey x)} - {None}) qs
      | None \<Rightarrow> (case qe_entry q of
          Gap key \<Rightarrow> gaps_pending (if None \<in> P then P else insert key P) qs
        | _ \<Rightarrow> gaps_pending P qs))"

lemma gaps_pending_append: "gaps_pending P (xs @ ys) = gaps_pending (gaps_pending P xs) ys"
  by (induction P xs rule: gaps_pending.induct)
     (auto split: option.splits queue_entry.splits)

lemma rebuild_pending: "fst (snd (rebuild_gaps P qs)) = gaps_pending P qs"
proof (induction qs arbitrary: P)
  case Nil
  then show ?case by simp
next
  case (Cons q qs)
  show ?case
    by (rule entry_shapes [of "qe_entry q"])
       (auto simp: rebuild_simps Cons.IH split_beta Let_def insert_absorb simp del: rebuild_gaps.simps)
qed

lemma rebuild_pending_again: "gaps_pending P (fst (rebuild_gaps P qs)) = gaps_pending P qs"
proof (induction qs arbitrary: P)
  case Nil
  then show ?case by simp
next
  case (Cons q qs)
  show ?case
    by (rule entry_shapes [of "qe_entry q"])
       (auto simp: rebuild_simps Cons.IH split_beta Let_def insert_absorb simp del: rebuild_gaps.simps)
qed

text \<open>The pass removes only redundant markers: no slot of any partition changes.\<close>

lemma rebuild_slots:
  assumes "None \<in> P \<or> Some k \<in> P \<Longrightarrow> c"
  shows "slots k c (queue_marks (fst (rebuild_gaps P qs))) = slots k c (queue_marks qs)"
  using assms
proof (induction qs arbitrary: P c)
  case Nil
  then show ?case by simp
next
  case (Cons q qs)
  show ?case
  proof (rule entry_shapes [of "qe_entry q"])
    fix x assume x: "entry_item (qe_entry q) = Some x"
    show ?thesis using Cons.IH [of "P - {Some (it_skey x)} - {None}" "if it_skey x = k then False else c"]
      Cons.prems x by (auto simp: rebuild_simps split_beta Let_def simp del: rebuild_gaps.simps)
  next
    fix p assume p: "qe_entry q = Gap p"
    show ?thesis
    proof (cases "None \<in> P \<or> p \<in> P")
      case True
      then have "(c \<or> p = None \<or> p = Some k) = c" using Cons.prems by auto
      then show ?thesis using Cons.IH [of P c] Cons.prems True p
        by (simp add: rebuild_simps del: rebuild_gaps.simps)
    next
      case False
      show ?thesis using Cons.IH [of "insert p P" "c \<or> p = None \<or> p = Some k"] Cons.prems False p
        by (auto simp: rebuild_simps split_beta Let_def simp del: rebuild_gaps.simps)
    qed
  next
    fix p r assume "qe_entry q = Seal p r"
    then show ?thesis using Cons.IH [of P c] Cons.prems
      by (simp add: rebuild_simps split_beta Let_def del: rebuild_gaps.simps)
  qed
qed

text \<open>A pending marker means the slot after the last data is already marked.\<close>

lemma pending_last:
  assumes "None \<in> P \<or> Some k \<in> P \<Longrightarrow> c" "None \<in> gaps_pending P qs \<or> Some k \<in> gaps_pending P qs"
  shows "last (slots k c (queue_marks qs))"
  using assms
proof (induction qs arbitrary: P c)
  case Nil
  then show ?case by simp
next
  case (Cons q qs)
  show ?case
  proof (rule entry_shapes [of "qe_entry q"])
    fix x assume x: "entry_item (qe_entry q) = Some x"
    show ?thesis using Cons.IH [of "P - {Some (it_skey x)} - {None}" "if it_skey x = k then False else c"]
      Cons.prems x by auto
  next
    fix p assume p: "qe_entry q = Gap p"
    show ?thesis using Cons.IH [of "if None \<in> P then P else insert p P" "c \<or> p = None \<or> p = Some k"]
      Cons.prems p by (auto split: if_splits)
  next
    fix p r assume "qe_entry q = Seal p r"
    then show ?thesis using Cons.IH [of P c] Cons.prems by simp
  qed
qed

subsection \<open>Every operation keeps the coverage\<close>

definition q_cover :: "'t history \<Rightarrow> 't background \<Rightarrow> bool" where
  "q_cover h bg = (kept_entries h = map qe_entry (filter is_data (qs_queue (bg_state bg)))
     \<and> covers (history_marks h) (queue_marks (qs_queue (bg_state bg)))
     \<and> qs_pending (bg_state bg) = gaps_pending {} (qs_queue (bg_state bg))
     \<and> (\<forall>x \<in> set h. entry_item (fst x) \<noteq> None))"

lemma is_data_simps [simp]:
  "is_data (stamped e bg) = (entry_item e \<noteq> None)" "qe_entry (stamped e bg) = e"
  by (simp_all add: is_data_def stamped_def)

lemma push_back_simps [simp]:
  "qs_queue (bg_state (push_back e bg)) = qs_queue (bg_state bg) @ [stamped e bg]"
  "qs_pending (bg_state (push_back e bg)) = qs_pending (bg_state bg)"
  "qs_bytes (bg_state (push_back e bg)) = qs_bytes (bg_state bg)"
  "qs_gaps (bg_state (push_back e bg)) = qs_gaps (bg_state bg)"
  "bg_config (push_back e bg) = bg_config bg" "bg_failures (push_back e bg) = bg_failures bg"
  "bg_worker (push_back e bg) = bg_worker bg"
  "qs_shutdown (bg_state (push_back e bg)) = qs_shutdown (bg_state bg)"
  "qs_admitted (bg_state (push_back e bg)) = qs_admitted (bg_state bg)"
  "qs_overflow_dropped (bg_state (push_back e bg)) = qs_overflow_dropped (bg_state bg)"
  by (simp_all add: push_back_def on_state_def)

lemma on_state_simps [simp]:
  "bg_state (on_state f bg) = f (bg_state bg)" "bg_config (on_state f bg) = bg_config bg"
  "bg_failures (on_state f bg) = bg_failures bg" "bg_worker (on_state f bg) = bg_worker bg"
  "stamped e (on_state f bg) = stamped e bg"
  by (simp_all add: on_state_def stamped_def)

lemma peak_simps [simp]:
  "qs_queue (record_queue_peak st) = qs_queue st" "qs_pending (record_queue_peak st) = qs_pending st"
  "qs_bytes (record_queue_peak st) = qs_bytes st" "qs_gaps (record_queue_peak st) = qs_gaps st"
  "qs_shutdown (record_queue_peak st) = qs_shutdown st"
  "qs_admitted (record_queue_peak st) = qs_admitted st"
  "qs_overflow_dropped (record_queue_peak st) = qs_overflow_dropped st"
  by (simp_all add: record_queue_peak_def)

lemma q_cover_cong:
  "qs_queue (bg_state bg') = qs_queue (bg_state bg) \<Longrightarrow> qs_pending (bg_state bg') = qs_pending (bg_state bg) \<Longrightarrow>
   q_cover h bg' = q_cover h bg"
  by (simp add: q_cover_def)

lemma raf_pending:
  "qs_pending (bg_state (record_admission_failure item at_front bg)) =
    (let key = gap_key (cc_max_active_partitions (bg_config bg)) (qs_pending (bg_state bg)) (it_skey item)
     in if at_front then gaps_pending {} (stamped (Gap key) bg # qs_queue (bg_state bg))
        else insert key (qs_pending (bg_state bg)))"
  by (simp add: record_admission_failure_def Let_def split_beta on_state_def push_front_def
      push_back_def record_queue_peak_def stamped_def rebuild_pending insert_absorb)

lemma gap_key_cases: "gap_key m P k = None \<or> gap_key m P k = Some k"
  by (simp add: gap_key_def)

lemma gap_key_None: "None \<in> P \<Longrightarrow> gap_key m P k = None"
  by (simp add: gap_key_def)

lemma covers_pending:
  assumes c: "covers hs (queue_marks qs)" and p: "None \<in> gaps_pending {} qs \<or> Some a \<in> gaps_pending {} qs"
  shows "covers (hs @ [Cut (Some a)]) (queue_marks qs)"
  unfolding covers_def
proof
  fix k
  have l: "list_all2 (\<longrightarrow>) (slots k False hs) (slots k False (queue_marks qs))"
    using c by (simp add: covers_def)
  let ?q = "slots k False (queue_marks qs)"
  have "a = k \<Longrightarrow> last ?q" using pending_last [of "{}" k False qs] p by auto
  then have "list_all2 (\<longrightarrow>) (butlast (slots k False hs) @ [last (slots k False hs) \<or> a = k])
      (butlast ?q @ [last ?q])"
    using list_all2_butlast [OF l] list_all2_last [OF l] by (intro list_all2_appendI) auto
  then show "list_all2 (\<longrightarrow>) (slots k False (hs @ [Cut (Some a)])) ?q"
    by (simp add: slots_append)
qed

lemma raf_back_cover:
  assumes cov: "q_cover h bg" and e: "entry_item e = Some item"
  shows "q_cover (h @ [(e, False)]) (record_admission_failure item False bg)"
proof -
  let ?qs = "qs_queue (bg_state bg)" and ?P = "qs_pending (bg_state bg)"
  define key where "key = gap_key (cc_max_active_partitions (bg_config bg)) ?P (it_skey item)"
  have P: "?P = gaps_pending {} ?qs" using cov by (simp add: q_cover_def)
  have k: "key = None \<or> key = Some (it_skey item)" unfolding key_def by (rule gap_key_cases)
  have c: "covers (history_marks h) (queue_marks ?qs)" using cov by (simp add: q_cover_def)
  have queue: "qs_queue (bg_state (record_admission_failure item False bg))
      = (if key \<notin> ?P then ?qs @ [stamped (Gap key) bg] else ?qs)"
    by (simp add: raf_queue Let_def key_def)
  have pending: "qs_pending (bg_state (record_admission_failure item False bg)) = insert key ?P"
    by (simp add: raf_pending Let_def key_def)
  show ?thesis
  proof (cases "key \<in> ?P")
    case True
    from covers_pending [OF c, of "it_skey item"] k P True
    have "covers (history_marks h @ [Cut (Some (it_skey item))]) (queue_marks ?qs)" by auto
    then show ?thesis using cov e True
      by (simp add: q_cover_def queue pending insert_absorb)
  next
    case False
    have n: "None \<notin> ?P" using gap_key_None False by (auto simp: key_def)
    have "covers (history_marks h @ [Cut (Some (it_skey item))]) (queue_marks ?qs @ [Cut key])"
      using k by (intro covers_append [OF c]) auto
    then show ?thesis using cov e False n P
      by (simp add: q_cover_def queue pending gaps_pending_append)
  qed
qed

definition no_item :: "mark list \<Rightarrow> bool" where
  "no_item ms = (\<forall>m \<in> set ms. \<forall>a. m \<noteq> Item a)"

lemma slots_no_item: "no_item ms \<Longrightarrow> slots k c (ms @ ys) = slots k (last (slots k c ms)) ys"
  by (induction k c ms rule: slots.induct) (auto simp: no_item_def)

lemma last_no_item: "no_item ms \<Longrightarrow> last (slots k c ms) = (c \<or> last (slots k False ms))"
proof -
  assume "no_item ms"
  then have "slots k c ms = [c \<or> Cut None \<in> set ms \<or> Cut (Some k) \<in> set ms]" for c
  proof (induction ms arbitrary: c)
    case Nil
    then show ?case by simp
  next
    case (Cons m ms)
    then show ?case by (cases m) (auto simp: no_item_def)
  qed
  then show ?thesis by simp
qed

lemma slots_weaken:
  assumes "list_all2 (\<longrightarrow>) xs (slots k c qs)" "c \<longrightarrow> c'"
  shows "list_all2 (\<longrightarrow>) xs (slots k c' qs)"
proof -
  obtain b bs where b: "slots k False qs = b # bs" by (cases "slots k False qs") simp_all
  have "slots k c qs = (c \<or> b) # bs" "slots k c' qs = (c' \<or> b) # bs"
    using slots_hd [of k c qs] slots_hd [of k c' qs] b by simp_all
  then show ?thesis using assms by (cases xs) auto
qed

lemma covers_evict:
  assumes "covers (hs @ Item a # hr) (pre @ Item a # post)" "no_item hs" "no_item pre"
    and key: "key = None \<or> key = Some a"
  shows "covers (hs @ Cut (Some a) # hr) (Cut key # pre @ post)"
  unfolding covers_def
proof
  fix k
  let ?cH = "last (slots k False hs)" and ?cQ = "last (slots k False pre)"
  have l: "list_all2 (\<longrightarrow>) (slots k ?cH (Item a # hr)) (slots k ?cQ (Item a # post))"
    using assms(1) by (simp add: covers_def slots_no_item [OF assms(2)] slots_no_item [OF assms(3)])
  let ?c = "last (slots k (key = None \<or> key = Some k) pre)"
  have "list_all2 (\<longrightarrow>) (slots k (?cH \<or> a = k) hr) (slots k ?c post)"
  proof (cases "a = k")
    case True
    then have "?c" using key last_no_item [OF assms(3), of k "key = None \<or> key = Some k"] by auto
    with l True show ?thesis using slots_mono [of k hr post True ?c] by auto
  next
    case False
    then have l': "list_all2 (\<longrightarrow>) (slots k ?cH hr) (slots k ?cQ post)" using l by simp
    have "?cQ \<longrightarrow> ?c" using last_no_item [OF assms(3), of k "key = None \<or> key = Some k"] by auto
    from slots_weaken [OF l' this] False show ?thesis by simp
  qed
  then show "list_all2 (\<longrightarrow>) (slots k False (hs @ Cut (Some a) # hr)) (slots k False (Cut key # pre @ post))"
    by (simp add: slots_no_item [OF assms(2)] slots_no_item [OF assms(3)])
qed

lemma history_split:
  assumes "kept_entries h = e # es" "\<forall>x \<in> set h. entry_item (fst x) \<noteq> None"
  shows "\<exists>ls rest. h = ls @ (e, True) # rest \<and> lose_first h = ls @ (e, False) # rest
    \<and> no_item (history_marks ls)"
  using assms
proof (induction h rule: lose_first.induct)
  case 1
  then show ?case by simp
next
  case (2 e' b h)
  show ?case
  proof (cases b)
    case True
    with 2 show ?thesis by (intro exI [of _ "[]"] exI [of _ h]) (simp add: no_item_def)
  next
    case False
    with 2 obtain ls rest where "h = ls @ (e, True) # rest" "lose_first h = ls @ (e, False) # rest"
      "no_item (history_marks ls)" by auto
    with False 2 show ?thesis
      by (intro exI [of _ "(e', b) # ls"] exI [of _ rest]) (auto simp: no_item_def split: option.splits)
  qed
qed

lemma no_data_no_item: "\<forall>q \<in> set qs. \<not> is_data q \<Longrightarrow> no_item (queue_marks qs)"
  by (auto simp: no_item_def queue_marks_def is_data_def entry_mark_def split: queue_entry.splits)

lemma evict_simps [simp]:
  "bg_config (evict i x bg) = bg_config bg" "bg_worker (evict i x bg) = bg_worker bg"
  "qs_shutdown (bg_state (evict i x bg)) = qs_shutdown (bg_state bg)"
  "qs_admitted (bg_state (evict i x bg)) = qs_admitted (bg_state bg)"
  "qs_overflow_dropped (bg_state (evict i x bg)) = Suc (qs_overflow_dropped (bg_state bg))"
  "bg_failures (evict i x bg) = tracker_record (Some (it_skey x)) Admission
     (Some (it_event_ts x, it_event_ts x)) (bg_failures bg)"
  "qs_bytes (bg_state (evict i x bg)) = qs_bytes (bg_state bg) - it_bytes x"
  by (simp_all add: evict_def)

lemma evict_cover:
  assumes cov: "q_cover h bg" and i: "position is_data (qs_queue (bg_state bg)) = Some i"
    and x: "entry_item (qe_entry (qs_queue (bg_state bg) ! i)) = Some x"
  shows "q_cover (lose_first h) (evict i x bg)"
    "kept_entries h \<noteq> [] \<and> hd (kept_entries h) = qe_entry (qs_queue (bg_state bg) ! i)"
proof -
  let ?qs = "qs_queue (bg_state bg)"
  define pre post q where "pre = take i ?qs" "post = drop (Suc i) ?qs" "q = ?qs ! i"
  have qs: "?qs = pre @ q # post" "\<forall>y \<in> set pre. \<not> is_data y" "is_data q"
    using position_split [OF i] by (simp_all add: pre_post_q_def)
  have fpre: "filter is_data pre = []" using qs(2) by (simp add: filter_empty_conv)
  have kept: "kept_entries h = qe_entry q # map qe_entry (filter is_data post)"
    using cov qs fpre by (simp add: q_cover_def)
  then show "kept_entries h \<noteq> [] \<and> hd (kept_entries h) = qe_entry (?qs ! i)"
    by (simp add: pre_post_q_def)
  have data: "\<forall>y \<in> set h. entry_item (fst y) \<noteq> None" using cov by (simp add: q_cover_def)
  obtain ls rest where h: "h = ls @ (qe_entry q, True) # rest"
    "lose_first h = ls @ (qe_entry q, False) # rest" "no_item (history_marks ls)"
    using history_split [OF kept data] by blast
  have xq: "entry_item (qe_entry q) = Some x" using x by (simp add: pre_post_q_def)
  define key where "key = gap_key (cc_max_active_partitions (bg_config bg)) (qs_pending (bg_state bg)) (it_skey x)"
  define gap where "gap = stamped (Gap key) bg"
  have gap: "qe_entry gap = Gap key" "\<not> is_data gap" by (simp_all add: gap_def)
  have queue: "qs_queue (bg_state (evict i x bg)) = fst (rebuild_gaps {} (gap # pre @ post))"
    by (simp add: evict_def raf_queue key_def gap_def pre_post_q_def Let_def count_overflow_def stamped_def on_state_def)
  have pending: "qs_pending (bg_state (evict i x bg)) = gaps_pending {} (gap # pre @ post)"
    by (simp add: evict_def raf_pending key_def gap_def pre_post_q_def Let_def count_overflow_def stamped_def on_state_def)
  have "covers (history_marks ls @ Item (it_skey x) # history_marks rest)
      (queue_marks pre @ Item (it_skey x) # queue_marks post)"
    using cov xq h qs by (simp add: q_cover_def)
  from covers_evict [OF this h(3) no_data_no_item [OF qs(2)], of key] gap_key_cases
  have "covers (history_marks (lose_first h)) (queue_marks (gap # pre @ post))"
    using h(2) xq gap by (simp add: key_def)
  then have "covers (history_marks (lose_first h)) (queue_marks (fst (rebuild_gaps {} (gap # pre @ post))))"
    using rebuild_slots [of "{}" _ False "gap # pre @ post"] by (simp only: covers_def) simp
  moreover have "kept_entries (lose_first h) = map qe_entry (filter is_data (fst (rebuild_gaps {} (gap # pre @ post))))"
    using kept gap fpre by (simp add: lose_first_kept rebuild_data del: rebuild_gaps.simps)
  moreover have "\<forall>y \<in> set (lose_first h). entry_item (fst y) \<noteq> None"
    using data lose_first_fst [of h] by (metis (no_types, lifting) image_eqI image_iff list.set_map)
  ultimately show "q_cover (lose_first h) (evict i x bg)"
    by (simp add: q_cover_def queue pending rebuild_pending_again del: rebuild_gaps.simps)
qed

lemma admit_cover:
  assumes "q_cover h bg" "entry_item (entry item) = Some item"
  shows "q_cover (h @ [(entry item, True)]) (admit entry item bg)"
  using assms covers_append [of "history_marks h" "queue_marks (qs_queue (bg_state bg))"
      "[Item (it_skey item)]" "[Item (it_skey item)]"]
  by (auto simp: q_cover_def admit_def Let_def gaps_pending_append)

lemma push_seal_cover:
  assumes "q_cover h bg"
  shows "q_cover h (on_state record_queue_peak (push_back (Seal part reply) bg))"
  using assms covers_append [of "history_marks h" "queue_marks (qs_queue (bg_state bg))" "[]" "[Skip]"]
  by (auto simp: q_cover_def gaps_pending_append)

text \<open>The failure recorded for a lost entry.\<close>

definition lost_event :: "'t queue_entry \<Rightarrow> failure_event" where
  "lost_event e = (case entry_item e of
     Some x \<Rightarrow> (Some (it_skey x), Admission, Some (it_event_ts x, it_event_ts x))
   | None \<Rightarrow> (None, Admission, None))"

text \<open>What a queue operation does to the bookkeeping: each newly lost entry is counted and recorded.\<close>

definition q_progress :: "'t history \<Rightarrow> 't background \<Rightarrow> 't history \<Rightarrow> 't background \<Rightarrow> bool" where
  "q_progress h bg h' bg' = (\<exists>es. bg_failures bg' = record_all es (bg_failures bg)
     \<and> image_mset lost_event (mset (lost_entries h'))
        = image_mset lost_event (mset (lost_entries h)) + mset es
     \<and> qs_overflow_dropped (bg_state bg') = qs_overflow_dropped (bg_state bg) + length es
     \<and> bg_config bg' = bg_config bg \<and> bg_worker bg' = bg_worker bg
     \<and> qs_shutdown (bg_state bg') = qs_shutdown (bg_state bg))"

lemma q_progressI:
  assumes "bg_failures bg' = record_all es (bg_failures bg)"
    "image_mset lost_event (mset (lost_entries h'))
        = image_mset lost_event (mset (lost_entries h)) + mset es"
    "qs_overflow_dropped (bg_state bg') = qs_overflow_dropped (bg_state bg) + length es"
    "bg_config bg' = bg_config bg" "bg_worker bg' = bg_worker bg"
    "qs_shutdown (bg_state bg') = qs_shutdown (bg_state bg)"
  shows "q_progress h bg h' bg'"
  using assms unfolding q_progress_def by blast

lemma q_progress_trans:
  assumes "q_progress h1 bg1 h2 bg2" "q_progress h2 bg2 h3 bg3"
  shows "q_progress h1 bg1 h3 bg3"
proof -
  obtain es es' where "bg_failures bg2 = record_all es (bg_failures bg1)"
    "image_mset lost_event (mset (lost_entries h2)) = image_mset lost_event (mset (lost_entries h1)) + mset es"
    "qs_overflow_dropped (bg_state bg2) = qs_overflow_dropped (bg_state bg1) + length es"
    "bg_failures bg3 = record_all es' (bg_failures bg2)"
    "image_mset lost_event (mset (lost_entries h3)) = image_mset lost_event (mset (lost_entries h2)) + mset es'"
    "qs_overflow_dropped (bg_state bg3) = qs_overflow_dropped (bg_state bg2) + length es'"
    using assms unfolding q_progress_def by blast
  then show ?thesis using assms
    by (intro q_progressI [where es = "es @ es'"]) (auto simp: q_progress_def)
qed

lemma reject_progress:
  assumes "entry_item e = Some item"
  shows "q_progress h bg (h @ [(e, False)]) (record_admission_failure item False (count_overflow bg))"
  by (rule q_progressI [where es = "[lost_event e]"]) (simp_all add: lost_event_def assms)

lemma reject_cover:
  assumes "q_cover h bg" "entry_item e = Some item"
  shows "q_cover (h @ [(e, False)]) (record_admission_failure item False (count_overflow bg))"
  by (rule raf_back_cover) (use assms q_cover_cong [of "count_overflow bg" bg h] in simp_all)

lemma make_room_cover:
  assumes "q_cover h bg" "entry_item e = Some item"
  shows "\<exists>h'. q_cover h' (snd (make_room item bg)) \<and> q_progress h bg h' (snd (make_room item bg))
    \<and> map fst h' = map fst h @ (if fst (make_room item bg) = None then [] else [e])"
  using assms
proof (induction item bg arbitrary: h rule: make_room.induct)
  case (1 item bg)
  have stay: ?case if "snd (make_room item bg) = record_admission_failure item False (count_overflow bg)"
      "fst (make_room item bg) \<noteq> None"
    using that reject_cover [OF "1.prems"] reject_progress [OF "1.prems"(2), of h bg]
    by (intro exI [of _ "h @ [(e, False)]"]) simp
  show ?case
  proof (cases "queue_full item bg")
    case False
    then show ?thesis using "1.prems"
      by (intro exI [of _ h]) (auto simp: make_room.simps [of item bg] intro: q_progressI [where es = "[]"])
  next
    case full: True
    show ?thesis
    proof (cases "cc_overflow_policy (bg_config bg)")
      case DropNewest
      then show ?thesis using full by (intro stay) (simp_all add: make_room.simps [of item bg])
    next
      case FailFast
      then show ?thesis using full by (intro stay) (simp_all add: make_room.simps [of item bg])
    next
      case DropOldest
      show ?thesis
      proof (cases "position is_data (qs_queue (bg_state bg))")
        case None
        then show ?thesis using full DropOldest by (intro stay) (simp_all add: make_room.simps [of item bg])
      next
        case (Some i)
        obtain x where x: "entry_item (qe_entry (qs_queue (bg_state bg) ! i)) = Some x"
          using position_Some [OF Some] by (auto simp: is_data_def)
        let ?bg = "evict i x bg"
        note cov = evict_cover [OF "1.prems"(1) Some x]
        obtain es where es: "kept_entries h = qe_entry (qs_queue (bg_state bg) ! i) # es"
          using cov(2) by (cases "kept_entries h") auto
        have prog: "q_progress h bg (lose_first h) ?bg"
          using lose_first_lost [OF es] x
          by (intro q_progressI [where es = "[lost_event (qe_entry (qs_queue (bg_state bg) ! i))]"])
             (simp_all add: lost_event_def)
        have step: "make_room item bg = make_room item ?bg"
          using full DropOldest Some x by (simp add: make_room.simps [of item bg])
        have "the (entry_item (qe_entry (qs_queue (bg_state bg) ! i))) = x" using x by simp
        with "1.IH" [OF _ DropOldest Some] cov(1) "1.prems"(2) full
        obtain h' where "q_cover h' (snd (make_room item ?bg))"
          "q_progress (lose_first h) ?bg h' (snd (make_room item ?bg))"
          "map fst h' = map fst (lose_first h) @ (if fst (make_room item ?bg) = None then [] else [e])"
          by metis
        then show ?thesis using q_progress_trans [OF prog] step by auto
      qed
    qed
  qed
qed

text \<open>
  One submission: when the worker is running and not shutting down, the item joins the history,
  kept or lost.
\<close>

lemma submit_entry_cover:
  assumes "q_cover h bg" "entry_item (entry item) = Some item" "submit_entry entry item bg = (r, bg')"
  shows "\<exists>h'. q_cover h' bg' \<and> q_progress h bg h' bg' \<and> map fst h' = map fst h @
    (if bg_worker bg = Running \<and> \<not> qs_shutdown (bg_state bg) then [entry item] else [])"
proof -
  have none: "q_progress h bg h bg" by (rule q_progressI [where es = "[]"]) simp_all
  consider (off) "bg_worker bg \<noteq> Running \<or> qs_shutdown (bg_state bg)"
    | (big) "bg_worker bg = Running" "\<not> qs_shutdown (bg_state bg)"
        "it_bytes item > ingress_max_bytes (bg_config bg)"
    | (room) "bg_worker bg = Running" "\<not> qs_shutdown (bg_state bg)"
        "\<not> it_bytes item > ingress_max_bytes (bg_config bg)" by blast
  then show ?thesis
  proof cases
    case off
    then have "bg' = bg" using assms(3) by (auto simp: submit_entry_def split: if_splits)
    with off none assms(1) show ?thesis by auto
  next
    case big
    then have "bg' = record_admission_failure item False (count_overflow bg)"
      using assms(3) by (auto simp: submit_entry_def Let_def split: if_splits)
    with big reject_cover [OF assms(1,2)] reject_progress [OF assms(2), of h bg] show ?thesis
      by (intro exI [of _ "h @ [(entry item, False)]"]) simp
  next
    case room
    from make_room_cover [OF assms(1,2)] obtain h' where h': "q_cover h' (snd (make_room item bg))"
      "q_progress h bg h' (snd (make_room item bg))"
      "map fst h' = map fst h @ (if fst (make_room item bg) = None then [] else [entry item])" by blast
    show ?thesis
    proof (cases "fst (make_room item bg)")
      case (Some x)
      with room assms(3) h' show ?thesis
        by (cases "make_room item bg") (auto simp: submit_entry_def)
    next
      case None
      let ?bg = "snd (make_room item bg)"
      have bg': "bg' = admit entry item ?bg"
        using room assms(3) None by (cases "make_room item bg") (auto simp: submit_entry_def)
      have "q_progress h' ?bg (h' @ [(entry item, True)]) bg'" unfolding bg'
        by (rule q_progressI [where es = "[]"]) (simp_all add: admit_def Let_def)
      from q_progress_trans [OF h'(2) this] admit_cover [where entry = entry and item = item, OF h'(1) assms(2)]
      show ?thesis using room None h'(3) bg'
        by (intro exI [of _ "h' @ [(entry item, True)]"]) simp
    qed
  qed
qed

end
