(* ===== verification/Queue_Bounds.thy ===== *)
theory Queue_Bounds
  imports Queue_Cover
begin

section \<open>The queue is bounded and its counters are exact\<close>

text \<open>
  The counters the admission checks read (\<open>queued_bytes\<close>, \<open>queued_gap_count\<close>,
  \<open>pending_gaps\<close>) always agree with the queue, and data, control entries and markers stay
  within bounds that depend on the configuration only, also through an arbitrarily long burst of
  evictions.
\<close>

definition is_gap :: "'t queued_entry \<Rightarrow> bool" where
  "is_gap q = (case qe_entry q of Gap _ \<Rightarrow> True | _ \<Rightarrow> False)"

definition is_seal :: "'t queued_entry \<Rightarrow> bool" where
  "is_seal q = (case qe_entry q of Seal _ _ \<Rightarrow> True | _ \<Rightarrow> False)"

definition gap_count :: "'t queued_entry list \<Rightarrow> nat" where
  "gap_count qs = length (filter is_gap qs)"

definition seal_count :: "'t queued_entry list \<Rightarrow> nat" where
  "seal_count qs = length (filter is_seal qs)"

definition entry_bytes :: "'t queued_entry \<Rightarrow> nat" where
  "entry_bytes q = (case entry_item (qe_entry q) of Some x \<Rightarrow> it_bytes x | None \<Rightarrow> 0)"

definition queue_bytes :: "'t queued_entry list \<Rightarrow> nat" where
  "queue_bytes qs = sum_list (map entry_bytes qs)"

lemma counts_simps [simp]:
  "gap_count [] = 0" "gap_count (xs @ ys) = gap_count xs + gap_count ys"
  "gap_count (q # qs) = (if is_gap q then Suc (gap_count qs) else gap_count qs)"
  "seal_count [] = 0" "seal_count (xs @ ys) = seal_count xs + seal_count ys"
  "seal_count (q # qs) = (if is_seal q then Suc (seal_count qs) else seal_count qs)"
  "queue_bytes [] = 0" "queue_bytes (xs @ ys) = queue_bytes xs + queue_bytes ys"
  "queue_bytes (q # qs) = entry_bytes q + queue_bytes qs"
  by (simp_all add: gap_count_def seal_count_def queue_bytes_def)

lemma shape_simps:
  "entry_item (qe_entry q) = Some x \<Longrightarrow> is_data q \<and> \<not> is_gap q \<and> \<not> is_seal q \<and> entry_bytes q = it_bytes x"
  "qe_entry q = Gap p \<Longrightarrow> \<not> is_data q \<and> is_gap q \<and> \<not> is_seal q \<and> entry_bytes q = 0"
  "qe_entry q = Seal p r \<Longrightarrow> \<not> is_data q \<and> \<not> is_gap q \<and> is_seal q \<and> entry_bytes q = 0"
  by (auto simp: is_data_def is_gap_def is_seal_def entry_bytes_def split: queue_entry.splits)

lemma length_split: "length qs = data_count qs + gap_count qs + seal_count qs"
proof (induction qs)
  case Nil
  then show ?case by simp
next
  case (Cons q qs)
  show ?case by (rule entry_shapes [of "qe_entry q"]) (auto simp: Cons shape_simps dest: shape_simps)
qed

lemma finite_pending: "finite P \<Longrightarrow> finite (gaps_pending P qs)"
  by (induction P qs rule: gaps_pending.induct) (auto split: option.splits queue_entry.splits)

text \<open>Effect of the rebuilding pass on the counters.\<close>

lemma rebuild_counts:
  "finite P \<Longrightarrow> snd (snd (rebuild_gaps P qs)) = gap_count (fst (rebuild_gaps P qs))
    \<and> seal_count (fst (rebuild_gaps P qs)) = seal_count qs
    \<and> queue_bytes (fst (rebuild_gaps P qs)) = queue_bytes qs
    \<and> gap_count (fst (rebuild_gaps P qs)) + card P \<le> 2 * data_count qs + card (gaps_pending P qs)"
proof (induction qs arbitrary: P)
  case Nil
  then show ?case by simp
next
  case (Cons q qs)
  show ?case
  proof (rule entry_shapes [of "qe_entry q"])
    fix x assume x: "entry_item (qe_entry q) = Some x"
    have "card P \<le> card (P - {Some (it_skey x)} - {None}) + 2"
      using Cons.prems by (simp add: card_Diff_singleton_if) arith
    then show ?thesis using Cons.IH [of "P - {Some (it_skey x)} - {None}"] Cons.prems x shape_simps(1) [OF x]
      by (simp add: rebuild_simps split_beta Let_def del: rebuild_gaps.simps)
  next
    fix p assume p: "qe_entry q = Gap p"
    show ?thesis
    proof (cases "None \<in> P \<or> p \<in> P")
      case True
      then show ?thesis using p Cons.IH [of P] Cons.prems shape_simps(2) [OF p]
        by (auto simp add: rebuild_simps split_beta Let_def insert_absorb simp del: rebuild_gaps.simps)
    next
      case False
      then show ?thesis using p Cons.IH [of "insert p P"] Cons.prems shape_simps(2) [OF p]
        by (simp add: rebuild_simps split_beta Let_def del: rebuild_gaps.simps)
    qed
  next
    fix p r assume s: "qe_entry q = Seal p r"
    then show ?thesis using Cons.IH [of P] Cons.prems shape_simps(3) [OF s]
      by (simp add: rebuild_simps split_beta Let_def del: rebuild_gaps.simps)
  qed
qed

lemma gaps_pending_mono:
  "P \<subseteq> P' \<union> X \<Longrightarrow> None \<in> P' \<longrightarrow> None \<in> P \<Longrightarrow> gaps_pending P qs \<subseteq> gaps_pending P' qs \<union> X"
proof (induction qs arbitrary: P P')
  case Nil
  then show ?case by simp
next
  case (Cons q qs)
  show ?case
  proof (rule entry_shapes [of "qe_entry q"])
    fix x assume x: "entry_item (qe_entry q) = Some x"
    show ?thesis using Cons.IH [of "P - {Some (it_skey x)} - {None}" "P' - {Some (it_skey x)} - {None}"]
      Cons.prems x by auto
  next
    fix p assume p: "qe_entry q = Gap p"
    let ?Q = "if None \<in> P then P else insert p P" and ?Q' = "if None \<in> P' then P' else insert p P'"
    have sub: "?Q \<subseteq> ?Q' \<union> X"
    proof (cases "None \<in> P")
      case True
      then show ?thesis using Cons.prems(1) by auto
    next
      case False
      then show ?thesis using Cons.prems by auto
    qed
    have none: "None \<in> ?Q' \<longrightarrow> None \<in> ?Q" using Cons.prems(2) by auto
    show ?thesis using Cons.IH [OF sub none] p by simp
  next
    fix p r assume "qe_entry q = Seal p r"
    then show ?thesis using Cons.IH [of P P'] Cons.prems by simp
  qed
qed

lemma gaps_pending_None:
  "\<forall>y \<in> set qs. \<not> is_data y \<Longrightarrow> gaps_pending {None} qs = {None}"
proof (induction qs)
  case Nil
  then show ?case by simp
next
  case (Cons q qs)
  show ?case
    by (rule entry_shapes [of "qe_entry q"]) (use Cons in \<open>auto simp: is_data_def\<close>)
qed

text \<open>Removing the first data entry and putting its marker in front adds at most that marker.\<close>

lemma evict_pending:
  assumes "\<forall>y \<in> set pre. \<not> is_data y" "entry_item (qe_entry q) = Some x"
    "qe_entry gap = Gap key" "key = None \<or> key = Some (it_skey x)"
  shows "gaps_pending {} (gap # pre @ post) \<subseteq> gaps_pending {} (pre @ q # post) \<union> {key, None}"
proof -
  let ?P0 = "gaps_pending {} pre" and ?P1 = "gaps_pending {key} pre"
  have "?P1 \<subseteq> (?P0 - {Some (it_skey x)} - {None}) \<union> {key, None}"
  proof (cases "key = None")
    case True
    then show ?thesis using gaps_pending_None [OF assms(1)] by auto
  next
    case False
    have "?P1 \<subseteq> ?P0 \<union> {key}" by (rule gaps_pending_mono) auto
    then show ?thesis using False assms(4) by auto
  qed
  from gaps_pending_mono [OF this, of post] show ?thesis
    using assms(2,3) by (simp add: gaps_pending_append)
qed

subsection \<open>The invariant\<close>

definition q_cap :: "'t background \<Rightarrow> nat" where
  "q_cap bg = max (cc_queue_capacity (bg_config bg)) 1"

definition q_parts :: "'t background \<Rightarrow> nat" where
  "q_parts bg = max (cc_max_active_partitions (bg_config bg)) 1"

definition q_exact :: "'t background \<Rightarrow> bool" where
  "q_exact bg = (qs_bytes (bg_state bg) = queue_bytes (qs_queue (bg_state bg))
     \<and> qs_gaps (bg_state bg) = gap_count (qs_queue (bg_state bg))
     \<and> qs_pending (bg_state bg) = gaps_pending {} (qs_queue (bg_state bg)))"

definition q_bounded :: "'t background \<Rightarrow> bool" where
  "q_bounded bg = (queue_bytes (qs_queue (bg_state bg)) \<le> ingress_max_bytes (bg_config bg)
     \<and> data_count (qs_queue (bg_state bg)) \<le> q_cap bg
     \<and> data_count (qs_queue (bg_state bg)) + seal_count (qs_queue (bg_state bg)) \<le> q_cap bg + q_parts bg
     \<and> card (gaps_pending {} (qs_queue (bg_state bg)) - {None}) \<le> q_parts bg
     \<and> gap_count (qs_queue (bg_state bg))
        \<le> 2 * data_count (qs_queue (bg_state bg)) + card (gaps_pending {} (qs_queue (bg_state bg))))"

text \<open>The limits do not reach the top of the address space, where a saturated sum could not exceed them.\<close>

definition limits_ok :: "capture_config \<Rightarrow> bool" where
  "limits_ok c = (ingress_max_bytes c < u64_max
     \<and> max (cc_queue_capacity c) 1 + max (cc_max_active_partitions c) 1 \<le> u64_max)"

lemma q_room:
  "q_exact bg \<Longrightarrow> sat_sub (length (qs_queue (bg_state bg))) (qs_gaps (bg_state bg))
    = data_count (qs_queue (bg_state bg)) + seal_count (qs_queue (bg_state bg))"
  by (simp add: q_exact_def sat_sub_def length_split)

lemma raf_gaps:
  "qs_gaps (bg_state (record_admission_failure item at_front bg)) =
    (let key = gap_key (cc_max_active_partitions (bg_config bg)) (qs_pending (bg_state bg)) (it_skey item)
     in if at_front then gap_count (fst (rebuild_gaps {} (stamped (Gap key) bg # qs_queue (bg_state bg))))
        else if key \<notin> qs_pending (bg_state bg) then Suc (qs_gaps (bg_state bg))
        else qs_gaps (bg_state bg))"
  using rebuild_counts [of "{}" "stamped (Gap (gap_key (cc_max_active_partitions (bg_config bg))
      (qs_pending (bg_state bg)) (it_skey item))) bg # qs_queue (bg_state bg)"]
  by (simp add: record_admission_failure_def Let_def split_beta on_state_def push_front_def
      push_back_def record_queue_peak_def stamped_def)

lemma stamped_shape [simp]:
  "is_gap (stamped (Gap p) bg)" "\<not> is_seal (stamped (Gap p) bg)" "entry_bytes (stamped (Gap p) bg) = 0"
  "\<not> is_gap (stamped (Seal p r) bg)" "is_seal (stamped (Seal p r) bg)" "entry_bytes (stamped (Seal p r) bg) = 0"
  by (simp_all add: is_gap_def is_seal_def entry_bytes_def stamped_def)

text \<open>A marker for a rejected item: at the back, and only when none is pending that covers it.\<close>

lemma raf_back_inv:
  assumes ex: "q_exact bg" and bd: "q_bounded bg"
  shows "q_exact (record_admission_failure item False bg) \<and> q_bounded (record_admission_failure item False bg)"
proof -
  let ?qs = "qs_queue (bg_state bg)" and ?P = "gaps_pending {} (qs_queue (bg_state bg))"
  define key where "key = gap_key (cc_max_active_partitions (bg_config bg)) ?P (it_skey item)"
  have P: "qs_pending (bg_state bg) = ?P" "finite ?P" using ex by (simp_all add: q_exact_def finite_pending)
  have queue: "qs_queue (bg_state (record_admission_failure item False bg))
      = (if key \<notin> ?P then ?qs @ [stamped (Gap key) bg] else ?qs)"
    by (simp add: raf_queue Let_def key_def P)
  have pending: "qs_pending (bg_state (record_admission_failure item False bg)) = insert key ?P"
    by (simp add: raf_pending Let_def key_def P)
  have gaps: "qs_gaps (bg_state (record_admission_failure item False bg))
      = (if key \<notin> ?P then Suc (gap_count ?qs) else gap_count ?qs)"
    using ex by (simp add: raf_gaps Let_def key_def P q_exact_def)
  have caps: "q_cap (record_admission_failure item False bg) = q_cap bg"
    "q_parts (record_admission_failure item False bg) = q_parts bg"
    by (simp_all add: q_cap_def q_parts_def)
  show ?thesis
  proof (cases "key \<in> ?P")
    case True
    then show ?thesis using ex bd
      by (simp add: q_exact_def q_bounded_def queue pending gaps caps insert_absorb)
  next
    case False
    have n: "None \<notin> ?P" using gap_key_None [of ?P] False by (auto simp: key_def)
    have pend: "gaps_pending {} (?qs @ [stamped (Gap key) bg]) = insert key ?P"
      using n by (simp add: gaps_pending_append)
    have "card (insert key ?P - {None}) \<le> q_parts bg"
    proof (cases key)
      case None
      then show ?thesis using bd n by (simp add: q_bounded_def)
    next
      case (Some k)
      then have "card ?P < q_parts bg" using False
        by (auto simp: key_def gap_key_def q_parts_def split: if_splits)
      then show ?thesis using n False P(2) Some by simp
    qed
    then show ?thesis using ex bd False P(2) pend
      by (simp add: q_exact_def q_bounded_def queue pending gaps caps)
  qed
qed

lemma count_overflow_inv [simp]:
  "q_exact (count_overflow bg) = q_exact bg" "q_bounded (count_overflow bg) = q_bounded bg"
  by (simp_all add: q_exact_def q_bounded_def q_cap_def q_parts_def)

lemma evict_inv:
  assumes ex: "q_exact bg" and bd: "q_bounded bg"
    and i: "position is_data (qs_queue (bg_state bg)) = Some i"
    and x: "entry_item (qe_entry (qs_queue (bg_state bg) ! i)) = Some x"
  shows "q_exact (evict i x bg) \<and> q_bounded (evict i x bg)"
proof -
  let ?qs = "qs_queue (bg_state bg)"
  define pre post q where "pre = take i ?qs" "post = drop (Suc i) ?qs" "q = ?qs ! i"
  have qs: "?qs = pre @ q # post" "\<forall>y \<in> set pre. \<not> is_data y"
    using position_split [OF i] by (simp_all add: pre_post_q_def)
  have xq: "entry_item (qe_entry q) = Some x" using x by (simp add: pre_post_q_def)
  note shape = shape_simps(1) [OF xq]
  define key where "key = gap_key (cc_max_active_partitions (bg_config bg)) (gaps_pending {} ?qs) (it_skey x)"
  define gap where "gap = stamped (Gap key) bg"
  let ?new = "fst (rebuild_gaps {} (gap # pre @ post))"
  have P: "qs_pending (bg_state bg) = gaps_pending {} ?qs" using ex by (simp add: q_exact_def)
  have queue: "qs_queue (bg_state (evict i x bg)) = ?new"
    by (simp add: evict_def raf_queue key_def gap_def pre_post_q_def Let_def count_overflow_def stamped_def
        on_state_def P)
  have pending: "qs_pending (bg_state (evict i x bg)) = gaps_pending {} (gap # pre @ post)"
    by (simp add: evict_def raf_pending key_def gap_def pre_post_q_def Let_def count_overflow_def stamped_def
        on_state_def P)
  have gaps: "qs_gaps (bg_state (evict i x bg)) = gap_count ?new"
    by (simp add: evict_def raf_gaps key_def gap_def pre_post_q_def Let_def count_overflow_def stamped_def
        on_state_def P)
  have caps: "q_cap (evict i x bg) = q_cap bg" "q_parts (evict i x bg) = q_parts bg"
    by (simp_all add: q_cap_def q_parts_def)
  note counts = rebuild_counts [of "{}" "gap # pre @ post"]
  have data: "data_count ?new = data_count pre + data_count post"
    unfolding data_count_def rebuild_data by (simp add: gap_def)
  have k: "key = None \<or> key = Some (it_skey x)" unfolding key_def by (rule gap_key_cases)
  have sub: "gaps_pending {} (gap # pre @ post) \<subseteq> gaps_pending {} ?qs \<union> {key, None}"
    using evict_pending [OF qs(2) xq _ k, of gap post] qs(1) by (simp add: gap_def)
  have fin: "finite (gaps_pending {} ?qs)" by (simp add: finite_pending)
  have "card (gaps_pending {} ?qs \<union> {key} - {None}) \<le> q_parts bg"
  proof (cases "key \<in> gaps_pending {} ?qs \<or> key = None")
    case True
    then have "gaps_pending {} ?qs \<union> {key} - {None} = gaps_pending {} ?qs - {None}" by auto
    then show ?thesis using bd by (simp add: q_bounded_def)
  next
    case False
    then have "None \<notin> gaps_pending {} ?qs" "card (gaps_pending {} ?qs) < q_parts bg"
      by (auto simp: key_def gap_key_def q_parts_def split: if_splits)
    moreover from this False have "gaps_pending {} ?qs \<union> {key} - {None} = insert key (gaps_pending {} ?qs)"
      by auto
    ultimately show ?thesis using False fin by simp
  qed
  moreover have "gaps_pending {} (gap # pre @ post) - {None} \<subseteq> gaps_pending {} ?qs \<union> {key} - {None}"
    using sub by auto
  ultimately have card: "card (gaps_pending {} (gap # pre @ post) - {None}) \<le> q_parts bg"
    using card_mono [of "gaps_pending {} ?qs \<union> {key} - {None}"] fin by (meson finite_Diff finite_UnI
        finite.emptyI finite.insertI le_trans)
  have bytes: "qs_bytes (bg_state (evict i x bg)) = queue_bytes ?new"
    using counts ex qs shape by (simp add: q_exact_def gap_def del: rebuild_gaps.simps gaps_pending.simps)
  have "q_exact (evict i x bg)"
    by (simp add: q_exact_def bytes queue gaps pending rebuild_pending_again
        del: evict_simps rebuild_gaps.simps gaps_pending.simps)
  moreover have "q_bounded (evict i x bg)"
    using bd counts data card shape qs(1)
    by (simp add: q_bounded_def queue caps rebuild_pending_again gap_def
        del: rebuild_gaps.simps gaps_pending.simps)
  ultimately show ?thesis ..
qed

lemma make_room_inv:
  assumes "q_exact bg" "q_bounded bg"
  shows "q_exact (snd (make_room item bg)) \<and> q_bounded (snd (make_room item bg))
    \<and> bg_config (snd (make_room item bg)) = bg_config bg
    \<and> (fst (make_room item bg) = None \<longrightarrow> \<not> queue_full item (snd (make_room item bg)))"
  using assms
proof (induction item bg rule: make_room.induct)
  case (1 item bg)
  have reject: "q_exact (record_admission_failure item False (count_overflow bg))
      \<and> q_bounded (record_admission_failure item False (count_overflow bg))"
    by (rule raf_back_inv) (simp_all add: "1.prems")
  show ?case
  proof (cases "queue_full item bg")
    case False
    then show ?thesis using "1.prems" by (simp add: make_room.simps [of item bg])
  next
    case full: True
    show ?thesis
    proof (cases "cc_overflow_policy (bg_config bg)")
      case DropNewest
      then show ?thesis using full reject by (simp add: make_room.simps [of item bg])
    next
      case FailFast
      then show ?thesis using full reject by (simp add: make_room.simps [of item bg])
    next
      case DropOldest
      show ?thesis
      proof (cases "position is_data (qs_queue (bg_state bg))")
        case None
        then show ?thesis using full reject DropOldest by (simp add: make_room.simps [of item bg])
      next
        case (Some i)
        obtain x where x: "entry_item (qe_entry (qs_queue (bg_state bg) ! i)) = Some x"
          using position_Some [OF Some] by (auto simp: is_data_def)
        from evict_inv [OF "1.prems" Some x] "1.IH" [OF _ DropOldest Some] full x
        show ?thesis using DropOldest Some by (simp add: make_room.simps [of item bg])
      qed
    qed
  qed
qed

lemma admit_inv:
  assumes ex: "q_exact bg" and bd: "q_bounded bg" and room: "\<not> queue_full item bg"
    and e: "entry_item (entry item) = Some item" and l: "ingress_max_bytes (bg_config bg) < u64_max"
  shows "q_exact (admit entry item bg) \<and> q_bounded (admit entry item bg)"
proof -
  let ?qs = "qs_queue (bg_state bg)" and ?new = "stamped (entry item) bg"
  have n: "entry_item (qe_entry ?new) = Some item" by (simp add: e)
  note shape = shape_simps(1) [OF n]
  have r: "data_count ?qs + seal_count ?qs < q_cap bg"
    using room q_room [OF ex] by (simp add: queue_full_def q_cap_def less_max_iff_disj) arith
  have b: "queue_bytes ?qs + it_bytes item \<le> ingress_max_bytes (bg_config bg)"
    using room l ex sat_add_less_maxD [of "qs_bytes (bg_state bg)" "it_bytes item" "ingress_max_bytes (bg_config bg)"]
    by (simp add: queue_full_def q_exact_def)
  let ?P = "gaps_pending {} ?qs"
  have fin: "finite ?P" by (simp add: finite_pending)
  have pend: "gaps_pending {} (?qs @ [?new]) = ?P - {Some (it_skey item)} - {None}"
    by (simp add: gaps_pending_append e)
  have c2: "card ?P \<le> card (?P - {Some (it_skey item)} - {None}) + 2"
    using fin by (simp add: card_Diff_singleton_if) arith
  have c1: "card (?P - {Some (it_skey item)} - {None} - {None}) \<le> card (?P - {None})"
    using fin by (intro card_mono) auto
  have queue: "qs_queue (bg_state (admit entry item bg)) = ?qs @ [?new]"
    "bg_config (admit entry item bg) = bg_config bg"
    "qs_bytes (bg_state (admit entry item bg)) = qs_bytes (bg_state bg) + it_bytes item"
    "qs_gaps (bg_state (admit entry item bg)) = qs_gaps (bg_state bg)"
    "qs_pending (bg_state (admit entry item bg)) = qs_pending (bg_state bg) - {Some (it_skey item)} - {None}"
    by (simp_all add: admit_def Let_def)
  have caps: "q_cap (admit entry item bg) = q_cap bg" "q_parts (admit entry item bg) = q_parts bg"
    by (simp_all add: q_cap_def q_parts_def queue)
  have "q_exact (admit entry item bg)" using ex shape by (simp add: q_exact_def queue pend)
  moreover have "q_bounded (admit entry item bg)"
    using bd shape r b c1 c2 by (simp add: q_bounded_def queue pend caps)
  ultimately show ?thesis ..
qed

lemma submit_entry_inv:
  assumes "q_exact bg" "q_bounded bg" "entry_item (entry item) = Some item" "limits_ok (bg_config bg)"
  shows "q_exact (snd (submit_entry entry item bg)) \<and> q_bounded (snd (submit_entry entry item bg))
    \<and> bg_config (snd (submit_entry entry item bg)) = bg_config bg"
proof -
  have big: "q_exact (record_admission_failure item False (count_overflow bg))
      \<and> q_bounded (record_admission_failure item False (count_overflow bg))"
    by (rule raf_back_inv) (simp_all add: assms)
  obtain o' bg1 where m: "make_room item bg = (o', bg1)" by fastforce
  note room = make_room_inv [OF assms(1,2), of item, unfolded m]
  show ?thesis
  proof (cases o')
    case None
    have "q_exact (admit entry item bg1) \<and> q_bounded (admit entry item bg1)"
      using room None assms(3,4) by (intro admit_inv) (auto simp: limits_ok_def)
    moreover have "bg_config (admit entry item bg1) = bg_config bg1" by (simp add: admit_def Let_def)
    ultimately show ?thesis using room m None big assms by (simp add: submit_entry_def Let_def)
  next
    case (Some r)
    then show ?thesis using room m big assms by (simp add: submit_entry_def Let_def)
  qed
qed

lemma enqueue_seal_inv:
  assumes ex: "q_exact bg" and bd: "q_bounded bg" and l: "limits_ok (bg_config bg)"
  shows "q_exact (snd (enqueue_seal part reply bg)) \<and> q_bounded (snd (enqueue_seal part reply bg))
    \<and> bg_config (snd (enqueue_seal part reply bg)) = bg_config bg"
proof -
  let ?bg = "on_state record_queue_peak (push_back (Seal part reply) bg)"
  have "\<not> is_data (stamped (Seal part reply) bg)" by (simp add: is_data_def stamped_def)
  moreover have "q_cap ?bg = q_cap bg" "q_parts ?bg = q_parts bg" by (simp_all add: q_cap_def q_parts_def)
  moreover have "sat_add (q_cap bg) (q_parts bg) = q_cap bg + q_parts bg"
    using l by (intro sat_add_eq) (simp add: limits_ok_def q_cap_def q_parts_def)
  ultimately have "q_exact ?bg \<and> q_bounded ?bg"
    if "\<not> sat_sub (length (qs_queue (bg_state bg))) (qs_gaps (bg_state bg))
      \<ge> sat_add (max (cc_queue_capacity (bg_config bg)) 1) (max (cc_max_active_partitions (bg_config bg)) 1)"
    using that ex bd q_room [OF ex]
    by (simp add: q_exact_def q_bounded_def gaps_pending_append q_cap_def q_parts_def)
  then show ?thesis using ex bd by (auto simp: enqueue_seal_def)
qed

lemma request_flush_inv:
  "q_exact (snd (request_flush sd tx bg)) = q_exact bg"
  "q_bounded (snd (request_flush sd tx bg)) = q_bounded bg"
  by (simp_all add: request_flush_def q_exact_def q_bounded_def q_cap_def q_parts_def)

lemma background_new_inv: "q_exact (background_new config wall clock) \<and> q_bounded (background_new config wall clock)"
  by (simp add: background_new_def queue_default_def q_exact_def q_bounded_def)

text \<open>What the invariant says of the queue's length.\<close>

lemma q_bounded_length:
  assumes "q_bounded bg"
  shows "length (qs_queue (bg_state bg)) \<le> 3 * q_cap bg + 2 * q_parts bg + 1"
proof -
  let ?P = "gaps_pending {} (qs_queue (bg_state bg))"
  have "card ?P \<le> card (?P - {None}) + 1" by (simp add: card_Diff_singleton_if finite_pending) arith
  then show ?thesis using assms length_split [of "qs_queue (bg_state bg)"]
    by (simp add: q_bounded_def)
qed

end
