(* ===== verification/Worker.thy ===== *)
theory Worker
  imports Runtime Queue_Bounds
begin

section \<open>The writer thread\<close>

text \<open>
  The consumer half of \<open>background.rs\<close>: the flush and sync deadlines, taking a batch from the
  queue, applying it to the runtime entry by entry, and reporting. Durations and instants are
  nanoseconds. The wait on the condition variable happens at most once and the code goes on
  whether it was woken, timed out or woke spuriously, so taking a batch is a function of the
  state at that instant.
\<close>

record worker_schedule =
  ws_flush_interval :: nat
  ws_next_flush :: nat
  ws_sync_interval :: "nat option"
  ws_next_sync :: "nat option"

definition from_millis :: "nat \<Rightarrow> nat" where
  "from_millis ms = ms * 1000000"

definition schedule_new :: "capture_config \<Rightarrow> bool \<Rightarrow> nat \<Rightarrow> worker_schedule" where
  "schedule_new c segment_mode now =
     (let flush_interval = from_millis (max (cc_flush_interval_ms c) 1);
          sync_interval = (if segment_mode \<and> lc_sync_interval_ms (cc_lifecycle c) > 0
            then Some (from_millis (lc_sync_interval_ms (cc_lifecycle c))) else None)
      in \<lparr>ws_flush_interval = flush_interval, ws_next_flush = now + flush_interval,
          ws_sync_interval = sync_interval,
          ws_next_sync = map_option (\<lambda>interval. now + interval) sync_interval\<rparr>)"

definition schedule_wait_for :: "nat \<Rightarrow> worker_schedule \<Rightarrow> nat" where
  "schedule_wait_for now s =
     (case ws_next_sync s of None \<Rightarrow> ws_next_flush s | Some t \<Rightarrow> min (ws_next_flush s) t) - now"

definition schedule_due :: "nat \<Rightarrow> worker_schedule \<Rightarrow> (bool \<times> bool) \<times> worker_schedule" where
  "schedule_due now s =
     (let fl = now \<ge> ws_next_flush s;
          s = (if fl then s\<lparr>ws_next_flush := now + ws_flush_interval s\<rparr> else s);
          sy = (case ws_next_sync s of None \<Rightarrow> False | Some deadline \<Rightarrow> now \<ge> deadline);
          s = (if sy then s\<lparr>ws_next_sync := map_option (\<lambda>i. now + i) (ws_sync_interval s)\<rparr> else s)
      in ((fl, sy), s))"

record 't worker_batch =
  wb_queue :: "'t queued_entry list"
  wb_reason :: "flush_reason option"
  wb_tick :: bool
  wb_shutdown :: bool
  wb_flush_waiters :: "nat list"
  wb_shutdown_waiters :: "nat list"

definition collect_worker_batch ::
  "nat \<Rightarrow> worker_schedule \<Rightarrow> 't background \<Rightarrow> 't worker_batch \<times> worker_schedule \<times> 't background" where
  "collect_worker_batch now s bg =
     (let ((flush_due, sync_due), s) = schedule_due now s;
          st = bg_state bg;
          reason = (if flush_due then merge_flush_reason (qs_flush_reason st) Interval
                    else qs_flush_reason st);
          tick = (qs_tick_requested st \<or> sync_due)
      in (\<lparr>wb_queue = qs_queue st,
           wb_reason = (if qs_shutdown st then Some Shutdown else reason),
           wb_tick = tick, wb_shutdown = qs_shutdown st,
           wb_flush_waiters = qs_flush_waiters st, wb_shutdown_waiters = qs_shutdown_waiters st\<rparr>,
          s,
          on_state (\<lambda>st. st\<lparr>qs_queue := [], qs_pending := {}, qs_gaps := 0,
            qs_in_flight_items := length (qs_queue st), qs_in_flight_bytes := qs_bytes st,
            qs_started_at := Some now, qs_bytes := 0, qs_flush_reason := None,
            qs_tick_requested := False, qs_flush_waiters := [], qs_shutdown_waiters := []\<rparr>) bg))"

subsection \<open>Applying a batch\<close>

text \<open>The worker's locals while it drains a batch, and the replies it has sent.\<close>

record ('t, 's) progress =
  pr_rt :: "('t, 's) runtime"
  pr_agg :: flush_result
  pr_error :: "cap_error option"
  pr_replies :: "(nat \<times> flush_result result) list"

definition merge_flush_into :: "flush_result \<Rightarrow> flush_result \<Rightarrow> flush_result" where
  "merge_flush_into target partial = \<lparr>fr_files = fr_files target @ fr_files partial,
     fr_rows = fr_rows target + fr_rows partial, fr_bytes = fr_bytes target + fr_bytes partial\<rparr>"

definition merge_runtime_step ::
  "(('t, 's) runtime \<Rightarrow> flush_result result \<times> ('t, 's) runtime) \<Rightarrow> ('t, 's) progress \<Rightarrow> ('t, 's) progress" where
  "merge_runtime_step f p =
     (let (r, rt) = f (pr_rt p)
      in case r of
           Inr partial \<Rightarrow> p\<lparr>pr_rt := rt, pr_agg := merge_flush_into (pr_agg p) partial\<rparr>
         | Inl e \<Rightarrow> p\<lparr>pr_rt := rt, pr_error := Some e\<rparr>)"

definition in_wait :: "nat \<Rightarrow> capture_metrics \<Rightarrow> capture_metrics" where
  "in_wait d m = m\<lparr>queue_wait := timing_record d (queue_wait m)\<rparr>"

definition submit_queued :: "('t, 's) sink_ops \<Rightarrow> 't capture_item \<Rightarrow> ('t, 's) progress \<Rightarrow> ('t, 's) progress" where
  "submit_queued ops item p =
     (let (r, rt) = submit ops item (pr_rt p)
      in case r of
           Inr partial \<Rightarrow> p\<lparr>pr_rt := rt, pr_agg := merge_flush_into (pr_agg p) partial\<rparr>
         | Inl e \<Rightarrow> p\<lparr>pr_rt := rt_set_metrics (\<lambda>m. m\<lparr>dropped_items := dropped_items m + 1\<rparr>) rt,
                     pr_error := Some e\<rparr>)"

definition seal_queued :: "('t, 's) sink_ops \<Rightarrow> string option \<Rightarrow> nat option \<Rightarrow> ('t, 's) progress \<Rightarrow> ('t, 's) progress" where
  "seal_queued ops part reply p =
     (let (r, rt) = (case part of Some key \<Rightarrow> seal_partition ops key (pr_rt p) | None \<Rightarrow> seal_all ops (pr_rt p));
          p = p\<lparr>pr_rt := rt,
             pr_replies := pr_replies p @ (case reply of None \<Rightarrow> [] | Some tx \<Rightarrow> [(tx, r)])\<rparr>
      in case r of
           Inr partial \<Rightarrow> p\<lparr>pr_agg := merge_flush_into (pr_agg p) partial\<rparr>
         | Inl e \<Rightarrow> p\<lparr>pr_error := Some e\<rparr>)"

definition process_entry :: "('t, 's) sink_ops \<Rightarrow> 't queued_entry \<Rightarrow> ('t, 's) progress \<Rightarrow> ('t, 's) progress" where
  "process_entry ops q p =
     (let p = p\<lparr>pr_rt := rt_timed in_wait (rt_sink (pr_rt p)) (pr_rt p)\<rparr>
      in case qe_entry q of
           Gap key \<Rightarrow> merge_runtime_step (break_continuity ops key) p
         | Initialization item \<Rightarrow> merge_runtime_step (submit_initialization ops item) p
         | Data item \<Rightarrow> submit_queued ops item p
         | Recovery item \<Rightarrow> merge_runtime_step (submit_initialization ops item)
             (merge_runtime_step (seal_partition ops (it_skey item)) p)
         | Seal part reply \<Rightarrow> seal_queued ops part reply p)"

definition process_tail ::
  "('t, 's) sink_ops \<Rightarrow> flush_reason option \<Rightarrow> bool \<Rightarrow> bool \<Rightarrow> nat \<Rightarrow> ('t, 's) progress \<Rightarrow> ('t, 's) progress" where
  "process_tail ops reason tick should_shutdown now_ns p =
     (let p = (if should_shutdown \<and> so_is_segment_mode ops (rt_sink (pr_rt p))
               then merge_runtime_step (seal_all_for_shutdown ops) p
               else case reason of
                 None \<Rightarrow> p
               | Some r \<Rightarrow> merge_runtime_step (flush_all_with_reason ops r) p)
      in if tick \<and> \<not> should_shutdown then merge_runtime_step (on_tick ops now_ns) p else p)"

definition progress_result :: "('t, 's) progress \<Rightarrow> flush_result result" where
  "progress_result p = (case pr_error p of Some e \<Rightarrow> Inl e | None \<Rightarrow> Inr (pr_agg p))"

definition progress_new :: "('t, 's) runtime \<Rightarrow> ('t, 's) progress" where
  "progress_new rt = \<lparr>pr_rt = rt, pr_agg = empty_result, pr_error = None, pr_replies = []\<rparr>"

definition process_batch ::
  "('t, 's) sink_ops \<Rightarrow> 't worker_batch \<Rightarrow> nat \<Rightarrow> ('t, 's) runtime \<Rightarrow>
   flush_result result \<times> ('t, 's) progress" where
  "process_batch ops b now_ns rt =
     (let p = process_tail ops (wb_reason b) (wb_tick b) (wb_shutdown b) now_ns
            (fold (process_entry ops) (wb_queue b) (progress_new rt))
      in (progress_result p, p))"

definition notify_waiters ::
  "nat list \<Rightarrow> nat list \<Rightarrow> flush_result result \<Rightarrow> (nat \<times> flush_result result) list" where
  "notify_waiters flush_waiters shutdown_waiters reply =
     map (\<lambda>tx. (tx, reply)) (flush_waiters @ shutdown_waiters)"

subsection \<open>The loop of the thread, with the producers\<close>

text \<open>
  One state of the whole background runtime. The thread is between batches (\<open>sy_batch\<close> is
  \<open>None\<close>) or draining one; producers act in between, at any entry. The failure tracker is shared:
  each step hands the current one to the side that acts.
\<close>

record ('t, 's) system =
  sy_bg :: "'t background"
  sy_schedule :: worker_schedule
  sy_write_failure :: "cap_error option"
  sy_progress :: "('t, 's) progress"
  sy_batch :: "'t worker_batch option"
  sy_replies :: "(nat \<times> flush_result result) list"
  sy_exited :: bool

definition sy_rt :: "('t, 's) system \<Rightarrow> ('t, 's) runtime" where
  "sy_rt sys = pr_rt (sy_progress sys)"

definition system_new ::
  "('t, 's) sink_ops \<Rightarrow> capture_config \<Rightarrow> 's \<Rightarrow> world \<Rightarrow> (nat \<Rightarrow> nat) \<Rightarrow> (nat \<Rightarrow> nat) \<Rightarrow> nat \<Rightarrow> ('t, 's) system" where
  "system_new ops config sink w wall clock now = \<lparr>
     sy_bg = background_new config wall clock,
     sy_schedule = schedule_new config (so_is_segment_mode ops sink) now,
     sy_write_failure = None,
     sy_progress = progress_new (runtime_new config sink w wall),
     sy_batch = None, sy_replies = [], sy_exited = False\<rparr>"

text \<open>A producer's operation, on the shared tracker.\<close>

definition producer :: "'t background \<Rightarrow> ('t, 's) system \<Rightarrow> ('t, 's) system" where
  "producer bg' sys = sys\<lparr>sy_bg := bg',
     sy_progress := (sy_progress sys)\<lparr>pr_rt := (sy_rt sys)\<lparr>rt_failures := bg_failures bg'\<rparr>\<rparr>\<rparr>"

text \<open>The thread's progress, with the tracker it leaves behind.\<close>

definition writer :: "('t, 's) progress \<Rightarrow> ('t, 's) system \<Rightarrow> ('t, 's) system" where
  "writer p sys = sys\<lparr>sy_progress := p, sy_bg := (sy_bg sys)\<lparr>bg_failures := rt_failures (pr_rt p)\<rparr>\<rparr>"

text \<open>The rest of the loop's body once the entries are drained: tail, latch, metrics, replies, exit.\<close>

definition finish_batch :: "('t, 's) sink_ops \<Rightarrow> nat \<Rightarrow> 't worker_batch \<Rightarrow> ('t, 's) system \<Rightarrow> ('t, 's) system" where
  "finish_batch ops now_ns b sys =
     (let p = process_tail ops (wb_reason b) (wb_tick b) (wb_shutdown b) now_ns (sy_progress sys);
          result = progress_result p;
          failure = (case sy_write_failure sys of
              Some e \<Rightarrow> Some e
            | None \<Rightarrow> (case result of Inl e \<Rightarrow> Some e | Inr _ \<Rightarrow> None));
          rt = rt_set_metrics (\<lambda>m. (if isl result then m\<lparr>write_errors := write_errors m + 1\<rparr> else m)
                 \<lparr>active_writers := so_active_writers ops (rt_sink (pr_rt p))\<rparr>) (pr_rt p);
          result = (case failure of
              Some e \<Rightarrow> if wb_shutdown b then Inl (CaptureWriteFailure e) else result
            | None \<Rightarrow> result);
          sys = writer (p\<lparr>pr_rt := rt\<rparr>) sys
      in sys\<lparr>sy_bg := (on_state (\<lambda>st. st\<lparr>qs_metrics := rt_metrics rt, qs_in_flight_items := 0,
               qs_in_flight_bytes := 0, qs_started_at := None\<rparr>) (sy_bg sys))
                 \<lparr>bg_worker := (if wb_shutdown b \<and> bg_worker (sy_bg sys) = Running then Finished
                               else bg_worker (sy_bg sys))\<rparr>,
             sy_write_failure := failure, sy_batch := None,
             sy_replies := sy_replies sys @ pr_replies p
               @ notify_waiters (wb_flush_waiters b) (wb_shutdown_waiters b) result,
             sy_exited := wb_shutdown b\<rparr>)"

text \<open>
  One step, labelled with the entries a producer handed over while the worker was accepting them
  and the entries the thread took from the queue.
\<close>

definition accepting :: "'t background \<Rightarrow> bool" where
  "accepting bg = (bg_worker bg = Running \<and> \<not> qs_shutdown (bg_state bg))"

inductive sys_step ::
  "('t, 's) sink_ops \<Rightarrow> ('t, 's) system \<Rightarrow> 't queue_entry list \<Rightarrow> 't queued_entry list \<Rightarrow>
   ('t, 's) system \<Rightarrow> bool"
  for ops :: "('t, 's) sink_ops" where
  sys_data: "submit_data item (sy_bg sys) = (r, bg') \<Longrightarrow>
    sys_step ops sys (if accepting (sy_bg sys) then [Data item] else []) [] (producer bg' sys)"
| sys_recovery: "submit_after_partition_seal item (sy_bg sys) = (r, bg') \<Longrightarrow>
    sys_step ops sys (if accepting (sy_bg sys) then [Recovery item] else []) [] (producer bg' sys)"
| sys_initialization: "bg_submit_initialization item (sy_bg sys) = (r, bg') \<Longrightarrow>
    sys_step ops sys (if accepting (sy_bg sys) then [Initialization item] else []) [] (producer bg' sys)"
| sys_seal: "enqueue_seal part reply (sy_bg sys) = (r, bg') \<Longrightarrow>
    sys_step ops sys [] [] (producer bg' sys)"
| sys_flush: "request_flush is_shutdown tx (sy_bg sys) = (r, bg') \<Longrightarrow>
    sys_step ops sys [] [] (producer bg' sys)"
| sys_joined: "sy_exited sys \<Longrightarrow> shutdown_joined now reply (sy_bg sys) = (r, bg') \<Longrightarrow>
    sys_step ops sys [] [] (producer bg' sys)"
| sys_drop: "sys_step ops sys [] [] (producer (drop_background (sy_bg sys)) sys)"
| sys_collect: "sy_batch sys = None \<Longrightarrow> \<not> sy_exited sys \<Longrightarrow>
    collect_worker_batch now (sy_schedule sys) (sy_bg sys) = (b, s', bg') \<Longrightarrow>
    sys_step ops sys [] (wb_queue b) (sys\<lparr>sy_bg := bg', sy_schedule := s', sy_batch := Some b,
      sy_progress := progress_new (sy_rt sys)\<rparr>)"
| sys_entry: "sy_batch sys = Some b \<Longrightarrow> wb_queue b = q # qs \<Longrightarrow>
    sys_step ops sys [] [] ((writer (process_entry ops q (sy_progress sys)) sys)
      \<lparr>sy_batch := Some (b\<lparr>wb_queue := qs\<rparr>)\<rparr>)"
| sys_finish: "sy_batch sys = Some b \<Longrightarrow> wb_queue b = [] \<Longrightarrow>
    sys_step ops sys [] [] (finish_batch ops now_ns b sys)"

text \<open>Runs: what was submitted and what was taken so far.\<close>

inductive sys_run ::
  "('t, 's) sink_ops \<Rightarrow> ('t, 's) system \<Rightarrow> 't queue_entry list \<Rightarrow> 't queued_entry list \<Rightarrow>
   ('t, 's) system \<Rightarrow> bool"
  for ops :: "('t, 's) sink_ops" and init :: "('t, 's) system" where
  run_init: "sys_run ops init [] [] init"
| run_step: "sys_run ops init sub col sys \<Longrightarrow> sys_step ops sys sub' col' sys' \<Longrightarrow>
    sys_run ops init (sub @ sub') (col @ col') sys'"

inductive_cases sys_stepE: "sys_step ops sys sub col sys'"

subsection \<open>Frame facts\<close>

lemma producer_simps [simp]:
  "sy_bg (producer bg' sys) = bg'" "rt_failures (sy_rt (producer bg' sys)) = bg_failures bg'"
  "rt_sink (sy_rt (producer bg' sys)) = rt_sink (sy_rt sys)"
  "rt_parts (sy_rt (producer bg' sys)) = rt_parts (sy_rt sys)"
  "rt_config (sy_rt (producer bg' sys)) = rt_config (sy_rt sys)"
  "rt_world (sy_rt (producer bg' sys)) = rt_world (sy_rt sys)"
  "sy_batch (producer bg' sys) = sy_batch sys" "sy_exited (producer bg' sys) = sy_exited sys"
  "sy_replies (producer bg' sys) = sy_replies sys"
  "sy_write_failure (producer bg' sys) = sy_write_failure sys"
  by (simp_all add: producer_def sy_rt_def)

lemma writer_simps [simp]:
  "sy_rt (writer p sys) = pr_rt p" "bg_failures (sy_bg (writer p sys)) = rt_failures (pr_rt p)"
  "bg_state (sy_bg (writer p sys)) = bg_state (sy_bg sys)"
  "bg_config (sy_bg (writer p sys)) = bg_config (sy_bg sys)"
  "bg_worker (sy_bg (writer p sys)) = bg_worker (sy_bg sys)"
  "sy_batch (writer p sys) = sy_batch sys" "sy_exited (writer p sys) = sy_exited sys"
  "sy_replies (writer p sys) = sy_replies sys"
  by (simp_all add: writer_def sy_rt_def)

lemma merge_runtime_step_rt [simp]: "pr_rt (merge_runtime_step f p) = snd (f (pr_rt p))"
  by (simp add: merge_runtime_step_def split_beta split: sum.splits)

lemma submit_queued_rt:
  "\<exists>f. pr_rt (submit_queued ops item p) = rt_set_metrics f (snd (submit ops item (pr_rt p)))"
proof (cases "fst (submit ops item (pr_rt p))")
  case (Inl e)
  then show ?thesis by (auto simp: submit_queued_def split_beta)
next
  case (Inr r)
  then show ?thesis
    by (intro exI [of _ "\<lambda>m. m"]) (simp add: submit_queued_def split_beta rt_set_metrics_def)
qed

lemma seal_queued_rt:
  "pr_rt (seal_queued ops part reply p) =
    snd (case part of Some key \<Rightarrow> seal_partition ops key (pr_rt p) | None \<Rightarrow> seal_all ops (pr_rt p))"
  by (simp add: seal_queued_def split_beta Let_def split: sum.splits)

lemma finish_rt:
  "\<exists>f. sy_rt (finish_batch ops now_ns b sys) = rt_set_metrics f (pr_rt (process_tail ops (wb_reason b)
      (wb_tick b) (wb_shutdown b) now_ns (sy_progress sys)))"
  by (auto simp: finish_batch_def Let_def sy_rt_def writer_def on_state_def)

lemma finish_simps [simp]:
  "bg_failures (sy_bg (finish_batch ops now_ns b sys)) = rt_failures (sy_rt (finish_batch ops now_ns b sys))"
  "qs_queue (bg_state (sy_bg (finish_batch ops now_ns b sys))) = qs_queue (bg_state (sy_bg sys))"
  "qs_pending (bg_state (sy_bg (finish_batch ops now_ns b sys))) = qs_pending (bg_state (sy_bg sys))"
  "qs_bytes (bg_state (sy_bg (finish_batch ops now_ns b sys))) = qs_bytes (bg_state (sy_bg sys))"
  "qs_gaps (bg_state (sy_bg (finish_batch ops now_ns b sys))) = qs_gaps (bg_state (sy_bg sys))"
  "qs_shutdown (bg_state (sy_bg (finish_batch ops now_ns b sys))) = qs_shutdown (bg_state (sy_bg sys))"
  "bg_config (sy_bg (finish_batch ops now_ns b sys)) = bg_config (sy_bg sys)"
  "sy_batch (finish_batch ops now_ns b sys) = None"
  "sy_exited (finish_batch ops now_ns b sys) = wb_shutdown b"
  by (simp_all add: finish_batch_def Let_def sy_rt_def writer_def on_state_def)

end
