(* ===== verification/Delivery.thy ===== *)
theory Delivery
  imports Worker
begin

section \<open>From submission to the sink\<close>

text \<open>
  End-to-end facts on runs of the background runtime: where every submitted item is, what the
  failure history says when it is not there, and what a lost item leaves in the stream of entries
  the writer applies.
\<close>

definition item_payloads :: "string \<Rightarrow> 't queue_entry list \<Rightarrow> 't list" where
  "item_payloads k es = concat (map (\<lambda>e. case entry_item e of
     None \<Rightarrow> [] | Some x \<Rightarrow> if it_skey x = k then [it_payload x] else []) es)"

text \<open>Partitions that receive only plain data (initializations and recoveries go to book partitions).\<close>

definition only_data :: "string \<Rightarrow> 't queue_entry list \<Rightarrow> bool" where
  "only_data k es = (\<forall>e \<in> set es. \<forall>x. entry_item e = Some x \<longrightarrow> it_skey x = k \<longrightarrow> e = Data x)"

lemma item_payloads_simps [simp]:
  "item_payloads k [] = []" "item_payloads k (xs @ ys) = item_payloads k xs @ item_payloads k ys"
  "item_payloads k (e # es) = (case entry_item e of
     None \<Rightarrow> [] | Some x \<Rightarrow> if it_skey x = k then [it_payload x] else []) @ item_payloads k es"
  by (simp_all add: item_payloads_def)

lemma only_data_simps [simp]:
  "only_data k []" "only_data k (xs @ ys) = (only_data k xs \<and> only_data k ys)"
  by (auto simp: only_data_def)

lemma item_payloads_data:
  "item_payloads k (map qe_entry (filter is_data qs)) = item_payloads k (map qe_entry qs)"
  by (induction qs) (auto simp: is_data_def split: option.splits)

text \<open>Accounting restricted to the partitions of \<open>D\<close>.\<close>

definition accounted_on :: "(string \<Rightarrow> bool) \<Rightarrow> ('s \<Rightarrow> string \<Rightarrow> 't list) \<Rightarrow> (string \<Rightarrow> 't list) \<Rightarrow>
    ('t, 's) runtime \<Rightarrow> ('t, 's) runtime \<Rightarrow> bool" where
  "accounted_on D rows add rt rt' = (\<exists>es. rt_failures rt' = record_all es (rt_failures rt)
     \<and> (\<forall>k. D k \<longrightarrow> tells es k \<or> contents rows rt' k = contents rows rt k @ add k))"

lemma accounted_onI:
  "accounted rows add rt rt' \<Longrightarrow> accounted_on D rows add rt rt'"
  by (auto simp: accounted_def accounted_on_def)

lemma accounted_on_weaken:
  assumes "accounted_on D rows add rt rt'" "\<And>k. D' k \<Longrightarrow> D k \<and> add' k = add k"
  shows "accounted_on D' rows add' rt rt'"
  using assms unfolding accounted_on_def by metis

lemma accounted_on_trans:
  assumes "accounted_on D rows a rt1 rt2" "accounted_on D rows b rt2 rt3" "\<And>k. D k \<Longrightarrow> c k = a k @ b k"
  shows "accounted_on D rows c rt1 rt3"
proof -
  obtain es where es: "rt_failures rt2 = record_all es (rt_failures rt1)"
    "\<And>k. D k \<Longrightarrow> tells es k \<or> contents rows rt2 k = contents rows rt1 k @ a k"
    using assms(1) unfolding accounted_on_def by blast
  obtain es' where es': "rt_failures rt3 = record_all es' (rt_failures rt2)"
    "\<And>k. D k \<Longrightarrow> tells es' k \<or> contents rows rt3 k = contents rows rt2 k @ b k"
    using assms(2) unfolding accounted_on_def by blast
  have "tells (es @ es') k \<or> contents rows rt3 k = contents rows rt1 k @ c k" if "D k" for k
    using es(2) [OF that] es'(2) [OF that] assms(3) [OF that] by auto
  then show ?thesis unfolding accounted_on_def using es(1) es'(1)
    by (intro exI [of _ "es @ es'"]) simp
qed

lemma rt_timed_same_accounted: "accounted rows nothing rt (rt_timed g (rt_sink rt) rt)"
  by (rule accounted_same) (simp_all add: contents_def)

context capture_sink
begin

lemma submit_initialization_others:
  assumes "rt_ok ok rt"
  shows "accounted_on (\<lambda>k. k \<noteq> it_skey item) rows nothing rt (snd (submit_initialization ops item rt))
    \<and> rt_ok ok (snd (submit_initialization ops item rt))"
proof -
  obtain r s where w: "so_write_initialization ops (it_skey item) (it_payload item) (rt_sink rt) = (r, s)"
    by fastforce
  have s0: "ok (rt_sink rt)" using assms by (simp add: rt_ok_def)
  have oks: "ok s" using ok_init [OF s0, of "it_skey item" "it_payload item"] w by simp
  note other = init_other [OF s0 w]
  show ?thesis
  proof (cases r)
    case (Inl e)
    have "safe_step rt (rt_record_failure (Some (it_skey item)) Write None (rt_timed in_write s rt))"
      using assms oks other by (intro sink_call_safe [where es = "[(Some (it_skey item), Write, None)]"]) auto
    from safe_trans [OF this break_safe] this Inl w show ?thesis
      by (auto simp: submit_initialization_def Let_def split_beta intro: accounted_onI)
  next
    case (Inr res)
    let ?rt' = "snd (submit_initialization ops item rt)"
    have rt': "rt_sink ?rt' = s" "rt_parts ?rt' = rt_parts rt" "rt_failures ?rt' = rt_failures rt"
      using w Inr by (simp_all add: submit_initialization_def Let_def)
    have "accounted_on (\<lambda>k. k \<noteq> it_skey item) rows nothing rt ?rt'"
      unfolding accounted_on_def by (rule exI [of _ "[]"]) (simp add: rt' contents_def other)
    then show ?thesis using rt' oks assms by (simp add: rt_ok_def)
  qed
qed

text \<open>Every queue entry, applied: plain data is appended, nothing else changes silently.\<close>

lemma process_entry_accounted:
  assumes okay: "rt_ok ok (pr_rt p)"
  shows "accounted_on (\<lambda>k. only_data k [qe_entry q]) rows (\<lambda>k. item_payloads k [qe_entry q])
      (pr_rt p) (pr_rt (process_entry ops q p)) \<and> rt_ok ok (pr_rt (process_entry ops q p))"
proof -
  let ?rt0 = "rt_timed in_wait (rt_sink (pr_rt p)) (pr_rt p)"
  let ?p0 = "p\<lparr>pr_rt := ?rt0\<rparr>" and ?D = "\<lambda>k. only_data k [qe_entry q]"
  have start: "safe_step (pr_rt p) ?rt0" using okay rt_timed_same_accounted by (simp add: rt_ok_def)
  note cont = accounted_on_trans [OF accounted_onI [of rows nothing "pr_rt p" ?rt0]]
  show ?thesis
  proof (cases "qe_entry q")
    case (Gap key)
    have s: "safe_step ?rt0 (snd (break_continuity ops key ?rt0))" using start by (intro break_safe) simp
    from safe_trans [OF start this] show ?thesis
      using Gap by (auto simp: process_entry_def Let_def intro: accounted_on_weaken [OF accounted_onI])
  next
    case (Seal part reply)
    have s: "safe_step ?rt0 (snd (case part of Some key \<Rightarrow> seal_partition ops key ?rt0 | None \<Rightarrow> seal_all ops ?rt0))"
      using start seal_partition_safe [of ?rt0] seal_all_internal_safe [of ?rt0 "so_seal_all ops" flush_reason.Seal,
          OF _ seal_all_rows ok_seal_all]
      by (auto simp: seal_all_def split: option.splits)
    from safe_trans [OF start this] show ?thesis
      using Seal by (cases part) (auto simp: process_entry_def Let_def seal_queued_rt
          intro: accounted_on_weaken [OF accounted_onI])
  next
    case (Data item)
    obtain f where f: "pr_rt (submit_queued ops item ?p0) = rt_set_metrics f (snd (submit ops item ?rt0))"
      using submit_queued_rt [of ops item ?p0] by auto
    have s: "accounted rows (adds item) ?rt0 (snd (submit ops item ?rt0)) \<and> rt_ok ok (snd (submit ops item ?rt0))"
      using start by (intro submit_accounted) simp
    have "accounted rows (adds item) (pr_rt p) (snd (submit ops item ?rt0))"
      using start s by (auto intro: accounted_trans [where a = nothing])
    then have "accounted rows (adds item) (pr_rt p) (rt_set_metrics f (snd (submit ops item ?rt0)))"
      by (auto intro: accounted_trans [OF _ accounted_metrics(1)])
    then show ?thesis using s Data f
      by (auto simp: process_entry_def Let_def intro: accounted_on_weaken [OF accounted_onI])
  next
    case (Initialization item)
    have s: "accounted_on (\<lambda>k. k \<noteq> it_skey item) rows nothing ?rt0 (snd (submit_initialization ops item ?rt0))
        \<and> rt_ok ok (snd (submit_initialization ops item ?rt0))"
      using start by (intro submit_initialization_others) simp
    have "accounted_on (\<lambda>k. k \<noteq> it_skey item) rows nothing (pr_rt p) (snd (submit_initialization ops item ?rt0))"
      using start s by (auto intro: accounted_on_trans [OF accounted_onI])
    then show ?thesis using s Initialization
      by (auto simp: process_entry_def Let_def only_data_def intro: accounted_on_weaken)
  next
    case (Recovery item)
    let ?rt1 = "snd (seal_partition ops (it_skey item) ?rt0)"
    have one: "safe_step ?rt0 ?rt1" using start by (intro seal_partition_safe) simp
    have s: "accounted_on (\<lambda>k. k \<noteq> it_skey item) rows nothing ?rt1 (snd (submit_initialization ops item ?rt1))
        \<and> rt_ok ok (snd (submit_initialization ops item ?rt1))"
      using one by (intro submit_initialization_others) simp
    have "accounted_on (\<lambda>k. k \<noteq> it_skey item) rows nothing (pr_rt p) (snd (submit_initialization ops item ?rt1))"
      using safe_trans [OF start one] s by (auto intro: accounted_on_trans [OF accounted_onI])
    then show ?thesis using s Recovery
      by (auto simp: process_entry_def Let_def only_data_def intro: accounted_on_weaken)
  qed
qed

lemma process_tail_safe:
  assumes okay: "rt_ok ok (pr_rt p)"
  shows "safe_step (pr_rt p) (pr_rt (process_tail ops reason tick sd now_ns p))"
proof -
  define p1 where "p1 = (if sd \<and> so_is_segment_mode ops (rt_sink (pr_rt p))
      then merge_runtime_step (seal_all_for_shutdown ops) p
      else case reason of None \<Rightarrow> p | Some r \<Rightarrow> merge_runtime_step (flush_all_with_reason ops r) p)"
  have one: "safe_step (pr_rt p) (pr_rt p1)"
    using okay flush_all_safe [OF okay] accounted_refl
      seal_all_internal_safe [OF okay, of "so_seal_all_for_shutdown ops" Shutdown, OF shutdown_rows ok_shutdown]
    by (auto simp: p1_def seal_all_for_shutdown_def split: option.splits)
  have "safe_step (pr_rt p1) (snd (on_tick ops now_ns (pr_rt p1)))"
    using one by (intro tick_safe) simp
  from safe_trans [OF one this] one show ?thesis
    by (simp add: process_tail_def Let_def p1_def [symmetric])
qed

end

subsection \<open>The ledger of a run\<close>

text \<open>
  Everything submitted so far is the history of the entries already taken and of those still in
  the queue; both parts are covered by the entries taken and by the queue.
\<close>

definition ledger :: "'t history \<Rightarrow> 't history \<Rightarrow> 't queue_entry list \<Rightarrow> 't queued_entry list \<Rightarrow>
    't background \<Rightarrow> bool" where
  "ledger old h sub col bg = (sub = map fst (old @ h) \<and> q_cover h bg
     \<and> kept_entries old = map qe_entry (filter is_data col)
     \<and> covers (history_marks old) (queue_marks col))"

definition lost_events :: "'t history \<Rightarrow> failure_event multiset" where
  "lost_events h = image_mset lost_event (mset (lost_entries h))"

lemma lost_events_append [simp]: "lost_events (h @ h') = lost_events h + lost_events h'"
  by (simp add: lost_events_def)

text \<open>Producer steps: the newly lost entries are exactly the failures recorded.\<close>

lemma submit_ledger:
  assumes l: "ledger old h sub col bg" and e: "entry_item (entry item) = Some item"
    and s: "submit_entry entry item bg = (r, bg')"
  shows "\<exists>h' es. ledger old h' (sub @ (if accepting bg then [entry item] else [])) col bg'
    \<and> bg_failures bg' = record_all es (bg_failures bg) \<and> lost_events h' = lost_events h + mset es"
proof -
  have "q_cover h bg" using l by (simp add: ledger_def)
  from submit_entry_cover [OF this e s] obtain h' where h': "q_cover h' bg'" "q_progress h bg h' bg'"
    "map fst h' = map fst h @ (if accepting bg then [entry item] else [])"
    by (auto simp: accepting_def)
  from h'(2) obtain es where "bg_failures bg' = record_all es (bg_failures bg)"
    "lost_events h' = lost_events h + mset es"
    unfolding q_progress_def lost_events_def by blast
  moreover have "ledger old h' (sub @ (if accepting bg then [entry item] else [])) col bg'"
    using l h'(1,3) by (simp add: ledger_def)
  ultimately show ?thesis by blast
qed

lemma ledger_cong:
  "qs_queue (bg_state bg') = qs_queue (bg_state bg) \<Longrightarrow> qs_pending (bg_state bg') = qs_pending (bg_state bg) \<Longrightarrow>
   ledger old h sub col bg' = ledger old h sub col bg"
  by (simp add: ledger_def q_cover_def)

lemma control_ledger:
  assumes "ledger old h sub col bg"
    and "enqueue_seal part reply bg = (r, bg') \<or> request_flush is_shutdown tx bg = (r, bg')
      \<or> snd (shutdown_joined now result bg) = bg' \<or> bg' = drop_background bg"
  shows "ledger old h sub col bg' \<and> bg_failures bg' = bg_failures bg"
  using assms(2)
proof (elim disjE)
  assume "enqueue_seal part reply bg = (r, bg')"
  then show ?thesis using assms(1) push_seal_cover [of h bg part reply]
    by (auto simp: enqueue_seal_def ledger_def split: if_splits)
next
  assume f: "request_flush is_shutdown tx bg = (r, bg')"
  then have "qs_queue (bg_state bg') = qs_queue (bg_state bg)" "qs_pending (bg_state bg') = qs_pending (bg_state bg)"
    "bg_failures bg' = bg_failures bg"
    by (auto simp: request_flush_def split: if_splits)
  with assms(1) show ?thesis by (simp add: ledger_cong [of bg' bg])
next
  assume "snd (shutdown_joined now result bg) = bg'"
  then have "bg_state bg' = bg_state bg" "bg_failures bg' = bg_failures bg"
    by (auto simp: shutdown_joined_def Let_def split: if_splits sum.splits)
  with assms(1) show ?thesis by (simp add: ledger_cong [of bg' bg])
next
  assume "bg' = drop_background bg"
  then have "qs_queue (bg_state bg') = qs_queue (bg_state bg)" "qs_pending (bg_state bg') = qs_pending (bg_state bg)"
    "bg_failures bg' = bg_failures bg"
    by (auto simp: drop_background_def split: if_splits)
  with assms(1) show ?thesis by (simp add: ledger_cong [of bg' bg])
qed

lemma collect_simps:
  assumes "collect_worker_batch now s bg = (b, s', bg')"
  shows "wb_queue b = qs_queue (bg_state bg)" "qs_queue (bg_state bg') = []" "qs_pending (bg_state bg') = {}"
    "qs_bytes (bg_state bg') = 0" "qs_gaps (bg_state bg') = 0"
    "bg_failures bg' = bg_failures bg" "bg_config bg' = bg_config bg" "bg_worker bg' = bg_worker bg"
    "wb_shutdown b = qs_shutdown (bg_state bg)" "qs_shutdown (bg_state bg') = qs_shutdown (bg_state bg)"
    "wb_shutdown b \<Longrightarrow> wb_reason b = Some Shutdown"
  using assms by (auto simp: collect_worker_batch_def Let_def split_beta)

lemma collect_ledger:
  assumes "ledger old h sub col bg" "collect_worker_batch now s bg = (b, s', bg')"
  shows "ledger (old @ h) [] sub (col @ wb_queue b) bg'"
  using assms(1) collect_simps [OF assms(2)] covers_append
  by (auto simp: ledger_def q_cover_def)

text \<open>One step of the system, on the ledger.\<close>

lemma step_ledger:
  assumes "sys_step ops sys sub' col' sys'" and "ledger old h sub col (sy_bg sys)"
  shows "\<exists>old' h'. ledger old' h' (sub @ sub') (col @ col') (sy_bg sys')"
  using assms
proof cases
  case (sys_data item r bg')
  then have "submit_entry Data item (sy_bg sys) = (r, bg')" by (simp add: submit_data_def)
  from submit_ledger [OF assms(2) _ this] obtain h' where
    "ledger old h' (sub @ (if accepting (sy_bg sys) then [Data item] else [])) col bg'" by auto
  with sys_data show ?thesis by (intro exI [of _ old] exI [of _ h']) simp
next
  case (sys_recovery item r bg')
  then have "submit_entry Recovery item (sy_bg sys) = (r, bg')" by (simp add: submit_after_partition_seal_def)
  from submit_ledger [OF assms(2) _ this] obtain h' where
    "ledger old h' (sub @ (if accepting (sy_bg sys) then [Recovery item] else [])) col bg'" by auto
  with sys_recovery show ?thesis by (intro exI [of _ old] exI [of _ h']) simp
next
  case (sys_initialization item r bg')
  then have "submit_entry Initialization item (sy_bg sys) = (r, bg')" by (simp add: bg_submit_initialization_def)
  from submit_ledger [OF assms(2) _ this] obtain h' where
    "ledger old h' (sub @ (if accepting (sy_bg sys) then [Initialization item] else [])) col bg'" by auto
  with sys_initialization show ?thesis by (intro exI [of _ old] exI [of _ h']) simp
next
  case (sys_seal part reply r bg')
  with control_ledger [OF assms(2), of part reply r bg'] show ?thesis by auto
next
  case (sys_flush is_shutdown tx r bg')
  with control_ledger [OF assms(2), where bg' = bg' and r = r and is_shutdown = is_shutdown and tx = tx]
  show ?thesis by auto
next
  case (sys_joined now reply r bg')
  with control_ledger [OF assms(2), where bg' = bg' and now = now and result = reply] show ?thesis by auto
next
  case sys_drop
  with control_ledger [OF assms(2), where bg' = "drop_background (sy_bg sys)"] show ?thesis by auto
next
  case (sys_collect now b s' bg')
  from collect_ledger [OF assms(2) this(6)] this show ?thesis
    by (intro exI [of _ "old @ h"] exI [of _ "[]"]) simp
next
  case (sys_entry b q qs)
  then show ?thesis using assms(2) by (auto simp: ledger_def q_cover_def)
next
  case (sys_finish b now_ns)
  then show ?thesis using assms(2) by (auto simp: ledger_def q_cover_def)
qed

lemma run_ledger:
  "sys_run ops init sub col sys \<Longrightarrow> ledger [] [] [] [] (sy_bg init) \<Longrightarrow>
    \<exists>old h. ledger old h sub col (sy_bg sys)"
proof (induction rule: sys_run.induct)
  case run_init
  then show ?case by blast
next
  case (run_step sub col sys sub' col' sys')
  then obtain old h where "ledger old h sub col (sy_bg sys)" by blast
  from step_ledger [OF run_step.hyps(2) this] show ?case .
qed

lemma system_new_ledger: "ledger [] [] [] [] (sy_bg (system_new ops config sink w wall clock now))"
  by (simp add: ledger_def q_cover_def system_new_def background_new_def queue_default_def)

subsection \<open>Every submitted item is somewhere, or its loss is on record\<close>

definition inflight :: "('t, 's) system \<Rightarrow> 't queued_entry list" where
  "inflight sys = (case sy_batch sys of None \<Rightarrow> [] | Some b \<Rightarrow> wb_queue b)"

definition delivery_inv :: "('s \<Rightarrow> string \<Rightarrow> 't list) \<Rightarrow> ('s \<Rightarrow> bool) \<Rightarrow> failure_tracker \<Rightarrow> 's \<Rightarrow>
    't queue_entry list \<Rightarrow> 't queued_entry list \<Rightarrow> ('t, 's) system \<Rightarrow>
    't history \<Rightarrow> 't history \<Rightarrow> failure_event list \<Rightarrow> bool" where
  "delivery_inv rows ok tr0 s0 sub col sys old h es = (ledger old h sub col (sy_bg sys)
     \<and> bg_failures (sy_bg sys) = rt_failures (sy_rt sys)
     \<and> rt_failures (sy_rt sys) = record_all es tr0
     \<and> set_mset (lost_events (old @ h)) \<subseteq> set es
     \<and> rt_ok ok (sy_rt sys) \<and> set (inflight sys) \<subseteq> set col
     \<and> (\<forall>k. only_data k sub \<longrightarrow> tells es k
          \<or> contents rows (sy_rt sys) k @ item_payloads k (map qe_entry (inflight sys))
            = rows s0 k @ item_payloads k (map qe_entry col)))"

lemma contents_producer [simp]: "contents rows (sy_rt (producer bg' sys)) = contents rows (sy_rt sys)"
  by (simp add: contents_def fun_eq_iff)

lemma rt_ok_producer [simp]: "rt_ok ok (sy_rt (producer bg' sys)) = rt_ok ok (sy_rt sys)"
  by (simp add: rt_ok_def)

lemma inflight_producer [simp]: "inflight (producer bg' sys) = inflight sys"
  by (simp add: inflight_def)

lemma producer_delivery:
  assumes inv: "delivery_inv rows ok tr0 s0 sub col sys old h es"
    and l: "ledger old h' (sub @ sub') col bg'"
    and f: "bg_failures bg' = record_all es' (bg_failures (sy_bg sys))"
    and lost: "lost_events h' = lost_events h + mset es'"
  shows "delivery_inv rows ok tr0 s0 (sub @ sub') col (producer bg' sys) old h' (es @ es')"
  using assms by (auto simp: delivery_inv_def)

text \<open>What an operation of the thread does, on the part of the ledger it can see.\<close>

lemma only_data_taken:
  assumes "ledger old h sub col bg" "only_data k sub" "q \<in> set col"
  shows "only_data k [qe_entry q]"
proof -
  have "x \<in> set (map fst old)" if "x \<in> set (kept_entries old)" for x
    using that by (auto simp: kept_entries_def)
  moreover have "qe_entry q \<in> set (kept_entries old)" if "entry_item (qe_entry q) \<noteq> None"
    using assms(1,3) that by (auto simp: ledger_def is_data_def)
  ultimately show ?thesis using assms(1,2) by (auto simp: only_data_def ledger_def)
qed

context capture_sink
begin

lemma writer_delivery:
  assumes inv: "delivery_inv rows ok tr0 s0 sub col sys old h es"
    and acc: "accounted_on (\<lambda>k. only_data k fin) rows (\<lambda>k. item_payloads k fin) (sy_rt sys) (sy_rt sys')"
    and okay: "rt_ok ok (sy_rt sys')"
    and infl: "map qe_entry (inflight sys) = fin @ map qe_entry (inflight sys')"
      "set (inflight sys') \<subseteq> set (inflight sys)"
    and led: "ledger old h sub col (sy_bg sys')" and fails: "bg_failures (sy_bg sys') = rt_failures (sy_rt sys')"
  shows "\<exists>es'. delivery_inv rows ok tr0 s0 sub col sys' old h es'"
proof -
  obtain es1 where es1: "rt_failures (sy_rt sys') = record_all es1 (rt_failures (sy_rt sys))"
    "\<And>k. only_data k fin \<Longrightarrow> tells es1 k
      \<or> contents rows (sy_rt sys') k = contents rows (sy_rt sys) k @ item_payloads k fin"
    using acc unfolding accounted_on_def by blast
  have data: "only_data k fin" if "only_data k sub" for k
  proof -
    have "only_data k [e]" if "e \<in> set fin" for e
    proof -
      have "e \<in> set (map qe_entry (inflight sys))" using that infl(1) by simp
      then obtain q where "q \<in> set (inflight sys)" "qe_entry q = e" by auto
      then show ?thesis using only_data_taken [of old h sub col "sy_bg sys" k q] inv \<open>only_data k sub\<close>
        by (auto simp: delivery_inv_def)
    qed
    then show ?thesis by (auto simp: only_data_def)
  qed
  have "tells (es @ es1) k \<or> contents rows (sy_rt sys') k @ item_payloads k (map qe_entry (inflight sys'))
      = rows s0 k @ item_payloads k (map qe_entry col)" if "only_data k sub" for k
  proof -
    have "tells es k \<or> contents rows (sy_rt sys) k @ item_payloads k fin
        @ item_payloads k (map qe_entry (inflight sys')) = rows s0 k @ item_payloads k (map qe_entry col)"
      using inv that infl(1) by (simp add: delivery_inv_def)
    with es1(2) [OF data [OF that]] show ?thesis by auto
  qed
  then have "delivery_inv rows ok tr0 s0 sub col sys' old h (es @ es1)"
    using inv led fails okay es1(1) infl(2) by (auto simp: delivery_inv_def)
  then show ?thesis by blast
qed

lemma step_delivery:
  assumes step: "sys_step ops sys sub' col' sys'" and inv: "delivery_inv rows ok tr0 s0 sub col sys old h es"
  shows "\<exists>old' h' es'. delivery_inv rows ok tr0 s0 (sub @ sub') (col @ col') sys' old' h' es'"
proof -
  have led: "ledger old h sub col (sy_bg sys)" using inv by (simp add: delivery_inv_def)
  have submit: ?thesis
    if "submit_entry c item (sy_bg sys) = (r, bg')" "entry_item (c item) = Some item"
      "sub' = (if accepting (sy_bg sys) then [c item] else [])" "col' = []" "sys' = producer bg' sys"
    for c item r bg'
  proof -
    from submit_ledger [OF led that(2,1)] that(3) obtain h' es1
      where "ledger old h' (sub @ sub') col bg'" "bg_failures bg' = record_all es1 (bg_failures (sy_bg sys))"
        "lost_events h' = lost_events h + mset es1" by auto
    from producer_delivery [OF inv this] that(4,5) show ?thesis by auto
  qed
  have control: ?thesis
    if "ledger old h sub col bg' \<and> bg_failures bg' = bg_failures (sy_bg sys)" "sub' = []" "col' = []"
      "sys' = producer bg' sys" for bg'
    using producer_delivery [OF inv, of h "[]" bg' "[]"] that by auto
  from step show ?thesis
  proof cases
    case (sys_data item r bg')
    then show ?thesis by (intro submit [of Data item r bg']) (auto simp: submit_data_def)
  next
    case (sys_recovery item r bg')
    then show ?thesis by (intro submit [of Recovery item r bg']) (auto simp: submit_after_partition_seal_def)
  next
    case (sys_initialization item r bg')
    then show ?thesis by (intro submit [of Initialization item r bg']) (auto simp: bg_submit_initialization_def)
  next
    case (sys_seal part reply r bg')
    with control_ledger [OF led, of part reply r bg'] show ?thesis by (intro control [of bg']) auto
  next
    case (sys_flush is_shutdown tx r bg')
    with control_ledger [OF led, where bg' = bg' and r = r and is_shutdown = is_shutdown and tx = tx]
    show ?thesis by (intro control [of bg']) auto
  next
    case (sys_joined now reply r bg')
    with control_ledger [OF led, where bg' = bg' and now = now and result = reply]
    show ?thesis by (intro control [of bg']) auto
  next
    case sys_drop
    with control_ledger [OF led, where bg' = "drop_background (sy_bg sys)"]
    show ?thesis by (intro control [of "drop_background (sy_bg sys)"]) auto
  next
    case (sys_collect now b s' bg')
    note c = collect_simps [OF sys_collect(6)]
    have q: "kept_entries h = map qe_entry (filter is_data (wb_queue b))"
      using led c(1) by (simp add: ledger_def q_cover_def)
    have rt: "sy_rt sys' = sy_rt sys" "inflight sys' = wb_queue b" "inflight sys = []" "sy_bg sys' = bg'"
      using sys_collect by (simp_all add: sy_rt_def progress_new_def inflight_def)
    have "delivery_inv rows ok tr0 s0 sub (col @ wb_queue b) sys' (old @ h) [] es"
      using inv collect_ledger [OF led sys_collect(6)] c(6) rt
      by (auto simp: delivery_inv_def lost_events_def)
    then show ?thesis using sys_collect by auto
  next
    case (sys_entry b q qs)
    have acc: "accounted_on (\<lambda>k. only_data k [qe_entry q]) rows (\<lambda>k. item_payloads k [qe_entry q])
        (sy_rt sys) (sy_rt sys') \<and> rt_ok ok (sy_rt sys')"
      using process_entry_accounted [of "sy_progress sys" q] inv sys_entry
      by (simp add: delivery_inv_def sy_rt_def writer_def)
    have "ledger old h sub col (sy_bg sys')" using led sys_entry by (simp add: ledger_def q_cover_def)
    then have "\<exists>es'. delivery_inv rows ok tr0 s0 sub col sys' old h es'"
      using acc sys_entry
      by (intro writer_delivery [OF inv, where fin = "[qe_entry q]"])
         (auto simp: inflight_def writer_def sy_rt_def)
    then show ?thesis using sys_entry by auto
  next
    case (sys_finish b now_ns)
    let ?p = "process_tail ops (wb_reason b) (wb_tick b) (wb_shutdown b) now_ns (sy_progress sys)"
    obtain f where f: "sy_rt sys' = rt_set_metrics f (pr_rt ?p)"
      using finish_rt [of ops now_ns b sys] sys_finish by auto
    have tail: "safe_step (sy_rt sys) (pr_rt ?p)"
      using process_tail_safe [of "sy_progress sys"] inv by (simp add: delivery_inv_def sy_rt_def)
    have acc: "accounted rows nothing (sy_rt sys) (sy_rt sys')" "rt_ok ok (sy_rt sys')"
      using tail unfolding f by (auto intro: accounted_trans [OF _ accounted_metrics(1)])
    have "ledger old h sub col (sy_bg sys')" using led sys_finish by (simp add: ledger_def q_cover_def)
    then have "\<exists>es'. delivery_inv rows ok tr0 s0 sub col sys' old h es'"
      using acc sys_finish
      by (intro writer_delivery [OF inv, where fin = "[]"])
         (simp_all add: inflight_def accounted_onI)
    then show ?thesis using sys_finish by auto
  qed
qed

lemma run_delivery:
  "sys_run ops init sub col sys \<Longrightarrow> \<exists>old h es. delivery_inv rows ok tr0 s0 [] [] init old h es \<Longrightarrow>
    \<exists>old h es. delivery_inv rows ok tr0 s0 sub col sys old h es"
proof (induction rule: sys_run.induct)
  case run_init
  then show ?case by blast
next
  case (run_step sub col sys sub' col' sys')
  then obtain old h es where "delivery_inv rows ok tr0 s0 sub col sys old h es" by blast
  from step_delivery [OF run_step.hyps(2) this] show ?case .
qed

text \<open>The final form: nothing is lost that is not on record.\<close>

lemma run_accounts:
  assumes run: "sys_run ops (system_new ops config s0 w wall clock now) sub col sys" and s0: "ok s0"
  shows "\<exists>es. rt_failures (sy_rt sys) = record_all es (tracker_new (cc_max_active_partitions config) wall)
    \<and> bg_failures (sy_bg sys) = rt_failures (sy_rt sys)
    \<and> (\<forall>k. only_data k sub \<longrightarrow> tells es k \<or>
        contents rows (sy_rt sys) k @ item_payloads k (map qe_entry (inflight sys))
          @ item_payloads k (map qe_entry (qs_queue (bg_state (sy_bg sys))))
        = rows s0 k @ item_payloads k sub)"
proof -
  let ?init = "system_new ops config s0 w wall clock now"
  have "delivery_inv rows ok (tracker_new (cc_max_active_partitions config) wall) s0 [] [] ?init [] [] []"
    using s0 system_new_ledger [of ops config s0 w wall clock now]
    by (simp add: delivery_inv_def system_new_def background_new_def sy_rt_def progress_new_def
        runtime_new_def rt_ok_def contents_def inflight_def lost_events_def)
  from run_delivery [OF run] this obtain old h es
    where inv: "delivery_inv rows ok (tracker_new (cc_max_active_partitions config) wall) s0 sub col sys old h es"
    by blast
  have l: "sub = map fst (old @ h)" "kept_entries old = map qe_entry (filter is_data col)"
    "kept_entries h = map qe_entry (filter is_data (qs_queue (bg_state (sy_bg sys))))"
    using inv by (auto simp: delivery_inv_def ledger_def q_cover_def)
  have kept: "item_payloads k (map fst g) = item_payloads k (kept_entries g)"
    if "\<not> tells es k" "set (lost_entries g) \<subseteq> set (lost_entries (old @ h))" for k g
    using that(2)
  proof (induction g)
    case Nil
    then show ?case by simp
  next
    case (Cons y g)
    obtain e b where y: "y = (e, b)" by fastforce
    have "b \<or> (\<forall>x. entry_item e = Some x \<longrightarrow> it_skey x \<noteq> k)"
    proof (rule disjCI)
      assume n: "\<not> (\<forall>x. entry_item e = Some x \<longrightarrow> it_skey x \<noteq> k)"
      show b
      proof (rule ccontr)
        assume "\<not> b"
        then have "lost_event e \<in># lost_events (old @ h)" using Cons.prems y by (auto simp: lost_events_def)
        then have "lost_event e \<in> set es" using inv by (auto simp: delivery_inv_def simp del: lost_events_append)
        moreover have "fst (lost_event e) = Some k" using n by (auto simp: lost_event_def)
        ultimately show False using that(1) by (auto simp: tells_def)
      qed
    qed
    then show ?case using Cons y by (auto split: option.splits if_splits)
  qed
  have "contents rows (sy_rt sys) k @ item_payloads k (map qe_entry (inflight sys))
      @ item_payloads k (map qe_entry (qs_queue (bg_state (sy_bg sys)))) = rows s0 k @ item_payloads k sub"
    if "only_data k sub" "\<not> tells es k" for k
  proof -
    have "contents rows (sy_rt sys) k @ item_payloads k (map qe_entry (inflight sys))
        = rows s0 k @ item_payloads k (map qe_entry col)"
      using inv that by (auto simp: delivery_inv_def)
    moreover have "item_payloads k (map qe_entry col) = item_payloads k (map fst old)"
      using kept [OF that(2), of old] l(2) by (simp add: item_payloads_data)
    moreover have "item_payloads k (map qe_entry (qs_queue (bg_state (sy_bg sys)))) = item_payloads k (map fst h)"
      using kept [OF that(2), of h] l(3) by (simp add: item_payloads_data)
    ultimately show ?thesis using l(1) by simp
  qed
  with inv show ?thesis unfolding delivery_inv_def by blast
qed

end

end
