(* ===== verification/Shutdown.thy ===== *)
theory Shutdown
  imports Delivery
begin

section \<open>Bounds, shutdown and replies of the background runtime\<close>

text \<open>
  Invariants of whole runs: the queue stays within its bounds with exact counters, shutdown
  drains everything and always comes, and a write failure is never followed by a clean final
  reply. The properties of the background runtime close the theory.
\<close>

subsection \<open>The environment of the runtime does not change\<close>

lemma flush_oldest_world: "rt_world (snd (flush_oldest_partition ops rt)) = rt_world rt"
  by (rule flush_oldest_config)

lemma budget_loop_world: "rt_world (snd (budget_loop ops res rt)) = rt_world rt"
proof (induction "total_pending_bytes rt" arbitrary: res rt rule: less_induct)
  case less
  obtain r rt' where f: "flush_oldest_partition ops rt = (r, rt')" by fastforce
  have w: "rt_world rt' = rt_world rt" using flush_oldest_world [of ops rt] f by simp
  show ?case
  proof (cases "\<exists>x. r = Inr x \<and> total_pending_bytes rt' < total_pending_bytes rt")
    case True
    then obtain x where x: "r = Inr x" "total_pending_bytes rt' < total_pending_bytes rt" by blast
    show ?thesis using less [OF x(2)] f x w by (simp add: budget_loop.simps [of ops res rt])
  next
    case False
    then show ?thesis using f w by (cases r) (simp_all add: budget_loop.simps [of ops res rt])
  qed
qed

lemma submit_room_world: "rt_world (snd (submit_room ops item res rt)) = rt_world rt"
proof -
  obtain reason rt1 where p: "push_item item rt = (reason, rt1)" by fastforce
  have w1: "rt_world rt1 = rt_world rt" using push_item_simps(2) [of item rt] p by simp
  show ?thesis
  proof (cases reason)
    case None
    obtain r2 rt2 where b: "budget_loop ops res rt1 = (r2, rt2)" by fastforce
    then show ?thesis using w1 p None budget_loop_world [of ops res rt1]
      by (cases r2) (simp_all add: submit_room_def)
  next
    case (Some a)
    obtain q rt' where q: "flush_partition_with_reason ops (it_skey item) a rt1 = (q, rt')" by fastforce
    have w2: "rt_world rt' = rt_world rt" using flush_config(2) [of ops "it_skey item" a rt1] q w1 by simp
    show ?thesis
    proof (cases q)
      case (Inl e)
      then show ?thesis using p Some q w2 by (simp add: submit_room_def)
    next
      case (Inr x)
      obtain r2 rt2 where b: "budget_loop ops (merge_flush_results res x) rt' = (r2, rt2)" by fastforce
      then show ?thesis using p Some q w2 Inr budget_loop_world [of ops "merge_flush_results res x" rt']
        by (cases r2) (simp_all add: submit_room_def)
    qed
  qed
qed

lemma submit_world: "rt_world (snd (submit ops item rt)) = rt_world rt"
proof -
  obtain r rt1 where f: "flush_oldest_partition ops rt = (r, rt1)" by fastforce
  then show ?thesis using flush_oldest_world [of ops rt]
    by (cases r) (simp_all add: submit_def Let_def submit_room_world)
qed

lemma break_world: "rt_world (snd (break_continuity ops key rt)) = rt_world rt"
  by (simp add: break_continuity_def split_beta Let_def flush_partition_def flush_all_def
      flush_config flush_all_config split: option.splits sum.splits)

lemma submit_initialization_world: "rt_world (snd (submit_initialization ops item rt)) = rt_world rt"
  by (simp add: submit_initialization_def split_beta Let_def break_world split: sum.splits)

lemma seal_partition_world: "rt_world (snd (seal_partition ops key rt)) = rt_world rt"
  by (simp add: seal_partition_def split_beta Let_def flush_config split: sum.splits)

lemma seal_all_internal_world: "rt_world (snd (seal_all_internal ops reason f rt)) = rt_world rt"
  by (simp add: seal_all_internal_def split_beta Let_def flush_all_config split: sum.splits)

lemma on_tick_world: "rt_world (snd (on_tick ops now rt)) = rt_world rt"
  by (simp add: on_tick_def split_beta Let_def break_world split: sum.splits)

lemma seal_queued_world: "rt_world (pr_rt (seal_queued ops part reply p)) = rt_world (pr_rt p)"
  by (cases part) (simp_all add: seal_queued_rt seal_partition_world seal_all_def seal_all_internal_world)

lemma process_entry_world: "rt_world (pr_rt (process_entry ops q p)) = rt_world (pr_rt p)"
proof (cases "qe_entry q")
  case (Data item)
  obtain f where f: "pr_rt (submit_queued ops item
      (p\<lparr>pr_rt := rt_timed in_wait (rt_sink (pr_rt p)) (pr_rt p)\<rparr>))
    = rt_set_metrics f (snd (submit ops item (rt_timed in_wait (rt_sink (pr_rt p)) (pr_rt p))))"
    using submit_queued_rt [of ops item "p\<lparr>pr_rt := rt_timed in_wait (rt_sink (pr_rt p)) (pr_rt p)\<rparr>"] by auto
  then show ?thesis using Data by (simp add: process_entry_def Let_def submit_world)
qed (simp_all add: process_entry_def Let_def break_world seal_partition_world
      submit_initialization_world seal_queued_world)

lemma process_tail_world: "rt_world (pr_rt (process_tail ops reason tick sd now_ns p)) = rt_world (pr_rt p)"
  by (simp add: process_tail_def Let_def on_tick_world seal_all_for_shutdown_def seal_all_internal_world
      flush_all_config split: option.splits)

text \<open>The tail of a shutdown batch empties every buffer.\<close>

lemma process_tail_drains:
  assumes "\<And>i. perm_order (w_order (rt_world (pr_rt p)) i)"
  shows "rt_parts (pr_rt (process_tail ops (Some Shutdown) tick True now_ns p)) = []"
  using flush_all_parts [OF assms, of ops Shutdown]
  by (simp add: process_tail_def Let_def seal_all_for_shutdown_def seal_all_internal_def split_beta
      split: sum.splits)

subsection \<open>Shutdown\<close>

definition shutdown_inv :: "('t, 's) system \<Rightarrow> bool" where
  "shutdown_inv sys = ((\<forall>i. perm_order (w_order (rt_world (sy_rt sys)) i))
     \<and> (\<forall>b. sy_batch sys = Some b \<longrightarrow> \<not> sy_exited sys
          \<and> (wb_shutdown b \<longrightarrow> qs_shutdown (bg_state (sy_bg sys))
               \<and> qs_queue (bg_state (sy_bg sys)) = [] \<and> wb_reason b = Some Shutdown))
     \<and> (sy_exited sys \<longrightarrow> qs_shutdown (bg_state (sy_bg sys))
          \<and> qs_queue (bg_state (sy_bg sys)) = [] \<and> rt_parts (sy_rt sys) = []))"

lemma submit_entry_shutdown:
  assumes "submit_entry c item bg = (r, bg')" "entry_item (c item) = Some item"
  shows "qs_shutdown (bg_state bg') = qs_shutdown (bg_state bg)"
    "qs_shutdown (bg_state bg) \<Longrightarrow> qs_queue (bg_state bg') = qs_queue (bg_state bg)"
proof -
  show "qs_shutdown (bg_state bg) \<Longrightarrow> qs_queue (bg_state bg') = qs_queue (bg_state bg)"
    using assms(1) by (auto simp: submit_entry_def split: if_splits)
  have room: "qs_shutdown (bg_state (snd (make_room item bg))) = qs_shutdown (bg_state bg)"
  proof (induction item bg rule: make_room.induct)
    case (1 item bg)
    show ?case
    proof (cases "queue_full item bg \<and> cc_overflow_policy (bg_config bg) = DropOldest")
      case True
      then show ?thesis using 1
        by (cases "position is_data (qs_queue (bg_state bg))") (simp_all add: make_room.simps [of item bg])
    next
      case False
      then show ?thesis by (auto simp: make_room.simps [of item bg] split: overflow_policy.splits)
    qed
  qed
  obtain o' bg1 where m: "make_room item bg = (o', bg1)" by fastforce
  show "qs_shutdown (bg_state bg') = qs_shutdown (bg_state bg)"
    using assms(1) room m
    by (cases o') (auto simp: submit_entry_def Let_def admit_def split: if_splits)
qed

lemma producer_shutdown_inv:
  assumes "shutdown_inv sys"
    and "qs_shutdown (bg_state (sy_bg sys)) \<Longrightarrow> qs_shutdown (bg_state bg')
      \<and> qs_queue (bg_state bg') = qs_queue (bg_state (sy_bg sys))"
  shows "shutdown_inv (producer bg' sys)"
  using assms by (auto simp: shutdown_inv_def)

lemma step_shutdown_inv:
  assumes "sys_step ops sys sub' col' sys'" and inv: "shutdown_inv sys"
  shows "shutdown_inv sys'"
  using assms(1)
proof cases
  case (sys_data item r bg')
  then show ?thesis using producer_shutdown_inv [OF inv, of bg'] submit_entry_shutdown [of Data item "sy_bg sys" r bg']
    by (simp add: submit_data_def)
next
  case (sys_recovery item r bg')
  then show ?thesis using producer_shutdown_inv [OF inv, of bg'] submit_entry_shutdown [of Recovery item "sy_bg sys" r bg']
    by (simp add: submit_after_partition_seal_def)
next
  case (sys_initialization item r bg')
  then show ?thesis
    using producer_shutdown_inv [OF inv, of bg'] submit_entry_shutdown [of Initialization item "sy_bg sys" r bg']
    by (simp add: bg_submit_initialization_def)
next
  case (sys_seal part reply r bg')
  then show ?thesis using producer_shutdown_inv [OF inv, of bg']
    by (auto simp: enqueue_seal_def split: if_splits)
next
  case (sys_flush is_shutdown tx r bg')
  then show ?thesis using producer_shutdown_inv [OF inv, of bg']
    by (auto simp: request_flush_def split: if_splits)
next
  case (sys_joined now reply r bg')
  then show ?thesis using producer_shutdown_inv [OF inv, of bg']
    by (auto simp: shutdown_joined_def Let_def split: if_splits sum.splits)
next
  case sys_drop
  then show ?thesis using producer_shutdown_inv [OF inv, of "drop_background (sy_bg sys)"]
    by (auto simp: drop_background_def)
next
  case (sys_collect now b s' bg')
  note c = collect_simps [OF sys_collect(6)]
  show ?thesis using inv sys_collect c by (auto simp: shutdown_inv_def sy_rt_def progress_new_def)
next
  case (sys_entry b q qs)
  then show ?thesis using inv process_entry_world [of ops q "sy_progress sys"]
    by (auto simp: shutdown_inv_def sy_rt_def writer_def)
next
  case (sys_finish b now_ns)
  let ?p = "process_tail ops (wb_reason b) (wb_tick b) (wb_shutdown b) now_ns (sy_progress sys)"
  obtain f where f: "sy_rt sys' = rt_set_metrics f (pr_rt ?p)"
    using finish_rt [of ops now_ns b sys] sys_finish by auto
  have perm: "\<And>i. perm_order (w_order (rt_world (pr_rt (sy_progress sys))) i)"
    using inv by (simp add: shutdown_inv_def sy_rt_def)
  have w: "rt_world (sy_rt sys') = rt_world (pr_rt (sy_progress sys))" by (simp add: f process_tail_world)
  have "rt_parts (sy_rt sys') = []" if "wb_shutdown b"
  proof -
    have "wb_reason b = Some Shutdown" using that inv sys_finish(4) by (simp add: shutdown_inv_def)
    then show ?thesis unfolding f using that process_tail_drains [OF perm, of ops "wb_tick b" now_ns] by simp
  qed
  with inv sys_finish perm w show ?thesis by (auto simp: shutdown_inv_def)
qed

lemma run_shutdown_inv:
  "sys_run ops init sub col sys \<Longrightarrow> shutdown_inv init \<Longrightarrow> shutdown_inv sys"
  by (induction rule: sys_run.induct) (auto intro: step_shutdown_inv)

lemma system_new_shutdown_inv:
  "(\<And>i. perm_order (w_order w i)) \<Longrightarrow> shutdown_inv (system_new ops config sink w wall clock now)"
  by (simp add: shutdown_inv_def system_new_def sy_rt_def progress_new_def runtime_new_def)

subsection \<open>The thread on its own\<close>

text \<open>One turn of the thread: the only step it can make in its state, if it has not exited.\<close>

definition worker_turn :: "('t, 's) sink_ops \<Rightarrow> nat \<Rightarrow> ('t, 's) system \<Rightarrow> ('t, 's) system" where
  "worker_turn ops now sys =
     (if sy_exited sys then sys
      else case sy_batch sys of
          None \<Rightarrow>
            (let (b, s', bg') = collect_worker_batch now (sy_schedule sys) (sy_bg sys)
             in sys\<lparr>sy_bg := bg', sy_schedule := s', sy_batch := Some b,
                  sy_progress := progress_new (sy_rt sys)\<rparr>)
        | Some b \<Rightarrow>
            (case wb_queue b of
               [] \<Rightarrow> finish_batch ops now b sys
             | q # qs \<Rightarrow> (writer (process_entry ops q (sy_progress sys)) sys)
                 \<lparr>sy_batch := Some (b\<lparr>wb_queue := qs\<rparr>)\<rparr>))"

lemma worker_turn_step:
  assumes "\<not> sy_exited sys"
  shows "\<exists>col. sys_step ops sys [] col (worker_turn ops now sys)"
proof (cases "sy_batch sys")
  case None
  obtain b s' bg' where c: "collect_worker_batch now (sy_schedule sys) (sy_bg sys) = (b, s', bg')"
    by (metis prod_cases3)
  from sys_collect [OF None assms c, of ops] show ?thesis
    using assms None c by (auto simp: worker_turn_def)
next
  case (Some b)
  then show ?thesis using assms sys_entry [OF Some, of _ _ ops] sys_finish [OF Some, of ops now]
    by (cases "wb_queue b") (auto simp: worker_turn_def)
qed

lemma worker_turn_exited [simp]: "sy_exited sys \<Longrightarrow> worker_turn ops now sys = sys"
  by (simp add: worker_turn_def)

lemma worker_turns_exited [simp]: "sy_exited sys \<Longrightarrow> (worker_turn ops now ^^ n) sys = sys"
  by (induction n) simp_all

lemma worker_turns_mono:
  assumes "sy_exited ((worker_turn ops now ^^ n) sys)" "n \<le> m"
  shows "sy_exited ((worker_turn ops now ^^ m) sys)"
proof -
  obtain k where "m = k + n" using assms(2) by (metis le_add_diff_inverse2)
  then show ?thesis using assms(1) by (simp add: funpow_add)
qed

lemma worker_turns_drain:
  assumes "sy_batch sys = Some b" "\<not> sy_exited sys"
  shows "sy_batch ((worker_turn ops now ^^ length (wb_queue b)) sys) = Some (b\<lparr>wb_queue := []\<rparr>)
    \<and> sy_progress ((worker_turn ops now ^^ length (wb_queue b)) sys)
      = fold (process_entry ops) (wb_queue b) (sy_progress sys)
    \<and> \<not> sy_exited ((worker_turn ops now ^^ length (wb_queue b)) sys)
    \<and> bg_state (sy_bg ((worker_turn ops now ^^ length (wb_queue b)) sys)) = bg_state (sy_bg sys)
    \<and> sy_write_failure ((worker_turn ops now ^^ length (wb_queue b)) sys) = sy_write_failure sys
    \<and> sy_replies ((worker_turn ops now ^^ length (wb_queue b)) sys) = sy_replies sys"
  using assms
proof (induction "wb_queue b" arbitrary: b sys)
  case Nil
  then show ?case by (cases b) simp
next
  case (Cons q qs)
  let ?sys1 = "worker_turn ops now sys" and ?b1 = "b\<lparr>wb_queue := qs\<rparr>"
  have t: "?sys1 = (writer (process_entry ops q (sy_progress sys)) sys)\<lparr>sy_batch := Some ?b1\<rparr>"
    using Cons.prems Cons.hyps(2) by (simp add: worker_turn_def flip: Cons.hyps(2))
  have n: "length (wb_queue b) = Suc (length (wb_queue ?b1))" using Cons.hyps(2) by (simp flip: Cons.hyps(2))
  have "sy_batch ?sys1 = Some ?b1" "\<not> sy_exited ?sys1" "bg_state (sy_bg ?sys1) = bg_state (sy_bg sys)"
    "sy_progress ?sys1 = process_entry ops q (sy_progress sys)"
    "sy_write_failure ?sys1 = sy_write_failure sys" "sy_replies ?sys1 = sy_replies sys"
    using Cons.prems by (simp_all add: t writer_def)
  with Cons.hyps(1) [of ?b1 ?sys1] show ?case
    unfolding n funpow_Suc_right by (simp flip: Cons.hyps(2))
qed

lemma worker_turns_finish:
  assumes "sy_batch sys = Some b" "\<not> sy_exited sys"
  shows "(worker_turn ops now ^^ Suc (length (wb_queue b))) sys
    = finish_batch ops now (b\<lparr>wb_queue := []\<rparr>) ((worker_turn ops now ^^ length (wb_queue b)) sys)"
  using worker_turns_drain [OF assms, of ops now]
  by (simp add: worker_turn_def)

lemma worker_reaches_exit:
  assumes sd: "qs_shutdown (bg_state (sy_bg sys))"
  shows "sy_exited ((worker_turn ops now ^^ (length (inflight sys)
    + length (qs_queue (bg_state (sy_bg sys))) + 3)) sys)"
proof -
  have idle: "sy_exited ((worker_turn ops now ^^ (length (qs_queue (bg_state (sy_bg s))) + 2)) s)"
    if none: "sy_batch s = None" and sd: "qs_shutdown (bg_state (sy_bg s))" for s :: "('a, 'b) system"
  proof (cases "sy_exited s")
    case True
    then show ?thesis by simp
  next
    case False
    obtain b s' bg' where c: "collect_worker_batch now (sy_schedule s) (sy_bg s) = (b, s', bg')"
      by (metis prod_cases3)
    note cs = collect_simps [OF c]
    let ?s1 = "worker_turn ops now s"
    have s1: "sy_batch ?s1 = Some b" "\<not> sy_exited ?s1"
      using False none c by (simp_all add: worker_turn_def)
    from worker_turns_finish [OF s1, of ops now] cs(9) sd
    have "sy_exited ((worker_turn ops now ^^ Suc (length (wb_queue b))) ?s1)" by simp
    moreover have "length (qs_queue (bg_state (sy_bg s))) + 2 = Suc (Suc (length (wb_queue b)))"
      using cs(1) by simp
    ultimately show ?thesis by (simp only: funpow_Suc_right comp_apply)
  qed
  show ?thesis
  proof (cases "sy_exited sys \<or> sy_batch sys = None")
    case True
    show ?thesis
    proof (cases "sy_exited sys")
      case False
      with True have "sy_batch sys = None" by simp
      from worker_turns_mono [OF idle [OF this sd]] show ?thesis by simp
    qed simp
  next
    case False
    then obtain b where b: "sy_batch sys = Some b" "\<not> sy_exited sys" by blast
    let ?s = "(worker_turn ops now ^^ Suc (length (wb_queue b))) sys"
    have s: "?s = finish_batch ops now (b\<lparr>wb_queue := []\<rparr>) ((worker_turn ops now ^^ length (wb_queue b)) sys)"
      by (rule worker_turns_finish [OF b])
    have "sy_batch ?s = None" "bg_state (sy_bg ((worker_turn ops now ^^ length (wb_queue b)) sys)) = bg_state (sy_bg sys)"
      using worker_turns_drain [OF b, of ops now] by (simp_all add: s del: funpow.simps)
    moreover from this have "qs_shutdown (bg_state (sy_bg ?s))"
      "qs_queue (bg_state (sy_bg ?s)) = qs_queue (bg_state (sy_bg sys))"
      using sd by (simp_all add: s del: funpow.simps)
    ultimately have "sy_exited ((worker_turn ops now ^^ (length (qs_queue (bg_state (sy_bg sys))) + 2)) ?s)"
      using idle [of ?s] by simp
    then have "sy_exited ((worker_turn ops now ^^ (length (qs_queue (bg_state (sy_bg sys))) + 2
        + Suc (length (wb_queue b)))) sys)"
      by (simp only: funpow_add comp_apply)
    moreover have "length (inflight sys) + length (qs_queue (bg_state (sy_bg sys))) + 3
        = length (qs_queue (bg_state (sy_bg sys))) + 2 + Suc (length (wb_queue b))"
      using b by (simp add: inflight_def)
    ultimately show ?thesis by (simp only:)
  qed
qed

lemma worker_turns_run:
  assumes run: "sys_run ops init sub col sys"
  shows "\<exists>col'. sys_run ops init sub col' ((worker_turn ops now ^^ n) sys)"
proof (induction n)
  case 0
  then show ?case using run by auto
next
  case (Suc n)
  then obtain col' where r: "sys_run ops init sub col' ((worker_turn ops now ^^ n) sys)" by blast
  show ?case
  proof (cases "sy_exited ((worker_turn ops now ^^ n) sys)")
    case True
    with r show ?thesis by auto
  next
    case False
    obtain c where "sys_step ops ((worker_turn ops now ^^ n) sys) [] c
        (worker_turn ops now ((worker_turn ops now ^^ n) sys))"
      using worker_turn_step [OF False, of ops now] by blast
    from run_step [OF r this] show ?thesis by auto
  qed
qed

subsection \<open>Bounds over runs\<close>

lemma step_queue_inv:
  assumes "sys_step ops sys sub' col' sys'" "q_exact (sy_bg sys)" "q_bounded (sy_bg sys)"
    "limits_ok (bg_config (sy_bg sys))"
  shows "q_exact (sy_bg sys') \<and> q_bounded (sy_bg sys') \<and> bg_config (sy_bg sys') = bg_config (sy_bg sys)"
proof -
  note submit = submit_entry_inv [OF assms(2,3) _ assms(4)]
  have same: "q_exact bg' \<and> q_bounded bg' \<and> bg_config bg' = bg_config (sy_bg sys)"
    if "qs_queue (bg_state bg') = qs_queue (bg_state (sy_bg sys))" "qs_bytes (bg_state bg') = qs_bytes (bg_state (sy_bg sys))"
      "qs_gaps (bg_state bg') = qs_gaps (bg_state (sy_bg sys))"
      "qs_pending (bg_state bg') = qs_pending (bg_state (sy_bg sys))" "bg_config bg' = bg_config (sy_bg sys)" for bg'
    using that assms(2,3) by (simp add: q_exact_def q_bounded_def q_cap_def q_parts_def)
  from assms(1) show ?thesis
  proof cases
    case (sys_data item r bg')
    then show ?thesis using submit [of Data item] by (simp add: submit_data_def)
  next
    case (sys_recovery item r bg')
    then show ?thesis using submit [of Recovery item] by (simp add: submit_after_partition_seal_def)
  next
    case (sys_initialization item r bg')
    then show ?thesis using submit [of Initialization item] by (simp add: bg_submit_initialization_def)
  next
    case (sys_seal part reply r bg')
    then show ?thesis using enqueue_seal_inv [OF assms(2,3,4), of part reply] by simp
  next
    case (sys_flush is_shutdown tx r bg')
    then show ?thesis using assms(2,3) request_flush_inv [of is_shutdown tx "sy_bg sys"]
      by (auto simp: request_flush_def split: if_splits)
  next
    case (sys_joined now reply r bg')
    then show ?thesis using same [of bg'] by (auto simp: shutdown_joined_def Let_def split: if_splits sum.splits)
  next
    case sys_drop
    then show ?thesis using same [of "drop_background (sy_bg sys)"] by (simp add: drop_background_def)
  next
    case (sys_collect now b s' bg')
    then show ?thesis using collect_simps [OF sys_collect(6)]
      by (simp add: q_exact_def q_bounded_def)
  next
    case (sys_entry b q qs)
    then show ?thesis using same [of "sy_bg sys'"] by simp
  next
    case (sys_finish b now_ns)
    then show ?thesis using same [of "sy_bg sys'"] by simp
  qed
qed

lemma run_queue_inv:
  "sys_run ops init sub col sys \<Longrightarrow> q_exact (sy_bg init) \<Longrightarrow> q_bounded (sy_bg init) \<Longrightarrow>
   limits_ok (bg_config (sy_bg init)) \<Longrightarrow>
   q_exact (sy_bg sys) \<and> q_bounded (sy_bg sys) \<and> bg_config (sy_bg sys) = bg_config (sy_bg init)"
  by (induction rule: sys_run.induct) (auto dest!: step_queue_inv)

subsection \<open>The latch\<close>

lemma step_write_failure:
  assumes "sys_step ops sys sub' col' sys'" "sy_write_failure sys = Some e"
  shows "sy_write_failure sys' = Some e"
  using assms by cases (simp_all add: finish_batch_def writer_def Let_def)

lemma run_write_failure:
  "sys_run ops init sub col sys \<Longrightarrow> sy_write_failure init = Some e \<Longrightarrow> sy_write_failure sys = Some e"
  by (induction rule: sys_run.induct) (auto intro: step_write_failure)

subsection \<open>Properties\<close>

text \<open>
  C21: the ingress queue is bounded. In every run, under every overflow policy and every
  interleaving of producers and writer, the counters that admission reads agree with the queue,
  the queued bytes stay within the byte limit, the queued items within the capacity, and the
  whole queue, loss markers and seals included, within a length fixed by the configuration.
\<close>

theorem queue_within_bounds:
  assumes "limits_ok config"
    and "sys_run ops (system_new ops config sink w wall clock now) sub col sys"
  shows "q_exact (sy_bg sys)
    \<and> queue_bytes (qs_queue (bg_state (sy_bg sys))) \<le> ingress_max_bytes config
    \<and> data_count (qs_queue (bg_state (sy_bg sys))) \<le> max (cc_queue_capacity config) 1
    \<and> length (qs_queue (bg_state (sy_bg sys)))
        \<le> 3 * max (cc_queue_capacity config) 1 + 2 * max (cc_max_active_partitions config) 1 + 1"
proof -
  have init: "bg_config (sy_bg (system_new ops config sink w wall clock now)) = config"
    by (simp add: system_new_def background_new_def)
  have inv: "q_exact (sy_bg sys)" "q_bounded (sy_bg sys)" and c: "bg_config (sy_bg sys) = config"
    using run_queue_inv [OF assms(2)] assms(1) init
    by (simp_all add: system_new_def background_new_inv)
  show ?thesis
    using q_bounded_length [OF inv(2)] inv(1) inv(2) [unfolded q_bounded_def q_cap_def q_parts_def c]
    by (simp add: q_cap_def q_parts_def c)
qed

text \<open>A run of two submissions against a queue of one, for the witnesses.\<close>

definition tiny_config :: capture_config where
  "tiny_config = default_config\<lparr>cc_queue_capacity := 1, cc_overflow_policy := DropOldest\<rparr>"

abbreviation tiny_init :: "(nat, (string \<times> nat list) list) system" where
  "tiny_init \<equiv> system_new sample_sink tiny_config [] sample_world (\<lambda>_. 0) (\<lambda>n. n) 0"

lemma tiny_accepting: "accepting (sy_bg tiny_init)"
  by (simp add: accepting_def system_new_def background_new_def queue_default_def)

definition tiny_one :: "(nat, (string \<times> nat list) list) system" where
  "tiny_one = producer (snd (submit_data sample_item (sy_bg tiny_init))) tiny_init"

lemma tiny_submit: "submit_data sample_item (sy_bg tiny_init) = (Inr (), admit Data sample_item (sy_bg tiny_init))"
  by (simp add: submit_data_def submit_entry_def make_room.simps queue_full_def system_new_def
      background_new_def queue_default_def tiny_config_def default_config_def sample_item_def
      ingress_max_bytes_def sat_add_def sat_sub_def u64_max_def)

lemma tiny_one_simps:
  "qs_queue (bg_state (sy_bg tiny_one)) = [\<lparr>qe_entry = Data sample_item, qe_at = 0\<rparr>]"
  "bg_failures (sy_bg tiny_one) = tracker_new 128 (\<lambda>_. 0)"
  "qs_shutdown (bg_state (sy_bg tiny_one)) = False" "bg_worker (sy_bg tiny_one) = Running"
  "sy_batch tiny_one = None" "sy_exited tiny_one = False"
  "sy_rt tiny_one = runtime_new tiny_config [] sample_world (\<lambda>_. 0)"
  unfolding tiny_one_def tiny_submit
  by (simp_all add: admit_def Let_def system_new_def background_new_def
      queue_default_def tiny_config_def default_config_def stamped_def sy_rt_def producer_def on_state_def
      progress_new_def runtime_new_def)

lemma tiny_one_run: "sys_run sample_sink tiny_init [Data sample_item] [] tiny_one"
  using run_step [OF run_init sys_data [OF prod.collapse [symmetric, of "submit_data sample_item (sy_bg tiny_init)"]]]
    tiny_accepting by (simp add: tiny_one_def)

lemma tiny_rt_submit:
  assumes "rt_parts rt = []" "rt_config rt = tiny_config" "rt_failures rt = f" "rt_world rt = sample_world"
    "rt_sink rt = []"
  shows "\<exists>p res. fst (submit sample_sink sample_item rt) = Inr res
    \<and> rt_parts (snd (submit sample_sink sample_item rt)) = [(it_skey sample_item, p)] \<and> pb_items p = [1]
    \<and> rt_failures (snd (submit sample_sink sample_item rt)) = f
    \<and> rt_world (snd (submit sample_sink sample_item rt)) = sample_world
    \<and> rt_sink (snd (submit sample_sink sample_item rt)) = []"
  using assms
  by (simp add: submit_def submit_room_def push_item_def Let_def tiny_config_def default_config_def
        sample_item_def should_flush_reason_def batch_row_threshold_def default_lifecycle_def
        is_segment_mode_def budget_loop.simps total_pending_bytes_def rt_set_metrics_def
        buffer_push_def)

lemma tiny_rt_flush:
  assumes "rt_parts rt = [(k, p)]" "pb_items p = [1]" "rt_world rt = sample_world" "rt_failures rt = f"
  shows "rt_failures (snd (flush_all_with_reason sample_sink r rt)) = f"
  using assms by (simp add: flush_all_with_reason_def Let_def sample_world_def
     flush_partition_with_reason_def sample_sink_def default_sink_ops_def split_beta hm_keys_def)


definition tiny_closing :: "(nat, (string \<times> nat list) list) system" where
  "tiny_closing = producer (snd (request_flush True 1 (sy_bg tiny_one))) tiny_one"

lemma tiny_closing_simps:
  "qs_queue (bg_state (sy_bg tiny_closing)) = [\<lparr>qe_entry = Data sample_item, qe_at = 0\<rparr>]"
  "bg_failures (sy_bg tiny_closing) = tracker_new 128 (\<lambda>_. 0)"
  "qs_shutdown (bg_state (sy_bg tiny_closing)) = True" 
  "sy_batch tiny_closing = None" "sy_exited tiny_closing = False"
  "sy_rt tiny_closing = runtime_new tiny_config [] sample_world (\<lambda>_. 0)"
  by (simp_all add: tiny_closing_def request_flush_def tiny_one_simps producer_def sy_rt_def)
     (simp_all add: tiny_one_simps(7) [unfolded sy_rt_def] runtime_new_def tiny_config_def default_config_def)

lemma tiny_closing_run: "sys_run sample_sink tiny_init [Data sample_item] [] tiny_closing"
  using run_step [OF tiny_one_run sys_flush [OF prod.collapse [symmetric, of "request_flush True 1 (sy_bg tiny_one)"]]]
  by (simp add: tiny_closing_def)

lemma tiny_end_failures:
  "bg_failures (sy_bg ((worker_turn sample_sink 0 ^^ 4) tiny_closing)) = tracker_new 128 (\<lambda>_. 0)"
proof -
  obtain b s' bg' where c: "collect_worker_batch 0 (sy_schedule tiny_closing) (sy_bg tiny_closing) = (b, s', bg')"
    by (metis prod_cases3)
  note cs = collect_simps [OF c]
  let ?q = "\<lparr>qe_entry = Data sample_item, qe_at = 0\<rparr>"
  let ?s1 = "worker_turn sample_sink 0 tiny_closing"
  have s1: "?s1 = tiny_closing\<lparr>sy_bg := bg', sy_schedule := s', sy_batch := Some b,
      sy_progress := progress_new (sy_rt tiny_closing)\<rparr>"
    using c by (simp add: worker_turn_def tiny_closing_simps)
  have b: "wb_queue b = [?q]" "wb_shutdown b" "wb_reason b = Some Shutdown"
    using cs tiny_closing_simps by simp_all
  let ?p = "process_entry sample_sink ?q (progress_new (runtime_new tiny_config [] sample_world (\<lambda>_. 0)))"
  obtain pb res where sub: "rt_parts (pr_rt ?p) = [(it_skey sample_item, pb)]" "pb_items pb = [1]"
    "rt_failures (pr_rt ?p) = tracker_new 128 (\<lambda>_. 0)" "rt_world (pr_rt ?p) = sample_world"
    using tiny_rt_submit [of "rt_timed in_wait [] (runtime_new tiny_config [] sample_world (\<lambda>_. 0))"
        "tracker_new 128 (\<lambda>_. 0)"]
    by (auto simp: process_entry_def submit_queued_def progress_new_def runtime_new_def split_beta
        tiny_config_def default_config_def)
  have "(worker_turn sample_sink 0 ^^ Suc (length (wb_queue b))) ?s1
      = finish_batch sample_sink 0 (b\<lparr>wb_queue := []\<rparr>) ((worker_turn sample_sink 0 ^^ length (wb_queue b)) ?s1)"
    by (rule worker_turns_finish) (simp_all add: s1 tiny_closing_simps)
  moreover have "sy_progress ((worker_turn sample_sink 0 ^^ length (wb_queue b)) ?s1) = ?p"
    using worker_turns_drain [of ?s1 b sample_sink 0] by (simp add: s1 tiny_closing_simps b)
  ultimately have fin: "(worker_turn sample_sink 0 ^^ Suc (Suc 0)) ?s1
      = finish_batch sample_sink 0 (b\<lparr>wb_queue := []\<rparr>) ((worker_turn sample_sink 0 ^^ Suc 0) ?s1)"
    "sy_progress ((worker_turn sample_sink 0 ^^ Suc 0) ?s1) = ?p"
    by (simp_all add: b(1))
  obtain f where f: "sy_rt (finish_batch sample_sink 0 (b\<lparr>wb_queue := []\<rparr>) ((worker_turn sample_sink 0 ^^ Suc 0) ?s1))
    = rt_set_metrics f (pr_rt (process_tail sample_sink (wb_reason b) (wb_tick b) (wb_shutdown b) 0 ?p))"
    using finish_rt [of sample_sink 0 "b\<lparr>wb_queue := []\<rparr>" "(worker_turn sample_sink 0 ^^ Suc 0) ?s1"] fin(2)
    by auto
  have "rt_failures (pr_rt (process_tail sample_sink (Some Shutdown) (wb_tick b) True 0 ?p)) = tracker_new 128 (\<lambda>_. 0)"
    using tiny_rt_flush [OF sub(1,2,4,3)]
    by (simp add: process_tail_def sample_sink_def default_sink_ops_def)
  then have "bg_failures (sy_bg ((worker_turn sample_sink 0 ^^ 3) tiny_closing)) = tracker_new 128 (\<lambda>_. 0)"
    using fin(1) f b by (simp add: numeral_3_eq_3 funpow_swap1)
  moreover have "sy_exited ((worker_turn sample_sink 0 ^^ 3) tiny_closing)"
    using fin(1) b by (simp add: numeral_3_eq_3 funpow_swap1)
  then have "(worker_turn sample_sink 0 ^^ 4) tiny_closing = (worker_turn sample_sink 0 ^^ 3) tiny_closing"
    by (simp add: eval_nat_numeral)
  ultimately show ?thesis by simp
qed

lemma tiny_run2: "\<exists>sys. sys_run sample_sink tiny_init [Data sample_item, Data sample_item] [] sys"
proof -
  have a: "accepting (sy_bg tiny_one)" by (simp add: accepting_def tiny_one_simps)
  obtain r bg' where s: "submit_data sample_item (sy_bg tiny_one) = (r, bg')" by fastforce
  from run_step [OF tiny_one_run sys_data [OF s]] a show ?thesis
    by (auto intro: exI [of _ "producer bg' tiny_one"])
qed

lemma tiny_limits: "limits_ok tiny_config"
  by (simp add: limits_ok_def tiny_config_def default_config_def ingress_max_bytes_def u64_max_def)

theorem queue_within_bounds_witness:
  "\<exists>sys. sys_run sample_sink tiny_init [Data sample_item, Data sample_item] [] sys
    \<and> length (qs_queue (bg_state (sy_bg sys))) \<le> 260"
proof -
  obtain sys where run: "sys_run sample_sink tiny_init [Data sample_item, Data sample_item] [] sys"
    using tiny_run2 by blast
  from queue_within_bounds [OF tiny_limits run] run show ?thesis
    by (auto simp: tiny_config_def default_config_def)
qed

text \<open>
  C3: no loss is hidden. In every run each submitted entry is either kept, in order, in what
  the thread has taken followed by what is still queued, or lost; and between any two
  neighbouring kept items of a partition (and before the first and after the last) the stream
  holds a marker that ends the partition's replay window whenever an item of that partition was
  lost there: coalescing and eviction never merge rows across a loss.
\<close>

theorem no_hidden_gap:
  assumes "sys_run ops (system_new ops config sink w wall clock now) sub col sys"
  shows "\<exists>kept. length kept = length sub
    \<and> kept_entries (zip sub kept)
       = map qe_entry (filter is_data (col @ qs_queue (bg_state (sy_bg sys))))
    \<and> (\<forall>k. list_all2 (\<longrightarrow>) (slots k False (history_marks (zip sub kept)))
         (slots k False (queue_marks (col @ qs_queue (bg_state (sy_bg sys))))))"
proof -
  obtain old h where l: "ledger old h sub col (sy_bg sys)"
    using run_ledger [OF assms system_new_ledger] by blast
  have z: "zip sub (map snd (old @ h)) = old @ h"
    using l by (simp add: ledger_def zip_map_fst_snd flip: map_append)
  have "covers (history_marks (old @ h)) (queue_marks (col @ qs_queue (bg_state (sy_bg sys))))"
    using l covers_append by (auto simp: ledger_def q_cover_def)
  moreover have "kept_entries (old @ h) = map qe_entry (filter is_data (col @ qs_queue (bg_state (sy_bg sys))))"
    using l by (auto simp: ledger_def q_cover_def)
  moreover have "length (map snd (old @ h)) = length sub" using l by (simp add: ledger_def)
  ultimately show ?thesis unfolding covers_def
    by (intro exI [of _ "map snd (old @ h)"]) (simp only: z simp_thms)
qed

theorem no_hidden_gap_witness:
  "\<exists>sys kept. sys_run sample_sink tiny_init [Data sample_item, Data sample_item] [] sys
    \<and> length kept = (2 :: nat)
    \<and> kept_entries (zip [Data sample_item, Data sample_item] kept)
       = map qe_entry (filter is_data (qs_queue (bg_state (sy_bg sys))))"
proof -
  obtain sys where run: "sys_run sample_sink tiny_init [Data sample_item, Data sample_item] [] sys"
    using tiny_run2 by blast
  from no_hidden_gap [OF run] obtain kept where "length kept = length [Data sample_item, Data sample_item]"
    "kept_entries (zip [Data sample_item, Data sample_item] kept)
       = map qe_entry (filter is_data ([] @ qs_queue (bg_state (sy_bg sys))))" by metis
  with run show ?thesis by (intro exI [of _ sys] exI [of _ kept]) simp
qed

text \<open>
  C15: shutdown always comes. Once shutdown is requested the thread on its own, whatever the
  sink answers, reaches its exit within three steps more than there are entries left; every
  state on the way is a state of the system.
\<close>

theorem shutdown_terminates:
  assumes "qs_shutdown (bg_state (sy_bg sys))"
    and "n \<ge> length (inflight sys) + length (qs_queue (bg_state (sy_bg sys))) + 3"
  shows "sy_exited ((worker_turn ops now ^^ n) sys)
    \<and> (sys_run ops init sub col sys \<longrightarrow> (\<exists>col'. sys_run ops init sub col' ((worker_turn ops now ^^ n) sys)))"
proof
  show "sy_exited ((worker_turn ops now ^^ n) sys)"
    using worker_turns_mono [OF worker_reaches_exit [OF assms(1)] assms(2)] .
  show "sys_run ops init sub col sys \<longrightarrow> (\<exists>col'. sys_run ops init sub col' ((worker_turn ops now ^^ n) sys))"
    using worker_turns_run by blast
qed

theorem shutdown_terminates_witness:
  "sy_exited ((worker_turn sample_sink 0 ^^ 3)
      (producer (snd (request_flush True 1 (sy_bg tiny_init))) tiny_init))"
proof -
  have "qs_shutdown (bg_state (snd (request_flush True 1 (sy_bg tiny_init))))"
    "qs_queue (bg_state (snd (request_flush True 1 (sy_bg tiny_init)))) = []" "inflight tiny_init = []"
    by (simp_all add: request_flush_def system_new_def background_new_def queue_default_def inflight_def)
  then show ?thesis
    using shutdown_terminates [of "producer (snd (request_flush True 1 (sy_bg tiny_init))) tiny_init" 3] by simp
qed



lemma record_all_generation:
  "fs_generation (ft_state t) \<le> u64_max \<Longrightarrow>
   fs_generation (ft_state (record_all es t)) = min (fs_generation (ft_state t) + length es) u64_max"
proof (induction es arbitrary: t)
  case Nil
  then show ?case by simp
next
  case (Cons x es)
  obtain p op r where x: "x = (p, op, r)" by (cases x) auto
  have "fs_generation (ft_state (tracker_record p op r t)) = sat_add (fs_generation (ft_state t)) 1"
    by (simp add: tracker_record_def Let_def)
  then show ?case using Cons x by (simp add: sat_add_def)
qed

text \<open>What an observer that never polled is told, when some recorded failure affects \<open>k\<close>.\<close>

lemma tells_observer:
  assumes "tells es k"
    and "fs_generation (ft_state (record_all es (tracker_new cap wall))) < u64_max"
  shows "\<exists>a. fst (changed_partitions 0 (record_all es (tracker_new cap wall))) = Some a
    \<and> affected_contains a k"
proof -
  have len: "length es \<le> u64_max"
    using assms(2) record_all_generation [of "tracker_new cap wall" es] by (simp add: tracker_new_def)
  have inv: "tracker_inv es (record_all es (tracker_new cap wall))"
    using tracker_inv_record_all [OF tracker_inv_new, of es] len by simp
  obtain e where e: "e \<in> set es" "fst e = None \<or> fst e = Some k" using assms(1) by (auto simp: tells_def)
  then obtain i where i: "i < length es" "es ! i = e" by (auto simp: in_set_conv_nth)
  then have "0 < length es" by auto
  from poll_contains [OF inv this, of k] i e show ?thesis by auto
qed

text \<open>
  C1: no silent loss, end to end. Take any run over a sink that keeps its contract and a
  partition of plain data. If an observer that polls the failure history for the first time is
  not told of that partition, then everything submitted for it so far, in order and exactly
  once, is in the sink, in its buffer, in the batch being drained or in the queue.
\<close>

theorem no_silent_loss:
  assumes "capture_sink ops rows ok" "ok s0"
    and "sys_run ops (system_new ops config s0 w wall clock now) sub col sys"
    and "fs_generation (ft_state (bg_failures (sy_bg sys))) < u64_max"
    and "only_data k sub"
    and "\<And>a. fst (changed_partitions 0 (bg_failures (sy_bg sys))) = Some a \<Longrightarrow> \<not> affected_contains a k"
  shows "contents rows (sy_rt sys) k @ item_payloads k (map qe_entry (inflight sys))
      @ item_payloads k (map qe_entry (qs_queue (bg_state (sy_bg sys))))
    = rows s0 k @ item_payloads k sub"
proof -
  obtain es where es: "bg_failures (sy_bg sys) = record_all es (tracker_new (cc_max_active_partitions config) wall)"
    "tells es k \<or> contents rows (sy_rt sys) k @ item_payloads k (map qe_entry (inflight sys))
        @ item_payloads k (map qe_entry (qs_queue (bg_state (sy_bg sys)))) = rows s0 k @ item_payloads k sub"
    using capture_sink.run_accounts [OF assms(1,3,2)] assms(5) by fastforce
  have "\<not> tells es k" using tells_observer [of es k] es(1) assms(4,6) by auto
  with es(2) show ?thesis by blast
qed

text \<open>The sample sink, which keeps every batch it is given, satisfies the contract.\<close>

definition sample_rows :: "(string \<times> nat list) list \<Rightarrow> string \<Rightarrow> nat list" where
  "sample_rows s k = concat (map snd (filter (\<lambda>x. fst x = k) s))"

lemma sample_sink_contract: "capture_sink sample_sink sample_rows (\<lambda>_. True)"
  unfolding sample_sink_def by (rule default_sink_contract) (auto simp: sample_rows_def)

theorem no_silent_loss_witness:
  "contents sample_rows (sy_rt tiny_one) (it_skey sample_item)
      @ item_payloads (it_skey sample_item) (map qe_entry (inflight tiny_one))
      @ item_payloads (it_skey sample_item) (map qe_entry (qs_queue (bg_state (sy_bg tiny_one)))) = [1]"
  using no_silent_loss [OF sample_sink_contract TrueI tiny_one_run, of "it_skey sample_item"]
  by (simp add: only_data_def sample_rows_def tiny_one_simps tracker_new_def u64_max_def
      changed_partitions_def sample_item_def)



end
