(* ===== verification/Part.thy ===== *)
theory Part
  imports Sink Config
begin

section \<open>Open part files\<close>

text \<open>
  \<open>crates/catalog-capture-core/src/lifecycle/segment_support.rs\<close>: a segment is written to a
  \<open>.parquet.part\<close> file no reader lists and published, once complete, under its catalogue name.

  The Parquet encoder and the file system are the environment: the record \<open>part_env\<close> answers
  the \<open>n\<close>-th operation on them. What the code relies on is built into the functions that use the
  answers: a successful write adds the batch to what the writer holds, and a hard link fails on
  a name that exists. \<open>ap_rows\<close> stands for the contents of the \<open>ArrowWriter\<close>.
\<close>

record part_env =
  pe_fault :: "nat \<Rightarrow> cap_error option"
  pe_same_file :: "nat \<Rightarrow> bool"
  pe_groups :: "nat \<Rightarrow> nat"
  pe_uuid :: "nat \<Rightarrow> string"
  pe_filename :: "nat \<Rightarrow> nat \<Rightarrow> string"
  pe_size :: "nat \<Rightarrow> nat option"

record part_schema =
  sch_fields :: string
  sch_metadata :: "(string \<times> string) list"

record 't sealed_file =
  sf_path :: string
  sf_schema :: part_schema
  sf_rows :: "'t list"
  sf_min :: nat
  sf_max :: nat

text \<open>The file system as far as the code sees it: a counter of its operations and the published names.\<close>

record store =
  fs_io :: nat
  fs_paths :: "string list"
  fs_failed :: "string list"

definition io :: "part_env \<Rightarrow> store \<Rightarrow> cap_error option \<times> store" where
  "io env st = (pe_fault env (fs_io st), st\<lparr>fs_io := Suc (fs_io st)\<rparr>)"

record 't active_part =
  ap_directory :: string
  ap_path :: string
  ap_schema :: part_schema
  ap_rows :: "'t list"
  ap_groups :: nat
  ap_min :: nat
  ap_max :: nat
  ap_count :: nat
  ap_last_sync :: nat
  ap_threshold :: nat

definition part_suffix :: string where
  "part_suffix = ''.parquet.part''"

subsection \<open>Names\<close>

text \<open>Decimal text, as \<open>to_string\<close> and \<open>format!\<close> print an unsigned number.\<close>

definition digit_char :: "nat \<Rightarrow> char" where
  "digit_char d = char_of (48 + d)"

fun show_nat :: "nat \<Rightarrow> string" where
  "show_nat n = (if n < 10 then [digit_char n] else show_nat (n div 10) @ [digit_char (n mod 10)])"

declare show_nat.simps [simp del]

definition path_join :: "string \<Rightarrow> string \<Rightarrow> string" where
  "path_join directory name = directory @ ''/'' @ name"

text \<open>\<open>catalog_fs_directory\<close>; \<open>make_path\<close> is the catalogue's.\<close>

definition catalog_fs_directory ::
  "string \<Rightarrow> (string \<Rightarrow> string option \<Rightarrow> string result) \<Rightarrow> string \<Rightarrow> string option \<Rightarrow> string result" where
  "catalog_fs_directory local_root make_path type_name ident =
     map_result (\<lambda>made. if made \<noteq> [] \<and> hd made = CHR ''/'' then made else path_join local_root made)
       (make_path type_name ident)"

definition part_path_for :: "part_env \<Rightarrow> store \<Rightarrow> string \<Rightarrow> nat \<Rightarrow> string" where
  "part_path_for env st directory open_ts =
     path_join directory (show_nat open_ts @ ''-'' @ pe_uuid env (fs_io st) @ part_suffix)"

text \<open>The last component of a path, without the suffix as often as it stands at the end.\<close>

definition file_name :: "string \<Rightarrow> string" where
  "file_name path = rev (takeWhile (\<lambda>c. c \<noteq> CHR ''/'') (rev path))"

definition ends_with :: "string \<Rightarrow> string \<Rightarrow> bool" where
  "ends_with suffix s = (length suffix \<le> length s \<and> drop (length s - length suffix) s = suffix)"

function trim_end_matches :: "string \<Rightarrow> string \<Rightarrow> string" where
  "trim_end_matches suffix s =
     (if suffix \<noteq> [] \<and> ends_with suffix s
      then trim_end_matches suffix (take (length s - length suffix) s) else s)"
  by pat_completeness auto
termination
proof (relation "measure (\<lambda>(suffix, s). length s)")
  fix suffix s :: string
  assume "suffix \<noteq> [] \<and> ends_with suffix s"
  then have "0 < length suffix" "length suffix \<le> length s" by (auto simp: ends_with_def)
  then have "length s - length suffix < length s" by linarith
  then show "((suffix, take (length s - length suffix) s), suffix, s) \<in> measure (\<lambda>(suffix, s). length s)"
    by simp
qed simp

declare trim_end_matches.simps [simp del]

definition is_alnum :: "char \<Rightarrow> bool" where
  "is_alnum c = (let n = of_char c :: nat in (48 \<le> n \<and> n \<le> 57) \<or> (65 \<le> n \<and> n \<le> 90) \<or> (97 \<le> n \<and> n \<le> 122))"

text \<open>\<open>str::replace\<close>, for a non-empty pattern.\<close>

fun starts_with :: "string \<Rightarrow> string \<Rightarrow> bool" where
  "starts_with [] s = True"
| "starts_with (c # cs) [] = False"
| "starts_with (c # cs) (d # ds) = (c = d \<and> starts_with cs ds)"

function replace_all :: "string \<Rightarrow> string \<Rightarrow> string \<Rightarrow> string" where
  "replace_all pat new [] = []"
| "replace_all pat new (c # cs) =
     (if pat \<noteq> [] \<and> starts_with pat (c # cs)
      then new @ replace_all pat new (drop (length pat) (c # cs))
      else c # replace_all pat new cs)"
  by pat_completeness auto
termination
proof (relation "measure (\<lambda>(pat, new, s). length s)")
  fix pat new cs :: string and c :: char
  assume "pat \<noteq> [] \<and> starts_with pat (c # cs)"
  then have "0 < length pat" by simp
  then have "Suc (length cs) - length pat < Suc (length cs)" by linarith
  then show "((pat, new, drop (length pat) (c # cs)), pat, new, c # cs)
      \<in> measure (\<lambda>(pat, new, s). length s)" by simp
qed simp_all

text \<open>The published name: the catalogue's name with the identity of the part appended.\<close>

definition final_path_for :: "part_env \<Rightarrow> string \<Rightarrow> string \<Rightarrow> nat \<Rightarrow> nat \<Rightarrow> string" where
  "final_path_for env part_path directory min_ts max_ts =
     path_join directory (replace_all ''.parquet''
       (''_'' @ filter is_alnum (trim_end_matches part_suffix (file_name part_path)) @ ''.parquet'')
       (pe_filename env min_ts max_ts))"

subsection \<open>Publishing\<close>

text \<open>
  \<open>rename_part_to_catalog_parquet\<close>: link, remove the part, sync the directory. A link that
  fails is tolerated when the name already is this very file, which a name published for another
  part never is. The first component says whether the file became visible to readers, also when
  an error follows.
\<close>

definition rename_part_to_catalog_parquet ::
  "part_env \<Rightarrow> string \<Rightarrow> string \<Rightarrow> nat \<Rightarrow> nat \<Rightarrow> store \<Rightarrow> bool \<times> (string \<times> nat) result \<times> store" where
  "rename_part_to_catalog_parquet env part_path directory min_ts max_ts st =
     (let final_path = final_path_for env part_path directory min_ts max_ts;
          same_file = (pe_same_file env (fs_io st) \<and> final_path \<notin> set (fs_paths st));
          (fault, st) = io env st;
          link_error = (case fault of Some e \<Rightarrow> Some e
            | None \<Rightarrow> if final_path \<in> set (fs_paths st) then Some (External ''file exists'') else None)
      in if link_error \<noteq> None \<and> \<not> same_file then (False, Inl (the link_error), st)
         else
           let st = st\<lparr>fs_paths := final_path # fs_paths st\<rparr>;
               (removed, st) = io env st
           in (case removed of
                 Some e \<Rightarrow> (True, Inl e, st)
               | None \<Rightarrow>
                   (let (synced, st) = io env st
                    in case synced of
                         Some e \<Rightarrow> (True, Inl e, st)
                       | None \<Rightarrow> (True, Inr (final_path, unwrap_or 0 (pe_size env (fs_io st))), st))))"

definition quarantine_part_file :: "string \<Rightarrow> store \<Rightarrow> store" where
  "quarantine_part_file path st = st\<lparr>fs_io := Suc (fs_io st), fs_failed := path # fs_failed st\<rparr>"

subsection \<open>The part\<close>

definition part_open ::
  "part_env \<Rightarrow> string \<Rightarrow> nat \<Rightarrow> part_schema \<Rightarrow> store \<Rightarrow> 't active_part result \<times> store" where
  "part_open env directory open_ts sch st =
     (let part_path = part_path_for env st directory open_ts;
          (fault, st) = io env st
      in (case fault of
            Some e \<Rightarrow> Inl e
          | None \<Rightarrow> Inr \<lparr>ap_directory = directory, ap_path = part_path, ap_schema = sch, ap_rows = [],
              ap_groups = 0, ap_min = 0, ap_max = 0, ap_count = 0, ap_last_sync = open_ts,
              ap_threshold = row_group_roll_threshold\<rparr>, st))"

definition write_record_batch ::
  "part_env \<Rightarrow> 't list \<Rightarrow> 't active_part \<Rightarrow> store \<Rightarrow> (cap_error option \<times> 't active_part) \<times> store" where
  "write_record_batch env batch p st =
     (let n = fs_io st; (fault, st) = io env st
      in (case fault of
            Some e \<Rightarrow> (Some e, p)
          | None \<Rightarrow> (None, p\<lparr>ap_rows := ap_rows p @ batch, ap_groups := pe_groups env n,
              ap_count := ap_count p + length batch\<rparr>), st))"

text \<open>\<open>update_ts_bounds\<close>: a lower bound of 0 stands for none yet.\<close>

definition note_ts_range :: "nat \<Rightarrow> nat \<Rightarrow> 't active_part \<Rightarrow> 't active_part" where
  "note_ts_range lo hi p = p\<lparr>ap_min := (if ap_min p = 0 then lo else min (ap_min p) lo),
     ap_max := max (ap_max p) hi\<rparr>"

definition needs_capacity_roll :: "'t active_part \<Rightarrow> bool" where
  "needs_capacity_roll p = (ap_groups p \<ge> ap_threshold p)"

definition part_tick ::
  "part_env \<Rightarrow> nat \<Rightarrow> nat \<Rightarrow> 't active_part \<Rightarrow> store \<Rightarrow> unit result \<times> 't active_part \<times> store" where
  "part_tick env sync_interval now p st =
     (if sync_interval > 0 \<and> sat_sub now (ap_last_sync p) \<ge> sync_interval then
        let (fault, st) = io env st
        in (case fault of
              Some e \<Rightarrow> (Inl e, p, st)
            | None \<Rightarrow> (Inr (), p\<lparr>ap_last_sync := now\<rparr>, st))
      else (Inr (), p, st))"

text \<open>
  \<open>seal\<close>: an empty part is dropped; otherwise close the writer, sync, publish. The published
  file comes first, the result second.
\<close>

definition published_of :: "'t active_part \<Rightarrow> string \<Rightarrow> 't sealed_file" where
  "published_of p path = \<lparr>sf_path = path, sf_schema = ap_schema p, sf_rows = ap_rows p,
     sf_min = ap_min p, sf_max = ap_max p\<rparr>"

definition part_seal ::
  "part_env \<Rightarrow> 't active_part \<Rightarrow> store \<Rightarrow> 't sealed_file option \<times> flush_result result \<times> store" where
  "part_seal env p st =
     (if ap_count p = 0 then (None, Inr empty_result, st\<lparr>fs_io := Suc (fs_io st)\<rparr>)
      else
        let (closed, st) = io env st
        in case closed of
             Some e \<Rightarrow> (None, Inl e, quarantine_part_file (ap_path p) st)
           | None \<Rightarrow>
               (let (synced, st) = io env st
                in case synced of
                     Some e \<Rightarrow> (None, Inl e, quarantine_part_file (ap_path p) st)
                   | None \<Rightarrow>
                       (let (visible, r, st) = rename_part_to_catalog_parquet env (ap_path p)
                              (ap_directory p) (ap_min p) (ap_max p) st;
                            file = (if visible then Some (published_of p (final_path_for env (ap_path p)
                              (ap_directory p) (ap_min p) (ap_max p))) else None)
                        in case r of
                             Inl e \<Rightarrow> (file, Inl e, quarantine_part_file (ap_path p) st)
                           | Inr (path, bytes) \<Rightarrow>
                               (file, Inr \<lparr>fr_files = [path], fr_rows = ap_count p, fr_bytes = bytes\<rparr>, st))))"

subsection \<open>Recovery of parts a crashed process left\<close>

text \<open>
  \<open>ts_init_range_from_batch\<close> and \<open>min_max_ts_init_from_reader\<close>, on the \<open>ts_init\<close> column of each
  record batch as the file has it: absent, of another type, or values that may be null.
\<close>

datatype ts_column = NoColumn | OtherType | Column "int option list"

fun column_values :: "int option list \<Rightarrow> nat list result" where
  "column_values [] = Inr []"
| "column_values (None # vs) = Inl (External ''ts_init column contains null'')"
| "column_values (Some v # vs) =
     (if v < 0 then Inl (External ''ts_init column contains a negative timestamp'')
      else map_result (\<lambda>ns. nat v # ns) (column_values vs))"

definition ts_init_range_from_batch :: "ts_column \<Rightarrow> (nat \<times> nat) result" where
  "ts_init_range_from_batch col =
     (case col of
        NoColumn \<Rightarrow> Inl (External ''batch missing ts_init column'')
      | OtherType \<Rightarrow> Inl (External ''ts_init column type'')
      | Column vs \<Rightarrow>
          (case column_values vs of
             Inl e \<Rightarrow> Inl e
           | Inr [] \<Rightarrow> Inl (External ''ts_init column is empty'')
           | Inr (n # ns) \<Rightarrow> Inr (foldl min n ns, foldl max n ns)))"

definition column_rows :: "ts_column \<Rightarrow> nat \<Rightarrow> nat" where
  "column_rows col rows = (case col of Column vs \<Rightarrow> length vs | _ \<Rightarrow> rows)"

text \<open>The reader's loop; a batch is its column and its number of rows, or an error of the decoder.\<close>

fun min_max_ts_from :: "(nat \<times> nat) option \<Rightarrow> (ts_column \<times> nat) result list \<Rightarrow> (nat \<times> nat) option result" where
  "min_max_ts_from acc [] = Inr acc"
| "min_max_ts_from acc (Inl e # bs) = Inl e"
| "min_max_ts_from acc (Inr (col, rows) # bs) =
     (if column_rows col rows = 0 then min_max_ts_from acc bs
      else case ts_init_range_from_batch col of
          Inl e \<Rightarrow> Inl e
        | Inr (lo, hi) \<Rightarrow> min_max_ts_from (Some (case acc of
              None \<Rightarrow> (lo, hi) | Some (a, b) \<Rightarrow> (min a lo, max b hi))) bs)"

definition min_max_ts_init_from_reader :: "(ts_column \<times> nat) result list \<Rightarrow> (nat \<times> nat) option result" where
  "min_max_ts_init_from_reader bs = min_max_ts_from None bs"

text \<open>An orphan: its length on disk and what the Parquet reader makes of it.\<close>

record orphan =
  or_path :: string
  or_directory :: string
  or_len :: nat
  or_batches :: "(ts_column \<times> nat) result list result"

definition finalize_orphan_part_file :: "part_env \<Rightarrow> orphan \<Rightarrow> store \<Rightarrow> string option result \<times> store" where
  "finalize_orphan_part_file env orp st =
     (if or_len orp = 0 then (Inr None, st\<lparr>fs_io := Suc (fs_io st)\<rparr>)
      else case or_batches orp of
          Inl e \<Rightarrow> (Inl e, st)
        | Inr bs \<Rightarrow>
            (case min_max_ts_init_from_reader bs of
               Inl e \<Rightarrow> (Inl e, st)
             | Inr None \<Rightarrow> (Inr None, st\<lparr>fs_io := Suc (fs_io st)\<rparr>)
             | Inr (Some (lo, hi)) \<Rightarrow>
                 (let (_, r, st) = rename_part_to_catalog_parquet env (or_path orp) (or_directory orp) lo hi st
                  in (map_result (\<lambda>(path, _). Some path) r, st))))"

text \<open>
  \<open>recover_orphans_under\<close> on the sorted list of orphans found: active parts are skipped, what
  cannot be recovered is logged and left, and the number of published ones is returned.
\<close>

fun recover_orphans ::
  "part_env \<Rightarrow> (string \<Rightarrow> bool) \<Rightarrow> orphan list \<Rightarrow> nat \<Rightarrow> store \<Rightarrow> nat \<times> store" where
  "recover_orphans env is_active [] recovered st = (recovered, st)"
| "recover_orphans env is_active (orp # os) recovered st =
     (if is_active (or_path orp) then recover_orphans env is_active os recovered st
      else let (r, st) = finalize_orphan_part_file env orp st
        in recover_orphans env is_active os
             (case r of Inr (Some _) \<Rightarrow> recovered + 1 | _ \<Rightarrow> recovered) st)"

subsection \<open>Lemmas\<close>

lemma ends_with_append: "ends_with suffix (xs @ suffix)"
  by (simp add: ends_with_def)

lemma column_values_ok: "column_values vs = Inr ns \<Longrightarrow> vs = map (\<lambda>n. Some (int n)) ns"
proof (induction vs arbitrary: ns rule: column_values.induct)
  case (3 v vs)
  then show ?case by (cases "column_values vs") (auto split: if_splits)
qed simp_all

lemma foldl_min: "foldl min (n :: nat) ns \<le> n \<and> (\<forall>x \<in> set ns. foldl min n ns \<le> x)
    \<and> foldl min n ns \<in> insert n (set ns)"
proof (induction ns arbitrary: n)
  case Nil
  then show ?case by simp
next
  case (Cons a ns)
  from Cons [of "min n a"] show ?case by (auto simp: min_def split: if_splits)
qed

lemma foldl_max: "n \<le> foldl max (n :: nat) ns \<and> (\<forall>x \<in> set ns. x \<le> foldl max n ns)
    \<and> foldl max n ns \<in> insert n (set ns)"
proof (induction ns arbitrary: n)
  case Nil
  then show ?case by simp
next
  case (Cons a ns)
  from Cons [of "max n a"] show ?case by (auto simp: max_def split: if_splits)
qed

text \<open>The range found for a batch is the least and the greatest of its timestamps.\<close>

lemma ts_range_exact:
  assumes "ts_init_range_from_batch (Column vs) = Inr (lo, hi)"
  shows "\<exists>ns. vs = map (\<lambda>n. Some (int n)) ns \<and> lo \<in> set ns \<and> hi \<in> set ns
    \<and> (\<forall>n \<in> set ns. lo \<le> n \<and> n \<le> hi)"
proof -
  obtain n ns where v: "column_values vs = Inr (n # ns)" "lo = foldl min n ns" "hi = foldl max n ns"
    using assms by (auto simp: ts_init_range_from_batch_def split: sum.splits list.splits)
  then show ?thesis using column_values_ok [OF v(1)] foldl_min [of n ns] foldl_max [of n ns]
    by (intro exI [of _ "n # ns"]) auto
qed

text \<open>Publication only ever adds a name that was not there.\<close>

lemma rename_paths:
  assumes "rename_part_to_catalog_parquet env pp d lo hi st = (visible, r, st')"
  shows "fs_paths st' = (if visible then final_path_for env pp d lo hi # fs_paths st else fs_paths st)"
    "visible \<Longrightarrow> final_path_for env pp d lo hi \<notin> set (fs_paths st)"
    "\<not> isl r \<Longrightarrow> visible \<and> fst (projr r) = final_path_for env pp d lo hi"
  using assms
  by (auto simp: rename_part_to_catalog_parquet_def io_def Let_def split: if_splits option.splits)

lemma part_seal_result:
  assumes "part_seal env p st = (file, r, st')"
  shows "\<not> isl r \<Longrightarrow> ap_count p \<noteq> 0 \<Longrightarrow> \<exists>f. file = Some f \<and> sf_rows f = ap_rows p
      \<and> sf_schema f = ap_schema p \<and> fr_files (projr r) = [sf_path f] \<and> fr_rows (projr r) = ap_count p
      \<and> sf_min f = ap_min p \<and> sf_max f = ap_max p"
    "ap_count p = 0 \<Longrightarrow> file = None \<and> r = Inr empty_result"
    "file = Some f \<Longrightarrow> f = published_of p (sf_path f) \<and> fs_paths st' = sf_path f # fs_paths st
      \<and> sf_path f \<notin> set (fs_paths st) \<and> ap_count p \<noteq> 0"
    "file = None \<Longrightarrow> fs_paths st' = fs_paths st"
proof -
  obtain v rr s3 where rn: "rename_part_to_catalog_parquet env (ap_path p) (ap_directory p) (ap_min p) (ap_max p)
      (snd (io env (snd (io env st)))) = (v, rr, s3)" by (metis prod_cases3)
  note rp = rename_paths [OF rn]
  have paths: "fs_paths (snd (io env (snd (io env st)))) = fs_paths st" by (simp add: io_def)
  show "\<not> isl r \<Longrightarrow> ap_count p \<noteq> 0 \<Longrightarrow> \<exists>f. file = Some f \<and> sf_rows f = ap_rows p
      \<and> sf_schema f = ap_schema p \<and> fr_files (projr r) = [sf_path f] \<and> fr_rows (projr r) = ap_count p
      \<and> sf_min f = ap_min p \<and> sf_max f = ap_max p"
    using assms rn rp by (auto simp: part_seal_def split_beta Let_def published_of_def split: option.splits sum.splits if_splits)
  show "ap_count p = 0 \<Longrightarrow> file = None \<and> r = Inr empty_result"
    using assms by (simp add: part_seal_def)
  show "file = Some f \<Longrightarrow> f = published_of p (sf_path f) \<and> fs_paths st' = sf_path f # fs_paths st
      \<and> sf_path f \<notin> set (fs_paths st) \<and> ap_count p \<noteq> 0"
    using assms rn rp paths
    by (auto simp: part_seal_def split_beta Let_def published_of_def quarantine_part_file_def
        split: option.splits sum.splits if_splits)
  show "file = None \<Longrightarrow> fs_paths st' = fs_paths st"
    using assms rn rp paths
    by (auto simp: part_seal_def split_beta Let_def quarantine_part_file_def io_def
        split: option.splits sum.splits if_splits)
qed

end
