(* ===== verification/Segment.thy ===== *)
theory Segment
  imports Part
begin

section \<open>The segment sink\<close>

text \<open>
  \<open>crates/catalog-capture-core/src/lifecycle/segment.rs\<close>: one open part per partition, sealed on
  schedule, at capacity, on a break of continuity and at shutdown. Each part carries, in its schema
  metadata, the replay window it belongs to and its ordinal in it. A window ends when continuity
  does; sealing on schedule or at capacity continues it.

  The row encoder (\<open>data_to_record_batches\<close>, \<open>chunk_metadata\<close>) and the catalogue's paths are
  parameters in \<open>segment_env\<close>. What the code relies on is that encoding keeps the rows:
  \<open>encode_ok\<close>. \<open>ss_published\<close> lists the files that became visible, oldest first, with the
  partition each was written for.
\<close>

record 't segment_env =
  se_part :: part_env
  se_ts :: "'t \<Rightarrow> nat"
  se_metadata :: "'t list \<Rightarrow> (string \<times> string) list"
  se_encode :: "'t list \<Rightarrow> (part_schema \<times> 't list list) result"
  se_make_path :: "string \<Rightarrow> string option \<Rightarrow> string result"
  se_type :: string
  se_root :: string
  se_order :: "nat \<Rightarrow> string list \<Rightarrow> string list"

definition encode_ok :: "'t segment_env \<Rightarrow> bool" where
  "encode_ok env = (\<forall>batch sch rbs. se_encode env batch = Inr (sch, rbs) \<longrightarrow> concat rbs = batch)"

record 't active_segment =
  sg_part :: "'t active_part"
  sg_identifier :: string
  sg_schema :: part_schema

record 't segment_sink =
  ss_segments :: "(string \<times> 't active_segment) list"
  ss_window_ids :: "(string \<times> (string \<times> nat)) list"
  ss_sync_interval :: nat
  ss_store :: store
  ss_published :: "(string \<times> 't sealed_file) list"

definition window_id_key :: string where "window_id_key = ''capture_window_id''"
definition initialization_rows_key :: string where "initialization_rows_key = ''capture_initialization_rows''"
definition segment_index_key :: string where "segment_index_key = ''capture_segment_index''"
definition contract_key :: string where "contract_key = ''capture_contract''"
definition contract_version :: string where "contract_version = ''native_frames_v1''"

text \<open>The window and ordinal of the next part of a partition: the current window, or a new one.\<close>

definition enter_window :: "'t segment_env \<Rightarrow> string \<Rightarrow> 't segment_sink \<Rightarrow> (string \<times> nat) \<times> 't segment_sink" where
  "enter_window env key s =
     (case map_of (ss_window_ids s) key of
        Some w \<Rightarrow> (w, s)
      | None \<Rightarrow>
          let w = (pe_uuid (se_part env) (fs_io (ss_store s)), 0)
          in (w, s\<lparr>ss_window_ids := AList.update key w (ss_window_ids s),
                   ss_store := (ss_store s)\<lparr>fs_io := Suc (fs_io (ss_store s))\<rparr>\<rparr>))"

definition window_schema :: "string \<Rightarrow> nat \<Rightarrow> nat \<Rightarrow> part_schema \<Rightarrow> part_schema" where
  "window_schema window_id index initialization_rows sch = sch\<lparr>sch_metadata :=
     AList.update initialization_rows_key (show_nat initialization_rows)
       (AList.update contract_key contract_version
         (AList.update segment_index_key (show_nat index)
           (AList.update window_id_key window_id (sch_metadata sch))))\<rparr>"

definition open_segment ::
  "'t segment_env \<Rightarrow> string \<Rightarrow> string \<Rightarrow> string \<Rightarrow> part_schema \<Rightarrow> nat \<Rightarrow> nat \<Rightarrow> 't segment_sink \<Rightarrow>
   unit result \<times> 't segment_sink" where
  "open_segment env key directory ident sch open_ts init_rows s =
     (let ((window_id, index), s) = enter_window env key s;
          sch = window_schema window_id index init_rows sch;
          (part, st) = part_open (se_part env) directory open_ts sch (ss_store s);
          s = s\<lparr>ss_store := st\<rparr>
      in case part of
           Inl e \<Rightarrow> (Inl e, s)
         | Inr p \<Rightarrow> (Inr (), s\<lparr>ss_segments := AList.update key
             \<lparr>sg_part = p, sg_identifier = ident, sg_schema = sch\<rparr> (ss_segments s)\<rparr>))"

definition segment_active_writers :: "'t segment_sink \<Rightarrow> nat" where
  "segment_active_writers s = length (ss_segments s)"

text \<open>One timed sync of one part, and the pass over all of them.\<close>

definition tick_segment :: "'t segment_env \<Rightarrow> nat \<Rightarrow> string \<Rightarrow> 't segment_sink \<Rightarrow> flush_result result \<times> 't segment_sink" where
  "tick_segment env now key s =
     (case map_of (ss_segments s) key of
        None \<Rightarrow> (Inr empty_result, s)
      | Some seg \<Rightarrow>
          let (r, p, st) = part_tick (se_part env) (ss_sync_interval s) now (sg_part seg) (ss_store s)
          in (map_result (\<lambda>_. empty_result) r, s\<lparr>ss_store := st,
               ss_segments := AList.update key (seg\<lparr>sg_part := p\<rparr>) (ss_segments s)\<rparr>))"

definition segment_on_tick :: "'t segment_env \<Rightarrow> nat \<Rightarrow> 't segment_sink \<Rightarrow> flush_result result \<times> 't segment_sink" where
  "segment_on_tick env now s =
     (let keys = se_order env (fs_io (ss_store s)) (hm_keys (ss_segments s));
          (rs, s) = map_state (tick_segment env now) keys s
      in (collect_flush_results rs, s))"

definition seal_segment ::
  "'t segment_env \<Rightarrow> string \<Rightarrow> bool \<Rightarrow> 't segment_sink \<Rightarrow> flush_result result \<times> 't segment_sink" where
  "seal_segment env key reopen_after_seal s =
     (case map_of (ss_segments s) key of
        None \<Rightarrow> (Inr empty_result, s)
      | Some seg \<Rightarrow>
          let s = s\<lparr>ss_segments := AList.delete key (ss_segments s)\<rparr>;
              (file, r, st) = part_seal (se_part env) (sg_part seg) (ss_store s);
              s = s\<lparr>ss_store := st, ss_published := ss_published s
                    @ (case file of None \<Rightarrow> [] | Some f \<Rightarrow> [(key, f)])\<rparr>
          in (case r of
                Inl e \<Rightarrow> (Inl e, s\<lparr>ss_window_ids := AList.delete key (ss_window_ids s)\<rparr>)
              | Inr sealed \<Rightarrow>
                  let s = (if fr_files sealed = [] then s
                           else case map_of (ss_window_ids s) key of
                               None \<Rightarrow> s
                             | Some (w, index) \<Rightarrow> s\<lparr>ss_window_ids :=
                                 AList.update key (w, sat_add index 1) (ss_window_ids s)\<rparr>)
                  in if reopen_after_seal \<and> fr_files sealed \<noteq> []
                     then let (opened, s) = open_segment env key (ap_directory (sg_part seg))
                                (sg_identifier seg) (sg_schema seg) (ap_max (sg_part seg)) 0 s
                          in (map_result (\<lambda>_. sealed) opened, s)
                     else (Inr sealed, s)))"

definition segment_seal_all_internal ::
  "'t segment_env \<Rightarrow> bool \<Rightarrow> 't segment_sink \<Rightarrow> flush_result result \<times> 't segment_sink" where
  "segment_seal_all_internal env reopen_after_seal s =
     (let keys = se_order env (fs_io (ss_store s)) (hm_keys (ss_segments s));
          (rs, s) = map_state (\<lambda>key. seal_segment env key reopen_after_seal) keys s
      in (collect_flush_results rs, s))"

definition segment_seal_all :: "'t segment_env \<Rightarrow> 't segment_sink \<Rightarrow> flush_result result \<times> 't segment_sink" where
  "segment_seal_all env s = segment_seal_all_internal env False s"

definition segment_seal_all_for_shutdown :: "'t segment_env \<Rightarrow> 't segment_sink \<Rightarrow> flush_result result \<times> 't segment_sink" where
  "segment_seal_all_for_shutdown env s = segment_seal_all_internal env False s"

definition segment_seal_partition :: "'t segment_env \<Rightarrow> string \<Rightarrow> 't segment_sink \<Rightarrow> flush_result result \<times> 't segment_sink" where
  "segment_seal_partition env key s =
     seal_segment env key False (s\<lparr>ss_window_ids := AList.delete key (ss_window_ids s)\<rparr>)"

definition segment_break_continuity ::
  "'t segment_env \<Rightarrow> string option \<Rightarrow> 't segment_sink \<Rightarrow> flush_result result \<times> 't segment_sink" where
  "segment_break_continuity env key s =
     (case key of
        Some k \<Rightarrow> segment_seal_partition env k s
      | None \<Rightarrow> segment_seal_all env (s\<lparr>ss_window_ids := []\<rparr>))"

definition roll_if_at_capacity :: "'t segment_env \<Rightarrow> string \<Rightarrow> 't segment_sink \<Rightarrow> string list result \<times> 't segment_sink" where
  "roll_if_at_capacity env key s =
     (case map_of (ss_segments s) key of
        None \<Rightarrow> (Inr [], s)
      | Some seg \<Rightarrow>
          if \<not> needs_capacity_roll (sg_part seg) then (Inr [], s)
          else let (r, s) = seal_segment env key True s in (map_result fr_files r, s))"

text \<open>\<open>try_for_each\<close>: the record batches in order, up to the first error.\<close>

fun write_record_batches ::
  "part_env \<Rightarrow> 't list list \<Rightarrow> 't active_part \<Rightarrow> store \<Rightarrow> (cap_error option \<times> 't active_part) \<times> store" where
  "write_record_batches env [] p st = ((None, p), st)"
| "write_record_batches env (b # bs) p st =
     (let ((r, p), st) = write_record_batch env b p st
      in case r of Some e \<Rightarrow> ((Some e, p), st) | None \<Rightarrow> write_record_batches env bs p st)"

text \<open>The write proper, on an open segment: a failed part is retired with its window.\<close>

definition append_batches ::
  "'t segment_env \<Rightarrow> string \<Rightarrow> 't list list \<Rightarrow> nat \<Rightarrow> nat \<Rightarrow> 't segment_sink \<Rightarrow> unit result \<times> 't segment_sink" where
  "append_batches env key batches lo hi s =
     (case map_of (ss_segments s) key of
        None \<Rightarrow> (Inl (External ''segment opened above''), s)
      | Some seg \<Rightarrow>
          let ((r, p), st) = write_record_batches (se_part env) batches (sg_part seg) (ss_store s)
          in (case r of
                Some e \<Rightarrow> (Inl e, s\<lparr>ss_window_ids := AList.delete key (ss_window_ids s),
                    ss_segments := AList.delete key (ss_segments s),
                    ss_store := quarantine_part_file (ap_path p) st\<rparr>)
              | None \<Rightarrow> (Inr (), s\<lparr>ss_store := st, ss_segments :=
                    AList.update key (seg\<lparr>sg_part := note_ts_range lo hi p\<rparr>) (ss_segments s)\<rparr>)))"

definition batch_identifier :: "(string \<times> string) list \<Rightarrow> string result" where
  "batch_identifier metadata =
     (case map_of metadata ''instrument_id'' of
        Some i \<Rightarrow> Inr i
      | None \<Rightarrow> (case map_of metadata ''bar_type'' of
          Some i \<Rightarrow> Inr i | None \<Rightarrow> Inl MissingInstrumentMetadata))"

definition write_batch_inner ::
  "'t segment_env \<Rightarrow> string \<Rightarrow> 't list \<Rightarrow> nat \<Rightarrow> 't segment_sink \<Rightarrow> string list result \<times> 't segment_sink" where
  "write_batch_inner env key batch init_rows s =
     (case map (se_ts env) batch of
        [] \<Rightarrow> (Inr [], s)
      | t # ts \<Rightarrow>
          let lo = foldl min t ts; hi = foldl max t ts
          in case batch_identifier (se_metadata env batch) of
               Inl e \<Rightarrow> (Inl e, s)
             | Inr ident \<Rightarrow>
                 (case se_encode env batch of
                    Inl e \<Rightarrow> (Inl e, s)
                  | Inr (sch, batches) \<Rightarrow>
                      (case catalog_fs_directory (se_root env) (se_make_path env) (se_type env) (Some ident) of
                         Inl e \<Rightarrow> (Inl e, s)
                       | Inr directory \<Rightarrow>
                           (case roll_if_at_capacity env key s of
                              (Inl e, s) \<Rightarrow> (Inl e, s)
                            | (Inr sealed, s) \<Rightarrow>
                                (case (if map_of (ss_segments s) key = None
                                       then open_segment env key directory ident sch lo init_rows s
                                       else (Inr (), s)) of
                                   (Inl e, s) \<Rightarrow> (Inl e, s)
                                 | (Inr _, s) \<Rightarrow>
                                     (case append_batches env key batches lo hi s of
                                        (Inl e, s) \<Rightarrow> (Inl e, s)
                                      | (Inr _, s) \<Rightarrow>
                                          let (more, s) = roll_if_at_capacity env key s
                                          in (map_result (\<lambda>m. sealed @ m) more, s)))))))"

definition segment_write_batch :: "'t segment_env \<Rightarrow> string \<Rightarrow> 't list \<Rightarrow> 't segment_sink \<Rightarrow> string list result \<times> 't segment_sink" where
  "segment_write_batch env key batch s = write_batch_inner env key batch 0 s"

definition segment_write_initialization ::
  "'t segment_env \<Rightarrow> string \<Rightarrow> 't list \<Rightarrow> 't segment_sink \<Rightarrow> string list result \<times> 't segment_sink" where
  "segment_write_initialization env key batch s =
     (if map_of (ss_segments s) key \<noteq> None then (Inl InitializationNeedsFreshSegment, s)
      else write_batch_inner env key batch (length batch) s)"

text \<open>\<open>segment_runtime_parts\<close>: the checks at construction; the sync interval is what the model needs of the rest.\<close>

definition segment_runtime_parts ::
  "(seal_config_file \<Rightarrow> 'x result) \<Rightarrow> capture_config \<Rightarrow> (string \<times> nat) result" where
  "segment_runtime_parts resolve_seal_schedule c =
     (case validate_capture_config c of
        Inl e \<Rightarrow> Inl e
      | Inr _ \<Rightarrow>
          if \<not> is_segment_mode (cc_lifecycle c) then Inl (InvalidConfig ''lifecycle.mode'')
          else if \<not> starts_with ''file://'' (cc_catalog_uri c) then Inl (InvalidConfig ''catalog_uri'')
          else map_result (\<lambda>_. (drop 7 (cc_catalog_uri c),
                 sat_mul (lc_sync_interval_ms (cc_lifecycle c)) 1000000))
               (resolved_seal resolve_seal_schedule (cc_lifecycle c)))"

definition segment_from_config ::
  "part_env \<Rightarrow> (seal_config_file \<Rightarrow> 'x result) \<Rightarrow> capture_config \<Rightarrow> orphan list result \<Rightarrow> store \<Rightarrow>
   't segment_sink result" where
  "segment_from_config env resolve_seal_schedule c found st =
     (case segment_runtime_parts resolve_seal_schedule c of
        Inl e \<Rightarrow> Inl e
      | Inr (root, sync_interval) \<Rightarrow>
          (case found of
             Inl e \<Rightarrow> Inl e
           | Inr orphans \<Rightarrow> Inr \<lparr>ss_segments = [], ss_window_ids = [], ss_sync_interval = sync_interval,
               ss_store = snd (recover_orphans env (\<lambda>_. False) orphans 0 st), ss_published = []\<rparr>))"

text \<open>The sink as \<open>CatalogSink::Segment\<close> dispatches to it.\<close>

definition segment_ops :: "'t segment_env \<Rightarrow> ('t, 't segment_sink) sink_ops" where
  "segment_ops env = \<lparr>
     so_write_batch = segment_write_batch env,
     so_write_initialization = default_write_initialization (segment_write_batch env),
     so_on_tick = segment_on_tick env,
     so_seal_all = segment_seal_all env,
     so_seal_partition = segment_seal_partition env,
     so_seal_all_for_shutdown = segment_seal_all_for_shutdown env,
     so_break_continuity = segment_break_continuity env,
     so_active_writers = segment_active_writers,
     so_is_segment_mode = (\<lambda>_. True)\<rparr>"

subsection \<open>The rows a partition has\<close>

definition published_rows :: "(string \<times> 't sealed_file) list \<Rightarrow> string \<Rightarrow> 't list" where
  "published_rows fs k = concat (map (sf_rows \<circ> snd) (filter (\<lambda>x. fst x = k) fs))"

definition open_rows :: "(string \<times> 't active_segment) list \<Rightarrow> string \<Rightarrow> 't list" where
  "open_rows segs k = (case map_of segs k of None \<Rightarrow> [] | Some seg \<Rightarrow> ap_rows (sg_part seg))"

definition seg_rows :: "'t segment_sink \<Rightarrow> string \<Rightarrow> 't list" where
  "seg_rows s k = published_rows (ss_published s) k @ open_rows (ss_segments s) k"

definition seg_ok :: "'t segment_sink \<Rightarrow> bool" where
  "seg_ok s = (hm_valid (ss_segments s) \<and> (\<forall>k seg. map_of (ss_segments s) k = Some seg \<longrightarrow>
     ap_count (sg_part seg) = length (ap_rows (sg_part seg))))"

lemma published_rows_append [simp]:
  "published_rows (fs @ gs) k = published_rows fs k @ published_rows gs k"
  "published_rows [] k = []"
  "published_rows [(k', f)] k = (if k' = k then sf_rows f else [])"
  by (simp_all add: published_rows_def)

lemma open_rows_simps [simp]:
  "open_rows (AList.delete key segs) k = (if k = key then [] else open_rows segs k)"
  "open_rows (AList.update key seg segs) k = (if k = key then ap_rows (sg_part seg) else open_rows segs k)"
  by (simp_all add: open_rows_def hm.get_ins hm.get_del)

lemma seg_rows_cong:
  "ss_published s' = ss_published s \<Longrightarrow> ss_segments s' = ss_segments s \<Longrightarrow> seg_rows s' = seg_rows s"
  by (simp add: seg_rows_def fun_eq_iff)

lemma seg_ok_cong: "ss_segments s' = ss_segments s \<Longrightarrow> seg_ok s' = seg_ok s"
  by (simp add: seg_ok_def)

lemma seg_ok_delete: "seg_ok s \<Longrightarrow> ss_segments s' = AList.delete k (ss_segments s) \<Longrightarrow> seg_ok s'"
  by (auto simp: seg_ok_def hm.valid_del hm.get_del split: if_splits)

lemma seg_ok_update:
  "seg_ok s \<Longrightarrow> ss_segments s' = AList.update k seg (ss_segments s) \<Longrightarrow>
   ap_count (sg_part seg) = length (ap_rows (sg_part seg)) \<Longrightarrow> seg_ok s'"
  by (auto simp: seg_ok_def hm.valid_ins hm.get_ins split: if_splits)

lemma enter_window_simps:
  "ss_segments (snd (enter_window env key s)) = ss_segments s"
  "ss_published (snd (enter_window env key s)) = ss_published s"
  "ss_sync_interval (snd (enter_window env key s)) = ss_sync_interval s"
  by (simp_all add: enter_window_def Let_def split: option.splits)

lemma part_open_new:
  assumes "part_open env d ts sch st = (Inr p, st')"
  shows "ap_rows p = [] \<and> ap_count p = 0 \<and> ap_schema p = sch"
  using assms by (auto simp: part_open_def Let_def split_beta split: option.splits)

lemma open_segment_rows:
  fixes s :: "'t segment_sink"
  assumes ok: "seg_ok s" and new: "map_of (ss_segments s) key = None"
    and op: "open_segment env key d ident sch ts ini s = (r, s')"
  shows "seg_rows s' = seg_rows s" "seg_ok s'" "ss_published s' = ss_published s"
    "r = Inr () \<Longrightarrow> map_of (ss_segments s') key \<noteq> None"
proof -
  obtain w i s1 where w: "enter_window env key s = ((w, i), s1)" by (metis prod.exhaust)
  note ew = enter_window_simps [of env key s, unfolded w, simplified]
  obtain part :: "'t active_part result" and st where p: "part_open (se_part env) d ts (window_schema w i ini sch) (ss_store s1) = (part, st)"
    by fastforce
  have "seg_rows s' = seg_rows s \<and> seg_ok s' \<and> ss_published s' = ss_published s
    \<and> (r = Inr () \<longrightarrow> map_of (ss_segments s') key \<noteq> None)"
  proof (cases part)
    case (Inl e)
    with op w p have "s' = s1\<lparr>ss_store := st\<rparr>" "r = Inl e" by (auto simp: open_segment_def Let_def)
    moreover have "ss_segments s' = ss_segments s" "ss_published s' = ss_published s"
      using ew calculation by simp_all
    ultimately show ?thesis using ok seg_rows_cong [of s' s] seg_ok_cong [of s' s] by simp
  next
    case (Inr q)
    define seg where "seg = \<lparr>sg_part = q, sg_identifier = ident, sg_schema = window_schema w i ini sch\<rparr>"
    from op w p Inr have s': "s' = s1\<lparr>ss_store := st, ss_segments := AList.update key seg (ss_segments s)\<rparr>"
      using ew by (auto simp: seg_def open_segment_def Let_def)
    have q: "ap_rows q = []" "ap_count q = 0" using part_open_new [of _ _ _ _ _ q] p Inr by auto
    have "seg_ok s'" using q by (intro seg_ok_update [OF ok, of s' key seg]) (simp_all add: s' seg_def)
    then show ?thesis using q new ew
      by (auto simp: s' seg_rows_def fun_eq_iff seg_def open_rows_def hm.get_ins)
  qed
  then show "seg_rows s' = seg_rows s" "seg_ok s'" "ss_published s' = ss_published s"
    "r = Inr () \<Longrightarrow> map_of (ss_segments s') key \<noteq> None" by auto
qed

text \<open>Sealing a segment: its rows move to the published files, or the failure is reported.\<close>

lemma seal_segment_rows:
  assumes ok: "seg_ok s" and seal: "seal_segment env key reopen s = (r, s')"
  shows "k \<noteq> key \<Longrightarrow> seg_rows s' k = seg_rows s k" "\<not> isl r \<Longrightarrow> seg_rows s' = seg_rows s" "seg_ok s'"
proof -
  have "(k \<noteq> key \<longrightarrow> seg_rows s' k = seg_rows s k) \<and> (\<not> isl r \<longrightarrow> seg_rows s' = seg_rows s) \<and> seg_ok s'" for k
  proof (cases "map_of (ss_segments s) key")
    case None
    with seal ok show ?thesis by (auto simp: seal_segment_def)
  next
    case (Some seg)
    have count: "ap_count (sg_part seg) = length (ap_rows (sg_part seg))"
      using ok Some by (simp add: seg_ok_def)
    obtain pub r1 st where p: "part_seal (se_part env) (sg_part seg) (ss_store s) = (pub, r1, st)"
      by (metis prod_cases3)
    note ps = part_seal_result [OF p]
    define s1 where "s1 = s\<lparr>ss_segments := AList.delete key (ss_segments s), ss_store := st,
      ss_published := ss_published s @ (case pub of None \<Rightarrow> [] | Some f \<Rightarrow> [(key, f)])\<rparr>"
    have ok1: "seg_ok s1" by (rule seg_ok_delete [OF ok]) (simp add: s1_def)
    have other: "seg_rows s1 k = seg_rows s k" if "k \<noteq> key" for k
      using that by (simp add: s1_def seg_rows_def split: option.splits)
    have same: "seg_rows s1 = seg_rows s" if "\<not> isl r1"
    proof
      fix k
      show "seg_rows s1 k = seg_rows s k"
      proof (cases "k = key")
        case True
        then show ?thesis using ps(1,2) that count Some
          by (cases "ap_count (sg_part seg) = 0") (auto simp: s1_def seg_rows_def open_rows_def hm.get_del)
      qed (rule other)
    qed
    show ?thesis
    proof (cases r1)
      case (Inl e)
      then have "r = Inl e" "s' = s1\<lparr>ss_window_ids := AList.delete key (ss_window_ids s)\<rparr>"
        using seal Some p by (auto simp: seal_segment_def s1_def)
      then show ?thesis using other ok1 seg_rows_cong [of s' s1] seg_ok_cong [of s' s1] by auto
    next
      case (Inr sealed)
      define s2 where "s2 = (if fr_files sealed = [] then s1 else case map_of (ss_window_ids s1) key of
          None \<Rightarrow> s1 | Some (w, index) \<Rightarrow> s1\<lparr>ss_window_ids := AList.update key (w, sat_add index 1) (ss_window_ids s1)\<rparr>)"
      have s2: "seg_rows s2 = seg_rows s1" "seg_ok s2" "ss_segments s2 = ss_segments s1"
      proof -
        have "ss_segments s2 = ss_segments s1" "ss_published s2 = ss_published s1"
          by (auto simp: s2_def split: option.splits)
        then show "seg_rows s2 = seg_rows s1" "seg_ok s2" "ss_segments s2 = ss_segments s1"
          using ok1 seg_rows_cong [of s2 s1] seg_ok_cong [of s2 s1] by auto
      qed
      have win: "ss_window_ids s1 = ss_window_ids s" by (simp add: s1_def)
      show ?thesis
      proof (cases "reopen \<and> fr_files sealed \<noteq> []")
        case False
        then have "r = Inr sealed" "s' = s2"
          using seal Some p Inr by (auto simp: seal_segment_def s1_def s2_def Let_def split: option.splits)
        with s2 same Inr show ?thesis by simp
      next
        case True
        obtain o' s3 where op: "open_segment env key (ap_directory (sg_part seg)) (sg_identifier seg)
            (sg_schema seg) (ap_max (sg_part seg)) 0 s2 = (o', s3)" by fastforce
        have s': "s' = s3"
          using seal Some p Inr True op by (auto simp: seal_segment_def s1_def s2_def Let_def split: option.splits)
        have "map_of (ss_segments s2) key = None" by (simp add: s2(3) s1_def hm.get_del)
        from open_segment_rows [OF s2(2) this op] s2 same Inr show ?thesis by (simp add: s')
      qed
    qed
  qed
  then show "k \<noteq> key \<Longrightarrow> seg_rows s' k = seg_rows s k" "\<not> isl r \<Longrightarrow> seg_rows s' = seg_rows s" "seg_ok s'"
    by auto
qed

lemma map_state_results:
  assumes "I s" and "\<And>x s. I s \<Longrightarrow> I (snd (f x s)) \<and> (\<not> isl (fst (f x s)) \<longrightarrow> g (snd (f x s)) = g s)"
  shows "I (snd (map_state f xs s))
    \<and> ((\<forall>r \<in> set (fst (map_state f xs s)). \<not> isl r) \<longrightarrow> g (snd (map_state f xs s)) = g s)"
  using assms(1)
proof (induction xs arbitrary: s)
  case Nil
  then show ?case by simp
next
  case (Cons x xs)
  from Cons.IH [of "snd (f x s)"] assms(2) [OF Cons.prems, of x] show ?case
    by (simp add: split_beta Let_def)
qed

lemma seal_all_internal_rows:
  assumes ok: "seg_ok s"
  shows "seg_ok (snd (segment_seal_all_internal env reopen s))
    \<and> (\<not> isl (fst (segment_seal_all_internal env reopen s)) \<longrightarrow>
        seg_rows (snd (segment_seal_all_internal env reopen s)) = seg_rows s)"
proof -
  have step: "seg_ok (snd (seal_segment env key reopen s))
      \<and> (\<not> isl (fst (seal_segment env key reopen s)) \<longrightarrow>
          seg_rows (snd (seal_segment env key reopen s)) = seg_rows s)" if "seg_ok s" for key s
    using seal_segment_rows(2,3) [OF that prod.collapse [symmetric]] by blast
  from map_state_results [where I = seg_ok and g = seg_rows and f = "\<lambda>key. seal_segment env key reopen", OF ok step]
  show ?thesis
    by (simp add: segment_seal_all_internal_def Let_def split_beta collect_flush_results_isl)
qed

lemma tick_rows:
  assumes ok: "seg_ok s"
  shows "seg_ok (snd (segment_on_tick env now s)) \<and> seg_rows (snd (segment_on_tick env now s)) = seg_rows s"
proof -
  have step: "seg_rows s = seg_rows (snd (tick_segment env now key s)) \<and> seg_ok (snd (tick_segment env now key s))"
    if "seg_ok s" for key s
  proof (cases "map_of (ss_segments s) key")
    case None
    then show ?thesis using that by (simp add: tick_segment_def)
  next
    case (Some seg)
    obtain r p st where t: "part_tick (se_part env) (ss_sync_interval s) now (sg_part seg) (ss_store s) = (r, p, st)"
      by (metis prod_cases3)
    then have p: "ap_rows p = ap_rows (sg_part seg)" "ap_count p = ap_count (sg_part seg)"
      by (auto simp: part_tick_def split_beta Let_def split: if_splits option.splits)
    let ?s' = "s\<lparr>ss_store := st, ss_segments := AList.update key (seg\<lparr>sg_part := p\<rparr>) (ss_segments s)\<rparr>"
    have "seg_ok ?s'" using that Some p by (intro seg_ok_update [OF that, of ?s' key]) (auto simp: seg_ok_def)
    moreover have "seg_rows ?s' = seg_rows s"
      using p Some by (auto simp: seg_rows_def fun_eq_iff open_rows_def hm.get_ins)
    ultimately show ?thesis using Some t by (simp add: tick_segment_def)
  qed
  have "seg_rows s = seg_rows (snd (map_state (tick_segment env now) keys s))
      \<and> seg_ok (snd (map_state (tick_segment env now) keys s))" for keys
    by (rule map_state_induct [where R = "\<lambda>a b. seg_rows a = seg_rows b" and I = seg_ok]) (use step ok in auto)
  then show ?thesis by (simp add: segment_on_tick_def Let_def split_beta)
qed

subsection \<open>Writing\<close>

lemma roll_rows:
  assumes ok: "seg_ok s" and roll: "roll_if_at_capacity env key s = (r, s')"
  shows "k \<noteq> key \<Longrightarrow> seg_rows s' k = seg_rows s k" "\<not> isl r \<Longrightarrow> seg_rows s' = seg_rows s" "seg_ok s'"
proof -
  obtain r1 s1 where seal: "seal_segment env key True s = (r1, s1)" by fastforce
  note sr = seal_segment_rows [OF ok seal]
  have "(s' = s \<and> \<not> isl r) \<or> (s' = s1 \<and> isl r = isl r1)"
    using roll seal by (auto simp: roll_if_at_capacity_def split: option.splits if_splits)
  then show "k \<noteq> key \<Longrightarrow> seg_rows s' k = seg_rows s k" "\<not> isl r \<Longrightarrow> seg_rows s' = seg_rows s" "seg_ok s'"
    using sr ok by auto
qed

lemma write_record_batches_rows:
  assumes "write_record_batches env bs p st = ((r, p'), st')" "ap_count p = length (ap_rows p)"
  shows "(r = None \<longrightarrow> ap_rows p' = ap_rows p @ concat bs) \<and> ap_count p' = length (ap_rows p')"
  using assms
proof (induction bs arbitrary: p st)
  case Nil
  then show ?case by simp
next
  case (Cons b bs)
  obtain r1 p1 st1 where w: "write_record_batch env b p st = ((r1, p1), st1)" by (metis prod.exhaust)
  then have p1: "r1 = None \<Longrightarrow> ap_rows p1 = ap_rows p @ b" "ap_count p1 = length (ap_rows p1)"
    using Cons.prems(2) by (auto simp: write_record_batch_def Let_def split_beta split: option.splits if_splits)
  show ?case
  proof (cases r1)
    case None
    then have "write_record_batches env bs p1 st1 = ((r, p'), st')" using Cons.prems(1) w by simp
    from Cons.IH [OF this p1(2)] p1(1) [OF None] show ?thesis by simp
  next
    case (Some e)
    then have "r = Some e \<and> p' = p1" using Cons.prems(1) w by simp
    with p1 show ?thesis by simp
  qed
qed

lemma append_batches_rows:
  assumes ok: "seg_ok s" and app: "append_batches env key bs lo hi s = (r, s')"
  shows "k \<noteq> key \<Longrightarrow> seg_rows s' k = seg_rows s k" "seg_ok s'"
    "r = Inr () \<Longrightarrow> seg_rows s' k = (if k = key then seg_rows s k @ concat bs else seg_rows s k)"
proof -
  have "(k \<noteq> key \<longrightarrow> seg_rows s' k = seg_rows s k) \<and> seg_ok s'
      \<and> (r = Inr () \<longrightarrow> seg_rows s' k = (if k = key then seg_rows s k @ concat bs else seg_rows s k))"
  proof (cases "map_of (ss_segments s) key")
    case None
    then show ?thesis using app ok by (auto simp: append_batches_def)
  next
    case (Some seg)
    obtain r1 p st where w: "write_record_batches (se_part env) bs (sg_part seg) (ss_store s) = ((r1, p), st)"
      by (metis prod.exhaust)
    have "ap_count (sg_part seg) = length (ap_rows (sg_part seg))" using ok Some by (simp add: seg_ok_def)
    note wr = write_record_batches_rows [OF w this]
    show ?thesis
    proof (cases r1)
      case (Some e)
      then have "ss_segments s' = AList.delete key (ss_segments s)" "ss_published s' = ss_published s" "isl r"
        using app w \<open>map_of (ss_segments s) key = Some seg\<close> by (auto simp: append_batches_def)
      with seg_ok_delete [OF ok this(1)] show ?thesis by (auto simp: seg_rows_def)
    next
      case None
      let ?seg = "seg\<lparr>sg_part := note_ts_range lo hi p\<rparr>"
      have s': "ss_segments s' = AList.update key ?seg (ss_segments s)" "ss_published s' = ss_published s"
        using app w \<open>map_of (ss_segments s) key = Some seg\<close> None by (auto simp: append_batches_def)
      have "seg_ok s'" using wr by (intro seg_ok_update [OF ok s'(1)]) (simp add: note_ts_range_def)
      moreover have "open_rows (ss_segments s) key = ap_rows (sg_part seg)" using Some by (simp add: open_rows_def)
      ultimately show ?thesis using s' wr None by (auto simp: seg_rows_def note_ts_range_def)
    qed
  qed
  then show "k \<noteq> key \<Longrightarrow> seg_rows s' k = seg_rows s k" "seg_ok s'"
    "r = Inr () \<Longrightarrow> seg_rows s' k = (if k = key then seg_rows s k @ concat bs else seg_rows s k)" by auto
qed

lemma write_batch_inner_rows:
  assumes enc: "encode_ok env" and ok: "seg_ok s" and w: "write_batch_inner env key batch ini s = (r, s')"
  shows "k \<noteq> key \<Longrightarrow> seg_rows s' k = seg_rows s k" "seg_ok s'"
    "\<not> isl r \<Longrightarrow> seg_rows s' k = (if k = key then seg_rows s k @ batch else seg_rows s k)"
proof -
  let ?goal = "(k \<noteq> key \<longrightarrow> seg_rows s' k = seg_rows s k) \<and> seg_ok s'
    \<and> (\<not> isl r \<longrightarrow> seg_rows s' k = (if k = key then seg_rows s k @ batch else seg_rows s k))"
  have ?goal
  proof (cases "map (se_ts env) batch")
    case Nil
    then show ?thesis using w ok by (simp add: write_batch_inner_def)
  next
    case (Cons t ts)
    note w1 = w [unfolded write_batch_inner_def Cons list.case Let_def]
    show ?thesis
    proof (cases "batch_identifier (se_metadata env batch)")
      case (Inl e)
      then show ?thesis using w1 ok by auto
    next
      case (Inr ident)
      note w2 = w1 [unfolded Inr sum.case]
      show ?thesis
      proof (cases "se_encode env batch")
        case (Inl e)
        then show ?thesis using w2 ok by auto
      next
        case (Inr eb)
        obtain sch bs where eb: "eb = (sch, bs)" by fastforce
        have rows: "concat bs = batch" using enc Inr eb by (simp add: encode_ok_def)
        note w3 = w2 [unfolded Inr eb sum.case prod.case]
        show ?thesis
        proof (cases "catalog_fs_directory (se_root env) (se_make_path env) (se_type env) (Some ident)")
          case (Inl e)
          then show ?thesis using w3 ok by auto
        next
          case (Inr dir)
          note w4 = w3 [unfolded Inr sum.case]
          obtain r1 s1 where roll: "roll_if_at_capacity env key s = (r1, s1)" by fastforce
          note rr = roll_rows [OF ok roll]
          show ?thesis
          proof (cases r1)
            case (Inl e)
            then show ?thesis using w4 roll rr by auto
          next
            case (Inr sealed)
            note w5 = w4 [unfolded roll Inr prod.case sum.case]
            obtain r2 s2 where op: "(if map_of (ss_segments s1) key = None
                then open_segment env key dir ident sch (foldl min t ts) ini s1 else (Inr (), s1)) = (r2, s2)"
              by fastforce
            have o2: "seg_rows s2 = seg_rows s1" "seg_ok s2"
              using open_segment_rows(1,2) [OF rr(3)] op rr(3) by (auto split: if_splits)
            have r1: "seg_rows s1 = seg_rows s" using rr(2) Inr by simp
            show ?thesis
            proof (cases r2)
              case (Inl e)
              then show ?thesis using w5 op o2 r1 by auto
            next
              case (Inr u)
              note w6 = w5 [unfolded op Inr prod.case sum.case]
              obtain r3 s3 where app: "append_batches env key bs (foldl min t ts) (foldl max t ts) s2 = (r3, s3)"
                by fastforce
              note ap = append_batches_rows [OF o2(2) app]
              show ?thesis
              proof (cases r3)
                case (Inl e)
                then show ?thesis using w6 app ap(1) [of k] ap(2) o2 r1 by auto
              next
                case (Inr u3)
                obtain r4 s4 where roll4: "roll_if_at_capacity env key s3 = (r4, s4)" by fastforce
                note rr4 = roll_rows [OF ap(2) roll4]
                have s': "s' = s4" "isl r = isl r4" using w6 app Inr roll4 by auto
                show ?thesis using ap(3) [of k] ap(1) [of k] Inr rr4(1) [of k] rr4(2,3) s' o2 r1 rows by auto
              qed
            qed
          qed
        qed
      qed
    qed
  qed
  then show "k \<noteq> key \<Longrightarrow> seg_rows s' k = seg_rows s k" "seg_ok s'"
    "\<not> isl r \<Longrightarrow> seg_rows s' k = (if k = key then seg_rows s k @ batch else seg_rows s k)" by auto
qed

subsection \<open>The segment sink keeps the sink contract\<close>

text \<open>
  The interface towards the encoder is that it keeps the rows; under it the segment sink is a
  \<open>capture_sink\<close>.
\<close>

locale row_encoder =
  fixes env :: "'t segment_env"
  assumes encode: "encode_ok env"

sublocale row_encoder \<subseteq> seg: capture_sink "segment_ops env" seg_rows seg_ok
proof unfold_locales
  fix s :: "'t segment_sink" and k k' :: string and b :: "'t list" and pub s' and r :: "string list result"
    and d :: 't and res and now :: nat and key :: "string option" and fr :: "flush_result result"
  assume ok: "seg_ok s"
  note wr = write_batch_inner_rows [OF encode ok]
  show "so_write_batch (segment_ops env) k b s = (Inr pub, s') \<Longrightarrow>
      seg_rows s' k' = (if k' = k then seg_rows s k @ b else seg_rows s k')"
    using wr(3) [of k b 0 "Inr pub" s' k'] by (auto simp: segment_ops_def segment_write_batch_def)
  show "so_write_batch (segment_ops env) k b s = (r, s') \<Longrightarrow> k' \<noteq> k \<Longrightarrow> seg_rows s' k' = seg_rows s k'"
    using wr(1) [of k b 0 r s' k'] by (simp add: segment_ops_def segment_write_batch_def)
  show "so_write_initialization (segment_ops env) k d s = (Inr res, s') \<Longrightarrow>
      seg_rows s' k = seg_rows s k \<or> seg_rows s' k = seg_rows s k @ [d]"
    using wr(3) [OF prod.collapse [symmetric], of k "[d]" 0 k]
    by (auto simp: segment_ops_def default_write_initialization_def segment_write_batch_def split_beta
        map_result_def split: sum.splits)
  show "so_write_initialization (segment_ops env) k d s = (fr, s') \<Longrightarrow> k' \<noteq> k \<Longrightarrow> seg_rows s' k' = seg_rows s k'"
    using wr(1) [OF prod.collapse [symmetric], of k' k "[d]" 0]
    by (auto simp: segment_ops_def default_write_initialization_def segment_write_batch_def split_beta)
  show "so_on_tick (segment_ops env) now s = (Inr res, s') \<Longrightarrow> seg_rows s' = seg_rows s"
    using tick_rows [OF ok, of env now] by (simp add: segment_ops_def)
  show "so_seal_all (segment_ops env) s = (Inr res, s') \<Longrightarrow> seg_rows s' = seg_rows s"
    using seal_all_internal_rows [OF ok, of env False] by (simp add: segment_ops_def segment_seal_all_def)
  show "so_seal_all_for_shutdown (segment_ops env) s = (Inr res, s') \<Longrightarrow> seg_rows s' = seg_rows s"
    using seal_all_internal_rows [OF ok, of env False]
    by (simp add: segment_ops_def segment_seal_all_for_shutdown_def)
  let ?s0 = "s\<lparr>ss_window_ids := AList.delete k (ss_window_ids s)\<rparr>"
  have ok0: "seg_ok ?s0" "seg_rows ?s0 = seg_rows s"
    using ok seg_ok_cong [of ?s0 s] seg_rows_cong [of ?s0 s] by auto
  note sl = seal_segment_rows [OF ok0(1) prod.collapse [symmetric], where env = env and key = k and reopen = False]
  show "so_seal_partition (segment_ops env) k s = (Inr res, s') \<Longrightarrow> seg_rows s' = seg_rows s"
    using sl(2) ok0(2) by (simp add: segment_ops_def segment_seal_partition_def)
  show "so_seal_partition (segment_ops env) k s = (fr, s') \<Longrightarrow> k' \<noteq> k \<Longrightarrow> seg_rows s' k' = seg_rows s k'"
    using sl(1) ok0(2) by (simp add: segment_ops_def segment_seal_partition_def)
  show "so_break_continuity (segment_ops env) (Some k) s = (fr, s') \<Longrightarrow> k' \<noteq> k \<Longrightarrow> seg_rows s' k' = seg_rows s k'"
    using sl(1) ok0(2) by (simp add: segment_ops_def segment_break_continuity_def segment_seal_partition_def)
  let ?s1 = "s\<lparr>ss_window_ids := []\<rparr>"
  have ok1: "seg_ok ?s1" "seg_rows ?s1 = seg_rows s"
    using ok seg_ok_cong [of ?s1 s] seg_rows_cong [of ?s1 s] by auto
  show "so_break_continuity (segment_ops env) key s = (Inr res, s') \<Longrightarrow> seg_rows s' = seg_rows s"
  proof (cases key)
    case None
    then show "so_break_continuity (segment_ops env) key s = (Inr res, s') \<Longrightarrow> seg_rows s' = seg_rows s"
      using seal_all_internal_rows [OF ok1(1), of env False] ok1(2)
      by (simp add: segment_ops_def segment_break_continuity_def segment_seal_all_def)
  next
    case (Some x)
    let ?s2 = "s\<lparr>ss_window_ids := AList.delete x (ss_window_ids s)\<rparr>"
    have ok2: "seg_ok ?s2" "seg_rows ?s2 = seg_rows s"
      using ok seg_ok_cong [of ?s2 s] seg_rows_cong [of ?s2 s] by auto
    from seal_segment_rows(2) [OF ok2(1) prod.collapse [symmetric], where env = env and key = x and reopen = False]
    show "so_break_continuity (segment_ops env) key s = (Inr res, s') \<Longrightarrow> seg_rows s' = seg_rows s"
      using ok2(2) Some by (simp add: segment_ops_def segment_break_continuity_def segment_seal_partition_def)
  qed
  show "seg_ok (snd (so_write_batch (segment_ops env) k b s))"
    using wr(2) [OF prod.collapse [symmetric]] by (simp add: segment_ops_def segment_write_batch_def)
  show "seg_ok (snd (so_write_initialization (segment_ops env) k d s))"
    using wr(2) [OF prod.collapse [symmetric]]
    by (simp add: segment_ops_def default_write_initialization_def segment_write_batch_def split_beta)
  show "seg_ok (snd (so_on_tick (segment_ops env) now s))"
    using tick_rows [OF ok, of env now] by (simp add: segment_ops_def)
  show "seg_ok (snd (so_seal_all (segment_ops env) s))"
    using seal_all_internal_rows [OF ok, of env False] by (simp add: segment_ops_def segment_seal_all_def)
  show "seg_ok (snd (so_seal_all_for_shutdown (segment_ops env) s))"
    using seal_all_internal_rows [OF ok, of env False]
    by (simp add: segment_ops_def segment_seal_all_for_shutdown_def)
  show "seg_ok (snd (so_seal_partition (segment_ops env) k s))"
    using sl(3) by (simp add: segment_ops_def segment_seal_partition_def)
  show "seg_ok (snd (so_break_continuity (segment_ops env) key s))"
  proof (cases key)
    case None
    then show ?thesis using seal_all_internal_rows [OF ok1(1), of env False]
      by (simp add: segment_ops_def segment_break_continuity_def segment_seal_all_def)
  next
    case (Some x)
    let ?s2 = "s\<lparr>ss_window_ids := AList.delete x (ss_window_ids s)\<rparr>"
    have "seg_ok ?s2" using ok seg_ok_cong [of ?s2 s] by auto
    from seal_segment_rows(3) [OF this prod.collapse [symmetric], where env = env and key = x and reopen = False]
    show ?thesis using Some
      by (simp add: segment_ops_def segment_break_continuity_def segment_seal_partition_def)
  qed
qed

text \<open>The environments whose encoder keeps the rows: the segment sink meets the contract in each of them.\<close>

typedef 't row_encoding = "{env :: 't segment_env. encode_ok env}"
proof -
  let ?env = "\<lparr>se_part = undefined, se_ts = undefined, se_metadata = undefined,
    se_encode = (\<lambda>b. Inr (\<lparr>sch_fields = [], sch_metadata = []\<rparr>, [b])), se_make_path = undefined,
    se_type = [], se_root = [], se_order = undefined\<rparr>"
  have "encode_ok ?env" by (simp add: encode_ok_def)
  then show ?thesis by blast
qed

interpretation kept: row_encoder "Rep_row_encoding env" for env :: "'t row_encoding"
  using Rep_row_encoding [of env] by unfold_locales simp

end
