(* ===== verification/Windows.thy ===== *)
theory Windows
  imports Segment "HOL-Library.Sublist"
begin

section \<open>Replay windows\<close>

text \<open>
  What the segment sink promises to replay: every published file names a window and an ordinal in
  it, the ordinals of a window count its files from 0, a window belongs to one partition, and no
  window continues across a break of continuity or a loss.

  The promise is stated on an abstract machine whose state is, for each partition, its current
  window and the tag of its open part, and the tags of the published files. Every operation of
  the segment sink is a sequence of steps of that machine.
\<close>

subsection \<open>The abstract machine\<close>

type_synonym window_tag = "string option \<times> string option"

record window_view =
  wv_ids :: "string \<Rightarrow> (string \<times> nat) option"
  wv_open :: "string \<Rightarrow> window_tag option"
  wv_files :: "(string \<times> window_tag) list"
  wv_clock :: nat

definition tag :: "string \<Rightarrow> nat \<Rightarrow> window_tag" where
  "tag w i = (Some w, Some (show_nat i))"

definition bump :: "(string \<times> nat) option \<Rightarrow> (string \<times> nat) option" where
  "bump x = map_option (\<lambda>(w, i). (w, sat_add i 1)) x"

inductive window_step :: "(nat \<Rightarrow> string) \<Rightarrow> window_view \<Rightarrow> window_view \<Rightarrow> bool" for uuid where
  wait: "wv_clock v \<le> c \<Longrightarrow> window_step uuid v (v\<lparr>wv_clock := c\<rparr>)"
| forget: "window_step uuid v (v\<lparr>wv_ids := (\<lambda>k. if k \<in> A then None else wv_ids v k)\<rparr>)"
| drop_part: "window_step uuid v (v\<lparr>wv_open := (wv_open v)(k := None)\<rparr>)"
| enter: "wv_ids v k = None \<Longrightarrow> wv_open v k = None \<Longrightarrow>
    window_step uuid v (v\<lparr>wv_ids := (wv_ids v)(k \<mapsto> (uuid (wv_clock v), 0)), wv_clock := Suc (wv_clock v)\<rparr>)"
| open_part: "wv_ids v k = Some (w, i) \<Longrightarrow> wv_open v k = None \<Longrightarrow>
    window_step uuid v (v\<lparr>wv_open := (wv_open v)(k \<mapsto> tag w i)\<rparr>)"
| publish: "wv_open v k = Some t \<Longrightarrow>
    window_step uuid v (v\<lparr>wv_open := (wv_open v)(k := None), wv_files := wv_files v @ [(k, t)],
      wv_ids := (wv_ids v)(k := bump (wv_ids v k))\<rparr>)"

abbreviation window_steps :: "(nat \<Rightarrow> string) \<Rightarrow> window_view \<Rightarrow> window_view \<Rightarrow> bool" where
  "window_steps uuid \<equiv> (window_step uuid)\<^sup>*\<^sup>*"

text \<open>The files of a window, as ordinals in publication order.\<close>

definition window_files :: "window_view \<Rightarrow> string \<Rightarrow> (string \<times> window_tag) list" where
  "window_files v w = filter (\<lambda>x. fst (snd x) = Some w) (wv_files v)"

definition capped :: "nat \<Rightarrow> nat" where
  "capped n = min n u64_max"

lemma capped_0 [simp]: "capped 0 = 0"
  by (simp add: capped_def)

lemma capped_Suc [simp]: "sat_add (capped n) (Suc 0) = capped (Suc n)"
  by (auto simp: capped_def sat_add_def)

definition issued :: "(nat \<Rightarrow> string) \<Rightarrow> window_view \<Rightarrow> string set" where
  "issued uuid v = uuid ` {..<wv_clock v}"

text \<open>The invariant: \<open>owner\<close> is the partition of each window in use.\<close>

definition ids_inv :: "(nat \<Rightarrow> string) \<Rightarrow> (string \<Rightarrow> string) \<Rightarrow> window_view \<Rightarrow> bool" where
  "ids_inv uuid owner v = (\<forall>k w i. wv_ids v k = Some (w, i) \<longrightarrow>
     w \<in> issued uuid v \<and> owner w = k \<and> i = capped (length (window_files v w)))"

definition open_inv :: "(nat \<Rightarrow> string) \<Rightarrow> (string \<Rightarrow> string) \<Rightarrow> window_view \<Rightarrow> bool" where
  "open_inv uuid owner v = (\<forall>k t. wv_open v k = Some t \<longrightarrow>
     (\<exists>w. t = tag w (capped (length (window_files v w))) \<and> w \<in> issued uuid v \<and> owner w = k
        \<and> (\<forall>w' i'. wv_ids v k = Some (w', i') \<longrightarrow> w' = w)))"

definition files_inv :: "(nat \<Rightarrow> string) \<Rightarrow> (string \<Rightarrow> string) \<Rightarrow> window_view \<Rightarrow> bool" where
  "files_inv uuid owner v =
     ((\<forall>x \<in> set (wv_files v). \<exists>w. fst (snd x) = Some w \<and> w \<in> issued uuid v \<and> owner w = fst x)
      \<and> (\<forall>w. map (snd \<circ> snd) (window_files v w)
           = map (\<lambda>i. Some (show_nat (capped i))) [0..<length (window_files v w)]))"

definition window_inv :: "(nat \<Rightarrow> string) \<Rightarrow> window_view \<Rightarrow> bool" where
  "window_inv uuid v = (\<exists>owner. ids_inv uuid owner v \<and> open_inv uuid owner v \<and> files_inv uuid owner v)"

lemma issued_mono: "wv_clock v \<le> wv_clock v' \<Longrightarrow> issued uuid v \<subseteq> issued uuid v'"
  by (auto simp: issued_def)

lemma issued_cong: "wv_clock v = wv_clock v' \<Longrightarrow> issued uuid v = issued uuid v'"
  by (simp add: issued_def)

lemma window_files_cong: "wv_files v = wv_files v' \<Longrightarrow> window_files v = window_files v'"
  by (simp add: window_files_def fun_eq_iff)

lemma ids_inv_mono:
  assumes "ids_inv uuid owner v" "wv_clock v \<le> wv_clock v'" "wv_files v' = wv_files v"
    "\<And>k x. wv_ids v' k = Some x \<Longrightarrow> wv_ids v k = Some x"
  shows "ids_inv uuid owner v'"
  using assms(1) issued_mono [OF assms(2), of uuid] window_files_cong [OF assms(3)] assms(4)
  unfolding ids_inv_def by (metis subsetD)

lemma open_invE:
  assumes "open_inv uuid owner v" "wv_open v k = Some t"
  obtains w where "t = tag w (capped (length (window_files v w)))" "w \<in> issued uuid v" "owner w = k"
    "\<And>w' i'. wv_ids v k = Some (w', i') \<Longrightarrow> w' = w"
  using assms unfolding open_inv_def by blast

lemma open_inv_mono:
  assumes "open_inv uuid owner v" "wv_clock v \<le> wv_clock v'" "wv_files v' = wv_files v"
    "\<And>k x. wv_ids v' k = Some x \<Longrightarrow> wv_open v k = None \<or> wv_ids v k = Some x"
    "\<And>k x. wv_open v' k = Some x \<Longrightarrow> wv_open v k = Some x"
  shows "open_inv uuid owner v'"
  unfolding open_inv_def
proof (intro allI impI)
  fix k t
  assume "wv_open v' k = Some t"
  then have k: "wv_open v k = Some t" by (rule assms(5))
  from open_invE [OF assms(1) this] obtain w where w: "t = tag w (capped (length (window_files v w)))"
    "w \<in> issued uuid v" "owner w = k" "\<And>w' i'. wv_ids v k = Some (w', i') \<Longrightarrow> w' = w" by blast
  have "w \<in> issued uuid v'" using w(2) issued_mono [OF assms(2)] by blast
  moreover have "\<forall>w' i'. wv_ids v' k = Some (w', i') \<longrightarrow> w' = w"
    using assms(4) [of k] w(4) k by (metis option.distinct(1))
  ultimately show "\<exists>w. t = tag w (capped (length (window_files v' w))) \<and> w \<in> issued uuid v' \<and> owner w = k
      \<and> (\<forall>w' i'. wv_ids v' k = Some (w', i') \<longrightarrow> w' = w)"
    using w(1,3) window_files_cong [OF assms(3)] by (intro exI [of _ w]) simp
qed

lemma files_inv_mono:
  assumes "files_inv uuid owner v" "wv_clock v \<le> wv_clock v'" "wv_files v' = wv_files v"
  shows "files_inv uuid owner v'"
proof -
  have "\<forall>x \<in> set (wv_files v'). \<exists>w. fst (snd x) = Some w \<and> w \<in> issued uuid v' \<and> owner w = fst x"
    using assms(1) issued_mono [OF assms(2), of uuid] unfolding files_inv_def assms(3) by (metis subsetD)
  moreover have "\<forall>w. map (snd \<circ> snd) (window_files v' w)
      = map (\<lambda>i. Some (show_nat (capped i))) [0..<length (window_files v' w)]"
    using assms(1) window_files_cong [OF assms(3)] unfolding files_inv_def by simp
  ultimately show ?thesis unfolding files_inv_def by (rule conjI)
qed

text \<open>Changing the owner of a window nobody uses.\<close>

lemma inv_owner_fresh:
  assumes "ids_inv uuid owner v" "open_inv uuid owner v" "files_inv uuid owner v" "u \<notin> issued uuid v"
  shows "ids_inv uuid (owner(u := k)) v" "open_inv uuid (owner(u := k)) v" "files_inv uuid (owner(u := k)) v"
proof -
  show "ids_inv uuid (owner(u := k)) v" using assms(1,4) unfolding ids_inv_def by (metis fun_upd_other)
  show "open_inv uuid (owner(u := k)) v" using assms(2,4) unfolding open_inv_def by (metis fun_upd_other)
  have "\<forall>x \<in> set (wv_files v). \<exists>w. fst (snd x) = Some w \<and> w \<in> issued uuid v \<and> (owner(u := k)) w = fst x"
    using assms(3,4) unfolding files_inv_def by (metis fun_upd_other)
  then show "files_inv uuid (owner(u := k)) v" using assms(3) by (simp only: files_inv_def simp_thms)
qed

lemma window_inv_mono:
  assumes "window_inv uuid v" "wv_clock v \<le> wv_clock v'" "wv_files v' = wv_files v"
    "\<And>k x. wv_ids v' k = Some x \<Longrightarrow> wv_ids v k = Some x"
    "\<And>k x. wv_open v' k = Some x \<Longrightarrow> wv_open v k = Some x"
  shows "window_inv uuid v'"
proof -
  from assms(1) obtain owner where "ids_inv uuid owner v" "open_inv uuid owner v" "files_inv uuid owner v"
    by (auto simp: window_inv_def)
  then have "ids_inv uuid owner v'" "open_inv uuid owner v'" "files_inv uuid owner v'"
    using ids_inv_mono [OF _ assms(2,3,4)] open_inv_mono [OF _ assms(2,3) _ assms(5)] assms(4)
      files_inv_mono [OF _ assms(2,3)] by blast+
  then show ?thesis by (auto simp: window_inv_def)
qed

lemma window_inv_enter:
  assumes inj: "inj uuid" and inv: "window_inv uuid v" and free: "wv_ids v k = None" "wv_open v k = None"
    and v': "v' = v\<lparr>wv_ids := (wv_ids v)(k \<mapsto> (uuid (wv_clock v), 0)), wv_clock := Suc (wv_clock v)\<rparr>"
  shows "window_inv uuid v'"
proof -
  from inv obtain owner0 where own0: "ids_inv uuid owner0 v" "open_inv uuid owner0 v" "files_inv uuid owner0 v"
    by (auto simp: window_inv_def)
  let ?w = "uuid (wv_clock v)"
  have fresh: "?w \<notin> issued uuid v" using inj by (auto simp: issued_def dest: injD)
  define owner where "owner = owner0(?w := k)"
  have own: "ids_inv uuid owner v" "open_inv uuid owner v" "files_inv uuid owner v"
    unfolding owner_def using inv_owner_fresh [OF own0 fresh] by blast+
  have none: "window_files v ?w = []"
    using own(3) fresh by (auto simp: files_inv_def window_files_def filter_empty_conv)
  have wf: "window_files v' = window_files v" by (intro window_files_cong) (simp add: v')
  have sub: "issued uuid v \<subseteq> issued uuid v'" by (intro issued_mono) (simp add: v')
  have "ids_inv uuid owner v'"
    unfolding ids_inv_def
  proof (intro allI impI)
    fix k' w i
    assume i: "wv_ids v' k' = Some (w, i)"
    show "w \<in> issued uuid v' \<and> owner w = k' \<and> i = capped (length (window_files v' w))"
    proof (cases "k' = k")
      case True
      with i have "w = ?w" "i = 0" by (auto simp: v')
      then show ?thesis using True none by (simp add: wf owner_def issued_def) (simp add: v')
    next
      case False
      with i have "wv_ids v k' = Some (w, i)" by (simp add: v')
      with own(1) sub show ?thesis unfolding ids_inv_def wf by blast
    qed
  qed
  moreover have "open_inv uuid owner v'"
    using free by (intro open_inv_mono [OF own(2)]) (auto simp: v' split: if_splits)
  moreover have "files_inv uuid owner v'" by (intro files_inv_mono [OF own(3)]) (simp_all add: v')
  ultimately show ?thesis by (auto simp: window_inv_def)
qed

lemma window_inv_open:
  assumes inv: "window_inv uuid v" and k: "wv_ids v k = Some (w, i)"
    and v': "v' = v\<lparr>wv_open := (wv_open v)(k \<mapsto> tag w i)\<rparr>"
  shows "window_inv uuid v'"
proof -
  from inv obtain owner where own: "ids_inv uuid owner v" "open_inv uuid owner v" "files_inv uuid owner v"
    by (auto simp: window_inv_def)
  have iss: "issued uuid v' = issued uuid v" by (intro issued_cong) (simp add: v')
  have wf: "window_files v' = window_files v" by (intro window_files_cong) (simp add: v')
  have ids: "wv_ids v' = wv_ids v" by (simp add: v')
  have "ids_inv uuid owner v'" by (intro ids_inv_mono [OF own(1)]) (simp_all add: v')
  moreover have "files_inv uuid owner v'" by (intro files_inv_mono [OF own(3)]) (simp_all add: v')
  moreover have "open_inv uuid owner v'"
    unfolding open_inv_def
  proof (intro allI impI)
    fix k' t
    assume t: "wv_open v' k' = Some t"
    show "\<exists>w. t = tag w (capped (length (window_files v' w))) \<and> w \<in> issued uuid v' \<and> owner w = k'
      \<and> (\<forall>w' i'. wv_ids v' k' = Some (w', i') \<longrightarrow> w' = w)"
    proof (cases "k' = k")
      case True
      then have "t = tag w i" using t by (simp add: v')
      moreover have "w \<in> issued uuid v" "owner w = k" "i = capped (length (window_files v w))"
        using own(1) k unfolding ids_inv_def by blast+
      ultimately show ?thesis using True k by (intro exI [of _ w]) (simp add: wf iss ids)
    next
      case False
      then have "wv_open v k' = Some t" using t by (simp add: v')
      then obtain w' where "t = tag w' (capped (length (window_files v w')))"
        "w' \<in> issued uuid v" "owner w' = k'" "\<And>w'' i'. wv_ids v k' = Some (w'', i') \<Longrightarrow> w'' = w'"
        by (rule open_invE [OF own(2)]) blast
      then show ?thesis using False by (intro exI [of _ w']) (simp add: wf iss ids)
    qed
  qed
  ultimately show ?thesis by (auto simp: window_inv_def)
qed

lemma window_inv_publish:
  assumes inv: "window_inv uuid v" and k: "wv_open v k = Some t"
    and v': "v' = v\<lparr>wv_open := (wv_open v)(k := None), wv_files := wv_files v @ [(k, t)],
      wv_ids := (wv_ids v)(k := bump (wv_ids v k))\<rparr>"
  shows "window_inv uuid v'"
proof -
  from inv obtain owner where own: "ids_inv uuid owner v" "open_inv uuid owner v" "files_inv uuid owner v"
    by (auto simp: window_inv_def)
  have iss: "issued uuid v' = issued uuid v" by (intro issued_cong) (simp add: v')
  obtain w where w: "t = tag w (capped (length (window_files v w)))" "w \<in> issued uuid v" "owner w = k"
      "\<And>w' i'. wv_ids v k = Some (w', i') \<Longrightarrow> w' = w"
    using open_invE [OF own(2) k] by blast
  have wf: "window_files v' w' = (if w' = w then window_files v w @ [(k, t)] else window_files v w')" for w'
    using w(1) by (auto simp: v' window_files_def tag_def)
  have files: "wv_files v' = wv_files v @ [(k, t)]" by (simp add: v')
  have ids: "wv_ids v' k' = wv_ids v k'" if "k' \<noteq> k" for k' using that by (simp add: v')
  have owned: "w' \<noteq> w" if "owner w' \<noteq> k" for w' using that w(3) by auto
  have "ids_inv uuid owner v'"
    unfolding ids_inv_def
  proof (intro allI impI)
    fix k' w' i
    assume i: "wv_ids v' k' = Some (w', i)"
    show "w' \<in> issued uuid v' \<and> owner w' = k' \<and> i = capped (length (window_files v' w'))"
    proof (cases "k' = k")
      case True
      with i obtain j where "wv_ids v k = Some (w', j)" "i = sat_add j 1"
        by (auto simp: v' bump_def)
      moreover have "j = capped (length (window_files v w'))"
        using own(1) calculation unfolding ids_inv_def by blast
      ultimately show ?thesis using w(2-4) True by (auto simp: iss wf)
    next
      case False
      with i have "wv_ids v k' = Some (w', i)" by (simp add: ids)
      with own(1) have "w' \<in> issued uuid v" "owner w' = k'" "i = capped (length (window_files v w'))"
        unfolding ids_inv_def by blast+
      with False owned show ?thesis by (auto simp: iss wf)
    qed
  qed
  moreover have "open_inv uuid owner v'"
    unfolding open_inv_def
  proof (intro allI impI)
    fix k' t'
    assume t': "wv_open v' k' = Some t'"
    then have k': "k' \<noteq> k" "wv_open v k' = Some t'" by (auto simp: v' split: if_splits)
    then obtain w' where w': "t' = tag w' (capped (length (window_files v w')))" "w' \<in> issued uuid v"
        "owner w' = k'" "\<And>w'' i'. wv_ids v k' = Some (w'', i') \<Longrightarrow> w'' = w'"
      using open_invE [OF own(2) k'(2)] by blast
    with k' owned have "window_files v' w' = window_files v w'" by (auto simp: wf)
    with w' k' show "\<exists>w. t' = tag w (capped (length (window_files v' w))) \<and> w \<in> issued uuid v'
        \<and> owner w = k' \<and> (\<forall>w' i'. wv_ids v' k' = Some (w', i') \<longrightarrow> w' = w)"
      by (intro exI [of _ w']) (simp add: iss ids)
  qed
  moreover have "files_inv uuid owner v'"
    using own(3) w unfolding files_inv_def iss files by (auto simp: wf tag_def)
  ultimately show ?thesis by (auto simp: window_inv_def)
qed

lemma window_inv_step:
  assumes inj: "inj uuid" and step: "window_step uuid v v'" and inv: "window_inv uuid v"
  shows "window_inv uuid v'"
  using step
proof cases
  case (wait c)
  then show ?thesis by (intro window_inv_mono [OF inv]) simp_all
next
  case (forget A)
  then show ?thesis by (intro window_inv_mono [OF inv]) (auto split: if_splits)
next
  case (drop_part k)
  then show ?thesis by (intro window_inv_mono [OF inv]) (auto split: if_splits)
next
  case (enter k)
  then show ?thesis by (intro window_inv_enter [OF inj inv])
next
  case (open_part k w i)
  then show ?thesis by (intro window_inv_open [OF inv])
next
  case (publish k t)
  then show ?thesis by (intro window_inv_publish [OF inv])
qed

lemma window_inv_steps:
  "window_steps uuid v v' \<Longrightarrow> inj uuid \<Longrightarrow> window_inv uuid v \<Longrightarrow> window_inv uuid v'"
  by (induction rule: rtranclp_induct) (auto intro: window_inv_step)

subsection \<open>After a break\<close>

text \<open>\<open>apart D k n v\<close>: partition \<open>k\<close> uses no window of \<open>D\<close>, neither now nor in the files after the first \<open>n\<close>.\<close>

definition apart :: "(nat \<Rightarrow> string) \<Rightarrow> string set \<Rightarrow> string \<Rightarrow> nat \<Rightarrow> window_view \<Rightarrow> bool" where
  "apart uuid D k n v = (D \<subseteq> issued uuid v
     \<and> (\<forall>w i. wv_ids v k = Some (w, i) \<longrightarrow> w \<notin> D)
     \<and> (\<forall>w x. wv_open v k = Some (Some w, x) \<longrightarrow> w \<notin> D)
     \<and> n \<le> length (wv_files v)
     \<and> (\<forall>w x. (k, Some w, x) \<in> set (drop n (wv_files v)) \<longrightarrow> w \<notin> D))"

lemma apart_step:
  assumes inj: "inj uuid" and step: "window_step uuid v v'" and a: "apart uuid D k n v"
  shows "apart uuid D k n v'"
  using step
proof cases
  case (wait c)
  with a issued_mono [of v v' uuid] show ?thesis by (auto simp: apart_def)
next
  case (forget A)
  with a show ?thesis by (auto simp: apart_def issued_def)
next
  case (drop_part k')
  with a show ?thesis by (auto simp: apart_def issued_def)
next
  case (enter k')
  have "uuid (wv_clock v) \<notin> D" using a inj by (auto simp: apart_def issued_def dest: injD)
  moreover have "D \<subseteq> issued uuid v'" using a enter issued_mono [of v v' uuid] by (auto simp: apart_def)
  ultimately show ?thesis using a enter by (auto simp: apart_def)
next
  case (open_part k' w i)
  with a show ?thesis by (auto simp: apart_def issued_def tag_def)
next
  case (publish k' t)
  with a show ?thesis by (fastforce simp: apart_def issued_def bump_def)
qed

lemma apart_steps:
  "window_steps uuid v v' \<Longrightarrow> inj uuid \<Longrightarrow> apart uuid D k n v \<Longrightarrow> apart uuid D k n v'"
  by (induction rule: rtranclp_induct) (auto intro: apart_step)

subsection \<open>The segment sink runs on the machine\<close>

definition schema_tag :: "part_schema \<Rightarrow> window_tag" where
  "schema_tag sch = (map_of (sch_metadata sch) window_id_key, map_of (sch_metadata sch) segment_index_key)"

definition segment_view :: "'t segment_sink \<Rightarrow> window_view" where
  "segment_view s = \<lparr>wv_ids = map_of (ss_window_ids s),
     wv_open = (\<lambda>k. map_option (\<lambda>seg. schema_tag (ap_schema (sg_part seg))) (map_of (ss_segments s) k)),
     wv_files = map (\<lambda>(k, f). (k, schema_tag (sf_schema f))) (ss_published s),
     wv_clock = fs_io (ss_store s)\<rparr>"

abbreviation view_steps :: "'t segment_env \<Rightarrow> 't segment_sink \<Rightarrow> 't segment_sink \<Rightarrow> bool" where
  "view_steps env s s' \<equiv> window_steps (pe_uuid (se_part env)) (segment_view s) (segment_view s')"

lemma schema_tag_window [simp]: "schema_tag (window_schema w i n sch) = tag w i"
  by (simp add: schema_tag_def window_schema_def tag_def update_conv' window_id_key_def
      segment_index_key_def contract_key_def initialization_rows_key_def)

lemma view_wait:
  assumes "ss_window_ids s' = ss_window_ids s" "ss_published s' = ss_published s"
    "\<And>k. map_option (\<lambda>seg. ap_schema (sg_part seg)) (map_of (ss_segments s') k)
       = map_option (\<lambda>seg. ap_schema (sg_part seg)) (map_of (ss_segments s) k)"
    "fs_io (ss_store s) \<le> fs_io (ss_store s')"
  shows "view_steps env s s'"
proof -
  have "map_option (\<lambda>seg. schema_tag (ap_schema (sg_part seg))) (map_of (ss_segments s') k)
       = map_option (\<lambda>seg. schema_tag (ap_schema (sg_part seg))) (map_of (ss_segments s) k)" for k
    using arg_cong [OF assms(3) [of k], of "map_option schema_tag"] by (simp add: option.map_comp comp_def)
  then have "segment_view s' = (segment_view s)\<lparr>wv_clock := fs_io (ss_store s')\<rparr>"
    using assms(1,2) by (simp add: segment_view_def)
  then show ?thesis
    using window_step.wait [of "segment_view s" "fs_io (ss_store s')"] assms(4)
    by (auto simp: segment_view_def)
qed

lemma view_forget:
  assumes "map_of (ss_window_ids s') = (\<lambda>k. if k \<in> A then None else map_of (ss_window_ids s) k)"
    "ss_published s' = ss_published s" "ss_segments s' = ss_segments s" "ss_store s' = ss_store s"
  shows "view_steps env s s'"
proof -
  have "segment_view s' = (segment_view s)\<lparr>wv_ids := (\<lambda>k. if k \<in> A then None else wv_ids (segment_view s) k)\<rparr>"
    using assms by (simp add: segment_view_def cong: if_cong)
  then show ?thesis using window_step.forget [of _ "segment_view s" A] by auto
qed

lemma view_drop:
  assumes "ss_segments s' = AList.delete key (ss_segments s)" "ss_window_ids s' = ss_window_ids s"
    "ss_published s' = ss_published s" "fs_io (ss_store s) \<le> fs_io (ss_store s')"
  shows "view_steps env s s'"
proof -
  let ?v = "(segment_view s)\<lparr>wv_open := (wv_open (segment_view s))(key := None)\<rparr>"
  have "segment_view s' = ?v\<lparr>wv_clock := fs_io (ss_store s')\<rparr>"
    using assms(1-3) by (simp add: segment_view_def delete_conv' fun_eq_iff)
  moreover have "window_steps (pe_uuid (se_part env)) (segment_view s) ?v"
    using window_step.drop_part by blast
  moreover have "window_step (pe_uuid (se_part env)) ?v (?v\<lparr>wv_clock := fs_io (ss_store s')\<rparr>)"
    using assms(4) by (intro window_step.wait) (simp add: segment_view_def)
  ultimately show ?thesis by simp
qed

lemma view_publish:
  assumes "ss_segments s' = AList.delete key (ss_segments s)" "map_of (ss_segments s) key = Some seg"
    "ss_published s' = ss_published s @ [(key, f)]" "sf_schema f = ap_schema (sg_part seg)"
    "map_of (ss_window_ids s') = (map_of (ss_window_ids s))(key := bump (map_of (ss_window_ids s) key))"
    "fs_io (ss_store s) \<le> fs_io (ss_store s')"
  shows "view_steps env s s'"
proof -
  let ?t = "schema_tag (ap_schema (sg_part seg))"
  let ?v = "(segment_view s)\<lparr>wv_open := (wv_open (segment_view s))(key := None),
    wv_files := wv_files (segment_view s) @ [(key, ?t)],
    wv_ids := (wv_ids (segment_view s))(key := bump (wv_ids (segment_view s) key))\<rparr>"
  have "segment_view s' = ?v\<lparr>wv_clock := fs_io (ss_store s')\<rparr>"
    using assms(1,3-5) by (simp add: segment_view_def delete_conv' fun_eq_iff)
  moreover have "window_steps (pe_uuid (se_part env)) (segment_view s) ?v"
    using assms(2) by (intro r_into_rtranclp window_step.publish) (simp add: segment_view_def)
  moreover have "window_step (pe_uuid (se_part env)) ?v (?v\<lparr>wv_clock := fs_io (ss_store s')\<rparr>)"
    using assms(6) by (intro window_step.wait) (simp add: segment_view_def)
  ultimately show ?thesis by simp
qed

lemma io_clock [simp]: "fs_io (snd (io env st)) = Suc (fs_io st)"
  by (simp add: io_def)

lemma open_segment_steps:
  fixes s :: "'t segment_sink"
  assumes new: "map_of (ss_segments s) key = None" and op: "open_segment env key d ident sch ts ini s = (r, s')"
  shows "view_steps env s s'"
proof -
  obtain w i s1 where w: "enter_window env key s = ((w, i), s1)" by (metis prod.exhaust)
  obtain part :: "'t active_part result" and st where
    p: "part_open (se_part env) d ts (window_schema w i ini sch) (ss_store s1) = (part, st)" by fastforce
  note ew = enter_window_simps [of env key s, unfolded w, simplified]
  have clock: "fs_io (ss_store s1) \<le> fs_io st"
    using p by (auto simp: part_open_def io_def Let_def split: option.splits)
  have ids: "map_of (ss_window_ids s1) key = Some (w, i)"
    using w by (auto simp: enter_window_def Let_def update_conv' split: option.splits)
  have s1: "view_steps env s s1"
  proof (cases "map_of (ss_window_ids s) key")
    case None
    let ?v = "(segment_view s)\<lparr>wv_ids := (wv_ids (segment_view s))(key \<mapsto>
      (pe_uuid (se_part env) (wv_clock (segment_view s)), 0)), wv_clock := Suc (wv_clock (segment_view s))\<rparr>"
    have "segment_view s1 = ?v" using w None by (auto simp: enter_window_def Let_def segment_view_def update_conv')
    moreover have "window_step (pe_uuid (se_part env)) (segment_view s) ?v"
      using None new by (intro window_step.enter) (simp_all add: segment_view_def)
    ultimately show ?thesis by simp
  next
    case (Some x)
    with w have "s1 = s" by (simp add: enter_window_def)
    then show ?thesis by simp
  qed
  have s2: "view_steps env s1 (s1\<lparr>ss_store := st\<rparr>)" using clock by (intro view_wait) simp_all
  show ?thesis
  proof (cases part)
    case (Inl e)
    then have "s' = s1\<lparr>ss_store := st\<rparr>" using op w p by (simp add: open_segment_def)
    with s1 s2 show ?thesis by simp
  next
    case (Inr q)
    let ?seg = "\<lparr>sg_part = q, sg_identifier = ident, sg_schema = window_schema w i ini sch\<rparr>"
    let ?s2 = "s1\<lparr>ss_store := st\<rparr>"
    let ?v = "(segment_view ?s2)\<lparr>wv_open := (wv_open (segment_view ?s2))(key \<mapsto> tag w i)\<rparr>"
    have "ap_schema q = window_schema w i ini sch" using part_open_new p Inr by blast
    moreover have "s' = ?s2\<lparr>ss_segments := AList.update key ?seg (ss_segments s1)\<rparr>"
      using op w p Inr by (simp add: open_segment_def)
    ultimately have "segment_view s' = ?v" by (simp add: segment_view_def update_conv' fun_eq_iff)
    moreover have "window_step (pe_uuid (se_part env)) (segment_view ?s2) ?v"
      using ids new ew by (intro window_step.open_part) (simp_all add: segment_view_def)
    ultimately show ?thesis using s1 s2 by (metis rtranclp.rtrancl_into_rtrancl rtranclp_trans)
  qed
qed

lemma rename_clock:
  "rename_part_to_catalog_parquet env pp d lo hi st = (v, r, st') \<Longrightarrow> fs_io st \<le> fs_io st'"
  by (auto simp: rename_part_to_catalog_parquet_def io_def Let_def split: if_splits option.splits)

lemma part_seal_clock:
  assumes "part_seal env p st = (pub, r, st')"
  shows "fs_io st \<le> fs_io st'"
proof -
  obtain v rr s3 where rn: "rename_part_to_catalog_parquet env (ap_path p) (ap_directory p) (ap_min p) (ap_max p)
      (snd (io env (snd (io env st)))) = (v, rr, s3)" by (metis prod_cases3)
  from rename_clock [OF this] have "fs_io st \<le> fs_io s3" by simp
  then show ?thesis using assms rn
    by (auto simp: part_seal_def split_beta Let_def quarantine_part_file_def split: option.splits sum.splits if_splits)
qed

lemma seal_segment_steps:
  fixes s :: "'t segment_sink"
  assumes seal: "seal_segment env key reopen s = (r, s')"
  shows "view_steps env s s'"
proof (cases "map_of (ss_segments s) key")
  case None
  with seal show ?thesis by (simp add: seal_segment_def)
next
  case (Some seg)
  obtain pub r1 st where p: "part_seal (se_part env) (sg_part seg) (ss_store s) = (pub, r1, st)"
    by (metis prod_cases3)
  note ps = part_seal_result [OF p]
  have clock: "fs_io (ss_store s) \<le> fs_io st" by (rule part_seal_clock [OF p])
  define s1 where "s1 = s\<lparr>ss_segments := AList.delete key (ss_segments s), ss_store := st,
    ss_published := ss_published s @ (case pub of None \<Rightarrow> [] | Some f \<Rightarrow> [(key, f)])\<rparr>"
  have forget: "view_steps env a (a\<lparr>ss_window_ids := AList.delete key (ss_window_ids a)\<rparr>)" for a :: "'t segment_sink"
    by (rule view_forget [where A = "{key}"]) (simp_all add: delete_conv' fun_eq_iff)
  have sch: "sf_schema f = ap_schema (sg_part seg)" if "pub = Some f" for f
  proof -
    have "sf_schema f = sf_schema (published_of (sg_part seg) (sf_path f))"
      by (rule arg_cong [OF conjunct1 [OF ps(3) [OF that]]])
    then show ?thesis by (simp add: published_of_def)
  qed
  have publish: "view_steps env s a" if "pub = Some f" "ss_segments a = ss_segments s1" "ss_store a = st"
    "ss_published a = ss_published s1"
    "map_of (ss_window_ids a) = (map_of (ss_window_ids s))(key := bump (map_of (ss_window_ids s) key))"
    for a f using that Some sch clock by (intro view_publish [of a key s seg f]) (simp_all add: s1_def)
  show ?thesis
  proof (cases r1)
    case (Inl e)
    let ?s' = "s1\<lparr>ss_window_ids := AList.delete key (ss_window_ids s)\<rparr>"
    have s': "s' = ?s'" using seal Some p Inl by (simp add: seal_segment_def s1_def)
    show ?thesis
    proof (cases pub)
      case None
      then have "view_steps env s s1" using clock by (intro view_drop [of _ key]) (simp_all add: s1_def)
      moreover have "ss_window_ids s1 = ss_window_ids s" by (simp add: s1_def)
      ultimately show ?thesis using forget [of s1] by (simp add: s')
    next
      case (Some f)
      let ?a = "s1\<lparr>ss_window_ids := (case map_of (ss_window_ids s) key of None \<Rightarrow> ss_window_ids s
        | Some (w, i) \<Rightarrow> AList.update key (w, sat_add i 1) (ss_window_ids s))\<rparr>"
      have "view_steps env s ?a"
        by (rule publish [OF Some]) (auto simp: s1_def bump_def update_conv' fun_eq_iff split: option.splits)
      moreover have "view_steps env ?a ?s'"
        by (rule view_forget [where A = "{key}"]) (auto simp: delete_conv' update_conv' fun_eq_iff split: option.splits)
      ultimately show ?thesis by (simp add: s')
    qed
  next
    case (Inr sealed)
    define s2 where "s2 = (if fr_files sealed = [] then s1 else case map_of (ss_window_ids s1) key of
        None \<Rightarrow> s1 | Some (w, index) \<Rightarrow> s1\<lparr>ss_window_ids := AList.update key (w, sat_add index 1) (ss_window_ids s1)\<rparr>)"
    have s2_steps: "view_steps env s s2"
    proof (cases "ap_count (sg_part seg) = 0")
      case True
      then have "pub = None" "fr_files sealed = []" using ps(2) Inr by auto
      then show ?thesis using clock by (intro view_drop [of _ key]) (simp_all add: s1_def s2_def)
    next
      case False
      then obtain f where f: "pub = Some f" "fr_files sealed = [sf_path f]" using ps(1) Inr by auto
      show ?thesis
        by (rule publish [OF f(1)]) (auto simp: f(2) s2_def s1_def bump_def update_conv' fun_eq_iff split: option.splits)
    qed
    have seg2: "map_of (ss_segments s2) key = None"
      by (auto simp: s2_def s1_def delete_conv' split: option.splits)
    show ?thesis
    proof (cases "reopen \<and> fr_files sealed \<noteq> []")
      case False
      then have "s' = s2"
        using seal Some p Inr by (auto simp: seal_segment_def s1_def s2_def Let_def split: option.splits)
      with s2_steps show ?thesis by simp
    next
      case True
      obtain o' s3 where op: "open_segment env key (ap_directory (sg_part seg)) (sg_identifier seg)
          (sg_schema seg) (ap_max (sg_part seg)) 0 s2 = (o', s3)" by fastforce
      have "s' = s3"
        using seal Some p Inr True op by (auto simp: seal_segment_def s1_def s2_def Let_def split: option.splits)
      with s2_steps open_segment_steps [OF seg2 op] show ?thesis by simp
    qed
  qed
qed

text \<open>A seal without reopening leaves the partition without an open part.\<close>

lemma seal_segment_closed:
  assumes "seal_segment env key False s = (r, s')"
  shows "map_of (ss_segments s') = (map_of (ss_segments s))(key := None)"
    "map_of (ss_window_ids s) k = None \<Longrightarrow> map_of (ss_window_ids s') k = None"
proof -
  obtain seg where "map_of (ss_segments s) key = None \<or> map_of (ss_segments s) key = Some seg" by (cases "map_of (ss_segments s) key") auto
  then show "map_of (ss_segments s') = (map_of (ss_segments s))(key := None)"
    "map_of (ss_window_ids s) k = None \<Longrightarrow> map_of (ss_window_ids s') k = None"
    using assms by (auto simp: seal_segment_def split_beta Let_def delete_conv' update_conv'
        split: sum.splits option.splits if_splits)
qed

lemma map_state_steps:
  assumes "\<And>x s. view_steps env s (snd (f x s))"
  shows "view_steps env s (snd (map_state f xs s))"
proof (induction xs arbitrary: s)
  case Nil
  then show ?case by simp
next
  case (Cons x xs)
  from assms [of s x] Cons [of "snd (f x s)"] show ?case by (simp add: split_beta Let_def)
qed

lemma seal_all_steps: "view_steps env s (snd (segment_seal_all_internal env reopen s))"
proof -
  have "view_steps env s (snd (map_state (\<lambda>key. seal_segment env key reopen) keys s))" for keys
    by (rule map_state_steps) (rule seal_segment_steps [OF prod.collapse [symmetric]])
  then show ?thesis by (simp add: segment_seal_all_internal_def Let_def split_beta)
qed

lemma tick_steps: "view_steps env s (snd (segment_on_tick env now s))"
proof -
  have "view_steps env s (snd (tick_segment env now key s))" for key s
  proof (cases "map_of (ss_segments s) key")
    case None
    then show ?thesis by (simp add: tick_segment_def)
  next
    case (Some seg)
    obtain r p st where t: "part_tick (se_part env) (ss_sync_interval s) now (sg_part seg) (ss_store s) = (r, p, st)"
      by (metis prod_cases3)
    then have "ap_schema p = ap_schema (sg_part seg)" "fs_io (ss_store s) \<le> fs_io st"
      by (auto simp: part_tick_def io_def Let_def split: if_splits option.splits)
    with Some t show ?thesis by (intro view_wait) (auto simp: tick_segment_def update_conv')
  qed
  from map_state_steps [of env "tick_segment env now", OF this]
  show ?thesis by (simp add: segment_on_tick_def Let_def split_beta)
qed

lemma roll_steps: "view_steps env s (snd (roll_if_at_capacity env key s))"
  using seal_segment_steps [OF prod.collapse [symmetric], where env = env and key = key and reopen = True and s = s]
  by (auto simp: roll_if_at_capacity_def split_beta Let_def split: option.splits)

lemma write_record_batches_schema:
  "write_record_batches env bs p st = ((r, p'), st') \<Longrightarrow> ap_schema p' = ap_schema p \<and> fs_io st \<le> fs_io st'"
proof (induction bs arbitrary: p st)
  case Nil
  then show ?case by simp
next
  case (Cons b bs)
  obtain r1 p1 st1 where w: "write_record_batch env b p st = ((r1, p1), st1)" by (metis prod.exhaust)
  then have 1: "ap_schema p1 = ap_schema p" "fs_io st \<le> fs_io st1"
    by (auto simp: write_record_batch_def io_def Let_def split: option.splits)
  show ?case
  proof (cases r1)
    case None
    then have "write_record_batches env bs p1 st1 = ((r, p'), st')" using Cons.prems w by simp
    from Cons.IH [OF this] 1 show ?thesis by simp
  next
    case (Some e)
    then show ?thesis using Cons.prems w 1 by simp
  qed
qed

lemma append_steps: "view_steps env s (snd (append_batches env key bs lo hi s))"
proof (cases "map_of (ss_segments s) key")
  case None
  then show ?thesis by (simp add: append_batches_def)
next
  case (Some seg)
  obtain r p st where w: "write_record_batches (se_part env) bs (sg_part seg) (ss_store s) = ((r, p), st)"
    by (metis prod.exhaust)
  note wr = write_record_batches_schema [OF w]
  show ?thesis
  proof (cases r)
    case None
    then show ?thesis using w wr Some
      by (intro view_wait) (auto simp: append_batches_def note_ts_range_def update_conv')
  next
    case (Some e)
    let ?st = "quarantine_part_file (ap_path p) st"
    let ?a = "s\<lparr>ss_segments := AList.delete key (ss_segments s), ss_store := ?st\<rparr>"
    have "view_steps env s ?a"
      using wr by (intro view_drop [of _ key]) (simp_all add: quarantine_part_file_def)
    moreover have "view_steps env ?a (?a\<lparr>ss_window_ids := AList.delete key (ss_window_ids s)\<rparr>)"
      by (rule view_forget [where A = "{key}"]) (simp_all add: delete_conv' fun_eq_iff)
    moreover have "snd (append_batches env key bs lo hi s) = ?a\<lparr>ss_window_ids := AList.delete key (ss_window_ids s)\<rparr>"
      using w \<open>map_of (ss_segments s) key = Some seg\<close> Some by (simp add: append_batches_def)
    ultimately show ?thesis by simp
  qed
qed

text \<open>A write is a roll, an open if needed, the append and another roll, cut short by an error.\<close>

lemma write_batch_inner_induct:
  fixes s :: "'t segment_sink"
  assumes refl: "\<And>s. R s s" "\<And>s. E s s"
    and trans: "\<And>a b c. R a b \<Longrightarrow> R b c \<Longrightarrow> R a c" "\<And>a b c. R a b \<Longrightarrow> E b c \<Longrightarrow> E a c"
    and roll: "\<And>s s' x. roll_if_at_capacity env key s = (Inr x, s') \<Longrightarrow> R s s'"
      "\<And>s s' e. roll_if_at_capacity env key s = (Inl e, s') \<Longrightarrow> E s s'"
    and opn: "\<And>d ident sch ts s s' x. map_of (ss_segments s) key = None \<Longrightarrow>
        open_segment env key d ident sch ts ini s = (Inr x, s') \<Longrightarrow> R s s'"
      "\<And>d ident sch ts s s' e. map_of (ss_segments s) key = None \<Longrightarrow>
        open_segment env key d ident sch ts ini s = (Inl e, s') \<Longrightarrow> E s s'"
    and app: "\<And>sch bs t ts s s' x. se_encode env batch = Inr (sch, bs) \<Longrightarrow> map (se_ts env) batch = t # ts \<Longrightarrow>
        append_batches env key bs (foldl min t ts) (foldl max t ts) s = (Inr x, s') \<Longrightarrow> R s s'"
      "\<And>sch bs t ts s s' e. se_encode env batch = Inr (sch, bs) \<Longrightarrow> map (se_ts env) batch = t # ts \<Longrightarrow>
        append_batches env key bs (foldl min t ts) (foldl max t ts) s = (Inl e, s') \<Longrightarrow> E s s'"
    and w: "write_batch_inner env key batch ini s = (r, s')"
  shows "if isl r then E s s' else R s s'"
proof -
  define outcome where "outcome s p = (if isl (fst p) then E s (snd p) else R s (snd p))"
    for s :: "'t segment_sink" and p :: "string list result \<times> 't segment_sink"
  have chain: "outcome s (case p of (Inl e, s) \<Rightarrow> (Inl e, s) | (Inr x, s) \<Rightarrow> g x s)"
    if "\<And>x. p = (Inr x, snd p) \<Longrightarrow> R s (snd p)" "\<And>e. p = (Inl e, snd p) \<Longrightarrow> E s (snd p)"
      "\<And>x s. outcome s (g x s)" for s and p :: "'x result \<times> 't segment_sink" and g
    using that(1,2) that(3) [of "snd p"] trans [of s "snd p"]
    by (cases p; cases "fst p") (auto simp: outcome_def split: if_splits)
  define opened where "opened d ident sch ts s = (if map_of (ss_segments s) key = None
    then open_segment env key d ident sch ts ini s else (Inr (), s))" for d ident sch ts and s :: "'t segment_sink"
  define tail3 where "tail3 sealed s = (let (more, s) = roll_if_at_capacity env key s
    in (map_result (\<lambda>m. sealed @ m) more, s))" for sealed and s :: "'t segment_sink"
  have t3: "outcome s (tail3 sealed s)" for sealed s
    using roll [of s]
    by (cases "roll_if_at_capacity env key s"; cases "fst (roll_if_at_capacity env key s)")
      (auto simp: tail3_def outcome_def)
  define tail2 where "tail2 bs lo hi sealed s = (case append_batches env key bs lo hi s of
      (Inl e, s) \<Rightarrow> (Inl e, s) | (Inr _, s) \<Rightarrow> tail3 sealed s)" for bs lo hi sealed and s :: "'t segment_sink"
  have t2: "outcome s (tail2 bs (foldl min t ts) (foldl max t ts) sealed s)"
    if "se_encode env batch = Inr (sch, bs)" "map (se_ts env) batch = t # ts" for sch bs t ts sealed s
    unfolding tail2_def by (rule chain) (auto intro: app [OF that] t3)
  define tail1 where "tail1 d ident sch bs lo hi sealed s = (case opened d ident sch lo s of
      (Inl e, s) \<Rightarrow> (Inl e, s) | (Inr _, s) \<Rightarrow> tail2 bs lo hi sealed s)"
    for d ident sch bs lo hi sealed and s :: "'t segment_sink"
  have o1: "opened d ident sch lo s = (Inr x, s') \<Longrightarrow> R s s'" "opened d ident sch lo s = (Inl e, s') \<Longrightarrow> E s s'"
    for d ident sch lo s s' x e using opn refl(1) by (auto simp: opened_def split: if_splits)
  have t1: "outcome s (tail1 d ident sch bs (foldl min t ts) (foldl max t ts) sealed s)"
    if "se_encode env batch = Inr (sch, bs)" "map (se_ts env) batch = t # ts" for d ident sch bs t ts sealed s
    unfolding tail1_def by (rule chain) (auto intro: o1 t2 [OF that])
  define body where "body d ident sch bs lo hi s = (case roll_if_at_capacity env key s of
      (Inl e, s) \<Rightarrow> (Inl e, s) | (Inr sealed, s) \<Rightarrow> tail1 d ident sch bs lo hi sealed s)"
    for d ident sch bs lo hi and s :: "'t segment_sink"
  have b: "outcome s (body d ident sch bs (foldl min t ts) (foldl max t ts) s)"
    if "se_encode env batch = Inr (sch, bs)" "map (se_ts env) batch = t # ts" for d ident sch bs t ts s
    unfolding body_def by (rule chain) (auto intro: roll t1 [OF that])
  have "write_batch_inner env key batch ini s = (case map (se_ts env) batch of [] \<Rightarrow> (Inr [], s)
      | t # ts \<Rightarrow> (case batch_identifier (se_metadata env batch) of Inl e \<Rightarrow> (Inl e, s)
        | Inr ident \<Rightarrow> (case se_encode env batch of Inl e \<Rightarrow> (Inl e, s)
          | Inr (sch, bs) \<Rightarrow> (case catalog_fs_directory (se_root env) (se_make_path env) (se_type env) (Some ident) of
              Inl e \<Rightarrow> (Inl e, s) | Inr d \<Rightarrow> body d ident sch bs (foldl min t ts) (foldl max t ts) s))))"
    unfolding write_batch_inner_def body_def tail1_def tail2_def tail3_def opened_def Let_def by (rule HOL.refl)
  then have "outcome s (write_batch_inner env key batch ini s)"
    using b refl by (auto simp: outcome_def split: list.splits sum.splits)
  then show ?thesis using w by (auto simp: outcome_def split: if_splits)
qed

lemma write_batch_inner_steps: "view_steps env s (snd (write_batch_inner env key batch ini s))"
proof -
  have "if isl r then view_steps env s s' else view_steps env s s'"
    if "write_batch_inner env key batch ini s = (r, s')" for r s'
  proof (rule write_batch_inner_induct [where E = "view_steps env" and R = "view_steps env", OF _ _ _ _ _ _ _ _ _ _ that])
    show "roll_if_at_capacity env key s = (Inr x, s') \<Longrightarrow> view_steps env s s'" for s s' x
      using roll_steps [of env s key] by simp
    show "roll_if_at_capacity env key s = (Inl x, s') \<Longrightarrow> view_steps env s s'" for s s' x
      using roll_steps [of env s key] by simp
    show "append_batches env key bs (foldl min t ts) (foldl max t ts) s = (Inr x, s') \<Longrightarrow> view_steps env s s'"
      for bs t ts s s' x
      using append_steps [of env s key bs "foldl min t ts" "foldl max t ts"] by simp
    show "append_batches env key bs (foldl min t ts) (foldl max t ts) s = (Inl x, s') \<Longrightarrow> view_steps env s s'"
      for bs t ts s s' x
      using append_steps [of env s key bs "foldl min t ts" "foldl max t ts"] by simp
  qed (auto intro: rtranclp_trans open_segment_steps)
  then show ?thesis by (metis prod.collapse)
qed

subsection \<open>Runs of the segment sink\<close>

datatype 't segment_call =
    WriteBatch string "'t list"
  | WriteInitialization string "'t list"
  | OnTick nat
  | SealAll
  | SealPartition string
  | BreakContinuity "string option"
  | SealForShutdown

fun run_call :: "'t segment_env \<Rightarrow> 't segment_call \<Rightarrow> 't segment_sink \<Rightarrow> 't segment_sink" where
  "run_call env (WriteBatch k b) s = snd (segment_write_batch env k b s)"
| "run_call env (WriteInitialization k b) s = snd (segment_write_initialization env k b s)"
| "run_call env (OnTick now) s = snd (segment_on_tick env now s)"
| "run_call env SealAll s = snd (segment_seal_all env s)"
| "run_call env (SealPartition k) s = snd (segment_seal_partition env k s)"
| "run_call env (BreakContinuity key) s = snd (segment_break_continuity env key s)"
| "run_call env SealForShutdown s = snd (segment_seal_all_for_shutdown env s)"

fun run_calls :: "'t segment_env \<Rightarrow> 't segment_call list \<Rightarrow> 't segment_sink \<Rightarrow> 't segment_sink" where
  "run_calls env [] s = s"
| "run_calls env (c # cs) s = run_calls env cs (run_call env c s)"

definition segment_fresh :: "'t segment_sink \<Rightarrow> bool" where
  "segment_fresh s = (ss_segments s = [] \<and> ss_window_ids s = [] \<and> ss_published s = [])"

lemma seal_partition_steps: "view_steps env s (snd (segment_seal_partition env key s))"
proof -
  let ?s = "s\<lparr>ss_window_ids := AList.delete key (ss_window_ids s)\<rparr>"
  have "view_steps env s ?s" by (rule view_forget [where A = "{key}"]) (simp_all add: delete_conv' fun_eq_iff)
  with seal_segment_steps [OF prod.collapse [symmetric], where env = env and key = key and reopen = False and s = ?s]
  show ?thesis by (simp add: segment_seal_partition_def)
qed

lemma run_call_steps: "view_steps env s (run_call env c s)"
proof (cases c)
  case (WriteBatch k b)
  then show ?thesis using write_batch_inner_steps by (simp add: segment_write_batch_def)
next
  case (WriteInitialization k b)
  then show ?thesis using write_batch_inner_steps [of env s k b] by (simp add: segment_write_initialization_def)
next
  case (OnTick now)
  then show ?thesis using tick_steps by simp
next
  case SealAll
  then show ?thesis using seal_all_steps by (simp add: segment_seal_all_def)
next
  case (SealPartition k)
  then show ?thesis using seal_partition_steps by simp
next
  case (BreakContinuity key)
  let ?s = "s\<lparr>ss_window_ids := []\<rparr>"
  have "view_steps env s ?s" by (rule view_forget [where A = UNIV]) (simp_all add: fun_eq_iff)
  with seal_all_steps [of env ?s False] show ?thesis using BreakContinuity seal_partition_steps
    by (cases key) (simp_all add: segment_break_continuity_def segment_seal_all_def)
next
  case SealForShutdown
  then show ?thesis using seal_all_steps by (simp add: segment_seal_all_for_shutdown_def)
qed

lemma run_calls_steps: "view_steps env s (run_calls env cs s)"
proof (induction cs arbitrary: s)
  case Nil
  then show ?case by simp
next
  case (Cons c cs)
  from rtranclp_trans [OF run_call_steps [of env s c] Cons] show ?case by simp
qed

lemma fresh_window_inv: "segment_fresh s \<Longrightarrow> window_inv uuid (segment_view s)"
  by (auto simp: segment_fresh_def window_inv_def ids_inv_def open_inv_def files_inv_def segment_view_def
      window_files_def)

text \<open>The window and the ordinal a published file names.\<close>

definition file_window :: "'t sealed_file \<Rightarrow> string option" where
  "file_window f = map_of (sch_metadata (sf_schema f)) window_id_key"

definition file_ordinal :: "'t sealed_file \<Rightarrow> string option" where
  "file_ordinal f = map_of (sch_metadata (sf_schema f)) segment_index_key"

lemma view_files_filter:
  "window_files (segment_view s) w
    = map (\<lambda>(k, f). (k, file_window f, file_ordinal f)) (filter (\<lambda>x. file_window (snd x) = Some w) (ss_published s))"
  by (simp add: window_files_def segment_view_def schema_tag_def file_window_def file_ordinal_def
      filter_map comp_def split_beta)

text \<open>A partition without window and open part: what it publishes next starts a new window.\<close>

definition closed :: "'t segment_sink \<Rightarrow> string \<Rightarrow> bool" where
  "closed s k = (map_of (ss_segments s) k = None \<and> map_of (ss_window_ids s) k = None)"

lemma closed_new_window:
  assumes inj: "inj (pe_uuid (se_part env))" and inv: "window_inv (pe_uuid (se_part env)) (segment_view s)"
    and k: "closed s k" and f: "(k, f) \<in> set (drop (length (ss_published s)) (ss_published (run_calls env cs s)))"
    and g: "(k', g) \<in> set (ss_published s)"
  shows "file_window f \<noteq> file_window g"
proof
  assume same: "file_window f = file_window g"
  let ?u = "pe_uuid (se_part env)" and ?v = "segment_view s" and ?v' = "segment_view (run_calls env cs s)"
  define D where "D = {w. \<exists>x \<in> set (wv_files ?v). fst (snd x) = Some w}"
  from inv obtain owner where own: "files_inv ?u owner ?v" by (auto simp: window_inv_def)
  then have "D \<subseteq> issued ?u ?v" by (auto simp: files_inv_def D_def)
  then have "apart ?u D k (length (wv_files ?v)) ?v"
    using k by (auto simp: apart_def closed_def segment_view_def)
  from apart_steps [OF run_calls_steps inj this, of cs]
  have a: "(k, Some w, x) \<in> set (drop (length (wv_files ?v)) (wv_files ?v')) \<Longrightarrow> w \<notin> D" for w x
    by (auto simp: apart_def)
  have "(k', file_window g, file_ordinal g) \<in> set (wv_files ?v)"
    using g by (force simp: segment_view_def schema_tag_def file_window_def file_ordinal_def)
  moreover from this own obtain w where w: "file_window g = Some w" by (fastforce simp: files_inv_def)
  ultimately have "w \<in> D" by (force simp: D_def)
  moreover have "(k, file_window f, file_ordinal f) \<in> set (drop (length (wv_files ?v)) (wv_files ?v'))"
    using f by (force simp: segment_view_def schema_tag_def file_window_def file_ordinal_def drop_map)
  ultimately show False using a same w by simp
qed

subsection \<open>Losses end the window\<close>

text \<open>A call loses rows of a partition only when it leaves the partition closed.\<close>

definition kept_or_closed :: "'t segment_sink \<Rightarrow> 't segment_sink \<Rightarrow> bool" where
  "kept_or_closed s s' = (seg_ok s \<longrightarrow> seg_ok s' \<and>
     (\<forall>k. prefix (seg_rows s k) (seg_rows s' k) \<or> closed s' k))"

definition rows_extend :: "'t segment_sink \<Rightarrow> 't segment_sink \<Rightarrow> bool" where
  "rows_extend s s' = (seg_ok s \<longrightarrow> seg_ok s' \<and> (\<forall>k. prefix (seg_rows s k) (seg_rows s' k)))"

lemma rows_extend_trans:
  "rows_extend a b \<Longrightarrow> rows_extend b c \<Longrightarrow> rows_extend a c"
  "rows_extend a b \<Longrightarrow> kept_or_closed b c \<Longrightarrow> kept_or_closed a c"
  "rows_extend a b \<Longrightarrow> kept_or_closed a b"
  by (auto simp: rows_extend_def kept_or_closed_def intro: prefix_order.trans)

lemma rows_extend_refl: "rows_extend s s" "kept_or_closed s s"
  by (simp_all add: rows_extend_def kept_or_closed_def)

lemma rows_extendI: "(seg_ok s \<Longrightarrow> seg_rows s' = seg_rows s \<and> seg_ok s') \<Longrightarrow> rows_extend s s'"
  by (simp add: rows_extend_def)

lemma seal_segment_error:
  assumes ok: "seg_ok s" and seal: "seal_segment env key reopen s = (Inl e, s')"
  shows "seg_rows s' = seg_rows s \<or> closed s' key"
proof (cases "map_of (ss_segments s) key")
  case None
  with seal show ?thesis by (simp add: seal_segment_def)
next
  case (Some seg)
  obtain pub r1 st where p: "part_seal (se_part env) (sg_part seg) (ss_store s) = (pub, r1, st)"
    by (metis prod_cases3)
  show ?thesis
  proof (cases r1)
    case (Inl e')
    then show ?thesis using seal Some p by (auto simp: seal_segment_def closed_def delete_conv')
  next
    case (Inr sealed)
    have eq: "seal_segment env key True s = (let (r, s2) = seal_segment env key False s in
        if fr_files sealed = [] then (r, s2) else
          let (opened, s) = open_segment env key (ap_directory (sg_part seg)) (sg_identifier seg)
              (sg_schema seg) (ap_max (sg_part seg)) 0 s2 in (map_result (\<lambda>_. sealed) opened, s))"
      using Some p Inr by (simp add: seal_segment_def Let_def)
    obtain s2 where s2: "seal_segment env key False s = (Inr sealed, s2)"
      using Some p Inr by (simp add: seal_segment_def Let_def)
    note rows = seal_segment_rows(2,3) [OF ok s2]
    have "map_of (ss_segments s2) key = None" using seal_segment_closed(1) [OF s2] by simp
    note op = open_segment_rows [OF rows(2) this prod.collapse [symmetric]]
    have "reopen" using seal s2 by (cases reopen) auto
    then have "seg_rows s' = seg_rows s2"
      using seal eq s2 op(1) by (auto simp: split_beta Let_def split: if_splits)
    then show ?thesis using rows by simp
  qed
qed

lemma seal_kept:
  assumes "seal_segment env key reopen s = (r, s')"
  shows "kept_or_closed s s'" "\<not> isl r \<Longrightarrow> rows_extend s s'"
proof -
  show "\<not> isl r \<Longrightarrow> rows_extend s s'"
    using seal_segment_rows(2,3) [OF _ assms] by (intro rows_extendI) auto
  show "kept_or_closed s s'"
  proof (cases r)
    case (Inl e)
    then show ?thesis
      using seal_segment_rows(1,3) [OF _ assms] seal_segment_error [of s env key reopen e s'] assms
      unfolding kept_or_closed_def by (metis prefix_order.refl)
  next
    case (Inr x)
    then show ?thesis
      using seal_segment_rows(2,3) [OF _ assms] by (intro rows_extend_trans(3) rows_extendI) auto
  qed
qed

lemma append_kept:
  assumes "append_batches env key bs lo hi s = (r, s')"
  shows "kept_or_closed s s'" "\<not> isl r \<Longrightarrow> rows_extend s s'"
proof -
  show ext: "rows_extend s s'" if "\<not> isl r"
    using append_batches_rows [OF _ assms] that by (cases r) (auto simp: rows_extend_def)
  show "kept_or_closed s s'"
  proof (cases r)
    case (Inl e)
    have "s' = s \<or> closed s' key"
      using assms Inl by (auto simp: append_batches_def closed_def delete_conv' split_beta Let_def split: option.splits)
    then show ?thesis
      using append_batches_rows(1,2) [OF _ assms] unfolding kept_or_closed_def by (metis prefix_order.refl)
  next
    case (Inr x)
    with ext rows_extend_trans(3) show ?thesis by auto
  qed
qed

lemma open_kept:
  assumes "map_of (ss_segments s) key = None" "open_segment env key d ident sch ts ini s = (r, s')"
  shows "rows_extend s s'"
  using open_segment_rows(1,2) [OF _ assms] by (intro rows_extendI) auto

lemma roll_kept:
  assumes "roll_if_at_capacity env key s = (r, s')"
  shows "kept_or_closed s s'" "\<not> isl r \<Longrightarrow> rows_extend s s'"
proof -
  obtain r1 s1 where seal: "seal_segment env key True s = (r1, s1)" by fastforce
  have "(s' = s \<and> \<not> isl r) \<or> (s' = s1 \<and> isl r = isl r1)"
    using assms seal by (auto simp: roll_if_at_capacity_def split: option.splits if_splits)
  with seal_kept [OF seal] rows_extend_refl show "kept_or_closed s s'" "\<not> isl r \<Longrightarrow> rows_extend s s'" by auto
qed

lemma write_batch_inner_kept:
  assumes "write_batch_inner env key batch ini s = (r, s')"
  shows "kept_or_closed s s'"
proof -
  have "if isl r then kept_or_closed s s' else rows_extend s s'"
  proof (rule write_batch_inner_induct [OF _ _ _ _ _ _ _ _ _ _ assms])
    show "roll_if_at_capacity env key s = (Inr x, s') \<Longrightarrow> rows_extend s s'" for s s' x
      using roll_kept(2) [of env key s "Inr x"] by simp
    show "append_batches env key bs (foldl min t ts) (foldl max t ts) s = (Inr x, s') \<Longrightarrow> rows_extend s s'"
      for bs t ts s s' x
      using append_kept(2) [of env key bs "foldl min t ts" "foldl max t ts" s "Inr x"] by simp
  qed (auto intro: rows_extend_trans rows_extend_refl roll_kept(1) append_kept(1) open_kept)
  then show ?thesis by (auto intro: rows_extend_trans(3) split: if_splits)
qed

lemma seal_map_kept:
  assumes "seg_ok s0"
    and "seg_ok s" "\<forall>k. prefix (seg_rows s0 k) (seg_rows s k) \<or> closed s k"
  shows "let s' = snd (map_state (\<lambda>key. seal_segment env key False) keys s)
    in seg_ok s' \<and> (\<forall>k. prefix (seg_rows s0 k) (seg_rows s' k) \<or> closed s' k)"
  using assms(2,3)
proof (induction keys arbitrary: s)
  case Nil
  then show ?case by simp
next
  case (Cons key keys)
  obtain r s1 where seal: "seal_segment env key False s = (r, s1)" by fastforce
  from Cons.prems seal_kept(1) [OF seal] have ok1: "seg_ok s1"
    and kept: "\<And>k. prefix (seg_rows s k) (seg_rows s1 k) \<or> closed s1 k" by (auto simp: kept_or_closed_def)
  have cl: "closed s1 k" if "closed s k" for k
    using that seal_segment_closed(1) [OF seal] seal_segment_closed(2) [OF seal, of k]
    by (auto simp: closed_def)
  have "prefix (seg_rows s0 k) (seg_rows s1 k) \<or> closed s1 k" for k
    using Cons.prems(2) kept [of k] cl [of k] by (meson prefix_order.trans)
  with Cons.IH [OF ok1] seal show ?case by (simp add: split_beta Let_def)
qed

lemma seal_all_kept: "kept_or_closed s (snd (segment_seal_all_internal env False s))"
  using seal_map_kept [of s s]
  by (auto simp: kept_or_closed_def segment_seal_all_internal_def Let_def split_beta)

lemma run_call_kept: "kept_or_closed s (run_call env c s)"
proof -
  have shift: "kept_or_closed s s'" if "kept_or_closed (s\<lparr>ss_window_ids := w\<rparr>) s'" for s s' w
    using that seg_ok_cong [of "s\<lparr>ss_window_ids := w\<rparr>" s] seg_rows_cong [of "s\<lparr>ss_window_ids := w\<rparr>" s]
    by (auto simp: kept_or_closed_def)
  have part: "kept_or_closed s (snd (segment_seal_partition env k s))" for k
    unfolding segment_seal_partition_def by (rule shift) (rule seal_kept(1) [OF prod.collapse [symmetric]])
  show ?thesis
  proof (cases c)
    case (WriteBatch k b)
    then show ?thesis using write_batch_inner_kept [OF prod.collapse [symmetric]]
      by (simp add: segment_write_batch_def)
  next
    case (WriteInitialization k b)
    then show ?thesis using write_batch_inner_kept [OF prod.collapse [symmetric], where env = env and key = k and batch = b] rows_extend_refl(2) [of s]
      by (simp add: segment_write_initialization_def)
  next
    case (OnTick now)
    then show ?thesis using tick_rows [of s env now] by (simp add: kept_or_closed_def)
  next
    case (BreakContinuity key)
    then show ?thesis using part shift [OF seal_all_kept]
      by (cases key) (simp_all add: segment_break_continuity_def segment_seal_all_def)
  qed (use part seal_all_kept in \<open>simp_all add: segment_seal_all_def segment_seal_all_for_shutdown_def\<close>)
qed

end
