(* ===== verification/Segment_Invariant.thy ===== *)
theory Segment_Invariant
  imports Windows
begin

section \<open>Invariants of parts and files\<close>

text \<open>
  A property of the open parts that carries over to the files published from them. It is enough
  to show it for a fresh part, for a successful append and for what becomes of a part when it is
  published; every operation of the segment sink then keeps it.
\<close>

definition sink_all :: "('t active_part \<Rightarrow> bool) \<Rightarrow> ('t sealed_file \<Rightarrow> bool) \<Rightarrow> 't segment_sink \<Rightarrow> bool" where
  "sink_all P Q s = ((\<forall>k seg. map_of (ss_segments s) k = Some seg \<longrightarrow> P (sg_part seg))
     \<and> (\<forall>x \<in> set (ss_published s). Q (snd x)))"

lemma sink_allI:
  assumes "sink_all P Q s"
    and "\<And>k seg. map_of (ss_segments s') k = Some seg \<Longrightarrow> map_of (ss_segments s) k = Some seg \<or> P (sg_part seg)"
    and "\<And>x. x \<in> set (ss_published s') \<Longrightarrow> x \<in> set (ss_published s) \<or> Q (snd x)"
  shows "sink_all P Q s'"
  using assms unfolding sink_all_def by blast

lemma sink_all_fresh: "segment_fresh s \<Longrightarrow> sink_all P Q s"
  by (simp add: sink_all_def segment_fresh_def)

text \<open>What a call writes, and how many initialization rows it announces.\<close>

fun call_payloads :: "'t segment_call \<Rightarrow> 't list" where
  "call_payloads (WriteBatch k b) = b"
| "call_payloads (WriteInitialization k b) = b"
| "call_payloads _ = []"

fun call_initialization :: "'t segment_call \<Rightarrow> nat" where
  "call_initialization (WriteInitialization k b) = length b"
| "call_initialization _ = 0"

locale part_invariant =
  fixes env :: "'t segment_env"
    and P :: "'t active_part \<Rightarrow> bool"
    and Q :: "'t sealed_file \<Rightarrow> bool"
    and good :: "'t list \<Rightarrow> bool"
    and prefix_ok :: "nat \<Rightarrow> bool"
  assumes fresh_part: "prefix_ok ini \<Longrightarrow> ap_rows p = [] \<Longrightarrow> ap_schema p = window_schema w i ini sch \<Longrightarrow> P p"
    and zero_ok: "prefix_ok 0"
    and published: "P p \<Longrightarrow> Q (published_of p path)"
    and synced: "P p \<Longrightarrow> P (p\<lparr>ap_last_sync := now\<rparr>)"
    and appended: "good batch \<Longrightarrow> se_encode env batch = Inr (sch, bs) \<Longrightarrow> map (se_ts env) batch = t # us \<Longrightarrow>
      P p \<Longrightarrow> write_record_batches (se_part env) bs p st = ((None, p'), st') \<Longrightarrow>
      P (note_ts_range (foldl min t us) (foldl max t us) p')"
begin

lemma open_segment_inv:
  fixes s :: "'t segment_sink"
  assumes ok: "sink_all P Q s" and ini: "prefix_ok ini" and op: "open_segment env key d ident sch ts ini s = (r, s')"
  shows "sink_all P Q s'"
proof -
  obtain w i s1 where w: "enter_window env key s = ((w, i), s1)" by (metis prod.exhaust)
  obtain part :: "'t active_part result" and st where
    p: "part_open (se_part env) d ts (window_schema w i ini sch) (ss_store s1) = (part, st)" by fastforce
  note ew = enter_window_simps [of env key s, unfolded w, simplified]
  have new: "P q" if "part = Inr q" for q
    using part_open_new [of _ _ _ _ _ q] p that by (intro fresh_part [OF ini]) auto
  show ?thesis
    by (rule sink_allI [OF ok])
      (use op w p ew new in \<open>auto simp: open_segment_def Let_def update_conv' split: sum.splits if_splits\<close>)
qed

lemma seal_segment_inv:
  fixes s :: "'t segment_sink"
  assumes ok: "sink_all P Q s" and seal: "seal_segment env key reopen s = (r, s')"
  shows "sink_all P Q s'"
proof (cases "map_of (ss_segments s) key")
  case None
  with seal ok show ?thesis by (simp add: seal_segment_def)
next
  case (Some seg)
  obtain pub r1 st where p: "part_seal (se_part env) (sg_part seg) (ss_store s) = (pub, r1, st)"
    by (metis prod_cases3)
  define s1 where "s1 = s\<lparr>ss_segments := AList.delete key (ss_segments s), ss_store := st,
    ss_published := ss_published s @ (case pub of None \<Rightarrow> [] | Some f \<Rightarrow> [(key, f)])\<rparr>"
  have part: "P (sg_part seg)" using ok Some by (simp add: sink_all_def)
  have pub: "Q f" if "pub = Some f" for f
  proof -
    have "f = published_of (sg_part seg) (sf_path f)" using part_seal_result(3) [OF p that] by blast
    with published [OF part] show ?thesis by metis
  qed
  have s1: "sink_all P Q s1"
    by (rule sink_allI [OF ok]) (auto simp: s1_def delete_conv' dest: pub split: option.splits if_splits)
  have same: "sink_all P Q a" if "ss_published a = ss_published s1" "ss_segments a = ss_segments s1" for a
    using s1 that by (simp add: sink_all_def)
  show ?thesis
  proof (cases r1)
    case (Inl e)
    then show ?thesis using seal Some p by (intro same) (auto simp: seal_segment_def s1_def)
  next
    case (Inr sealed)
    define s2 where "s2 = (if fr_files sealed = [] then s1 else case map_of (ss_window_ids s1) key of
        None \<Rightarrow> s1 | Some (w, index) \<Rightarrow> s1\<lparr>ss_window_ids := AList.update key (w, sat_add index 1) (ss_window_ids s1)\<rparr>)"
    have s2: "sink_all P Q s2" by (rule same) (auto simp: s2_def split: option.splits)
    obtain o' s3 where op: "open_segment env key (ap_directory (sg_part seg)) (sg_identifier seg)
        (sg_schema seg) (ap_max (sg_part seg)) 0 s2 = (o', s3)" by fastforce
    have "s' = s2 \<or> s' = s3"
      using seal Some p Inr op by (auto simp: seal_segment_def s1_def s2_def Let_def split: option.splits if_splits)
    then show ?thesis using s2 open_segment_inv [OF s2 zero_ok op] by auto
  qed
qed

lemma roll_inv:
  assumes "sink_all P Q s" shows "sink_all P Q (snd (roll_if_at_capacity env key s))"
  using assms seal_segment_inv [OF assms prod.collapse [symmetric], where key = key and reopen = True]
  by (auto simp: roll_if_at_capacity_def split_beta Let_def split: option.splits)

lemma append_inv:
  assumes ok: "sink_all P Q s" and b: "good batch" "se_encode env batch = Inr (sch, bs)" "map (se_ts env) batch = t # us"
  shows "sink_all P Q (snd (append_batches env key bs (foldl min t us) (foldl max t us) s))"
proof (cases "map_of (ss_segments s) key")
  case None
  then show ?thesis using ok by (simp add: append_batches_def)
next
  case (Some seg)
  obtain r p st where w: "write_record_batches (se_part env) bs (sg_part seg) (ss_store s) = ((r, p), st)"
    by (metis prod.exhaust)
  have "P (sg_part seg)" using ok Some by (simp add: sink_all_def)
  note app = appended [OF b this]
  show ?thesis
  proof (cases r)
    case None
    with app [of "ss_store s" p st] w have "P (note_ts_range (foldl min t us) (foldl max t us) p)" by simp
    then show ?thesis
      by (intro sink_allI [OF ok]) (use w Some None in \<open>auto simp: append_batches_def update_conv' split: if_splits\<close>)
  next
    case (Some e)
    then show ?thesis
      by (intro sink_allI [OF ok])
        (use w \<open>map_of (ss_segments s) key = Some seg\<close> in \<open>auto simp: append_batches_def delete_conv' split: if_splits\<close>)
  qed
qed

lemma map_state_inv:
  assumes "\<And>x s. sink_all P Q s \<Longrightarrow> sink_all P Q (snd (f x s))" "sink_all P Q s"
  shows "sink_all P Q (snd (map_state f xs s))"
  using assms(2)
proof (induction xs arbitrary: s)
  case (Cons x xs)
  from Cons.IH [OF assms(1) [OF Cons.prems, of x]] show ?case by (simp add: split_beta Let_def)
qed simp

lemma seal_all_inv:
  assumes "sink_all P Q s" shows "sink_all P Q (snd (segment_seal_all_internal env reopen s))"
proof -
  have "sink_all P Q (snd (map_state (\<lambda>key. seal_segment env key reopen) keys s))" for keys
    by (rule map_state_inv [OF seal_segment_inv [OF _ prod.collapse [symmetric]] assms])
  then show ?thesis by (simp add: segment_seal_all_internal_def Let_def split_beta)
qed

lemma tick_inv:
  assumes "sink_all P Q s" shows "sink_all P Q (snd (segment_on_tick env now s))"
proof -
  have "sink_all P Q (snd (tick_segment env now key s))" if ok: "sink_all P Q s" for key s
  proof (cases "map_of (ss_segments s) key")
    case None
    then show ?thesis using ok by (simp add: tick_segment_def)
  next
    case (Some seg)
    obtain r p st where t: "part_tick (se_part env) (ss_sync_interval s) now (sg_part seg) (ss_store s) = (r, p, st)"
      by (metis prod_cases3)
    then have "p = sg_part seg \<or> p = (sg_part seg)\<lparr>ap_last_sync := now\<rparr>"
      by (auto simp: part_tick_def Let_def split_beta split: if_splits option.splits)
    moreover have "P (sg_part seg)" using ok Some by (simp add: sink_all_def)
    ultimately have "P p" using synced by auto
    with Some t show ?thesis
      by (intro sink_allI [OF ok]) (auto simp: tick_segment_def update_conv' split: if_splits)
  qed
  from map_state_inv [OF this assms] show ?thesis by (simp add: segment_on_tick_def Let_def split_beta)
qed

lemma write_batch_inv:
  assumes b: "good batch" "prefix_ok ini" and ok: "sink_all P Q s"
  shows "sink_all P Q (snd (write_batch_inner env key batch ini s))"
proof -
  define R where "R s s' = (sink_all P Q s \<longrightarrow> sink_all P Q s')" for s s'
  have app: "R s (snd (append_batches env key bs (foldl min t us) (foldl max t us) s))"
    if "se_encode env batch = Inr (sch, bs)" "map (se_ts env) batch = t # us" for sch bs t us s
    using append_inv [OF _ b(1) that] by (simp add: R_def)
  have "if isl r then R s s' else R s s'"
    if "write_batch_inner env key batch ini s = (r, s')" for r s'
  proof (rule write_batch_inner_induct [where E = R and R = R, OF _ _ _ _ _ _ _ _ _ _ that])
    show "roll_if_at_capacity env key s = (Inr x, s') \<Longrightarrow> R s s'" for s s' x
      using roll_inv [of s key] by (simp add: R_def)
    show "roll_if_at_capacity env key s = (Inl e, s') \<Longrightarrow> R s s'" for s s' e
      using roll_inv [of s key] by (simp add: R_def)
    show "se_encode env batch = Inr (sch, bs) \<Longrightarrow> map (se_ts env) batch = t # us \<Longrightarrow>
        append_batches env key bs (foldl min t us) (foldl max t us) s = (Inr x, s') \<Longrightarrow> R s s'"
      for sch bs t us s s' x using app [of sch bs t us s] by simp
    show "se_encode env batch = Inr (sch, bs) \<Longrightarrow> map (se_ts env) batch = t # us \<Longrightarrow>
        append_batches env key bs (foldl min t us) (foldl max t us) s = (Inl e, s') \<Longrightarrow> R s s'"
      for sch bs t us s s' e using app [of sch bs t us s] by simp
  qed (auto simp: R_def intro: open_segment_inv [OF _ b(2)])
  then have "R s (snd (write_batch_inner env key batch ini s))" by (metis prod.collapse)
  with ok show ?thesis by (simp add: R_def)
qed

lemma run_call_inv:
  assumes ok: "sink_all P Q s" and b: "good (call_payloads c)" "prefix_ok (call_initialization c)"
  shows "sink_all P Q (run_call env c s)"
proof -
  have shift: "sink_all P Q (s\<lparr>ss_window_ids := w\<rparr>)" for w using ok by (simp add: sink_all_def)
  have part: "sink_all P Q (snd (segment_seal_partition env k s))" for k
    unfolding segment_seal_partition_def by (rule seal_segment_inv [OF shift prod.collapse [symmetric]])
  show ?thesis
  proof (cases c)
    case (WriteBatch k b)
    then show ?thesis using write_batch_inv [OF _ zero_ok ok, of b] assms(2) by (simp add: segment_write_batch_def)
  next
    case (WriteInitialization k b)
    then show ?thesis using write_batch_inv [OF _ _ ok, of b "length b"] assms by (simp add: segment_write_initialization_def)
  next
    case (BreakContinuity key)
    then show ?thesis using part seal_all_inv [OF shift [of "[]"], of False]
      by (cases key) (simp_all add: segment_break_continuity_def segment_seal_all_def)
  qed (use part seal_all_inv [OF ok] tick_inv [OF ok] in
    \<open>simp_all add: segment_seal_all_def segment_seal_all_for_shutdown_def\<close>)
qed

lemma run_calls_inv:
  assumes "sink_all P Q s" "\<forall>c \<in> set cs. good (call_payloads c) \<and> prefix_ok (call_initialization c)"
  shows "sink_all P Q (run_calls env cs s)"
  using assms by (induction cs arbitrary: s) (auto intro: run_call_inv)

end

subsection \<open>The range of a part covers its rows\<close>

definition rows_between :: "('t \<Rightarrow> nat) \<Rightarrow> nat \<Rightarrow> nat \<Rightarrow> 't list \<Rightarrow> bool" where
  "rows_between ts lo hi rows = (\<forall>d \<in> set rows. lo \<le> ts d \<and> ts d \<le> hi)"

definition part_range :: "('t \<Rightarrow> nat) \<Rightarrow> 't active_part \<Rightarrow> bool" where
  "part_range ts p = ((ap_min p = 0 \<longrightarrow> ap_rows p = []) \<and> rows_between ts (ap_min p) (ap_max p) (ap_rows p))"

definition file_range :: "('t \<Rightarrow> nat) \<Rightarrow> 't sealed_file \<Rightarrow> bool" where
  "file_range ts f = rows_between ts (sf_min f) (sf_max f) (sf_rows f)"

lemma write_record_batches_range:
  "write_record_batches env bs p st = ((r, p'), st') \<Longrightarrow> ap_min p' = ap_min p \<and> ap_max p' = ap_max p
    \<and> (r = None \<longrightarrow> ap_rows p' = ap_rows p @ concat bs)"
proof (induction bs arbitrary: p st)
  case Nil
  then show ?case by simp
next
  case (Cons b bs)
  obtain r1 p1 st1 where w: "write_record_batch env b p st = ((r1, p1), st1)" by (metis prod.exhaust)
  then have 1: "ap_min p1 = ap_min p" "ap_max p1 = ap_max p" "r1 = None \<Longrightarrow> ap_rows p1 = ap_rows p @ b"
    by (auto simp: write_record_batch_def Let_def split_beta split: option.splits)
  show ?case
  proof (cases r1)
    case None
    then have "write_record_batches env bs p1 st1 = ((r, p'), st')" using Cons.prems w by simp
    from Cons.IH [OF this] 1 None show ?thesis by simp
  next
    case (Some e)
    then show ?thesis using Cons.prems w 1 by auto
  qed
qed

lemma append_range:
  assumes range: "part_range ts p" and pos: "list_all (\<lambda>d. 0 < ts d) rows" and t: "map ts rows = t # us"
    and p': "ap_min p' = ap_min p" "ap_max p' = ap_max p" "ap_rows p' = ap_rows p @ rows"
  shows "part_range ts (note_ts_range (foldl min t us) (foldl max t us) p')"
proof -
  have new: "foldl min t us \<le> ts d \<and> ts d \<le> foldl max t us" if "d \<in> set rows" for d
  proof -
    have "ts d \<in> set (t # us)" using that t by (metis image_eqI set_map)
    then show ?thesis using foldl_min [of t us] foldl_max [of t us] by auto
  qed
  have "foldl min t us \<in> set (t # us)" using foldl_min [of t us] by auto
  moreover have "\<forall>x \<in> set (t # us). 0 < x" using pos by (simp add: t [symmetric] list_all_iff)
  ultimately have low: "0 < foldl min t us" by blast
  let ?p = "note_ts_range (foldl min t us) (foldl max t us) p'"
  have min': "ap_min ?p = (if ap_min p = 0 then foldl min t us else min (ap_min p) (foldl min t us))"
    and max': "ap_max ?p = max (ap_max p) (foldl max t us)" and rows': "ap_rows ?p = ap_rows p @ rows"
    using p' by (simp_all add: note_ts_range_def)
  have "ap_min ?p \<le> ts d \<and> ts d \<le> ap_max ?p" if "d \<in> set (ap_rows ?p)" for d
  proof (cases "d \<in> set rows")
    case True
    with new [OF True] show ?thesis by (auto simp: min' max' min_le_iff_disj le_max_iff_disj)
  next
    case False
    then have d: "d \<in> set (ap_rows p)" using that rows' by auto
    then have "ap_min p \<noteq> 0" using range by (auto simp: part_range_def)
    moreover have "ap_min p \<le> ts d" "ts d \<le> ap_max p" using range d by (auto simp: part_range_def rows_between_def)
    ultimately show ?thesis by (auto simp: min' max' min_le_iff_disj le_max_iff_disj)
  qed
  moreover have "ap_min ?p \<noteq> 0" using low by (auto simp: min' min_def)
  ultimately show ?thesis by (simp add: part_range_def rows_between_def)
qed

interpretation ranges: part_invariant "Rep_row_encoding enc" "part_range (se_ts (Rep_row_encoding enc))"
  "file_range (se_ts (Rep_row_encoding enc))" "list_all (\<lambda>d. 0 < se_ts (Rep_row_encoding enc) d)" "\<lambda>_. True"
  for enc :: "'t row_encoding"
proof unfold_locales
  let ?ts = "se_ts (Rep_row_encoding enc)"
  fix p :: "'t active_part" and w i ini sch path now batch bs t us st p' st'
  show "ap_rows p = [] \<Longrightarrow> ap_schema p = window_schema w i ini sch \<Longrightarrow> part_range ?ts p"
    by (simp add: part_range_def rows_between_def)
  show "part_range ?ts p \<Longrightarrow> file_range ?ts (published_of p path)"
    by (simp add: part_range_def file_range_def published_of_def)
  show "part_range ?ts p \<Longrightarrow> part_range ?ts (p\<lparr>ap_last_sync := now\<rparr>)" by (simp add: part_range_def)
  assume b: "list_all (\<lambda>d. 0 < ?ts d) batch" "se_encode (Rep_row_encoding enc) batch = Inr (sch, bs)"
    "map ?ts batch = t # us" and p: "part_range ?ts p"
    and w: "write_record_batches (se_part (Rep_row_encoding enc)) bs p st = ((None, p'), st')"
  have "concat bs = batch" using kept.encode [of enc] b(2) by (auto simp: encode_ok_def)
  then show "part_range ?ts (note_ts_range (foldl min t us) (foldl max t us) p')"
    using write_record_batches_range [OF w] by (intro append_range [OF p b(1,3)]) auto
qed simp

subsection \<open>Every file is certified\<close>

text \<open>The contract key is set, and without \<open>write_initialization\<close> no file has an initialization prefix.\<close>

definition certified :: "part_schema \<Rightarrow> bool" where
  "certified sch = (map_of (sch_metadata sch) contract_key = Some contract_version
     \<and> map_of (sch_metadata sch) initialization_rows_key = Some (show_nat 0))"

lemma certified_window [simp]: "certified (window_schema w i 0 sch)"
  by (simp add: certified_def window_schema_def update_conv' window_id_key_def segment_index_key_def
      contract_key_def initialization_rows_key_def)

interpretation certification: part_invariant env "\<lambda>p. certified (ap_schema p)"
  "\<lambda>f. certified (sf_schema f)" "\<lambda>_. True" "\<lambda>n. n = 0" for env :: "'t segment_env"
  by unfold_locales (auto simp: published_of_def note_ts_range_def dest: write_record_batches_schema)

end
