(* ===== verification/Segment_Files.thy ===== *)
theory Segment_Files
  imports Segment_Invariant
begin

section \<open>The files of the segment sink\<close>

text \<open>
  Two facts about the published files and the properties of the segment sink: publication never
  replaces a file, and the range in a file's name covers the timestamps of its rows.
\<close>

subsection \<open>Publication only adds files\<close>

definition adds_files :: "'t segment_sink \<Rightarrow> 't segment_sink \<Rightarrow> bool" where
  "adds_files s s' = (\<exists>fs. ss_published s' = ss_published s @ fs
     \<and> fs_paths (ss_store s') = rev (map (sf_path \<circ> snd) fs) @ fs_paths (ss_store s)
     \<and> (distinct (fs_paths (ss_store s)) \<longrightarrow> distinct (fs_paths (ss_store s'))))"

lemma adds_files_refl: "ss_published s' = ss_published s \<Longrightarrow> fs_paths (ss_store s') = fs_paths (ss_store s) \<Longrightarrow> adds_files s s'"
  by (simp add: adds_files_def)

lemma adds_files_trans:
  assumes "adds_files a b" "adds_files b c"
  shows "adds_files a c"
proof -
  obtain fs gs where
    "ss_published b = ss_published a @ fs" "fs_paths (ss_store b) = rev (map (sf_path \<circ> snd) fs) @ fs_paths (ss_store a)"
    "ss_published c = ss_published b @ gs" "fs_paths (ss_store c) = rev (map (sf_path \<circ> snd) gs) @ fs_paths (ss_store b)"
    using assms unfolding adds_files_def by blast
  moreover have "distinct (fs_paths (ss_store a)) \<longrightarrow> distinct (fs_paths (ss_store c))"
    using assms unfolding adds_files_def by blast
  ultimately show ?thesis unfolding adds_files_def by (intro exI [of _ "fs @ gs"] conjI) simp_all
qed

lemma open_segment_adds:
  fixes s :: "'t segment_sink"
  assumes op: "open_segment env key d ident sch ts ini s = (r, s')"
  shows "adds_files s s'"
proof -
  obtain w i s1 where w: "enter_window env key s = ((w, i), s1)" by (metis prod.exhaust)
  obtain part :: "'t active_part result" and st where
    p: "part_open (se_part env) d ts (window_schema w i ini sch) (ss_store s1) = (part, st)" by fastforce
  have 1: "ss_published s1 = ss_published s" "fs_paths (ss_store s1) = fs_paths (ss_store s)"
    using w by (auto simp: enter_window_def Let_def split: option.splits)
  have 2: "fs_paths st = fs_paths (ss_store s1)"
    using p by (auto simp: part_open_def io_def Let_def split: option.splits)
  show ?thesis
    by (rule adds_files_refl) (use op w p 1 2 in \<open>auto simp: open_segment_def Let_def split: sum.splits\<close>)
qed

lemma seal_segment_adds:
  fixes s :: "'t segment_sink"
  assumes seal: "seal_segment env key reopen s = (r, s')"
  shows "adds_files s s'"
proof (cases "map_of (ss_segments s) key")
  case None
  with seal show ?thesis by (simp add: seal_segment_def adds_files_refl)
next
  case (Some seg)
  obtain pub r1 st where p: "part_seal (se_part env) (sg_part seg) (ss_store s) = (pub, r1, st)"
    by (metis prod_cases3)
  note ps = part_seal_result(3,4) [OF p]
  define s1 where "s1 = s\<lparr>ss_segments := AList.delete key (ss_segments s), ss_store := st,
    ss_published := ss_published s @ (case pub of None \<Rightarrow> [] | Some f \<Rightarrow> [(key, f)])\<rparr>"
  have s1: "adds_files s s1"
  proof (cases pub)
    case None
    with ps(2) show ?thesis by (intro adds_files_refl) (simp_all add: s1_def)
  next
    case (Some f)
    with ps(1) [OF Some] show ?thesis
      unfolding adds_files_def by (intro exI [of _ "[(key, f)]"]) (auto simp: s1_def)
  qed
  have same: "adds_files s a" if "ss_published a = ss_published s1" "ss_store a = ss_store s1" for a
    using s1 adds_files_refl [of a s1] that adds_files_trans by simp
  show ?thesis
  proof (cases r1)
    case (Inl e)
    then show ?thesis using seal Some p by (intro same) (auto simp: seal_segment_def s1_def)
  next
    case (Inr sealed)
    define s2 where "s2 = (if fr_files sealed = [] then s1 else case map_of (ss_window_ids s1) key of
        None \<Rightarrow> s1 | Some (w, index) \<Rightarrow> s1\<lparr>ss_window_ids := AList.update key (w, sat_add index 1) (ss_window_ids s1)\<rparr>)"
    have s2: "adds_files s s2" by (rule same) (auto simp: s2_def split: option.splits)
    obtain o' s3 where op: "open_segment env key (ap_directory (sg_part seg)) (sg_identifier seg)
        (sg_schema seg) (ap_max (sg_part seg)) 0 s2 = (o', s3)" by fastforce
    have "s' = s2 \<or> s' = s3"
      using seal Some p Inr op by (auto simp: seal_segment_def s1_def s2_def Let_def split: option.splits if_splits)
    then show ?thesis using s2 adds_files_trans [OF s2 open_segment_adds [OF op]] by auto
  qed
qed

lemma roll_adds: "adds_files s (snd (roll_if_at_capacity env key s))"
  using seal_segment_adds [OF prod.collapse [symmetric], where env = env and key = key and reopen = True and s = s]
  by (auto simp: roll_if_at_capacity_def adds_files_refl split_beta Let_def split: option.splits)

lemma write_record_batches_paths:
  "fs_paths (snd (write_record_batches env bs p st)) = fs_paths st"
proof (induction bs arbitrary: p st)
  case (Cons b bs)
  then show ?case
    by (auto simp: write_record_batch_def io_def Let_def split_beta split: option.splits)
qed simp

lemma append_adds: "adds_files s (snd (append_batches env key bs lo hi s))"
  using write_record_batches_paths [of "se_part env" bs _ "ss_store s"]
  by (intro adds_files_refl)
    (auto simp: append_batches_def quarantine_part_file_def split_beta Let_def split: option.splits)

lemma map_state_adds:
  assumes "\<And>x s. adds_files s (snd (f x s))"
  shows "adds_files s (snd (map_state f xs s))"
proof (induction xs arbitrary: s)
  case Nil
  then show ?case by (simp add: adds_files_refl)
next
  case (Cons x xs)
  from adds_files_trans [OF assms [of s x] Cons] show ?case by (simp add: split_beta Let_def)
qed

lemma seal_all_adds: "adds_files s (snd (segment_seal_all_internal env reopen s))"
  using map_state_adds [of "\<lambda>key. seal_segment env key reopen", OF seal_segment_adds [OF prod.collapse [symmetric]]]
  by (simp add: segment_seal_all_internal_def Let_def split_beta)

lemma tick_adds: "adds_files s (snd (segment_on_tick env now s))"
proof -
  have "adds_files s (snd (tick_segment env now key s))" for key s
    by (rule adds_files_refl)
      (auto simp: tick_segment_def part_tick_def io_def split_beta Let_def split: option.splits)
  from map_state_adds [OF this] show ?thesis by (simp add: segment_on_tick_def Let_def split_beta)
qed

lemma write_batch_inner_adds: "adds_files s (snd (write_batch_inner env key batch ini s))"
proof -
  have "if isl r then adds_files s s' else adds_files s s'"
    if "write_batch_inner env key batch ini s = (r, s')" for r s'
  proof (rule write_batch_inner_induct [where E = adds_files and R = adds_files, OF _ _ _ _ _ _ _ _ _ _ that])
    show "roll_if_at_capacity env key s = (Inr x, s') \<Longrightarrow> adds_files s s'" for s s' x
      using roll_adds [of s env key] by simp
    show "roll_if_at_capacity env key s = (Inl e, s') \<Longrightarrow> adds_files s s'" for s s' e
      using roll_adds [of s env key] by simp
    show "append_batches env key bs (foldl min t ts) (foldl max t ts) s = (Inr x, s') \<Longrightarrow> adds_files s s'"
      for bs t ts s s' x
      using append_adds [of s env key bs "foldl min t ts" "foldl max t ts"] by simp
    show "append_batches env key bs (foldl min t ts) (foldl max t ts) s = (Inl x, s') \<Longrightarrow> adds_files s s'"
      for bs t ts s s' x
      using append_adds [of s env key bs "foldl min t ts" "foldl max t ts"] by simp
  qed (auto intro: adds_files_trans adds_files_refl open_segment_adds)
  then show ?thesis by (metis prod.collapse)
qed

lemma run_call_adds: "adds_files s (run_call env c s)"
proof -
  have shift: "adds_files s s'" if "adds_files (s\<lparr>ss_window_ids := w\<rparr>) s'" for s s' w
    using that by (simp add: adds_files_def)
  have part: "adds_files s (snd (segment_seal_partition env k s))" for k
    unfolding segment_seal_partition_def by (rule shift) (rule seal_segment_adds [OF prod.collapse [symmetric]])
  show ?thesis
  proof (cases c)
    case (WriteInitialization k b)
    then show ?thesis using write_batch_inner_adds [of s env k b] by (simp add: segment_write_initialization_def adds_files_refl)
  next
    case (BreakContinuity key)
    then show ?thesis using part shift [OF seal_all_adds]
      by (cases key) (simp_all add: segment_break_continuity_def segment_seal_all_def)
  qed (use part seal_all_adds write_batch_inner_adds tick_adds in
    \<open>simp_all add: segment_write_batch_def segment_seal_all_def segment_seal_all_for_shutdown_def\<close>)
qed

lemma run_calls_adds: "adds_files s (run_calls env cs s)"
proof (induction cs arbitrary: s)
  case Nil
  then show ?case by (simp add: adds_files_refl)
next
  case (Cons c cs)
  from adds_files_trans [OF run_call_adds [of s env c] Cons] show ?case by simp
qed

subsection \<open>Delivery to the files\<close>

fun call_fails :: "'t segment_env \<Rightarrow> 't segment_call \<Rightarrow> 't segment_sink \<Rightarrow> bool" where
  "call_fails env (WriteBatch k b) s = isl (fst (segment_write_batch env k b s))"
| "call_fails env (WriteInitialization k b) s = isl (fst (segment_write_initialization env k b s))"
| "call_fails env (OnTick now) s = isl (fst (segment_on_tick env now s))"
| "call_fails env SealAll s = isl (fst (segment_seal_all env s))"
| "call_fails env (SealPartition k) s = isl (fst (segment_seal_partition env k s))"
| "call_fails env (BreakContinuity key) s = isl (fst (segment_break_continuity env key s))"
| "call_fails env SealForShutdown s = isl (fst (segment_seal_all_for_shutdown env s))"

fun calls_succeed :: "'t segment_env \<Rightarrow> 't segment_call list \<Rightarrow> 't segment_sink \<Rightarrow> bool" where
  "calls_succeed env [] s = True"
| "calls_succeed env (c # cs) s = (\<not> call_fails env c s \<and> calls_succeed env cs (run_call env c s))"

fun written :: "string \<Rightarrow> 't segment_call \<Rightarrow> 't list" where
  "written k (WriteBatch k' b) = (if k' = k then b else [])"
| "written k (WriteInitialization k' b) = (if k' = k then b else [])"
| "written k _ = []"

lemma run_call_ok: "encode_ok env \<Longrightarrow> seg_ok s \<Longrightarrow> seg_ok (run_call env c s)"
  using run_call_kept [of s env c] by (simp add: kept_or_closed_def)

lemma run_call_rows:
  assumes enc: "encode_ok env" and ok: "seg_ok s" and "\<not> call_fails env c s"
  shows "seg_rows (run_call env c s) k = seg_rows s k @ written k c"
proof -
  have shift: "seg_ok (s\<lparr>ss_window_ids := w\<rparr>)" "seg_rows (s\<lparr>ss_window_ids := w\<rparr>) = seg_rows s" for w
    using ok seg_ok_cong [of "s\<lparr>ss_window_ids := w\<rparr>" s] seg_rows_cong [of "s\<lparr>ss_window_ids := w\<rparr>" s] by auto
  have part: "\<not> isl (fst (segment_seal_partition env key s)) \<Longrightarrow>
      seg_rows (snd (segment_seal_partition env key s)) = seg_rows s" for key
    unfolding segment_seal_partition_def
    using seal_segment_rows(2) [OF shift(1) prod.collapse [symmetric]] shift(2) by metis
  note all = seal_all_internal_rows [of _ env False, THEN conjunct2, rule_format]
  show ?thesis
  proof (cases c)
    case (WriteBatch k' b)
    then show ?thesis using assms(3) write_batch_inner_rows(3) [OF enc ok prod.collapse [symmetric], of k' b 0 k]
      by (simp add: segment_write_batch_def)
  next
    case (WriteInitialization k' b)
    then show ?thesis
      using assms(3) write_batch_inner_rows(3) [OF enc ok prod.collapse [symmetric], of k' b "length b" k]
      by (auto simp: segment_write_initialization_def split: if_splits)
  next
    case (OnTick now)
    then show ?thesis using tick_rows [OF ok, of env now] by simp
  next
    case (BreakContinuity key)
    then show ?thesis using assms(3) part all [OF shift(1) [of "[]"]] shift(2)
      by (cases key) (simp_all add: segment_break_continuity_def segment_seal_all_def)
  qed (use assms(3) part all [OF ok] in \<open>simp_all add: segment_seal_all_def segment_seal_all_for_shutdown_def\<close>)
qed

lemma run_calls_rows:
  assumes "encode_ok env" "seg_ok s" "calls_succeed env cs s"
  shows "seg_rows (run_calls env cs s) k = seg_rows s k @ concat (map (written k) cs) \<and> seg_ok (run_calls env cs s)"
  using assms(2,3)
proof (induction cs arbitrary: s)
  case Nil
  then show ?case by simp
next
  case (Cons c cs)
  then have ok: "seg_ok (run_call env c s)" using run_call_ok assms(1) by blast
  have "seg_rows (run_call env c s) k = seg_rows s k @ written k c"
    using Cons.prems assms(1) by (intro run_call_rows) auto
  with Cons.IH [OF ok] Cons.prems show ?case by simp
qed

lemma seal_keys_closed:
  "map_of (ss_segments (snd (map_state (\<lambda>key. seal_segment env key False) keys s))) k
    = (if k \<in> set keys then None else map_of (ss_segments s) k)"
proof (induction keys arbitrary: s)
  case (Cons key keys)
  obtain r s1 where seal: "seal_segment env key False s = (r, s1)" by fastforce
  from seal_segment_closed(1) [OF seal] Cons [of s1] seal show ?case by (simp add: split_beta Let_def)
qed simp

lemma seal_all_closes:
  assumes "perm_order (se_order env (fs_io (ss_store s)))"
  shows "ss_segments (snd (segment_seal_all_internal env False s)) = []"
proof -
  let ?s' = "snd (segment_seal_all_internal env False s)"
  let ?keys = "se_order env (fs_io (ss_store s)) (hm_keys (ss_segments s))"
  have keys: "set ?keys = dom (map_of (ss_segments s))"
    using perm_order_set [OF assms, of "hm_keys (ss_segments s)"] by (simp add: hm_keys_def dom_map_of_conv_image_fst)
  have none: "map_of (ss_segments ?s') k = None" for k
  proof -
    have "map_of (ss_segments ?s') k = (if k \<in> set ?keys then None else map_of (ss_segments s) k)"
      by (simp only: segment_seal_all_internal_def Let_def split_beta snd_conv seal_keys_closed)
    then show ?thesis unfolding keys by (auto simp: dom_def)
  qed
  then show ?thesis
  proof (cases "ss_segments ?s'")
    case (Cons x xs)
    with none [of "fst x"] show ?thesis by simp
  qed
qed

lemma fresh_seg_ok: "segment_fresh s \<Longrightarrow> seg_ok s \<and> seg_rows s k = []"
  by (simp add: segment_fresh_def seg_ok_def hm_valid_def seg_rows_def published_rows_def open_rows_def)

lemma calls_succeed_append:
  "calls_succeed env (cs @ ds) s = (calls_succeed env cs s \<and> calls_succeed env ds (run_calls env cs s))"
  by (induction cs arbitrary: s) auto

lemma run_calls_append: "run_calls env (cs @ ds) s = run_calls env ds (run_calls env cs s)"
  by (induction cs arbitrary: s) auto

subsection \<open>Properties\<close>

text \<open>A concrete environment: no faults, an encoder that makes one record batch of each batch.\<close>

definition sample_part_env :: part_env where
  "sample_part_env = \<lparr>pe_fault = (\<lambda>_. None), pe_same_file = (\<lambda>_. False), pe_groups = (\<lambda>_. 0),
     pe_uuid = (\<lambda>n. replicate n (CHR ''u'')),
     pe_filename = (\<lambda>lo hi. replicate lo (CHR ''a'') @ ''.parquet''), pe_size = (\<lambda>_. None)\<rparr>"

definition sample_segment_env :: "nat segment_env" where
  "sample_segment_env = \<lparr>se_part = sample_part_env, se_ts = (\<lambda>d. d),
     se_metadata = (\<lambda>_. [(''instrument_id'', ''BTC'')]),
     se_encode = (\<lambda>b. Inr (\<lparr>sch_fields = ''trade'', sch_metadata = []\<rparr>, [b])),
     se_make_path = (\<lambda>_ _. Inr ''/d''), se_type = ''trades'', se_root = ''/'',
     se_order = (\<lambda>_ ks. ks)\<rparr>"

definition sample_segment_sink :: "nat segment_sink" where
  "sample_segment_sink = \<lparr>ss_segments = [], ss_window_ids = [], ss_sync_interval = 0,
     ss_store = \<lparr>fs_io = 0, fs_paths = [], fs_failed = []\<rparr>, ss_published = []\<rparr>"

lemma sample_segment_facts:
  "inj (pe_uuid (se_part sample_segment_env))" "encode_ok sample_segment_env"
  "segment_fresh sample_segment_sink" "perm_order (se_order sample_segment_env n)"
  "fs_paths (ss_store sample_segment_sink) = []"
proof -
  show "inj (pe_uuid (se_part sample_segment_env))"
  proof (rule injI)
    fix m n
    assume "pe_uuid (se_part sample_segment_env) m = pe_uuid (se_part sample_segment_env) n"
    then have "length (replicate m (CHR ''u'')) = length (replicate n (CHR ''u''))"
      by (simp add: sample_segment_env_def sample_part_env_def)
    then show "m = n" by simp
  qed
qed (simp_all add: sample_segment_env_def sample_segment_sink_def segment_fresh_def encode_ok_def perm_order_def)

text \<open>Runs of the sample: two writes with a break between them, and a write that fails at the tenth operation.\<close>

definition faulty_env :: "nat segment_env" where
  "faulty_env = sample_segment_env\<lparr>se_part := sample_part_env\<lparr>pe_fault :=
     (\<lambda>n. if n = 10 then Some (External ''disk full'') else None)\<rparr>\<rparr>"

lemma sample_part_simps:
  "pe_fault sample_part_env n = None" "pe_groups sample_part_env n = 0" "pe_same_file sample_part_env n = False"
  "pe_size sample_part_env n = None" "pe_uuid sample_part_env n = replicate n (CHR ''u'')"
  "se_part sample_segment_env = sample_part_env" "se_ts sample_segment_env d = d"
  "se_metadata sample_segment_env b = [(''instrument_id'', ''BTC'')]"
  "se_encode sample_segment_env b = Inr (\<lparr>sch_fields = ''trade'', sch_metadata = []\<rparr>, [b])"
  "se_make_path sample_segment_env t i = Inr ''/d''" "se_order sample_segment_env n ks = ks"
  "row_group_roll_threshold = 30000"
  by (simp_all add: sample_part_env_def sample_segment_env_def row_group_roll_threshold_def parquet_max_row_groups_def)

lemma sample_final_path:
  "pe_filename env = pe_filename sample_part_env \<Longrightarrow>
    final_path_for env pp d lo hi = d @ ''/'' @ replicate lo (CHR ''a'') @ ''_''
      @ filter is_alnum (trim_end_matches part_suffix (file_name pp)) @ ''.parquet''"
proof -
  have "replace_all ''.parquet'' new (replicate lo (CHR ''a'') @ ''.parquet'') = replicate lo (CHR ''a'') @ new" for new
    by (induction lo) simp_all
  moreover assume "pe_filename env = pe_filename sample_part_env"
  ultimately show ?thesis by (simp add: final_path_for_def path_join_def sample_part_env_def)
qed

lemmas sample_run_simps = sample_part_simps sample_final_path sample_segment_sink_def
  segment_write_batch_def write_batch_inner_def batch_identifier_def catalog_fs_directory_def
  roll_if_at_capacity_def open_segment_def enter_window_def part_open_def io_def append_batches_def
  write_record_batch_def note_ts_range_def segment_break_continuity_def segment_seal_partition_def
  segment_seal_all_def segment_seal_all_internal_def segment_seal_all_for_shutdown_def seal_segment_def part_seal_def
  rename_part_to_catalog_parquet_def needs_capacity_roll_def hm_keys_def Let_def

abbreviation sample_before :: "nat segment_sink" where
  "sample_before \<equiv> run_calls sample_segment_env [WriteBatch ''t'' [3, 5]] sample_segment_sink"

abbreviation sample_break_run :: "nat segment_sink" where
  "sample_break_run \<equiv> run_call sample_segment_env (BreakContinuity (Some ''t'')) sample_before"

lemma sample_break_first: "map fst (ss_published sample_break_run) = [''t'']"
  by (simp add: sample_run_simps)

lemma sample_break_second:
  "map fst (ss_published (run_calls sample_segment_env [WriteBatch ''t'' [7], SealAll] sample_break_run)) = [''t'', ''t'']"
  by (simp add: sample_run_simps, simp add: numeral_eq_Suc)

lemma faulty_facts:
  "inj (pe_uuid (se_part faulty_env))" "encode_ok faulty_env"
  using sample_segment_facts(1,2) by (simp_all add: faulty_env_def sample_part_simps encode_ok_def)

abbreviation faulty_before :: "nat segment_sink" where
  "faulty_before \<equiv> run_calls faulty_env [WriteBatch ''t'' [3], SealAll, WriteBatch ''t'' [5]] sample_segment_sink"

abbreviation faulty_run :: "nat segment_sink" where
  "faulty_run \<equiv> run_call faulty_env (WriteBatch ''t'' [6]) faulty_before"

lemma faulty_rows: "seg_rows faulty_before ''t'' = [3, 5]" "seg_rows faulty_run ''t'' = [3]"
  "map fst (ss_published faulty_run) = [''t'']"
  by (simp_all add: faulty_env_def sample_run_simps quarantine_part_file_def seg_rows_def published_rows_def
      open_rows_def published_of_def)

lemma faulty_files:
  "map fst (ss_published (run_calls faulty_env [WriteBatch ''t'' [7], SealAll] faulty_run)) = [''t'', ''t'']"
  by (simp add: faulty_env_def sample_run_simps quarantine_part_file_def, simp add: numeral_eq_Suc)

lemma two_files:
  assumes "map fst xs = [k]" "map fst ys = [k, k']"
  shows "(k', snd (ys ! 1)) \<in> set (drop (length xs) ys)" "(k, snd (xs ! 0)) \<in> set xs"
proof -
  from assms(1) obtain x where x: "xs = [x]" "fst x = k" by (cases xs) auto
  from assms(2) obtain y z where y: "ys = [y, z]" "fst z = k'" by (cases ys; cases "tl ys") auto
  from x y show "(k', snd (ys ! 1)) \<in> set (drop (length xs) ys)" "(k, snd (xs ! 0)) \<in> set xs" by auto
qed

lemma window_ordinals_aux:
  assumes "inj (pe_uuid (se_part env))" and "segment_fresh s0"
  shows "let published = ss_published (run_calls env cs s0);
             files = filter (\<lambda>x. file_window (snd x) = Some w) published
         in map (\<lambda>x. file_ordinal (snd x)) files = map (\<lambda>i. Some (show_nat (capped i))) [0..<length files]
          \<and> (\<forall>x \<in> set files. \<forall>y \<in> set files. fst x = fst y)
          \<and> (\<forall>x \<in> set published. file_window (snd x) \<noteq> None)"
proof -
  let ?s = "run_calls env cs s0"
  let ?files = "filter (\<lambda>x. file_window (snd x) = Some w) (ss_published ?s)"
  from window_inv_steps [OF run_calls_steps assms(1) fresh_window_inv [OF assms(2)]]
  obtain owner where inv: "files_inv (pe_uuid (se_part env)) owner (segment_view ?s)"
    by (auto simp: window_inv_def)
  have owned: "\<exists>w. file_window (snd x) = Some w \<and> owner w = fst x" if "x \<in> set (ss_published ?s)" for x
  proof -
    have "(fst x, schema_tag (sf_schema (snd x))) \<in> set (wv_files (segment_view ?s))"
      using that by (force simp: segment_view_def)
    with inv show ?thesis by (fastforce simp: files_inv_def schema_tag_def file_window_def)
  qed
  have "map (snd \<circ> snd) (window_files (segment_view ?s) w)
      = map (\<lambda>i. Some (show_nat (capped i))) [0..<length (window_files (segment_view ?s) w)]"
    using inv by (simp only: files_inv_def)
  then have "map (\<lambda>x. file_ordinal (snd x)) ?files = map (\<lambda>i. Some (show_nat (capped i))) [0..<length ?files]"
    by (simp add: view_files_filter comp_def split_beta)
  moreover have "\<forall>x \<in> set ?files. \<forall>y \<in> set ?files. fst x = fst y"
  proof (intro ballI)
    fix x y
    assume "x \<in> set ?files" "y \<in> set ?files"
    then show "fst x = fst y" using owned [of x] owned [of y] by auto
  qed
  moreover have "\<forall>x \<in> set (ss_published ?s). file_window (snd x) \<noteq> None" using owned by force
  ultimately show ?thesis by (simp only: Let_def simp_thms)
qed

text \<open>The published files of a replay window carry the ordinals 0, 1, 2, ... in the order they were
  published, without a hole or a repetition, and belong to one partition; every published file
  names a window. The ordinal saturates at the largest 64-bit number, as the counter does.\<close>
theorem window_ordinals:
  assumes "inj (pe_uuid (se_part env))" and "segment_fresh s0"
  shows "let published = ss_published (run_calls env cs s0);
             files = filter (\<lambda>x. file_window (snd x) = Some w) published
         in map (\<lambda>x. file_ordinal (snd x)) files = map (\<lambda>i. Some (show_nat (capped i))) [0..<length files]
          \<and> (\<forall>x \<in> set files. \<forall>y \<in> set files. fst x = fst y)
          \<and> (\<forall>x \<in> set published. file_window (snd x) \<noteq> None)"
  using assms by (rule window_ordinals_aux)

theorem window_ordinals_witness:
  "map (\<lambda>x. file_ordinal (snd x)) (filter (\<lambda>x. file_window (snd x) = Some [])
      (ss_published (run_calls sample_segment_env [WriteBatch ''trades/BTC'' [3, 5], SealAll] sample_segment_sink)))
    = map (\<lambda>i. Some (show_nat (capped i))) [0..<length (filter (\<lambda>x. file_window (snd x) = Some [])
      (ss_published (run_calls sample_segment_env [WriteBatch ''trades/BTC'' [3, 5], SealAll] sample_segment_sink)))]"
  using window_ordinals [OF sample_segment_facts(1,3), of "[WriteBatch ''trades/BTC'' [3, 5], SealAll]" "[]"]
  unfolding Let_def by (elim conjE)

text \<open>C12: A break of continuity ends the window: whatever is published for a partition after a break
  that names it, or that names none and so concerns all, carries a window no earlier file has,
  also when sealing the open part failed.\<close>
theorem break_starts_window:
  assumes "inj (pe_uuid (se_part env))" and "segment_fresh s0"
    and "key = Some k \<or> key = None \<and> (\<forall>n. perm_order (se_order env n))"
    and s: "s = run_call env (BreakContinuity key) (run_calls env before s0)"
    and "(k, f) \<in> set (drop (length (ss_published s)) (ss_published (run_calls env after s)))"
    and "(k', g) \<in> set (ss_published s)"
  shows "file_window f \<noteq> file_window g"
proof (rule closed_new_window [OF assms(1) _ _ assms(5,6)])
  let ?s0 = "run_calls env before s0"
  have "s = run_calls env (before @ [BreakContinuity key]) s0" by (simp add: s run_calls_append)
  then show "window_inv (pe_uuid (se_part env)) (segment_view s)"
    using window_inv_steps [OF run_calls_steps assms(1) fresh_window_inv [OF assms(2)]] by simp
  show "closed s k"
  proof (cases key)
    case None
    let ?s1 = "?s0\<lparr>ss_window_ids := []\<rparr>"
    have "map_of (ss_window_ids (snd (map_state (\<lambda>key. seal_segment env key False) keys t))) k = None"
      if "map_of (ss_window_ids t) k = None" for keys and t :: "'a segment_sink"
      using that
    proof (induction keys arbitrary: t)
      case (Cons x xs)
      obtain r t1 where "seal_segment env x False t = (r, t1)" by fastforce
      with seal_segment_closed(2) [OF this Cons.prems] Cons.IH [of t1] show ?case by (simp add: split_beta Let_def)
    qed simp
    then have "map_of (ss_window_ids s) k = None"
      using None by (simp add: s segment_break_continuity_def segment_seal_all_def
          segment_seal_all_internal_def Let_def split_beta)
    moreover have "ss_segments s = []"
      using seal_all_closes [of env ?s1] None assms(3)
      by (simp add: s segment_break_continuity_def segment_seal_all_def)
    ultimately show ?thesis by (simp add: closed_def)
  next
    case (Some k0)
    then have "k0 = k" using assms(3) by auto
    with Some show ?thesis
      using seal_segment_closed [OF prod.collapse [symmetric], where env = env and key = k
          and s = "?s0\<lparr>ss_window_ids := AList.delete k (ss_window_ids ?s0)\<rparr>"]
      by (simp add: s closed_def segment_break_continuity_def segment_seal_partition_def delete_conv')
  qed
qed

theorem break_starts_window_witness:
  "file_window (snd (ss_published (run_calls sample_segment_env [WriteBatch ''t'' [7], SealAll] sample_break_run) ! 1))
    \<noteq> file_window (snd (ss_published sample_break_run ! 0))"
  by (rule break_starts_window [OF sample_segment_facts(1,3) _ HOL.refl two_files [OF sample_break_first sample_break_second]])
    simp

text \<open>C13: A loss ends the window: when a call leaves a partition with rows missing, rows that were
  held or published before it, then what is published for the partition afterwards
  carries a window no earlier file has.\<close>
theorem loss_ends_window:
  assumes "inj (pe_uuid (se_part env))" and "segment_fresh s0" and "encode_ok env"
    and s: "s = run_calls env before s0" "s' = run_call env c s"
    and "\<not> prefix (seg_rows s k) (seg_rows s' k)"
    and "(k, f) \<in> set (drop (length (ss_published s')) (ss_published (run_calls env after s')))"
    and "(k', g) \<in> set (ss_published s')"
  shows "file_window f \<noteq> file_window g"
proof (rule closed_new_window [OF assms(1) _ _ assms(7,8)])
  have "s' = run_calls env (before @ [c]) s0" by (simp add: s run_calls_append)
  then show "window_inv (pe_uuid (se_part env)) (segment_view s')"
    using window_inv_steps [OF run_calls_steps assms(1) fresh_window_inv [OF assms(2)]] by simp
  have "seg_ok (run_calls env cs t)" if "seg_ok t" for cs and t :: "'a segment_sink"
    using that run_call_ok [OF assms(3)] by (induction cs arbitrary: t) auto
  then have "seg_ok s" using fresh_seg_ok [OF assms(2)] by (simp add: s)
  then show "closed s' k" using run_call_kept [of s env c] assms(6) by (auto simp: kept_or_closed_def s(2))
qed

theorem loss_ends_window_witness:
  "file_window (snd (ss_published (run_calls faulty_env [WriteBatch ''t'' [7], SealAll] faulty_run) ! 1))
    \<noteq> file_window (snd (ss_published faulty_run ! 0))"
  by (rule loss_ends_window [OF faulty_facts(1) sample_segment_facts(3) faulty_facts(2) HOL.refl HOL.refl _
      two_files [OF faulty_rows(3) faulty_files]]) (simp only: faulty_rows, simp)

lemma segment_delivers_aux:
  assumes "encode_ok env" and "segment_fresh s0" and "\<And>n. perm_order (se_order env n)"
    and "calls_succeed env (cs @ [SealForShutdown]) s0"
  shows "seg_rows (run_calls env cs s0) k = concat (map (written k) cs)
    \<and> published_rows (ss_published (run_calls env (cs @ [SealForShutdown]) s0)) k = concat (map (written k) cs)"
proof -
  note fresh = fresh_seg_ok [OF assms(2)]
  have "calls_succeed env cs s0" using assms(4) by (simp add: calls_succeed_append)
  from run_calls_rows [OF assms(1) _ this] fresh
  have 1: "seg_rows (run_calls env cs s0) k = concat (map (written k) cs)" by simp
  let ?s = "run_calls env (cs @ [SealForShutdown]) s0"
  from run_calls_rows [OF assms(1) _ assms(4), of k] fresh have "seg_rows ?s k = concat (map (written k) cs)" by simp
  moreover have "ss_segments ?s = []"
    using seal_all_closes [OF assms(3)] by (simp add: run_calls_append segment_seal_all_for_shutdown_def)
  ultimately show ?thesis using 1 by (simp add: seg_rows_def open_rows_def)
qed

text \<open>C5: What calls that report no error were given for a partition is, in order and once, in the
  partition's published files after a successful seal for shutdown; before that it is in them or
  in the open part.\<close>
theorem segment_delivers:
  assumes "encode_ok env" and "segment_fresh s0" and "\<And>n. perm_order (se_order env n)"
    and "calls_succeed env (cs @ [SealForShutdown]) s0"
  shows "seg_rows (run_calls env cs s0) k = concat (map (written k) cs)
    \<and> published_rows (ss_published (run_calls env (cs @ [SealForShutdown]) s0)) k = concat (map (written k) cs)"
  using assms by (rule segment_delivers_aux)

theorem segment_delivers_witness:
  "published_rows (ss_published (run_calls sample_segment_env ([WriteBatch ''t'' [3, 5]] @ [SealForShutdown])
     sample_segment_sink)) ''t'' = [3, 5]"
proof -
  have "calls_succeed sample_segment_env ([WriteBatch ''t'' [3, 5]] @ [SealForShutdown]) sample_segment_sink"
    by (simp add: sample_run_simps collect_flush_results_isl)
  from segment_delivers [OF sample_segment_facts(2,3,4) this, of "''t''"] show ?thesis by simp
qed

text \<open>C23: Publication never replaces data: the file names that become visible are pairwise different and
  none existed before, whatever succeeds or fails.\<close>
theorem publication_never_overwrites:
  assumes "distinct (fs_paths (ss_store s))"
  shows "\<exists>fs. ss_published (run_calls env cs s) = ss_published s @ fs
    \<and> fs_paths (ss_store (run_calls env cs s)) = rev (map (sf_path \<circ> snd) fs) @ fs_paths (ss_store s)
    \<and> distinct (map (sf_path \<circ> snd) fs) \<and> set (map (sf_path \<circ> snd) fs) \<inter> set (fs_paths (ss_store s)) = {}"
proof -
  from run_calls_adds [of s env cs] obtain fs where
    fs: "ss_published (run_calls env cs s) = ss_published s @ fs"
      "fs_paths (ss_store (run_calls env cs s)) = rev (map (sf_path \<circ> snd) fs) @ fs_paths (ss_store s)"
    and d: "distinct (fs_paths (ss_store (run_calls env cs s)))"
    unfolding adds_files_def using assms by blast
  from d have "distinct (map (sf_path \<circ> snd) fs)" "set (map (sf_path \<circ> snd) fs) \<inter> set (fs_paths (ss_store s)) = {}"
    unfolding fs(2) distinct_append by (simp_all add: distinct_rev)
  with fs show ?thesis by blast
qed

theorem publication_never_overwrites_witness:
  "distinct (map (sf_path \<circ> snd) (ss_published sample_break_run))"
proof -
  have "distinct (fs_paths (ss_store sample_segment_sink))" by (simp add: sample_segment_facts(5))
  from publication_never_overwrites [OF this, of sample_segment_env "[WriteBatch ''t'' [3, 5], BreakContinuity (Some ''t'')]"]
  show ?thesis by (auto simp: sample_segment_sink_def)
qed

text \<open>The timestamp range of a published file covers every row of it, as long as no timestamp is 0,
  the value that stands for "no bound yet".\<close>
theorem published_range_covers:
  assumes "encode_ok env" and "segment_fresh s0"
    and "\<forall>c \<in> set cs. list_all (\<lambda>d. 0 < se_ts env d) (call_payloads c)"
    and "x \<in> set (ss_published (run_calls env cs s0))" and "d \<in> set (sf_rows (snd x))"
  shows "sf_min (snd x) \<le> se_ts env d \<and> se_ts env d \<le> sf_max (snd x)"
proof -
  obtain enc where env: "env = Rep_row_encoding enc" using Rep_row_encoding_cases [of env] assms(1) by auto
  have "sink_all (part_range (se_ts env)) (file_range (se_ts env)) (run_calls env cs s0)"
    unfolding env by (rule ranges.run_calls_inv [OF sink_all_fresh [OF assms(2)]]) (use assms(3) env in auto)
  with assms(4,5) show ?thesis by (auto simp: sink_all_def file_range_def rows_between_def)
qed

theorem published_range_covers_witness:
  "sf_min (snd (ss_published (run_calls sample_segment_env [WriteBatch ''t'' [3, 5], BreakContinuity (Some ''t'')]
      sample_segment_sink) ! 0)) \<le> 3"
proof -
  let ?s = "run_calls sample_segment_env [WriteBatch ''t'' [3, 5], BreakContinuity (Some ''t'')] sample_segment_sink"
  have pub: "ss_published ?s ! 0 \<in> set (ss_published ?s)"
    using sample_break_first by (intro nth_mem) (auto dest: arg_cong [where f = length])
  have "3 \<in> set (sf_rows (snd (ss_published ?s ! 0)))" by (simp add: sample_run_simps published_of_def)
  from published_range_covers [OF sample_segment_facts(2,3) _ pub this]
  show ?thesis by (simp add: sample_part_simps)
qed

end
