(* ===== verification/Replay.thy ===== *)
theory Replay
  imports Segment "HOL-Library.List_Lexorder" "HOL-Library.Char_ord" "HOL-Library.Product_Lexorder"
begin

section \<open>Reading replay windows back\<close>

text \<open>
  \<open>crates/catalog-capture-core/src/replay.rs\<close>: sealed files are read in the order of their window
  and ordinal, rows of consecutive ordinals are joined to one window, a missing ordinal starts a
  new one. Book windows are regrouped to the venue's message frames and, on request, cut to a
  span with the book built up from the frames before it.

  The catalogue's discovery of files and the Parquet reader are arguments: the paths found, and
  for each path its schema metadata and decoded record batches. Of Nautilus's book types the code
  uses public fields, kept here as records, and the functions in \<open>book_api\<close>.
\<close>

record 'd replay_window =
  rw_id :: string
  rw_start :: nat
  rw_end :: nat
  rw_data :: "'d list"
  rw_initialization :: "'d list"

record 'd replay_file =
  rf_metadata :: "(string \<times> string) list"
  rf_batches :: "'d list result list"

subsection \<open>Decimal numbers\<close>

text \<open>\<open>u64::from_str\<close>: an optional plus sign and at least one digit, within 64 bits.\<close>

definition digit_value :: "char \<Rightarrow> nat option" where
  "digit_value c = (let n = of_char c :: nat in if 48 \<le> n \<and> n \<le> 57 then Some (n - 48) else None)"

fun parse_digits :: "nat \<Rightarrow> string \<Rightarrow> nat result" where
  "parse_digits acc [] = Inr acc"
| "parse_digits acc (c # cs) =
     (case digit_value c of
        None \<Rightarrow> Inl (External ''invalid digit found in string'')
      | Some d \<Rightarrow> if acc * 10 + d > u64_max then Inl (External ''number too large to fit in target type'')
          else parse_digits (acc * 10 + d) cs)"

definition parse_u64 :: "string \<Rightarrow> nat result" where
  "parse_u64 s =
     (let ds = (case s of CHR ''+'' # cs \<Rightarrow> cs | _ \<Rightarrow> s)
      in if ds = [] then Inl (External ''cannot parse integer from empty string'') else parse_digits 0 ds)"

subsection \<open>Windows\<close>

text \<open>The first pass: the window and ordinal each file names.\<close>

definition replay_segment_of :: "'d replay_file \<Rightarrow> (string \<times> nat) result" where
  "replay_segment_of f =
     (if map_of (rf_metadata f) contract_key \<noteq> Some contract_version
      then Inl (External ''uncertified replay file'')
      else case map_of (rf_metadata f) window_id_key of
          None \<Rightarrow> Inl (External ''missing capture_window_id'')
        | Some wid \<Rightarrow> (case map_of (rf_metadata f) segment_index_key of
            None \<Rightarrow> Inl (External ''missing segment ordinal'')
          | Some n \<Rightarrow> map_result (\<lambda>ordinal. (wid, ordinal)) (parse_u64 n)))"

fun list_segments ::
  "(string \<Rightarrow> 'd replay_file result) \<Rightarrow> string list \<Rightarrow> (string \<times> nat \<times> string) list result" where
  "list_segments read [] = Inr []"
| "list_segments read (path # paths) =
     (case read path of
        Inl e \<Rightarrow> Inl e
      | Inr f \<Rightarrow>
          (case replay_segment_of f of
             Inl e \<Rightarrow> Inl e
           | Inr (wid, ordinal) \<Rightarrow> map_result (\<lambda>rest. (wid, ordinal, path) # rest) (list_segments read paths)))"

text \<open>One row: it belongs to the initialization prefix, which counts once per window, or to the data.\<close>

definition replay_item ::
  "('d \<Rightarrow> nat) \<Rightarrow> bool \<Rightarrow> nat \<Rightarrow> 'd replay_window \<times> nat \<Rightarrow> 'd \<Rightarrow> 'd replay_window \<times> nat" where
  "replay_item ts fresh initialization_rows acc item =
     (case acc of (w, row_index) \<Rightarrow>
        (if row_index < initialization_rows
         then (if fresh then w\<lparr>rw_initialization := rw_initialization w @ [item]\<rparr> else w)
         else if rw_data w = []
              then w\<lparr>rw_start := ts item, rw_end := ts item, rw_data := [item]\<rparr>
              else w\<lparr>rw_start := min (rw_start w) (ts item), rw_end := max (rw_end w) (ts item),
                     rw_data := rw_data w @ [item]\<rparr>,
         row_index + 1))"

fun replay_batches ::
  "('d \<Rightarrow> nat) \<Rightarrow> bool \<Rightarrow> nat \<Rightarrow> 'd list result list \<Rightarrow> 'd replay_window \<times> nat \<Rightarrow>
   ('d replay_window \<times> nat) result" where
  "replay_batches ts fresh n [] acc = Inr acc"
| "replay_batches ts fresh n (Inl e # bs) acc = Inl e"
| "replay_batches ts fresh n (Inr items # bs) acc =
     replay_batches ts fresh n bs (foldl (replay_item ts fresh n) acc items)"

definition new_window :: "string \<Rightarrow> nat \<Rightarrow> 'd replay_window" where
  "new_window wid ordinal = \<lparr>rw_id = wid @ '':'' @ show_nat ordinal, rw_start = 0, rw_end = 0,
     rw_data = [], rw_initialization = []\<rparr>"

text \<open>The second pass, over the sorted segments.\<close>

fun replay_segments ::
  "('d \<Rightarrow> nat) \<Rightarrow> (string \<Rightarrow> 'd replay_file result) \<Rightarrow> (string \<times> nat \<times> string) list \<Rightarrow>
   'd replay_window list \<Rightarrow> (string \<times> (nat \<times> nat)) list \<Rightarrow> 'd replay_window list result" where
  "replay_segments ts read [] windows indices = Inr windows"
| "replay_segments ts read ((wid, ordinal, path) # segments) windows indices =
     (case read path of
        Inl e \<Rightarrow> Inl e
      | Inr f \<Rightarrow>
          (case (case map_of (rf_metadata f) initialization_rows_key of None \<Rightarrow> Inr 0 | Some n \<Rightarrow> parse_u64 n) of
             Inl e \<Rightarrow> Inl e
           | Inr initialization_rows \<Rightarrow>
               (let place =
                  (case map_of indices wid of
                     Some (index, prev) \<Rightarrow>
                       if prev < u64_max \<and> prev + 1 = ordinal then Inr (index, False, windows)
                       else if ordinal \<le> prev then Inl (External ''duplicate replay segment ordinal'')
                       else Inr (length windows, True, windows @ [new_window wid ordinal])
                   | None \<Rightarrow> Inr (length windows, True, windows @ [new_window wid ordinal]))
                in case place of
                     Inl e \<Rightarrow> Inl e
                   | Inr (index, fresh, windows) \<Rightarrow>
                       (case replay_batches ts fresh initialization_rows (rf_batches f) (windows ! index, 0) of
                          Inl e \<Rightarrow> Inl e
                        | Inr (w, row_index) \<Rightarrow>
                            if row_index < initialization_rows
                            then Inl (External ''incomplete initialization prefix'')
                            else replay_segments ts read segments (windows[index := w])
                                   (AList.update wid (index, ordinal) indices)))))"

definition read_replay_windows ::
  "('d \<Rightarrow> nat) \<Rightarrow> (string \<Rightarrow> 'd replay_file result) \<Rightarrow> string list result \<Rightarrow> 'd replay_window list result" where
  "read_replay_windows ts read files =
     (case files of
        Inl e \<Rightarrow> Inl e
      | Inr paths \<Rightarrow>
          (case list_segments read paths of
             Inl e \<Rightarrow> Inl e
           | Inr segments \<Rightarrow>
               map_result (\<lambda>windows. sort_key rw_start (filter (\<lambda>w. rw_data w \<noteq> []) windows))
                 (replay_segments ts read (sort_key (\<lambda>(wid, ordinal, path). (wid, ordinal)) segments) [] [])))"

subsection \<open>Books\<close>

record book_delta =
  bd_instrument :: string
  bd_flags :: nat
  bd_sequence :: nat
  bd_ts_event :: nat
  bd_ts_init :: nat
  bd_order :: string

record book_frame =
  bf_instrument :: string
  bf_deltas :: "book_delta list"
  bf_flags :: nat
  bf_sequence :: nat
  bf_ts_event :: nat
  bf_ts_init :: nat

text \<open>\<open>RecordFlag::matches\<close>, \<open>OrderBookDeltas::new\<close> and the managed \<open>OrderBook\<close> are Nautilus's.\<close>

record 'b book_api =
  ba_last :: "nat \<Rightarrow> bool"
  ba_snapshot :: "nat \<Rightarrow> bool"
  ba_frame :: "string \<Rightarrow> book_delta list \<Rightarrow> book_frame"
  ba_book :: "string \<Rightarrow> 'b"
  ba_apply :: "book_frame \<Rightarrow> 'b \<Rightarrow> 'b result"
  ba_ts_last :: "'b \<Rightarrow> nat"
  ba_to_deltas :: "'b \<Rightarrow> nat \<Rightarrow> nat \<Rightarrow> book_frame"

text \<open>\<open>group_book_deltas\<close>; \<open>pending\<close> is the open frame.\<close>

fun group_deltas ::
  "'b book_api \<Rightarrow> string \<Rightarrow> book_delta list \<Rightarrow> book_frame list \<Rightarrow> book_delta list \<Rightarrow> book_frame list result" where
  "group_deltas api instrument pending frames [] =
     (if pending \<noteq> [] then Inl (External ''incomplete delta frame missing F_LAST'') else Inr frames)"
| "group_deltas api instrument pending frames (row # rows) =
     (if bd_instrument row \<noteq> instrument then Inl (External ''mixed instrument in delta frame'')
      else if pending \<noteq> [] \<and> (bd_ts_init (hd pending) \<noteq> bd_ts_init row \<or> bd_ts_event (hd pending) \<noteq> bd_ts_event row)
      then Inl (External ''delta frame changed timestamp before F_LAST'')
      else if ba_last api (bd_flags row)
      then group_deltas api instrument [] (frames @ [ba_frame api instrument (pending @ [row])]) rows
      else group_deltas api instrument (pending @ [row]) frames rows)"

definition group_book_deltas :: "'b book_api \<Rightarrow> string \<Rightarrow> book_delta list \<Rightarrow> book_frame list result" where
  "group_book_deltas api instrument rows = group_deltas api instrument [] [] rows"

definition frame_has_snapshot :: "'b book_api \<Rightarrow> book_frame \<Rightarrow> bool" where
  "frame_has_snapshot api frame = (\<exists>row \<in> set (bf_deltas frame). ba_snapshot api (bd_flags row))"

definition has_book_baseline :: "'b book_api \<Rightarrow> book_frame replay_window \<Rightarrow> bool" where
  "has_book_baseline api w = (case rw_data w of [] \<Rightarrow> False | frame # _ \<Rightarrow> frame_has_snapshot api frame)"

text \<open>\<open>initialize_book_at\<close>: fold the frames before the start into one snapshot frame.\<close>

fun apply_prefix :: "'b book_api \<Rightarrow> nat \<Rightarrow> book_frame list \<Rightarrow> 'b \<Rightarrow> 'b result" where
  "apply_prefix api start [] book = Inr book"
| "apply_prefix api start (frame # frames) book =
     (if \<not> bf_ts_init frame \<le> start
      then Inl (External ''book initialization prefix contains data newer than research start'')
      else case ba_apply api frame book of
          Inl e \<Rightarrow> Inl e
        | Inr book \<Rightarrow> apply_prefix api start frames book)"

definition after_last :: "('a \<Rightarrow> bool) \<Rightarrow> 'a list \<Rightarrow> nat" where
  "after_last P xs = (case rposition P xs of None \<Rightarrow> 0 | Some i \<Rightarrow> i + 1)"

definition initialize_book_at ::
  "'b book_api \<Rightarrow> string \<Rightarrow> nat \<Rightarrow> book_frame list \<Rightarrow> book_frame list result" where
  "initialize_book_at api instrument start frames =
     (let covered = after_last (\<lambda>frame. bf_ts_init frame < start) frames
      in if covered = 0 then Inr frames
         else if \<not> (case frames of [] \<Rightarrow> False | frame # _ \<Rightarrow> ba_snapshot api (bf_flags frame))
         then Inl (External ''cannot initialize without a preceding snapshot'')
         else case apply_prefix api start (take covered frames) (ba_book api instrument) of
             Inl e \<Rightarrow> Inl e
           | Inr book \<Rightarrow>
               let rest = drop covered frames
               in Inr (if rest \<noteq> [] then ba_to_deltas api book (ba_ts_last api book) start # rest else rest))"

text \<open>The retained checkpoint in front of the frames it is the state before.\<close>

definition anchor_of :: "book_frame \<Rightarrow> book_frame list \<Rightarrow> nat option" where
  "anchor_of baseline frames =
     rposition (\<lambda>frame. bf_sequence frame = bf_sequence baseline \<and> bf_ts_event frame = bf_ts_event baseline) frames"

definition insert_baseline :: "'b book_api \<Rightarrow> string \<Rightarrow> book_frame list \<Rightarrow> book_frame list \<Rightarrow> book_frame list" where
  "insert_baseline api instrument frames initialization =
     (if \<not> (case frames of [] \<Rightarrow> False | frame # _ \<Rightarrow> frame_has_snapshot api frame) \<and> length initialization = 1
      then let baseline = hd initialization;
               anchor = anchor_of baseline frames;
               covered = (case anchor of
                   Some index \<Rightarrow> Some (index + 1)
                 | None \<Rightarrow> if bf_sequence baseline > 0
                       \<and> (case frames of [] \<Rightarrow> False | frame # _ \<Rightarrow> bf_sequence frame > bf_sequence baseline)
                     then Some 0 else None)
           in case covered of
                None \<Rightarrow> frames
              | Some covered \<Rightarrow>
                  let ts = (case anchor of
                        None \<Rightarrow> bf_ts_init baseline
                      | Some index \<Rightarrow> max (bf_ts_init baseline) (bf_ts_init (frames ! index)))
                  in ba_frame api instrument (map (\<lambda>row. row\<lparr>bd_ts_init := ts\<rparr>) (bf_deltas baseline))
                       # drop covered frames
      else frames)"

definition cut_to_range ::
  "'b book_api \<Rightarrow> string \<Rightarrow> (nat \<times> nat) option \<Rightarrow> book_frame list \<Rightarrow> book_frame list result" where
  "cut_to_range api instrument span frames =
     (case span of
        None \<Rightarrow> Inr frames
      | Some (start, end) \<Rightarrow>
          (let frames = take (after_last (\<lambda>frame. bf_ts_init frame \<le> end) frames) frames
           in if \<not> (\<forall>frame \<in> set frames. bf_ts_init frame \<le> end)
              then Inl (External ''book publication prefix contains data newer than research end'')
              else initialize_book_at api instrument start frames))"

definition book_window ::
  "'b book_api \<Rightarrow> string \<Rightarrow> (nat \<times> nat) option \<Rightarrow> book_delta replay_window \<Rightarrow> book_frame replay_window result" where
  "book_window api instrument span w =
     (case group_book_deltas api instrument (rw_data w) of
        Inl e \<Rightarrow> Inl e
      | Inr frames \<Rightarrow>
          (case group_book_deltas api instrument (rw_initialization w) of
             Inl e \<Rightarrow> Inl e
           | Inr initialization \<Rightarrow>
               (case cut_to_range api instrument span (insert_baseline api instrument frames initialization) of
                  Inl e \<Rightarrow> Inl e
                | Inr frames \<Rightarrow>
                    if \<not> sorted (map bf_ts_init frames)
                    then Inl (External ''non-monotonic book replay input'')
                    else Inr \<lparr>rw_id = rw_id w,
                      rw_start = (case frames of [] \<Rightarrow> rw_start w | frame # _ \<Rightarrow> bf_ts_init frame),
                      rw_end = (if frames = [] then rw_end w else bf_ts_init (last frames)),
                      rw_data = frames, rw_initialization = []\<rparr>)))"

fun collect_results :: "('a \<Rightarrow> 'b result) \<Rightarrow> 'a list \<Rightarrow> 'b list result" where
  "collect_results f [] = Inr []"
| "collect_results f (x # xs) =
     (case f x of Inl e \<Rightarrow> Inl e | Inr y \<Rightarrow> map_result (\<lambda>ys. y # ys) (collect_results f xs))"

definition read_book_windows ::
  "'b book_api \<Rightarrow> (string \<Rightarrow> book_delta replay_file result) \<Rightarrow> string list result \<Rightarrow> string \<Rightarrow>
   (nat \<times> nat) option \<Rightarrow> book_frame replay_window list result" where
  "read_book_windows api read files instrument span =
     (case read_replay_windows bd_ts_init read files of
        Inl e \<Rightarrow> Inl e
      | Inr windows \<Rightarrow>
          map_result (filter (\<lambda>w. rw_data w \<noteq> []))
            (collect_results (book_window api instrument span)
              (filter (\<lambda>w. case span of None \<Rightarrow> True | Some (start, end) \<Rightarrow> rw_end w \<ge> start \<and> rw_start w \<le> end)
                windows)))"

definition read_book_replay_windows ::
  "'b book_api \<Rightarrow> (string \<Rightarrow> book_delta replay_file result) \<Rightarrow> string list result \<Rightarrow> string \<Rightarrow>
   book_frame replay_window list result" where
  "read_book_replay_windows api read files instrument = read_book_windows api read files instrument None"

definition read_book_replay_windows_in_range ::
  "'b book_api \<Rightarrow> (string \<Rightarrow> book_delta replay_file result) \<Rightarrow> string list result \<Rightarrow> string \<Rightarrow> nat \<Rightarrow> nat \<Rightarrow>
   book_frame replay_window list result" where
  "read_book_replay_windows_in_range api read files instrument start end =
     (if \<not> start \<le> end then Inl (External ''research start must not exceed end'')
      else read_book_windows api read files instrument (Some (start, end)))"

subsection \<open>Common ranges\<close>

definition intersect_ranges :: "(nat \<times> nat) list \<Rightarrow> (nat \<times> nat) list \<Rightarrow> (nat \<times> nat) list" where
  "intersect_ranges ranges feed = concat (map (\<lambda>(a, b).
     concat (map (\<lambda>(c, d). let start = max a c; end = min b d
       in if start \<le> end then [(start, end)] else []) feed)) ranges)"

definition common_replay_ranges :: "(nat \<times> nat) list list \<Rightarrow> (nat \<times> nat) list" where
  "common_replay_ranges feeds =
     (case feeds of [] \<Rightarrow> [] | first # rest \<Rightarrow> remdups_adj (sort (foldl intersect_ranges first rest)))"

subsection \<open>Frames\<close>

text \<open>A message of the venue: rows up to the one flagged last, of one instrument and time.\<close>

definition message_frame :: "'b book_api \<Rightarrow> string \<Rightarrow> book_delta list \<Rightarrow> bool" where
  "message_frame api instrument f = (f \<noteq> [] \<and> ba_last api (bd_flags (last f))
     \<and> (\<forall>row \<in> set (butlast f). \<not> ba_last api (bd_flags row))
     \<and> (\<forall>row \<in> set f. bd_instrument row = instrument \<and> bd_ts_init row = bd_ts_init (hd f)
          \<and> bd_ts_event row = bd_ts_event (hd f)))"

definition open_frame :: "'b book_api \<Rightarrow> string \<Rightarrow> book_delta list \<Rightarrow> bool" where
  "open_frame api instrument p = (\<forall>row \<in> set p. \<not> ba_last api (bd_flags row) \<and> bd_instrument row = instrument
     \<and> bd_ts_init row = bd_ts_init (hd p) \<and> bd_ts_event row = bd_ts_event (hd p))"

lemma message_frame_extends:
  assumes "message_frame api i f" "f @ xs = p @ row # rows" "open_frame api i p"
  shows "\<exists>rest. f = p @ row # rest \<and> rest @ xs = rows"
proof -
  have "\<not> length f \<le> length p"
  proof
    assume "length f \<le> length p"
    with assms(2) have "f = take (length f) p" by (metis append_eq_append_conv_if append_take_drop_id)
    moreover have "last f \<in> set f" using assms(1) by (simp add: message_frame_def)
    ultimately have "last f \<in> set p" by (metis in_set_takeD)
    with assms(1,3) show False by (simp add: message_frame_def open_frame_def)
  qed
  then obtain y rest where "f = p @ y # rest"
    using assms(2) by (metis append_eq_append_conv2 append_Nil2 le_refl length_append list.exhaust not_less_eq_eq le_add1)
  with assms(2) show ?thesis by simp
qed

lemma concat_frames_extends:
  assumes "p @ row # rows = concat fs" "\<forall>f \<in> set fs. message_frame api i f" "open_frame api i p"
  shows "\<exists>rest fs'. fs = (p @ row # rest) # fs' \<and> rest @ concat fs' = rows"
proof (cases fs)
  case Nil
  with assms(1) show ?thesis by simp
next
  case (Cons f fs')
  with message_frame_extends [of api i f "concat fs'" p row rows] assms show ?thesis by auto
qed

lemma open_frame_snoc:
  "open_frame api i p \<Longrightarrow> \<not> ba_last api (bd_flags row) \<Longrightarrow> bd_instrument row = i \<Longrightarrow>
   p = [] \<or> bd_ts_init (hd p) = bd_ts_init row \<and> bd_ts_event (hd p) = bd_ts_event row \<Longrightarrow>
   open_frame api i (p @ [row])"
  by (cases p) (auto simp: open_frame_def)

lemma close_frame:
  "open_frame api i p \<Longrightarrow> ba_last api (bd_flags row) \<Longrightarrow> bd_instrument row = i \<Longrightarrow>
   p = [] \<or> bd_ts_init (hd p) = bd_ts_init row \<and> bd_ts_event (hd p) = bd_ts_event row \<Longrightarrow>
   message_frame api i (p @ [row])"
  by (cases p) (auto simp: open_frame_def message_frame_def)

lemma group_deltas_iff:
  assumes "open_frame api i p"
  shows "group_deltas api i p out rows = Inr res \<longleftrightarrow>
    (\<exists>fs. p @ rows = concat fs \<and> (\<forall>f \<in> set fs. message_frame api i f) \<and> res = out @ map (ba_frame api i) fs)"
  using assms
proof (induction rows arbitrary: p out)
  case Nil
  have none: "fs = []" if "\<forall>f \<in> set fs. message_frame api i f" "concat fs = []" for fs
    using that by (cases fs) (auto simp: message_frame_def)
  have open_end: False if "p = concat fs" "\<forall>f \<in> set fs. message_frame api i f" "p \<noteq> []" for fs
  proof -
    from that obtain f fs' where "fs = f # fs'" by (cases fs) auto
    then have "last f \<in> set p" "ba_last api (bd_flags (last f))" using that by (auto simp: message_frame_def)
    with Nil show False by (simp add: open_frame_def)
  qed
  show ?case
  proof (cases "p = []")
    case True
    then show ?thesis using none by (fastforce intro: exI [of _ "[]"])
  next
    case False
    then have "group_deltas api i p out [] \<noteq> Inr res" by simp
    moreover have "\<not> (\<exists>fs. p @ [] = concat fs \<and> (\<forall>f \<in> set fs. message_frame api i f) \<and> res = out @ map (ba_frame api i) fs)"
      unfolding append_Nil2 using open_end [OF _ _ False] by blast
    ultimately show ?thesis by blast
  qed
next
  case (Cons row rows)
  let ?rhs = "\<exists>fs. p @ row # rows = concat fs \<and> (\<forall>f \<in> set fs. message_frame api i f) \<and> res = out @ map (ba_frame api i) fs"
  note ext = concat_frames_extends [OF _ _ Cons.prems, of row rows]
  have uniform: "bd_instrument row = i \<and> (p = [] \<or> bd_ts_init (hd p) = bd_ts_init row \<and> bd_ts_event (hd p) = bd_ts_event row)"
    if ?rhs
  proof -
    from that obtain fs where fs: "p @ row # rows = concat fs" "\<forall>f \<in> set fs. message_frame api i f" by blast
    from ext [OF this] obtain rest where "message_frame api i (p @ row # rest)" using fs(2) by auto
    then show ?thesis by (cases p) (auto simp: message_frame_def)
  qed
  consider (bad) "bd_instrument row \<noteq> i" | (time) "bd_instrument row = i" "p \<noteq> []"
      "bd_ts_init (hd p) \<noteq> bd_ts_init row \<or> bd_ts_event (hd p) \<noteq> bd_ts_event row"
    | (ok) "bd_instrument row = i" "p = [] \<or> bd_ts_init (hd p) = bd_ts_init row \<and> bd_ts_event (hd p) = bd_ts_event row"
    by blast
  then show ?case
  proof cases
    case bad
    then show ?thesis using uniform by auto
  next
    case time
    then show ?thesis using uniform by auto
  next
    case ok
    show ?thesis
    proof (cases "ba_last api (bd_flags row)")
      case True
      have "open_frame api i []" by (simp add: open_frame_def)
      note IH = Cons.IH [OF this, of "out @ [ba_frame api i (p @ [row])]"]
      have step: "group_deltas api i p out (row # rows) = group_deltas api i [] (out @ [ba_frame api i (p @ [row])]) rows"
        using ok True by auto
      have "?rhs \<longleftrightarrow> (\<exists>fs. rows = concat fs \<and> (\<forall>f \<in> set fs. message_frame api i f)
          \<and> res = out @ ba_frame api i (p @ [row]) # map (ba_frame api i) fs)"
      proof
        assume ?rhs
        then obtain fs where fs: "p @ row # rows = concat fs" "\<forall>f \<in> set fs. message_frame api i f"
          "res = out @ map (ba_frame api i) fs" by blast
        from ext [OF fs(1,2)] obtain rest fs' where r: "fs = (p @ row # rest) # fs'" "rest @ concat fs' = rows" by blast
        then have "message_frame api i (p @ row # rest)" using fs(2) by simp
        then have "rest = []" using True by (cases rest) (auto simp: message_frame_def butlast_append)
        with r fs show "\<exists>fs. rows = concat fs \<and> (\<forall>f \<in> set fs. message_frame api i f)
          \<and> res = out @ ba_frame api i (p @ [row]) # map (ba_frame api i) fs" by auto
      next
        assume "\<exists>fs. rows = concat fs \<and> (\<forall>f \<in> set fs. message_frame api i f)
          \<and> res = out @ ba_frame api i (p @ [row]) # map (ba_frame api i) fs"
        then obtain fs where "rows = concat fs" "\<forall>f \<in> set fs. message_frame api i f"
          "res = out @ ba_frame api i (p @ [row]) # map (ba_frame api i) fs" by blast
        then show ?rhs using close_frame [OF Cons.prems True ok(1,2)]
          by (intro exI [of _ "(p @ [row]) # fs"]) auto
      qed
      then show ?thesis using IH step by simp
    next
      case False
      have "group_deltas api i p out (row # rows) = group_deltas api i (p @ [row]) out rows"
        using ok False by auto
      then show ?thesis using Cons.IH [OF open_frame_snoc [OF Cons.prems False ok], of out] by simp
    qed
  qed
qed

text \<open>C24: Grouping is exactly the inverse of concatenation: it returns frames if and only if the rows
  are the concatenation of whole messages of this instrument, and then it returns these messages;
  rows of another instrument, a change of time inside a message and an unfinished message are
  the only errors.\<close>
theorem group_book_deltas_exact:
  "group_book_deltas api i rows = Inr res \<longleftrightarrow>
    (\<exists>fs. rows = concat fs \<and> list_all (message_frame api i) fs \<and> res = map (ba_frame api i) fs)"
  using group_deltas_iff [of api i "[]" "[]" rows res] by (simp add: group_book_deltas_def open_frame_def list_all_iff)

subsection \<open>Common ranges\<close>

definition in_ranges :: "(nat \<times> nat) list \<Rightarrow> nat \<Rightarrow> bool" where
  "in_ranges ranges t = (\<exists>(a, b) \<in> set ranges. a \<le> t \<and> t \<le> b)"

lemma in_ranges_intersect: "in_ranges (intersect_ranges rs feed) t = (in_ranges rs t \<and> in_ranges feed t)"
proof
  assume "in_ranges (intersect_ranges rs feed) t"
  then show "in_ranges rs t \<and> in_ranges feed t"
    by (fastforce simp: in_ranges_def intersect_ranges_def Let_def split: if_splits)
next
  assume "in_ranges rs t \<and> in_ranges feed t"
  then obtain a b c d where "(a, b) \<in> set rs" "(c, d) \<in> set feed" "max a c \<le> t" "t \<le> min b d"
    by (auto simp: in_ranges_def)
  then have "(max a c, min b d) \<in> set (intersect_ranges rs feed)"
    unfolding intersect_ranges_def set_concat set_map Let_def
    by (intro UN_I [OF imageI, of "(a, b)"] UN_I [OF imageI, of "(c, d)"])
      (auto intro!: bexI [of _ "(c, d)"])
  then show "in_ranges (intersect_ranges rs feed) t"
    using \<open>max a c \<le> t\<close> \<open>t \<le> min b d\<close> unfolding in_ranges_def by blast
qed

lemma in_ranges_fold:
  "in_ranges (foldl intersect_ranges rs feeds) t = (in_ranges rs t \<and> (\<forall>feed \<in> set feeds. in_ranges feed t))"
  by (induction feeds arbitrary: rs) (auto simp: in_ranges_intersect)

text \<open>The common ranges are the exact intersection: an instant lies in one of them if and only if
  every feed covers it. They come sorted and without repetition.\<close>
theorem common_ranges_exact:
  "in_ranges (common_replay_ranges feeds) t = (feeds \<noteq> [] \<and> list_all (\<lambda>feed. in_ranges feed t) feeds)
    \<and> sorted (common_replay_ranges feeds) \<and> distinct (common_replay_ranges feeds)"
proof (cases feeds)
  case Nil
  then show ?thesis by (simp add: common_replay_ranges_def in_ranges_def)
next
  case (Cons first rest)
  let ?rs = "foldl intersect_ranges first rest"
  have "in_ranges (remdups_adj (sort ?rs)) t = in_ranges ?rs t" by (simp add: in_ranges_def)
  then show ?thesis using Cons
    by (auto simp: common_replay_ranges_def in_ranges_fold list_all_iff remdups_adj_sorted)
qed

subsection \<open>Book windows\<close>

lemma after_last_drop: "x \<in> set (drop (after_last P xs) xs) \<Longrightarrow> \<not> P x"
proof (cases "rposition P xs")
  case None
  then show "x \<in> set (drop (after_last P xs) xs) \<Longrightarrow> \<not> P x"
    by (auto simp: after_last_def rposition_None)
next
  case (Some i)
  assume "x \<in> set (drop (after_last P xs) xs)"
  then obtain j where "x = xs ! (i + 1 + j)" "i + 1 + j < length xs"
    using Some by (auto simp: after_last_def in_set_conv_nth)
  with rposition_Some(3) [OF Some] show "\<not> P x" by auto
qed

lemma after_last_0: "after_last P xs = 0 \<Longrightarrow> x \<in> set xs \<Longrightarrow> \<not> P x"
  using after_last_drop [of x P xs] by simp

text \<open>The frames of a window: a run of the grouped source frames behind at most one frame made up for the book.\<close>

definition source_run :: "book_frame list \<Rightarrow> book_frame list \<Rightarrow> bool" where
  "source_run src frames = (\<exists>pre i j. frames = pre @ take j (drop i src) \<and> length pre \<le> 1)"

lemma source_run_insert: "source_run src (insert_baseline api inst src ini)"
proof -
  have "source_run src src" unfolding source_run_def
    by (intro exI [of _ "[]"] exI [of _ 0] exI [of _ "length src"]) simp
  moreover have "source_run src (x # drop n src)" for x n unfolding source_run_def
    by (intro exI [of _ "[x]"] exI [of _ n] exI [of _ "length src"]) simp
  ultimately show ?thesis by (auto simp: insert_baseline_def Let_def split: option.splits)
qed

lemma source_run_take: "source_run src xs \<Longrightarrow> source_run src (take n xs)"
proof -
  assume "source_run src xs"
  then obtain pre i j where "xs = pre @ take j (drop i src)" "length pre \<le> 1" by (auto simp: source_run_def)
  then have "take n xs = take n pre @ take (min (n - length pre) j) (drop i src)" "length (take n pre) \<le> 1"
    by simp_all
  then show ?thesis unfolding source_run_def by blast
qed

lemma source_run_drop:
  assumes "source_run src xs" "0 < n"
  shows "source_run src (drop n xs)" "source_run src (x # drop n xs)"
proof -
  obtain pre i j where "xs = pre @ take j (drop i src)" "length pre \<le> 1"
    using assms by (auto simp: source_run_def)
  then have "drop n xs = take (j - (n - length pre)) (drop (i + (n - length pre)) src)"
    using assms(2) by (simp add: drop_take add.commute)
  then obtain i' j' where "drop n xs = take j' (drop i' src)" by blast
  then have "drop n xs = [] @ take j' (drop i' src)" "x # drop n xs = [x] @ take j' (drop i' src)"
    "length [] \<le> 1" "length [x] \<le> 1" by simp_all
  then show "source_run src (drop n xs)" "source_run src (x # drop n xs)"
    unfolding source_run_def by blast+
qed

lemma initialize_book_at_result:
  assumes "initialize_book_at api inst start frames = Inr out"
  shows "source_run src frames \<Longrightarrow> source_run src out"
    "(\<And>b t. bf_ts_init (ba_to_deltas api b t start) = start) \<Longrightarrow> f \<in> set out \<Longrightarrow>
      start \<le> bf_ts_init f \<and> (bf_ts_init f = start \<or> f \<in> set frames)"
proof -
  let ?c = "after_last (\<lambda>frame. bf_ts_init frame < start) frames"
  have "(?c = 0 \<and> out = frames) \<or> (?c > 0 \<and> (out = drop ?c frames
      \<or> (\<exists>b. out = ba_to_deltas api b (ba_ts_last api b) start # drop ?c frames)))"
    using assms by (auto simp: initialize_book_at_def Let_def split: if_splits sum.splits)
  then consider (all) "?c = 0" "out = frames" | (rest) "?c > 0" "out = drop ?c frames"
    | (book) b where "?c > 0" "out = ba_to_deltas api b (ba_ts_last api b) start # drop ?c frames"
    by (elim disjE conjE exE)
  note c = this
  show "source_run src frames \<Longrightarrow> source_run src out"
    using c by cases (auto intro: source_run_drop)
  assume ts: "\<And>b t. bf_ts_init (ba_to_deltas api b t start) = start" and f: "f \<in> set out"
  have late: "start \<le> bf_ts_init f" if "f \<in> set (drop ?c frames)"
    using after_last_drop [OF that] by simp
  show "start \<le> bf_ts_init f \<and> (bf_ts_init f = start \<or> f \<in> set frames)"
    using c
  proof cases
    case all
    then show ?thesis using f late by simp
  next
    case rest
    then show ?thesis using f late by (auto dest: in_set_dropD)
  next
    case book
    then show ?thesis using f late ts by (auto dest: in_set_dropD)
  qed
qed

lemma collect_results_mem: "collect_results f xs = Inr ys \<Longrightarrow> y \<in> set ys \<Longrightarrow> \<exists>x \<in> set xs. f x = Inr y"
proof (induction xs arbitrary: ys)
  case (Cons x xs)
  then show ?case by (cases "f x"; cases "collect_results f xs") auto
qed simp

lemma read_book_windows_mem:
  assumes "read_book_windows api read files inst span = Inr ws" "w \<in> set ws"
  shows "\<exists>raw w0. read_replay_windows bd_ts_init read files = Inr raw \<and> w0 \<in> set raw
    \<and> book_window api inst span w0 = Inr w \<and> rw_data w \<noteq> []"
proof -
  obtain raw where raw: "read_replay_windows bd_ts_init read files = Inr raw"
    using assms(1) by (cases "read_replay_windows bd_ts_init read files") (auto simp: read_book_windows_def)
  let ?sel = "filter (\<lambda>w. case span of None \<Rightarrow> True | Some (start, end) \<Rightarrow> rw_end w \<ge> start \<and> rw_start w \<le> end) raw"
  obtain out where out: "collect_results (book_window api inst span) ?sel = Inr out" "ws = filter (\<lambda>w. rw_data w \<noteq> []) out"
    using assms(1) raw by (cases "collect_results (book_window api inst span) ?sel") (auto simp: read_book_windows_def)
  then have "w \<in> set out" "rw_data w \<noteq> []" using assms(2) by auto
  with collect_results_mem [OF out(1)] raw show ?thesis by auto
qed

lemma book_window_result:
  assumes "book_window api inst span w0 = Inr w"
  shows "\<exists>src ini. group_book_deltas api inst (rw_data w0) = Inr src
    \<and> cut_to_range api inst span (insert_baseline api inst src ini) = Inr (rw_data w)
    \<and> sorted (map bf_ts_init (rw_data w)) \<and> rw_id w = rw_id w0
    \<and> (rw_data w \<noteq> [] \<longrightarrow> rw_start w = bf_ts_init (hd (rw_data w)) \<and> rw_end w = bf_ts_init (last (rw_data w)))"
  using assms by (auto simp: book_window_def split: sum.splits if_splits list.splits)

lemma cut_to_range_Some:
  assumes "cut_to_range api inst (Some (a, b)) frames = Inr out"
  shows "\<exists>n. initialize_book_at api inst a (take n frames) = Inr out \<and> (\<forall>f \<in> set (take n frames). bf_ts_init f \<le> b)"
proof -
  let ?n = "after_last (\<lambda>frame. bf_ts_init frame \<le> b) frames"
  define kept where "kept = take ?n frames"
  have "(if \<not> (\<forall>f \<in> set kept. bf_ts_init f \<le> b)
      then Inl (External ''book publication prefix contains data newer than research end'')
      else initialize_book_at api inst a kept) = Inr out"
    using assms unfolding cut_to_range_def Let_def option.case prod.case kept_def .
  then have "(\<forall>f \<in> set kept. bf_ts_init f \<le> b) \<and> initialize_book_at api inst a kept = Inr out"
    by (cases "\<forall>f \<in> set kept. bf_ts_init f \<le> b") simp_all
  then show ?thesis unfolding kept_def by blast
qed

text \<open>C17: Replay in a range never looks ahead and never goes backwards: every frame it hands out lies in the
  requested range, frames come in the order of their times, and start and end of a window are
  those of its first and last frame. Relied on: the snapshot Nautilus's book makes carries the
  time it was asked for.\<close>
theorem replay_range_sound:
  assumes "\<And>b t s. bf_ts_init (ba_to_deltas api b t s) = s"
    and "read_book_replay_windows_in_range api read files inst start stop = Inr ws" and "w \<in> set ws"
  shows "rw_data w \<noteq> [] \<and> sorted (map bf_ts_init (rw_data w))
    \<and> (\<forall>f \<in> set (rw_data w). start \<le> bf_ts_init f \<and> bf_ts_init f \<le> stop)
    \<and> rw_start w = bf_ts_init (hd (rw_data w)) \<and> rw_end w = bf_ts_init (last (rw_data w))"
proof -
  have le: "start \<le> stop" and r: "read_book_windows api read files inst (Some (start, stop)) = Inr ws"
    using assms(2) by (auto simp: read_book_replay_windows_in_range_def split: if_splits)
  from read_book_windows_mem [OF r assms(3)] obtain w0 where
    w0: "book_window api inst (Some (start, stop)) w0 = Inr w" "rw_data w \<noteq> []" by blast
  from book_window_result [OF w0(1)] obtain src ini where
    cut: "cut_to_range api inst (Some (start, stop)) (insert_baseline api inst src ini) = Inr (rw_data w)"
    and rest: "sorted (map bf_ts_init (rw_data w))" "rw_start w = bf_ts_init (hd (rw_data w))"
      "rw_end w = bf_ts_init (last (rw_data w))" using w0(2) by metis
  from cut_to_range_Some [OF cut] obtain fs where fs: "\<forall>f \<in> set fs. bf_ts_init f \<le> stop"
    "initialize_book_at api inst start fs = Inr (rw_data w)" by blast
  have "start \<le> bf_ts_init f \<and> bf_ts_init f \<le> stop" if "f \<in> set (rw_data w)" for f
    using initialize_book_at_result(2) [OF fs(2) assms(1) that] fs(1) le by auto
  with w0(2) rest show ?thesis by blast
qed

text \<open>Replay invents and reorders nothing: what a window hands out is an unbroken run of the
  messages recorded for it, unchanged, behind at most one frame that initializes the book.\<close>
theorem replay_keeps_source:
  assumes "read_book_windows api read files inst span = Inr ws" and "w \<in> set ws"
  shows "\<exists>raw w0 src. read_replay_windows bd_ts_init read files = Inr raw \<and> w0 \<in> set raw \<and> rw_id w = rw_id w0
    \<and> group_book_deltas api inst (rw_data w0) = Inr src \<and> source_run src (rw_data w)"
proof -
  from read_book_windows_mem [OF assms] obtain raw w0 where
    raw: "read_replay_windows bd_ts_init read files = Inr raw" "w0 \<in> set raw"
    and w0: "book_window api inst span w0 = Inr w" by blast
  from book_window_result [OF w0] obtain src ini where
    src: "group_book_deltas api inst (rw_data w0) = Inr src" "rw_id w = rw_id w0"
    and cut: "cut_to_range api inst span (insert_baseline api inst src ini) = Inr (rw_data w)"
    by (elim exE conjE) (rule that; assumption)
  have "source_run src (rw_data w)"
  proof (cases span)
    case None
    with cut show ?thesis using source_run_insert [of src api inst ini] by (simp add: cut_to_range_def)
  next
    case (Some ab)
    obtain a b where "span = Some (a, b)" using Some by (cases ab) simp
    with cut_to_range_Some [of api inst a b] cut obtain n where
      "initialize_book_at api inst a (take n (insert_baseline api inst src ini)) = Inr (rw_data w)" by blast
    from initialize_book_at_result(1) [OF this source_run_take [OF source_run_insert]] show ?thesis .
  qed
  with raw src show ?thesis by blast
qed

end
