(* ===== verification/Replay_Windows.thy ===== *)
theory Replay_Windows
  imports Replay "HOL-Library.Multiset"
begin

section \<open>What the reader reconstructs\<close>

text \<open>
  The windows \<open>read_replay_windows\<close> returns, for files that are complete windows: whatever the
  order in which they were discovered, the rows of each window come back in the order of its
  ordinals. Also the round trip of the decimal ordinals.
\<close>

subsection \<open>Decimal round trip\<close>

lemma digit_value_char: "d < 10 \<Longrightarrow> digit_value (digit_char d) = Some d"
proof -
  assume d: "d < 10"
  have "(of_char (char_of (48 + d)) :: nat) = 48 + d" using d by simp
  with d show ?thesis by (simp add: digit_value_def digit_char_def Let_def)
qed

lemma parse_digits_append:
  "parse_digits acc (xs @ ys) = (case parse_digits acc xs of Inl e \<Rightarrow> Inl e | Inr n \<Rightarrow> parse_digits n ys)"
  by (induction acc xs rule: parse_digits.induct) (auto split: option.splits)

lemma parse_show_nat: "n \<le> u64_max \<Longrightarrow> parse_digits 0 (show_nat n) = Inr n"
proof (induction n rule: show_nat.induct)
  case (1 n)
  show ?case
  proof (cases "n < 10")
    case True
    then show ?thesis using 1(2) by (simp add: show_nat.simps [of n] digit_value_char)
  next
    case False
    then have "parse_digits 0 (show_nat (n div 10)) = Inr (n div 10)" using 1 by simp
    then show ?thesis using False 1(2)
      by (simp add: show_nat.simps [of n] parse_digits_append digit_value_char)
  qed
qed

lemma show_nat_nonempty: "show_nat n \<noteq> []"
  by (simp add: show_nat.simps [of n])

lemma show_nat_hd: "\<exists>d < 10. hd (show_nat n) = digit_char d"
proof (induction n rule: show_nat.induct)
  case (1 n)
  then show ?case
    by (cases "n < 10") (auto simp: show_nat.simps [of n] show_nat_nonempty)
qed

lemma digit_not_plus: "d < 10 \<Longrightarrow> digit_char d \<noteq> CHR ''+''"
proof
  assume d: "d < 10" "digit_char d = CHR ''+''"
  then have "digit_value (digit_char d) = digit_value (CHR ''+'')" by simp
  with digit_value_char [OF d(1)] show False by (simp add: digit_value_def Let_def)
qed

lemma parse_show_u64: "n \<le> u64_max \<Longrightarrow> parse_u64 (show_nat n) = Inr n"
proof -
  assume n: "n \<le> u64_max"
  obtain c cs where c: "show_nat n = c # cs" using show_nat_nonempty [of n] by (cases "show_nat n") auto
  with show_nat_hd [of n] digit_not_plus have "c \<noteq> CHR ''+''" by auto
  then have "(case show_nat n of CHR ''+'' # cs \<Rightarrow> cs | _ \<Rightarrow> show_nat n) = show_nat n"
    unfolding c by (auto split: char.splits bool.splits)
  then show ?thesis using parse_show_nat [OF n] show_nat_nonempty [of n] unfolding parse_u64_def by simp
qed

subsection \<open>Rows of one window\<close>

definition window_of :: "('d \<Rightarrow> nat) \<Rightarrow> string \<Rightarrow> 'd list \<Rightarrow> 'd list \<Rightarrow> 'd replay_window" where
  "window_of ts wid rows ini = \<lparr>rw_id = wid,
     rw_start = (if rows = [] then 0 else Min (ts ` set rows)),
     rw_end = (if rows = [] then 0 else Max (ts ` set rows)), rw_data = rows, rw_initialization = ini\<rparr>"

lemma new_window_of: "new_window wid ordinal = window_of ts (wid @ '':'' @ show_nat ordinal) [] []"
  by (simp add: new_window_def window_of_def)

lemma replay_items:
  "foldl (replay_item ts fresh n) (window_of ts wid rows ini, r) items
    = (window_of ts wid (rows @ drop (n - r) items) (if fresh then ini @ take (n - r) items else ini), r + length items)"
proof (induction items arbitrary: rows ini r)
  case Nil
  then show ?case by simp
next
  case (Cons item items)
  show ?case
  proof (cases "r < n")
    case True
    then have "n - r = Suc (n - Suc r)" by simp
    then show ?thesis using True Cons [of rows _ "Suc r"] by (simp add: replay_item_def window_of_def)
  next
    case False
    have "replay_item ts fresh n (window_of ts wid rows ini, r) item = (window_of ts wid (rows @ [item]) ini, Suc r)"
      using False by (auto simp: replay_item_def window_of_def insert_commute Min_insert2 Max_insert2 min.commute max.commute)
    then show ?thesis using False Cons [of "rows @ [item]" ini "Suc r"] by simp
  qed
qed

definition file_rows :: "'d replay_file \<Rightarrow> 'd list" where
  "file_rows f = concat (map projr (rf_batches f))"

definition file_initialization :: "'d replay_file \<Rightarrow> nat result" where
  "file_initialization f = (case map_of (rf_metadata f) initialization_rows_key of None \<Rightarrow> Inr 0 | Some n \<Rightarrow> parse_u64 n)"

lemma replay_batches_all:
  assumes "\<forall>b \<in> set bs. \<not> isl b"
  shows "replay_batches ts fresh n bs (window_of ts wid rows ini, r)
    = Inr (window_of ts wid (rows @ drop (n - r) (concat (map projr bs)))
        (if fresh then ini @ take (n - r) (concat (map projr bs)) else ini), r + length (concat (map projr bs)))"
  using assms
proof (induction bs arbitrary: rows ini r)
  case Nil
  then show ?case by simp
next
  case (Cons b bs)
  then obtain items where b: "b = Inr items" by (cases b) auto
  show ?case using Cons by (simp add: b replay_items add.assoc)
qed

subsection \<open>Whole windows\<close>

text \<open>\<open>read_ok read path (n, rows)\<close>: the file at \<open>path\<close> can be read, with a complete prefix of \<open>n\<close> initialization rows.\<close>

definition read_ok :: "(string \<Rightarrow> 'd replay_file result) \<Rightarrow> string \<Rightarrow> nat \<times> 'd list \<Rightarrow> bool" where
  "read_ok read path g = (case g of (n, rows) \<Rightarrow> (case read path of Inl _ \<Rightarrow> False | Inr f \<Rightarrow>
     list_all (\<lambda>b. \<not> isl b) (rf_batches f) \<and> file_initialization f = Inr n \<and> file_rows f = rows \<and> n \<le> length rows))"

fun segs_from :: "string \<Rightarrow> (nat \<Rightarrow> string) \<Rightarrow> nat \<Rightarrow> 'g list \<Rightarrow> (string \<times> nat \<times> string) list" where
  "segs_from wid path a [] = []"
| "segs_from wid path a (g # gs) = (wid, a, path a) # segs_from wid path (Suc a) gs"

definition observed :: "(nat \<times> 'd list) list \<Rightarrow> 'd list" where
  "observed gs = concat (map (\<lambda>(n, rows). drop n rows) gs)"

definition whole_window :: "('d \<Rightarrow> nat) \<Rightarrow> string \<times> (nat \<times> 'd list) list \<Rightarrow> 'd replay_window" where
  "whole_window ts x = window_of ts (fst x @ '':'' @ show_nat 0) (observed (snd x))
     (case snd x of [] \<Rightarrow> [] | (n, rows) # _ \<Rightarrow> take n rows)"

lemma replay_step:
  assumes "read_ok read path (n, rows)"
    and "(case map_of indices wid of
        Some (index, prev) \<Rightarrow>
          if prev < u64_max \<and> prev + 1 = ordinal then Inr (index, False, windows)
          else if ordinal \<le> prev then Inl (External ''duplicate replay segment ordinal'')
          else Inr (length windows, True, windows @ [new_window wid ordinal])
      | None \<Rightarrow> Inr (length windows, True, windows @ [new_window wid ordinal])) = Inr (index, fresh, windows')"
    and "windows' ! index = window_of ts k d ini"
  shows "replay_segments ts read ((wid, ordinal, path) # segments) windows indices
    = replay_segments ts read segments
        (windows'[index := window_of ts k (d @ drop n rows) (if fresh then ini @ take n rows else ini)])
        (AList.update wid (index, ordinal) indices)"
proof -
  obtain f where f: "read path = Inr f" "\<forall>b \<in> set (rf_batches f). \<not> isl b" "file_initialization f = Inr n"
    "file_rows f = rows" "n \<le> length rows"
    using assms(1) by (auto simp: read_ok_def list_all_iff split: sum.splits)
  have "replay_batches ts fresh n (rf_batches f) (window_of ts k d ini, 0)
      = Inr (window_of ts k (d @ drop n rows) (if fresh then ini @ take n rows else ini), length rows)"
    using replay_batches_all [OF f(2), of ts fresh n k d ini 0] f(4) by (simp add: file_rows_def)
  then show ?thesis
    using f(1,3,5) assms(2,3) unfolding replay_segments.simps file_initialization_def by simp
qed

lemma replay_rest_of_window:
  assumes "map_of indices wid = Some (index, a)" "index < length windows" "windows ! index = window_of ts k d ini"
    "a + length gs < Suc u64_max" "\<And>i. i < length gs \<Longrightarrow> read_ok read (path (Suc a + i)) (gs ! i)"
  shows "\<exists>indices'. replay_segments ts read (segs_from wid path (Suc a) gs @ later) windows indices
      = replay_segments ts read later (windows[index := window_of ts k (d @ observed gs) ini]) indices'
    \<and> (\<forall>k. k \<noteq> wid \<longrightarrow> map_of indices' k = map_of indices k)"
  using assms
proof (induction gs arbitrary: a windows indices d)
  case Nil
  then have "windows[index := window_of ts k d ini] = windows" by (metis list_update_id)
  then show ?case by (auto simp: observed_def)
next
  case (Cons g gs)
  obtain n rows where g: "g = (n, rows)" by fastforce
  have ok: "read_ok read (path (Suc a)) (n, rows)" using Cons.prems(5) [of 0] g by simp
  let ?w = "windows[index := window_of ts k (d @ drop n rows) ini]"
  let ?i = "AList.update wid (index, Suc a) indices"
  have "replay_segments ts read ((wid, Suc a, path (Suc a)) # segs_from wid path (Suc (Suc a)) gs @ later) windows indices
      = replay_segments ts read (segs_from wid path (Suc (Suc a)) gs @ later) ?w ?i"
    by (subst replay_step [OF ok, where index = index and fresh = False and windows' = windows])
      (use Cons.prems(1,3,4) in auto)
  moreover have "\<exists>indices'. replay_segments ts read (segs_from wid path (Suc (Suc a)) gs @ later) ?w ?i
      = replay_segments ts read later (?w[index := window_of ts k ((d @ drop n rows) @ observed gs) ini]) indices'
    \<and> (\<forall>k. k \<noteq> wid \<longrightarrow> map_of indices' k = map_of ?i k)"
  proof (rule Cons.IH)
    show "read_ok read (path (Suc (Suc a) + i)) (gs ! i)" if "i < length gs" for i
      using Cons.prems(5) [of "Suc i"] that by simp
  qed (use Cons.prems(2,4) in \<open>simp_all add: update_conv'\<close>)
  ultimately show ?case by (simp add: g observed_def update_conv')
qed

lemma replay_whole_window:
  assumes "map_of indices wid = None" "gs \<noteq> []" "length gs \<le> u64_max"
    "\<And>i. i < length gs \<Longrightarrow> read_ok read (path i) (gs ! i)"
  shows "\<exists>indices'. replay_segments ts read (segs_from wid path 0 gs @ later) windows indices
      = replay_segments ts read later (windows @ [whole_window ts (wid, gs)]) indices'
    \<and> (\<forall>k. k \<noteq> wid \<longrightarrow> map_of indices' k = map_of indices k)"
proof -
  obtain g gs' where gs: "gs = g # gs'" using assms(2) by (cases gs) auto
  obtain n rows where g: "g = (n, rows)" by fastforce
  have ok: "read_ok read (path 0) (n, rows)" using assms(4) [of 0] gs g by simp
  let ?k = "wid @ '':'' @ show_nat 0"
  let ?w = "windows @ [window_of ts ?k (drop n rows) (take n rows)]"
  let ?i = "AList.update wid (length windows, 0) indices"
  have "replay_segments ts read ((wid, 0, path 0) # segs_from wid path (Suc 0) gs' @ later) windows indices
      = replay_segments ts read (segs_from wid path (Suc 0) gs' @ later) ?w ?i"
    by (subst replay_step [OF ok, where index = "length windows" and fresh = True
          and windows' = "windows @ [new_window wid 0]" and k = ?k and d = "[]" and ini = "[]"])
      (simp_all add: assms(1) new_window_of [where ts = ts])
  moreover have "\<exists>indices'. replay_segments ts read (segs_from wid path (Suc 0) gs' @ later) ?w ?i
      = replay_segments ts read later (?w[length windows := window_of ts ?k (drop n rows @ observed gs') (take n rows)]) indices'
    \<and> (\<forall>k. k \<noteq> wid \<longrightarrow> map_of indices' k = map_of ?i k)"
  proof (rule replay_rest_of_window)
    show "read_ok read (path (Suc 0 + i)) (gs' ! i)" if "i < length gs'" for i
      using assms(4) [of "Suc i"] gs that by simp
  qed (use assms(3) gs in \<open>simp_all add: update_conv'\<close>)
  ultimately show ?thesis by (simp add: gs g whole_window_def observed_def update_conv')
qed

lemma replay_all_windows:
  assumes "distinct (map fst wins)" "\<And>x. x \<in> set wins \<Longrightarrow> map_of indices (fst x) = None"
    "\<And>x. x \<in> set wins \<Longrightarrow> snd x \<noteq> [] \<and> length (snd x) \<le> u64_max
      \<and> (\<forall>i < length (snd x). read_ok read (path (fst x) i) (snd x ! i))"
  shows "replay_segments ts read (concat (map (\<lambda>x. segs_from (fst x) (path (fst x)) 0 (snd x)) wins)) windows indices
    = Inr (windows @ map (whole_window ts) wins)"
  using assms
proof (induction wins arbitrary: windows indices)
  case Nil
  then show ?case by simp
next
  case (Cons x wins)
  let ?later = "concat (map (\<lambda>x. segs_from (fst x) (path (fst x)) 0 (snd x)) wins)"
  have "\<exists>indices'. replay_segments ts read (segs_from (fst x) (path (fst x)) 0 (snd x) @ ?later) windows indices
      = replay_segments ts read ?later (windows @ [whole_window ts (fst x, snd x)]) indices'
    \<and> (\<forall>k. k \<noteq> fst x \<longrightarrow> map_of indices' k = map_of indices k)"
    by (rule replay_whole_window) (use Cons.prems(2,3) [of x] in auto)
  then obtain indices' where i: "replay_segments ts read (segs_from (fst x) (path (fst x)) 0 (snd x) @ ?later) windows indices
      = replay_segments ts read ?later (windows @ [whole_window ts x]) indices'"
    "\<And>k. k \<noteq> fst x \<Longrightarrow> map_of indices' k = map_of indices k" by auto
  have "replay_segments ts read ?later (windows @ [whole_window ts x]) indices'
      = Inr ((windows @ [whole_window ts x]) @ map (whole_window ts) wins)"
  proof (rule Cons.IH)
    show "map_of indices' (fst y) = None" if "y \<in> set wins" for y
    proof -
      have "fst y \<in> fst ` set wins" using that by simp
      moreover have "fst x \<notin> fst ` set wins" using Cons.prems(1) by simp
      ultimately have "fst y \<noteq> fst x" by metis
      with i(2) Cons.prems(2) [of y] that show ?thesis by simp
    qed
  qed (use Cons.prems in auto)
  with i(1) show ?case by simp
qed

subsection \<open>The order of discovery does not matter\<close>

definition segment_key :: "string \<times> nat \<times> string \<Rightarrow> string \<times> nat" where
  "segment_key = (\<lambda>(wid, ordinal, path). (wid, ordinal))"

definition all_segs :: "(string \<Rightarrow> nat \<Rightarrow> string) \<Rightarrow> (string \<times> 'g list) list \<Rightarrow> (string \<times> nat \<times> string) list" where
  "all_segs path wins = concat (map (\<lambda>x. segs_from (fst x) (path (fst x)) 0 (snd x)) wins)"

lemma segs_from_keys:
  "map segment_key (segs_from wid path a gs) = map (\<lambda>i. (wid, i)) [a..<a + length gs]"
  by (induction gs arbitrary: a) (auto simp: segment_key_def upt_conv_Cons simp del: upt_Suc)

lemma sorted_same_window: "sorted (map (\<lambda>i. (wid :: string, i :: nat)) [a..<b])"
  by (simp add: sorted_wrt_map less_eq_prod_def)

lemma all_segs_keys: "map segment_key (all_segs path wins)
    = concat (map (\<lambda>x. map (\<lambda>i. (fst x, i)) [0..<length (snd x)]) wins)"
  by (induction wins) (auto simp: all_segs_def segs_from_keys)

lemma sorted_windows:
  assumes "sorted (map fst wins)" "distinct (map fst wins)"
  shows "sorted (map segment_key (all_segs path wins)) \<and> distinct (map segment_key (all_segs path wins))"
  unfolding all_segs_keys
  using assms
proof (induction wins)
  case Nil
  then show ?case by simp
next
  case (Cons x wins)
  let ?ks = "concat (map (\<lambda>x. map (\<lambda>i. (fst x, i)) [0..<length (snd x)]) wins)"
  have "fst x < fst y" if "y \<in> set wins" for y
  proof -
    have "fst y \<in> fst ` set wins" using that by simp
    moreover have "fst x \<notin> fst ` set wins" using Cons.prems(2) by simp
    ultimately have "fst x \<noteq> fst y" by metis
    moreover have "fst x \<le> fst y" using Cons.prems(1) that by auto
    ultimately show ?thesis by simp
  qed
  then have less: "fst x < fst k" if "k \<in> set ?ks" for k using that by auto
  have "sorted ?ks" "distinct ?ks" using Cons by auto
  moreover have "distinct (map (\<lambda>i. (fst x, i)) [0..<length (snd x)])" by (simp add: distinct_map inj_on_def)
  moreover have "set (map (\<lambda>i. (fst x, i)) [0..<length (snd x)]) \<inter> set ?ks = {}"
    using less by fastforce
  moreover have "a \<le> k" if "a \<in> set (map (\<lambda>i. (fst x, i)) [0..<length (snd x)])" "k \<in> set ?ks" for a k
    using less [OF that(2)] that(1) by (auto simp: less_eq_prod_def)
  ultimately show ?case
    using sorted_same_window [of "fst x" 0 "length (snd x)"]
    by (simp only: list.map concat.simps distinct_append sorted_append) blast
qed

lemma all_segs_mset: "mset xs = mset ys \<Longrightarrow> mset (all_segs path xs) = mset (all_segs path ys)"
proof -
  have sum: "mset (all_segs path xs) = \<Sum>\<^sub># (image_mset (\<lambda>x. mset (segs_from (fst x) (path (fst x)) 0 (snd x))) (mset xs))" for xs
    by (induction xs) (auto simp: all_segs_def)
  assume "mset xs = mset ys"
  then show "mset (all_segs path xs) = mset (all_segs path ys)" unfolding sum by simp
qed

lemma read_replay_windows_aux:
  assumes "distinct (map fst wins)"
    and "\<And>x. x \<in> set wins \<Longrightarrow> snd x \<noteq> [] \<and> length (snd x) \<le> u64_max
      \<and> (\<forall>i < length (snd x). read_ok read (path (fst x) i) (snd x ! i))"
    and "list_segments read paths = Inr segs" and "mset segs = mset (all_segs path wins)"
  shows "read_replay_windows ts read (Inr paths)
    = Inr (sort_key rw_start (filter (\<lambda>w. rw_data w \<noteq> []) (map (whole_window ts) (sort_key fst wins))))"
proof -
  let ?wins = "sort_key fst wins"
  have set: "set ?wins = set wins" "mset ?wins = mset wins" by simp_all
  have distinct: "distinct (map fst ?wins)"
    using assms(1) by (metis distinct_map mset_eq_imp_distinct_iff mset_map set(2))
  have sorted: "sorted (map fst ?wins)" by simp
  note keys = sorted_windows [OF this distinct, of path]
  have "mset segs = mset (all_segs path ?wins)" using assms(4) all_segs_mset [OF set(2)] by metis
  moreover from this have "inj_on segment_key (set segs)"
    using keys by (metis distinct_map mset_eq_setD)
  ultimately have "sort_key segment_key segs = all_segs path ?wins"
    using keys by (intro sort_key_inj_key_eq) auto
  moreover have "replay_segments ts read (all_segs path ?wins) [] [] = Inr ([] @ map (whole_window ts) ?wins)"
    unfolding all_segs_def by (rule replay_all_windows) (use distinct assms(2) set(1) in auto)
  ultimately show ?thesis
    using assms(3) by (simp add: read_replay_windows_def segment_key_def)
qed

text \<open>C16: Reading back complete windows returns exactly these windows, whatever the order in which the
  catalogue lists the files: the observed rows of each in the order of the ordinals, the
  initialization prefix once and apart, sorted by their first time, empty ones left out.\<close>
theorem read_replay_windows_exact:
  assumes "distinct (map fst wins)"
    and "\<And>x. x \<in> set wins \<Longrightarrow> snd x \<noteq> [] \<and> length (snd x) \<le> u64_max
      \<and> (\<forall>i < length (snd x). read_ok read (path (fst x) i) (snd x ! i))"
    and "list_segments read paths = Inr segs" and "mset segs = mset (all_segs path wins)"
  shows "read_replay_windows ts read (Inr paths)
    = Inr (sort_key rw_start (filter (\<lambda>w. rw_data w \<noteq> []) (map (whole_window ts) (sort_key fst wins))))"
  using assms by (rule read_replay_windows_aux)

text \<open>Two files of one window, discovered in the wrong order.\<close>

definition sample_file :: "nat \<Rightarrow> nat list \<Rightarrow> nat replay_file" where
  "sample_file ordinal rows = \<lparr>rf_metadata = [(window_id_key, ''w''), (segment_index_key, show_nat ordinal),
     (contract_key, contract_version), (initialization_rows_key, show_nat 0)], rf_batches = [Inr rows]\<rparr>"

definition sample_read :: "string \<Rightarrow> nat replay_file result" where
  "sample_read path = (if path = ''a'' then Inr (sample_file 0 [3, 5]) else Inr (sample_file 1 [7]))"

lemma sample_file_facts:
  "n \<le> u64_max \<Longrightarrow> replay_segment_of (sample_file n rows) = Inr (''w'', n)"
  "file_initialization (sample_file n rows) = Inr 0" "file_rows (sample_file n rows) = rows"
  "rf_batches (sample_file n rows) = [Inr rows]"
  by (simp_all add: sample_file_def replay_segment_of_def file_initialization_def file_rows_def parse_show_u64
      window_id_key_def segment_index_key_def contract_key_def initialization_rows_key_def)

theorem read_replay_windows_exact_witness:
  "\<exists>out. read_replay_windows (\<lambda>d. d) sample_read (Inr [''b'', ''a'']) = Inr out \<and> map rw_data out = [[3, 5, 7]]"
proof -
  let ?wins = "[(''w'', [(0, [3, 5]), (0, [7 :: nat])])]"
  let ?path = "\<lambda>(w :: string) i. if i = 0 then ''a'' else ''b''"
  have max: "0 \<le> u64_max" "1 \<le> u64_max" "2 \<le> u64_max" by (simp_all add: u64_max_def)
  have ok: "snd x \<noteq> [] \<and> length (snd x) \<le> u64_max
      \<and> (\<forall>i < length (snd x). read_ok sample_read (?path (fst x) i) (snd x ! i))" if "x \<in> set ?wins" for x
    using that max by (auto simp: read_ok_def sample_read_def sample_file_facts less_Suc_eq numeral_2_eq_2)
  have segs: "list_segments sample_read [''b'', ''a''] = Inr [(''w'', 1, ''b''), (''w'', 0, ''a'')]"
    using max by (simp add: sample_read_def sample_file_facts)
  have all: "mset [(''w'', 1, ''b''), (''w'', 0, ''a'')] = mset (all_segs ?path ?wins)"
    by (simp add: all_segs_def)
  have "read_replay_windows (\<lambda>d. d) sample_read (Inr [''b'', ''a''])
      = Inr (sort_key rw_start (filter (\<lambda>w. rw_data w \<noteq> []) (map (whole_window (\<lambda>d. d)) (sort_key fst ?wins))))"
    by (rule read_replay_windows_exact [where path = ?path, OF _ ok segs all]) simp_all
  then show ?thesis by (simp add: whole_window_def window_of_def observed_def)
qed

subsection \<open>A book replay\<close>

text \<open>A book that is the number of frames applied; a message ends at flag 128, a snapshot has flag 32 or more.\<close>

definition sample_api :: "nat book_api" where
  "sample_api = \<lparr>ba_last = (\<lambda>n. 128 \<le> n), ba_snapshot = (\<lambda>n. odd (n div 32)),
     ba_frame = (\<lambda>i ds. \<lparr>bf_instrument = i, bf_deltas = ds, bf_flags = bd_flags (last ds),
       bf_sequence = bd_sequence (last ds), bf_ts_event = bd_ts_event (last ds), bf_ts_init = bd_ts_init (last ds)\<rparr>),
     ba_book = (\<lambda>_. 0), ba_apply = (\<lambda>_ n. Inr (Suc n)), ba_ts_last = (\<lambda>n. n),
     ba_to_deltas = (\<lambda>n t s. \<lparr>bf_instrument = ''BTC'', bf_deltas = [], bf_flags = 160, bf_sequence = 0,
       bf_ts_event = t, bf_ts_init = s\<rparr>)\<rparr>"

definition sample_delta :: "nat \<Rightarrow> nat \<Rightarrow> book_delta" where
  "sample_delta flags t = \<lparr>bd_instrument = ''BTC'', bd_flags = flags, bd_sequence = t, bd_ts_event = t,
     bd_ts_init = t, bd_order = []\<rparr>"

definition sample_book_file :: "book_delta replay_file" where
  "sample_book_file = \<lparr>rf_metadata = [(window_id_key, ''w''), (segment_index_key, show_nat 0),
     (contract_key, contract_version)], rf_batches = [Inr [sample_delta 160 1, sample_delta 128 2, sample_delta 128 4]]\<rparr>"

lemma sample_book_windows:
  "read_replay_windows bd_ts_init (\<lambda>_. Inr sample_book_file) (Inr [''a''])
    = Inr [\<lparr>rw_id = ''w:'' @ show_nat 0, rw_start = 1, rw_end = 4,
        rw_data = [sample_delta 160 1, sample_delta 128 2, sample_delta 128 4], rw_initialization = []\<rparr>]"
  by (simp add: read_replay_windows_def replay_segment_of_def sample_book_file_def parse_show_u64 new_window_def
      replay_item_def sample_delta_def window_id_key_def segment_index_key_def contract_key_def initialization_rows_key_def)

lemma sample_range_windows:
  "\<exists>w. read_book_replay_windows_in_range sample_api (\<lambda>_. Inr sample_book_file) (Inr [''a'']) ''BTC'' 3 5 = Inr [w]
    \<and> map bf_ts_init (rw_data w) = [3, 4]"
  by (simp add: read_book_replay_windows_in_range_def read_book_windows_def sample_book_windows book_window_def
      group_book_deltas_def sample_delta_def sample_api_def insert_baseline_def cut_to_range_def initialize_book_at_def
      after_last_def rposition_def frame_has_snapshot_def)

theorem replay_range_sound_witness:
  "\<exists>w f. read_book_replay_windows_in_range sample_api (\<lambda>_. Inr sample_book_file) (Inr [''a'']) ''BTC'' 3 5 = Inr [w]
    \<and> f \<in> set (rw_data w) \<and> 3 \<le> bf_ts_init f \<and> bf_ts_init f \<le> 5"
proof -
  from sample_range_windows obtain w
    where w: "read_book_replay_windows_in_range sample_api (\<lambda>_. Inr sample_book_file) (Inr [''a'']) ''BTC'' 3 5 = Inr [w]"
      and ts: "map bf_ts_init (rw_data w) = [3, 4]"
    by (elim exE conjE)
  from ts obtain f where f: "f \<in> set (rw_data w)" by (cases "rw_data w") auto
  have "bf_ts_init (ba_to_deltas sample_api b t s) = s" for b t s by (simp add: sample_api_def)
  from replay_range_sound [OF this w, of w] w f show ?thesis by auto
qed

theorem replay_keeps_source_witness:
  "\<exists>w (w0 :: book_delta replay_window) src. read_book_windows sample_api (\<lambda>_. Inr sample_book_file) (Inr [''a'']) ''BTC'' (Some (3, 5)) = Inr [w]
    \<and> group_book_deltas sample_api ''BTC'' (rw_data w0) = Inr src \<and> source_run src (rw_data w)"
proof -
  obtain w where w: "read_book_windows sample_api (\<lambda>_. Inr sample_book_file) (Inr [''a'']) ''BTC'' (Some (3, 5)) = Inr [w]"
    using sample_range_windows by (auto simp: read_book_replay_windows_in_range_def)
  from replay_keeps_source [OF w, of w] w show ?thesis by auto
qed

end
