(* ===== verification/Roundtrip.thy ===== *)
theory Roundtrip
  imports Segment_Files Replay_Windows
begin

section \<open>From capture to replay\<close>

text \<open>
  What the segment sink publishes, read back by the replay reader: the windows of a partition
  are consecutive runs of the rows written for it, and together they are all of these rows.
\<close>

subsection \<open>The windows of a partition are consecutive\<close>

definition key_windows :: "string \<Rightarrow> window_view \<Rightarrow> string option list" where
  "key_windows k v = map (\<lambda>x. fst (snd x)) (filter (\<lambda>x. fst x = k) (wv_files v))"

definition current_ok :: "string option list \<Rightarrow> string \<Rightarrow> bool" where
  "current_ok ws w = (Some w \<in> set ws \<longrightarrow> last ws = Some w)"

definition runs_inv :: "(nat \<Rightarrow> string) \<Rightarrow> string \<Rightarrow> window_view \<Rightarrow> bool" where
  "runs_inv uuid k v = (distinct (remdups_adj (key_windows k v))
     \<and> (\<forall>w. Some w \<in> set (key_windows k v) \<longrightarrow> w \<in> issued uuid v)
     \<and> (\<forall>w i. wv_ids v k = Some (w, i) \<longrightarrow> current_ok (key_windows k v) w)
     \<and> (\<forall>w x. wv_open v k = Some (Some w, x) \<longrightarrow> current_ok (key_windows k v) w))"

lemma remdups_adj_snoc_distinct:
  "distinct (remdups_adj xs) \<Longrightarrow> (x \<in> set xs \<longrightarrow> last xs = x) \<Longrightarrow> distinct (remdups_adj (xs @ [x]))"
proof (cases "xs = []")
  case False
  assume d: "distinct (remdups_adj xs)" and l: "x \<in> set xs \<longrightarrow> last xs = x"
  from False obtain ys y where xs: "xs = ys @ [y]" by (metis rev_exhaust)
  show ?thesis
  proof (cases "y = x")
    case True
    then show ?thesis using d remdups_adj_append_two [of ys y x] by (simp add: xs)
  next
    case False
    then have "x \<notin> set xs" using l by (auto simp: xs)
    moreover have "remdups_adj (xs @ [x]) = remdups_adj xs @ [x]"
      using False remdups_adj_append_two [of ys y x] by (simp add: xs)
    ultimately show ?thesis using d by simp
  qed
qed simp

lemma runs_inv_step:
  assumes inj: "inj uuid" and step: "window_step uuid v v'" and inv: "window_inv uuid v" and runs: "runs_inv uuid k v"
  shows "runs_inv uuid k v'"
  using step
proof cases
  case (wait c)
  then show ?thesis using runs issued_mono [of v v' uuid] by (auto simp: runs_inv_def key_windows_def)
next
  case (forget A)
  then show ?thesis using runs by (auto simp: runs_inv_def key_windows_def issued_def)
next
  case (drop_part k')
  then show ?thesis using runs by (auto simp: runs_inv_def key_windows_def issued_def)
next
  case (enter k')
  have "uuid (wv_clock v) \<notin> issued uuid v" using inj by (auto simp: issued_def dest: injD)
  then have "current_ok (key_windows k v) (uuid (wv_clock v))" using runs by (auto simp: runs_inv_def current_ok_def)
  moreover have "issued uuid v \<subseteq> issued uuid v'" using enter by (intro issued_mono) simp
  ultimately show ?thesis using runs enter by (auto simp: runs_inv_def key_windows_def)
next
  case (open_part k' w i)
  then show ?thesis using runs by (auto simp: runs_inv_def key_windows_def issued_def tag_def)
next
  case (publish k' t)
  from inv obtain owner where own: "open_inv uuid owner v" by (auto simp: window_inv_def)
  obtain w where t: "t = tag w (capped (length (window_files v w)))" and w: "fst t = Some w" "w \<in> issued uuid v"
    "\<And>w' i'. wv_ids v k' = Some (w', i') \<Longrightarrow> w' = w"
    by (rule open_invE [OF own publish(2)], rule that, assumption, simp_all add: tag_def)
  show ?thesis
  proof (cases "k' = k")
    case False
    then show ?thesis using runs publish by (auto simp: runs_inv_def key_windows_def issued_def)
  next
    case True
    have kw: "key_windows k v' = key_windows k v @ [Some w]" using publish True w by (simp add: key_windows_def)
    have "Some w \<in> set (key_windows k v) \<longrightarrow> last (key_windows k v) = Some w"
      using runs publish(2) True w(1) by (cases t) (auto simp: runs_inv_def current_ok_def)
    then have "distinct (remdups_adj (key_windows k v'))"
      using runs remdups_adj_snoc_distinct [of "key_windows k v" "Some w"] by (simp add: kw runs_inv_def)
    moreover have iss: "issued uuid v' = issued uuid v" using publish by (intro issued_cong) simp
    moreover have "\<forall>w'. Some w' \<in> set (key_windows k v') \<longrightarrow> w' \<in> issued uuid v'"
      using runs w(2) unfolding kw iss runs_inv_def by auto
    moreover have ids: "wv_ids v' k = bump (wv_ids v k)" using publish True by simp
    then have "\<forall>w' i. wv_ids v' k = Some (w', i) \<longrightarrow> current_ok (key_windows k v') w'"
      using w(3) True unfolding kw ids by (auto simp: current_ok_def bump_def)
    moreover have "wv_open v' k = None" using publish True by simp
    ultimately show ?thesis by (simp add: runs_inv_def)
  qed
qed

lemma runs_inv_steps:
  assumes "window_steps uuid v v'" "inj uuid" "window_inv uuid v" "runs_inv uuid k v"
  shows "runs_inv uuid k v'"
  using assms(1)
proof (induction rule: rtranclp_induct)
  case (step y z)
  show ?case by (rule runs_inv_step [OF assms(2) step(2) window_inv_steps [OF step(1) assms(2,3)] step(3)])
qed (rule assms(4))

lemma group_runs:
  "distinct (remdups_adj (map g xs)) \<Longrightarrow>
   concat (map (\<lambda>w. filter (\<lambda>x. g x = w) xs) (remdups_adj (map g xs))) = xs"
proof (induction xs)
  case Nil
  then show ?case by simp
next
  case (Cons x xs)
  show ?case
  proof (cases xs)
    case Nil
    then show ?thesis by simp
  next
    case (Cons y ys)
    let ?ws = "remdups_adj (map g xs)"
    obtain zs where zs: "?ws = g y # zs" by (metis Cons list.map(2) remdups_adj_Cons_alt)
    have d: "distinct ?ws"
      using Cons.prems Cons by (auto simp: Cons split: if_splits)
    note IH = Cons.IH [OF d]
    show ?thesis
    proof (cases "g x = g y")
      case True
      then have "remdups_adj (map g (x # xs)) = ?ws" by (simp add: Cons)
      moreover have "g y \<notin> set zs" using d zs by simp
      then have "concat (map (\<lambda>w. filter (\<lambda>z. g z = w) (x # xs)) zs) = concat (map (\<lambda>w. filter (\<lambda>z. g z = w) xs) zs)"
        using True by (intro arg_cong [of _ _ concat] map_cong) auto
      ultimately show ?thesis using IH zs True by simp
    next
      case False
      then have ws: "remdups_adj (map g (x # xs)) = g x # ?ws" by (simp add: Cons)
      then have nin: "g x \<notin> set ?ws" using Cons.prems by simp
      then have "concat (map (\<lambda>w. filter (\<lambda>z. g z = w) (x # xs)) ?ws) = concat (map (\<lambda>w. filter (\<lambda>z. g z = w) xs) ?ws)"
        by (intro arg_cong [of _ _ concat] map_cong) auto
      moreover have "\<forall>z \<in> set xs. g z \<noteq> g x" using nin by (metis image_eqI remdups_adj_set set_map)
      then have "filter (\<lambda>z. g z = g x) xs = []" by (simp add: filter_empty_conv)
      ultimately show ?thesis using IH ws by simp
    qed
  qed
qed

subsection \<open>The files of a partition\<close>

definition key_files :: "string \<Rightarrow> 't segment_sink \<Rightarrow> (string \<times> 't sealed_file) list" where
  "key_files k s = filter (\<lambda>x. fst x = k) (ss_published s)"

definition windows_of :: "(string \<times> 't sealed_file) list \<Rightarrow> string option list" where
  "windows_of files = remdups_adj (map (\<lambda>x. file_window (snd x)) files)"

definition window_part :: "(string \<times> 't sealed_file) list \<Rightarrow> string option \<Rightarrow> (string \<times> 't sealed_file) list" where
  "window_part files w = filter (\<lambda>x. file_window (snd x) = w) files"

lemma published_rows_key_files: "published_rows (ss_published s) k = concat (map (sf_rows \<circ> snd) (key_files k s))"
  by (simp add: published_rows_def key_files_def)

lemma run_runs_inv:
  assumes "inj (pe_uuid (se_part env))" "segment_fresh s0"
  shows "distinct (windows_of (key_files k (run_calls env cs s0)))"
proof -
  have "runs_inv (pe_uuid (se_part env)) k (segment_view s0)"
    using assms(2) by (simp add: segment_fresh_def runs_inv_def key_windows_def segment_view_def)
  from runs_inv_steps [OF run_calls_steps assms(1) fresh_window_inv [OF assms(2)] this, of cs]
  have "distinct (remdups_adj (key_windows k (segment_view (run_calls env cs s0))))" by (simp add: runs_inv_def)
  moreover have "key_windows k (segment_view s) = map (\<lambda>x. file_window (snd x)) (key_files k s)" for s :: "'a segment_sink"
    by (simp add: key_windows_def segment_view_def key_files_def filter_map comp_def split_beta
        schema_tag_def file_window_def)
  ultimately show ?thesis by (simp add: windows_of_def)
qed

lemma window_part_all:
  assumes "distinct (windows_of files)"
  shows "concat (map (window_part files) (windows_of files)) = files"
  using group_runs [of "\<lambda>x. file_window (snd x)" files] assms
  by (simp add: windows_of_def window_part_def [abs_def])

text \<open>What reading a published file back gives: its schema metadata and its rows, in one batch.\<close>

definition reads_back :: "(string \<Rightarrow> 't replay_file result) \<Rightarrow> (string \<times> 't sealed_file) list \<Rightarrow> bool" where
  "reads_back read files = list_all (\<lambda>x. read (sf_path (snd x)) =
     Inr \<lparr>rf_metadata = sch_metadata (sf_schema (snd x)), rf_batches = [Inr (sf_rows (snd x))]\<rparr>) files"

text \<open>A complete window: ordinals from 0, certified files, one window.\<close>

definition complete_part :: "string \<Rightarrow> (string \<times> 't sealed_file) list \<Rightarrow> bool" where
  "complete_part w files = (map (\<lambda>x. file_ordinal (snd x)) files = map (\<lambda>i. Some (show_nat i)) [0..<length files]
     \<and> list_all (\<lambda>x. certified (sf_schema (snd x)) \<and> file_window (snd x) = Some w) files
     \<and> length files \<le> u64_max)"

lemma list_segments_map:
  assumes "\<And>x. x \<in> set files \<Longrightarrow> \<exists>f. read (path x) = Inr f \<and> replay_segment_of f = Inr (wid x, ord x)"
  shows "list_segments read (map path files) = Inr (map (\<lambda>x. (wid x, ord x, path x)) files)"
  using assms
proof (induction files)
  case (Cons x files)
  then obtain f where "read (path x) = Inr f" "replay_segment_of f = Inr (wid x, ord x)" by fastforce
  moreover have "list_segments read (map path files) = Inr (map (\<lambda>x. (wid x, ord x, path x)) files)"
    using Cons by simp
  ultimately show ?case by simp
qed simp

lemma segment_of_certified:
  assumes "certified sch" "map_of (sch_metadata sch) window_id_key = Some w"
    "map_of (sch_metadata sch) segment_index_key = Some (show_nat i)" "i \<le> u64_max"
  shows "replay_segment_of \<lparr>rf_metadata = sch_metadata sch, rf_batches = bs\<rparr> = Inr (w, i)"
  using assms by (simp add: replay_segment_of_def certified_def parse_show_u64)

definition parsed_ordinal :: "'t sealed_file \<Rightarrow> nat" where
  "parsed_ordinal f = (case parse_u64 (the (file_ordinal f)) of Inr n \<Rightarrow> n | Inl _ \<Rightarrow> 0)"

lemma complete_partD:
  assumes "complete_part w files" "i < length files"
  shows "file_ordinal (snd (files ! i)) = Some (show_nat i)" "i \<le> u64_max" "parsed_ordinal (snd (files ! i)) = i"
    "certified (sf_schema (snd (files ! i)))" "file_window (snd (files ! i)) = Some w"
proof -
  have "map (\<lambda>x. file_ordinal (snd x)) files ! i = map (\<lambda>i. Some (show_nat i)) [0..<length files] ! i"
    using assms(1) by (simp add: complete_part_def)
  then show o: "file_ordinal (snd (files ! i)) = Some (show_nat i)" using assms(2) by simp
  show "i \<le> u64_max" using assms by (simp add: complete_part_def)
  with o show "parsed_ordinal (snd (files ! i)) = i" by (simp add: parsed_ordinal_def parse_show_u64)
  show "certified (sf_schema (snd (files ! i)))" "file_window (snd (files ! i)) = Some w"
    using assms by (auto simp: complete_part_def list_all_length)
qed

lemma complete_part_segs:
  assumes "complete_part w files"
  shows "map (\<lambda>x. (the (file_window (snd x)), parsed_ordinal (snd x), sf_path (snd x))) files
    = segs_from w (\<lambda>i. sf_path (snd (files ! i))) 0 (map (\<lambda>x. (0 :: nat, sf_rows (snd x))) files)"
proof -
  have segs: "segs_from w path a gs = map (\<lambda>i. (w, i, path i)) [a..<a + length gs]" for path a and gs :: "'g list"
    by (induction gs arbitrary: a) (auto simp: upt_conv_Cons simp del: upt_Suc)
  have "map (\<lambda>x. (the (file_window (snd x)), parsed_ordinal (snd x), sf_path (snd x))) files
      = map (\<lambda>i. (w, i, sf_path (snd (files ! i)))) [0..<length files]"
    using complete_partD [OF assms] by (intro nth_equalityI) auto
  then show ?thesis by (simp add: segs)
qed

lemma certified_read_ok:
  assumes "certified sch" "read path = Inr \<lparr>rf_metadata = sch_metadata sch, rf_batches = [Inr rows]\<rparr>"
  shows "read_ok read path (0, rows)"
  using assms by (simp add: read_ok_def file_initialization_def certified_def parse_show_u64 file_rows_def)

lemma observed_zero: "observed (map (\<lambda>x. (0, f x)) xs) = concat (map f xs)"
  by (induction xs) (simp_all add: observed_def)

lemma map_concat_map: "map f (concat (map g xs)) = concat (map (\<lambda>x. map f (g x)) xs)"
  by (induction xs) simp_all

lemma concat_concat_map: "concat (map (\<lambda>x. concat (f x)) xs) = concat (concat (map f xs))"
  by (induction xs) simp_all

fun is_initialization :: "'t segment_call \<Rightarrow> bool" where
  "is_initialization (WriteInitialization k b) = True"
| "is_initialization _ = False"

lemma call_initialization_0: "\<not> is_initialization c \<Longrightarrow> call_initialization c = 0"
  by (cases c) simp_all

text \<open>Reading complete windows back, in any order of discovery.\<close>

lemma read_complete_windows:
  assumes "distinct ws" and "\<And>w. w \<in> set ws \<Longrightarrow> complete_part w (part w) \<and> part w \<noteq> []"
    and "reads_back read (concat (map part ws))"
    and "mset listing = mset (concat (map part ws))"
  shows "\<exists>out. read_replay_windows ts read (Inr (map (\<lambda>x. sf_path (snd x)) listing)) = Inr out
    \<and> mset (map rw_data out) = mset (filter (\<lambda>rows. rows \<noteq> []) (map (\<lambda>w. concat (map (\<lambda>x. sf_rows (snd x)) (part w))) ws))"
proof -
  define wins where "wins = map (\<lambda>w. (w, map (\<lambda>x. (0 :: nat, sf_rows (snd x))) (part w))) ws"
  define path where "path w i = sf_path (snd (part w ! i))" for w i
  let ?seg = "\<lambda>x. (the (file_window (snd x)), parsed_ordinal (snd x), sf_path (snd x))"
  have backf: "read (sf_path (snd x)) = Inr \<lparr>rf_metadata = sch_metadata (sf_schema (snd x)), rf_batches = [Inr (sf_rows (snd x))]\<rparr>"
    if "x \<in> set (part w)" "w \<in> set ws" for x w
    using assms(3) that by (auto simp: reads_back_def list_all_iff)
  have listed: "x \<in> set listing \<Longrightarrow> \<exists>w \<in> set ws. x \<in> set (part w)" for x
    using assms(4) [THEN mset_eq_setD] by auto
  have listed_segs: "list_segments read (map (\<lambda>x. sf_path (snd x)) listing) = Inr (map ?seg listing)"
  proof (rule list_segments_map)
    fix x
    assume "x \<in> set listing"
    with listed obtain w where w: "w \<in> set ws" "x \<in> set (part w)" by blast
    then obtain i where i: "i < length (part w)" "x = part w ! i" by (metis in_set_conv_nth)
    note c = complete_partD [OF conjunct1 [OF assms(2) [OF w(1)]] i(1), folded i(2)]
    have "replay_segment_of \<lparr>rf_metadata = sch_metadata (sf_schema (snd x)), rf_batches = [Inr (sf_rows (snd x))]\<rparr> = Inr (w, i)"
      by (rule segment_of_certified [OF c(4) _ _ c(2)]) (use c in \<open>simp_all add: file_window_def file_ordinal_def\<close>)
    then show "\<exists>f. read (sf_path (snd x)) = Inr f \<and> replay_segment_of f = Inr (the (file_window (snd x)), parsed_ordinal (snd x))"
      using backf [OF w(2,1)] c(3,5) by simp
  qed
  have all_listed: "mset (map ?seg listing) = mset (all_segs path wins)"
  proof -
    have "map ?seg (concat (map part ws)) = concat (map (\<lambda>w. map ?seg (part w)) ws)" by (rule map_concat_map)
    also have "\<dots> = concat (map (\<lambda>w. segs_from w (path w) 0 (map (\<lambda>x. (0 :: nat, sf_rows (snd x))) (part w))) ws)"
      unfolding path_def [abs_def]
      by (rule arg_cong [of _ _ concat], rule map_cong [OF HOL.refl], rule complete_part_segs,
          rule conjunct1 [OF assms(2)])
    also have "\<dots> = all_segs path wins"
      by (simp only: all_segs_def wins_def list.map_comp comp_def fst_conv snd_conv)
    finally have eq: "map ?seg (concat (map part ws)) = all_segs path wins" .
    have "mset (map ?seg listing) = mset (map ?seg (concat (map part ws)))" by (simp only: mset_map assms(4))
    then show ?thesis unfolding eq .
  qed
  have names: "distinct (map fst wins)" using assms(1) by (simp add: wins_def comp_def)
  have readable: "snd x \<noteq> [] \<and> length (snd x) \<le> u64_max \<and> (\<forall>i < length (snd x). read_ok read (path (fst x) i) (snd x ! i))"
    if x: "x \<in> set wins" for x
  proof -
    obtain w where w: "w \<in> set ws" "x = (w, map (\<lambda>x. (0, sf_rows (snd x))) (part w))" using x by (auto simp: wins_def)
    have "read_ok read (path w i) (0, sf_rows (snd (part w ! i)))" if i: "i < length (part w)" for i
      unfolding path_def
      by (rule certified_read_ok [OF complete_partD(4) [OF conjunct1 [OF assms(2) [OF w(1)]] i]])
        (rule backf [OF nth_mem [OF i] w(1)])
    then show ?thesis using assms(2) [OF w(1)] by (simp add: w(2) complete_part_def)
  qed
  have read: "read_replay_windows ts read (Inr (map (\<lambda>x. sf_path (snd x)) listing))
      = Inr (sort_key rw_start (filter (\<lambda>w. rw_data w \<noteq> []) (map (whole_window ts) (sort_key fst wins))))"
    by (rule read_replay_windows_aux [OF names readable listed_segs all_listed])
  have data: "rw_data (whole_window ts x) = observed (snd x)" for x :: "string \<times> (nat \<times> 'a list) list"
    by (simp add: whole_window_def window_of_def)
  have "mset (map rw_data (sort_key rw_start (filter (\<lambda>w. rw_data w \<noteq> []) (map (whole_window ts) (sort_key fst wins)))))
      = mset (filter (\<lambda>rows. rows \<noteq> []) (map (\<lambda>x. observed (snd x)) wins))"
    by (simp add: filter_map comp_def data image_mset.compositionality)
  then show ?thesis using read by (simp add: wins_def comp_def observed_zero)
qed



end
