(* ===== verification/Chunked_Sink.thy ===== *)
theory Chunked_Sink
  imports Segment
begin

section \<open>The chunked catalogue sink and the sinks of the two modes\<close>

text \<open>
  \<open>NautilusCatalogSink\<close> and \<open>CatalogSink\<close> of \<open>crates/catalog-capture-core/src/sink.rs\<close>. The
  chunked sink writes every batch as a file of its own through Nautilus's \<open>ParquetDataCatalog\<close>,
  which is the parameter \<open>'c\<close> with the operations in \<open>chunk_env\<close> and \<open>custom_env\<close>. The catalogue
  refuses files whose intervals touch, so the sink keeps for each custom partition the end of
  the last interval and moves the next one behind it; the rows keep their timestamps. The mutex
  around that map is held by one call at a time and nothing panics under it.
\<close>

subsection \<open>State and environment\<close>

record 'c nautilus_sink =
  ns_catalog :: 'c
  ns_last_end :: "(string \<times> nat) list"

text \<open>\<open>write_to_parquet\<close> and \<open>write_instruments\<close> of the catalogue, and \<open>ts_init\<close> of a row.\<close>

record ('t, 'c) chunk_env =
  ch_ts :: "'t \<Rightarrow> nat"
  ch_write :: "'t list \<Rightarrow> nat option \<Rightarrow> nat option \<Rightarrow> bool option \<Rightarrow> 'c \<Rightarrow> string result \<times> 'c"

text \<open>The custom-data side: the row's type and identifier, and the catalogue's directory listing.\<close>

record ('d, 'c) custom_env =
  cu_ts :: "'d \<Rightarrow> nat"
  cu_type_name :: "'d \<Rightarrow> string"
  cu_identifier :: "'d \<Rightarrow> string option"
  cu_write :: "'d list \<Rightarrow> nat option \<Rightarrow> nat option \<Rightarrow> bool option \<Rightarrow> 'c \<Rightarrow> string result \<times> 'c"
  cu_make_path :: "string \<Rightarrow> string option \<Rightarrow> 'c \<Rightarrow> string result"
  cu_intervals :: "string \<Rightarrow> 'c \<Rightarrow> (nat \<times> nat) list result"

datatype parquet_compression = SNAPPY | ZSTD

text \<open>\<open>ParquetDataCatalog::new\<close>: path, storage options, batch size, compression, row-group size.\<close>

type_synonym 'c new_catalog =
  "string \<Rightarrow> unit option \<Rightarrow> nat option \<Rightarrow> parquet_compression option \<Rightarrow> nat option \<Rightarrow> 'c"

definition chunked_from_config :: "'c new_catalog \<Rightarrow> capture_config \<Rightarrow> 'c nautilus_sink result" where
  "chunked_from_config new_catalog c =
     (let compression = (case cc_compression c of Snappy \<Rightarrow> SNAPPY | Zstd \<Rightarrow> ZSTD);
          uri = (if starts_with ''file://'' (cc_catalog_uri c) then drop 7 (cc_catalog_uri c) else cc_catalog_uri c)
      in Inr \<lparr>ns_catalog = new_catalog uri None (Some (cc_flush_rows c)) (Some compression) (Some (cc_flush_rows c)),
           ns_last_end = []\<rparr>)"

subsection \<open>Market data\<close>

definition range_from_ts :: "('t \<Rightarrow> nat) \<Rightarrow> 't list \<Rightarrow> (nat \<times> nat) result" where
  "range_from_ts ts data =
     (case data of
        [] \<Rightarrow> Inl EmptyBatch
      | first # rest \<Rightarrow> Inr (ts first, ts (last data)))"

definition write_encoded_batch :: "('t, 'c) chunk_env \<Rightarrow> 't list \<Rightarrow> 'c nautilus_sink \<Rightarrow> string result \<times> 'c nautilus_sink" where
  "write_encoded_batch env data n =
     (case range_from_ts (ch_ts env) data of
        Inl e \<Rightarrow> (Inl e, n)
      | Inr (start, end) \<Rightarrow>
          (let (path, c) = ch_write env data (Some start) (Some end) (Some False) (ns_catalog n)
           in (path, n\<lparr>ns_catalog := c\<rparr>)))"

definition write_encoded_paths :: "('t, 'c) chunk_env \<Rightarrow> 't list \<Rightarrow> 'c nautilus_sink \<Rightarrow> string list result \<times> 'c nautilus_sink" where
  "write_encoded_paths env batch n =
     (let (path, n) = write_encoded_batch env batch n in (map_result (\<lambda>p. [p]) path, n))"

text \<open>Instruments; \<open>write\<close> is the catalogue's \<open>write_instruments\<close>.\<close>

definition write_instruments ::
  "('i list \<Rightarrow> 'c \<Rightarrow> string list result \<times> 'c) \<Rightarrow> 'i list \<Rightarrow> 'c nautilus_sink \<Rightarrow> string list result \<times> 'c nautilus_sink" where
  "write_instruments write data n = (let (paths, c) = write data (ns_catalog n) in (paths, n\<lparr>ns_catalog := c\<rparr>))"

subsection \<open>Custom data\<close>

definition disjoint_file_interval :: "nat option \<Rightarrow> nat \<Rightarrow> nat \<Rightarrow> nat \<times> nat" where
  "disjoint_file_interval last_end data_start data_end =
     (let start = data_start; end = max data_end data_start
      in case last_end of
           None \<Rightarrow> (start, end)
         | Some prev_end \<Rightarrow>
             (let start = (if start \<le> prev_end then sat_add prev_end 1 else start);
                  end = (if end < start then start else end)
              in (start, end)))"

definition custom_partition_key :: "('d, 'c) custom_env \<Rightarrow> 'd list \<Rightarrow> (string \<times> string \<times> string option) result" where
  "custom_partition_key env data =
     (case data of
        [] \<Rightarrow> Inl EmptyBatch
      | first # _ \<Rightarrow>
          (let type_name = cu_type_name env first;
               ident = cu_identifier env first;
               key = (case ident of Some i \<Rightarrow> type_name @ ''/'' @ i | None \<Rightarrow> type_name)
           in Inr (key, type_name, ident)))"

definition custom_data_ts_range :: "('d, 'c) custom_env \<Rightarrow> 'd list \<Rightarrow> (nat \<times> nat) result" where
  "custom_data_ts_range env data =
     (case map (cu_ts env) data of
        [] \<Rightarrow> Inl EmptyBatch
      | first # rest \<Rightarrow> Inr (foldl (\<lambda>(lo, hi) ts. (min lo ts, max hi ts)) (first, first) rest))"

definition list_max :: "nat list \<Rightarrow> nat option" where
  "list_max xs = (case xs of [] \<Rightarrow> None | y # ys \<Rightarrow> Some (foldl max y ys))"

lemma list_max_ge: "x \<in> set xs \<Longrightarrow> \<exists>m. list_max xs = Some m \<and> x \<le> m"
  by (cases xs) (use foldl_max in \<open>auto simp: list_max_def\<close>)

definition seed_custom_last_end :: "('d, 'c) custom_env \<Rightarrow> string \<Rightarrow> string option \<Rightarrow> 'c \<Rightarrow> nat option" where
  "seed_custom_last_end env type_name ident c =
     (case cu_make_path env type_name ident c of
        Inl _ \<Rightarrow> None
      | Inr directory \<Rightarrow>
          (case cu_intervals env directory c of
             Inl _ \<Rightarrow> None
           | Inr intervals \<Rightarrow> list_max (map snd intervals)))"

text \<open>The first block under the lock: the watermark of the key, from the catalogue when there is none yet.\<close>

definition seeded :: "('d, 'c) custom_env \<Rightarrow> string \<Rightarrow> string \<Rightarrow> string option \<Rightarrow> 'c nautilus_sink \<Rightarrow> 'c nautilus_sink" where
  "seeded env key type_name ident n =
     (if map_of (ns_last_end n) key = None
      then case seed_custom_last_end env type_name ident (ns_catalog n) of
          None \<Rightarrow> n
        | Some seed \<Rightarrow> n\<lparr>ns_last_end := AList.update key seed (ns_last_end n)\<rparr>
      else n)"

definition write_custom_data_batch :: "('d, 'c) custom_env \<Rightarrow> 'd list \<Rightarrow> 'c nautilus_sink \<Rightarrow> string result \<times> 'c nautilus_sink" where
  "write_custom_data_batch env data n =
     (if data = [] then (Inr [], n)
      else case custom_partition_key env data of
          Inl e \<Rightarrow> (Inl e, n)
        | Inr (key, type_name, ident) \<Rightarrow>
            (case custom_data_ts_range env data of
               Inl e \<Rightarrow> (Inl e, n)
             | Inr (data_start, data_end) \<Rightarrow>
                 (let n = seeded env key type_name ident n;
                      (start, end) = disjoint_file_interval (map_of (ns_last_end n) key) data_start data_end;
                      (path, c) = cu_write env data (Some start) (Some end) (Some False) (ns_catalog n);
                      n = n\<lparr>ns_catalog := c\<rparr>
                  in case path of
                       Inl e \<Rightarrow> (Inl e, n)
                     | Inr p \<Rightarrow> (Inr p, if p \<noteq> [] then n\<lparr>ns_last_end := AList.update key end (ns_last_end n)\<rparr> else n))))"

subsection \<open>The trait implementations\<close>

definition chunked_ops :: "('t, 'c) chunk_env \<Rightarrow> ('t, 'c nautilus_sink) sink_ops" where
  "chunked_ops env = default_sink_ops (\<lambda>_. write_encoded_paths env)"

definition chunked_instrument_ops ::
  "('i list \<Rightarrow> 'c \<Rightarrow> string list result \<times> 'c) \<Rightarrow> ('i, 'c nautilus_sink) sink_ops" where
  "chunked_instrument_ops write = default_sink_ops (\<lambda>_. write_instruments write)"

definition chunked_custom_write ::
  "('d, 'c) custom_env \<Rightarrow> string \<Rightarrow> 'd list \<Rightarrow> 'c nautilus_sink \<Rightarrow> string list result \<times> 'c nautilus_sink" where
  "chunked_custom_write env key batch n =
     (let (path, n) = write_custom_data_batch env batch n in (map_result (\<lambda>p. [p]) path, n))"

definition chunked_custom_ops :: "('d, 'c) custom_env \<Rightarrow> ('d, 'c nautilus_sink) sink_ops" where
  "chunked_custom_ops env = default_sink_ops (chunked_custom_write env)"

text \<open>\<open>CatalogSink\<close>: chunked or segment, chosen by the configured mode.\<close>

datatype ('t, 'c) catalog_sink = Chunked "'c nautilus_sink" | Segment "'t segment_sink"

definition catalog_from_config ::
  "'c new_catalog \<Rightarrow> part_env \<Rightarrow> (seal_config_file \<Rightarrow> 'x result) \<Rightarrow> capture_config \<Rightarrow> orphan list result \<Rightarrow>
   store \<Rightarrow> ('t, 'c) catalog_sink result" where
  "catalog_from_config new_catalog env resolve c found st =
     (if is_segment_mode (cc_lifecycle c) then map_result Segment (segment_from_config env resolve c found st)
      else map_result Chunked (chunked_from_config new_catalog c))"

fun catalog_write_batch ::
  "('t, 'c) chunk_env \<Rightarrow> 't segment_env \<Rightarrow> string \<Rightarrow> 't list \<Rightarrow> ('t, 'c) catalog_sink \<Rightarrow>
   string list result \<times> ('t, 'c) catalog_sink" where
  "catalog_write_batch cenv env key batch (Chunked n) =
     (let (path, n) = write_encoded_batch cenv batch n in (map_result (\<lambda>p. [p]) path, Chunked n))"
| "catalog_write_batch cenv env key batch (Segment s) =
     (let (r, s) = segment_write_batch env key batch s in (r, Segment s))"

text \<open>The operations the chunked mode answers with the empty result.\<close>

fun on_segment :: "('t segment_sink \<Rightarrow> flush_result result \<times> 't segment_sink) \<Rightarrow> ('t, 'c) catalog_sink \<Rightarrow>
    flush_result result \<times> ('t, 'c) catalog_sink" where
  "on_segment f (Chunked n) = (Inr empty_result, Chunked n)"
| "on_segment f (Segment s) = (let (r, s) = f s in (r, Segment s))"

fun catalog_active_writers :: "('t, 'c) catalog_sink \<Rightarrow> nat" where
  "catalog_active_writers (Chunked _) = 0"
| "catalog_active_writers (Segment s) = segment_active_writers s"

fun catalog_is_segment_mode :: "('t, 'c) catalog_sink \<Rightarrow> bool" where
  "catalog_is_segment_mode (Chunked _) = False"
| "catalog_is_segment_mode (Segment _) = True"

definition catalog_ops :: "('t, 'c) chunk_env \<Rightarrow> 't segment_env \<Rightarrow> ('t, ('t, 'c) catalog_sink) sink_ops" where
  "catalog_ops cenv env = \<lparr>
     so_write_batch = catalog_write_batch cenv env,
     so_write_initialization = default_write_initialization (catalog_write_batch cenv env),
     so_on_tick = (\<lambda>now. on_segment (segment_on_tick env now)),
     so_seal_all = on_segment (segment_seal_all env),
     so_seal_partition = (\<lambda>key. on_segment (segment_seal_partition env key)),
     so_seal_all_for_shutdown = on_segment (segment_seal_all_for_shutdown env),
     so_break_continuity = (\<lambda>key. on_segment (segment_break_continuity env key)),
     so_active_writers = catalog_active_writers,
     so_is_segment_mode = catalog_is_segment_mode\<rparr>"

text \<open>In segment mode the sink is the segment sink, so it keeps the contract of a row sink.\<close>

fun catalog_rows :: "('t, 'c) catalog_sink \<Rightarrow> string \<Rightarrow> 't list" where
  "catalog_rows (Chunked _) k = []"
| "catalog_rows (Segment s) k = seg_rows s k"

fun catalog_ok :: "('t, 'c) catalog_sink \<Rightarrow> bool" where
  "catalog_ok (Chunked _) = False"
| "catalog_ok (Segment s) = seg_ok s"

lemma catalog_rows_Segment: "catalog_rows (Segment s) = seg_rows s"
  by (rule ext) simp

text \<open>
  A sink that answers as another one does under a constructor keeps its contract: the operations
  of the inner sink, their state wrapped.
\<close>

definition under :: "('s \<Rightarrow> 'w) \<Rightarrow> ('r \<times> 's) \<Rightarrow> 'r \<times> 'w" where
  "under wrap x = (fst x, wrap (snd x))"

definition wraps :: "('s \<Rightarrow> 'w) \<Rightarrow> ('t, 'w) sink_ops \<Rightarrow> ('t, 's) sink_ops \<Rightarrow> bool" where
  "wraps wrap outer inner \<longleftrightarrow>
     (\<forall>k b s. so_write_batch outer k b (wrap s) = under wrap (so_write_batch inner k b s)) \<and>
     (\<forall>k d s. so_write_initialization outer k d (wrap s) = under wrap (so_write_initialization inner k d s)) \<and>
     (\<forall>now s. so_on_tick outer now (wrap s) = under wrap (so_on_tick inner now s)) \<and>
     (\<forall>s. so_seal_all outer (wrap s) = under wrap (so_seal_all inner s)) \<and>
     (\<forall>k s. so_seal_partition outer k (wrap s) = under wrap (so_seal_partition inner k s)) \<and>
     (\<forall>s. so_seal_all_for_shutdown outer (wrap s) = under wrap (so_seal_all_for_shutdown inner s)) \<and>
     (\<forall>key s. so_break_continuity outer key (wrap s) = under wrap (so_break_continuity inner key s))"

lemma under_eq: "under wrap x = (r, w) \<longleftrightarrow> (\<exists>s. x = (r, s) \<and> w = wrap s)"
  by (cases x) (auto simp: under_def)

lemma capture_sink_wrap:
  fixes wrap :: "'s \<Rightarrow> 'w" and inner :: "('t, 's) sink_ops"
  assumes c: "capture_sink inner rows ok" and w: "wraps wrap outer inner"
    and ok: "\<And>w. ok' w \<longleftrightarrow> (\<exists>s. w = wrap s \<and> ok s)" and rows: "\<And>s. rows' (wrap s) = rows s"
  shows "capture_sink outer rows' ok'"
proof -
  note op = w [unfolded wraps_def, THEN conjunct1, rule_format]
    w [unfolded wraps_def, THEN conjunct2, THEN conjunct1, rule_format]
    w [unfolded wraps_def, THEN conjunct2, THEN conjunct2, THEN conjunct1, rule_format]
    w [unfolded wraps_def, THEN conjunct2, THEN conjunct2, THEN conjunct2, THEN conjunct1, rule_format]
    w [unfolded wraps_def, THEN conjunct2, THEN conjunct2, THEN conjunct2, THEN conjunct2, THEN conjunct1, rule_format]
    w [unfolded wraps_def, THEN conjunct2, THEN conjunct2, THEN conjunct2, THEN conjunct2, THEN conjunct2,
      THEN conjunct1, rule_format]
    w [unfolded wraps_def, THEN conjunct2, THEN conjunct2, THEN conjunct2, THEN conjunct2, THEN conjunct2,
      THEN conjunct2, rule_format]
  have eq: "under wrap x = (r, w) \<Longrightarrow> (\<And>s. x = (r, s) \<Longrightarrow> w = wrap s \<Longrightarrow> P) \<Longrightarrow> P" for x :: "'r \<times> 's" and r w P
    by (auto simp: under_eq)
  have okE: "ok' w \<Longrightarrow> (\<And>s. w = wrap s \<Longrightarrow> ok s \<Longrightarrow> P) \<Longrightarrow> P" for w P using ok by blast
  have okI: "ok s \<Longrightarrow> ok' (wrap s)" for s using ok by blast
  have snd: "snd (under wrap x) = wrap (snd x)" for x :: "'r \<times> 's" by (simp add: under_def)
  show ?thesis
    apply unfold_locales
    subgoal by (elim okE, hypsubst, unfold op, elim eq, hypsubst, unfold rows, erule (1) capture_sink.write_ok [OF c])
    subgoal by (elim okE, hypsubst, unfold op, elim eq, hypsubst, unfold rows, erule (2) capture_sink.write_other [OF c])
    subgoal by (elim okE, hypsubst, unfold op, elim eq, hypsubst, unfold rows, erule (1) capture_sink.init_rows [OF c])
    subgoal by (elim okE, hypsubst, unfold op, elim eq, hypsubst, unfold rows, erule (2) capture_sink.init_other [OF c])
    subgoal by (elim okE, hypsubst, unfold op, elim eq, hypsubst, unfold rows, erule (1) capture_sink.tick_rows [OF c])
    subgoal by (elim okE, hypsubst, unfold op, elim eq, hypsubst, unfold rows, erule (1) capture_sink.seal_all_rows [OF c])
    subgoal by (elim okE, hypsubst, unfold op, elim eq, hypsubst, unfold rows, erule (1) capture_sink.shutdown_rows [OF c])
    subgoal by (elim okE, hypsubst, unfold op, elim eq, hypsubst, unfold rows, erule (1) capture_sink.seal_rows [OF c])
    subgoal by (elim okE, hypsubst, unfold op, elim eq, hypsubst, unfold rows, erule (2) capture_sink.seal_other [OF c])
    subgoal by (elim okE, hypsubst, unfold op, elim eq, hypsubst, unfold rows, erule (1) capture_sink.break_rows [OF c])
    subgoal by (elim okE, hypsubst, unfold op, elim eq, hypsubst, unfold rows, erule (2) capture_sink.break_other [OF c])
    by (elim okE, hypsubst, unfold op snd,
        blast intro: okI capture_sink.ok_write [OF c] capture_sink.ok_init [OF c] capture_sink.ok_tick [OF c]
          capture_sink.ok_seal_all [OF c] capture_sink.ok_shutdown [OF c] capture_sink.ok_seal [OF c]
          capture_sink.ok_break [OF c])+
qed

lemma catalog_wraps: "wraps Segment (catalog_ops cenv env) (segment_ops env)"
  by (simp add: wraps_def under_def catalog_ops_def segment_ops_def default_write_initialization_def split_beta Let_def)

lemma catalog_ok_iff: "catalog_ok c \<longleftrightarrow> (\<exists>s. c = Segment s \<and> seg_ok s)"
  by (cases c) auto

lemmas segment_contract = kept.seg.capture_sink_axioms

interpretation kept_catalog: capture_sink "catalog_ops cenv (Rep_row_encoding env)" catalog_rows catalog_ok
  for cenv :: "('t, 'c) chunk_env" and env :: "'t row_encoding"
  by (rule capture_sink_wrap [OF segment_contract catalog_wraps catalog_ok_iff catalog_rows_Segment])

subsection \<open>Disjoint files of custom data\<close>

lemma disjoint_file_interval_order:
  assumes "disjoint_file_interval prev lo hi = (a, b)"
  shows "a \<le> b" and "prev = Some w \<Longrightarrow> w < a \<or> u64_max \<le> w \<and> u64_max \<le> a"
  using assms by (auto simp: disjoint_file_interval_def Let_def sat_add_def min_def split: option.splits if_splits)

text \<open>A catalogue that keeps, beside its own state, every write it was asked for and the answer.\<close>

type_synonym 'd write_log = "('d list \<times> nat option \<times> nat option \<times> string result) list"

definition logged :: "('d, 'c) custom_env \<Rightarrow> ('d, 'c \<times> 'd write_log) custom_env" where
  "logged env = \<lparr>cu_ts = cu_ts env, cu_type_name = cu_type_name env, cu_identifier = cu_identifier env,
     cu_write = (\<lambda>data lo hi skip (c, log). let (r, c) = cu_write env data lo hi skip c in (r, (c, log @ [(data, lo, hi, r)]))),
     cu_make_path = (\<lambda>type_name ident (c, log). cu_make_path env type_name ident c),
     cu_intervals = (\<lambda>directory (c, log). cu_intervals env directory c)\<rparr>"

text \<open>The intervals of the files a partition got.\<close>

fun file_intervals :: "('d, 'c) custom_env \<Rightarrow> string \<Rightarrow> 'd write_log \<Rightarrow> (nat \<times> nat) list" where
  "file_intervals env key [] = []"
| "file_intervals env key ((data, Some lo, Some hi, Inr p) # log) =
     (if p \<noteq> [] \<and> map_result fst (custom_partition_key env data) = Inr key
      then (lo, hi) # file_intervals env key log else file_intervals env key log)"
| "file_intervals env key (x # log) = file_intervals env key log"

fun write_custom_batches :: "('d, 'c) custom_env \<Rightarrow> 'd list list \<Rightarrow> 'c nautilus_sink \<Rightarrow> 'c nautilus_sink" where
  "write_custom_batches env [] n = n"
| "write_custom_batches env (data # ds) n = write_custom_batches env ds (snd (write_custom_data_batch env data n))"

lemma file_intervals_append: "file_intervals env key (xs @ ys) = file_intervals env key xs @ file_intervals env key ys"
  by (induction env key xs rule: file_intervals.induct) auto

lemma logged_fields [simp]:
  "cu_ts (logged env) = cu_ts env" "cu_type_name (logged env) = cu_type_name env"
  "cu_identifier (logged env) = cu_identifier env"
  "cu_make_path (logged env) tn ident c = cu_make_path env tn ident (fst c)"
  "cu_intervals (logged env) dir c = cu_intervals env dir (fst c)"
  by (simp_all add: logged_def split_beta)

lemma logged_simps [simp]:
  "custom_partition_key (logged env) = custom_partition_key env"
  "custom_data_ts_range (logged env) = custom_data_ts_range env"
  "seed_custom_last_end (logged env) tn ident c = seed_custom_last_end env tn ident (fst c)"
  unfolding custom_partition_key_def custom_data_ts_range_def seed_custom_last_end_def logged_fields by (rule refl)+

lemma custom_data_ts_range_Inr: "data \<noteq> [] \<Longrightarrow> \<exists>lo hi. custom_data_ts_range env data = Inr (lo, hi)"
  by (cases data) (auto simp: custom_data_ts_range_def intro: prod.exhaust)

lemma custom_partition_key_Inr: "data \<noteq> [] \<Longrightarrow> \<exists>key tn ident. custom_partition_key env data = Inr (key, tn, ident)"
  by (cases data) (simp_all add: custom_partition_key_def Let_def)

lemma seeded_simps:
  "ns_catalog (seeded env key tn ident n) = ns_catalog n"
  "map_of (ns_last_end n) k = Some w \<Longrightarrow> map_of (ns_last_end (seeded env key tn ident n)) k = Some w"
  "k \<noteq> key \<Longrightarrow> map_of (ns_last_end (seeded env key tn ident n)) k = map_of (ns_last_end n) k"
  "map_of (ns_last_end n) key = None \<Longrightarrow>
     map_of (ns_last_end (seeded env key tn ident n)) key = seed_custom_last_end env tn ident (ns_catalog n)"
  by (auto simp: seeded_def update_conv' split: option.splits)

text \<open>What one write logs and how it moves the watermark.\<close>

lemma custom_write_step:
  assumes "data \<noteq> []" and key: "custom_partition_key env data = Inr (key, tn, ident)"
    and "custom_data_ts_range env data = Inr (lo, hi)"
    and "disjoint_file_interval (map_of (ns_last_end (seeded (logged env) key tn ident n)) key) lo hi = (a, b)"
    and "write_custom_data_batch (logged env) data n = (r, n')"
  shows "snd (ns_catalog n') = snd (ns_catalog n) @ [(data, Some a, Some b, r)]
    \<and> ns_last_end n' = (if \<exists>p. r = Inr p \<and> p \<noteq> []
         then AList.update key b (ns_last_end (seeded (logged env) key tn ident n))
         else ns_last_end (seeded (logged env) key tn ident n))"
proof -
  obtain c log where n: "ns_catalog n = (c, log)" by fastforce
  obtain r1 c1 where w: "cu_write env data (Some a) (Some b) (Some False) c = (r1, c1)" by fastforce
  then have "cu_write (logged env) data (Some a) (Some b) (Some False) (ns_catalog n) = (r1, (c1, log @ [(data, Some a, Some b, r1)]))"
    by (simp add: logged_def n)
  then have "write_custom_data_batch (logged env) data n = (r1,
      let n1 = (seeded (logged env) key tn ident n)\<lparr>ns_catalog := (c1, log @ [(data, Some a, Some b, r1)])\<rparr>
      in if \<exists>p. r1 = Inr p \<and> p \<noteq> [] then n1\<lparr>ns_last_end := AList.update key b (ns_last_end n1)\<rparr> else n1)"
    using assms(1-4) by (cases r1) (simp_all add: write_custom_data_batch_def seeded_simps(1) Let_def)
  with assms(5) n show ?thesis by (auto simp: Let_def)
qed

definition behind :: "nat \<times> nat \<Rightarrow> nat \<times> nat \<Rightarrow> bool" where
  "behind x y = (snd x < fst y \<or> snd x \<ge> u64_max)"

definition log_inv :: "('d, 'c) custom_env \<Rightarrow> string \<Rightarrow> ('c \<times> 'd write_log) nautilus_sink \<Rightarrow> bool" where
  "log_inv env key n = (let iv = file_intervals env key (snd (ns_catalog n)) in
     sorted_wrt behind iv \<and> list_all (\<lambda>(a, b). a \<le> b) iv \<and>
     (iv \<noteq> [] \<longrightarrow> (\<exists>w. map_of (ns_last_end n) key = Some w \<and> list_all (\<lambda>(a, b). b \<le> w \<or> u64_max \<le> w) iv)))"

lemma log_inv_keep:
  assumes "log_inv env key n" and "file_intervals env key (snd (ns_catalog n')) = file_intervals env key (snd (ns_catalog n))"
    and "\<And>w. map_of (ns_last_end n) key = Some w \<Longrightarrow> map_of (ns_last_end n') key = Some w"
  shows "log_inv env key n'"
  using assms by (auto simp: log_inv_def Let_def)

lemma log_inv_add:
  assumes inv: "log_inv env key n" and iv: "file_intervals env key (snd (ns_catalog n')) = file_intervals env key (snd (ns_catalog n)) @ [(a, b)]"
    and ab: "disjoint_file_interval prev lo hi = (a, b)"
    and prev: "\<And>w. map_of (ns_last_end n) key = Some w \<Longrightarrow> prev = Some w" and last: "map_of (ns_last_end n') key = Some b"
  shows "log_inv env key n'"
proof -
  let ?iv = "file_intervals env key (snd (ns_catalog n))"
  note ord = disjoint_file_interval_order [OF ab]
  have old: "behind (x, y) (a, b) \<and> (y \<le> b \<or> u64_max \<le> b)" if m: "(x, y) \<in> set ?iv" for x y
  proof -
    from m inv obtain w where w: "map_of (ns_last_end n) key = Some w" "y \<le> w \<or> u64_max \<le> w"
      by (cases "?iv = []") (auto simp: log_inv_def Let_def list_all_iff)
    from ord(2) [OF prev [OF w(1)]] w(2) ord(1) show ?thesis by (auto simp: behind_def)
  qed
  have "sorted_wrt behind ?iv" "list_all (\<lambda>(a, b). a \<le> b) ?iv" using inv by (simp_all add: log_inv_def Let_def)
  with old ord(1) show ?thesis by (auto simp: log_inv_def Let_def iv last sorted_wrt_append list_all_iff)
qed

lemma write_custom_log_inv:
  assumes inv: "log_inv env key n"
  shows "log_inv env key (snd (write_custom_data_batch (logged env) data n))"
proof (cases "data = []")
  case True
  then show ?thesis using inv by (simp add: write_custom_data_batch_def)
next
  case False
  obtain k tn ident where k: "custom_partition_key env data = Inr (k, tn, ident)" using custom_partition_key_Inr [OF False] by blast
  obtain lo hi where ts: "custom_data_ts_range env data = Inr (lo, hi)" using custom_data_ts_range_Inr [OF False] by blast
  let ?n1 = "seeded (logged env) k tn ident n"
  obtain a b where ab: "disjoint_file_interval (map_of (ns_last_end ?n1) k) lo hi = (a, b)" by fastforce
  obtain r n' where w: "write_custom_data_batch (logged env) data n = (r, n')" by fastforce
  note st = custom_write_step [OF False k ts ab w]
  show ?thesis
  proof (cases "key = k \<and> (\<exists>p. r = Inr p \<and> p \<noteq> [])")
    case True
    have "log_inv env key n'"
      by (rule log_inv_add [OF inv _ ab]) (use st k True seeded_simps(2) in \<open>auto simp: file_intervals_append update_conv'\<close>)
    then show ?thesis by (simp add: w)
  next
    case False
    have "log_inv env key n'"
    proof (rule log_inv_keep [OF inv])
      show "file_intervals env key (snd (ns_catalog n')) = file_intervals env key (snd (ns_catalog n))"
        using st k False by (cases r) (auto simp: file_intervals_append)
      show "map_of (ns_last_end n') key = Some w" if "map_of (ns_last_end n) key = Some w" for w
        using st False seeded_simps(2) [OF that, of "logged env" k tn ident] by (auto simp: update_conv' split: if_splits)
    qed
    then show ?thesis by (simp add: w)
  qed
qed

lemma write_custom_batches_inv:
  "log_inv env key n \<Longrightarrow> log_inv env key (write_custom_batches (logged env) ds n)"
  by (induction ds arbitrary: n) (simp_all add: write_custom_log_inv)

text \<open>
  C25: however a chunked sink is used for custom data, and whatever the catalogue answers, the
  files it accepts for one partition have well-formed intervals, and each starts behind the end
  of every earlier one, unless that end is already the largest timestamp.
\<close>

theorem custom_files_disjoint:
  fixes env :: "('d, 'c) custom_env"
  shows "let files = file_intervals env key (snd (ns_catalog (write_custom_batches (logged env) ds
        \<lparr>ns_catalog = (c, []), ns_last_end = []\<rparr>)))
    in sorted_wrt behind files \<and> list_all (\<lambda>(first, final). first \<le> final) files"
proof -
  have "log_inv env key \<lparr>ns_catalog = (c, []), ns_last_end = []\<rparr>" by (simp add: log_inv_def Let_def)
  from write_custom_batches_inv [OF this, of ds] show ?thesis by (simp add: log_inv_def Let_def)
qed

text \<open>
  the first file of a custom partition starts behind every interval the catalogue lists in
  the partition's directory, so that a restarted process does not collide with what an earlier
  one wrote; a write that fails leaves that watermark, so the retry asks for the same interval.
\<close>

theorem custom_restart_behind_directory:
  fixes env :: "('d, 'c) custom_env"
  assumes data: "data \<noteq> []" and key: "custom_partition_key env data = Inr (key, tn, ident)"
    and range: "custom_data_ts_range env data = Inr (lo, hi)"
    and fresh: "map_of ends key = None"
    and path: "cu_make_path env tn ident c = Inr dir"
    and listing: "cu_intervals env dir c = Inr intervals" "(x, y) \<in> set intervals" "y < u64_max"
    and wr: "write_custom_data_batch (logged env) data \<lparr>ns_catalog = (c, []), ns_last_end = ends\<rparr> = (r, n')"
  shows "\<exists>a b. snd (ns_catalog n') = [(data, Some a, Some b, r)] \<and> y < a \<and> a \<le> b
    \<and> (isl r \<longrightarrow> disjoint_file_interval (map_of (ns_last_end n') key) lo hi = (a, b))"
proof -
  let ?n = "\<lparr>ns_catalog = (c, []), ns_last_end = ends\<rparr>"
  let ?n1 = "seeded (logged env) key tn ident ?n"
  obtain a b where ab: "disjoint_file_interval (map_of (ns_last_end ?n1) key) lo hi = (a, b)" by fastforce
  note st = custom_write_step [OF data key range ab wr]
  have max: "\<exists>w. list_max (map snd intervals) = Some w \<and> y \<le> w"
    using list_max_ge [of y "map snd intervals"] listing(2) by force
  then obtain w where w: "list_max (map snd intervals) = Some w" "y \<le> w" by blast
  have "map_of (ns_last_end ?n1) key = Some w"
    using seeded_simps(4) [of ?n key "logged env" tn ident] fresh path listing(1) w(1)
    by (simp add: seed_custom_last_end_def)
  with disjoint_file_interval_order [OF ab] w(2) listing(3) have "y < a" "a \<le> b" by auto
  with st ab show ?thesis by (cases r) auto
qed

text \<open>A catalogue that is the list of its intervals, with one file up to 9: two writes at 7.\<close>

definition sample_custom_env :: "(nat, (nat \<times> nat) list) custom_env" where
  "sample_custom_env = \<lparr>cu_ts = (\<lambda>x. x), cu_type_name = (\<lambda>_. ''Greeks''), cu_identifier = (\<lambda>_. None),
     cu_write = (\<lambda>data lo hi skip c. (Inr ''f.parquet'', c @ [(the lo, the hi)])),
     cu_make_path = (\<lambda>type_name ident c. Inr type_name), cu_intervals = (\<lambda>dir c. Inr c)\<rparr>"

lemma sample_custom_run:
  "file_intervals sample_custom_env ''Greeks'' (snd (ns_catalog (write_custom_batches (logged sample_custom_env)
     [[7], [7, 12], [40]] \<lparr>ns_catalog = ([(3, 9)], []), ns_last_end = []\<rparr>))) = [(10, 10), (11, 12), (40, 40)]"
  by (simp add: sample_custom_env_def write_custom_data_batch_def custom_partition_key_def custom_data_ts_range_def
    disjoint_file_interval_def seeded_def seed_custom_last_end_def list_max_def logged_def sat_add_def u64_max_def Let_def)

theorem custom_restart_behind_directory_witness:
  "\<exists>a b r. snd (ns_catalog (snd (write_custom_data_batch (logged sample_custom_env) [7]
      \<lparr>ns_catalog = ([(3, 9)], []), ns_last_end = []\<rparr>))) = [([7], Some a, Some b, r)] \<and> 9 < a"
proof -
  let ?n = "\<lparr>ns_catalog = ([(3::nat, 9::nat)], []), ns_last_end = []\<rparr> :: ((nat \<times> nat) list \<times> nat write_log) nautilus_sink"
  have "\<exists>a b. snd (ns_catalog (snd (write_custom_data_batch (logged sample_custom_env) [7] ?n)))
        = [([7], Some a, Some b, fst (write_custom_data_batch (logged sample_custom_env) [7] ?n))] \<and> 9 < a \<and> a \<le> b
      \<and> (isl (fst (write_custom_data_batch (logged sample_custom_env) [7] ?n)) \<longrightarrow>
        disjoint_file_interval (map_of (ns_last_end (snd (write_custom_data_batch (logged sample_custom_env) [7] ?n))) ''Greeks'') 7 7 = (a, b))"
    by (rule custom_restart_behind_directory [where tn = "''Greeks''" and ident = None and ends = "[]"
          and dir = "''Greeks''" and x = 3 and intervals = "[(3, 9)]", OF _ _ _ _ _ _ _ _ prod.collapse [symmetric]])
      (simp_all add: sample_custom_env_def custom_partition_key_def custom_data_ts_range_def u64_max_def Let_def)
  then show ?thesis by blast
qed

end
