(* ===== verification/Custom_Segment.thy ===== *)
theory Custom_Segment
  imports Segment_Files Chunked_Sink
begin

section \<open>The custom-data sink in segment mode\<close>

text \<open>
  \<open>SegmentCustomDataSink\<close> of \<open>crates/catalog-capture-core/src/lifecycle/segment_custom.rs\<close> and the
  \<open>CustomDataCatalogSink\<close> of \<open>sink.rs\<close> that chooses between it and the chunked sink. It is the
  segment sink without replay windows: one open part per partition, all rows of one Arrow schema.
  Nautilus's \<open>prepare_custom_data_batch\<close> is the parameter \<open>cx_prepare\<close>; what the code relies on
  is that the record batch holds the rows it was made of: \<open>prepare_ok\<close>.
\<close>

record 'd prepared_batch =
  pr_rows :: "'d list"
  pr_schema :: part_schema
  pr_ts :: ts_column
  pr_type_name :: string
  pr_identifier :: "string option"

record 'd custom_segment_env =
  cx_part :: part_env
  cx_prepare :: "'d list \<Rightarrow> 'd prepared_batch result"
  cx_make_path :: "string \<Rightarrow> string option \<Rightarrow> string result"
  cx_root :: string
  cx_order :: "nat \<Rightarrow> string list \<Rightarrow> string list"

definition prepare_ok :: "'d custom_segment_env \<Rightarrow> bool" where
  "prepare_ok env = (\<forall>batch p. cx_prepare env batch = Inr p \<longrightarrow> pr_rows p = batch)"

record 'd active_custom_segment =
  cg_part :: "'d active_part"
  cg_type_name :: string
  cg_identifier :: "string option"
  cg_schema :: part_schema

record 'd custom_sink =
  cs_segments :: "(string \<times> 'd active_custom_segment) list"
  cs_sync_interval :: nat
  cs_store :: store
  cs_published :: "(string \<times> 'd sealed_file) list"

record open_params =
  op_directory :: string
  op_type_name :: string
  op_identifier :: "string option"
  op_schema :: part_schema
  op_open_ts :: nat

subsection \<open>Operations\<close>

definition custom_from_config ::
  "part_env \<Rightarrow> (seal_config_file \<Rightarrow> 'x result) \<Rightarrow> capture_config \<Rightarrow> orphan list result \<Rightarrow> store \<Rightarrow>
   'd custom_sink result" where
  "custom_from_config env resolve_seal_schedule c found st =
     (case segment_runtime_parts resolve_seal_schedule c of
        Inl e \<Rightarrow> Inl e
      | Inr (root, sync_interval) \<Rightarrow>
          (case found of
             Inl e \<Rightarrow> Inl e
           | Inr orphans \<Rightarrow> Inr \<lparr>cs_segments = [], cs_sync_interval = sync_interval,
               cs_store = snd (recover_orphans env (\<lambda>_. False) orphans 0 st), cs_published = []\<rparr>))"

text \<open>A call of \<open>recover_orphan_parts\<close> on a sink in use; \<open>found\<close> is the directory walk.\<close>

definition custom_recover_orphan_parts ::
  "'d custom_segment_env \<Rightarrow> orphan list result \<Rightarrow> 'd custom_sink \<Rightarrow> nat result \<times> 'd custom_sink" where
  "custom_recover_orphan_parts env found s =
     (case found of
        Inl e \<Rightarrow> (Inl e, s)
      | Inr orphans \<Rightarrow>
          (let (n, st) = recover_orphans (cx_part env)
                 (\<lambda>path. list_ex (\<lambda>(_, seg). ap_path (cg_part seg) = path) (cs_segments s)) orphans 0 (cs_store s)
           in (Inr n, s\<lparr>cs_store := st\<rparr>)))"

definition custom_open_segment ::
  "'d custom_segment_env \<Rightarrow> string \<Rightarrow> open_params \<Rightarrow> 'd custom_sink \<Rightarrow> unit result \<times> 'd custom_sink" where
  "custom_open_segment env key params s =
     (let (part, st) = part_open (cx_part env) (op_directory params) (op_open_ts params) (op_schema params) (cs_store s);
          s = s\<lparr>cs_store := st\<rparr>
      in case part of
           Inl e \<Rightarrow> (Inl e, s)
         | Inr p \<Rightarrow> (Inr (), s\<lparr>cs_segments := AList.update key
             \<lparr>cg_part = p, cg_type_name = op_type_name params, cg_identifier = op_identifier params,
              cg_schema = op_schema params\<rparr> (cs_segments s)\<rparr>))"

definition custom_active_writers :: "'d custom_sink \<Rightarrow> nat" where
  "custom_active_writers s = length (cs_segments s)"

definition custom_tick_segment ::
  "'d custom_segment_env \<Rightarrow> nat \<Rightarrow> string \<Rightarrow> 'd custom_sink \<Rightarrow> flush_result result \<times> 'd custom_sink" where
  "custom_tick_segment env now key s =
     (case map_of (cs_segments s) key of
        None \<Rightarrow> (Inr empty_result, s)
      | Some seg \<Rightarrow>
          (let (r, p, st) = part_tick (cx_part env) (cs_sync_interval s) now (cg_part seg) (cs_store s)
           in (map_result (\<lambda>_. empty_result) r, s\<lparr>cs_store := st,
                cs_segments := AList.update key (seg\<lparr>cg_part := p\<rparr>) (cs_segments s)\<rparr>)))"

definition custom_on_tick :: "'d custom_segment_env \<Rightarrow> nat \<Rightarrow> 'd custom_sink \<Rightarrow> flush_result result \<times> 'd custom_sink" where
  "custom_on_tick env now s =
     (let (rs, s) = map_state (custom_tick_segment env now) (cx_order env (fs_io (cs_store s)) (hm_keys (cs_segments s))) s
      in (collect_flush_results rs, s))"

definition custom_seal_segment ::
  "'d custom_segment_env \<Rightarrow> string \<Rightarrow> bool \<Rightarrow> 'd custom_sink \<Rightarrow> flush_result result \<times> 'd custom_sink" where
  "custom_seal_segment env key reopen_after_seal s =
     (case map_of (cs_segments s) key of
        None \<Rightarrow> (Inr empty_result, s)
      | Some seg \<Rightarrow>
          (let s = s\<lparr>cs_segments := AList.delete key (cs_segments s)\<rparr>;
               (file, r, st) = part_seal (cx_part env) (cg_part seg) (cs_store s);
               s = s\<lparr>cs_store := st, cs_published := cs_published s
                     @ (case file of None \<Rightarrow> [] | Some f \<Rightarrow> [(key, f)])\<rparr>
           in case r of
                Inl e \<Rightarrow> (Inl e, s)
              | Inr sealed \<Rightarrow>
                  if reopen_after_seal \<and> fr_files sealed \<noteq> []
                  then (let (opened, s) = custom_open_segment env key
                              \<lparr>op_directory = ap_directory (cg_part seg), op_type_name = cg_type_name seg,
                               op_identifier = cg_identifier seg, op_schema = cg_schema seg,
                               op_open_ts = ap_max (cg_part seg)\<rparr> s
                        in (map_result (\<lambda>_. sealed) opened, s))
                  else (Inr sealed, s)))"

definition custom_seal_all_internal :: "'d custom_segment_env \<Rightarrow> bool \<Rightarrow> 'd custom_sink \<Rightarrow> flush_result result \<times> 'd custom_sink" where
  "custom_seal_all_internal env reopen_after_seal s =
     (let (rs, s) = map_state (\<lambda>key. custom_seal_segment env key reopen_after_seal)
            (cx_order env (fs_io (cs_store s)) (hm_keys (cs_segments s))) s
      in (collect_flush_results rs, s))"

definition custom_seal_all :: "'d custom_segment_env \<Rightarrow> 'd custom_sink \<Rightarrow> flush_result result \<times> 'd custom_sink" where
  "custom_seal_all env s = custom_seal_all_internal env False s"

definition custom_seal_partition :: "'d custom_segment_env \<Rightarrow> string \<Rightarrow> 'd custom_sink \<Rightarrow> flush_result result \<times> 'd custom_sink" where
  "custom_seal_partition env key s = custom_seal_segment env key False s"

definition custom_seal_all_for_shutdown :: "'d custom_segment_env \<Rightarrow> 'd custom_sink \<Rightarrow> flush_result result \<times> 'd custom_sink" where
  "custom_seal_all_for_shutdown env s = custom_seal_all_internal env False s"

definition custom_roll_if_at_capacity ::
  "'d custom_segment_env \<Rightarrow> string \<Rightarrow> 'd custom_sink \<Rightarrow> string list result \<times> 'd custom_sink" where
  "custom_roll_if_at_capacity env key s =
     (if \<not> (case map_of (cs_segments s) key of None \<Rightarrow> False | Some seg \<Rightarrow> needs_capacity_roll (cg_part seg))
      then (Inr [], s)
      else let (r, s) = custom_seal_segment env key True s in (map_result fr_files r, s))"

text \<open>The part written to: a new one, or the open one if it has the same schema.\<close>

definition custom_ensure_segment ::
  "'d custom_segment_env \<Rightarrow> string \<Rightarrow> open_params \<Rightarrow> 'd custom_sink \<Rightarrow> unit result \<times> 'd custom_sink" where
  "custom_ensure_segment env key params s =
     (case map_of (cs_segments s) key of
        None \<Rightarrow> custom_open_segment env key params s
      | Some seg \<Rightarrow> if cg_schema seg \<noteq> op_schema params then (Inl (SchemaMismatch key), s) else (Inr (), s))"

text \<open>The write proper: a part whose write failed is retired.\<close>

definition custom_append ::
  "'d custom_segment_env \<Rightarrow> string \<Rightarrow> 'd list \<Rightarrow> nat \<Rightarrow> nat \<Rightarrow> 'd custom_sink \<Rightarrow> unit result \<times> 'd custom_sink" where
  "custom_append env key rows lo hi s =
     (case map_of (cs_segments s) key of
        None \<Rightarrow> (Inl (External ''segment opened above''), s)
      | Some seg \<Rightarrow>
          (let ((r, p), st) = write_record_batch (cx_part env) rows (cg_part seg) (cs_store s)
           in case r of
                Some e \<Rightarrow> (Inl e, s\<lparr>cs_segments := AList.delete key (cs_segments s),
                    cs_store := quarantine_part_file (ap_path p) st\<rparr>)
              | None \<Rightarrow> (Inr (), s\<lparr>cs_store := st, cs_segments :=
                    AList.update key (seg\<lparr>cg_part := note_ts_range lo hi p\<rparr>) (cs_segments s)\<rparr>)))"

definition custom_write_batch ::
  "'d custom_segment_env \<Rightarrow> string \<Rightarrow> 'd list \<Rightarrow> 'd custom_sink \<Rightarrow> string list result \<times> 'd custom_sink" where
  "custom_write_batch env key batch s =
     (if batch = [] then (Inr [], s)
      else case cx_prepare env batch of
          Inl e \<Rightarrow> (Inl e, s)
        | Inr prep \<Rightarrow>
            (case ts_init_range_from_batch (pr_ts prep) of
               Inl e \<Rightarrow> (Inl e, s)
             | Inr (lo, hi) \<Rightarrow>
                 (case catalog_fs_directory (cx_root env) (cx_make_path env) (pr_type_name prep) (pr_identifier prep) of
                    Inl e \<Rightarrow> (Inl e, s)
                  | Inr directory \<Rightarrow>
                      (case custom_roll_if_at_capacity env key s of
                         (Inl e, s) \<Rightarrow> (Inl e, s)
                       | (Inr sealed, s) \<Rightarrow>
                           (case custom_ensure_segment env key
                               \<lparr>op_directory = directory, op_type_name = pr_type_name prep,
                                op_identifier = pr_identifier prep, op_schema = pr_schema prep, op_open_ts = lo\<rparr> s of
                              (Inl e, s) \<Rightarrow> (Inl e, s)
                            | (Inr _, s) \<Rightarrow>
                                (case custom_append env key (pr_rows prep) lo hi s of
                                   (Inl e, s) \<Rightarrow> (Inl e, s)
                                 | (Inr _, s) \<Rightarrow>
                                     (let (more, s) = custom_roll_if_at_capacity env key s
                                      in (map_result (\<lambda>m. sealed @ m) more, s))))))))"

definition custom_ops :: "'d custom_segment_env \<Rightarrow> ('d, 'd custom_sink) sink_ops" where
  "custom_ops env = \<lparr>
     so_write_batch = custom_write_batch env,
     so_write_initialization = default_write_initialization (custom_write_batch env),
     so_on_tick = custom_on_tick env,
     so_seal_all = custom_seal_all env,
     so_seal_partition = custom_seal_partition env,
     so_seal_all_for_shutdown = custom_seal_all_for_shutdown env,
     so_break_continuity = default_break_continuity (custom_seal_partition env) (custom_seal_all env),
     so_active_writers = custom_active_writers,
     so_is_segment_mode = (\<lambda>_. True)\<rparr>"

subsection \<open>The sink of either mode\<close>

datatype ('d, 'c) custom_catalog_sink = Chunked "'c nautilus_sink" | Segment "'d custom_sink"

definition custom_catalog_from_config ::
  "'c new_catalog \<Rightarrow> part_env \<Rightarrow> (seal_config_file \<Rightarrow> 'x result) \<Rightarrow> capture_config \<Rightarrow> orphan list result \<Rightarrow>
   store \<Rightarrow> ('d, 'c) custom_catalog_sink result" where
  "custom_catalog_from_config new_catalog env resolve c found st =
     (if is_segment_mode (cc_lifecycle c) then map_result Segment (custom_from_config env resolve c found st)
      else map_result Chunked (chunked_from_config new_catalog c))"

fun custom_catalog_write_batch ::
  "('d, 'c) custom_env \<Rightarrow> 'd custom_segment_env \<Rightarrow> string \<Rightarrow> 'd list \<Rightarrow> ('d, 'c) custom_catalog_sink \<Rightarrow>
   string list result \<times> ('d, 'c) custom_catalog_sink" where
  "custom_catalog_write_batch cenv env key batch (Chunked n) =
     (let (path, n) = write_custom_data_batch cenv batch n in (map_result (\<lambda>p. [p]) path, Chunked n))"
| "custom_catalog_write_batch cenv env key batch (Segment s) =
     (let (r, s) = custom_write_batch env key batch s in (r, Segment s))"

fun on_custom_segment :: "('d custom_sink \<Rightarrow> flush_result result \<times> 'd custom_sink) \<Rightarrow> ('d, 'c) custom_catalog_sink \<Rightarrow>
    flush_result result \<times> ('d, 'c) custom_catalog_sink" where
  "on_custom_segment f (Chunked n) = (Inr empty_result, Chunked n)"
| "on_custom_segment f (Segment s) = (let (r, s) = f s in (r, Segment s))"

fun custom_catalog_active_writers :: "('d, 'c) custom_catalog_sink \<Rightarrow> nat" where
  "custom_catalog_active_writers (Chunked _) = 0"
| "custom_catalog_active_writers (Segment s) = custom_active_writers s"

fun custom_catalog_is_segment_mode :: "('d, 'c) custom_catalog_sink \<Rightarrow> bool" where
  "custom_catalog_is_segment_mode (Chunked _) = False"
| "custom_catalog_is_segment_mode (Segment _) = True"

definition custom_catalog_ops ::
  "('d, 'c) custom_env \<Rightarrow> 'd custom_segment_env \<Rightarrow> ('d, ('d, 'c) custom_catalog_sink) sink_ops" where
  "custom_catalog_ops cenv env = \<lparr>
     so_write_batch = custom_catalog_write_batch cenv env,
     so_write_initialization = default_write_initialization (custom_catalog_write_batch cenv env),
     so_on_tick = (\<lambda>now. on_custom_segment (custom_on_tick env now)),
     so_seal_all = on_custom_segment (custom_seal_all env),
     so_seal_partition = (\<lambda>key. on_custom_segment (custom_seal_partition env key)),
     so_seal_all_for_shutdown = on_custom_segment (custom_seal_all_for_shutdown env),
     so_break_continuity = default_break_continuity (\<lambda>key. on_custom_segment (custom_seal_partition env key))
       (on_custom_segment (custom_seal_all env)),
     so_active_writers = custom_catalog_active_writers,
     so_is_segment_mode = custom_catalog_is_segment_mode\<rparr>"

subsection \<open>Rows and schemas\<close>

text \<open>The rows of a partition, and the batches a file was made of: all prepared with the file's schema.\<close>

definition custom_open_rows :: "(string \<times> 'd active_custom_segment) list \<Rightarrow> string \<Rightarrow> 'd list" where
  "custom_open_rows segs k = (case map_of segs k of None \<Rightarrow> [] | Some seg \<Rightarrow> ap_rows (cg_part seg))"

definition custom_rows :: "'d custom_sink \<Rightarrow> string \<Rightarrow> 'd list" where
  "custom_rows s k = published_rows (cs_published s) k @ custom_open_rows (cs_segments s) k"

definition prepared_with :: "'d custom_segment_env \<Rightarrow> part_schema \<Rightarrow> 'd list \<Rightarrow> bool" where
  "prepared_with env sch batch = (case cx_prepare env batch of Inl _ \<Rightarrow> False | Inr p \<Rightarrow> pr_schema p = sch)"

definition one_schema :: "'d custom_segment_env \<Rightarrow> part_schema \<Rightarrow> 'd list \<Rightarrow> bool" where
  "one_schema env sch rows = (\<exists>batches. rows = concat batches \<and> list_all (prepared_with env sch) batches)"

definition segment_good :: "'d custom_segment_env \<Rightarrow> 'd active_custom_segment \<Rightarrow> bool" where
  "segment_good env seg = (ap_count (cg_part seg) = length (ap_rows (cg_part seg)) \<and> ap_schema (cg_part seg) = cg_schema seg
     \<and> one_schema env (cg_schema seg) (ap_rows (cg_part seg)))"

definition custom_ok :: "'d custom_segment_env \<Rightarrow> 'd custom_sink \<Rightarrow> bool" where
  "custom_ok env s = (hm_valid (cs_segments s)
     \<and> (\<forall>k seg. map_of (cs_segments s) k = Some seg \<longrightarrow> segment_good env seg)
     \<and> (\<forall>(k, f) \<in> set (cs_published s). one_schema env (sf_schema f) (sf_rows f)))"

lemma one_schema_Nil [simp]: "one_schema env sch []"
  by (auto simp: one_schema_def intro: exI [of _ "[]"])

lemma one_schema_append: "one_schema env sch rows \<Longrightarrow> prepared_with env sch b \<Longrightarrow> one_schema env sch (rows @ b)"
  unfolding one_schema_def by (elim exE conjE, rule_tac x = "batches @ [b]" in exI) simp

lemma custom_open_rows_simps [simp]:
  "custom_open_rows (AList.delete key segs) k = (if k = key then [] else custom_open_rows segs k)"
  "custom_open_rows (AList.update key seg segs) k = (if k = key then ap_rows (cg_part seg) else custom_open_rows segs k)"
  by (simp_all add: custom_open_rows_def delete_conv' update_conv')

lemma custom_ok_cong:
  "cs_segments s' = cs_segments s \<Longrightarrow> cs_published s' = cs_published s \<Longrightarrow> custom_ok env s' = custom_ok env s"
  "cs_segments s' = cs_segments s \<Longrightarrow> cs_published s' = cs_published s \<Longrightarrow> custom_rows s' = custom_rows s"
  by (simp_all add: custom_ok_def custom_rows_def fun_eq_iff)

lemma custom_ok_segment: "custom_ok env s \<Longrightarrow> map_of (cs_segments s) k = Some seg \<Longrightarrow> segment_good env seg"
  by (simp add: custom_ok_def)

lemma custom_ok_delete:
  "custom_ok env s \<Longrightarrow> cs_segments s' = AList.delete k (cs_segments s) \<Longrightarrow> cs_published s' = cs_published s \<Longrightarrow> custom_ok env s'"
  by (auto simp: custom_ok_def hm.valid_del hm.get_del split: if_splits)

lemma custom_ok_update:
  "custom_ok env s \<Longrightarrow> cs_segments s' = AList.update k seg (cs_segments s) \<Longrightarrow> cs_published s' = cs_published s \<Longrightarrow>
   segment_good env seg \<Longrightarrow> custom_ok env s'"
  by (auto simp: custom_ok_def hm.valid_ins hm.get_ins split: if_splits)

lemma custom_open_rows_ok:
  fixes s :: "'d custom_sink"
  assumes ok: "custom_ok env s" and new: "map_of (cs_segments s) key = None"
    and op: "custom_open_segment env key params s = (r, s')"
  shows "custom_rows s' = custom_rows s \<and> custom_ok env s'
    \<and> (\<not> isl r \<longrightarrow> (\<exists>seg. map_of (cs_segments s') key = Some seg \<and> cg_schema seg = op_schema params))"
proof -
  obtain part :: "'d active_part result" and st
    where p: "part_open (cx_part env) (op_directory params) (op_open_ts params) (op_schema params) (cs_store s) = (part, st)"
    by fastforce
  show ?thesis
  proof (cases part)
    case (Inl e)
    then have "s' = s\<lparr>cs_store := st\<rparr>" "r = Inl e" using op p by (auto simp: custom_open_segment_def)
    then show ?thesis using ok custom_ok_cong(1) [of s' s env] custom_ok_cong(2) [of s' s] by simp
  next
    case (Inr q)
    define seg where "seg = \<lparr>cg_part = q, cg_type_name = op_type_name params, cg_identifier = op_identifier params,
      cg_schema = op_schema params\<rparr>"
    have s': "s' = s\<lparr>cs_store := st, cs_segments := AList.update key seg (cs_segments s)\<rparr>"
      using op p Inr by (auto simp: custom_open_segment_def seg_def)
    have q: "ap_rows q = []" "ap_count q = 0" "ap_schema q = op_schema params" using part_open_new [of _ _ _ _ _ q] p Inr by auto
    then have "custom_ok env s'" by (intro custom_ok_update [OF ok, of s' key seg]) (simp_all add: s' seg_def segment_good_def)
    moreover have "custom_open_rows (cs_segments s) key = []" using new by (simp add: custom_open_rows_def)
    ultimately show ?thesis using q by (auto simp: s' custom_rows_def fun_eq_iff seg_def update_conv')
  qed
qed

lemma custom_seal_rows:
  assumes ok: "custom_ok env s" and seal: "custom_seal_segment env key reopen s = (r, s')"
  shows "(\<forall>k. k \<noteq> key \<longrightarrow> custom_rows s' k = custom_rows s k) \<and> (\<not> isl r \<longrightarrow> custom_rows s' = custom_rows s) \<and> custom_ok env s'"
proof (cases "map_of (cs_segments s) key")
  case None
  with seal ok show ?thesis by (auto simp: custom_seal_segment_def)
next
  case (Some seg)
  note good = custom_ok_segment [OF ok Some, unfolded segment_good_def]
  obtain pub r1 st where p: "part_seal (cx_part env) (cg_part seg) (cs_store s) = (pub, r1, st)" by (metis prod_cases3)
  note ps = part_seal_result [OF p]
  define s1 where "s1 = s\<lparr>cs_segments := AList.delete key (cs_segments s), cs_store := st,
    cs_published := cs_published s @ (case pub of None \<Rightarrow> [] | Some f \<Rightarrow> [(key, f)])\<rparr>"
  have fine: "one_schema env (sf_schema f) (sf_rows f)" if "pub = Some f" for f
    using ps(3) [OF that] good by (metis published_of_def sealed_file.select_convs(2,3))
  have ok1: "custom_ok env s1"
    using ok fine by (auto simp: custom_ok_def s1_def hm.valid_del hm.get_del split: option.splits if_splits)
  have other: "custom_rows s1 k = custom_rows s k" if "k \<noteq> key" for k
    using that by (simp add: s1_def custom_rows_def split: option.splits)
  have same: "custom_rows s1 = custom_rows s" if "\<not> isl r1"
  proof
    fix k
    show "custom_rows s1 k = custom_rows s k"
    proof (cases "k = key")
      case True
      then show ?thesis using ps(1,2) that good Some
        by (cases "ap_count (cg_part seg) = 0") (auto simp: s1_def custom_rows_def custom_open_rows_def delete_conv')
    qed (rule other)
  qed
  have red: "custom_seal_segment env key reopen s = (case r1 of Inl e \<Rightarrow> (Inl e, s1) | Inr sealed \<Rightarrow>
      if reopen \<and> fr_files sealed \<noteq> []
      then (let (opened, s2) = custom_open_segment env key \<lparr>op_directory = ap_directory (cg_part seg),
              op_type_name = cg_type_name seg, op_identifier = cg_identifier seg, op_schema = cg_schema seg,
              op_open_ts = ap_max (cg_part seg)\<rparr> s1 in (map_result (\<lambda>_. sealed) opened, s2))
      else (Inr sealed, s1))"
    unfolding custom_seal_segment_def Some option.case Let_def s1_def by (cases r1) (simp_all add: p cong: if_cong)
  show ?thesis
  proof (cases r1)
    case (Inl e)
    then have "r = Inl e" "s' = s1" using seal red by auto
    then show ?thesis using ok1 other by simp
  next
    case (Inr sealed)
    have new: "map_of (cs_segments s1) key = None" by (simp add: s1_def delete_conv')
    show ?thesis
    proof (cases "reopen \<and> fr_files sealed \<noteq> []")
      case True
      then show ?thesis using seal red Inr same custom_open_rows_ok [OF ok1 new prod.collapse [symmetric]]
        by (auto simp: split_beta)
    next
      case False
      then have "r = Inr sealed" "s' = s1" using seal red Inr by (auto simp del: not_iff)
      then show ?thesis using Inr same ok1 by simp
    qed
  qed
qed

lemma custom_roll_rows:
  assumes ok: "custom_ok env s" and roll: "custom_roll_if_at_capacity env key s = (r, s')"
  shows "(\<forall>k. k \<noteq> key \<longrightarrow> custom_rows s' k = custom_rows s k) \<and> (\<not> isl r \<longrightarrow> custom_rows s' = custom_rows s) \<and> custom_ok env s'"
proof -
  obtain r1 s1 where seal: "custom_seal_segment env key True s = (r1, s1)" by fastforce
  have "(s' = s \<and> \<not> isl r) \<or> (s' = s1 \<and> isl r = isl r1)"
    using roll seal by (auto simp: custom_roll_if_at_capacity_def split: option.splits if_splits)
  with custom_seal_rows [OF ok seal] ok show ?thesis by auto
qed

lemma custom_ensure_rows:
  assumes ok: "custom_ok env s" and e: "custom_ensure_segment env key params s = (r, s')"
  shows "custom_rows s' = custom_rows s \<and> custom_ok env s'
    \<and> (\<not> isl r \<longrightarrow> (\<exists>seg. map_of (cs_segments s') key = Some seg \<and> cg_schema seg = op_schema params))"
proof (cases "map_of (cs_segments s) key")
  case None
  then show ?thesis using custom_open_rows_ok [OF ok None] e by (simp add: custom_ensure_segment_def)
next
  case (Some seg)
  then show ?thesis using e ok by (auto simp: custom_ensure_segment_def split: if_splits)
qed

lemma custom_append_rows:
  assumes ok: "custom_ok env s" and seg: "map_of (cs_segments s) key = Some seg"
    and prep: "prepared_with env (cg_schema seg) rows" and a: "custom_append env key rows lo hi s = (r, s')"
  shows "(\<forall>k. k \<noteq> key \<longrightarrow> custom_rows s' k = custom_rows s k) \<and> custom_ok env s'
    \<and> (\<not> isl r \<longrightarrow> custom_rows s' key = custom_rows s key @ rows)"
proof -
  note good = custom_ok_segment [OF ok seg, unfolded segment_good_def]
  obtain r1 p st where w: "write_record_batch (cx_part env) rows (cg_part seg) (cs_store s) = ((r1, p), st)"
    by (metis prod.exhaust)
  show ?thesis
  proof (cases r1)
    case (Some e)
    then have s': "cs_segments s' = AList.delete key (cs_segments s)" "cs_published s' = cs_published s" "isl r"
      using a seg w by (auto simp: custom_append_def)
    with custom_ok_delete [OF ok s'(1,2)] show ?thesis by (simp add: custom_rows_def)
  next
    case None
    then have p: "ap_rows p = ap_rows (cg_part seg) @ rows" "ap_count p = length (ap_rows p)" "ap_schema p = ap_schema (cg_part seg)"
      using w good by (auto simp: write_record_batch_def Let_def split_beta split: option.splits)
    let ?seg = "seg\<lparr>cg_part := note_ts_range lo hi p\<rparr>"
    have s': "cs_segments s' = AList.update key ?seg (cs_segments s)" "cs_published s' = cs_published s"
      using a seg w None by (auto simp: custom_append_def)
    have "segment_good env ?seg" using p good one_schema_append [OF _ prep] by (simp add: segment_good_def note_ts_range_def)
    then have "custom_ok env s'" by (rule custom_ok_update [OF ok s'])
    moreover have "custom_open_rows (cs_segments s) key = ap_rows (cg_part seg)" using seg by (simp add: custom_open_rows_def)
    ultimately show ?thesis using s' p by (simp add: custom_rows_def note_ts_range_def)
  qed
qed

lemma custom_write_rows:
  assumes enc: "prepare_ok env" and ok: "custom_ok env s" and w: "custom_write_batch env key batch s = (r, s')"
  shows "(\<forall>k. k \<noteq> key \<longrightarrow> custom_rows s' k = custom_rows s k) \<and> custom_ok env s'
    \<and> (\<not> isl r \<longrightarrow> custom_rows s' key = custom_rows s key @ batch)"
proof (cases "batch = []")
  case True
  then show ?thesis using w ok by (auto simp: custom_write_batch_def)
next
  case nonempty: False
  show ?thesis
  proof (cases "cx_prepare env batch")
    case (Inl e)
    then show ?thesis using w ok nonempty by (auto simp: custom_write_batch_def)
  next
    case prep: (Inr p)
    have rows: "pr_rows p = batch" using enc prep by (simp add: prepare_ok_def)
    show ?thesis
    proof (cases "ts_init_range_from_batch (pr_ts p)")
      case (Inl e)
      then show ?thesis using w ok nonempty prep by (auto simp: custom_write_batch_def)
    next
      case ts: (Inr lh)
      obtain lo hi where lh: "lh = (lo, hi)" by fastforce
      show ?thesis
      proof (cases "catalog_fs_directory (cx_root env) (cx_make_path env) (pr_type_name p) (pr_identifier p)")
        case (Inl e)
        then show ?thesis using w ok nonempty prep ts lh by (auto simp: custom_write_batch_def)
      next
        case dir: (Inr d)
        note w1 = w [unfolded custom_write_batch_def if_not_P [OF nonempty] prep ts lh dir sum.case prod.case]
        obtain r1 s1 where roll: "custom_roll_if_at_capacity env key s = (r1, s1)" by fastforce
        note rr = custom_roll_rows [OF ok roll]
        show ?thesis
        proof (cases r1)
          case (Inl e)
          then show ?thesis using w1 roll rr by auto
        next
          case r1: (Inr sealed)
          let ?params = "\<lparr>op_directory = d, op_type_name = pr_type_name p, op_identifier = pr_identifier p,
            op_schema = pr_schema p, op_open_ts = lo\<rparr>"
          obtain r2 s2 where en: "custom_ensure_segment env key ?params s1 = (r2, s2)" by fastforce
          from rr have ok1: "custom_ok env s1" by simp
          note er = custom_ensure_rows [OF ok1 en]
          show ?thesis
          proof (cases r2)
            case (Inl e)
            then show ?thesis using w1 roll r1 en rr er by auto
          next
            case r2: (Inr u)
            obtain seg where seg: "map_of (cs_segments s2) key = Some seg" "cg_schema seg = pr_schema p"
              using er r2 by auto
            obtain r3 s3 where app: "custom_append env key (pr_rows p) lo hi s2 = (r3, s3)" by fastforce
            have ok2: "custom_ok env s2" and pw: "prepared_with env (cg_schema seg) (pr_rows p)"
              using er prep seg(2) rows by (simp_all add: prepared_with_def)
            note ap = custom_append_rows [OF ok2 seg(1) pw app]
            show ?thesis
            proof (cases r3)
              case (Inl e)
              then show ?thesis using w1 roll r1 en r2 app rr er ap by auto
            next
              case r3: (Inr u3)
              obtain r4 s4 where roll4: "custom_roll_if_at_capacity env key s3 = (r4, s4)" by fastforce
              have ok3: "custom_ok env s3" using ap by simp
              have s': "s' = s4" "isl r = isl r4" using w1 roll r1 en r2 app r3 roll4 by auto
              show ?thesis using custom_roll_rows [OF ok3 roll4] s' ap er rr r1 r2 r3 rows by auto
            qed
          qed
        qed
      qed
    qed
  qed
qed

lemma custom_tick_rows:
  assumes ok: "custom_ok env s"
  shows "custom_ok env (snd (custom_on_tick env now s)) \<and> custom_rows (snd (custom_on_tick env now s)) = custom_rows s"
proof -
  have step: "custom_rows s = custom_rows (snd (custom_tick_segment env now key s)) \<and> custom_ok env (snd (custom_tick_segment env now key s))"
    if ok: "custom_ok env s" for key s
  proof (cases "map_of (cs_segments s) key")
    case None
    then show ?thesis using ok by (simp add: custom_tick_segment_def)
  next
    case (Some seg)
    obtain r p st where t: "part_tick (cx_part env) (cs_sync_interval s) now (cg_part seg) (cs_store s) = (r, p, st)"
      by (metis prod_cases3)
    then have p: "ap_rows p = ap_rows (cg_part seg)" "ap_count p = ap_count (cg_part seg)" "ap_schema p = ap_schema (cg_part seg)"
      by (auto simp: part_tick_def split_beta Let_def split: if_splits option.splits)
    let ?s' = "s\<lparr>cs_store := st, cs_segments := AList.update key (seg\<lparr>cg_part := p\<rparr>) (cs_segments s)\<rparr>"
    have "custom_ok env ?s'"
      using custom_ok_segment [OF ok Some] p by (intro custom_ok_update [OF ok, of ?s' key "seg\<lparr>cg_part := p\<rparr>"]) (simp_all add: segment_good_def)
    moreover have "custom_rows ?s' = custom_rows s"
      using p Some by (auto simp: custom_rows_def custom_open_rows_def fun_eq_iff update_conv')
    ultimately show ?thesis using Some t by (simp add: custom_tick_segment_def)
  qed
  have "custom_rows s = custom_rows (snd (map_state (custom_tick_segment env now) keys s))
      \<and> custom_ok env (snd (map_state (custom_tick_segment env now) keys s))" for keys
    by (rule map_state_induct [where R = "\<lambda>a b. custom_rows a = custom_rows b" and I = "custom_ok env"]) (use step ok in auto)
  then show ?thesis by (simp add: custom_on_tick_def Let_def split_beta)
qed

lemma custom_seal_all_rows:
  assumes ok: "custom_ok env s"
  shows "custom_ok env (snd (custom_seal_all_internal env reopen s))
    \<and> (\<not> isl (fst (custom_seal_all_internal env reopen s)) \<longrightarrow>
        custom_rows (snd (custom_seal_all_internal env reopen s)) = custom_rows s)"
proof -
  have step: "custom_ok env (snd (custom_seal_segment env key reopen s))
      \<and> (\<not> isl (fst (custom_seal_segment env key reopen s)) \<longrightarrow>
          custom_rows (snd (custom_seal_segment env key reopen s)) = custom_rows s)" if "custom_ok env s" for key s
    using custom_seal_rows [OF that prod.collapse [symmetric]] by blast
  from map_state_results [where I = "custom_ok env" and g = custom_rows and f = "\<lambda>key. custom_seal_segment env key reopen", OF ok step]
  show ?thesis by (simp add: custom_seal_all_internal_def Let_def split_beta collect_flush_results_isl)
qed

subsection \<open>The contract\<close>

locale row_preparer =
  fixes env :: "'d custom_segment_env"
  assumes prepare: "prepare_ok env"

sublocale row_preparer \<subseteq> custom: capture_sink "custom_ops env" custom_rows "custom_ok env"
proof unfold_locales
  fix s :: "'d custom_sink" and k k' :: string and b :: "'d list" and pub s' and r :: "string list result"
    and d :: 'd and res and now :: nat and key :: "string option" and fr :: "flush_result result"
  assume ok: "custom_ok env s"
  note wr = custom_write_rows [OF prepare ok]
  note wc = wr [OF prod.collapse [symmetric]]
  note sl = custom_seal_rows [OF ok]
  note sc = sl [OF prod.collapse [symmetric]]
  note sa = custom_seal_all_rows [OF ok]
  show "so_write_batch (custom_ops env) k b s = (Inr pub, s') \<Longrightarrow>
      custom_rows s' k' = (if k' = k then custom_rows s k @ b else custom_rows s k')"
    using wr [of k b "Inr pub" s'] by (simp add: custom_ops_def)
  show "so_write_batch (custom_ops env) k b s = (r, s') \<Longrightarrow> k' \<noteq> k \<Longrightarrow> custom_rows s' k' = custom_rows s k'"
    using wr [of k b r s'] by (simp add: custom_ops_def)
  show "so_write_initialization (custom_ops env) k d s = (Inr res, s') \<Longrightarrow>
      custom_rows s' k = custom_rows s k \<or> custom_rows s' k = custom_rows s k @ [d]"
    using wc [of k "[d]"]
    by (auto simp: custom_ops_def default_write_initialization_def split_beta map_result_def split: sum.splits)
  show "so_write_initialization (custom_ops env) k d s = (fr, s') \<Longrightarrow> k' \<noteq> k \<Longrightarrow> custom_rows s' k' = custom_rows s k'"
    using wc [of k "[d]"] by (auto simp: custom_ops_def default_write_initialization_def split_beta)
  show "so_on_tick (custom_ops env) now s = (Inr res, s') \<Longrightarrow> custom_rows s' = custom_rows s"
    using custom_tick_rows [OF ok, of now] by (simp add: custom_ops_def)
  show "so_seal_all (custom_ops env) s = (Inr res, s') \<Longrightarrow> custom_rows s' = custom_rows s"
    using sa [of False] by (simp add: custom_ops_def custom_seal_all_def)
  show "so_seal_all_for_shutdown (custom_ops env) s = (Inr res, s') \<Longrightarrow> custom_rows s' = custom_rows s"
    using sa [of False] by (simp add: custom_ops_def custom_seal_all_for_shutdown_def)
  show "so_seal_partition (custom_ops env) k s = (Inr res, s') \<Longrightarrow> custom_rows s' = custom_rows s"
    using sl [of k False] by (simp add: custom_ops_def custom_seal_partition_def)
  show "so_seal_partition (custom_ops env) k s = (fr, s') \<Longrightarrow> k' \<noteq> k \<Longrightarrow> custom_rows s' k' = custom_rows s k'"
    using sl [of k False] by (simp add: custom_ops_def custom_seal_partition_def)
  show "so_break_continuity (custom_ops env) key s = (Inr res, s') \<Longrightarrow> custom_rows s' = custom_rows s"
    using sl [where key = "the key" and reopen = False] sa [of False]
    by (cases key) (simp_all add: custom_ops_def default_break_continuity_def custom_seal_partition_def custom_seal_all_def)
  show "so_break_continuity (custom_ops env) (Some k) s = (fr, s') \<Longrightarrow> k' \<noteq> k \<Longrightarrow> custom_rows s' k' = custom_rows s k'"
    using sl [of k False] by (simp add: custom_ops_def default_break_continuity_def custom_seal_partition_def)
  show "custom_ok env (snd (so_write_batch (custom_ops env) k b s))" using wc by (simp add: custom_ops_def)
  show "custom_ok env (snd (so_write_initialization (custom_ops env) k d s))"
    using wc by (simp add: custom_ops_def default_write_initialization_def split_beta)
  show "custom_ok env (snd (so_on_tick (custom_ops env) now s))"
    using custom_tick_rows [OF ok, of now] by (simp add: custom_ops_def)
  show "custom_ok env (snd (so_seal_all (custom_ops env) s))" using sa by (simp add: custom_ops_def custom_seal_all_def)
  show "custom_ok env (snd (so_seal_all_for_shutdown (custom_ops env) s))"
    using sa by (simp add: custom_ops_def custom_seal_all_for_shutdown_def)
  show "custom_ok env (snd (so_seal_partition (custom_ops env) k s))"
    using sc by (simp add: custom_ops_def custom_seal_partition_def)
  show "custom_ok env (snd (so_break_continuity (custom_ops env) key s))"
    using sc sa by (cases key) (simp_all add: custom_ops_def default_break_continuity_def custom_seal_partition_def custom_seal_all_def)
qed

text \<open>The environments whose preparer keeps its rows, and the two modes of the catalogue sink.\<close>

typedef 'd row_preparation = "{env :: 'd custom_segment_env. prepare_ok env}"
  by (rule exI [of _ "undefined\<lparr>cx_prepare := \<lambda>_. Inl EmptyBatch\<rparr>"]) (simp add: prepare_ok_def)

interpretation kept_custom: row_preparer "Rep_row_preparation env" for env :: "'d row_preparation"
  by unfold_locales (use Rep_row_preparation in blast)

fun custom_catalog_rows :: "('d, 'c) custom_catalog_sink \<Rightarrow> string \<Rightarrow> 'd list" where
  "custom_catalog_rows (Chunked _) = (\<lambda>_. [])"
| "custom_catalog_rows (Segment s) = custom_rows s"

fun custom_catalog_ok :: "'d custom_segment_env \<Rightarrow> ('d, 'c) custom_catalog_sink \<Rightarrow> bool" where
  "custom_catalog_ok env (Chunked _) = False"
| "custom_catalog_ok env (Segment s) = custom_ok env s"

lemma custom_catalog_ok_iff: "custom_catalog_ok env c \<longleftrightarrow> (\<exists>s. c = Segment s \<and> custom_ok env s)"
  by (cases c) auto

lemma custom_catalog_wraps: "wraps Segment (custom_catalog_ops cenv env) (custom_ops env)"
  by (simp add: wraps_def under_def custom_catalog_ops_def custom_ops_def default_write_initialization_def
    default_break_continuity_def split_beta Let_def split: option.splits)

interpretation kept_custom_catalog: capture_sink "custom_catalog_ops cenv (Rep_row_preparation env)" custom_catalog_rows
    "custom_catalog_ok (Rep_row_preparation env)"
  for cenv :: "('d, 'c) custom_env" and env :: "'d row_preparation"
  by (rule capture_sink_wrap [OF kept_custom.custom.capture_sink_axioms custom_catalog_wraps custom_catalog_ok_iff]) simp

subsection \<open>Properties\<close>

lemma Rep_row_preparation_ex: "prepare_ok env \<Longrightarrow> \<exists>e. env = Rep_row_preparation e"
  using type_definition.Rep_cases [OF type_definition_row_preparation, of env] by blast

definition custom_fresh :: "'d custom_sink \<Rightarrow> bool" where
  "custom_fresh s = (cs_segments s = [] \<and> cs_published s = [])"

lemma custom_fresh_ok: "custom_fresh s \<Longrightarrow> custom_ok env s"
  by (simp add: custom_fresh_def custom_ok_def)

text \<open>
  whatever calls a segment-mode custom sink gets, and whatever fails, every file it publishes
  consists of whole batches that were all prepared with the schema of the file: rows of two
  schemas never share a file.
\<close>

theorem custom_files_one_schema:
  assumes "prepare_ok env" and "custom_fresh s"
    and "(key, f) \<in> set (cs_published (run_sink_calls (custom_ops env) calls s))"
  shows "\<exists>batches. sf_rows f = concat batches \<and> list_all (prepared_with env (sf_schema f)) batches"
proof -
  obtain e where e: "env = Rep_row_preparation e" using Rep_row_preparation_ex [OF assms(1)] by blast
  have "custom_ok env (run_sink_calls (custom_ops env) calls s)"
    using kept_custom.custom.run_sink_calls_ok [of e, OF custom_fresh_ok [OF assms(2)]] by (simp add: e)
  with assms(3) show ?thesis by (auto simp: custom_ok_def one_schema_def)
qed

text \<open>
  a batch of another schema than the partition's open part is refused before anything of it
  is written: the call returns the schema error and leaves the sink exactly as it was.
\<close>

theorem custom_schema_mismatch:
  assumes "batch \<noteq> []" and prep: "cx_prepare env batch = Inr p" and ts: "ts_init_range_from_batch (pr_ts p) = Inr (lo, hi)"
    and dir: "catalog_fs_directory (cx_root env) (cx_make_path env) (pr_type_name p) (pr_identifier p) = Inr d"
    and seg: "map_of (cs_segments s) key = Some seg" "\<not> needs_capacity_roll (cg_part seg)"
    and other: "cg_schema seg \<noteq> pr_schema p"
  shows "custom_write_batch env key batch s = (Inl (SchemaMismatch key), s)"
proof -
  have roll: "custom_roll_if_at_capacity env key s = (Inr [], s)"
    using seg by (simp add: custom_roll_if_at_capacity_def)
  show ?thesis
    unfolding custom_write_batch_def if_not_P [OF assms(1)] prep ts dir sum.case prod.case roll
    using seg other by (simp add: custom_ensure_segment_def)
qed

text \<open>A preparer that takes the parity of the first row for the schema.\<close>

definition sample_custom_segment_env :: "nat custom_segment_env" where
  "sample_custom_segment_env = \<lparr>cx_part = sample_part_env,
     cx_prepare = (\<lambda>b. Inr \<lparr>pr_rows = b, pr_schema = \<lparr>sch_fields = (if even (hd b) then ''even'' else ''odd''), sch_metadata = []\<rparr>,
       pr_ts = Column (map (\<lambda>x. Some (int x)) b), pr_type_name = ''N'', pr_identifier = None\<rparr>),
     cx_make_path = (\<lambda>_ _. Inr ''/c''), cx_root = ''/'', cx_order = (\<lambda>_ ks. ks)\<rparr>"

abbreviation sample_custom_sink :: "nat custom_sink" where
  "sample_custom_sink \<equiv> \<lparr>cs_segments = [], cs_sync_interval = 0,
     cs_store = \<lparr>fs_io = 0, fs_paths = [], fs_failed = []\<rparr>, cs_published = []\<rparr>"

lemmas custom_run_simps = sample_custom_segment_env_def custom_ops_def run_sink_calls_def custom_write_batch_def
  custom_roll_if_at_capacity_def custom_ensure_segment_def custom_open_segment_def custom_append_def
  custom_seal_all_def custom_seal_all_internal_def custom_seal_segment_def ts_init_range_from_batch_def

lemma sample_custom_published:
  "map (sf_rows \<circ> snd) (cs_published (run_sink_calls (custom_ops sample_custom_segment_env)
     [WriteCall ''n'' [2], WriteCall ''n'' [4, 6], WriteCall ''n'' [7], SealAllCall] sample_custom_sink)) = [[2, 4, 6]]"
  by (simp add: custom_run_simps sample_run_simps published_of_def)

theorem custom_files_one_schema_witness:
  "\<exists>f :: nat sealed_file. sf_rows f = [2, 4, 6] \<and> (\<exists>batches. sf_rows f = concat batches
     \<and> list_all (prepared_with sample_custom_segment_env (sf_schema f)) batches)"
proof -
  let ?s = "run_sink_calls (custom_ops sample_custom_segment_env)
     [WriteCall ''n'' [2], WriteCall ''n'' [4, 6], WriteCall ''n'' [7], SealAllCall] sample_custom_sink"
  obtain k f where "cs_published ?s = [(k, f)]" and rows: "sf_rows f = [2, 4, 6]"
    using sample_custom_published by (auto simp: map_eq_Cons_conv)
  then have f: "(k, f) \<in> set (cs_published ?s)" by simp
  have env: "prepare_ok sample_custom_segment_env" by (simp add: prepare_ok_def sample_custom_segment_env_def)
  have "custom_fresh sample_custom_sink" by (simp add: custom_fresh_def)
  from custom_files_one_schema [OF env this f] rows show ?thesis by (intro exI [of _ f] conjI)
qed

theorem custom_schema_mismatch_witness:
  "fst (custom_write_batch sample_custom_segment_env ''n'' [7]
     (snd (custom_write_batch sample_custom_segment_env ''n'' [2] sample_custom_sink))) = Inl (SchemaMismatch ''n'')"
proof -
  let ?s = "snd (custom_write_batch sample_custom_segment_env ''n'' [2] sample_custom_sink)"
  obtain seg where seg: "map_of (cs_segments ?s) ''n'' = Some seg" "\<not> needs_capacity_roll (cg_part seg)"
      "cg_schema seg = \<lparr>sch_fields = ''even'', sch_metadata = []\<rparr>"
    by (simp add: custom_run_simps sample_run_simps)
  have "custom_write_batch sample_custom_segment_env ''n'' [7] ?s = (Inl (SchemaMismatch ''n''), ?s)"
    by (rule custom_schema_mismatch [OF _ _ _ _ seg(1,2), where p = "projr (cx_prepare sample_custom_segment_env [7])"
          and lo = 7 and hi = 7 and d = "''/c''"])
      (simp_all add: sample_custom_segment_env_def ts_init_range_from_batch_def catalog_fs_directory_def seg(3))
  then show ?thesis by simp
qed

end
