(* ===== verification/Book_Sink.thy ===== *)
theory Book_Sink
  imports Segment_Files Replay_Windows Chunked_Sink
begin

section \<open>The order-book sink\<close>

text \<open>
  \<open>BookDeltaCatalogSink\<close> of \<open>crates/catalog-capture-core/src/sink.rs\<close> in segment mode: each
  message of the venue is expanded to its rows and written in chunks. After a break or a failed
  write the increments of a partition are dropped up to the next snapshot, and a snapshot after
  earlier source rows starts a new replay window, unless the venue repeats its full book
  routinely.

  \<open>be_snapshot\<close> is Nautilus's \<open>RecordFlag::matches\<close> for the snapshot flag, \<open>be_venue\<close> the venue of
  an instrument id, \<open>be_file_len\<close> the length the file system reports.
\<close>

record book_env =
  be_segment :: "book_delta segment_env"
  be_snapshot :: "nat \<Rightarrow> bool"
  be_venue :: "string \<Rightarrow> string"
  be_file_len :: "string \<Rightarrow> nat option"

record boundary_state =
  by_needs_snapshot :: bool
  by_has_source :: bool

definition boundary_default :: boundary_state where
  "boundary_default = \<lparr>by_needs_snapshot = False, by_has_source = False\<rparr>"

record book_sink =
  bk_sink :: "book_delta segment_sink"
  bk_boundary :: "(string \<times> boundary_state) list"
  bk_venues :: "string list"

definition write_chunk_rows :: nat where
  "write_chunk_rows = 4096"

definition boundary_of :: "book_sink \<Rightarrow> string \<Rightarrow> boundary_state" where
  "boundary_of b key = unwrap_or boundary_default (map_of (bk_boundary b) key)"

definition set_boundary :: "string \<Rightarrow> boundary_state \<Rightarrow> book_sink \<Rightarrow> book_sink" where
  "set_boundary key st b = b\<lparr>bk_boundary := AList.update key st (bk_boundary b)\<rparr>"

definition with_continuous_snapshots_for_venue :: "string \<Rightarrow> book_sink \<Rightarrow> book_sink" where
  "with_continuous_snapshots_for_venue venue b = b\<lparr>bk_venues := List.insert venue (bk_venues b)\<rparr>"

definition prepare_segment_batch ::
  "book_env \<Rightarrow> string \<Rightarrow> book_frame \<Rightarrow> book_sink \<Rightarrow> book_delta list option \<times> book_sink" where
  "prepare_segment_batch env key grouped b =
     (let st = boundary_of b key;
          is_snapshot = be_snapshot env (bf_flags grouped)
      in if by_needs_snapshot st \<and> \<not> is_snapshot then (None, set_boundary key st b)
         else (Some (bf_deltas grouped), set_boundary key
           (st\<lparr>by_has_source := True,
               by_needs_snapshot := (if is_snapshot then False else by_needs_snapshot st)\<rparr>) b))"

text \<open>The rows of a message in chunks; \<open>chunk\<close> is the one being filled.\<close>

fun write_chunks ::
  "book_delta segment_env \<Rightarrow> string \<Rightarrow> book_delta list \<Rightarrow> book_delta list \<Rightarrow> book_delta segment_sink \<Rightarrow>
   string list result \<times> book_delta segment_sink" where
  "write_chunks env key chunk [] s =
     (if chunk \<noteq> [] then segment_write_batch env key chunk s else (Inr [], s))"
| "write_chunks env key chunk (d # ds) s =
     (let chunk = chunk @ [d]
      in if length chunk = write_chunk_rows
         then case segment_write_batch env key chunk s of
             (Inl e, s) \<Rightarrow> (Inl e, s)
           | (Inr paths, s) \<Rightarrow> (case write_chunks env key [] ds s of (r, s) \<Rightarrow> (map_result (\<lambda>more. paths @ more) r, s))
         else write_chunks env key chunk ds s)"

text \<open>A snapshot after source rows ends the window first.\<close>

definition reinitialize :: "book_env \<Rightarrow> string \<Rightarrow> book_frame \<Rightarrow> book_sink \<Rightarrow> unit result \<times> book_sink" where
  "reinitialize env key grouped b =
     (if be_snapshot env (bf_flags grouped) \<and> be_venue env (bf_instrument grouped) \<notin> set (bk_venues b)
         \<and> (case map_of (bk_boundary b) key of None \<Rightarrow> False | Some st \<Rightarrow> by_has_source st)
      then case segment_seal_partition (be_segment env) key (bk_sink b) of
          (Inl e, s) \<Rightarrow> (Inl e, b\<lparr>bk_sink := s\<rparr>)
        | (Inr _, s) \<Rightarrow> (Inr (), b\<lparr>bk_sink := s, bk_boundary := AList.delete key (bk_boundary b)\<rparr>)
      else (Inr (), b))"

definition write_frame ::
  "book_env \<Rightarrow> string \<Rightarrow> book_frame \<Rightarrow> book_sink \<Rightarrow> string list result \<times> book_sink" where
  "write_frame env key grouped b =
     (case reinitialize env key grouped b of
        (Inl e, b) \<Rightarrow> (Inl e, b)
      | (Inr _, b) \<Rightarrow>
          (case prepare_segment_batch env key grouped b of
             (None, b) \<Rightarrow> (Inr [], b)
           | (Some rows, b) \<Rightarrow>
               (case write_chunks (be_segment env) key [] rows (bk_sink b) of
                  (r, s) \<Rightarrow> (r, b\<lparr>bk_sink := s\<rparr>))))"

fun write_frames ::
  "book_env \<Rightarrow> string \<Rightarrow> book_frame list \<Rightarrow> book_sink \<Rightarrow> string list result \<times> book_sink" where
  "write_frames env key [] b = (Inr [], b)"
| "write_frames env key (grouped # batch) b =
     (case write_frame env key grouped b of
        (Inl e, b) \<Rightarrow> (Inl e, b)
      | (Inr paths, b) \<Rightarrow> (case write_frames env key batch b of (r, b) \<Rightarrow> (map_result (\<lambda>more. paths @ more) r, b)))"

definition book_write_batch ::
  "book_env \<Rightarrow> string \<Rightarrow> book_frame list \<Rightarrow> book_sink \<Rightarrow> string list result \<times> book_sink" where
  "book_write_batch env key batch b =
     (case write_frames env key batch b of
        (Inl e, b) \<Rightarrow> (Inl e, set_boundary key ((boundary_of b key)\<lparr>by_needs_snapshot := True\<rparr>) b)
      | (Inr paths, b) \<Rightarrow> (Inr paths, b))"

definition book_write_initialization ::
  "book_env \<Rightarrow> string \<Rightarrow> book_frame \<Rightarrow> book_sink \<Rightarrow> flush_result result \<times> book_sink" where
  "book_write_initialization env key data b =
     (if (case map_of (bk_boundary b) key of None \<Rightarrow> False | Some st \<Rightarrow> by_needs_snapshot st)
      then (Inr empty_result, b)
      else case segment_write_initialization (be_segment env) key (bf_deltas data) (bk_sink b) of
          (Inl e, s) \<Rightarrow> (Inl e, b\<lparr>bk_sink := s\<rparr>)
        | (Inr files, s) \<Rightarrow> (Inr \<lparr>fr_files = files, fr_rows = length (bf_deltas data),
             fr_bytes = sum_list (map the (filter (\<lambda>n. n \<noteq> None) (map (be_file_len env) files)))\<rparr>, b\<lparr>bk_sink := s\<rparr>))"

definition lift_sink :: "(book_delta segment_sink \<Rightarrow> 'r \<times> book_delta segment_sink) \<Rightarrow> book_sink \<Rightarrow> 'r \<times> book_sink" where
  "lift_sink f b = (let (r, s) = f (bk_sink b) in (r, b\<lparr>bk_sink := s\<rparr>))"

definition book_seal_partition :: "book_env \<Rightarrow> string \<Rightarrow> book_sink \<Rightarrow> flush_result result \<times> book_sink" where
  "book_seal_partition env key b =
     (case segment_seal_partition (be_segment env) key (bk_sink b) of
        (Inl e, s) \<Rightarrow> (Inl e, b\<lparr>bk_sink := s\<rparr>)
      | (Inr r, s) \<Rightarrow> (Inr r, b\<lparr>bk_sink := s, bk_boundary := AList.delete key (bk_boundary b)\<rparr>))"

definition book_break_continuity :: "book_env \<Rightarrow> string option \<Rightarrow> book_sink \<Rightarrow> flush_result result \<times> book_sink" where
  "book_break_continuity env key b =
     (let (r, s) = segment_break_continuity (be_segment env) key (bk_sink b);
          b = b\<lparr>bk_sink := s\<rparr>
      in (r, case key of
               Some k \<Rightarrow> set_boundary k ((boundary_of b k)\<lparr>by_needs_snapshot := True\<rparr>) b
             | None \<Rightarrow> b\<lparr>bk_boundary := map (\<lambda>(k, st). (k, st\<lparr>by_needs_snapshot := True\<rparr>)) (bk_boundary b)\<rparr>))"

definition book_ops :: "book_env \<Rightarrow> (book_frame, book_sink) sink_ops" where
  "book_ops env = \<lparr>
     so_write_batch = book_write_batch env,
     so_write_initialization = book_write_initialization env,
     so_on_tick = (\<lambda>now. lift_sink (segment_on_tick (be_segment env) now)),
     so_seal_all = lift_sink (segment_seal_all (be_segment env)),
     so_seal_partition = book_seal_partition env,
     so_seal_all_for_shutdown = lift_sink (segment_seal_all_for_shutdown (be_segment env)),
     so_break_continuity = book_break_continuity env,
     so_active_writers = (\<lambda>b. segment_active_writers (bk_sink b)),
     so_is_segment_mode = (\<lambda>_. True)\<rparr>"

definition book_from_config ::
  "part_env \<Rightarrow> (seal_config_file \<Rightarrow> 'x result) \<Rightarrow> capture_config \<Rightarrow> orphan list result \<Rightarrow> store \<Rightarrow> book_sink result" where
  "book_from_config env resolve c found st =
     map_result (\<lambda>s. \<lparr>bk_sink = s, bk_boundary = [], bk_venues = []\<rparr>) (segment_from_config env resolve c found st)"

text \<open>The sink of either mode. In chunked mode a batch is the rows of its messages in one file.\<close>

datatype 'c book_catalog_sink = Chunked "'c nautilus_sink" | Segment book_sink

definition book_catalog_from_config ::
  "'c new_catalog \<Rightarrow> part_env \<Rightarrow> (seal_config_file \<Rightarrow> 'x result) \<Rightarrow> capture_config \<Rightarrow> orphan list result \<Rightarrow>
   store \<Rightarrow> 'c book_catalog_sink result" where
  "book_catalog_from_config new_catalog env resolve c found st =
     (if is_segment_mode (cc_lifecycle c) then map_result Segment (book_from_config env resolve c found st)
      else map_result Chunked (chunked_from_config new_catalog c))"

fun book_catalog_continuous :: "string \<Rightarrow> 'c book_catalog_sink \<Rightarrow> 'c book_catalog_sink" where
  "book_catalog_continuous venue (Chunked n) = Chunked n"
| "book_catalog_continuous venue (Segment b) = Segment (with_continuous_snapshots_for_venue venue b)"

fun book_catalog_write_batch ::
  "(book_delta, 'c) chunk_env \<Rightarrow> book_env \<Rightarrow> string \<Rightarrow> book_frame list \<Rightarrow> 'c book_catalog_sink \<Rightarrow>
   string list result \<times> 'c book_catalog_sink" where
  "book_catalog_write_batch cenv env key batch (Chunked n) =
     (let deltas = concat (map bf_deltas batch)
      in if deltas = [] then (Inr [], Chunked n)
         else let (paths, n) = write_encoded_paths cenv deltas n in (paths, Chunked n))"
| "book_catalog_write_batch cenv env key batch (Segment b) =
     (let (paths, b) = book_write_batch env key batch b in (paths, Segment b))"

fun book_catalog_write_initialization ::
  "(book_delta, 'c) chunk_env \<Rightarrow> book_env \<Rightarrow> string \<Rightarrow> book_frame \<Rightarrow> 'c book_catalog_sink \<Rightarrow>
   flush_result result \<times> 'c book_catalog_sink" where
  "book_catalog_write_initialization cenv env key data (Chunked n) =
     (let (files, s) = book_catalog_write_batch cenv env key [data] (Chunked n)
      in (map_result (\<lambda>fs. \<lparr>fr_files = fs, fr_rows = length (bf_deltas data), fr_bytes = 0\<rparr>) files, s))"
| "book_catalog_write_initialization cenv env key data (Segment b) =
     (let (r, b) = book_write_initialization env key data b in (r, Segment b))"

fun on_book_segment :: "(book_sink \<Rightarrow> flush_result result \<times> book_sink) \<Rightarrow> 'c book_catalog_sink \<Rightarrow>
    flush_result result \<times> 'c book_catalog_sink" where
  "on_book_segment f (Chunked n) = (Inr empty_result, Chunked n)"
| "on_book_segment f (Segment b) = (let (r, b) = f b in (r, Segment b))"

definition book_catalog_ops ::
  "(book_delta, 'c) chunk_env \<Rightarrow> book_env \<Rightarrow> (book_frame, 'c book_catalog_sink) sink_ops" where
  "book_catalog_ops cenv env = \<lparr>
     so_write_batch = book_catalog_write_batch cenv env,
     so_write_initialization = book_catalog_write_initialization cenv env,
     so_on_tick = (\<lambda>now. on_book_segment (so_on_tick (book_ops env) now)),
     so_seal_all = on_book_segment (so_seal_all (book_ops env)),
     so_seal_partition = (\<lambda>key. on_book_segment (so_seal_partition (book_ops env) key)),
     so_seal_all_for_shutdown = on_book_segment (so_seal_all_for_shutdown (book_ops env)),
     so_break_continuity = (\<lambda>key. on_book_segment (so_break_continuity (book_ops env) key)),
     so_active_writers = (\<lambda>c. case c of Chunked _ \<Rightarrow> 0 | Segment b \<Rightarrow> so_active_writers (book_ops env) b),
     so_is_segment_mode = (\<lambda>c. case c of Chunked _ \<Rightarrow> False | Segment _ \<Rightarrow> True)\<rparr>"

lemma book_catalog_wraps: "wraps Segment (book_catalog_ops cenv env) (book_ops env)"
  by (simp add: wraps_def under_def book_catalog_ops_def book_ops_def split_beta Let_def)

subsection \<open>Rows\<close>

text \<open>Writing in chunks is writing: a run of batch writes with the same rows.\<close>

lemma write_chunks_rows:
  assumes enc: "encode_ok env" and ok: "seg_ok s" and w: "write_chunks env key chunk ds s = (r, s')"
  shows "(k \<noteq> key \<longrightarrow> seg_rows s' k = seg_rows s k) \<and> seg_ok s'
    \<and> (\<not> isl r \<longrightarrow> seg_rows s' k = (if k = key then seg_rows s k @ chunk @ ds else seg_rows s k))"
  using ok w
proof (induction ds arbitrary: chunk s r s')
  case Nil
  show ?case
  proof (cases "chunk = []")
    case True
    then show ?thesis using Nil by auto
  next
    case False
    then have "write_batch_inner env key chunk 0 s = (r, s')" using Nil(2) by (simp add: segment_write_batch_def)
    note wr = write_batch_inner_rows [OF enc Nil(1) this]
    show ?thesis using wr(1) [of k] wr(2) wr(3) [of k] by auto
  qed
next
  case (Cons d ds)
  show ?case
  proof (cases "length (chunk @ [d]) = write_chunk_rows")
    case False
    then have "write_chunks env key (chunk @ [d]) ds s = (r, s')" using Cons.prems(2) by (simp add: Let_def)
    from Cons.IH [OF Cons.prems(1) this] show ?thesis by simp
  next
    case True
    obtain r1 s1 where w1: "segment_write_batch env key (chunk @ [d]) s = (r1, s1)" by fastforce
    note wr = write_batch_inner_rows [OF enc Cons.prems(1) w1 [unfolded segment_write_batch_def]]
    show ?thesis
    proof (cases r1)
      case (Inl e)
      then have "r = Inl e" "s' = s1" using Cons.prems(2) True w1 by (auto simp: Let_def)
      then show ?thesis using wr(1) [of k] wr(2) by auto
    next
      case (Inr paths)
      obtain r2 s2 where w2: "write_chunks env key [] ds s1 = (r2, s2)" by fastforce
      have "r = map_result (\<lambda>more. paths @ more) r2" "s' = s2"
        using Cons.prems(2) True w1 Inr w2 by (auto simp: Let_def)
      with Cons.IH [OF wr(2) w2] wr(1) [of k] wr(3) [of k] Inr show ?thesis by auto
    qed
  qed
qed

text \<open>The rows a batch contributes: all, or those from the first snapshot on.\<close>

definition admitted_frames :: "book_env \<Rightarrow> bool \<Rightarrow> book_frame list \<Rightarrow> book_frame list" where
  "admitted_frames env needs batch =
     (if needs then dropWhile (\<lambda>f. \<not> be_snapshot env (bf_flags f)) batch else batch)"

definition frames_rows :: "book_frame list \<Rightarrow> book_delta list" where
  "frames_rows fs = concat (map bf_deltas fs)"

definition needs_snapshot :: "book_sink \<Rightarrow> string \<Rightarrow> bool" where
  "needs_snapshot b key = by_needs_snapshot (boundary_of b key)"

lemma boundary_of_simps [simp]:
  "boundary_of (set_boundary key st b) k = (if k = key then st else boundary_of b k)"
  "boundary_of (b\<lparr>bk_sink := s\<rparr>) k = boundary_of b k"
  "bk_sink (set_boundary key st b) = bk_sink b"
  by (simp_all add: boundary_of_def set_boundary_def update_conv' unwrap_or_def)

lemma reinitialize_rows:
  assumes ok: "seg_ok (bk_sink b)" and w: "reinitialize env key f b = (r, b')"
  shows "seg_ok (bk_sink b')" "k \<noteq> key \<Longrightarrow> seg_rows (bk_sink b') k = seg_rows (bk_sink b) k"
    "r = Inr () \<Longrightarrow> seg_rows (bk_sink b') = seg_rows (bk_sink b)"
    "needs_snapshot b' key \<Longrightarrow> needs_snapshot b key"
    "\<not> be_snapshot env (bf_flags f) \<Longrightarrow> b' = b \<and> r = Inr ()"
proof -
  let ?s0 = "(bk_sink b)\<lparr>ss_window_ids := AList.delete key (ss_window_ids (bk_sink b))\<rparr>"
  have ok0: "seg_ok ?s0" "seg_rows ?s0 = seg_rows (bk_sink b)"
    using ok seg_ok_cong [of ?s0 "bk_sink b"] seg_rows_cong [of ?s0 "bk_sink b"] by auto
  obtain r1 s1 where seal: "segment_seal_partition (be_segment env) key (bk_sink b) = (r1, s1)" by fastforce
  note sl = seal_segment_rows [OF ok0(1) seal [unfolded segment_seal_partition_def]]
  have cases: "(b' = b \<and> r = Inr ()) \<or> (be_snapshot env (bf_flags f) \<and> bk_sink b' = s1 \<and> isl r = isl r1
      \<and> (needs_snapshot b' key \<longrightarrow> needs_snapshot b key))"
    using w seal by (cases r1)
      (auto simp: reinitialize_def needs_snapshot_def boundary_of_def delete_conv' unwrap_or_def boundary_default_def
        split: if_splits)
  show "seg_ok (bk_sink b')" using cases ok sl(3) by auto
  show "k \<noteq> key \<Longrightarrow> seg_rows (bk_sink b') k = seg_rows (bk_sink b) k" using cases sl(1) [of k] ok0(2) by auto
  show "r = Inr () \<Longrightarrow> seg_rows (bk_sink b') = seg_rows (bk_sink b)" using cases sl(2) ok0(2) by auto
  show "needs_snapshot b' key \<Longrightarrow> needs_snapshot b key" using cases by auto
  show "\<not> be_snapshot env (bf_flags f) \<Longrightarrow> b' = b \<and> r = Inr ()" using cases by auto
qed

lemma write_frame_rows:
  assumes enc: "encode_ok (be_segment env)" and ok: "seg_ok (bk_sink b)" and w: "write_frame env key f b = (r, b')"
  shows "seg_ok (bk_sink b')" "k \<noteq> key \<Longrightarrow> seg_rows (bk_sink b') k = seg_rows (bk_sink b) k"
    "\<not> isl r \<Longrightarrow> seg_rows (bk_sink b') key = seg_rows (bk_sink b) key @ frames_rows (admitted_frames env (needs_snapshot b key) [f])
       \<and> needs_snapshot b' key = (needs_snapshot b key \<and> \<not> be_snapshot env (bf_flags f))"
proof -
  obtain r1 b1 where re: "reinitialize env key f b = (r1, b1)" by fastforce
  note rr = reinitialize_rows [OF ok re]
  have "seg_ok (bk_sink b') \<and> (k \<noteq> key \<longrightarrow> seg_rows (bk_sink b') k = seg_rows (bk_sink b) k)
    \<and> (\<not> isl r \<longrightarrow> seg_rows (bk_sink b') key = seg_rows (bk_sink b) key @ frames_rows (admitted_frames env (needs_snapshot b key) [f])
       \<and> needs_snapshot b' key = (needs_snapshot b key \<and> \<not> be_snapshot env (bf_flags f)))"
  proof (cases r1)
    case (Inl e)
    then have "r = Inl e" "b' = b1" using w re by (auto simp: write_frame_def)
    then show ?thesis using rr by auto
  next
    case (Inr u)
    show ?thesis
    proof (cases "needs_snapshot b1 key \<and> \<not> be_snapshot env (bf_flags f)")
      case True
      then have same: "b1 = b" using rr(5) by auto
      have b': "r = Inr []" "b' = set_boundary key (boundary_of b1 key) b1"
        using w re Inr True by (auto simp: write_frame_def prepare_segment_batch_def needs_snapshot_def Let_def)
      then have "bk_sink b' = bk_sink b" "needs_snapshot b' key = needs_snapshot b key"
        by (simp_all add: same needs_snapshot_def)
      then show ?thesis using ok True same b'(1) by (simp add: admitted_frames_def frames_rows_def)
    next
      case False
      obtain r2 s2 where ch: "write_chunks (be_segment env) key [] (bf_deltas f) (bk_sink b1) = (r2, s2)" by fastforce
      have b': "r = r2" "bk_sink b' = s2"
          "needs_snapshot b' key = (needs_snapshot b1 key \<and> \<not> be_snapshot env (bf_flags f))"
        using w re Inr False ch
        by (cases "be_snapshot env (bf_flags f)";
          auto simp: write_frame_def prepare_segment_batch_def needs_snapshot_def Let_def)+
      note wr = write_chunks_rows [OF enc rr(1) ch]
      have "admitted_frames env (needs_snapshot b key) [f] = [f]"
        using False rr(5) by (auto simp: admitted_frames_def)
      moreover have "needs_snapshot b' key = (needs_snapshot b key \<and> \<not> be_snapshot env (bf_flags f))"
        using False rr(4,5) by (auto simp: b'(3))
      ultimately show ?thesis using wr [of k] wr [of key] rr(2,3) Inr b' by (auto simp: frames_rows_def)
    qed
  qed
  then show "seg_ok (bk_sink b')" "k \<noteq> key \<Longrightarrow> seg_rows (bk_sink b') k = seg_rows (bk_sink b) k"
    "\<not> isl r \<Longrightarrow> seg_rows (bk_sink b') key = seg_rows (bk_sink b) key @ frames_rows (admitted_frames env (needs_snapshot b key) [f])
       \<and> needs_snapshot b' key = (needs_snapshot b key \<and> \<not> be_snapshot env (bf_flags f))" by auto
qed

lemma admitted_Cons:
  "admitted_frames env needs (f # fs)
    = admitted_frames env needs [f] @ admitted_frames env (needs \<and> \<not> be_snapshot env (bf_flags f)) fs"
  by (simp add: admitted_frames_def)

lemma frames_rows_append [simp]: "frames_rows (xs @ ys) = frames_rows xs @ frames_rows ys"
  by (simp add: frames_rows_def)

lemma write_frames_rows:
  assumes enc: "encode_ok (be_segment env)" and ok: "seg_ok (bk_sink b)" and w: "write_frames env key batch b = (r, b')"
  shows "seg_ok (bk_sink b') \<and> (k \<noteq> key \<longrightarrow> seg_rows (bk_sink b') k = seg_rows (bk_sink b) k)
    \<and> (\<not> isl r \<longrightarrow> seg_rows (bk_sink b') key = seg_rows (bk_sink b) key @ frames_rows (admitted_frames env (needs_snapshot b key) batch)
       \<and> needs_snapshot b' key = (needs_snapshot b key \<and> list_all (\<lambda>f. \<not> be_snapshot env (bf_flags f)) batch))"
  using ok w
proof (induction batch arbitrary: b r b')
  case Nil
  then show ?case by (auto simp: admitted_frames_def frames_rows_def)
next
  case (Cons f fs)
  obtain r1 b1 where w1: "write_frame env key f b = (r1, b1)" by fastforce
  note wf = write_frame_rows [OF enc Cons.prems(1) w1]
  show ?case
  proof (cases r1)
    case (Inl e)
    then have "r = Inl e" "b' = b1" using Cons.prems(2) w1 by auto
    then show ?thesis using wf(1) wf(2) [of k] by auto
  next
    case (Inr paths)
    obtain r2 b2 where w2: "write_frames env key fs b1 = (r2, b2)" by fastforce
    have r: "r = map_result (\<lambda>more. paths @ more) r2" "b' = b2" using Cons.prems(2) w1 Inr w2 by auto
    have nr: "needs_snapshot b1 key = (needs_snapshot b key \<and> \<not> be_snapshot env (bf_flags f))" using wf(3) Inr by simp
    show ?thesis using Cons.IH [OF wf(1) w2] wf(2) [of k] wf(3) Inr
      by (simp add: r admitted_Cons [of env _ f fs] nr) 
  qed
qed

subsection \<open>The book sink drives the segment sink\<close>

lemma run_calls_single: "run_call env c s = run_calls env [c] s"
  by simp

lemma write_chunks_runs: "\<exists>cs. snd (write_chunks env key chunk ds s) = run_calls env cs s"
proof (induction ds arbitrary: chunk s)
  case Nil
  have "snd (write_chunks env key chunk [] s) = run_calls env (if chunk = [] then [] else [WriteBatch key chunk]) s" by simp
  then show ?case by blast
next
  case (Cons d ds)
  obtain r s1 where w: "segment_write_batch env key (chunk @ [d]) s = (r, s1)" by fastforce
  then have s1: "s1 = run_calls env [WriteBatch key (chunk @ [d])] s" by simp
  obtain cs where cs: "snd (write_chunks env key [] ds s1) = run_calls env cs s1" using Cons by blast
  show ?case
  proof (cases "length (chunk @ [d]) = write_chunk_rows")
    case False
    then show ?thesis using Cons [of "chunk @ [d]" s] by (simp add: Let_def)
  next
    case True
    then have "snd (write_chunks env key chunk (d # ds) s) = (case r of Inl e \<Rightarrow> s1 | Inr paths \<Rightarrow> run_calls env cs s1)"
      using w cs by (auto simp: Let_def split_beta split: sum.splits)
    then have "snd (write_chunks env key chunk (d # ds) s)
        = run_calls env ([WriteBatch key (chunk @ [d])] @ (case r of Inl e \<Rightarrow> [] | Inr paths \<Rightarrow> cs)) s"
      using s1 by (simp only: run_calls_append) (auto split: sum.splits)
    then show ?thesis by blast
  qed
qed

lemma reinitialize_runs: "\<exists>cs. bk_sink (snd (reinitialize env key f b)) = run_calls (be_segment env) cs (bk_sink b)"
proof -
  have "bk_sink (snd (reinitialize env key f b)) = bk_sink b
      \<or> bk_sink (snd (reinitialize env key f b)) = run_calls (be_segment env) [SealPartition key] (bk_sink b)"
    by (auto simp: reinitialize_def split: sum.splits prod.splits)
  then show ?thesis by (metis run_calls.simps(1))
qed

lemma after_reinitialize_runs:
  "\<exists>cs. bk_sink (snd (write_frame env key f b)) = run_calls (be_segment env) cs (bk_sink (snd (reinitialize env key f b)))"
proof -
  obtain r b1 where re: "reinitialize env key f b = (r, b1)" by fastforce
  show ?thesis
  proof (cases r)
    case (Inl e)
    then have "bk_sink (snd (write_frame env key f b)) = run_calls (be_segment env) [] (bk_sink b1)"
      using re by (simp add: write_frame_def)
    then show ?thesis unfolding re snd_conv by (rule exI)
  next
    case (Inr u)
    obtain rows b2 where p: "prepare_segment_batch env key f b1 = (rows, b2)" by fastforce
    then have b2: "bk_sink b2 = bk_sink b1" by (auto simp: prepare_segment_batch_def Let_def split: if_splits)
    show ?thesis
    proof (cases rows)
      case None
      then have "bk_sink (snd (write_frame env key f b)) = run_calls (be_segment env) [] (bk_sink b1)"
        using re Inr p b2 by (simp add: write_frame_def)
      then show ?thesis unfolding re snd_conv by (rule exI)
    next
      case (Some ds)
      then have "bk_sink (snd (write_frame env key f b)) = snd (write_chunks (be_segment env) key [] ds (bk_sink b1))"
        using re Inr p b2 by (simp add: write_frame_def split_beta)
      then show ?thesis using re write_chunks_runs [of "be_segment env" key "[]" ds "bk_sink b1"] by auto
    qed
  qed
qed

lemma runs_trans:
  "\<exists>cs. s1 = run_calls env cs s0 \<Longrightarrow> \<exists>cs. s2 = run_calls env cs s1 \<Longrightarrow> \<exists>cs. s2 = run_calls env cs s0"
  by (metis run_calls_append)

lemma write_frame_runs: "\<exists>cs. bk_sink (snd (write_frame env key f b)) = run_calls (be_segment env) cs (bk_sink b)"
  by (rule runs_trans [OF reinitialize_runs after_reinitialize_runs])

lemma write_frames_runs: "\<exists>cs. bk_sink (snd (write_frames env key fs b)) = run_calls (be_segment env) cs (bk_sink b)"
proof (induction fs arbitrary: b)
  case Nil
  show ?case by (rule exI [of _ "[]"]) simp
next
  case (Cons f fs)
  obtain r b1 where w: "write_frame env key f b = (r, b1)" by fastforce
  show ?case
  proof (cases r)
    case (Inl e)
    then show ?thesis using w write_frame_runs [of env key f b] by simp
  next
    case (Inr paths)
    then have "snd (write_frames env key (f # fs) b) = snd (write_frames env key fs b1)" using w by (simp add: split_beta)
    then show ?thesis using runs_trans [OF write_frame_runs [of env key f b]] Cons [of b1] w by simp
  qed
qed

lemma book_write_sink: "bk_sink (snd (book_write_batch env key batch b)) = bk_sink (snd (write_frames env key batch b))"
  by (auto simp: book_write_batch_def split: sum.splits prod.splits)

lemma lift_sink_snd: "bk_sink (snd (lift_sink f b)) = snd (f (bk_sink b))"
  by (simp add: lift_sink_def split_beta)


lemma book_init_runs:
  "\<exists>cs. bk_sink (snd (book_write_initialization env key d b)) = run_calls (be_segment env) cs (bk_sink b)"
proof -
  have "bk_sink (snd (book_write_initialization env key d b)) = bk_sink b
      \<or> bk_sink (snd (book_write_initialization env key d b))
        = run_calls (be_segment env) [WriteInitialization key (bf_deltas d)] (bk_sink b)"
    by (auto simp: book_write_initialization_def split_beta split: sum.splits)
  then show ?thesis by (metis run_calls.simps(1))
qed

lemma book_seal_sink: "bk_sink (snd (book_seal_partition env key b)) = run_call (be_segment env) (SealPartition key) (bk_sink b)"
  by (auto simp: book_seal_partition_def split: sum.splits prod.splits)

lemma book_break_sink: "bk_sink (snd (book_break_continuity env key b)) = run_call (be_segment env) (BreakContinuity key) (bk_sink b)"
  by (auto simp: book_break_continuity_def split_beta Let_def split: option.splits)

lemma book_sink_refines:
  "\<exists>cs. bk_sink (run_sink_calls (book_ops env) calls b) = run_calls (be_segment env) cs (bk_sink b)"
proof (induction calls arbitrary: b)
  case Nil
  have "bk_sink (run_sink_calls (book_ops env) [] b) = run_calls (be_segment env) [] (bk_sink b)"
    by (simp add: run_sink_calls_def)
  then show ?case by (rule exI)
next
  case (Cons c calls)
  have "\<exists>cs. bk_sink (run_sink_call (book_ops env) c b) = run_calls (be_segment env) cs (bk_sink b)"
  proof (cases c)
    case (WriteCall k batch)
    then show ?thesis using write_frames_runs [of env k batch b] by (simp add: book_ops_def book_write_sink)
  next
    case (InitializeCall k d)
    then show ?thesis using book_init_runs by (simp add: book_ops_def)
  next
    case (TickCall now)
    show ?thesis by (rule exI [of _ "[OnTick now]"]) (simp add: TickCall book_ops_def lift_sink_snd)
  next
    case SealAllCall
    show ?thesis by (rule exI [of _ "[SealAll]"]) (simp add: SealAllCall book_ops_def lift_sink_snd)
  next
    case (SealCall k)
    show ?thesis by (rule exI [of _ "[SealPartition k]"]) (simp add: SealCall book_ops_def book_seal_sink)
  next
    case ShutdownCall
    show ?thesis by (rule exI [of _ "[SealForShutdown]"]) (simp add: ShutdownCall book_ops_def lift_sink_snd)
  next
    case (BreakCall key)
    show ?thesis by (rule exI [of _ "[BreakContinuity key]"]) (simp add: BreakCall book_ops_def book_break_sink)
  qed
  from runs_trans [OF this Cons] show ?case by (simp add: run_sink_calls_def)
qed


subsection \<open>Properties of the book sink\<close>

lemma book_write_rows:
  assumes enc: "encode_ok (be_segment env)" and ok: "seg_ok (bk_sink b)" and w: "book_write_batch env key batch b = (r, b')"
  shows "seg_ok (bk_sink b')" "k \<noteq> key \<Longrightarrow> seg_rows (bk_sink b') k = seg_rows (bk_sink b) k"
    "\<not> isl r \<Longrightarrow> seg_rows (bk_sink b') key = seg_rows (bk_sink b) key @ frames_rows (admitted_frames env (needs_snapshot b key) batch)"
    "needs_snapshot b' key = (if isl r then True else needs_snapshot b key \<and> list_all (\<lambda>f. \<not> be_snapshot env (bf_flags f)) batch)"
proof -
  obtain r1 b1 where f: "write_frames env key batch b = (r1, b1)" by fastforce
  have b': "isl r = isl r1" "bk_sink b' = bk_sink b1" "isl r \<Longrightarrow> needs_snapshot b' key" "\<not> isl r \<Longrightarrow> b' = b1"
    using w f by (cases r1; auto simp: book_write_batch_def needs_snapshot_def)+
  note wf = write_frames_rows [OF enc ok f]
  show "seg_ok (bk_sink b')" "k \<noteq> key \<Longrightarrow> seg_rows (bk_sink b') k = seg_rows (bk_sink b) k"
    "\<not> isl r \<Longrightarrow> seg_rows (bk_sink b') key = seg_rows (bk_sink b) key @ frames_rows (admitted_frames env (needs_snapshot b key) batch)"
    "needs_snapshot b' key = (if isl r then True else needs_snapshot b key \<and> list_all (\<lambda>f. \<not> be_snapshot env (bf_flags f)) batch)"
    using wf [of k] b' by auto
qed


fun book_writes :: "book_env \<Rightarrow> string \<Rightarrow> book_frame list list \<Rightarrow> book_sink \<Rightarrow> bool \<times> book_sink" where
  "book_writes env key [] b = (True, b)"
| "book_writes env key (batch # batches) b =
     (let (r, b) = book_write_batch env key batch b; (good, b) = book_writes env key batches b in (\<not> isl r \<and> good, b))"

lemma dropWhile_append_all: "list_all P xs \<Longrightarrow> dropWhile P (xs @ ys) = dropWhile P ys"
  by (induction xs) auto

lemma dropWhile_append_some: "\<not> list_all P xs \<Longrightarrow> dropWhile P (xs @ ys) = dropWhile P xs @ ys"
  by (induction xs) auto

lemma admitted_append:
  "admitted_frames env needs (xs @ ys) = admitted_frames env needs xs
    @ admitted_frames env (needs \<and> list_all (\<lambda>f. \<not> be_snapshot env (bf_flags f)) xs) ys"
  by (cases "list_all (\<lambda>f. \<not> be_snapshot env (bf_flags f)) xs")
    (auto simp: admitted_frames_def dropWhile_append_all dropWhile_append_some list_all_iff)

lemma book_writes_rows:
  assumes enc: "encode_ok (be_segment env)" and ok: "seg_ok (bk_sink b)" and w: "book_writes env key batches b = (True, b')"
  shows "seg_rows (bk_sink b') key = seg_rows (bk_sink b) key @ frames_rows (admitted_frames env (needs_snapshot b key) (concat batches))"
  using ok w
proof (induction batches arbitrary: b)
  case Nil
  then show ?case by (simp add: admitted_frames_def frames_rows_def)
next
  case (Cons batch batches)
  obtain r b1 where w1: "book_write_batch env key batch b = (r, b1)" by fastforce
  note wr = book_write_rows [OF enc Cons.prems(1) w1]
  have "\<not> isl r" "book_writes env key batches b1 = (True, b')" using Cons.prems(2) w1 by (auto simp: Let_def split: prod.splits)
  with Cons.IH [OF wr(1)] wr(3,4) show ?case by (simp add: admitted_append)
qed

text \<open>
  C20: after a break of continuity of a partition, or a write to it that failed, the increments
  that follow are dropped up to the next snapshot: what later writes add starts at a snapshot.
\<close>

theorem book_resynchronizes:
  assumes "encode_ok (be_segment env)" and "seg_ok (bk_sink b0)"
    and "b = snd (book_break_continuity env (Some key) b0) \<or> (\<exists>e lost. book_write_batch env key lost b0 = (Inl e, b))"
    and "book_writes env key batches b = (True, b')"
  shows "seg_rows (bk_sink b') key = seg_rows (bk_sink b) key
    @ concat (map bf_deltas (dropWhile (\<lambda>f. \<not> be_snapshot env (bf_flags f)) (concat batches)))"
proof -
  have "needs_snapshot b key \<and> seg_ok (bk_sink b)"
    using assms(3)
  proof (elim disjE exE)
    assume b: "b = snd (book_break_continuity env (Some key) b0)"
    have "seg_ok (run_call (be_segment env) (BreakContinuity (Some key)) (bk_sink b0))"
      by (rule run_call_ok [OF assms(1,2)])
    then show ?thesis unfolding b book_break_sink by (simp add: book_break_continuity_def split_beta Let_def needs_snapshot_def)
  next
    fix e lost
    assume w: "book_write_batch env key lost b0 = (Inl e, b)"
    show ?thesis using book_write_rows(1,4) [OF assms(1,2) w] by simp
  qed
  with book_writes_rows [OF assms(1) _ assms(4)] show ?thesis by (simp add: frames_rows_def admitted_frames_def)
qed

text \<open>
  a snapshot that arrives after source rows of its partition, from a venue that does not
  repeat its book routinely, starts a new replay window, whether or not sealing the old one
  succeeds: whatever the partition publishes from then on, in any later history, belongs to a
  window no file published up to and including that seal belongs to.
\<close>

theorem snapshot_starts_window:
  assumes "inj (pe_uuid (se_part (be_segment env)))" and "segment_fresh (bk_sink b0)"
    and b: "b = run_sink_calls (book_ops env) before b0"
    and snap: "be_snapshot env (bf_flags f)" "be_venue env (bf_instrument f) \<notin> set (bk_venues b)"
      "map_of (bk_boundary b) key = Some st" "by_has_source st"
    and s: "s = bk_sink (snd (book_seal_partition env key b))"
    and "(key, new) \<in> set (drop (length (ss_published s))
      (ss_published (bk_sink (run_sink_calls (book_ops env) (WriteCall key (f # fs) # after) b))))"
    and "(k, old) \<in> set (ss_published s)"
  shows "file_window new \<noteq> file_window old"
proof -
  have s1: "bk_sink (snd (reinitialize env key f b)) = s"
    using snap by (auto simp: reinitialize_def s book_seal_partition_def split: sum.splits prod.splits)
  obtain r b1 where w: "write_frame env key f b = (r, b1)" by fastforce
  have 1: "\<exists>cs. bk_sink b1 = run_calls (be_segment env) cs s" using after_reinitialize_runs [of env key f b] s1 w by simp
  have 2: "\<exists>cs. bk_sink (snd (book_write_batch env key (f # fs) b)) = run_calls (be_segment env) cs s"
    using 1 runs_trans [OF 1 write_frames_runs [of env key fs b1]] w
    by (cases r) (simp_all add: book_write_sink split_beta)
  have "\<exists>cs. bk_sink (run_sink_calls (book_ops env) (WriteCall key (f # fs) # after) b) = run_calls (be_segment env) cs s"
    using runs_trans [OF 2 book_sink_refines] by (simp add: run_sink_calls_def book_ops_def)
  then obtain cs where cs: "bk_sink (run_sink_calls (book_ops env) (WriteCall key (f # fs) # after) b) = run_calls (be_segment env) cs s"
    by blast
  obtain cs0 where "bk_sink b = run_calls (be_segment env) cs0 (bk_sink b0)" using book_sink_refines b by blast
  then have "s = run_calls (be_segment env) (cs0 @ [SealPartition key]) (bk_sink b0)"
    by (simp add: s book_seal_sink run_calls_append)
  then have inv: "window_inv (pe_uuid (se_part (be_segment env))) (segment_view s)"
    using window_inv_steps [OF run_calls_steps assms(1) fresh_window_inv [OF assms(2)]] by simp
  have "closed s key"
    using seal_segment_closed [OF prod.collapse [symmetric], where env = "be_segment env" and key = key
        and s = "(bk_sink b)\<lparr>ss_window_ids := AList.delete key (ss_window_ids (bk_sink b))\<rparr>"]
    by (simp add: s book_seal_sink closed_def segment_seal_partition_def delete_conv')
  from closed_new_window [OF assms(1) inv this] assms(9,10) cs show ?thesis by metis
qed

subsection \<open>A sample\<close>

definition sample_book_env :: book_env where
  "sample_book_env = \<lparr>be_segment = \<lparr>se_part = sample_part_env, se_ts = bd_ts_init,
     se_metadata = (\<lambda>_. [(''instrument_id'', ''BTC'')]),
     se_encode = (\<lambda>b. Inr (\<lparr>sch_fields = ''delta'', sch_metadata = []\<rparr>, [b])),
     se_make_path = (\<lambda>_ _. Inr ''/d''), se_type = ''order_book_deltas'', se_root = ''/'', se_order = (\<lambda>_ ks. ks)\<rparr>,
     be_snapshot = (\<lambda>flags. flags = 32), be_venue = (\<lambda>_. ''V''), be_file_len = (\<lambda>_. None)\<rparr>"

definition sample_book_sink :: book_sink where
  "sample_book_sink = \<lparr>bk_sink = \<lparr>ss_segments = [], ss_window_ids = [], ss_sync_interval = 0,
     ss_store = \<lparr>fs_io = 0, fs_paths = [], fs_failed = []\<rparr>, ss_published = []\<rparr>, bk_boundary = [], bk_venues = []\<rparr>"

definition sample_frame :: "nat \<Rightarrow> nat \<Rightarrow> book_frame" where
  "sample_frame flags t = \<lparr>bf_instrument = ''BTC'', bf_deltas = [sample_delta flags t], bf_flags = flags,
     bf_sequence = t, bf_ts_event = t, bf_ts_init = t\<rparr>"

lemma sample_book_facts:
  "inj (pe_uuid (se_part (be_segment sample_book_env)))" "encode_ok (be_segment sample_book_env)"
  "segment_fresh (bk_sink sample_book_sink)" "seg_ok (bk_sink sample_book_sink)"
  using sample_segment_facts(1) by (simp_all add: sample_book_env_def sample_book_sink_def sample_segment_env_def
    segment_fresh_def encode_ok_def seg_ok_def)

lemma sample_book_simps:
  "be_snapshot sample_book_env fl \<longleftrightarrow> fl = 32" "be_venue sample_book_env i = ''V''"
  "se_part (be_segment sample_book_env) = sample_part_env" "se_ts (be_segment sample_book_env) = bd_ts_init"
  "se_metadata (be_segment sample_book_env) b = [(''instrument_id'', ''BTC'')]"
  "se_encode (be_segment sample_book_env) b = Inr (\<lparr>sch_fields = ''delta'', sch_metadata = []\<rparr>, [b])"
  "se_make_path (be_segment sample_book_env) x y = Inr ''/d''" "se_order (be_segment sample_book_env) n ks = ks"
  "bf_flags (sample_frame fl t) = fl" "bf_deltas (sample_frame fl t) = [sample_delta fl t]"
  "bd_ts_init (sample_delta fl t) = t"
  by (simp_all add: sample_book_env_def sample_frame_def sample_delta_def)

lemmas book_run_simps = sample_book_simps book_write_batch_def write_frame_def reinitialize_def
  prepare_segment_batch_def boundary_of_def set_boundary_def boundary_default_def write_chunk_rows_def unwrap_or_def
  book_break_continuity_def sample_book_sink_def sample_run_simps

abbreviation sample_book_before :: book_sink where
  "sample_book_before \<equiv> run_sink_calls (book_ops sample_book_env) [WriteCall ''t'' [sample_frame 32 1, sample_frame 0 2]] sample_book_sink"

lemma sample_book_state:
  "map_of (bk_boundary sample_book_before) ''t'' = Some \<lparr>by_needs_snapshot = False, by_has_source = True\<rparr>"
  "bk_venues sample_book_before = []"
  "map fst (ss_published (bk_sink (snd (book_seal_partition sample_book_env ''t'' sample_book_before)))) = [''t'']"
  "map fst (ss_published (bk_sink (run_sink_calls (book_ops sample_book_env) [WriteCall ''t'' [sample_frame 32 5], SealAllCall]
     sample_book_before))) = [''t'', ''t'']"
  by (simp_all add: run_sink_calls_def book_ops_def book_seal_partition_def lift_sink_def book_run_simps)
    (simp add: numeral_eq_Suc)


theorem book_resynchronizes_witness:
  "seg_rows (bk_sink (snd (book_writes sample_book_env ''t'' [[sample_frame 0 3], [sample_frame 0 4, sample_frame 32 5]]
      (snd (book_break_continuity sample_book_env (Some ''t'') sample_book_before))))) ''t''
    = [sample_delta 32 1, sample_delta 0 2, sample_delta 32 5]"
proof -
  let ?b = "snd (book_break_continuity sample_book_env (Some ''t'') sample_book_before)"
  let ?batches = "[[sample_frame 0 3], [sample_frame 0 4, sample_frame 32 5]]"
  obtain g b' where w: "book_writes sample_book_env ''t'' ?batches ?b = (g, b')" by fastforce
  then have "g" by (auto simp: run_sink_calls_def book_ops_def book_run_simps)
  with w have w': "book_writes sample_book_env ''t'' ?batches ?b = (True, b')" by simp
  have "seg_ok (bk_sink sample_book_before)"
    using sample_book_facts(4) by (simp add: run_sink_calls_def book_ops_def)
      (use book_write_rows(1) [OF sample_book_facts(2,4) prod.collapse [symmetric]] in blast)
  from book_resynchronizes [OF sample_book_facts(2) this disjI1 [OF HOL.refl] w'] w'
  show ?thesis by (simp add: sample_book_simps run_sink_calls_def book_ops_def book_run_simps seg_rows_def published_rows_def
      open_rows_def published_of_def)
qed

theorem snapshot_starts_window_witness:
  "file_window (snd (ss_published (bk_sink (run_sink_calls (book_ops sample_book_env) [WriteCall ''t'' [sample_frame 32 5], SealAllCall]
      sample_book_before)) ! 1))
    \<noteq> file_window (snd (ss_published (bk_sink (snd (book_seal_partition sample_book_env ''t'' sample_book_before))) ! 0))"
  by (rule snapshot_starts_window [OF sample_book_facts(1,3) HOL.refl _ _ sample_book_state(1) _ HOL.refl
        two_files [OF sample_book_state(3,4)]])
    (simp_all only: sample_book_simps sample_book_state(2) list.set, simp_all)

end
