(* ===== verification/Seal_Schedule.thy ===== *)
theory Seal_Schedule
  imports Segment
begin

section \<open>The seal schedule\<close>

text \<open>
  \<open>crates/catalog-capture-core/src/lifecycle/seal.rs\<close>: from a time of day, a time zone and an
  interval, the next instant at which the open segments are sealed.

  An instant (\<open>DateTime\<close>) is its number of nanoseconds since the epoch, an \<open>int\<close>; a date is a day
  number. The parsers and the time-zone database of the crates chrono and chrono-tz are the
  parameter \<open>chrono_api\<close>; \<open>chrono_ok\<close> states what their documentation promises: a timestamp in
  the range of a \<open>u64\<close> of nanoseconds denotes that instant, and the representable instants reach
  far beyond two times that range. Adding past the last one panics. The two loops need not end
  for an interval of 0 and may end in that panic, so they are partial functions: \<open>None\<close> is a
  call that does not return.
\<close>

datatype local_result = SingleTime int | AmbiguousTime int int | NoTime

record 'tz chrono_api =
  ct_parse :: "string \<Rightarrow> string \<Rightarrow> (nat \<times> nat) option"
  ct_zone :: "string \<Rightarrow> 'tz option"
  ct_timestamp :: "int \<Rightarrow> nat \<Rightarrow> int option"
  ct_now :: int
  ct_date :: "'tz \<Rightarrow> int \<Rightarrow> int"
  ct_from_local :: "'tz \<Rightarrow> int \<Rightarrow> nat \<Rightarrow> local_result"
  ct_last :: int

definition chrono_ok :: "'tz chrono_api \<Rightarrow> bool" where
  "chrono_ok api \<longleftrightarrow> (\<forall>secs nanos. 0 \<le> secs \<and> secs < 2 ^ 35 \<and> nanos < 1000000000 \<longrightarrow>
       ct_timestamp api secs nanos = Some (secs * 1000000000 + int nanos))
     \<and> 2 ^ 65 \<le> ct_last api"

definition nanoseconds_in_second :: nat where
  "nanoseconds_in_second = 1000000000"

definition i64_max :: int where
  "i64_max = 2 ^ 63 - 1"

record 'tz resolved_seal_schedule =
  rs_schedule :: nat
  rs_timezone :: 'tz
  rs_interval :: nat

subsection \<open>Reading the configuration\<close>

definition is_space :: "char \<Rightarrow> bool" where
  "is_space c = (let n = of_char c :: nat in n = 32 \<or> (9 \<le> n \<and> n \<le> 13))"

definition trim :: "string \<Rightarrow> string" where
  "trim s = rev (dropWhile is_space (rev (dropWhile is_space s)))"

definition parse_seal_schedule :: "'tz chrono_api \<Rightarrow> string \<Rightarrow> nat result" where
  "parse_seal_schedule api value =
     (let trimmed = trim value;
          parsed = (case ct_parse api trimmed ''%H:%M'' of
              Some t \<Rightarrow> Some t | None \<Rightarrow> ct_parse api trimmed ''%H:%M:%S'')
      in case parsed of
           None \<Rightarrow> Inl (InvalidConfig ''seal schedule'')
         | Some (secs, nanos) \<Rightarrow> Inr (sat_add (sat_mul secs nanoseconds_in_second) nanos))"

definition parse_seal_timezone :: "'tz chrono_api \<Rightarrow> string \<Rightarrow> 'tz result" where
  "parse_seal_timezone api value =
     (case ct_zone api (trim value) of None \<Rightarrow> Inl (InvalidConfig ''seal timezone'') | Some tz \<Rightarrow> Inr tz)"

definition resolve_seal_schedule :: "'tz chrono_api \<Rightarrow> seal_config_file \<Rightarrow> 'tz resolved_seal_schedule result" where
  "resolve_seal_schedule api config =
     (case parse_seal_schedule api (sc_schedule config) of
        Inl e \<Rightarrow> Inl e
      | Inr schedule \<Rightarrow>
          (case parse_seal_timezone api (sc_timezone config) of
             Inl e \<Rightarrow> Inl e
           | Inr tz \<Rightarrow> Inr \<lparr>rs_schedule = schedule, rs_timezone = tz,
               rs_interval = sat_mul (max (sc_interval_secs config) 1) nanoseconds_in_second\<rparr>))"

subsection \<open>Instants\<close>

definition utc_datetime_from_ns :: "'tz chrono_api \<Rightarrow> nat \<Rightarrow> int" where
  "utc_datetime_from_ns api now_ns =
     (let secs = (if int (now_ns div nanoseconds_in_second) \<le> i64_max then int (now_ns div nanoseconds_in_second) else i64_max);
          nanos = (if now_ns mod nanoseconds_in_second < 2 ^ 32 then now_ns mod nanoseconds_in_second else 0)
      in case ct_timestamp api secs nanos of Some t \<Rightarrow> t | None \<Rightarrow> ct_now api)"

text \<open>\<open>timestamp_nanos_opt\<close> answers only in the range of an \<open>i64\<close>; the code takes 0 otherwise.\<close>

definition datetime_to_ns :: "int \<Rightarrow> nat" where
  "datetime_to_ns t = nat (max 0 (if - i64_max - 1 \<le> t \<and> t \<le> i64_max then t else 0))"

definition add_interval :: "'tz chrono_api \<Rightarrow> int \<Rightarrow> nat \<Rightarrow> int option" where
  "add_interval api t interval_ns =
     (let secs = (if int (interval_ns div nanoseconds_in_second) \<le> i64_max
            then int (interval_ns div nanoseconds_in_second) else i64_max);
          nanos = (if interval_ns mod nanoseconds_in_second < 2 ^ 31 then int (interval_ns mod nanoseconds_in_second) else 0);
          t1 = t + secs * 1000000000
      in if t1 > ct_last api then None
         else if t1 + nanos > ct_last api then None
         else Some (t1 + nanos))"

definition schedule_time_naive :: "nat \<Rightarrow> nat" where
  "schedule_time_naive schedule_ns =
     (let secs = schedule_ns div nanoseconds_in_second;
          secs = (if secs < 2 ^ 32 then secs else 0);
          nanos = (if schedule_ns mod nanoseconds_in_second < 2 ^ 32 then schedule_ns mod nanoseconds_in_second else 0)
      in if secs < 86400 then secs * nanoseconds_in_second + nanos else 0)"

text \<open>A time that is ambiguous is the earlier one; one that a clock change skips is tomorrow's, or else taken as UTC.\<close>

definition resolve_local_schedule_datetime :: "'tz chrono_api \<Rightarrow> 'tz \<Rightarrow> int \<Rightarrow> nat \<Rightarrow> int" where
  "resolve_local_schedule_datetime api tz date schedule =
     (case ct_from_local api tz date schedule of
        SingleTime t \<Rightarrow> t
      | AmbiguousTime earlier later \<Rightarrow> earlier
      | NoTime \<Rightarrow>
          (case ct_from_local api tz (date + 1) schedule of
             SingleTime t \<Rightarrow> t
           | _ \<Rightarrow> date * 86400000000000 + int schedule))"

subsection \<open>The next boundary\<close>

partial_function (option) advance_past :: "'tz chrono_api \<Rightarrow> nat \<Rightarrow> int \<Rightarrow> int \<Rightarrow> int option" where
  "advance_past api ivl now next =
     (if next \<le> now then Option.bind (add_interval api next ivl) (advance_past api ivl now) else Some next)"

partial_function (option) advance_past_ns :: "'tz chrono_api \<Rightarrow> nat \<Rightarrow> nat \<Rightarrow> int \<Rightarrow> int option" where
  "advance_past_ns api ivl now_ns next =
     (if datetime_to_ns next \<le> now_ns
      then Option.bind (add_interval api next ivl) (advance_past_ns api ivl now_ns) else Some next)"

definition next_boundary_datetime :: "'tz chrono_api \<Rightarrow> int \<Rightarrow> 'tz resolved_seal_schedule \<Rightarrow> int option" where
  "next_boundary_datetime api now sched =
     (let schedule = schedule_time_naive (rs_schedule sched);
          next = resolve_local_schedule_datetime api (rs_timezone sched) (ct_date api (rs_timezone sched) now) schedule
      in if next \<le> now then advance_past api (rs_interval sched) now next else Some next)"

definition next_seal_boundary_ns :: "'tz chrono_api \<Rightarrow> nat \<Rightarrow> 'tz resolved_seal_schedule \<Rightarrow> nat option" where
  "next_seal_boundary_ns api now_ns sched =
     (let now_tz = utc_datetime_from_ns api now_ns
      in case next_boundary_datetime api now_tz sched of
           None \<Rightarrow> None
         | Some next \<Rightarrow> map_option datetime_to_ns (advance_past_ns api (rs_interval sched) now_ns next))"

definition should_seal_at :: "nat \<Rightarrow> nat \<Rightarrow> bool" where
  "should_seal_at now_ns next_seal_ns = (now_ns \<ge> next_seal_ns)"

subsection \<open>Lemmas\<close>

lemma utc_datetime_exact:
  assumes "chrono_ok api" "now_ns \<le> u64_max"
  shows "utc_datetime_from_ns api now_ns = int now_ns"
proof -
  have "int (now_ns div 1000000000) < 2 ^ 35" "int (now_ns div 1000000000) \<le> i64_max"
    using assms(2) by (simp_all add: u64_max_def i64_max_def)
  then have "ct_timestamp api (int (now_ns div 1000000000)) (now_ns mod 1000000000)
      = Some (int (now_ns div 1000000000) * 1000000000 + int (now_ns mod 1000000000))"
    using assms(1) by (simp add: chrono_ok_def)
  moreover have "int (now_ns div 1000000000) * 1000000000 + int (now_ns mod 1000000000) = int now_ns"
    by (simp add: zdiv_int zmod_int)
  moreover have "now_ns mod 1000000000 < 2 ^ 32" by (rule less_trans [of _ 1000000000]) simp_all
  ultimately show ?thesis using \<open>int (now_ns div 1000000000) \<le> i64_max\<close>
    by (simp add: utc_datetime_from_ns_def nanoseconds_in_second_def Let_def)
qed

lemma add_interval_exact:
  assumes "ivl \<le> u64_max"
  shows "add_interval api t ivl = (if t + int ivl \<le> ct_last api then Some (t + int ivl) else None)"
proof -
  have "int (ivl div 1000000000) \<le> i64_max" using assms by (simp add: u64_max_def i64_max_def)
  moreover have "int (ivl div 1000000000) * 1000000000 + int (ivl mod 1000000000) = int ivl"
    by (simp add: zdiv_int zmod_int)
  moreover have "(ivl mod 1000000000) < 2 ^ 31" by (rule less_trans [of _ 1000000000]) simp_all
  ultimately show ?thesis
    by (auto simp: add_interval_def nanoseconds_in_second_def Let_def)
qed

text \<open>The first loop stops at the first of \<open>t\<close>, \<open>t + i\<close>, \<open>t + 2 i\<close>, ... that is after \<open>now\<close>.\<close>

definition first_after :: "int \<Rightarrow> int \<Rightarrow> nat \<Rightarrow> int" where
  "first_after now t ivl = (if t \<le> now then t + ((now - t) div int ivl + 1) * int ivl else t)"

lemma first_after_bounds:
  assumes "0 < ivl"
  shows "now < first_after now t ivl" "t \<le> now \<Longrightarrow> first_after now t ivl \<le> now + int ivl"
    "\<exists>k \<ge> 0. first_after now t ivl = t + k * int ivl"
proof -
  define q where "q = (now - t) div int ivl"
  have m: "now - t = q * int ivl + (now - t) mod int ivl" by (simp add: q_def)
  have r: "0 \<le> (now - t) mod int ivl" "(now - t) mod int ivl < int ivl" using assms by simp_all
  have e: "(q + 1) * int ivl = q * int ivl + int ivl" by (simp add: algebra_simps)
  show "now < first_after now t ivl" using m r e by (simp add: first_after_def q_def [symmetric])
  show "t \<le> now \<Longrightarrow> first_after now t ivl \<le> now + int ivl"
    using m r e by (simp add: first_after_def q_def [symmetric])
  have "t \<le> now \<Longrightarrow> 0 \<le> q" using assms by (simp add: q_def pos_imp_zdiv_nonneg_iff)
  then show "\<exists>k \<ge> 0. first_after now t ivl = t + k * int ivl"
    by (cases "t \<le> now") (auto simp: first_after_def q_def [symmetric] intro: exI [of _ "q + 1"] exI [of _ 0])
qed

lemma first_after_step: "0 < ivl \<Longrightarrow> t \<le> now \<Longrightarrow> first_after now (t + int ivl) ivl = first_after now t ivl"
proof -
  assume i: "0 < ivl" and t: "t \<le> now"
  have "(now - (t + int ivl)) div int ivl = (now - t) div int ivl - 1"
    using i div_add_self2 [of "int ivl" "now - (t + int ivl)"] by simp
  moreover have "\<not> t + int ivl \<le> now \<Longrightarrow> (now - t) div int ivl = 0" using t by simp
  ultimately show ?thesis using t by (auto simp: first_after_def algebra_simps)
qed

lemma advance_past_exact:
  assumes i: "0 < ivl" "ivl \<le> u64_max" and now: "now + int ivl \<le> ct_last api"
  shows "advance_past api ivl now t = Some (first_after now t ivl)"
proof (induction "nat (now - t)" arbitrary: t rule: less_induct)
  case less
  show ?case
  proof (cases "t \<le> now")
    case False
    then show ?thesis by (subst advance_past.simps) (simp add: first_after_def)
  next
    case True
    have "advance_past api ivl now (t + int ivl) = Some (first_after now (t + int ivl) ivl)"
    proof (cases "t + int ivl \<le> now")
      case True
      then have "nat (now - (t + int ivl)) < nat (now - t)" using i by simp
      then show ?thesis by (rule less)
    next
      case False
      then show ?thesis by (subst advance_past.simps) (simp add: first_after_def)
    qed
    then show ?thesis using True now i
      by (subst advance_past.simps) (simp add: add_interval_exact first_after_step)
  qed
qed

text \<open>Past the range of an \<open>i64\<close> the second loop never returns: every instant reads as 0.\<close>

lemma advance_past_ns_far:
  assumes "i64_max < next" "ivl \<le> u64_max"
  shows "advance_past_ns api ivl now_ns next = None"
proof -
  have "i64_max < t \<longrightarrow> ivl \<le> u64_max \<longrightarrow> False" if "advance_past_ns api ivl now_ns t = Some y" for t y
  proof (rule advance_past_ns.raw_induct [where P = "\<lambda>_ i _ t _. i64_max < t \<longrightarrow> i \<le> u64_max \<longrightarrow> False", rotated, OF that])
    fix f and api' :: "'a chrono_api" and i n t y
    assume hyp: "\<And>a i n t y. f a i n t = Some y \<Longrightarrow> i64_max < t \<longrightarrow> i \<le> u64_max \<longrightarrow> False"
      and step: "(if datetime_to_ns t \<le> n then Option.bind (add_interval api' t i) (f api' i n) else Some t) = Some y"
    show "i64_max < t \<longrightarrow> i \<le> u64_max \<longrightarrow> False"
    proof (intro impI)
      assume far: "i64_max < t" and i: "i \<le> u64_max"
      then have "datetime_to_ns t = 0" by (simp add: datetime_to_ns_def)
      then have "f api' i n (t + int i) = Some y"
        using step i by (auto simp: add_interval_exact split: if_splits)
      from hyp [OF this] far i show False by simp
    qed
  qed
  with assms show ?thesis by (cases "advance_past_ns api ivl now_ns next") auto
qed

lemma next_boundary_datetime_exact:
  assumes "chrono_ok api" "0 < rs_interval sched" "rs_interval sched \<le> u64_max" "now \<le> int u64_max"
  shows "next_boundary_datetime api now sched = Some (first_after now (resolve_local_schedule_datetime api
    (rs_timezone sched) (ct_date api (rs_timezone sched) now) (schedule_time_naive (rs_schedule sched))) (rs_interval sched))"
proof -
  have "now + int (rs_interval sched) \<le> ct_last api"
    using assms by (simp add: chrono_ok_def u64_max_def)
  from advance_past_exact [OF assms(2,3) this] show ?thesis
    by (simp add: next_boundary_datetime_def Let_def first_after_def)
qed

subsection \<open>Properties\<close>

abbreviation todays_boundary :: "'tz chrono_api \<Rightarrow> nat \<Rightarrow> 'tz resolved_seal_schedule \<Rightarrow> int" where
  "todays_boundary api now sched \<equiv> resolve_local_schedule_datetime api (rs_timezone sched)
     (ct_date api (rs_timezone sched) (int now)) (schedule_time_naive (rs_schedule sched))"

lemma next_seal_boundary_cases:
  assumes "chrono_ok api" "now \<le> u64_max" "0 < rs_interval sched" "rs_interval sched \<le> u64_max"
  shows "next_seal_boundary_ns api now sched =
    (let b = first_after (int now) (todays_boundary api now sched) (rs_interval sched)
     in if b \<le> i64_max then Some (nat b) else None)"
proof -
  define b where "b = first_after (int now) (todays_boundary api now sched) (rs_interval sched)"
  have b: "int now < b" using first_after_bounds(1) [OF assms(3)] by (simp add: b_def)
  have "next_boundary_datetime api (int now) sched = Some b"
    using next_boundary_datetime_exact [OF assms(1,3,4), of "int now"] assms(2) by (simp add: b_def)
  then have "next_seal_boundary_ns api now sched = map_option datetime_to_ns (advance_past_ns api (rs_interval sched) now b)"
    by (simp add: next_seal_boundary_ns_def utc_datetime_exact assms)
  also have "\<dots> = (if b \<le> i64_max then Some (nat b) else None)"
  proof (cases "b \<le> i64_max")
    case True
    then have "datetime_to_ns b = nat b" using b by (simp add: datetime_to_ns_def)
    then have "advance_past_ns api (rs_interval sched) now b = Some b" "datetime_to_ns b = nat b"
      using b by (simp_all add: advance_past_ns.simps nat_le_iff)
    then show ?thesis using True by simp
  next
    case False
    then show ?thesis using advance_past_ns_far [of b "rs_interval sched"] assms(4) by simp
  qed
  finally show ?thesis by (simp add: b_def)
qed

text \<open>
  the next seal boundary is the first instant of the schedule after now: today's scheduled
  time in the configured zone if it is still to come, otherwise that time plus the least number of
  intervals. When that instant lies past the year 2262, where nanoseconds leave the range of an
  i64, the call does not return: the loop reads every instant as 0 and adds the interval until
  the calendar overflows and panics.
\<close>

theorem next_seal_boundary_exact:
  assumes "chrono_ok api" "now \<le> u64_max" "0 < rs_interval sched" "rs_interval sched \<le> u64_max"
  shows "next_seal_boundary_ns api now sched =
    (let start = todays_boundary api now sched;
         b = (if start \<le> int now then start + ((int now - start) div int (rs_interval sched) + 1) * int (rs_interval sched) else start)
     in if b \<le> i64_max then Some (nat b) else None)"
  using next_seal_boundary_cases [OF assms] by (simp add: first_after_def Let_def)


text \<open>A calendar in UTC, and the default configuration: daily at six.\<close>

definition utc_api :: "unit chrono_api" where
  "utc_api = \<lparr>ct_parse = (\<lambda>text fmt. if text = ''06:00'' \<and> fmt = ''%H:%M'' then Some (21600, 0) else None),
     ct_zone = (\<lambda>name. if name = ''UTC'' then Some () else None),
     ct_timestamp = (\<lambda>secs nanos. Some (secs * 1000000000 + int nanos)), ct_now = 0,
     ct_date = (\<lambda>_ t. t div 86400000000000),
     ct_from_local = (\<lambda>_ d time. SingleTime (d * 86400000000000 + int time)), ct_last = 2 ^ 70\<rparr>"

lemma utc_ok: "chrono_ok utc_api"
  by (simp add: chrono_ok_def utc_api_def)

abbreviation six_daily :: "unit resolved_seal_schedule" where
  "six_daily \<equiv> \<lparr>rs_schedule = 21600000000000, rs_timezone = (), rs_interval = 86400000000000\<rparr>"

lemma default_resolves: "resolve_seal_schedule utc_api default_seal_config = Inr six_daily"
proof -
  have t: "trim ''06:00'' = ''06:00''" "trim ''UTC'' = ''UTC''" by (simp_all add: trim_def is_space_def)
  show ?thesis
    by (simp add: resolve_seal_schedule_def default_seal_config_def parse_seal_schedule_def parse_seal_timezone_def
      utc_api_def t nanoseconds_in_second_def sat_mul_def sat_add_def u64_max_def Let_def)
qed

lemma six_daily_start: "todays_boundary utc_api 100000000000000 six_daily = 108000000000000"
  by (simp add: resolve_local_schedule_datetime_def schedule_time_naive_def utc_api_def nanoseconds_in_second_def Let_def)

theorem next_seal_boundary_exact_witness:
  "next_seal_boundary_ns utc_api 100000000000000 six_daily = Some 108000000000000"
  using next_seal_boundary_exact [OF utc_ok, of 100000000000000 six_daily] six_daily_start
  by (simp add: u64_max_def i64_max_def Let_def)


end
