(* ===== verification/Plan.thy ===== *)
theory Plan
  imports Config
begin

section \<open>Capture plans\<close>

text \<open>
  \<open>crates/catalog-capture-core/src/plan.rs\<close>: what to capture, one list of specifications per
  family, the instruments and the writers a plan needs, and the difference of two plans that a
  running capture applies when its plan changes.

  Nautilus's instrument ids are any linearly ordered type \<open>'i\<close>, bar types a type \<open>'b\<close>. A data
  type is its name, its metadata and its identifier. Metadata values are \<open>serde_json::Value\<close>s: a
  number is an unsigned 64-bit integer or anything else, as text.
\<close>

datatype json =
    JNull
  | JBool bool
  | JUint nat
  | JNumber string
  | JString string
  | JArray "json list"
  | JObject "(string \<times> json) list"

record data_type =
  dt_type_name :: string
  dt_metadata :: "(string \<times> json) list option"
  dt_identifier :: "string option"

datatype book_type = L1 | L2 | L3

record 'i id_spec = sp_instrument :: 'i

record 'i book_spec =
  bs_instrument :: 'i
  bs_book_type :: book_type
  bs_depth :: "nat option"

record 'b bar_spec = br_bar_type :: 'b

record custom_spec = cd_data_type :: data_type

datatype request_overlap_policy = Skip

record custom_request_spec =
  cq_data_type :: data_type
  cq_interval_secs :: nat
  cq_fire_immediately :: bool
  cq_overlap_policy :: request_overlap_policy
  cq_request_timeout_secs :: nat
  cq_client_id :: "string option"

definition metadata_str :: "data_type \<Rightarrow> string \<Rightarrow> string option" where
  "metadata_str d option =
     (case dt_metadata d of
        None \<Rightarrow> None
      | Some m \<Rightarrow> (case map_of m option of Some (JString s) \<Rightarrow> Some s | _ \<Rightarrow> None))"

definition predict_type :: string where
  "predict_type = ''PredictCryptoUpDown''"

definition records_payload :: "custom_spec \<Rightarrow> bool" where
  "records_payload s = (dt_type_name (cd_data_type s) \<noteq> predict_type
     \<or> metadata_str (cd_data_type s) ''record_snapshot'' \<noteq> Some ''false'')"

fun overlap_as_str :: "request_overlap_policy \<Rightarrow> string" where
  "overlap_as_str Skip = ''skip''"

record family_flags =
  ff_instruments :: bool
  ff_custom_data :: bool
  ff_custom_data_requests :: bool
  ff_quotes :: bool
  ff_trades :: bool
  ff_bars :: bool
  ff_book_deltas :: bool
  ff_book_depth :: bool
  ff_mark_prices :: bool
  ff_index_prices :: bool
  ff_funding_rates :: bool
  ff_instrument_statuses :: bool
  ff_instrument_closes :: bool
  ff_option_greeks :: bool

definition needs_custom_data_writer :: "family_flags \<Rightarrow> bool" where
  "needs_custom_data_writer f = (ff_custom_data f \<or> ff_custom_data_requests f)"

definition count_enabled :: "family_flags \<Rightarrow> nat" where
  "count_enabled f = length (filter (\<lambda>enabled. enabled)
     [ff_instruments f, needs_custom_data_writer f, ff_quotes f, ff_trades f, ff_bars f, ff_book_deltas f,
      ff_book_depth f, ff_mark_prices f, ff_index_prices f, ff_funding_rates f, ff_instrument_statuses f,
      ff_instrument_closes f, ff_option_greeks f])"

record ('i, 'b) capture_plan =
  pl_instruments :: "'i id_spec list"
  pl_quotes :: "'i id_spec list"
  pl_trades :: "'i id_spec list"
  pl_bars :: "'b bar_spec list"
  pl_book_deltas :: "'i book_spec list"
  pl_book_depth :: "'i book_spec list"
  pl_mark_prices :: "'i id_spec list"
  pl_index_prices :: "'i id_spec list"
  pl_funding_rates :: "'i id_spec list"
  pl_instrument_statuses :: "'i id_spec list"
  pl_instrument_closes :: "'i id_spec list"
  pl_option_greeks :: "'i id_spec list"
  pl_forward_prices :: "'i id_spec list"
  pl_custom_data :: "custom_spec list"
  pl_custom_data_requests :: "custom_request_spec list"

definition predict_recording_count :: "('i, 'b) capture_plan \<Rightarrow> string \<Rightarrow> nat" where
  "predict_recording_count p option = length (filter (\<lambda>s. dt_type_name (cd_data_type s) = predict_type
     \<and> metadata_str (cd_data_type s) option = Some ''true'') (pl_custom_data p))"

definition predict_records :: "('i, 'b) capture_plan \<Rightarrow> string \<Rightarrow> bool" where
  "predict_records p option = (predict_recording_count p option > 0)"

definition plan_is_empty :: "('i, 'b) capture_plan \<Rightarrow> bool" where
  "plan_is_empty p = (pl_instruments p = [] \<and> pl_quotes p = [] \<and> pl_trades p = [] \<and> pl_bars p = []
     \<and> pl_book_deltas p = [] \<and> pl_book_depth p = [] \<and> pl_mark_prices p = [] \<and> pl_index_prices p = []
     \<and> pl_funding_rates p = [] \<and> pl_instrument_statuses p = [] \<and> pl_instrument_closes p = []
     \<and> pl_option_greeks p = [] \<and> pl_forward_prices p = [] \<and> pl_custom_data p = []
     \<and> pl_custom_data_requests p = [])"

text \<open>A \<open>BTreeSet\<close> is the sorted list of its elements; \<open>extend\<close> inserts.\<close>

definition btree_extend :: "'a::linorder list \<Rightarrow> 'a list \<Rightarrow> 'a list" where
  "btree_extend ids xs = foldl (\<lambda>s x. if x \<in> set s then s else insort x s) ids xs"

definition extend_planned_instrument_ids :: "('i::linorder, 'b) capture_plan \<Rightarrow> 'i list \<Rightarrow> 'i list" where
  "extend_planned_instrument_ids p ids =
     foldl btree_extend ids
       [map sp_instrument (pl_instruments p), map sp_instrument (pl_quotes p), map sp_instrument (pl_trades p),
        map bs_instrument (pl_book_deltas p), map bs_instrument (pl_book_depth p), map sp_instrument (pl_mark_prices p),
        map sp_instrument (pl_index_prices p), map sp_instrument (pl_funding_rates p),
        map sp_instrument (pl_instrument_statuses p), map sp_instrument (pl_instrument_closes p),
        map sp_instrument (pl_option_greeks p), map sp_instrument (pl_forward_prices p)]"

definition planned_instrument_ids :: "('i::linorder, 'b) capture_plan \<Rightarrow> 'i list" where
  "planned_instrument_ids p = extend_planned_instrument_ids p []"

definition family_runtime_flags :: "('i::linorder, 'b) capture_plan \<Rightarrow> family_flags" where
  "family_runtime_flags p =
     (let dynamic_predict_instruments = list_ex (\<lambda>s. dt_type_name (cd_data_type s) = predict_type) (pl_custom_data p)
      in \<lparr>ff_instruments = (planned_instrument_ids p \<noteq> [] \<or> dynamic_predict_instruments),
          ff_custom_data = list_ex records_payload (pl_custom_data p),
          ff_custom_data_requests = (pl_custom_data_requests p \<noteq> []),
          ff_quotes = (pl_quotes p \<noteq> []),
          ff_trades = (pl_trades p \<noteq> [] \<or> predict_records p ''record_trades''),
          ff_bars = (pl_bars p \<noteq> []),
          ff_book_deltas = (pl_book_deltas p \<noteq> []),
          ff_book_depth = (pl_book_depth p \<noteq> [] \<or> predict_records p ''record_depth''),
          ff_mark_prices = (pl_mark_prices p \<noteq> []),
          ff_index_prices = (pl_index_prices p \<noteq> []),
          ff_funding_rates = (pl_funding_rates p \<noteq> []),
          ff_instrument_statuses = (pl_instrument_statuses p \<noteq> []),
          ff_instrument_closes = (pl_instrument_closes p \<noteq> []),
          ff_option_greeks = (pl_option_greeks p \<noteq> [])\<rparr>)"

definition enabled_background_worker_count :: "('i::linorder, 'b) capture_plan \<Rightarrow> nat" where
  "enabled_background_worker_count p = count_enabled (family_runtime_flags p)"

definition capture_spec_difference :: "'a list \<Rightarrow> 'a list \<Rightarrow> 'a list" where
  "capture_spec_difference l r = filter (\<lambda>spec. spec \<notin> set r) l"

definition capture_plan_difference ::
  "('i, 'b) capture_plan \<Rightarrow> ('i, 'b) capture_plan \<Rightarrow> ('i, 'b) capture_plan" where
  "capture_plan_difference l r = \<lparr>
     pl_instruments = capture_spec_difference (pl_instruments l) (pl_instruments r),
     pl_quotes = capture_spec_difference (pl_quotes l) (pl_quotes r),
     pl_trades = capture_spec_difference (pl_trades l) (pl_trades r),
     pl_bars = capture_spec_difference (pl_bars l) (pl_bars r),
     pl_book_deltas = capture_spec_difference (pl_book_deltas l) (pl_book_deltas r),
     pl_book_depth = capture_spec_difference (pl_book_depth l) (pl_book_depth r),
     pl_mark_prices = capture_spec_difference (pl_mark_prices l) (pl_mark_prices r),
     pl_index_prices = capture_spec_difference (pl_index_prices l) (pl_index_prices r),
     pl_funding_rates = capture_spec_difference (pl_funding_rates l) (pl_funding_rates r),
     pl_instrument_statuses = capture_spec_difference (pl_instrument_statuses l) (pl_instrument_statuses r),
     pl_instrument_closes = capture_spec_difference (pl_instrument_closes l) (pl_instrument_closes r),
     pl_option_greeks = capture_spec_difference (pl_option_greeks l) (pl_option_greeks r),
     pl_forward_prices = capture_spec_difference (pl_forward_prices l) (pl_forward_prices r),
     pl_custom_data = capture_spec_difference (pl_custom_data l) (pl_custom_data r),
     pl_custom_data_requests = capture_spec_difference (pl_custom_data_requests l) (pl_custom_data_requests r)\<rparr>"

text \<open>On sets of ids, given as sorted lists.\<close>

definition plan_instrument_ids :: "('i::linorder, 'b) capture_plan \<Rightarrow> 'i list" where
  "plan_instrument_ids p = btree_extend [] (planned_instrument_ids p)"

definition instrument_id_difference :: "'i list \<Rightarrow> 'i list \<Rightarrow> 'i list" where
  "instrument_id_difference l r = filter (\<lambda>x. x \<notin> set r) l"

definition instrument_id_overlap_and_new :: "'i list \<Rightarrow> 'i list \<Rightarrow> 'i list \<times> 'i list" where
  "instrument_id_overlap_and_new existing candidate =
     (filter (\<lambda>x. x \<in> set existing) candidate, instrument_id_difference candidate existing)"

subsection \<open>Lemmas\<close>

definition btree_set :: "'a::linorder list \<Rightarrow> bool" where
  "btree_set s = (sorted s \<and> distinct s)"

lemma btree_insert: "btree_set s \<Longrightarrow> btree_set (if x \<in> set s then s else insort x s)
    \<and> set (if x \<in> set s then s else insort x s) = insert x (set s)"
  by (auto simp: btree_set_def sorted_insort distinct_insort set_insort_key)

lemma btree_extend_set:
  assumes "btree_set s"
  shows "btree_set (btree_extend s xs)" "set (btree_extend s xs) = set s \<union> set xs"
proof -
  have "btree_set (btree_extend s xs) \<and> set (btree_extend s xs) = set s \<union> set xs"
    using assms
  proof (induction xs arbitrary: s)
    case Nil
    then show ?case by (simp add: btree_extend_def)
  next
    case (Cons x xs)
    have "btree_extend s (x # xs) = btree_extend (if x \<in> set s then s else insort x s) xs" by (simp add: btree_extend_def)
    with Cons.IH [OF conjunct1 [OF btree_insert [OF Cons.prems, of x]]] btree_insert [OF Cons.prems, of x]
    show ?case by auto
  qed
  then show "btree_set (btree_extend s xs)" "set (btree_extend s xs) = set s \<union> set xs" by simp_all
qed

lemma foldl_btree_extend:
  "btree_set s \<Longrightarrow> btree_set (foldl btree_extend s xss) \<and> set (foldl btree_extend s xss) = set s \<union> \<Union> (set ` set xss)"
  by (induction xss arbitrary: s) (auto simp: btree_extend_set)

definition plan_ids :: "('i, 'b) capture_plan \<Rightarrow> 'i set" where
  "plan_ids p = sp_instrument ` set (pl_instruments p @ pl_quotes p @ pl_trades p @ pl_mark_prices p @ pl_index_prices p
       @ pl_funding_rates p @ pl_instrument_statuses p @ pl_instrument_closes p @ pl_option_greeks p @ pl_forward_prices p)
     \<union> bs_instrument ` set (pl_book_deltas p @ pl_book_depth p)"

lemma planned_ids: "btree_set (planned_instrument_ids p)" "set (planned_instrument_ids p) = plan_ids p"
proof -
  have e: "btree_set ([] :: 'a list)" by (simp add: btree_set_def)
  show "btree_set (planned_instrument_ids p)"
    using foldl_btree_extend [OF e] unfolding planned_instrument_ids_def extend_planned_instrument_ids_def by blast
  show "set (planned_instrument_ids p) = plan_ids p"
    unfolding planned_instrument_ids_def extend_planned_instrument_ids_def foldl_btree_extend [OF e, THEN conjunct2]
    by (auto simp: plan_ids_def)
qed

lemma spec_difference_set [simp]: "set (capture_spec_difference l r) = set l - set r"
  by (auto simp: capture_spec_difference_def)

subsection \<open>Properties\<close>

text \<open>
  the planned instruments are every id of every instrument-scoped family, once and in order,
  and splitting another plan's ids against them gives, in order and without repetition, the ids
  both have and the ids only the other has.
\<close>

theorem planned_ids_exact:
  fixes p q :: "('i::linorder, 'b) capture_plan"
  shows "sorted_wrt (<) (planned_instrument_ids p) \<and> set (planned_instrument_ids p) = plan_ids p
   \<and> plan_instrument_ids p = planned_instrument_ids p
   \<and> (let (both, fresh) = instrument_id_overlap_and_new (plan_instrument_ids p) (plan_instrument_ids q)
      in sorted_wrt (<) both \<and> sorted_wrt (<) fresh \<and> set both = plan_ids p \<inter> plan_ids q \<and> set fresh = plan_ids q - plan_ids p)"
proof -
  have e: "btree_set ([] :: 'i list)" by (simp add: btree_set_def)
  have pl: "btree_set (plan_instrument_ids p)" "set (plan_instrument_ids p) = plan_ids p" for p :: "('i, 'b) capture_plan"
    using btree_extend_set [OF e, of "planned_instrument_ids p"] planned_ids [of p]
    by (simp_all add: plan_instrument_ids_def)
  have "plan_instrument_ids p = planned_instrument_ids p"
    using pl [of p] planned_ids [of p] by (intro sorted_distinct_set_unique) (simp_all add: btree_set_def)
  moreover have "sorted_wrt (<) xs" if "btree_set xs" for xs :: "'i list"
    using that by (simp add: btree_set_def strict_sorted_iff)
  moreover have "btree_set (filter P xs)" if "btree_set xs" for P and xs :: "'i list"
    using that sorted_filter [of "\<lambda>x. x" xs P] by (simp add: btree_set_def)
  ultimately show ?thesis using planned_ids [of p] pl [of p] pl [of q]
    by (auto simp: instrument_id_overlap_and_new_def instrument_id_difference_def)
qed

text \<open>The specifications of a family after some are dropped and others added.\<close>

definition moved :: "'a list \<Rightarrow> 'a list \<Rightarrow> 'a list \<Rightarrow> 'a set" where
  "moved old dropped added = (set old - set dropped) \<union> set added"

text \<open>
  a running capture that moves from one plan to another by dropping the difference to the new
  plan and adding the difference to the old one has exactly the specifications of the new plan,
  in every family; and nothing is both dropped and added.
\<close>

theorem plan_difference_moves:
  "let dropped = capture_plan_difference old new; added = capture_plan_difference new old in
    moved (pl_instruments old) (pl_instruments dropped) (pl_instruments added) = set (pl_instruments new)
    \<and> moved (pl_quotes old) (pl_quotes dropped) (pl_quotes added) = set (pl_quotes new)
    \<and> moved (pl_trades old) (pl_trades dropped) (pl_trades added) = set (pl_trades new)
    \<and> moved (pl_bars old) (pl_bars dropped) (pl_bars added) = set (pl_bars new)
    \<and> moved (pl_book_deltas old) (pl_book_deltas dropped) (pl_book_deltas added) = set (pl_book_deltas new)
    \<and> moved (pl_book_depth old) (pl_book_depth dropped) (pl_book_depth added) = set (pl_book_depth new)
    \<and> moved (pl_mark_prices old) (pl_mark_prices dropped) (pl_mark_prices added) = set (pl_mark_prices new)
    \<and> moved (pl_index_prices old) (pl_index_prices dropped) (pl_index_prices added) = set (pl_index_prices new)
    \<and> moved (pl_funding_rates old) (pl_funding_rates dropped) (pl_funding_rates added) = set (pl_funding_rates new)
    \<and> moved (pl_instrument_statuses old) (pl_instrument_statuses dropped) (pl_instrument_statuses added) = set (pl_instrument_statuses new)
    \<and> moved (pl_instrument_closes old) (pl_instrument_closes dropped) (pl_instrument_closes added) = set (pl_instrument_closes new)
    \<and> moved (pl_option_greeks old) (pl_option_greeks dropped) (pl_option_greeks added) = set (pl_option_greeks new)
    \<and> moved (pl_forward_prices old) (pl_forward_prices dropped) (pl_forward_prices added) = set (pl_forward_prices new)
    \<and> moved (pl_custom_data old) (pl_custom_data dropped) (pl_custom_data added) = set (pl_custom_data new)
    \<and> moved (pl_custom_data_requests old) (pl_custom_data_requests dropped) (pl_custom_data_requests added)
        = set (pl_custom_data_requests new)
    \<and> plan_ids added \<subseteq> plan_ids new \<and> plan_ids dropped \<subseteq> plan_ids old"
  unfolding Let_def by (intro conjI) (auto simp: moved_def capture_plan_difference_def plan_ids_def)

text \<open>
  a plan starts no background writer exactly when it is empty: every specification, also a
  rolling selector whose snapshots are not recorded, gets a writer for what it produces. There
  are never more than thirteen.
\<close>

theorem workers_iff_nonempty:
  "(enabled_background_worker_count p = 0 \<longleftrightarrow> plan_is_empty p) \<and> enabled_background_worker_count p \<le> 13"
proof -
  have ids: "planned_instrument_ids p = [] \<longleftrightarrow> plan_ids p = {}" using planned_ids(2) [of p] by auto
  have writes: "needs_custom_data_writer (family_runtime_flags p) \<or> ff_instruments (family_runtime_flags p)"
    if "pl_custom_data p \<noteq> []"
    using that by (cases "pl_custom_data p")
      (auto simp: needs_custom_data_writer_def family_runtime_flags_def records_payload_def Let_def)
  have "count_enabled f = 0 \<longleftrightarrow> \<not> (ff_instruments f \<or> needs_custom_data_writer f \<or> ff_quotes f \<or> ff_trades f \<or> ff_bars f
      \<or> ff_book_deltas f \<or> ff_book_depth f \<or> ff_mark_prices f \<or> ff_index_prices f \<or> ff_funding_rates f
      \<or> ff_instrument_statuses f \<or> ff_instrument_closes f \<or> ff_option_greeks f)" for f
    by (auto simp: count_enabled_def)
  moreover have "count_enabled f \<le> 13" for f
    unfolding count_enabled_def by (rule order_trans [OF length_filter_le]) simp
  ultimately show ?thesis using writes ids
    by (auto simp: enabled_background_worker_count_def plan_is_empty_def family_runtime_flags_def plan_ids_def
      needs_custom_data_writer_def predict_records_def predict_recording_count_def Let_def)
qed

end
