(* ===== verification/Book_Validation.thy ===== *)
theory Book_Validation
  imports Replay
begin

section \<open>Validation of a recorded order book\<close>

text \<open>
  \<open>crates/catalog-capture-core/src/order_book_validation.rs\<close>: a catalogue's order-book deltas are
  read back, the framing of snapshots is checked, every segment file is looked into, and the whole
  stream is applied to a managed book. Reading the catalogue, the record flags and the book are
  Nautilus's and parameters in \<open>validation_api\<close>.
\<close>

record 'b validation_api =
  va_rows :: "book_delta list result"
  va_intervals :: "(nat \<times> nat) list result"
  va_segment_rows :: "nat \<Rightarrow> nat \<Rightarrow> book_delta list result"
  va_snapshot :: "nat \<Rightarrow> bool"
  va_last :: "nat \<Rightarrow> bool"
  va_apply :: "book_delta list \<Rightarrow> 'b result"
  va_bids :: "'b \<Rightarrow> nat"
  va_asks :: "'b \<Rightarrow> nat"

record replay_report =
  rp_instrument :: string
  rp_row_count :: nat
  rp_segment_count :: nat
  rp_snapshot_segment_count :: nat
  rp_snapshot_batch_count :: nat
  rp_first_ts :: nat
  rp_last_ts :: nat
  rp_final_bids :: nat
  rp_final_asks :: nat

text \<open>\<open>windows(2)\<close>: every adjacent pair.\<close>

fun in_order :: "book_delta list \<Rightarrow> bool" where
  "in_order (a # b # rows) = (if bd_ts_init a > bd_ts_init b then False else in_order (b # rows))"
| "in_order rows = True"

text \<open>The scan of the flags: the number of snapshot batches, and whether the last one is still open.\<close>

fun scan_snapshots :: "'b validation_api \<Rightarrow> nat \<Rightarrow> bool \<Rightarrow> book_delta list \<Rightarrow> nat \<times> bool" where
  "scan_snapshots api found opened [] = (found, opened)"
| "scan_snapshots api found opened (delta # rows) =
     (let is_snapshot = va_snapshot api (bd_flags delta);
          is_last = va_last api (bd_flags delta);
          (found, opened) = (if is_snapshot \<and> \<not> opened then (found + 1, True) else (found, opened));
          opened = (if is_last \<and> opened then False else opened)
      in scan_snapshots api found opened rows)"

fun scan_segments :: "'b validation_api \<Rightarrow> bool \<Rightarrow> nat \<Rightarrow> (nat \<times> nat) list \<Rightarrow> nat result" where
  "scan_segments api require_segment_snapshots found [] = Inr found"
| "scan_segments api require_segment_snapshots found ((start, final) # intervals) =
     (case va_segment_rows api start final of
        Inl e \<Rightarrow> Inl e
      | Inr segment_rows \<Rightarrow>
          if segment_rows = [] then Inl (External ''empty order-book segment'')
          else if list_ex (\<lambda>row. va_snapshot api (bd_flags row)) segment_rows
          then scan_segments api require_segment_snapshots (found + 1) intervals
          else if require_segment_snapshots then Inl (External ''segment contains no F_SNAPSHOT reset'')
          else scan_segments api require_segment_snapshots found intervals)"

definition validate_order_book_replay :: "'b validation_api \<Rightarrow> string \<Rightarrow> bool \<Rightarrow> replay_report result" where
  "validate_order_book_replay api instrument require_segment_snapshots =
     (case va_rows api of
        Inl e \<Rightarrow> Inl e
      | Inr rows \<Rightarrow>
          if rows = [] then Inl (External ''no order_book_deltas rows found'')
          else if \<not> in_order rows then Inl (External ''order_book_deltas timestamps are out of order'')
          else let (snapshot_batch_count, open_snapshot) = scan_snapshots api 0 False rows
            in if open_snapshot then Inl (External ''final snapshot batch is missing F_LAST'')
               else if snapshot_batch_count = 0 then Inl (External ''no F_SNAPSHOT batch found'')
               else case va_intervals api of
                   Inl e \<Rightarrow> Inl e
                 | Inr intervals \<Rightarrow>
                     (case scan_segments api require_segment_snapshots 0 intervals of
                        Inl e \<Rightarrow> Inl e
                      | Inr snapshot_segment_count \<Rightarrow>
                          (case va_apply api rows of
                             Inl e \<Rightarrow> Inl e
                           | Inr book \<Rightarrow> Inr \<lparr>rp_instrument = instrument, rp_row_count = length rows,
                               rp_segment_count = length intervals, rp_snapshot_segment_count = snapshot_segment_count,
                               rp_snapshot_batch_count = snapshot_batch_count, rp_first_ts = bd_ts_init (hd rows),
                               rp_last_ts = bd_ts_init (last rows), rp_final_bids = va_bids api book,
                               rp_final_asks = va_asks api book\<rparr>)))"

subsection \<open>What the scans compute\<close>

lemma in_order_sorted: "in_order rows = sorted (map bd_ts_init rows)"
  by (induction rows rule: in_order.induct) auto

text \<open>A stream is framed when every snapshot row is followed, or is itself, the last of its message.\<close>

definition framed :: "'b validation_api \<Rightarrow> book_delta list \<Rightarrow> bool" where
  "framed api rows = (\<forall>before d after. rows = before @ d # after \<longrightarrow> va_snapshot api (bd_flags d) \<longrightarrow>
     list_ex (\<lambda>x. va_last api (bd_flags x)) (d # after))"

lemma framed_Cons:
  "framed api (d # ds) \<longleftrightarrow> framed api ds \<and> (va_snapshot api (bd_flags d) \<longrightarrow> list_ex (\<lambda>x. va_last api (bd_flags x)) (d # ds))"
  unfolding framed_def by (auto simp: Cons_eq_append_conv)

lemma scan_snapshots_open:
  "snd (scan_snapshots api n opened rows) \<longleftrightarrow>
     \<not> framed api rows \<or> opened \<and> \<not> list_ex (\<lambda>x. va_last api (bd_flags x)) rows"
proof (induction rows arbitrary: n opened)
  case Nil
  then show ?case by (simp add: framed_def)
next
  case (Cons d ds)
  show ?case unfolding framed_Cons
    by (cases "va_snapshot api (bd_flags d)"; cases "va_last api (bd_flags d)"; cases opened) (simp_all add: Let_def Cons)
qed

lemma scan_snapshots_mono: "n \<le> fst (scan_snapshots api n opened rows)"
proof (induction rows arbitrary: n opened)
  case (Cons d ds)
  have "Suc n \<le> fst (scan_snapshots api (Suc n) p ds) \<and> n \<le> fst (scan_snapshots api n p ds)" for p using Cons by blast
  then show ?case by (auto simp: Let_def intro: order_trans [of n "Suc n"])
qed simp

lemma scan_snapshots_some:
  "0 < fst (scan_snapshots api 0 False rows) \<longleftrightarrow> list_ex (\<lambda>x. va_snapshot api (bd_flags x)) rows"
proof (induction rows)
  case (Cons d ds)
  have "0 < fst (scan_snapshots api (Suc 0) p ds)" for p using scan_snapshots_mono [of "Suc 0" api p ds] by simp
  with Cons show ?case by (simp add: Let_def)
qed simp

lemma scan_snapshots_bound: "fst (scan_snapshots api n opened rows) \<le> n + length (filter (\<lambda>x. va_snapshot api (bd_flags x)) rows)"
proof (induction rows arbitrary: n opened)
  case (Cons d ds)
  have "fst (scan_snapshots api (Suc n) p ds) \<le> Suc n + length (filter (\<lambda>x. va_snapshot api (bd_flags x)) ds)"
      "fst (scan_snapshots api n p ds) \<le> n + length (filter (\<lambda>x. va_snapshot api (bd_flags x)) ds)" for p using Cons by blast+
  then show ?case by (auto simp: Let_def intro: order_trans [OF _ le_SucI])
qed simp

definition segment_has_snapshot :: "'b validation_api \<Rightarrow> nat \<times> nat \<Rightarrow> bool" where
  "segment_has_snapshot api = (\<lambda>(a, b). case va_segment_rows api a b of
     Inl _ \<Rightarrow> False | Inr rows \<Rightarrow> list_ex (\<lambda>row. va_snapshot api (bd_flags row)) rows)"

definition segment_readable :: "'b validation_api \<Rightarrow> nat \<times> nat \<Rightarrow> bool" where
  "segment_readable api = (\<lambda>(a, b). case va_segment_rows api a b of Inl _ \<Rightarrow> False | Inr rows \<Rightarrow> rows \<noteq> [])"

lemma scan_segments_exact:
  "scan_segments api require n intervals = Inr m \<longleftrightarrow>
     list_all (segment_readable api) intervals \<and> (require \<longrightarrow> list_all (segment_has_snapshot api) intervals)
     \<and> m = n + length (filter (segment_has_snapshot api) intervals)"
proof (induction intervals arbitrary: n)
  case (Cons p ivs)
  obtain a b where p: "p = (a, b)" by fastforce
  show ?case
  proof (cases "va_segment_rows api a b")
    case (Inl e)
    then have "\<not> segment_readable api p" by (simp add: segment_readable_def p)
    with Inl show ?thesis by (simp add: p)
  next
    case (Inr rows)
    then have "segment_readable api p \<longleftrightarrow> rows \<noteq> []"
        "segment_has_snapshot api p \<longleftrightarrow> list_ex (\<lambda>row. va_snapshot api (bd_flags row)) rows"
      by (simp_all add: segment_readable_def segment_has_snapshot_def p)
    with Inr Cons show ?thesis by (cases "rows = []") (auto simp: p)
  qed
qed auto

subsection \<open>The validation\<close>

text \<open>
  the validation succeeds exactly when the catalogue can be read, has rows, in the order of
  their timestamps, every snapshot message is closed, there is one, every segment file has rows
  and, where asked for, a snapshot, and the book accepts the whole stream. The report then counts
  the rows, the segments and those with a snapshot, all of them where snapshots are required,
  and names the first and the last timestamp, in that order.
\<close>

theorem book_validation_exact:
  assumes rows: "va_rows api = Inr rows" and iv: "va_intervals api = Inr intervals"
  shows "((\<exists>rep. validate_order_book_replay api instrument require = Inr rep) \<longleftrightarrow>
      rows \<noteq> [] \<and> sorted (map bd_ts_init rows) \<and> framed api rows \<and> list_ex (\<lambda>x. va_snapshot api (bd_flags x)) rows
      \<and> list_all (segment_readable api) intervals \<and> (require \<longrightarrow> list_all (segment_has_snapshot api) intervals)
      \<and> (\<exists>book. va_apply api rows = Inr book))
    \<and> (\<forall>rep. validate_order_book_replay api instrument require = Inr rep \<longrightarrow>
      rp_row_count rep = length rows \<and> rp_segment_count rep = length intervals
      \<and> rp_snapshot_segment_count rep = length (filter (segment_has_snapshot api) intervals)
      \<and> (require \<longrightarrow> rp_snapshot_segment_count rep = rp_segment_count rep)
      \<and> 0 < rp_snapshot_batch_count rep
      \<and> rp_snapshot_batch_count rep \<le> length (filter (\<lambda>x. va_snapshot api (bd_flags x)) rows)
      \<and> rp_first_ts rep \<le> rp_last_ts rep)" (is "?iff \<and> (\<forall>rep. _ rep \<longrightarrow> ?counts rep)")
proof -
  obtain n opened where sc: "scan_snapshots api 0 False rows = (n, opened)" by fastforce
  have opened: "opened \<longleftrightarrow> \<not> framed api rows" using scan_snapshots_open [of api 0 False rows] sc by simp
  have n: "0 < n \<longleftrightarrow> list_ex (\<lambda>x. va_snapshot api (bd_flags x)) rows" using scan_snapshots_some [of api rows] sc by simp
  define result where "result m book = \<lparr>rp_instrument = instrument, rp_row_count = length rows,
      rp_segment_count = length intervals, rp_snapshot_segment_count = m, rp_snapshot_batch_count = n,
      rp_first_ts = bd_ts_init (hd rows), rp_last_ts = bd_ts_init (last rows),
      rp_final_bids = va_bids api book, rp_final_asks = va_asks api book\<rparr>" for m book
  have exact: "validate_order_book_replay api instrument require = Inr rep \<longleftrightarrow>
      rows \<noteq> [] \<and> sorted (map bd_ts_init rows) \<and> framed api rows \<and> list_ex (\<lambda>x. va_snapshot api (bd_flags x)) rows
      \<and> (\<exists>m book. scan_segments api require 0 intervals = Inr m \<and> va_apply api rows = Inr book \<and> rep = result m book)" for rep
    unfolding n [symmetric]
    by (auto simp: validate_order_book_replay_def rows iv sc opened in_order_sorted result_def split: sum.splits if_splits)
  have counts: "?counts rep" if "validate_order_book_replay api instrument require = Inr rep" for rep
  proof -
    from that obtain m book where f: "rows \<noteq> []" "sorted (map bd_ts_init rows)" "list_ex (\<lambda>x. va_snapshot api (bd_flags x)) rows"
        "scan_segments api require 0 intervals = Inr m" and rep: "rep = result m book"
      unfolding exact by blast
    have m: "m = length (filter (segment_has_snapshot api) intervals)" "require \<Longrightarrow> list_all (segment_has_snapshot api) intervals"
      using f(4) unfolding scan_segments_exact by auto
    have req: "require \<Longrightarrow> m = length intervals"
      using m by (simp add: list_all_iff)
    have "bd_ts_init (hd rows) \<le> bd_ts_init (last rows)"
      using f(1,2) by (cases rows) (auto simp: list_all_iff last_in_set)
    moreover have "n \<le> length (filter (\<lambda>x. va_snapshot api (bd_flags x)) rows)"
      using scan_snapshots_bound [of api 0 False rows] sc by simp
    ultimately show "?counts rep" using n f(3) m(1) req by (simp add: rep result_def)
  qed
  have ?iff unfolding exact scan_segments_exact by auto
  then show ?thesis by (rule conjI) (use counts in blast)
qed

text \<open>A stream of one snapshot message and one increment in one segment; flag 32 is a snapshot, 128 the last row.\<close>

definition sample_rows_validated :: "book_delta list" where
  "sample_rows_validated = map (\<lambda>(flags, t). \<lparr>bd_instrument = ''BTC'', bd_flags = flags, bd_sequence = t,
     bd_ts_event = t, bd_ts_init = t, bd_order = []\<rparr>) [(32, 1), (160, 1), (128, 4)]"

definition sample_validation :: "nat validation_api" where
  "sample_validation = \<lparr>va_rows = Inr sample_rows_validated, va_intervals = Inr [(1, 4)],
     va_segment_rows = (\<lambda>_ _. Inr sample_rows_validated), va_snapshot = (\<lambda>f. f = 32 \<or> f = 160),
     va_last = (\<lambda>f. f \<ge> 128), va_apply = (\<lambda>rows. Inr (length rows)), va_bids = (\<lambda>n. n), va_asks = (\<lambda>n. 0)\<rparr>"

theorem book_validation_exact_witness:
  "\<exists>rep. validate_order_book_replay sample_validation ''BTC'' True = Inr rep \<and> rp_row_count rep = 3
     \<and> rp_snapshot_segment_count rep = rp_segment_count rep"
proof -
  have "va_rows sample_validation = Inr sample_rows_validated" "va_intervals sample_validation = Inr [(1, 4)]"
    by (simp_all add: sample_validation_def)
  note v = book_validation_exact [OF this, of "''BTC''" True]
  have "framed sample_validation sample_rows_validated"
    using scan_snapshots_open [of sample_validation 0 False sample_rows_validated]
    by (simp add: sample_rows_validated_def sample_validation_def)
  then have "\<exists>rep. validate_order_book_replay sample_validation ''BTC'' True = Inr rep"
    unfolding conjunct1 [OF v]
    by (simp add: sample_validation_def sample_rows_validated_def segment_readable_def segment_has_snapshot_def)
  then obtain rep where "validate_order_book_replay sample_validation ''BTC'' True = Inr rep" ..
  with conjunct2 [OF v] show ?thesis by (auto simp: sample_rows_validated_def)
qed

end
