(* ===== verification/Plan_Algebra.thy ===== *)
theory Plan_Algebra
  imports Plan
begin

section \<open>Merging and moving capture plans\<close>

text \<open>
  \<open>merge_capture_plans\<close> of \<open>crates/catalog-capture-core/src/option_universe/expand.rs\<close> and the
  plan deltas of \<open>crates/catalog-capture-runtime-adapter/src/dynamic_plan.rs\<close>. What a plan asks
  for is a set of specifications, each tagged with its family (\<open>plan_specs\<close>); on these sets a
  merge is a union and a difference a difference, which carries the reasoning about plans that
  change while a capture runs.
\<close>

definition extend_unique :: "'a list \<Rightarrow> 'a list \<Rightarrow> 'a list" where
  "extend_unique target xs = foldl (\<lambda>acc x. if x \<in> set acc then acc else acc @ [x]) target xs"

definition merge_capture_plans :: "('i, 'b) capture_plan \<Rightarrow> ('i, 'b) capture_plan \<Rightarrow> ('i, 'b) capture_plan" where
  "merge_capture_plans base addition = \<lparr>
     pl_instruments = extend_unique (pl_instruments base) (pl_instruments addition),
     pl_quotes = extend_unique (pl_quotes base) (pl_quotes addition),
     pl_trades = extend_unique (pl_trades base) (pl_trades addition),
     pl_bars = extend_unique (pl_bars base) (pl_bars addition),
     pl_book_deltas = extend_unique (pl_book_deltas base) (pl_book_deltas addition),
     pl_book_depth = extend_unique (pl_book_depth base) (pl_book_depth addition),
     pl_mark_prices = extend_unique (pl_mark_prices base) (pl_mark_prices addition),
     pl_index_prices = extend_unique (pl_index_prices base) (pl_index_prices addition),
     pl_funding_rates = extend_unique (pl_funding_rates base) (pl_funding_rates addition),
     pl_instrument_statuses = extend_unique (pl_instrument_statuses base) (pl_instrument_statuses addition),
     pl_instrument_closes = extend_unique (pl_instrument_closes base) (pl_instrument_closes addition),
     pl_option_greeks = extend_unique (pl_option_greeks base) (pl_option_greeks addition),
     pl_forward_prices = extend_unique (pl_forward_prices base) (pl_forward_prices addition),
     pl_custom_data = extend_unique (pl_custom_data base) (pl_custom_data addition),
     pl_custom_data_requests = extend_unique (pl_custom_data_requests base) (pl_custom_data_requests addition)\<rparr>"

definition empty_plan :: "('i, 'b) capture_plan" where
  "empty_plan = \<lparr>pl_instruments = [], pl_quotes = [], pl_trades = [], pl_bars = [], pl_book_deltas = [],
     pl_book_depth = [], pl_mark_prices = [], pl_index_prices = [], pl_funding_rates = [],
     pl_instrument_statuses = [], pl_instrument_closes = [], pl_option_greeks = [], pl_forward_prices = [],
     pl_custom_data = [], pl_custom_data_requests = []\<rparr>"

subsection \<open>Deltas\<close>

record ('i, 'b, 'c, 'r) plan_delta =
  pd_add :: "('i, 'b) capture_plan"
  pd_remove :: "('i, 'b) capture_plan"
  pd_changes :: "'c list"
  pd_resolution_records :: "'r list"

definition delta_is_empty :: "('i, 'b, 'c, 'r) plan_delta \<Rightarrow> bool" where
  "delta_is_empty d = (plan_is_empty (pd_add d) \<and> plan_is_empty (pd_remove d))"

definition build_dynamic_plan_delta ::
  "('i, 'b) capture_plan \<Rightarrow> ('i, 'b) capture_plan \<Rightarrow> 'c list \<Rightarrow> 'r list \<Rightarrow> ('i, 'b, 'c, 'r) plan_delta" where
  "build_dynamic_plan_delta prev next_plan changes records = \<lparr>
     pd_add = capture_plan_difference next_plan prev,
     pd_remove = capture_plan_difference prev next_plan,
     pd_changes = changes,
     pd_resolution_records = records\<rparr>"

subsection \<open>Plans as sets of specifications\<close>

datatype ('i, 'b) capture_spec =
    InstrumentSpec "'i id_spec" | QuoteSpec "'i id_spec" | TradeSpec "'i id_spec" | BarSpec "'b bar_spec"
  | BookDeltasSpec "'i book_spec" | BookDepthSpec "'i book_spec" | MarkPriceSpec "'i id_spec"
  | IndexPriceSpec "'i id_spec" | FundingRateSpec "'i id_spec" | InstrumentStatusSpec "'i id_spec"
  | InstrumentCloseSpec "'i id_spec" | OptionGreeksSpec "'i id_spec" | ForwardPriceSpec "'i id_spec"
  | CustomDataSpec custom_spec | CustomRequestSpec custom_request_spec

definition plan_spec_list :: "('i, 'b) capture_plan \<Rightarrow> ('i, 'b) capture_spec list" where
  "plan_spec_list p = map InstrumentSpec (pl_instruments p) @ map QuoteSpec (pl_quotes p) @ map TradeSpec (pl_trades p)
     @ map BarSpec (pl_bars p) @ map BookDeltasSpec (pl_book_deltas p) @ map BookDepthSpec (pl_book_depth p)
     @ map MarkPriceSpec (pl_mark_prices p) @ map IndexPriceSpec (pl_index_prices p)
     @ map FundingRateSpec (pl_funding_rates p) @ map InstrumentStatusSpec (pl_instrument_statuses p)
     @ map InstrumentCloseSpec (pl_instrument_closes p) @ map OptionGreeksSpec (pl_option_greeks p)
     @ map ForwardPriceSpec (pl_forward_prices p) @ map CustomDataSpec (pl_custom_data p)
     @ map CustomRequestSpec (pl_custom_data_requests p)"

definition plan_specs :: "('i, 'b) capture_plan \<Rightarrow> ('i, 'b) capture_spec set" where
  "plan_specs p = set (plan_spec_list p)"

text \<open>The instrument a specification is for; bars carry it in their type, custom data has none.\<close>

fun spec_instrument :: "('i, 'b) capture_spec \<Rightarrow> 'i option" where
  "spec_instrument (InstrumentSpec s) = Some (sp_instrument s)"
| "spec_instrument (QuoteSpec s) = Some (sp_instrument s)"
| "spec_instrument (TradeSpec s) = Some (sp_instrument s)"
| "spec_instrument (BookDeltasSpec s) = Some (bs_instrument s)"
| "spec_instrument (BookDepthSpec s) = Some (bs_instrument s)"
| "spec_instrument (MarkPriceSpec s) = Some (sp_instrument s)"
| "spec_instrument (IndexPriceSpec s) = Some (sp_instrument s)"
| "spec_instrument (FundingRateSpec s) = Some (sp_instrument s)"
| "spec_instrument (InstrumentStatusSpec s) = Some (sp_instrument s)"
| "spec_instrument (InstrumentCloseSpec s) = Some (sp_instrument s)"
| "spec_instrument (OptionGreeksSpec s) = Some (sp_instrument s)"
| "spec_instrument (ForwardPriceSpec s) = Some (sp_instrument s)"
| "spec_instrument (BarSpec s) = None"
| "spec_instrument (CustomDataSpec s) = None"
| "spec_instrument (CustomRequestSpec s) = None"

lemma extend_unique_set [simp]: "set (extend_unique target xs) = set target \<union> set xs"
  unfolding extend_unique_def by (induction xs arbitrary: target) auto

lemma extend_unique_distinct: "distinct target \<Longrightarrow> distinct (extend_unique target xs)"
  unfolding extend_unique_def by (induction xs arbitrary: target) auto

lemma plan_specs_iff:
  "s \<in> plan_specs p \<longleftrightarrow> (case s of
     InstrumentSpec x \<Rightarrow> x \<in> set (pl_instruments p) | QuoteSpec x \<Rightarrow> x \<in> set (pl_quotes p)
   | TradeSpec x \<Rightarrow> x \<in> set (pl_trades p) | BarSpec y \<Rightarrow> y \<in> set (pl_bars p)
   | BookDeltasSpec z \<Rightarrow> z \<in> set (pl_book_deltas p) | BookDepthSpec z \<Rightarrow> z \<in> set (pl_book_depth p)
   | MarkPriceSpec x \<Rightarrow> x \<in> set (pl_mark_prices p) | IndexPriceSpec x \<Rightarrow> x \<in> set (pl_index_prices p)
   | FundingRateSpec x \<Rightarrow> x \<in> set (pl_funding_rates p)
   | InstrumentStatusSpec x \<Rightarrow> x \<in> set (pl_instrument_statuses p)
   | InstrumentCloseSpec x \<Rightarrow> x \<in> set (pl_instrument_closes p)
   | OptionGreeksSpec x \<Rightarrow> x \<in> set (pl_option_greeks p) | ForwardPriceSpec x \<Rightarrow> x \<in> set (pl_forward_prices p)
   | CustomDataSpec c \<Rightarrow> c \<in> set (pl_custom_data p) | CustomRequestSpec r \<Rightarrow> r \<in> set (pl_custom_data_requests p))"
  by (cases s) (simp_all add: plan_specs_def plan_spec_list_def image_iff)

lemma plan_specs_merge [simp]: "plan_specs (merge_capture_plans p q) = plan_specs p \<union> plan_specs q"
  by (rule set_eqI) (simp add: plan_specs_iff merge_capture_plans_def split: capture_spec.split)

lemma plan_specs_difference [simp]: "plan_specs (capture_plan_difference p q) = plan_specs p - plan_specs q"
  by (rule set_eqI) (simp add: plan_specs_iff capture_plan_difference_def split: capture_spec.split)

lemma plan_specs_empty [simp]: "plan_specs empty_plan = {}"
  by (simp add: plan_specs_def plan_spec_list_def empty_plan_def)

lemma plan_is_empty_specs: "plan_is_empty p \<longleftrightarrow> plan_specs p = {}"
  by (simp add: plan_is_empty_def plan_specs_def plan_spec_list_def)

lemma plan_ids_specs: "plan_ids p = {i. \<exists>s \<in> plan_specs p. spec_instrument s = Some i}"
proof -
  have image: "{i. \<exists>s \<in> set xs. f s = i} = f ` set xs" for f :: "'c \<Rightarrow> 'a" and xs by auto
  have union: "{i. \<exists>s \<in> A \<union> B. spec_instrument s = Some i}
      = {i. \<exists>s \<in> A. spec_instrument s = Some i} \<union> {i. \<exists>s \<in> B. spec_instrument s = Some i}"
    for A B :: "('a, 'b) capture_spec set" by auto
  show ?thesis
    unfolding plan_specs_def plan_spec_list_def plan_ids_def by (simp add: image_Un Un_ac union image)
qed

lemma planned_iff_spec: "i \<in> set (planned_instrument_ids p) \<longleftrightarrow> (\<exists>s \<in> plan_specs p. spec_instrument s = Some i)"
  by (simp add: planned_ids plan_ids_specs)

lemma delta_moves:
  "(plan_specs prev - plan_specs (pd_remove (build_dynamic_plan_delta prev next_plan cs rs)))
     \<union> plan_specs (pd_add (build_dynamic_plan_delta prev next_plan cs rs)) = plan_specs next_plan"
  "plan_specs (pd_add (build_dynamic_plan_delta prev next_plan cs rs)) \<inter> plan_specs prev = {}"
  "delta_is_empty (build_dynamic_plan_delta prev next_plan cs rs) \<longleftrightarrow> plan_specs prev = plan_specs next_plan"
  by (auto simp: build_dynamic_plan_delta_def delta_is_empty_def plan_is_empty_specs)

text \<open>A change of the plan changes the planned instruments only through its specifications.\<close>

lemma plan_ids_merge [simp]: "plan_ids (merge_capture_plans p q) = plan_ids p \<union> plan_ids q"
  by (auto simp: plan_ids_specs)

lemma plan_instrument_ids_set: "set (plan_instrument_ids p) = plan_ids p" "btree_set (plan_instrument_ids p)"
proof -
  have e: "btree_set ([] :: 'a list)" by (simp add: btree_set_def)
  show "set (plan_instrument_ids p) = plan_ids p" "btree_set (plan_instrument_ids p)"
    using btree_extend_set [OF e, of "planned_instrument_ids p"] planned_ids [of p]
    by (simp_all add: plan_instrument_ids_def)
qed

text \<open>The changed instruments of two plans are not both empty when the plans' instruments differ.\<close>

lemma instrument_change_nonempty:
  assumes "plan_instrument_ids p \<noteq> plan_instrument_ids q"
  shows "instrument_id_difference (plan_instrument_ids p) (plan_instrument_ids q) \<noteq> []
    \<or> instrument_id_difference (plan_instrument_ids q) (plan_instrument_ids p) \<noteq> []"
proof (rule ccontr)
  assume "\<not> ?thesis"
  then have "set (plan_instrument_ids p) = set (plan_instrument_ids q)"
    by (auto simp: instrument_id_difference_def filter_empty_conv)
  then have "plan_instrument_ids p = plan_instrument_ids q"
    using plan_instrument_ids_set(2) [of p] plan_instrument_ids_set(2) [of q]
    by (intro sorted_distinct_set_unique) (simp_all add: btree_set_def)
  with assms show False ..
qed

end
