(* ===== verification/Option_Universe.thy ===== *)
theory Option_Universe
  imports Plan_Algebra
begin

section \<open>Option universes\<close>

text \<open>
  \<open>crates/catalog-capture-core/src/option_universe\<close>: the specification of a universe of options
  (\<open>spec.rs\<close>), its resolution against the listed instruments (\<open>resolve.rs\<close>), the capture plan it
  stands for (\<open>expand.rs\<close>) and the smoothing of strike changes (\<open>rollover.rs\<close>).

  An instrument is what the code reads of Nautilus's \<open>InstrumentAny\<close>; instrument ids and prices
  are linearly ordered types. Floats are any linear order with the operations of \<open>float_ops\<close>
  (the code compares finite values only). A \<open>BTreeMap\<close> is an association list in key order. The
  \<open>u64\<close> product of the expiry window and the \<open>usize\<close> sum of the strike window wrap as in a
  release build; a slice out of range and a failed \<open>expect\<close> are the value \<open>ResolvePanic\<close>.
\<close>

subsection \<open>Sorted maps, first minimum and stable sort\<close>

fun btree_entry :: "'k::linorder \<Rightarrow> 'v \<Rightarrow> ('v \<Rightarrow> 'v) \<Rightarrow> ('k \<times> 'v) list \<Rightarrow> ('k \<times> 'v) list" where
  "btree_entry k d f [] = [(k, f d)]"
| "btree_entry k d f ((a, v) # m) =
     (if k < a then (k, f d) # (a, v) # m
      else if k = a then (a, f v) # m
      else (a, v) # btree_entry k d f m)"

definition btree_map :: "('k::linorder \<times> 'v) list \<Rightarrow> bool" where
  "btree_map m = sorted_wrt (<) (map fst m)"

lemma btree_entry_keys: "fst ` set (btree_entry k d f m) = insert k (fst ` set m)"
  by (induction k d f m rule: btree_entry.induct) (simp_all add: insert_commute)

lemma length_btree_entry: "length (btree_entry k d f m) \<le> Suc (length m)"
  by (induction k d f m rule: btree_entry.induct) simp_all

lemma btree_map_entry [simp]: "btree_map m \<Longrightarrow> btree_map (btree_entry k d f m)"
proof (induction m)
  case Nil
  then show ?case by (simp add: btree_map_def)
next
  case (Cons p m)
  obtain a v where p: "p = (a, v)" by (cases p)
  have m: "btree_map m" "\<And>x. x \<in> fst ` set m \<Longrightarrow> a < x" using Cons.prems p by (auto simp: btree_map_def)
  consider "k < a" | "k = a" | "a < k" by fastforce
  then show ?case
  proof cases
    case 1
    then show ?thesis using Cons.prems m p by (auto simp: btree_map_def intro: less_trans)
  next
    case 2
    then show ?thesis using Cons.prems p by (simp add: btree_map_def)
  next
    case 3
    have "\<forall>x \<in> fst ` set (btree_entry k d f m). a < x" using 3 m(2) by (simp add: btree_entry_keys)
    then show ?thesis using 3 p Cons.IH [OF m(1)] by (auto simp: btree_map_def)
  qed
qed

lemma map_of_btree_entry:
  "btree_map m \<Longrightarrow> map_of (btree_entry k d f m) j
    = (if j = k then Some (f (case map_of m k of None \<Rightarrow> d | Some v \<Rightarrow> v)) else map_of m j)"
proof (induction m)
  case Nil
  then show ?case by simp
next
  case (Cons p m)
  obtain a v where p: "p = (a, v)" by (cases p)
  have m: "btree_map m" "\<And>x. x \<in> fst ` set m \<Longrightarrow> a < x" using Cons.prems p by (auto simp: btree_map_def)
  have none: "map_of m k = None" if "k \<le> a"
    using m(2) [of k] that by (force simp: map_of_eq_None_iff)
  show ?case using Cons.IH [OF m(1)] none p by (auto split: if_splits)
qed

text \<open>\<open>Iterator::min_by\<close>: the first of the least elements.\<close>

fun first_min :: "('a \<Rightarrow> 'a \<Rightarrow> bool) \<Rightarrow> 'a \<Rightarrow> 'a list \<Rightarrow> 'a" where
  "first_min lt x [] = x"
| "first_min lt x (y # ys) = first_min lt (if lt y x then y else x) ys"

lemma first_min_in: "first_min lt x ys \<in> set (x # ys)"
  by (induction ys arbitrary: x) (auto split: if_splits)

lemma first_min_least:
  assumes "\<And>a b c. \<not> lt b a \<Longrightarrow> \<not> lt c b \<Longrightarrow> \<not> lt c a" "\<And>a b. lt a b \<Longrightarrow> \<not> lt b a" "\<And>a. \<not> lt a a"
    and "y \<in> set (x # ys)"
  shows "\<not> lt y (first_min lt x ys)"
  using assms(4)
proof (induction ys arbitrary: x y)
  case Nil
  then show ?case by (simp add: assms(3))
next
  case (Cons z zs)
  have step: "\<not> lt (if lt z x then z else x) (first_min lt x (z # zs))" using Cons.IH [of _ "if lt z x then z else x"] by simp
  show ?case
  proof (cases "y \<in> set ((if lt z x then z else x) # zs)")
    case True
    from Cons.IH [OF this] show ?thesis by simp
  next
    case False
    then have "\<not> lt y (if lt z x then z else x)"
      using Cons.prems assms(2,3) by (auto split: if_splits)
    then show ?thesis using step assms(1) by blast
  qed
qed

text \<open>\<open>slice::sort_by\<close> is stable.\<close>

fun insert_by :: "('a \<Rightarrow> 'a \<Rightarrow> bool) \<Rightarrow> 'a \<Rightarrow> 'a list \<Rightarrow> 'a list" where
  "insert_by lt x [] = [x]"
| "insert_by lt x (y # ys) = (if lt y x then y # insert_by lt x ys else x # y # ys)"

definition sort_by :: "('a \<Rightarrow> 'a \<Rightarrow> bool) \<Rightarrow> 'a list \<Rightarrow> 'a list" where
  "sort_by lt xs = foldr (insert_by lt) xs []"

lemma mset_insert_by [simp]: "mset (insert_by lt x ys) = add_mset x (mset ys)"
  by (induction ys) auto

lemma mset_sort_by [simp]: "mset (sort_by lt xs) = mset xs"
  by (induction xs) (simp_all add: sort_by_def)

lemma set_sort_by [simp]: "set (sort_by lt xs) = set xs"
  by (rule mset_eq_setD) simp

definition usize_add :: "nat \<Rightarrow> nat \<Rightarrow> nat" where
  "usize_add a b = (a + b) mod 2 ^ 64"

subsection \<open>Specifications\<close>

datatype option_family =
    OInstruments | OQuotes | OTrades | OMarkPrices | OIndexPrices | OFundingRates | OInstrumentStatuses
  | OInstrumentCloses | OOptionGreeks | OForwardPrices | OBookDeltas

datatype expiry_policy = Nearest (days_max: nat)

datatype strike_policy =
    AtmRelative (strikes_above: nat) (strikes_below: nat)
  | OiRanked (top_n: nat)
  | AllStrikes

fun selection_mode :: "strike_policy \<Rightarrow> string" where
  "selection_mode (AtmRelative up down) = ''atm_relative''"
| "selection_mode (OiRanked n) = ''oi_ranked''"
| "selection_mode AllStrikes = ''all''"

fun oi_ranked_top_n :: "strike_policy \<Rightarrow> nat option" where
  "oi_ranked_top_n (OiRanked n) = Some n"
| "oi_ranked_top_n (AtmRelative up down) = None"
| "oi_ranked_top_n AllStrikes = None"

fun requires_open_interest :: "strike_policy \<Rightarrow> bool" where
  "requires_open_interest (OiRanked n) = True"
| "requires_open_interest p = False"

datatype venue_kind = Deribit | Bybit | Okx

fun supports_runtime_refresh :: "venue_kind \<Rightarrow> bool" where
  "supports_runtime_refresh Deribit = True"
| "supports_runtime_refresh Bybit = True"
| "supports_runtime_refresh Okx = True"

record option_spec =
  os_venue_id :: string
  os_underlying :: string
  os_settlement_currency :: "string option"
  os_include_perp :: bool
  os_families :: "option_family list"
  os_expiry_policy :: expiry_policy
  os_strike_policy :: strike_policy

record ('i, 'p) resolved_options =
  ro_resolved_at_ns :: nat
  ro_selected_expiry_ns :: nat
  ro_atm_reference :: 'p
  ro_atm_reference_source :: "string option"
  ro_selected_strikes :: "'p list"
  ro_perp_instrument_id :: "'i option"
  ro_option_instrument_ids :: "'i list"
  ro_all_instrument_ids :: "'i list"

datatype resolve_error =
    NoMatchingOptions string string
  | NoMatchingExpiry string string
  | NoStrikePairs string string
  | MissingPerpetual string string
  | MissingSettlementCurrency string
  | NoReferenceInstrument string string
  | MissingOpenInterest string string
  | ResolvePanic

definition okx_instrument_family :: "option_spec \<Rightarrow> resolve_error + string" where
  "okx_instrument_family spec =
     (case os_settlement_currency spec of
        None \<Rightarrow> Inl (MissingSettlementCurrency (os_venue_id spec))
      | Some c \<Rightarrow> Inr (os_underlying spec @ ''-'' @ c))"

text \<open>\<open>InstrumentId::from_str\<close> is the parameter \<open>parse_id\<close>.\<close>

definition derive_perp_instrument_id ::
  "(string \<Rightarrow> 'i option) \<Rightarrow> option_spec \<Rightarrow> venue_kind \<Rightarrow> resolve_error + 'i" where
  "derive_perp_instrument_id parse_id spec venue =
     (case (case venue of
              Deribit \<Rightarrow> Inr (os_underlying spec @ ''-PERPETUAL.DERIBIT'')
            | Bybit \<Rightarrow> (case os_settlement_currency spec of
                 None \<Rightarrow> Inl (MissingSettlementCurrency (os_venue_id spec))
               | Some c \<Rightarrow> Inr (os_underlying spec @ c @ ''-LINEAR.BYBIT''))
            | Okx \<Rightarrow> (case okx_instrument_family spec of
                 Inl e \<Rightarrow> Inl e
               | Inr family \<Rightarrow> Inr (family @ ''-SWAP.OKX''))) of
        Inl e \<Rightarrow> Inl e
      | Inr name \<Rightarrow> (case parse_id name of
           None \<Rightarrow> Inl (MissingPerpetual (os_venue_id spec) (os_underlying spec))
         | Some i \<Rightarrow> Inr i))"

subsection \<open>Resolution\<close>

definition day_ns :: nat where
  "day_ns = 86400000000000"

datatype option_kind = Call | Put

record ('i, 'p) instrument =
  in_crypto_option :: bool
  in_id :: 'i
  in_underlying :: "string option"
  in_settlement :: string
  in_expiration :: "nat option"
  in_strike :: "'p option"
  in_kind :: "option_kind option"

record ('i, 'p) option_ref =
  or_instrument_id :: 'i
  or_expiration_ns :: nat
  or_strike :: 'p
  or_kind :: option_kind

record 'i strike_pair =
  sk_call :: "'i option"
  sk_put :: "'i option"

record ('p, 'f) float_ops =
  fl_price :: "'p \<Rightarrow> 'f"
  fl_distance :: "'f \<Rightarrow> 'f \<Rightarrow> 'f"
  fl_is_finite :: "'f \<Rightarrow> bool"
  fl_zero :: 'f
  fl_add :: "'f \<Rightarrow> 'f \<Rightarrow> 'f"

definition as_complete_pair :: "'i strike_pair \<Rightarrow> ('i \<times> 'i) option" where
  "as_complete_pair pair =
     (case (sk_call pair, sk_put pair) of (Some call, Some put) \<Rightarrow> Some (call, put) | _ \<Rightarrow> None)"

definition option_ref_of :: "option_spec \<Rightarrow> nat \<Rightarrow> ('i, 'p) instrument \<Rightarrow> ('i, 'p) option_ref option" where
  "option_ref_of spec now inst =
     (if \<not> in_crypto_option inst then None
      else case in_underlying inst of
        None \<Rightarrow> None
      | Some underlying \<Rightarrow>
         if underlying \<noteq> os_underlying spec then None
         else if (case os_settlement_currency spec of Some c \<Rightarrow> in_settlement inst \<noteq> c | None \<Rightarrow> False) then None
         else case in_expiration inst of
           None \<Rightarrow> None
         | Some expiration \<Rightarrow>
            if expiration \<le> now then None
            else case (in_strike inst, in_kind inst) of
              (Some strike, Some kind) \<Rightarrow>
                Some \<lparr>or_instrument_id = in_id inst, or_expiration_ns = expiration, or_strike = strike, or_kind = kind\<rparr>
            | _ \<Rightarrow> None)"

definition collect_matching_options ::
  "option_spec \<Rightarrow> ('i, 'p) instrument list \<Rightarrow> nat \<Rightarrow> ('i, 'p) option_ref list" where
  "collect_matching_options spec instruments now = List.map_filter (option_ref_of spec now) instruments"

definition max_delta_ns :: "option_spec \<Rightarrow> nat" where
  "max_delta_ns spec = (case os_expiry_policy spec of Nearest d \<Rightarrow> (d * day_ns) mod 2 ^ 64)"

definition select_expiry :: "option_spec \<Rightarrow> ('i, 'p) option_ref list \<Rightarrow> nat \<Rightarrow> resolve_error + nat" where
  "select_expiry spec options now =
     (case filter (\<lambda>e. sat_sub e now \<le> max_delta_ns spec) (map or_expiration_ns options) of
        [] \<Rightarrow> Inl (NoMatchingExpiry (os_venue_id spec) (os_underlying spec))
      | e # es \<Rightarrow> Inr (Min (set (e # es))))"

definition collect_strike_pairs ::
  "('i, 'p::linorder) option_ref list \<Rightarrow> nat \<Rightarrow> ('p \<times> 'i strike_pair) list" where
  "collect_strike_pairs options expiry =
     foldl (\<lambda>pairs option.
       if or_expiration_ns option \<noteq> expiry then pairs
       else btree_entry (or_strike option) \<lparr>sk_call = None, sk_put = None\<rparr>
         (\<lambda>pair. case or_kind option of
            Call \<Rightarrow> pair\<lparr>sk_call := Some (or_instrument_id option)\<rparr>
          | Put \<Rightarrow> pair\<lparr>sk_put := Some (or_instrument_id option)\<rparr>) pairs) [] options"

definition aggregate_open_interest_by_strike ::
  "('p, 'f::linorder) float_ops \<Rightarrow> ('p::linorder \<times> 'f) list \<Rightarrow> ('p \<times> 'f) list" where
  "aggregate_open_interest_by_strike fl entries =
     foldl (\<lambda>m (strike, metric).
       if \<not> fl_is_finite fl metric \<or> metric \<le> fl_zero fl then m
       else btree_entry strike (fl_zero fl) (\<lambda>v. fl_add fl v metric) m) [] entries"

definition select_top_n_strikes_by_metric ::
  "('p, 'f::linorder) float_ops \<Rightarrow> 'p list \<Rightarrow> nat \<Rightarrow> ('p \<times> 'f) list option \<Rightarrow> resolve_error \<Rightarrow> resolve_error + 'p list" where
  "select_top_n_strikes_by_metric fl strikes n metrics missing =
     (case metrics of
        None \<Rightarrow> Inl missing
      | Some m \<Rightarrow>
         if m = [] then Inl missing
         else let ranked = List.map_filter (\<lambda>strike. case map_of m strike of
                      Some metric \<Rightarrow> if fl_zero fl < metric then Some (strike, metric) else None
                    | None \<Rightarrow> None) strikes
              in if ranked = [] then Inl missing
                 else Inr (sort_by (\<lambda>l r. fl_price fl l < fl_price fl r)
                   (map fst (take n (sort_by (\<lambda>(ls, lm) (rs, rm). rm < lm \<or> (rm = lm \<and> fl_price fl ls < fl_price fl rs)) ranked)))))"

definition closer :: "('p, 'f::linorder) float_ops \<Rightarrow> 'f \<Rightarrow> nat \<times> 'p \<Rightarrow> nat \<times> 'p \<Rightarrow> bool" where
  "closer fl atm l r =
     (let dl = fl_distance fl (fl_price fl (snd l)) atm; dr = fl_distance fl (fl_price fl (snd r)) atm
      in dl < dr \<or> (dl = dr \<and> fl_price fl (snd l) < fl_price fl (snd r)))"

text \<open>\<open>strikes[start..=end]\<close>, which panics when the range is not within the slice.\<close>

definition slice_inclusive :: "'a list \<Rightarrow> nat \<Rightarrow> nat \<Rightarrow> resolve_error + 'a list" where
  "slice_inclusive xs start final =
     (if start \<le> Suc final \<and> final < length xs then Inr (take (Suc final - start) (drop start xs)) else Inl ResolvePanic)"

definition select_strikes ::
  "('p, 'f::linorder) float_ops \<Rightarrow> option_spec \<Rightarrow> 'p list \<Rightarrow> 'p \<Rightarrow> ('p \<times> 'f) list option \<Rightarrow> resolve_error + 'p list" where
  "select_strikes fl spec strikes atm_reference metrics =
     (case os_strike_policy spec of
        AtmRelative up down \<Rightarrow>
          (case List.enumerate 0 strikes of
             [] \<Rightarrow> Inl ResolvePanic
           | s # ss \<Rightarrow>
              let atm_index = fst (first_min (closer fl (fl_price fl atm_reference)) s ss)
              in slice_inclusive strikes (sat_sub atm_index down) (min (usize_add atm_index up) (length strikes - 1)))
      | AllStrikes \<Rightarrow> Inr strikes
      | OiRanked n \<Rightarrow> select_top_n_strikes_by_metric fl strikes n metrics
          (MissingOpenInterest (os_venue_id spec) (os_underlying spec)))"

text \<open>The loop over the selected strikes; its two \<open>expect\<close>s are the missing pair and the incomplete one.\<close>

fun pair_ids :: "('p \<times> 'i strike_pair) list \<Rightarrow> 'p list \<Rightarrow> resolve_error + 'i list" where
  "pair_ids pairs [] = Inr []"
| "pair_ids pairs (strike # ss) =
     (case map_of pairs strike of
        None \<Rightarrow> Inl ResolvePanic
      | Some pair \<Rightarrow> (case as_complete_pair pair of
           None \<Rightarrow> Inl ResolvePanic
         | Some (call, put) \<Rightarrow> (case pair_ids pairs ss of
              Inl e \<Rightarrow> Inl e
            | Inr ids \<Rightarrow> Inr (call # put # ids))))"

definition complete_strikes :: "('p \<times> 'i strike_pair) list \<Rightarrow> 'p list" where
  "complete_strikes pairs = map fst (filter (\<lambda>(strike, pair). as_complete_pair pair \<noteq> None) pairs)"

definition resolve_option_universe ::
  "('p::linorder, 'f::linorder) float_ops \<Rightarrow> option_spec \<Rightarrow> ('i::linorder, 'p) instrument list \<Rightarrow> nat \<Rightarrow> 'p
   \<Rightarrow> 'i option \<Rightarrow> ('p \<times> 'f) list option \<Rightarrow> resolve_error + ('i, 'p) resolved_options" where
  "resolve_option_universe fl spec instruments now atm_reference perp metrics =
     (let options = collect_matching_options spec instruments now
      in if options = [] then Inl (NoMatchingOptions (os_venue_id spec) (os_underlying spec))
         else case select_expiry spec options now of
           Inl e \<Rightarrow> Inl e
         | Inr expiry \<Rightarrow>
            let pairs = collect_strike_pairs options expiry; paired = complete_strikes pairs
            in if paired = [] then Inl (NoStrikePairs (os_venue_id spec) (os_underlying spec))
               else case select_strikes fl spec paired atm_reference metrics of
                 Inl e \<Rightarrow> Inl e
               | Inr strikes \<Rightarrow> (case pair_ids pairs strikes of
                    Inl e \<Rightarrow> Inl e
                  | Inr ids \<Rightarrow>
                     if os_include_perp spec \<and> perp = None
                     then Inl (MissingPerpetual (os_venue_id spec) (os_underlying spec))
                     else let perp_id = (if os_include_perp spec then perp else None)
                          in Inr \<lparr>ro_resolved_at_ns = now, ro_selected_expiry_ns = expiry, ro_atm_reference = atm_reference,
                               ro_atm_reference_source = None, ro_selected_strikes = strikes, ro_perp_instrument_id = perp_id,
                               ro_option_instrument_ids = ids,
                               ro_all_instrument_ids = remdups_adj (sort (ids @ (case perp_id of None \<Rightarrow> [] | Some i \<Rightarrow> [i])))\<rparr>))"

definition option_instrument_ids_at_selected_expiry ::
  "option_spec \<Rightarrow> ('i, 'p) instrument list \<Rightarrow> nat \<Rightarrow> resolve_error + (nat \<times> 'i list)" where
  "option_instrument_ids_at_selected_expiry spec instruments now =
     (let options = collect_matching_options spec instruments now
      in if options = [] then Inl (NoMatchingOptions (os_venue_id spec) (os_underlying spec))
         else case select_expiry spec options now of
           Inl e \<Rightarrow> Inl e
         | Inr expiry \<Rightarrow> Inr (expiry, map or_instrument_id (filter (\<lambda>x. or_expiration_ns x = expiry) options)))"

definition select_nearest_expiry_reference_instrument_id ::
  "option_spec \<Rightarrow> ('i::linorder, 'p) instrument list \<Rightarrow> nat \<Rightarrow> resolve_error + 'i" where
  "select_nearest_expiry_reference_instrument_id spec instruments now =
     (let options = collect_matching_options spec instruments now
      in if options = [] then Inl (NoMatchingOptions (os_venue_id spec) (os_underlying spec))
         else case select_expiry spec options now of
           Inl e \<Rightarrow> Inl e
         | Inr expiry \<Rightarrow>
            (case map or_instrument_id (filter (\<lambda>x. or_expiration_ns x = expiry) options) of
               [] \<Rightarrow> Inl (NoReferenceInstrument (os_venue_id spec) (os_underlying spec))
             | i # is \<Rightarrow> Inr (Min (set (i # is)))))"

subsection \<open>Expansion\<close>

definition id_specs :: "'i list \<Rightarrow> 'i id_spec list" where
  "id_specs ids = map (\<lambda>i. \<lparr>sp_instrument = i\<rparr>) ids"

definition opt_list :: "'a option \<Rightarrow> 'a list" where
  "opt_list x = (case x of None \<Rightarrow> [] | Some i \<Rightarrow> [i])"

definition expand_family ::
  "('i, 'p) resolved_options \<Rightarrow> ('i, 'b) capture_plan \<Rightarrow> option_family \<Rightarrow> ('i, 'b) capture_plan" where
  "expand_family r p family =
     (let every = id_specs (ro_all_instrument_ids r); options = id_specs (ro_option_instrument_ids r);
          perp = id_specs (opt_list (ro_perp_instrument_id r))
      in case family of
           OInstruments \<Rightarrow> p\<lparr>pl_instruments := pl_instruments p @ every\<rparr>
         | OQuotes \<Rightarrow> p\<lparr>pl_quotes := pl_quotes p @ every\<rparr>
         | OTrades \<Rightarrow> p\<lparr>pl_trades := pl_trades p @ every\<rparr>
         | OMarkPrices \<Rightarrow> p\<lparr>pl_mark_prices := pl_mark_prices p @ every\<rparr>
         | OIndexPrices \<Rightarrow> p\<lparr>pl_index_prices := pl_index_prices p @ perp\<rparr>
         | OFundingRates \<Rightarrow> p\<lparr>pl_funding_rates := pl_funding_rates p @ perp\<rparr>
         | OInstrumentStatuses \<Rightarrow> p\<lparr>pl_instrument_statuses := pl_instrument_statuses p @ every\<rparr>
         | OInstrumentCloses \<Rightarrow> p\<lparr>pl_instrument_closes := pl_instrument_closes p @ every\<rparr>
         | OOptionGreeks \<Rightarrow> p\<lparr>pl_option_greeks := pl_option_greeks p @ options\<rparr>
         | OForwardPrices \<Rightarrow> p\<lparr>pl_forward_prices := pl_forward_prices p @ options\<rparr>
         | OBookDeltas \<Rightarrow> p\<lparr>pl_book_deltas := pl_book_deltas p
             @ map (\<lambda>i. \<lparr>bs_instrument = i, bs_book_type = L2, bs_depth = None\<rparr>) (ro_option_instrument_ids r)\<rparr>)"

definition expand_option_universe ::
  "option_spec \<Rightarrow> ('i, 'p) resolved_options \<Rightarrow> ('i, 'b) capture_plan" where
  "expand_option_universe spec r = foldl (expand_family r) empty_plan (os_families spec)"

subsection \<open>Smoothing of strike changes\<close>

record 'p smoothing =
  sm_pending_strikes :: "'p list option"
  sm_confirmations :: nat

definition smoothing_default :: "'p smoothing" where
  "smoothing_default = \<lparr>sm_pending_strikes = None, sm_confirmations = 0\<rparr>"

definition should_apply_strike_change ::
  "'p list \<Rightarrow> 'p list \<Rightarrow> bool \<Rightarrow> nat \<Rightarrow> 'p smoothing \<Rightarrow> bool \<times> 'p smoothing" where
  "should_apply_strike_change current candidate expiry_changed required st =
     (if expiry_changed \<or> required = 0 then (True, smoothing_default)
      else if current = candidate then (True, smoothing_default)
      else let st' = (if sm_pending_strikes st = Some candidate
                      then st\<lparr>sm_confirmations := min (sm_confirmations st + 1) (2 ^ 32 - 1)\<rparr>
                      else st\<lparr>sm_pending_strikes := Some candidate, sm_confirmations := 1\<rparr>)
           in if required \<le> sm_confirmations st' then (True, smoothing_default) else (False, st'))"

subsection \<open>Lemmas on the resolution\<close>

lemma insert_by_key: "insert_by (\<lambda>l r. f l < f r) = insort_key (f :: 'a \<Rightarrow> 'b::linorder)"
proof (intro ext)
  fix x :: 'a and ys
  show "insert_by (\<lambda>l r. f l < f r) x ys = insort_key f x ys" by (induction ys) auto
qed

lemma sort_by_key: "sort_by (\<lambda>l r. f l < f r) xs = sort_key (f :: 'a \<Rightarrow> 'b::linorder) xs"
  by (simp add: sort_by_def sort_key_def insert_by_key)

lemma set_map_filter: "set (List.map_filter f xs) = {y. \<exists>x \<in> set xs. f x = Some y}"
  by (force simp: List.map_filter_def)

definition listed_at :: "('i, 'p) option_ref list \<Rightarrow> nat \<Rightarrow> 'p \<Rightarrow> option_kind \<Rightarrow> 'i \<Rightarrow> bool" where
  "listed_at options expiry strike kind i =
     (\<lparr>or_instrument_id = i, or_expiration_ns = expiry, or_strike = strike, or_kind = kind\<rparr> \<in> set options)"

lemma collect_pairs_inv:
  "btree_map (collect_strike_pairs options expiry)
   \<and> length (collect_strike_pairs options expiry) \<le> length options
   \<and> (\<forall>strike pair. map_of (collect_strike_pairs options expiry) strike = Some pair \<longrightarrow>
        (\<forall>i. sk_call pair = Some i \<longrightarrow> listed_at options expiry strike Call i)
      \<and> (\<forall>i. sk_put pair = Some i \<longrightarrow> listed_at options expiry strike Put i))"
proof (induction options rule: rev_induct)
  case Nil
  then show ?case by (simp add: collect_strike_pairs_def btree_map_def)
next
  case (snoc x xs)
  let ?m = "collect_strike_pairs xs expiry"
  note inv = snoc.IH
  have keep: "listed_at (xs @ [x]) expiry strike k i" if "listed_at xs expiry strike k i" for strike k i
    using that by (simp add: listed_at_def)
  show ?case
  proof (cases "or_expiration_ns x = expiry")
    case False
    then have eq: "collect_strike_pairs (xs @ [x]) expiry = ?m" by (simp add: collect_strike_pairs_def)
    show ?thesis unfolding eq using inv keep by auto
  next
    case True
    let ?f = "\<lambda>pair. case or_kind x of Call \<Rightarrow> pair\<lparr>sk_call := Some (or_instrument_id x)\<rparr>
          | Put \<Rightarrow> pair\<lparr>sk_put := Some (or_instrument_id x)\<rparr>"
    have eq: "collect_strike_pairs (xs @ [x]) expiry
        = btree_entry (or_strike x) \<lparr>sk_call = None, sk_put = None\<rparr> ?f ?m"
      using True by (simp add: collect_strike_pairs_def)
    have new: "listed_at (xs @ [x]) expiry (or_strike x) (or_kind x) (or_instrument_id x)"
      using True by (auto simp: listed_at_def intro!: option_ref.equality)
    show ?thesis unfolding eq
    proof (intro conjI)
      show "btree_map (btree_entry (or_strike x) \<lparr>sk_call = None, sk_put = None\<rparr> ?f ?m)" using inv by simp
      show "length (btree_entry (or_strike x) \<lparr>sk_call = None, sk_put = None\<rparr> ?f ?m) \<le> length (xs @ [x])"
        using inv length_btree_entry [of "or_strike x" "\<lparr>sk_call = None, sk_put = None\<rparr>" ?f ?m] by simp
      show "\<forall>strike pair. map_of (btree_entry (or_strike x) \<lparr>sk_call = None, sk_put = None\<rparr> ?f ?m) strike = Some pair \<longrightarrow>
          (\<forall>i. sk_call pair = Some i \<longrightarrow> listed_at (xs @ [x]) expiry strike Call i)
        \<and> (\<forall>i. sk_put pair = Some i \<longrightarrow> listed_at (xs @ [x]) expiry strike Put i)"
        using inv keep new
        by (cases "or_kind x") (auto simp: map_of_btree_entry split: if_splits option.splits)
    qed
  qed
qed

lemma complete_strikes_sorted: "btree_map m \<Longrightarrow> sorted_wrt (<) (complete_strikes m)"
proof (induction m)
  case Nil
  then show ?case by (simp add: complete_strikes_def)
next
  case (Cons p m)
  then have "sorted_wrt (<) (complete_strikes m)" "\<forall>x \<in> set m. fst p < fst x" by (auto simp: btree_map_def)
  then show ?case by (auto simp: complete_strikes_def)
qed

lemma complete_strikes_pair:
  assumes "btree_map m" "strike \<in> set (complete_strikes m)"
  obtains call put where "map_of m strike = Some \<lparr>sk_call = Some call, sk_put = Some put\<rparr>"
proof -
  have d: "distinct (map fst m)" using assms(1) by (auto simp: btree_map_def strict_sorted_iff)
  from assms(2) obtain pair where p: "(strike, pair) \<in> set m" "as_complete_pair pair \<noteq> None"
    by (auto simp: complete_strikes_def)
  with d have "map_of m strike = Some pair" by simp
  moreover from p(2) obtain call put where "pair = \<lparr>sk_call = Some call, sk_put = Some put\<rparr>"
    by (cases pair) (auto simp: as_complete_pair_def split: option.splits)
  ultimately show ?thesis using that by blast
qed

lemma pair_ids_complete:
  assumes "btree_map m" "set strikes \<subseteq> set (complete_strikes m)"
  shows "\<exists>legs. pair_ids m strikes = Inr (concat (map (\<lambda>(call, put). [call, put]) legs))
    \<and> list_all2 (\<lambda>strike (call, put). map_of m strike = Some \<lparr>sk_call = Some call, sk_put = Some put\<rparr>) strikes legs"
  using assms(2)
proof (induction strikes)
  case Nil
  then show ?case by (intro exI [of _ "[]"]) simp
next
  case (Cons strike ss)
  then obtain legs where legs: "pair_ids m ss = Inr (concat (map (\<lambda>(call, put). [call, put]) legs))"
    "list_all2 (\<lambda>strike (call, put). map_of m strike = Some \<lparr>sk_call = Some call, sk_put = Some put\<rparr>) ss legs"
    by auto
  have "strike \<in> set (complete_strikes m)" using Cons.prems by simp
  from complete_strikes_pair [OF assms(1) this] obtain call put
    where p: "map_of m strike = Some \<lparr>sk_call = Some call, sk_put = Some put\<rparr>" by blast
  show ?case using legs p by (intro exI [of _ "(call, put) # legs"]) (simp add: as_complete_pair_def)
qed

text \<open>What every strike policy selects: strikes that have a pair, once, in order of their value.\<close>

lemma select_strikes_sound:
  fixes strikes :: "'p::linorder list"
  assumes s: "select_strikes fl spec strikes atm metrics = Inr sel" and m: "mono (fl_price fl)" and so: "sorted_wrt (<) strikes"
  shows "set sel \<subseteq> set strikes \<and> distinct sel \<and> sorted (map (fl_price fl) sel)"
proof -
  have all: "distinct strikes" "sorted strikes" using so by (simp_all add: strict_sorted_iff)
  have by_price: "sorted (map (fl_price fl) strikes)" unfolding sorted_map
    by (rule sorted_wrt_mono_rel [OF _ all(2)]) (simp add: monoD [OF m])
  show ?thesis
  proof (cases "os_strike_policy spec")
    case (AtmRelative up down)
    obtain a b where "sel = take a (drop b strikes)"
      using s AtmRelative by (auto simp: select_strikes_def slice_inclusive_def Let_def split: list.splits if_splits)
    then show ?thesis using all by_price
      by (auto simp: take_map [symmetric] drop_map [symmetric] sorted_wrt_take sorted_wrt_drop dest!: in_set_takeD in_set_dropD)
  next
    case AllStrikes
    then show ?thesis using s all by_price by (simp add: select_strikes_def)
  next
    case (OiRanked n)
    let ?f = "\<lambda>m strike. case map_of m strike of
                      Some metric \<Rightarrow> if fl_zero fl < metric then Some (strike, metric) else None
                    | None \<Rightarrow> None"
    obtain mm where "metrics = Some mm" and sel: "sel = sort_key (fl_price fl)
        (map fst (take n (sort_by (\<lambda>(ls, lm) (rs, rm). rm < lm \<or> (rm = lm \<and> fl_price fl ls < fl_price fl rs)) (List.map_filter (?f mm) strikes))))"
      using s OiRanked
      by (auto simp: select_strikes_def select_top_n_strikes_by_metric_def Let_def sort_by_key split: option.splits if_splits)
    let ?ranked = "List.map_filter (?f mm) strikes"
    let ?sorted = "sort_by (\<lambda>(ls, lm) (rs, rm). rm < lm \<or> (rm = lm \<and> fl_price fl ls < fl_price fl rs)) ?ranked"
    have "map fst ?ranked = filter (\<lambda>x. ?f mm x \<noteq> None) strikes"
      by (induction strikes) (auto simp: List.map_filter_simps split: option.splits if_splits)
    then have "distinct (map fst ?ranked)" "set (map fst ?ranked) \<subseteq> set strikes" using all(1) by auto
    moreover have perm: "mset (map fst ?sorted) = mset (map fst ?ranked)" by (simp only: mset_map mset_sort_by)
    ultimately have sorted: "distinct (map fst ?sorted)" "set (map fst ?sorted) \<subseteq> set strikes"
      by (simp_all only: mset_eq_imp_distinct_iff [OF perm] mset_eq_setD [OF perm])
    have "distinct (map fst (take n ?sorted))" "set (map fst (take n ?sorted)) \<subseteq> set strikes"
      using sorted set_take_subset [of n "map fst ?sorted"] by (simp_all only: take_map [symmetric] distinct_take)
    then show ?thesis unfolding sel by simp
  qed
qed

lemma closer_order:
  "\<not> closer fl atm b a \<Longrightarrow> \<not> closer fl atm c b \<Longrightarrow> \<not> closer fl atm c a"
  "closer fl atm a b \<Longrightarrow> \<not> closer fl atm b a" "\<not> closer fl atm a a"
  unfolding closer_def Let_def by auto

lemma option_ref_future: "option_ref_of spec now inst = Some x \<Longrightarrow> now < or_expiration_ns x"
  by (auto simp: option_ref_of_def split: option.splits if_splits)

text \<open>The strikes around the money are the nearest strike with at most the wanted ones on either side.\<close>

lemma atm_nearest:
  assumes "strikes = s # ss"
  shows "fst (first_min (closer fl atm) (0, s) (List.enumerate 1 ss)) < length strikes
   \<and> (\<forall>k \<in> set strikes. fl_distance fl (fl_price fl (strikes ! fst (first_min (closer fl atm) (0, s) (List.enumerate 1 ss)))) atm
        \<le> fl_distance fl (fl_price fl k) atm)"
proof -
  let ?x = "first_min (closer fl atm) (0, s) (List.enumerate 1 ss)"
  have enum: "(0, s) # List.enumerate 1 ss = List.enumerate 0 strikes" using assms by simp
  then have "?x \<in> set (List.enumerate 0 strikes)" using first_min_in [of "closer fl atm" "(0, s)"] by metis
  then have x: "fst ?x < length strikes" "strikes ! fst ?x = snd ?x" by (auto simp: in_set_enumerate_eq)
  have "fl_distance fl (fl_price fl (snd ?x)) atm \<le> fl_distance fl (fl_price fl k) atm" if "k \<in> set strikes" for k
  proof -
    from that obtain j where "j < length strikes" "k = strikes ! j" by (auto simp: in_set_conv_nth)
    then have "(j, k) \<in> set (List.enumerate 0 strikes)" by (simp add: in_set_enumerate_eq)
    then have "(j, k) \<in> set ((0, s) # List.enumerate 1 ss)" by (simp only: enum)
    have "\<not> closer fl atm (j, k) ?x"
    proof (rule first_min_least [of "closer fl atm"])
      show "\<not> closer fl atm c a" if "\<not> closer fl atm b a" "\<not> closer fl atm c b" for a b c
        using that by (rule closer_order(1))
      show "\<not> closer fl atm b a" if "closer fl atm a b" for a b using that by (rule closer_order(2))
      show "\<not> closer fl atm a a" for a by (rule closer_order(3))
      show "(j, k) \<in> set ((0, s) # List.enumerate 1 ss)" by fact
    qed
    then show ?thesis by (auto simp: closer_def Let_def)
  qed
  with x show ?thesis by simp
qed

subsection \<open>Properties\<close>

text \<open>An instrument of the list is an unexpired option of the universe with these terms.\<close>

definition option_listed ::
  "option_spec \<Rightarrow> ('i, 'p) instrument list \<Rightarrow> nat \<Rightarrow> nat \<Rightarrow> 'p \<Rightarrow> option_kind \<Rightarrow> 'i \<Rightarrow> bool" where
  "option_listed spec instruments now expiry strike kind i =
     list_ex (\<lambda>inst. option_ref_of spec now inst
        = Some \<lparr>or_instrument_id = i, or_expiration_ns = expiry, or_strike = strike, or_kind = kind\<rparr>) instruments"

lemma listed_matching: "listed_at (collect_matching_options spec instruments now) = option_listed spec instruments now"
  by (auto simp: listed_at_def option_listed_def collect_matching_options_def set_map_filter list_ex_iff fun_eq_iff)

lemma select_expiry_least:
  assumes "select_expiry spec options now = Inr expiry"
  shows "expiry \<in> or_expiration_ns ` set options \<and> expiry - now \<le> max_delta_ns spec
    \<and> (\<forall>x \<in> set options. or_expiration_ns x - now \<le> max_delta_ns spec \<longrightarrow> expiry \<le> or_expiration_ns x)"
proof -
  let ?es = "filter (\<lambda>e. sat_sub e now \<le> max_delta_ns spec) (map or_expiration_ns options)"
  have e: "?es \<noteq> []" "expiry = Min (set ?es)"
    using assms by (cases ?es; simp add: select_expiry_def del: filter_eq_Cons_iff set_filter)+
  then have "expiry \<in> set ?es" using Min_in [of "set ?es"] by (metis List.finite_set set_empty)
  moreover have "expiry \<le> y" if "y \<in> set ?es" for y using e that by simp
  ultimately show ?thesis by (auto simp: sat_sub_def)
qed

lemma resolve_parts:
  assumes "resolve_option_universe fl spec instruments now atm perp metrics = Inr u"
  defines "options \<equiv> collect_matching_options spec instruments now"
  defines "pairs \<equiv> collect_strike_pairs options (ro_selected_expiry_ns u)"
  shows "select_expiry spec options now = Inr (ro_selected_expiry_ns u)"
    and "select_strikes fl spec (complete_strikes pairs) atm metrics = Inr (ro_selected_strikes u)"
    and "pair_ids pairs (ro_selected_strikes u) = Inr (ro_option_instrument_ids u)"
    and "ro_perp_instrument_id u = (if os_include_perp spec then perp else None)" "os_include_perp spec \<Longrightarrow> perp \<noteq> None"
    and "ro_all_instrument_ids u = remdups_adj (sort (ro_option_instrument_ids u @ opt_list (ro_perp_instrument_id u)))"
  using assms(1) unfolding resolve_option_universe_def options_def [symmetric]
  by (auto simp: Let_def pairs_def opt_list_def split: if_splits sum.splits option.splits)

text \<open>
  C32: a resolved option universe is what its specification asks for. Its expiry is the earliest
  one listed in the window; its strikes come once, in order, each with the call and the put that
  are listed for it at that expiry, in this order; the perpetual is there exactly when it is
  asked for; and all ids are these, sorted, once each. Prices become floats monotonically.
\<close>

theorem option_universe_sound:
  fixes u :: "('i::linorder, 'p::linorder) resolved_options"
  assumes r: "resolve_option_universe fl spec instruments now atm perp metrics = Inr u" and m: "mono (fl_price fl)"
  shows "now < ro_selected_expiry_ns u \<and> ro_selected_expiry_ns u - now \<le> max_delta_ns spec
   \<and> (option_listed spec instruments now e strike kind i \<and> e - now \<le> max_delta_ns spec \<longrightarrow> ro_selected_expiry_ns u \<le> e)
   \<and> distinct (ro_selected_strikes u) \<and> sorted (map (fl_price fl) (ro_selected_strikes u))
   \<and> (\<exists>legs. ro_option_instrument_ids u = concat (map (\<lambda>(call, put). [call, put]) legs)
        \<and> list_all2 (\<lambda>strike (call, put). option_listed spec instruments now (ro_selected_expiry_ns u) strike Call call
             \<and> option_listed spec instruments now (ro_selected_expiry_ns u) strike Put put) (ro_selected_strikes u) legs)
   \<and> ro_perp_instrument_id u = (if os_include_perp spec then perp else None)
   \<and> (os_include_perp spec \<longrightarrow> perp \<noteq> None)
   \<and> sorted_wrt (<) (ro_all_instrument_ids u)
   \<and> set (ro_all_instrument_ids u) = set (ro_option_instrument_ids u) \<union> set_option (ro_perp_instrument_id u)"
proof -
  let ?options = "collect_matching_options spec instruments now"
  let ?pairs = "collect_strike_pairs ?options (ro_selected_expiry_ns u)"
  note parts = resolve_parts [OF r]
  note inv = collect_pairs_inv [of ?options "ro_selected_expiry_ns u"]
  note expiry = select_expiry_least [OF parts(1)]
  have future: "now < or_expiration_ns x" if "x \<in> set ?options" for x
    using that by (auto simp: collect_matching_options_def set_map_filter intro: option_ref_future)
  have bm: "btree_map ?pairs" using inv by blast
  from select_strikes_sound [OF parts(2) m complete_strikes_sorted [OF bm]]
  have strikes: "set (ro_selected_strikes u) \<subseteq> set (complete_strikes ?pairs)" "distinct (ro_selected_strikes u)"
    "sorted (map (fl_price fl) (ro_selected_strikes u))" by auto
  from pair_ids_complete [OF bm strikes(1)] parts(3) obtain legs
    where legs: "ro_option_instrument_ids u = concat (map (\<lambda>(call, put). [call, put]) legs)"
      "list_all2 (\<lambda>strike (call, put). map_of ?pairs strike = Some \<lparr>sk_call = Some call, sk_put = Some put\<rparr>) (ro_selected_strikes u) legs"
    by auto
  have "option_listed spec instruments now (ro_selected_expiry_ns u) strike Call call
      \<and> option_listed spec instruments now (ro_selected_expiry_ns u) strike Put put"
    if "map_of ?pairs strike = Some \<lparr>sk_call = Some call, sk_put = Some put\<rparr>" for strike call put
    using inv that by (fastforce simp: listed_matching)
  with legs(2) have legs2: "list_all2 (\<lambda>strike (call, put). option_listed spec instruments now (ro_selected_expiry_ns u) strike Call call
             \<and> option_listed spec instruments now (ro_selected_expiry_ns u) strike Put put) (ro_selected_strikes u) legs"
    by (auto elim!: list_all2_mono)
  have earliest: "ro_selected_expiry_ns u \<le> e" if "option_listed spec instruments now e strike kind i" "e - now \<le> max_delta_ns spec"
  proof -
    have "\<lparr>or_instrument_id = i, or_expiration_ns = e, or_strike = strike, or_kind = kind\<rparr> \<in> set ?options"
      using that(1) by (simp only: listed_matching [symmetric] listed_at_def)
    with expiry that(2) show ?thesis by fastforce
  qed
  have "sorted_wrt (<) (ro_all_instrument_ids u)"
    unfolding parts(6) using remdups_adj_sorted [of "sort (ro_option_instrument_ids u @ opt_list (ro_perp_instrument_id u))"]
    by (simp add: strict_sorted_iff)
  moreover have "set (ro_all_instrument_ids u) = set (ro_option_instrument_ids u) \<union> set_option (ro_perp_instrument_id u)"
    unfolding parts(6) by (auto simp: opt_list_def split: option.splits)
  moreover have "now < ro_selected_expiry_ns u" using expiry future by auto
  ultimately show ?thesis using expiry earliest strikes(2,3) legs(1) legs2 parts(4,5)
    by (intro conjI) blast+
qed

text \<open>
  C33: resolving an option universe never panics: every selected strike has its complete pair, and
  the slice around the money is within the strikes, as long as the number of strikes wanted above
  the money does not overflow the index.
\<close>

theorem option_universe_no_panic:
  fixes instruments :: "('i::linorder, 'p::linorder) instrument list"
  assumes "case os_strike_policy spec of AtmRelative up down \<Rightarrow> up + length instruments < 2 ^ 64 | _ \<Rightarrow> True"
    and "mono (fl_price fl)"
  shows "resolve_option_universe fl spec instruments now atm perp metrics \<noteq> Inl ResolvePanic"
proof
  assume panic: "resolve_option_universe fl spec instruments now atm perp metrics = Inl ResolvePanic"
  let ?options = "collect_matching_options spec instruments now"
  let ?pairs = "collect_strike_pairs ?options"
  have "length ?options \<le> length instruments"
    by (induction instruments) (auto simp: collect_matching_options_def List.map_filter_simps split: option.splits)
  moreover have "length (complete_strikes m) \<le> length m" for m :: "('p \<times> 'i strike_pair) list"
    by (simp add: complete_strikes_def)
  ultimately have len: "length (complete_strikes (?pairs e)) \<le> length instruments" for e
    using collect_pairs_inv [of ?options e] by (meson order_trans)
  have expiry: "select_expiry spec ?options now \<noteq> Inl ResolvePanic"
    by (auto simp: select_expiry_def split: list.splits)
  have pairs: "pair_ids (?pairs e) sel \<noteq> Inl ResolvePanic"
    if "select_strikes fl spec (complete_strikes (?pairs e)) atm metrics = Inr sel" for e sel
  proof -
    have bm: "btree_map (?pairs e)" using collect_pairs_inv [of ?options e] by blast
    from select_strikes_sound [OF that assms(2) complete_strikes_sorted [OF bm]]
    have "set sel \<subseteq> set (complete_strikes (?pairs e))" by blast
    from pair_ids_complete [OF bm this] show ?thesis by auto
  qed
  have strikes: "select_strikes fl spec (complete_strikes (?pairs e)) atm metrics \<noteq> Inl ResolvePanic"
    if "complete_strikes (?pairs e) \<noteq> []" for e
  proof (cases "os_strike_policy spec")
    case (AtmRelative up down)
    obtain s ss where ks: "complete_strikes (?pairs e) = s # ss" using \<open>complete_strikes (?pairs e) \<noteq> []\<close> by (cases "complete_strikes (?pairs e)") auto
    let ?j = "fst (first_min (closer fl (fl_price fl atm)) (0, s) (List.enumerate 1 ss))"
    have "?j < length (s # ss)" using atm_nearest [OF refl, of fl "fl_price fl atm" s ss] by blast
    moreover have "up + length (s # ss) < 2 ^ 64" using assms(1) AtmRelative len [of e] ks by simp
    ultimately have "usize_add ?j up = ?j + up" by (simp add: usize_add_def)
    moreover have "j - down \<le> Suc (min (j + up) (length ss)) \<and> min (j + up) (length ss) < Suc (length ss)"
      if "j < length (s # ss)" for j using that by (auto simp: min_def)
    ultimately show ?thesis using \<open>?j < length (s # ss)\<close> ks AtmRelative
      by (simp add: select_strikes_def slice_inclusive_def sat_sub_def Let_def)
  next
    case (OiRanked n)
    then show ?thesis by (auto simp: select_strikes_def select_top_n_strikes_by_metric_def Let_def split: option.splits)
  next
    case AllStrikes
    then show ?thesis by (simp add: select_strikes_def)
  qed
  from panic expiry pairs strikes show False
    by (auto simp: resolve_option_universe_def Let_def split: if_splits sum.splits option.splits)
qed

subsection \<open>Confirmed strike changes\<close>

text \<open>
  The refreshes of a universe as the smoothing sees them: each has the strikes it resolved and
  whether the expiry changed, and replaces the strikes in force when the change is applied.
\<close>

fun smoothing_step :: "nat \<Rightarrow> 'p list \<times> 'p smoothing \<Rightarrow> 'p list \<times> bool \<Rightarrow> 'p list \<times> 'p smoothing" where
  "smoothing_step n (current, st) (candidate, expiry_changed) =
     (let (apply_now, st') = should_apply_strike_change current candidate expiry_changed n st
      in (if apply_now then candidate else current, st'))"

definition smoothing_run :: "nat \<Rightarrow> 'p list \<Rightarrow> ('p list \<times> bool) list \<Rightarrow> 'p list \<times> 'p smoothing" where
  "smoothing_run n current observed = foldl (smoothing_step n) (current, smoothing_default) observed"

lemma smoothing_run_snoc: "smoothing_run n cur (obs @ [x]) = smoothing_step n (smoothing_run n cur obs) x"
  by (simp add: smoothing_run_def)

lemma smoothing_pending:
  assumes "0 < n" "n < 2 ^ 32" "smoothing_run n cur obs = (now_current, st)"
  shows "sm_confirmations st < n
    \<and> (case sm_pending_strikes st of None \<Rightarrow> sm_confirmations st = 0
       | Some c \<Rightarrow> 0 < sm_confirmations st \<and> (\<exists>pre. obs = pre @ replicate (sm_confirmations st) (c, False)))"
  using assms(3)
proof (induction obs arbitrary: now_current st rule: rev_induct)
  case Nil
  then show ?case using assms(1) by (auto simp: smoothing_run_def smoothing_default_def)
next
  case (snoc x obs)
  obtain cur1 st1 where run: "smoothing_run n cur obs = (cur1, st1)" by fastforce
  obtain c e where x: "x = (c, e)" by fastforce
  note inv = snoc.IH [OF run]
  from snoc.prems have step: "smoothing_step n (cur1, st1) (c, e) = (now_current, st)"
    by (simp add: smoothing_run_snoc run x)
  show ?case
  proof (cases "e \<or> cur1 = c")
    case True
    then have "should_apply_strike_change cur1 c e n st1 = (True, smoothing_default)"
      by (auto simp: should_apply_strike_change_def)
    then have "st = smoothing_default" using step by simp
    then show ?thesis using assms(1) by (simp add: smoothing_default_def)
  next
    case ne: False
    show ?thesis
    proof (cases "sm_pending_strikes st1 = Some c")
      case True
      then obtain pre where pre: "obs = pre @ replicate (sm_confirmations st1) (c, False)" using inv by auto
      have "obs @ [x] = pre @ replicate (Suc (sm_confirmations st1)) (c, False)"
        using ne x by (simp add: pre replicate_append_same)
      then have "\<exists>pre. obs @ [x] = pre @ replicate (Suc (sm_confirmations st1)) (c, False)" by blast
      then show ?thesis using step ne True inv assms(1,2)
        by (auto simp: should_apply_strike_change_def Let_def smoothing_default_def min_def split: if_splits)
    next
      case False
      have "obs @ [x] = obs @ replicate 1 (c, False)" using ne x by simp
      then have "\<exists>pre. obs @ [x] = pre @ replicate 1 (c, False)" by blast
      then show ?thesis using step ne False assms(1)
        by (auto simp: should_apply_strike_change_def Let_def smoothing_default_def split: if_splits)
    qed
  qed
qed

lemma smoothing_repeats:
  assumes "0 < n" "n < 2 ^ 32" "foldl (smoothing_step n) (cur, st) (replicate k (c, False)) = (cur', st')" "cur \<noteq> c" "cur' \<noteq> c"
    "sm_confirmations st < n"
  shows "sm_confirmations st' < n \<and> (0 < k \<longrightarrow> sm_pending_strikes st' = Some c \<and> k \<le> sm_confirmations st')"
  using assms(3-)
proof (induction k arbitrary: cur' st')
  case 0
  then show ?case by simp
next
  case (Suc k)
  obtain cur1 st1 where run: "foldl (smoothing_step n) (cur, st) (replicate k (c, False)) = (cur1, st1)" by fastforce
  have step: "smoothing_step n (cur1, st1) (c, False) = (cur', st')"
    using Suc.prems(1) run by (simp only: replicate_Suc replicate_append_same [symmetric] foldl_append) simp
  have "cur1 \<noteq> c" using step Suc.prems(3) by (auto simp: should_apply_strike_change_def split: if_splits)
  with Suc.IH [OF run Suc.prems(2) _ Suc.prems(4)] step assms(1,2) Suc.prems(3)
  show ?case by (auto simp: should_apply_strike_change_def Let_def min_def split: if_splits)
qed

text \<open>
  strikes flicker only after enough refreshes agree. With smoothing over \<open>n\<close> confirmations
  and the expiry unchanged, a refresh replaces the strikes in force by others only when it is the
  last of \<open>n\<close> refreshes in a row that resolved the same new strikes; and \<open>n\<close> agreeing refreshes
  in a row always put their strikes in force.
\<close>

theorem strike_change_confirmed:
  assumes n: "0 < n" "n < 2 ^ 32"
  shows "(fst (smoothing_run n cur (obs @ [(c, False)])) \<noteq> fst (smoothing_run n cur obs)
      \<longrightarrow> fst (smoothing_run n cur (obs @ [(c, False)])) = c \<and> (\<exists>pre. obs @ [(c, False)] = pre @ replicate n (c, False)))
    \<and> fst (smoothing_run n cur (obs @ replicate n (c, False))) = c"
proof (intro conjI impI)
  obtain cur1 st1 where run: "smoothing_run n cur obs = (cur1, st1)" by fastforce
  note inv = smoothing_pending [OF n run]
  { assume changed: "fst (smoothing_run n cur (obs @ [(c, False)])) \<noteq> fst (smoothing_run n cur obs)"
    then have app: "fst (should_apply_strike_change cur1 c False n st1)" "cur1 \<noteq> c"
      by (auto simp: smoothing_run_snoc run split: prod.splits if_splits)
    then show "fst (smoothing_run n cur (obs @ [(c, False)])) = c"
      by (cases "should_apply_strike_change cur1 c False n st1") (simp add: smoothing_run_snoc run)
    show "\<exists>pre. obs @ [(c, False)] = pre @ replicate n (c, False)"
    proof (cases "sm_pending_strikes st1 = Some c")
      case True
      then obtain pre where pre: "obs = pre @ replicate (sm_confirmations st1) (c, False)" using inv by auto
      have "Suc (sm_confirmations st1) = n"
        using app True inv n by (auto simp: should_apply_strike_change_def Let_def min_def split: if_splits)
      then have "obs @ [(c, False)] = pre @ replicate n (c, False)"
        using pre by (metis append.assoc replicate_Suc replicate_append_same)
      then show ?thesis by blast
    next
      case False
      then have "n = 1" using app n by (auto simp: should_apply_strike_change_def Let_def split: if_splits)
      then show ?thesis by auto
    qed }
  show "fst (smoothing_run n cur (obs @ replicate n (c, False))) = c"
  proof (rule ccontr)
    assume ne: "fst (smoothing_run n cur (obs @ replicate n (c, False))) \<noteq> c"
    obtain cur2 st2 where run2: "foldl (smoothing_step n) (cur1, st1) (replicate n (c, False)) = (cur2, st2)" by fastforce
    then have "smoothing_run n cur (obs @ replicate n (c, False)) = (cur2, st2)"
      using run by (simp add: smoothing_run_def)
    with ne have ne2: "cur2 \<noteq> c" by simp
    have stays: "fst (foldl (smoothing_step n) (c, st) (replicate k (c, False))) = c" for k and st :: "'a smoothing"
      using n(1) by (induction k arbitrary: st) (simp_all add: should_apply_strike_change_def)
    have "cur1 \<noteq> c" using stays [where st = st1 and k = n] run2 ne2 by auto
    with smoothing_repeats [OF n run2 _ ne2] inv n show False by auto
  qed
qed

subsection \<open>A universe with two expiries\<close>

text \<open>Prices and their floats are natural numbers, instruments are numbered.\<close>

definition sample_floats :: "(nat, nat) float_ops" where
  "sample_floats = \<lparr>fl_price = (\<lambda>p. p), fl_distance = (\<lambda>a b. (a - b) + (b - a)), fl_is_finite = (\<lambda>_. True),
     fl_zero = 0, fl_add = (+)\<rparr>"

definition sample_option :: "nat \<Rightarrow> nat \<Rightarrow> nat \<Rightarrow> option_kind \<Rightarrow> (nat, nat) instrument" where
  "sample_option i expiry strike kind = \<lparr>in_crypto_option = True, in_id = i, in_underlying = Some ''BTC'',
     in_settlement = ''BTC'', in_expiration = Some expiry, in_strike = Some strike, in_kind = Some kind\<rparr>"

definition sample_options :: "(nat, nat) instrument list" where
  "sample_options = [sample_option 1 50 100 Call, sample_option 2 50 100 Put, sample_option 3 50 90 Put,
     sample_option 4 50 110 Put, sample_option 5 50 110 Call, sample_option 6 90 100 Call, sample_option 7 90 100 Put]"

definition sample_option_spec :: option_spec where
  "sample_option_spec = \<lparr>os_venue_id = ''D'', os_underlying = ''BTC'', os_settlement_currency = None,
     os_include_perp = True, os_families = [OQuotes, OBookDeltas], os_expiry_policy = Nearest 1,
     os_strike_policy = AtmRelative 1 1\<rparr>"

lemmas sample_resolve_defs = resolve_option_universe_def collect_matching_options_def option_ref_of_def
  sample_options_def sample_option_def sample_option_spec_def List.map_filter_simps select_expiry_def max_delta_ns_def day_ns_def
  sat_sub_def collect_strike_pairs_def complete_strikes_def as_complete_pair_def select_strikes_def slice_inclusive_def
  usize_add_def closer_def sample_floats_def

lemma sample_resolve:
  "resolve_option_universe sample_floats sample_option_spec sample_options 10 104 (Some 9) None
   = Inr \<lparr>ro_resolved_at_ns = 10, ro_selected_expiry_ns = 50, ro_atm_reference = 104, ro_atm_reference_source = None,
       ro_selected_strikes = [100, 110], ro_perp_instrument_id = Some 9, ro_option_instrument_ids = [1, 2, 5, 4],
       ro_all_instrument_ids = [1, 2, 4, 5, 9]\<rparr>"
  by (simp add: sample_resolve_defs Let_def)

theorem option_universe_sound_witness:
  "\<exists>u. resolve_option_universe sample_floats sample_option_spec sample_options 10 104 (Some 9) None = Inr u
     \<and> sorted_wrt (<) (ro_all_instrument_ids u) \<and> ro_perp_instrument_id u = Some 9"
proof -
  have "mono (fl_price sample_floats)" by (simp add: sample_floats_def mono_def)
  from option_universe_sound [OF sample_resolve this] sample_resolve show ?thesis by auto
qed

theorem option_universe_no_panic_witness:
  "resolve_option_universe sample_floats sample_option_spec sample_options 10 104 (Some 9) None \<noteq> Inl ResolvePanic"
proof (rule option_universe_no_panic)
  show "mono (fl_price sample_floats)" by (simp add: sample_floats_def mono_def)
qed (simp add: sample_option_spec_def sample_options_def)

theorem strike_change_confirmed_witness:
  "fst (smoothing_run 2 [100 :: nat] ([([110], False), ([120], False)] @ replicate 2 ([110], False))) = [110]"
  using strike_change_confirmed [of 2 "[100 :: nat]" "[([110], False), ([120], False)]" "[110]"] by simp

end
