(* ===== verification/Hip4_Market.thy ===== *)
theory Hip4_Market
  imports Option_Universe Replay
begin

section \<open>HIP-4 outcome markets\<close>

text \<open>
  \<open>crates/catalog-capture-core/src/hip4\<close>: the choice of a market from the venue's \<open>outcomeMeta\<close>
  (\<open>outcome_meta.rs\<close>), the choice of the running quarter-hour market (\<open>rolling.rs\<close>), the resolved
  universe (\<open>spec.rs\<close>), its plan (\<open>expand.rs\<close>), its resolution records (\<open>metadata.rs\<close>) and the
  delay until the next look (\<open>rollover.rs\<close>).

  Strings are ASCII. \<open>Decimal::from_str_exact\<close>, chrono's calendar and \<open>InstrumentId::from_str\<close> are
  parameters.
\<close>

subsection \<open>JSON values and strings\<close>

definition json_get :: "json \<Rightarrow> string \<Rightarrow> json option" where
  "json_get v key = (case v of JObject m \<Rightarrow> map_of m key | _ \<Rightarrow> None)"

definition json_str :: "json option \<Rightarrow> string option" where
  "json_str v = (case v of Some (JString s) \<Rightarrow> Some s | _ \<Rightarrow> None)"

definition json_u64 :: "json option \<Rightarrow> nat option" where
  "json_u64 v = (case v of Some (JUint n) \<Rightarrow> Some n | _ \<Rightarrow> None)"

definition json_array :: "json option \<Rightarrow> json list option" where
  "json_array v = (case v of Some (JArray xs) \<Rightarrow> Some xs | _ \<Rightarrow> None)"

fun split_char :: "char \<Rightarrow> string \<Rightarrow> string list" where
  "split_char sep [] = [[]]"
| "split_char sep (c # cs) =
     (if c = sep then [] # split_char sep cs
      else case split_char sep cs of [] \<Rightarrow> [[c]] | part # parts \<Rightarrow> (c # part) # parts)"

definition split_once :: "char \<Rightarrow> string \<Rightarrow> (string \<times> string) option" where
  "split_once sep s =
     (case position (\<lambda>c. c = sep) s of None \<Rightarrow> None | Some i \<Rightarrow> Some (take i s, drop (Suc i) s))"

definition is_space :: "char \<Rightarrow> bool" where
  "is_space c = (let n = of_char c :: nat in n = 32 \<or> (9 \<le> n \<and> n \<le> 13))"

definition trim :: "string \<Rightarrow> string" where
  "trim s = rev (dropWhile is_space (rev (dropWhile is_space s)))"

definition ascii_lower :: "string \<Rightarrow> string" where
  "ascii_lower s = map (\<lambda>c. let n = of_char c :: nat in if 65 \<le> n \<and> n \<le> 90 then char_of (n + 32) else c) s"

definition btree_insert :: "'k::linorder \<Rightarrow> 'v \<Rightarrow> ('k \<times> 'v) list \<Rightarrow> ('k \<times> 'v) list" where
  "btree_insert k v m = btree_entry k v (\<lambda>_. v) m"

subsection \<open>Outcome markets\<close>

record 'd hip4_market =
  hm_question_id :: nat
  hm_question_name :: "string option"
  hm_market_class :: "string option"
  hm_underlying :: "string option"
  hm_period :: "string option"
  hm_outcome_ids :: "nat list"
  hm_instrument_ids :: "string list"
  hm_expiration_ns :: nat
  hm_start_price :: "'d option"
  hm_price_thresholds :: "'d list"
  hm_description :: string

record hip4_options =
  ho_underlying :: string
  ho_period :: string
  ho_market_class :: string
  ho_include_fallback :: bool
  ho_now_ns :: nat

record 'd hip4_env =
  he_decimal :: "string \<Rightarrow> 'd option"
  he_positive :: "'d \<Rightarrow> bool"
  he_utc_nanos :: "int \<Rightarrow> nat \<Rightarrow> nat \<Rightarrow> nat \<Rightarrow> nat \<Rightarrow> int option"

definition parse_description_fields :: "string \<Rightarrow> (string \<times> string) list" where
  "parse_description_fields description =
     foldl (\<lambda>fs part.
       case split_once (CHR '':'') part of
         None \<Rightarrow> fs
       | Some (k, v) \<Rightarrow> let key = trim k; value = trim v
                        in if key = [] then fs else btree_insert key value fs) [] (split_char (CHR ''|'') description)"

definition daily_periods :: "string list" where
  "daily_periods = [''1d'', ''daily'', ''24h'']"

definition periods_equivalent :: "string \<Rightarrow> string \<Rightarrow> bool" where
  "periods_equivalent left right =
     (let l = ascii_lower (trim left); r = ascii_lower (trim right)
      in if l \<in> set daily_periods \<and> r \<in> set daily_periods then True else l = r)"

definition matches_hip4_market_filter :: "(string \<times> string) list \<Rightarrow> string \<Rightarrow> string \<Rightarrow> string \<Rightarrow> bool" where
  "matches_hip4_market_filter fs underlying period market_class =
     ((case map_of fs ''class'' of Some v \<Rightarrow> ascii_lower v = ascii_lower market_class | None \<Rightarrow> False)
      \<and> (case map_of fs ''underlying'' of Some v \<Rightarrow> ascii_lower v = ascii_lower underlying | None \<Rightarrow> False)
      \<and> (case map_of fs ''period'' of Some v \<Rightarrow> periods_equivalent v period | None \<Rightarrow> False))"

definition instrument_ids_from_outcomes :: "nat list \<Rightarrow> string list" where
  "instrument_ids_from_outcomes outcome_ids =
     concat (map (\<lambda>i. map (\<lambda>side. show_nat i @ ''-'' @ side @ ''-OUTCOME.HYPERLIQUID'') [''YES'', ''NO'']) outcome_ids)"

definition hip4_perp_instrument_id :: "string \<Rightarrow> string" where
  "hip4_perp_instrument_id underlying = underlying @ ''-USD-PERP.HYPERLIQUID''"

definition parse_price_thresholds :: "'d hip4_env \<Rightarrow> string option \<Rightarrow> 'd list" where
  "parse_price_thresholds env value =
     (case value of None \<Rightarrow> []
      | Some v \<Rightarrow> List.map_filter (\<lambda>part. he_decimal env (trim part)) (split_char (CHR '','') v))"

definition description_price_keys :: "string list" where
  "description_price_keys = [''targetPrice'', ''startPrice'', ''startPx'', ''strike'', ''strikePrice'']"

fun first_price :: "'d hip4_env \<Rightarrow> (string \<times> string) list \<Rightarrow> string list \<Rightarrow> 'd option" where
  "first_price env fs [] = None"
| "first_price env fs (key # keys) =
     (case map_of fs key of
        None \<Rightarrow> first_price env fs keys
      | Some value \<Rightarrow> (case he_decimal env value of
           Some d \<Rightarrow> Some d
         | None \<Rightarrow> first_price env fs keys))"

definition resolve_start_price :: "'d hip4_env \<Rightarrow> (string \<times> string) list \<Rightarrow> 'd option" where
  "resolve_start_price env fs = first_price env fs description_price_keys"

definition ok_option :: "'a result \<Rightarrow> 'a option" where
  "ok_option r = (case r of Inl _ \<Rightarrow> None | Inr x \<Rightarrow> Some x)"

text \<open>\<open>u32::from_str\<close> and \<open>i32::from_str\<close> of the few characters the expiry has for a field.\<close>

definition parse_u32 :: "string \<Rightarrow> nat option" where
  "parse_u32 s = (case ok_option (parse_u64 s) of Some n \<Rightarrow> if n < 2 ^ 32 then Some n else None | None \<Rightarrow> None)"

definition parse_i32 :: "string \<Rightarrow> int option" where
  "parse_i32 s =
     (case s of
        [] \<Rightarrow> None
      | c # ds \<Rightarrow>
          if c = CHR ''-''
          then (case ds of [] \<Rightarrow> None
                | d # _ \<Rightarrow> if d = CHR ''+'' then None
                           else (case parse_u32 ds of Some n \<Rightarrow> if n \<le> 2 ^ 31 then Some (- int n) else None | None \<Rightarrow> None))
          else (case parse_u32 s of Some n \<Rightarrow> if n < 2 ^ 31 then Some (int n) else None | None \<Rightarrow> None))"

definition parse_expiry_to_ns :: "'d hip4_env \<Rightarrow> string \<Rightarrow> nat option" where
  "parse_expiry_to_ns env value =
     (let raw = trim value
      in if raw = [] then None
         else if list_all (\<lambda>c. digit_value c \<noteq> None) raw
         then (if 16 \<le> length raw then ok_option (parse_u64 raw)
               else if length raw = 13 then map_option (\<lambda>v. v * 1000000) (ok_option (parse_u64 raw))
               else if length raw = 10 then map_option (\<lambda>v. v * 1000000000) (ok_option (parse_u64 raw))
               else None)
         else if length raw \<noteq> 13 \<or> raw ! 8 \<noteq> CHR ''-'' then None
         else (case parse_i32 (take 4 raw) of None \<Rightarrow> None | Some year \<Rightarrow>
              (case parse_u32 (take 2 (drop 4 raw)) of None \<Rightarrow> None | Some month \<Rightarrow>
              (case parse_u32 (take 2 (drop 6 raw)) of None \<Rightarrow> None | Some day \<Rightarrow>
              (case parse_u32 (take 2 (drop 9 raw)) of None \<Rightarrow> None | Some hour \<Rightarrow>
              (case parse_u32 (take 2 (drop 11 raw)) of None \<Rightarrow> None | Some minute \<Rightarrow>
              (case he_utc_nanos env year month day hour minute of None \<Rightarrow> None
               | Some t \<Rightarrow> Some (nat (t mod 2 ^ 64)))))))))"

definition build_resolved_hip4_market ::
  "'d hip4_env \<Rightarrow> nat \<Rightarrow> string \<Rightarrow> (string \<times> string) list \<Rightarrow> nat list \<Rightarrow> string option \<Rightarrow> 'd hip4_market" where
  "build_resolved_hip4_market env question_id description fs outcome_ids question_name = \<lparr>
     hm_question_id = question_id, hm_question_name = question_name,
     hm_market_class = map_of fs ''class'', hm_underlying = map_of fs ''underlying'',
     hm_period = map_of fs ''period'', hm_outcome_ids = outcome_ids,
     hm_instrument_ids = instrument_ids_from_outcomes outcome_ids,
     hm_expiration_ns = (case parse_expiry_to_ns env (case map_of fs ''expiry'' of Some v \<Rightarrow> v | None \<Rightarrow> []) of
        Some t \<Rightarrow> t | None \<Rightarrow> 0),
     hm_start_price = resolve_start_price env fs,
     hm_price_thresholds = parse_price_thresholds env (map_of fs ''priceThresholds''),
     hm_description = description\<rparr>"

definition u32_of :: "nat \<Rightarrow> nat" where
  "u32_of n = n mod 2 ^ 32"

definition question_candidate :: "'d hip4_env \<Rightarrow> hip4_options \<Rightarrow> json \<Rightarrow> 'd hip4_market option" where
  "question_candidate env opts raw =
     (case json_u64 (json_get raw ''question'') of
        None \<Rightarrow> None
      | Some question_id \<Rightarrow>
         let description = (case json_str (json_get raw ''description'') of Some d \<Rightarrow> d | None \<Rightarrow> []);
             fs = parse_description_fields description;
             named = (case json_array (json_get raw ''namedOutcomes'') of
                        None \<Rightarrow> [] | Some items \<Rightarrow> map u32_of (List.map_filter (\<lambda>v. json_u64 (Some v)) items))
         in if \<not> matches_hip4_market_filter fs (ho_underlying opts) (ho_period opts) (ho_market_class opts) then None
            else if named = [] then None
            else let ids = (if ho_include_fallback opts
                            then (case json_u64 (json_get raw ''fallbackOutcome'') of
                                    Some f \<Rightarrow> named @ [u32_of f] | None \<Rightarrow> named)
                            else named)
                 in Some (build_resolved_hip4_market env (u32_of question_id) description fs ids
                      (json_str (json_get raw ''name''))))"

definition outcome_candidate :: "'d hip4_env \<Rightarrow> hip4_options \<Rightarrow> json \<Rightarrow> 'd hip4_market option" where
  "outcome_candidate env opts raw =
     (case json_u64 (json_get raw ''outcome'') of
        None \<Rightarrow> None
      | Some outcome_id \<Rightarrow>
         let description = (case json_str (json_get raw ''description'') of Some d \<Rightarrow> d | None \<Rightarrow> []);
             fs = parse_description_fields description
         in if \<not> matches_hip4_market_filter fs (ho_underlying opts) (ho_period opts) (ho_market_class opts) then None
            else Some (build_resolved_hip4_market env (u32_of outcome_id) description fs [u32_of outcome_id]
                   (json_str (json_get raw ''name''))))"

definition hip4_candidates :: "'d hip4_env \<Rightarrow> hip4_options \<Rightarrow> json \<Rightarrow> 'd hip4_market list" where
  "hip4_candidates env opts payload =
     (case json_array (json_get payload ''questions'') of
        None \<Rightarrow> [] | Some questions \<Rightarrow> List.map_filter (question_candidate env opts) questions)
     @ (case json_array (json_get payload ''outcomes'') of
        None \<Rightarrow> [] | Some outcomes \<Rightarrow> List.map_filter (outcome_candidate env opts) outcomes)"

text \<open>\<open>Iterator::max_by_key\<close>: the last of the greatest elements.\<close>

fun last_max :: "('a \<Rightarrow> 'a \<Rightarrow> bool) \<Rightarrow> 'a \<Rightarrow> 'a list \<Rightarrow> 'a" where
  "last_max lt x [] = x"
| "last_max lt x (y # ys) = last_max lt (if lt y x then x else y) ys"

datatype hip4_error =
    NoHip4Market
  | LacksOutcomes
  | UnsupportedUnderlying
  | WindowOverflow
  | InvalidTemplateTime
  | DuplicateKeyword
  | SettlementChanged
  | InvalidThreshold
  | SidesChanged
  | InvalidOutcomeId
  | AssetIdOverflow
  | AmbiguousMarket

text \<open>The lexicographic key \<open>(expiration_ns, question_id)\<close>.\<close>

definition sooner :: "'d hip4_market \<Rightarrow> 'd hip4_market \<Rightarrow> bool" where
  "sooner a b = (hm_expiration_ns a < hm_expiration_ns b
     \<or> (hm_expiration_ns a = hm_expiration_ns b \<and> hm_question_id a < hm_question_id b))"

definition resolve_hip4_market :: "'d hip4_env \<Rightarrow> json \<Rightarrow> hip4_options \<Rightarrow> hip4_error + 'd hip4_market" where
  "resolve_hip4_market env payload opts =
     (case hip4_candidates env opts payload of
        [] \<Rightarrow> Inl NoHip4Market
      | m # ms \<Rightarrow>
         (case filter (\<lambda>x. ho_now_ns opts < hm_expiration_ns x) (m # ms) of
            f # fs \<Rightarrow> Inr (first_min sooner f fs)
          | [] \<Rightarrow> (case filter (\<lambda>x. 0 < hm_expiration_ns x) (m # ms) of
               p # ps \<Rightarrow> Inr (last_max sooner p ps)
             | [] \<Rightarrow> Inr (last_max (\<lambda>a b. hm_question_id a < hm_question_id b) m ms))))"

subsection \<open>The running quarter hour\<close>

definition rolling_interval_ns :: nat where
  "rolling_interval_ns = 900000000000"

record rolling_config =
  rc_venue_id :: string
  rc_underlyings :: "string list"
  rc_retry_secs :: nat

definition rolling_assets :: "string list" where
  "rolling_assets = [''BTC'', ''ETH'']"

definition rolling_config_validate :: "rolling_config \<Rightarrow> unit result" where
  "rolling_config_validate c =
     (if trim (rc_venue_id c) = [] then Inl (InvalidConfig ''HIP-4 rolling venue_id is required'')
      else if \<not> (rc_underlyings c \<noteq> [] \<and> length (rc_underlyings c) \<le> 2
                 \<and> list_all (\<lambda>s. s \<in> set rolling_assets) (rc_underlyings c)
                 \<and> card (set (rc_underlyings c)) = length (rc_underlyings c))
      then Inl (InvalidConfig ''HIP-4 rolling requires distinct BTC/ETH underlyings'')
      else if \<not> (1 \<le> rc_retry_secs c \<and> rc_retry_secs c \<le> 60)
      then Inl (InvalidConfig ''invalid HIP-4 discovery retry interval'')
      else Inr ())"

record rolling_market =
  rm_outcome :: nat
  rm_underlying :: string
  rm_end_ns :: nat
  rm_raw :: json

definition rolling_fields :: "string \<Rightarrow> (string \<times> string) list" where
  "rolling_fields description =
     foldl (\<lambda>m part. case split_once (CHR '':'') part of None \<Rightarrow> m | Some (k, v) \<Rightarrow> btree_insert k v m) []
       (split_char (CHR ''|'') description)"

definition rolling_description :: "json \<Rightarrow> string" where
  "rolling_description raw = (case json_str (json_get raw ''description'') of Some d \<Rightarrow> d | None \<Rightarrow> [])"

text \<open>The first two tests of the loop: whether an outcome is a template of this underlying.\<close>

definition rolling_template :: "string \<Rightarrow> json \<Rightarrow> bool" where
  "rolling_template underlying raw =
     (json_str (json_get raw ''venue'') = Some ''out'' \<and> json_str (json_get raw ''name'') = Some ''template:binaryPrice''
      \<and> map_of (rolling_fields (rolling_description raw)) ''perp'' = Some underlying)"

definition rolling_time :: "'d hip4_env \<Rightarrow> json \<Rightarrow> nat option" where
  "rolling_time env raw =
     (case map_of (rolling_fields (rolling_description raw)) ''time'' of Some s \<Rightarrow> parse_expiry_to_ns env s | None \<Rightarrow> None)"

definition side_name :: "json \<Rightarrow> nat \<Rightarrow> string option" where
  "side_name raw i =
     (case json_array (json_get raw ''sideSpecs'') of
        Some sides \<Rightarrow> if i < length sides then json_str (json_get (sides ! i) ''name'') else None
      | None \<Rightarrow> None)"

definition settlement_unchanged :: "string \<Rightarrow> json \<Rightarrow> bool" where
  "settlement_unchanged underlying raw =
     (let fs = rolling_fields (rolling_description raw)
      in map_of fs ''seconds'' = Some ''60''
         \<and> map_of fs ''priceDescription'' = Some (underlying @ ''-USDC perp mark'')
         \<and> json_str (json_get raw ''quoteToken'') = Some ''USDC'')"

definition valid_threshold :: "'d hip4_env \<Rightarrow> json \<Rightarrow> bool" where
  "valid_threshold env raw =
     (case map_of (rolling_fields (rolling_description raw)) ''threshold'' of
        Some s \<Rightarrow> (case he_decimal env s of Some d \<Rightarrow> he_positive env d | None \<Rightarrow> False)
      | None \<Rightarrow> False)"

definition sides_unchanged :: "json \<Rightarrow> bool" where
  "sides_unchanged raw =
     (side_name raw 0 = Some ''template:Yes'' \<and> side_name raw 1 = Some ''template:No''
      \<and> (case json_array (json_get raw ''sideSpecs'') of Some sides \<Rightarrow> length sides = 2 | None \<Rightarrow> False))"

text \<open>The body of the loop up to the test that no market was selected before.\<close>

definition rolling_check :: "'d hip4_env \<Rightarrow> string \<Rightarrow> nat \<Rightarrow> json \<Rightarrow> hip4_error + rolling_market option" where
  "rolling_check env underlying expected_end raw =
     (if \<not> rolling_template underlying raw then Inr None
      else case rolling_time env raw of
        None \<Rightarrow> Inl InvalidTemplateTime
      | Some end_ns \<Rightarrow>
         if end_ns \<noteq> expected_end then Inr None
         else if length (rolling_fields (rolling_description raw)) \<noteq> length (split_char (CHR ''|'') (rolling_description raw))
         then Inl DuplicateKeyword
         else if \<not> settlement_unchanged underlying raw then Inl SettlementChanged
         else if \<not> valid_threshold env raw then Inl InvalidThreshold
         else if \<not> sides_unchanged raw then Inl SidesChanged
         else case json_u64 (json_get raw ''outcome'') of
           None \<Rightarrow> Inl InvalidOutcomeId
         | Some outcome \<Rightarrow>
            if \<not> (outcome < 2 ^ 32 \<and> 0 < outcome) then Inl InvalidOutcomeId
            else if \<not> (outcome * 10 < 2 ^ 32 \<and> outcome * 10 + 100000001 < 2 ^ 32) then Inl AssetIdOverflow
            else Inr (Some \<lparr>rm_outcome = outcome, rm_underlying = underlying, rm_end_ns = end_ns, rm_raw = raw\<rparr>))"

fun rolling_scan ::
  "'d hip4_env \<Rightarrow> string \<Rightarrow> nat \<Rightarrow> rolling_market option \<Rightarrow> json list \<Rightarrow> hip4_error + rolling_market option" where
  "rolling_scan env underlying expected_end selected [] = Inr selected"
| "rolling_scan env underlying expected_end selected (raw # raws) =
     (case rolling_check env underlying expected_end raw of
        Inl e \<Rightarrow> Inl e
      | Inr None \<Rightarrow> rolling_scan env underlying expected_end selected raws
      | Inr (Some m) \<Rightarrow> if selected \<noteq> None then Inl AmbiguousMarket
                       else rolling_scan env underlying expected_end (Some m) raws)"

definition select_rolling_market ::
  "'d hip4_env \<Rightarrow> json \<Rightarrow> string \<Rightarrow> nat \<Rightarrow> hip4_error + rolling_market option" where
  "select_rolling_market env payload underlying now =
     (if underlying \<notin> set rolling_assets then Inl UnsupportedUnderlying
      else case json_array (json_get payload ''outcomes'') of
        None \<Rightarrow> Inl LacksOutcomes
      | Some outcomes \<Rightarrow>
         let expected_end = (now div rolling_interval_ns + 1) * rolling_interval_ns
         in if u64_max < expected_end then Inl WindowOverflow
            else rolling_scan env underlying expected_end None outcomes)"

subsection \<open>Universes\<close>

datatype hip4_family = HInstruments | HQuotes | HTrades | HMarkPrices

record hip4_spec =
  hs_venue_id :: string
  hs_underlying :: string
  hs_period :: string
  hs_market_class :: string
  hs_include_fallback :: bool
  hs_include_perp_mark :: bool
  hs_families :: "hip4_family list"

record ('i, 'd) resolved_hip4 =
  rh_resolved_at_ns :: nat
  rh_market :: "'d hip4_market"
  rh_perp_instrument_id :: "'i option"
  rh_outcome_instrument_ids :: "'i list"
  rh_all_instrument_ids :: "'i list"

definition build_resolved_hip4_universe ::
  "(string \<Rightarrow> 'i option) \<Rightarrow> hip4_spec \<Rightarrow> 'd hip4_market \<Rightarrow> nat \<Rightarrow> ('i, 'd) resolved_hip4" where
  "build_resolved_hip4_universe parse_id spec market resolved_at_ns =
     (let outcomes = List.map_filter parse_id (hm_instrument_ids market);
          perp = (if hs_include_perp_mark spec then parse_id (hip4_perp_instrument_id (hs_underlying spec)) else None)
      in \<lparr>rh_resolved_at_ns = resolved_at_ns, rh_market = market, rh_perp_instrument_id = perp,
          rh_outcome_instrument_ids = outcomes, rh_all_instrument_ids = opt_list perp @ outcomes\<rparr>)"

definition expand_hip4_family ::
  "('i, 'd) resolved_hip4 \<Rightarrow> ('i, 'b) capture_plan \<Rightarrow> hip4_family \<Rightarrow> ('i, 'b) capture_plan" where
  "expand_hip4_family r p family =
     (case family of
        HInstruments \<Rightarrow> p\<lparr>pl_instruments := pl_instruments p @ id_specs (rh_all_instrument_ids r)\<rparr>
      | HQuotes \<Rightarrow> p\<lparr>pl_quotes := pl_quotes p @ id_specs (rh_outcome_instrument_ids r)\<rparr>
      | HTrades \<Rightarrow> p\<lparr>pl_trades := pl_trades p @ id_specs (rh_outcome_instrument_ids r)\<rparr>
      | HMarkPrices \<Rightarrow> p\<lparr>pl_mark_prices := pl_mark_prices p @ id_specs (opt_list (rh_perp_instrument_id r))\<rparr>)"

definition expand_hip4_universe :: "hip4_spec \<Rightarrow> ('i, 'd) resolved_hip4 \<Rightarrow> ('i, 'b) capture_plan" where
  "expand_hip4_universe spec r = foldl (expand_hip4_family r) empty_plan (hs_families spec)"

subsection \<open>Resolution records\<close>

datatype resolution_event = Startup | Refresh

record hip4_record =
  hr_event_kind :: resolution_event
  hr_venue_id :: string
  hr_underlying :: string
  hr_period :: string
  hr_market_class :: string
  hr_resolved_at_ns :: nat
  hr_resolved_at_iso8601 :: string
  hr_question_id :: nat
  hr_expiration_ns :: nat
  hr_expiration_iso8601 :: string
  hr_outcome_ids :: "nat list"
  hr_perp_instrument_id :: "string option"
  hr_outcome_instrument_ids :: "string list"
  hr_all_instrument_ids :: "string list"
  hr_added_instrument_ids :: "string list"
  hr_removed_instrument_ids :: "string list"
  hr_rollover_reason :: "string option"

text \<open>\<open>unix_nanos_to_iso8601\<close> and the text of an instrument id are parameters.\<close>

record 'i text_env =
  te_iso :: "nat \<Rightarrow> string"
  te_show_id :: "'i \<Rightarrow> string"

definition resolution_record ::
  "'i text_env \<Rightarrow> resolution_event \<Rightarrow> hip4_spec \<Rightarrow> ('i, 'd) resolved_hip4 \<Rightarrow> string list \<Rightarrow> string list \<Rightarrow> string option \<Rightarrow> hip4_record" where
  "resolution_record te kind spec r added removed reason = \<lparr>
     hr_event_kind = kind, hr_venue_id = hs_venue_id spec, hr_underlying = hs_underlying spec, hr_period = hs_period spec,
     hr_market_class = hs_market_class spec, hr_resolved_at_ns = rh_resolved_at_ns r,
     hr_resolved_at_iso8601 = te_iso te (rh_resolved_at_ns r), hr_question_id = hm_question_id (rh_market r),
     hr_expiration_ns = hm_expiration_ns (rh_market r), hr_expiration_iso8601 = te_iso te (hm_expiration_ns (rh_market r)),
     hr_outcome_ids = hm_outcome_ids (rh_market r), hr_perp_instrument_id = map_option (te_show_id te) (rh_perp_instrument_id r),
     hr_outcome_instrument_ids = map (te_show_id te) (rh_outcome_instrument_ids r),
     hr_all_instrument_ids = map (te_show_id te) (rh_all_instrument_ids r),
     hr_added_instrument_ids = added, hr_removed_instrument_ids = removed, hr_rollover_reason = reason\<rparr>"

definition startup_resolution_record ::
  "'i text_env \<Rightarrow> hip4_spec \<Rightarrow> ('i, 'd) resolved_hip4 \<Rightarrow> string list \<Rightarrow> string list \<Rightarrow> hip4_record" where
  "startup_resolution_record te spec r added removed = resolution_record te Startup spec r added removed None"

definition refresh_resolution_record ::
  "'i text_env \<Rightarrow> hip4_spec \<Rightarrow> ('i, 'd) resolved_hip4 \<Rightarrow> string list \<Rightarrow> string list \<Rightarrow> string option \<Rightarrow> hip4_record" where
  "refresh_resolution_record te spec r added removed reason = resolution_record te Refresh spec r added removed reason"

definition refresh_rollover_reasons :: "string list" where
  "refresh_rollover_reasons = [''question_roll'', ''expiry_roll'']"

datatype record_error = UnexpectedReason string | NotRefresh | NoInstrumentChange string string

definition validate_hip4_refresh_rollover_reason :: "string \<Rightarrow> record_error + unit" where
  "validate_hip4_refresh_rollover_reason reason =
     (if reason \<in> set refresh_rollover_reasons then Inr () else Inl (UnexpectedReason reason))"

definition validate_hip4_refresh_resolution_record :: "hip4_record \<Rightarrow> record_error + unit" where
  "validate_hip4_refresh_resolution_record r =
     (if hr_event_kind r \<noteq> Refresh then Inl NotRefresh
      else case (case hr_rollover_reason r of Some reason \<Rightarrow> validate_hip4_refresh_rollover_reason reason | None \<Rightarrow> Inr ()) of
        Inl e \<Rightarrow> Inl e
      | Inr _ \<Rightarrow> if hr_added_instrument_ids r = [] \<and> hr_removed_instrument_ids r = []
                then Inl (NoInstrumentChange (hr_venue_id r) (hr_underlying r))
                else Inr ())"

definition compute_hip4_refresh_rollover_reason ::
  "nat option \<Rightarrow> nat option \<Rightarrow> ('i, 'd) resolved_hip4 \<Rightarrow> bool \<Rightarrow> string option" where
  "compute_hip4_refresh_rollover_reason previous_question previous_expiration r changed =
     (if \<not> changed then None
      else if (case previous_question of Some q \<Rightarrow> q \<noteq> hm_question_id (rh_market r) | None \<Rightarrow> False) then Some ''question_roll''
      else if (case previous_expiration of Some e \<Rightarrow> e \<noteq> hm_expiration_ns (rh_market r) | None \<Rightarrow> False) then Some ''expiry_roll''
      else None)"

subsection \<open>When to look again\<close>

definition one_billion :: nat where
  "one_billion = 1000000000"

definition next_rotation_delay_secs :: "nat \<Rightarrow> nat option \<Rightarrow> nat \<Rightarrow> nat \<Rightarrow> nat \<Rightarrow> nat" where
  "next_rotation_delay_secs now expiration idle_poll active_poll pre_expiry_window =
     (let idle_secs = max idle_poll 1; active_secs = max active_poll 1;
          pre_window_ns = sat_mul pre_expiry_window one_billion
      in case (case expiration of Some e \<Rightarrow> if 0 < e then Some e else None | None \<Rightarrow> None) of
           None \<Rightarrow> active_secs
         | Some expiration_ns \<Rightarrow>
            let fast_window_start_ns = sat_sub expiration_ns pre_window_ns
            in if now < fast_window_start_ns
               then min idle_secs (max ((fast_window_start_ns - now) div one_billion) 1)
               else if now < expiration_ns
               then min active_secs ((expiration_ns - now + (one_billion - 1)) div one_billion)
               else active_secs)"

subsection \<open>Properties\<close>

lemma rolling_check_some:
  assumes "rolling_check env underlying e raw = Inr (Some m)"
  shows "rm_underlying m = underlying \<and> rm_end_ns m = e \<and> rm_raw m = raw \<and> settlement_unchanged underlying raw
    \<and> sides_unchanged raw \<and> valid_threshold env raw \<and> 0 < rm_outcome m \<and> rm_outcome m * 10 + 100000001 < 2 ^ 32
    \<and> rolling_template underlying raw \<and> rolling_time env raw = Some e"
  using assms by (auto simp: rolling_check_def split: option.splits if_splits)

lemma rolling_scan_spec:
  "rolling_scan env u e sel raws = Inr res \<Longrightarrow>
     (sel \<noteq> None \<longrightarrow> res = sel \<and> filter (\<lambda>raw. rolling_template u raw \<and> rolling_time env raw = Some e) raws = [])
   \<and> (sel = None \<longrightarrow> filter (\<lambda>raw. rolling_template u raw \<and> rolling_time env raw = Some e) raws = map rm_raw (opt_list res)
       \<and> (case res of None \<Rightarrow> True | Some m \<Rightarrow> rolling_check env u e (rm_raw m) = Inr (Some m)))"
proof (induction raws arbitrary: sel)
  case Nil
  then show ?case by (simp add: opt_list_def)
next
  case (Cons raw raws)
  have skip: "rolling_check env u e raw = Inr None \<longleftrightarrow>
      \<not> rolling_template u raw \<or> (rolling_time env raw \<noteq> None \<and> rolling_time env raw \<noteq> Some e)"
    by (auto simp: rolling_check_def Let_def split: option.splits)
  have pick: "rolling_template u raw \<and> rolling_time env raw = Some e \<and> rm_raw m = raw" if "rolling_check env u e raw = Inr (Some m)" for m
    using rolling_check_some [OF that] by blast
  consider "rolling_check env u e raw = Inr None" | m where "rolling_check env u e raw = Inr (Some m)" "sel = None"
    using Cons.prems by (auto split: sum.splits option.splits if_splits)
  then show ?case
  proof cases
    case 1
    then show ?thesis using Cons.IH [of sel] Cons.prems skip by auto
  next
    case 2
    then have "rolling_scan env u e (Some m) raws = Inr res" using Cons.prems by simp
    with Cons.IH [OF this] pick [OF 2(1)] 2 show ?thesis by (auto simp: opt_list_def)
  qed
qed

text \<open>
  C34: the rolling selection takes the market of the running quarter hour and no other. When it
  succeeds, the templates of this underlying that end at the end of the quarter hour containing
  now are exactly the one it selected, or none if it selected none; and a selected market is a
  two-sided market settled as expected with an outcome id that fits the venue's asset numbers.
\<close>

theorem rolling_market_current:
  assumes r: "select_rolling_market env payload underlying now = Inr res"
  defines "quarter_end \<equiv> (now div rolling_interval_ns + 1) * rolling_interval_ns"
  shows "now < quarter_end \<and> quarter_end \<le> now + rolling_interval_ns \<and> quarter_end \<le> u64_max
   \<and> (\<exists>outcomes. json_array (json_get payload ''outcomes'') = Some outcomes
        \<and> filter (\<lambda>raw. rolling_template underlying raw \<and> rolling_time env raw = Some quarter_end) outcomes = map rm_raw (opt_list res))
   \<and> (case res of None \<Rightarrow> True
      | Some m \<Rightarrow> rm_underlying m = underlying \<and> rm_end_ns m = quarter_end \<and> settlement_unchanged underlying (rm_raw m)
          \<and> sides_unchanged (rm_raw m) \<and> valid_threshold env (rm_raw m)
          \<and> 0 < rm_outcome m \<and> rm_outcome m * 10 + 100000001 < 2 ^ 32)"
proof -
  obtain outcomes where o: "json_array (json_get payload ''outcomes'') = Some outcomes"
    and "quarter_end \<le> u64_max" and scan: "rolling_scan env underlying quarter_end None outcomes = Inr res"
    using r by (auto simp: select_rolling_market_def quarter_end_def Let_def not_less split: if_splits option.splits)
  moreover have "now < quarter_end" "quarter_end \<le> now + rolling_interval_ns"
    using div_mult_mod_eq [of now rolling_interval_ns] mod_less_divisor [of rolling_interval_ns now]
    by (simp_all add: quarter_end_def rolling_interval_ns_def)
  ultimately show ?thesis using rolling_scan_spec [OF scan]
    by (auto dest!: rolling_check_some split: option.splits)
qed

text \<open>The delay ends within a second of what it waits for: the fast window, or the expiry inside it.\<close>

lemma rotation_delay_bounds:
  fixes now expiration idle active window :: nat
  assumes e: "0 < expiration"
  defines "delay \<equiv> next_rotation_delay_secs now (Some expiration) idle active window"
  defines "fast_start \<equiv> expiration - min (window * one_billion) u64_max"
  shows "1 \<le> delay
   \<and> (now < fast_start \<longrightarrow> delay \<le> max idle 1 \<and> now + delay * one_billion < fast_start + one_billion)
   \<and> (fast_start \<le> now \<longrightarrow> delay \<le> max active 1)
   \<and> (fast_start \<le> now \<and> now < expiration \<longrightarrow> now + delay * one_billion < expiration + one_billion)"
proof -
  have fs: "sat_sub expiration (sat_mul window one_billion) = fast_start" by (simp add: fast_start_def sat_sub_def sat_mul_def)
  have d: "delay = (if now < fast_start then min (max idle 1) (max ((fast_start - now) div one_billion) 1)
      else if now < expiration then min (max active 1) ((expiration - now + (one_billion - 1)) div one_billion) else max active 1)"
    using e fs by (simp add: delay_def next_rotation_delay_secs_def Let_def)
  have floor: "max (k div one_billion) 1 * one_billion < k + one_billion" if "0 < k" for k
    using that div_times_less_eq_dividend [of k one_billion] by (cases "k div one_billion = 0") (auto simp: one_billion_def max_def)
  have ceil: "(k + (one_billion - 1)) div one_billion * one_billion < k + one_billion" for k
    using div_times_less_eq_dividend [of "k + (one_billion - 1)" one_billion] by (simp add: one_billion_def)
  have pos: "1 \<le> (k + (one_billion - 1)) div one_billion" if "0 < k" for k
    using that by (simp add: one_billion_def div_greater_zero_iff Suc_le_eq)
  consider "now < fast_start" | "fast_start \<le> now" "now < expiration" | "fast_start \<le> now" "expiration \<le> now" by linarith
  then show ?thesis
  proof cases
    case 1
    have "delay \<le> max ((fast_start - now) div one_billion) 1" using d 1 by simp
    then have "delay * one_billion \<le> max ((fast_start - now) div one_billion) 1 * one_billion" by (rule mult_le_mono1)
    also have "\<dots> < fast_start - now + one_billion" using 1 by (intro floor) simp
    finally have "now + delay * one_billion < fast_start + one_billion" using 1 by simp
    moreover have "1 \<le> delay" "delay \<le> max idle 1" using d 1 by auto
    ultimately show ?thesis using 1 by auto
  next
    case 2
    have "delay \<le> (expiration - now + (one_billion - 1)) div one_billion" using d 2 by simp
    then have "delay * one_billion \<le> (expiration - now + (one_billion - 1)) div one_billion * one_billion" by (rule mult_le_mono1)
    also have "\<dots> < expiration - now + one_billion" by (rule ceil)
    finally have "now + delay * one_billion < expiration + one_billion" using 2 by simp
    moreover have "1 \<le> delay" "delay \<le> max active 1" using d 2 pos [of "expiration - now"] by auto
    ultimately show ?thesis using 2 by auto
  next
    case 3
    then show ?thesis using d by auto
  qed
qed

lemma last_max_in: "last_max lt x ys \<in> set (x # ys)"
  by (induction ys arbitrary: x) (auto split: if_splits)

lemma last_max_greatest:
  assumes "\<And>a b c. \<not> lt a b \<Longrightarrow> \<not> lt b c \<Longrightarrow> \<not> lt a c" "\<And>a b. lt a b \<Longrightarrow> \<not> lt b a" "\<And>a. \<not> lt a a"
    and "y \<in> set (x # ys)"
  shows "\<not> lt (last_max lt x ys) y"
  using assms(4)
proof (induction ys arbitrary: x y)
  case Nil
  then show ?case by (simp add: assms(3))
next
  case (Cons z zs)
  let ?w = "if lt z x then x else z"
  have step: "\<not> lt (last_max lt x (z # zs)) ?w" using Cons.IH [of ?w ?w] by simp
  show ?case
  proof (cases "y \<in> set (?w # zs)")
    case True
    from Cons.IH [OF this] show ?thesis by simp
  next
    case False
    then have "\<not> lt ?w y" using Cons.prems assms(2,3) by (auto split: if_splits)
    then show ?thesis using step assms(1) by blast
  qed
qed

lemma sooner_order:
  "\<not> sooner b a \<Longrightarrow> \<not> sooner c b \<Longrightarrow> \<not> sooner c a" "sooner a b \<Longrightarrow> \<not> sooner b a" "\<not> sooner a a"
  unfolding sooner_def by auto

text \<open>
  the market of a HIP-4 universe is the right one of those that match the specification: the
  next to expire while one is still open; else the last that expired; else, when none states its
  expiry, the one with the greatest question id. There is a market exactly when one matches.
\<close>

theorem hip4_market_selection:
  "case resolve_hip4_market env payload opts of
     Inl e \<Rightarrow> e = NoHip4Market \<and> hip4_candidates env opts payload = []
   | Inr m \<Rightarrow> m \<in> set (hip4_candidates env opts payload)
       \<and> (if list_ex (\<lambda>c. ho_now_ns opts < hm_expiration_ns c) (hip4_candidates env opts payload)
          then ho_now_ns opts < hm_expiration_ns m
             \<and> list_all (\<lambda>c. \<not> sooner c m) (filter (\<lambda>c. ho_now_ns opts < hm_expiration_ns c) (hip4_candidates env opts payload))
          else if list_ex (\<lambda>c. 0 < hm_expiration_ns c) (hip4_candidates env opts payload)
          then 0 < hm_expiration_ns m
             \<and> list_all (\<lambda>c. \<not> sooner m c) (filter (\<lambda>c. 0 < hm_expiration_ns c) (hip4_candidates env opts payload))
          else list_all (\<lambda>c. hm_question_id c \<le> hm_question_id m) (hip4_candidates env opts payload))"
proof (cases "hip4_candidates env opts payload")
  case Nil
  then show ?thesis by (simp add: resolve_hip4_market_def)
next
  case (Cons c cs)
  let ?fut = "filter (\<lambda>x. ho_now_ns opts < hm_expiration_ns x) (c # cs)"
  let ?past = "filter (\<lambda>x. 0 < hm_expiration_ns x) (c # cs)"
  have least: "\<not> sooner y (first_min sooner x ys)" if "y \<in> set (x # ys)" for x y :: "'a hip4_market" and ys
    using first_min_least [of sooner y x ys] sooner_order that by blast
  have greatest: "\<not> sooner (last_max sooner x ys) y" if "y \<in> set (x # ys)" for x y :: "'a hip4_market" and ys
    using last_max_greatest [of sooner y x ys] sooner_order that by blast
  show ?thesis
  proof (cases ?fut)
    case (Cons f fs)
    then have m: "resolve_hip4_market env payload opts = Inr (first_min sooner f fs)"
      using \<open>hip4_candidates env opts payload = c # cs\<close> by (simp add: resolve_hip4_market_def)
    have "first_min sooner f fs \<in> set ?fut" unfolding Cons by (rule first_min_in)
    moreover have "\<not> sooner y (first_min sooner f fs)" if "y \<in> set ?fut" for y
      using that unfolding Cons by (rule least)
    ultimately show ?thesis unfolding m \<open>hip4_candidates env opts payload = c # cs\<close>
      by (auto simp del: filter.simps simp: list_ex_iff list_all_iff)
  next
    case Nil
    note nofut = Nil
    then have nf: "\<not> list_ex (\<lambda>x. ho_now_ns opts < hm_expiration_ns x) (c # cs)"
      by (auto simp del: filter.simps simp: filter_empty_conv list_ex_iff)
    show ?thesis
    proof (cases ?past)
      case (Cons p ps)
      then have m: "resolve_hip4_market env payload opts = Inr (last_max sooner p ps)"
        using \<open>hip4_candidates env opts payload = c # cs\<close> nofut by (simp add: resolve_hip4_market_def)
      have "last_max sooner p ps \<in> set ?past" unfolding Cons by (rule last_max_in)
      moreover have "\<not> sooner (last_max sooner p ps) y" if "y \<in> set ?past" for y
        using that unfolding Cons by (rule greatest)
      ultimately show ?thesis using nf unfolding m \<open>hip4_candidates env opts payload = c # cs\<close>
        by (auto simp del: filter.simps simp: list_ex_iff list_all_iff)
    next
      case Nil
      then have np: "\<not> list_ex (\<lambda>x. 0 < hm_expiration_ns x) (c # cs)"
        by (auto simp del: filter.simps simp: filter_empty_conv list_ex_iff)
      let ?lt = "\<lambda>a b. hm_question_id a < hm_question_id (b :: 'a hip4_market)"
      have m: "resolve_hip4_market env payload opts = Inr (last_max ?lt c cs)"
        using \<open>hip4_candidates env opts payload = c # cs\<close> nofut Nil by (simp add: resolve_hip4_market_def)
      have "\<not> ?lt (last_max ?lt c cs) y" if "y \<in> set (c # cs)" for y
        using last_max_greatest [of ?lt y c cs] that by auto
      then show ?thesis using nf np last_max_in [of ?lt c cs] unfolding m \<open>hip4_candidates env opts payload = c # cs\<close>
        by (auto simp: list_all_iff not_less)
    qed
  qed
qed

subsection \<open>A payload with one running market\<close>

definition sample_hip4_env :: "nat hip4_env" where
  "sample_hip4_env = \<lparr>he_decimal = (\<lambda>s. Some (length s)), he_positive = (\<lambda>d. 0 < d), he_utc_nanos = (\<lambda>_ _ _ _ _. None)\<rparr>"

definition sample_outcome :: json where
  "sample_outcome = JObject [(''venue'', JString ''out''), (''name'', JString ''template:binaryPrice''),
     (''description'', JString ''perp:BTC|time:1000000800|seconds:60|priceDescription:BTC-USDC perp mark|threshold:5''),
     (''quoteToken'', JString ''USDC''),
     (''sideSpecs'', JArray [JObject [(''name'', JString ''template:Yes'')], JObject [(''name'', JString ''template:No'')]]),
     (''outcome'', JUint 7)]"

definition sample_payload :: json where
  "sample_payload = JObject [(''outcomes'', JArray [JObject [(''venue'', JString ''other'')], sample_outcome])]"

lemma sample_split:
  "split_char (CHR ''|'') (rolling_description sample_outcome)
     = [''perp:BTC'', ''time:1000000800'', ''seconds:60'', ''priceDescription:BTC-USDC perp mark'', ''threshold:5'']"
  by (simp add: rolling_description_def sample_outcome_def json_get_def json_str_def)

lemma sample_rolling_fields:
  "rolling_fields (rolling_description sample_outcome)
     = [(''perp'', ''BTC''), (''priceDescription'', ''BTC-USDC perp mark''), (''seconds'', ''60''), (''threshold'', ''5''), (''time'', ''1000000800'')]"
  by (simp add: rolling_fields_def sample_split split_once_def btree_insert_def less_char_def)

lemma sample_rolling:
  "select_rolling_market sample_hip4_env sample_payload ''BTC'' 1000000000000000000
     = Inr (Some \<lparr>rm_outcome = 7, rm_underlying = ''BTC'', rm_end_ns = 1000000800000000000, rm_raw = sample_outcome\<rparr>)"
proof -
  have time: "rolling_time sample_hip4_env sample_outcome = Some 1000000800000000000"
    by (simp add: rolling_time_def sample_rolling_fields parse_expiry_to_ns_def trim_def is_space_def digit_value_def
        parse_u64_def ok_option_def u64_max_def)
  have template: "rolling_template ''BTC'' sample_outcome" "\<not> rolling_template ''BTC'' (JObject [(''venue'', JString ''other'')])"
    by (simp_all add: rolling_template_def sample_rolling_fields) (simp_all add: sample_outcome_def json_get_def json_str_def)
  have "settlement_unchanged ''BTC'' sample_outcome" "valid_threshold sample_hip4_env sample_outcome"
    by (simp_all add: settlement_unchanged_def valid_threshold_def sample_rolling_fields sample_hip4_env_def)
      (simp add: sample_outcome_def json_get_def json_str_def)
  moreover have "sides_unchanged sample_outcome" "json_u64 (json_get sample_outcome ''outcome'') = Some 7"
    by (simp_all add: sides_unchanged_def side_name_def sample_outcome_def json_get_def json_str_def json_array_def json_u64_def)
  ultimately have "rolling_check sample_hip4_env ''BTC'' 1000000800000000000 sample_outcome
      = Inr (Some \<lparr>rm_outcome = 7, rm_underlying = ''BTC'', rm_end_ns = 1000000800000000000, rm_raw = sample_outcome\<rparr>)"
    using time template by (simp add: rolling_check_def sample_rolling_fields sample_split)
  moreover have "rolling_check sample_hip4_env ''BTC'' e (JObject [(''venue'', JString ''other'')]) = Inr None" for e
    using template by (simp add: rolling_check_def)
  ultimately show ?thesis
    by (simp add: select_rolling_market_def sample_payload_def json_get_def json_array_def rolling_assets_def
        rolling_interval_ns_def u64_max_def)
qed

theorem rolling_market_current_witness:
  "\<exists>m. select_rolling_market sample_hip4_env sample_payload ''BTC'' 1000000000000000000 = Inr (Some m)
     \<and> rm_end_ns m = (1000000000000000000 div rolling_interval_ns + 1) * rolling_interval_ns"
  using rolling_market_current [OF sample_rolling] sample_rolling by auto

end
