(* ===== verification/Option_Log.thy ===== *)
theory Option_Log
  imports Hip4_Market
begin

section \<open>The resolution log of option universes\<close>

text \<open>
  \<open>crates/catalog-capture-core/src/option_universe/metadata.rs\<close>: the record a capture appends for
  every resolution of an option universe, the reason it states, the checks of a finished log and
  its summary. Reading and writing the file and its JSON are outside the model.
\<close>

record ('i, 'p) price_text_env = "'i text_env" +
  te_show_price :: "'p \<Rightarrow> string"

record option_record =
  lr_event_kind :: resolution_event
  lr_venue_id :: string
  lr_underlying :: string
  lr_resolved_at_ns :: nat
  lr_resolved_at_iso8601 :: string
  lr_selected_expiry_ns :: nat
  lr_selected_expiry_iso8601 :: string
  lr_atm_reference :: string
  lr_atm_reference_source :: string
  lr_strike_selection_mode :: string
  lr_oi_ranked_top_n :: "nat option"
  lr_selected_strikes :: "string list"
  lr_perp_instrument_id :: "string option"
  lr_option_instrument_ids :: "string list"
  lr_all_instrument_ids :: "string list"
  lr_added_instrument_ids :: "string list"
  lr_removed_instrument_ids :: "string list"
  lr_rollover_reason :: "string option"

record option_summary =
  ls_venue_id :: string
  ls_underlying :: string
  ls_startup_resolved_at_iso8601 :: string
  ls_latest_event_kind :: resolution_event
  ls_latest_resolved_at_iso8601 :: string
  ls_latest_selected_expiry_iso8601 :: string
  ls_strike_selection_mode :: string
  ls_refresh_count :: nat
  ls_latest_rollover_reason :: "string option"
  ls_perp_instrument_id :: "string option"
  ls_option_count :: nat
  ls_option_instrument_ids :: "string list"

datatype strike_profile = OiRankedProfile nat | AllStrikesProfile nat

record log_options =
  lo_require_refresh_change :: bool
  lo_strike_profile :: "strike_profile option"

record log_report =
  lp_venue_id :: string
  lp_underlying :: string
  lp_record_count :: nat
  lp_refresh_count :: nat
  lp_strike_selection_mode :: string
  lp_selected_strike_count :: nat
  lp_option_count :: nat
  lp_atm_reference_source :: string
  lp_oi_ranked_top_n :: "nat option"

datatype log_error =
    LogEmpty
  | StartupRecords nat
  | MissingSelectionMode
  | NoOptionInstruments
  | MissingPerpInstrument
  | SelectionModeMismatch string
  | MissingReason
  | UnexpectedRefreshReason string
  | NoRefreshChange
  | NoRefreshDelta
  | ProfileMode string
  | ProfileTopN "nat option"
  | ProfileNoStrikes
  | ProfileStrikeCount nat
  | OptionCountMismatch nat nat

definition option_refresh_reasons :: "string list" where
  "option_refresh_reasons = [''expiry_roll'', ''atm_drift'', ''oi_rank_shift'', ''strike_window_shift'']"

definition option_resolution_record ::
  "('i, 'p) price_text_env \<Rightarrow> resolution_event \<Rightarrow> option_spec \<Rightarrow> ('i, 'p) resolved_options \<Rightarrow> string list \<Rightarrow> string list
   \<Rightarrow> string option \<Rightarrow> option_record" where
  "option_resolution_record te kind spec r added removed reason = \<lparr>
     lr_event_kind = kind, lr_venue_id = os_venue_id spec, lr_underlying = os_underlying spec,
     lr_resolved_at_ns = ro_resolved_at_ns r, lr_resolved_at_iso8601 = te_iso te (ro_resolved_at_ns r),
     lr_selected_expiry_ns = ro_selected_expiry_ns r, lr_selected_expiry_iso8601 = te_iso te (ro_selected_expiry_ns r),
     lr_atm_reference = te_show_price te (ro_atm_reference r),
     lr_atm_reference_source = (case ro_atm_reference_source r of Some s \<Rightarrow> s | None \<Rightarrow> ''unknown''),
     lr_strike_selection_mode = selection_mode (os_strike_policy spec),
     lr_oi_ranked_top_n = oi_ranked_top_n (os_strike_policy spec),
     lr_selected_strikes = map (te_show_price te) (ro_selected_strikes r),
     lr_perp_instrument_id = map_option (te_show_id te) (ro_perp_instrument_id r),
     lr_option_instrument_ids = map (te_show_id te) (ro_option_instrument_ids r),
     lr_all_instrument_ids = map (te_show_id te) (ro_all_instrument_ids r),
     lr_added_instrument_ids = added, lr_removed_instrument_ids = removed, lr_rollover_reason = reason\<rparr>"

definition option_startup_record ::
  "('i, 'p) price_text_env \<Rightarrow> option_spec \<Rightarrow> ('i, 'p) resolved_options \<Rightarrow> string list \<Rightarrow> string list \<Rightarrow> option_record" where
  "option_startup_record te spec r added removed = option_resolution_record te Startup spec r added removed None"

definition option_refresh_record ::
  "('i, 'p) price_text_env \<Rightarrow> option_spec \<Rightarrow> ('i, 'p) resolved_options \<Rightarrow> string list \<Rightarrow> string list \<Rightarrow> string option
   \<Rightarrow> option_record" where
  "option_refresh_record te spec r added removed reason = option_resolution_record te Refresh spec r added removed reason"

definition compute_refresh_rollover_reason ::
  "('i, 'p) price_text_env \<Rightarrow> nat option \<Rightarrow> ('i, 'p) resolved_options \<Rightarrow> string option \<Rightarrow> bool \<Rightarrow> string \<Rightarrow> string option" where
  "compute_refresh_rollover_reason te previous_expiry r previous_atm changed mode =
     (if \<not> changed then None
      else if (case previous_expiry of Some e \<Rightarrow> e \<noteq> ro_selected_expiry_ns r | None \<Rightarrow> False) then Some ''expiry_roll''
      else if (case previous_atm of Some a \<Rightarrow> a \<noteq> te_show_price te (ro_atm_reference r) | None \<Rightarrow> False) then Some ''atm_drift''
      else if mode = ''oi_ranked'' then Some ''oi_rank_shift''
      else Some ''strike_window_shift'')"

subsection \<open>Checks of a log\<close>

definition validate_startup_record :: "option_record \<Rightarrow> log_error + unit" where
  "validate_startup_record r =
     (if lr_strike_selection_mode r = [] then Inl MissingSelectionMode
      else if lr_option_instrument_ids r = [] then Inl NoOptionInstruments
      else if (case lr_perp_instrument_id r of None \<Rightarrow> True | Some s \<Rightarrow> s = []) then Inl MissingPerpInstrument
      else Inr ())"

definition validate_refresh_record :: "string \<Rightarrow> option_record \<Rightarrow> log_error + unit" where
  "validate_refresh_record expected_mode r =
     (if lr_strike_selection_mode r \<noteq> expected_mode then Inl (SelectionModeMismatch (lr_strike_selection_mode r))
      else case lr_rollover_reason r of
        None \<Rightarrow> Inl MissingReason
      | Some reason \<Rightarrow>
         if reason \<notin> set option_refresh_reasons then Inl (UnexpectedRefreshReason reason)
         else if lr_added_instrument_ids r = [] \<and> lr_removed_instrument_ids r = [] then Inl NoRefreshChange
         else Inr ())"

definition validate_option_ids_match_selected_strikes :: "option_record \<Rightarrow> log_error + unit" where
  "validate_option_ids_match_selected_strikes r =
     (if length (lr_option_instrument_ids r) \<noteq> sat_mul (length (lr_selected_strikes r)) 2
      then Inl (OptionCountMismatch (length (lr_option_instrument_ids r)) (length (lr_selected_strikes r)))
      else Inr ())"

definition validate_strike_selection_profile :: "option_record \<Rightarrow> strike_profile \<Rightarrow> log_error + unit" where
  "validate_strike_selection_profile r profile =
     (case profile of
        OiRankedProfile n \<Rightarrow>
          if lr_strike_selection_mode r \<noteq> ''oi_ranked'' then Inl (ProfileMode (lr_strike_selection_mode r))
          else if lr_oi_ranked_top_n r \<noteq> Some n then Inl (ProfileTopN (lr_oi_ranked_top_n r))
          else if lr_selected_strikes r = [] then Inl ProfileNoStrikes
          else if n < length (lr_selected_strikes r) then Inl (ProfileStrikeCount (length (lr_selected_strikes r)))
          else validate_option_ids_match_selected_strikes r
      | AllStrikesProfile min_strikes \<Rightarrow>
          if lr_strike_selection_mode r \<noteq> ''all'' then Inl (ProfileMode (lr_strike_selection_mode r))
          else if lr_oi_ranked_top_n r \<noteq> None then Inl (ProfileTopN (lr_oi_ranked_top_n r))
          else if length (lr_selected_strikes r) < min_strikes then Inl (ProfileStrikeCount (length (lr_selected_strikes r)))
          else validate_option_ids_match_selected_strikes r)"

fun validate_each :: "('r \<Rightarrow> log_error + unit) \<Rightarrow> 'r list \<Rightarrow> log_error + unit" where
  "validate_each check [] = Inr ()"
| "validate_each check (r # rs) = (case check r of Inl e \<Rightarrow> Inl e | Inr _ \<Rightarrow> validate_each check rs)"

definition validate_universe_resolution_records ::
  "string \<Rightarrow> string \<Rightarrow> option_record list \<Rightarrow> log_options \<Rightarrow> log_error + log_report" where
  "validate_universe_resolution_records venue_id underlying records opts =
     (case filter (\<lambda>r. lr_event_kind r = Startup) records of
        [startup] \<Rightarrow>
          (let refreshes = filter (\<lambda>r. lr_event_kind r = Refresh) records
           in case validate_startup_record startup of
                Inl e \<Rightarrow> Inl e
              | Inr _ \<Rightarrow> (case validate_each (validate_refresh_record (lr_strike_selection_mode startup)) refreshes of
                   Inl e \<Rightarrow> Inl e
                 | Inr _ \<Rightarrow>
                    if lo_require_refresh_change opts \<and> refreshes = [] then Inl NoRefreshDelta
                    else case (case lo_strike_profile opts of None \<Rightarrow> Inr ()
                               | Some profile \<Rightarrow> validate_strike_selection_profile startup profile) of
                      Inl e \<Rightarrow> Inl e
                    | Inr _ \<Rightarrow> Inr \<lparr>lp_venue_id = venue_id, lp_underlying = underlying, lp_record_count = length records,
                        lp_refresh_count = length refreshes, lp_strike_selection_mode = lr_strike_selection_mode startup,
                        lp_selected_strike_count = length (lr_selected_strikes startup),
                        lp_option_count = length (lr_option_instrument_ids startup),
                        lp_atm_reference_source = lr_atm_reference_source startup,
                        lp_oi_ranked_top_n = lr_oi_ranked_top_n startup\<rparr>))
      | starts \<Rightarrow> Inl (StartupRecords (length starts)))"

definition record_key :: "option_record \<Rightarrow> string \<times> string" where
  "record_key r = (lr_venue_id r, lr_underlying r)"

definition group_records :: "option_record list \<Rightarrow> ((string \<times> string) \<times> option_record list) list" where
  "group_records records = foldl (\<lambda>m r. btree_entry (record_key r) [] (\<lambda>rs. rs @ [r]) m) [] records"

fun validate_groups ::
  "log_options \<Rightarrow> ((string \<times> string) \<times> option_record list) list \<Rightarrow> log_error + log_report list" where
  "validate_groups opts [] = Inr []"
| "validate_groups opts (((venue_id, underlying), rs) # groups) =
     (case validate_universe_resolution_records venue_id underlying rs opts of
        Inl e \<Rightarrow> Inl e
      | Inr report \<Rightarrow> (case validate_groups opts groups of Inl e \<Rightarrow> Inl e | Inr reports \<Rightarrow> Inr (report # reports)))"

definition validate_option_universe_resolution_records ::
  "option_record list \<Rightarrow> log_options \<Rightarrow> log_error + log_report list" where
  "validate_option_universe_resolution_records records opts =
     (if records = [] then Inl LogEmpty else validate_groups opts (group_records records))"

subsection \<open>Summary\<close>

record summary_state =
  ss_startup :: option_record
  ss_latest :: option_record
  ss_refresh_count :: nat

definition summarize_step :: "((string \<times> string) \<times> summary_state) list \<Rightarrow> option_record \<Rightarrow> ((string \<times> string) \<times> summary_state) list" where
  "summarize_step states r =
     (let refresh = (if lr_event_kind r = Refresh then 1 else 0)
      in case map_of states (record_key r) of
           Some st \<Rightarrow> btree_entry (record_key r) st
             (\<lambda>_. st\<lparr>ss_latest := r, ss_refresh_count := ss_refresh_count st + refresh\<rparr>) states
         | None \<Rightarrow> btree_insert (record_key r) \<lparr>ss_startup = r, ss_latest = r, ss_refresh_count = refresh\<rparr> states)"

definition summary_of :: "summary_state \<Rightarrow> option_summary" where
  "summary_of st = \<lparr>
     ls_venue_id = lr_venue_id (ss_latest st), ls_underlying = lr_underlying (ss_latest st),
     ls_startup_resolved_at_iso8601 = lr_resolved_at_iso8601 (ss_startup st),
     ls_latest_event_kind = lr_event_kind (ss_latest st),
     ls_latest_resolved_at_iso8601 = lr_resolved_at_iso8601 (ss_latest st),
     ls_latest_selected_expiry_iso8601 = lr_selected_expiry_iso8601 (ss_latest st),
     ls_strike_selection_mode = lr_strike_selection_mode (ss_latest st),
     ls_refresh_count = ss_refresh_count st, ls_latest_rollover_reason = lr_rollover_reason (ss_latest st),
     ls_perp_instrument_id = lr_perp_instrument_id (ss_latest st),
     ls_option_count = length (lr_option_instrument_ids (ss_latest st)),
     ls_option_instrument_ids = lr_option_instrument_ids (ss_latest st)\<rparr>"

definition summarize_option_universe_resolution_records :: "option_record list \<Rightarrow> option_summary list" where
  "summarize_option_universe_resolution_records records = map (summary_of \<circ> snd) (foldl summarize_step [] records)"

subsection \<open>Lemmas\<close>

lemma validate_each_iff: "validate_each check rs = Inr () \<longleftrightarrow> list_all (\<lambda>r. check r = Inr ()) rs"
  by (induction rs) (auto split: sum.splits)

lemma refresh_reason_listed:
  "\<exists>reason \<in> set option_refresh_reasons. compute_refresh_rollover_reason te e r a True mode = Some reason"
  by (simp add: compute_refresh_rollover_reason_def option_refresh_reasons_def)

lemma selection_mode_nonempty [simp]: "selection_mode p \<noteq> []"
  by (cases p) simp_all

lemma refresh_record_valid:
  assumes "added \<noteq> [] \<or> removed \<noteq> []"
  shows "validate_refresh_record (selection_mode (os_strike_policy spec))
    (option_refresh_record te spec r added removed
      (compute_refresh_rollover_reason te e r' a True (selection_mode (os_strike_policy spec)))) = Inr ()"
proof -
  obtain reason where "reason \<in> set option_refresh_reasons"
    "compute_refresh_rollover_reason te e r' a True (selection_mode (os_strike_policy spec)) = Some reason"
    using refresh_reason_listed by blast
  with assms show ?thesis
    by (auto simp: validate_refresh_record_def option_refresh_record_def option_resolution_record_def)
qed

text \<open>A log of one universe: its startup record first, then only refreshes.\<close>

lemma one_universe_log:
  assumes "lr_event_kind s = Startup" "list_all (\<lambda>r. lr_event_kind r = Refresh) rs"
    and "validate_startup_record s = Inr ()"
    and "list_all (\<lambda>r. validate_refresh_record (lr_strike_selection_mode s) r = Inr ()) rs"
  shows "\<exists>report. validate_universe_resolution_records v u (s # rs) \<lparr>lo_require_refresh_change = False, lo_strike_profile = None\<rparr> = Inr report
    \<and> lp_refresh_count report = length rs"
proof -
  have "filter (\<lambda>r. lr_event_kind r = Startup) rs = []" "filter (\<lambda>r. lr_event_kind r = Refresh) rs = rs"
    using assms(2) by (auto simp: list_all_iff filter_empty_conv intro: filter_True)
  moreover have "validate_each (validate_refresh_record (lr_strike_selection_mode s)) rs = Inr ()"
    using assms(4) by (simp add: validate_each_iff)
  ultimately show ?thesis using assms(1,3)
    by (simp add: validate_universe_resolution_records_def Let_def)
qed

end
