(* ===== verification/Reference_Price.thy ===== *)
theory Reference_Price
  imports Hip4_Market
begin

section \<open>Reference prices\<close>

text \<open>
  The priority lists of \<open>atm_reference.rs\<close> and the forward prices of \<open>forward_price.rs\<close> and
  \<open>forward_price_metadata.rs\<close> (under \<open>crates/catalog-capture-core/src\<close>). Parsing a price, halving
  a sum of floats and printing are parameters.
\<close>

datatype atm_source =
    HttpOptionUnderlyingPrice | HttpBookSummaryUnderlyingPrice | HttpForwardPrice | HttpPerpTickerMark
  | HttpPerpTickerIndex | HttpPerpTickerMid | CacheGreeksUnderlyingPrice | CachePerpMarkFallback
  | CachePerpQuoteMidFallback | CachePerpIndexFallback | CacheMark | CacheQuoteMid | CacheIndex

fun atm_source_str :: "atm_source \<Rightarrow> string" where
  "atm_source_str HttpOptionUnderlyingPrice = ''http_option_underlying_price''"
| "atm_source_str HttpBookSummaryUnderlyingPrice = ''http_book_summary_underlying_price''"
| "atm_source_str HttpForwardPrice = ''http_forward_price''"
| "atm_source_str HttpPerpTickerMark = ''http_perp_ticker_mark''"
| "atm_source_str HttpPerpTickerIndex = ''http_perp_ticker_index''"
| "atm_source_str HttpPerpTickerMid = ''http_perp_ticker_mid''"
| "atm_source_str CacheGreeksUnderlyingPrice = ''cache_greeks_underlying_price''"
| "atm_source_str CachePerpMarkFallback = ''cache_perp_mark_strike_fallback''"
| "atm_source_str CachePerpQuoteMidFallback = ''cache_perp_quote_mid_strike_fallback''"
| "atm_source_str CachePerpIndexFallback = ''cache_perp_index_strike_fallback''"
| "atm_source_str CacheMark = ''cache_mark''"
| "atm_source_str CacheQuoteMid = ''cache_quote_mid''"
| "atm_source_str CacheIndex = ''cache_index''"

definition select_cache_perp_strike_fallback :: "'p option \<Rightarrow> 'p option \<Rightarrow> 'p option \<Rightarrow> ('p \<times> atm_source) option" where
  "select_cache_perp_strike_fallback mark quote_mid index =
     (case mark of
        Some p \<Rightarrow> Some (p, CachePerpMarkFallback)
      | None \<Rightarrow> (case quote_mid of
           Some p \<Rightarrow> Some (p, CachePerpQuoteMidFallback)
         | None \<Rightarrow> (case index of
              Some p \<Rightarrow> Some (p, CachePerpIndexFallback)
            | None \<Rightarrow> None)))"

definition select_cache_atm_reference :: "'p option \<Rightarrow> 'p option \<Rightarrow> 'p option \<Rightarrow> ('p \<times> atm_source) option" where
  "select_cache_atm_reference mark quote_mid index =
     (case mark of
        Some p \<Rightarrow> Some (p, CacheMark)
      | None \<Rightarrow> (case quote_mid of
           Some p \<Rightarrow> Some (p, CacheQuoteMid)
         | None \<Rightarrow> (case index of
              Some p \<Rightarrow> Some (p, CacheIndex)
            | None \<Rightarrow> None)))"

definition non_empty_decimal :: "string option \<Rightarrow> string option" where
  "non_empty_decimal v = (case v of Some s \<Rightarrow> if trim s = [] then None else Some s | None \<Rightarrow> None)"

record ('p, 'f) price_parser =
  pp_price :: "string \<Rightarrow> 'p"
  pp_f64 :: "string \<Rightarrow> 'f option"
  pp_mid :: "'f \<Rightarrow> 'f \<Rightarrow> string"

definition select_http_perp_ticker_atm_reference ::
  "('p, 'f) price_parser \<Rightarrow> string option \<Rightarrow> string option \<Rightarrow> string option \<Rightarrow> string option \<Rightarrow> ('p \<times> atm_source) option" where
  "select_http_perp_ticker_atm_reference pp mark index bid ask =
     (case non_empty_decimal mark of
        Some v \<Rightarrow> Some (pp_price pp v, HttpPerpTickerMark)
      | None \<Rightarrow> (case non_empty_decimal index of
           Some v \<Rightarrow> Some (pp_price pp v, HttpPerpTickerIndex)
         | None \<Rightarrow> (case (non_empty_decimal bid, non_empty_decimal ask) of
              (Some b, Some a) \<Rightarrow>
                (case pp_f64 pp b of
                   None \<Rightarrow> None
                 | Some bid_value \<Rightarrow> (case pp_f64 pp a of
                      None \<Rightarrow> None
                    | Some ask_value \<Rightarrow> Some (pp_price pp (pp_mid pp bid_value ask_value), HttpPerpTickerMid)))
            | _ \<Rightarrow> None)))"

definition select_strike_reference_from_decimal_string ::
  "('p, 'f) price_parser \<Rightarrow> string \<Rightarrow> atm_source \<Rightarrow> ('p \<times> atm_source) option" where
  "select_strike_reference_from_decimal_string pp value source =
     map_option (\<lambda>decimal. (pp_price pp decimal, source)) (non_empty_decimal (Some value))"

subsection \<open>Forward prices\<close>

record ('i, 'd) forward_price =
  fp_instrument_id :: 'i
  fp_forward_price :: 'd
  fp_underlying_index :: "string option"
  fp_ts_event :: nat
  fp_ts_init :: nat

text \<open>\<open>OptionGreeks\<close> of Nautilus: the fields the capture reads.\<close>

record ('i, 'f) option_greeks =
  gk_instrument_id :: 'i
  gk_open_interest :: "'f option"
  gk_underlying_price :: "'f option"
  gk_ts_event :: nat
  gk_ts_init :: nat

definition forward_price_from_option_greeks ::
  "('f \<Rightarrow> 'd option) \<Rightarrow> ('i, 'f) option_greeks \<Rightarrow> ('i, 'd) forward_price option" where
  "forward_price_from_option_greeks decimal greeks =
     (case gk_underlying_price greeks of
        None \<Rightarrow> None
      | Some underlying \<Rightarrow> (case decimal underlying of
           None \<Rightarrow> None
         | Some price \<Rightarrow> Some \<lparr>fp_instrument_id = gk_instrument_id greeks, fp_forward_price = price,
             fp_underlying_index = None, fp_ts_event = gk_ts_event greeks, fp_ts_init = gk_ts_init greeks\<rparr>))"

record forward_price_record =
  fr_instrument_id :: string
  fr_forward_price :: string
  fr_underlying_index :: "string option"
  fr_ts_event_ns :: nat
  fr_ts_init_ns :: nat
  fr_source :: string

definition forward_price_record_from_model ::
  "('i \<Rightarrow> string) \<Rightarrow> ('d \<Rightarrow> string) \<Rightarrow> ('i, 'd) forward_price \<Rightarrow> string \<Rightarrow> forward_price_record" where
  "forward_price_record_from_model show_id show_decimal p source = \<lparr>
     fr_instrument_id = show_id (fp_instrument_id p), fr_forward_price = show_decimal (fp_forward_price p),
     fr_underlying_index = fp_underlying_index p, fr_ts_event_ns = fp_ts_event p, fr_ts_init_ns = fp_ts_init p,
     fr_source = source\<rparr>"

subsection \<open>The source tag tells which price was used\<close>

lemma atm_source_str_inject [simp]: "atm_source_str a = atm_source_str b \<longleftrightarrow> a = b"
  by (cases a; cases b) simp_all

lemma fallback_tag:
  "select_cache_perp_strike_fallback mark mid index = Some (p, source) \<Longrightarrow>
     atm_source_str source = ''cache_perp_mark_strike_fallback'' \<and> mark = Some p
     \<or> atm_source_str source = ''cache_perp_quote_mid_strike_fallback'' \<and> mark = None \<and> mid = Some p
     \<or> atm_source_str source = ''cache_perp_index_strike_fallback'' \<and> mark = None \<and> mid = None \<and> index = Some p"
  by (auto simp: select_cache_perp_strike_fallback_def split: option.splits)

end
