(* ===== verification/Universe_Refresh.thy ===== *)
theory Universe_Refresh
  imports Option_Log Reference_Price
begin

section \<open>Universes that change while capturing\<close>

text \<open>
  The two managers of the adapter crate that resolve their universes again while the capture runs:
  \<open>dynamic_hip4_universe.rs\<close> and \<open>dynamic_option_universe.rs\<close> with
  \<open>dynamic_option_universe_runtime.rs\<close> (under \<open>crates/catalog-capture-runtime-adapter/src\<close>).
  A refresh resolves every universe, keeps the plan of those it cannot resolve, and returns the
  difference to the plan before as a delta.

  The venue's answer to each request of a refresh and Nautilus's cache are parameters.
\<close>

subsection \<open>The HIP-4 manager\<close>

record 'i hip4_change =
  hc_venue_id :: string
  hc_underlying :: string
  hc_period :: string
  hc_market_class :: string
  hc_question_id :: nat
  hc_expiration_iso8601 :: string
  hc_perp_instrument_id :: "'i option"
  hc_outcome_instrument_ids :: "'i list"
  hc_previous_count :: nat
  hc_next_count :: nat
  hc_added_instrument_ids :: "'i list"
  hc_removed_instrument_ids :: "'i list"

record ('i, 'b, 'd) hip4_state =
  hu_spec :: hip4_spec
  hu_current_plan :: "('i, 'b) capture_plan"
  hu_applied_resolved :: "('i, 'd) resolved_hip4"
  hu_last_question_id :: nat
  hu_last_expiration_ns :: nat

record ('i, 'b, 'd) hip4_entry =
  hn_spec :: hip4_spec
  hn_initial_plan :: "('i, 'b) capture_plan"
  hn_initial_resolved :: "('i, 'd) resolved_hip4"

record ('i, 'b, 'd) hip4_config =
  hg_idle_poll_secs :: nat
  hg_active_poll_secs :: nat
  hg_pre_expiry_window_secs :: nat
  hg_purge_removed_instruments :: bool
  hg_static_plan :: "('i, 'b) capture_plan"
  hg_initial_dynamic_plan :: "('i, 'b) capture_plan"
  hg_universes :: "('i, 'b, 'd) hip4_entry list"

record ('i, 'b, 'd) hip4_manager =
  hx_idle_poll_secs :: nat
  hx_active_poll_secs :: nat
  hx_pre_expiry_window_secs :: nat
  hx_purge_removed_instruments :: bool
  hx_static_plan :: "('i, 'b) capture_plan"
  hx_current_dynamic_plan :: "('i, 'b) capture_plan"
  hx_universes :: "('i, 'b, 'd) hip4_state list"
  hx_last_refresh_failed :: bool

definition hip4_manager_new :: "('i, 'b, 'd) hip4_config \<Rightarrow> ('i, 'b, 'd) hip4_manager" where
  "hip4_manager_new c = \<lparr>
     hx_idle_poll_secs = hg_idle_poll_secs c, hx_active_poll_secs = hg_active_poll_secs c,
     hx_pre_expiry_window_secs = hg_pre_expiry_window_secs c,
     hx_purge_removed_instruments = hg_purge_removed_instruments c, hx_static_plan = hg_static_plan c,
     hx_current_dynamic_plan = hg_initial_dynamic_plan c,
     hx_universes = map (\<lambda>entry. \<lparr>hu_spec = hn_spec entry, hu_current_plan = hn_initial_plan entry,
         hu_applied_resolved = hn_initial_resolved entry,
         hu_last_question_id = hm_question_id (rh_market (hn_initial_resolved entry)),
         hu_last_expiration_ns = hm_expiration_ns (rh_market (hn_initial_resolved entry))\<rparr>) (hg_universes c),
     hx_last_refresh_failed = False\<rparr>"

definition hip4_active_plan :: "('i, 'b, 'd) hip4_manager \<Rightarrow> ('i, 'b) capture_plan" where
  "hip4_active_plan m = merge_capture_plans (hx_static_plan m) (hx_current_dynamic_plan m)"

definition universe_expiration :: "('i, 'b, 'd) hip4_state \<Rightarrow> nat" where
  "universe_expiration st = hm_expiration_ns (rh_market (hu_applied_resolved st))"

definition rotation_delay_for_expiration :: "('i, 'b, 'd) hip4_manager \<Rightarrow> nat \<Rightarrow> nat option \<Rightarrow> nat" where
  "rotation_delay_for_expiration m now expiration =
     next_rotation_delay_secs now expiration (hx_idle_poll_secs m) (hx_active_poll_secs m) (hx_pre_expiry_window_secs m)"

definition next_rotation_check_delay_secs :: "('i, 'b, 'd) hip4_manager \<Rightarrow> nat \<Rightarrow> nat" where
  "next_rotation_check_delay_secs m now =
     (if hx_last_refresh_failed m \<or> hx_universes m = [] then rotation_delay_for_expiration m now None
      else Min (set (map (\<lambda>st. rotation_delay_for_expiration m now (Some (universe_expiration st))) (hx_universes m))))"

definition next_rotation_check_ns :: "('i, 'b, 'd) hip4_manager \<Rightarrow> nat \<Rightarrow> nat" where
  "next_rotation_check_ns m now =
     foldl min (sat_add now (sat_mul (next_rotation_check_delay_secs m now) one_billion))
       (filter (\<lambda>e. now < e) (map universe_expiration (hx_universes m)))"

text \<open>One resolution: the venue's answer, the choice of the market, and the universe it stands for.\<close>

record ('i, 'd) hip4_resolver =
  hz_env :: "'d hip4_env"
  hz_parse_id :: "string \<Rightarrow> 'i option"
  hz_text :: "'i text_env"

definition resolve_runtime_hip4_universe ::
  "('i, 'd) hip4_resolver \<Rightarrow> string + json \<Rightarrow> hip4_spec \<Rightarrow> nat \<Rightarrow> ('i, 'd) resolved_hip4 option" where
  "resolve_runtime_hip4_universe z answer spec now =
     (case answer of
        Inl _ \<Rightarrow> None
      | Inr payload \<Rightarrow>
         (case resolve_hip4_market (hz_env z) payload \<lparr>ho_underlying = hs_underlying spec, ho_period = hs_period spec,
                 ho_market_class = hs_market_class spec, ho_include_fallback = hs_include_fallback spec, ho_now_ns = now\<rparr> of
            Inl _ \<Rightarrow> None
          | Inr market \<Rightarrow> Some (build_resolved_hip4_universe (hz_parse_id z) spec market now)))"

definition apply_resolved_state_transition ::
  "'i text_env \<Rightarrow> ('i::linorder, 'b, 'd) hip4_state \<Rightarrow> ('i, 'd) resolved_hip4 \<Rightarrow> ('i, 'b) capture_plan
   \<Rightarrow> record_error + ('i hip4_change \<times> hip4_record) option" where
  "apply_resolved_state_transition te st resolved next_plan =
     (let previous_ids = plan_instrument_ids (hu_current_plan st); next_ids = plan_instrument_ids next_plan
      in if next_ids = previous_ids then Inr None
         else let added = instrument_id_difference next_ids previous_ids;
                  removed = instrument_id_difference previous_ids next_ids;
                  reason = compute_hip4_refresh_rollover_reason (Some (hu_last_question_id st))
                    (Some (hu_last_expiration_ns st)) resolved True;
                  change = \<lparr>hc_venue_id = hs_venue_id (hu_spec st), hc_underlying = hs_underlying (hu_spec st),
                    hc_period = hs_period (hu_spec st), hc_market_class = hs_market_class (hu_spec st),
                    hc_question_id = hm_question_id (rh_market resolved),
                    hc_expiration_iso8601 = te_iso te (hm_expiration_ns (rh_market resolved)),
                    hc_perp_instrument_id = rh_perp_instrument_id resolved,
                    hc_outcome_instrument_ids = rh_outcome_instrument_ids resolved,
                    hc_previous_count = length previous_ids, hc_next_count = length next_ids,
                    hc_added_instrument_ids = added, hc_removed_instrument_ids = removed\<rparr>;
                  entry = refresh_resolution_record te (hu_spec st) resolved (map (te_show_id te) added)
                    (map (te_show_id te) removed) reason
              in case validate_hip4_refresh_resolution_record entry of
                   Inl e \<Rightarrow> Inl e
                 | Inr _ \<Rightarrow> Inr (Some (change, entry)))"

text \<open>The body of the loop over the universes: the new state, what changed, and whether it failed.\<close>

definition hip4_refresh_one ::
  "('i::linorder, 'd) hip4_resolver \<Rightarrow> nat \<Rightarrow> string + json \<Rightarrow> ('i, 'b, 'd) hip4_state
   \<Rightarrow> record_error + (('i, 'b, 'd) hip4_state \<times> ('i hip4_change \<times> hip4_record) option \<times> bool)" where
  "hip4_refresh_one z now answer st =
     (case resolve_runtime_hip4_universe z answer (hu_spec st) now of
        None \<Rightarrow> Inr (st, None, True)
      | Some resolved \<Rightarrow>
         let next_plan = expand_hip4_universe (hu_spec st) resolved
         in case apply_resolved_state_transition (hz_text z) st resolved next_plan of
              Inl e \<Rightarrow> Inl e
            | Inr change \<Rightarrow>
               Inr (st\<lparr>hu_applied_resolved := resolved, hu_last_question_id := hm_question_id (rh_market resolved),
                       hu_last_expiration_ns := hm_expiration_ns (rh_market resolved), hu_current_plan := next_plan\<rparr>,
                    change, False))"

record ('i, 'b, 'c, 'r) refresh_acc =
  ra_next_plan :: "('i, 'b) capture_plan"
  ra_changes :: "'c list"
  ra_records :: "'r list"
  ra_failed :: bool

definition refresh_acc_empty :: "('i, 'b, 'c, 'r) refresh_acc" where
  "refresh_acc_empty = \<lparr>ra_next_plan = empty_plan, ra_changes = [], ra_records = [], ra_failed = False\<rparr>"

definition refresh_acc_add ::
  "('i, 'b, 'c, 'r) refresh_acc \<Rightarrow> ('i, 'b) capture_plan \<Rightarrow> ('c \<times> 'r) option \<Rightarrow> bool \<Rightarrow> ('i, 'b, 'c, 'r) refresh_acc" where
  "refresh_acc_add a plan change failed = \<lparr>
     ra_next_plan = merge_capture_plans (ra_next_plan a) plan,
     ra_changes = ra_changes a @ map fst (opt_list change),
     ra_records = ra_records a @ map snd (opt_list change),
     ra_failed = (ra_failed a \<or> failed)\<rparr>"

fun hip4_refresh_loop ::
  "('i::linorder, 'd) hip4_resolver \<Rightarrow> nat \<Rightarrow> (nat \<Rightarrow> string + json) \<Rightarrow> nat \<Rightarrow> ('i, 'b, 'd) hip4_state list
   \<Rightarrow> ('i, 'b, 'i hip4_change, hip4_record) refresh_acc
   \<Rightarrow> (record_error + ('i, 'b, 'i hip4_change, hip4_record) refresh_acc) \<times> ('i, 'b, 'd) hip4_state list" where
  "hip4_refresh_loop z now answers n [] acc = (Inr acc, [])"
| "hip4_refresh_loop z now answers n (st # sts) acc =
     (case hip4_refresh_one z now (answers n) st of
        Inl e \<Rightarrow> (Inl e, st # sts)
      | Inr (st', change, failed) \<Rightarrow>
         let (r, sts') = hip4_refresh_loop z now answers (Suc n) sts (refresh_acc_add acc (hu_current_plan st') change failed)
         in (r, st' # sts'))"

definition hip4_refresh ::
  "('i::linorder, 'd) hip4_resolver \<Rightarrow> nat \<times> (nat \<Rightarrow> string + json) \<Rightarrow> ('i, 'b, 'd) hip4_manager
   \<Rightarrow> (record_error + ('i, 'b, 'i hip4_change, hip4_record) plan_delta) \<times> ('i, 'b, 'd) hip4_manager" where
  "hip4_refresh z = (\<lambda>(now, answers) m.
     let (r, sts) = hip4_refresh_loop z now answers 0 (hx_universes m) refresh_acc_empty
     in case r of
          Inl e \<Rightarrow> (Inl e, m\<lparr>hx_universes := sts\<rparr>)
        | Inr acc \<Rightarrow>
           (Inr (build_dynamic_plan_delta (hx_current_dynamic_plan m) (ra_next_plan acc) (ra_changes acc) (ra_records acc)),
            m\<lparr>hx_universes := sts, hx_current_dynamic_plan := ra_next_plan acc, hx_last_refresh_failed := ra_failed acc\<rparr>))"

subsection \<open>Lemmas on the HIP-4 manager\<close>

text \<open>The record of a transition passes its own check, so that a transition never fails.\<close>

lemma transition_returns:
  "\<exists>change. apply_resolved_state_transition te st resolved next_plan = Inr change
    \<and> list_all (\<lambda>(_, entry). validate_hip4_refresh_resolution_record entry = Inr ()) (opt_list change)"
proof (cases "plan_instrument_ids next_plan = plan_instrument_ids (hu_current_plan st)")
  case True
  then show ?thesis by (simp add: apply_resolved_state_transition_def opt_list_def)
next
  case False
  have reason: "compute_hip4_refresh_rollover_reason q e resolved True \<in> {None, Some ''question_roll'', Some ''expiry_roll''}" for q e
    by (simp add: compute_hip4_refresh_rollover_reason_def)
  have "validate_hip4_refresh_resolution_record (refresh_resolution_record te (hu_spec st) resolved
      (map (te_show_id te) (instrument_id_difference (plan_instrument_ids next_plan) (plan_instrument_ids (hu_current_plan st))))
      (map (te_show_id te) (instrument_id_difference (plan_instrument_ids (hu_current_plan st)) (plan_instrument_ids next_plan)))
      (compute_hip4_refresh_rollover_reason q e resolved True)) = Inr ()" for q e
    using instrument_change_nonempty [OF False] reason [of q e]
    by (auto simp: validate_hip4_refresh_resolution_record_def refresh_resolution_record_def resolution_record_def
        validate_hip4_refresh_rollover_reason_def refresh_rollover_reasons_def split: option.splits)
  then show ?thesis using False by (simp add: apply_resolved_state_transition_def Let_def opt_list_def)
qed

lemma refresh_one_returns:
  "\<exists>st' change failed. hip4_refresh_one z now answer st = Inr (st', change, failed)
    \<and> list_all (\<lambda>(_, entry). validate_hip4_refresh_resolution_record entry = Inr ()) (opt_list change)
    \<and> (failed \<longrightarrow> st' = st)
    \<and> (failed = (resolve_runtime_hip4_universe z answer (hu_spec st) now = None)) \<and> hu_spec st' = hu_spec st"
proof (cases "resolve_runtime_hip4_universe z answer (hu_spec st) now")
  case None
  then show ?thesis
    by (intro exI [of _ st] exI [of _ None] exI [of _ True]) (simp add: hip4_refresh_one_def opt_list_def)
next
  case (Some resolved)
  with transition_returns [of "hz_text z" st resolved "expand_hip4_universe (hu_spec st) resolved"]
  show ?thesis by (auto simp: hip4_refresh_one_def Let_def)
qed

lemma refresh_loop_returns:
  "\<exists>acc' sts'. hip4_refresh_loop z now answers n sts acc = (Inr acc', sts') \<and> length sts' = length sts
    \<and> plan_specs (ra_next_plan acc') = plan_specs (ra_next_plan acc) \<union> (\<Union>st \<in> set sts'. plan_specs (hu_current_plan st))
    \<and> (list_all (\<lambda>entry. validate_hip4_refresh_resolution_record entry = Inr ()) (ra_records acc)
        \<longrightarrow> list_all (\<lambda>entry. validate_hip4_refresh_resolution_record entry = Inr ()) (ra_records acc'))
    \<and> (\<forall>k < length sts. resolve_runtime_hip4_universe z (answers (n + k)) (hu_spec (sts ! k)) now = None \<longrightarrow> sts' ! k = sts ! k)
    \<and> (ra_failed acc' \<longleftrightarrow> ra_failed acc \<or> (\<exists>k < length sts. resolve_runtime_hip4_universe z (answers (n + k)) (hu_spec (sts ! k)) now = None))"
proof (induction sts arbitrary: n acc)
  case Nil
  then show ?case by simp
next
  case (Cons st sts)
  obtain st' change failed where one: "hip4_refresh_one z now (answers n) st = Inr (st', change, failed)"
    "list_all (\<lambda>(_, entry). validate_hip4_refresh_resolution_record entry = Inr ()) (opt_list change)"
    "failed \<longrightarrow> st' = st" "failed = (resolve_runtime_hip4_universe z (answers n) (hu_spec st) now = None)"
    using refresh_one_returns by blast
  let ?acc = "refresh_acc_add acc (hu_current_plan st') change failed"
  from Cons.IH [of "Suc n" ?acc] obtain acc' sts' where loop: "hip4_refresh_loop z now answers (Suc n) sts ?acc = (Inr acc', sts')"
    and len: "length sts' = length sts"
    and plan: "plan_specs (ra_next_plan acc') = plan_specs (ra_next_plan ?acc) \<union> (\<Union>st \<in> set sts'. plan_specs (hu_current_plan st))"
    and recs: "list_all (\<lambda>entry. validate_hip4_refresh_resolution_record entry = Inr ()) (ra_records ?acc)
        \<longrightarrow> list_all (\<lambda>entry. validate_hip4_refresh_resolution_record entry = Inr ()) (ra_records acc')"
    and keep: "\<forall>k < length sts. resolve_runtime_hip4_universe z (answers (Suc n + k)) (hu_spec (sts ! k)) now = None \<longrightarrow> sts' ! k = sts ! k"
    and fail: "ra_failed acc' \<longleftrightarrow> ra_failed ?acc \<or> (\<exists>k < length sts. resolve_runtime_hip4_universe z (answers (Suc n + k)) (hu_spec (sts ! k)) now = None)"
    by blast
  have eq: "hip4_refresh_loop z now answers n (st # sts) acc = (Inr acc', st' # sts')" using one(1) loop by simp
  have "plan_specs (ra_next_plan ?acc) = plan_specs (ra_next_plan acc) \<union> plan_specs (hu_current_plan st')"
    "ra_records ?acc = ra_records acc @ map snd (opt_list change)" "ra_failed ?acc = (ra_failed acc \<or> failed)"
    by (simp_all add: refresh_acc_add_def)
  moreover have "list_all (\<lambda>entry. validate_hip4_refresh_resolution_record entry = Inr ()) (map snd (opt_list change))"
    using one(2) by (auto simp: list_all_iff)
  moreover have "\<forall>k < length (st # sts). resolve_runtime_hip4_universe z (answers (n + k)) (hu_spec ((st # sts) ! k)) now = None
      \<longrightarrow> (st' # sts') ! k = (st # sts) ! k"
    using keep one(3,4) by (auto simp: nth_Cons split: nat.splits)
  moreover have "(\<exists>k < length (st # sts). resolve_runtime_hip4_universe z (answers (n + k)) (hu_spec ((st # sts) ! k)) now = None)
      \<longleftrightarrow> failed \<or> (\<exists>k < length sts. resolve_runtime_hip4_universe z (answers (Suc n + k)) (hu_spec (sts ! k)) now = None)"
    using one(4) by (auto simp: less_Suc_eq_0_disj)
  ultimately show ?case unfolding eq using len plan recs fail by (intro exI [of _ acc'] exI [of _ "st' # sts'"]) auto
qed

text \<open>What a refresh does, in one place.\<close>

lemma hip4_refresh_effect:
  fixes m :: "('i::linorder, 'b, 'd) hip4_manager"
  obtains acc :: "('i, 'b, 'i hip4_change, hip4_record) refresh_acc" and sts where "hip4_refresh z (now, answers) m =
      (Inr (build_dynamic_plan_delta (hx_current_dynamic_plan m) (ra_next_plan acc) (ra_changes acc) (ra_records acc)),
       m\<lparr>hx_universes := sts, hx_current_dynamic_plan := ra_next_plan acc, hx_last_refresh_failed := ra_failed acc\<rparr>)"
    and "length sts = length (hx_universes m)"
    and "plan_specs (ra_next_plan acc) = (\<Union>st \<in> set sts. plan_specs (hu_current_plan st))"
    and "list_all (\<lambda>entry. validate_hip4_refresh_resolution_record entry = Inr ()) (ra_records acc)"
    and "\<And>k. k < length sts \<Longrightarrow> resolve_runtime_hip4_universe z (answers k) (hu_spec (hx_universes m ! k)) now = None
        \<Longrightarrow> sts ! k = hx_universes m ! k"
    and "ra_failed acc \<longleftrightarrow> (\<exists>k < length sts. resolve_runtime_hip4_universe z (answers k) (hu_spec (hx_universes m ! k)) now = None)"
proof -
  obtain acc sts where loop: "hip4_refresh_loop z now answers 0 (hx_universes m) refresh_acc_empty = (Inr acc, sts)"
    and facts: "length sts = length (hx_universes m)"
      "plan_specs (ra_next_plan acc) = (\<Union>st \<in> set sts. plan_specs (hu_current_plan st))"
      "list_all (\<lambda>entry. validate_hip4_refresh_resolution_record entry = Inr ()) (ra_records acc)"
      "\<forall>k < length sts. resolve_runtime_hip4_universe z (answers k) (hu_spec (hx_universes m ! k)) now = None
        \<longrightarrow> sts ! k = hx_universes m ! k"
      "ra_failed acc \<longleftrightarrow> (\<exists>k < length sts. resolve_runtime_hip4_universe z (answers k) (hu_spec (hx_universes m ! k)) now = None)"
    using refresh_loop_returns [of z now answers 0 "hx_universes m" refresh_acc_empty]
    by (auto simp: refresh_acc_empty_def)
  have eq: "hip4_refresh z (now, answers) m =
      (Inr (build_dynamic_plan_delta (hx_current_dynamic_plan m) (ra_next_plan acc) (ra_changes acc) (ra_records acc)),
       m\<lparr>hx_universes := sts, hx_current_dynamic_plan := ra_next_plan acc, hx_last_refresh_failed := ra_failed acc\<rparr>)"
    using loop by (simp add: hip4_refresh_def)
  show ?thesis by (rule that [OF eq facts(1,2,3) _ facts(5)]) (use facts(4) in blast)
qed

subsection \<open>The option manager\<close>

record ('i, 'p, 'f) market_cache =
  mc_instruments :: "string \<Rightarrow> string \<Rightarrow> ('i, 'p) instrument list"
  mc_greeks :: "'i \<Rightarrow> ('i, 'f) option_greeks option"
  mc_quote_mid :: "'i \<Rightarrow> 'p option"
  mc_mark_price :: "'i \<Rightarrow> 'p option"
  mc_index_price :: "'i \<Rightarrow> 'p option"

record ('i, 'p, 'f) option_env =
  oe_floats :: "('p, 'f) float_ops"
  oe_price_of_float :: "'f \<Rightarrow> 'p"
  oe_parse_id :: "string \<Rightarrow> 'i option"
  oe_text :: "('i, 'p) price_text_env"

datatype runtime_error = RefreshUnsupported | NoReference | Unresolved resolve_error

fun first_underlying_price :: "('i, 'p, 'f) market_cache \<Rightarrow> 'i list \<Rightarrow> 'f option" where
  "first_underlying_price cache [] = None"
| "first_underlying_price cache (i # is) =
     (case mc_greeks cache i of
        None \<Rightarrow> first_underlying_price cache is
      | Some g \<Rightarrow> (case gk_underlying_price g of
           None \<Rightarrow> first_underlying_price cache is
         | Some price \<Rightarrow> Some price))"

definition select_runtime_strike_reference ::
  "('i, 'p, 'f) option_env \<Rightarrow> ('i, 'p, 'f) market_cache \<Rightarrow> option_spec \<Rightarrow> string \<Rightarrow> venue_kind \<Rightarrow> nat
   \<Rightarrow> runtime_error + ('p \<times> string)" where
  "select_runtime_strike_reference env cache spec venue kind now =
     (case option_instrument_ids_at_selected_expiry spec (mc_instruments cache venue (os_underlying spec)) now of
        Inl e \<Rightarrow> Inl (Unresolved e)
      | Inr (_, ids) \<Rightarrow>
         (case first_underlying_price cache ids of
            Some price \<Rightarrow> Inr (oe_price_of_float env price, atm_source_str CacheGreeksUnderlyingPrice)
          | None \<Rightarrow>
             (case derive_perp_instrument_id (oe_parse_id env) spec kind of
                Inl e \<Rightarrow> Inl (Unresolved e)
              | Inr perp \<Rightarrow>
                 (case select_cache_perp_strike_fallback (mc_mark_price cache perp) (mc_quote_mid cache perp)
                     (mc_index_price cache perp) of
                    Some (price, source) \<Rightarrow> Inr (price, atm_source_str source)
                  | None \<Rightarrow> Inl NoReference))))"

definition open_interest_entry ::
  "('i, 'p, 'f::linorder) option_env \<Rightarrow> ('i, 'p, 'f) market_cache \<Rightarrow> ('i, 'p) instrument list \<Rightarrow> 'i \<Rightarrow> ('p \<times> 'f) option" where
  "open_interest_entry env cache instruments i =
     (case mc_greeks cache i of
        None \<Rightarrow> None
      | Some g \<Rightarrow> (case gk_open_interest g of
           None \<Rightarrow> None
         | Some interest \<Rightarrow>
            if \<not> fl_is_finite (oe_floats env) interest \<or> interest \<le> fl_zero (oe_floats env) then None
            else (case List.find (\<lambda>inst. in_id inst = i) instruments of
              None \<Rightarrow> None
            | Some inst \<Rightarrow> (case in_strike inst of None \<Rightarrow> None | Some strike \<Rightarrow> Some (strike, interest)))))"

definition select_runtime_strike_open_interest ::
  "('i, 'p::linorder, 'f::linorder) option_env \<Rightarrow> ('i, 'p, 'f) market_cache \<Rightarrow> option_spec \<Rightarrow> nat \<Rightarrow> ('i, 'p) instrument list
   \<Rightarrow> runtime_error + ('p \<times> 'f) list" where
  "select_runtime_strike_open_interest env cache spec now instruments =
     (case option_instrument_ids_at_selected_expiry spec instruments now of
        Inl e \<Rightarrow> Inl (Unresolved e)
      | Inr (_, ids) \<Rightarrow>
         Inr (aggregate_open_interest_by_strike (oe_floats env) (List.map_filter (open_interest_entry env cache instruments) ids)))"

definition resolve_runtime_option_universe ::
  "('i::linorder, 'p::linorder, 'f::linorder) option_env \<Rightarrow> ('i, 'p, 'f) market_cache \<Rightarrow> nat \<Rightarrow> option_spec \<Rightarrow> string
   \<Rightarrow> venue_kind \<Rightarrow> runtime_error + ('i, 'p) resolved_options" where
  "resolve_runtime_option_universe env cache now spec venue kind =
     (if \<not> supports_runtime_refresh kind then Inl RefreshUnsupported
      else let instruments = mc_instruments cache venue (os_underlying spec)
      in case select_runtime_strike_reference env cache spec venue kind now of
        Inl e \<Rightarrow> Inl e
      | Inr (reference, source) \<Rightarrow>
         (case (if os_include_perp spec then map_sum Unresolved Some (derive_perp_instrument_id (oe_parse_id env) spec kind)
                else Inr None) of
            Inl e \<Rightarrow> Inl e
          | Inr perp \<Rightarrow>
             (case (if requires_open_interest (os_strike_policy spec)
                    then map_sum (\<lambda>e. e) Some (select_runtime_strike_open_interest env cache spec now instruments)
                    else Inr None) of
                Inl e \<Rightarrow> Inl e
              | Inr interest \<Rightarrow>
                 (case resolve_option_universe (oe_floats env) spec instruments now reference perp interest of
                    Inl e \<Rightarrow> Inl (Unresolved e)
                  | Inr resolved \<Rightarrow> Inr (resolved\<lparr>ro_atm_reference_source := Some source\<rparr>)))))"

record 'i option_change =
  oc_venue_id :: string
  oc_underlying :: string
  oc_selected_expiry_iso8601 :: string
  oc_perp_instrument_id :: "'i option"
  oc_option_instrument_ids :: "'i list"
  oc_previous_count :: nat
  oc_next_count :: nat
  oc_added_instrument_ids :: "'i list"
  oc_removed_instrument_ids :: "'i list"

record ('i, 'b, 'p) option_state =
  ou_venue :: string
  ou_venue_kind :: venue_kind
  ou_spec :: option_spec
  ou_current_plan :: "('i, 'b) capture_plan"
  ou_applied_resolved :: "('i, 'p) resolved_options"
  ou_last_selected_expiry_ns :: "nat option"
  ou_last_atm_reference :: "string option"
  ou_strike_smoothing :: "'p smoothing"

record ('i, 'b, 'p) option_entry =
  on_venue :: string
  on_venue_kind :: venue_kind
  on_spec :: option_spec
  on_initial_plan :: "('i, 'b) capture_plan"
  on_initial_resolved :: "('i, 'p) resolved_options"

record ('i, 'b, 'p) option_config =
  og_refresh_interval_secs :: nat
  og_strike_change_confirmations :: nat
  og_purge_removed_instruments :: bool
  og_static_plan :: "('i, 'b) capture_plan"
  og_initial_dynamic_plan :: "('i, 'b) capture_plan"
  og_universes :: "('i, 'b, 'p) option_entry list"

record ('i, 'b, 'p) option_manager =
  ox_refresh_interval_secs :: nat
  ox_strike_change_confirmations :: nat
  ox_purge_removed_instruments :: bool
  ox_static_plan :: "('i, 'b) capture_plan"
  ox_current_dynamic_plan :: "('i, 'b) capture_plan"
  ox_universes :: "('i, 'b, 'p) option_state list"

definition option_manager_new ::
  "('i, 'p) price_text_env \<Rightarrow> ('i, 'b, 'p) option_config \<Rightarrow> ('i, 'b, 'p) option_manager" where
  "option_manager_new te c = \<lparr>
     ox_refresh_interval_secs = og_refresh_interval_secs c,
     ox_strike_change_confirmations = og_strike_change_confirmations c,
     ox_purge_removed_instruments = og_purge_removed_instruments c, ox_static_plan = og_static_plan c,
     ox_current_dynamic_plan = og_initial_dynamic_plan c,
     ox_universes = map (\<lambda>entry. \<lparr>ou_venue = on_venue entry, ou_venue_kind = on_venue_kind entry, ou_spec = on_spec entry,
         ou_current_plan = on_initial_plan entry, ou_applied_resolved = on_initial_resolved entry,
         ou_last_selected_expiry_ns = Some (ro_selected_expiry_ns (on_initial_resolved entry)),
         ou_last_atm_reference = Some (te_show_price te (ro_atm_reference (on_initial_resolved entry))),
         ou_strike_smoothing = smoothing_default\<rparr>) (og_universes c)\<rparr>"

definition option_active_plan :: "('i, 'b, 'p) option_manager \<Rightarrow> ('i, 'b) capture_plan" where
  "option_active_plan m = merge_capture_plans (ox_static_plan m) (ox_current_dynamic_plan m)"

definition is_oi_ranked :: "strike_policy \<Rightarrow> bool" where
  "is_oi_ranked p = (case p of OiRanked n \<Rightarrow> True | _ \<Rightarrow> False)"

text \<open>Whether the strikes of a resolution are applied, with the smoothing that follows.\<close>

definition strike_decision ::
  "nat \<Rightarrow> ('i, 'b, 'p) option_state \<Rightarrow> ('i, 'p) resolved_options \<Rightarrow> bool \<times> 'p smoothing" where
  "strike_decision required st resolved =
     (let expiry_changed = (case ou_last_selected_expiry_ns st of Some e \<Rightarrow> e \<noteq> ro_selected_expiry_ns resolved | None \<Rightarrow> False)
      in if is_oi_ranked (os_strike_policy (ou_spec st)) \<and> 0 < required
         then should_apply_strike_change (ro_selected_strikes (ou_applied_resolved st)) (ro_selected_strikes resolved)
           expiry_changed required (ou_strike_smoothing st)
         else (True, ou_strike_smoothing st))"

definition option_change_of ::
  "('i, 'p) price_text_env \<Rightarrow> ('i::linorder, 'b, 'p) option_state \<Rightarrow> ('i, 'p) resolved_options \<Rightarrow> ('i, 'b) capture_plan
   \<Rightarrow> ('i option_change \<times> option_record) option" where
  "option_change_of te st resolved next_plan =
     (let previous_ids = plan_instrument_ids (ou_current_plan st); next_ids = plan_instrument_ids next_plan
      in if next_ids = previous_ids then None
         else let added = instrument_id_difference next_ids previous_ids;
                  removed = instrument_id_difference previous_ids next_ids;
                  reason = compute_refresh_rollover_reason te (ou_last_selected_expiry_ns st) resolved
                    (ou_last_atm_reference st) True (selection_mode (os_strike_policy (ou_spec st)))
              in Some (\<lparr>oc_venue_id = os_venue_id (ou_spec st), oc_underlying = os_underlying (ou_spec st),
                    oc_selected_expiry_iso8601 = te_iso te (ro_selected_expiry_ns resolved),
                    oc_perp_instrument_id = ro_perp_instrument_id resolved,
                    oc_option_instrument_ids = ro_option_instrument_ids resolved,
                    oc_previous_count = length previous_ids, oc_next_count = length next_ids,
                    oc_added_instrument_ids = added, oc_removed_instrument_ids = removed\<rparr>,
                  option_refresh_record te (ou_spec st) resolved (map (te_show_id te) added)
                    (map (te_show_id te) removed) reason))"

definition option_refresh_one ::
  "('i::linorder, 'p::linorder, 'f::linorder) option_env \<Rightarrow> ('i, 'p, 'f) market_cache \<Rightarrow> nat \<Rightarrow> nat \<Rightarrow> ('i, 'b, 'p) option_state
   \<Rightarrow> ('i, 'b, 'p) option_state \<times> ('i option_change \<times> option_record) option" where
  "option_refresh_one env cache now required st =
     (case resolve_runtime_option_universe env cache now (ou_spec st) (ou_venue st) (ou_venue_kind st) of
        Inl _ \<Rightarrow> (st, None)
      | Inr resolved \<Rightarrow>
         let (apply_strikes, smoothing) = strike_decision required st resolved;
             effective = (if apply_strikes then resolved else ou_applied_resolved st);
             next_plan = expand_option_universe (ou_spec st) effective;
             st' = (if apply_strikes
                    then st\<lparr>ou_applied_resolved := effective,
                            ou_last_selected_expiry_ns := Some (ro_selected_expiry_ns effective),
                            ou_last_atm_reference := Some (te_show_price (oe_text env) (ro_atm_reference effective))\<rparr>
                    else st)
         in (st'\<lparr>ou_strike_smoothing := smoothing, ou_current_plan := next_plan\<rparr>,
             option_change_of (oe_text env) st effective next_plan))"

fun option_refresh_loop ::
  "('i::linorder, 'p::linorder, 'f::linorder) option_env \<Rightarrow> ('i, 'p, 'f) market_cache \<Rightarrow> nat \<Rightarrow> nat \<Rightarrow> ('i, 'b, 'p) option_state list
   \<Rightarrow> ('i, 'b, 'i option_change, option_record) refresh_acc
   \<Rightarrow> ('i, 'b, 'i option_change, option_record) refresh_acc \<times> ('i, 'b, 'p) option_state list" where
  "option_refresh_loop env cache now required [] acc = (acc, [])"
| "option_refresh_loop env cache now required (st # sts) acc =
     (let (st', change) = option_refresh_one env cache now required st;
          (acc', sts') = option_refresh_loop env cache now required sts (refresh_acc_add acc (ou_current_plan st') change False)
      in (acc', st' # sts'))"

text \<open>The refresh returns \<open>Ok\<close> on every path; the type of its error is that of the other manager.\<close>

definition option_refresh ::
  "('i::linorder, 'p::linorder, 'f::linorder) option_env \<Rightarrow> nat \<times> ('i, 'p, 'f) market_cache \<Rightarrow> ('i, 'b, 'p) option_manager
   \<Rightarrow> (record_error + ('i, 'b, 'i option_change, option_record) plan_delta) \<times> ('i, 'b, 'p) option_manager" where
  "option_refresh env = (\<lambda>(now, cache) m.
     let (acc, sts) = option_refresh_loop env cache now (ox_strike_change_confirmations m) (ox_universes m) refresh_acc_empty
     in (Inr (build_dynamic_plan_delta (ox_current_dynamic_plan m) (ra_next_plan acc) (ra_changes acc) (ra_records acc)),
         m\<lparr>ox_universes := sts, ox_current_dynamic_plan := ra_next_plan acc\<rparr>))"

end
