(* ===== verification/Rolling_State.thy ===== *)
theory Rolling_State
  imports Hip4_Market
begin

section \<open>What the actor records for rolling markets\<close>

text \<open>
  The state of the actor's two rolling captures (\<open>hip4_rolling.rs\<close> and \<open>lighter_updown.rs\<close> under
  \<open>crates/catalog-capture-runtime-adapter/src\<close>): which markets it owns, what they add to the plan,
  and the definition it records for each HIP-4 outcome. Their handlers are in the theories of the
  actor.

  An instrument of Nautilus is what the capture reads of it; the parser of the Hyperliquid adapter
  and the numeric market id of a Lighter instrument are parameters.
\<close>

record 'i definition_record =
  nd_id :: 'i
  nd_binary :: bool
  nd_ts_init :: nat
  nd_activation_ns :: nat
  nd_expiration_ns :: "nat option"
  nd_info :: "(string \<times> json) list option"

definition book_deltas_spec :: "'i \<Rightarrow> 'i book_spec" where
  "book_deltas_spec i = \<lparr>bs_instrument = i, bs_book_type = L2, bs_depth = None\<rparr>"

subsection \<open>HIP-4\<close>

record series =
  sr_current :: "nat option"
  sr_pending :: "nat option"
  sr_retry_after :: nat

definition series_default :: series where
  "series_default = \<lparr>sr_current = None, sr_pending = None, sr_retry_after = 0\<rparr>"

record 'i recording =
  rg_market :: rolling_market
  rg_definitions :: "'i definition_record list"

definition recording_ids :: "'i recording \<Rightarrow> 'i list" where
  "recording_ids r = map nd_id (rg_definitions r)"

record 'i rolling_state =
  hv_config :: "rolling_config option"
  hv_series :: "(string \<times> series) list"
  hv_markets :: "(nat \<times> 'i recording) list"
  hv_ready :: "'i list"
  hv_retiring :: "'i list"
  hv_definitions_recorded :: "'i list"
  hv_discovery :: bool
  hv_next_discovery_ns :: nat
  hv_instrument_request :: "(nat \<times> nat) option"

definition rolling_state_new :: "rolling_config option \<Rightarrow> 'i rolling_state" where
  "rolling_state_new config = \<lparr>hv_config = config, hv_series = [], hv_markets = [], hv_ready = [], hv_retiring = [],
     hv_definitions_recorded = [], hv_discovery = False, hv_next_discovery_ns = 0, hv_instrument_request = None\<rparr>"

definition rolling_plan :: "'i rolling_state \<Rightarrow> ('i, 'b) capture_plan" where
  "rolling_plan h =
     (let ids = concat (map (recording_ids \<circ> snd) (hv_markets h))
      in empty_plan\<lparr>pl_instruments := id_specs ids, pl_trades := id_specs ids, pl_book_deltas := map book_deltas_spec ids\<rparr>)"

definition rolling_definition :: "'i rolling_state \<Rightarrow> 'i \<Rightarrow> 'i definition_record option" where
  "rolling_definition h i = List.find (\<lambda>d. nd_id d = i) (concat (map (rg_definitions \<circ> snd) (hv_markets h)))"

text \<open>
  The two outcomes of a market, with the schedule the parser does not know. \<open>parse\<close> is the venue's
  parser applied to the raw outcome at the given time.
\<close>

definition enrich :: "rolling_market \<Rightarrow> 'i definition_record \<Rightarrow> 'i definition_record" where
  "enrich market d = d\<lparr>
     nd_expiration_ns := Some (rm_end_ns market),
     nd_activation_ns := sat_sub (rm_end_ns market) rolling_interval_ns,
     nd_info := Some (btree_insert ''capture_schedule_source'' (JString ''out_quarter_hour'')
       (btree_insert ''capture_interval_secs'' (JUint 900)
         (btree_insert ''hip4_raw'' (rm_raw market) (case nd_info d of Some m \<Rightarrow> m | None \<Rightarrow> []))))\<rparr>"

definition rolling_recording ::
  "(json \<Rightarrow> nat \<Rightarrow> 'i definition_record list option) \<Rightarrow> rolling_market \<Rightarrow> nat \<Rightarrow> 'i recording option" where
  "rolling_recording parse market now =
     (case parse (rm_raw market) now of
        None \<Rightarrow> None
      | Some defs \<Rightarrow>
         if \<not> list_all nd_binary defs then None
         else if length defs \<noteq> 2 then None
         else Some \<lparr>rg_market = market, rg_definitions = map (enrich market) defs\<rparr>)"

subsection \<open>Lighter\<close>

record lighter_config =
  lf_tag :: string
  lf_client_id :: string
  lf_refresh_secs :: nat
  lf_prefetch_secs :: nat

definition lighter_client :: string where "lighter_client = ''LIGHTER''"
definition lighter_refresh_secs :: nat where "lighter_refresh_secs = 10"
definition lighter_prefetch_secs :: nat where "lighter_prefetch_secs = 30"

definition lighter_tag_char :: "char \<Rightarrow> bool" where
  "lighter_tag_char c = (let n = of_char c :: nat in (97 \<le> n \<and> n \<le> 122) \<or> (48 \<le> n \<and> n \<le> 57) \<or> c = CHR ''-'')"

definition lighter_config_validate :: "lighter_config \<Rightarrow> unit result" where
  "lighter_config_validate c =
     (if \<not> (lf_client_id c = lighter_client \<and> ends_with ''-updown-15m'' (lf_tag c) \<and> list_all lighter_tag_char (lf_tag c))
      then Inl (InvalidConfig ''invalid Lighter 15m selector'')
      else if \<not> (1 \<le> lf_refresh_secs c \<and> lf_refresh_secs c \<le> 60 \<and> 5 \<le> lf_prefetch_secs c \<and> lf_prefetch_secs c \<le> 300)
      then Inl (InvalidConfig ''invalid Lighter discovery cadence/prefetch'')
      else Inr ())"

record 'i lighter_state =
  lw_configs :: "lighter_config list"
  lw_markets :: "('i \<times> 'i definition_record) list"
  lw_pending :: "nat option"
  lw_retiring :: "('i \<times> 'i definition_record) list"
  lw_next_refresh_ns :: nat

definition lighter_state_new :: "lighter_config list \<Rightarrow> 'i lighter_state" where
  "lighter_state_new configs = \<lparr>lw_configs = configs, lw_markets = [], lw_pending = None, lw_retiring = [],
     lw_next_refresh_ns = 0\<rparr>"

definition lighter_enabled :: "'i lighter_state \<Rightarrow> bool" where
  "lighter_enabled l = (lw_configs l \<noteq> [])"

text \<open>\<open>oi_type\<close> reads the market id of the info; the handlers only own instruments that have one.\<close>

definition market_id_of :: "'i definition_record \<Rightarrow> nat option" where
  "market_id_of d = (case nd_info d of None \<Rightarrow> None | Some m \<Rightarrow> json_u64 (map_of m ''market_id''))"

definition oi_type :: "'i definition_record \<Rightarrow> data_type" where
  "oi_type d = \<lparr>dt_type_name = ''LighterOpenInterest'', dt_metadata = None,
     dt_identifier = Some (show_nat (case market_id_of d of Some n \<Rightarrow> n | None \<Rightarrow> 0))\<rparr>"

definition lighter_plan :: "'i lighter_state \<Rightarrow> ('i, 'b) capture_plan" where
  "lighter_plan l =
     (let defs = map snd (lw_markets l); ids = map nd_id defs
      in empty_plan\<lparr>pl_instruments := id_specs ids, pl_trades := id_specs ids, pl_book_deltas := map book_deltas_spec ids,
           pl_index_prices := id_specs ids, pl_custom_data := map (\<lambda>d. \<lparr>cd_data_type = oi_type d\<rparr>) defs\<rparr>)"

subsection \<open>Lemmas\<close>

lemma definition_id: "rolling_definition h i = Some d \<Longrightarrow> nd_id d = i"
  by (auto simp: rolling_definition_def find_Some_iff)

definition rolling_ids :: "'i rolling_state \<Rightarrow> 'i list" where
  "rolling_ids h = concat (map (recording_ids \<circ> snd) (hv_markets h))"

lemma definition_iff: "rolling_definition h i \<noteq> None \<longleftrightarrow> i \<in> set (rolling_ids h)"
  by (auto simp: rolling_definition_def find_None_iff recording_ids_def rolling_ids_def)

lemma spec_ids [simp]:
  "sp_instrument ` set (id_specs ids) = set ids" "bs_instrument ` set (map book_deltas_spec ids) = set ids"
  by (simp_all add: id_specs_def book_deltas_spec_def image_image)

lemma rolling_plan_ids: "plan_ids (rolling_plan h) = set (rolling_ids h)"
  by (simp add: rolling_plan_def plan_ids_def empty_plan_def rolling_ids_def Let_def image_Un del: set_map set_concat)

lemma recording_shape:
  assumes "rolling_recording parse market now = Some r"
  shows "rg_market r = market \<and> length (rg_definitions r) = 2
    \<and> list_all (\<lambda>d. nd_expiration_ns d = Some (rm_end_ns market)
        \<and> nd_activation_ns d = sat_sub (rm_end_ns market) rolling_interval_ns) (rg_definitions r)"
  using assms by (auto simp: rolling_recording_def enrich_def list_all_iff split: option.splits if_splits)

lemma lighter_plan_ids: "plan_ids (lighter_plan l) = set (map (nd_id \<circ> snd) (lw_markets l))"
  by (simp add: lighter_plan_def plan_ids_def empty_plan_def Let_def image_Un spec_ids(2) del: set_map map_map) simp

end
