(* ===== verification/Matched_State.thy ===== *)
theory Matched_State
  imports Rolling_State
begin

section \<open>Matched sports markets\<close>

text \<open>
  The identities of paired markets (\<open>paired_markets.rs\<close> of \<open>crates/catalog-capture-core/src\<close>), and the
  mailbox of their discovery and the state the actor keeps of them (\<open>matched_sports.rs\<close> of
  \<open>crates/catalog-capture-runtime-adapter/src\<close>).

  A \<open>Decimal\<close> is any linearly ordered type with zero and one. The operations of the mailbox are
  atomic: the two flags are atomics and the slot is behind a mutex.
\<close>

record 'q matched_config =
  mg_tag_ids :: "nat list"
  mg_include_match_winners :: bool
  mg_include_map_winners :: bool
  mg_refresh_secs :: nat
  mg_max_markets :: nat
  mg_max_pages :: nat
  mg_max_activity_candidates :: nat
  mg_activity_scan_pages :: nat
  mg_observation_timeout_secs :: nat
  mg_preload_next :: bool
  mg_preparation_timeout_secs :: nat
  mg_preparation_retry_secs :: nat
  mg_recent_trade_window_secs :: nat
  mg_max_last_trade_age_secs :: nat
  mg_min_recent_trade_times :: nat
  mg_selection_candidates :: nat
  mg_min_volume24h_usd :: 'q
  mg_max_spread :: 'q
  mg_depth_band :: 'q
  mg_min_depth_shares :: 'q

text \<open>\<open>decimal m s\<close> is \<open>Decimal::new(m, s)\<close>.\<close>

definition matched_config_default :: "(nat \<Rightarrow> nat \<Rightarrow> 'q) \<Rightarrow> 'q matched_config" where
  "matched_config_default decimal = \<lparr>mg_tag_ids = [84], mg_include_match_winners = True, mg_include_map_winners = False,
     mg_refresh_secs = 30, mg_max_markets = 1, mg_max_pages = 100, mg_max_activity_candidates = 256,
     mg_activity_scan_pages = 4, mg_observation_timeout_secs = 30, mg_preload_next = True,
     mg_preparation_timeout_secs = 30, mg_preparation_retry_secs = 30, mg_recent_trade_window_secs = 300,
     mg_max_last_trade_age_secs = 120, mg_min_recent_trade_times = 2, mg_selection_candidates = 5,
     mg_min_volume24h_usd = decimal 100 0, mg_max_spread = decimal 5 2, mg_depth_band = decimal 3 2,
     mg_min_depth_shares = decimal 100 0\<rparr>"

definition within :: "nat \<Rightarrow> nat \<Rightarrow> nat \<Rightarrow> bool" where
  "within lo hi n = (lo \<le> n \<and> n \<le> hi)"

definition matched_config_validate :: "'q::{zero, one, linorder} matched_config \<Rightarrow> unit result" where
  "matched_config_validate c =
     (if \<not> (mg_tag_ids c \<noteq> [] \<and> length (mg_tag_ids c) \<le> 8 \<and> list_all (\<lambda>v. 0 < v) (mg_tag_ids c)
            \<and> card (set (mg_tag_ids c)) = length (mg_tag_ids c))
      then Inl (InvalidConfig ''invalid or duplicate sports tag IDs'')
      else if \<not> within 5 300 (mg_refresh_secs c) then Inl (InvalidConfig ''MatchedSports refresh_secs must be 5..=300'')
      else if \<not> within 1 256 (mg_max_markets c) then Inl (InvalidConfig ''MatchedSports max_markets must be 1..=256'')
      else if \<not> (within 1 1024 (mg_max_activity_candidates c) \<and> mg_selection_candidates c \<le> mg_max_activity_candidates c)
      then Inl (InvalidConfig ''invalid activity candidate budget'')
      else if \<not> (within 1 20 (mg_activity_scan_pages c) \<and> (mg_include_match_winners c \<or> mg_include_map_winners c))
      then Inl (InvalidConfig ''invalid activity scan page budget or empty sports market types'')
      else if \<not> within 1 100 (mg_max_pages c) then Inl (InvalidConfig ''MatchedSports max_pages must be 1..=100'')
      else if \<not> within 1 3600 (mg_observation_timeout_secs c) then Inl (InvalidConfig ''invalid observation timeout'')
      else if \<not> (within 5 300 (mg_preparation_timeout_secs c) \<and> within 5 300 (mg_preparation_retry_secs c))
      then Inl (InvalidConfig ''invalid MatchedSports preparation timeout/retry'')
      else if \<not> (within 30 900 (mg_recent_trade_window_secs c)
              \<and> within 1 (mg_recent_trade_window_secs c) (mg_max_last_trade_age_secs c)
              \<and> within 2 50 (mg_min_recent_trade_times c)
              \<and> within (mg_max_markets c + (if mg_preload_next c then 1 else 0)) 256 (mg_selection_candidates c)
              \<and> 0 < mg_min_volume24h_usd c \<and> 0 < mg_max_spread c \<and> mg_max_spread c < 1
              \<and> 0 < mg_depth_band c \<and> mg_depth_band c < 1 \<and> 0 < mg_min_depth_shares c)
      then Inl (InvalidConfig ''invalid MatchedSports shortlist, volume, book or recent-trade controls'')
      else Inr ())"

record 'i matched_outcome =
  mo_predict_index_set :: nat
  mo_predict_label :: string
  mo_polymarket_label :: string
  mo_predict_instrument :: 'i
  mo_polymarket_instrument :: 'i

record 'i matched_market =
  mk_event_slug :: string
  mk_predict_market_id :: nat
  mk_polymarket_condition_id :: string
  mk_game_number :: "nat option"
  mk_rules :: string
  mk_outcomes :: "'i matched_outcome \<times> 'i matched_outcome"

definition outcome_list :: "'i matched_market \<Rightarrow> 'i matched_outcome list" where
  "outcome_list m = [fst (mk_outcomes m), snd (mk_outcomes m)]"

definition market_instrument_ids :: "'i matched_market \<Rightarrow> 'i list" where
  "market_instrument_ids m = concat (map (\<lambda>out. [mo_predict_instrument out, mo_polymarket_instrument out]) (outcome_list m))"

definition recording_instrument_ids :: "'i matched_market \<Rightarrow> 'i list" where
  "recording_instrument_ids m = concat (map (\<lambda>out. mo_polymarket_instrument out
     # (if mo_predict_index_set out = 1 then [mo_predict_instrument out] else [])) (outcome_list m))"

record match_rejection =
  mj_predict_market_id :: nat
  mj_reason :: string

record 'i matched_universe =
  mu_observed_ns :: nat
  mu_markets :: "'i matched_market list"
  mu_admission_ids :: "nat list option"
  mu_rejected :: "match_rejection list"
  mu_metadata :: json

subsection \<open>The mailbox of discovery\<close>

record 'i inbox =
  bx_generation :: nat
  bx_active :: bool
  bx_update :: "(nat \<times> (string + 'i matched_universe)) option"

definition inbox_new :: "'i inbox" where
  "inbox_new = \<lparr>bx_generation = 0, bx_active = False, bx_update = None\<rparr>"

definition begin_generation :: "'i inbox \<Rightarrow> nat \<times> 'i inbox" where
  "begin_generation b =
     (let next_gen = (bx_generation b + 1) mod 2 ^ 64
      in (next_gen, b\<lparr>bx_generation := next_gen, bx_update := None, bx_active := True\<rparr>))"

definition inbox_stop :: "'i inbox \<Rightarrow> 'i inbox" where
  "inbox_stop b = b\<lparr>bx_active := False, bx_generation := (bx_generation b + 1) mod 2 ^ 64, bx_update := None\<rparr>"

definition active_generation :: "'i inbox \<Rightarrow> nat option" where
  "active_generation b = (if bx_active b then Some (bx_generation b) else None)"

definition inbox_publish :: "nat \<Rightarrow> string + 'i matched_universe \<Rightarrow> 'i inbox \<Rightarrow> 'i inbox" where
  "inbox_publish generation answer b =
     (if active_generation b = Some generation then b\<lparr>bx_update := Some (generation, answer)\<rparr> else b)"

definition inbox_take :: "nat \<Rightarrow> 'i inbox \<Rightarrow> (string + 'i matched_universe) option \<times> 'i inbox" where
  "inbox_take generation b =
     (case bx_update b of
        Some (g, answer) \<Rightarrow> if g = generation then (Some answer, b\<lparr>bx_update := None\<rparr>) else (None, b)
      | None \<Rightarrow> (None, b))"

subsection \<open>The state of the actor\<close>

record preparation =
  pr_market_id :: nat
  pr_started_ns :: nat
  pr_ready :: bool

record 'i matched_state =
  ms_generation :: nat
  ms_markets :: "(nat \<times> 'i matched_market) list"
  ms_active :: "nat list"
  ms_preparing :: "preparation option"
  ms_universe :: "'i matched_universe option"
  ms_retry_after :: "(nat \<times> nat) list"
  ms_usable_books :: "'i list"
  ms_observed :: "('i \<times> nat) list"
  ms_instrument_versions :: "('i \<times> nat) list"
  ms_intervals :: "(nat \<times> bool) list"
  ms_retiring :: "('i \<times> nat) list"

definition matched_state_default :: "'i matched_state" where
  "matched_state_default = \<lparr>ms_generation = 0, ms_markets = [], ms_active = [], ms_preparing = None, ms_universe = None,
     ms_retry_after = [], ms_usable_books = [], ms_observed = [], ms_instrument_versions = [], ms_intervals = [],
     ms_retiring = []\<rparr>"

definition matched_outcome_plan :: "('i, 'b) capture_plan \<Rightarrow> 'i matched_outcome \<Rightarrow> ('i, 'b) capture_plan" where
  "matched_outcome_plan plan out =
     (let p1 = plan\<lparr>pl_instruments := pl_instruments plan @ id_specs [mo_predict_instrument out, mo_polymarket_instrument out],
                    pl_trades := pl_trades plan @ id_specs [mo_polymarket_instrument out]\<rparr>;
          p2 = (if mo_predict_index_set out = 1
                then p1\<lparr>pl_trades := pl_trades p1 @ id_specs [mo_predict_instrument out],
                        pl_book_depth := pl_book_depth p1 @ [book_deltas_spec (mo_predict_instrument out)]\<rparr>
                else p1)
      in p2\<lparr>pl_book_deltas := pl_book_deltas p2 @ [book_deltas_spec (mo_polymarket_instrument out)]\<rparr>)"

definition matched_plan :: "'i matched_state \<Rightarrow> ('i, 'b) capture_plan" where
  "matched_plan ms = foldl matched_outcome_plan empty_plan (concat (map (outcome_list \<circ> snd) (ms_markets ms)))"

definition matched_observe :: "'i::linorder \<Rightarrow> nat \<Rightarrow> bool \<Rightarrow> 'i matched_state \<Rightarrow> 'i matched_state" where
  "matched_observe i now snapshot ms =
     (if list_ex (\<lambda>(k, m). i \<in> set (recording_instrument_ids m)) (ms_markets ms)
         \<and> (snapshot \<or> map_of (ms_observed ms) i \<noteq> None)
      then ms\<lparr>ms_observed := btree_insert i now (ms_observed ms)\<rparr>
      else ms)"

definition matched_ids :: "'i matched_state \<Rightarrow> 'i list" where
  "matched_ids ms = concat (map (market_instrument_ids \<circ> snd) (ms_markets ms))"

subsection \<open>Lemmas\<close>

text \<open>Discovery results of an older generation never reach the actor.\<close>

definition inbox_ok :: "'i inbox \<Rightarrow> bool" where
  "inbox_ok b \<longleftrightarrow> (\<forall>g answer. bx_update b = Some (g, answer) \<longrightarrow> active_generation b = Some g)"

lemma inbox_ops_ok:
  "inbox_ok inbox_new" "inbox_ok (snd (begin_generation b))" "inbox_ok (inbox_stop b)"
  "inbox_ok b \<Longrightarrow> inbox_ok (inbox_publish g answer b)" "inbox_ok b \<Longrightarrow> inbox_ok (snd (inbox_take g b))"
  by (auto simp: inbox_ok_def inbox_new_def begin_generation_def inbox_stop_def inbox_publish_def inbox_take_def
      active_generation_def Let_def split: option.split if_splits)

lemma taken_is_current: "inbox_ok b \<Longrightarrow> fst (inbox_take g b) = Some answer \<Longrightarrow> active_generation b = Some g"
  by (auto simp: inbox_ok_def inbox_take_def split: option.splits if_splits)

lemma outcome_plan_ids:
  "plan_ids (matched_outcome_plan plan out) = plan_ids plan \<union> {mo_predict_instrument out, mo_polymarket_instrument out}"
  by (auto simp: matched_outcome_plan_def plan_ids_def id_specs_def book_deltas_spec_def Let_def)

lemma outcome_plans_ids:
  "plan_ids (foldl matched_outcome_plan p outs)
     = plan_ids p \<union> (\<Union>out \<in> set outs. {mo_predict_instrument out, mo_polymarket_instrument out})"
  by (induction outs arbitrary: p) (auto simp: outcome_plan_ids)

lemma matched_plan_ids: "plan_ids (matched_plan ms) = set (matched_ids ms)"
proof -
  have "plan_ids empty_plan = {}" by (simp add: plan_ids_def empty_plan_def)
  then show ?thesis
    by (auto simp: matched_plan_def matched_ids_def market_instrument_ids_def outcome_plans_ids)
qed

lemma recording_subset: "set (recording_instrument_ids m) \<subseteq> set (market_instrument_ids m)"
  by (auto simp: recording_instrument_ids_def market_instrument_ids_def)

end
