(* ===== verification/Predict_Selector.thy ===== *)
theory Predict_Selector
  imports Hip4_Market Replay_Windows "HOL-Library.Product_Lexorder"
begin

section \<open>Rolling selectors of Predict\<close>

text \<open>
  The identity of a rolling crypto market (\<open>CryptoUpDownSelectorKey\<close> of
  \<open>crates/nautilus-predict/src/common/crypto_up_down.rs\<close>) and how the actor reads it from the
  configured control subscription and from the snapshots the adapter emits
  (\<open>crates/catalog-capture-runtime-adapter/src/actor/mod.rs\<close> and \<open>actor/lifecycle.rs\<close>). Every selector
  has a writer of its own, so what is emitted for a selector has to come back to it.

  Parsing an instrument id is a parameter. Strings are ASCII.
\<close>

datatype selector_key =
  SelectorKey (price_feed_symbol: string) (title_asset: string) (interval_secs: nat)

definition key_tuple :: "selector_key \<Rightarrow> string \<times> string \<times> nat" where
  "key_tuple k = (price_feed_symbol k, title_asset k, interval_secs k)"

lemma key_tuple_inject [simp]: "key_tuple a = key_tuple b \<longleftrightarrow> a = b"
  by (cases a; cases b) (auto simp: key_tuple_def)

text \<open>The derived \<open>Ord\<close>: the fields in the order of their declaration.\<close>

instantiation selector_key :: linorder
begin

definition less_eq_selector_key :: "selector_key \<Rightarrow> selector_key \<Rightarrow> bool" where
  "less_eq_selector_key a b = (key_tuple a \<le> key_tuple b)"

definition less_selector_key :: "selector_key \<Rightarrow> selector_key \<Rightarrow> bool" where
  "less_selector_key a b = (key_tuple a < key_tuple b)"

instance
  by standard (auto simp: less_eq_selector_key_def less_selector_key_def less_le_not_le dest: order_antisym)

end

definition ascii_upper :: "string \<Rightarrow> string" where
  "ascii_upper s = map (\<lambda>c. let n = of_char c :: nat in if 97 \<le> n \<and> n \<le> 122 then char_of (n - 32) else c) s"

definition normalize_price_feed_symbol :: "string \<Rightarrow> string" where
  "normalize_price_feed_symbol value = ascii_upper (filter is_alnum value)"

datatype selector_error =
    EmptyFeed | EmptyAsset | ZeroInterval | MissingMetadata | MissingField string | BadInterval
  | ZeroMarket | BadOutcome | BadIdentity

definition selector_key_new :: "string \<Rightarrow> string \<Rightarrow> nat \<Rightarrow> selector_error + selector_key" where
  "selector_key_new feed asset secs =
     (let feed' = normalize_price_feed_symbol feed; asset' = ascii_lower (trim asset)
      in if feed' = [] then Inl EmptyFeed
         else if asset' = [] then Inl EmptyAsset
         else if secs = 0 then Inl ZeroInterval
         else Inr (SelectorKey feed' asset' secs))"

definition predict_outcome_instrument_id :: "(string \<Rightarrow> 'i option) \<Rightarrow> nat \<Rightarrow> nat \<Rightarrow> selector_error + 'i" where
  "predict_outcome_instrument_id parse_id market outcome =
     (if market = 0 then Inl ZeroMarket
      else if outcome \<noteq> 1 \<and> outcome \<noteq> 2 then Inl BadOutcome
      else case parse_id (show_nat market @ ''-'' @ show_nat outcome @ ''.PREDICT'') of
        None \<Rightarrow> Inl BadIdentity
      | Some i \<Rightarrow> Inr i)"

definition feed_key :: string where "feed_key = ''predict_price_feed_symbol''"
definition asset_key :: string where "asset_key = ''predict_title_asset''"
definition interval_key :: string where "interval_key = ''predict_interval_secs''"
definition snapshot_type :: string where "snapshot_type = ''PredictOrderbookSnapshot''"

text \<open>The closures \<open>string\<close>: a metadata value that is a string and not blank.\<close>

definition selector_field :: "(string \<times> json) list \<Rightarrow> string \<Rightarrow> selector_error + string" where
  "selector_field metadata key =
     (case map_of metadata key of
        Some (JString s) \<Rightarrow> if trim s = [] then Inl (MissingField key) else Inr (trim s)
      | _ \<Rightarrow> Inl (MissingField key))"

text \<open>The fields are read in the order interval, feed, asset.\<close>

definition selector_of_fields :: "(string \<times> json) list \<Rightarrow> string \<Rightarrow> string \<Rightarrow> string \<Rightarrow> selector_error + selector_key" where
  "selector_of_fields metadata interval_name feed asset =
     (case selector_field metadata interval_name of
        Inl e \<Rightarrow> Inl e
      | Inr interval_text \<Rightarrow> (case parse_u64 interval_text of
           Inl _ \<Rightarrow> Inl BadInterval
         | Inr secs \<Rightarrow> (case selector_field metadata feed of
              Inl e \<Rightarrow> Inl e
            | Inr feed_text \<Rightarrow> (case selector_field metadata asset of
                 Inl e \<Rightarrow> Inl e
               | Inr asset_text \<Rightarrow> selector_key_new feed_text asset_text secs))))"

definition predict_selector_key :: "data_type \<Rightarrow> selector_error + selector_key" where
  "predict_selector_key d =
     (case dt_metadata d of
        None \<Rightarrow> Inl MissingMetadata
      | Some metadata \<Rightarrow> selector_of_fields metadata ''interval_secs'' ''price_feed_symbol'' ''title_asset'')"

fun collect_selectors :: "custom_spec list \<Rightarrow> selector_key list \<Rightarrow> selector_error + selector_key list" where
  "collect_selectors [] keys = Inr keys"
| "collect_selectors (s # ss) keys =
     (if dt_type_name (cd_data_type s) \<noteq> predict_type then collect_selectors ss keys
      else case predict_selector_key (cd_data_type s) of
        Inl e \<Rightarrow> Inl e
      | Inr k \<Rightarrow> collect_selectors ss (btree_extend keys [k]))"

definition predict_selector_keys :: "('i, 'b) capture_plan \<Rightarrow> selector_error + selector_key list" where
  "predict_selector_keys plan = collect_selectors (pl_custom_data plan) []"

definition predict_output_selector_key :: "data_type \<Rightarrow> selector_error + selector_key option" where
  "predict_output_selector_key d =
     (if dt_type_name d \<noteq> snapshot_type then Inr None
      else case dt_metadata d of
        None \<Rightarrow> Inr None
      | Some metadata \<Rightarrow>
         if \<not> list_ex (\<lambda>key. key \<in> fst ` set metadata) [feed_key, asset_key, interval_key] then Inr None
         else map_sum (\<lambda>e. e) Some (selector_of_fields metadata interval_key feed_key asset_key))"

definition needs_generic_custom_data_writer :: "('i, 'b) capture_plan \<Rightarrow> bool" where
  "needs_generic_custom_data_writer plan = (pl_custom_data_requests plan \<noteq> []
     \<or> list_ex (\<lambda>s. dt_type_name (cd_data_type s) \<noteq> predict_type) (pl_custom_data plan))"

definition predict_dynamic_output_data_type :: "selector_key \<Rightarrow> data_type" where
  "predict_dynamic_output_data_type k = \<lparr>dt_type_name = snapshot_type,
     dt_metadata = Some [(feed_key, JString (price_feed_symbol k)), (asset_key, JString (title_asset k)),
       (interval_key, JString (show_nat (interval_secs k)))],
     dt_identifier = None\<rparr>"

subsection \<open>What is emitted for a selector comes back to it\<close>

lemma filter_id_iff: "(\<And>x. x \<in> set xs \<Longrightarrow> p x) \<Longrightarrow> filter p xs = xs"
  by (induction xs) auto

definition upper_char :: "char \<Rightarrow> char" where
  "upper_char c = (let n = of_char c :: nat in if 97 \<le> n \<and> n \<le> 122 then char_of (n - 32) else c)"

definition lower_char :: "char \<Rightarrow> char" where
  "lower_char c = (let n = of_char c :: nat in if 65 \<le> n \<and> n \<le> 90 then char_of (n + 32) else c)"

lemma ascii_upper_map: "ascii_upper s = map upper_char s"
  by (simp add: ascii_upper_def upper_char_def [abs_def])

lemma ascii_lower_map: "ascii_lower s = map lower_char s"
  by (simp add: ascii_lower_def lower_char_def [abs_def])

lemma upper_code: "(of_char (upper_char c) :: nat) = (if 97 \<le> (of_char c :: nat) \<and> (of_char c :: nat) \<le> 122 then of_char c - 32 else of_char c)"
  by (auto simp: upper_char_def Let_def)

lemma lower_code: "(of_char (lower_char c) :: nat) = (if 65 \<le> (of_char c :: nat) \<and> (of_char c :: nat) \<le> 90 then of_char c + 32 else of_char c)"
  by (auto simp: lower_char_def Let_def)

lemma char_code_eq: "(of_char c :: nat) = of_char d \<Longrightarrow> c = d"
  by (metis char_of_char)

lemma upper_alnum: "is_alnum c \<Longrightarrow> is_alnum (upper_char c)"
  by (auto simp: is_alnum_def upper_code Let_def)

lemma upper_idem: "upper_char (upper_char c) = upper_char c"
  by (rule char_code_eq) (auto simp: upper_code)

lemma lower_idem: "lower_char (lower_char c) = lower_char c"
  by (rule char_code_eq) (auto simp: lower_code)

lemma lower_space: "is_space (lower_char c) = is_space c"
  by (simp add: is_space_def lower_code Let_def)

lemma normalize_idem: "normalize_price_feed_symbol (normalize_price_feed_symbol s) = normalize_price_feed_symbol s"
proof -
  have "filter is_alnum (map upper_char (filter is_alnum s)) = map upper_char (filter is_alnum s)"
    by (rule filter_id_iff) (auto intro: upper_alnum)
  then show ?thesis by (simp add: normalize_price_feed_symbol_def ascii_upper_map upper_idem)
qed

lemma alnum_not_space: "is_alnum c \<Longrightarrow> \<not> is_space c"
  by (auto simp: is_alnum_def is_space_def Let_def)

lemma trim_idem: "trim (trim s) = trim s"
proof -
  let ?d = "dropWhile is_space s"
  let ?t = "dropWhile is_space (rev ?d)"
  have front: "?t = [] \<or> \<not> is_space (hd ?t)" using hd_dropWhile by blast
  have "?t = [] \<or> \<not> is_space (last ?t)"
  proof (cases "?t = []")
    case False
    then obtain c where c: "c \<in> set (rev ?d)" "\<not> is_space c" by (auto simp: dropWhile_eq_Nil_conv)
    then have "last ?t = last (rev ?d)" by (rule dropWhile_last)
    also have "\<dots> = hd ?d" using c by (cases ?d) simp_all
    also have "\<not> is_space \<dots>" using hd_dropWhile [of is_space s] c by fastforce
    finally show ?thesis by simp
  qed simp
  then have "dropWhile is_space (rev ?t) = rev ?t" by (simp add: dropWhile_eq_self_iff hd_rev)
  moreover have "dropWhile is_space ?t = ?t" using front by (simp add: dropWhile_eq_self_iff)
  ultimately show ?thesis by (simp add: trim_def)
qed

lemma trim_none: "(\<And>c. c \<in> set s \<Longrightarrow> \<not> is_space c) \<Longrightarrow> trim s = s"
proof -
  assume free: "\<And>c. c \<in> set s \<Longrightarrow> \<not> is_space c"
  have "dropWhile is_space xs = xs" if "\<And>c. c \<in> set xs \<Longrightarrow> \<not> is_space c" for xs
    using that by (cases xs) simp_all
  from this [of s] this [of "rev s"] free show ?thesis by (simp add: trim_def)
qed

lemma trim_lower: "trim (ascii_lower s) = ascii_lower (trim s)"
  by (simp add: trim_def ascii_lower_map dropWhile_map comp_def lower_space rev_map)

lemma new_canonical:
  assumes "selector_key_new feed asset secs = Inr k"
  shows "selector_key_new (price_feed_symbol k) (title_asset k) (interval_secs k) = Inr k
    \<and> trim (price_feed_symbol k) = price_feed_symbol k \<and> price_feed_symbol k \<noteq> []
    \<and> trim (title_asset k) = title_asset k \<and> title_asset k \<noteq> [] \<and> interval_secs k = secs"
proof -
  have k: "k = SelectorKey (normalize_price_feed_symbol feed) (ascii_lower (trim asset)) secs"
    and ne: "normalize_price_feed_symbol feed \<noteq> []" "ascii_lower (trim asset) \<noteq> []" "secs \<noteq> 0"
    using assms by (auto simp: selector_key_new_def Let_def split: if_splits)
  have "\<not> is_space c" if "c \<in> set (normalize_price_feed_symbol feed)" for c
    using that upper_alnum alnum_not_space by (auto simp: normalize_price_feed_symbol_def ascii_upper_map)
  then have feed: "trim (normalize_price_feed_symbol feed) = normalize_price_feed_symbol feed" by (rule trim_none)
  have asset: "trim (ascii_lower (trim asset)) = ascii_lower (trim asset)" by (simp add: trim_lower trim_idem)
  show ?thesis unfolding k using feed asset ne
    by (simp add: selector_key_new_def normalize_idem trim_lower trim_idem) (simp add: ascii_lower_map comp_def lower_idem)
qed

lemma digit_char_not_space: "d < 10 \<Longrightarrow> \<not> is_space (digit_char d)"
  by (auto simp: is_space_def digit_char_def Let_def)

lemma show_nat_no_space: "c \<in> set (show_nat n) \<Longrightarrow> \<not> is_space c"
proof (induction n rule: show_nat.induct)
  case (1 n)
  then show ?case by (cases "n < 10") (auto simp: show_nat.simps [of n] digit_char_not_space)
qed

lemma show_nat_trim: "trim (show_nat n) = show_nat n"
  using trim_none show_nat_no_space by blast

lemma digits_value: "foldl (\<lambda>a c. a * 10 + (of_char c - 48)) (0 :: nat) (show_nat n) = n"
proof (induction n rule: show_nat.induct)
  case (1 n)
  have "(of_char (digit_char d) :: nat) - 48 = d" if "d < 10" for d using that by (simp add: digit_char_def)
  then show ?case using 1 by (cases "n < 10") (simp_all add: show_nat.simps [of n])
qed

lemma show_nat_inject: "show_nat a = show_nat b \<longleftrightarrow> a = b"
  by (metis digits_value)

lemma key_names_distinct: "feed_key \<noteq> asset_key" "feed_key \<noteq> interval_key" "asset_key \<noteq> interval_key"
  by (simp_all add: feed_key_def asset_key_def interval_key_def)

lemma fields_of_output:
  assumes "selector_key_new feed asset secs = Inr k" "secs \<le> u64_max"
    and "map_of metadata feed_key = Some (JString (price_feed_symbol k))"
    and "map_of metadata asset_key = Some (JString (title_asset k))"
    and "map_of metadata interval_key = Some (JString (show_nat (interval_secs k)))"
  shows "selector_of_fields metadata interval_key feed_key asset_key = Inr k"
  using assms(2-) new_canonical [OF assms(1)]
  by (auto simp: selector_of_fields_def selector_field_def show_nat_trim show_nat_nonempty parse_show_u64)

text \<open>
  C40: a snapshot comes back to the selector it was emitted for. For every selector the actor
  accepts, a snapshot whose metadata extend the wildcard topic the actor subscribed to, with the
  market the adapter discovered as identifier, is routed to the writer of that selector; the
  topics of different selectors differ, so no snapshot reaches two writers.
\<close>

theorem selector_routing_roundtrip:
  assumes "selector_key_new feed asset secs = Inr k" "secs \<le> u64_max"
  shows "predict_output_selector_key ((predict_dynamic_output_data_type k)\<lparr>dt_identifier := Some market\<rparr>) = Inr (Some k)
    \<and> predict_dynamic_output_data_type j = predict_dynamic_output_data_type k = (j = k)"
proof
  let ?m = "[(feed_key, JString (price_feed_symbol k)), (asset_key, JString (title_asset k)),
      (interval_key, JString (show_nat (interval_secs k)))]"
  have "selector_of_fields ?m interval_key feed_key asset_key = Inr k"
    by (rule fields_of_output [OF assms]) (simp_all add: key_names_distinct key_names_distinct [symmetric])
  then show "predict_output_selector_key ((predict_dynamic_output_data_type k)\<lparr>dt_identifier := Some market\<rparr>) = Inr (Some k)"
    by (simp add: predict_output_selector_key_def predict_dynamic_output_data_type_def)
  show "predict_dynamic_output_data_type j = predict_dynamic_output_data_type k = (j = k)"
    by (cases j; cases k) (auto simp: predict_dynamic_output_data_type_def show_nat_inject)
qed

theorem selector_routing_roundtrip_witness:
  "predict_output_selector_key ((predict_dynamic_output_data_type (SelectorKey ''BTCUSDT'' ''bitcoin'' 300))\<lparr>dt_identifier := Some ''3044459''\<rparr>)
     = Inr (Some (SelectorKey ''BTCUSDT'' ''bitcoin'' 300))"
proof -
  have b: "char_of (98 :: nat) = CHR ''b''" by (simp add: char_of_def bit_Suc_0_iff)
  have "selector_key_new ''BTC/USDT'' '' Bitcoin'' 300 = Inr (SelectorKey ''BTCUSDT'' ''bitcoin'' 300)"
    by (simp add: selector_key_new_def normalize_price_feed_symbol_def is_alnum_def ascii_upper_def ascii_lower_def trim_def
        is_space_def b)
  then show ?thesis
    using selector_routing_roundtrip [of "''BTC/USDT''" "'' Bitcoin''" 300 "SelectorKey ''BTCUSDT'' ''bitcoin'' 300"]
    by (simp add: u64_max_def)
qed

end
