(* ===== verification/Actor.thy ===== *)
theory Actor
  imports Universe_Refresh Matched_State Predict_Selector
begin

section \<open>The capture actor: plan and streams\<close>

text \<open>
  The part of \<open>CatalogCaptureActor\<close> (\<open>actor/lifecycle.rs\<close>, \<open>actor_plan.rs\<close> and parts of
  \<open>actor/mod.rs\<close>, \<open>actor/submit.rs\<close>, \<open>actor_runtime.rs\<close> under
  \<open>crates/catalog-capture-runtime-adapter/src\<close>) that turns a capture plan into subscriptions: an
  instrument is bootstrapped first, its market data is subscribed only once its definition is in
  Nautilus's cache, and until then it is pending and asked for again with a growing delay.

  What the actor asks of Nautilus and of its writers is the list of commands \<open>ac_commands\<close>. A call
  that can fail consults \<open>ae_call\<close>, indexed by the number of such calls so far, so that every
  pattern of failures is covered; the clock is a function of the same number. Nautilus's cache is
  the map of the definitions it holds.
\<close>

subsection \<open>Streams and commands\<close>

datatype ('i, 'b) topic =
    MarkTopic 'i | IndexTopic 'i | FundingTopic 'i | StatusTopic 'i | CloseTopic 'i | GreeksTopic 'i
  | QuoteTopic 'i | TradeTopic 'i | BarTopic 'b | DepthTopic 'i | DeltasTopic 'i

fun topic_of :: "('i, 'b) capture_spec \<Rightarrow> ('i, 'b) topic option" where
  "topic_of (MarkPriceSpec s) = Some (MarkTopic (sp_instrument s))"
| "topic_of (IndexPriceSpec s) = Some (IndexTopic (sp_instrument s))"
| "topic_of (FundingRateSpec s) = Some (FundingTopic (sp_instrument s))"
| "topic_of (InstrumentStatusSpec s) = Some (StatusTopic (sp_instrument s))"
| "topic_of (InstrumentCloseSpec s) = Some (CloseTopic (sp_instrument s))"
| "topic_of (OptionGreeksSpec s) = Some (GreeksTopic (sp_instrument s))"
| "topic_of (QuoteSpec s) = Some (QuoteTopic (sp_instrument s))"
| "topic_of (TradeSpec s) = Some (TradeTopic (sp_instrument s))"
| "topic_of (BarSpec s) = Some (BarTopic (br_bar_type s))"
| "topic_of (BookDepthSpec s) = Some (DepthTopic (bs_instrument s))"
| "topic_of (BookDeltasSpec s) = Some (DeltasTopic (bs_instrument s))"
| "topic_of (InstrumentSpec s) = None"
| "topic_of (ForwardPriceSpec s) = None"
| "topic_of (CustomDataSpec s) = None"
| "topic_of (CustomRequestSpec s) = None"

text \<open>The forms in which a book message is recorded: as it came, or as a full image of the book.\<close>

datatype book_form = DeltaForm | SnapshotForm | CheckpointForm

datatype ('i, 'b) command =
    SubscribeMarket "('i, 'b) capture_spec" "string option"
  | UnsubscribeMarket "('i, 'b) capture_spec" "string option"
  | SubscribeData data_type "string option"
  | UnsubscribeData data_type "string option"
  | SubscribeInstruments string
  | UnsubscribeInstruments string
  | SubscribeInstrument 'i "string option"
  | RequestInstrument 'i "string option"
  | RequestInstruments string
  | SubmitDefinition "'i definition_record"
  | FlushFamily capture_flush_family
  | SealInstrument capture_flush_family 'i
  | SealBars 'b
  | SealData data_type
  | PurgeInstrument 'i
  | AppendRecords nat
  | AppendAudit string
  | RecordMarket "('i, 'b) topic"
  | RecordBook 'i book_form bool

text \<open>The families with instrument streams, in the order in which the code goes through them.\<close>

definition market_specs :: "('i, 'b) capture_plan \<Rightarrow> ('i, 'b) capture_spec list" where
  "market_specs p = map MarkPriceSpec (pl_mark_prices p) @ map IndexPriceSpec (pl_index_prices p)
     @ map FundingRateSpec (pl_funding_rates p) @ map InstrumentStatusSpec (pl_instrument_statuses p)
     @ map InstrumentCloseSpec (pl_instrument_closes p) @ map OptionGreeksSpec (pl_option_greeks p)
     @ map QuoteSpec (pl_quotes p) @ map TradeSpec (pl_trades p) @ map BarSpec (pl_bars p)
     @ map BookDepthSpec (pl_book_depth p) @ map BookDeltasSpec (pl_book_deltas p)"

definition stream_instrument :: "('b \<Rightarrow> 'i) \<Rightarrow> ('i, 'b) capture_spec \<Rightarrow> 'i option" where
  "stream_instrument bar_instrument s =
     (case s of BarSpec b \<Rightarrow> Some (bar_instrument (br_bar_type b)) | _ \<Rightarrow> spec_instrument s)"

text \<open>A depth of zero is no depth (\<open>NonZeroUsize::new\<close>).\<close>

definition nonzero_depth :: "'i book_spec \<Rightarrow> 'i book_spec" where
  "nonzero_depth s = s\<lparr>bs_depth := (case bs_depth s of Some 0 \<Rightarrow> None | d \<Rightarrow> d)\<rparr>"

fun subscribed_form :: "('i, 'b) capture_spec \<Rightarrow> ('i, 'b) capture_spec" where
  "subscribed_form (BookDepthSpec s) = BookDepthSpec (nonzero_depth s)"
| "subscribed_form (BookDeltasSpec s) = BookDeltasSpec (nonzero_depth s)"
| "subscribed_form s = s"

subsection \<open>The state\<close>

datatype actor_error =
    CallFailed | NoWriter | SelectorError selector_error | RecordError record_error | ActorPanic | ActorError string

record ('i, 'b, 'p, 'd) actor =
  ac_client_routes :: "('i \<times> string) list"
  ac_futures_client :: "string option"
  ac_initial_plan :: "('i, 'b) capture_plan"
  ac_supplemental_plan :: "('i, 'b) capture_plan"
  ac_plan :: "('i, 'b) capture_plan"
  ac_option_universe :: "('i, 'b, 'p) option_manager option"
  ac_hip4_universe :: "('i, 'b, 'd) hip4_manager option"
  ac_rolling :: "'i rolling_state"
  ac_lighter :: "'i lighter_state"
  ac_matched :: "'i matched_state"
  ac_inbox :: "'i inbox option"
  ac_forward_targets :: "'i list"
  ac_pending_definitions :: "'i list"
  ac_book_recovery :: "'i list"
  ac_pending :: "'i list"
  ac_live :: "'i list"
  ac_backoff_secs :: nat
  ac_cache :: "'i \<Rightarrow> 'i definition_record option"
  ac_timers :: "string \<Rightarrow> nat option"
  ac_failure :: "actor_error option"
  ac_commands :: "('i, 'b) command list"
  ac_calls :: nat

text \<open>
  The subscribers a stream has on the message bus, as the actor can count them; the last two
  counts can fail. The last two fields of the environment are conventions of the venue, which no
  operation reads: the instruments of the two sides of an outcome, and its asset.
\<close>

datatype subscriber_kind = DeltasCount | TradesCount | DepthCount | IndexCount | InstrumentCount | CustomCount

record ('i, 'b) actor_env =
  ae_call :: "nat \<Rightarrow> bool"
  ae_now :: "nat \<Rightarrow> nat"
  ae_request_id :: "nat \<Rightarrow> nat"
  ae_venue :: "'i \<Rightarrow> string"
  ae_symbol :: "'i \<Rightarrow> string"
  ae_bar_instrument :: "'b \<Rightarrow> 'i"
  ae_writer :: "capture_flush_family \<Rightarrow> bool"
  ae_count :: "nat \<Rightarrow> 'i \<Rightarrow> subscriber_kind \<Rightarrow> nat"
  ae_outcome_ids :: "nat \<Rightarrow> 'i list"
  ae_outcome_asset :: "nat \<Rightarrow> string"

type_synonym ('a, 's) outcome = "(actor_error + 'a) \<times> 's"

definition pending_timer :: string where "pending_timer = ''PENDING_MARKET_DATA''"
definition hip4_refresh_timer :: string where "hip4_refresh_timer = ''HIP4_UNIVERSE_REFRESH''"
definition backoff_start_secs :: nat where "backoff_start_secs = 1"
definition backoff_max_secs :: nat where "backoff_max_secs = 60"

text \<open>A sequence that stops at the first error, and a loop over such steps.\<close>

definition and_then :: "('a, 's) outcome \<Rightarrow> ('a \<Rightarrow> 's \<Rightarrow> ('c, 's) outcome) \<Rightarrow> ('c, 's) outcome" where
  "and_then m k = (case m of (Inl e, s) \<Rightarrow> (Inl e, s) | (Inr a, s) \<Rightarrow> k a s)"

fun each_ok :: "('a \<Rightarrow> 's \<Rightarrow> (unit, 's) outcome) \<Rightarrow> 'a list \<Rightarrow> 's \<Rightarrow> (unit, 's) outcome" where
  "each_ok f [] s = (Inr (), s)"
| "each_ok f (x # xs) s = and_then (f x s) (\<lambda>_ s. each_ok f xs s)"

definition emit :: "('i, 'b) command \<Rightarrow> ('i, 'b, 'p, 'd) actor \<Rightarrow> ('i, 'b, 'p, 'd) actor" where
  "emit c s = s\<lparr>ac_commands := ac_commands s @ [c]\<rparr>"

definition call_ok :: "('i, 'b) actor_env \<Rightarrow> ('i, 'b, 'p, 'd) actor \<Rightarrow> bool \<times> ('i, 'b, 'p, 'd) actor" where
  "call_ok env s = (ae_call env (ac_calls s), s\<lparr>ac_calls := Suc (ac_calls s)\<rparr>)"

definition call :: "('i, 'b) actor_env \<Rightarrow> ('i, 'b) command \<Rightarrow> ('i, 'b, 'p, 'd) actor \<Rightarrow> (unit, ('i, 'b, 'p, 'd) actor) outcome" where
  "call env c s = (case call_ok env s of
     (True, s1) \<Rightarrow> (Inr (), emit c s1)
   | (False, s1) \<Rightarrow> (Inl CallFailed, s1))"

definition read_clock :: "('i, 'b) actor_env \<Rightarrow> ('i, 'b, 'p, 'd) actor \<Rightarrow> nat \<times> ('i, 'b, 'p, 'd) actor" where
  "read_clock env s = (ae_now env (ac_calls s), s\<lparr>ac_calls := Suc (ac_calls s)\<rparr>)"

definition count_any ::
  "('i, 'b) actor_env \<Rightarrow> 'i \<Rightarrow> subscriber_kind \<Rightarrow> ('i, 'b, 'p, 'd) actor \<Rightarrow> (nat, ('i, 'b, 'p, 'd) actor) outcome" where
  "count_any env i kind s = (case call_ok env s of
     (True, s1) \<Rightarrow> (Inr (ae_count env (ac_calls s) i kind), s1)
   | (False, s1) \<Rightarrow> (Inl CallFailed, s1))"

text \<open>Whether nobody subscribes to the streams of the kinds nor to the instrument.\<close>

definition unowned ::
  "('i, 'b) actor_env \<Rightarrow> 'i \<Rightarrow> subscriber_kind list \<Rightarrow> ('i, 'b, 'p, 'd) actor \<Rightarrow> (bool, ('i, 'b, 'p, 'd) actor) outcome" where
  "unowned env i kinds s =
     (if list_ex (\<lambda>k. 0 < ae_count env (ac_calls s) i k) kinds then (Inr False, s)
      else and_then (count_any env i InstrumentCount s) (\<lambda>n s. (Inr (n = 0), s)))"

definition btree_remove :: "'a \<Rightarrow> 'a list \<Rightarrow> 'a list" where
  "btree_remove x xs = filter (\<lambda>y. y \<noteq> x) xs"

subsection \<open>Plan\<close>

definition supplemental_capture_plan ::
  "('i, 'b) capture_plan \<Rightarrow> ('i, 'b, 'p) option_config option \<Rightarrow> ('i, 'b, 'd) hip4_config option \<Rightarrow> ('i, 'b) capture_plan" where
  "supplemental_capture_plan initial options hip4 =
     (case (map_option (\<lambda>c. merge_capture_plans (og_static_plan c) (og_initial_dynamic_plan c)) options,
            map_option (\<lambda>c. merge_capture_plans (hg_static_plan c) (hg_initial_dynamic_plan c)) hip4) of
        (Some _, Some _) \<Rightarrow> empty_plan
      | (Some active, None) \<Rightarrow> capture_plan_difference initial active
      | (None, Some active) \<Rightarrow> capture_plan_difference initial active
      | (None, None) \<Rightarrow> empty_plan)"

definition effective_capture_plan ::
  "('i, 'b) capture_plan \<Rightarrow> ('i, 'b) capture_plan \<Rightarrow> ('i, 'b, 'p) option_manager option
   \<Rightarrow> ('i, 'b, 'd) hip4_manager option \<Rightarrow> ('i, 'b) capture_plan" where
  "effective_capture_plan initial supplemental options hip4 =
     (case (options, hip4) of
        (None, None) \<Rightarrow> initial
      | (Some ox, Some hx) \<Rightarrow> merge_capture_plans (option_active_plan ox) (hip4_active_plan hx)
      | (Some ox, None) \<Rightarrow> merge_capture_plans (option_active_plan ox) supplemental
      | (None, Some hx) \<Rightarrow> merge_capture_plans (hip4_active_plan hx) supplemental)"

definition actor_effective_plan :: "('i, 'b, 'p, 'd) actor \<Rightarrow> ('i, 'b) capture_plan" where
  "actor_effective_plan s =
     (let base = effective_capture_plan (ac_initial_plan s) (ac_supplemental_plan s) (ac_option_universe s) (ac_hip4_universe s);
          base = merge_capture_plans base (rolling_plan (ac_rolling s))
      in merge_capture_plans (merge_capture_plans base (lighter_plan (ac_lighter s))) (matched_plan (ac_matched s)))"

definition sync_plan_state :: "('i::linorder, 'b, 'p, 'd) actor \<Rightarrow> ('i, 'b, 'p, 'd) actor" where
  "sync_plan_state s =
     (let plan = actor_effective_plan s
      in s\<lparr>ac_forward_targets := btree_extend [] (map sp_instrument (pl_forward_prices plan)), ac_plan := plan\<rparr>)"

definition market_data_client_id :: "('i, 'b, 'p, 'd) actor \<Rightarrow> 'i \<Rightarrow> string option" where
  "market_data_client_id s i = map_of (ac_client_routes s) i"

definition static_client_id :: "data_type \<Rightarrow> string option" where
  "static_client_id d =
     (let name = dt_type_name d
      in if name = ''BinanceFuturesLiquidation'' \<or> name = ''BinanceFuturesTicker'' then Some ''BINANCE''
         else if name = ''DeribitVolatilityIndex'' then Some ''DERIBIT''
         else if name = ''HyperliquidOpenInterest'' then Some ''HYPERLIQUID''
         else if name = ''LighterOpenInterest'' then Some ''LIGHTER''
         else if name = ''PredictOrderbookSnapshot'' \<or> name = ''PredictCryptoUpDown'' then Some ''PREDICT''
         else None)"

definition data_client_id :: "('i, 'b, 'p, 'd) actor \<Rightarrow> data_type \<Rightarrow> string option" where
  "data_client_id s d =
     (let name = dt_type_name d
      in if name = ''BinanceFuturesLiquidation'' \<or> name = ''BinanceFuturesTicker'' then ac_futures_client s
         else static_client_id d)"

definition is_hip4_outcome :: "('i, 'b) actor_env \<Rightarrow> 'i \<Rightarrow> bool" where
  "is_hip4_outcome env i = (ae_venue env i = ''HYPERLIQUID'' \<and> ends_with ''-OUTCOME'' (ae_symbol env i))"

definition is_matched :: "('i, 'b, 'p, 'd) actor \<Rightarrow> 'i \<Rightarrow> bool" where
  "is_matched s i = (i \<in> set (matched_ids (ac_matched s)))"

subsection \<open>Definitions of instruments\<close>

definition record_capture_result :: "('a, ('i, 'b, 'p, 'd) actor) outcome \<Rightarrow> ('a, ('i, 'b, 'p, 'd) actor) outcome" where
  "record_capture_result m = (case m of
     (Inl e, s) \<Rightarrow> (Inl e, if ac_failure s = None then s\<lparr>ac_failure := Some e\<rparr> else s)
   | (Inr a, s) \<Rightarrow> (Inr a, s))"

definition optional_flush_all ::
  "('i, 'b) actor_env \<Rightarrow> capture_flush_family \<Rightarrow> ('i, 'b, 'p, 'd) actor \<Rightarrow> (unit, ('i, 'b, 'p, 'd) actor) outcome" where
  "optional_flush_all env family s = (if ae_writer env family then call env (FlushFamily family) s else (Inr (), s))"

definition planned :: "('i::linorder, 'b, 'p, 'd) actor \<Rightarrow> 'i \<Rightarrow> bool" where
  "planned s i = (i \<in> set (planned_instrument_ids (ac_plan s)))"

definition request_hip4_instruments ::
  "('i, 'b) actor_env \<Rightarrow> ('i, 'b, 'p, 'd) actor \<Rightarrow> (unit, ('i, 'b, 'p, 'd) actor) outcome" where
  "request_hip4_instruments env s =
     (let (now, s) = read_clock env s
      in if (case hv_instrument_request (ac_rolling s) of Some (_, deadline) \<Rightarrow> now < deadline | None \<Rightarrow> False)
         then (Inr (), s)
         else and_then (call env (RequestInstruments ''HYPERLIQUID'') s) (\<lambda>_ s.
           (Inr (), s\<lparr>ac_rolling := (ac_rolling s)\<lparr>hv_instrument_request :=
              Some (ae_request_id env (ac_calls s), sat_add now 90000000000)\<rparr>\<rparr>)))"

definition cache_definition ::
  "('i, 'b) actor_env \<Rightarrow> 'i definition_record \<Rightarrow> ('i, 'b, 'p, 'd) actor \<Rightarrow> (unit, ('i, 'b, 'p, 'd) actor) outcome" where
  "cache_definition env d s = (case call_ok env s of
     (True, s1) \<Rightarrow> (Inr (), s1\<lparr>ac_cache := (ac_cache s1)(nd_id d \<mapsto> d)\<rparr>)
   | (False, s1) \<Rightarrow> (Inl CallFailed, s1))"

definition definition_skipped :: "'i::linorder definition_record \<Rightarrow> bool \<Rightarrow> ('i, 'b, 'p, 'd) actor \<Rightarrow> bool" where
  "definition_skipped inst rolling s =
     (let i = nd_id inst; waiting = i \<in> set (ac_pending_definitions s)
      in (rolling \<and> i \<in> set (hv_definitions_recorded (ac_rolling s)) \<and> \<not> waiting)
         \<or> (map_of (ms_retiring (ac_matched s)) i \<noteq> None \<and> \<not> planned s i)
         \<or> (is_matched s i \<and> \<not> waiting
            \<and> (case map_of (ms_instrument_versions (ac_matched s)) i of Some v \<Rightarrow> nd_ts_init inst \<le> v | None \<Rightarrow> False)))"

definition definition_stored :: "'i::linorder definition_record \<Rightarrow> bool \<Rightarrow> ('i, 'b, 'p, 'd) actor \<Rightarrow> ('i, 'b, 'p, 'd) actor" where
  "definition_stored inst rolling s =
     (let i = nd_id inst;
          s1 = s\<lparr>ac_pending_definitions := btree_remove i (ac_pending_definitions s)\<rparr>;
          s2 = (if rolling then s1\<lparr>ac_rolling := (ac_rolling s1)\<lparr>hv_definitions_recorded :=
                  btree_extend (hv_definitions_recorded (ac_rolling s1)) [i]\<rparr>\<rparr> else s1)
      in if is_matched s i
         then s2\<lparr>ac_matched := (ac_matched s2)\<lparr>ms_instrument_versions :=
                btree_insert i (nd_ts_init inst) (ms_instrument_versions (ac_matched s2))\<rparr>\<rparr>
         else s2)"

definition submit_instrument ::
  "('i::linorder, 'b) actor_env \<Rightarrow> 'i definition_record \<Rightarrow> ('i, 'b, 'p, 'd) actor \<Rightarrow> (unit, ('i, 'b, 'p, 'd) actor) outcome" where
  "submit_instrument env instrument s =
     (let known = rolling_definition (ac_rolling s) (nd_id instrument);
          inst = (case known of Some d \<Rightarrow> d | None \<Rightarrow> instrument);
          rolling = known \<noteq> None
      in and_then (if rolling then cache_definition env inst s else (Inr (), s)) (\<lambda>_ s.
           if definition_skipped inst rolling s then (Inr (), s)
           else case (if ae_writer env Instruments then call env (SubmitDefinition inst) s else (Inl NoWriter, s)) of
             (Inl e, s1) \<Rightarrow> (Inl e, s1\<lparr>ac_pending_definitions := btree_extend (ac_pending_definitions s1) [nd_id inst]\<rparr>)
           | (Inr _, s1) \<Rightarrow> (Inr (), definition_stored inst rolling s1)))"

definition bootstrap_instrument ::
  "('i::linorder, 'b) actor_env \<Rightarrow> 'i \<Rightarrow> ('i, 'b, 'p, 'd) actor \<Rightarrow> (unit, ('i, 'b, 'p, 'd) actor) outcome" where
  "bootstrap_instrument env i s =
     (case ac_cache s i of
        Some inst \<Rightarrow> and_then (submit_instrument env inst s) (\<lambda>_ s.
          if is_hip4_outcome env i \<or> is_matched s i then optional_flush_all env Instruments s else (Inr (), s))
      | None \<Rightarrow>
         if rolling_definition (ac_rolling s) i \<noteq> None then request_hip4_instruments env s
         else let client = market_data_client_id s i
              in and_then (call env (RequestInstrument i client) s) (\<lambda>_ s.
                   if rolling_definition (ac_rolling s) i = None \<and> \<not> is_matched s i
                   then (Inr (), emit (SubscribeInstrument i client) s) else (Inr (), s)))"

definition bootstrap_instruments ::
  "('i::linorder, 'b) actor_env \<Rightarrow> ('i, 'b, 'p, 'd) actor \<Rightarrow> (unit, ('i, 'b, 'p, 'd) actor) outcome" where
  "bootstrap_instruments env s = each_ok (bootstrap_instrument env) (planned_instrument_ids (ac_plan s)) s"

subsection \<open>Ready, then subscribe\<close>

definition subscribe_market_data_for_instrument ::
  "('i::linorder, 'b) actor_env \<Rightarrow> 'i \<Rightarrow> ('i, 'b, 'p, 'd) actor \<Rightarrow> ('i, 'b, 'p, 'd) actor" where
  "subscribe_market_data_for_instrument env i s =
     (if i \<in> set (ac_live s) then s
      else let s1 = s\<lparr>ac_live := btree_extend (ac_live s) [i], ac_pending := btree_remove i (ac_pending s)\<rparr>
           in foldl (\<lambda>s spec. emit (SubscribeMarket (subscribed_form spec) (market_data_client_id s i)) s) s1
                (filter (\<lambda>spec. stream_instrument (ae_bar_instrument env) spec = Some i) (market_specs (ac_plan s1))))"

definition cancel_pending_timer :: "('i, 'b, 'p, 'd) actor \<Rightarrow> ('i, 'b, 'p, 'd) actor" where
  "cancel_pending_timer s = s\<lparr>ac_timers := (ac_timers s)(pending_timer := None)\<rparr>"

definition clamp_backoff :: "nat \<Rightarrow> nat" where
  "clamp_backoff n = max backoff_start_secs (min n backoff_max_secs)"

definition schedule_pending_market_data_retry ::
  "('i, 'b) actor_env \<Rightarrow> ('i, 'b, 'p, 'd) actor \<Rightarrow> ('i, 'b, 'p, 'd) actor" where
  "schedule_pending_market_data_retry env s =
     (let s = cancel_pending_timer s
      in if ac_pending s = [] then s\<lparr>ac_backoff_secs := backoff_start_secs\<rparr>
         else let (now, s) = read_clock env s;
                  fire_at = now + sat_mul (clamp_backoff (ac_backoff_secs s)) 1000000000
              in case call_ok env s of
                   (True, s1) \<Rightarrow> s1\<lparr>ac_timers := (ac_timers s1)(pending_timer := Some fire_at)\<rparr>
                 | (False, s1) \<Rightarrow> s1)"

definition admit_stream :: "('i::linorder, 'b) actor_env \<Rightarrow> 'i \<Rightarrow> bool \<times> ('i, 'b, 'p, 'd) actor \<Rightarrow> bool \<times> ('i, 'b, 'p, 'd) actor" where
  "admit_stream env i = (\<lambda>(deferred, s).
     if ac_cache s i \<noteq> None then (deferred, subscribe_market_data_for_instrument env i s)
     else (True, s\<lparr>ac_pending := btree_extend (ac_pending s) [i]\<rparr>))"

definition subscribe_plan ::
  "('i::linorder, 'b) actor_env \<Rightarrow> ('i, 'b) capture_plan \<Rightarrow> ('i, 'b, 'p, 'd) actor \<Rightarrow> (unit, ('i, 'b, 'p, 'd) actor) outcome" where
  "subscribe_plan env plan s =
     (let s1 = foldl (\<lambda>s c. emit (SubscribeData (cd_data_type c) (data_client_id s (cd_data_type c))) s) s (pl_custom_data plan)
      in case predict_selector_keys plan of
           Inl e \<Rightarrow> (Inl (SelectorError e), s1)
         | Inr keys \<Rightarrow>
            let s2 = foldl (\<lambda>s k. emit (SubscribeData (predict_dynamic_output_data_type k) None) s) s1 keys;
                s3 = (if keys \<noteq> [] then emit (SubscribeInstruments ''PREDICT'') s2 else s2);
                (deferred, s4) = foldl (\<lambda>ds i. admit_stream env i ds) (False, s3) (planned_instrument_ids plan)
            in (Inr (), if deferred then schedule_pending_market_data_retry env (s4\<lparr>ac_backoff_secs := backoff_start_secs\<rparr>)
                        else s4))"

fun retry_loop ::
  "('i::linorder, 'b) actor_env \<Rightarrow> 'i list \<Rightarrow> bool \<Rightarrow> ('i, 'b, 'p, 'd) actor \<Rightarrow> (bool, ('i, 'b, 'p, 'd) actor) outcome" where
  "retry_loop env [] waiting s = (Inr waiting, s)"
| "retry_loop env (i # is) waiting s =
     (if ac_cache s i \<noteq> None
      then and_then (if rolling_definition (ac_rolling s) i \<noteq> None \<or> is_matched s i then bootstrap_instrument env i s
                     else (Inr (), s))
             (\<lambda>_ s. retry_loop env is waiting (subscribe_market_data_for_instrument env i s))
      else retry_loop env is True (snd (bootstrap_instrument env i s)))"

definition retry_pending_market_data ::
  "('i::linorder, 'b) actor_env \<Rightarrow> ('i, 'b, 'p, 'd) actor \<Rightarrow> (unit, ('i, 'b, 'p, 'd) actor) outcome" where
  "retry_pending_market_data env s =
     (if ac_pending s = [] then (Inr (), (cancel_pending_timer s)\<lparr>ac_backoff_secs := backoff_start_secs\<rparr>)
      else and_then (retry_loop env (ac_pending s) False s) (\<lambda>waiting s.
        if waiting
        then (Inr (), schedule_pending_market_data_retry env
               (s\<lparr>ac_backoff_secs := clamp_backoff (sat_mul (ac_backoff_secs s) 2)\<rparr>))
        else (Inr (), cancel_pending_timer (s\<lparr>ac_backoff_secs := backoff_start_secs\<rparr>))))"

definition unsubscribe_plan :: "('i::linorder, 'b) actor_env \<Rightarrow> ('i, 'b) capture_plan \<Rightarrow> ('i, 'b, 'p, 'd) actor \<Rightarrow> ('i, 'b, 'p, 'd) actor" where
  "unsubscribe_plan env plan s =
     (let s1 = foldl (\<lambda>s c. emit (UnsubscribeData (cd_data_type c) (static_client_id (cd_data_type c))) s) s (pl_custom_data plan);
          keys = (case predict_selector_keys plan of Inl _ \<Rightarrow> [] | Inr ks \<Rightarrow> ks);
          s2 = foldl (\<lambda>s k. emit (UnsubscribeData (predict_dynamic_output_data_type k) None) s) s1 keys;
          s3 = (if keys \<noteq> [] then emit (UnsubscribeInstruments ''PREDICT'') s2 else s2)
      in foldl (\<lambda>s spec. emit (UnsubscribeMarket spec
              (case stream_instrument (ae_bar_instrument env) spec of Some i \<Rightarrow> market_data_client_id s i | None \<Rightarrow> None)) s)
           s3 (market_specs plan))"

subsection \<open>Changing the plan\<close>

definition forget_instrument_runtime_state :: "'i \<Rightarrow> ('i, 'b, 'p, 'd) actor \<Rightarrow> ('i, 'b, 'p, 'd) actor" where
  "forget_instrument_runtime_state i s =
     (let s1 = s\<lparr>ac_book_recovery := btree_remove i (ac_book_recovery s),
                 ac_pending_definitions := btree_remove i (ac_pending_definitions s),
                 ac_pending := btree_remove i (ac_pending s), ac_live := btree_remove i (ac_live s)\<rparr>
      in if ac_pending s1 = [] then cancel_pending_timer (s1\<lparr>ac_backoff_secs := backoff_start_secs\<rparr>) else s1)"

definition purge_instrument_from_cache :: "'i \<Rightarrow> ('i, 'b, 'p, 'd) actor \<Rightarrow> ('i, 'b, 'p, 'd) actor" where
  "purge_instrument_from_cache i s =
     (let s1 = forget_instrument_runtime_state i s
      in emit (PurgeInstrument i) (s1\<lparr>ac_cache := (ac_cache s1)(i := None)\<rparr>))"

definition seal_commands :: "('i, 'b) actor_env \<Rightarrow> ('i, 'b) capture_plan \<Rightarrow> ('i, 'b) command list" where
  "seal_commands env remove =
     concat (map (\<lambda>(family, ids). if ae_writer env family then map (SealInstrument family) (filter (is_hip4_outcome env) ids) else [])
       [(Quotes, map sp_instrument (pl_quotes remove)), (Trades, map sp_instrument (pl_trades remove)),
        (BookDeltas, map bs_instrument (pl_book_deltas remove)), (MarkPrices, map sp_instrument (pl_mark_prices remove)),
        (IndexPrices, map sp_instrument (pl_index_prices remove)), (FundingRates, map sp_instrument (pl_funding_rates remove)),
        (InstrumentStatus, map sp_instrument (pl_instrument_statuses remove)),
        (InstrumentClose, map sp_instrument (pl_instrument_closes remove)),
        (OptionGreeks, map sp_instrument (pl_option_greeks remove))])
     @ (if ae_writer env Bars
        then map SealBars (filter (\<lambda>b. is_hip4_outcome env (ae_bar_instrument env b)) (map br_bar_type (pl_bars remove))) else [])"

definition seal_removed_hip4_partitions ::
  "('i, 'b) actor_env \<Rightarrow> ('i, 'b) capture_plan \<Rightarrow> ('i, 'b, 'p, 'd) actor \<Rightarrow> (unit, ('i, 'b, 'p, 'd) actor) outcome" where
  "seal_removed_hip4_partitions env remove s =
     (if ac_hip4_universe s = None then (Inr (), s) else each_ok (call env) (seal_commands env remove) s)"

definition apply_subscription_delta ::
  "('i::linorder, 'b) actor_env \<Rightarrow> ('i, 'b) capture_plan \<Rightarrow> ('i, 'b) capture_plan \<Rightarrow> ('i, 'b, 'p, 'd) actor
   \<Rightarrow> (unit, ('i, 'b, 'p, 'd) actor) outcome" where
  "apply_subscription_delta env add remove s =
     and_then (seal_removed_hip4_partitions env remove (unsubscribe_plan env remove s)) (\<lambda>_ s.
       let next_plan = (if ac_hip4_universe s \<noteq> None \<or> ac_option_universe s \<noteq> None then actor_effective_plan s
                        else merge_capture_plans (capture_plan_difference (ac_plan s) remove) add);
           s = foldl (\<lambda>s i. if i \<in> set (planned_instrument_ids next_plan) then s else forget_instrument_runtime_state i s)
                 s (planned_instrument_ids remove)
       in and_then (each_ok (bootstrap_instrument env) (planned_instrument_ids add) s) (\<lambda>_ s.
            subscribe_plan env add (sync_plan_state s)))"

text \<open>What is recorded of a callback: in the rolling and matched modes only what is live and planned.\<close>

definition accepts_market_data :: "('i, 'b) actor_env \<Rightarrow> 'i \<Rightarrow> bool \<Rightarrow> ('i, 'b, 'p, 'd) actor \<Rightarrow> bool" where
  "accepts_market_data env i configured s =
     (if ac_inbox s \<noteq> None \<and> ae_venue env i \<in> {''PREDICT'', ''POLYMARKET''} then i \<in> set (ac_live s) \<and> configured
      else if lighter_enabled (ac_lighter s) \<and> ae_venue env i = ''LIGHTER'' then i \<in> set (ac_live s) \<and> configured
      else (ac_hip4_universe s = None \<and> hv_config (ac_rolling s) = None) \<or> \<not> is_hip4_outcome env i
        \<or> (i \<in> set (ac_live s) \<and> configured))"

definition on_instrument ::
  "('i::linorder, 'b) actor_env \<Rightarrow> 'i definition_record \<Rightarrow> ('i, 'b, 'p, 'd) actor \<Rightarrow> (unit, ('i, 'b, 'p, 'd) actor) outcome" where
  "on_instrument env inst s =
     (let i = nd_id inst
      in if hv_config (ac_rolling s) \<noteq> None \<and> is_hip4_outcome env i \<and> \<not> planned s i then (Inr (), s)
         else and_then (record_capture_result (submit_instrument env inst s)) (\<lambda>_ s.
           if i \<in> set (ac_pending s) \<or> (planned s i \<and> i \<notin> set (ac_live s))
           then and_then (if is_hip4_outcome env i \<or> is_matched s i then optional_flush_all env Instruments s else (Inr (), s))
             (\<lambda>_ s. let s = subscribe_market_data_for_instrument env i s
                    in (Inr (), if ac_pending s = [] then cancel_pending_timer (s\<lparr>ac_backoff_secs := backoff_start_secs\<rparr>) else s))
           else (Inr (), s)))"

definition purge_removed ::
  "bool \<Rightarrow> ('i::linorder option \<times> 'i list) list \<Rightarrow> ('i, 'b, 'p, 'd) actor \<Rightarrow> ('i, 'b, 'p, 'd) actor" where
  "purge_removed enabled changes s =
     (if \<not> enabled then s
      else let to_purge = btree_extend [] (concat (map (\<lambda>(perp, ids). filter (\<lambda>i. Some i \<noteq> perp) ids) changes));
               still_active = planned_instrument_ids (ac_plan s)
           in foldl (\<lambda>s i. if i \<in> set still_active then s else purge_instrument_from_cache i s) s to_purge)"

end
