(* ===== verification/Actor_Streams.thy ===== *)
theory Actor_Streams
  imports Actor Plan_Algebra
begin

section \<open>The streams of the actor\<close>

text \<open>
  What the commands of the actor have left open on the message bus, and the invariant that ties it
  to the plan: every open stream is a stream of the plan, it belongs to an instrument that counts
  as live, a live instrument has its definition in the cache, and none is live and pending.
  \<open>quiet\<close> relates states between which no stream has changed; it holds across everything that only
  asks for or stores definitions.
\<close>

subsection \<open>Open streams\<close>

definition topic_step :: "('i, 'b) topic set \<Rightarrow> ('i, 'b) command \<Rightarrow> ('i, 'b) topic set" where
  "topic_step ts c = (case c of
       SubscribeMarket spec _ \<Rightarrow> ts \<union> set_option (topic_of spec)
     | UnsubscribeMarket spec _ \<Rightarrow> ts - set_option (topic_of spec)
     | _ \<Rightarrow> ts)"

definition open_topics :: "('i, 'b, 'p, 'd) actor \<Rightarrow> ('i, 'b) topic set" where
  "open_topics s = foldl topic_step {} (ac_commands s)"

definition plan_topics :: "('i, 'b) capture_plan \<Rightarrow> ('i, 'b) topic set" where
  "plan_topics p = {t. \<exists>spec \<in> set (market_specs p). topic_of spec = Some t}"

text \<open>The instrument of a stream; a bar type has the instrument the environment gives it.\<close>

fun topic_instrument :: "('b \<Rightarrow> 'i) \<Rightarrow> ('i, 'b) topic \<Rightarrow> 'i" where
  "topic_instrument f (MarkTopic i) = i"
| "topic_instrument f (IndexTopic i) = i"
| "topic_instrument f (FundingTopic i) = i"
| "topic_instrument f (StatusTopic i) = i"
| "topic_instrument f (CloseTopic i) = i"
| "topic_instrument f (GreeksTopic i) = i"
| "topic_instrument f (QuoteTopic i) = i"
| "topic_instrument f (TradeTopic i) = i"
| "topic_instrument f (BarTopic b) = f b"
| "topic_instrument f (DepthTopic i) = i"
| "topic_instrument f (DeltasTopic i) = i"

fun bar_topic :: "('i, 'b) topic \<Rightarrow> bool" where
  "bar_topic (BarTopic b) = True"
| "bar_topic _ = False"

definition streams_ok :: "('i, 'b) actor_env \<Rightarrow> ('i, 'b, 'p, 'd) actor \<Rightarrow> bool" where
  "streams_ok env s \<longleftrightarrow> open_topics s \<subseteq> plan_topics (ac_plan s)
     \<and> (\<forall>t \<in> open_topics s. \<not> bar_topic t \<longrightarrow> topic_instrument (ae_bar_instrument env) t \<in> set (ac_live s))
     \<and> set (ac_live s) \<subseteq> dom (ac_cache s)
     \<and> set (ac_live s) \<inter> set (ac_pending s) = {}"

lemma topic_of_form [simp]: "topic_of (subscribed_form spec) = topic_of spec"
  by (cases spec rule: subscribed_form.cases) (simp_all add: nonzero_depth_def)

lemma market_specs_iff: "spec \<in> set (market_specs p) \<longleftrightarrow> spec \<in> plan_specs p \<and> topic_of spec \<noteq> None"
  by (cases spec) (simp_all add: plan_specs_iff market_specs_def image_iff)

lemma plan_topics_specs: "plan_topics p = {t. \<exists>spec \<in> plan_specs p. topic_of spec = Some t}"
  by (auto simp: plan_topics_def market_specs_iff)

lemma spec_topic_instrument:
  assumes "topic_of spec = Some t"
  shows "stream_instrument f spec = Some (topic_instrument f t)"
    and "\<not> bar_topic t \<Longrightarrow> spec_instrument spec = Some (topic_instrument f t)"
  using assms by (cases spec; auto simp: stream_instrument_def)+

lemma planned_topic:
  "t \<in> plan_topics p \<Longrightarrow> \<not> bar_topic t \<Longrightarrow> topic_instrument f t \<in> set (planned_instrument_ids p)"
  by (auto simp: plan_topics_specs planned_iff_spec dest: spec_topic_instrument)

lemma open_topics_emit [simp]:
  "open_topics (emit c s) = topic_step (open_topics s) c"
  by (simp add: open_topics_def emit_def)

subsection \<open>Steps that leave the streams alone\<close>

definition stream_core where
  "stream_core s = (open_topics s, ac_plan s, ac_live s, ac_pending s, ac_timers s, ac_backoff_secs s,
     (ac_inbox s, ac_hip4_universe s, ac_option_universe s, ac_initial_plan s, ac_supplemental_plan s, ac_lighter s),
     (hv_config (ac_rolling s), hv_markets (ac_rolling s), hv_series (ac_rolling s), hv_ready (ac_rolling s),
      hv_retiring (ac_rolling s), hv_discovery (ac_rolling s), hv_next_discovery_ns (ac_rolling s)),
     (ac_matched s)\<lparr>ms_instrument_versions := []\<rparr>)"

definition quiet :: "('i, 'b, 'p, 'd) actor \<Rightarrow> ('i, 'b, 'p, 'd) actor \<Rightarrow> bool" where
  "quiet s s' \<longleftrightarrow> stream_core s' = stream_core s \<and> dom (ac_cache s) \<subseteq> dom (ac_cache s')"

lemma quiet_refl [simp]: "quiet s s"
  by (simp add: quiet_def)

lemma quiet_trans: "quiet s s' \<Longrightarrow> quiet s' s'' \<Longrightarrow> quiet s s''"
  by (auto simp: quiet_def)

lemma quietD:
  assumes "quiet s s'"
  shows "open_topics s' = open_topics s" "ac_plan s' = ac_plan s" "ac_live s' = ac_live s" "ac_pending s' = ac_pending s"
    "ac_timers s' = ac_timers s" "ac_backoff_secs s' = ac_backoff_secs s"
    "ac_hip4_universe s' = ac_hip4_universe s" "ac_option_universe s' = ac_option_universe s"
    "hv_markets (ac_rolling s') = hv_markets (ac_rolling s)"
    "ms_markets (ac_matched s') = ms_markets (ac_matched s)"
    "dom (ac_cache s) \<subseteq> dom (ac_cache s')"
  using assms by (simp_all add: quiet_def stream_core_def) (cases "ac_matched s"; cases "ac_matched s'"; simp)

lemma quiet_ids:
  assumes "quiet s s'"
  shows "actor_effective_plan s' = actor_effective_plan s" "is_matched s' = is_matched s"
    "rolling_definition (ac_rolling s') = rolling_definition (ac_rolling s)"
proof -
  note q = quietD [OF assms]
  have i: "ac_initial_plan s' = ac_initial_plan s" "ac_supplemental_plan s' = ac_supplemental_plan s"
    "ac_lighter s' = ac_lighter s"
    using assms by (simp_all add: quiet_def stream_core_def)
  show "actor_effective_plan s' = actor_effective_plan s"
    by (simp add: actor_effective_plan_def rolling_plan_def matched_plan_def q i)
  show "is_matched s' = is_matched s" by (intro ext) (simp add: is_matched_def matched_ids_def q)
  show "rolling_definition (ac_rolling s') = rolling_definition (ac_rolling s)"
    by (intro ext) (simp add: rolling_definition_def q)
qed

text \<open>A command that opens or closes no market stream.\<close>

definition market_command :: "('i, 'b) command \<Rightarrow> bool" where
  "market_command c = (case c of SubscribeMarket _ _ \<Rightarrow> True | UnsubscribeMarket _ _ \<Rightarrow> True | _ \<Rightarrow> False)"

lemma topic_step_other [simp]: "\<not> market_command c \<Longrightarrow> topic_step ts c = ts"
  by (cases c) (simp_all add: topic_step_def market_command_def)

lemma market_command_simps [simp]:
  "\<not> market_command (SubscribeData d c)" "\<not> market_command (UnsubscribeData d c)" "\<not> market_command (SubscribeInstruments v)"
  "\<not> market_command (UnsubscribeInstruments v)" "\<not> market_command (SubscribeInstrument i c)"
  "\<not> market_command (RequestInstrument i c)" "\<not> market_command (RequestInstruments v)"
  "\<not> market_command (SubmitDefinition inst)" "\<not> market_command (FlushFamily f)" "\<not> market_command (SealInstrument f i)"
  "\<not> market_command (SealBars b)" "\<not> market_command (SealData d)" "\<not> market_command (PurgeInstrument i)"
  "\<not> market_command (AppendRecords n)" "\<not> market_command (AppendAudit a)"
  "\<not> market_command (RecordMarket t)" "\<not> market_command (RecordBook i form sealed)"
  by (simp_all add: market_command_def)

lemma open_topics_cong: "ac_commands s' = ac_commands s \<Longrightarrow> open_topics s' = open_topics s"
  by (simp add: open_topics_def)

lemma quiet_emit: "\<not> market_command c \<Longrightarrow> quiet s (emit c s)"
  by (simp add: quiet_def stream_core_def) (simp add: emit_def)

lemma quiet_calls [simp]: "quiet s (s\<lparr>ac_calls := n\<rparr>)"
  by (simp add: quiet_def stream_core_def open_topics_def)

lemma quiet_call: "\<not> market_command c \<Longrightarrow> quiet s (snd (call env c s))"
  by (cases "ae_call env (ac_calls s)") (auto simp: call_def call_ok_def intro: quiet_trans [OF quiet_calls quiet_emit])

lemma quiet_and_then:
  "quiet s (snd m) \<Longrightarrow> (\<And>a s'. quiet s' (snd (k a s'))) \<Longrightarrow> quiet s (snd (and_then m k))"
  by (cases m) (auto simp: and_then_def split: sum.split intro: quiet_trans)

lemma quiet_each_ok: "(\<And>x s. quiet s (snd (f x s))) \<Longrightarrow> quiet s (snd (each_ok f xs s))"
  by (induction f xs s rule: each_ok.induct) (simp_all add: quiet_and_then)

lemma quiet_flush: "quiet s (snd (optional_flush_all env family s))"
  by (simp add: optional_flush_all_def quiet_call)

lemma quiet_clock: "quiet s (snd (read_clock env s))"
  by (simp add: read_clock_def)

lemma quiet_record_result: "quiet s (snd m) \<Longrightarrow> quiet s (snd (record_capture_result m))"
proof -
  assume "quiet s (snd m)"
  moreover have "quiet s1 (s1\<lparr>ac_failure := e\<rparr>)" for s1 :: "('a, 'b, 'c, 'd) actor" and e
    by (simp add: quiet_def stream_core_def open_topics_def)
  ultimately show ?thesis
    by (cases m) (auto simp: record_capture_result_def split: sum.split intro: quiet_trans)
qed

lemma quiet_cache_definition: "quiet s (snd (cache_definition env d s))"
  by (cases "ae_call env (ac_calls s)")
    (auto simp: cache_definition_def call_ok_def quiet_def stream_core_def open_topics_def)

lemma quiet_request_hip4: "quiet s (snd (request_hip4_instruments env s))"
proof -
  have r: "quiet s1 (s1\<lparr>ac_rolling := (ac_rolling s1)\<lparr>hv_instrument_request := x\<rparr>\<rparr>)" for s1 x
    by (simp add: quiet_def stream_core_def open_topics_def)
  obtain now s1 where c: "read_clock env s = (now, s1)" by fastforce
  have q: "quiet s s1" using quiet_clock [of s env] c by simp
  have "quiet s1 (snd (and_then (call env (RequestInstruments ''HYPERLIQUID'') s1) (\<lambda>_ s.
      (Inr (), s\<lparr>ac_rolling := (ac_rolling s)\<lparr>hv_instrument_request := f s\<rparr>\<rparr>))))" for f
    by (intro quiet_and_then quiet_call) (simp_all add: r)
  then show ?thesis
    using quiet_trans [OF q] q by (simp add: request_hip4_instruments_def c)
qed

lemma quiet_definition_stored: "quiet s (definition_stored inst rolling s)"
  by (simp add: definition_stored_def quiet_def stream_core_def open_topics_def Let_def is_matched_def)

lemma quiet_case:
  "quiet s (snd m) \<Longrightarrow> (\<And>e s'. quiet s' (f e s')) \<Longrightarrow> (\<And>s'. quiet s' (g s'))
   \<Longrightarrow> quiet s (snd (case m of (Inl e, s1) \<Rightarrow> (Inl e, f e s1) | (Inr _, s1) \<Rightarrow> (Inr (), g s1)))"
  by (cases m) (auto split: sum.split intro: quiet_trans)

lemma quiet_submit_instrument: "quiet s (snd (submit_instrument env inst s))"
proof -
  have p: "quiet s1 (s1\<lparr>ac_pending_definitions := x\<rparr>)" for s1 x
    by (simp add: quiet_def stream_core_def open_topics_def)
  have c: "quiet s1 (snd (if b then call env (SubmitDefinition d) s1 else (Inl e, s1)))" for s1 b d e
    by (simp add: quiet_call)
  have c': "quiet s1 (snd (if b then cache_definition env d s1 else (Inr (), s1)))" for s1 b d
    by (simp add: quiet_cache_definition)
  show ?thesis
    unfolding submit_instrument_def Let_def
    by (intro quiet_and_then c') (simp add: quiet_case [OF c] p quiet_definition_stored)
qed

lemma quiet_bootstrap: "quiet s (snd (bootstrap_instrument env i s))"
proof -
  have 1: "quiet s1 (snd (call env (RequestInstrument i c) s1))" for s1 c by (simp add: quiet_call)
  show ?thesis
    by (auto simp: bootstrap_instrument_def quiet_request_hip4 Let_def quiet_emit split: option.split
        intro!: quiet_and_then quiet_submit_instrument quiet_flush 1)
qed

lemmas quiet_steps = quiet_bootstrap quiet_submit_instrument quiet_flush quiet_each_ok [OF quiet_bootstrap] quiet_clock

subsection \<open>Opening and closing\<close>

lemma set_btree_extend [simp]: "set (btree_extend xs ys) = set xs \<union> set ys"
proof -
  have "set (foldl (\<lambda>s x. if x \<in> set s then s else insort x s) xs ys) = set xs \<union> set ys"
    by (induction ys arbitrary: xs) (auto simp: set_insort_key)
  then show ?thesis by (simp add: btree_extend_def)
qed

lemma set_btree_remove [simp]: "set (btree_remove x xs) = set xs - {x}"
  by (auto simp: btree_remove_def)

lemma btree_remove_empty [simp]: "btree_remove x xs = [] \<longleftrightarrow> set xs \<subseteq> {x}"
  by (auto simp: btree_remove_def filter_empty_conv)

definition emits :: "('i, 'b, 'p, 'd) actor \<Rightarrow> ('i, 'b, 'p, 'd) actor \<Rightarrow> bool" where
  "emits s s' \<longleftrightarrow> s' = s\<lparr>ac_commands := ac_commands s'\<rparr>"

lemma emits_refl [simp]: "emits s s"
  by (simp add: emits_def)

lemma emits_trans: "emits s s' \<Longrightarrow> emits s' s'' \<Longrightarrow> emits s s''"
  by (cases s; cases s'; cases s'') (simp add: emits_def)

lemma emits_emit [simp]: "emits s (emit c s)"
  by (simp add: emits_def emit_def)

lemma emits_only:
  "emits s (foldl (\<lambda>s x. emit (c x s) s) s xs)"
  by (induction xs arbitrary: s) (auto intro: emits_trans [OF emits_emit])

lemma opened_by:
  "open_topics (foldl (\<lambda>s x. emit (SubscribeMarket (subscribed_form x) (c x s)) s) s xs)
     = open_topics s \<union> {t. \<exists>x \<in> set xs. topic_of x = Some t}"
  by (induction xs arbitrary: s) (auto simp: topic_step_def)

lemma closed_by:
  "open_topics (foldl (\<lambda>s x. emit (UnsubscribeMarket x (c x s)) s) s xs)
     = open_topics s - {t. \<exists>x \<in> set xs. topic_of x = Some t}"
  by (induction xs arbitrary: s) (auto simp: topic_step_def)

lemma other_emits:
  "(\<And>x s. \<not> market_command (c x s)) \<Longrightarrow> open_topics (foldl (\<lambda>s x. emit (c x s) s) s xs) = open_topics s"
  by (induction xs arbitrary: s) simp_all

lemma subscribe_effect:
  "subscribe_market_data_for_instrument env i s =
     (if i \<in> set (ac_live s) then s
      else let s' = subscribe_market_data_for_instrument env i s
           in s\<lparr>ac_live := btree_extend (ac_live s) [i], ac_pending := btree_remove i (ac_pending s), ac_commands := ac_commands s'\<rparr>)"
proof (cases "i \<in> set (ac_live s)")
  case False
  let ?s1 = "s\<lparr>ac_live := btree_extend (ac_live s) [i], ac_pending := btree_remove i (ac_pending s)\<rparr>"
  have "emits ?s1 (subscribe_market_data_for_instrument env i s)"
    using False by (simp add: subscribe_market_data_for_instrument_def Let_def emits_only)
  then show ?thesis using False by (simp add: emits_def Let_def)
qed (simp add: subscribe_market_data_for_instrument_def)

lemma subscribe_opens:
  "open_topics (subscribe_market_data_for_instrument env i s) =
     (if i \<in> set (ac_live s) then open_topics s
      else open_topics s \<union> {t \<in> plan_topics (ac_plan s). topic_instrument (ae_bar_instrument env) t = i})"
proof -
  have f: "{t. \<exists>x \<in> set (filter (\<lambda>spec. stream_instrument (ae_bar_instrument env) spec = Some i) (market_specs p)). topic_of x = Some t}
      = {t \<in> plan_topics p. topic_instrument (ae_bar_instrument env) t = i}" for p
    using spec_topic_instrument(1) [where f="ae_bar_instrument env"] by (auto simp: plan_topics_def)
  show ?thesis
    by (simp add: subscribe_market_data_for_instrument_def Let_def opened_by f del: set_filter)
       (simp add: open_topics_def)
qed

lemma unsubscribe_effect:
  "emits s (unsubscribe_plan env p s)"
  "open_topics (unsubscribe_plan env p s) = open_topics s - plan_topics p"
proof -
  define keys where "keys = (case predict_selector_keys p of Inl _ \<Rightarrow> [] | Inr ks \<Rightarrow> ks)"
  define s1 where "s1 = foldl (\<lambda>s c. emit (UnsubscribeData (cd_data_type c) (static_client_id (cd_data_type c))) s) s (pl_custom_data p)"
  define s2 where "s2 = foldl (\<lambda>s k. emit (UnsubscribeData (predict_dynamic_output_data_type k) None) s) s1 keys"
  define s3 where "s3 = (if keys \<noteq> [] then emit (UnsubscribeInstruments ''PREDICT'') s2 else s2)"
  let ?c = "\<lambda>spec s. UnsubscribeMarket spec
    (case stream_instrument (ae_bar_instrument env) spec of Some i \<Rightarrow> market_data_client_id s i | None \<Rightarrow> None)"
  have u: "unsubscribe_plan env p s = foldl (\<lambda>s spec. emit (?c spec s) s) s3 (market_specs p)"
    by (simp add: unsubscribe_plan_def Let_def s1_def s2_def s3_def keys_def)
  have "emits s s1" "emits s1 s2" by (simp_all add: s1_def s2_def emits_only)
  moreover have "emits s2 s3" by (simp add: s3_def)
  moreover have "emits s3 (unsubscribe_plan env p s)" by (simp add: u emits_only)
  ultimately show "emits s (unsubscribe_plan env p s)" by (blast intro: emits_trans)
  have "open_topics s3 = open_topics s" by (simp add: s3_def s2_def s1_def other_emits)
  then show "open_topics (unsubscribe_plan env p s) = open_topics s - plan_topics p"
    unfolding u by (simp add: closed_by plan_topics_def)
qed

subsection \<open>The invariant is kept\<close>

lemma streams_ok_quiet:
  assumes "quiet s s'" "streams_ok env s"
  shows "streams_ok env s'"
  using assms(2) quietD(11) [OF assms(1)] unfolding streams_ok_def quietD(1-4) [OF assms(1)] by blast

text \<open>What opening and closing leave alone: everything but the commands and the bookkeeping of the streams.\<close>

definition owned_core where
  "owned_core s = ((hv_config (ac_rolling s), hv_markets (ac_rolling s), hv_series (ac_rolling s)),
     (lw_configs (ac_lighter s), lw_markets (ac_lighter s)),
     (ms_markets (ac_matched s), ms_active (ac_matched s), ms_preparing (ac_matched s), ms_universe (ac_matched s)))"

definition steady :: "('i, 'b, 'p, 'd) actor \<Rightarrow> ('i, 'b, 'p, 'd) actor \<Rightarrow> bool" where
  "steady s s' \<longleftrightarrow> ac_plan s' = ac_plan s \<and> actor_effective_plan s' = actor_effective_plan s
     \<and> ac_inbox s' = ac_inbox s \<and> ac_hip4_universe s' = ac_hip4_universe s \<and> ac_option_universe s' = ac_option_universe s
     \<and> (\<forall>i. rolling_definition (ac_rolling s') i = rolling_definition (ac_rolling s) i) \<and> is_matched s' = is_matched s
     \<and> owned_core s' = owned_core s \<and> dom (ac_cache s) \<subseteq> dom (ac_cache s')"

lemma steady_refl [simp]: "steady s s"
  by (simp add: steady_def)

lemma steady_core: "steady s s' \<Longrightarrow> owned_core s' = owned_core s"
  by (simp add: steady_def)

lemma steady_trans: "steady s s' \<Longrightarrow> steady s' s'' \<Longrightarrow> steady s s''"
  unfolding steady_def by (elim conjE, intro conjI; metis subset_trans)

lemma quiet_steady: "quiet s s' \<Longrightarrow> steady s s'"
proof -
  assume q: "quiet s s'"
  have "ac_inbox s' = ac_inbox s" using q by (simp add: quiet_def stream_core_def)
  moreover have "owned_core s' = owned_core s"
    using q by (simp add: quiet_def stream_core_def owned_core_def) (cases "ac_matched s"; cases "ac_matched s'"; simp)
  ultimately show ?thesis using quietD [OF q] quiet_ids [OF q] by (simp add: steady_def)
qed

lemma steady_update:
  "steady s (s\<lparr>ac_live := l, ac_pending := p, ac_commands := cs\<rparr>)"
  "steady s (s\<lparr>ac_timers := t\<rparr>)" "steady s (s\<lparr>ac_backoff_secs := n\<rparr>)" "steady s (s\<lparr>ac_pending := p\<rparr>)"
  "steady s (s\<lparr>ac_commands := cs\<rparr>)"
  by (simp_all add: steady_def actor_effective_plan_def is_matched_def fun_eq_iff owned_core_def)

lemma steady_subscribe: "steady s (subscribe_market_data_for_instrument env i s)"
  by (subst subscribe_effect) (simp add: Let_def steady_update)

lemma subscribe_fields:
  "set (ac_live (subscribe_market_data_for_instrument env i s)) = insert i (set (ac_live s))"
  "set (ac_pending (subscribe_market_data_for_instrument env i s))
     = (if i \<in> set (ac_live s) then set (ac_pending s) else set (ac_pending s) - {i})"
  "ac_cache (subscribe_market_data_for_instrument env i s) = ac_cache s"
  "ac_plan (subscribe_market_data_for_instrument env i s) = ac_plan s"
  "ac_timers (subscribe_market_data_for_instrument env i s) = ac_timers s"
  by (subst subscribe_effect, simp add: Let_def insert_absorb)+

lemma streams_ok_subscribe:
  assumes "streams_ok env s" "ac_cache s i \<noteq> None"
  shows "streams_ok env (subscribe_market_data_for_instrument env i s)"
  using assms by (auto simp: streams_ok_def subscribe_fields subscribe_opens)

lemma streams_ok_update:
  "streams_ok env (s\<lparr>ac_timers := t\<rparr>) = streams_ok env s" "streams_ok env (s\<lparr>ac_backoff_secs := n\<rparr>) = streams_ok env s"
  "streams_ok env (s\<lparr>ac_calls := n\<rparr>) = streams_ok env s" "streams_ok env (s\<lparr>ac_rolling := h\<rparr>) = streams_ok env s"
  "streams_ok env (s\<lparr>ac_matched := m\<rparr>) = streams_ok env s" "streams_ok env (s\<lparr>ac_lighter := l\<rparr>) = streams_ok env s"
  "streams_ok env (s\<lparr>ac_inbox := b\<rparr>) = streams_ok env s" "streams_ok env (s\<lparr>ac_hip4_universe := x\<rparr>) = streams_ok env s"
  by (simp_all add: streams_ok_def open_topics_def)

lemma streams_ok_emit: "\<not> market_command c \<Longrightarrow> streams_ok env (emit c s) = streams_ok env s"
  by (simp add: streams_ok_def) (simp add: emit_def)

lemma schedule_retry_effect:
  "streams_ok env (schedule_pending_market_data_retry env s) = streams_ok env s"
  "steady s (schedule_pending_market_data_retry env s)"
  "ac_live (schedule_pending_market_data_retry env s) = ac_live s"
  "ac_pending (schedule_pending_market_data_retry env s) = ac_pending s"
  "ac_cache (schedule_pending_market_data_retry env s) = ac_cache s"
  by (auto simp: schedule_pending_market_data_retry_def cancel_pending_timer_def read_clock_def call_ok_def Let_def
      streams_ok_update steady_def actor_effective_plan_def is_matched_def fun_eq_iff owned_core_def split: bool.split)

definition tracked :: "('i, 'b, 'p, 'd) actor \<Rightarrow> 'i set" where
  "tracked s = set (ac_live s) \<union> set (ac_pending s)"

definition armed :: "('i, 'b, 'p, 'd) actor \<Rightarrow> bool" where
  "armed s \<longleftrightarrow> ac_pending s = [] \<or> ac_timers s pending_timer \<noteq> None"

text \<open>A step that loses no instrument: what was live stays live, what was tracked stays tracked.\<close>

definition advance :: "('i, 'b, 'p, 'd) actor \<Rightarrow> ('i, 'b, 'p, 'd) actor \<Rightarrow> bool" where
  "advance s s' \<longleftrightarrow> steady s s' \<and> ac_timers s' = ac_timers s \<and> tracked s \<subseteq> tracked s' \<and> set (ac_live s) \<subseteq> set (ac_live s')"

lemma advance_refl [simp]: "advance s s"
  by (simp add: advance_def)

lemma advance_trans: "advance s s' \<Longrightarrow> advance s' s'' \<Longrightarrow> advance s s''"
  unfolding advance_def by (elim conjE, intro conjI; metis subset_trans steady_trans)

lemma advance_subscribe: "advance s (subscribe_market_data_for_instrument env i s)"
  by (auto simp: advance_def steady_subscribe subscribe_fields tracked_def)

lemma admit_stream_ok:
  assumes "streams_ok env s" "admit_stream env i (d, s) = (d', s')"
  shows "streams_ok env s' \<and> advance s s' \<and> ac_cache s' = ac_cache s \<and> i \<in> tracked s'
    \<and> (d' \<or> set (ac_pending s') \<subseteq> set (ac_pending s)) \<and> (d \<longrightarrow> d')"
proof (cases "ac_cache s i = None")
  case True
  then have "s' = s\<lparr>ac_pending := btree_extend (ac_pending s) [i]\<rparr>" "d'"
    using assms(2) by (auto simp: admit_stream_def)
  moreover have "i \<notin> set (ac_live s)" using True assms(1) by (auto simp: streams_ok_def)
  ultimately show ?thesis
    using assms(1) by (auto simp: streams_ok_def advance_def steady_update open_topics_def tracked_def)
next
  case False
  then have "s' = subscribe_market_data_for_instrument env i s" "d' = d"
    using assms(2) by (auto simp: admit_stream_def)
  then show ?thesis
    using streams_ok_subscribe [OF assms(1) False] advance_subscribe by (auto simp: subscribe_fields tracked_def)
qed

lemma admit_streams_ok:
  assumes "streams_ok env s" "foldl (\<lambda>ds i. admit_stream env i ds) (d, s) is = (d', s')"
  shows "streams_ok env s' \<and> advance s s' \<and> ac_cache s' = ac_cache s \<and> set is \<subseteq> tracked s'
    \<and> (d' \<or> set (ac_pending s') \<subseteq> set (ac_pending s)) \<and> (d \<longrightarrow> d')"
  using assms
proof (induction "is" arbitrary: d s)
  case Nil
  then show ?case by simp
next
  case (Cons i "is")
  obtain d1 s1 where a: "admit_stream env i (d, s) = (d1, s1)" by fastforce
  note one = admit_stream_ok [OF Cons.prems(1) a]
  then have ok: "streams_ok env s1" by simp
  have "foldl (\<lambda>ds i. admit_stream env i ds) (d1, s1) is = (d', s')" using Cons.prems(2) a by simp
  note rest = Cons.IH [OF ok this]
  have "advance s s'" using one rest by (blast intro: advance_trans)
  moreover have "i \<in> tracked s'" using one rest by (auto simp: advance_def)
  moreover have "d' \<or> set (ac_pending s') \<subseteq> set (ac_pending s)" "d \<longrightarrow> d'" using one rest by blast+
  ultimately show ?case using one rest by simp
qed

lemma quiet_tracked: "quiet s s' \<Longrightarrow> tracked s' = tracked s \<and> armed s' = armed s"
  by (simp add: tracked_def armed_def quietD)

lemma emits_fields:
  assumes "emits s s'"
  shows "steady s s'" "tracked s' = tracked s" "armed s' = armed s" "ac_cache s' = ac_cache s" "ac_live s' = ac_live s"
    "ac_pending s' = ac_pending s" "ac_timers s' = ac_timers s" "ac_plan s' = ac_plan s"
    "actor_effective_plan s' = actor_effective_plan s"
proof -
  obtain cs where s': "s' = s\<lparr>ac_commands := cs\<rparr>" using assms by (auto simp: emits_def)
  show "steady s s'" by (simp add: s' steady_update)
  then show "actor_effective_plan s' = actor_effective_plan s" by (simp add: steady_def)
qed (use assms in \<open>cases s, cases s', simp add: emits_def tracked_def armed_def\<close>)+

lemma emits_ok: "emits s s' \<Longrightarrow> open_topics s' = open_topics s \<Longrightarrow> streams_ok env s' = streams_ok env s"
  by (simp add: streams_ok_def emits_fields)

lemma armed_schedule:
  "(\<forall>n. ae_call env n) \<Longrightarrow> armed (schedule_pending_market_data_retry env s)"
  by (auto simp: armed_def schedule_pending_market_data_retry_def cancel_pending_timer_def read_clock_def call_ok_def Let_def)

lemma armed_fewer:
  "armed s \<Longrightarrow> ac_timers s' = ac_timers s \<Longrightarrow> set (ac_pending s') \<subseteq> set (ac_pending s) \<Longrightarrow> armed s'"
  by (auto simp: armed_def)

lemma subscribe_plan_ok:
  fixes p :: "('i::linorder, 'b) capture_plan"
  assumes ok: "streams_ok env s"
  defines "s' \<equiv> snd (subscribe_plan env p s)"
  shows "streams_ok env s' \<and> steady s s' \<and> ac_cache s' = ac_cache s \<and> tracked s \<subseteq> tracked s'
    \<and> set (ac_live s) \<subseteq> set (ac_live s')
    \<and> (isl (fst (subscribe_plan env p s)) \<or> set (planned_instrument_ids p) \<subseteq> tracked s')
    \<and> ((\<forall>n. ae_call env n) \<longrightarrow> armed s \<longrightarrow> armed s')"
proof -
  define s1 where "s1 = foldl (\<lambda>s c. emit (SubscribeData (cd_data_type c) (data_client_id s (cd_data_type c))) s) s (pl_custom_data p)"
  have e1: "emits s s1" "open_topics s1 = open_topics s" by (simp_all add: s1_def emits_only other_emits)
  show ?thesis
  proof (cases "predict_selector_keys p")
    case (Inl e)
    then show ?thesis using ok e1 by (simp add: s'_def subscribe_plan_def s1_def [symmetric] emits_fields emits_ok)
  next
    case (Inr keys)
    define s2 where "s2 = foldl (\<lambda>s k. emit (SubscribeData (predict_dynamic_output_data_type k) None) s) s1 keys"
    define s3 where "s3 = (if keys \<noteq> [] then emit (SubscribeInstruments ''PREDICT'') s2 else s2)"
    have "emits s1 s2" "open_topics s2 = open_topics s1" "emits s2 s3" "open_topics s3 = open_topics s2"
      by (simp_all add: s2_def s3_def emits_only other_emits)
    with e1 have e3: "emits s s3" and o3: "open_topics s3 = open_topics s" by (auto intro: emits_trans)
    have ok3: "streams_ok env s3" using ok emits_ok [OF e3 o3] by simp
    obtain d s4 where f: "foldl (\<lambda>ds i. admit_stream env i ds) (False, s3) (planned_instrument_ids p) = (d, s4)" by fastforce
    note adm = admit_streams_ok [OF ok3 f]
    define s5 where "s5 = (if d then schedule_pending_market_data_retry env (s4\<lparr>ac_backoff_secs := backoff_start_secs\<rparr>) else s4)"
    have r: "subscribe_plan env p s = (Inr (), s5)"
      by (simp add: subscribe_plan_def Inr s1_def [symmetric] s2_def [symmetric] s3_def [symmetric] s5_def f)
    have "steady s s4" using emits_fields(1) [OF e3] adm by (auto simp: advance_def intro: steady_trans)
    moreover have "steady s4 s5"
      by (auto simp: s5_def intro: steady_trans [OF steady_update(3) schedule_retry_effect(2)])
    ultimately have st: "steady s s5" by (rule steady_trans)
    have tr: "tracked s5 = tracked s4" "ac_live s5 = ac_live s4"
      by (simp_all add: s5_def tracked_def schedule_retry_effect)
    have ar: "armed s5" if c: "\<forall>n. ae_call env n" and a: "armed s"
    proof (cases d)
      case True
      then show ?thesis using armed_schedule [OF c] by (simp add: s5_def)
    next
      case False
      then show ?thesis
        using armed_fewer [of s s4] a adm emits_fields(6,7) [OF e3] by (simp add: s5_def advance_def)
    qed
    have "streams_ok env s5" "ac_cache s5 = ac_cache s"
      using adm emits_fields(4) [OF e3] by (simp_all add: s5_def schedule_retry_effect streams_ok_update)
    then show ?thesis
      using st tr ar adm emits_fields(2,5) [OF e3] unfolding s'_def r by (simp add: advance_def)
  qed
qed

lemma steady_admit: "steady s (snd (foldl (\<lambda>ds i. admit_stream env i ds) (d, s) is))"
proof (induction "is" arbitrary: d s)
  case (Cons i "is")
  obtain d1 s1 where a: "admit_stream env i (d, s) = (d1, s1)" by fastforce
  then have "steady s s1" by (auto simp: admit_stream_def steady_subscribe steady_update split: if_splits)
  then show ?case using Cons.IH [of s1 d1] steady_trans by (simp add: a)
qed simp

lemma steady_subscribe_plan: "steady s (snd (subscribe_plan env p s))"
proof -
  define s1 where "s1 = foldl (\<lambda>s c. emit (SubscribeData (cd_data_type c) (data_client_id s (cd_data_type c))) s) s (pl_custom_data p)"
  have e1: "emits s s1" by (simp add: s1_def emits_only)
  show ?thesis
  proof (cases "predict_selector_keys p")
    case (Inl e)
    then show ?thesis using emits_fields(1) [OF e1] by (simp add: subscribe_plan_def s1_def [symmetric])
  next
    case (Inr keys)
    define s2 where "s2 = foldl (\<lambda>s k. emit (SubscribeData (predict_dynamic_output_data_type k) None) s) s1 keys"
    define s3 where "s3 = (if keys \<noteq> [] then emit (SubscribeInstruments ''PREDICT'') s2 else s2)"
    obtain d s4 where f: "foldl (\<lambda>ds i. admit_stream env i ds) (False, s3) (planned_instrument_ids p) = (d, s4)" by fastforce
    have "emits s1 s2" "emits s2 s3" by (simp_all add: s2_def s3_def emits_only)
    then have "emits s s3" using e1 by (blast intro: emits_trans)
    then have "steady s s3" by (rule emits_fields)
    moreover have "steady s3 s4" using steady_admit [of s3 env False "planned_instrument_ids p"] f by simp
    ultimately have st: "steady s s4" by (rule steady_trans)
    have "steady s4 (schedule_pending_market_data_retry env (s4\<lparr>ac_backoff_secs := backoff_start_secs\<rparr>))"
      by (rule steady_trans [OF steady_update(3) schedule_retry_effect(2)])
    then show ?thesis using st steady_trans
      by (auto simp: subscribe_plan_def Inr s1_def [symmetric] s2_def [symmetric] s3_def [symmetric] f)
  qed
qed

lemma quiet_advance: "quiet s s' \<Longrightarrow> advance s s'"
  by (simp add: advance_def quiet_steady quietD tracked_def)

lemma retry_loop_ok:
  assumes "streams_ok env s"
  shows "streams_ok env (snd (retry_loop env is w s)) \<and> advance s (snd (retry_loop env is w s))
    \<and> set (ac_pending (snd (retry_loop env is w s))) \<subseteq> set (ac_pending s)
    \<and> (case fst (retry_loop env is w s) of Inl _ \<Rightarrow> True
       | Inr w' \<Rightarrow> w' \<or> (\<not> w \<and> set is \<subseteq> set (ac_live (snd (retry_loop env is w s)))))"
  using assms
proof (induction "is" arbitrary: w s)
  case Nil
  then show ?case by simp
next
  case (Cons i "is")
  have step: ?case
    if e: "retry_loop env (i # is) w s = retry_loop env is w1 s1" and ok: "streams_ok env s1" and adv: "advance s s1"
      and pend: "set (ac_pending s1) \<subseteq> set (ac_pending s)" and w1: "w1 \<or> (\<not> w \<and> i \<in> set (ac_live s1))" for w1 s1
  proof -
    note ih = Cons.IH [OF ok, of w1]
    have a: "advance s (snd (retry_loop env is w1 s1))" using adv ih by (blast intro: advance_trans)
    have "set (ac_live s1) \<subseteq> set (ac_live (snd (retry_loop env is w1 s1)))" using ih by (simp add: advance_def)
    then show ?thesis using ih a pend w1 unfolding e by (auto split: sum.splits)
  qed
  show ?case
  proof (cases "ac_cache s i = None")
    case True
    let ?s = "snd (bootstrap_instrument env i s)"
    have q: "quiet s ?s" by (rule quiet_bootstrap)
    show ?thesis
      by (rule step [of True ?s])
        (use True streams_ok_quiet [OF q Cons.prems] quiet_advance [OF q] quietD [OF q] in simp_all)
  next
    case False
    define m where "m = (if rolling_definition (ac_rolling s) i \<noteq> None \<or> is_matched s i then bootstrap_instrument env i s
                     else (Inr (), s))"
    have q: "quiet s (snd m)" by (simp add: m_def quiet_bootstrap)
    have unf: "retry_loop env (i # is) w s
        = and_then m (\<lambda>_ s. retry_loop env is w (subscribe_market_data_for_instrument env i s))"
      using False unfolding m_def by simp
    note ok = streams_ok_quiet [OF q Cons.prems]
    show ?thesis
    proof (cases "fst m")
      case (Inl e)
      then have "retry_loop env (i # is) w s = (Inl e, snd m)"
        unfolding unf by (cases m) (simp add: and_then_def)
      then show ?thesis using ok quiet_advance [OF q] quietD [OF q] by simp
    next
      case (Inr u)
      let ?s = "subscribe_market_data_for_instrument env i (snd m)"
      have c: "ac_cache (snd m) i \<noteq> None" using False quietD(11) [OF q] by blast
      show ?thesis
      proof (rule step [of w ?s])
        show "retry_loop env (i # is) w s = retry_loop env is w ?s"
          unfolding unf using Inr by (cases m) (simp add: and_then_def)
        show "streams_ok env ?s" by (rule streams_ok_subscribe [OF ok c])
        show "advance s ?s" using quiet_advance [OF q] advance_subscribe by (rule advance_trans)
        show "set (ac_pending ?s) \<subseteq> set (ac_pending s)" by (auto simp: subscribe_fields quietD [OF q])
        show "w \<or> \<not> w \<and> i \<in> set (ac_live ?s)" by (simp add: subscribe_fields)
      qed
    qed
  qed
qed

text \<open>When calls succeed and the writer of definitions runs, no step of the bootstrap fails.\<close>

definition calls_ok :: "('i, 'b) actor_env \<Rightarrow> bool" where
  "calls_ok env \<longleftrightarrow> (\<forall>n. ae_call env n) \<and> ae_writer env Instruments"

lemma and_then_Inr: "fst m = Inr a \<Longrightarrow> and_then m k = k a (snd m)"
  by (cases m) (simp add: and_then_def)

lemma call_succeeds: "calls_ok env \<Longrightarrow> fst (call env c s) = Inr ()"
  by (simp add: calls_ok_def call_def call_ok_def)

lemma submit_succeeds: "calls_ok env \<Longrightarrow> fst (submit_instrument env inst s) = Inr ()"
  by (auto simp: calls_ok_def submit_instrument_def cache_definition_def call_ok_def call_def and_then_def Let_def)

lemma flush_succeeds: "calls_ok env \<Longrightarrow> fst (optional_flush_all env family s) = Inr ()"
  by (simp add: optional_flush_all_def call_succeeds)

lemma bootstrap_succeeds: "calls_ok env \<Longrightarrow> fst (bootstrap_instrument env i s) = Inr ()"
  by (auto simp: bootstrap_instrument_def and_then_Inr submit_succeeds flush_succeeds call_succeeds
      request_hip4_instruments_def Let_def read_clock_def split: option.split)

lemma each_succeeds: "(\<And>x s. fst (f x s) = Inr ()) \<Longrightarrow> fst (each_ok f xs s) = Inr ()"
  by (induction xs arbitrary: s) (simp_all add: and_then_Inr)

lemma retry_loop_succeeds: "calls_ok env \<Longrightarrow> \<exists>w'. fst (retry_loop env is w s) = Inr w'"
proof (induction "is" arbitrary: w s)
  case (Cons i "is")
  have "fst (if rolling_definition (ac_rolling s) i \<noteq> None \<or> is_matched s i then bootstrap_instrument env i s
             else (Inr (), s)) = Inr ()"
    by (simp add: bootstrap_succeeds [OF Cons.prems])
  then show ?case using Cons.IH [OF Cons.prems] by (simp only: retry_loop.simps and_then_Inr) simp
qed simp

lemma retry_pending_ok:
  fixes s :: "('i::linorder, 'b, 'p, 'd) actor"
  assumes ok: "streams_ok env s"
  defines "s' \<equiv> snd (retry_pending_market_data env s)"
  shows "streams_ok env s' \<and> steady s s' \<and> tracked s \<subseteq> tracked s' \<and> set (ac_live s) \<subseteq> set (ac_live s')
    \<and> (calls_ok env \<longrightarrow> armed s')"
proof (cases "ac_pending s = []")
  case True
  then have "s' = s\<lparr>ac_timers := (ac_timers s)(pending_timer := None), ac_backoff_secs := backoff_start_secs\<rparr>"
    by (simp add: s'_def retry_pending_market_data_def cancel_pending_timer_def)
  then show ?thesis
    using ok True steady_trans [OF steady_update(2) steady_update(3)]
    by (simp add: streams_ok_update tracked_def armed_def)
next
  case False
  define m where "m = retry_loop env (ac_pending s) False s"
  note l = retry_loop_ok [OF ok, of "ac_pending s" False, folded m_def]
  have frame: ?thesis if e: "streams_ok env s'" "steady (snd m) s'" "tracked s' = tracked (snd m)" "ac_live s' = ac_live (snd m)"
      and a: "calls_ok env \<longrightarrow> armed s'"
    using e a l by (auto simp: advance_def intro: steady_trans)
  show ?thesis
  proof (cases "fst m")
    case (Inl e)
    then have "s' = snd m" using False
      by (cases m) (simp add: s'_def retry_pending_market_data_def m_def [symmetric] and_then_def)
    then show ?thesis using l Inl retry_loop_succeeds [of env "ac_pending s" False s]
      by (intro frame) (auto simp: m_def)
  next
    case (Inr w)
    show ?thesis
    proof (cases w)
      case True
      then have "s' = schedule_pending_market_data_retry env
          ((snd m)\<lparr>ac_backoff_secs := clamp_backoff (sat_mul (ac_backoff_secs (snd m)) 2)\<rparr>)"
        using False Inr by (simp add: s'_def retry_pending_market_data_def m_def [symmetric] and_then_Inr)
      then show ?thesis
        using l steady_trans [OF steady_update(3) schedule_retry_effect(2)]
        by (intro frame) (simp_all add: schedule_retry_effect streams_ok_update tracked_def calls_ok_def armed_schedule)
    next
      case wF: False
      then have s': "s' = (snd m)\<lparr>ac_backoff_secs := backoff_start_secs, ac_timers := (ac_timers (snd m))(pending_timer := None)\<rparr>"
        using False Inr by (simp add: s'_def retry_pending_market_data_def m_def [symmetric] and_then_Inr cancel_pending_timer_def)
      have "set (ac_pending s) \<subseteq> set (ac_live (snd m))" "set (ac_live (snd m)) \<inter> set (ac_pending (snd m)) = {}"
        using l Inr wF by (simp_all add: streams_ok_def)
      moreover have "set (ac_pending (snd m)) \<subseteq> set (ac_pending s)" using l by simp
      ultimately have "\<not> x \<in> set (ac_pending (snd m))" for x by (meson disjoint_iff subsetD)
      then have "ac_pending (snd m) = []" by (cases "ac_pending (snd m)") auto
      then show ?thesis
        using l steady_trans [OF steady_update(3) steady_update(2)]
        by (intro frame) (simp_all add: s' streams_ok_update tracked_def armed_def)
    qed
  qed
qed

lemma on_instrument_ok:
  fixes s :: "('i::linorder, 'b, 'p, 'd) actor"
  assumes ok: "streams_ok env s" and c: "ac_cache s (nd_id inst) \<noteq> None"
  defines "s' \<equiv> snd (on_instrument env inst s)"
  shows "streams_ok env s' \<and> steady s s' \<and> tracked s \<subseteq> tracked s' \<and> set (ac_live s) \<subseteq> set (ac_live s')
    \<and> (armed s \<longrightarrow> armed s')"
proof -
  let ?i = "nd_id inst"
  have finish: ?thesis if "quiet s s'"
    using that streams_ok_quiet [OF that ok] quiet_steady [OF that] quiet_tracked [OF that] quietD [OF that] by simp
  define m where "m = record_capture_result (submit_instrument env inst s)"
  have qm: "quiet s (snd m)" by (simp add: m_def quiet_record_result quiet_submit_instrument)
  consider (skip) "hv_config (ac_rolling s) \<noteq> None \<and> is_hip4_outcome env ?i \<and> \<not> planned s ?i"
    | (go) "\<not> (hv_config (ac_rolling s) \<noteq> None \<and> is_hip4_outcome env ?i \<and> \<not> planned s ?i)" by blast
  then show ?thesis
  proof cases
    case skip
    then show ?thesis using finish by (simp add: s'_def on_instrument_def Let_def)
  next
    case go
    have s': "s' = snd (and_then m (\<lambda>_ s.
           if ?i \<in> set (ac_pending s) \<or> (planned s ?i \<and> ?i \<notin> set (ac_live s))
           then and_then (if is_hip4_outcome env ?i \<or> is_matched s ?i then optional_flush_all env Instruments s else (Inr (), s))
             (\<lambda>_ s. let s = subscribe_market_data_for_instrument env ?i s
                    in (Inr (), if ac_pending s = [] then cancel_pending_timer (s\<lparr>ac_backoff_secs := backoff_start_secs\<rparr>) else s))
           else (Inr (), s)))"
      unfolding s'_def on_instrument_def Let_def m_def if_not_P [OF go] by (rule refl)
    show ?thesis
    proof (cases "isl (fst m) \<or> \<not> (?i \<in> set (ac_pending (snd m)) \<or> (planned (snd m) ?i \<and> ?i \<notin> set (ac_live (snd m))))")
      case True
      then have "s' = snd m" unfolding s' by (cases m) (auto simp: and_then_def split: sum.split)
      then show ?thesis using qm finish by simp
    next
      case False
      define f where "f = (if is_hip4_outcome env ?i \<or> is_matched (snd m) ?i then optional_flush_all env Instruments (snd m) else (Inr (), snd m))"
      have "quiet (snd m) (snd f)" by (simp add: f_def quiet_flush)
      with qm have qf: "quiet s (snd f)" by (rule quiet_trans)
      let ?s = "subscribe_market_data_for_instrument env ?i (snd f)"
      obtain s1 where m: "m = (Inr (), s1)" using False by (cases m; cases "fst m") auto
      have s'f: "s' = snd (and_then f (\<lambda>_ s. let s = subscribe_market_data_for_instrument env ?i s
           in (Inr (), if ac_pending s = [] then cancel_pending_timer (s\<lparr>ac_backoff_secs := backoff_start_secs\<rparr>) else s)))"
        using False unfolding s' f_def m by (simp add: and_then_def)
      show ?thesis
      proof (cases "fst f")
        case (Inl e)
        then have "s' = snd f" unfolding s'f by (cases f) (simp add: and_then_def)
        then show ?thesis using qf finish by simp
      next
        case (Inr u)
        have s2: "s' = (if ac_pending ?s = [] then cancel_pending_timer (?s\<lparr>ac_backoff_secs := backoff_start_secs\<rparr>) else ?s)"
          unfolding s'f using Inr by (cases f) (simp add: and_then_def Let_def)
        have "ac_cache (snd f) ?i \<noteq> None" using c quietD(11) [OF qf] by blast
        then have ok2: "streams_ok env ?s" by (rule streams_ok_subscribe [OF streams_ok_quiet [OF qf ok]])
        have adv: "advance s ?s" using quiet_advance [OF qf] advance_subscribe by (rule advance_trans)
        have p: "set (ac_pending ?s) \<subseteq> set (ac_pending s)" by (auto simp: subscribe_fields quietD [OF qf])
        have "steady ?s s'"
          by (auto simp: s2 cancel_pending_timer_def intro: steady_trans [OF steady_update(3) steady_update(2)])
        moreover have "armed s \<longrightarrow> armed s'"
          using armed_fewer [of s ?s] p adv by (auto simp: s2 armed_def advance_def cancel_pending_timer_def)
        ultimately show ?thesis
          using ok2 adv by (auto simp: s2 advance_def tracked_def streams_ok_update cancel_pending_timer_def intro: steady_trans)
      qed
    qed
  qed
qed

subsection \<open>Changes of the plan\<close>

lemma forget_effect:
  "open_topics (forget_instrument_runtime_state i s) = open_topics s"
  "steady s (forget_instrument_runtime_state i s)"
  "set (ac_live (forget_instrument_runtime_state i s)) = set (ac_live s) - {i}"
  "set (ac_pending (forget_instrument_runtime_state i s)) = set (ac_pending s) - {i}"
  "ac_cache (forget_instrument_runtime_state i s) = ac_cache s"
  "ac_plan (forget_instrument_runtime_state i s) = ac_plan s"
  "ac_option_universe (forget_instrument_runtime_state i s) = ac_option_universe s"
  "armed s \<Longrightarrow> armed (forget_instrument_runtime_state i s)"
  by (auto simp: forget_instrument_runtime_state_def cancel_pending_timer_def Let_def open_topics_def steady_def
      actor_effective_plan_def is_matched_def fun_eq_iff armed_def owned_core_def)

text \<open>An instrument without open streams can be forgotten; one outside a plan that has all open streams has none.\<close>

lemma streams_ok_forget:
  assumes "streams_ok env s" "open_topics s \<subseteq> plan_topics p" "i \<notin> set (planned_instrument_ids p)"
  shows "streams_ok env (forget_instrument_runtime_state i s)"
proof -
  have "topic_instrument (ae_bar_instrument env) t \<noteq> i" if "t \<in> open_topics s" "\<not> bar_topic t" for t
    using planned_topic [of t p] that assms(2,3) by blast
  then show ?thesis using assms(1) unfolding streams_ok_def forget_effect by blast
qed

definition forget_unplanned :: "('i::linorder, 'b) capture_plan \<Rightarrow> 'i list \<Rightarrow> ('i, 'b, 'p, 'd) actor \<Rightarrow> ('i, 'b, 'p, 'd) actor" where
  "forget_unplanned p is s =
     foldl (\<lambda>s i. if i \<in> set (planned_instrument_ids p) then s else forget_instrument_runtime_state i s) s is"

lemma forget_unplanned_ok:
  fixes s :: "('i::linorder, 'b, 'p, 'd) actor" and "is" :: "'i list"
  assumes "streams_ok env s" "open_topics s \<subseteq> plan_topics p"
  defines "s' \<equiv> forget_unplanned p is s"
  shows "streams_ok env s' \<and> open_topics s' = open_topics s \<and> steady s s' \<and> ac_cache s' = ac_cache s
    \<and> tracked s' = tracked s - (set is - set (planned_instrument_ids p))
    \<and> set (ac_live s') \<subseteq> set (ac_live s) \<and> (armed s \<longrightarrow> armed s')"
  using assms(1,2) unfolding s'_def forget_unplanned_def
proof (induction "is" arbitrary: s)
  case Nil
  then show ?case by simp
next
  case (Cons i "is")
  define s1 where "s1 = (if i \<in> set (planned_instrument_ids p) then s else forget_instrument_runtime_state i s)"
  have ok: "streams_ok env s1" "open_topics s1 \<subseteq> plan_topics p"
    using Cons.prems streams_ok_forget [OF Cons.prems] by (simp_all add: s1_def forget_effect)
  have one: "steady s s1" "ac_cache s1 = ac_cache s" "open_topics s1 = open_topics s" "set (ac_live s1) \<subseteq> set (ac_live s)"
    "armed s \<longrightarrow> armed s1" "tracked s1 = tracked s - ({i} - set (planned_instrument_ids p))"
    by (auto simp: s1_def forget_effect tracked_def)
  define s2 where
    "s2 = foldl (\<lambda>s i. if i \<in> set (planned_instrument_ids p) then s else forget_instrument_runtime_state i s) s1 is"
  note ih = Cons.IH [OF ok, folded s2_def]
  have e: "foldl (\<lambda>s i. if i \<in> set (planned_instrument_ids p) then s else forget_instrument_runtime_state i s) s (i # is) = s2"
    by (simp add: s2_def s1_def)
  have "steady s s2" using one(1) ih by (blast intro: steady_trans)
  moreover have "tracked s2 = tracked s - (set (i # is) - set (planned_instrument_ids p))" using ih one(6) by auto
  moreover have "set (ac_live s2) \<subseteq> set (ac_live s)" using ih one(4) by (meson subset_trans)
  ultimately show ?case unfolding e using ih one(2-5) by simp
qed

lemma streams_ok_sync:
  "streams_ok env s \<Longrightarrow> open_topics s \<subseteq> plan_topics (actor_effective_plan s) \<Longrightarrow> streams_ok env (sync_plan_state s)"
  by (simp add: streams_ok_def sync_plan_state_def Let_def open_topics_def)

lemma sync_fields:
  "ac_plan (sync_plan_state s) = actor_effective_plan s" "actor_effective_plan (sync_plan_state s) = actor_effective_plan s"
  "ac_live (sync_plan_state s) = ac_live s" "ac_pending (sync_plan_state s) = ac_pending s"
  "ac_timers (sync_plan_state s) = ac_timers s" "ac_cache (sync_plan_state s) = ac_cache s"
  "open_topics (sync_plan_state s) = open_topics s" "ac_hip4_universe (sync_plan_state s) = ac_hip4_universe s"
  "ac_option_universe (sync_plan_state s) = ac_option_universe s" "ac_rolling (sync_plan_state s) = ac_rolling s"
  "ac_matched (sync_plan_state s) = ac_matched s" "ac_lighter (sync_plan_state s) = ac_lighter s"
  "ac_inbox (sync_plan_state s) = ac_inbox s" "owned_core (sync_plan_state s) = owned_core s" "tracked (sync_plan_state s) = tracked s" "armed (sync_plan_state s) = armed s"
  by (simp_all add: sync_plan_state_def Let_def actor_effective_plan_def open_topics_def tracked_def armed_def owned_core_def)

lemma purge_effect:
  fixes s :: "('i::linorder, 'b, 'p, 'd) actor"
  assumes ok: "streams_ok env s" and plan: "i \<notin> set (planned_instrument_ids (ac_plan s))"
  defines "s' \<equiv> purge_instrument_from_cache i s"
  shows "streams_ok env s' \<and> tracked s' = tracked s - {i} \<and> ac_cache s' = (ac_cache s)(i := None)
    \<and> ac_plan s' = ac_plan s \<and> actor_effective_plan s' = actor_effective_plan s
    \<and> ac_hip4_universe s' = ac_hip4_universe s \<and> ac_option_universe s' = ac_option_universe s \<and> ac_inbox s' = ac_inbox s
    \<and> owned_core s' = owned_core s \<and> (armed s \<longrightarrow> armed s')"
proof -
  let ?f = "forget_instrument_runtime_state i s"
  have "open_topics s \<subseteq> plan_topics (ac_plan s)" using ok by (simp add: streams_ok_def)
  then have f: "streams_ok env ?f" using streams_ok_forget [OF ok] plan by blast
  have s': "s' = emit (PurgeInstrument i) (?f\<lparr>ac_cache := (ac_cache s)(i := None)\<rparr>)"
    by (simp add: s'_def purge_instrument_from_cache_def Let_def forget_effect)
  have "i \<notin> set (ac_live ?f)" by (simp add: forget_effect)
  then have "streams_ok env (?f\<lparr>ac_cache := (ac_cache s)(i := None)\<rparr>)"
    using f by (auto simp: streams_ok_def open_topics_def forget_effect)
  then have "streams_ok env s'" by (simp add: s' streams_ok_emit)
  moreover have "tracked s' = tracked s - {i}" by (auto simp: s' tracked_def emit_def forget_effect)
  moreover have "armed s' = armed ?f" by (simp add: s' armed_def emit_def)
  moreover have "steady s ?f" by (rule forget_effect)
  moreover have "actor_effective_plan s' = actor_effective_plan ?f" by (simp add: s' emit_def actor_effective_plan_def)
  moreover have "ac_hip4_universe s' = ac_hip4_universe ?f" "ac_option_universe s' = ac_option_universe ?f"
    "ac_inbox s' = ac_inbox ?f" "ac_plan s' = ac_plan ?f" "ac_cache s' = (ac_cache s)(i := None)"
    by (simp_all add: s' emit_def)
  moreover have "owned_core s' = owned_core ?f" by (simp add: s' emit_def owned_core_def)
  ultimately show ?thesis using forget_effect(8) [of s i] by (simp add: steady_def)
qed

text \<open>
  Unsubscribing what goes and keeping what stays: the streams left open are streams of the plan to
  come, whichever plan the actor still holds.
\<close>

lemma streams_ok_unsubscribe:
  assumes "streams_ok env s"
  shows "streams_ok env (unsubscribe_plan env p s)"
  using assms emits_fields [OF unsubscribe_effect(1) [of s env p]]
  unfolding streams_ok_def unsubscribe_effect(2) by auto

lemma quiet_seals: "list_all (\<lambda>c. \<not> market_command c) cs \<Longrightarrow> quiet s (snd (each_ok (call env) cs s))"
  by (induction cs arbitrary: s) (auto intro!: quiet_and_then quiet_call)

lemma seal_commands_quiet: "list_all (\<lambda>c. \<not> market_command c) (seal_commands env p)"
  by (auto simp: seal_commands_def list_all_iff split: if_splits)

lemma quiet_seal_removed: "quiet s (snd (seal_removed_hip4_partitions env p s))"
  by (simp add: seal_removed_hip4_partitions_def quiet_seals seal_commands_quiet)

lemma delta_ok:
  fixes s :: "('i::linorder, 'b, 'p, 'd) actor" and add :: "('i, 'b) capture_plan"
  assumes ok: "streams_ok env s"
    and universe: "ac_hip4_universe s \<noteq> None \<or> ac_option_universe s \<noteq> None"
    and covers: "plan_topics (ac_plan s) \<subseteq> plan_topics remove \<union> plan_topics (actor_effective_plan s)"
  defines "s' \<equiv> snd (apply_subscription_delta env add remove s)"
  shows "streams_ok env s' \<and> actor_effective_plan s' = actor_effective_plan s
    \<and> ac_hip4_universe s' = ac_hip4_universe s \<and> ac_option_universe s' = ac_option_universe s \<and> ac_inbox s' = ac_inbox s
    \<and> owned_core s' = owned_core s
    \<and> tracked s - (set (planned_instrument_ids remove) - set (planned_instrument_ids (actor_effective_plan s))) \<subseteq> tracked s'
    \<and> (isl (fst (apply_subscription_delta env add remove s))
       \<or> ac_plan s' = actor_effective_plan s \<and> set (planned_instrument_ids add) \<subseteq> tracked s')
    \<and> (calls_ok env \<longrightarrow> armed s \<longrightarrow> armed s')"
proof -
  define next_plan where "next_plan = actor_effective_plan s"
  let ?u = "unsubscribe_plan env remove s"
  define m where "m = seal_removed_hip4_partitions env remove ?u"
  have em: "emits s ?u" by (rule unsubscribe_effect(1))
  have oku: "streams_ok env ?u" by (rule streams_ok_unsubscribe [OF ok])
  have qm: "quiet ?u (snd m)" by (simp add: m_def quiet_seal_removed)
  note okm = streams_ok_quiet [OF qm oku]
  have stm: "steady s (snd m)" using emits_fields(1) [OF em] quiet_steady [OF qm] by (rule steady_trans)
  have trm: "tracked (snd m) = tracked s" "armed (snd m) = armed s"
    using quiet_tracked [OF qm] emits_fields(2,3) [OF em] by simp_all
  have opm: "open_topics (snd m) \<subseteq> plan_topics next_plan"
    using ok covers quietD(1) [OF qm] unsubscribe_effect(2) [of env remove s] by (auto simp: streams_ok_def next_plan_def)
  show ?thesis
  proof (cases "fst m")
    case (Inl e)
    then have "s' = snd m" "isl (fst (apply_subscription_delta env add remove s))"
      by (simp_all add: s'_def apply_subscription_delta_def m_def [symmetric] and_then_def split_beta)
    then show ?thesis using okm stm trm by (auto simp: steady_def)
  next
    case (Inr u)
    define s2 where "s2 = forget_unplanned next_plan (planned_instrument_ids remove) (snd m)"
    note f = forget_unplanned_ok [OF okm opm, of "planned_instrument_ids remove", folded s2_def]
    define b where "b = each_ok (bootstrap_instrument env) (planned_instrument_ids add) s2"
    have nx: "(if ac_hip4_universe (snd m) \<noteq> None \<or> ac_option_universe (snd m) \<noteq> None then actor_effective_plan (snd m)
        else merge_capture_plans (capture_plan_difference (ac_plan (snd m)) remove) add) = next_plan"
      using universe stm by (simp add: steady_def next_plan_def)
    have r: "apply_subscription_delta env add remove s
        = and_then b (\<lambda>_ s. subscribe_plan env add (sync_plan_state s))"
      unfolding apply_subscription_delta_def m_def [symmetric] and_then_Inr [OF Inr] nx Let_def
      by (simp add: b_def s2_def forget_unplanned_def)
    have qb: "quiet s2 (snd b)" by (simp add: b_def quiet_steps)
    have okb: "streams_ok env (snd b)" using streams_ok_quiet [OF qb] f by blast
    have stb: "steady s (snd b)" using stm f quiet_steady [OF qb] by (blast intro: steady_trans)
    have trb: "tracked (snd b) = tracked s - (set (planned_instrument_ids remove) - set (planned_instrument_ids next_plan))"
      "armed s \<longrightarrow> armed (snd b)" using quiet_tracked [OF qb] f trm by simp_all
    show ?thesis
    proof (cases "fst b")
      case (Inl e)
      then have "s' = snd b" "isl (fst (apply_subscription_delta env add remove s))"
        by (simp_all add: s'_def r and_then_def split_beta)
      then show ?thesis using okb stb trb by (simp add: steady_def next_plan_def)
    next
      case (Inr u)
      let ?y = "sync_plan_state (snd b)"
      have "open_topics (snd b) \<subseteq> plan_topics (actor_effective_plan (snd b))"
        using quietD(1) [OF qb] f opm stb by (simp add: steady_def next_plan_def)
      then have oky: "streams_ok env ?y" by (rule streams_ok_sync [OF okb])
      have s': "s' = snd (subscribe_plan env add ?y)" and rr: "apply_subscription_delta env add remove s = subscribe_plan env add ?y"
        by (simp_all add: s'_def r and_then_Inr [OF Inr])
      note sp = subscribe_plan_ok [OF oky, of add, folded s']
      show ?thesis
        using sp stb trb unfolding rr
        by (auto simp: steady_def sync_fields next_plan_def calls_ok_def)
    qed
  qed
qed

text \<open>
  What a run without errors keeps besides: the plan is the effective plan, and each of its
  instruments is live or pending.
\<close>

definition in_step :: "('i, 'b, 'p, 'd) actor \<Rightarrow> bool" where
  "in_step s \<longleftrightarrow> plan_specs (ac_plan s) = plan_specs (actor_effective_plan s)"

definition covered :: "('i::linorder, 'b, 'p, 'd) actor \<Rightarrow> bool" where
  "covered s \<longleftrightarrow> set (planned_instrument_ids (ac_plan s)) \<subseteq> tracked s"

lemma plan_specs_effective:
  "plan_specs (actor_effective_plan s) =
     (case (ac_option_universe s, ac_hip4_universe s) of
        (None, None) \<Rightarrow> plan_specs (ac_initial_plan s)
      | (Some ox, Some hx) \<Rightarrow> plan_specs (option_active_plan ox) \<union> plan_specs (hip4_active_plan hx)
      | (Some ox, None) \<Rightarrow> plan_specs (option_active_plan ox) \<union> plan_specs (ac_supplemental_plan s)
      | (None, Some hx) \<Rightarrow> plan_specs (hip4_active_plan hx) \<union> plan_specs (ac_supplemental_plan s))
     \<union> plan_specs (rolling_plan (ac_rolling s)) \<union> plan_specs (lighter_plan (ac_lighter s)) \<union> plan_specs (matched_plan (ac_matched s))"
  by (simp add: actor_effective_plan_def effective_capture_plan_def Let_def split: option.split)

text \<open>The plan as the part of the configuration and the universes, and the three owned parts.\<close>

definition base_specs where
  "base_specs s = plan_specs (effective_capture_plan (ac_initial_plan s) (ac_supplemental_plan s) (ac_option_universe s) (ac_hip4_universe s))"

lemma effective_parts:
  "plan_specs (actor_effective_plan s) = base_specs s \<union> plan_specs (rolling_plan (ac_rolling s))
     \<union> plan_specs (lighter_plan (ac_lighter s)) \<union> plan_specs (matched_plan (ac_matched s))"
  by (simp add: actor_effective_plan_def base_specs_def Let_def)

text \<open>What a plan gains over another it plans; the instruments of a smaller plan are among those of the larger.\<close>

lemma planned_difference:
  "i \<in> set (planned_instrument_ids p) \<Longrightarrow> i \<notin> set (planned_instrument_ids q)
   \<Longrightarrow> i \<in> set (planned_instrument_ids (capture_plan_difference p q))"
  by (auto simp: planned_iff_spec)

lemma planned_mono:
  assumes "plan_specs p \<subseteq> plan_specs q"
  shows "set (planned_instrument_ids p) \<subseteq> set (planned_instrument_ids q)"
proof
  fix i
  assume "i \<in> set (planned_instrument_ids p)"
  then obtain x where "x \<in> plan_specs p" "spec_instrument x = Some i" by (auto simp: planned_iff_spec)
  then show "i \<in> set (planned_instrument_ids q)" using assms by (metis planned_iff_spec subsetD)
qed

lemma topics_mono: "plan_specs p \<subseteq> plan_specs q \<Longrightarrow> plan_topics p \<subseteq> plan_topics q"
  unfolding plan_topics_specs by blast

subsection \<open>Sorted maps\<close>

lemma map_of_btree_insert [simp]: "btree_map m \<Longrightarrow> map_of (btree_insert k v m) = (map_of m)(k \<mapsto> v)"
  by (auto simp: btree_insert_def map_of_btree_entry fun_eq_iff)

lemma btree_map_insert [simp]: "btree_map m \<Longrightarrow> btree_map (btree_insert k v m)"
  by (simp add: btree_insert_def)

lemma btree_map_distinct: "btree_map m \<Longrightarrow> distinct (map fst m)"
  by (auto simp: btree_map_def strict_sorted_iff)

lemma btree_map_delete [simp]: "btree_map m \<Longrightarrow> btree_map (AList.delete k m)"
  by (auto simp: btree_map_def AList.delete_eq sorted_wrt_map intro: sorted_wrt_filter)

lemma set_btree_insert:
  "btree_map m \<Longrightarrow> set (btree_insert k v m) = insert (k, v) {p \<in> set m. fst p \<noteq> k}"
proof -
  assume m: "btree_map m"
  have mem: "(a, b) \<in> set m \<longleftrightarrow> map_of m a = Some b" for a b
    using map_of_eq_Some_iff [OF btree_map_distinct [OF m]] by simp
  have "(a, b) \<in> set (btree_insert k v m) \<longleftrightarrow> map_of (btree_insert k v m) a = Some b" for a b
    using map_of_eq_Some_iff [OF btree_map_distinct [OF btree_map_insert [OF m]]] by simp
  then have "(a, b) \<in> set (btree_insert k v m) \<longleftrightarrow> (a, b) \<in> insert (k, v) {p \<in> set m. fst p \<noteq> k}" for a b
    using m mem [of a b] by auto
  then show ?thesis by auto
qed

end
