(* ===== verification/Actor_Keeps.thy ===== *)
theory Actor_Keeps
  imports Actor_Streams
begin

section \<open>What a handler of the actor keeps\<close>

text \<open>
  The obligations of a handler as predicates on its outcome, with the rules that compose them along
  the handler: \<open>advances\<close> for the parts that leave the plan alone, \<open>keeps\<close> for whole handlers, and the
  step between the two, \<open>replan_keeps\<close>, for a handler that gives the actor another plan.
\<close>

subsection \<open>The owned markets\<close>

text \<open>
  Recordings and Lighter markets are stored under their own identity; the two instruments of an
  outcome are those the venue names after it.
\<close>

definition rolling_wf :: "('i, 'b) actor_env \<Rightarrow> (nat \<times> 'i recording) list \<Rightarrow> bool" where
  "rolling_wf env ms \<longleftrightarrow> btree_map ms \<and> (\<forall>(k, r) \<in> set ms. recording_ids r = ae_outcome_ids env k)"

definition lighter_wf :: "('i::linorder \<times> 'i definition_record) list \<Rightarrow> bool" where
  "lighter_wf ms \<longleftrightarrow> btree_map ms \<and> (\<forall>(i, d) \<in> set ms. nd_id d = i)"

definition owned_ok :: "('i::linorder, 'b) actor_env \<Rightarrow> ('i, 'b, 'p, 'd) actor \<Rightarrow> bool" where
  "owned_ok env s \<longleftrightarrow> rolling_wf env (hv_markets (ac_rolling s)) \<and> lighter_wf (lw_markets (ac_lighter s))"

lemma owned_ok_core: "owned_core s' = owned_core s \<Longrightarrow> owned_ok env s' = owned_ok env s"
  by (simp add: owned_ok_def owned_core_def)

subsection \<open>Steps between which no stream and no bookkeeping changes\<close>

text \<open>Weaker than \<open>quiet\<close>: the state of the rolling and matched markets may change, but not the plan they give.\<close>

definition still :: "('i, 'b, 'p, 'd) actor \<Rightarrow> ('i, 'b, 'p, 'd) actor \<Rightarrow> bool" where
  "still s s' \<longleftrightarrow> open_topics s' = open_topics s \<and> ac_plan s' = ac_plan s \<and> ac_live s' = ac_live s
     \<and> ac_pending s' = ac_pending s \<and> ac_timers s' pending_timer = ac_timers s pending_timer
     \<and> plan_specs (actor_effective_plan s') = plan_specs (actor_effective_plan s)
     \<and> hv_markets (ac_rolling s') = hv_markets (ac_rolling s) \<and> lw_markets (ac_lighter s') = lw_markets (ac_lighter s)
     \<and> dom (ac_cache s) \<subseteq> dom (ac_cache s')"

lemma still_refl [simp]: "still s s"
  by (simp add: still_def)

lemma still_trans: "still s s' \<Longrightarrow> still s' s'' \<Longrightarrow> still s s''"
  unfolding still_def by (elim conjE, intro conjI; metis subset_trans)

lemma quiet_still: "quiet s s' \<Longrightarrow> still s s'"
  using quiet_steady [of s s'] by (simp add: still_def quietD quiet_ids steady_def owned_core_def)

text \<open>
  A state is good when its open streams are accounted for, its plan is the effective plan, and the
  owned markets are well formed.
  \<open>advances\<close>: the plan is the same, and no planned instrument drops out.
\<close>

definition good :: "('i::linorder, 'b) actor_env \<Rightarrow> ('i, 'b, 'p, 'd) actor \<Rightarrow> bool" where
  "good env s \<longleftrightarrow> streams_ok env s \<and> in_step s \<and> owned_ok env s"

definition advances :: "('i::linorder, 'b) actor_env \<Rightarrow> ('i, 'b, 'p, 'd) actor \<Rightarrow> ('a, ('i, 'b, 'p, 'd) actor) outcome \<Rightarrow> bool" where
  "advances env s r \<longleftrightarrow> good env (snd r) \<and> ac_plan (snd r) = ac_plan s
     \<and> tracked s \<inter> set (planned_instrument_ids (ac_plan s)) \<subseteq> tracked (snd r)
     \<and> (calls_ok env \<longrightarrow> armed s \<longrightarrow> armed (snd r))"

lemma advances_return [simp]: "good env s \<Longrightarrow> advances env s (x, s)"
  by (simp add: advances_def)

lemma advances_good: "advances env s r \<Longrightarrow> good env (snd r)"
  by (simp add: advances_def)

lemma advances_trans:
  "advances env s r \<Longrightarrow> advances env (snd r) r' \<Longrightarrow> advances env s r'"
  unfolding advances_def by (elim conjE, intro conjI) (simp_all, blast)

lemma advances_and_then:
  assumes "advances env s m" "\<And>a. good env (snd m) \<Longrightarrow> advances env (snd m) (k a (snd m))"
  shows "advances env s (and_then m k)"
proof (cases "fst m")
  case (Inl e)
  then have "and_then m k = (Inl e, snd m)" by (simp add: and_then_def split_beta)
  then show ?thesis using assms(1) by (simp add: advances_def)
next
  case (Inr a)
  show ?thesis unfolding and_then_Inr [OF Inr]
    by (rule advances_trans [OF assms(1) assms(2) [OF advances_good [OF assms(1)]]])
qed

text \<open>The same where the continuation needs more than a good state.\<close>

lemma advances_and_then':
  assumes "advances env s m" "\<And>a. fst m = Inr a \<Longrightarrow> advances env (snd m) (k a (snd m))"
  shows "advances env s (and_then m k)"
proof (cases "fst m")
  case (Inl e)
  then have "and_then m k = (Inl e, snd m)" by (simp add: and_then_def split_beta)
  then show ?thesis using assms(1) by (simp add: advances_def)
next
  case (Inr a)
  show ?thesis unfolding and_then_Inr [OF Inr] by (rule advances_trans [OF assms(1) assms(2) [OF Inr]])
qed

lemma advances_each_ok:
  assumes "\<And>x s. good env s \<Longrightarrow> advances env s (f x s)" "good env s"
  shows "advances env s (each_ok f xs s)"
  using assms(2)
proof (induction xs arbitrary: s)
  case (Cons x xs)
  then show ?case using assms(1) by (auto intro: advances_and_then)
qed simp

lemma still_good:
  assumes "still s s'" "good env s"
  shows "good env s'"
proof -
  note q = assms(1) [unfolded still_def]
  have "streams_ok env s'" using assms(2) q unfolding good_def streams_ok_def by (metis subset_trans)
  then show ?thesis using assms(2) q by (simp add: good_def in_step_def owned_ok_def)
qed

lemma still_advances: "still s (snd r) \<Longrightarrow> good env s \<Longrightarrow> advances env s r"
  using still_good [of s "snd r" env] by (simp add: advances_def still_def tracked_def armed_def)

lemmas quiet_advances = still_advances [OF quiet_still]

lemma advances_from: "still s s' \<Longrightarrow> good env s \<Longrightarrow> (good env s' \<Longrightarrow> advances env s' r) \<Longrightarrow> advances env s r"
  using advances_trans [OF still_advances [of s "(Inr (), s')" env]] still_good [of s s' env] by simp

lemma advances_state: "advances env s (x, s') \<Longrightarrow> (good env s' \<Longrightarrow> advances env s' r) \<Longrightarrow> advances env s r"
  using advances_trans [of env s "(x, s')" r] advances_good [of env s "(x, s')"] by simp

text \<open>\<open>keeps\<close>: what holds of the state before and after a whole handler.\<close>

definition keeps :: "('i::linorder, 'b) actor_env \<Rightarrow> ('i, 'b, 'p, 'd) actor \<Rightarrow> ('a, ('i, 'b, 'p, 'd) actor) outcome \<Rightarrow> bool" where
  "keeps env s r \<longleftrightarrow> streams_ok env (snd r) \<and> (isl (fst r) \<or> good env (snd r) \<and> (covered s \<longrightarrow> covered (snd r)))
     \<and> (calls_ok env \<longrightarrow> armed s \<longrightarrow> armed (snd r))"

lemma advances_keeps: "advances env s r \<Longrightarrow> keeps env s r"
  by (auto simp: advances_def keeps_def covered_def good_def)

lemma keeps_return [simp]: "good env s \<Longrightarrow> keeps env s (x, s)"
  by (simp add: advances_keeps)

lemma and_then_assoc: "and_then (and_then m k) l = and_then m (\<lambda>a s. and_then (k a s) l)"
  by (cases m) (simp add: and_then_def split: sum.split)

lemma keeps_and_then:
  assumes "keeps env s m" "\<And>a. fst m = Inr a \<Longrightarrow> good env (snd m) \<Longrightarrow> keeps env (snd m) (k a (snd m))"
  shows "keeps env s (and_then m k)"
proof (cases "fst m")
  case (Inl e)
  then have "and_then m k = (Inl e, snd m)" by (simp add: and_then_def split_beta)
  then show ?thesis using assms(1) Inl by (simp add: keeps_def)
next
  case (Inr a)
  then have "good env (snd m)" using assms(1) by (simp add: keeps_def)
  from assms(2) [OF Inr this] show ?thesis
    using assms(1) Inr unfolding and_then_Inr [OF Inr] by (auto simp: keeps_def)
qed

lemma advances_then:
  assumes "advances env s m" "\<And>a. good env (snd m) \<Longrightarrow> keeps env (snd m) (k a (snd m))"
  shows "keeps env s (and_then m k)"
  by (rule keeps_and_then) (use assms in \<open>simp_all add: advances_keeps\<close>)

lemma keeps_from: "still s s' \<Longrightarrow> good env s \<Longrightarrow> (good env s' \<Longrightarrow> keeps env s' r) \<Longrightarrow> keeps env s r"
  using still_good [of s s' env] by (auto simp: keeps_def still_def covered_def tracked_def armed_def)

subsection \<open>The steps the handlers share\<close>

lemma advances_subscribe_plan: "good env s \<Longrightarrow> advances env s (subscribe_plan env p s)"
  using subscribe_plan_ok [of env s p] 
    owned_ok_core [of "snd (subscribe_plan env p s)" s env] by (auto simp: good_def advances_def steady_def in_step_def calls_ok_def)

lemma advances_subscribe:
  assumes "good env s" "ac_cache s i \<noteq> None"
  shows "advances env s (x, subscribe_market_data_for_instrument env i s)"
proof -
  have "streams_ok env (subscribe_market_data_for_instrument env i s)"
    using assms streams_ok_subscribe [of env s i] by (simp add: good_def)
  moreover have "steady s (subscribe_market_data_for_instrument env i s)" by (rule steady_subscribe)
  moreover have "advance s (subscribe_market_data_for_instrument env i s)" by (rule advance_subscribe)
  moreover have "armed s \<longrightarrow> armed (subscribe_market_data_for_instrument env i s)"
    using armed_fewer [of s "subscribe_market_data_for_instrument env i s"] by (auto simp: subscribe_fields)
  moreover have "owned_ok env (subscribe_market_data_for_instrument env i s)"
    using assms steady_subscribe [of s env i] owned_ok_core [of "subscribe_market_data_for_instrument env i s" s env]
    by (simp add: steady_def good_def)
  ultimately show ?thesis using assms by (auto simp: advances_def good_def in_step_def steady_def advance_def)
qed

lemma advances_forget:
  assumes "good env s" "\<not> planned s i"
  shows "advances env s (x, forget_instrument_runtime_state i s)"
proof -
  have "open_topics s \<subseteq> plan_topics (ac_plan s)" "streams_ok env s" using assms(1) by (simp_all add: good_def streams_ok_def)
  then have "streams_ok env (forget_instrument_runtime_state i s)"
    using streams_ok_forget assms(2) by (simp add: planned_def)
  moreover have "owned_ok env (forget_instrument_runtime_state i s)"
    using assms forget_effect(2) [of s i] owned_ok_core [of "forget_instrument_runtime_state i s" s env]
    by (simp add: steady_def good_def)
  ultimately show ?thesis
    using assms forget_effect(2) [of s i] forget_effect(8) [of s i]
    by (auto simp: advances_def good_def in_step_def steady_def tracked_def forget_effect planned_def)
qed

lemma advances_fold:
  assumes "\<And>s i. good env s \<Longrightarrow> advances env s (Inr (), g s i)" "good env s"
  shows "advances env s (Inr (), foldl g s is)"
  using assms(2)
proof (induction "is" arbitrary: s)
  case (Cons i "is")
  have one: "advances env s (Inr (), g s i)" by (rule assms(1) [OF Cons.prems])
  then have "good env (g s i)" by (simp add: advances_def)
  from advances_trans [OF one] Cons.IH [OF this] show ?case by simp
qed simp

lemma advances_purge:
  assumes "good env s" "\<not> planned s i"
  shows "advances env s (x, purge_instrument_from_cache i s)"
  using assms purge_effect [of env s i] owned_ok_core [of "purge_instrument_from_cache i s" s env]
  by (auto simp: advances_def good_def in_step_def planned_def)

text \<open>Bootstrapping and subscribing an addition: afterwards its instruments are live or pending.\<close>

lemma open_plan_ok:
  fixes s :: "('i::linorder, 'b, 'p, 'd) actor" and p :: "('i, 'b) capture_plan" and ids :: "'i list"
  assumes "good env s"
  defines "r \<equiv> and_then (each_ok (bootstrap_instrument env) ids s) (\<lambda>_ s. subscribe_plan env p s)"
  shows "advances env s r \<and> (isl (fst r) \<or> set (planned_instrument_ids p) \<subseteq> tracked (snd r))"
proof -
  define m where "m = each_ok (bootstrap_instrument env) ids s"
  have a: "advances env s m" unfolding m_def by (intro quiet_advances quiet_steps assms)
  show ?thesis
  proof (cases "fst m")
    case (Inl e)
    then have "r = (Inl e, snd m)" by (simp add: r_def m_def [symmetric] and_then_def split_beta)
    then show ?thesis using a by (simp add: advances_def)
  next
    case (Inr u)
    then have r: "r = subscribe_plan env p (snd m)" by (simp add: r_def m_def [symmetric] and_then_Inr)
    have g: "good env (snd m)" by (rule advances_good [OF a])
    then have "advances env s r" unfolding r by (intro advances_trans [OF a] advances_subscribe_plan)
    then show ?thesis using subscribe_plan_ok [of env "snd m" p] g by (auto simp: r good_def)
  qed
qed

text \<open>What a sequence does to the tracked instruments of the plan it works on.\<close>

lemma tracked_then:
  assumes "isl (fst m) \<or> T \<subseteq> tracked (snd m)" "T \<subseteq> set (planned_instrument_ids (ac_plan (snd m)))"
    and "\<And>a. advances env (snd m) (k a (snd m))"
  shows "isl (fst (and_then m k)) \<or> T \<subseteq> tracked (snd (and_then m k))"
proof (cases "fst m")
  case (Inl e)
  then have "and_then m k = (Inl e, snd m)" by (simp add: and_then_def split_beta)
  then show ?thesis by simp
next
  case (Inr a)
  show ?thesis using assms(1,2) assms(3) [of a] Inr unfolding and_then_Inr [OF Inr] by (auto simp: advances_def)
qed

lemma keeps_on_instrument: "good env s \<Longrightarrow> ac_cache s (nd_id inst) \<noteq> None \<Longrightarrow> keeps env s (on_instrument env inst s)"
  using on_instrument_ok [of env s inst] owned_ok_core [of "snd (on_instrument env inst s)" s env]
  by (auto simp: keeps_def good_def in_step_def steady_def covered_def)

lemma keeps_retry: "good env s \<Longrightarrow> keeps env s (retry_pending_market_data env s)"
  using retry_pending_ok [of env s] owned_ok_core [of "snd (retry_pending_market_data env s)" s env]
  by (auto simp: keeps_def good_def in_step_def steady_def covered_def)

subsection \<open>Another plan\<close>

text \<open>
  \<open>s1\<close> is the state with another effective plan, not yet looked at: the actor takes it over, closes
  what it dropped as far as it is open, and goes on with \<open>r\<close>.
\<close>

definition same_streams :: "('i, 'b, 'p, 'd) actor \<Rightarrow> ('i, 'b, 'p, 'd) actor \<Rightarrow> bool" where
  "same_streams s s' \<longleftrightarrow> open_topics s' = open_topics s \<and> ac_plan s' = ac_plan s \<and> ac_live s' = ac_live s
     \<and> ac_pending s' = ac_pending s \<and> ac_timers s' pending_timer = ac_timers s pending_timer
     \<and> dom (ac_cache s) \<subseteq> dom (ac_cache s')"

lemma still_same: "still s s' \<Longrightarrow> same_streams s s'"
  by (simp add: still_def same_streams_def)

lemma same_trans: "same_streams s s' \<Longrightarrow> same_streams s' s'' \<Longrightarrow> same_streams s s''"
  unfolding same_streams_def by (elim conjE, intro conjI; metis subset_trans)

lemma replan_good:
  fixes s :: "('i::linorder, 'b, 'p, 'd) actor"
  assumes g: "good env s" and same: "same_streams s s1" and owned: "owned_ok env s1"
    and closes: "\<And>t. t \<in> plan_topics (ac_plan s) \<Longrightarrow> t \<notin> plan_topics (actor_effective_plan s1)
        \<Longrightarrow> bar_topic t \<or> topic_instrument (ae_bar_instrument env) t \<in> set (ac_live s) \<Longrightarrow> t \<in> plan_topics p"
  defines "s3 \<equiv> unsubscribe_plan env p (sync_plan_state s1)"
  shows "good env s3 \<and> ac_plan s3 = actor_effective_plan s1 \<and> tracked s3 = tracked s \<and> armed s3 = armed s
    \<and> ac_cache s3 = ac_cache s1 \<and> ac_live s3 = ac_live s"
proof -
  have em: "emits (sync_plan_state s1) s3" by (simp add: s3_def unsubscribe_effect)
  note f = emits_fields [OF em] sync_fields [of s1]
  have op: "open_topics s3 = open_topics s - plan_topics p"
    using same by (simp add: s3_def unsubscribe_effect sync_fields same_streams_def)
  have ok: "streams_ok env s" using g by (simp add: good_def)
  have "open_topics s3 \<subseteq> plan_topics (actor_effective_plan s1)"
    using ok closes op by (fastforce simp: streams_ok_def)
  moreover have "set (ac_live s) \<subseteq> dom (ac_cache s1)" using ok same unfolding streams_ok_def same_streams_def by blast
  ultimately have "streams_ok env s3"
    using ok same op by (auto simp: streams_ok_def f same_streams_def)
  moreover have "owned_ok env s3" using owned f(1) owned_ok_core [of s3 "s1" env] by (simp add: steady_def sync_fields)
  ultimately show ?thesis using same by (simp add: good_def in_step_def f tracked_def armed_def same_streams_def)
qed

lemma replan_keeps:
  fixes s :: "('i::linorder, 'b, 'p, 'd) actor"
  assumes g: "good env s" and same: "same_streams s s1" and owned: "owned_ok env s1"
    and closes: "\<And>t. t \<in> plan_topics (ac_plan s) \<Longrightarrow> t \<notin> plan_topics (actor_effective_plan s1)
        \<Longrightarrow> bar_topic t \<or> topic_instrument (ae_bar_instrument env) t \<in> set (ac_live s) \<Longrightarrow> t \<in> plan_topics p"
    and rest: "good env (unsubscribe_plan env p (sync_plan_state s1))
        \<Longrightarrow> advances env (unsubscribe_plan env p (sync_plan_state s1)) r"
    and adds: "\<And>i. good env (unsubscribe_plan env p (sync_plan_state s1))
        \<Longrightarrow> i \<in> set (planned_instrument_ids (actor_effective_plan s1)) \<Longrightarrow> i \<notin> set (planned_instrument_ids (ac_plan s)) \<Longrightarrow> isl (fst r) \<or> i \<in> tracked (snd r)"
  shows "keeps env s r"
proof -
  note p = replan_good [OF g same owned closes]
  have a: "advances env (unsubscribe_plan env p (sync_plan_state s1)) r" using rest p by blast
  have "covered (snd r)" if c: "covered s" "\<not> isl (fst r)"
    unfolding covered_def
  proof
    fix i
    assume "i \<in> set (planned_instrument_ids (ac_plan (snd r)))"
    then have i: "i \<in> set (planned_instrument_ids (actor_effective_plan s1))" using a p by (simp add: advances_def)
    show "i \<in> tracked (snd r)"
    proof (cases "i \<in> set (planned_instrument_ids (ac_plan s))")
      case True
      then have "i \<in> tracked s" using c by (auto simp: covered_def)
      then show ?thesis using a p i by (auto simp: advances_def)
    next
      case False
      then show ?thesis using adds [OF _ i] p c by blast
    qed
  qed
  then show ?thesis using a p by (auto simp: keeps_def advances_def good_def)
qed

text \<open>The same without anything to close.\<close>

lemma grow_keeps:
  fixes s :: "('i::linorder, 'b, 'p, 'd) actor"
  assumes g: "good env s" and same: "same_streams s s1" and owned: "owned_ok env s1"
    and grows: "plan_topics (ac_plan s) \<subseteq> plan_topics (actor_effective_plan s1)"
    and rest: "good env (sync_plan_state s1) \<Longrightarrow> advances env (sync_plan_state s1) r"
    and adds: "\<And>i. good env (sync_plan_state s1) \<Longrightarrow> i \<in> set (planned_instrument_ids (actor_effective_plan s1)) \<Longrightarrow>
        i \<notin> set (planned_instrument_ids (ac_plan s)) \<Longrightarrow> isl (fst r) \<or> i \<in> tracked (snd r)"
  shows "keeps env s r"
proof -
  have none: "unsubscribe_plan env empty_plan s' = s'" for s' :: "('i, 'b, 'p, 'd) actor"
    by (simp add: unsubscribe_plan_def predict_selector_keys_def empty_plan_def market_specs_def Let_def)
  show ?thesis
    by (rule replan_keeps [OF g same owned, of empty_plan])
      (use grows rest adds in \<open>auto simp: none\<close>)
qed

end
