(* ===== verification/Actor_Data.thy ===== *)
theory Actor_Data
  imports Actor_Keeps
begin

section \<open>Market data in the actor\<close>

text \<open>
  The callbacks of \<open>actor/submit.rs\<close> that hand market data to the writers: the filter of the rolling
  and matched modes, the recovery of a book whose partition lost a message, and the instrument
  definitions that are written again. A stored item is a command of the trace, with its stream for
  market data and, for books, with the form of the message and whether it starts a new part. Which
  partitions a writer lost is what its failure history reports, and an argument here.
\<close>

subsection \<open>Items of one row\<close>

fun topic_family :: "('i, 'b) topic \<Rightarrow> capture_flush_family" where
  "topic_family (MarkTopic i) = MarkPrices"
| "topic_family (IndexTopic i) = IndexPrices"
| "topic_family (FundingTopic i) = FundingRates"
| "topic_family (StatusTopic i) = InstrumentStatus"
| "topic_family (CloseTopic i) = InstrumentClose"
| "topic_family (GreeksTopic i) = OptionGreeks"
| "topic_family (QuoteTopic i) = Quotes"
| "topic_family (TradeTopic i) = Trades"
| "topic_family (BarTopic b) = Bars"
| "topic_family (DepthTopic i) = BookDepth"
| "topic_family (DeltasTopic i) = BookDeltas"

definition configured_topic :: "('i, 'b, 'p, 'd) actor \<Rightarrow> ('i, 'b) topic \<Rightarrow> bool" where
  "configured_topic s t = list_ex (\<lambda>spec. topic_of spec = Some t) (market_specs (ac_plan s))"

text \<open>
  Trades and depth of a Predict market are also accepted when the actor opened their streams itself
  (\<open>native\<close>); depth is only accepted when it is planned, whatever the venue.
\<close>

definition accepts_item :: "('i, 'b) actor_env \<Rightarrow> bool \<Rightarrow> ('i, 'b) topic \<Rightarrow> ('i, 'b, 'p, 'd) actor \<Rightarrow> bool" where
  "accepts_item env native t s =
     (let accepts = accepts_market_data env (topic_instrument (ae_bar_instrument env) t) (configured_topic s t) s
      in case t of
           TradeTopic _ \<Rightarrow> native \<or> accepts
         | DepthTopic _ \<Rightarrow> native \<or> (configured_topic s t \<and> accepts)
         | _ \<Rightarrow> accepts)"

definition optional_submit ::
  "('i, 'b) actor_env \<Rightarrow> capture_flush_family \<Rightarrow> ('i, 'b) command \<Rightarrow> ('i, 'b, 'p, 'd) actor \<Rightarrow> (unit, ('i, 'b, 'p, 'd) actor) outcome" where
  "optional_submit env family c s = (if ae_writer env family then call env c s else (Inl NoWriter, s))"

definition submit_market_data ::
  "('i, 'b) actor_env \<Rightarrow> bool \<Rightarrow> ('i, 'b) topic \<Rightarrow> ('i, 'b, 'p, 'd) actor \<Rightarrow> (unit, ('i, 'b, 'p, 'd) actor) outcome" where
  "submit_market_data env native t s =
     (if \<not> accepts_item env native t s then (Inr (), s) else optional_submit env (topic_family t) (RecordMarket t) s)"

subsection \<open>Books\<close>

record 'i book_message =
  bk_instrument :: 'i
  bk_snapshot :: bool
  bk_empty :: bool
  bk_managed :: bool
  bk_affected :: "'i list option"

text \<open>
  An instrument is in recovery from the moment one of its messages may be lost until a full image of
  its book has been handed to the writer, after the part that may have a gap has been sealed.
\<close>

definition note_affected :: "('i, 'b) actor_env \<Rightarrow> 'i::linorder book_message \<Rightarrow> ('i, 'b, 'p, 'd) actor \<Rightarrow> ('i, 'b, 'p, 'd) actor" where
  "note_affected env b s =
     (case (if ae_writer env BookDeltas then bk_affected b else None) of
        None \<Rightarrow> s
      | Some affected \<Rightarrow> s\<lparr>ac_book_recovery := btree_extend (ac_book_recovery s)
          (filter (\<lambda>i. i \<in> set affected) (map bs_instrument (pl_book_deltas (ac_plan s)) @ [bk_instrument b]))\<rparr>)"

definition submit_book_delta_batch ::
  "('i::linorder, 'b) actor_env \<Rightarrow> 'i book_message \<Rightarrow> ('i, 'b, 'p, 'd) actor \<Rightarrow> (unit, ('i, 'b, 'p, 'd) actor) outcome" where
  "submit_book_delta_batch env b s =
     (let i = bk_instrument b
      in if \<not> accepts_market_data env i (configured_topic s (DeltasTopic i)) s then (Inr (), s)
         else if bk_empty b then (Inr (), s)
         else let s = note_affected env b s; recovery = i \<in> set (ac_book_recovery s)
              in if recovery \<and> \<not> bk_snapshot b \<and> \<not> bk_managed b
                 then (Inl (ActorError ''L2 recovery waits for a managed book or source snapshot''), s)
                 else let form = (if bk_snapshot b then SnapshotForm else if recovery then CheckpointForm else DeltaForm)
                      in case optional_submit env BookDeltas (RecordBook i form recovery) s of
                           (Inl e, s) \<Rightarrow> (Inl e, s\<lparr>ac_book_recovery := btree_extend (ac_book_recovery s) [i]\<rparr>)
                         | (Inr u, s) \<Rightarrow> (Inr u, if recovery then s\<lparr>ac_book_recovery := btree_remove i (ac_book_recovery s)\<rparr> else s))"

subsection \<open>Definitions that are written again\<close>

text \<open>A pass over the waiting definitions submits all of them and returns the first error.\<close>

fun resubmit ::
  "('i::linorder, 'b) actor_env \<Rightarrow> 'i list \<Rightarrow> actor_error option \<Rightarrow> ('i, 'b, 'p, 'd) actor \<Rightarrow> (unit, ('i, 'b, 'p, 'd) actor) outcome" where
  "resubmit env [] failure s = (case failure of None \<Rightarrow> (Inr (), s) | Some e \<Rightarrow> (Inl e, s))"
| "resubmit env (i # is) failure s =
     (case ac_cache s i of
        None \<Rightarrow> resubmit env is failure s
      | Some inst \<Rightarrow> (case submit_instrument env inst s of
            (Inr _, s) \<Rightarrow> resubmit env is failure s
          | (Inl e, s) \<Rightarrow> resubmit env is (case failure of None \<Rightarrow> Some e | Some f \<Rightarrow> Some f) s))"

definition retry_instrument_definitions ::
  "('i::linorder, 'b) actor_env \<Rightarrow> 'i list option \<Rightarrow> 'i list \<Rightarrow> ('i, 'b, 'p, 'd) actor \<Rightarrow> (unit, ('i, 'b, 'p, 'd) actor) outcome" where
  "retry_instrument_definitions env affected predict s =
     (let s = (case (if ae_writer env Instruments then affected else None) of
                 None \<Rightarrow> s
               | Some lost \<Rightarrow> s\<lparr>ac_pending_definitions := btree_extend (ac_pending_definitions s)
                   (filter (\<lambda>i. i \<in> set lost) (planned_instrument_ids (ac_plan s) @ predict))\<rparr>)
      in resubmit env (ac_pending_definitions s) None s)"

subsection \<open>No stream is touched\<close>

lemma quiet_optional_submit: "\<not> market_command c \<Longrightarrow> quiet s (snd (optional_submit env family c s))"
  by (simp add: optional_submit_def quiet_call)

lemma quiet_submit_market_data: "quiet s (snd (submit_market_data env native t s))"
  by (simp add: submit_market_data_def quiet_optional_submit)

lemma quiet_recovery [simp]: "quiet s (s\<lparr>ac_book_recovery := r\<rparr>)"
  by (simp add: quiet_def stream_core_def open_topics_def)

lemma quiet_waiting [simp]: "quiet s (s\<lparr>ac_pending_definitions := r\<rparr>)"
  by (simp add: quiet_def stream_core_def open_topics_def)

lemma quiet_note: "quiet s (note_affected env b s)"
  by (simp add: note_affected_def split: option.split)

lemma quiet_book_batch: "quiet s (snd (submit_book_delta_batch env b s))"
proof -
  have "quiet t (snd (case optional_submit env BookDeltas (RecordBook i form z) t of
      (Inl e, s) \<Rightarrow> (Inl e, s\<lparr>ac_book_recovery := f s\<rparr>)
    | (Inr u, s) \<Rightarrow> (Inr u, if c then s\<lparr>ac_book_recovery := g s\<rparr> else s)))" for t i form z f c g
    using quiet_optional_submit [of "RecordBook i form z" t env BookDeltas]
    by (cases "optional_submit env BookDeltas (RecordBook i form z) t") (auto split: sum.split intro: quiet_trans)
  note store = quiet_trans [OF quiet_note this]
  have pick: "quiet s (snd a) \<Longrightarrow> quiet s (snd b) \<Longrightarrow> quiet s (snd (if c then a else b))" for a b c by simp
  show ?thesis unfolding submit_book_delta_batch_def Let_def by (intro pick store) (simp_all add: quiet_note)
qed

lemma quiet_resubmit: "quiet s (snd (resubmit env is failure s))"
proof (induction "is" arbitrary: failure s)
  case Nil
  then show ?case by (simp split: option.split)
next
  case (Cons i "is")
  then show ?case
    using quiet_submit_instrument [of s env]
    by (auto split: option.split prod.split sum.split) (metis quiet_trans snd_conv)+
qed

lemma quiet_retry_definitions: "quiet s (snd (retry_instrument_definitions env affected predict s))"
  unfolding retry_instrument_definitions_def Let_def
  by (rule quiet_trans [OF _ quiet_resubmit]) (simp split: option.split)

subsection \<open>The recovery of a book\<close>

datatype book_result = Lost | Passed | Stored book_form bool

definition book_result_of :: "(unit, ('i, 'b, 'p, 'd) actor) outcome \<Rightarrow> ('i, 'b, 'p, 'd) actor \<Rightarrow> book_result" where
  "book_result_of r s =
     (if isl (fst r) then Lost
      else case drop (length (ac_commands s)) (ac_commands (snd r)) of
             [RecordBook _ form sealed] \<Rightarrow> Stored form sealed
           | _ \<Rightarrow> Passed)"

text \<open>What becomes of a sequence of book messages.\<close>

fun book_run ::
  "('i::linorder, 'b) actor_env \<Rightarrow> 'i book_message list \<Rightarrow> ('i, 'b, 'p, 'd) actor \<Rightarrow> ('i \<times> book_result) list" where
  "book_run env [] s = []"
| "book_run env (b # bs) s =
     (let r = submit_book_delta_batch env b s in (bk_instrument b, book_result_of r s) # book_run env bs (snd r))"

lemma note_affected_effect:
  "set (ac_book_recovery s) \<subseteq> set (ac_book_recovery (note_affected env b s))"
  "ac_commands (note_affected env b s) = ac_commands s" "ac_calls (note_affected env b s) = ac_calls s"
  by (auto simp: note_affected_def split: option.split)

text \<open>One message: what is stored of a book in recovery, and when an instrument enters or leaves the recovery.\<close>

lemma book_cases:
  fixes s :: "('i::linorder, 'b, 'p, 'd) actor" and env :: "('i, 'b) actor_env" and b :: "'i book_message"
  defines "r \<equiv> submit_book_delta_batch env b s" and "noted \<equiv> note_affected env b s" and "i \<equiv> bk_instrument b"
  defines "late \<equiv> i \<in> set (ac_book_recovery noted)"
  defines "form \<equiv> if bk_snapshot b then SnapshotForm else if late then CheckpointForm else DeltaForm"
  obtains (ignored) "r = (Inr (), s)" "\<not> (accepts_market_data env i (configured_topic s (DeltasTopic i)) s \<and> \<not> bk_empty b)"
    | (waits) e where "r = (Inl e, noted)" late
    | (lost) e n where "r = (Inl e, noted\<lparr>ac_calls := n, ac_book_recovery := btree_extend (ac_book_recovery noted) [i]\<rparr>)"
    | (stored) t where "r = (Inr (), t)" "ac_commands t = ac_commands s @ [RecordBook i form late]"
        "ac_book_recovery t = (if late then btree_remove i (ac_book_recovery noted) else ac_book_recovery noted)"
proof (cases "accepts_market_data env i (configured_topic s (DeltasTopic i)) s \<and> \<not> bk_empty b")
  case False
  then show thesis by (intro ignored) (auto simp: r_def submit_book_delta_batch_def i_def Let_def)
next
  case go: True
  show thesis
  proof (cases "late \<and> \<not> bk_snapshot b \<and> \<not> bk_managed b")
    case True
    then show thesis using go by (intro waits) (auto simp: r_def submit_book_delta_batch_def late_def i_def noted_def Let_def)
  next
    case False
    have r: "r = (case optional_submit env BookDeltas (RecordBook i form late) noted of
        (Inl e, s) \<Rightarrow> (Inl e, s\<lparr>ac_book_recovery := btree_extend (ac_book_recovery s) [i]\<rparr>)
      | (Inr u, s) \<Rightarrow> (Inr u, if late then s\<lparr>ac_book_recovery := btree_remove i (ac_book_recovery s)\<rparr> else s))"
      using go False unfolding r_def submit_book_delta_batch_def Let_def i_def [symmetric] noted_def [symmetric] late_def [symmetric]
        form_def by auto
    show thesis
    proof (cases "ae_writer env BookDeltas \<and> ae_call env (ac_calls noted)")
      case True
      then show thesis
        by (intro stored, unfold r) (auto simp: optional_submit_def call_def call_ok_def emit_def noted_def note_affected_effect)
    next
      case False
      have "r = (Inl (if ae_writer env BookDeltas then CallFailed else NoWriter),
          noted\<lparr>ac_calls := (if ae_writer env BookDeltas then Suc (ac_calls noted) else ac_calls noted),
                ac_book_recovery := btree_extend (ac_book_recovery noted) [i]\<rparr>)"
        using False unfolding r by (auto simp: optional_submit_def call_def call_ok_def)
      then show thesis by (rule lost)
    qed
  qed
qed

lemma book_step:
  fixes s :: "('i::linorder, 'b, 'p, 'd) actor" and env :: "('i, 'b) actor_env" and b :: "'i book_message"
  defines "r \<equiv> submit_book_delta_batch env b s" and "i \<equiv> bk_instrument b"
  shows "book_result_of r s = Lost \<Longrightarrow> i \<in> set (ac_book_recovery (snd r))"
    "book_result_of r s = Stored form sealed \<Longrightarrow> i \<in> set (ac_book_recovery (note_affected env b s)) \<Longrightarrow> form \<noteq> DeltaForm \<and> sealed"
    "book_result_of r s = Stored DeltaForm sealed \<Longrightarrow> \<not> sealed"
    "j \<in> set (ac_book_recovery s) \<Longrightarrow> j \<noteq> i \<or> (\<forall>form. book_result_of r s \<noteq> Stored form True) \<Longrightarrow> j \<in> set (ac_book_recovery (snd r))"
  using note_affected_effect(1) [of s env b] unfolding r_def i_def
  by (cases rule: book_cases [of env b s]; auto simp: book_result_of_def btree_remove_def split: if_splits)+

text \<open>From a state with an instrument in recovery, its next stored message is a full image after a seal.\<close>

lemma recovery_first:
  assumes "i \<in> set (ac_book_recovery s)" "k < length bs" "book_run env bs s ! k = (i, Stored DeltaForm sealed)"
  shows "\<exists>c < k. \<exists>form. book_run env bs s ! c = (i, Stored form True)"
  using assms
proof (induction bs arbitrary: s k)
  case (Cons b bs)
  let ?r = "submit_book_delta_batch env b s"
  have run: "book_run env (b # bs) s = (bk_instrument b, book_result_of ?r s) # book_run env bs (snd ?r)" by (simp add: Let_def)
  show ?case
  proof (cases k)
    case 0
    have "i \<in> set (ac_book_recovery (note_affected env b s))" using note_affected_effect(1) Cons.prems(1) by blast
    then show ?thesis using Cons.prems(3) 0 book_step(2) [of env b s DeltaForm sealed] unfolding run by auto
  next
    case (Suc m)
    show ?thesis
    proof (cases "bk_instrument b = i \<and> (\<exists>form. book_result_of ?r s = Stored form True)")
      case True
      then show ?thesis unfolding run Suc by (intro exI [of _ 0]) auto
    next
      case False
      then have "i \<in> set (ac_book_recovery (snd ?r))" using book_step(4) [OF Cons.prems(1), of b env] by auto
      then obtain c form where "c < m" "book_run env bs (snd ?r) ! c = (i, Stored form True)"
        using Cons.IH [of "snd ?r" m] Cons.prems(2,3) unfolding run Suc by auto
      then show ?thesis unfolding run Suc by (intro exI [of _ "Suc c"]) auto
    qed
  qed
qed simp

lemma book_run_length [simp]: "length (book_run env bs s) = length bs"
  by (induction bs arbitrary: s) (simp_all add: Let_def)

lemma sealed_full: "c < length bs \<Longrightarrow> book_run env bs s ! c = (j, Stored form True) \<Longrightarrow> form \<noteq> DeltaForm"
proof (induction bs arbitrary: s c)
  case (Cons m bs)
  then show ?case using book_step(3) [of env m s True] by (cases c) (auto simp: Let_def)
qed simp

text \<open>A message with which the actor learns of a loss of a partition.\<close>

definition reports :: "('i, 'b) actor_env \<Rightarrow> 'i book_message \<Rightarrow> 'i \<Rightarrow> ('i, 'b, 'p, 'd) actor \<Rightarrow> bool" where
  "reports env m i s \<longleftrightarrow> accepts_market_data env (bk_instrument m) (configured_topic s (DeltasTopic (bk_instrument m))) s
     \<and> \<not> bk_empty m \<and> ae_writer env BookDeltas \<and> (\<exists>lost. bk_affected m = Some lost \<and> i \<in> set lost)
     \<and> (i = bk_instrument m \<or> i \<in> bs_instrument ` set (pl_book_deltas (ac_plan s)))"

lemma reports_quiet: "quiet s s' \<Longrightarrow> reports env m i s' = reports env m i s"
  by (simp add: quiet_def stream_core_def reports_def accepts_market_data_def configured_topic_def)

lemma reports_step:
  assumes "reports env m i s"
  defines "r \<equiv> submit_book_delta_batch env m s"
  shows "i \<in> set (ac_book_recovery (snd r)) \<or> (bk_instrument m = i \<and> (\<exists>form. form \<noteq> DeltaForm \<and> book_result_of r s = Stored form True))"
proof -
  have n: "i \<in> set (ac_book_recovery (note_affected env m s))"
    using assms(1) by (auto simp: reports_def note_affected_def)
  show ?thesis
  proof (cases rule: book_cases [of env m s])
    case ignored
    then show ?thesis using assms(1) by (simp add: reports_def)
  qed (use n in \<open>auto simp: r_def book_result_of_def btree_remove_def\<close>)
qed

text \<open>C8: After a message of a book was lost, or its writer reported a loss of its partition, no
  incremental message of that book is stored again before a full image that starts a new part:
  a part never continues across a hole, whatever calls fail.\<close>

theorem book_hole_closed:
  assumes "a < b" "b < length bs" "book_run env bs s ! a = (i, Lost) \<or> reports env (bs ! a) i s"
    and "book_run env bs s ! b = (i, Stored DeltaForm sealed)"
  shows "\<exists>c form. a \<le> c \<and> c < b \<and> form \<noteq> DeltaForm \<and> book_run env bs s ! c = (i, Stored form True)"
  using assms
proof (induction bs arbitrary: s a b)
  case (Cons m bs)
  let ?r = "submit_book_delta_batch env m s"
  have run: "book_run env (m # bs) s = (bk_instrument m, book_result_of ?r s) # book_run env bs (snd ?r)" by (simp add: Let_def)
  obtain b' where b: "b = Suc b'" using Cons.prems(1) by (cases b) auto
  show ?case
  proof (cases a)
    case 0
    have "i \<in> set (ac_book_recovery (snd ?r))
        \<or> bk_instrument m = i \<and> (\<exists>form. form \<noteq> DeltaForm \<and> book_result_of ?r s = Stored form True)"
      using book_step(1) [of env m s] reports_step [of env m i s] Cons.prems(3) unfolding run 0 by auto
    then show ?thesis
    proof
      assume "i \<in> set (ac_book_recovery (snd ?r))"
      then obtain c form where c: "c < b'" "book_run env bs (snd ?r) ! c = (i, Stored form True)"
        using recovery_first [of i "snd ?r" b' bs env sealed] Cons.prems(2,4) unfolding run b by auto
      then have "form \<noteq> DeltaForm" using sealed_full [of c bs env "snd ?r" i form] Cons.prems(2) b by auto
      then show ?thesis using c unfolding run 0 b by (intro exI [of _ "Suc c"] exI [of _ form]) auto
    qed (auto simp: run 0 b)
  next
    case (Suc a')
    have "book_run env bs (snd ?r) ! a' = (i, Lost) \<or> reports env (bs ! a') i (snd ?r)"
      using Cons.prems(3) reports_quiet [OF quiet_book_batch [of s env m], of env "bs ! a'" i] unfolding run Suc by auto
    then obtain c form where "a' \<le> c" "c < b'" "form \<noteq> DeltaForm" "book_run env bs (snd ?r) ! c = (i, Stored form True)"
      using Cons.IH [of a' b' "snd ?r"] Cons.prems unfolding run Suc b by auto
    then show ?thesis unfolding run Suc b by (intro exI [of _ "Suc c"] exI [of _ form]) auto
  qed
qed simp

subsection \<open>The waiting definitions\<close>

definition waits_on :: "'i \<Rightarrow> ('i, 'b, 'p, 'd) actor \<Rightarrow> ('i, 'b, 'p, 'd) actor \<Rightarrow> bool" where
  "waits_on i s s' \<longleftrightarrow> (\<exists>new. ac_commands s' = ac_commands s @ new \<and>
     (i \<in> set (ac_pending_definitions s) \<longrightarrow>
        i \<in> set (ac_pending_definitions s') \<or> (\<exists>d. nd_id d = i \<and> SubmitDefinition d \<in> set new)))"

lemma waits_refl [simp]: "waits_on i s s"
  by (simp add: waits_on_def)

lemma waits_trans: "waits_on i s s' \<Longrightarrow> waits_on i s' s'' \<Longrightarrow> waits_on i s s''"
  unfolding waits_on_def by (elim exE) (rule_tac x = "new @ newa" in exI, auto)

lemma waits_cache: "waits_on i s (snd (if b then cache_definition env d s else (Inr (), s)))"
  by (auto simp: cache_definition_def call_ok_def waits_on_def split: bool.split)

lemma waits_store:
  "waits_on i s (snd (case (if b then call env (SubmitDefinition d) s else (Inl NoWriter, s)) of
      (Inl e, s1) \<Rightarrow> (Inl e, s1\<lparr>ac_pending_definitions := btree_extend (ac_pending_definitions s1) [nd_id d]\<rparr>)
    | (Inr _, s1) \<Rightarrow> (Inr (), definition_stored d rolling s1)))"
  by (auto simp: call_def call_ok_def emit_def waits_on_def definition_stored_def Let_def btree_remove_def split: bool.split)

lemma waits_and_then:
  "waits_on i s (snd m) \<Longrightarrow> (\<And>a t. waits_on i t (snd (k a t))) \<Longrightarrow> waits_on i s (snd (and_then m k))"
  by (cases m) (auto simp: and_then_def split: sum.split intro: waits_trans)

lemma waits_submit: "waits_on i s (snd (submit_instrument env inst s))"
proof -
  have pick: "waits_on i t (snd a) \<Longrightarrow> waits_on i t (snd b) \<Longrightarrow> waits_on i t (snd (if c then a else b))" for t a b c by simp
  show ?thesis unfolding submit_instrument_def Let_def
    by (intro waits_and_then waits_cache pick) (simp_all add: waits_store)
qed

lemma waits_resubmit: "waits_on i s (snd (resubmit env is failure s))"
proof (induction "is" arbitrary: failure s)
  case Nil
  then show ?case by (simp split: option.split)
next
  case (Cons j "is")
  show ?case
  proof (cases "ac_cache s j")
    case None
    then show ?thesis using Cons.IH by simp
  next
    case (Some inst)
    have "waits_on i s (snd (submit_instrument env inst s))" by (rule waits_submit)
    then show ?thesis using Some Cons.IH
      by (cases "submit_instrument env inst s") (auto split: sum.split option.split intro: waits_trans)
  qed
qed

lemma retry_waits:
  assumes "i \<in> set (ac_pending_definitions s)"
  shows "i \<in> set (ac_pending_definitions (snd (retry_instrument_definitions env affected predict s)))
    \<or> (\<exists>d. nd_id d = i \<and> SubmitDefinition d \<in> set (drop (length (ac_commands s))
        (ac_commands (snd (retry_instrument_definitions env affected predict s)))))"
proof -
  define t where "t = (case (if ae_writer env Instruments then affected else None) of
       None \<Rightarrow> s
     | Some lost \<Rightarrow> s\<lparr>ac_pending_definitions := btree_extend (ac_pending_definitions s)
         (filter (\<lambda>i. i \<in> set lost) (planned_instrument_ids (ac_plan s) @ predict))\<rparr>)"
  have t: "i \<in> set (ac_pending_definitions t)" "ac_commands t = ac_commands s"
    using assms by (auto simp: t_def split: option.split)
  have "snd (retry_instrument_definitions env affected predict s) = snd (resubmit env (ac_pending_definitions t) None t)"
    unfolding retry_instrument_definitions_def t_def Let_def ..
  then show ?thesis using waits_resubmit [of i t env "ac_pending_definitions t" None] t unfolding waits_on_def by auto
qed

text \<open>C30: A definition that waits to be written again is never dropped: after a pass it was handed to
  the writer or is still waiting, whatever calls fail.\<close>

theorem waiting_definition_kept:
  assumes "i \<in> set (ac_pending_definitions s)"
  shows "i \<in> set (ac_pending_definitions (snd (retry_instrument_definitions env affected predict s)))
    \<or> (\<exists>d. nd_id d = i \<and> SubmitDefinition d \<in> set (drop (length (ac_commands s))
        (ac_commands (snd (retry_instrument_definitions env affected predict s)))))"
  by (rule retry_waits [OF assms])

end
