(* ===== verification/Actor_Hip4.thy ===== *)
theory Actor_Hip4
  imports Actor_Keeps
begin

section \<open>Rolling HIP-4 markets\<close>

text \<open>
  \<open>actor/hip4_rolling.rs\<close>: discover the market of the running quarter hour, subscribe it beside its
  predecessor, and retire the predecessor only when both books of the new market are recorded.

  The answer of the discovery worker, if one has come, is an argument of the refresh; the parser of
  the venue and what the selection needs of the environment are parameters.
\<close>

definition rolling_timer :: string where "rolling_timer = ''HIP4_ROLLING''"

definition set_rolling :: "'i rolling_state \<Rightarrow> ('i, 'b, 'p, 'd) actor \<Rightarrow> ('i, 'b, 'p, 'd) actor" where
  "set_rolling h s = s\<lparr>ac_rolling := h\<rparr>"

text \<open>
  What is retired is purged one turn later, when the subscriber counts are those of other owners.
  A count that cannot be taken ends the loop, and what has not been looked at is dropped.
\<close>

fun rolling_release ::
  "('i::linorder, 'b) actor_env \<Rightarrow> 'i list \<Rightarrow> ('i, 'b, 'p, 'd) actor \<Rightarrow> (unit, ('i, 'b, 'p, 'd) actor) outcome" where
  "rolling_release env [] s = (Inr (), s)"
| "rolling_release env (i # is) s =
     (if planned s i then rolling_release env is s
      else and_then (unowned env i [DeltasCount, TradesCount] s) (\<lambda>free s.
        rolling_release env is (if free then purge_instrument_from_cache i s else s)))"

definition apply_rolling_market ::
  "(json \<Rightarrow> nat \<Rightarrow> 'i definition_record list option) \<Rightarrow> ('i::linorder, 'b) actor_env \<Rightarrow> nat \<Rightarrow> string \<Rightarrow> rolling_market
   \<Rightarrow> ('i, 'b, 'p, 'd) actor \<Rightarrow> (unit, ('i, 'b, 'p, 'd) actor) outcome" where
  "apply_rolling_market parse env now asset market s =
     (let h = ac_rolling s;
          series = (case map_of (hv_series h) asset of Some sr \<Rightarrow> sr | None \<Rightarrow> series_default);
          s = set_rolling (h\<lparr>hv_series := btree_insert asset series (hv_series h)\<rparr>) s
      in if sr_current series = Some (rm_outcome market) \<or> sr_pending series \<noteq> None \<or> now < sr_retry_after series
         then (Inr (), s)
         else case rolling_recording parse market now of
           None \<Rightarrow> (Inl (ActorError ''recording''), s)
         | Some r \<Rightarrow>
            let previous = ac_plan s; h = ac_rolling s;
                s = sync_plan_state (set_rolling (h\<lparr>
                      hv_markets := btree_insert (rm_outcome market) r (hv_markets h),
                      hv_series := btree_insert asset (series\<lparr>sr_pending := Some (rm_outcome market)\<rparr>) (hv_series h)\<rparr>) s);
                add = capture_plan_difference (ac_plan s) previous
            in and_then (each_ok (bootstrap_instrument env) (planned_instrument_ids add) s) (\<lambda>_ s.
                 subscribe_plan env add s))"

fun apply_rolling_assets ::
  "'t hip4_env \<Rightarrow> (json \<Rightarrow> nat \<Rightarrow> 'i definition_record list option) \<Rightarrow> ('i::linorder, 'b) actor_env \<Rightarrow> nat \<Rightarrow> json \<Rightarrow> string list
   \<Rightarrow> ('i, 'b, 'p, 'd) actor \<Rightarrow> (unit, ('i, 'b, 'p, 'd) actor) outcome" where
  "apply_rolling_assets api parse env now payload [] s = (Inr (), s)"
| "apply_rolling_assets api parse env now payload (asset # assets) s =
     (case select_rolling_market api payload asset now of
        Inr (Some market) \<Rightarrow> and_then (apply_rolling_market parse env now asset market s) (\<lambda>_ s.
          apply_rolling_assets api parse env now payload assets s)
      | _ \<Rightarrow> apply_rolling_assets api parse env now payload assets s)"

definition apply_hip4_rolling_payload ::
  "'t hip4_env \<Rightarrow> (json \<Rightarrow> nat \<Rightarrow> 'i definition_record list option) \<Rightarrow> ('i::linorder, 'b) actor_env \<Rightarrow> json
   \<Rightarrow> ('i, 'b, 'p, 'd) actor \<Rightarrow> (unit, ('i, 'b, 'p, 'd) actor) outcome" where
  "apply_hip4_rolling_payload api parse env payload s =
     (case hv_config (ac_rolling s) of
        None \<Rightarrow> (Inl ActorPanic, s)
      | Some config \<Rightarrow>
         let (now, s) = read_clock env s
         in apply_rolling_assets api parse env now payload (rc_underlyings config) s)"

text \<open>The wait before the next attempt, a product of \<open>u64\<close>.\<close>

definition retry_ns :: "rolling_config \<Rightarrow> nat" where
  "retry_ns config = rc_retry_secs config * 1000000000 mod 2 ^ 64"

definition books_ready :: "'i recording \<Rightarrow> ('i, 'b, 'p, 'd) actor \<Rightarrow> bool" where
  "books_ready r s = list_all (\<lambda>i. i \<in> set (hv_ready (ac_rolling s)) \<and> i \<notin> set (ac_pending_definitions s)) (recording_ids r)"

definition reconcile_pending ::
  "('i, 'b) actor_env \<Rightarrow> rolling_config \<Rightarrow> nat \<Rightarrow> nat \<Rightarrow> series \<Rightarrow> ('i, 'b, 'p, 'd) actor
   \<Rightarrow> (series \<times> nat list, ('i, 'b, 'p, 'd) actor) outcome" where
  "reconcile_pending env config now market series s =
     (case map_of (hv_markets (ac_rolling s)) market of
        None \<Rightarrow> (Inl ActorPanic, s)
      | Some r \<Rightarrow>
         if books_ready r s \<and> now < rm_end_ns (rg_market r)
         then and_then (optional_flush_all env Instruments s) (\<lambda>_ s.
              and_then (optional_flush_all env BookDeltas s) (\<lambda>_ s.
                (Inr (series\<lparr>sr_current := Some market, sr_pending := None\<rparr>, opt_list (sr_current series)), s)))
         else if rm_end_ns (rg_market r) \<le> now
         then (Inr (series\<lparr>sr_pending := None, sr_retry_after := sat_add now (retry_ns config)\<rparr>, [market]), s)
         else (Inr (series, []), s))"

fun reconcile_assets ::
  "('i, 'b) actor_env \<Rightarrow> rolling_config \<Rightarrow> nat \<Rightarrow> string list \<Rightarrow> nat list \<Rightarrow> ('i, 'b, 'p, 'd) actor
   \<Rightarrow> (nat list, ('i, 'b, 'p, 'd) actor) outcome" where
  "reconcile_assets env config now [] retire s = (Inr retire, s)"
| "reconcile_assets env config now (asset # assets) retire s =
     (let series = (case map_of (hv_series (ac_rolling s)) asset of Some sr \<Rightarrow> sr | None \<Rightarrow> series_default)
      in and_then (case sr_pending series of
             None \<Rightarrow> (Inr (series, []), s)
           | Some market \<Rightarrow> reconcile_pending env config now market series s) (\<lambda>(series, gone) s.
           reconcile_assets env config now assets (btree_extend retire gone)
             (set_rolling ((ac_rolling s)\<lparr>hv_series := btree_insert asset series (hv_series (ac_rolling s))\<rparr>) s)))"

definition release_recording :: "('i, 'b, 'p, 'd) actor \<Rightarrow> nat \<Rightarrow> ('i, 'b, 'p, 'd) actor" where
  "release_recording s market =
     (let h = ac_rolling s
      in case map_of (hv_markets h) market of
           None \<Rightarrow> s
         | Some r \<Rightarrow> set_rolling (h\<lparr>hv_markets := AList.delete market (hv_markets h),
             hv_ready := filter (\<lambda>i. i \<notin> set (recording_ids r)) (hv_ready h),
             hv_definitions_recorded := filter (\<lambda>i. i \<notin> set (recording_ids r)) (hv_definitions_recorded h)\<rparr>) s)"

text \<open>Trades and books are closed only where they were opened; the other families of the difference always.\<close>

definition live_only :: "('i, 'b, 'p, 'd) actor \<Rightarrow> ('i, 'b) capture_plan \<Rightarrow> ('i, 'b) capture_plan" where
  "live_only s p = p\<lparr>pl_trades := filter (\<lambda>x. sp_instrument x \<in> set (ac_live s)) (pl_trades p),
     pl_book_deltas := filter (\<lambda>x. bs_instrument x \<in> set (ac_live s)) (pl_book_deltas p)\<rparr>"

definition retire_instrument :: "('i::linorder, 'b, 'p, 'd) actor \<Rightarrow> 'i \<Rightarrow> ('i, 'b, 'p, 'd) actor" where
  "retire_instrument s i =
     (if planned s i then s
      else let s = forget_instrument_runtime_state i s
           in set_rolling ((ac_rolling s)\<lparr>hv_retiring := btree_extend (hv_retiring (ac_rolling s)) [i]\<rparr>) s)"

definition retire_hip4_rolling ::
  "('i::linorder, 'b) actor_env \<Rightarrow> nat list \<Rightarrow> ('i, 'b, 'p, 'd) actor \<Rightarrow> (unit, ('i, 'b, 'p, 'd) actor) outcome" where
  "retire_hip4_rolling env markets s =
     (if markets = [] then (Inr (), s)
      else let previous = ac_plan s;
               s = sync_plan_state (foldl release_recording s markets);
               remove = capture_plan_difference previous (ac_plan s);
               s = unsubscribe_plan env (live_only s remove) s;
               seals = (if ae_writer env BookDeltas then map (\<lambda>x. SealInstrument BookDeltas (bs_instrument x)) (pl_book_deltas remove) else [])
                 @ (if ae_writer env Trades then map (\<lambda>x. SealInstrument Trades (sp_instrument x)) (pl_trades remove) else [])
           in and_then (each_ok (call env) seals s) (\<lambda>_ s.
                (Inr (), foldl retire_instrument s (planned_instrument_ids remove))))"

definition reconcile_hip4_rolling ::
  "('i::linorder, 'b) actor_env \<Rightarrow> ('i, 'b, 'p, 'd) actor \<Rightarrow> (unit, ('i, 'b, 'p, 'd) actor) outcome" where
  "reconcile_hip4_rolling env s =
     (case hv_config (ac_rolling s) of
        None \<Rightarrow> (Inr (), s)
      | Some config \<Rightarrow>
         let (now, s) = read_clock env s
         in and_then (reconcile_assets env config now (rc_underlyings config) [] s) (\<lambda>retire s.
              retire_hip4_rolling env retire s))"

definition discovery_due :: "rolling_config \<Rightarrow> nat \<Rightarrow> 'i rolling_state \<Rightarrow> bool" where
  "discovery_due config now h = list_ex (\<lambda>asset.
     case map_of (hv_series h) asset of
       None \<Rightarrow> True
     | Some series \<Rightarrow> sr_pending series = None \<and> sr_retry_after series \<le> now
         \<and> (case Option.bind (sr_current series) (map_of (hv_markets h)) of
              None \<Rightarrow> True
            | Some r \<Rightarrow> rm_end_ns (rg_market r) \<le> now)) (rc_underlyings config)"

definition take_discovery ::
  "'t hip4_env \<Rightarrow> (json \<Rightarrow> nat \<Rightarrow> 'i definition_record list option) \<Rightarrow> ('i::linorder, 'b) actor_env \<Rightarrow> rolling_config \<Rightarrow> nat
   \<Rightarrow> (string + json) option \<Rightarrow> ('i, 'b, 'p, 'd) actor \<Rightarrow> (unit, ('i, 'b, 'p, 'd) actor) outcome" where
  "take_discovery api parse env config now answer s =
     (if \<not> hv_discovery (ac_rolling s) then (Inr (), s)
      else case answer of
        None \<Rightarrow> (Inr (), s)
      | Some result \<Rightarrow>
         let s = set_rolling ((ac_rolling s)\<lparr>hv_discovery := False, hv_next_discovery_ns := sat_add now (retry_ns config)\<rparr>) s
         in (case result of
               Inl _ \<Rightarrow> (Inr (), s)
             | Inr payload \<Rightarrow> apply_hip4_rolling_payload api parse env payload s))"

definition refresh_hip4_rolling ::
  "'t hip4_env \<Rightarrow> (json \<Rightarrow> nat \<Rightarrow> 'i definition_record list option) \<Rightarrow> ('i::linorder, 'b) actor_env
   \<Rightarrow> (string + json) option \<Rightarrow> ('i, 'b, 'p, 'd) actor \<Rightarrow> (unit, ('i, 'b, 'p, 'd) actor) outcome" where
  "refresh_hip4_rolling api parse env answer s =
     (case hv_config (ac_rolling s) of
        None \<Rightarrow> (Inr (), s)
      | Some config \<Rightarrow>
         let (now, s) = read_clock env s;
             retiring = hv_retiring (ac_rolling s);
             s = set_rolling ((ac_rolling s)\<lparr>hv_retiring := []\<rparr>) s
         in and_then (rolling_release env retiring s) (\<lambda>_ s.
            and_then (take_discovery api parse env config now answer s) (\<lambda>_ s.
            and_then (reconcile_hip4_rolling env s) (\<lambda>_ s.
              if discovery_due config now (ac_rolling s) \<and> \<not> hv_discovery (ac_rolling s)
                 \<and> hv_next_discovery_ns (ac_rolling s) \<le> now
              then (case call_ok env s of
                      (True, s) \<Rightarrow> (Inr (), set_rolling ((ac_rolling s)\<lparr>hv_discovery := True\<rparr>) s)
                    | (False, s) \<Rightarrow> (Inl CallFailed, s))
              else (Inr (), s)))))"

definition start_hip4_rolling ::
  "'t hip4_env \<Rightarrow> (json \<Rightarrow> nat \<Rightarrow> 'i definition_record list option) \<Rightarrow> ('i::linorder, 'b) actor_env
   \<Rightarrow> (string + json) option \<Rightarrow> ('i, 'b, 'p, 'd) actor \<Rightarrow> (unit, ('i, 'b, 'p, 'd) actor) outcome" where
  "start_hip4_rolling api parse env answer s =
     (if hv_config (ac_rolling s) = None then (Inr (), s)
      else case call_ok env s of
        (False, s) \<Rightarrow> (Inl CallFailed, s)
      | (True, s) \<Rightarrow> refresh_hip4_rolling api parse env answer
                      (s\<lparr>ac_timers := (ac_timers s)(rolling_timer := Some 1000000000)\<rparr>))"

text \<open>A book message counts as a snapshot when it is flagged so, begins with a clear and ends with the last flag.\<close>

definition observe_hip4_rolling ::
  "('i::linorder, 'b) actor_env \<Rightarrow> 'i \<Rightarrow> bool \<Rightarrow> bool \<Rightarrow> bool \<Rightarrow> ('i, 'b, 'p, 'd) actor \<Rightarrow> (unit, ('i, 'b, 'p, 'd) actor) outcome" where
  "observe_hip4_rolling env i snapshot clears lasts s =
     (if rolling_definition (ac_rolling s) i \<noteq> None \<and> snapshot \<and> clears \<and> lasts
      then reconcile_hip4_rolling env
             (set_rolling ((ac_rolling s)\<lparr>hv_ready := btree_extend (hv_ready (ac_rolling s)) [i]\<rparr>) s)
      else (Inr (), s))"

definition stop_hip4_rolling ::
  "('i::linorder, 'b) actor_env \<Rightarrow> ('i, 'b, 'p, 'd) actor \<Rightarrow> (unit, ('i, 'b, 'p, 'd) actor) outcome" where
  "stop_hip4_rolling env s =
     (let s = s\<lparr>ac_timers := (ac_timers s)(rolling_timer := None)\<rparr>;
          h = (ac_rolling s)\<lparr>hv_discovery := False, hv_instrument_request := None, hv_series := []\<rparr>
      in retire_hip4_rolling env (map fst (hv_markets h)) (set_rolling h s))"

subsection \<open>What the handlers keep\<close>

lemma quiet_unowned: "quiet s (snd (unowned env i kinds s))"
  by (auto simp: unowned_def and_then_def count_any_def call_ok_def split: bool.split)

lemma still_rolling:
  assumes "hv_markets h = hv_markets (ac_rolling s)"
  shows "still s (set_rolling h s)"
  using assms by (simp add: still_def set_rolling_def open_topics_def effective_parts base_specs_def rolling_plan_def)

lemma rolling_release_advances: "good env s \<Longrightarrow> advances env s (rolling_release env is s)"
proof (induction "is" arbitrary: s)
  case (Cons i "is")
  show ?case
  proof (cases "planned s i")
    case True
    then show ?thesis using Cons by simp
  next
    case False
    have q: "quiet s (snd (unowned env i [DeltasCount, TradesCount] s))" by (rule quiet_unowned)
    have n: "\<not> planned (snd (unowned env i [DeltasCount, TradesCount] s)) i"
      using False quietD(2) [OF q] by (simp add: planned_def)
    have "advances env s (and_then (unowned env i [DeltasCount, TradesCount] s) (\<lambda>free s.
        rolling_release env is (if free then purge_instrument_from_cache i s else s)))"
    proof (rule advances_and_then)
      show "advances env s (unowned env i [DeltasCount, TradesCount] s)" by (rule quiet_advances [OF q Cons.prems])
      fix free :: bool
      let ?s = "snd (unowned env i [DeltasCount, TradesCount] s)"
      assume g: "good env ?s"
      have "advances env ?s (Inr (), if free then purge_instrument_from_cache i ?s else ?s)"
        using g advances_purge [OF g n] by (cases free) simp_all
      then show "advances env ?s (rolling_release env is (if free then purge_instrument_from_cache i ?s else ?s))"
        by (rule advances_state [OF _ Cons.IH])
    qed
    then show ?thesis using False by simp
  qed
qed simp

subsubsection \<open>The plan of the recordings\<close>

definition rolling_specs :: "'i \<Rightarrow> ('i, 'b) capture_spec set" where
  "rolling_specs i = {InstrumentSpec \<lparr>sp_instrument = i\<rparr>, TradeSpec \<lparr>sp_instrument = i\<rparr>, BookDeltasSpec (book_deltas_spec i)}"

lemma plan_specs_rolling: "plan_specs (rolling_plan h) = (\<Union>i \<in> set (rolling_ids h). rolling_specs i)"
proof -
  have "x \<in> plan_specs (rolling_plan h) \<longleftrightarrow> (\<exists>i \<in> set (rolling_ids h). x \<in> rolling_specs i)" for x :: "('a, 'b) capture_spec"
    by (cases x) (auto simp: plan_specs_iff rolling_plan_def rolling_specs_def rolling_ids_def empty_plan_def id_specs_def Let_def)
  then show ?thesis by blast
qed

lemma rolling_ids_insert:
  assumes "rolling_wf env (hv_markets h)" "recording_ids r = ae_outcome_ids env k"
  shows "set (rolling_ids h) \<union> set (recording_ids r) = set (rolling_ids (h\<lparr>hv_markets := btree_insert k r (hv_markets h)\<rparr>))"
    and "rolling_wf env (btree_insert k r (hv_markets h))"
proof -
  have m: "btree_map (hv_markets h)" and ids: "\<And>k r. (k, r) \<in> set (hv_markets h) \<Longrightarrow> recording_ids r = ae_outcome_ids env k"
    using assms(1) by (auto simp: rolling_wf_def)
  have s: "set (btree_insert k r (hv_markets h)) = insert (k, r) {p \<in> set (hv_markets h). fst p \<noteq> k}"
    by (rule set_btree_insert [OF m])
  show "rolling_wf env (btree_insert k r (hv_markets h))"
    using m ids assms(2) by (auto simp: rolling_wf_def s)
  show "set (rolling_ids h) \<union> set (recording_ids r) = set (rolling_ids (h\<lparr>hv_markets := btree_insert k r (hv_markets h)\<rparr>))"
    using ids assms(2) by (auto simp: rolling_ids_def s)
qed

text \<open>Taking over a market grows the plan, retiring markets shrinks it.\<close>

lemma rolling_market_keeps:
  fixes s :: "('i::linorder, 'b, 'p, 'd) actor"
  assumes g: "good env s"
    and names: "\<And>r. rolling_recording parse market now = Some r \<Longrightarrow> recording_ids r = ae_outcome_ids env (rm_outcome market)"
  shows "keeps env s (apply_rolling_market parse env now asset market s)"
proof -
  define series where "series = (case map_of (hv_series (ac_rolling s)) asset of Some sr \<Rightarrow> sr | None \<Rightarrow> series_default)"
  define s0 where "s0 = set_rolling ((ac_rolling s)\<lparr>hv_series := btree_insert asset series (hv_series (ac_rolling s))\<rparr>) s"
  have st: "still s s0" unfolding s0_def by (rule still_rolling) simp
  show ?thesis
  proof (rule keeps_from [OF st g])
    assume g0: "good env s0"
    consider (skip) "sr_current series = Some (rm_outcome market) \<or> sr_pending series \<noteq> None \<or> now < sr_retry_after series"
      | (bad) "rolling_recording parse market now = None"
      | (go) r where "rolling_recording parse market now = Some r"
          "\<not> (sr_current series = Some (rm_outcome market) \<or> sr_pending series \<noteq> None \<or> now < sr_retry_after series)"
      by fastforce
    then show "keeps env s0 (apply_rolling_market parse env now asset market s)"
    proof cases
      case skip
      then have "apply_rolling_market parse env now asset market s = (Inr (), s0)"
        by (simp add: apply_rolling_market_def series_def [symmetric] s0_def [symmetric] Let_def)
      then show ?thesis using g0 by simp
    next
      case bad
      then have "apply_rolling_market parse env now asset market s \<in> {(Inr (), s0), (Inl (ActorError ''recording''), s0)}"
        by (simp add: apply_rolling_market_def series_def [symmetric] s0_def [symmetric] Let_def)
      then show ?thesis using g0 by auto
    next
      case go
      let ?h = "ac_rolling s0"
      let ?ms = "btree_insert (rm_outcome market) r (hv_markets ?h)"
      define s1 where "s1 = set_rolling (?h\<lparr>hv_markets := ?ms,
          hv_series := btree_insert asset (series\<lparr>sr_pending := Some (rm_outcome market)\<rparr>) (hv_series ?h)\<rparr>) s0"
      define add where "add = capture_plan_difference (actor_effective_plan s1) (ac_plan s0)"
      have r: "apply_rolling_market parse env now asset market s
          = and_then (each_ok (bootstrap_instrument env) (planned_instrument_ids add) (sync_plan_state s1)) (\<lambda>_ s. subscribe_plan env add s)"
        using go unfolding apply_rolling_market_def Let_def series_def [symmetric] s0_def [symmetric]
        by (simp add: add_def sync_fields s1_def)
      have wf: "rolling_wf env (hv_markets ?h)" "lighter_wf (lw_markets (ac_lighter s0))"
        using g0 by (simp_all add: good_def owned_ok_def)
      note ins = rolling_ids_insert [OF wf(1) names [OF go(1)]]
      have ids: "set (rolling_ids (ac_rolling s1)) = set (rolling_ids ?h) \<union> set (recording_ids r)"
        using ins(1) by (simp add: s1_def set_rolling_def rolling_ids_def)
      have grow: "plan_specs (actor_effective_plan s0) \<subseteq> plan_specs (actor_effective_plan s1)"
        by (auto simp: effective_parts plan_specs_rolling ids) (simp_all add: s1_def set_rolling_def base_specs_def)
      have same: "same_streams s0 s1" by (simp add: same_streams_def s1_def set_rolling_def open_topics_def)
      have owned: "owned_ok env s1" using ins(2) wf by (simp add: owned_ok_def s1_def set_rolling_def)
      have step: "plan_specs (ac_plan s0) = plan_specs (actor_effective_plan s0)" using g0 by (simp add: good_def in_step_def)
      show ?thesis unfolding r
      proof (rule grow_keeps [OF g0 same owned])
        show "plan_topics (ac_plan s0) \<subseteq> plan_topics (actor_effective_plan s1)"
          by (rule topics_mono) (simp add: step grow)
        assume g1: "good env (sync_plan_state s1)"
        note o = open_plan_ok [OF g1, of "planned_instrument_ids add" add]
        show "advances env (sync_plan_state s1) (and_then (each_ok (bootstrap_instrument env) (planned_instrument_ids add)
            (sync_plan_state s1)) (\<lambda>_. subscribe_plan env add))" using o by blast
        fix i
        assume "i \<in> set (planned_instrument_ids (actor_effective_plan s1))" "i \<notin> set (planned_instrument_ids (ac_plan s0))"
        then have "i \<in> set (planned_instrument_ids add)" by (simp add: add_def planned_difference)
        then show "isl (fst (and_then (each_ok (bootstrap_instrument env) (planned_instrument_ids add) (sync_plan_state s1))
            (\<lambda>_. subscribe_plan env add))) \<or> i \<in> tracked (snd (and_then (each_ok (bootstrap_instrument env)
            (planned_instrument_ids add) (sync_plan_state s1)) (\<lambda>_. subscribe_plan env add)))" using o by blast
      qed
    qed
  qed
qed

text \<open>
  What the venue's names are good for: the two instruments of an outcome depend only on its id, and
  an id is never used for another asset.
\<close>

definition venue_names :: "(json \<Rightarrow> nat \<Rightarrow> 'i definition_record list option) \<Rightarrow> ('i, 'b) actor_env \<Rightarrow> bool" where
  "venue_names parse env \<longleftrightarrow> (\<forall>raw now defs n. parse raw now = Some defs \<longrightarrow> json_u64 (json_get raw ''outcome'') = Some n
     \<longrightarrow> map nd_id defs = ae_outcome_ids env n)"

definition venue_assets :: "('i, 'b) actor_env \<Rightarrow> json \<Rightarrow> bool" where
  "venue_assets env payload \<longleftrightarrow> (\<forall>outcomes. json_array (json_get payload ''outcomes'') = Some outcomes \<longrightarrow>
     (\<forall>raw \<in> set outcomes. \<forall>asset n. rolling_template asset raw \<longrightarrow> json_u64 (json_get raw ''outcome'') = Some n
        \<longrightarrow> ae_outcome_asset env n = asset))"

lemma selected_market:
  assumes "select_rolling_market api payload asset now = Inr (Some m)"
  shows "json_u64 (json_get (rm_raw m) ''outcome'') = Some (rm_outcome m)" "rolling_template asset (rm_raw m)"
    "\<exists>outcomes. json_array (json_get payload ''outcomes'') = Some outcomes \<and> rm_raw m \<in> set outcomes"
proof -
  obtain outcomes e where o: "json_array (json_get payload ''outcomes'') = Some outcomes"
    and scan: "rolling_scan api asset e None outcomes = Inr (Some m)"
    using assms by (auto simp: select_rolling_market_def Let_def split: if_splits option.splits)
  note c = rolling_scan_spec [OF scan]
  then have "rolling_check api asset e (rm_raw m) = Inr (Some m)" by simp
  then show "json_u64 (json_get (rm_raw m) ''outcome'') = Some (rm_outcome m)" "rolling_template asset (rm_raw m)"
    by (cases m; auto simp: rolling_check_def split: if_splits option.splits)+
  have "rm_raw m \<in> set (filter (\<lambda>raw. rolling_template asset raw \<and> rolling_time api raw = Some e) outcomes)"
    using c by (simp add: opt_list_def)
  then show "\<exists>outcomes. json_array (json_get payload ''outcomes'') = Some outcomes \<and> rm_raw m \<in> set outcomes" using o by auto
qed

lemma selected_names:
  assumes "select_rolling_market api payload asset now = Inr (Some m)" "venue_names parse env"
    "rolling_recording parse m t = Some r"
  shows "recording_ids r = ae_outcome_ids env (rm_outcome m)"
proof -
  obtain defs where d: "parse (rm_raw m) t = Some defs" "r = \<lparr>rg_market = m, rg_definitions = map (enrich m) defs\<rparr>"
    using assms(3) by (auto simp: rolling_recording_def split: option.splits if_splits)
  have "recording_ids r = map nd_id defs" by (simp add: d(2) recording_ids_def enrich_def o_def)
  then show ?thesis using assms(2) d(1) selected_market(1) [OF assms(1)] by (simp add: venue_names_def)
qed

lemma rolling_assets_keeps:
  assumes "venue_names parse env" "good env s"
  shows "keeps env s (apply_rolling_assets api parse env now payload assets s)"
  using assms(2)
proof (induction assets arbitrary: s)
  case (Cons asset assets)
  show ?case
  proof (cases "\<exists>m. select_rolling_market api payload asset now = Inr (Some m)")
    case True
    then obtain m where m: "select_rolling_market api payload asset now = Inr (Some m)" by blast
    have "keeps env s (apply_rolling_market parse env now asset m s)"
      by (rule rolling_market_keeps [OF Cons.prems selected_names [OF m assms(1)]])
    then show ?thesis by (simp add: m keeps_and_then Cons.IH)
  next
    case False
    then show ?thesis using Cons by (auto split: sum.split option.split)
  qed
qed simp

lemma rolling_payload_keeps:
  assumes "venue_names parse env" "good env s"
  shows "keeps env s (apply_hip4_rolling_payload api parse env payload s)"
proof (cases "hv_config (ac_rolling s)")
  case None
  then show ?thesis using assms by (simp add: apply_hip4_rolling_payload_def)
next
  case (Some config)
  obtain now s1 where c: "read_clock env s = (now, s1)" by fastforce
  then have q: "quiet s s1" using quiet_clock [of s env] by simp
  show ?thesis
    by (rule keeps_from [OF quiet_still [OF q] assms(2)])
      (simp add: apply_hip4_rolling_payload_def Some c rolling_assets_keeps assms(1))
qed

lemma quiet_reconcile_pending: "quiet s (snd (reconcile_pending env config now market sr s))"
  by (auto simp: reconcile_pending_def split: option.split intro!: quiet_and_then quiet_flush)

lemma reconcile_assets_advances:
  "good env s \<Longrightarrow> advances env s (reconcile_assets env config now assets retire s)"
proof (induction assets arbitrary: retire s)
  case (Cons asset assets)
  let ?sr = "case map_of (hv_series (ac_rolling s)) asset of Some sr \<Rightarrow> sr | None \<Rightarrow> series_default"
  have p: "advances env s (reconcile_pending env config now market sr s)" for market sr
    by (rule quiet_advances [OF quiet_reconcile_pending Cons.prems])
  show ?case unfolding reconcile_assets.simps Let_def
  proof (rule advances_and_then)
    show "advances env s (case sr_pending ?sr of None \<Rightarrow> (Inr (?sr, []), s)
        | Some market \<Rightarrow> reconcile_pending env config now market ?sr s)"
      using p Cons.prems by (auto split: option.split)
    fix a
    let ?s = "snd (case sr_pending ?sr of None \<Rightarrow> (Inr (?sr, []), s) | Some market \<Rightarrow> reconcile_pending env config now market ?sr s)"
    assume "good env ?s"
    then show "advances env ?s ((case a of (series, gone) \<Rightarrow> \<lambda>s. reconcile_assets env config now assets (btree_extend retire gone)
        (set_rolling ((ac_rolling s)\<lparr>hv_series := btree_insert asset series (hv_series (ac_rolling s))\<rparr>) s)) ?s)"
      by (cases a) (simp, rule advances_from [OF still_rolling _ Cons.IH]; simp)
  qed
qed simp

text \<open>Retiring: the plan without the markets, whose streams are closed as far as they are open.\<close>

lemma release_recording_fields:
  "open_topics (release_recording s k) = open_topics s" "ac_plan (release_recording s k) = ac_plan s"
  "ac_live (release_recording s k) = ac_live s" "ac_pending (release_recording s k) = ac_pending s"
  "ac_timers (release_recording s k) = ac_timers s" "ac_cache (release_recording s k) = ac_cache s"
  "ac_lighter (release_recording s k) = ac_lighter s" "ac_matched (release_recording s k) = ac_matched s"
  "base_specs (release_recording s k) = base_specs s"
  "hv_series (ac_rolling (release_recording s k)) = hv_series (ac_rolling s)"
  "hv_config (ac_rolling (release_recording s k)) = hv_config (ac_rolling s)"
  by (simp_all add: release_recording_def set_rolling_def open_topics_def base_specs_def Let_def split: option.split)

lemma release_recording_markets:
  "set (hv_markets (ac_rolling (release_recording s k))) = {p \<in> set (hv_markets (ac_rolling s)). fst p \<noteq> k}"
  "btree_map (hv_markets (ac_rolling s)) \<Longrightarrow> btree_map (hv_markets (ac_rolling (release_recording s k)))"
  by (auto simp: release_recording_def set_rolling_def Let_def AList.delete_eq map_of_eq_None_iff split: option.split)
    (simp add: AList.delete_eq [symmetric])

lemma release_all:
  fixes s :: "('i::linorder, 'b, 'p, 'd) actor" and markets :: "nat list"
  defines "s' \<equiv> foldl release_recording s markets"
  shows "same_streams s s' \<and> base_specs s' = base_specs s \<and> ac_lighter s' = ac_lighter s \<and> ac_matched s' = ac_matched s
    \<and> hv_series (ac_rolling s') = hv_series (ac_rolling s)
    \<and> set (hv_markets (ac_rolling s')) = {p \<in> set (hv_markets (ac_rolling s)). fst p \<notin> set markets}
    \<and> (btree_map (hv_markets (ac_rolling s)) \<longrightarrow> btree_map (hv_markets (ac_rolling s')))"
  unfolding s'_def
proof (induction markets arbitrary: s)
  case Nil
  then show ?case by (simp add: same_streams_def)
next
  case (Cons k markets)
  have "same_streams s (release_recording s k)" by (simp add: same_streams_def release_recording_fields)
  then show ?case using Cons.IH [of "release_recording s k"] same_trans
    by (auto simp: release_recording_fields release_recording_markets)
qed

lemma live_only_specs:
  "x \<in> plan_specs (live_only s p) \<longleftrightarrow> x \<in> plan_specs p \<and>
     (case x of TradeSpec y \<Rightarrow> sp_instrument y \<in> set (ac_live s) | BookDeltasSpec y \<Rightarrow> bs_instrument y \<in> set (ac_live s) | _ \<Rightarrow> True)"
  by (cases x) (simp_all add: plan_specs_iff live_only_def)

text \<open>What goes from the plan is closed where it is live.\<close>

lemma live_only_closes:
  assumes "t \<in> plan_topics p" "t \<notin> plan_topics q" "bar_topic t \<or> topic_instrument f t \<in> set (ac_live s)"
  shows "t \<in> plan_topics (live_only s (capture_plan_difference p q))"
proof -
  obtain x where x: "x \<in> plan_specs p" "topic_of x = Some t" using assms(1) by (auto simp: plan_topics_specs)
  then have "x \<notin> plan_specs q" using assms(2) by (auto simp: plan_topics_specs)
  then have "x \<in> plan_specs (live_only s (capture_plan_difference p q))"
    using x assms(3) by (cases x) (auto simp: live_only_specs)
  then show ?thesis using x(2) by (auto simp: plan_topics_specs)
qed

lemma retire_instrument_advances:
  assumes "good env s"
  shows "advances env s (Inr (), retire_instrument s i)"
proof (cases "planned s i")
  case True
  then show ?thesis using assms by (simp add: retire_instrument_def)
next
  case False
  let ?f = "forget_instrument_runtime_state i s"
  have "advances env s (Inr (), ?f)" by (rule advances_forget [OF assms False])
  moreover have "advances env ?f (Inr (), retire_instrument s i)" if "good env ?f"
    using that False by (auto simp: retire_instrument_def Let_def intro!: still_advances still_rolling)
  ultimately show ?thesis by (rule advances_state)
qed

lemma retire_rolling_keeps:
  fixes s :: "('i::linorder, 'b, 'p, 'd) actor"
  assumes g: "good env s"
  shows "keeps env s (retire_hip4_rolling env markets s)"
proof (cases "markets = []")
  case True
  then show ?thesis using g by (simp add: retire_hip4_rolling_def)
next
  case False
  define s1 where "s1 = foldl release_recording s markets"
  define remove where "remove = capture_plan_difference (ac_plan s) (actor_effective_plan s1)"
  define u where "u = unsubscribe_plan env (live_only s remove) (sync_plan_state s1)"
  define seals where "seals = (if ae_writer env BookDeltas then map (\<lambda>x. SealInstrument BookDeltas (bs_instrument x)) (pl_book_deltas remove) else [])
    @ (if ae_writer env Trades then map (\<lambda>x. SealInstrument Trades (sp_instrument x)) (pl_trades remove) else [] :: ('i, 'b) command list)"
  note rel = release_all [of s markets, folded s1_def]
  have same: "same_streams s s1" using rel by blast
  have live: "live_only (sync_plan_state s1) p = live_only s p" for p :: "('i, 'b) capture_plan"
    using same by (simp add: live_only_def sync_fields same_streams_def)
  have r: "retire_hip4_rolling env markets s = and_then (each_ok (call env) seals u) (\<lambda>_ s.
      (Inr (), foldl retire_instrument s (planned_instrument_ids remove)))"
    using False by (simp add: retire_hip4_rolling_def Let_def s1_def [symmetric] sync_fields remove_def [symmetric] live u_def seals_def)
  have wf: "rolling_wf env (hv_markets (ac_rolling s))" "lighter_wf (lw_markets (ac_lighter s))"
    using g by (simp_all add: good_def owned_ok_def)
  then have owned: "owned_ok env s1" using rel by (auto simp: owned_ok_def rolling_wf_def)
  have "set (rolling_ids (ac_rolling s1)) \<subseteq> set (rolling_ids (ac_rolling s))" using rel by (auto simp: rolling_ids_def)
  then have "plan_specs (actor_effective_plan s1) \<subseteq> plan_specs (actor_effective_plan s)"
    using rel by (auto simp: effective_parts plan_specs_rolling)
  then have less: "plan_specs (actor_effective_plan s1) \<subseteq> plan_specs (ac_plan s)" using g by (simp add: good_def in_step_def)
  show ?thesis unfolding r
  proof (rule replan_keeps [OF g same owned, of "live_only s remove", folded u_def])
    show "t \<in> plan_topics (live_only s remove)"
      if "t \<in> plan_topics (ac_plan s)" "t \<notin> plan_topics (actor_effective_plan s1)"
        "bar_topic t \<or> topic_instrument (ae_bar_instrument env) t \<in> set (ac_live s)" for t
      unfolding remove_def by (rule live_only_closes [OF that])
    have q: "list_all (\<lambda>c. \<not> market_command c) seals" by (auto simp: seals_def list_all_iff)
    show "advances env u (and_then (each_ok (call env) seals u) (\<lambda>_ s.
        (Inr (), foldl retire_instrument s (planned_instrument_ids remove))))" if "good env u"
      by (intro advances_and_then quiet_advances quiet_seals q that advances_fold retire_instrument_advances)
    show "isl (fst (and_then (each_ok (call env) seals u) (\<lambda>_ s. (Inr (), foldl retire_instrument s (planned_instrument_ids remove)))))
        \<or> i \<in> tracked (snd (and_then (each_ok (call env) seals u) (\<lambda>_ s.
            (Inr (), foldl retire_instrument s (planned_instrument_ids remove)))))"
      if "i \<in> set (planned_instrument_ids (actor_effective_plan s1))" "i \<notin> set (planned_instrument_ids (ac_plan s))" for i
      using that planned_mono [OF less] by blast
  qed
qed

lemma reconcile_rolling_keeps:
  assumes "good env s"
  shows "keeps env s (reconcile_hip4_rolling env s)"
proof (cases "hv_config (ac_rolling s)")
  case None
  then show ?thesis using assms by (simp add: reconcile_hip4_rolling_def)
next
  case (Some config)
  obtain now s1 where c: "read_clock env s = (now, s1)" by fastforce
  then have q: "quiet s s1" using quiet_clock [of s env] by simp
  show ?thesis
    by (rule keeps_from [OF quiet_still [OF q] assms])
      (simp add: reconcile_hip4_rolling_def Some c advances_then reconcile_assets_advances retire_rolling_keeps)
qed

lemma take_discovery_keeps:
  assumes names: "venue_names parse env" and g: "good env s"
  shows "keeps env s (take_discovery api parse env config now answer s)"
proof -
  let ?s = "set_rolling ((ac_rolling s)\<lparr>hv_discovery := False, hv_next_discovery_ns := sat_add now (retry_ns config)\<rparr>) s"
  have st: "still s ?s" by (rule still_rolling) simp
  then have g1: "good env ?s" using g by (rule still_good)
  consider "\<not> hv_discovery (ac_rolling s) \<or> answer = None" | result where "hv_discovery (ac_rolling s)" "answer = Some result"
    by (cases answer) auto
  then show ?thesis
  proof cases
    case 1
    then show ?thesis using g by (auto simp: take_discovery_def)
  next
    case 2
    then have "keeps env ?s (take_discovery api parse env config now answer s)"
      using g1 rolling_payload_keeps [OF names g1] by (cases result) (simp_all add: take_discovery_def)
    then show ?thesis by (rule keeps_from [OF st g])
  qed
qed

lemma start_discovery_keeps:
  assumes "good env s"
  shows "keeps env s (case call_ok env s of
      (True, s) \<Rightarrow> (Inr (), set_rolling ((ac_rolling s)\<lparr>hv_discovery := True\<rparr>) s)
    | (False, s) \<Rightarrow> (Inl CallFailed, s))"
proof -
  let ?s = "s\<lparr>ac_calls := Suc (ac_calls s)\<rparr>"
  have st: "still s ?s" by (rule quiet_still) simp
  have "still s (set_rolling ((ac_rolling ?s)\<lparr>hv_discovery := True\<rparr>) ?s)"
    by (rule still_trans [OF st still_rolling]) simp
  then show ?thesis using st assms
    by (auto simp: call_ok_def split: bool.split intro!: advances_keeps still_advances)
qed

lemma refresh_rolling_keeps:
  assumes names: "venue_names parse env" and g: "good env s"
  shows "keeps env s (refresh_hip4_rolling api parse env answer s)"
proof (cases "hv_config (ac_rolling s)")
  case None
  then show ?thesis using g by (simp add: refresh_hip4_rolling_def)
next
  case (Some config)
  obtain now s0 where c: "read_clock env s = (now, s0)" by fastforce
  have q: "still s s0" using quiet_still [OF quiet_clock [of s env]] c by simp
  let ?s = "set_rolling ((ac_rolling s0)\<lparr>hv_retiring := []\<rparr>) s0"
  have st: "still s ?s" by (rule still_trans [OF q still_rolling]) simp
  show ?thesis
    unfolding refresh_hip4_rolling_def Some option.case c Let_def prod.case
    by (rule keeps_from [OF st g], rule advances_then [OF rolling_release_advances], assumption,
        rule keeps_and_then [OF take_discovery_keeps [OF names]], assumption,
        rule keeps_and_then [OF reconcile_rolling_keeps], assumption, simp add: start_discovery_keeps)
qed

lemma start_rolling_keeps:
  assumes names: "venue_names parse env" and g: "good env s"
  shows "keeps env s (start_hip4_rolling api parse env answer s)"
proof -
  let ?t = "s\<lparr>ac_calls := Suc (ac_calls s)\<rparr>"
  let ?s = "?t\<lparr>ac_timers := (ac_timers s)(rolling_timer := Some 1000000000)\<rparr>"
  have "still s ?t" by (rule quiet_still) simp
  moreover have st: "still s ?s"
    by (simp add: still_def open_topics_def effective_parts base_specs_def rolling_timer_def pending_timer_def)
  moreover have "keeps env s (refresh_hip4_rolling api parse env answer ?s)"
    by (rule keeps_from [OF st g refresh_rolling_keeps [OF names]])
  ultimately show ?thesis using g
    by (auto simp: start_hip4_rolling_def call_ok_def split: bool.split intro!: advances_keeps still_advances)
qed

lemma observe_rolling_keeps:
  assumes "good env s"
  shows "keeps env s (observe_hip4_rolling env i snapshot clears lasts s)"
proof -
  let ?s = "set_rolling ((ac_rolling s)\<lparr>hv_ready := btree_extend (hv_ready (ac_rolling s)) [i]\<rparr>) s"
  have "still s ?s" by (rule still_rolling) simp
  from keeps_from [OF this assms reconcile_rolling_keeps] show ?thesis
    using assms by (simp add: observe_hip4_rolling_def)
qed

lemma stop_rolling_keeps:
  assumes "good env s"
  shows "keeps env s (stop_hip4_rolling env s)"
proof -
  let ?t = "s\<lparr>ac_timers := (ac_timers s)(rolling_timer := None)\<rparr>"
  let ?h = "(ac_rolling ?t)\<lparr>hv_discovery := False, hv_instrument_request := None, hv_series := []\<rparr>"
  have "still s ?t"
    by (simp add: still_def open_topics_def effective_parts base_specs_def rolling_timer_def pending_timer_def)
  then have "still s (set_rolling ?h ?t)" by (rule still_trans) (rule still_rolling, simp)
  from keeps_from [OF this assms retire_rolling_keeps] show ?thesis by (simp add: stop_hip4_rolling_def Let_def)
qed

end
