(* ===== verification/Actor_Handover.thy ===== *)
theory Actor_Handover
  imports Actor_Hip4
begin

section \<open>The handover of rolling markets\<close>

text \<open>
  The bookkeeping of \<open>actor/hip4_rolling.rs\<close>: which market a series records and which it prepares.
  Every market a series refers to is owned, belongs to the asset of the series, and the two are
  never the same; so no lookup of an owned market fails, a current market is only given up for a
  successor whose books are recorded, and nothing another series refers to is retired.
\<close>

subsection \<open>The invariant\<close>

definition referenced :: "series \<Rightarrow> nat set" where
  "referenced sr = set_option (sr_current sr) \<union> set_option (sr_pending sr)"

definition series_wf :: "('i, 'b) actor_env \<Rightarrow> (string \<times> series) list \<Rightarrow> (nat \<times> 'i recording) list \<Rightarrow> bool" where
  "series_wf env sm mm \<longleftrightarrow> btree_map sm \<and> btree_map mm \<and>
     (\<forall>a sr. map_of sm a = Some sr \<longrightarrow> referenced sr \<subseteq> fst ` set mm \<and> (\<forall>k \<in> referenced sr. ae_outcome_asset env k = a)
        \<and> (sr_pending sr \<noteq> None \<longrightarrow> sr_current sr \<noteq> sr_pending sr))"

definition series_ok :: "('i, 'b) actor_env \<Rightarrow> ('i, 'b, 'p, 'd) actor \<Rightarrow> bool" where
  "series_ok env s \<longleftrightarrow> series_wf env (hv_series (ac_rolling s)) (hv_markets (ac_rolling s))"

lemma series_ok_core: "owned_core s' = owned_core s \<Longrightarrow> series_ok env s' = series_ok env s"
  by (simp add: series_ok_def owned_core_def)

lemma owned_referenced:
  assumes "series_ok env s" "map_of (hv_series (ac_rolling s)) a = Some sr" "k \<in> referenced sr"
  shows "k \<in> fst ` set (hv_markets (ac_rolling s))"
proof -
  have "referenced sr \<subseteq> fst ` set (hv_markets (ac_rolling s))"
    using assms(1,2) unfolding series_ok_def series_wf_def by blast
  then show ?thesis using assms(3) by (rule subsetD)
qed

text \<open>A series is replaced by one that refers only to owned markets of its asset.\<close>

lemma series_wf_insert:
  assumes "series_wf env sm mm" "referenced sr \<subseteq> fst ` set mm" "\<forall>k \<in> referenced sr. ae_outcome_asset env k = a"
    "sr_pending sr \<noteq> None \<longrightarrow> sr_current sr \<noteq> sr_pending sr"
  shows "series_wf env (btree_insert a sr sm) mm"
  using assms by (auto simp: series_wf_def)

lemma series_wf_get:
  fixes a :: string and sm :: "(string \<times> series) list"
  assumes "series_wf env sm mm"
  defines "sr \<equiv> case map_of sm a of Some sr \<Rightarrow> sr | None \<Rightarrow> series_default"
  shows "referenced sr \<subseteq> fst ` set mm" "\<forall>k \<in> referenced sr. ae_outcome_asset env k = a"
    "sr_pending sr \<noteq> None \<longrightarrow> sr_current sr \<noteq> sr_pending sr"
  using assms by (auto simp: series_wf_def series_default_def referenced_def split: option.split)

lemma series_wf_own: "series_wf env sm mm \<Longrightarrow> series_wf env sm (btree_insert k r mm)"
proof -
  assume w: "series_wf env sm mm"
  then have "btree_map mm" by (simp add: series_wf_def)
  then have "fst ` set (btree_insert k r mm) = insert k (fst ` set mm)" by (simp add: btree_insert_def btree_entry_keys)
  then have sub: "fst ` set mm \<subseteq> fst ` set (btree_insert k r mm)" by blast
  have "referenced sr \<subseteq> fst ` set (btree_insert k r mm)" if "map_of sm a = Some sr" for a sr
    using w that sub unfolding series_wf_def by (meson subset_trans)
  then show ?thesis using w by (simp add: series_wf_def)
qed

subsection \<open>One turn of the reconciliation\<close>

text \<open>What may become of a series: nothing, its preparation is given up, or its successor takes over.\<close>

definition handed :: "('i, 'b, 'p, 'd) actor \<Rightarrow> nat \<Rightarrow> series \<Rightarrow> series \<Rightarrow> bool" where
  "handed s now sr sr' \<longleftrightarrow>
     (sr_current sr' = sr_current sr \<and> (sr_pending sr' = sr_pending sr \<or> sr_pending sr' = None))
   \<or> (sr_pending sr' = None \<and> (\<exists>k r. sr_pending sr = Some k \<and> sr_current sr' = Some k
        \<and> map_of (hv_markets (ac_rolling s)) k = Some r \<and> books_ready r s \<and> now < rm_end_ns (rg_market r)))"

lemma handed_refl [simp]: "handed s now sr sr"
  by (simp add: handed_def)

lemma handed_trans: "handed s now sr sr' \<Longrightarrow> handed s now sr' sr'' \<Longrightarrow> handed s now sr sr''"
  by (auto simp: handed_def)

text \<open>What a turn reads and leaves alone.\<close>

definition same_books :: "('i, 'b, 'p, 'd) actor \<Rightarrow> ('i, 'b, 'p, 'd) actor \<Rightarrow> bool" where
  "same_books s s' \<longleftrightarrow> hv_markets (ac_rolling s') = hv_markets (ac_rolling s) \<and> hv_ready (ac_rolling s') = hv_ready (ac_rolling s)
     \<and> ac_pending_definitions s' = ac_pending_definitions s"

lemma same_books_trans: "same_books s s' \<Longrightarrow> same_books s' s'' \<Longrightarrow> same_books s s''"
  by (simp add: same_books_def)

lemma handed_cong: "same_books s s' \<Longrightarrow> handed s' now sr sr' = handed s now sr sr'"
  by (simp add: handed_def same_books_def books_ready_def)

lemma flush_books:
  "same_books s (snd (optional_flush_all env family s))"
  "hv_series (ac_rolling (snd (optional_flush_all env family s))) = hv_series (ac_rolling s)"
  "fst (optional_flush_all env family s) \<noteq> Inl ActorPanic"
  by (auto simp: optional_flush_all_def call_def call_ok_def same_books_def emit_def split: bool.split)

text \<open>The pending market of a series is looked at.\<close>

lemma reconcile_pending_spec:
  fixes s :: "('i, 'b, 'p, 'd) actor" and sr :: series and now :: nat and env :: "('i, 'b) actor_env" and config :: rolling_config
  assumes own: "k \<in> fst ` set (hv_markets (ac_rolling s))" and pend: "sr_pending sr = Some k"
  defines "m \<equiv> reconcile_pending env config now k sr s"
  shows "same_books s (snd m) \<and> hv_series (ac_rolling (snd m)) = hv_series (ac_rolling s) \<and> fst m \<noteq> Inl ActorPanic
    \<and> (\<forall>sr' gone. fst m = Inr (sr', gone) \<longrightarrow> handed s now sr sr' \<and> referenced sr' \<subseteq> referenced sr
        \<and> (sr_pending sr' \<noteq> None \<longrightarrow> sr' = sr) \<and> set gone \<subseteq> referenced sr
        \<and> (sr_current sr \<noteq> Some k \<longrightarrow> set gone \<inter> referenced sr' = {}))"
proof -
  obtain r where r: "map_of (hv_markets (ac_rolling s)) k = Some r" using own by (metis map_of_eq_None_iff not_None_eq)
  show ?thesis
  proof (cases "books_ready r s \<and> now < rm_end_ns (rg_market r)")
    case True
    define m1 where "m1 = optional_flush_all env Instruments s"
    define m2 where "m2 = optional_flush_all env BookDeltas (snd m1)"
    have m: "m = and_then m1 (\<lambda>_ s. and_then (optional_flush_all env BookDeltas s) (\<lambda>_ s.
          (Inr (sr\<lparr>sr_current := Some k, sr_pending := None\<rparr>, opt_list (sr_current sr)), s)))"
      using True by (simp add: m_def reconcile_pending_def r m1_def)
    have b: "same_books s (snd m1)" "same_books (snd m1) (snd m2)" "fst m1 \<noteq> Inl ActorPanic" "fst m2 \<noteq> Inl ActorPanic"
      "hv_series (ac_rolling (snd m1)) = hv_series (ac_rolling s)" "hv_series (ac_rolling (snd m2)) = hv_series (ac_rolling s)"
      by (simp_all add: m1_def m2_def flush_books)
    consider e where "m = (Inl e, snd m1)" "fst m1 = Inl e" | e where "m = (Inl e, snd m2)" "fst m2 = Inl e"
      | "m = (Inr (sr\<lparr>sr_current := Some k, sr_pending := None\<rparr>, opt_list (sr_current sr)), snd m2)"
      unfolding m by (cases "fst m1"; cases "fst m2") (auto simp: and_then_def split_beta m2_def)
    then show ?thesis
    proof cases
      case 3
      have "handed s now sr (sr\<lparr>sr_current := Some k, sr_pending := None\<rparr>)" using True r pend by (auto simp: handed_def)
      then show ?thesis using 3 b same_books_trans [OF b(1,2)] pend
        by (auto simp: referenced_def opt_list_def split: option.splits)
    qed (use b same_books_trans [OF b(1,2)] in auto)
  next
    case False
    then show ?thesis using pend
      by (auto simp: m_def reconcile_pending_def r same_books_def handed_def referenced_def)
  qed
qed

text \<open>No series refers to a market of the list.\<close>

definition unreferenced :: "nat list \<Rightarrow> (string \<times> series) list \<Rightarrow> bool" where
  "unreferenced ks sm \<longleftrightarrow> (\<forall>a sr. map_of sm a = Some sr \<longrightarrow> set ks \<inter> referenced sr = {})"

text \<open>One asset: its series is replaced by what the turn made of it.\<close>

lemma reconcile_asset_ok:
  fixes sm :: "(string \<times> series) list"
  assumes wf: "series_wf env sm mm" and free: "unreferenced retire sm"
    and sr: "sr = (case map_of sm a of Some sr \<Rightarrow> sr | None \<Rightarrow> series_default)"
    and less: "referenced sr' \<subseteq> referenced sr" "sr_pending sr' \<noteq> None \<longrightarrow> sr' = sr"
    and gone: "set gone \<subseteq> referenced sr" "set gone \<inter> referenced sr' = {}"
  shows "series_wf env (btree_insert a sr' sm) mm \<and> unreferenced (btree_extend retire gone) (btree_insert a sr' sm)"
proof
  note get = series_wf_get [OF wf, of a, folded sr]
  have m: "btree_map sm" using wf by (simp add: series_wf_def)
  show "series_wf env (btree_insert a sr' sm) mm"
    by (rule series_wf_insert [OF wf]) (use get less in \<open>blast+\<close>)
  have old: "set retire \<inter> referenced sr = {}"
    using free by (auto simp: unreferenced_def sr series_default_def referenced_def split: option.split)
  have other: "set gone \<inter> referenced y = {}" if y: "map_of sm b = Some y" "b \<noteq> a" for b y
  proof -
    have "\<forall>k \<in> referenced y. ae_outcome_asset env k = b" using wf y by (simp add: series_wf_def)
    moreover have "\<forall>k \<in> set gone. ae_outcome_asset env k = a" using get(2) gone(1) by blast
    ultimately show ?thesis using y(2) by fastforce
  qed
  show "unreferenced (btree_extend retire gone) (btree_insert a sr' sm)"
    unfolding unreferenced_def
  proof (intro allI impI)
    fix b y
    assume y: "map_of (btree_insert a sr' sm) b = Some y"
    show "set (btree_extend retire gone) \<inter> referenced y = {}"
    proof (cases "b = a")
      case True
      then show ?thesis using y m old less(1) gone(2) by (simp add: Int_Un_distrib2) blast
    next
      case False
      then have y: "map_of sm b = Some y" using y m by simp
      then show ?thesis using other [OF y False] free by (simp add: Int_Un_distrib2 unreferenced_def)
    qed
  qed
qed

lemma reconcile_assets_spec:
  fixes s :: "('i, 'b, 'p, 'd) actor"
  assumes "series_ok env s" "unreferenced retire (hv_series (ac_rolling s))"
  shows "same_books s (snd (reconcile_assets env config now assets retire s))
    \<and> series_ok env (snd (reconcile_assets env config now assets retire s))
    \<and> fst (reconcile_assets env config now assets retire s) \<noteq> Inl ActorPanic
    \<and> (\<forall>gone. fst (reconcile_assets env config now assets retire s) = Inr gone \<longrightarrow>
        unreferenced gone (hv_series (ac_rolling (snd (reconcile_assets env config now assets retire s)))))
    \<and> (\<forall>a sr. map_of (hv_series (ac_rolling s)) a = Some sr \<longrightarrow>
        (\<exists>sr'. map_of (hv_series (ac_rolling (snd (reconcile_assets env config now assets retire s)))) a = Some sr' \<and> handed s now sr sr'))"
  using assms
proof (induction assets arbitrary: retire s)
  case Nil
  then show ?case by (auto simp: same_books_def)
next
  case (Cons asset assets)
  define sr where "sr = (case map_of (hv_series (ac_rolling s)) asset of Some sr \<Rightarrow> sr | None \<Rightarrow> series_default)"
  define m where "m = (case sr_pending sr of None \<Rightarrow> (Inr (sr, []), s) | Some market \<Rightarrow> reconcile_pending env config now market sr s)"
  let ?sm = "hv_series (ac_rolling s)"
  let ?mm = "hv_markets (ac_rolling s)"
  have wf: "series_wf env ?sm ?mm" using Cons.prems by (simp add: series_ok_def)
  note get = series_wf_get [OF wf, of asset, folded sr_def]
  have spec: "same_books s (snd m)" "hv_series (ac_rolling (snd m)) = ?sm" "fst m \<noteq> Inl ActorPanic"
    "\<And>sr' gone. fst m = Inr (sr', gone) \<Longrightarrow> handed s now sr sr' \<and> referenced sr' \<subseteq> referenced sr
        \<and> (sr_pending sr' \<noteq> None \<longrightarrow> sr' = sr) \<and> set gone \<subseteq> referenced sr \<and> set gone \<inter> referenced sr' = {}"
  proof -
    have "same_books s (snd m) \<and> hv_series (ac_rolling (snd m)) = ?sm \<and> fst m \<noteq> Inl ActorPanic
      \<and> (\<forall>sr' gone. fst m = Inr (sr', gone) \<longrightarrow> handed s now sr sr' \<and> referenced sr' \<subseteq> referenced sr
        \<and> (sr_pending sr' \<noteq> None \<longrightarrow> sr' = sr) \<and> set gone \<subseteq> referenced sr \<and> set gone \<inter> referenced sr' = {})"
    proof (cases "sr_pending sr")
      case None
      then show ?thesis by (simp add: m_def same_books_def)
    next
      case (Some k)
      then have "k \<in> fst ` set ?mm" "sr_current sr \<noteq> Some k" using get by (auto simp: referenced_def)
      then show ?thesis using reconcile_pending_spec [of k s sr env config now] Some by (simp add: m_def)
    qed
    then show "same_books s (snd m)" "hv_series (ac_rolling (snd m)) = ?sm" "fst m \<noteq> Inl ActorPanic"
      "\<And>sr' gone. fst m = Inr (sr', gone) \<Longrightarrow> handed s now sr sr' \<and> referenced sr' \<subseteq> referenced sr
        \<and> (sr_pending sr' \<noteq> None \<longrightarrow> sr' = sr) \<and> set gone \<subseteq> referenced sr \<and> set gone \<inter> referenced sr' = {}" by blast+
  qed
  have unf: "reconcile_assets env config now (asset # assets) retire s = and_then m (\<lambda>(sr, gone) s.
      reconcile_assets env config now assets (btree_extend retire gone)
        (set_rolling ((ac_rolling s)\<lparr>hv_series := btree_insert asset sr (hv_series (ac_rolling s))\<rparr>) s))"
    by (simp only: reconcile_assets.simps Let_def sr_def [symmetric] m_def)
  show ?case
  proof (cases "fst m")
    case (Inl e)
    then have r: "reconcile_assets env config now (asset # assets) retire s = (Inl e, snd m)"
      unfolding unf by (simp add: and_then_def split_beta)
    have "hv_markets (ac_rolling (snd m)) = ?mm" using spec(1) by (simp add: same_books_def)
    then show ?thesis unfolding r using spec(1-3) Inl wf by (auto simp: series_ok_def)
  next
    case (Inr x)
    obtain sr' gone where x: "x = (sr', gone)" by fastforce
    define s2 where "s2 = set_rolling ((ac_rolling (snd m))\<lparr>hv_series := btree_insert asset sr' ?sm\<rparr>) (snd m)"
    have r: "reconcile_assets env config now (asset # assets) retire s
        = reconcile_assets env config now assets (btree_extend retire gone) s2"
      unfolding unf and_then_Inr [OF Inr] by (simp add: x s2_def spec(2))
    note out = spec(4) [OF Inr [unfolded x]]
    have sb: "same_books s s2" using spec(1) by (simp add: same_books_def s2_def set_rolling_def)
    have sm: "hv_series (ac_rolling s2) = btree_insert asset sr' ?sm" by (simp add: s2_def set_rolling_def)
    have mm: "hv_markets (ac_rolling s2) = ?mm" using sb by (simp add: same_books_def)
    have ok: "series_ok env s2" "unreferenced (btree_extend retire gone) (hv_series (ac_rolling s2))"
      using reconcile_asset_ok [OF wf Cons.prems(2) sr_def, of sr' gone] out by (simp_all add: series_ok_def sm mm)
    note ih = Cons.IH [OF ok]
    have bm: "btree_map ?sm" using wf by (simp add: series_wf_def)
    have hand: "\<exists>y'. map_of (hv_series (ac_rolling (snd (reconcile_assets env config now assets (btree_extend retire gone) s2)))) a
        = Some y' \<and> handed s now y y'" if y: "map_of ?sm a = Some y" for a y
    proof -
      obtain z where z: "map_of (hv_series (ac_rolling s2)) a = Some z" "handed s now y z"
        using y out bm by (cases "a = asset") (auto simp: sm sr_def)
      then obtain y' where "map_of (hv_series (ac_rolling (snd (reconcile_assets env config now assets (btree_extend retire gone) s2)))) a
          = Some y'" "handed s2 now z y'" using ih by blast
      then show ?thesis using z(2) handed_trans handed_cong [OF sb] by blast
    qed
    show ?thesis unfolding r using ih hand same_books_trans [OF sb] by blast
  qed
qed

subsection \<open>The handlers\<close>

lemma retire_all_fields:
  "hv_series (ac_rolling (foldl retire_instrument s is)) = hv_series (ac_rolling s)
   \<and> hv_markets (ac_rolling (foldl retire_instrument s is)) = hv_markets (ac_rolling s)"
proof (induction "is" arbitrary: s)
  case (Cons i "is")
  have f: "owned_core (forget_instrument_runtime_state i s) = owned_core s" by (rule steady_core [OF forget_effect(2)])
  have "hv_series (ac_rolling (retire_instrument s i)) = hv_series (ac_rolling s)"
    "hv_markets (ac_rolling (retire_instrument s i)) = hv_markets (ac_rolling s)"
    using f by (simp_all add: retire_instrument_def set_rolling_def Let_def owned_core_def)
  then show ?case using Cons.IH by simp
qed simp

lemma call_no_panic: "fst (call env c s) \<noteq> Inl ActorPanic"
  by (simp add: call_def call_ok_def split: bool.split)

lemma each_no_panic: "(\<And>x s. fst (f x s) \<noteq> Inl ActorPanic) \<Longrightarrow> fst (each_ok f xs s) \<noteq> Inl ActorPanic"
proof (induction xs arbitrary: s)
  case (Cons x xs)
  show ?case
  proof (cases "fst (f x s)")
    case (Inl e)
    then show ?thesis using Cons.prems [of x s] by (simp add: and_then_def split_beta)
  next
    case (Inr u)
    then show ?thesis using Cons.IH [OF Cons.prems] by (simp add: and_then_Inr)
  qed
qed simp

text \<open>Retiring leaves the series and the other markets; it makes calls, and their errors are its only ones.\<close>

lemma retire_rolling_spec:
  fixes s :: "('i::linorder, 'b, 'p, 'd) actor"
  assumes "btree_map (hv_markets (ac_rolling s))"
  shows "hv_series (ac_rolling (snd (retire_hip4_rolling env markets s))) = hv_series (ac_rolling s)
    \<and> set (hv_markets (ac_rolling (snd (retire_hip4_rolling env markets s)))) = {p \<in> set (hv_markets (ac_rolling s)). fst p \<notin> set markets}
    \<and> btree_map (hv_markets (ac_rolling (snd (retire_hip4_rolling env markets s))))
    \<and> fst (retire_hip4_rolling env markets s) \<noteq> Inl ActorPanic"
proof (cases "markets = []")
  case True
  then show ?thesis using assms by (auto simp: retire_hip4_rolling_def)
next
  case False
  define s1 where "s1 = foldl release_recording s markets"
  define remove where "remove = capture_plan_difference (ac_plan s) (actor_effective_plan s1)"
  define u where "u = unsubscribe_plan env (live_only (sync_plan_state s1) remove) (sync_plan_state s1)"
  define seals where "seals = (if ae_writer env BookDeltas then map (\<lambda>x. SealInstrument BookDeltas (bs_instrument x)) (pl_book_deltas remove) else [])
    @ (if ae_writer env Trades then map (\<lambda>x. SealInstrument Trades (sp_instrument x)) (pl_trades remove) else [] :: ('i, 'b) command list)"
  define c where "c = each_ok (call env) seals u"
  have r: "retire_hip4_rolling env markets s
      = and_then c (\<lambda>_ s. (Inr (), foldl retire_instrument s (planned_instrument_ids remove)))"
    using False by (simp add: retire_hip4_rolling_def Let_def s1_def [symmetric] sync_fields remove_def [symmetric] u_def seals_def c_def)
  note rel = release_all [of s markets, folded s1_def]
  have "owned_core u = owned_core (sync_plan_state s1)"
    unfolding u_def by (rule steady_core [OF emits_fields(1) [OF unsubscribe_effect(1)]])
  then have "owned_core u = owned_core s1" by (simp add: sync_fields)
  moreover have "quiet u (snd c)" unfolding c_def by (rule quiet_seals) (auto simp: seals_def list_all_iff)
  then have "owned_core (snd c) = owned_core u" by (rule steady_core [OF quiet_steady])
  ultimately have f: "hv_series (ac_rolling (snd c)) = hv_series (ac_rolling s1)" "hv_markets (ac_rolling (snd c)) = hv_markets (ac_rolling s1)"
    by (simp_all add: owned_core_def)
  have n: "fst c \<noteq> Inl ActorPanic" by (simp add: c_def each_no_panic call_no_panic)
  show ?thesis
  proof (cases "fst c")
    case (Inl e)
    then have "retire_hip4_rolling env markets s = (Inl e, snd c)" by (simp add: r and_then_def split_beta)
    then show ?thesis using f rel n Inl assms by simp
  next
    case (Inr x)
    then show ?thesis using f rel assms unfolding r and_then_Inr [OF Inr] by (simp add: retire_all_fields)
  qed
qed

lemma retire_series_ok:
  fixes s :: "('i::linorder, 'b, 'p, 'd) actor"
  assumes "series_ok env s" "unreferenced markets (hv_series (ac_rolling s))"
  shows "series_ok env (snd (retire_hip4_rolling env markets s))"
proof -
  have "btree_map (hv_markets (ac_rolling s))" using assms(1) by (simp add: series_ok_def series_wf_def)
  note r = retire_rolling_spec [OF this, of env markets]
  have "referenced sr \<subseteq> fst ` set (hv_markets (ac_rolling (snd (retire_hip4_rolling env markets s))))"
    if "map_of (hv_series (ac_rolling s)) a = Some sr" for a sr
  proof
    fix k
    assume k: "k \<in> referenced sr"
    then have "k \<in> fst ` set (hv_markets (ac_rolling s))" by (rule owned_referenced [OF assms(1) that])
    moreover have "k \<notin> set markets" using assms(2) that k by (auto simp: unreferenced_def)
    ultimately have "k \<in> fst ` set (hv_markets (ac_rolling s))" "k \<notin> set markets" by blast+
    then show "k \<in> fst ` set (hv_markets (ac_rolling (snd (retire_hip4_rolling env markets s))))" using r by force
  qed
  then show ?thesis using assms(1) r by (simp add: series_ok_def series_wf_def)
qed

text \<open>The calls of the bootstrap fail with errors of their own.\<close>

lemma panic_and_then:
  "fst m \<noteq> Inl ActorPanic \<Longrightarrow> (\<And>a. fst (k a (snd m)) \<noteq> Inl ActorPanic) \<Longrightarrow> fst (and_then m k) \<noteq> Inl ActorPanic"
  by (cases m) (auto simp: and_then_def split: sum.split)

lemma submit_no_panic: "fst (submit_instrument env inst s) \<noteq> Inl ActorPanic"
proof -
  have c: "fst (if b then cache_definition env d s1 else (Inr (), s1)) \<noteq> Inl ActorPanic" for b d and s1 :: "('a, 'b, 'c, 'd) actor"
    by (simp add: cache_definition_def call_ok_def split: bool.split)
  have w: "fst (if b then call env (SubmitDefinition d) s1 else (Inl NoWriter, s1)) \<noteq> Inl ActorPanic"
    for b d and s1 :: "('a, 'b, 'c, 'd) actor" by (simp add: call_no_panic)
  have k: "fst (case m of (Inl e, s1) \<Rightarrow> (Inl e, f s1) | (Inr _, s1) \<Rightarrow> (Inr (), g s1)) \<noteq> Inl ActorPanic"
    if "fst m \<noteq> Inl ActorPanic" for m :: "(actor_error + unit) \<times> ('a, 'b, 'c, 'd) actor" and f g
    using that by (cases m) (auto split: sum.split)
  show ?thesis unfolding submit_instrument_def Let_def
    by (rule panic_and_then [OF c]) (simp add: k [OF w])
qed

lemma bootstrap_no_panic: "fst (bootstrap_instrument env i s) \<noteq> Inl ActorPanic"
proof (cases "ac_cache s i")
  case (Some inst)
  then show ?thesis
    by (simp add: bootstrap_instrument_def) (intro panic_and_then submit_no_panic, simp add: flush_books)
next
  case None
  have c: "fst (and_then (call env c s1) (\<lambda>_ s. (Inr (), f s))) \<noteq> Inl ActorPanic" for c f and s1 :: "('a, 'b, 'c, 'd) actor"
    by (intro panic_and_then call_no_panic) simp
  have "fst (request_hip4_instruments env s) \<noteq> Inl ActorPanic"
    by (simp add: request_hip4_instruments_def Let_def read_clock_def c)
  moreover have "fst (and_then (call env (RequestInstrument i client) s) (\<lambda>_ s.
      if b s then (Inr (), emit (SubscribeInstrument i client) s) else (Inr (), s))) \<noteq> Inl ActorPanic" for b client
    by (intro panic_and_then call_no_panic) simp
  ultimately show ?thesis using None by (simp add: bootstrap_instrument_def Let_def)
qed

lemma subscribe_no_panic: "fst (subscribe_plan env p s) \<noteq> Inl ActorPanic"
  by (auto simp: subscribe_plan_def Let_def split: sum.split prod.split)

text \<open>
  Make before break: after a reconciliation a series still records the market it recorded before, or
  the one it prepared, whose books had been recorded in full and whose window was running. Either is
  owned, whatever fails on the way, and no lookup of an owned market panics.
\<close>

lemma handover_ok:
  fixes s :: "('i::linorder, 'b, 'p, 'd) actor"
  assumes ok: "series_ok env s" and a: "map_of (hv_series (ac_rolling s)) a = Some sr" and k: "sr_current sr = Some k"
  defines "r \<equiv> reconcile_hip4_rolling env s" and "now \<equiv> ae_now env (ac_calls s)"
  shows "series_ok env (snd r) \<and> fst r \<noteq> Inl ActorPanic
    \<and> (\<exists>sr' k'. map_of (hv_series (ac_rolling (snd r))) a = Some sr' \<and> sr_current sr' = Some k'
        \<and> k' \<in> fst ` set (hv_markets (ac_rolling (snd r)))
        \<and> (k' = k \<or> (sr_pending sr = Some k' \<and> (\<exists>m. map_of (hv_markets (ac_rolling s)) k' = Some m \<and> books_ready m s
             \<and> now < rm_end_ns (rg_market m)))))"
proof (cases "hv_config (ac_rolling s)")
  case None
  have "k \<in> fst ` set (hv_markets (ac_rolling s))" by (rule owned_referenced [OF ok a]) (simp add: referenced_def k)
  then show ?thesis using None ok a k by (simp add: r_def reconcile_hip4_rolling_def)
next
  case (Some config)
  define s1 where "s1 = s\<lparr>ac_calls := Suc (ac_calls s)\<rparr>"
  have c: "read_clock env s = (now, s1)" by (simp add: read_clock_def now_def s1_def)
  have sb: "same_books s s1" "hv_series (ac_rolling s1) = hv_series (ac_rolling s)" by (simp_all add: s1_def same_books_def)
  have ok1: "series_ok env s1" using ok by (simp add: series_ok_def s1_def)
  define m where "m = reconcile_assets env config now (rc_underlyings config) [] s1"
  have "unreferenced [] (hv_series (ac_rolling s1))" by (simp add: unreferenced_def)
  note spec = reconcile_assets_spec [OF ok1 this, of config now "rc_underlyings config", folded m_def]
  have r: "r = and_then m (\<lambda>retire s. retire_hip4_rolling env retire s)"
    by (simp add: r_def reconcile_hip4_rolling_def Some c m_def)
  obtain sr' where sr': "map_of (hv_series (ac_rolling (snd m))) a = Some sr'" "handed s1 now sr sr'"
    using spec a unfolding sb(2) by blast
  have "series_ok env (snd r) \<and> fst r \<noteq> Inl ActorPanic \<and> hv_series (ac_rolling (snd r)) = hv_series (ac_rolling (snd m))"
  proof (cases "fst m")
    case (Inl e)
    then show ?thesis using spec by (simp add: r and_then_def split_beta)
  next
    case (Inr gone)
    have okm: "series_ok env (snd m)" "unreferenced gone (hv_series (ac_rolling (snd m)))" using spec Inr by blast+
    have "btree_map (hv_markets (ac_rolling (snd m)))" using okm(1) by (simp add: series_ok_def series_wf_def)
    from retire_rolling_spec [OF this, of env gone] retire_series_ok [OF okm]
    show ?thesis by (simp add: r and_then_Inr [OF Inr])
  qed
  then have f: "series_ok env (snd r)" "fst r \<noteq> Inl ActorPanic" "map_of (hv_series (ac_rolling (snd r))) a = Some sr'"
    using sr'(1) by simp_all
  have "handed s now sr sr'" using sr'(2) handed_cong [OF sb(1)] by simp
  then obtain k' where k': "sr_current sr' = Some k'" "k' = k \<or> (sr_pending sr = Some k' \<and> (\<exists>m.
      map_of (hv_markets (ac_rolling s)) k' = Some m \<and> books_ready m s \<and> now < rm_end_ns (rg_market m)))"
    using k by (auto simp: handed_def)
  moreover have "k' \<in> fst ` set (hv_markets (ac_rolling (snd r)))"
    by (rule owned_referenced [OF f(1,3)]) (simp add: referenced_def k'(1))
  ultimately show ?thesis using f by blast
qed

text \<open>The invariant across the handlers of the rolling capture, and that none of them panics.\<close>

definition rolls :: "('i, 'b) actor_env \<Rightarrow> ('i, 'b, 'p, 'd) actor \<Rightarrow> ('a, ('i, 'b, 'p, 'd) actor) outcome \<Rightarrow> bool" where
  "rolls env s r \<longleftrightarrow> (series_ok env s \<longrightarrow> series_ok env (snd r) \<and> fst r \<noteq> Inl ActorPanic)"

lemma rolls_and_then:
  assumes "rolls env s m" "\<And>a. rolls env (snd m) (k a (snd m))"
  shows "rolls env s (and_then m k)"
proof (cases "fst m")
  case (Inl e)
  then have "and_then m k = (Inl e, snd m)" by (simp add: and_then_def split_beta)
  then show ?thesis using assms(1) Inl by (simp add: rolls_def)
next
  case (Inr a)
  then show ?thesis using assms(1) assms(2) [of a] unfolding and_then_Inr [OF Inr] by (simp add: rolls_def)
qed

lemma rolls_core: "owned_core (snd r) = owned_core s \<Longrightarrow> fst r \<noteq> Inl ActorPanic \<Longrightarrow> rolls env s r"
  using series_ok_core [of "snd r" s env] by (simp add: rolls_def)

lemma rolls_from:
  "hv_series (ac_rolling s') = hv_series (ac_rolling s) \<Longrightarrow> hv_markets (ac_rolling s') = hv_markets (ac_rolling s)
   \<Longrightarrow> rolls env s' r \<Longrightarrow> rolls env s r"
  by (simp add: rolls_def series_ok_def)

lemma steady_each: "(\<And>x s. steady s (snd (f x s))) \<Longrightarrow> steady s (snd (each_ok f xs s))"
proof (induction xs arbitrary: s)
  case (Cons x xs)
  have one: "steady s (snd (f x s))" by (rule Cons.prems)
  have rest: "steady (snd (f x s)) (snd (each_ok f xs (snd (f x s))))" by (rule Cons.IH [OF Cons.prems])
  show ?case
    using one steady_trans [OF one rest] by (cases "fst (f x s)") (simp_all add: and_then_def split_beta)
qed simp

lemma open_plan_rolls:
  "rolls env s (and_then (each_ok (bootstrap_instrument env) ids s) (\<lambda>_ s. subscribe_plan env p s))"
proof (rule rolls_and_then)
  show "rolls env s (each_ok (bootstrap_instrument env) ids s)"
    by (intro rolls_core steady_core [OF steady_each] each_no_panic bootstrap_no_panic quiet_steady quiet_bootstrap)
  show "rolls env s' (subscribe_plan env p s')" for s'
    by (intro rolls_core steady_core [OF steady_subscribe_plan] subscribe_no_panic)
qed

lemma apply_market_rolls:
  assumes "ae_outcome_asset env (rm_outcome market) = asset"
  shows "rolls env s (apply_rolling_market parse env now asset market s)"
proof -
  define sr where "sr = (case map_of (hv_series (ac_rolling s)) asset of Some sr \<Rightarrow> sr | None \<Rightarrow> series_default)"
  let ?sm = "hv_series (ac_rolling s)"
  let ?mm = "hv_markets (ac_rolling s)"
  define s0 where "s0 = set_rolling ((ac_rolling s)\<lparr>hv_series := btree_insert asset sr ?sm\<rparr>) s"
  have ok0: "series_ok env s0" if "series_ok env s"
  proof -
    have w: "series_wf env ?sm ?mm" using that by (simp add: series_ok_def)
    show ?thesis
      using series_wf_insert [OF w series_wf_get [OF w, of asset, folded sr_def]]
      by (simp add: series_ok_def s0_def set_rolling_def)
  qed
  consider (skip) "sr_current sr = Some (rm_outcome market) \<or> sr_pending sr \<noteq> None \<or> now < sr_retry_after sr"
    | (bad) "rolling_recording parse market now = None"
    | (go) r where "rolling_recording parse market now = Some r"
        "\<not> (sr_current sr = Some (rm_outcome market) \<or> sr_pending sr \<noteq> None \<or> now < sr_retry_after sr)"
    by fastforce
  then show ?thesis
  proof cases
    case skip
    then have "apply_rolling_market parse env now asset market s = (Inr (), s0)"
      by (simp add: apply_rolling_market_def sr_def [symmetric] s0_def [symmetric] Let_def)
    then show ?thesis using ok0 by (simp add: rolls_def)
  next
    case bad
    then have "apply_rolling_market parse env now asset market s \<in> {(Inr (), s0), (Inl (ActorError ''recording''), s0)}"
      by (simp add: apply_rolling_market_def sr_def [symmetric] s0_def [symmetric] Let_def)
    then show ?thesis using ok0 by (auto simp: rolls_def)
  next
    case go
    let ?k = "rm_outcome market"
    define s1 where "s1 = set_rolling ((ac_rolling s0)\<lparr>hv_markets := btree_insert ?k r (hv_markets (ac_rolling s0)),
        hv_series := btree_insert asset (sr\<lparr>sr_pending := Some ?k\<rparr>) (hv_series (ac_rolling s0))\<rparr>) s0"
    define add where "add = capture_plan_difference (actor_effective_plan s1) (ac_plan s0)"
    have r: "apply_rolling_market parse env now asset market s
        = and_then (each_ok (bootstrap_instrument env) (planned_instrument_ids add) (sync_plan_state s1)) (\<lambda>_ s. subscribe_plan env add s)"
      using go unfolding apply_rolling_market_def Let_def sr_def [symmetric] s0_def [symmetric]
      by (simp add: add_def sync_fields s1_def)
    have "series_ok env s1" if ok: "series_ok env s"
    proof -
      have w: "series_wf env (btree_insert asset sr ?sm) ?mm" using ok0 [OF ok] by (simp add: series_ok_def s0_def set_rolling_def)
      have "referenced sr \<subseteq> fst ` set ?mm" "\<forall>j \<in> referenced sr. ae_outcome_asset env j = asset" and m: "btree_map ?mm"
        using series_wf_get [of env ?sm ?mm asset, folded sr_def] ok by (auto simp: series_ok_def series_wf_def)
      moreover have "fst ` set (btree_insert ?k r ?mm) = insert ?k (fst ` set ?mm)" by (simp add: btree_insert_def btree_entry_keys)
      ultimately have "referenced (sr\<lparr>sr_pending := Some ?k\<rparr>) \<subseteq> fst ` set (btree_insert ?k r ?mm)"
        "\<forall>j \<in> referenced (sr\<lparr>sr_pending := Some ?k\<rparr>). ae_outcome_asset env j = asset"
        using assms by (auto simp: referenced_def)
      then have "series_wf env (btree_insert asset (sr\<lparr>sr_pending := Some ?k\<rparr>) (btree_insert asset sr ?sm)) (btree_insert ?k r ?mm)"
        by (intro series_wf_insert [OF series_wf_own [OF w]]) (use go in auto)
      then show ?thesis by (simp add: series_ok_def s1_def s0_def set_rolling_def)
    qed
    moreover have "series_ok env (sync_plan_state s1) = series_ok env s1" by (rule series_ok_core) (simp add: sync_fields)
    ultimately show ?thesis using open_plan_rolls [of env "sync_plan_state s1" "planned_instrument_ids add" add]
      unfolding r rolls_def by blast
  qed
qed

lemma apply_assets_rolls:
  assumes "venue_assets env payload"
  shows "rolls env s (apply_rolling_assets api parse env now payload assets s)"
proof (induction assets arbitrary: s)
  case (Cons asset assets)
  show ?case
  proof (cases "\<exists>m. select_rolling_market api payload asset now = Inr (Some m)")
    case True
    then obtain m where m: "select_rolling_market api payload asset now = Inr (Some m)" by blast
    have "ae_outcome_asset env (rm_outcome m) = asset"
      using assms selected_market [OF m] by (auto simp: venue_assets_def)
    then have "rolls env s (and_then (apply_rolling_market parse env now asset m s) (\<lambda>_ s.
        apply_rolling_assets api parse env now payload assets s))"
      by (intro rolls_and_then apply_market_rolls Cons.IH)
    then show ?thesis by (simp add: m)
  next
    case False
    then show ?thesis using Cons by (auto split: sum.split option.split)
  qed
qed (simp add: rolls_def)

lemma reconcile_rolls: "rolls env s (reconcile_hip4_rolling env s)"
  unfolding rolls_def
proof
  assume ok: "series_ok env s"
  show "series_ok env (snd (reconcile_hip4_rolling env s)) \<and> fst (reconcile_hip4_rolling env s) \<noteq> Inl ActorPanic"
  proof (cases "hv_config (ac_rolling s)")
    case None
    then show ?thesis using ok by (simp add: reconcile_hip4_rolling_def)
  next
    case (Some config)
    define now where "now = ae_now env (ac_calls s)"
    define s1 where "s1 = s\<lparr>ac_calls := Suc (ac_calls s)\<rparr>"
    have c: "read_clock env s = (now, s1)" by (simp add: read_clock_def now_def s1_def)
    define m where "m = reconcile_assets env config now (rc_underlyings config) [] s1"
    have "series_ok env s1" "unreferenced [] (hv_series (ac_rolling s1))"
      using ok by (simp_all add: series_ok_def s1_def unreferenced_def)
    note spec = reconcile_assets_spec [OF this, of config now "rc_underlyings config", folded m_def]
    have r: "reconcile_hip4_rolling env s = and_then m (\<lambda>retire s. retire_hip4_rolling env retire s)"
      by (simp add: reconcile_hip4_rolling_def Some c m_def)
    show ?thesis
    proof (cases "fst m")
      case (Inl e)
      then show ?thesis using spec by (simp add: r and_then_def split_beta)
    next
      case (Inr gone)
      have okm: "series_ok env (snd m)" "unreferenced gone (hv_series (ac_rolling (snd m)))" using spec Inr by blast+
      have "btree_map (hv_markets (ac_rolling (snd m)))" using okm(1) by (simp add: series_ok_def series_wf_def)
      from retire_rolling_spec [OF this, of env gone] retire_series_ok [OF okm]
      show ?thesis by (simp add: r and_then_Inr [OF Inr])
    qed
  qed
qed

lemma purge_core: "owned_core (purge_instrument_from_cache i s) = owned_core s"
  using steady_core [OF forget_effect(2) [of s i]]
  by (simp add: purge_instrument_from_cache_def Let_def emit_def owned_core_def)

lemma rolling_release_core:
  "owned_core (snd (rolling_release env is s)) = owned_core s \<and> fst (rolling_release env is s) \<noteq> Inl ActorPanic"
proof (induction "is" arbitrary: s)
  case (Cons i "is")
  show ?case
  proof (cases "planned s i")
    case True
    then show ?thesis using Cons.IH by simp
  next
    case False
    let ?u = "unowned env i [DeltasCount, TradesCount] s"
    have u: "owned_core (snd ?u) = owned_core s" by (rule steady_core [OF quiet_steady [OF quiet_unowned]])
    have n: "fst ?u \<noteq> Inl ActorPanic"
      by (auto simp: unowned_def and_then_def count_any_def call_ok_def split: bool.split)
    show ?thesis
    proof (cases "fst ?u")
      case (Inl e)
      then show ?thesis using False u n by (simp add: and_then_def split_beta)
    next
      case (Inr free)
      then show ?thesis using False u Cons.IH by (simp add: and_then_Inr purge_core)
    qed
  qed
qed simp

lemma take_discovery_rolls:
  assumes "\<forall>payload. answer = Some (Inr payload) \<longrightarrow> venue_assets env payload" "hv_config (ac_rolling s) \<noteq> None"
  shows "rolls env s (take_discovery api parse env config now answer s)"
proof (cases "hv_discovery (ac_rolling s)")
  case True
  let ?s = "set_rolling ((ac_rolling s)\<lparr>hv_discovery := False, hv_next_discovery_ns := sat_add now (retry_ns config)\<rparr>) s"
  show ?thesis
  proof (cases answer)
    case None
    then show ?thesis by (simp add: take_discovery_def rolls_def)
  next
    case (Some x)
    have "rolls env ?s (take_discovery api parse env config now answer s)"
    proof (cases x)
      case (Inl e)
      then show ?thesis using True Some by (simp add: take_discovery_def rolls_def)
    next
      case (Inr payload)
      obtain config' where c: "hv_config (ac_rolling s) = Some config'" using assms(2) by blast
      let ?t = "?s\<lparr>ac_calls := Suc (ac_calls ?s)\<rparr>"
      have "rolls env ?t (apply_rolling_assets api parse env (ae_now env (ac_calls s)) payload (rc_underlyings config') ?t)"
        using assms(1) Some Inr by (intro apply_assets_rolls) simp
      then have "rolls env ?s (apply_rolling_assets api parse env (ae_now env (ac_calls s)) payload (rc_underlyings config') ?t)"
        by (rule rolls_from [rotated 2]) simp_all
      moreover have "take_discovery api parse env config now answer s
          = apply_rolling_assets api parse env (ae_now env (ac_calls s)) payload (rc_underlyings config') ?t"
        using True Some Inr c by (simp add: take_discovery_def apply_hip4_rolling_payload_def set_rolling_def read_clock_def)
      ultimately show ?thesis by simp
    qed
    then show ?thesis by (rule rolls_from [rotated 2]) (simp_all add: set_rolling_def)
  qed
qed (simp add: take_discovery_def rolls_def)

lemma refresh_rolls:
  assumes "\<forall>payload. answer = Some (Inr payload) \<longrightarrow> venue_assets env payload"
  shows "rolls env s (refresh_hip4_rolling api parse env answer s)"
proof (cases "hv_config (ac_rolling s)")
  case None
  then show ?thesis by (simp add: refresh_hip4_rolling_def rolls_def)
next
  case (Some config)
  let ?now = "ae_now env (ac_calls s)"
  let ?s0 = "s\<lparr>ac_calls := Suc (ac_calls s)\<rparr>"
  let ?s = "set_rolling ((ac_rolling ?s0)\<lparr>hv_retiring := []\<rparr>) ?s0"
  define m where "m = rolling_release env (hv_retiring (ac_rolling s)) ?s"
  have rel: "owned_core (snd m) = owned_core ?s" "fst m \<noteq> Inl ActorPanic" by (simp_all add: m_def rolling_release_core)
  then have conf: "hv_config (ac_rolling (snd m)) \<noteq> None" by (simp add: owned_core_def set_rolling_def Some)
  have "rolls env ?s m" by (rule rolls_core [OF rel])
  then have 1: "rolls env s m" by (rule rolls_from [rotated 2]) (simp_all add: set_rolling_def)
  have last_ok: "rolls env t (if b then case call_ok env t of
        (True, s) \<Rightarrow> (Inr (), set_rolling ((ac_rolling s)\<lparr>hv_discovery := True\<rparr>) s)
      | (False, s) \<Rightarrow> (Inl CallFailed, s) else (Inr (), t))" for t b
    by (auto simp: rolls_def series_ok_def call_ok_def set_rolling_def split: bool.split)
  have "refresh_hip4_rolling api parse env answer s = and_then m (\<lambda>_ s.
      and_then (take_discovery api parse env config ?now answer s) (\<lambda>_ s.
      and_then (reconcile_hip4_rolling env s) (\<lambda>_ s.
        if discovery_due config ?now (ac_rolling s) \<and> \<not> hv_discovery (ac_rolling s) \<and> hv_next_discovery_ns (ac_rolling s) \<le> ?now
        then case call_ok env s of
            (True, s) \<Rightarrow> (Inr (), set_rolling ((ac_rolling s)\<lparr>hv_discovery := True\<rparr>) s)
          | (False, s) \<Rightarrow> (Inl CallFailed, s)
        else (Inr (), s))))"
    by (simp add: refresh_hip4_rolling_def Some read_clock_def m_def Let_def)
  then show ?thesis
    by (simp only:) (intro rolls_and_then 1 take_discovery_rolls assms conf reconcile_rolls last_ok)
qed

lemma start_rolls:
  assumes "\<forall>payload. answer = Some (Inr payload) \<longrightarrow> venue_assets env payload"
  shows "rolls env s (start_hip4_rolling api parse env answer s)"
proof -
  let ?s = "s\<lparr>ac_calls := Suc (ac_calls s), ac_timers := (ac_timers s)(rolling_timer := Some 1000000000)\<rparr>"
  have "rolls env s (refresh_hip4_rolling api parse env answer ?s)"
    by (rule rolls_from [rotated 2, OF refresh_rolls [OF assms]]) simp_all
  then show ?thesis by (auto simp: start_hip4_rolling_def call_ok_def rolls_def series_ok_def split: bool.split)
qed

lemma observe_rolls: "rolls env s (observe_hip4_rolling env i snapshot clears lasts s)"
proof -
  let ?s = "set_rolling ((ac_rolling s)\<lparr>hv_ready := btree_extend (hv_ready (ac_rolling s)) [i]\<rparr>) s"
  have "rolls env s (reconcile_hip4_rolling env ?s)"
    by (rule rolls_from [rotated 2, OF reconcile_rolls]) (simp_all add: set_rolling_def)
  then show ?thesis by (auto simp: observe_hip4_rolling_def rolls_def)
qed

lemma stop_rolls: "rolls env s (stop_hip4_rolling env s)"
  unfolding rolls_def
proof
  assume ok: "series_ok env s"
  let ?t = "s\<lparr>ac_timers := (ac_timers s)(rolling_timer := None)\<rparr>"
  let ?s = "set_rolling ((ac_rolling ?t)\<lparr>hv_discovery := False, hv_instrument_request := None, hv_series := []\<rparr>) ?t"
  have r: "stop_hip4_rolling env s = retire_hip4_rolling env (map fst (hv_markets (ac_rolling s))) ?s"
    by (simp add: stop_hip4_rolling_def Let_def)
  have "series_ok env ?s" "unreferenced (map fst (hv_markets (ac_rolling s))) (hv_series (ac_rolling ?s))"
    using ok by (simp_all add: series_ok_def series_wf_def set_rolling_def unreferenced_def btree_map_def)
  moreover have "btree_map (hv_markets (ac_rolling ?s))" using ok by (simp add: series_ok_def series_wf_def set_rolling_def)
  ultimately show "series_ok env (snd (stop_hip4_rolling env s)) \<and> fst (stop_hip4_rolling env s) \<noteq> Inl ActorPanic"
    using retire_series_ok retire_rolling_spec [of ?s env "map fst (hv_markets (ac_rolling s))"] unfolding r by blast
qed

subsection \<open>Make before break\<close>

text \<open>C7: A reconciliation of the rolling capture never panics and never leaves a series without a
  market: the current market stays, or the one in preparation takes its place, and then only with
  both books received and before its own end; either way the current market is an owned one.\<close>

theorem rolling_handover_safe:
  assumes "series_ok env s" "map_of (hv_series (ac_rolling s)) a = Some sr" "sr_current sr = Some k"
  shows "fst (reconcile_hip4_rolling env s) \<noteq> Inl ActorPanic
    \<and> (\<exists>sr' k'. map_of (hv_series (ac_rolling (snd (reconcile_hip4_rolling env s)))) a = Some sr' \<and> sr_current sr' = Some k'
        \<and> k' \<in> fst ` set (hv_markets (ac_rolling (snd (reconcile_hip4_rolling env s))))
        \<and> (k' = k \<or> (sr_pending sr = Some k' \<and> (\<exists>m. map_of (hv_markets (ac_rolling s)) k' = Some m \<and> books_ready m s
             \<and> ae_now env (ac_calls s) < rm_end_ns (rg_market m)))))"
  using handover_ok [OF assms] by blast


end
