(* ===== verification/Actor_Matched.thy ===== *)
theory Actor_Matched
  imports Actor_Keeps
begin

section \<open>Matched sports markets\<close>

text \<open>
  \<open>actor/matched_sports.rs\<close>: the discovery thread publishes complete universes of paired markets; the
  actor keeps up to \<open>max_markets\<close> of them active and prepares at most one successor, which takes over
  only when its definitions and books are recorded.

  The configuration never changes and is an argument; the mailbox is \<open>ac_inbox\<close>. Writing an audit
  line is a call that can fail.
\<close>

definition matched_timer :: string where "matched_timer = ''matched_sports_capture_refresh''"

definition set_matched :: "'i matched_state \<Rightarrow> ('i, 'b, 'p, 'd) actor \<Rightarrow> ('i, 'b, 'p, 'd) actor" where
  "set_matched m s = s\<lparr>ac_matched := m\<rparr>"

definition candidates_of :: "'i matched_universe \<Rightarrow> (nat \<times> 'i matched_market) list" where
  "candidates_of u = foldl (\<lambda>m mk. btree_insert (mk_predict_market_id mk) mk m) [] (mu_markets u)"

definition matched_sports_ready :: "('i, 'b, 'p, 'd) actor \<Rightarrow> 'i matched_market \<Rightarrow> bool" where
  "matched_sports_ready s market =
     (list_all (\<lambda>i. map_of (ms_instrument_versions (ac_matched s)) i \<noteq> None \<and> i \<notin> set (ac_pending_definitions s))
        (market_instrument_ids market)
      \<and> list_all (\<lambda>i. i \<in> set (ac_live s) \<and> map_of (ms_observed (ac_matched s)) i \<noteq> None
            \<and> i \<in> set (ms_usable_books (ac_matched s))) (recording_instrument_ids market))"

subsection \<open>Owned markets\<close>

definition retire_reason :: "nat \<Rightarrow> (nat \<times> nat) list \<Rightarrow> 'i matched_universe \<Rightarrow> string" where
  "retire_reason market retry_after u =
     (case List.find (\<lambda>r. mj_predict_market_id r = market) (mu_rejected u) of
        Some r \<Rightarrow> mj_reason r
      | None \<Rightarrow> if map_of retry_after market \<noteq> None then ''preparation_timeout''
          else if list_ex (\<lambda>m. mk_predict_market_id m = market) (mu_markets u) then ''market_identity_or_rules_changed''
          else ''absent_from_complete_validated_universe'')"

fun drop_markets ::
  "('i, 'b) actor_env \<Rightarrow> 'i matched_universe \<Rightarrow> (nat \<times> 'i matched_market) list \<Rightarrow> ('i, 'b, 'p, 'd) actor
   \<Rightarrow> (unit, ('i, 'b, 'p, 'd) actor) outcome" where
  "drop_markets env u [] s = (Inr (), s)"
| "drop_markets env u ((k, market) # ms) s =
     (if map_of (ms_markets (ac_matched s)) k = Some market then drop_markets env u ms s
      else let m = ac_matched s; gone = set (market_instrument_ids market);
               s = set_matched (m\<lparr>ms_intervals := AList.delete k (ms_intervals m),
                     ms_observed := filter (\<lambda>(i, _). i \<notin> gone) (ms_observed m),
                     ms_usable_books := filter (\<lambda>i. i \<notin> gone) (ms_usable_books m)\<rparr>) s
           in and_then (call env (AppendAudit (''retired '' @ retire_reason k (ms_retry_after m) u)) s) (\<lambda>_ s.
                drop_markets env u ms s))"

definition matched_live_only :: "('i, 'b, 'p, 'd) actor \<Rightarrow> ('i, 'b) capture_plan \<Rightarrow> ('i, 'b) capture_plan" where
  "matched_live_only s p = p\<lparr>pl_trades := filter (\<lambda>x. sp_instrument x \<in> set (ac_live s)) (pl_trades p),
     pl_book_depth := filter (\<lambda>x. bs_instrument x \<in> set (ac_live s)) (pl_book_depth p),
     pl_book_deltas := filter (\<lambda>x. bs_instrument x \<in> set (ac_live s)) (pl_book_deltas p)\<rparr>"

definition matched_seals :: "('i, 'b) actor_env \<Rightarrow> ('i, 'b) capture_plan \<Rightarrow> ('i, 'b) command list" where
  "matched_seals env removed =
     (if ae_writer env Trades then map (\<lambda>x. SealInstrument Trades (sp_instrument x)) (pl_trades removed) else [])
     @ (if ae_writer env BookDepth then map (\<lambda>x. SealInstrument BookDepth (bs_instrument x)) (pl_book_depth removed) else [])
     @ (if ae_writer env BookDeltas then map (\<lambda>x. SealInstrument BookDeltas (bs_instrument x)) (pl_book_deltas removed) else [])"

definition retire_matched :: "nat \<Rightarrow> ('i::linorder, 'b, 'p, 'd) actor \<Rightarrow> 'i \<Rightarrow> ('i, 'b, 'p, 'd) actor" where
  "retire_matched now s i =
     (if planned s i then s
      else let s = forget_instrument_runtime_state i s; m = ac_matched s
           in set_matched (m\<lparr>ms_retiring := btree_insert i (sat_add now 30000000000) (ms_retiring m)\<rparr>) s)"

definition admit_matched ::
  "('i::linorder, 'b) actor_env \<Rightarrow> 'i \<Rightarrow> ('i, 'b, 'p, 'd) actor \<Rightarrow> (unit, ('i, 'b, 'p, 'd) actor) outcome" where
  "admit_matched env i s =
     bootstrap_instrument env i
       (set_matched ((ac_matched s)\<lparr>ms_retiring := AList.delete i (ms_retiring (ac_matched s))\<rparr>) s)"

text \<open>
  An instrument that is already live for another owner gets the commands for its new families; the
  gate of \<open>subscribe_market_data_for_instrument\<close> would skip them.
\<close>

definition live_additions :: "('i, 'b, 'p, 'd) actor \<Rightarrow> ('i, 'b) capture_plan \<Rightarrow> ('i, 'b) capture_spec list" where
  "live_additions s added =
     map TradeSpec (filter (\<lambda>x. sp_instrument x \<in> set (ac_live s)) (pl_trades added))
     @ map BookDepthSpec (filter (\<lambda>x. bs_instrument x \<in> set (ac_live s)) (pl_book_depth added))
     @ map BookDeltasSpec (filter (\<lambda>x. bs_instrument x \<in> set (ac_live s)) (pl_book_deltas added))"

definition subscribe_spec :: "('i, 'b, 'p, 'd) actor \<Rightarrow> ('i, 'b) capture_spec \<Rightarrow> ('i, 'b, 'p, 'd) actor" where
  "subscribe_spec s spec = emit (SubscribeMarket (subscribed_form spec) (Option.bind (spec_instrument spec) (market_data_client_id s))) s"

definition admission_kind :: "('i, 'b, 'p, 'd) actor \<Rightarrow> nat \<Rightarrow> string" where
  "admission_kind s k =
     (case ms_preparing (ac_matched s) of Some p \<Rightarrow> if pr_market_id p = k then ''preparing'' else ''admitted'' | None \<Rightarrow> ''admitted'')"

definition apply_matched_sports_owned ::
  "('i::linorder, 'b) actor_env \<Rightarrow> (nat \<times> 'i matched_market) list \<Rightarrow> 'i matched_universe \<Rightarrow> ('i, 'b, 'p, 'd) actor
   \<Rightarrow> (unit, ('i, 'b, 'p, 'd) actor) outcome" where
  "apply_matched_sports_owned env owned u s =
     (if ms_markets (ac_matched s) = owned then (Inr (), s)
      else let old_plan = ac_plan s; previous = ms_markets (ac_matched s);
               s = set_matched ((ac_matched s)\<lparr>ms_markets := owned\<rparr>) s
           in and_then (drop_markets env u previous s) (\<lambda>_ s.
              let s = sync_plan_state s;
                  removed = capture_plan_difference old_plan (ac_plan s);
                  added = capture_plan_difference (ac_plan s) old_plan;
                  s = unsubscribe_plan env (matched_live_only s removed) s
              in and_then (each_ok (call env) (matched_seals env removed) s) (\<lambda>_ s.
                 let (now, s) = read_clock env s;
                     s = foldl (retire_matched now) s (planned_instrument_ids removed)
                 in and_then (each_ok (admit_matched env) (planned_instrument_ids added) s) (\<lambda>_ s.
                    let s = foldl subscribe_spec s (live_additions s added)
                    in and_then (subscribe_plan env added s) (\<lambda>_ s.
                       each_ok (\<lambda>(k, _) s. call env (AppendAudit (admission_kind s k)) s)
                         (filter (\<lambda>(k, market). map_of previous k \<noteq> Some market) (ms_markets (ac_matched s))) s)))))"

subsection \<open>Choosing the owned markets\<close>

text \<open>The slots a reconciliation works on: the active markets, the one in preparation, the waiting times, the events.\<close>

record slots_state =
  sl_active :: "nat list"
  sl_preparing :: "preparation option"
  sl_retry_after :: "(nat \<times> nat) list"
  sl_events :: "string list"

definition update_preparing ::
  "'q matched_config \<Rightarrow> nat \<Rightarrow> ('i, 'b, 'p, 'd) actor \<Rightarrow> preparation \<Rightarrow> slots_state \<Rightarrow> slots_state option" where
  "update_preparing config now s p sl =
     (case map_of (ms_markets (ac_matched s)) (pr_market_id p) of
        None \<Rightarrow> None
      | Some market \<Rightarrow>
         let ready = matched_sports_ready s market;
             sl = (if ready \<noteq> pr_ready p \<and> ready then sl\<lparr>sl_events := sl_events sl @ [''prepared'']\<rparr> else sl);
             p = (if ready \<noteq> pr_ready p
                  then p\<lparr>pr_ready := ready, pr_started_ns := (if ready then pr_started_ns p else now)\<rparr> else p)
         in Some (if \<not> pr_ready p \<and> mg_preparation_timeout_secs config * 1000000000 mod 2 ^ 64 \<le> sat_sub now (pr_started_ns p)
              then sl\<lparr>sl_preparing := None,
                     sl_retry_after := btree_insert (pr_market_id p)
                       (sat_add now (mg_preparation_retry_secs config * 1000000000 mod 2 ^ 64)) (sl_retry_after sl),
                     sl_events := sl_events sl @ [''preparation_timeout'']\<rparr>
              else sl\<lparr>sl_preparing := Some p\<rparr>))"

definition keep_active ::
  "'q matched_config \<Rightarrow> (nat \<times> 'i matched_market) list \<Rightarrow> (nat \<times> 'i matched_market) list \<Rightarrow> nat list \<Rightarrow> slots_state \<Rightarrow> slots_state" where
  "keep_active config candidates markets admissions sl =
     sl\<lparr>sl_active := filter (\<lambda>k. map_of candidates k = map_of markets k
        \<or> (mg_preload_next config \<and> map_of candidates k = None
           \<and> (sl_preparing sl \<noteq> None \<or> list_ex (\<lambda>c. c \<notin> set (sl_active sl)) admissions))) (sl_active sl)\<rparr>"

definition promote_prepared ::
  "('i, 'b) actor_env \<Rightarrow> 'q matched_config \<Rightarrow> (nat \<times> 'i matched_market) list \<Rightarrow> (nat \<times> 'i matched_market) list \<Rightarrow> slots_state
   \<Rightarrow> ('i, 'b, 'p, 'd) actor \<Rightarrow> (slots_state, ('i, 'b, 'p, 'd) actor) outcome" where
  "promote_prepared env config candidates markets sl s =
     (case sl_preparing sl of
        None \<Rightarrow> (Inr sl, s)
      | Some p \<Rightarrow>
         let ended = List.find (\<lambda>k. map_of candidates k \<noteq> map_of markets k) (sl_active sl)
         in if pr_ready p \<and> (length (sl_active sl) < mg_max_markets config \<or> ended \<noteq> None)
            then and_then (optional_flush_all env Instruments s) (\<lambda>_ s.
                 and_then (optional_flush_all env BookDepth s) (\<lambda>_ s.
                 and_then (optional_flush_all env BookDeltas s) (\<lambda>_ s.
                 and_then (optional_flush_all env Trades s) (\<lambda>_ s.
                   (Inr (sl\<lparr>sl_active := btree_extend (case ended of Some k \<Rightarrow> btree_remove k (sl_active sl) | None \<Rightarrow> sl_active sl)
                             [pr_market_id p],
                           sl_preparing := None, sl_events := sl_events sl @ [''promoted'']\<rparr>), s)))))
            else (Inr sl, s))"

fun admit_slots :: "nat \<Rightarrow> nat list \<Rightarrow> slots_state \<Rightarrow> slots_state" where
  "admit_slots limit [] sl = sl"
| "admit_slots limit (k # ks) sl =
     (if limit \<le> length (sl_active sl) then sl
      else admit_slots limit ks
        (if map_of (sl_retry_after sl) k = None \<and> (case sl_preparing sl of None \<Rightarrow> True | Some p \<Rightarrow> pr_market_id p \<noteq> k)
         then sl\<lparr>sl_active := btree_extend (sl_active sl) [k]\<rparr> else sl))"

definition preload_slot :: "'q matched_config \<Rightarrow> nat \<Rightarrow> nat list \<Rightarrow> slots_state \<Rightarrow> slots_state" where
  "preload_slot config now admissions sl =
     (if mg_preload_next config \<and> sl_preparing sl = None \<and> sl_active sl \<noteq> []
      then case List.find (\<lambda>k. k \<notin> set (sl_active sl) \<and> map_of (sl_retry_after sl) k = None) admissions of
          None \<Rightarrow> sl
        | Some k \<Rightarrow> sl\<lparr>sl_preparing := Some \<lparr>pr_market_id = k, pr_started_ns = now, pr_ready = False\<rparr>\<rparr>
      else sl)"

text \<open>The markets to own; \<open>None\<close> is the panic of the index into the candidates.\<close>

definition owned_markets ::
  "(nat \<times> 'i matched_market) list \<Rightarrow> (nat \<times> 'i matched_market) list \<Rightarrow> slots_state \<Rightarrow> (nat \<times> 'i matched_market) list option" where
  "owned_markets candidates markets sl =
     (let owned = foldl (\<lambda>m k. case (case map_of candidates k of Some x \<Rightarrow> Some x | None \<Rightarrow> map_of markets k) of
                       Some market \<Rightarrow> btree_insert k market m | None \<Rightarrow> m) [] (sl_active sl)
      in case sl_preparing sl of
           None \<Rightarrow> Some owned
         | Some p \<Rightarrow> map_option (\<lambda>market. btree_insert (pr_market_id p) market owned) (map_of candidates (pr_market_id p)))"

text \<open>The slots are filled, the budget is checked, and the owned markets are applied.\<close>

definition commit_slots ::
  "'q matched_config \<Rightarrow> ('i::linorder, 'b) actor_env \<Rightarrow> nat \<Rightarrow> 'i matched_universe \<Rightarrow> (nat \<times> 'i matched_market) list
   \<Rightarrow> (nat \<times> 'i matched_market) list \<Rightarrow> nat list \<Rightarrow> slots_state \<Rightarrow> ('i, 'b, 'p, 'd) actor \<Rightarrow> (unit, ('i, 'b, 'p, 'd) actor) outcome" where
  "commit_slots config env now u candidates markets admissions sl s =
     (let sl = preload_slot config now admissions (admit_slots (mg_max_markets config) admissions sl)
      in case owned_markets candidates markets sl of
           None \<Rightarrow> (Inl ActorPanic, s)
         | Some owned \<Rightarrow>
            if mg_max_markets config + (if mg_preload_next config then 1 else 0) < length owned
            then (Inl (ActorError ''preparation resource budget exceeded''), s)
            else if card (set (map (mk_polymarket_condition_id \<circ> snd) owned)) \<noteq> length owned
            then (Inl (ActorError ''overlapping Polymarket preparation identity''), s)
            else let s = set_matched ((ac_matched s)\<lparr>ms_active := sl_active sl, ms_preparing := sl_preparing sl\<rparr>) s
                 in and_then (apply_matched_sports_owned env owned u s) (\<lambda>_ s.
                      each_ok (\<lambda>kind s. call env (AppendAudit kind) s) (sl_events sl) s))"

text \<open>From the slot in preparation on: the incumbents that stay, the promotion, the rest.\<close>

definition settle_slots ::
  "'q matched_config \<Rightarrow> ('i::linorder, 'b) actor_env \<Rightarrow> nat \<Rightarrow> 'i matched_universe \<Rightarrow> (nat \<times> 'i matched_market) list
   \<Rightarrow> (nat \<times> 'i matched_market) list \<Rightarrow> nat list \<Rightarrow> slots_state \<Rightarrow> ('i, 'b, 'p, 'd) actor \<Rightarrow> (unit, ('i, 'b, 'p, 'd) actor) outcome" where
  "settle_slots config env now u candidates markets admissions sl s =
     (let s = set_matched ((ac_matched s)\<lparr>ms_retry_after := sl_retry_after sl\<rparr>) s;
          sl = keep_active config candidates markets admissions sl
      in and_then (promote_prepared env config candidates markets sl s) (\<lambda>sl s.
           commit_slots config env now u candidates markets admissions sl s))"

text \<open>The preparation that is still of the universe is looked at; \<open>None\<close> is the panic of the index into the owned markets.\<close>

definition opened_slots ::
  "'q matched_config \<Rightarrow> nat \<Rightarrow> (nat \<times> 'i matched_market) list \<Rightarrow> ('i, 'b, 'p, 'd) actor \<Rightarrow> slots_state option" where
  "opened_slots config now candidates s =
     (let sl = \<lparr>sl_active = ms_active (ac_matched s), sl_preparing = None, sl_retry_after = ms_retry_after (ac_matched s), sl_events = []\<rparr>
      in case ms_preparing (ac_matched s) of
           Some p \<Rightarrow> if mg_preload_next config \<and> map_of candidates (pr_market_id p) = map_of (ms_markets (ac_matched s)) (pr_market_id p)
                     then update_preparing config now s p sl else Some sl
         | None \<Rightarrow> Some sl)"

definition admissions_of :: "'i matched_universe \<Rightarrow> nat list" where
  "admissions_of u = (case mu_admission_ids u of Some ids \<Rightarrow> ids | None \<Rightarrow> map mk_predict_market_id (mu_markets u))"

definition reconcile_matched_sports ::
  "'q matched_config option \<Rightarrow> ('i::linorder, 'b) actor_env \<Rightarrow> ('i, 'b, 'p, 'd) actor \<Rightarrow> (unit, ('i, 'b, 'p, 'd) actor) outcome" where
  "reconcile_matched_sports config env s =
     (case (ms_universe (ac_matched s), config) of
        (Some u, Some config) \<Rightarrow>
         let (now, s) = read_clock env s;
             candidates = candidates_of u;
             retry_after = filter (\<lambda>(k, deadline). map_of candidates k \<noteq> None \<and> now < deadline) (ms_retry_after (ac_matched s));
             s = set_matched ((ac_matched s)\<lparr>ms_retry_after := retry_after\<rparr>) s
         in case opened_slots config now candidates s of
              None \<Rightarrow> (Inl ActorPanic, s)
            | Some sl \<Rightarrow> settle_slots config env now u candidates (ms_markets (ac_matched s)) (admissions_of u) sl s
      | _ \<Rightarrow> (Inr (), s))"

definition apply_matched_sports_universe ::
  "'q matched_config option \<Rightarrow> ('i::linorder, 'b) actor_env \<Rightarrow> 'i matched_universe \<Rightarrow> ('i, 'b, 'p, 'd) actor
   \<Rightarrow> (unit, ('i, 'b, 'p, 'd) actor) outcome" where
  "apply_matched_sports_universe config env u s =
     (let candidates = candidates_of u
      in if length candidates \<noteq> length (mu_markets u) then (Inl (ActorError ''duplicate MatchedSports market identity''), s)
         else if card (set (map mk_polymarket_condition_id (mu_markets u))) \<noteq> length (mu_markets u)
         then (Inl (ActorError ''duplicate Polymarket condition mapping''), s)
         else if (case mu_admission_ids u of None \<Rightarrow> False
                  | Some ids \<Rightarrow> \<not> (card (set ids) = length ids \<and> list_all (\<lambda>k. map_of candidates k \<noteq> None) ids))
         then (Inl (ActorError ''invalid or duplicate MatchedSports admission identity''), s)
         else and_then (reconcile_matched_sports config env (set_matched ((ac_matched s)\<lparr>ms_universe := Some u\<rparr>) s)) (\<lambda>_ s.
                call env (AppendAudit ''discovery'') s))"

subsection \<open>Observation\<close>

fun refresh_intervals :: "nat \<Rightarrow> ('i, 'b) actor_env \<Rightarrow> nat \<Rightarrow> 'i matched_market list \<Rightarrow> ('i, 'b, 'p, 'd) actor \<Rightarrow> (unit, ('i, 'b, 'p, 'd) actor) outcome" where
  "refresh_intervals timeout env now [] s = (Inr (), s)"
| "refresh_intervals timeout env now (market # ms) s =
     (let m = ac_matched s; k = mk_predict_market_id market;
          ready = list_all (\<lambda>i. case map_of (ms_observed m) i of Some seen \<Rightarrow> sat_sub now seen \<le> timeout | None \<Rightarrow> False)
            (recording_instrument_ids market);
          previous = map_of (ms_intervals m) k;
          s = set_matched (m\<lparr>ms_intervals := btree_insert k ready (ms_intervals m)\<rparr>) s
      in and_then (if previous \<noteq> Some ready
                   then call env (AppendAudit (if ready then ''comparable_open'' else ''comparable_closed'')) s
                   else (Inr (), s)) (\<lambda>_ s. refresh_intervals timeout env now ms s))"

definition refresh_matched_sports_intervals ::
  "'q matched_config option \<Rightarrow> ('i, 'b) actor_env \<Rightarrow> ('i, 'b, 'p, 'd) actor \<Rightarrow> (unit, ('i, 'b, 'p, 'd) actor) outcome" where
  "refresh_matched_sports_intervals config env s =
     (case config of
        None \<Rightarrow> (Inr (), s)
      | Some c \<Rightarrow> let (now, s) = read_clock env s
          in refresh_intervals (mg_observation_timeout_secs c * 1000000000 mod 2 ^ 64) env now (map snd (ms_markets (ac_matched s))) s)"

definition readiness_changed :: "('i, 'b, 'p, 'd) actor \<Rightarrow> 'i \<Rightarrow> bool option" where
  "readiness_changed s i =
     (case ms_preparing (ac_matched s) of
        None \<Rightarrow> Some False
      | Some p \<Rightarrow> map_option (\<lambda>market. i \<in> set (recording_instrument_ids market) \<and> matched_sports_ready s market \<noteq> pr_ready p)
          (map_of (ms_markets (ac_matched s)) (pr_market_id p)))"

definition observe_matched_sports ::
  "'q matched_config option \<Rightarrow> ('i::linorder, 'b) actor_env \<Rightarrow> 'i \<Rightarrow> bool \<Rightarrow> bool \<Rightarrow> ('i, 'b, 'p, 'd) actor
   \<Rightarrow> (unit, ('i, 'b, 'p, 'd) actor) outcome" where
  "observe_matched_sports config env i snapshot usable s =
     (if ac_inbox s = None then (Inr (), s)
      else let configured = (if ae_venue env i = ''PREDICT'' then i \<in> bs_instrument ` set (pl_book_depth (ac_plan s))
                             else i \<in> bs_instrument ` set (pl_book_deltas (ac_plan s)))
           in if \<not> accepts_market_data env i configured s then (Inr (), s)
              else let (now, s) = read_clock env s;
                       m = matched_observe i now snapshot (ac_matched s);
                       m = m\<lparr>ms_usable_books := (if usable \<and> map_of (ms_observed m) i \<noteq> None then btree_extend (ms_usable_books m) [i]
                               else btree_remove i (ms_usable_books m))\<rparr>;
                       s = set_matched m s
                   in case readiness_changed s i of
                        None \<Rightarrow> (Inl ActorPanic, s)
                      | Some changed \<Rightarrow> and_then (if changed then reconcile_matched_sports config env s else (Inr (), s)) (\<lambda>_ s.
                          refresh_matched_sports_intervals config env s))"

subsection \<open>The timer, the start and the stop\<close>

fun matched_release :: "('i::linorder, 'b) actor_env \<Rightarrow> 'i list \<Rightarrow> ('i, 'b, 'p, 'd) actor \<Rightarrow> (unit, ('i, 'b, 'p, 'd) actor) outcome" where
  "matched_release env [] s = (Inr (), s)"
| "matched_release env (i # is) s =
     (let s = set_matched ((ac_matched s)\<lparr>ms_retiring := AList.delete i (ms_retiring (ac_matched s))\<rparr>) s
      in and_then (if planned s i then (Inr False, s) else unowned env i [DepthCount, DeltasCount, TradesCount] s) (\<lambda>free s.
           matched_release env is
             (if free then let s = purge_instrument_from_cache i s; m = ac_matched s
                in set_matched (m\<lparr>ms_instrument_versions := AList.delete i (ms_instrument_versions m)\<rparr>) s
              else s)))"

definition refresh_matched_sports ::
  "'q matched_config option \<Rightarrow> ('i::linorder, 'b) actor_env \<Rightarrow> ('i, 'b, 'p, 'd) actor \<Rightarrow> (unit, ('i, 'b, 'p, 'd) actor) outcome" where
  "refresh_matched_sports config env s =
     (let (now, s) = read_clock env s;
          (update, s) = (case ac_inbox s of
              None \<Rightarrow> (None, s)
            | Some b \<Rightarrow> let (answer, b) = inbox_take (ms_generation (ac_matched s)) b in (answer, s\<lparr>ac_inbox := Some b\<rparr>))
      in and_then (case update of
              None \<Rightarrow> (Inr (), s)
            | Some (Inr u) \<Rightarrow> apply_matched_sports_universe config env u s
            | Some (Inl _) \<Rightarrow> call env (AppendAudit ''discovery_failed_retained'') s) (\<lambda>_ s.
         and_then (reconcile_matched_sports config env s) (\<lambda>_ s.
         and_then (matched_release env (map fst (filter (\<lambda>(_, deadline). deadline \<le> now) (ms_retiring (ac_matched s)))) s) (\<lambda>_ s.
           refresh_matched_sports_intervals config env s))))"

definition start_matched_sports ::
  "('i, 'b) actor_env \<Rightarrow> ('i, 'b, 'p, 'd) actor \<Rightarrow> (unit, ('i, 'b, 'p, 'd) actor) outcome" where
  "start_matched_sports env s =
     (case ac_inbox s of
        None \<Rightarrow> (Inr (), s)
      | Some b \<Rightarrow>
         let (generation, b) = begin_generation b;
             s = set_matched ((ac_matched s)\<lparr>ms_generation := generation\<rparr>) (s\<lparr>ac_inbox := Some b\<rparr>)
         in and_then (call env (AppendAudit ''started'') s) (\<lambda>_ s. case call_ok env s of
              (True, s) \<Rightarrow> (Inr (), s\<lparr>ac_timers := (ac_timers s)(matched_timer := Some 1000000000)\<rparr>)
            | (False, s) \<Rightarrow> (Inl CallFailed, s)))"

definition stop_matched_sports ::
  "('i::linorder, 'b) actor_env \<Rightarrow> ('i, 'b, 'p, 'd) actor \<Rightarrow> (unit, ('i, 'b, 'p, 'd) actor) outcome" where
  "stop_matched_sports env s =
     (let s = s\<lparr>ac_timers := (ac_timers s)(matched_timer := None)\<rparr>
      in and_then (case ac_inbox s of
             None \<Rightarrow> (Inr (), s)
           | Some b \<Rightarrow> call env (AppendAudit ''stopped'') (s\<lparr>ac_inbox := Some (inbox_stop b)\<rparr>)) (\<lambda>_ s.
         let old_plan = ac_plan s;
             s = sync_plan_state (set_matched matched_state_default s);
             removed = capture_plan_difference old_plan (ac_plan s);
             s = unsubscribe_plan env (matched_live_only s removed) s;
             s = foldl (\<lambda>s i. if planned s i then s else forget_instrument_runtime_state i s) s (planned_instrument_ids removed)
         in optional_flush_all env Instruments s))"

end
