(* ===== verification/Actor_Slots.thy ===== *)
theory Actor_Slots
  imports Actor_Matched
begin

section \<open>What the handlers of matched sports keep\<close>

text \<open>
  The handlers of \<open>Actor_Matched\<close> keep the streams and the plan in step, as those of the rolling
  markets do; the slots of active and prepared markets stay within their budget, and an ended market
  gives up its slot only to a successor that is recorded.
\<close>

subsection \<open>Streams and plan\<close>

lemma still_matched:
  assumes "ms_markets m = ms_markets (ac_matched s)"
  shows "still s (set_matched m s)"
  using assms by (simp add: still_def set_matched_def open_topics_def effective_parts base_specs_def matched_plan_def)

lemma still_and_then:
  "still s (snd m) \<Longrightarrow> (\<And>a. still (snd m) (snd (k a (snd m)))) \<Longrightarrow> still s (snd (and_then m k))"
  by (cases m) (auto simp: and_then_def split: sum.split intro: still_trans)

lemma drop_markets_still:
  fixes s :: "('i, 'b, 'p, 'd) actor"
  shows "still s (snd (drop_markets env u ms s))"
proof (induction ms arbitrary: s)
  case (Cons p ms)
  obtain k market where p: "p = (k, market)" by fastforce
  have st: "still s (set_matched ((ac_matched s)\<lparr>ms_intervals := a, ms_observed := b, ms_usable_books := c\<rparr>) s)" for a b c
    by (rule still_matched) simp
  have "still s' (snd (and_then (call env (AppendAudit a) s') (\<lambda>_ s. drop_markets env u ms s)))" for a and s' :: "('i, 'b, 'p, 'd) actor"
    by (rule still_and_then, rule quiet_still, rule quiet_call, simp) (rule Cons.IH)
  note step = this
  show ?case
  proof (cases "map_of (ms_markets (ac_matched s)) k = Some market")
    case True
    then show ?thesis using Cons.IH by (simp add: p)
  next
    case False
    show ?thesis unfolding p drop_markets.simps Let_def if_not_P [OF False] by (rule still_trans [OF st step])
  qed
qed simp

lemma same_streams_ok: "same_streams s s' \<Longrightarrow> streams_ok env s \<Longrightarrow> streams_ok env s'"
  unfolding same_streams_def streams_ok_def by (metis subset_trans)

lemma subscribe_spec_advances:
  assumes g: "good env s" and x: "x \<in> plan_specs (ac_plan s)" "spec_instrument x = Some i" "i \<in> set (ac_live s)"
  shows "advances env s (Inr (), subscribe_spec s x)"
proof -
  let ?s = "subscribe_spec s x"
  have e: "emits s ?s" by (simp add: subscribe_spec_def)
  note f = emits_fields [OF e]
  have "open_topics ?s = open_topics s \<union> set_option (topic_of x)" by (simp add: subscribe_spec_def topic_step_def)
  moreover have "t \<in> plan_topics (ac_plan s) \<and> (\<not> bar_topic t \<longrightarrow> topic_instrument (ae_bar_instrument env) t \<in> set (ac_live s))"
    if "topic_of x = Some t" for t
    using x that spec_topic_instrument(2) [OF that, of "ae_bar_instrument env"] by (auto simp: plan_topics_specs)
  ultimately have "streams_ok env ?s" using g by (auto simp: good_def streams_ok_def f)
  then show ?thesis using g owned_ok_core [OF steady_core [OF f(1)], of env] by (simp add: advances_def good_def in_step_def f)
qed

lemma subscribe_specs_advances:
  assumes "good env s" "\<And>x. x \<in> set xs \<Longrightarrow> x \<in> plan_specs (ac_plan s) \<and> (\<exists>i. spec_instrument x = Some i \<and> i \<in> set (ac_live s))"
  shows "advances env s (Inr (), foldl subscribe_spec s xs)"
  using assms
proof (induction xs arbitrary: s)
  case (Cons x xs)
  have one: "advances env s (Inr (), subscribe_spec s x)" using Cons.prems subscribe_spec_advances by fastforce
  have f: "ac_plan (subscribe_spec s x) = ac_plan s" "ac_live (subscribe_spec s x) = ac_live s"
    by (simp_all add: subscribe_spec_def emit_def)
  have "advances env (subscribe_spec s x) (Inr (), foldl subscribe_spec (subscribe_spec s x) xs)" if "good env (subscribe_spec s x)"
    using Cons.IH [OF that] Cons.prems(2) f by simp
  from advances_state [OF one this] show ?case by simp
qed simp

lemma live_additions_planned:
  assumes "x \<in> set (live_additions s p)"
  shows "x \<in> plan_specs p \<and> (\<exists>i. spec_instrument x = Some i \<and> i \<in> set (ac_live s))"
  using assms by (auto simp: live_additions_def plan_specs_iff)

lemma retire_matched_advances:
  assumes "good env s"
  shows "advances env s (Inr (), retire_matched now s i)"
proof (cases "planned s i")
  case True
  then show ?thesis using assms by (simp add: retire_matched_def)
next
  case False
  let ?f = "forget_instrument_runtime_state i s"
  have "advances env s (Inr (), ?f)" by (rule advances_forget [OF assms False])
  moreover have "advances env ?f (Inr (), retire_matched now s i)" if "good env ?f"
    using that False by (auto simp: retire_matched_def Let_def intro!: still_advances still_matched)
  ultimately show ?thesis by (rule advances_state)
qed

lemma admit_matched_advances:
  assumes "good env s"
  shows "advances env s (admit_matched env i s)"
proof -
  let ?s = "set_matched ((ac_matched s)\<lparr>ms_retiring := AList.delete i (ms_retiring (ac_matched s))\<rparr>) s"
  have "still s ?s" by (rule still_matched) simp
  then show ?thesis unfolding admit_matched_def
    by (rule advances_from [OF _ assms]) (rule quiet_advances [OF quiet_bootstrap])
qed

lemma audits_advance: "good env s \<Longrightarrow> advances env s (each_ok (\<lambda>x s. call env (AppendAudit (f x s)) s) xs s)"
  by (rule advances_each_ok) (simp_all add: quiet_advances quiet_call)

text \<open>Everything an addition needs: definitions, the new families of live instruments, the others.\<close>

lemma admissions_ok:
  fixes s :: "('i::linorder, 'b, 'p, 'd) actor" and added :: "('i, 'b) capture_plan" and ids :: "'i list"
    and audits :: "('i, 'b, 'p, 'd) actor \<Rightarrow> 'x list" and kind :: "'x \<Rightarrow> ('i, 'b, 'p, 'd) actor \<Rightarrow> string"
  assumes g: "good env s" and p: "plan_specs added \<subseteq> plan_specs (ac_plan s)"
  defines "r \<equiv> and_then (each_ok (admit_matched env) ids s) (\<lambda>_ s.
      and_then (subscribe_plan env added (foldl subscribe_spec s (live_additions s added))) (\<lambda>_ s.
        each_ok (\<lambda>x s. call env (AppendAudit (kind x s)) s) (audits s) s))"
  shows "advances env s r \<and> (isl (fst r) \<or> set (planned_instrument_ids added) \<subseteq> tracked (snd r))"
proof -
  define m where "m = each_ok (admit_matched env) ids s"
  have a: "advances env s m" unfolding m_def by (intro advances_each_ok admit_matched_advances g)
  show ?thesis
  proof (cases "fst m")
    case (Inl e)
    then have "r = (Inl e, snd m)" by (simp add: r_def m_def [symmetric] and_then_def split_beta)
    then show ?thesis using a by (simp add: advances_def)
  next
    case (Inr u)
    define t where "t = foldl subscribe_spec (snd m) (live_additions (snd m) added)"
    define n where "n = subscribe_plan env added t"
    have r: "r = and_then n (\<lambda>_ s. each_ok (\<lambda>x s. call env (AppendAudit (kind x s)) s) (audits s) s)"
      by (simp add: r_def m_def [symmetric] and_then_Inr [OF Inr] n_def t_def)
    have gm: "good env (snd m)" "ac_plan (snd m) = ac_plan s" using a by (simp_all add: advances_def)
    have at: "advances env (snd m) (Inr (), t)" unfolding t_def
    proof (rule subscribe_specs_advances [OF gm(1)])
      fix x
      assume "x \<in> set (live_additions (snd m) added)"
      note x = live_additions_planned [OF this]
      have "plan_specs added \<subseteq> plan_specs (ac_plan (snd m))" using p gm(2) by simp
      then have "x \<in> plan_specs (ac_plan (snd m))" using x by (meson subsetD)
      then show "x \<in> plan_specs (ac_plan (snd m)) \<and> (\<exists>i. spec_instrument x = Some i \<and> i \<in> set (ac_live (snd m)))"
        using x by simp
    qed
    then have gt: "good env t" by (simp add: advances_def)
    have an: "advances env t n" unfolding n_def by (rule advances_subscribe_plan [OF gt])
    then have gn: "good env (snd n)" by (rule advances_good)
    have plan: "ac_plan (snd n) = ac_plan s" using an at gm(2) by (simp add: advances_def)
    have tn: "isl (fst n) \<or> set (planned_instrument_ids added) \<subseteq> tracked (snd n)"
      using subscribe_plan_ok [of env t added] gt by (auto simp: n_def good_def)
    have au: "advances env (snd n) (each_ok (\<lambda>x s. call env (AppendAudit (kind x s)) s) (audits (snd n)) (snd n))"
      by (rule audits_advance [OF gn])
    have "advances env t r" unfolding r by (rule advances_and_then [OF an]) (rule au)
    then have "advances env (snd m) r" using advances_state [OF at] by blast
    moreover have "isl (fst r) \<or> set (planned_instrument_ids added) \<subseteq> tracked (snd r)"
      unfolding r using tn planned_mono [OF p] au by (intro tracked_then) (simp_all add: plan)
    ultimately show ?thesis using advances_trans [OF a] by blast
  qed
qed

lemma matched_live_only_closes:
  assumes "t \<in> plan_topics p" "t \<notin> plan_topics q" "bar_topic t \<or> topic_instrument f t \<in> set (ac_live s)"
  shows "t \<in> plan_topics (matched_live_only s (capture_plan_difference p q))"
proof -
  have specs: "x \<in> plan_specs (matched_live_only s r) \<longleftrightarrow> x \<in> plan_specs r \<and>
     (case x of TradeSpec y \<Rightarrow> sp_instrument y \<in> set (ac_live s) | BookDepthSpec y \<Rightarrow> bs_instrument y \<in> set (ac_live s)
        | BookDeltasSpec y \<Rightarrow> bs_instrument y \<in> set (ac_live s) | _ \<Rightarrow> True)" for x r
    by (cases x) (simp_all add: plan_specs_iff matched_live_only_def)
  obtain x where x: "x \<in> plan_specs p" "topic_of x = Some t" using assms(1) by (auto simp: plan_topics_specs)
  then have "x \<notin> plan_specs q" using assms(2) by (auto simp: plan_topics_specs)
  then have "x \<in> plan_specs (matched_live_only s (capture_plan_difference p q))"
    using x assms(3) by (cases x) (auto simp: specs)
  then show ?thesis using x(2) by (auto simp: plan_topics_specs)
qed

text \<open>What follows once the dropped streams are closed: seals, retirement, additions.\<close>

lemma matched_seals_quiet: "list_all (\<lambda>c. \<not> market_command c) (matched_seals env p)"
  by (auto simp: matched_seals_def list_all_iff)

lemma owned_rest_ok:
  fixes s :: "('i::linorder, 'b, 'p, 'd) actor" and added removed :: "('i, 'b) capture_plan" and ids old :: "'i list"
    and audits :: "('i, 'b, 'p, 'd) actor \<Rightarrow> 'x list" and kind :: "'x \<Rightarrow> ('i, 'b, 'p, 'd) actor \<Rightarrow> string"
    and env :: "('i, 'b) actor_env"
  assumes g: "good env s" and p: "plan_specs added \<subseteq> plan_specs (ac_plan s)"
  defines "r \<equiv> and_then (each_ok (call env) (matched_seals env removed) s) (\<lambda>_ s.
      let (now, s) = read_clock env s; s = foldl (retire_matched now) s old
      in and_then (each_ok (admit_matched env) ids s) (\<lambda>_ s.
        and_then (subscribe_plan env added (foldl subscribe_spec s (live_additions s added))) (\<lambda>_ s.
          each_ok (\<lambda>x s. call env (AppendAudit (kind x s)) s) (audits s) s)))"
  shows "advances env s r \<and> (isl (fst r) \<or> set (planned_instrument_ids added) \<subseteq> tracked (snd r))"
proof -
  define m where "m = each_ok (call env) (matched_seals env removed) s"
  have a: "advances env s m" unfolding m_def by (intro quiet_advances quiet_seals matched_seals_quiet g)
  show ?thesis
  proof (cases "fst m")
    case (Inl e)
    then have "r = (Inl e, snd m)" by (simp add: r_def m_def [symmetric] and_then_def split_beta)
    then show ?thesis using a by (simp add: advances_def)
  next
    case (Inr x)
    obtain now s1 where c: "read_clock env (snd m) = (now, s1)" by fastforce
    define s2 where "s2 = foldl (retire_matched now) s1 old"
    have q: "quiet (snd m) s1" using quiet_clock [of "snd m" env] c by simp
    have a1: "advances env s (Inr (), s1)"
      by (rule advances_trans [OF a]) (rule quiet_advances [OF _ advances_good [OF a]], simp add: q)
    have "advances env s1 (Inr (), s2)" unfolding s2_def
      by (intro advances_fold retire_matched_advances) (use advances_good [OF a1] in simp)+
    from advances_state [OF a1 this] have a2: "advances env s (Inr (), s2)" .
    have r: "r = and_then (each_ok (admit_matched env) ids s2) (\<lambda>_ s.
        and_then (subscribe_plan env added (foldl subscribe_spec s (live_additions s added))) (\<lambda>_ s.
          each_ok (\<lambda>x s. call env (AppendAudit (kind x s)) s) (audits s) s))"
      by (simp add: r_def m_def [symmetric] and_then_Inr [OF Inr] c s2_def)
    have g2: "good env s2" "ac_plan s2 = ac_plan s" using a2 by (simp_all add: advances_def)
    then have "plan_specs added \<subseteq> plan_specs (ac_plan s2)" using p by simp
    note ok = admissions_ok [OF g2(1) this, of ids kind audits, folded r]
    then show ?thesis using advances_state [OF a2] by blast
  qed
qed

lemma apply_owned_keeps:
  fixes s :: "('i::linorder, 'b, 'p, 'd) actor"
  assumes g: "good env s"
  shows "keeps env s (apply_matched_sports_owned env owned u s)"
proof (cases "ms_markets (ac_matched s) = owned")
  case True
  then show ?thesis using g by (simp add: apply_matched_sports_owned_def)
next
  case False
  define s0 where "s0 = set_matched ((ac_matched s)\<lparr>ms_markets := owned\<rparr>) s"
  define m where "m = drop_markets env u (ms_markets (ac_matched s)) s0"
  let ?s1 = "snd m"
  have same: "same_streams s ?s1"
  proof (rule same_trans)
    show "same_streams s s0" by (simp add: s0_def same_streams_def set_matched_def open_topics_def)
    show "same_streams s0 ?s1" unfolding m_def by (rule still_same [OF drop_markets_still])
  qed
  have "still s0 ?s1" unfolding m_def by (rule drop_markets_still)
  then have owned: "owned_ok env ?s1" using g by (simp add: good_def owned_ok_def still_def s0_def set_matched_def)
  show ?thesis
  proof (cases "fst m")
    case (Inl e)
    then have "apply_matched_sports_owned env owned u s = (Inl e, ?s1)"
      using False by (simp add: apply_matched_sports_owned_def Let_def m_def [symmetric] s0_def [symmetric] and_then_def split_beta)
    then show ?thesis using same_streams_ok [OF same, of env] g same
      by (simp add: keeps_def good_def same_streams_def armed_def)
  next
    case (Inr x)
    define removed where "removed = capture_plan_difference (ac_plan s) (actor_effective_plan ?s1)"
    define added where "added = capture_plan_difference (actor_effective_plan ?s1) (ac_plan s)"
    define p where "p = matched_live_only s removed"
    define t where "t = unsubscribe_plan env p (sync_plan_state ?s1)"
    define K where "K s1 s = (let (now, s) = read_clock env s; s = foldl (retire_matched now) s (planned_instrument_ids removed)
        in and_then (each_ok (admit_matched env) (planned_instrument_ids added) s) (\<lambda>_ s.
             let s = foldl subscribe_spec s (live_additions s added)
             in and_then (subscribe_plan env added s) (\<lambda>_ s.
                  each_ok (\<lambda>(k, _) s. call env (AppendAudit (admission_kind s k)) s)
                    (filter (\<lambda>(k, market). map_of (ms_markets (ac_matched s1)) k \<noteq> Some market) (ms_markets (ac_matched s))) s)))"
      for s1 s :: "('i, 'b, 'p, 'd) actor"
    have live: "matched_live_only (sync_plan_state ?s1) q = matched_live_only s q" for q :: "('i, 'b) capture_plan"
      using same by (simp add: matched_live_only_def sync_fields same_streams_def)
    have plan: "ac_plan ?s1 = ac_plan s" using same by (simp add: same_streams_def)
    have r: "apply_matched_sports_owned env owned u s = and_then (each_ok (call env) (matched_seals env removed) t) (\<lambda>_ s'. K s s')"
      by (simp only: apply_matched_sports_owned_def if_not_P [OF False] Let_def s0_def [symmetric] m_def [symmetric]
          and_then_Inr [OF Inr] sync_fields(1) removed_def [symmetric] added_def [symmetric] live p_def [symmetric]
          t_def [symmetric] K_def)
    have pat: "(\<lambda>(k, _ :: 'i matched_market) s. call env (AppendAudit (admission_kind s k)) s)
        = (\<lambda>x s :: ('i, 'b, 'p, 'd) actor. call env (AppendAudit (admission_kind s (fst x))) s)"
      by (auto simp: fun_eq_iff)
    show ?thesis unfolding r
    proof (rule replan_keeps [OF g same owned, of p, folded t_def])
      show "t' \<in> plan_topics p"
        if "t' \<in> plan_topics (ac_plan s)" "t' \<notin> plan_topics (actor_effective_plan ?s1)"
          "bar_topic t' \<or> topic_instrument (ae_bar_instrument env) t' \<in> set (ac_live s)" for t'
        unfolding p_def removed_def by (rule matched_live_only_closes [OF that])
    next
      assume gt: "good env t"
      have "ac_plan t = actor_effective_plan ?s1"
        unfolding t_def by (simp add: emits_fields(8) [OF unsubscribe_effect(1)] sync_fields)
      then have "plan_specs added \<subseteq> plan_specs (ac_plan t)" by (auto simp: added_def)
      note ok = owned_rest_ok [OF gt this, where removed = removed and old = "planned_instrument_ids removed"
          and ids = "planned_instrument_ids added" and kind = "\<lambda>x s. admission_kind s (fst x)"
          and audits = "\<lambda>s'. filter (\<lambda>(k, market). map_of (ms_markets (ac_matched s)) k \<noteq> Some market) (ms_markets (ac_matched s'))"]
      then show "advances env t (and_then (each_ok (call env) (matched_seals env removed) t) (\<lambda>_ s'. K s s'))"
        by (simp add: K_def Let_def pat case_prod_beta)
      fix i
      assume "i \<in> set (planned_instrument_ids (actor_effective_plan ?s1))" "i \<notin> set (planned_instrument_ids (ac_plan s))"
      then have "i \<in> set (planned_instrument_ids added)" by (simp add: added_def planned_difference)
      then show "isl (fst (and_then (each_ok (call env) (matched_seals env removed) t) (\<lambda>_ s'. K s s')))
          \<or> i \<in> tracked (snd (and_then (each_ok (call env) (matched_seals env removed) t) (\<lambda>_ s'. K s s')))"
        using ok by (auto simp: K_def Let_def pat case_prod_beta)
    qed
  qed
qed

text \<open>Everything before the owned markets are applied leaves the streams alone.\<close>

lemma promote_quiet: "quiet s (snd (promote_prepared env config candidates markets sl s))"
  by (auto simp: promote_prepared_def Let_def split: option.split intro!: quiet_and_then quiet_flush)

lemma commit_keeps:
  assumes "good env s"
  shows "keeps env s (commit_slots config env now u cands markets adm sl s)"
proof -
  define sl2 where "sl2 = preload_slot config now adm (admit_slots (mg_max_markets config) adm sl)"
  let ?s = "set_matched ((ac_matched s)\<lparr>ms_active := sl_active sl2, ms_preparing := sl_preparing sl2\<rparr>) s"
  have st: "still s ?s" by (rule still_matched) simp
  have "keeps env s (and_then (apply_matched_sports_owned env owned u ?s) (\<lambda>_ s.
      each_ok (\<lambda>kind s. call env (AppendAudit kind) s) (sl_events sl2) s))" for owned
  proof (rule keeps_from [OF st assms], rule keeps_and_then [OF apply_owned_keeps], assumption, rule advances_keeps)
    fix a and t :: "('a, 'b, 'c, 'd) actor"
    assume "good env (snd (apply_matched_sports_owned env owned u ?s))"
    then show "advances env (snd (apply_matched_sports_owned env owned u ?s))
        (each_ok (\<lambda>kind s. call env (AppendAudit kind) s) (sl_events sl2) (snd (apply_matched_sports_owned env owned u ?s)))"
      by (intro quiet_advances quiet_each_ok quiet_call) simp_all
  qed
  then show ?thesis using assms
    by (simp add: commit_slots_def sl2_def [symmetric] Let_def split: option.split)
qed

lemma settle_keeps:
  assumes "good env s"
  shows "keeps env s (settle_slots config env now u cands markets adm sl s)"
proof -
  let ?s = "set_matched ((ac_matched s)\<lparr>ms_retry_after := sl_retry_after sl\<rparr>) s"
  have st: "still s ?s" by (rule still_matched) simp
  show ?thesis unfolding settle_slots_def Let_def
    by (rule keeps_from [OF st assms], rule advances_then [OF quiet_advances [OF promote_quiet]], assumption, rule commit_keeps)
qed

lemma reconcile_matched_keeps:
  assumes g: "good env s"
  shows "keeps env s (reconcile_matched_sports config env s)"
proof (cases "ms_universe (ac_matched s) = None \<or> config = None")
  case True
  then show ?thesis using g by (auto simp: reconcile_matched_sports_def split: option.split)
next
  case False
  then obtain u c where u: "ms_universe (ac_matched s) = Some u" "config = Some c" by auto
  obtain now s1 where r: "read_clock env s = (now, s1)" by fastforce
  have q: "still s s1" using quiet_still [OF quiet_clock [of s env]] r by simp
  define s2 where "s2 = set_matched ((ac_matched s1)\<lparr>ms_retry_after :=
      filter (\<lambda>(k, deadline). map_of (candidates_of u) k \<noteq> None \<and> now < deadline) (ms_retry_after (ac_matched s1))\<rparr>) s1"
  have "still s1 s2" unfolding s2_def by (rule still_matched) simp
  then have st: "still s s2" by (rule still_trans [OF q])
  have e: "reconcile_matched_sports config env s = (case opened_slots c now (candidates_of u) s2 of
      None \<Rightarrow> (Inl ActorPanic, s2)
    | Some sl \<Rightarrow> settle_slots c env now u (candidates_of u) (ms_markets (ac_matched s2)) (admissions_of u) sl s2)"
    by (simp only: reconcile_matched_sports_def u option.case prod.case r Let_def s2_def)
  show ?thesis unfolding e
    by (rule keeps_from [OF st g]) (simp add: settle_keeps split: option.split)
qed

lemma apply_universe_keeps:
  assumes "good env s"
  shows "keeps env s (apply_matched_sports_universe config env u s)"
proof -
  let ?s = "set_matched ((ac_matched s)\<lparr>ms_universe := Some u\<rparr>) s"
  have st: "still s ?s" by (rule still_matched) simp
  have "keeps env s (and_then (reconcile_matched_sports config env ?s) (\<lambda>_ s. call env (AppendAudit ''discovery'') s))"
    by (rule keeps_from [OF st assms], rule keeps_and_then [OF reconcile_matched_keeps], assumption,
        rule advances_keeps, rule quiet_advances [OF quiet_call], simp)
  then show ?thesis using assms by (simp add: apply_matched_sports_universe_def Let_def split: option.split)
qed

lemma refresh_intervals_still:
  fixes s :: "('i, 'b, 'p, 'd) actor"
  shows "still s (snd (refresh_intervals timeout env now ms s))"
proof (induction ms arbitrary: s)
  case (Cons market ms)
  have st: "still s (set_matched ((ac_matched s)\<lparr>ms_intervals := x\<rparr>) s)" for s :: "('i, 'b, 'p, 'd) actor" and x
    by (rule still_matched) simp
  have q: "still t (snd (if b then call env (AppendAudit a) t else (Inr (), t)))" for b a and t :: "('i, 'b, 'p, 'd) actor"
    by (simp add: quiet_still quiet_call)
  show ?case unfolding refresh_intervals.simps Let_def
    by (rule still_trans [OF st], rule still_and_then, rule q, rule Cons.IH)
qed simp

lemma intervals_advance:
  assumes "good env s"
  shows "advances env s (refresh_matched_sports_intervals config env s)"
proof (cases config)
  case None
  then show ?thesis using assms by (simp add: refresh_matched_sports_intervals_def)
next
  case (Some c)
  obtain now s1 where r: "read_clock env s = (now, s1)" by fastforce
  have q: "still s s1" using quiet_still [OF quiet_clock [of s env]] r by simp
  show ?thesis
    by (rule advances_from [OF q assms])
      (simp add: refresh_matched_sports_intervals_def Some r still_advances [OF refresh_intervals_still])
qed

lemma observe_matched_keeps:
  assumes g: "good env s"
  shows "keeps env s (observe_matched_sports config env i snapshot usable s)"
proof -
  obtain now s1 where r: "read_clock env s = (now, s1)" by fastforce
  have q: "still s s1" using quiet_still [OF quiet_clock [of s env]] r by simp
  define m where "m = (let m = matched_observe i now snapshot (ac_matched s1)
      in m\<lparr>ms_usable_books := (if usable \<and> map_of (ms_observed m) i \<noteq> None then btree_extend (ms_usable_books m) [i]
           else btree_remove i (ms_usable_books m))\<rparr>)"
  have "still s1 (set_matched m s1)" by (rule still_matched) (simp add: m_def matched_observe_def Let_def)
  then have st: "still s (set_matched m s1)" by (rule still_trans [OF q])
  have k: "keeps env t (case x of None \<Rightarrow> (Inl ActorPanic, t) | Some changed \<Rightarrow>
      and_then (if changed then reconcile_matched_sports config env t else (Inr (), t)) (\<lambda>_ s. refresh_matched_sports_intervals config env s))"
    if gt: "good env t" for t x
  proof (cases x)
    case (Some changed)
    have "keeps env t (if changed then reconcile_matched_sports config env t else (Inr (), t))"
      by (simp add: gt reconcile_matched_keeps)
    then have "keeps env t (and_then (if changed then reconcile_matched_sports config env t else (Inr (), t))
        (\<lambda>_ s. refresh_matched_sports_intervals config env s))"
      by (rule keeps_and_then) (rule advances_keeps, rule intervals_advance)
    then show ?thesis using Some by simp
  qed (use gt in simp)
  have "keeps env s (case readiness_changed (set_matched m s1) i of None \<Rightarrow> (Inl ActorPanic, set_matched m s1) | Some changed \<Rightarrow>
      and_then (if changed then reconcile_matched_sports config env (set_matched m s1) else (Inr (), set_matched m s1))
        (\<lambda>_ s. refresh_matched_sports_intervals config env s))"
    by (rule keeps_from [OF st g k])
  note main = this
  define configured where "configured = (if ae_venue env i = ''PREDICT'' then i \<in> bs_instrument ` set (pl_book_depth (ac_plan s))
      else i \<in> bs_instrument ` set (pl_book_deltas (ac_plan s)))"
  show ?thesis
  proof (cases "ac_inbox s = None \<or> \<not> accepts_market_data env i configured s")
    case True
    then show ?thesis using g by (auto simp: observe_matched_sports_def configured_def Let_def)
  next
    case False
    then have c: "ac_inbox s \<noteq> None" "\<not> \<not> accepts_market_data env i configured s" by simp_all
    show ?thesis using main
      by (simp only: observe_matched_sports_def if_not_P [OF c(1)] Let_def configured_def [symmetric] if_not_P [OF c(2)] r prod.case m_def)
  qed
qed

lemma matched_release_advances: "good env s \<Longrightarrow> advances env s (matched_release env is s)"
proof (induction "is" arbitrary: s)
  case (Cons i "is")
  let ?s = "set_matched ((ac_matched s)\<lparr>ms_retiring := AList.delete i (ms_retiring (ac_matched s))\<rparr>) s"
  let ?u = "if planned ?s i then (Inr False, ?s) else unowned env i [DepthCount, DeltasCount, TradesCount] ?s"
  have st: "still s ?s" by (rule still_matched) simp
  have q: "quiet ?s (snd ?u)"
    by (auto simp: unowned_def and_then_def count_any_def call_ok_def split: bool.split)
  have keep: "\<not> planned (snd ?u) i" if "fst ?u = Inr True"
    using that quietD(2) [OF q] by (auto simp: planned_def split: if_splits)
  show ?case unfolding matched_release.simps Let_def
  proof (rule advances_from [OF st Cons.prems], rule advances_and_then')
    assume g: "good env ?s"
    show u: "advances env ?s ?u" by (rule quiet_advances [OF q g])
    fix free
    assume free: "fst ?u = Inr free"
    let ?p = "purge_instrument_from_cache i (snd ?u)"
    let ?t = "if free then set_matched ((ac_matched ?p)\<lparr>ms_instrument_versions := AList.delete i (ms_instrument_versions (ac_matched ?p))\<rparr>) ?p
      else snd ?u"
    have gu: "good env (snd ?u)" by (rule advances_good [OF u])
    have "advances env (snd ?u) (Inr (), ?t)"
    proof (cases free)
      case True
      have one: "advances env (snd ?u) (Inr (), ?p)" by (rule advances_purge [OF gu keep]) (simp add: free True)
      have "still ?p (set_matched ((ac_matched ?p)\<lparr>ms_instrument_versions := x\<rparr>) ?p)" for x by (rule still_matched) simp
      then show ?thesis using True by (intro advances_state [OF one]) (auto intro!: still_advances)
    next
      case False
      then show ?thesis using gu by simp
    qed
    then show "advances env (snd ?u) (matched_release env is ?t)" by (rule advances_state [OF _ Cons.IH])
  qed
qed simp

lemma still_inbox: "still s (s\<lparr>ac_inbox := b\<rparr>)"
  by (simp add: still_def open_topics_def effective_parts base_specs_def)

lemma still_timer: "t \<noteq> pending_timer \<Longrightarrow> still s (s\<lparr>ac_timers := (ac_timers s)(t := x)\<rparr>)"
  by (simp add: still_def open_topics_def effective_parts base_specs_def)

lemma refresh_matched_keeps:
  assumes g: "good env s"
  shows "keeps env s (refresh_matched_sports config env s)"
proof -
  obtain now s1 where r: "read_clock env s = (now, s1)" by fastforce
  have q: "still s s1" using quiet_still [OF quiet_clock [of s env]] r by simp
  obtain update s2 where b: "(case ac_inbox s1 of None \<Rightarrow> (None, s1)
      | Some b \<Rightarrow> let (answer, b) = inbox_take (ms_generation (ac_matched s1)) b in (answer, s1\<lparr>ac_inbox := Some b\<rparr>)) = (update, s2)"
    by fastforce
  have "still s1 s2" using b by (auto simp: Let_def still_inbox split: option.splits prod.splits)
  then have st: "still s s2" by (rule still_trans [OF q])
  have first: "keeps env t (case update of None \<Rightarrow> (Inr (), t) | Some (Inr u) \<Rightarrow> apply_matched_sports_universe config env u t
      | Some (Inl _) \<Rightarrow> call env (AppendAudit ''discovery_failed_retained'') t)" if "good env t" for t
  proof -
    have "keeps env t (call env (AppendAudit a) t)" for a
      by (rule advances_keeps, rule quiet_advances [OF quiet_call _], simp, rule that)
    then show ?thesis by (simp add: that apply_universe_keeps split: option.split sum.split)
  qed
  show ?thesis
    unfolding refresh_matched_sports_def r Let_def prod.case b [unfolded Let_def]
    by (rule keeps_from [OF st g], rule keeps_and_then [OF first], assumption, rule keeps_and_then [OF reconcile_matched_keeps],
        assumption, rule advances_then [OF matched_release_advances], assumption, rule advances_keeps, rule intervals_advance)
qed

lemma start_matched_keeps:
  assumes g: "good env s"
  shows "keeps env s (start_matched_sports env s)"
proof (cases "ac_inbox s")
  case None
  then show ?thesis using g by (simp add: start_matched_sports_def)
next
  case (Some b)
  obtain generation b' where bg: "begin_generation b = (generation, b')" by fastforce
  let ?t = "s\<lparr>ac_inbox := Some b'\<rparr>"
  let ?s = "set_matched ((ac_matched s)\<lparr>ms_generation := generation\<rparr>) ?t"
  have "still ?t ?s" by (rule still_matched) simp
  then have st: "still s ?s" by (rule still_trans [OF still_inbox])
  have last_ok: "advances env t (case call_ok env t of
      (True, s) \<Rightarrow> (Inr (), s\<lparr>ac_timers := (ac_timers s)(matched_timer := Some 1000000000)\<rparr>)
    | (False, s) \<Rightarrow> (Inl CallFailed, s))" if "good env t" for t
  proof -
    let ?u = "t\<lparr>ac_calls := Suc (ac_calls t)\<rparr>"
    have "still t ?u" by (rule quiet_still) simp
    moreover have "still t (?u\<lparr>ac_timers := (ac_timers ?u)(matched_timer := Some 1000000000)\<rparr>)"
      by (rule still_trans [OF \<open>still t ?u\<close> still_timer]) (simp add: matched_timer_def pending_timer_def)
    ultimately show ?thesis using that by (auto simp: call_ok_def split: bool.split intro!: still_advances)
  qed
  have "keeps env s (and_then (call env (AppendAudit ''started'') ?s) (\<lambda>_ s. case call_ok env s of
      (True, s) \<Rightarrow> (Inr (), s\<lparr>ac_timers := (ac_timers s)(matched_timer := Some 1000000000)\<rparr>)
    | (False, s) \<Rightarrow> (Inl CallFailed, s)))"
    by (rule keeps_from [OF st g], rule advances_then [OF quiet_advances [OF quiet_call]], simp, assumption,
        rule advances_keeps, rule last_ok)
  then show ?thesis by (simp add: start_matched_sports_def Some bg)
qed

lemma stop_matched_keeps:
  fixes s :: "('i::linorder, 'b, 'p, 'd) actor"
  assumes g: "good env s"
  shows "keeps env s (stop_matched_sports env s)"
proof -
  have stop: "keeps env t (let s = sync_plan_state (set_matched matched_state_default t);
         removed = capture_plan_difference (ac_plan t) (ac_plan s);
         s = unsubscribe_plan env (matched_live_only s removed) s;
         s = foldl (\<lambda>s i. if planned s i then s else forget_instrument_runtime_state i s) s (planned_instrument_ids removed)
     in optional_flush_all env Instruments s)" if gt: "good env t" for t :: "('i, 'b, 'p, 'd) actor"
  proof -
    define s1 where "s1 = set_matched matched_state_default t"
    define removed where "removed = capture_plan_difference (ac_plan t) (actor_effective_plan s1)"
    define p where "p = matched_live_only t removed"
    define u where "u = unsubscribe_plan env p (sync_plan_state s1)"
    define f where "f = foldl (\<lambda>s i. if planned s i then s else forget_instrument_runtime_state i s) u (planned_instrument_ids removed)"
    have same: "same_streams t s1" by (simp add: s1_def same_streams_def set_matched_def open_topics_def)
    have owned: "owned_ok env s1" using gt by (simp add: good_def owned_ok_def s1_def set_matched_def)
    have live: "matched_live_only (sync_plan_state s1) q = matched_live_only t q" for q :: "('i, 'b) capture_plan"
      using same by (simp add: matched_live_only_def sync_fields same_streams_def)
    have "plan_specs (matched_plan (ac_matched s1)) = ({} :: ('i, 'b) capture_spec set)"
    proof -
      have "x \<notin> plan_specs (empty_plan :: ('i, 'b) capture_plan)" for x
        by (cases x) (simp_all add: plan_specs_iff empty_plan_def)
      then show ?thesis by (auto simp: s1_def set_matched_def matched_plan_def matched_state_default_def)
    qed
    then have less: "plan_specs (actor_effective_plan s1) \<subseteq> plan_specs (ac_plan t)"
      using gt by (auto simp: good_def in_step_def effective_parts s1_def set_matched_def base_specs_def)
    show ?thesis
      unfolding Let_def s1_def [symmetric] sync_fields(1) removed_def [symmetric] live p_def [symmetric] u_def [symmetric] f_def [symmetric]
    proof (rule replan_keeps [OF gt same owned, of p, folded u_def])
      show "t' \<in> plan_topics p" if "t' \<in> plan_topics (ac_plan t)" "t' \<notin> plan_topics (actor_effective_plan s1)"
          "bar_topic t' \<or> topic_instrument (ae_bar_instrument env) t' \<in> set (ac_live t)" for t'
        unfolding p_def removed_def by (rule matched_live_only_closes [OF that])
      assume gu: "good env u"
      have "advances env u (Inr (), f)" unfolding f_def
        by (rule advances_fold [OF _ gu]) (simp add: advances_forget)
      then show "advances env u (optional_flush_all env Instruments f)"
        by (rule advances_state) (rule quiet_advances [OF quiet_flush])
      show "isl (fst (optional_flush_all env Instruments f)) \<or> i \<in> tracked (snd (optional_flush_all env Instruments f))"
        if "i \<in> set (planned_instrument_ids (actor_effective_plan s1))" "i \<notin> set (planned_instrument_ids (ac_plan t))" for i
        using that planned_mono [OF less] by blast
    qed
  qed
  have tm: "still s (s\<lparr>ac_timers := (ac_timers s)(matched_timer := None)\<rparr>)"
    by (rule still_timer) (simp add: matched_timer_def pending_timer_def)
  have box: "advances env t (case ac_inbox t of None \<Rightarrow> (Inr (), t)
      | Some b \<Rightarrow> call env (AppendAudit ''stopped'') (t\<lparr>ac_inbox := Some (inbox_stop b)\<rparr>))" if "good env t" for t
  proof (cases "ac_inbox t")
    case (Some b)
    have "advances env t (call env (AppendAudit ''stopped'') (t\<lparr>ac_inbox := Some (inbox_stop b)\<rparr>))"
      by (rule advances_from [OF still_inbox that], rule quiet_advances [OF quiet_call], simp_all)
    then show ?thesis by (simp add: Some)
  qed (use that in simp)
  show ?thesis
    unfolding stop_matched_sports_def Let_def
    by (rule keeps_from [OF tm g], rule advances_then [OF box], assumption, rule stop [unfolded Let_def])
qed

end
