(* ===== verification/Actor_Incumbents.thy ===== *)
theory Actor_Incumbents
  imports Actor_Slots Actor_Handover
begin

section \<open>The slots of matched sports\<close>

text \<open>
  The markets the actor owns are exactly those with a slot: at most \<open>max_markets\<close> active ones and, if
  preloading is configured, one in preparation. Every reconciliation keeps it so; the lookups of
  owned markets and of candidates that would panic never fail, and the budget is never exceeded.
\<close>

subsection \<open>The invariant\<close>

definition preparing_ids :: "preparation option \<Rightarrow> nat set" where
  "preparing_ids p = pr_market_id ` set_option p"

definition universe_ok :: "'i matched_universe \<Rightarrow> bool" where
  "universe_ok u \<longleftrightarrow> set (admissions_of u) \<subseteq> fst ` set (candidates_of u)"

definition slots_ok :: "'q matched_config \<Rightarrow> 'i matched_state \<Rightarrow> bool" where
  "slots_ok c m \<longleftrightarrow> btree_map (ms_markets m) \<and> btree_set (ms_active m) \<and> length (ms_active m) \<le> mg_max_markets c
     \<and> fst ` set (ms_markets m) = set (ms_active m) \<union> preparing_ids (ms_preparing m)
     \<and> preparing_ids (ms_preparing m) \<inter> set (ms_active m) = {}
     \<and> (ms_preparing m \<noteq> None \<longrightarrow> mg_preload_next c)
     \<and> (\<forall>u. ms_universe m = Some u \<longrightarrow> universe_ok u)"

text \<open>The bound that the code checks again before it applies the owned markets.\<close>

lemma slots_bound:
  assumes "slots_ok c m"
  shows "length (ms_markets m) \<le> mg_max_markets c + (if mg_preload_next c then 1 else 0)"
proof -
  have "length (ms_markets m) = card (fst ` set (ms_markets m))"
    using assms distinct_card [OF btree_map_distinct [of "ms_markets m"]] by (simp add: slots_ok_def)
  also have "\<dots> \<le> card (set (ms_active m)) + card (preparing_ids (ms_preparing m))"
    using assms card_Un_le by (metis slots_ok_def)
  also have "card (set (ms_active m)) \<le> mg_max_markets c"
    using assms by (simp add: slots_ok_def btree_set_def distinct_card)
  also have "card (preparing_ids (ms_preparing m)) \<le> (if mg_preload_next c then 1 else 0)"
    using assms by (cases "ms_preparing m") (auto simp: slots_ok_def preparing_ids_def)
  finally show ?thesis by simp
qed

text \<open>The slots of a reconciliation: what may be active, and what may be in preparation.\<close>

definition sl_ok :: "'q matched_config \<Rightarrow> nat set \<Rightarrow> nat set \<Rightarrow> slots_state \<Rightarrow> bool" where
  "sl_ok c cands owned sl \<longleftrightarrow> btree_set (sl_active sl) \<and> length (sl_active sl) \<le> mg_max_markets c
     \<and> set (sl_active sl) \<subseteq> cands \<union> owned \<and> preparing_ids (sl_preparing sl) \<subseteq> cands
     \<and> preparing_ids (sl_preparing sl) \<inter> set (sl_active sl) = {} \<and> (sl_preparing sl \<noteq> None \<longrightarrow> mg_preload_next c)"

lemma btree_set_filter: "btree_set xs \<Longrightarrow> btree_set (filter P xs)"
  by (simp add: btree_set_def sorted_wrt_filter)

lemma length_extend: "btree_set xs \<Longrightarrow> length (btree_extend xs [k]) = (if k \<in> set xs then length xs else Suc (length xs))"
  by (simp add: btree_extend_def)

lemma keep_active_ok:
  assumes "sl_ok c cands owned sl"
  shows "sl_ok c cands owned (keep_active c candidates markets adm sl)"
proof -
  have "length (filter P (sl_active sl)) \<le> mg_max_markets c" for P
    by (rule order_trans [OF length_filter_le]) (use assms in \<open>simp add: sl_ok_def\<close>)
  then show ?thesis using assms by (auto simp: sl_ok_def keep_active_def btree_set_filter)
qed

lemma and_then_result: "fst (and_then m k) = Inr y \<Longrightarrow> \<exists>a. fst m = Inr a \<and> fst (k a (snd m)) = Inr y"
  by (cases m) (auto simp: and_then_def split: sum.splits)

text \<open>What a promotion does: nothing, or the prepared market takes a free slot or that of an ended one.\<close>

definition ended_active :: "(nat \<times> 'i matched_market) list \<Rightarrow> (nat \<times> 'i matched_market) list \<Rightarrow> slots_state \<Rightarrow> nat option" where
  "ended_active candidates markets sl = List.find (\<lambda>k. map_of candidates k \<noteq> map_of markets k) (sl_active sl)"

lemma promote_cases:
  assumes "fst (promote_prepared env c candidates markets sl s) = Inr sl'"
  obtains (keep) "sl' = sl"
    | (move) p where "sl_preparing sl = Some p" "pr_ready p"
        "length (sl_active sl) < mg_max_markets c \<or> ended_active candidates markets sl \<noteq> None"
        "sl' = sl\<lparr>sl_active := btree_extend (case ended_active candidates markets sl of
                  Some k \<Rightarrow> btree_remove k (sl_active sl) | None \<Rightarrow> sl_active sl) [pr_market_id p],
                sl_preparing := None, sl_events := sl_events sl @ [''promoted'']\<rparr>"
proof (cases "sl_preparing sl")
  case None
  then show ?thesis using assms keep by (simp add: promote_prepared_def)
next
  case (Some p)
  show ?thesis
  proof (cases "pr_ready p \<and> (length (sl_active sl) < mg_max_markets c \<or> ended_active candidates markets sl \<noteq> None)")
    case True
    then have "fst (and_then (optional_flush_all env Instruments s) (\<lambda>_ s.
                 and_then (optional_flush_all env BookDepth s) (\<lambda>_ s.
                 and_then (optional_flush_all env BookDeltas s) (\<lambda>_ s.
                 and_then (optional_flush_all env Trades s) (\<lambda>_ s.
          (Inr (sl\<lparr>sl_active := btree_extend (case ended_active candidates markets sl of
                  Some k \<Rightarrow> btree_remove k (sl_active sl) | None \<Rightarrow> sl_active sl) [pr_market_id p],
                sl_preparing := None, sl_events := sl_events sl @ [''promoted'']\<rparr>), s)))))) = Inr sl'"
      using assms by (simp add: promote_prepared_def Some Let_def ended_active_def)
    then show ?thesis using True by (intro move [OF Some]) (auto dest!: and_then_result)
  next
    case False
    then show ?thesis using assms keep
      by (simp add: promote_prepared_def Some Let_def ended_active_def [symmetric] del: not_None_eq) (auto split: if_splits)
  qed
qed

lemma promote_ok:
  assumes sl: "sl_ok c cands owned sl" and r: "fst (promote_prepared env c candidates markets sl s) = Inr sl'"
    and prep: "preparing_ids (sl_preparing sl) \<subseteq> owned"
  shows "sl_ok c cands owned sl'"
  using r
proof (cases rule: promote_cases)
  case (move p)
  define rest where "rest = (case ended_active candidates markets sl of Some k \<Rightarrow> btree_remove k (sl_active sl) | None \<Rightarrow> sl_active sl)"
  have b: "btree_set rest" "set rest \<subseteq> set (sl_active sl)"
    using sl by (auto simp: rest_def sl_ok_def btree_remove_def btree_set_filter split: option.split)
  have "length rest < mg_max_markets c"
  proof (cases "ended_active candidates markets sl")
    case None
    then show ?thesis using move(3) by (simp add: rest_def)
  next
    case (Some k)
    then have "k \<in> set (sl_active sl)" by (auto simp: ended_active_def find_Some_iff)
    then have "length (btree_remove k (sl_active sl)) < length (sl_active sl)"
      unfolding btree_remove_def by (rule length_filter_less) simp
    then show ?thesis using Some sl by (simp add: sl_ok_def rest_def)
  qed
  then have "length (btree_extend rest [pr_market_id p]) \<le> mg_max_markets c" using length_extend [OF b(1)] by simp
  moreover have "btree_set (btree_extend rest [pr_market_id p])" by (rule btree_extend_set(1) [OF b(1)])
  moreover have "set (btree_extend rest [pr_market_id p]) \<subseteq> cands \<union> owned"
    using b(2) sl prep move(1) by (auto simp: sl_ok_def preparing_ids_def)
  ultimately show ?thesis using sl by (simp add: move(4) rest_def [symmetric] sl_ok_def preparing_ids_def)
qed (use sl in simp)

lemma admit_slots_ok:
  assumes "sl_ok c cands owned sl" "set ks \<subseteq> cands"
  shows "sl_ok c cands owned (admit_slots (mg_max_markets c) ks sl)"
    "set (sl_active sl) \<subseteq> set (sl_active (admit_slots (mg_max_markets c) ks sl))"
proof -
  have "sl_ok c cands owned (admit_slots (mg_max_markets c) ks sl)
    \<and> set (sl_active sl) \<subseteq> set (sl_active (admit_slots (mg_max_markets c) ks sl))"
    using assms
  proof (induction "mg_max_markets c" ks sl rule: admit_slots.induct)
    case (2 k ks sl)
    show ?case
    proof (cases "mg_max_markets c \<le> length (sl_active sl)")
      case True
      then show ?thesis using 2 by simp
    next
      case False
      define sl1 where "sl1 = (if map_of (sl_retry_after sl) k = None \<and> (case sl_preparing sl of None \<Rightarrow> True | Some p \<Rightarrow> pr_market_id p \<noteq> k)
         then sl\<lparr>sl_active := btree_extend (sl_active sl) [k]\<rparr> else sl)"
      have b: "btree_set (sl_active sl)" using 2 by (simp add: sl_ok_def)
      have "sl_ok c cands owned sl1" "set (sl_active sl) \<subseteq> set (sl_active sl1)"
        using 2 False btree_extend_set(1) [OF b] length_extend [OF b]
        by (auto simp: sl1_def sl_ok_def preparing_ids_def split: option.splits)
      then show ?thesis using 2 False by (auto simp: sl1_def)
    qed
  qed simp
  then show "sl_ok c cands owned (admit_slots (mg_max_markets c) ks sl)"
    "set (sl_active sl) \<subseteq> set (sl_active (admit_slots (mg_max_markets c) ks sl))" by blast+
qed

lemma preload_ok:
  assumes "sl_ok c cands owned sl" "set ks \<subseteq> cands"
  shows "sl_ok c cands owned (preload_slot c now ks sl)" "sl_active (preload_slot c now ks sl) = sl_active sl"
  using assms by (auto simp: preload_slot_def sl_ok_def preparing_ids_def find_Some_iff split: option.split)

subsection \<open>The owned markets\<close>

lemma owned_markets_ok:
  assumes sl: "sl_ok c (fst ` set candidates) (fst ` set markets) sl"
  shows "\<exists>owned. owned_markets candidates markets sl = Some owned \<and> btree_map owned
    \<and> fst ` set owned = set (sl_active sl) \<union> preparing_ids (sl_preparing sl)"
proof -
  define f where "f = (\<lambda>m k. case (case map_of candidates k of Some x \<Rightarrow> Some x | None \<Rightarrow> map_of markets k) of
      Some market \<Rightarrow> btree_insert k market m | None \<Rightarrow> m)"
  have known: "\<exists>market. (case map_of candidates k of Some x \<Rightarrow> Some x | None \<Rightarrow> map_of markets k) = Some market"
    if "k \<in> fst ` set candidates \<union> fst ` set markets" for k
  proof -
    have "map_of candidates k \<noteq> None \<or> map_of markets k \<noteq> None" using that by (simp add: map_of_eq_None_iff)
    then show ?thesis by (cases "map_of candidates k") auto
  qed
  have fold: "btree_map (foldl f m ks) \<and> fst ` set (foldl f m ks) = fst ` set m \<union> set ks"
    if "btree_map m" "set ks \<subseteq> fst ` set candidates \<union> fst ` set markets" for m ks
    using that
  proof (induction ks arbitrary: m)
    case (Cons k ks)
    obtain market where "(case map_of candidates k of Some x \<Rightarrow> Some x | None \<Rightarrow> map_of markets k) = Some market"
      using known [of k] Cons.prems by auto
    then have e: "f m k = btree_insert k market m" by (simp add: f_def)
    have "btree_map (btree_insert k market m)" using Cons.prems by simp
    from Cons.IH [OF this] Cons.prems show ?case by (simp add: e btree_insert_def btree_entry_keys)
  qed simp
  have o: "btree_map (foldl f [] (sl_active sl)) \<and> fst ` set (foldl f [] (sl_active sl)) = set (sl_active sl)"
    using fold [of "[]" "sl_active sl"] sl by (simp add: btree_map_def sl_ok_def)
  show ?thesis
  proof (cases "sl_preparing sl")
    case None
    then show ?thesis using o by (simp add: owned_markets_def f_def preparing_ids_def)
  next
    case (Some p)
    then obtain market where "map_of candidates (pr_market_id p) = Some market"
      using sl by (auto simp: sl_ok_def preparing_ids_def dest: weak_map_of_SomeI)
    then show ?thesis using o Some
      by (simp add: owned_markets_def f_def preparing_ids_def btree_insert_def btree_entry_keys)
  qed
qed

text \<open>What applying the owned markets leaves alone.\<close>

definition same_slots :: "('i, 'b, 'p, 'd) actor \<Rightarrow> ('i, 'b, 'p, 'd) actor \<Rightarrow> bool" where
  "same_slots s s' \<longleftrightarrow> ms_markets (ac_matched s') = ms_markets (ac_matched s) \<and> ms_active (ac_matched s') = ms_active (ac_matched s)
     \<and> ms_preparing (ac_matched s') = ms_preparing (ac_matched s) \<and> ms_universe (ac_matched s') = ms_universe (ac_matched s)"

lemma same_slots_refl [simp]: "same_slots s s"
  by (simp add: same_slots_def)

lemma same_slots_trans: "same_slots s s' \<Longrightarrow> same_slots s' s'' \<Longrightarrow> same_slots s s''"
  by (simp add: same_slots_def)

lemma same_slots_core: "owned_core s' = owned_core s \<Longrightarrow> same_slots s s'"
  by (simp add: same_slots_def owned_core_def)

lemmas same_slots_steady = same_slots_core [OF steady_core]

text \<open>A step that leaves the slots alone and does not panic.\<close>

definition calm :: "('i, 'b, 'p, 'd) actor \<Rightarrow> ('a, ('i, 'b, 'p, 'd) actor) outcome \<Rightarrow> bool" where
  "calm s r \<longleftrightarrow> same_slots s (snd r) \<and> fst r \<noteq> Inl ActorPanic"

lemma calm_and_then:
  assumes "calm s m" "\<And>a. calm (snd m) (k a (snd m))"
  shows "calm s (and_then m k)"
proof (cases "fst m")
  case (Inl e)
  then have "and_then m k = (Inl e, snd m)" by (simp add: and_then_def split_beta)
  then show ?thesis using assms(1) Inl by (simp add: calm_def)
next
  case (Inr a)
  then show ?thesis using assms(1) assms(2) [of a] same_slots_trans unfolding and_then_Inr [OF Inr] by (auto simp: calm_def)
qed

lemma calm_from: "same_slots s s' \<Longrightarrow> calm s' r \<Longrightarrow> calm s r"
  using same_slots_trans by (auto simp: calm_def)

lemma calm_each_ok:
  assumes "\<And>x s. calm s (f x s)"
  shows "calm s (each_ok f xs s)"
proof (induction xs arbitrary: s)
  case (Cons x xs)
  show ?case unfolding each_ok.simps by (rule calm_and_then, rule assms, rule Cons.IH)
qed (simp add: calm_def)

lemma calm_call: "\<not> market_command c \<Longrightarrow> calm s (call env c s)"
  by (simp add: calm_def call_no_panic same_slots_steady quiet_steady quiet_call)

lemma calm_bootstrap: "calm s (bootstrap_instrument env i s)"
  by (simp add: calm_def bootstrap_no_panic same_slots_steady quiet_steady quiet_bootstrap)

lemma calm_subscribe: "calm s (subscribe_plan env p s)"
  by (simp add: calm_def subscribe_no_panic same_slots_steady steady_subscribe_plan)

lemma calm_flush: "calm s (optional_flush_all env family s)"
  by (simp add: calm_def flush_books same_slots_steady quiet_steady quiet_flush)

lemma calm_promote: "calm s (promote_prepared env c candidates markets sl s)"
  by (auto simp: promote_prepared_def Let_def calm_def split: option.split
      intro!: calm_and_then [unfolded calm_def] calm_flush [unfolded calm_def])

lemma calm_set: "ms_markets m = ms_markets (ac_matched s) \<Longrightarrow> ms_active m = ms_active (ac_matched s)
    \<Longrightarrow> ms_preparing m = ms_preparing (ac_matched s) \<Longrightarrow> ms_universe m = ms_universe (ac_matched s) \<Longrightarrow> same_slots s (set_matched m s)"
  by (simp add: same_slots_def set_matched_def)

lemma drop_markets_calm:
  fixes s :: "('i, 'b, 'p, 'd) actor"
  shows "calm s (drop_markets env u ms s)"
proof (induction ms arbitrary: s)
  case (Cons p ms)
  obtain k market where p: "p = (k, market)" by fastforce
  have st: "same_slots s (set_matched ((ac_matched s)\<lparr>ms_intervals := a, ms_observed := b, ms_usable_books := c\<rparr>) s)" for a b c
    by (rule calm_set) simp_all
  have step: "calm s' (and_then (call env (AppendAudit a) s') (\<lambda>_ s. drop_markets env u ms s))" for a and s' :: "('i, 'b, 'p, 'd) actor"
    by (rule calm_and_then, rule calm_call, simp, rule Cons.IH)
  show ?case
  proof (cases "map_of (ms_markets (ac_matched s)) k = Some market")
    case True
    then show ?thesis using Cons.IH by (simp add: p)
  next
    case False
    show ?thesis unfolding p drop_markets.simps Let_def if_not_P [OF False] by (rule calm_from [OF st step])
  qed
qed (simp add: calm_def)

lemma same_slots_foldl: "(\<And>s x. same_slots s (g s x)) \<Longrightarrow> same_slots s (foldl g s xs)"
proof (induction xs arbitrary: s)
  case (Cons x xs)
  show ?case using same_slots_trans [OF Cons.prems Cons.IH [OF Cons.prems]] by simp
qed simp

lemma retire_matched_slots: "same_slots s (retire_matched now s i)"
proof (cases "planned s i")
  case False
  have "same_slots s (forget_instrument_runtime_state i s)" by (rule same_slots_steady [OF forget_effect(2)])
  then show ?thesis using False same_slots_trans calm_set by (simp add: retire_matched_def Let_def same_slots_def set_matched_def)
qed (simp add: retire_matched_def)

lemma admit_matched_calm: "calm s (admit_matched env i s)"
  unfolding admit_matched_def by (rule calm_from [OF calm_set calm_bootstrap]) simp_all

lemma subscribe_spec_slots: "same_slots s (subscribe_spec s x)"
  by (simp add: subscribe_spec_def emit_def same_slots_def)

lemma apply_owned_slots:
  fixes s :: "('i::linorder, 'b, 'p, 'd) actor" and owned :: "(nat \<times> 'i matched_market) list"
  defines "s0 \<equiv> set_matched ((ac_matched s)\<lparr>ms_markets := owned\<rparr>) s"
  shows "same_slots s0 (snd (apply_matched_sports_owned env owned u s)) \<and> fst (apply_matched_sports_owned env owned u s) \<noteq> Inl ActorPanic"
proof (cases "ms_markets (ac_matched s) = owned")
  case True
  then show ?thesis by (auto simp: apply_matched_sports_owned_def s0_def same_slots_def set_matched_def)
next
  case False
  have sync: "same_slots t (sync_plan_state t)" for t :: "('i, 'b, 'p, 'd) actor"
    by (rule same_slots_core) (simp add: sync_fields)
  have unsub: "same_slots t (unsubscribe_plan env p t)" for t :: "('i, 'b, 'p, 'd) actor" and p
    by (rule same_slots_steady [OF emits_fields(1) [OF unsubscribe_effect(1)]])
  have clock: "same_slots t (snd (read_clock env t))" for t :: "('i, 'b, 'p, 'd) actor"
    by (simp add: read_clock_def same_slots_def)
  have audits: "calm t (each_ok (\<lambda>(k, _) s. call env (AppendAudit (admission_kind s k)) s) xs t)"
    for t :: "('i, 'b, 'p, 'd) actor" and xs :: "(nat \<times> 'i matched_market) list"
    by (rule calm_each_ok) (simp add: calm_call split: prod.split)
  have seals: "calm t (each_ok (call env) (matched_seals env p) t)" for t :: "('i, 'b, 'p, 'd) actor" and p
    by (simp add: calm_def each_no_panic call_no_panic same_slots_steady quiet_steady quiet_seals matched_seals_quiet)
  have "calm s0 (apply_matched_sports_owned env owned u s)"
    unfolding apply_matched_sports_owned_def if_not_P [OF False] Let_def s0_def [symmetric]
    by (rule calm_and_then, rule drop_markets_calm, rule calm_from [OF same_slots_trans [OF sync unsub]], rule calm_and_then,
        rule seals, subst prod.case_eq_if, rule calm_from [OF same_slots_trans [OF clock same_slots_foldl [OF retire_matched_slots]]],
        rule calm_and_then, rule calm_each_ok [OF admit_matched_calm], rule calm_from [OF same_slots_foldl [OF subscribe_spec_slots]],
        rule calm_and_then, rule calm_subscribe, rule audits)
  then show ?thesis by (simp add: calm_def)
qed

subsection \<open>The reconciliation\<close>

text \<open>The final slots of a reconciliation, or the slots before it when a check or a flush stops it.\<close>

lemma commit_slots_ok:
  fixes s :: "('i::linorder, 'b, 'p, 'd) actor" and env :: "('i, 'b) actor_env" and u :: "'i matched_universe" and now :: nat
    and c :: "'q matched_config" and adm :: "nat list" and candidates markets :: "(nat \<times> 'i matched_market) list"
  assumes ok: "slots_ok c (ac_matched s)" and sl: "sl_ok c (fst ` set candidates) (fst ` set markets) sl"
    and adm: "set adm \<subseteq> fst ` set candidates"
  defines "r \<equiv> commit_slots c env now u candidates markets adm sl s"
  shows "slots_ok c (ac_matched (snd r)) \<and> fst r \<noteq> Inl ActorPanic
    \<and> (fst r = Inr () \<longrightarrow> set (sl_active sl) \<subseteq> set (ms_active (ac_matched (snd r))))"
proof -
  define sl2 where "sl2 = preload_slot c now adm (admit_slots (mg_max_markets c) adm sl)"
  have a: "sl_ok c (fst ` set candidates) (fst ` set markets) (admit_slots (mg_max_markets c) adm sl)"
    by (rule admit_slots_ok(1) [OF sl adm])
  have sl2: "sl_ok c (fst ` set candidates) (fst ` set markets) sl2" and act: "set (sl_active sl) \<subseteq> set (sl_active sl2)"
    using preload_ok [OF a adm] admit_slots_ok(2) [OF sl adm] by (simp_all add: sl2_def)
  obtain owned where o: "owned_markets candidates markets sl2 = Some owned" "btree_map owned"
    "fst ` set owned = set (sl_active sl2) \<union> preparing_ids (sl_preparing sl2)"
    using owned_markets_ok [OF sl2] by blast
  define t where "t = set_matched ((ac_matched s)\<lparr>ms_active := sl_active sl2, ms_preparing := sl_preparing sl2\<rparr>) s"
  define m where "m = apply_matched_sports_owned env owned u t"
  define ev where "ev = (\<lambda>s :: ('i, 'b, 'p, 'd) actor. each_ok (\<lambda>kind s. call env (AppendAudit kind) s) (sl_events sl2) s)"
  have evc: "calm x (ev x)" for x unfolding ev_def by (rule calm_each_ok) (simp add: calm_call)
  note ap = apply_owned_slots [where s = t and owned = owned and env = env and u = u, folded m_def]
  have okt: "slots_ok c (ac_matched (set_matched ((ac_matched t)\<lparr>ms_markets := owned\<rparr>) t))"
    using sl2 o ok by (simp add: slots_ok_def sl_ok_def t_def set_matched_def)
  have cong: "slots_ok c (ac_matched y)" if "slots_ok c (ac_matched x)" "same_slots x y" for x y :: "('i, 'b, 'p, 'd) actor"
    using that by (simp add: slots_ok_def same_slots_def)
  have fin: "slots_ok c (ac_matched (snd m)) \<and> ms_active (ac_matched (snd m)) = sl_active sl2"
    using cong [OF okt] ap by (auto simp: same_slots_def t_def set_matched_def)
  have main: "slots_ok c (ac_matched (snd (and_then m (\<lambda>_ s. ev s)))) \<and> fst (and_then m (\<lambda>_ s. ev s)) \<noteq> Inl ActorPanic
    \<and> ms_active (ac_matched (snd (and_then m (\<lambda>_ s. ev s)))) = sl_active sl2"
  proof (cases "fst m")
    case (Inl e)
    then have "and_then m (\<lambda>_ s. ev s) = (Inl e, snd m)" by (simp add: and_then_def split_beta)
    then show ?thesis using fin ap Inl by simp
  next
    case (Inr x)
    have "same_slots (snd m) (snd (ev (snd m)))" "fst (ev (snd m)) \<noteq> Inl ActorPanic" using evc by (simp_all add: calm_def)
    then show ?thesis using fin cong by (auto simp: and_then_Inr [OF Inr] same_slots_def)
  qed
  have r: "r = (if mg_max_markets c + (if mg_preload_next c then 1 else 0) < length owned
      then (Inl (ActorError ''preparation resource budget exceeded''), s)
      else if card (set (map (mk_polymarket_condition_id \<circ> snd) owned)) \<noteq> length owned
      then (Inl (ActorError ''overlapping Polymarket preparation identity''), s)
      else and_then m (\<lambda>_ s. ev s))"
    by (simp only: r_def commit_slots_def sl2_def [symmetric] o(1) option.case Let_def t_def m_def ev_def)
  show ?thesis using main ok act by (auto simp: r)
qed

text \<open>The preparation that survives the start of a reconciliation is owned, and ready only when it is recorded.\<close>

lemma opened_slots_ok:
  fixes s :: "('i::linorder, 'b, 'p, 'd) actor"
  assumes ok: "slots_ok c (ac_matched s)"
  shows "\<exists>sl. opened_slots c now candidates s = Some sl \<and> sl_active sl = ms_active (ac_matched s)
    \<and> sl_ok c (fst ` set candidates) (fst ` set (ms_markets (ac_matched s))) sl
    \<and> preparing_ids (sl_preparing sl) \<subseteq> fst ` set (ms_markets (ac_matched s))
    \<and> (\<forall>p. sl_preparing sl = Some p \<longrightarrow> (\<exists>q market. ms_preparing (ac_matched s) = Some q \<and> pr_market_id q = pr_market_id p
        \<and> map_of (ms_markets (ac_matched s)) (pr_market_id p) = Some market \<and> pr_ready p = matched_sports_ready s market))"
proof -
  let ?m = "ac_matched s"
  let ?sl = "\<lparr>sl_active = ms_active ?m, sl_preparing = None, sl_retry_after = ms_retry_after ?m, sl_events = []\<rparr>"
  have base: "sl_ok c (fst ` set candidates) (fst ` set (ms_markets ?m)) (?sl\<lparr>sl_retry_after := x, sl_events := y\<rparr>)" for x y
    using ok by (auto simp: sl_ok_def slots_ok_def preparing_ids_def)
  have base0: "sl_ok c (fst ` set candidates) (fst ` set (ms_markets ?m)) ?sl"
    using ok by (auto simp: sl_ok_def slots_ok_def preparing_ids_def)
  show ?thesis
  proof (cases "\<exists>p. ms_preparing ?m = Some p \<and> mg_preload_next c
      \<and> map_of candidates (pr_market_id p) = map_of (ms_markets ?m) (pr_market_id p)")
    case False
    then have "opened_slots c now candidates s = Some ?sl"
      by (auto simp: opened_slots_def Let_def split: option.split)
    then show ?thesis using base0 by (simp add: preparing_ids_def)
  next
    case True
    then obtain p where p: "ms_preparing ?m = Some p" "mg_preload_next c"
      "map_of candidates (pr_market_id p) = map_of (ms_markets ?m) (pr_market_id p)" by blast
    have key: "pr_market_id p \<in> fst ` set (ms_markets ?m)" "pr_market_id p \<notin> set (ms_active ?m)"
      using ok p(1) by (auto simp: slots_ok_def preparing_ids_def)
    then obtain market where market: "map_of (ms_markets ?m) (pr_market_id p) = Some market"
      by (metis map_of_eq_None_iff not_None_eq)
    then have cand: "pr_market_id p \<in> fst ` set candidates" using p(3) by (metis map_of_eq_None_iff not_None_eq)
    have e: "opened_slots c now candidates s = update_preparing c now s p ?sl"
      using p by (simp add: opened_slots_def)
    show ?thesis
    proof (cases "\<exists>x y. update_preparing c now s p ?sl = Some (?sl\<lparr>sl_retry_after := x, sl_events := y\<rparr>)")
      case True
      then show ?thesis using base unfolding e by (auto simp: preparing_ids_def)
    next
      case False
      define q where "q = (let ready = matched_sports_ready s market in if ready \<noteq> pr_ready p
          then p\<lparr>pr_ready := ready, pr_started_ns := (if ready then pr_started_ns p else now)\<rparr> else p)"
      have q: "pr_market_id q = pr_market_id p" "pr_ready q = matched_sports_ready s market" by (auto simp: q_def Let_def)
      obtain y where "update_preparing c now s p ?sl = Some (?sl\<lparr>sl_preparing := Some q, sl_events := y\<rparr>)"
        using False by (auto simp: update_preparing_def market Let_def q_def split: if_splits)
      then show ?thesis using base0 q market p key cand unfolding e
        by (auto simp: sl_ok_def preparing_ids_def)
    qed
  qed
qed

lemma settle_slots_ok:
  fixes s :: "('i::linorder, 'b, 'p, 'd) actor" and env :: "('i, 'b) actor_env" and u :: "'i matched_universe" and now :: nat
    and c :: "'q matched_config" and adm :: "nat list" and candidates :: "(nat \<times> 'i matched_market) list" and sl :: slots_state
  assumes ok: "slots_ok c (ac_matched s)" and sl: "sl_ok c (fst ` set candidates) (fst ` set (ms_markets (ac_matched s))) sl"
    and prep: "preparing_ids (sl_preparing sl) \<subseteq> fst ` set (ms_markets (ac_matched s))"
    and adm: "set adm \<subseteq> fst ` set candidates"
  defines "r \<equiv> settle_slots c env now u candidates (ms_markets (ac_matched s)) adm sl s"
  shows "slots_ok c (ac_matched (snd r)) \<and> fst r \<noteq> Inl ActorPanic
    \<and> (fst r = Inr () \<longrightarrow> (\<forall>k \<in> set (sl_active sl). k \<in> set (ms_active (ac_matched (snd r)))
        \<or> map_of candidates k \<noteq> None \<or> \<not> mg_preload_next c
        \<or> (\<exists>p. sl_preparing sl = Some p \<and> pr_ready p \<and> pr_market_id p \<in> set (ms_active (ac_matched (snd r))))
        \<or> (sl_preparing sl = None \<and> set adm \<subseteq> set (sl_active sl))))"
proof -
  let ?markets = "ms_markets (ac_matched s)"
  define t where "t = set_matched ((ac_matched s)\<lparr>ms_retry_after := sl_retry_after sl\<rparr>) s"
  define sl1 where "sl1 = keep_active c candidates ?markets adm sl"
  define m where "m = promote_prepared env c candidates ?markets sl1 t"
  have cong: "slots_ok c (ac_matched y)" if "slots_ok c (ac_matched x)" "same_slots x y" for x y :: "('i, 'b, 'p, 'd) actor"
    using that by (simp add: slots_ok_def same_slots_def)
  have "same_slots s t" unfolding t_def by (rule calm_set) simp_all
  then have okt: "slots_ok c (ac_matched t)" by (rule cong [OF ok])
  have calm: "calm t m" unfolding m_def by (rule calm_promote)
  then have okm: "slots_ok c (ac_matched (snd m))" using cong [OF okt] by (simp add: calm_def)
  have sl1: "sl_ok c (fst ` set candidates) (fst ` set ?markets) sl1" unfolding sl1_def by (rule keep_active_ok [OF sl])
  have r: "r = and_then m (\<lambda>sl s. commit_slots c env now u candidates ?markets adm sl s)"
    by (simp add: r_def settle_slots_def Let_def t_def sl1_def m_def)
  show ?thesis
  proof (cases "fst m")
    case (Inl e)
    then have "r = (Inl e, snd m)" by (simp add: r and_then_def split_beta)
    then show ?thesis using okm calm Inl by (simp add: calm_def)
  next
    case (Inr sl2)
    have "preparing_ids (sl_preparing sl1) \<subseteq> fst ` set ?markets" using prep by (simp add: sl1_def keep_active_def)
    then have sl2: "sl_ok c (fst ` set candidates) (fst ` set ?markets) sl2"
      using promote_ok [OF sl1 Inr [unfolded m_def]] by blast
    note com = commit_slots_ok [OF okm sl2 adm, of env now u]
    have e: "r = commit_slots c env now u candidates ?markets adm sl2 (snd m)" by (simp add: r and_then_Inr [OF Inr])
    have inc: "k \<in> set (ms_active (ac_matched (snd r))) \<or> map_of candidates k \<noteq> None \<or> \<not> mg_preload_next c
        \<or> (\<exists>p. sl_preparing sl = Some p \<and> pr_ready p \<and> pr_market_id p \<in> set (ms_active (ac_matched (snd r))))
        \<or> (sl_preparing sl = None \<and> set adm \<subseteq> set (sl_active sl))"
      if k: "k \<in> set (sl_active sl)" and rr: "fst r = Inr ()" for k
    proof -
      have after: "set (sl_active sl2) \<subseteq> set (ms_active (ac_matched (snd r)))" using com rr unfolding e by blast
      have "k \<in> set (sl_active sl1) \<or> map_of candidates k \<noteq> None \<or> \<not> mg_preload_next c
          \<or> (sl_preparing sl = None \<and> set adm \<subseteq> set (sl_active sl))"
        using k by (auto simp: sl1_def keep_active_def list_ex_iff)
      moreover have "k \<in> set (sl_active sl2) \<or>
          (\<exists>p. sl_preparing sl = Some p \<and> pr_ready p \<and> pr_market_id p \<in> set (sl_active sl2))" if k1: "k \<in> set (sl_active sl1)"
        using Inr [unfolded m_def]
      proof (cases rule: promote_cases)
        case (move p)
        have "sl_preparing sl = Some p" using move(1) by (simp add: sl1_def keep_active_def)
        then show ?thesis using move by auto
      qed (use k1 in simp)
      ultimately show ?thesis using after by blast
    qed
    show ?thesis using com inc unfolding e by blast
  qed
qed

lemma reconcile_slots_ok:
  fixes s :: "('i::linorder, 'b, 'p, 'd) actor" and env :: "('i, 'b) actor_env" and c :: "'q matched_config"
  assumes ok: "slots_ok c (ac_matched s)"
  defines "r \<equiv> reconcile_matched_sports (Some c) env s"
  shows "slots_ok c (ac_matched (snd r)) \<and> fst r \<noteq> Inl ActorPanic
    \<and> (fst r = Inr () \<longrightarrow> (\<forall>k u. k \<in> set (ms_active (ac_matched s)) \<longrightarrow> ms_universe (ac_matched s) = Some u
        \<longrightarrow> map_of (candidates_of u) k = None \<longrightarrow> mg_preload_next c \<longrightarrow> k \<notin> set (ms_active (ac_matched (snd r)))
        \<longrightarrow> set (admissions_of u) \<subseteq> set (ms_active (ac_matched s))
          \<or> (\<exists>p market. ms_preparing (ac_matched s) = Some p \<and> map_of (ms_markets (ac_matched s)) (pr_market_id p) = Some market
              \<and> matched_sports_ready s market \<and> pr_market_id p \<in> set (ms_active (ac_matched (snd r))))))"
proof (cases "ms_universe (ac_matched s)")
  case None
  then have "r = (Inr (), s)" by (simp add: r_def reconcile_matched_sports_def)
  then show ?thesis using ok by auto
next
  case (Some u)
  define now where "now = ae_now env (ac_calls s)"
  define s1 where "s1 = s\<lparr>ac_calls := Suc (ac_calls s)\<rparr>"
  have rc: "read_clock env s = (now, s1)" by (simp add: read_clock_def now_def s1_def)
  define s2 where "s2 = set_matched ((ac_matched s1)\<lparr>ms_retry_after :=
      filter (\<lambda>(k, deadline). map_of (candidates_of u) k \<noteq> None \<and> now < deadline) (ms_retry_after (ac_matched s1))\<rparr>) s1"
  have f: "ms_markets (ac_matched s2) = ms_markets (ac_matched s)" "ms_active (ac_matched s2) = ms_active (ac_matched s)"
    "ms_preparing (ac_matched s2) = ms_preparing (ac_matched s)" "ms_universe (ac_matched s2) = ms_universe (ac_matched s)"
    by (simp_all add: s2_def s1_def set_matched_def)
  have ready: "matched_sports_ready s2 market = matched_sports_ready s market" for market
    by (simp add: matched_sports_ready_def s2_def s1_def set_matched_def)
  have ok2: "slots_ok c (ac_matched s2)" using ok by (simp add: slots_ok_def f)
  obtain sl where sl: "opened_slots c now (candidates_of u) s2 = Some sl" "sl_active sl = ms_active (ac_matched s)"
    "sl_ok c (fst ` set (candidates_of u)) (fst ` set (ms_markets (ac_matched s2))) sl"
    "preparing_ids (sl_preparing sl) \<subseteq> fst ` set (ms_markets (ac_matched s2))"
    "\<forall>p. sl_preparing sl = Some p \<longrightarrow> (\<exists>q market. ms_preparing (ac_matched s) = Some q \<and> pr_market_id q = pr_market_id p
        \<and> map_of (ms_markets (ac_matched s)) (pr_market_id p) = Some market \<and> pr_ready p = matched_sports_ready s market)"
    using opened_slots_ok [OF ok2, of now "candidates_of u"] unfolding f ready by blast
  have adm: "set (admissions_of u) \<subseteq> fst ` set (candidates_of u)" using ok Some by (simp add: slots_ok_def universe_ok_def)
  have r: "r = settle_slots c env now u (candidates_of u) (ms_markets (ac_matched s2)) (admissions_of u) sl s2"
    using sl(1) by (simp only: r_def reconcile_matched_sports_def Some option.case rc prod.case Let_def s2_def)
  note set_ok = settle_slots_ok [OF ok2 sl(3,4) adm, of env now u, folded r]
  have "set (admissions_of u) \<subseteq> set (ms_active (ac_matched s))
      \<or> (\<exists>p market. ms_preparing (ac_matched s) = Some p \<and> map_of (ms_markets (ac_matched s)) (pr_market_id p) = Some market
          \<and> matched_sports_ready s market \<and> pr_market_id p \<in> set (ms_active (ac_matched (snd r))))"
    if "fst r = Inr ()" "k \<in> set (ms_active (ac_matched s))" "map_of (candidates_of u) k = None" "mg_preload_next c"
      "k \<notin> set (ms_active (ac_matched (snd r)))" for k
  proof -
    have "(\<exists>p. sl_preparing sl = Some p \<and> pr_ready p \<and> pr_market_id p \<in> set (ms_active (ac_matched (snd r))))
        \<or> set (admissions_of u) \<subseteq> set (ms_active (ac_matched s))" using set_ok that unfolding sl(2) by blast
    then show ?thesis using sl(5) by metis
  qed
  then show ?thesis using set_ok Some by auto
qed

subsection \<open>The other handlers\<close>

definition slotted :: "'q matched_config \<Rightarrow> ('i, 'b, 'p, 'd) actor \<Rightarrow> ('a, ('i, 'b, 'p, 'd) actor) outcome \<Rightarrow> bool" where
  "slotted c s r \<longleftrightarrow> (slots_ok c (ac_matched s) \<longrightarrow> slots_ok c (ac_matched (snd r)) \<and> fst r \<noteq> Inl ActorPanic)"

lemma slots_cong: "same_slots s s' \<Longrightarrow> slots_ok c (ac_matched s') = slots_ok c (ac_matched s)"
  by (simp add: slots_ok_def same_slots_def)

lemma slotted_calm: "calm s r \<Longrightarrow> slotted c s r"
  using slots_cong by (auto simp: slotted_def calm_def)

lemma slotted_from: "same_slots s s' \<Longrightarrow> slotted c s' r \<Longrightarrow> slotted c s r"
  by (simp add: slotted_def slots_cong)

lemma slotted_and_then:
  assumes "slotted c s m" "\<And>a. slotted c (snd m) (k a (snd m))"
  shows "slotted c s (and_then m k)"
proof (cases "fst m")
  case (Inl e)
  then have "and_then m k = (Inl e, snd m)" by (simp add: and_then_def split_beta)
  then show ?thesis using assms(1) Inl by (simp add: slotted_def)
next
  case (Inr a)
  then show ?thesis using assms(1) assms(2) [of a] unfolding and_then_Inr [OF Inr] by (simp add: slotted_def)
qed

lemma reconcile_slotted: "slotted c s (reconcile_matched_sports (Some c) env s)"
  using reconcile_slots_ok [of c s env] by (simp add: slotted_def)

lemma calm_clock: "same_slots s (snd (read_clock env s))"
  by (simp add: read_clock_def same_slots_def)

text \<open>A universe is stored only after its admissions have been checked.\<close>

lemma candidates_keys: "fst ` set (candidates_of u) = set (map mk_predict_market_id (mu_markets u))"
proof -
  have "fst ` set (foldl (\<lambda>m mk. btree_insert (mk_predict_market_id mk) mk m) m ms)
      = fst ` set m \<union> set (map mk_predict_market_id ms)" for m :: "(nat \<times> 'a matched_market) list" and ms
    by (induction ms arbitrary: m) (auto simp: btree_insert_def btree_entry_keys)
  then show ?thesis by (simp add: candidates_of_def)
qed

lemma apply_universe_slotted: "slotted c s (apply_matched_sports_universe (Some c) env u s)"
proof -
  define bad where "bad = (case mu_admission_ids u of None \<Rightarrow> False
      | Some ids \<Rightarrow> \<not> (card (set ids) = length ids \<and> list_all (\<lambda>k. map_of (candidates_of u) k \<noteq> None) ids))"
  have u: "universe_ok u" if "\<not> bad"
  proof (cases "mu_admission_ids u")
    case None
    then show ?thesis by (simp add: universe_ok_def admissions_of_def candidates_keys)
  next
    case (Some ids)
    then show ?thesis using that by (auto simp: bad_def universe_ok_def admissions_of_def list_all_iff map_of_eq_None_iff)
  qed
  let ?s = "set_matched ((ac_matched s)\<lparr>ms_universe := Some u\<rparr>) s"
  have st: "slots_ok c (ac_matched ?s)" if "\<not> bad" "slots_ok c (ac_matched s)"
    using that u by (simp add: slots_ok_def set_matched_def)
  have run: "slotted c ?s (and_then (reconcile_matched_sports (Some c) env ?s) (\<lambda>_ s. call env (AppendAudit ''discovery'') s))"
    by (rule slotted_and_then, rule reconcile_slotted, rule slotted_calm, rule calm_call, simp)
  have "slotted c s (and_then (reconcile_matched_sports (Some c) env ?s) (\<lambda>_ s. call env (AppendAudit ''discovery'') s))" if "\<not> bad"
    using run st [OF that] by (simp add: slotted_def)
  then show ?thesis
    by (simp add: apply_matched_sports_universe_def Let_def bad_def [symmetric]) (simp add: slotted_def)
qed

lemma refresh_intervals_calm:
  fixes s :: "('i, 'b, 'p, 'd) actor"
  shows "calm s (refresh_intervals timeout env now ms s)"
proof (induction ms arbitrary: s)
  case (Cons market ms)
  have st: "same_slots s (set_matched ((ac_matched s)\<lparr>ms_intervals := x\<rparr>) s)" for s :: "('i, 'b, 'p, 'd) actor" and x
    by (rule calm_set) simp_all
  have q: "calm t (if b then call env (AppendAudit a) t else (Inr (), t))" for b a and t :: "('i, 'b, 'p, 'd) actor"
    by (simp add: calm_call) (simp add: calm_def)
  show ?case unfolding refresh_intervals.simps Let_def
    by (rule calm_from [OF st], rule calm_and_then, rule q, rule Cons.IH)
qed (simp add: calm_def)

lemma intervals_calm: "calm s (refresh_matched_sports_intervals config env s)"
proof (cases config)
  case None
  then show ?thesis by (simp add: refresh_matched_sports_intervals_def calm_def)
next
  case (Some c)
  show ?thesis unfolding refresh_matched_sports_intervals_def Some option.case Let_def
    by (subst prod.case_eq_if, rule calm_from [OF calm_clock], rule refresh_intervals_calm)
qed

lemma observe_slotted: "slotted c s (observe_matched_sports (Some c) env i snapshot usable s)"
proof -
  obtain now s1 where r: "read_clock env s = (now, s1)" by fastforce
  have q: "same_slots s s1" using calm_clock [of s env] r by simp
  define m where "m = (let m = matched_observe i now snapshot (ac_matched s1)
      in m\<lparr>ms_usable_books := (if usable \<and> map_of (ms_observed m) i \<noteq> None then btree_extend (ms_usable_books m) [i]
           else btree_remove i (ms_usable_books m))\<rparr>)"
  have "same_slots s1 (set_matched m s1)" by (rule calm_set) (simp_all add: m_def matched_observe_def Let_def)
  then have st: "same_slots s (set_matched m s1)" by (rule same_slots_trans [OF q])
  have k: "slotted c t (case readiness_changed t i of None \<Rightarrow> (Inl ActorPanic, t) | Some changed \<Rightarrow>
      and_then (if changed then reconcile_matched_sports (Some c) env t else (Inr (), t))
        (\<lambda>_ s. refresh_matched_sports_intervals (Some c) env s))" for t
  proof (cases "readiness_changed t i")
    case None
    have "\<not> slots_ok c (ac_matched t)"
    proof
      assume "slots_ok c (ac_matched t)"
      moreover obtain p where "ms_preparing (ac_matched t) = Some p" "map_of (ms_markets (ac_matched t)) (pr_market_id p) = None"
        using None by (auto simp: readiness_changed_def split: option.splits)
      ultimately show False by (auto simp: slots_ok_def preparing_ids_def map_of_eq_None_iff)
    qed
    then show ?thesis by (simp add: slotted_def)
  next
    case (Some changed)
    have "slotted c t (if changed then reconcile_matched_sports (Some c) env t else (Inr (), t))"
      by (simp add: reconcile_slotted) (simp add: slotted_def)
    then have "slotted c t (and_then (if changed then reconcile_matched_sports (Some c) env t else (Inr (), t))
        (\<lambda>_ s. refresh_matched_sports_intervals (Some c) env s))"
      by (rule slotted_and_then) (rule slotted_calm [OF intervals_calm])
    then show ?thesis by (simp add: Some)
  qed
  note main = slotted_from [OF st k]
  define configured where "configured = (if ae_venue env i = ''PREDICT'' then i \<in> bs_instrument ` set (pl_book_depth (ac_plan s))
      else i \<in> bs_instrument ` set (pl_book_deltas (ac_plan s)))"
  show ?thesis
  proof (cases "ac_inbox s = None \<or> \<not> accepts_market_data env i configured s")
    case True
    then show ?thesis by (auto simp: observe_matched_sports_def configured_def Let_def slotted_def)
  next
    case False
    then have c: "ac_inbox s \<noteq> None" "\<not> \<not> accepts_market_data env i configured s" by simp_all
    show ?thesis using main
      by (simp only: observe_matched_sports_def if_not_P [OF c(1)] Let_def configured_def [symmetric] if_not_P [OF c(2)] r prod.case m_def)
  qed
qed

lemma matched_release_calm:
  fixes s :: "('i::linorder, 'b, 'p, 'd) actor"
  shows "calm s (matched_release env is s)"
proof (induction "is" arbitrary: s)
  case (Cons i "is")
  have st: "same_slots s (set_matched ((ac_matched s)\<lparr>ms_retiring := x\<rparr>) s)" for x by (rule calm_set) simp_all
  have u: "calm t (if b then (Inr False, t) else unowned env i ks t)" for b ks and t :: "('i, 'b, 'p, 'd) actor"
  proof -
    have "fst (unowned env i ks t) \<noteq> Inl ActorPanic"
      by (auto simp: unowned_def and_then_def count_any_def call_ok_def split: bool.split)
    then show ?thesis by (simp add: calm_def same_slots_steady quiet_steady quiet_unowned)
  qed
  have p: "same_slots t (if free then set_matched ((ac_matched (purge_instrument_from_cache i t))\<lparr>ms_instrument_versions := f (purge_instrument_from_cache i t)\<rparr>)
      (purge_instrument_from_cache i t) else t)" for free f and t :: "('i, 'b, 'p, 'd) actor"
    using same_slots_core [OF purge_core, of t i] by (simp add: same_slots_def set_matched_def)
  show ?case unfolding matched_release.simps Let_def
    by (rule calm_from [OF st], rule calm_and_then, rule u, rule calm_from [OF p], rule Cons.IH)
qed (simp add: calm_def)

lemma refresh_slotted: "slotted c s (refresh_matched_sports (Some c) env s)"
proof -
  obtain now s1 where r: "read_clock env s = (now, s1)" by fastforce
  have q: "same_slots s s1" using calm_clock [of s env] r by simp
  obtain update s2 where b: "(case ac_inbox s1 of None \<Rightarrow> (None, s1)
      | Some b \<Rightarrow> let (answer, b) = inbox_take (ms_generation (ac_matched s1)) b in (answer, s1\<lparr>ac_inbox := Some b\<rparr>)) = (update, s2)"
    by fastforce
  have "same_slots s1 s2" using b by (auto simp: Let_def same_slots_def split: option.splits prod.splits)
  then have st: "same_slots s s2" by (rule same_slots_trans [OF q])
  have first: "slotted c t (case update of None \<Rightarrow> (Inr (), t) | Some (Inr u) \<Rightarrow> apply_matched_sports_universe (Some c) env u t
      | Some (Inl _) \<Rightarrow> call env (AppendAudit ''discovery_failed_retained'') t)" for t
  proof -
    have "slotted c t (call env (AppendAudit a) t)" for a by (rule slotted_calm, rule calm_call) simp
    then show ?thesis by (simp add: apply_universe_slotted split: option.split sum.split) (simp add: slotted_def)
  qed
  show ?thesis
    unfolding refresh_matched_sports_def r Let_def prod.case b [unfolded Let_def]
    by (rule slotted_from [OF st], rule slotted_and_then, rule first, rule slotted_and_then, rule reconcile_slotted,
        rule slotted_and_then, rule slotted_calm [OF matched_release_calm], rule slotted_calm [OF intervals_calm])
qed

lemma start_slotted: "slotted c s (start_matched_sports env s)"
proof (cases "ac_inbox s")
  case None
  then show ?thesis by (simp add: start_matched_sports_def slotted_def)
next
  case (Some b)
  obtain generation b' where bg: "begin_generation b = (generation, b')" by fastforce
  let ?s = "set_matched ((ac_matched s)\<lparr>ms_generation := generation\<rparr>) (s\<lparr>ac_inbox := Some b'\<rparr>)"
  have st: "same_slots s ?s" by (simp add: same_slots_def set_matched_def)
  have last_ok: "calm t (case call_ok env t of
      (True, s) \<Rightarrow> (Inr (), s\<lparr>ac_timers := (ac_timers s)(matched_timer := Some 1000000000)\<rparr>)
    | (False, s) \<Rightarrow> (Inl CallFailed, s))" for t
    by (auto simp: calm_def call_ok_def same_slots_def split: bool.split)
  have "calm ?s (and_then (call env (AppendAudit ''started'') ?s) (\<lambda>_ s. case call_ok env s of
      (True, s) \<Rightarrow> (Inr (), s\<lparr>ac_timers := (ac_timers s)(matched_timer := Some 1000000000)\<rparr>)
    | (False, s) \<Rightarrow> (Inl CallFailed, s)))"
    by (rule calm_and_then, rule calm_call, simp, rule last_ok)
  then show ?thesis using slotted_calm [OF calm_from [OF st]] by (simp add: start_matched_sports_def Some bg)
qed

subsection \<open>What the slots guarantee\<close>

text \<open>C27: The handlers of the matched mode never own more markets than the budget allows, one more
  with a successor in preparation, and none of their lookups of owned markets and candidates panics,
  whatever fails and whatever the discovery delivers.\<close>

theorem matched_slots_bounded:
  assumes "slots_ok c (ac_matched s)"
  shows "length (ms_markets (ac_matched (snd (refresh_matched_sports (Some c) env s))))
        \<le> mg_max_markets c + (if mg_preload_next c then 1 else 0)
    \<and> fst (refresh_matched_sports (Some c) env s) \<noteq> Inl ActorPanic
    \<and> length (ms_markets (ac_matched (snd (observe_matched_sports (Some c) env i snapshot usable s))))
        \<le> mg_max_markets c + (if mg_preload_next c then 1 else 0)
    \<and> fst (observe_matched_sports (Some c) env i snapshot usable s) \<noteq> Inl ActorPanic"
  using refresh_slotted [of c s env] observe_slotted [of c s env i snapshot usable] assms slots_bound
  unfolding slotted_def by blast


end
