(* ===== verification/Actor_Lighter.thy ===== *)
theory Actor_Lighter
  imports Actor_Keeps
begin

section \<open>Lighter up/down markets\<close>

text \<open>
  \<open>actor/lighter.rs\<close>: markets are found by a tagged instrument request, recorded until they expire,
  sealed, and purged one turn later unless another owner subscribes to them.

  The numeric market id, the tag and the expiry are fields of the instrument; writing an audit line
  is a call that can fail.
\<close>

definition lighter_timer :: string where "lighter_timer = ''lighter_updown_refresh''"

definition set_lighter :: "'i lighter_state \<Rightarrow> ('i, 'b, 'p, 'd) actor \<Rightarrow> ('i, 'b, 'p, 'd) actor" where
  "set_lighter l s = s\<lparr>ac_lighter := l\<rparr>"

definition schedule_lighter :: "('i, 'b) actor_env \<Rightarrow> ('i, 'b, 'p, 'd) actor \<Rightarrow> (unit, ('i, 'b, 'p, 'd) actor) outcome" where
  "schedule_lighter env s =
     (if \<not> lighter_enabled (ac_lighter s) then (Inr (), s)
      else let (now, s) = read_clock env s;
               ends = List.map_filter (nd_expiration_ns \<circ> snd) (lw_markets (ac_lighter s));
               at = foldl min (now + 1000000000) (filter (\<lambda>t. now < t) ends)
           in case call_ok env s of
                (True, s) \<Rightarrow> (Inr (), s\<lparr>ac_timers := (ac_timers s)(lighter_timer := Some at)\<rparr>)
              | (False, s) \<Rightarrow> (Inl CallFailed, s))"

text \<open>Whether another owner subscribes; the last two counts can fail, in the order of the code.\<close>

definition lighter_other_owner :: "('i, 'b) actor_env \<Rightarrow> 'i \<Rightarrow> ('i, 'b, 'p, 'd) actor \<Rightarrow> (bool, ('i, 'b, 'p, 'd) actor) outcome" where
  "lighter_other_owner env i s =
     (if list_ex (\<lambda>k. 0 < ae_count env (ac_calls s) i k) [DeltasCount, TradesCount, IndexCount] then (Inr True, s)
      else and_then (count_any env i CustomCount s) (\<lambda>n s.
        if 0 < n then (Inr True, s) else and_then (count_any env i InstrumentCount s) (\<lambda>n s. (Inr (0 < n), s))))"

fun lighter_release ::
  "('i, 'b) actor_env \<Rightarrow> ('i \<times> 'i definition_record) list \<Rightarrow> ('i, 'b, 'p, 'd) actor \<Rightarrow> (unit, ('i, 'b, 'p, 'd) actor) outcome" where
  "lighter_release env [] s = (Inr (), s)"
| "lighter_release env ((i, inst) # is) s =
     and_then (lighter_other_owner env i s) (\<lambda>other s.
       and_then (call env (AppendAudit (if other then ''retained_other_owner'' else ''cache_purged''))
                   (if other then s else purge_instrument_from_cache i s)) (\<lambda>_ s. lighter_release env is s))"

definition lighter_seals :: "('i, 'b) actor_env \<Rightarrow> ('i, 'b) capture_plan \<Rightarrow> 'i \<Rightarrow> ('i, 'b) command list" where
  "lighter_seals env remove i =
     (if i \<in> sp_instrument ` set (pl_trades remove) \<and> ae_writer env Trades then [SealInstrument Trades i] else [])
     @ (if i \<in> bs_instrument ` set (pl_book_deltas remove) \<and> ae_writer env BookDeltas then [SealInstrument BookDeltas i] else [])
     @ (if i \<in> sp_instrument ` set (pl_index_prices remove) \<and> ae_writer env IndexPrices then [SealInstrument IndexPrices i] else [])
     @ (if ae_writer env CustomData
        then map (SealData \<circ> cd_data_type) (filter (\<lambda>c. dt_type_name (cd_data_type c) = ''LighterOpenInterest'') (pl_custom_data remove))
        else [])"

fun lighter_expire ::
  "('i::linorder, 'b) actor_env \<Rightarrow> ('i, 'b) capture_plan \<Rightarrow> 'i definition_record list \<Rightarrow> ('i, 'b, 'p, 'd) actor
   \<Rightarrow> (unit, ('i, 'b, 'p, 'd) actor) outcome" where
  "lighter_expire env remove [] s = (Inr (), s)"
| "lighter_expire env remove (inst # insts) s =
     (let i = nd_id inst
      in and_then (each_ok (call env) (lighter_seals env remove i) s) (\<lambda>_ s.
         and_then (if planned s i then call env (AppendAudit ''expired_static_owner_retained'') s
                   else let s = forget_instrument_runtime_state i s; l = ac_lighter s
                        in call env (AppendAudit ''expired'')
                             (set_lighter (l\<lparr>lw_retiring := btree_insert i inst (lw_retiring l)\<rparr>) s)) (\<lambda>_ s.
           lighter_expire env remove insts s)))"

definition expired_at :: "nat \<Rightarrow> 'i definition_record \<Rightarrow> bool" where
  "expired_at now inst = (case nd_expiration_ns inst of Some t \<Rightarrow> t \<le> now | None \<Rightarrow> False)"

definition lighter_drop_expired ::
  "('i::linorder, 'b) actor_env \<Rightarrow> nat \<Rightarrow> ('i, 'b, 'p, 'd) actor \<Rightarrow> (unit, ('i, 'b, 'p, 'd) actor) outcome" where
  "lighter_drop_expired env now s =
     (let l = ac_lighter s; previous = ac_plan s;
          expired = filter (expired_at now) (map snd (lw_markets l));
          s = set_lighter (l\<lparr>lw_markets := foldl (\<lambda>m inst. AList.delete (nd_id inst) m) (lw_markets l) expired\<rparr>) s
      in if expired = [] then (Inr (), s)
         else let s = sync_plan_state s;
                  remove = capture_plan_difference previous (ac_plan s);
                  s = unsubscribe_plan env remove s
              in and_then (lighter_expire env remove expired s) (\<lambda>_ s.
                   (Inr (), set_lighter ((ac_lighter s)\<lparr>lw_next_refresh_ns := 0\<rparr>) s)))"

definition lighter_request ::
  "('i, 'b) actor_env \<Rightarrow> nat \<Rightarrow> ('i, 'b, 'p, 'd) actor \<Rightarrow> (unit, ('i, 'b, 'p, 'd) actor) outcome" where
  "lighter_request env now s =
     (let l = ac_lighter s
      in if lw_pending l \<noteq> None \<or> now < lw_next_refresh_ns l then (Inr (), s)
         else and_then (call env (RequestInstruments ''LIGHTER'') s) (\<lambda>_ s.
           (Inr (), set_lighter ((ac_lighter s)\<lparr>lw_pending := Some (ae_request_id env (ac_calls s)),
              lw_next_refresh_ns := (now + Min (lf_refresh_secs ` set (lw_configs l)) * 1000000000) mod 2 ^ 64\<rparr>) s)))"

definition refresh_lighter :: "('i::linorder, 'b) actor_env \<Rightarrow> ('i, 'b, 'p, 'd) actor \<Rightarrow> (unit, ('i, 'b, 'p, 'd) actor) outcome" where
  "refresh_lighter env s =
     (if \<not> lighter_enabled (ac_lighter s) then (Inr (), s)
      else let l = ac_lighter s
           in and_then (lighter_release env (lw_retiring l) (set_lighter (l\<lparr>lw_retiring := []\<rparr>) s)) (\<lambda>_ s.
              let (now, s) = read_clock env s
              in and_then (lighter_drop_expired env now s) (\<lambda>_ s. lighter_request env now s)))"

text \<open>Whether an instrument of the answer is one of the configured series and still open.\<close>

definition lighter_wanted :: "('i, 'b) actor_env \<Rightarrow> nat \<Rightarrow> 'i lighter_state \<Rightarrow> 'i definition_record \<Rightarrow> bool" where
  "lighter_wanted env now l inst =
     (case (nd_expiration_ns inst, nd_info inst) of
        (Some t, Some info) \<Rightarrow> now < t \<and> ae_venue env (nd_id inst) = ''LIGHTER''
          \<and> list_ex (\<lambda>c. lf_tag c = (case json_str (map_of info ''event_tag'') of Some tag \<Rightarrow> tag | None \<Rightarrow> [])) (lw_configs l)
      | _ \<Rightarrow> False)"

fun apply_lighter_instruments ::
  "('i::linorder, 'b) actor_env \<Rightarrow> nat \<Rightarrow> 'i definition_record list \<Rightarrow> ('i, 'b, 'p, 'd) actor
   \<Rightarrow> (unit, ('i, 'b, 'p, 'd) actor) outcome" where
  "apply_lighter_instruments env now [] s = (Inr (), s)"
| "apply_lighter_instruments env now (inst # insts) s =
     (if \<not> lighter_wanted env now (ac_lighter s) inst then apply_lighter_instruments env now insts s
      else let i = nd_id inst; known = map_of (lw_markets (ac_lighter s)) i
      in case market_id_of inst of
           None \<Rightarrow> (Inl (ActorError ''Lighter instrument missing numeric market_id''), s)
         | Some n \<Rightarrow>
            if ae_symbol env i \<noteq> show_nat n @ ''-BINARY''
            then (Inl (ActorError ''Lighter instrument identity does not match market_id''), s)
            else if (case known of Some old \<Rightarrow> nd_info old = nd_info inst | None \<Rightarrow> False)
            then apply_lighter_instruments env now insts s
            else let previous_plan = ac_plan s; l = ac_lighter s;
                     s = sync_plan_state (set_lighter (l\<lparr>lw_markets := btree_insert i inst (lw_markets l)\<rparr>) s)
                 in and_then (submit_instrument env inst s) (\<lambda>_ s.
                    and_then (optional_flush_all env Instruments s) (\<lambda>_ s.
                    and_then (if known = None then subscribe_plan env (capture_plan_difference (ac_plan s) previous_plan) s
                              else (Inr (), s)) (\<lambda>_ s.
                    and_then (call env (AppendAudit (if known = None then ''prepared'' else ''definition_updated'')) s) (\<lambda>_ s.
                      apply_lighter_instruments env now insts s)))))"

text \<open>An answer with an error of the adapter, or with instruments.\<close>

definition apply_lighter_response ::
  "('i::linorder, 'b) actor_env \<Rightarrow> string + 'i definition_record list \<Rightarrow> ('i, 'b, 'p, 'd) actor
   \<Rightarrow> (unit, ('i, 'b, 'p, 'd) actor) outcome" where
  "apply_lighter_response env answer s =
     (let s = set_lighter ((ac_lighter s)\<lparr>lw_pending := None\<rparr>) s
      in case answer of
           Inl _ \<Rightarrow> (Inr (), s)
         | Inr insts \<Rightarrow> let (now, s) = read_clock env s in apply_lighter_instruments env now insts s)"

subsection \<open>What the handlers keep\<close>

lemma still_lighter:
  assumes "lw_markets l = lw_markets (ac_lighter s)"
  shows "still s (set_lighter l s)"
  using assms by (simp add: still_def set_lighter_def open_topics_def effective_parts base_specs_def lighter_plan_def)

lemma schedule_lighter_still: "still s (snd (schedule_lighter env s))"
proof -
  have "still s (s\<lparr>ac_calls := n, ac_timers := (ac_timers s)(lighter_timer := x)\<rparr>)" for n x
    by (simp add: still_def open_topics_def effective_parts base_specs_def lighter_timer_def pending_timer_def)
  moreover have "still s (s\<lparr>ac_calls := n\<rparr>)" for n by (rule quiet_still) simp
  ultimately show ?thesis
    by (auto simp: schedule_lighter_def Let_def read_clock_def call_ok_def split: bool.split)
qed

lemmas schedule_lighter_advances = still_advances [OF schedule_lighter_still]

lemma quiet_other_owner: "quiet s (snd (lighter_other_owner env i s))"
  by (auto simp: lighter_other_owner_def and_then_def count_any_def call_ok_def split: bool.split)

lemma lighter_release_advances:
  fixes s :: "('i::linorder, 'b, 'p, 'd) actor"
  assumes "good env s" "\<And>p. p \<in> set ps \<Longrightarrow> \<not> planned s (fst p)"
  shows "advances env s (lighter_release env ps s)"
  using assms
proof (induction ps arbitrary: s)
  case (Cons p ps)
  obtain i inst where p: "p = (i, inst)" by fastforce
  let ?o = "lighter_other_owner env i s"
  have plan: "ac_plan (snd ?o) = ac_plan s" by (rule quietD(2) [OF quiet_other_owner])
  have o: "advances env s ?o" by (rule quiet_advances [OF quiet_other_owner Cons.prems(1)])
  have tail_ok: "advances env t (and_then (call env (AppendAudit a) t) (\<lambda>_ s. lighter_release env ps s))"
    if "good env t" "ac_plan t = ac_plan s" for t :: "('i, 'b, 'p, 'd) actor" and a
  proof (rule advances_and_then)
    show "advances env t (call env (AppendAudit a) t)" by (rule quiet_advances [OF quiet_call that(1)]) simp
    have c: "ac_plan (snd (call env (AppendAudit a) t)) = ac_plan s"
      using quietD(2) [OF quiet_call [of "AppendAudit a" t env]] that(2) by simp
    assume "good env (snd (call env (AppendAudit a) t))"
    then show "advances env (snd (call env (AppendAudit a) t)) (lighter_release env ps (snd (call env (AppendAudit a) t)))"
      by (rule Cons.IH) (use Cons.prems(2) c in \<open>simp add: planned_def\<close>)
  qed
  show ?case unfolding p lighter_release.simps
  proof (rule advances_and_then [OF o])
    fix other
    assume g: "good env (snd ?o)"
    have n: "\<not> planned (snd ?o) i" using Cons.prems(2) [of p] plan by (simp add: p planned_def)
    let ?t = "if other then snd ?o else purge_instrument_from_cache i (snd ?o)"
    have a: "advances env (snd ?o) (Inr (), ?t)" using g advances_purge [OF g n] by (cases other) simp_all
    have pt: "ac_plan ?t = ac_plan s" using a plan by (simp add: advances_def)
    have "good env ?t \<Longrightarrow> advances env ?t (and_then (call env (AppendAudit x) ?t) (\<lambda>_ s. lighter_release env ps s))" for x
      by (rule tail_ok [OF _ pt])
    from advances_state [OF a this] show "advances env (snd ?o) (and_then (call env (AppendAudit (if other then ''retained_other_owner'' else ''cache_purged'')) ?t)
        (\<lambda>_ s. lighter_release env ps s))" .
  qed
qed simp

lemma lighter_seals_quiet: "list_all (\<lambda>c. \<not> market_command c) (lighter_seals env p i)"
  by (auto simp: lighter_seals_def list_all_iff)

lemma lighter_expire_advances: "good env s \<Longrightarrow> advances env s (lighter_expire env remove insts s)"
proof (induction insts arbitrary: s)
  case (Cons inst insts)
  let ?i = "nd_id inst"
  have audit: "advances env t (call env (AppendAudit a) t)" if "good env t" for t a
    by (rule quiet_advances [OF quiet_call that]) simp
  have one: "advances env t (if planned t ?i then call env (AppendAudit a) t
      else let s = forget_instrument_runtime_state ?i t; l = ac_lighter s
           in call env (AppendAudit b) (set_lighter (l\<lparr>lw_retiring := btree_insert ?i inst (lw_retiring l)\<rparr>) s))"
    if gt: "good env t" for t a b
  proof (cases "planned t ?i")
    case True
    then show ?thesis using audit [OF gt] by simp
  next
    case False
    let ?f = "forget_instrument_runtime_state ?i t"
    have st: "still ?f (set_lighter ((ac_lighter ?f)\<lparr>lw_retiring := x\<rparr>) ?f)" for x by (rule still_lighter) simp
    have "advances env ?f (call env (AppendAudit b) (set_lighter ((ac_lighter ?f)\<lparr>lw_retiring := x\<rparr>) ?f))" if "good env ?f" for x
      by (rule advances_from [OF st that audit])
    from advances_state [OF advances_forget [OF gt False] this] show ?thesis using False by (simp add: Let_def)
  qed
  show ?case unfolding lighter_expire.simps Let_def [of ?i]
    by (rule advances_and_then, rule quiet_advances [OF quiet_seals [OF lighter_seals_quiet] Cons.prems],
        rule advances_and_then, rule one, assumption, rule Cons.IH)
qed simp

subsubsection \<open>The plan of the markets\<close>

definition lighter_specs :: "'i definition_record \<Rightarrow> ('i, 'b) capture_spec set" where
  "lighter_specs d = {InstrumentSpec \<lparr>sp_instrument = nd_id d\<rparr>, TradeSpec \<lparr>sp_instrument = nd_id d\<rparr>,
     BookDeltasSpec (book_deltas_spec (nd_id d)), IndexPriceSpec \<lparr>sp_instrument = nd_id d\<rparr>, CustomDataSpec \<lparr>cd_data_type = oi_type d\<rparr>}"

lemma plan_specs_lighter: "plan_specs (lighter_plan l) = (\<Union>d \<in> set (map snd (lw_markets l)). lighter_specs d)"
proof -
  have "x \<in> plan_specs (lighter_plan l) \<longleftrightarrow> (\<exists>d \<in> set (map snd (lw_markets l)). x \<in> lighter_specs d)" for x :: "('a, 'b) capture_spec"
    by (cases x) (auto simp: plan_specs_iff lighter_plan_def lighter_specs_def empty_plan_def id_specs_def Let_def)
  then show ?thesis by blast
qed

lemma lighter_spec_of: "x \<in> lighter_specs d \<Longrightarrow> spec_instrument x = Some j \<Longrightarrow> nd_id d = j"
  by (auto simp: lighter_specs_def book_deltas_spec_def)

lemma planned_lighter: "d \<in> snd ` set (lw_markets l) \<Longrightarrow>
    InstrumentSpec \<lparr>sp_instrument = nd_id d\<rparr> \<in> plan_specs (lighter_plan l)"
  by (auto simp: plan_specs_lighter lighter_specs_def)

lemma lighter_topics:
  "{t. \<exists>x \<in> lighter_specs d. topic_of x = Some t} = {TradeTopic (nd_id d), DeltasTopic (nd_id d), IndexTopic (nd_id d)}"
  by (auto simp: lighter_specs_def book_deltas_spec_def)

lemma delete_all_sub: "set (foldl (\<lambda>m inst. AList.delete (nd_id inst) m) ms insts) \<subseteq> set ms
   \<and> (btree_map ms \<longrightarrow> btree_map (foldl (\<lambda>m inst. AList.delete (nd_id inst) m) ms insts))"
proof (induction insts arbitrary: ms)
  case (Cons inst insts)
  have "set (AList.delete (nd_id inst) ms) \<subseteq> set ms" by (auto simp: AList.delete_eq)
  then show ?case using Cons.IH [of "AList.delete (nd_id inst) ms"] by auto
qed simp

lemma drop_expired_keeps:
  fixes s :: "('i::linorder, 'b, 'p, 'd) actor"
  assumes g: "good env s"
  shows "keeps env s (lighter_drop_expired env now s)"
proof -
  define expired where "expired = filter (expired_at now) (map snd (lw_markets (ac_lighter s)))"
  define s1 where "s1 = set_lighter ((ac_lighter s)\<lparr>lw_markets :=
      foldl (\<lambda>m inst. AList.delete (nd_id inst) m) (lw_markets (ac_lighter s)) expired\<rparr>) s"
  show ?thesis
  proof (cases "expired = []")
    case True
    then have "lighter_drop_expired env now s = (Inr (), set_lighter (ac_lighter s) s)"
      by (simp add: lighter_drop_expired_def expired_def Let_def)
    then show ?thesis using g by (simp add: set_lighter_def)
  next
    case False
    define remove where "remove = capture_plan_difference (ac_plan s) (actor_effective_plan s1)"
    define u where "u = unsubscribe_plan env remove (sync_plan_state s1)"
    have sub: "set (lw_markets (ac_lighter s1)) \<subseteq> set (lw_markets (ac_lighter s))"
      using delete_all_sub [of "lw_markets (ac_lighter s)" expired] by (simp add: s1_def set_lighter_def)
    have same: "same_streams s s1" by (simp add: same_streams_def s1_def set_lighter_def open_topics_def)
    have wf: "lighter_wf (lw_markets (ac_lighter s))" "rolling_wf env (hv_markets (ac_rolling s))"
      using g by (simp_all add: good_def owned_ok_def)
    have "lighter_wf (lw_markets (ac_lighter s1))"
      using wf(1) sub delete_all_sub [of "lw_markets (ac_lighter s)" expired]
      unfolding lighter_wf_def by (auto simp: s1_def set_lighter_def)
    then have owned: "owned_ok env s1" using wf(2) by (simp add: owned_ok_def s1_def set_lighter_def)
    have "plan_specs (actor_effective_plan s1) \<subseteq> plan_specs (actor_effective_plan s)"
      using sub by (auto simp: effective_parts plan_specs_lighter) (simp_all add: s1_def set_lighter_def base_specs_def)
    then have less: "plan_specs (actor_effective_plan s1) \<subseteq> plan_specs (ac_plan s)" using g by (simp add: good_def in_step_def)
    have r: "lighter_drop_expired env now s = and_then (lighter_expire env remove expired u) (\<lambda>_ s.
        (Inr (), set_lighter ((ac_lighter s)\<lparr>lw_next_refresh_ns := 0\<rparr>) s))"
      using False by (simp add: lighter_drop_expired_def expired_def [symmetric] s1_def [symmetric] Let_def sync_fields remove_def u_def)
    have st: "still t (set_lighter ((ac_lighter t)\<lparr>lw_next_refresh_ns := 0\<rparr>) t)" for t :: "('i, 'b, 'p, 'd) actor"
      by (rule still_lighter) simp
    show ?thesis unfolding r
    proof (rule replan_keeps [OF g same owned, of remove, folded u_def])
      show "t \<in> plan_topics remove" if "t \<in> plan_topics (ac_plan s)" "t \<notin> plan_topics (actor_effective_plan s1)" for t
        using that by (auto simp: remove_def plan_topics_specs)
      show "advances env u (and_then (lighter_expire env remove expired u) (\<lambda>_ s.
          (Inr (), set_lighter ((ac_lighter s)\<lparr>lw_next_refresh_ns := 0\<rparr>) s)))" if "good env u"
        by (rule advances_and_then, rule lighter_expire_advances [OF that], rule still_advances) (simp_all add: st)
      show "isl (fst (and_then (lighter_expire env remove expired u) (\<lambda>_ s. (Inr (), set_lighter ((ac_lighter s)\<lparr>lw_next_refresh_ns := 0\<rparr>) s))))
          \<or> i \<in> tracked (snd (and_then (lighter_expire env remove expired u) (\<lambda>_ s.
              (Inr (), set_lighter ((ac_lighter s)\<lparr>lw_next_refresh_ns := 0\<rparr>) s))))"
        if "i \<in> set (planned_instrument_ids (actor_effective_plan s1))" "i \<notin> set (planned_instrument_ids (ac_plan s))" for i
        using that planned_mono [OF less] by blast
    qed
  qed
qed

lemma lighter_request_advances:
  assumes "good env s"
  shows "advances env s (lighter_request env now s)"
proof -
  have st: "still t (set_lighter ((ac_lighter t)\<lparr>lw_pending := x, lw_next_refresh_ns := y\<rparr>) t)" for t and x y
    by (rule still_lighter) simp
  have "advances env s (and_then (call env (RequestInstruments ''LIGHTER'') s) (\<lambda>_ s.
      (Inr (), set_lighter ((ac_lighter s)\<lparr>lw_pending := f s, lw_next_refresh_ns := y\<rparr>) s)))" for f y
    by (rule advances_and_then, rule quiet_advances [OF quiet_call assms], simp, rule still_advances) (simp_all add: st)
  then show ?thesis using assms by (simp add: lighter_request_def Let_def)
qed

lemma refresh_lighter_keeps:
  assumes g: "good env s" and retiring: "\<And>p. p \<in> set (lw_retiring (ac_lighter s)) \<Longrightarrow> \<not> planned s (fst p)"
  shows "keeps env s (refresh_lighter env s)"
proof (cases "lighter_enabled (ac_lighter s)")
  case False
  then show ?thesis using g by (simp add: refresh_lighter_def)
next
  case True
  let ?s = "set_lighter ((ac_lighter s)\<lparr>lw_retiring := []\<rparr>) s"
  have st: "still s ?s" by (rule still_lighter) simp
  have rest: "keeps env t (let (now, s) = read_clock env t in and_then (lighter_drop_expired env now s) (\<lambda>_ s. lighter_request env now s))"
    if "good env t" for t
  proof -
    obtain now t1 where r: "read_clock env t = (now, t1)" by fastforce
    have q: "still t t1" using quiet_still [OF quiet_clock [of t env]] r by simp
    show ?thesis unfolding r Let_def prod.case
      by (rule keeps_from [OF q that], rule keeps_and_then [OF drop_expired_keeps], assumption, rule advances_keeps,
          rule lighter_request_advances)
  qed
  have rel: "advances env ?s (lighter_release env (lw_retiring (ac_lighter s)) ?s)" if "good env ?s"
    by (rule lighter_release_advances [OF that]) (use retiring in \<open>simp add: planned_def set_lighter_def\<close>)
  have "keeps env s (and_then (lighter_release env (lw_retiring (ac_lighter s)) ?s) (\<lambda>_ s.
      let (now, s) = read_clock env s in and_then (lighter_drop_expired env now s) (\<lambda>_ s. lighter_request env now s)))"
    by (rule keeps_from [OF st g], rule advances_then [OF rel], assumption, rule rest)
  then show ?thesis using True by (simp add: refresh_lighter_def Let_def)
qed

text \<open>An answer: markets are added, or their definitions replaced.\<close>

lemma lighter_take_keeps:
  fixes s :: "('i::linorder, 'b, 'p, 'd) actor" and env :: "('i, 'b) actor_env" and inst :: "'i definition_record"
  assumes g: "good env s"
  defines "i \<equiv> nd_id inst"
  defines "known \<equiv> map_of (lw_markets (ac_lighter s)) i"
  defines "s1 \<equiv> set_lighter ((ac_lighter s)\<lparr>lw_markets := btree_insert i inst (lw_markets (ac_lighter s))\<rparr>) s"
  shows "keeps env s (and_then (submit_instrument env inst (sync_plan_state s1)) (\<lambda>_ s'.
      and_then (optional_flush_all env Instruments s') (\<lambda>_ s'.
      and_then (if known = None then subscribe_plan env (capture_plan_difference (ac_plan s') (ac_plan s)) s' else (Inr (), s')) (\<lambda>_ s'.
        call env (AppendAudit a) s'))))"
proof -
  define m where "m = submit_instrument env inst (sync_plan_state s1)"
  define k where "k = (\<lambda>s' :: ('i, 'b, 'p, 'd) actor. and_then (if known = None then subscribe_plan env (capture_plan_difference (ac_plan s') (ac_plan s)) s' else (Inr (), s'))
      (\<lambda>_ s'. call env (AppendAudit a) s'))"
  have same: "same_streams s s1" by (simp add: same_streams_def s1_def set_lighter_def open_topics_def)
  have wf: "lighter_wf (lw_markets (ac_lighter s))" "rolling_wf env (hv_markets (ac_rolling s))"
    using g by (simp_all add: good_def owned_ok_def)
  have bm: "btree_map (lw_markets (ac_lighter s))" using wf by (simp add: lighter_wf_def)
  have ms: "set (lw_markets (ac_lighter s1)) = insert (i, inst) {p \<in> set (lw_markets (ac_lighter s)). fst p \<noteq> i}"
    by (simp add: s1_def set_lighter_def set_btree_insert [OF bm])
  have "lighter_wf (lw_markets (ac_lighter s1))"
    using wf(1) ms bm by (auto simp: lighter_wf_def i_def) (simp add: s1_def set_lighter_def i_def)
  then have owned: "owned_ok env s1" using wf(2) by (simp add: owned_ok_def s1_def set_lighter_def)
  have ids: "nd_id d = j" if "(j, d) \<in> set (lw_markets (ac_lighter s))" for j d using wf(1) that by (auto simp: lighter_wf_def)
  have step: "plan_specs (ac_plan s) = plan_specs (actor_effective_plan s)" using g by (simp add: good_def in_step_def)
  have other: "base_specs s1 = base_specs s" "ac_rolling s1 = ac_rolling s" "ac_matched s1 = ac_matched s"
    by (simp_all add: s1_def set_lighter_def base_specs_def)
  have old: "\<exists>d \<in> snd ` set (lw_markets (ac_lighter s1)). nd_id d = nd_id d'" if "d' \<in> snd ` set (lw_markets (ac_lighter s))" for d'
    using that ids by (force simp: ms i_def)
  have lt: "plan_topics (lighter_plan (ac_lighter s) :: ('i, 'b) capture_plan) \<subseteq> plan_topics (lighter_plan (ac_lighter s1))"
  proof
    fix t
    assume "t \<in> plan_topics (lighter_plan (ac_lighter s) :: ('i, 'b) capture_plan)"
    then obtain d' where d': "d' \<in> snd ` set (lw_markets (ac_lighter s))" "t \<in> {t. \<exists>x \<in> lighter_specs d'. topic_of x = Some t}"
      by (auto simp: plan_topics_specs plan_specs_lighter)
    obtain d where d: "d \<in> snd ` set (lw_markets (ac_lighter s1))" "nd_id d = nd_id d'" using old [OF d'(1)] by blast
    have "t \<in> {t. \<exists>x \<in> lighter_specs d. topic_of x = Some t}" using d'(2) unfolding lighter_topics d(2) .
    then show "t \<in> plan_topics (lighter_plan (ac_lighter s1))" using d(1) by (auto simp: plan_topics_specs plan_specs_lighter)
  qed
  have grows: "plan_topics (ac_plan s) \<subseteq> plan_topics (actor_effective_plan s1)"
    using lt unfolding plan_topics_specs step effective_parts other by blast
  have r: "and_then (submit_instrument env inst (sync_plan_state s1)) (\<lambda>_ s'.
      and_then (optional_flush_all env Instruments s') (\<lambda>_ s'.
      and_then (if known = None then subscribe_plan env (capture_plan_difference (ac_plan s') (ac_plan s)) s' else (Inr (), s')) (\<lambda>_ s'.
        call env (AppendAudit a) s'))) = and_then m (\<lambda>_ s'. and_then (optional_flush_all env Instruments s') (\<lambda>_ s'. k s'))"
    by (simp add: m_def k_def)
  define q where "q = and_then m (\<lambda>_ s'. optional_flush_all env Instruments s')"
  have qq: "quiet (sync_plan_state s1) (snd q)" unfolding q_def m_def by (intro quiet_and_then quiet_submit_instrument quiet_flush)
  have assoc: "and_then m (\<lambda>_ s'. and_then (optional_flush_all env Instruments s') (\<lambda>_ s'. k s')) = and_then q (\<lambda>_ s'. k s')"
    by (cases m) (simp add: q_def and_then_def split: sum.split)
  have plan: "ac_plan (snd q) = actor_effective_plan s1" using quietD(2) [OF qq] by (simp add: sync_fields)
  have kk: "advances env (snd q) (k (snd q)) \<and> (isl (fst (k (snd q))) \<or> known \<noteq> None
      \<or> set (planned_instrument_ids (capture_plan_difference (actor_effective_plan s1) (ac_plan s))) \<subseteq> tracked (snd (k (snd q))))"
    if gq: "good env (snd q)"
  proof -
    define n where "n = (if known = None then subscribe_plan env (capture_plan_difference (ac_plan (snd q)) (ac_plan s)) (snd q) else (Inr (), snd q))"
    have n: "advances env (snd q) n" using gq advances_subscribe_plan [OF gq] by (simp add: n_def)
    have au: "advances env (snd n) (call env (AppendAudit a) (snd n))"
      by (rule quiet_advances [OF quiet_call advances_good [OF n]]) simp
    have "isl (fst n) \<or> known \<noteq> None \<or> set (planned_instrument_ids (capture_plan_difference (actor_effective_plan s1) (ac_plan s))) \<subseteq> tracked (snd n)"
      using subscribe_plan_ok [of env "snd q" "capture_plan_difference (ac_plan (snd q)) (ac_plan s)"] gq
      by (auto simp: n_def plan good_def)
    moreover have "tracked (snd (call env (AppendAudit a) (snd n))) = tracked (snd n)"
      using quiet_tracked [OF quiet_call [of "AppendAudit a" "snd n" env]] by simp
    moreover have "k (snd q) = and_then n (\<lambda>_ s'. call env (AppendAudit a) s')" by (simp add: k_def n_def)
    moreover have "advances env (snd q) (and_then n (\<lambda>_ s'. call env (AppendAudit a) s'))"
      by (rule advances_and_then [OF n]) (rule au)
    ultimately show ?thesis by (cases "fst n") (auto simp: and_then_def split_beta)
  qed
  show ?thesis unfolding r assoc
  proof (rule grow_keeps [OF g same owned grows])
    assume gs: "good env (sync_plan_state s1)"
    have aq: "advances env (sync_plan_state s1) q" by (rule quiet_advances [OF qq gs])
    then have gq: "good env (snd q)" by (rule advances_good)
    show "advances env (sync_plan_state s1) (and_then q (\<lambda>_ s'. k s'))"
      by (rule advances_and_then [OF aq]) (use kk in blast)
    fix j
    assume j: "j \<in> set (planned_instrument_ids (actor_effective_plan s1))" "j \<notin> set (planned_instrument_ids (ac_plan s))"
    have new: "known = None"
    proof (rule ccontr)
      assume "known \<noteq> None"
      then obtain d0 where d0: "(i, d0) \<in> set (lw_markets (ac_lighter s))" by (auto simp: known_def dest: map_of_SomeD)
      then have i0: "nd_id d0 = i" by (rule ids)
      have sub: "nd_id ` snd ` set (lw_markets (ac_lighter s1)) \<subseteq> nd_id ` snd ` set (lw_markets (ac_lighter s))"
      proof clarify
        fix k d
        assume "(k, d) \<in> set (lw_markets (ac_lighter s1))"
        then have "(k, d) = (i, inst) \<or> (k, d) \<in> set (lw_markets (ac_lighter s))" unfolding ms by blast
        then show "nd_id (snd (k, d)) \<in> nd_id ` snd ` set (lw_markets (ac_lighter s))"
        proof
          assume "(k, d) = (i, inst)"
          then have "nd_id (snd (k, d)) = nd_id (snd (i, d0))" using i0 by (simp add: i_def)
          then show ?thesis using d0 by (metis imageI)
        qed (blast intro: imageI)
      qed
      obtain x where x: "x \<in> plan_specs (actor_effective_plan s1)" "spec_instrument x = Some j" using j(1) by (auto simp: planned_iff_spec)
      have "\<exists>y \<in> plan_specs (actor_effective_plan s). spec_instrument y = Some j"
      proof (cases "x \<in> plan_specs (lighter_plan (ac_lighter s1))")
        case True
        then obtain d where d: "d \<in> snd ` set (lw_markets (ac_lighter s1))" "x \<in> lighter_specs d"
          unfolding plan_specs_lighter by auto
        have "nd_id d = j" by (rule lighter_spec_of [OF d(2) x(2)])
        then have "j \<in> nd_id ` snd ` set (lw_markets (ac_lighter s1))" using imageI [OF d(1), of nd_id] by simp
        from subsetD [OF sub this] obtain d' where d': "d' \<in> snd ` set (lw_markets (ac_lighter s))" "j = nd_id d'"
          by (rule imageE)
        have "InstrumentSpec \<lparr>sp_instrument = j\<rparr> \<in> plan_specs (actor_effective_plan s)"
          unfolding effective_parts Un_iff d'(2) by (simp add: planned_lighter [OF d'(1)])
        then show ?thesis by (rule bexI [rotated]) simp
      next
        case False
        have "x \<in> plan_specs (actor_effective_plan s)" using x(1) False unfolding effective_parts other Un_iff by blast
        then show ?thesis using x(2) by (rule bexI [rotated])
      qed
      then have "j \<in> set (planned_instrument_ids (ac_plan s))" unfolding planned_iff_spec step .
      then show False using j(2) by simp
    qed
    have "j \<in> set (planned_instrument_ids (capture_plan_difference (actor_effective_plan s1) (ac_plan s)))"
      by (rule planned_difference [OF j])
    then show "isl (fst (and_then q (\<lambda>_ s'. k s'))) \<or> j \<in> tracked (snd (and_then q (\<lambda>_ s'. k s')))"
      using kk [OF gq] new by (cases "fst q") (auto simp: and_then_def split_beta)
  qed
qed

lemma apply_lighter_instruments_keeps:
  fixes s :: "('i::linorder, 'b, 'p, 'd) actor"
  shows "good env s \<Longrightarrow> keeps env s (apply_lighter_instruments env now insts s)"
proof (induction insts arbitrary: s)
  case (Cons inst insts)
  have stay: "keeps env s (Inl e, s)" for e :: actor_error
    using Cons.prems by (simp add: keeps_def good_def)
  let ?i = "nd_id inst"
  let ?s1 = "set_lighter ((ac_lighter s)\<lparr>lw_markets := btree_insert ?i inst (lw_markets (ac_lighter s))\<rparr>) s"
  let ?new = "map_of (lw_markets (ac_lighter s)) ?i = None"
  have take: "keeps env s (and_then (submit_instrument env inst (sync_plan_state ?s1)) (\<lambda>_ s'.
      and_then (optional_flush_all env Instruments s') (\<lambda>_ s'.
      and_then (if ?new then subscribe_plan env (capture_plan_difference (ac_plan s') (ac_plan s)) s' else (Inr (), s')) (\<lambda>_ s'.
      and_then (call env (AppendAudit a) s') (\<lambda>_ s'. apply_lighter_instruments env now insts s')))))" for a
  proof -
    have "keeps env s (and_then (and_then (submit_instrument env inst (sync_plan_state ?s1)) (\<lambda>_ s'.
        and_then (optional_flush_all env Instruments s') (\<lambda>_ s'.
        and_then (if ?new then subscribe_plan env (capture_plan_difference (ac_plan s') (ac_plan s)) s' else (Inr (), s')) (\<lambda>_ s'.
        call env (AppendAudit a) s')))) (\<lambda>_ s'. apply_lighter_instruments env now insts s'))"
      by (rule keeps_and_then, rule lighter_take_keeps [OF Cons.prems], rule Cons.IH)
    then show ?thesis by (simp only: and_then_assoc)
  qed
  define go where "go = and_then (submit_instrument env inst (sync_plan_state ?s1)) (\<lambda>_ s'.
      and_then (optional_flush_all env Instruments s') (\<lambda>_ s'.
      and_then (if ?new then subscribe_plan env (capture_plan_difference (ac_plan s') (ac_plan s)) s' else (Inr (), s')) (\<lambda>_ s'.
      and_then (call env (AppendAudit (if ?new then ''prepared'' else ''definition_updated'')) s') (\<lambda>_ s'.
        apply_lighter_instruments env now insts s'))))"
  have "keeps env s go" unfolding go_def by (rule take)
  then show ?case unfolding apply_lighter_instruments.simps Let_def go_def [symmetric]
    using Cons.IH [OF Cons.prems] by (auto simp: stay split: option.split)
qed simp

lemma apply_lighter_response_keeps:
  fixes s :: "('i::linorder, 'b, 'p, 'd) actor"
  assumes g: "good env s"
  shows "keeps env s (apply_lighter_response env answer s)"
proof -
  let ?s = "set_lighter ((ac_lighter s)\<lparr>lw_pending := None\<rparr>) s"
  have st: "still s ?s" by (rule still_lighter) simp
  have "keeps env s (case answer of Inl _ \<Rightarrow> (Inr (), ?s)
      | Inr insts \<Rightarrow> let (now, s) = read_clock env ?s in apply_lighter_instruments env now insts s)"
  proof (rule keeps_from [OF st g], cases answer)
    case (Inl e)
    assume "good env ?s"
    then show "keeps env ?s (case answer of Inl _ \<Rightarrow> (Inr (), ?s)
        | Inr insts \<Rightarrow> let (now, s) = read_clock env ?s in apply_lighter_instruments env now insts s)" by (simp add: Inl)
  next
    case (Inr insts)
    assume gs: "good env ?s"
    obtain now t where r: "read_clock env ?s = (now, t)" by fastforce
    have q: "still ?s t" using quiet_still [OF quiet_clock [of ?s env]] r by simp
    show "keeps env ?s (case answer of Inl _ \<Rightarrow> (Inr (), ?s)
        | Inr insts \<Rightarrow> let (now, s) = read_clock env ?s in apply_lighter_instruments env now insts s)"
      unfolding r Inr Let_def prod.case sum.case by (rule keeps_from [OF q gs]) (rule apply_lighter_instruments_keeps)
  qed
  then show ?thesis by (simp add: apply_lighter_response_def Let_def)
qed

end
