(* ===== verification/Actor_New.thy ===== *)
theory Actor_New
  imports Actor_Data
begin

section \<open>The actor as it is built\<close>

text \<open>
  The constructor of \<open>actor/mod.rs\<close>: the checks of the configuration, the writers it starts and the
  state it begins with. Starting a writer can fail and is a parameter. The managers of the universes
  are those of \<open>Universe_Refresh\<close>; the polling jobs have their own theory and the online metrics are
  not part of the state.
\<close>

subsection \<open>Configuration\<close>

record ('i, 'b, 'p, 'd, 'q) actor_config =
  ag_lifecycle :: lifecycle_config
  ag_plan :: "('i, 'b) capture_plan"
  ag_options :: "('i, 'b, 'p) option_config option"
  ag_hip4 :: "('i, 'b, 'd) hip4_config option"
  ag_matched :: "'q matched_config option"
  ag_inbox :: "'i inbox option"
  ag_rolling :: "rolling_config option"
  ag_lighter :: "lighter_config list"
  ag_client_routes :: "('i \<times> string) list"
  ag_futures_client :: "string option"

datatype new_error = BadConfig cap_error | BadSelector selector_error | NoSink capture_flush_family

definition ensure :: "bool \<Rightarrow> string \<Rightarrow> unit result" where
  "ensure b message = (if b then Inr () else Inl (InvalidConfig message))"

fun all_ok :: "unit result list \<Rightarrow> unit result" where
  "all_ok [] = Inr ()"
| "all_ok (Inr u # rs) = all_ok rs"
| "all_ok (Inl e # rs) = Inl e"

definition config_checks :: "('i, 'b, 'p, 'd, 'q::{zero, one, linorder}) actor_config \<Rightarrow> unit result list" where
  "config_checks c =
     map lighter_config_validate (ag_lighter c)
     @ [ensure (card (set (map lf_tag (ag_lighter c))) = length (ag_lighter c)) ''duplicate Lighter series'',
        ensure (length (ag_lighter c) \<le> 2) ''at most two Lighter series supported'',
        ensure (ag_lighter c = [] \<or> is_segment_mode (ag_lifecycle c)) ''rolling Lighter capture requires segment mode'',
        ensure ((ag_matched c \<noteq> None) = (ag_inbox c \<noteq> None)) ''MatchedSports config and inbox must be supplied together'']
     @ (case ag_matched c of
          None \<Rightarrow> []
        | Some m \<Rightarrow> [matched_config_validate m,
                     ensure (is_segment_mode (ag_lifecycle c)) ''matched sports capture requires segment mode''])
     @ (case ag_rolling c of
          None \<Rightarrow> []
        | Some r \<Rightarrow> [rolling_config_validate r,
                     ensure (is_segment_mode (ag_lifecycle c)) ''HIP-4 rolling requires segment mode''])"

subsection \<open>Writers\<close>

text \<open>
  The rolling and matched modes discover their instruments at runtime, so their families get a
  writer although the configured plan does not name them.
\<close>

fun actor_writer :: "('i::linorder, 'b, 'p, 'd, 'q) actor_config \<Rightarrow> selector_key list \<Rightarrow> capture_flush_family \<Rightarrow> bool" where
  "actor_writer c keys Instruments = (ff_instruments (family_runtime_flags (ag_plan c)) \<or> keys \<noteq> [] \<or> ag_lighter c \<noteq> []
     \<or> ag_rolling c \<noteq> None \<or> ag_matched c \<noteq> None)"
| "actor_writer c keys CustomData = (needs_generic_custom_data_writer (ag_plan c) \<or> ag_lighter c \<noteq> [])"
| "actor_writer c keys MarkPrices = ff_mark_prices (family_runtime_flags (ag_plan c))"
| "actor_writer c keys IndexPrices = (ff_index_prices (family_runtime_flags (ag_plan c)) \<or> ag_lighter c \<noteq> [])"
| "actor_writer c keys FundingRates = ff_funding_rates (family_runtime_flags (ag_plan c))"
| "actor_writer c keys InstrumentStatus = ff_instrument_statuses (family_runtime_flags (ag_plan c))"
| "actor_writer c keys InstrumentClose = ff_instrument_closes (family_runtime_flags (ag_plan c))"
| "actor_writer c keys OptionGreeks = ff_option_greeks (family_runtime_flags (ag_plan c))"
| "actor_writer c keys Quotes = ff_quotes (family_runtime_flags (ag_plan c))"
| "actor_writer c keys Trades = (ff_trades (family_runtime_flags (ag_plan c)) \<or> ag_lighter c \<noteq> [] \<or> ag_rolling c \<noteq> None
     \<or> ag_matched c \<noteq> None)"
| "actor_writer c keys Bars = ff_bars (family_runtime_flags (ag_plan c))"
| "actor_writer c keys BookDepth = (ff_book_depth (family_runtime_flags (ag_plan c)) \<or> ag_matched c \<noteq> None)"
| "actor_writer c keys BookDeltas = (ff_book_deltas (family_runtime_flags (ag_plan c)) \<or> ag_lighter c \<noteq> []
     \<or> ag_rolling c \<noteq> None \<or> ag_matched c \<noteq> None)"

text \<open>The writers in the order in which they are started.\<close>

definition writer_order :: "capture_flush_family list" where
  "writer_order = [Instruments, CustomData, MarkPrices, IndexPrices, FundingRates, InstrumentStatus, InstrumentClose,
     OptionGreeks, Quotes, Trades, Bars, BookDepth, BookDeltas]"

subsection \<open>The state\<close>

definition initial_actor ::
  "('i, 'p) price_text_env \<Rightarrow> ('i, 'b, 'p, 'd, 'q) actor_config \<Rightarrow> ('i::linorder, 'b, 'p, 'd) actor" where
  "initial_actor te c = \<lparr>
     ac_client_routes = ag_client_routes c, ac_futures_client = ag_futures_client c, ac_initial_plan = ag_plan c,
     ac_supplemental_plan = supplemental_capture_plan (ag_plan c) (ag_options c) (ag_hip4 c), ac_plan = ag_plan c,
     ac_option_universe = map_option (option_manager_new te) (ag_options c),
     ac_hip4_universe = map_option hip4_manager_new (ag_hip4 c),
     ac_rolling = rolling_state_new (ag_rolling c), ac_lighter = lighter_state_new (ag_lighter c),
     ac_matched = matched_state_default, ac_inbox = ag_inbox c,
     ac_forward_targets = btree_extend [] (map sp_instrument (pl_forward_prices (ag_plan c))),
     ac_pending_definitions = [], ac_book_recovery = [], ac_pending = [], ac_live = [], ac_backoff_secs = backoff_start_secs,
     ac_cache = (\<lambda>_. None), ac_timers = (\<lambda>_. None), ac_failure = None, ac_commands = [], ac_calls = 0\<rparr>"

definition actor_new ::
  "('i, 'p) price_text_env \<Rightarrow> (capture_flush_family \<Rightarrow> bool) \<Rightarrow> ('i, 'b, 'p, 'd, 'q::{zero, one, linorder}) actor_config
   \<Rightarrow> new_error + ('i::linorder, 'b, 'p, 'd) actor" where
  "actor_new te starts c =
     (case all_ok (config_checks c) of
        Inl e \<Rightarrow> Inl (BadConfig e)
      | Inr _ \<Rightarrow> (case predict_selector_keys (ag_plan c) of
          Inl e \<Rightarrow> Inl (BadSelector e)
        | Inr keys \<Rightarrow> (case List.find (\<lambda>f. actor_writer c keys f \<and> \<not> starts f) writer_order of
            Some f \<Rightarrow> Inl (NoSink f)
          | None \<Rightarrow> Inr (initial_actor te c))))"

subsection \<open>Every stream has its writer\<close>

lemma all_ok_iff: "all_ok rs = Inr () \<longleftrightarrow> (\<forall>r \<in> set rs. r = Inr ())"
  by (induction rs rule: all_ok.induct) auto

lemma ensure_ok [simp]: "ensure b message = Inr () \<longleftrightarrow> b"
  by (simp add: ensure_def)

text \<open>A family with a stream in the configured plan has a writer; so have those of the three dynamic modes.\<close>

lemma configured_writer:
  assumes "t \<in> plan_topics (ag_plan c)"
  shows "actor_writer c keys (topic_family t)"
proof -
  obtain x where x: "x \<in> plan_specs (ag_plan c)" "topic_of x = Some t" using assms by (auto simp: plan_topics_specs)
  then show ?thesis
    by (cases x) (auto simp: plan_specs_iff family_runtime_flags_def Let_def)
qed

lemma plan_topicE:
  assumes "t \<in> plan_topics p"
  obtains x where "x \<in> plan_specs p" "topic_of x = Some t"
  using assms by (auto simp: plan_topics_specs)

lemma rolling_topics_family:
  assumes "t \<in> plan_topics (rolling_plan h)"
  shows "hv_markets h \<noteq> [] \<and> topic_family t \<in> {Trades, BookDeltas}"
  using assms by (rule plan_topicE) (rename_tac x, case_tac x; auto simp: plan_specs_iff rolling_plan_def empty_plan_def Let_def id_specs_def)

lemma lighter_topics_family:
  assumes "t \<in> plan_topics (lighter_plan l)"
  shows "lw_markets l \<noteq> [] \<and> topic_family t \<in> {Trades, BookDeltas, IndexPrices}"
  using assms by (rule plan_topicE) (rename_tac x, case_tac x; auto simp: plan_specs_iff lighter_plan_def empty_plan_def Let_def id_specs_def)

lemma matched_families:
  "x \<in> plan_specs (foldl matched_outcome_plan p outs) \<Longrightarrow> topic_of x = Some t \<Longrightarrow>
     x \<in> plan_specs p \<or> (outs \<noteq> [] \<and> topic_family t \<in> {Trades, BookDeltas, BookDepth})"
proof (induction outs arbitrary: p)
  case (Cons out outs)
  have "x \<in> plan_specs (matched_outcome_plan p out) \<Longrightarrow> x \<in> plan_specs p \<or> topic_family t \<in> {Trades, BookDeltas, BookDepth}"
    using Cons.prems(2) by (cases x) (auto simp: plan_specs_iff matched_outcome_plan_def Let_def split: if_splits)
  then show ?case using Cons.IH [of "matched_outcome_plan p out"] Cons.prems by auto
qed simp

lemma matched_topics_family:
  assumes "t \<in> plan_topics (matched_plan m)"
  shows "ms_markets m \<noteq> [] \<and> topic_family t \<in> {Trades, BookDeltas, BookDepth}"
  using assms
proof (rule plan_topicE)
  fix x
  assume x: "x \<in> plan_specs (matched_plan m)" "topic_of x = Some t"
  have "x \<notin> plan_specs empty_plan" by (cases x) (simp_all add: plan_specs_iff empty_plan_def)
  then show ?thesis using matched_families [OF x(1) [unfolded matched_plan_def] x(2)] by auto
qed

text \<open>
  The streams of a state that has the configured plan and, besides, only the markets of the modes
  that are configured.
\<close>

definition owns_configured :: "('i, 'b, 'p, 'd, 'q) actor_config \<Rightarrow> ('i, 'b, 'p, 'd) actor \<Rightarrow> bool" where
  "owns_configured c s \<longleftrightarrow> ac_option_universe s = None \<and> ac_hip4_universe s = None \<and> ac_initial_plan s = ag_plan c
     \<and> (ag_rolling c = None \<longrightarrow> hv_markets (ac_rolling s) = []) \<and> (ag_lighter c = [] \<longrightarrow> lw_markets (ac_lighter s) = [])
     \<and> (ag_matched c = None \<longrightarrow> ms_markets (ac_matched s) = [])"

lemma effective_writer:
  assumes "owns_configured c s" "t \<in> plan_topics (actor_effective_plan s)"
  shows "actor_writer c keys (topic_family t)"
proof -
  obtain x where x: "x \<in> plan_specs (actor_effective_plan s)" "topic_of x = Some t" using assms(2) by (rule plan_topicE)
  then have "t \<in> plan_topics (ag_plan c) \<or> t \<in> plan_topics (rolling_plan (ac_rolling s) :: ('a, 'b) capture_plan)
      \<or> t \<in> plan_topics (lighter_plan (ac_lighter s) :: ('a, 'b) capture_plan) \<or> t \<in> plan_topics (matched_plan (ac_matched s) :: ('a, 'b) capture_plan)"
    using assms(1) unfolding plan_specs_effective owns_configured_def plan_topics_specs by auto
  then show ?thesis
    using configured_writer [of t c keys] rolling_topics_family [of t "ac_rolling s"]
      lighter_topics_family [of t "ac_lighter s"] matched_topics_family [of t "ac_matched s"] assms(1)
    unfolding owns_configured_def by (elim disjE) auto
qed


subsection \<open>A small configuration\<close>

definition sample_actor_env :: "(nat, unit) actor_env" where
  "sample_actor_env = \<lparr>ae_call = (\<lambda>_. True), ae_now = (\<lambda>n. n), ae_request_id = (\<lambda>n. n), ae_venue = (\<lambda>_. ''V''),
     ae_symbol = (\<lambda>_. ''S''), ae_bar_instrument = (\<lambda>_. 0), ae_writer = (\<lambda>_. True), ae_count = (\<lambda>_ _ _. 0),
     ae_outcome_ids = (\<lambda>_. []), ae_outcome_asset = (\<lambda>_. ''BTC'')\<rparr>"

definition sample_actor_config :: "(nat, unit, nat, nat, nat) actor_config" where
  "sample_actor_config = \<lparr>ag_lifecycle = default_lifecycle,
     ag_plan = empty_plan\<lparr>pl_quotes := [\<lparr>sp_instrument = 1\<rparr>], pl_book_deltas := [book_deltas_spec 1]\<rparr>,
     ag_options = None, ag_hip4 = None, ag_matched = None, ag_inbox = None, ag_rolling = None, ag_lighter = [],
     ag_client_routes = [], ag_futures_client = None\<rparr>"

definition sample_te :: "(nat, nat) price_text_env" where
  "sample_te = \<lparr>te_iso = show_nat, te_show_id = show_nat, te_show_price = show_nat\<rparr>"

lemma sample_keys: "predict_selector_keys (ag_plan sample_actor_config) = Inr []"
  by (simp add: predict_selector_keys_def sample_actor_config_def empty_plan_def)

lemma sample_actor_new: "actor_new sample_te (\<lambda>_. True) sample_actor_config = Inr (initial_actor sample_te sample_actor_config)"
  using sample_keys
  by (simp add: actor_new_def config_checks_def sample_actor_config_def all_ok_iff [THEN iffD2] writer_order_def ensure_def)


text \<open>The second of three book messages is lost: what follows is a full image in a new part.\<close>

definition lossy_env :: "(nat, unit) actor_env" where
  "lossy_env = sample_actor_env\<lparr>ae_call := (\<lambda>n. n \<noteq> 1)\<rparr>"

definition sample_message :: "bool \<Rightarrow> nat book_message" where
  "sample_message snapshot = \<lparr>bk_instrument = 1, bk_snapshot = snapshot, bk_empty = False, bk_managed = True, bk_affected = None\<rparr>"

lemma lossy_run:
  "book_run lossy_env (map sample_message [False, False, False, False]) (initial_actor sample_te sample_actor_config)
     = [(1, Stored DeltaForm False), (1, Lost), (1, Stored CheckpointForm True), (1, Stored DeltaForm False)]"
  by (simp add: submit_book_delta_batch_def Let_def book_result_of_def note_affected_def accepts_market_data_def lossy_env_def
      sample_actor_env_def sample_message_def initial_actor_def sample_actor_config_def optional_submit_def call_def call_ok_def
      emit_def btree_extend_def btree_remove_def is_hip4_outcome_def rolling_state_new_def lighter_state_new_def lighter_enabled_def)

theorem book_hole_closed_witness:
  "\<exists>c form. 1 \<le> c \<and> c < (3::nat) \<and> form \<noteq> DeltaForm
     \<and> book_run lossy_env (map sample_message [False, False, False, False]) (initial_actor sample_te sample_actor_config) ! c = (1, Stored form True)"
  by (rule book_hole_closed [where sealed = False]) (unfold lossy_run, simp_all add: sample_message_def)

end
