(* ===== verification/Universe_Contract.thy ===== *)
theory Universe_Contract
  imports Universe_Refresh
begin

section \<open>What a universe manager promises\<close>

text \<open>
  The actor uses the two managers in the same way: it asks for a refresh and moves its
  subscriptions by the delta. The interface \<open>plan_manager\<close> has the laws this rests on; both
  managers provide them. The properties are the runs of refreshes, the resolution log they
  write, and the time of the next look at a HIP-4 market.
\<close>

fun refresh_run ::
  "('e \<Rightarrow> 'm \<Rightarrow> ('x + ('i, 'b, 'c, 'r) plan_delta) \<times> 'm) \<Rightarrow> 'e list \<Rightarrow> 'm \<Rightarrow> ('i, 'b, 'c, 'r) plan_delta list \<times> 'm" where
  "refresh_run refresh [] m = ([], m)"
| "refresh_run refresh (e # es) m =
     (let (r, m1) = refresh e m; (ds, m2) = refresh_run refresh es m1
      in ((case r of Inl _ \<Rightarrow> [] | Inr d \<Rightarrow> [d]) @ ds, m2))"

text \<open>A client that drops what a delta removes and takes what it adds.\<close>

definition follow_delta :: "('i, 'b) capture_spec set \<Rightarrow> ('i, 'b, 'c, 'r) plan_delta \<Rightarrow> ('i, 'b) capture_spec set" where
  "follow_delta held d = (held - plan_specs (pd_remove d)) \<union> plan_specs (pd_add d)"

locale plan_manager =
  fixes static_plan :: "'m \<Rightarrow> ('i, 'b) capture_plan"
    and dynamic_plan :: "'m \<Rightarrow> ('i, 'b) capture_plan"
    and refresh :: "'e \<Rightarrow> 'm \<Rightarrow> ('x + ('i, 'b, 'c, 'r) plan_delta) \<times> 'm"
  assumes refresh_returns: "\<exists>d. fst (refresh e m) = Inr d"
    and refresh_static: "static_plan (snd (refresh e m)) = static_plan m"
    and refresh_delta: "fst (refresh e m) = Inr d \<Longrightarrow>
      \<exists>cs rs. d = build_dynamic_plan_delta (dynamic_plan m) (dynamic_plan (snd (refresh e m))) cs rs"
begin

lemma follow_one:
  assumes "fst (refresh e m) = Inr d"
  shows "follow_delta (plan_specs (dynamic_plan m)) d = plan_specs (dynamic_plan (snd (refresh e m)))"
    and "plan_specs (pd_add d) \<inter> plan_specs (pd_remove d) = {}"
proof -
  obtain cs rs where "d = build_dynamic_plan_delta (dynamic_plan m) (dynamic_plan (snd (refresh e m))) cs rs"
    using refresh_delta [OF assms] by blast
  then show "follow_delta (plan_specs (dynamic_plan m)) d = plan_specs (dynamic_plan (snd (refresh e m)))"
    "plan_specs (pd_add d) \<inter> plan_specs (pd_remove d) = {}"
    by (auto simp: follow_delta_def build_dynamic_plan_delta_def)
qed

lemma follow_run:
  "foldl follow_delta (plan_specs (dynamic_plan m)) (fst (refresh_run refresh es m))
     = plan_specs (dynamic_plan (snd (refresh_run refresh es m)))
   \<and> length (fst (refresh_run refresh es m)) = length es
   \<and> static_plan (snd (refresh_run refresh es m)) = static_plan m"
proof (induction es arbitrary: m)
  case Nil
  then show ?case by simp
next
  case (Cons e es)
  obtain d where d: "fst (refresh e m) = Inr d" using refresh_returns by blast
  then obtain m1 where m1: "refresh e m = (Inr d, m1)" by (cases "refresh e m") auto
  obtain ds m2 where run: "refresh_run refresh es m1 = (ds, m2)" by fastforce
  show ?case using Cons.IH [of m1] follow_one(1) [OF d] refresh_static [of e m] by (simp add: m1 run)
qed

end

interpretation hip4_plans: plan_manager hx_static_plan hx_current_dynamic_plan
    "hip4_refresh z :: _ \<Rightarrow> ('i, 'b, 'd) hip4_manager \<Rightarrow> _"
  for z :: "('i::linorder, 'd) hip4_resolver"
proof
  fix e :: "nat \<times> (nat \<Rightarrow> string + json)" and m :: "('i, 'b, 'd) hip4_manager"
  obtain now answers where e: "e = (now, answers)" by fastforce
  obtain acc :: "('i, 'b, 'i hip4_change, hip4_record) refresh_acc" and sts where r0: "hip4_refresh z (now, answers) m =
      (Inr (build_dynamic_plan_delta (hx_current_dynamic_plan m) (ra_next_plan acc) (ra_changes acc) (ra_records acc)),
       m\<lparr>hx_universes := sts, hx_current_dynamic_plan := ra_next_plan acc, hx_last_refresh_failed := ra_failed acc\<rparr>)"
    by (rule hip4_refresh_effect [of z now answers m], rule that)
  note r = r0 [folded e]
  show "\<exists>d. fst (hip4_refresh z e m) = Inr d" "hx_static_plan (snd (hip4_refresh z e m)) = hx_static_plan m"
    by (simp_all add: r)
  show "\<exists>cs rs. d = build_dynamic_plan_delta (hx_current_dynamic_plan m) (hx_current_dynamic_plan (snd (hip4_refresh z e m))) cs rs"
    if "fst (hip4_refresh z e m) = Inr d" for d
    using that by (intro exI [of _ "ra_changes acc"] exI [of _ "ra_records acc"]) (simp add: r)
qed

interpretation option_plans: plan_manager ox_static_plan ox_current_dynamic_plan
    "option_refresh env :: _ \<Rightarrow> ('i, 'b, 'p) option_manager \<Rightarrow> _"
  for env :: "('i::linorder, 'p::linorder, 'f::linorder) option_env"
proof
  fix e :: "nat \<times> ('i, 'p, 'f) market_cache" and m :: "('i, 'b, 'p) option_manager"
  obtain now cache where e: "e = (now, cache)" by fastforce
  obtain acc :: "('i, 'b, 'i option_change, option_record) refresh_acc" and sts where l: "option_refresh_loop env cache now
      (ox_strike_change_confirmations m) (ox_universes m) refresh_acc_empty = (acc, sts)" by fastforce
  have r: "option_refresh env e m =
      (Inr (build_dynamic_plan_delta (ox_current_dynamic_plan m) (ra_next_plan acc) (ra_changes acc) (ra_records acc)),
       m\<lparr>ox_universes := sts, ox_current_dynamic_plan := ra_next_plan acc\<rparr>)"
    by (simp add: e option_refresh_def l)
  show "\<exists>d. fst (option_refresh env e m) = Inr d" "ox_static_plan (snd (option_refresh env e m)) = ox_static_plan m"
    by (simp_all add: r)
  show "\<exists>cs rs. d = build_dynamic_plan_delta (ox_current_dynamic_plan m) (ox_current_dynamic_plan (snd (option_refresh env e m))) cs rs"
    if "fst (option_refresh env e m) = Inr d" for d
    using that by (intro exI [of _ "ra_changes acc"] exI [of _ "ra_records acc"]) (simp add: r)
qed

subsection \<open>Properties\<close>

text \<open>
  C35: following the deltas of a run of refreshes always leads to the current plan, for both
  managers and whatever the venue or the cache answers: a client that starts from the dynamic
  plan and applies every delta holds exactly the specifications of the manager's dynamic plan
  after the run. Every refresh returns a delta, and the static plan never changes.
\<close>

theorem deltas_lead_to_plan:
  "foldl follow_delta (plan_specs (hx_current_dynamic_plan hm)) (fst (refresh_run (hip4_refresh z) hes hm))
     = plan_specs (hx_current_dynamic_plan (snd (refresh_run (hip4_refresh z) hes hm)))
   \<and> length (fst (refresh_run (hip4_refresh z) hes hm)) = length hes
   \<and> hx_static_plan (snd (refresh_run (hip4_refresh z) hes hm)) = hx_static_plan hm
   \<and> foldl follow_delta (plan_specs (ox_current_dynamic_plan om)) (fst (refresh_run (option_refresh env) oes om))
     = plan_specs (ox_current_dynamic_plan (snd (refresh_run (option_refresh env) oes om)))
   \<and> length (fst (refresh_run (option_refresh env) oes om)) = length oes
   \<and> ox_static_plan (snd (refresh_run (option_refresh env) oes om)) = ox_static_plan om"
  using hip4_plans.follow_run [of hm z hes] option_plans.follow_run [of om env oes] by simp


lemma foldl_min_bound:
  "foldl min a xs \<le> a \<and> (\<forall>x \<in> set xs. foldl min a xs \<le> x) \<and> (foldl min a xs = a \<or> foldl min a xs \<in> set xs)"
  for a :: nat
proof (induction xs arbitrary: a)
  case Nil
  then show ?case by simp
next
  case (Cons x xs)
  from Cons.IH [of "min a x"] show ?case by (cases "a \<le> x") (auto simp: min_def)
qed

text \<open>
  the check for the next HIP-4 rotation is in time: it lies in the future, not after the
  expiry of any market that is still open, and not later than the longest poll interval away.
\<close>

theorem rotation_check_in_time:
  assumes "now < u64_max"
  shows "now < next_rotation_check_ns m now
    \<and> list_all (\<lambda>st. universe_expiration st \<le> now \<or> next_rotation_check_ns m now \<le> universe_expiration st) (hx_universes m)
    \<and> next_rotation_check_ns m now \<le> now + max (max (hx_idle_poll_secs m) (hx_active_poll_secs m)) 1 * one_billion"
proof -
  let ?delay = "next_rotation_check_delay_secs m now"
  let ?longest = "max (max (hx_idle_poll_secs m) (hx_active_poll_secs m)) 1"
  let ?open = "filter (\<lambda>e. now < e) (map universe_expiration (hx_universes m))"
  have one: "1 \<le> rotation_delay_for_expiration m now e \<and> rotation_delay_for_expiration m now e \<le> ?longest" for e
  proof (cases e)
    case None
    then show ?thesis by (simp add: rotation_delay_for_expiration_def next_rotation_delay_secs_def Let_def)
  next
    case (Some t)
    show ?thesis
    proof (cases "0 < t")
      case True
      from rotation_delay_bounds [OF this, of now "hx_idle_poll_secs m" "hx_active_poll_secs m" "hx_pre_expiry_window_secs m"]
      show ?thesis unfolding Some rotation_delay_for_expiration_def by linarith
    next
      case False
      then show ?thesis by (simp add: Some rotation_delay_for_expiration_def next_rotation_delay_secs_def Let_def)
    qed
  qed
  have delay: "1 \<le> ?delay \<and> ?delay \<le> ?longest"
  proof (cases "hx_last_refresh_failed m \<or> hx_universes m = []")
    case True
    then show ?thesis using one [of None] by (simp add: next_rotation_check_delay_secs_def)
  next
    case False
    let ?S = "set (map (\<lambda>st. rotation_delay_for_expiration m now (Some (universe_expiration st))) (hx_universes m))"
    have "Min ?S \<in> ?S" using False by (intro Min_in) auto
    then obtain t where "Min ?S = rotation_delay_for_expiration m now (Some t)" by auto
    then show ?thesis using False one [of "Some t"] by (simp add: next_rotation_check_delay_secs_def)
  qed
  have pos: "0 < one_billion" by (simp add: one_billion_def)
  have sched: "now < sat_add now (sat_mul ?delay one_billion)" "sat_add now (sat_mul ?delay one_billion) \<le> now + ?longest * one_billion"
  proof -
    have "0 < sat_mul ?delay one_billion" using delay pos by (simp add: sat_mul_def u64_max_def)
    then show "now < sat_add now (sat_mul ?delay one_billion)" using assms by (simp add: sat_add_def)
    have "sat_mul ?delay one_billion \<le> ?longest * one_billion"
      using delay mult_le_mono1 [of ?delay ?longest one_billion] by (simp add: sat_mul_def min.coboundedI1)
    then show "sat_add now (sat_mul ?delay one_billion) \<le> now + ?longest * one_billion"
      using sat_add_le_sum [of now "sat_mul ?delay one_billion"] by linarith
  qed
  note l = foldl_min_bound [of "sat_add now (sat_mul ?delay one_billion)" ?open]
  have "now < next_rotation_check_ns m now" using l sched(1) unfolding next_rotation_check_ns_def by auto
  moreover have "next_rotation_check_ns m now \<le> now + ?longest * one_billion"
    using l sched(2) unfolding next_rotation_check_ns_def by linarith
  moreover have "universe_expiration st \<le> now \<or> next_rotation_check_ns m now \<le> universe_expiration st" if "st \<in> set (hx_universes m)" for st
    using l that unfolding next_rotation_check_ns_def by (cases "now < universe_expiration st") auto
  ultimately show ?thesis by (simp add: list_all_iff)
qed

subsection \<open>The log a capture writes is the log it accepts\<close>

definition universe_key :: "option_spec \<Rightarrow> string \<times> string" where
  "universe_key spec = (os_venue_id spec, os_underlying spec)"

text \<open>A record a refresh may write for a universe of this specification.\<close>

definition refresh_record_of :: "option_spec \<Rightarrow> option_record \<Rightarrow> bool" where
  "refresh_record_of spec r \<longleftrightarrow> lr_event_kind r = Refresh \<and> record_key r = universe_key spec
     \<and> validate_refresh_record (selection_mode (os_strike_policy spec)) r = Inr ()"

lemma option_change_record:
  assumes "option_change_of te st resolved next_plan = Some (change, r)"
  shows "refresh_record_of (ou_spec st) r"
proof -
  let ?added = "instrument_id_difference (plan_instrument_ids next_plan) (plan_instrument_ids (ou_current_plan st))"
  let ?removed = "instrument_id_difference (plan_instrument_ids (ou_current_plan st)) (plan_instrument_ids next_plan)"
  have ne: "plan_instrument_ids next_plan \<noteq> plan_instrument_ids (ou_current_plan st)"
    and r: "r = option_refresh_record te (ou_spec st) resolved (map (te_show_id te) ?added) (map (te_show_id te) ?removed)
      (compute_refresh_rollover_reason te (ou_last_selected_expiry_ns st) resolved (ou_last_atm_reference st) True
        (selection_mode (os_strike_policy (ou_spec st))))"
    using assms by (auto simp: option_change_of_def Let_def split: if_splits)
  have "map (te_show_id te) ?added \<noteq> [] \<or> map (te_show_id te) ?removed \<noteq> []"
    using instrument_change_nonempty [OF ne] by simp
  then have "validate_refresh_record (selection_mode (os_strike_policy (ou_spec st))) r = Inr ()"
    unfolding r by (rule refresh_record_valid)
  moreover have "lr_event_kind r = Refresh" "record_key r = universe_key (ou_spec st)"
    by (simp_all add: r option_refresh_record_def option_resolution_record_def record_key_def universe_key_def)
  ultimately show ?thesis by (simp add: refresh_record_of_def)
qed

lemma option_one_record:
  "option_refresh_one env cache now required st = (st', change) \<Longrightarrow>
     ou_spec st' = ou_spec st \<and> list_all (\<lambda>(_, r). refresh_record_of (ou_spec st) r) (opt_list change)"
  by (cases change) (auto simp: option_refresh_one_def Let_def opt_list_def dest: option_change_record split: sum.splits prod.splits if_splits)

lemma option_loop_records:
  "option_refresh_loop env cache now required sts acc = (acc', sts') \<Longrightarrow>
     map ou_spec sts' = map ou_spec sts
     \<and> (\<forall>r \<in> set (ra_records acc'). r \<in> set (ra_records acc) \<or> (\<exists>spec \<in> set (map ou_spec sts). refresh_record_of spec r))"
proof (induction sts arbitrary: acc acc' sts')
  case Nil
  then show ?case by simp
next
  case (Cons st sts)
  obtain st1 change where one: "option_refresh_one env cache now required st = (st1, change)" by fastforce
  let ?acc = "refresh_acc_add acc (ou_current_plan st1) change False"
  obtain acc2 sts2 where loop: "option_refresh_loop env cache now required sts ?acc = (acc2, sts2)" by fastforce
  have res: "acc' = acc2" "sts' = st1 # sts2" using Cons.prems one loop by auto
  have "r \<in> set (ra_records acc) \<or> refresh_record_of (ou_spec st) r" if "r \<in> set (ra_records ?acc)" for r
    using that option_one_record [OF one] by (auto simp: refresh_acc_add_def list_all_iff)
  with Cons.IH [OF loop] option_one_record [OF one] show ?case unfolding res by fastforce
qed

definition run_records :: "('i, 'b, 'c, option_record) plan_delta list \<Rightarrow> option_record list" where
  "run_records ds = concat (map pd_resolution_records ds)"

lemma option_run_records:
  "refresh_run (option_refresh env) es m = (ds, m') \<Longrightarrow>
     \<forall>r \<in> set (run_records ds). \<exists>spec \<in> set (map ou_spec (ox_universes m)). refresh_record_of spec r"
proof (induction es arbitrary: m ds m')
  case Nil
  then show ?case by (simp add: run_records_def)
next
  case (Cons e es)
  obtain now cache where e: "e = (now, cache)" by fastforce
  obtain acc sts where loop: "option_refresh_loop env cache now (ox_strike_change_confirmations m) (ox_universes m)
      refresh_acc_empty = (acc, sts)" by fastforce
  let ?m1 = "m\<lparr>ox_universes := sts, ox_current_dynamic_plan := ra_next_plan acc\<rparr>"
  obtain ds2 m2 where run: "refresh_run (option_refresh env) es ?m1 = (ds2, m2)" by fastforce
  have ds: "ds = build_dynamic_plan_delta (ox_current_dynamic_plan m) (ra_next_plan acc) (ra_changes acc) (ra_records acc) # ds2"
    using Cons.prems loop run by (simp add: e option_refresh_def)
  note l = option_loop_records [OF loop]
  have "map ou_spec (ox_universes ?m1) = map ou_spec (ox_universes m)" using l by simp
  with Cons.IH [OF run] l show ?case unfolding ds
    by (simp add: run_records_def build_dynamic_plan_delta_def refresh_acc_empty_def) blast
qed


text \<open>
  A universe without a perpetual has a startup record that the checks of the log refuse, although
  \<open>include_perp\<close> is an option of its specification.
\<close>

lemma startup_without_perpetual_refused:
  assumes "resolve_option_universe fl spec instruments now atm perp metrics = Inr r"
    and "\<not> os_include_perp spec" "ro_option_instrument_ids r \<noteq> []"
  shows "validate_startup_record (option_startup_record te spec r added removed) = Inl MissingPerpInstrument"
  using resolve_parts(4) [OF assms(1)] assms(2,3)
  by (simp add: validate_startup_record_def option_startup_record_def option_resolution_record_def)

subsection \<open>Managers with one universe\<close>

definition sample_hip4_manager :: "(nat, unit, nat) hip4_manager" where
  "sample_hip4_manager = \<lparr>hx_idle_poll_secs = 60, hx_active_poll_secs = 2, hx_pre_expiry_window_secs = 30,
     hx_purge_removed_instruments = True, hx_static_plan = empty_plan, hx_current_dynamic_plan = empty_plan,
     hx_universes = [\<lparr>hu_spec = \<lparr>hs_venue_id = ''H'', hs_underlying = ''BTC'', hs_period = ''1d'', hs_market_class = ''c'',
         hs_include_fallback = False, hs_include_perp_mark = False, hs_families = [HQuotes]\<rparr>,
       hu_current_plan = empty_plan,
       hu_applied_resolved = \<lparr>rh_resolved_at_ns = 0,
         rh_market = \<lparr>hm_question_id = 1, hm_question_name = None, hm_market_class = None, hm_underlying = None,
           hm_period = None, hm_outcome_ids = [], hm_instrument_ids = [], hm_expiration_ns = 7, hm_start_price = None,
           hm_price_thresholds = [], hm_description = []\<rparr>,
         rh_perp_instrument_id = None, rh_outcome_instrument_ids = [], rh_all_instrument_ids = []\<rparr>,
       hu_last_question_id = 1, hu_last_expiration_ns = 7\<rparr>],
     hx_last_refresh_failed = False\<rparr>"

theorem rotation_check_in_time_witness:
  "5 < next_rotation_check_ns sample_hip4_manager 5 \<and> next_rotation_check_ns sample_hip4_manager 5 \<le> 7"
  using rotation_check_in_time [of 5 sample_hip4_manager]
  by (simp add: u64_max_def sample_hip4_manager_def universe_expiration_def)

definition sample_price_text :: "(nat, nat) price_text_env" where
  "sample_price_text = \<lparr>te_iso = show_nat, te_show_id = (\<lambda>i. ''id'' @ show_nat i), te_show_price = show_nat\<rparr>"

definition sample_option_env :: "(nat, nat, nat) option_env" where
  "sample_option_env = \<lparr>oe_floats = sample_floats, oe_price_of_float = (\<lambda>f. f), oe_parse_id = (\<lambda>_. Some 9),
     oe_text = sample_price_text\<rparr>"

definition sample_cache :: "(nat, nat, nat) market_cache" where
  "sample_cache = \<lparr>mc_instruments = (\<lambda>_ _. sample_options), mc_greeks = (\<lambda>_. None), mc_quote_mid = (\<lambda>_. None),
     mc_mark_price = (\<lambda>_. Some 104), mc_index_price = (\<lambda>_. None)\<rparr>"

definition sample_resolved :: "(nat, nat) resolved_options" where
  "sample_resolved = \<lparr>ro_resolved_at_ns = 5, ro_selected_expiry_ns = 50, ro_atm_reference = 90, ro_atm_reference_source = None,
     ro_selected_strikes = [100], ro_perp_instrument_id = Some 9, ro_option_instrument_ids = [1, 2], ro_all_instrument_ids = [1, 2, 9]\<rparr>"

definition sample_option_manager :: "(nat, unit, nat) option_manager" where
  "sample_option_manager = option_manager_new sample_price_text \<lparr>og_refresh_interval_secs = 60,
     og_strike_change_confirmations = 2, og_purge_removed_instruments = True, og_static_plan = empty_plan,
     og_initial_dynamic_plan = empty_plan,
     og_universes = [\<lparr>on_venue = ''DERIBIT'', on_venue_kind = Deribit, on_spec = sample_option_spec,
       on_initial_plan = expand_option_universe sample_option_spec sample_resolved, on_initial_resolved = sample_resolved\<rparr>]\<rparr>"


end
