(* ===== verification/Actor_Universe.thy ===== *)
theory Actor_Universe
  imports Actor_Streams Universe_Contract
begin

section \<open>Universes in the actor\<close>

text \<open>
  The handlers of \<open>actor/lifecycle.rs\<close> that carry a refresh of a universe manager over to the
  subscriptions, and their timers. Appending to the resolution log is a call that can fail; the
  answers of the venue and the market cache of a refresh are arguments.
\<close>

definition option_refresh_timer :: string where "option_refresh_timer = ''OPTION_UNIVERSE_REFRESH''"

definition append_records :: "('i, 'b) actor_env \<Rightarrow> 'r list \<Rightarrow> ('i, 'b, 'p, 'd) actor \<Rightarrow> (unit, ('i, 'b, 'p, 'd) actor) outcome" where
  "append_records env records s = (if records = [] then (Inr (), s) else call env (AppendRecords (length records)) s)"

definition schedule_hip4_universe_refresh ::
  "('i, 'b) actor_env \<Rightarrow> ('i, 'b, 'p, 'd) actor \<Rightarrow> (unit, ('i, 'b, 'p, 'd) actor) outcome" where
  "schedule_hip4_universe_refresh env s =
     (case ac_hip4_universe s of
        None \<Rightarrow> (Inr (), s)
      | Some m \<Rightarrow>
         let (now, s) = read_clock env s;
             at = next_rotation_check_ns m now;
             s = s\<lparr>ac_timers := (ac_timers s)(hip4_refresh_timer := None)\<rparr>
         in case call_ok env s of
              (True, s) \<Rightarrow> (Inr (), s\<lparr>ac_timers := (ac_timers s)(hip4_refresh_timer := Some at)\<rparr>)
            | (False, s) \<Rightarrow> (Inl CallFailed, s))"

text \<open>
  A HIP-4 refresh compares the whole plan before and after, so that another owner of a stream keeps
  it open.
\<close>

definition apply_dynamic_hip4_universe_refresh ::
  "('i::linorder, 'd) hip4_resolver \<Rightarrow> ('i, 'b) actor_env \<Rightarrow> (nat \<Rightarrow> string + json) \<Rightarrow> ('i, 'b, 'p, 'd) actor
   \<Rightarrow> (unit, ('i, 'b, 'p, 'd) actor) outcome" where
  "apply_dynamic_hip4_universe_refresh z env answers s =
     (case ac_hip4_universe s of
        None \<Rightarrow> (Inr (), s)
      | Some m \<Rightarrow>
         let previous_plan = ac_plan s; (now, s) = read_clock env s;
             (r, m) = hip4_refresh z (now, answers) m; s = s\<lparr>ac_hip4_universe := Some m\<rparr>
         in case r of
              Inl e \<Rightarrow> (Inl (RecordError e), s)
            | Inr delta \<Rightarrow> and_then
                (if delta_is_empty delta then (Inr (), s)
                 else and_then (append_records env (pd_resolution_records delta) s) (\<lambda>_ s.
                   let next_plan = actor_effective_plan s
                   in and_then (apply_subscription_delta env (capture_plan_difference next_plan previous_plan)
                                  (capture_plan_difference previous_plan next_plan) s) (\<lambda>_ s.
                      (Inr (), purge_removed (hx_purge_removed_instruments m)
                         (map (\<lambda>c. (hc_perp_instrument_id c, hc_removed_instrument_ids c)) (pd_changes delta)) s))))
                (\<lambda>_ s. schedule_hip4_universe_refresh env s))"

text \<open>An option refresh takes the delta of its manager.\<close>

definition apply_dynamic_option_universe_refresh ::
  "('i::linorder, 'p::linorder, 'f::linorder) option_env \<Rightarrow> ('i, 'b) actor_env \<Rightarrow> ('i, 'p, 'f) market_cache
   \<Rightarrow> ('i, 'b, 'p, 'd) actor \<Rightarrow> (unit, ('i, 'b, 'p, 'd) actor) outcome" where
  "apply_dynamic_option_universe_refresh oe env cache s =
     (case ac_option_universe s of
        None \<Rightarrow> (Inr (), s)
      | Some m \<Rightarrow>
         let (now, s) = read_clock env s;
             (r, m) = option_refresh oe (now, cache) m; s = s\<lparr>ac_option_universe := Some m\<rparr>
         in case r of
              Inl e \<Rightarrow> (Inl (RecordError e), s)
            | Inr delta \<Rightarrow>
                if delta_is_empty delta then (Inr (), s)
                else and_then (append_records env (pd_resolution_records delta) s) (\<lambda>_ s.
                     and_then (apply_subscription_delta env (pd_add delta) (pd_remove delta) s) (\<lambda>_ s.
                      (Inr (), purge_removed (ox_purge_removed_instruments m)
                         (map (\<lambda>c. (oc_perp_instrument_id c, oc_removed_instrument_ids c)) (pd_changes delta)) s))))"

text \<open>The timer of the HIP-4 refresh is one shot; a failed refresh arms it again before its error is kept.\<close>

definition on_hip4_timer ::
  "('i::linorder, 'd) hip4_resolver \<Rightarrow> ('i, 'b) actor_env \<Rightarrow> (nat \<Rightarrow> string + json) \<Rightarrow> ('i, 'b, 'p, 'd) actor
   \<Rightarrow> (unit, ('i, 'b, 'p, 'd) actor) outcome" where
  "on_hip4_timer z env answers s =
     (let s = s\<lparr>ac_timers := (ac_timers s)(hip4_refresh_timer := None)\<rparr>;
          (refresh, s) = apply_dynamic_hip4_universe_refresh z env answers s
      in and_then (if isl refresh then schedule_hip4_universe_refresh env s else (Inr (), s)) (\<lambda>_ s.
           record_capture_result (refresh, s)))"

definition on_pending_timer :: "('i::linorder, 'b) actor_env \<Rightarrow> ('i, 'b, 'p, 'd) actor \<Rightarrow> (unit, ('i, 'b, 'p, 'd) actor) outcome" where
  "on_pending_timer env s = retry_pending_market_data env (cancel_pending_timer s)"

subsection \<open>The invariant\<close>

lemma quiet_append: "quiet s (snd (append_records env records s))"
  by (simp add: append_records_def quiet_call)

lemma schedule_hip4_ok:
  fixes s :: "('i::linorder, 'b, 'p, 'd) actor" and env :: "('i, 'b) actor_env"
  defines "s' \<equiv> snd (schedule_hip4_universe_refresh env s)"
  shows "streams_ok env s' = streams_ok env s" "steady s s'" "tracked s' = tracked s" "armed s' = armed s"
    "ac_cache s' = ac_cache s" "calls_ok env \<Longrightarrow> fst (schedule_hip4_universe_refresh env s) = Inr ()"
  unfolding s'_def
  by (auto simp: schedule_hip4_universe_refresh_def read_clock_def call_ok_def Let_def streams_ok_def open_topics_def
      steady_def actor_effective_plan_def is_matched_def fun_eq_iff tracked_def armed_def pending_timer_def
      hip4_refresh_timer_def calls_ok_def owned_core_def split: option.split bool.split)

lemma purge_removed_ok:
  fixes s :: "('i::linorder, 'b, 'p, 'd) actor" and changes :: "('i option \<times> 'i list) list" and b :: bool
  assumes ok: "streams_ok env s"
  defines "s' \<equiv> purge_removed b changes s" and "kept \<equiv> set (planned_instrument_ids (ac_plan s))"
    and "gone \<equiv> {i. b \<and> (\<exists>(perp, ids) \<in> set changes. i \<in> set ids \<and> Some i \<noteq> perp)}"
  shows "streams_ok env s' \<and> tracked s' = tracked s - (gone - kept)
    \<and> (\<forall>i. ac_cache s' i = (if i \<in> gone - kept then None else ac_cache s i))
    \<and> ac_plan s' = ac_plan s \<and> actor_effective_plan s' = actor_effective_plan s
    \<and> ac_hip4_universe s' = ac_hip4_universe s \<and> ac_option_universe s' = ac_option_universe s \<and> ac_inbox s' = ac_inbox s
    \<and> owned_core s' = owned_core s \<and> (armed s \<longrightarrow> armed s')"
proof (cases b)
  case False
  then show ?thesis using ok by (simp add: s'_def purge_removed_def gone_def)
next
  case True
  define f :: "('i, 'b, 'p, 'd) actor \<Rightarrow> 'i list \<Rightarrow> ('i, 'b, 'p, 'd) actor" where
    "f = foldl (\<lambda>s i. if i \<in> kept then s else purge_instrument_from_cache i s)"
  have main: "streams_ok env (f s is) \<and> tracked (f s is) = tracked s - (set is - kept)
    \<and> (\<forall>i. ac_cache (f s is) i = (if i \<in> set is - kept then None else ac_cache s i))
    \<and> ac_plan (f s is) = ac_plan s \<and> actor_effective_plan (f s is) = actor_effective_plan s
    \<and> ac_hip4_universe (f s is) = ac_hip4_universe s \<and> ac_option_universe (f s is) = ac_option_universe s
    \<and> ac_inbox (f s is) = ac_inbox s \<and> owned_core (f s is) = owned_core s \<and> (armed s \<longrightarrow> armed (f s is))"
    if "streams_ok env s" "kept = set (planned_instrument_ids (ac_plan s))" for s :: "('i, 'b, 'p, 'd) actor" and "is"
    using that
  proof (induction "is" arbitrary: s)
    case Nil
    then show ?case by (simp add: f_def)
  next
    case (Cons i "is")
    show ?case
    proof (cases "i \<in> kept")
      case True
      then have "f s (i # is) = f s is" by (simp add: f_def)
      then show ?thesis using Cons.IH [OF Cons.prems] True by auto
    next
      case False
      define s1 where "s1 = purge_instrument_from_cache i s"
      have e: "f s (i # is) = f s1 is" using False by (simp add: f_def s1_def)
      have one: "streams_ok env s1" "tracked s1 = tracked s - {i}" "ac_cache s1 = (ac_cache s)(i := None)"
        "ac_plan s1 = ac_plan s" "actor_effective_plan s1 = actor_effective_plan s"
        "ac_hip4_universe s1 = ac_hip4_universe s" "ac_option_universe s1 = ac_option_universe s" "ac_inbox s1 = ac_inbox s"
        "owned_core s1 = owned_core s" "armed s \<longrightarrow> armed s1"
        using purge_effect [OF Cons.prems(1), of i, folded s1_def] False Cons.prems(2) by auto
      have "kept = set (planned_instrument_ids (ac_plan s1))" using Cons.prems(2) one(4) by simp
      note ih = Cons.IH [OF one(1) this]
      then show ?thesis unfolding e using one False by auto
    qed
  qed
  let ?ids = "btree_extend [] (concat (map (\<lambda>(perp, ids). filter (\<lambda>i. Some i \<noteq> perp) ids) changes))"
  have "s' = f s ?ids" using True by (simp add: s'_def purge_removed_def Let_def f_def kept_def)
  moreover have "set ?ids = gone" using True by (auto simp: gone_def)
  ultimately show ?thesis using main [OF ok, of ?ids] by (simp add: kept_def)
qed

lemma covered_after:
  assumes "covered s" "tracked s - (set (planned_instrument_ids remove) - set (planned_instrument_ids p)) \<subseteq> T"
    and "set (planned_instrument_ids add) \<subseteq> T" and "plan_specs p - plan_specs (ac_plan s) \<subseteq> plan_specs add"
  shows "set (planned_instrument_ids p) \<subseteq> T"
proof
  fix i
  assume i: "i \<in> set (planned_instrument_ids p)"
  then obtain x where x: "x \<in> plan_specs p" "spec_instrument x = Some i" by (auto simp: planned_iff_spec)
  show "i \<in> T"
  proof (cases "x \<in> plan_specs (ac_plan s)")
    case True
    then have "i \<in> set (planned_instrument_ids (ac_plan s))" using x by (auto simp: planned_iff_spec)
    then have "i \<in> tracked s" using assms(1) by (auto simp: covered_def)
    then show ?thesis using assms(2) i by blast
  next
    case False
    then have "x \<in> plan_specs add" using x assms(4) by blast
    then have "i \<in> set (planned_instrument_ids add)" using x by (auto simp: planned_iff_spec)
    then show ?thesis using assms(3) by blast
  qed
qed

text \<open>The common part of both refreshes: follow a delta, then purge.\<close>

definition follow_refresh where
  "follow_refresh env records add remove b changes s =
     and_then (append_records env records s) (\<lambda>_ s. and_then (apply_subscription_delta env add remove s) (\<lambda>_ s.
       (Inr (), purge_removed b changes s)))"

lemma follow_refresh_ok:
  fixes s :: "('i::linorder, 'b, 'p, 'd) actor" and env :: "('i, 'b) actor_env" and records :: "'r list"
    and add remove :: "('i, 'b) capture_plan" and b :: bool and changes :: "('i option \<times> 'i list) list"
  assumes ok: "streams_ok env s"
    and universe: "ac_hip4_universe s \<noteq> None \<or> ac_option_universe s \<noteq> None"
    and covers: "plan_topics (ac_plan s) \<subseteq> plan_topics remove \<union> plan_topics (actor_effective_plan s)"
    and adds: "plan_specs (actor_effective_plan s) - plan_specs (ac_plan s) \<subseteq> plan_specs add"
  defines "r \<equiv> follow_refresh env records add remove b changes s"
  shows "streams_ok env (snd r) \<and> ac_hip4_universe (snd r) = ac_hip4_universe s
    \<and> ac_option_universe (snd r) = ac_option_universe s \<and> ac_inbox (snd r) = ac_inbox s
    \<and> owned_core (snd r) = owned_core s \<and> actor_effective_plan (snd r) = actor_effective_plan s
    \<and> (isl (fst r) \<or> ac_plan (snd r) = actor_effective_plan s \<and> (covered s \<longrightarrow> covered (snd r)))
    \<and> (calls_ok env \<longrightarrow> armed s \<longrightarrow> armed (snd r))"
proof -
  define a where "a = append_records env records s"
  have qa: "quiet s (snd a)" by (simp add: a_def quiet_append)
  note oka = streams_ok_quiet [OF qa ok]
  have sta: "actor_effective_plan (snd a) = actor_effective_plan s" "ac_plan (snd a) = ac_plan s"
    "ac_hip4_universe (snd a) = ac_hip4_universe s" "ac_option_universe (snd a) = ac_option_universe s"
    "ac_inbox (snd a) = ac_inbox s" "owned_core (snd a) = owned_core s" "tracked (snd a) = tracked s" "armed (snd a) = armed s"
    using quiet_steady [OF qa] quiet_tracked [OF qa] by (simp_all add: steady_def)
  show ?thesis
  proof (cases "fst a")
    case (Inl e)
    then have "r = (Inl e, snd a)" by (simp add: r_def follow_refresh_def a_def [symmetric] and_then_def split_beta)
    then show ?thesis using oka sta by simp
  next
    case (Inr u)
    define m where "m = apply_subscription_delta env add remove (snd a)"
    have "ac_hip4_universe (snd a) \<noteq> None \<or> ac_option_universe (snd a) \<noteq> None" using universe sta by simp
    note d = delta_ok [OF oka this, of remove add, folded m_def, unfolded sta, OF covers]
    have r: "r = and_then m (\<lambda>_ s. (Inr (), purge_removed b changes s))"
      by (simp add: r_def follow_refresh_def a_def [symmetric] and_then_Inr [OF Inr] m_def)
    show ?thesis
    proof (cases "fst m")
      case (Inl e)
      then have "r = (Inl e, snd m)" by (simp add: r and_then_def split_beta)
      then show ?thesis using d by simp
    next
      case (Inr u)
      then have r: "r = (Inr (), purge_removed b changes (snd m))" by (simp add: r and_then_Inr)
      have okm: "streams_ok env (snd m)" using d by blast
      note p = purge_removed_ok [OF okm, of b changes]
      have plan: "ac_plan (snd m) = actor_effective_plan s" "set (planned_instrument_ids add) \<subseteq> tracked (snd m)"
        using d Inr by simp_all
      have "covered (snd (and_then m (\<lambda>_ s. (Inr (), purge_removed b changes s))))" if "covered s"
      proof -
        have "covered (snd a)" using that sta by (simp add: covered_def)
        then have "set (planned_instrument_ids (actor_effective_plan s)) \<subseteq> tracked (snd m)"
          using covered_after [of "snd a" remove "actor_effective_plan s" "tracked (snd m)" add] d plan adds sta by simp
        then show ?thesis using p plan Inr by (auto simp: covered_def and_then_Inr)
      qed
      then show ?thesis using p d plan Inr by (simp add: r and_then_Inr)
    qed
  qed
qed

lemma owned_universe:
  "owned_core (s\<lparr>ac_calls := n, ac_hip4_universe := h\<rparr>) = owned_core s"
  "owned_core (s\<lparr>ac_calls := n, ac_option_universe := x\<rparr>) = owned_core s"
  by (simp_all add: owned_core_def)

lemma streams_ok_universe:
  "streams_ok env (s\<lparr>ac_calls := n, ac_hip4_universe := h\<rparr>) = streams_ok env s"
  "streams_ok env (s\<lparr>ac_calls := n, ac_option_universe := x\<rparr>) = streams_ok env s"
  by (simp_all add: streams_ok_def open_topics_def)

lemma hip4_refresh_ok:
  fixes s :: "('i::linorder, 'b, 'p, 'd) actor" and env :: "('i, 'b) actor_env" and z :: "('i, 'd) hip4_resolver"
    and answers :: "nat \<Rightarrow> string + json"
  assumes ok: "streams_ok env s"
  defines "r \<equiv> apply_dynamic_hip4_universe_refresh z env answers s"
  shows "streams_ok env (snd r) \<and> ac_option_universe (snd r) = ac_option_universe s \<and> owned_core (snd r) = owned_core s
    \<and> (in_step s \<longrightarrow> isl (fst r) \<or> in_step (snd r) \<and> (covered s \<longrightarrow> covered (snd r)))
    \<and> (calls_ok env \<longrightarrow> armed s \<longrightarrow> armed (snd r))"
proof (cases "ac_hip4_universe s")
  case None
  then show ?thesis using ok by (simp add: r_def apply_dynamic_hip4_universe_refresh_def)
next
  case (Some m)
  let ?now = "ae_now env (ac_calls s)"
  obtain d where d: "fst (hip4_refresh z (?now, answers) m) = Inr d" using hip4_plans.refresh_returns by blast
  define m' where "m' = snd (hip4_refresh z (?now, answers) m)"
  have hm: "hip4_refresh z (?now, answers) m = (Inr d, m')" using d by (simp add: m'_def prod_eq_iff)
  obtain cs rs where delta: "d = build_dynamic_plan_delta (hx_current_dynamic_plan m) (hx_current_dynamic_plan m') cs rs"
    using hip4_plans.refresh_delta [OF d] by (auto simp: m'_def)
  have static: "hx_static_plan m' = hx_static_plan m" by (simp add: m'_def hip4_plans.refresh_static)
  let ?s = "s\<lparr>ac_calls := Suc (ac_calls s), ac_hip4_universe := Some m'\<rparr>"
  have oks: "streams_ok env ?s" using ok by (simp add: streams_ok_universe)
  let ?changes = "map (\<lambda>c. (hc_perp_instrument_id c, hc_removed_instrument_ids c)) (pd_changes d)"
  let ?next = "actor_effective_plan ?s"
  define f where "f = (if delta_is_empty d then (Inr (), ?s)
    else follow_refresh env (pd_resolution_records d) (capture_plan_difference ?next (ac_plan s))
           (capture_plan_difference (ac_plan s) ?next) (hx_purge_removed_instruments m') ?changes ?s)"
  have app: "ac_plan ?s = ac_plan s" by simp
  have same: "actor_effective_plan (snd (append_records env rs ?s)) = ?next" for rs :: "hip4_record list"
    using quiet_ids(1) [OF quiet_append] .
  have fr: "and_then (append_records env rs ?s) (\<lambda>_ s. and_then (apply_subscription_delta env
         (capture_plan_difference (actor_effective_plan s) p) (capture_plan_difference p (actor_effective_plan s)) s) k)
      = and_then (append_records env rs ?s) (\<lambda>_ s. and_then (apply_subscription_delta env
         (capture_plan_difference ?next p) (capture_plan_difference p ?next) s) k)"
    for rs :: "hip4_record list" and p k
    using same [of rs] by (cases "append_records env rs ?s") (simp add: and_then_def split: sum.split)
  have r: "r = and_then f (\<lambda>_ s. schedule_hip4_universe_refresh env s)"
    by (simp add: r_def apply_dynamic_hip4_universe_refresh_def Some read_clock_def hm Let_def f_def follow_refresh_def fr)
  have main: "streams_ok env (snd f) \<and> ac_option_universe (snd f) = ac_option_universe s \<and> owned_core (snd f) = owned_core s
    \<and> (in_step s \<longrightarrow> isl (fst f) \<or> in_step (snd f) \<and> (covered s \<longrightarrow> covered (snd f)))
    \<and> (calls_ok env \<longrightarrow> armed s \<longrightarrow> armed (snd f))"
  proof (cases "delta_is_empty d")
    case True
    then have "plan_specs (hx_current_dynamic_plan m) = plan_specs (hx_current_dynamic_plan m')"
      by (auto simp: delta delta_is_empty_def build_dynamic_plan_delta_def plan_is_empty_specs)
    then have "plan_specs ?next = plan_specs (actor_effective_plan s)"
      by (simp add: plan_specs_effective Some hip4_active_plan_def static split: option.split)
    then show ?thesis using oks True by (simp add: f_def in_step_def covered_def tracked_def armed_def owned_universe)
  next
    case False
    note fol = follow_refresh_ok [OF oks, of "capture_plan_difference (ac_plan s) ?next" "capture_plan_difference ?next (ac_plan s)"
        "pd_resolution_records d" "hx_purge_removed_instruments m'" ?changes]
    have "plan_topics (ac_plan ?s) \<subseteq> plan_topics (capture_plan_difference (ac_plan s) ?next) \<union> plan_topics ?next"
      by (auto simp: plan_topics_specs)
    with fol show ?thesis
      using False by (auto simp: f_def in_step_def covered_def tracked_def armed_def owned_universe)
  qed
  show ?thesis
  proof (cases "fst f")
    case (Inl e)
    then have "r = (Inl e, snd f)" by (simp add: r and_then_def split_beta)
    then show ?thesis using main by simp
  next
    case (Inr u)
    then have "r = schedule_hip4_universe_refresh env (snd f)" by (simp add: r and_then_Inr)
    then show ?thesis
      using main Inr schedule_hip4_ok [where s="snd f" and env=env] by (auto simp: steady_def in_step_def covered_def)
  qed
qed

lemma option_refresh_ok:
  fixes s :: "('i::linorder, 'b, 'p::linorder, 'd) actor" and env :: "('i, 'b) actor_env"
    and oe :: "('i, 'p, 'f::linorder) option_env" and cache :: "('i, 'p, 'f) market_cache"
  assumes ok: "streams_ok env s" and step: "in_step s"
  defines "r \<equiv> apply_dynamic_option_universe_refresh oe env cache s"
  shows "streams_ok env (snd r) \<and> owned_core (snd r) = owned_core s \<and> (isl (fst r) \<or> in_step (snd r) \<and> (covered s \<longrightarrow> covered (snd r)))
    \<and> (calls_ok env \<longrightarrow> armed s \<longrightarrow> armed (snd r))"
proof (cases "ac_option_universe s")
  case None
  then show ?thesis using ok step by (simp add: r_def apply_dynamic_option_universe_refresh_def)
next
  case (Some m)
  let ?now = "ae_now env (ac_calls s)"
  obtain d where d: "fst (option_refresh oe (?now, cache) m) = Inr d" using option_plans.refresh_returns by blast
  define m' where "m' = snd (option_refresh oe (?now, cache) m)"
  have hm: "option_refresh oe (?now, cache) m = (Inr d, m')" using d by (simp add: m'_def prod_eq_iff)
  obtain cs rs where delta: "d = build_dynamic_plan_delta (ox_current_dynamic_plan m) (ox_current_dynamic_plan m') cs rs"
    using option_plans.refresh_delta [OF d] by (auto simp: m'_def)
  have static: "ox_static_plan m' = ox_static_plan m" by (simp add: m'_def option_plans.refresh_static)
  let ?s = "s\<lparr>ac_calls := Suc (ac_calls s), ac_option_universe := Some m'\<rparr>"
  have oks: "streams_ok env ?s" using ok by (simp add: streams_ok_universe)
  let ?changes = "map (\<lambda>c. (oc_perp_instrument_id c, oc_removed_instrument_ids c)) (pd_changes d)"
  have r: "r = (if delta_is_empty d then (Inr (), ?s)
    else follow_refresh env (pd_resolution_records d) (pd_add d) (pd_remove d) (ox_purge_removed_instruments m') ?changes ?s)"
    by (simp add: r_def apply_dynamic_option_universe_refresh_def Some read_clock_def hm Let_def follow_refresh_def)
  have specs: "plan_specs (pd_remove d) = plan_specs (ox_current_dynamic_plan m) - plan_specs (ox_current_dynamic_plan m')"
    "plan_specs (pd_add d) = plan_specs (ox_current_dynamic_plan m') - plan_specs (ox_current_dynamic_plan m)"
    by (simp_all add: delta build_dynamic_plan_delta_def)
  have eff: "plan_specs (ac_plan s) - plan_specs (pd_remove d) \<subseteq> plan_specs (actor_effective_plan ?s)"
    "plan_specs (actor_effective_plan ?s) - plan_specs (ac_plan s) \<subseteq> plan_specs (pd_add d)"
    using step unfolding in_step_def plan_specs_effective specs
    by (auto simp: Some option_active_plan_def static split: option.splits)
  show ?thesis
  proof (cases "delta_is_empty d")
    case True
    then have "plan_specs (pd_remove d) = {}" "plan_specs (pd_add d) = {}"
      by (simp_all add: delta_is_empty_def plan_is_empty_specs)
    then show ?thesis using oks True eff by (auto simp: r in_step_def covered_def tracked_def armed_def owned_universe)
  next
    case False
    have c: "plan_topics (ac_plan ?s) \<subseteq> plan_topics (pd_remove d) \<union> plan_topics (actor_effective_plan ?s)"
      using eff(1) by (auto simp: plan_topics_specs)
    have a: "plan_specs (actor_effective_plan ?s) - plan_specs (ac_plan ?s) \<subseteq> plan_specs (pd_add d)" using eff(2) by simp
    show ?thesis
      using follow_refresh_ok [OF oks _ c a, of "pd_resolution_records d" "ox_purge_removed_instruments m'" ?changes] False
      by (auto simp: r in_step_def covered_def tracked_def armed_def owned_universe)
  qed
qed

end
