(* ===== verification/Actor_Run.thy ===== *)
theory Actor_Run
  imports Actor_Universe Actor_Lighter Actor_Incumbents Actor_New
begin

section \<open>A run of the actor\<close>

text \<open>
  The callbacks of \<open>actor/lifecycle.rs\<close> as one transition per event, composed from the handlers of
  the other theories, and the states that a run reaches. The order of the events is arbitrary.
  Sealing and the export of the metrics leave the state alone that is modelled here; the timers of
  the polling jobs have their own theory.
\<close>

subsection \<open>Callbacks\<close>

record ('i, 'b, 'p, 'd, 'f, 't, 'q) capture_env =
  ce_actor :: "('i, 'b) actor_env"
  ce_hip4 :: "('i, 'd) hip4_resolver"
  ce_options :: "('i, 'p, 'f) option_env"
  ce_api :: "'t hip4_env"
  ce_parse :: "json \<Rightarrow> nat \<Rightarrow> 'i definition_record list option"
  ce_matched :: "'q matched_config option"

text \<open>Nautilus stores a definition in its cache before it hands it to the actor.\<close>

definition arrive :: "'i definition_record \<Rightarrow> ('i, 'b, 'p, 'd) actor \<Rightarrow> ('i, 'b, 'p, 'd) actor" where
  "arrive inst s = s\<lparr>ac_cache := (ac_cache s)(nd_id inst \<mapsto> inst)\<rparr>"

definition instrument_arrived ::
  "('i::linorder, 'b) actor_env \<Rightarrow> 'i definition_record \<Rightarrow> ('i, 'b, 'p, 'd) actor \<Rightarrow> (unit, ('i, 'b, 'p, 'd) actor) outcome" where
  "instrument_arrived env inst s = on_instrument env inst (arrive inst s)"

text \<open>
  An answer to a request for instruments; its errors are only logged. The answer to the request of
  the rolling capture, recognized by its correlation id, clears that request and is restricted to the
  planned instruments. The answer to a Lighter request has its own handler.
\<close>

definition take_instruments ::
  "('i::linorder, 'b) actor_env \<Rightarrow> ('i \<Rightarrow> bool) \<Rightarrow> 'i definition_record list \<Rightarrow> ('i, 'b, 'p, 'd) actor \<Rightarrow> ('i, 'b, 'p, 'd) actor" where
  "take_instruments env select insts s =
     foldl (\<lambda>s inst. if select (nd_id inst) then snd (on_instrument env inst s) else s) (foldl (\<lambda>s inst. arrive inst s) s insts) insts"

definition handle_rolling_instruments ::
  "('i::linorder, 'b) actor_env \<Rightarrow> nat \<Rightarrow> 'i definition_record list \<Rightarrow> ('i, 'b, 'p, 'd) actor \<Rightarrow> ('i, 'b, 'p, 'd) actor" where
  "handle_rolling_instruments env correlation insts s =
     (let h = ac_rolling s;
          h = (case hv_instrument_request h of
                 Some (i, _) \<Rightarrow> if i = correlation then h\<lparr>hv_instrument_request := None\<rparr> else h
               | None \<Rightarrow> h);
          selected = planned_instrument_ids (ac_plan s)
      in take_instruments env (\<lambda>i. i \<in> set selected) insts (set_rolling h s))"

definition handle_instruments_response ::
  "('i::linorder, 'b) actor_env \<Rightarrow> bool \<Rightarrow> bool \<Rightarrow> nat \<Rightarrow> string + 'i definition_record list \<Rightarrow> ('i, 'b, 'p, 'd) actor \<Rightarrow> ('i, 'b, 'p, 'd) actor" where
  "handle_instruments_response env rolling updown correlation answer s =
     (let insts = (case answer of Inr insts \<Rightarrow> insts | Inl _ \<Rightarrow> [])
      in if rolling then handle_rolling_instruments env correlation insts s
         else if lw_pending (ac_lighter s) = Some correlation then snd (apply_lighter_response env answer s)
         else if \<not> updown then take_instruments env (\<lambda>_. True) insts s
         else s)"

text \<open>
  The flags of a message of book deltas: whether it begins with a clear and ends with the last flag,
  whether any of its deltas is of a snapshot, and whether the managed book has an uncrossed top.
\<close>

definition on_book_deltas ::
  "'q matched_config option \<Rightarrow> ('i::linorder, 'b) actor_env \<Rightarrow> 'i book_message \<Rightarrow> bool \<Rightarrow> bool \<Rightarrow> bool \<Rightarrow> bool
   \<Rightarrow> ('i, 'b, 'p, 'd) actor \<Rightarrow> (unit, ('i, 'b, 'p, 'd) actor) outcome" where
  "on_book_deltas config env b clears lasts part usable s =
     and_then (record_capture_result (submit_book_delta_batch env b s)) (\<lambda>_ s.
     and_then (record_capture_result (observe_hip4_rolling env (bk_instrument b) (bk_snapshot b) clears lasts s)) (\<lambda>_ s.
       observe_matched_sports config env (bk_instrument b) part usable s))"

definition on_book_depth ::
  "'q matched_config option \<Rightarrow> ('i::linorder, 'b) actor_env \<Rightarrow> bool \<Rightarrow> 'i \<Rightarrow> bool \<Rightarrow> ('i, 'b, 'p, 'd) actor \<Rightarrow> (unit, ('i, 'b, 'p, 'd) actor) outcome" where
  "on_book_depth config env native i usable s =
     and_then (record_capture_result (submit_market_data env native (DepthTopic i) s)) (\<lambda>_ s.
       observe_matched_sports config env i True usable s)"

definition on_market_data ::
  "('i, 'b) actor_env \<Rightarrow> bool \<Rightarrow> ('i, 'b) topic \<Rightarrow> ('i, 'b, 'p, 'd) actor \<Rightarrow> (unit, ('i, 'b, 'p, 'd) actor) outcome" where
  "on_market_data env native t s = record_capture_result (submit_market_data env native t s)"

text \<open>The Lighter timer arms itself again whether or not its refresh fails; the first error is kept.\<close>

definition on_lighter_timer :: "('i::linorder, 'b) actor_env \<Rightarrow> ('i, 'b, 'p, 'd) actor \<Rightarrow> (unit, ('i, 'b, 'p, 'd) actor) outcome" where
  "on_lighter_timer env s =
     (let (refresh, s) = refresh_lighter env s; (schedule, s) = schedule_lighter env s
      in record_capture_result (case refresh of Inl e \<Rightarrow> Inl e | Inr _ \<Rightarrow> schedule, s))"

subsection \<open>The start\<close>

definition start_option_timer :: "('i, 'b) actor_env \<Rightarrow> ('i, 'b, 'p, 'd) actor \<Rightarrow> (unit, ('i, 'b, 'p, 'd) actor) outcome" where
  "start_option_timer env s =
     (case ac_option_universe s of
        None \<Rightarrow> (Inr (), s)
      | Some m \<Rightarrow> (case call_ok env s of
            (True, s) \<Rightarrow> (Inr (), s\<lparr>ac_timers := (ac_timers s)(option_refresh_timer :=
               Some (ox_refresh_interval_secs m * 1000000000 mod 2 ^ 64))\<rparr>)
          | (False, s) \<Rightarrow> (Inl CallFailed, s)))"

definition on_start ::
  "('i::linorder, 'b, 'p, 'd, 'f, 't, 'q) capture_env \<Rightarrow> (string + json) option \<Rightarrow> ('i, 'b, 'p, 'd) actor
   \<Rightarrow> (unit, ('i, 'b, 'p, 'd) actor) outcome" where
  "on_start ce answer s =
     (let env = ce_actor ce
      in and_then (bootstrap_instruments env s) (\<lambda>_ s.
         and_then (let s = sync_plan_state s in subscribe_plan env (ac_plan s) s) (\<lambda>_ s.
         and_then (start_option_timer env s) (\<lambda>_ s.
         and_then (schedule_hip4_universe_refresh env s) (\<lambda>_ s.
         and_then (refresh_lighter env s) (\<lambda>_ s.
         and_then (schedule_lighter env s) (\<lambda>_ s.
         and_then (start_matched_sports env s) (\<lambda>_ s.
           start_hip4_rolling (ce_api ce) (ce_parse ce) env answer s))))))))"

subsection \<open>Events\<close>

datatype ('i, 'b, 'p, 'f) event =
    InstrumentArrived "'i definition_record"
  | InstrumentsAnswered bool bool nat "string + 'i definition_record list"
  | MarketDataArrived bool "('i, 'b) topic"
  | BookDeltasArrived "'i book_message" bool bool bool bool
  | BookDepthArrived bool 'i bool
  | PendingTimer
  | Hip4Timer "nat \<Rightarrow> string + json"
  | OptionTimer "('i, 'p, 'f) market_cache"
  | RollingTimer "(string + json) option"
  | MatchedTimer
  | MatchedDiscovered nat "string + 'i matched_universe"
  | LighterTimer
  | DefinitionTimer "'i list option" "'i list"

fun handle ::
  "('i::linorder, 'b, 'p::linorder, 'd, 'f::linorder, 't, 'q) capture_env \<Rightarrow> ('i, 'b, 'p, 'f) event \<Rightarrow> ('i, 'b, 'p, 'd) actor
   \<Rightarrow> (unit, ('i, 'b, 'p, 'd) actor) outcome" where
  "handle ce (InstrumentArrived inst) s = instrument_arrived (ce_actor ce) inst s"
| "handle ce (InstrumentsAnswered rolling updown correlation answer) s =
     (Inr (), handle_instruments_response (ce_actor ce) rolling updown correlation answer s)"
| "handle ce (MarketDataArrived native t) s = on_market_data (ce_actor ce) native t s"
| "handle ce (BookDeltasArrived b clears lasts part usable) s = on_book_deltas (ce_matched ce) (ce_actor ce) b clears lasts part usable s"
| "handle ce (BookDepthArrived native i usable) s = on_book_depth (ce_matched ce) (ce_actor ce) native i usable s"
| "handle ce PendingTimer s = on_pending_timer (ce_actor ce) s"
| "handle ce (Hip4Timer answers) s = on_hip4_timer (ce_hip4 ce) (ce_actor ce) answers s"
| "handle ce (OptionTimer cache) s = apply_dynamic_option_universe_refresh (ce_options ce) (ce_actor ce) cache s"
| "handle ce (RollingTimer answer) s = record_capture_result (refresh_hip4_rolling (ce_api ce) (ce_parse ce) (ce_actor ce) answer s)"
| "handle ce MatchedTimer s = record_capture_result (refresh_matched_sports (ce_matched ce) (ce_actor ce) s)"
| "handle ce (MatchedDiscovered generation answer) s =
     (Inr (), s\<lparr>ac_inbox := map_option (inbox_publish generation answer) (ac_inbox s)\<rparr>)"
| "handle ce LighterTimer s = on_lighter_timer (ce_actor ce) s"
| "handle ce (DefinitionTimer affected predict) s = record_capture_result (retry_instrument_definitions (ce_actor ce) affected predict s)"

text \<open>
  A run: the actor is started, and its callbacks return without an error; an error of a Lighter
  answer, which the code only logs, ends the run as well. The Lighter timer is assumed to find no
  retiring market planned again: its release asks only the message bus.
\<close>

definition enabled ::
  "('i::linorder, 'b, 'p, 'd, 'f, 't, 'q) capture_env \<Rightarrow> ('i, 'b, 'p, 'f) event \<Rightarrow> ('i, 'b, 'p, 'd) actor \<Rightarrow> bool" where
  "enabled ce e s =
     (case e of
        LighterTimer \<Rightarrow> list_all (\<lambda>p. \<not> planned s (fst p)) (lw_retiring (ac_lighter s))
      | InstrumentsAnswered rolling updown correlation answer \<Rightarrow>
          rolling \<or> lw_pending (ac_lighter s) \<noteq> Some correlation \<or> \<not> isl (fst (apply_lighter_response (ce_actor ce) answer s))
      | _ \<Rightarrow> True)"

inductive reaches ::
  "('i::linorder, 'b, 'p::linorder, 'd, 'f::linorder, 't, 'q) capture_env \<Rightarrow> ('i, 'b, 'p, 'd) actor \<Rightarrow> ('i, 'b, 'p, 'd) actor \<Rightarrow> bool"
  for ce s0 where
  start: "on_start ce answer s0 = (Inr (), s) \<Longrightarrow> reaches ce s0 s"
| event: "reaches ce s0 s \<Longrightarrow> enabled ce e s \<Longrightarrow> handle ce e s = (Inr (), s') \<Longrightarrow> reaches ce s0 s'"

subsection \<open>What each callback keeps\<close>

lemma still_arrive: "still s (arrive inst s)"
  by (auto simp: still_def arrive_def open_topics_def effective_parts base_specs_def)

lemma cached_arrive: "ac_cache (arrive inst s) (nd_id inst) \<noteq> None" "dom (ac_cache s) \<subseteq> dom (ac_cache (arrive inst s))"
  by (auto simp: arrive_def)

lemma instrument_arrived_keeps: "good env s \<Longrightarrow> keeps env s (instrument_arrived env inst s)"
  unfolding instrument_arrived_def by (rule keeps_from [OF still_arrive], assumption, rule keeps_on_instrument [OF _ cached_arrive(1)])

lemma on_instrument_advances:
  assumes "good env s" "ac_cache s (nd_id inst) \<noteq> None"
  shows "advances env s (x, snd (on_instrument env inst s)) \<and> dom (ac_cache s) \<subseteq> dom (ac_cache (snd (on_instrument env inst s)))"
  using on_instrument_ok [of env s inst] assms owned_ok_core [of "snd (on_instrument env inst s)" s env]
  by (auto simp: advances_def good_def in_step_def steady_def)

lemma take_instruments_advances:
  fixes s :: "('i::linorder, 'b, 'p, 'd) actor" and insts :: "'i definition_record list"
  assumes "good env s"
  shows "advances env s (Inr (), take_instruments env select insts s)"
proof -
  let ?f = "foldl (\<lambda>s inst. arrive inst s)"
  have cached: "still s (?f s is) \<and> nd_id ` set is \<subseteq> dom (ac_cache (?f s is))" for "is" and s :: "('i, 'b, 'p, 'd) actor"
  proof (induction "is" arbitrary: s)
    case (Cons d "is")
    have "still s (?f (arrive d s) is)" using still_trans [OF still_arrive] Cons.IH by blast
    moreover have "nd_id d \<in> dom (ac_cache (?f (arrive d s) is))"
      using Cons.IH [of "arrive d s"] cached_arrive(1) [of d s] unfolding still_def by blast
    ultimately show ?case using Cons.IH [of "arrive d s"] by simp
  qed simp
  have rest: "advances env t (Inr (), foldl (\<lambda>s inst. if select (nd_id inst) then snd (on_instrument env inst s) else s) t is)"
    if "good env t" "nd_id ` set is \<subseteq> dom (ac_cache t)" for "is" and t :: "('i, 'b, 'p, 'd) actor"
    using that
  proof (induction "is" arbitrary: t)
    case (Cons d "is")
    let ?t = "if select (nd_id d) then snd (on_instrument env d t) else t"
    have "ac_cache t (nd_id d) \<noteq> None" using Cons.prems(2) by auto
    then have one: "advances env t (Inr (), ?t) \<and> dom (ac_cache t) \<subseteq> dom (ac_cache ?t)"
      using on_instrument_advances [OF Cons.prems(1), of d "Inr ()"] Cons.prems(1) by simp
    then have "good env ?t" "nd_id ` set is \<subseteq> dom (ac_cache ?t)" using Cons.prems(2) advances_good by fastforce+
    from advances_state [OF one [THEN conjunct1] Cons.IH [OF this]] show ?case by simp
  qed simp
  show ?thesis unfolding take_instruments_def
    by (rule advances_from [OF _ assms rest]) (use cached [of s insts] in auto)
qed

lemma rolling_instruments_advances:
  assumes "good env s"
  shows "advances env s (Inr (), handle_rolling_instruments env correlation insts s)"
  unfolding handle_rolling_instruments_def Let_def
  by (rule advances_from [OF still_rolling assms take_instruments_advances]) (simp split: option.split)

lemma instruments_response_keeps:
  assumes "good env s" "enabled ce (InstrumentsAnswered rolling updown correlation answer) s" "env = ce_actor ce"
  shows "keeps env s (Inr (), handle_instruments_response env rolling updown correlation answer s)"
proof -
  have "keeps env s (Inr (), snd (apply_lighter_response env answer s))"
    if "\<not> isl (fst (apply_lighter_response env answer s))"
    using apply_lighter_response_keeps [OF assms(1), of answer] that by (simp add: keeps_def)
  then show ?thesis
    using assms rolling_instruments_advances [OF assms(1)] take_instruments_advances [OF assms(1)]
    by (auto simp: handle_instruments_response_def enabled_def Let_def advances_keeps)
qed

lemma record_result_keeps:
  assumes "keeps env s m"
  shows "keeps env s (record_capture_result m)"
proof -
  have "keeps env s (fst m, (snd m)\<lparr>ac_failure := f\<rparr>)" for f
    using assms by (auto simp: keeps_def good_def in_step_def covered_def armed_def tracked_def streams_ok_def open_topics_def
        effective_parts base_specs_def owned_ok_def)
  then show ?thesis using assms by (cases m) (auto simp: record_capture_result_def split: sum.split)
qed

lemma market_data_keeps: "good env s \<Longrightarrow> keeps env s (on_market_data env native t s)"
  unfolding on_market_data_def
  by (rule record_result_keeps, rule advances_keeps, rule quiet_advances [OF quiet_submit_market_data])

lemma book_deltas_keeps:
  assumes "good env s"
  shows "keeps env s (on_book_deltas config env b clears lasts part usable s)"
  unfolding on_book_deltas_def
  by (rule keeps_and_then [OF record_result_keeps], rule advances_keeps, rule quiet_advances [OF quiet_book_batch assms],
      rule keeps_and_then [OF record_result_keeps], rule observe_rolling_keeps, assumption, rule observe_matched_keeps)

lemma book_depth_keeps:
  assumes "good env s"
  shows "keeps env s (on_book_depth config env native i usable s)"
  unfolding on_book_depth_def
  by (rule keeps_and_then [OF record_result_keeps], rule advances_keeps, rule quiet_advances [OF quiet_submit_market_data assms],
      rule observe_matched_keeps)

lemma pending_timer_keeps:
  assumes "good env s"
  shows "keeps env s (on_pending_timer env s)"
proof -
  let ?s = "cancel_pending_timer s"
  have ok: "streams_ok env ?s" using assms by (simp add: cancel_pending_timer_def streams_ok_update good_def)
  have same: "tracked ?s = tracked s" "ac_plan ?s = ac_plan s" "owned_core ?s = owned_core s"
    "actor_effective_plan ?s = actor_effective_plan s"
    using steady_update(2) [of s] by (simp_all add: cancel_pending_timer_def tracked_def steady_def)
  show ?thesis
    using retry_pending_ok [OF ok] same assms owned_ok_core [of "snd (retry_pending_market_data env ?s)" s env]
    by (auto simp: on_pending_timer_def keeps_def good_def in_step_def steady_def covered_def)
qed

lemma hip4_timer_keeps:
  fixes s :: "('i::linorder, 'b, 'p, 'd) actor"
  assumes g: "good env s"
  shows "keeps env s (on_hip4_timer z env answers s)"
proof -
  let ?s = "s\<lparr>ac_timers := (ac_timers s)(hip4_refresh_timer := None)\<rparr>"
  have st: "still s ?s"
    by (simp add: still_def open_topics_def effective_parts base_specs_def hip4_refresh_timer_def pending_timer_def)
  have gs: "good env ?s" by (rule still_good [OF st g])
  obtain x t where r: "apply_dynamic_hip4_universe_refresh z env answers ?s = (x, t)" by fastforce
  have ok: "streams_ok env ?s" "in_step ?s" "owned_ok env ?s" using gs by (simp_all add: good_def)
  note h = hip4_refresh_ok [OF ok(1), of z answers, unfolded r fst_conv snd_conv]
  have owned: "owned_ok env t" using h ok(3) owned_ok_core [of t ?s env] by simp
  have k: "keeps env ?s (x, t)" using h ok owned by (auto simp: keeps_def good_def)
  show ?thesis
  proof (rule keeps_from [OF st g])
    show "keeps env ?s (on_hip4_timer z env answers s)"
    proof (cases x)
      case (Inr u)
      then show ?thesis using record_result_keeps [OF k] by (simp add: on_hip4_timer_def Let_def r and_then_def)
    next
      case (Inl e)
      define m where "m = schedule_hip4_universe_refresh env t"
      note f = schedule_hip4_ok [where s = t and env = env, folded m_def]
      have "keeps env ?s (Inl e :: actor_error + unit, snd m)" using k f by (simp add: keeps_def)
      moreover have "keeps env ?s (Inl e' :: actor_error + unit, snd m)" for e' using k f by (simp add: keeps_def)
      ultimately show ?thesis
        using record_result_keeps [of env ?s "(Inl e, snd m)"]
        by (cases m) (auto simp: on_hip4_timer_def Let_def r Inl m_def [symmetric] and_then_def split: sum.split)
    qed
  qed
qed

lemma option_timer_keeps:
  fixes s :: "('i::linorder, 'b, 'p::linorder, 'd) actor"
  assumes g: "good env s"
  shows "keeps env s (apply_dynamic_option_universe_refresh oe env cache s)"
proof -
  have ok: "streams_ok env s" "in_step s" "owned_ok env s" using g by (simp_all add: good_def)
  show ?thesis
    using option_refresh_ok [OF ok(1,2), of oe cache] ok(3)
      owned_ok_core [of "snd (apply_dynamic_option_universe_refresh oe env cache s)" s env]
    by (auto simp: keeps_def good_def)
qed

lemma still_streams: "still s s' \<Longrightarrow> streams_ok env s \<Longrightarrow> streams_ok env s'"
  unfolding still_def streams_ok_def by (metis subset_trans)

lemma still_armed: "still s s' \<Longrightarrow> armed s' = armed s"
  by (simp add: still_def armed_def)

lemma lighter_timer_keeps:
  assumes g: "good env s" and e: "enabled ce LighterTimer s"
  shows "keeps env s (on_lighter_timer env s)"
proof -
  obtain x t where r: "refresh_lighter env s = (x, t)" by fastforce
  obtain y u where sch: "schedule_lighter env t = (y, u)" by fastforce
  have k: "keeps env s (x, t)" using refresh_lighter_keeps [OF g] e unfolding r by (simp add: enabled_def list_all_iff)
  have st: "still t u" using schedule_lighter_still [of t env] sch by simp
  have "keeps env s (case x of Inl e \<Rightarrow> Inl e | Inr _ \<Rightarrow> y, u)"
  proof (cases x)
    case (Inl e)
    then show ?thesis using k still_streams [OF st, of env] still_armed [OF st] by (simp add: keeps_def)
  next
    case (Inr v)
    then have "good env t" using k by (simp add: keeps_def)
    then have "keeps env t (y, u)" using st by (intro advances_keeps still_advances) simp_all
    then have "keeps env s (and_then (x, t) (\<lambda>_ s. (y, u)))" using k Inr by (intro keeps_and_then) simp_all
    then show ?thesis by (simp add: Inr and_then_def)
  qed
  then show ?thesis unfolding on_lighter_timer_def Let_def r sch prod.case by (rule record_result_keeps)
qed

lemma handle_keeps:
  assumes "venue_names (ce_parse ce) (ce_actor ce)" "good (ce_actor ce) s" "enabled ce e s"
  shows "keeps (ce_actor ce) s (handle ce e s)"
  using assms(2,3)
proof (cases e)
  case (MatchedDiscovered generation answer)
  have "still s (s\<lparr>ac_inbox := map_option (inbox_publish generation answer) (ac_inbox s)\<rparr>)" by (rule still_inbox)
  then show ?thesis using assms(2) MatchedDiscovered by (simp add: advances_keeps still_advances)
qed (simp_all add: instrument_arrived_keeps instruments_response_keeps market_data_keeps book_deltas_keeps book_depth_keeps
    pending_timer_keeps hip4_timer_keeps option_timer_keeps record_result_keeps refresh_rolling_keeps [OF assms(1)]
    refresh_matched_keeps lighter_timer_keeps advances_keeps quiet_advances [OF quiet_retry_definitions])

subsection \<open>The start leaves the actor good\<close>

definition untouched :: "('i, 'b, 'p, 'd) actor \<Rightarrow> bool" where
  "untouched s \<longleftrightarrow> ac_commands s = [] \<and> ac_live s = [] \<and> ac_pending s = [] \<and> hv_markets (ac_rolling s) = []
     \<and> lw_markets (ac_lighter s) = [] \<and> lw_retiring (ac_lighter s) = []"

lemma initial_untouched: "untouched (initial_actor te c)"
  by (simp add: untouched_def initial_actor_def rolling_state_new_def lighter_state_new_def)

lemma new_untouched: "actor_new te starts c = Inr s \<Longrightarrow> untouched s"
  using initial_untouched [of te c] by (auto simp: actor_new_def split: sum.splits option.splits)

lemma lighter_emits: "ac_lighter (foldl (\<lambda>s x. emit (f s x) s) s xs) = ac_lighter s"
  by (induction xs arbitrary: s) (simp_all add: emit_def)

lemma lighter_subscribe: "ac_lighter (subscribe_market_data_for_instrument env i s) = ac_lighter s"
  by (simp add: subscribe_market_data_for_instrument_def Let_def lighter_emits)

lemma lighter_admit: "ac_lighter (snd (foldl (\<lambda>ds i. admit_stream env i ds) ds is)) = ac_lighter (snd ds)"
proof (induction "is" arbitrary: ds)
  case (Cons i "is")
  have "ac_lighter (snd (admit_stream env i ds)) = ac_lighter (snd ds)"
    by (cases ds) (simp add: admit_stream_def lighter_subscribe)
  then show ?case using Cons.IH [of "admit_stream env i ds"] by simp
qed simp

lemma lighter_schedule_retry: "ac_lighter (schedule_pending_market_data_retry env s) = ac_lighter s"
  by (auto simp: schedule_pending_market_data_retry_def cancel_pending_timer_def read_clock_def call_ok_def Let_def split: bool.split)

lemma lighter_subscribe_plan:
  fixes s :: "('i::linorder, 'b, 'p, 'd) actor"
  shows "ac_lighter (snd (subscribe_plan env p s)) = ac_lighter s"
proof (cases "predict_selector_keys p")
  case (Inl e)
  then show ?thesis by (simp add: subscribe_plan_def lighter_emits)
next
  case (Inr keys)
  define s1 where "s1 = foldl (\<lambda>s c. emit (SubscribeData (cd_data_type c) (data_client_id s (cd_data_type c))) s) s (pl_custom_data p)"
  define s2 where "s2 = foldl (\<lambda>s k. emit (SubscribeData (predict_dynamic_output_data_type k) None) s) s1 keys"
  define s3 where "s3 = (if keys \<noteq> [] then emit (SubscribeInstruments ''PREDICT'') s2 else s2)"
  obtain d s4 where f: "foldl (\<lambda>ds i. admit_stream env i ds) (False, s3) (planned_instrument_ids p) = (d, s4)" by fastforce
  have "ac_lighter s1 = ac_lighter s" unfolding s1_def by (rule lighter_emits)
  moreover have "ac_lighter s2 = ac_lighter s1" unfolding s2_def by (rule lighter_emits)
  moreover have "ac_lighter s3 = ac_lighter s2" by (simp add: s3_def emit_def)
  moreover have "ac_lighter s4 = ac_lighter s3"
    using lighter_admit [of env "(False, s3)" "planned_instrument_ids p"] by (simp add: f)
  ultimately show ?thesis
    by (simp add: subscribe_plan_def Inr s1_def [symmetric] s2_def [symmetric] s3_def [symmetric] f lighter_schedule_retry)
qed

lemma start_option_still: "still s (snd (start_option_timer env s))" "ac_lighter (snd (start_option_timer env s)) = ac_lighter s"
  by (auto simp: start_option_timer_def call_ok_def still_def open_topics_def effective_parts base_specs_def
      option_refresh_timer_def pending_timer_def split: option.split bool.split)

lemma schedule_hip4_still:
  "still s (snd (schedule_hip4_universe_refresh env s))" "ac_lighter (snd (schedule_hip4_universe_refresh env s)) = ac_lighter s"
  by (auto simp: schedule_hip4_universe_refresh_def read_clock_def call_ok_def Let_def still_def open_topics_def effective_parts
      base_specs_def hip4_refresh_timer_def pending_timer_def split: option.split bool.split)

lemma start_rest_keeps:
  assumes names: "venue_names (ce_parse ce) (ce_actor ce)" and g: "good (ce_actor ce) s" and r: "lw_retiring (ac_lighter s) = []"
  defines "env \<equiv> ce_actor ce"
  shows "keeps env s (and_then (start_option_timer env s) (\<lambda>_ s.
         and_then (schedule_hip4_universe_refresh env s) (\<lambda>_ s.
         and_then (refresh_lighter env s) (\<lambda>_ s.
         and_then (schedule_lighter env s) (\<lambda>_ s.
         and_then (start_matched_sports env s) (\<lambda>_ s.
           start_hip4_rolling (ce_api ce) (ce_parse ce) env answer s))))))"
proof -
  have late: "keeps env t (and_then (refresh_lighter env t) (\<lambda>_ s.
         and_then (schedule_lighter env s) (\<lambda>_ s.
         and_then (start_matched_sports env s) (\<lambda>_ s.
           start_hip4_rolling (ce_api ce) (ce_parse ce) env answer s))))"
    if "good env t" "lw_retiring (ac_lighter t) = []" for t
    by (rule keeps_and_then [OF refresh_lighter_keeps], rule that(1), simp add: that(2),
        rule advances_then [OF schedule_lighter_advances], assumption,
        rule keeps_and_then [OF start_matched_keeps], assumption, rule start_rolling_keeps [OF names [folded env_def]])
  let ?t = "snd (start_option_timer env s)"
  let ?u = "snd (schedule_hip4_universe_refresh env ?t)"
  have gt: "good env ?t" by (rule still_good [OF start_option_still(1) g [folded env_def]])
  have gu: "good env ?u" by (rule still_good [OF schedule_hip4_still(1) gt])
  have fin: "keeps env ?u (and_then (refresh_lighter env ?u) (\<lambda>_ s.
         and_then (schedule_lighter env s) (\<lambda>_ s.
         and_then (start_matched_sports env s) (\<lambda>_ s.
           start_hip4_rolling (ce_api ce) (ce_parse ce) env answer s))))"
    by (rule late [OF gu]) (simp add: r start_option_still(2) schedule_hip4_still(2))
  show ?thesis
    by (rule advances_then, rule still_advances [OF start_option_still(1) g [folded env_def]],
        rule advances_then, rule still_advances [OF schedule_hip4_still(1)], assumption, rule fin)
qed

lemma start_keeps:
  fixes s0 :: "('i::linorder, 'b, 'p::linorder, 'd) actor" and ce :: "('i, 'b, 'p, 'd, 'f::linorder, 't, 'q) capture_env"
    and answer :: "(string + json) option"
  assumes names: "venue_names (ce_parse ce) (ce_actor ce)" and u: "untouched s0"
  defines "env \<equiv> ce_actor ce" and "r \<equiv> on_start ce answer s0"
  shows "streams_ok env (snd r) \<and> (isl (fst r) \<or> good env (snd r) \<and> covered (snd r)) \<and> (calls_ok env \<longrightarrow> armed (snd r))"
proof -
  define m where "m = bootstrap_instruments env s0"
  have q: "quiet s0 (snd m)" unfolding m_def bootstrap_instruments_def by (intro quiet_each_ok quiet_bootstrap)
  have o: "open_topics (snd m) = {}" "ac_live (snd m) = []" "ac_pending (snd m) = []" "ac_lighter (snd m) = ac_lighter s0"
    "hv_markets (ac_rolling (snd m)) = []"
    using q u by (simp_all add: quiet_def stream_core_def untouched_def) (simp add: open_topics_def)
  then have ok: "streams_ok env (snd m)" "armed (snd m)" by (simp_all add: streams_ok_def armed_def)
  show ?thesis
  proof (cases "fst m")
    case (Inl e)
    then have "r = (Inl e, snd m)" by (simp add: r_def on_start_def m_def [symmetric] env_def [symmetric] Let_def and_then_def split_beta)
    then show ?thesis using ok by simp
  next
    case (Inr v)
    let ?s = "sync_plan_state (snd m)"
    define n where "n = subscribe_plan env (ac_plan ?s) ?s"
    have g: "good env ?s"
      using o u by (simp add: good_def streams_ok_def in_step_def owned_ok_def sync_fields rolling_wf_def lighter_wf_def untouched_def btree_map_def)
    have a: "advances env ?s n" unfolding n_def by (rule advances_subscribe_plan [OF g])
    have cov: "isl (fst n) \<or> covered (snd n)"
      using subscribe_plan_ok [of env ?s "ac_plan ?s"] g a by (auto simp: n_def covered_def good_def advances_def)
    have ar: "calls_ok env \<Longrightarrow> armed (snd n)" using a ok(2) by (simp add: advances_def sync_fields)
    have lw: "lw_retiring (ac_lighter (snd n)) = []"
      using u o(4) by (simp add: n_def lighter_subscribe_plan sync_fields untouched_def)
    note rest = start_rest_keeps [OF names, folded env_def, OF advances_good [OF a] lw, of answer]
    have r: "r = and_then n (\<lambda>_ s. and_then (start_option_timer env s) (\<lambda>_ s.
         and_then (schedule_hip4_universe_refresh env s) (\<lambda>_ s.
         and_then (refresh_lighter env s) (\<lambda>_ s.
         and_then (schedule_lighter env s) (\<lambda>_ s.
         and_then (start_matched_sports env s) (\<lambda>_ s.
           start_hip4_rolling (ce_api ce) (ce_parse ce) env answer s))))))"
      unfolding r_def on_start_def Let_def env_def [symmetric] m_def [symmetric] and_then_Inr [OF Inr] n_def ..
    show ?thesis
    proof (cases "fst n")
      case (Inl e)
      then have "r = (Inl e, snd n)" by (simp add: r and_then_def split_beta)
      then show ?thesis using advances_good [OF a] ar by (simp add: good_def)
    next
      case (Inr w)
      show ?thesis using rest cov ar Inr unfolding r and_then_Inr [OF Inr] by (auto simp: keeps_def)
    qed
  qed
qed

text \<open>What holds of every state of a run.\<close>

lemma reaches_good:
  assumes "reaches ce s0 s" and names: "venue_names (ce_parse ce) (ce_actor ce)" and u: "untouched s0"
  shows "good (ce_actor ce) s \<and> covered s \<and> (calls_ok (ce_actor ce) \<longrightarrow> armed s)"
  using assms(1)
proof induction
  case (start answer s)
  then show ?case using start_keeps [OF names u, of answer] by simp
next
  case (event s e s')
  then show ?case using handle_keeps [OF names, of s e] by (simp add: keeps_def)
qed

subsection \<open>What a run guarantees\<close>




subsection \<open>A small run\<close>

definition sample_capture :: "(nat, unit, nat, nat, nat, nat, nat) capture_env" where
  "sample_capture = \<lparr>ce_actor = sample_actor_env,
     ce_hip4 = \<lparr>hz_env = sample_hip4_env, hz_parse_id = (\<lambda>_. None), hz_text = \<lparr>te_iso = show_nat, te_show_id = show_nat\<rparr>\<rparr>,
     ce_options = sample_option_env, ce_api = sample_hip4_env, ce_parse = (\<lambda>_ _. None), ce_matched = None\<rparr>"

definition sample_started :: "(nat, unit, nat, nat) actor" where
  "sample_started = snd (on_start sample_capture None (initial_actor sample_te sample_actor_config))"

lemma sample_planned: "planned_instrument_ids (ag_plan sample_actor_config) = [1]"
  by (simp add: planned_instrument_ids_def extend_planned_instrument_ids_def sample_actor_config_def empty_plan_def
      btree_extend_def book_deltas_spec_def)

lemma sample_fields:
  "ac_plan (initial_actor te c) = ag_plan c" "ac_cache (initial_actor te c) = (\<lambda>_. None)"
  "ac_calls (initial_actor te c) = 0" "ac_commands (initial_actor te c) = []" "ac_live (initial_actor te c) = []"
  "ac_pending (initial_actor te c) = []"
  by (simp_all add: initial_actor_def)

definition sample_booted :: "(nat, unit, nat, nat) actor" where
  "sample_booted = (initial_actor sample_te sample_actor_config)
     \<lparr>ac_calls := 1, ac_commands := [RequestInstrument 1 None, SubscribeInstrument 1 None]\<rparr>"

lemma sample_boots:
  "bootstrap_instruments sample_actor_env (initial_actor sample_te sample_actor_config) = (Inr (), sample_booted)"
  by (simp add: bootstrap_instruments_def sample_fields sample_planned bootstrap_instrument_def and_then_def call_def call_ok_def
      emit_def Let_def market_data_client_id_def rolling_definition_def is_matched_def sample_actor_env_def sample_booted_def)
    (simp add: initial_actor_def rolling_state_new_def matched_state_default_def sample_actor_config_def matched_ids_def)

lemma sample_effective: "actor_effective_plan sample_booted = ag_plan sample_actor_config"
  by (simp add: actor_effective_plan_def sample_booted_def initial_actor_def sample_actor_config_def effective_capture_plan_def
      rolling_plan_def lighter_plan_def matched_plan_def rolling_state_new_def lighter_state_new_def matched_state_default_def
      merge_capture_plans_def extend_unique_def Let_def empty_plan_def id_specs_def)

lemma sample_start:
  obtains s where "on_start sample_capture None (initial_actor sample_te sample_actor_config) = (Inr (), s)"
    "ac_cache s = (\<lambda>_. None)" "ac_plan s = ag_plan sample_actor_config"
proof -
  let ?s = "sync_plan_state sample_booted"
  have "fst (subscribe_plan sample_actor_env (ac_plan ?s) ?s) = Inr ()"
    using sample_keys by (simp add: subscribe_plan_def sync_fields sample_effective split: prod.split)
  then obtain s2 where s2: "subscribe_plan sample_actor_env (ac_plan ?s) ?s = (Inr (), s2)" by (metis prod.collapse)
  have "steady ?s s2" using steady_subscribe_plan [of ?s sample_actor_env "ac_plan ?s"] s2 by simp
  then have f: "ac_inbox s2 = None" "ac_hip4_universe s2 = None" "ac_option_universe s2 = None" "hv_config (ac_rolling s2) = None"
    "lw_configs (ac_lighter s2) = []" "ac_plan s2 = ag_plan sample_actor_config"
    by (auto simp: steady_def sync_fields sample_effective owned_core_def)
      (auto simp: sample_booted_def initial_actor_def sample_actor_config_def rolling_state_new_def lighter_state_new_def)
  have o: "open_topics sample_booted = {}" by (simp add: open_topics_def sample_booted_def topic_step_def)
  have "streams_ok sample_actor_env ?s" unfolding streams_ok_def sync_fields o
    by (simp add: sample_booted_def initial_actor_def)
  then have c: "ac_cache s2 = (\<lambda>_. None)"
    using subscribe_plan_ok [of sample_actor_env ?s "ac_plan ?s"] s2
    by (simp add: sync_fields sample_booted_def initial_actor_def)
  have "on_start sample_capture None (initial_actor sample_te sample_actor_config) = (Inr (), s2)"
    using sample_boots s2 f
    by (simp add: on_start_def sample_capture_def and_then_def Let_def start_option_timer_def schedule_hip4_universe_refresh_def
        refresh_lighter_def schedule_lighter_def lighter_enabled_def start_matched_sports_def start_hip4_rolling_def)
  then show thesis using c f(6) by (rule that)
qed

lemma sample_names: "venue_names (ce_parse sample_capture) (ce_actor sample_capture)"
  by (simp add: venue_names_def sample_capture_def)

lemma sample_cached_none: "set (ac_live s) \<subseteq> dom (ac_cache s) \<Longrightarrow> ac_cache s = (\<lambda>_. None) \<Longrightarrow> ac_live s = []"
  by auto




subsection \<open>Small states of the rolling and matched modes\<close>

theorem waiting_definition_kept_witness:
  "1 \<in> set (ac_pending_definitions (snd (retry_instrument_definitions lossy_env None []
        ((initial_actor sample_te sample_actor_config)\<lparr>ac_pending_definitions := [1]\<rparr>))))
    \<or> (\<exists>d. nd_id d = 1 \<and> SubmitDefinition d \<in> set
        (ac_commands (snd (retry_instrument_definitions lossy_env None []
          ((initial_actor sample_te sample_actor_config)\<lparr>ac_pending_definitions := [1]\<rparr>)))))"
  using waiting_definition_kept [of 1 "(initial_actor sample_te sample_actor_config)\<lparr>ac_pending_definitions := [1]\<rparr>" lossy_env None "[]"]
  by (simp add: sample_fields)

definition sample_recording :: "nat \<Rightarrow> nat recording" where
  "sample_recording k = \<lparr>rg_market = \<lparr>rm_outcome = k, rm_underlying = ''BTC'', rm_end_ns = 100, rm_raw = JNull\<rparr>, rg_definitions = []\<rparr>"

definition sample_rolling :: "(nat, unit, nat, nat) actor" where
  "sample_rolling = (initial_actor sample_te sample_actor_config)\<lparr>ac_rolling :=
     (rolling_state_new (Some \<lparr>rc_venue_id = ''H'', rc_underlyings = [''BTC''], rc_retry_secs = 5\<rparr>))
       \<lparr>hv_series := [(''BTC'', \<lparr>sr_current = Some 7, sr_pending = Some 8, sr_retry_after = 0\<rparr>)],
        hv_markets := [(7, sample_recording 7), (8, sample_recording 8)]\<rparr>\<rparr>"

lemma sample_series_ok: "series_ok sample_actor_env sample_rolling"
  by (auto simp: series_ok_def series_wf_def sample_rolling_def sample_actor_env_def btree_map_def referenced_def split: if_splits)

theorem rolling_handover_safe_witness:
  "fst (reconcile_hip4_rolling sample_actor_env sample_rolling) \<noteq> Inl ActorPanic"
  using rolling_handover_safe [OF sample_series_ok, of "''BTC''"] by (simp add: sample_rolling_def)


definition sample_matched_config :: "nat matched_config" where
  "sample_matched_config = matched_config_default (\<lambda>a _. a)"

definition sample_market :: "nat matched_market" where
  "sample_market = \<lparr>mk_event_slug = ''e'', mk_predict_market_id = 7, mk_polymarket_condition_id = ''c'', mk_game_number = None,
     mk_rules = [], mk_outcomes = (\<lparr>mo_predict_index_set = 1, mo_predict_label = ''a'', mo_polymarket_label = ''a'',
        mo_predict_instrument = 1, mo_polymarket_instrument = 2\<rparr>, \<lparr>mo_predict_index_set = 2, mo_predict_label = ''b'',
        mo_polymarket_label = ''b'', mo_predict_instrument = 3, mo_polymarket_instrument = 4\<rparr>)\<rparr>"

definition sample_universe :: "nat matched_universe" where
  "sample_universe = \<lparr>mu_observed_ns = 0, mu_markets = [sample_market], mu_admission_ids = None, mu_rejected = [], mu_metadata = JNull\<rparr>"

definition sample_matched :: "(nat, unit, nat, nat) actor" where
  "sample_matched = (initial_actor sample_te sample_actor_config)\<lparr>ac_matched :=
     matched_state_default\<lparr>ms_markets := [(7, sample_market)], ms_active := [7], ms_universe := Some sample_universe\<rparr>\<rparr>"

lemma sample_candidates: "candidates_of sample_universe = [(7, sample_market)]"
  by (simp add: candidates_of_def sample_universe_def sample_market_def btree_insert_def)

lemma sample_admissions: "admissions_of sample_universe = [7]"
  by (simp add: admissions_of_def sample_universe_def sample_market_def)

lemma sample_slots_ok: "slots_ok sample_matched_config (ac_matched sample_matched)"
  by (simp add: slots_ok_def sample_matched_def matched_state_default_def sample_matched_config_def matched_config_default_def
      btree_map_def btree_set_def preparing_ids_def universe_ok_def sample_candidates sample_admissions)

theorem matched_slots_bounded_witness:
  "length (ms_markets (ac_matched (snd (refresh_matched_sports (Some sample_matched_config) sample_actor_env sample_matched)))) \<le> 2"
proof -
  have "mg_max_markets sample_matched_config = 1" "mg_preload_next sample_matched_config"
    by (simp_all add: sample_matched_config_def matched_config_default_def)
  then show ?thesis using matched_slots_bounded [OF sample_slots_ok, of sample_actor_env] by (auto simp: numeral_2_eq_2)
qed

lemma sample_reconcile: "fst (reconcile_matched_sports (Some sample_matched_config) sample_actor_env sample_matched) = Inr ()"
  by (simp add: reconcile_matched_sports_def sample_matched_def read_clock_def sample_candidates opened_slots_def settle_slots_def
      keep_active_def promote_prepared_def commit_slots_def sample_admissions sample_matched_config_def matched_config_default_def
      matched_state_default_def set_matched_def owned_markets_def apply_matched_sports_owned_def preload_slot_def and_then_def
      btree_insert_def Let_def)


end
