(* ===== verification/Capture_Budget.thy ===== *)
theory Capture_Budget
  imports Plan Runtime
begin

section \<open>The memory a capture may use\<close>

text \<open>
  The estimate of \<open>crates/catalog-capture-core/src/budget.rs\<close> that a process prints before it
  starts: the partitions each family of a plan may have open, and the bytes they may buffer. The
  property compares it with the buffers of the \<open>Runtime\<close> a family gets.

  The products and the sum are unchecked: an overflow wraps in a release build.
\<close>

record family_estimate =
  fe_family :: string
  fe_partition_count :: nat
  fe_naive_peak_bytes :: nat
  fe_capped_peak_bytes :: nat

record memory_estimate =
  me_families :: "family_estimate list"
  me_enabled_family_runtimes :: nat
  me_total_peak_buffered_bytes :: nat

definition push_family_count_if :: "(string \<times> nat) list \<Rightarrow> bool \<Rightarrow> string \<Rightarrow> nat \<Rightarrow> (string \<times> nat) list" where
  "push_family_count_if counts enabled family n = (if enabled \<and> 0 < n then counts @ [(family, n)] else counts)"

definition predict_selector_count :: "('i, 'b) capture_plan \<Rightarrow> nat" where
  "predict_selector_count plan = length (filter (\<lambda>s. dt_type_name (cd_data_type s) = predict_type) (pl_custom_data plan))"

definition family_partition_counts :: "('i::linorder, 'b) capture_plan \<Rightarrow> (string \<times> nat) list" where
  "family_partition_counts plan =
     (let flags = family_runtime_flags plan in
      foldl (\<lambda>counts (enabled, family, n). push_family_count_if counts enabled family n) []
       [(ff_instruments flags, ''instruments'',
           sat_add (max (length (planned_instrument_ids plan)) (length (pl_instruments plan)))
             (4 * predict_selector_count plan)),
        (needs_custom_data_writer flags, ''custom_data'',
           max (sat_add (length (pl_custom_data plan)) (length (pl_custom_data_requests plan))) 1),
        (ff_quotes flags, ''quotes'', length (pl_quotes plan)),
        (ff_trades flags, ''trades'',
           sat_add (length (pl_trades plan)) (2 * predict_recording_count plan ''record_trades'')),
        (ff_bars flags, ''bars'', length (pl_bars plan)),
        (ff_book_deltas flags, ''book_deltas'', length (pl_book_deltas plan)),
        (ff_book_depth flags, ''book_depth'',
           sat_add (length (pl_book_depth plan)) (2 * predict_recording_count plan ''record_depth'')),
        (ff_mark_prices flags, ''mark_prices'', length (pl_mark_prices plan)),
        (ff_index_prices flags, ''index_prices'', length (pl_index_prices plan)),
        (ff_funding_rates flags, ''funding_rates'', length (pl_funding_rates plan)),
        (ff_instrument_statuses flags, ''instrument_statuses'', length (pl_instrument_statuses plan)),
        (ff_instrument_closes flags, ''instrument_closes'', length (pl_instrument_closes plan)),
        (ff_option_greeks flags, ''option_greeks'', length (pl_option_greeks plan))])"

definition family_estimate_of :: "capture_config \<Rightarrow> string \<times> nat \<Rightarrow> family_estimate" where
  "family_estimate_of c = (\<lambda>(family, n).
     let naive = (n * cc_max_buffer_bytes c) mod 2 ^ 64
     in \<lparr>fe_family = family, fe_partition_count = n, fe_naive_peak_bytes = naive,
         fe_capped_peak_bytes = min naive (cc_max_total_buffer_bytes c)\<rparr>)"

definition estimate_peak_buffered_bytes :: "('i::linorder, 'b) capture_plan \<Rightarrow> capture_config \<Rightarrow> memory_estimate" where
  "estimate_peak_buffered_bytes plan c =
     (let families = map (family_estimate_of c) (family_partition_counts plan)
      in \<lparr>me_families = families, me_enabled_family_runtimes = enabled_background_worker_count plan,
          me_total_peak_buffered_bytes = sum_list (map fe_capped_peak_bytes families) mod 2 ^ 64\<rparr>)"

subsection \<open>The estimate bounds what a family buffers\<close>

lemma total_pending_bound:
  assumes "buffers_inv rt"
  shows "total_pending_bytes rt \<le> length (rt_parts rt) * cc_max_buffer_bytes (rt_config rt)"
proof -
  have small: "pb_bytes p \<le> cc_max_buffer_bytes (rt_config rt)" if "p \<in> set (map snd (rt_parts rt))" for p
  proof -
    from that obtain k where "(k, p) \<in> set (rt_parts rt)" by auto
    then have "map_of (rt_parts rt) k = Some p"
      using assms map_of_is_SomeI [of "rt_parts rt" k p] by (simp add: buffers_inv_def hm_valid_def)
    then show ?thesis using assms by (simp add: buffers_inv_def buffer_ok_def less_imp_le)
  qed
  have "sum_list (map pb_bytes ps) \<le> length ps * b" if "\<And>p. p \<in> set ps \<Longrightarrow> pb_bytes p \<le> b" for ps :: "'a partition_buffer list" and b
    using that by (induction ps) (auto simp: add_mono)
  from this [of "map snd (rt_parts rt)", OF small] show ?thesis by (simp add: total_pending_bytes_def)
qed

lemma estimate_families:
  "e \<in> set (me_families (estimate_peak_buffered_bytes plan c)) \<Longrightarrow>
     fe_capped_peak_bytes e = min ((fe_partition_count e * cc_max_buffer_bytes c) mod 2 ^ 64) (cc_max_total_buffer_bytes c)"
  by (auto simp: estimate_peak_buffered_bytes_def family_estimate_of_def Let_def)

lemma estimate_total:
  assumes "e \<in> set (me_families (estimate_peak_buffered_bytes plan c))"
    and "sum_list (map fe_capped_peak_bytes (me_families (estimate_peak_buffered_bytes plan c))) < 2 ^ 64"
  shows "fe_capped_peak_bytes e \<le> me_total_peak_buffered_bytes (estimate_peak_buffered_bytes plan c)"
proof -
  have "me_total_peak_buffered_bytes (estimate_peak_buffered_bytes plan c)
      = sum_list (map fe_capped_peak_bytes (me_families (estimate_peak_buffered_bytes plan c)))"
    using assms(2) by (simp add: estimate_peak_buffered_bytes_def Let_def)
  then show ?thesis using member_le_sum_list [of "fe_capped_peak_bytes e"] assms(1) by simp
qed

text \<open>
  the memory estimate holds. A family writer that runs with the configuration of its family
  and has no more partitions than the estimate counts buffers, after every accepted item, no more
  bytes than the estimate of the family, which is part of the printed total. The products must fit
  64 bits: the code multiplies unchecked.
\<close>

theorem memory_estimate_holds:
  assumes e: "e \<in> set (me_families (estimate_peak_buffered_bytes plan c))"
    and fits: "fe_partition_count e * cc_max_buffer_bytes c < 2 ^ 64"
      "sum_list (map fe_capped_peak_bytes (me_families (estimate_peak_buffered_bytes plan c))) < 2 ^ 64"
    and rt: "buffers_inv rt" "rt_config rt = capture_config_for_family c family" "0 < cc_max_active_partitions c"
    and run: "submit ops item rt = (Inr res, rt')" "0 < it_bytes item"
    and parts: "length (rt_parts rt') \<le> fe_partition_count e"
  shows "total_pending_bytes rt' \<le> fe_capped_peak_bytes e
    \<and> fe_capped_peak_bytes e \<le> me_total_peak_buffered_bytes (estimate_peak_buffered_bytes plan c)"
proof
  have inv: "buffers_inv rt'" "rt_config rt' = capture_config_for_family c family"
    and total: "total_pending_bytes rt' \<le> cc_max_total_buffer_bytes c"
    using submit_bounds_aux [OF rt(1) run(2), of ops] rt(2,3) run(1) by simp_all
  have "total_pending_bytes rt' \<le> length (rt_parts rt') * cc_max_buffer_bytes c"
    using total_pending_bound [OF inv(1)] by (simp add: inv(2))
  also have "\<dots> \<le> fe_partition_count e * cc_max_buffer_bytes c" by (rule mult_le_mono1 [OF parts])
  finally show "total_pending_bytes rt' \<le> fe_capped_peak_bytes e"
    using total fits(1) by (simp add: estimate_families [OF e])
qed (rule estimate_total [OF e fits(2)])

definition sample_quote_plan :: "(nat, unit) capture_plan" where
  "sample_quote_plan = \<lparr>pl_instruments = [], pl_quotes = [\<lparr>sp_instrument = 1\<rparr>], pl_trades = [], pl_bars = [],
     pl_book_deltas = [], pl_book_depth = [], pl_mark_prices = [], pl_index_prices = [], pl_funding_rates = [],
     pl_instrument_statuses = [], pl_instrument_closes = [], pl_option_greeks = [], pl_forward_prices = [],
     pl_custom_data = [], pl_custom_data_requests = []\<rparr>"

lemma sample_counts:
  "family_partition_counts sample_quote_plan = [(''instruments'', 1), (''quotes'', 1)]"
  by (simp add: family_partition_counts_def sample_quote_plan_def push_family_count_if_def family_runtime_flags_def
      planned_instrument_ids_def extend_planned_instrument_ids_def btree_extend_def predict_records_def
      predict_recording_count_def predict_selector_count_def needs_custom_data_writer_def sat_add_def u64_max_def Let_def)

theorem memory_estimate_holds_witness:
  "total_pending_bytes (snd (submit sample_sink sample_item
      (runtime_new (capture_config_for_family default_config Quotes) [] sample_world (\<lambda>_. 0)))) \<le> 32 * 1024 * 1024"
proof -
  let ?rt = "runtime_new (capture_config_for_family default_config Quotes) [] sample_world (\<lambda>_. 0)
    :: (nat, (string \<times> nat list) list) runtime"
  let ?e = "family_estimate_of default_config (''quotes'', 1)"
  have fams: "me_families (estimate_peak_buffered_bytes sample_quote_plan default_config)
      = [family_estimate_of default_config (''instruments'', 1), ?e]"
    by (simp add: estimate_peak_buffered_bytes_def sample_counts)
  have capped: "fe_capped_peak_bytes (family_estimate_of default_config (f, 1)) = 32 * 1024 * 1024" for f
    by (simp add: family_estimate_of_def default_config_def)
  have rt: "buffers_inv ?rt" "rt_config ?rt = capture_config_for_family default_config Quotes"
    by (simp_all add: buffers_inv_def runtime_new_def)
  obtain res rt' where run: "submit sample_sink sample_item ?rt = (Inr res, rt')" and parts: "length (rt_parts rt') = 1"
    by (simp add: submit_def submit_room_def push_item_def Let_def runtime_new_def capture_config_for_family_def
        default_config_def family_row_threshold_def family_row_group_rows_def
        sample_item_def should_flush_reason_def batch_row_threshold_def default_lifecycle_def
        is_segment_mode_def budget_loop.simps total_pending_bytes_def rt_set_metrics_def
        buffer_push_def smoke_row_ceiling_def)
  from memory_estimate_holds [of ?e sample_quote_plan default_config ?rt Quotes sample_sink sample_item res rt']
  show ?thesis
    by (simp add: fams capped rt run parts) (simp add: family_estimate_of_def default_config_def sample_item_def)
qed

end
