(* ===== verification/Request_Poll.thy ===== *)
theory Request_Poll
  imports Plan Replay_Windows
begin

section \<open>Polled custom data\<close>

text \<open>
  \<open>custom_data_requests.rs\<close> and the handlers of \<open>actor/lifecycle.rs\<close> that drive it (under
  \<open>crates/catalog-capture-runtime-adapter/src\<close>): a job polls its venue with \<open>request_data\<close> on a
  timer of its own, skips a tick while a response is outstanding, and gives up waiting after a
  timeout.

  Setting a timer, sending a request and storing a row can fail; \<open>rq_call\<close> tells for each such
  call, counted by \<open>rs_calls\<close>, whether it succeeds. \<open>rs_log\<close> is the history of what was sent and
  answered, per job; the code does not keep it.
\<close>

record request_job =
  rj_index :: nat
  rj_spec :: custom_request_spec
  rj_in_flight :: bool
  rj_last_fire_ns :: nat
  rj_polls :: nat
  rj_rows :: nat
  rj_skipped_inflight :: nat
  rj_timeouts :: nat

definition request_timer_prefix :: string where
  "request_timer_prefix = ''CUSTOM_DATA_REQUEST:''"

definition default_request_timeout_secs :: nat where
  "default_request_timeout_secs = 15"

definition job_new :: "nat \<Rightarrow> custom_request_spec \<Rightarrow> request_job" where
  "job_new index spec = \<lparr>rj_index = index, rj_spec = spec, rj_in_flight = False, rj_last_fire_ns = 0, rj_polls = 0,
     rj_rows = 0, rj_skipped_inflight = 0, rj_timeouts = 0\<rparr>"

definition timer_name :: "request_job \<Rightarrow> string" where
  "timer_name job = request_timer_prefix @ show_nat (rj_index job)"

definition client_id_str :: "request_job \<Rightarrow> string" where
  "client_id_str job = (case cq_client_id (rj_spec job) of Some c \<Rightarrow> c | None \<Rightarrow> ''DERIBIT'')"

definition interval_ns :: "request_job \<Rightarrow> nat" where
  "interval_ns job = sat_mul (cq_interval_secs (rj_spec job)) 1000000000"

definition request_timeout_ns :: "request_job \<Rightarrow> nat" where
  "request_timeout_ns job =
     (let secs = (if cq_request_timeout_secs (rj_spec job) = 0 then default_request_timeout_secs
                  else cq_request_timeout_secs (rj_spec job))
      in sat_mul secs 1000000000)"

definition prepare_fire :: "nat \<Rightarrow> request_job \<Rightarrow> bool \<times> request_job" where
  "prepare_fire now job =
     (if rj_in_flight job \<and> \<not> request_timeout_ns job \<le> sat_sub now (rj_last_fire_ns job)
      then (case cq_overlap_policy (rj_spec job) of
              Skip \<Rightarrow> (False, job\<lparr>rj_skipped_inflight := sat_add (rj_skipped_inflight job) 1\<rparr>))
      else let job1 = (if rj_in_flight job
                       then job\<lparr>rj_in_flight := False, rj_timeouts := sat_add (rj_timeouts job) 1\<rparr> else job)
           in (True, job1\<lparr>rj_in_flight := True, rj_last_fire_ns := now, rj_polls := sat_add (rj_polls job1) 1\<rparr>))"

definition complete_response :: "nat \<Rightarrow> request_job \<Rightarrow> request_job" where
  "complete_response rows job = job\<lparr>rj_in_flight := False, rj_rows := sat_add (rj_rows job) rows\<rparr>"

definition matches_data_type :: "data_type \<Rightarrow> request_job \<Rightarrow> bool" where
  "matches_data_type d job = (dt_type_name (cq_data_type (rj_spec job)) = dt_type_name d
     \<and> dt_identifier (cq_data_type (rj_spec job)) = dt_identifier d)"

fun strip_prefix :: "string \<Rightarrow> string \<Rightarrow> string option" where
  "strip_prefix [] s = Some s"
| "strip_prefix (c # cs) [] = None"
| "strip_prefix (c # cs) (d # ds) = (if c = d then strip_prefix cs ds else None)"

definition parse_request_timer_index :: "string \<Rightarrow> nat option" where
  "parse_request_timer_index name =
     (case strip_prefix request_timer_prefix name of
        None \<Rightarrow> None
      | Some digits \<Rightarrow> (case parse_u64 digits of Inl _ \<Rightarrow> None | Inr n \<Rightarrow> Some n))"

subsection \<open>The handlers of the actor\<close>

datatype poll_event = Fired nat | Answered

record request_state =
  rs_jobs :: "request_job list"
  rs_timers :: "(string \<times> nat) list"
  rs_calls :: nat
  rs_log :: "(nat \<times> poll_event) list"

datatype poll_error = PollCallFailed

definition poll_call :: "(nat \<Rightarrow> bool) \<Rightarrow> request_state \<Rightarrow> (poll_error + unit) \<times> request_state" where
  "poll_call succeeds s = (if succeeds (rs_calls s) then Inr () else Inl PollCallFailed, s\<lparr>rs_calls := Suc (rs_calls s)\<rparr>)"

definition fire_custom_data_request ::
  "(nat \<Rightarrow> bool) \<Rightarrow> nat \<Rightarrow> nat \<Rightarrow> request_state \<Rightarrow> (poll_error + unit) \<times> request_state" where
  "fire_custom_data_request succeeds now index s =
     (if \<not> index < length (rs_jobs s) then (Inr (), s)
      else case prepare_fire now (rs_jobs s ! index) of
        (False, job) \<Rightarrow> (Inr (), s\<lparr>rs_jobs := (rs_jobs s)[index := job]\<rparr>)
      | (True, job) \<Rightarrow> poll_call succeeds
          (s\<lparr>rs_jobs := (rs_jobs s)[index := job], rs_log := rs_log s @ [(index, Fired now)]\<rparr>))"

definition schedule_custom_data_request_timer ::
  "(nat \<Rightarrow> bool) \<Rightarrow> nat \<Rightarrow> request_state \<Rightarrow> (poll_error + unit) \<times> request_state" where
  "schedule_custom_data_request_timer succeeds index s =
     (if \<not> index < length (rs_jobs s) then (Inr (), s)
      else let job = rs_jobs s ! index; name = timer_name job;
               s1 = s\<lparr>rs_timers := AList.delete name (rs_timers s)\<rparr>
           in case poll_call succeeds s1 of
                (Inl e, s2) \<Rightarrow> (Inl e, s2)
              | (Inr _, s2) \<Rightarrow> (Inr (), s2\<lparr>rs_timers := AList.update name (interval_ns job) (rs_timers s2)\<rparr>))"

fun start_jobs_from :: "(nat \<Rightarrow> bool) \<Rightarrow> nat \<Rightarrow> nat list \<Rightarrow> request_state \<Rightarrow> (poll_error + unit) \<times> request_state" where
  "start_jobs_from succeeds now [] s = (Inr (), s)"
| "start_jobs_from succeeds now (index # is) s =
     (case (if cq_fire_immediately (rj_spec (rs_jobs s ! index)) then fire_custom_data_request succeeds now index s
            else (Inr (), s)) of
        (Inl e, s1) \<Rightarrow> (Inl e, s1)
      | (Inr _, s1) \<Rightarrow> (case schedule_custom_data_request_timer succeeds index s1 of
           (Inl e, s2) \<Rightarrow> (Inl e, s2)
         | (Inr _, s2) \<Rightarrow> start_jobs_from succeeds now is s2))"

definition start_custom_data_request_jobs ::
  "(nat \<Rightarrow> bool) \<Rightarrow> nat \<Rightarrow> request_state \<Rightarrow> (poll_error + unit) \<times> request_state" where
  "start_custom_data_request_jobs succeeds now s = start_jobs_from succeeds now [0..<length (rs_jobs s)] s"

definition cancel_custom_data_request_timers :: "request_state \<Rightarrow> request_state" where
  "cancel_custom_data_request_timers s =
     s\<lparr>rs_timers := foldl (\<lambda>timers name. AList.delete name timers) (rs_timers s) (map timer_name (rs_jobs s))\<rparr>"

fun store_items :: "(nat \<Rightarrow> bool) \<Rightarrow> nat \<Rightarrow> request_state \<Rightarrow> (poll_error + unit) \<times> request_state" where
  "store_items succeeds 0 s = (Inr (), s)"
| "store_items succeeds (Suc n) s =
     (case poll_call succeeds s of
        (Inl e, s1) \<Rightarrow> (Inl e, s1)
      | (Inr _, s1) \<Rightarrow> store_items succeeds n s1)"

text \<open>A response names its data type and, when its payload is custom data, has rows.\<close>

definition apply_custom_data_request_response ::
  "(nat \<Rightarrow> bool) \<Rightarrow> data_type \<Rightarrow> nat option \<Rightarrow> request_state \<Rightarrow> (poll_error + unit) \<times> request_state" where
  "apply_custom_data_request_response succeeds d payload s =
     (let rows = (case payload of Some n \<Rightarrow> n | None \<Rightarrow> 0)
      in case store_items succeeds rows s of
           (Inl e, s1) \<Rightarrow> (Inl e, s1)
         | (Inr _, s1) \<Rightarrow> (Inr (), s1\<lparr>
             rs_jobs := map (\<lambda>job. if matches_data_type d job then complete_response rows job else job) (rs_jobs s1),
             rs_log := rs_log s1 @ map (\<lambda>i. (i, Answered))
               (filter (\<lambda>i. matches_data_type d (rs_jobs s1 ! i)) [0..<length (rs_jobs s1)])\<rparr>))"

definition request_jobs_new :: "custom_request_spec list \<Rightarrow> request_state" where
  "request_jobs_new specs = \<lparr>rs_jobs = map (\<lambda>(index, spec). job_new index spec) (enumerate 0 specs), rs_timers = [],
     rs_calls = 0, rs_log = []\<rparr>"

datatype poll_step = StartJobs nat | TimerEvent string nat | Response data_type "nat option"

definition poll_step :: "(nat \<Rightarrow> bool) \<Rightarrow> poll_step \<Rightarrow> request_state \<Rightarrow> (poll_error + unit) \<times> request_state" where
  "poll_step succeeds step s =
     (case step of
        StartJobs now \<Rightarrow> start_custom_data_request_jobs succeeds now s
      | TimerEvent name now \<Rightarrow> (case parse_request_timer_index name of
           Some index \<Rightarrow> fire_custom_data_request succeeds now index s
         | None \<Rightarrow> (Inr (), s))
      | Response d payload \<Rightarrow> apply_custom_data_request_response succeeds d payload s)"

definition poll_run :: "(nat \<Rightarrow> bool) \<Rightarrow> poll_step list \<Rightarrow> request_state \<Rightarrow> request_state" where
  "poll_run succeeds steps s = foldl (\<lambda>s step. snd (poll_step succeeds step s)) s steps"

subsection \<open>The history of a job\<close>

definition job_log :: "nat \<Rightarrow> request_state \<Rightarrow> poll_event list" where
  "job_log i s = map snd (filter (\<lambda>(j, _). j = i) (rs_log s))"

fun apart_by :: "nat \<Rightarrow> poll_event \<times> poll_event \<Rightarrow> bool" where
  "apart_by limit (Fired a, Fired b) = (limit \<le> sat_sub b a)"
| "apart_by limit _ = True"

definition spaced :: "nat \<Rightarrow> poll_event list \<Rightarrow> bool" where
  "spaced limit es = list_all (apart_by limit) (zip es (tl es))"

lemma spaced_nil [simp]: "spaced limit []"
  by (simp add: spaced_def)

lemma spaced_snoc: "spaced limit (es @ [e]) \<longleftrightarrow> spaced limit es \<and> (es = [] \<or> apart_by limit (last es, e))"
proof (induction es)
  case Nil
  then show ?case by (simp add: spaced_def)
next
  case (Cons x es)
  then show ?case by (cases es) (auto simp: spaced_def)
qed

definition job_ok :: "request_job \<Rightarrow> poll_event list \<Rightarrow> bool" where
  "job_ok job es \<longleftrightarrow> spaced (request_timeout_ns job) es
     \<and> (if rj_in_flight job then es \<noteq> [] \<and> last es = Fired (rj_last_fire_ns job)
        else es = [] \<or> last es = Answered)"

definition polls_ok :: "custom_request_spec list \<Rightarrow> request_state \<Rightarrow> bool" where
  "polls_ok specs s \<longleftrightarrow> length (rs_jobs s) = length specs
     \<and> (\<forall>i < length specs. rj_index (rs_jobs s ! i) = i \<and> rj_spec (rs_jobs s ! i) = specs ! i
          \<and> job_ok (rs_jobs s ! i) (job_log i s))"

lemma timeout_cong: "rj_spec j = rj_spec j' \<Longrightarrow> request_timeout_ns j = request_timeout_ns j'"
  by (simp add: request_timeout_ns_def)

lemma prepare_fire_spec [simp]:
  "rj_spec (snd (prepare_fire now job)) = rj_spec job" "rj_index (snd (prepare_fire now job)) = rj_index job"
  by (simp_all add: prepare_fire_def Let_def split: request_overlap_policy.split)

lemma prepare_fire_ok:
  assumes "job_ok job es" "prepare_fire now job = (fires, job')"
  shows "job_ok job' (if fires then es @ [Fired now] else es)"
proof -
  have t: "request_timeout_ns job' = request_timeout_ns job"
    using timeout_cong [of job' job] prepare_fire_spec(1) [of now job] assms(2) by simp
  show ?thesis
  proof (cases "rj_in_flight job \<and> \<not> request_timeout_ns job \<le> sat_sub now (rj_last_fire_ns job)")
    case True
    then have r: "fires = False" "job' = job\<lparr>rj_skipped_inflight := sat_add (rj_skipped_inflight job) 1\<rparr>"
      using assms(2) by (simp_all add: prepare_fire_def split: request_overlap_policy.splits)
    show ?thesis using assms(1) t unfolding r by (simp add: job_ok_def)
  next
    case False
    then have r: "fires" "rj_in_flight job'" "rj_last_fire_ns job' = now"
      using assms(2) by (auto simp: prepare_fire_def Let_def split: if_splits)
    have "es = [] \<or> apart_by (request_timeout_ns job) (last es, Fired now)"
      using False assms(1) by (cases "rj_in_flight job") (auto simp: job_ok_def)
    then show ?thesis using assms(1) r t by (simp add: job_ok_def spaced_snoc)
  qed
qed

lemma poll_call_simps [simp]:
  "rs_jobs (snd (poll_call f s)) = rs_jobs s" "rs_log (snd (poll_call f s)) = rs_log s"
  "rs_timers (snd (poll_call f s)) = rs_timers s"
  by (simp_all add: poll_call_def)

lemma job_log_cong: "rs_log s = rs_log s' \<Longrightarrow> job_log i s = job_log i s'"
  by (simp add: job_log_def)

lemma polls_ok_cong: "rs_jobs s' = rs_jobs s \<Longrightarrow> rs_log s' = rs_log s \<Longrightarrow> polls_ok specs s \<Longrightarrow> polls_ok specs s'"
  by (simp add: polls_ok_def job_log_def)

lemma fire_ok:
  assumes ok: "polls_ok specs s"
  shows "polls_ok specs (snd (fire_custom_data_request f now index s))"
proof (cases "index < length (rs_jobs s)")
  case False
  then show ?thesis using ok by (simp add: fire_custom_data_request_def)
next
  case True
  obtain fires job where p: "prepare_fire now (rs_jobs s ! index) = (fires, job)" by fastforce
  then have spec: "rj_spec job = rj_spec (rs_jobs s ! index)" "rj_index job = rj_index (rs_jobs s ! index)"
    using prepare_fire_spec [of now "rs_jobs s ! index"] by simp_all
  have j: "job_ok job (if fires then job_log index s @ [Fired now] else job_log index s)"
    using prepare_fire_ok [OF _ p] ok True by (simp add: polls_ok_def)
  let ?s = "snd (fire_custom_data_request f now index s)"
  have jobs: "rs_jobs ?s = (rs_jobs s)[index := job]"
    using True p by (cases fires) (simp_all add: fire_custom_data_request_def)
  have log: "rs_log ?s = rs_log s @ (if fires then [(index, Fired now)] else [])"
    using True p by (cases fires) (simp_all add: fire_custom_data_request_def)
  have "job_log i ?s = (if fires \<and> i = index then job_log i s @ [Fired now] else job_log i s)" for i
    by (simp add: job_log_def log)
  then show ?thesis using ok True spec j
    by (auto simp: polls_ok_def jobs nth_list_update split: if_splits)
qed

lemma schedule_ok: "polls_ok specs s \<Longrightarrow> polls_ok specs (snd (schedule_custom_data_request_timer f index s))"
  by (auto simp: schedule_custom_data_request_timer_def Let_def poll_call_def intro: polls_ok_cong)

lemma start_jobs_ok: "polls_ok specs s \<Longrightarrow> polls_ok specs (snd (start_jobs_from f now is s))"
proof (induction "is" arbitrary: s)
  case Nil
  then show ?case by simp
next
  case (Cons i "is")
  obtain r1 s1 where fire: "(if cq_fire_immediately (rj_spec (rs_jobs s ! i)) then fire_custom_data_request f now i s
      else (Inr (), s)) = (r1, s1)" by fastforce
  have ok1: "polls_ok specs s1"
    using fire_ok [OF Cons.prems, of f now i] Cons.prems fire by (auto split: if_splits)
  obtain r2 s2 where sched: "schedule_custom_data_request_timer f i s1 = (r2, s2)" by fastforce
  have ok2: "polls_ok specs s2" using schedule_ok [OF ok1, of f i] sched by simp
  show ?case using ok1 ok2 Cons.IH [OF ok2] sched
    by (simp only: start_jobs_from.simps fire) (auto split: sum.splits)
qed

lemma store_items_same: "rs_jobs (snd (store_items f n s)) = rs_jobs s \<and> rs_log (snd (store_items f n s)) = rs_log s"
proof (induction n arbitrary: s)
  case (Suc n)
  from Suc [of "snd (poll_call f s)"] show ?case
    by (simp add: poll_call_def)
qed simp

lemma filter_index_upt: "i < n \<Longrightarrow> filter (\<lambda>j. j = i) [0..<n] = [i]"
proof (induction n)
  case (Suc n)
  have "filter (\<lambda>j. j = i) [0..<n] = []" if "i = n" using that by (simp add: filter_empty_conv)
  then show ?case using Suc by (cases "i = n") auto
qed simp

lemma filter_answered:
  "filter (\<lambda>(j, _). j = i) (map (\<lambda>i. (i, Answered)) is) = map (\<lambda>i. (i, Answered)) (filter (\<lambda>j. j = i) is)"
  by (induction "is") auto

lemma filter_swap: "filter p (filter q xs) = filter q (filter p xs)"
  by (induction xs) auto

lemma response_ok:
  assumes ok: "polls_ok specs s"
  shows "polls_ok specs (snd (apply_custom_data_request_response f d payload s))"
proof -
  obtain r s1 where st: "store_items f (case payload of Some n \<Rightarrow> n | None \<Rightarrow> 0) s = (r, s1)" by fastforce
  have ok1: "polls_ok specs s1"
    using store_items_same [of f "case payload of Some n \<Rightarrow> n | None \<Rightarrow> 0" s] st ok by (intro polls_ok_cong [OF _ _ ok]) simp_all
  show ?thesis
  proof (cases r)
    case (Inl e)
    then show ?thesis using ok1 st by (simp add: apply_custom_data_request_response_def)
  next
    case (Inr u)
    let ?s = "snd (apply_custom_data_request_response f d payload s)"
    let ?m = "\<lambda>i. matches_data_type d (rs_jobs s1 ! i)"
    have jobs: "rs_jobs ?s = map (\<lambda>job. if matches_data_type d job
        then complete_response (case payload of Some n \<Rightarrow> n | None \<Rightarrow> 0) job else job) (rs_jobs s1)"
      and log: "rs_log ?s = rs_log s1 @ map (\<lambda>i. (i, Answered)) (filter ?m [0..<length (rs_jobs s1)])"
      using st Inr by (simp_all add: apply_custom_data_request_response_def Let_def)
    have "filter (\<lambda>(j, _). j = i) (map (\<lambda>i. (i, Answered)) (filter ?m [0..<n])) =
        (if ?m i then [(i, Answered)] else [])" if "i < n" for i n
      by (simp only: filter_answered filter_swap [of _ ?m] filter_index_upt [OF that]) simp
    then have "job_log i ?s = job_log i s1 @ (if ?m i then [Answered] else [])" if "i < length (rs_jobs s1)" for i
      using that by (simp add: job_log_def log)
    moreover have "apart_by limit (e, Answered)" for limit e by (cases e) simp_all
    ultimately show ?thesis using ok1
      by (auto simp: polls_ok_def jobs complete_response_def job_ok_def spaced_snoc request_timeout_ns_def)
  qed
qed

lemma poll_step_ok: "polls_ok specs s \<Longrightarrow> polls_ok specs (snd (poll_step f step s))"
  by (cases step) (auto simp: poll_step_def start_custom_data_request_jobs_def
      intro: start_jobs_ok response_ok fire_ok split: option.split)

lemma poll_run_ok: "polls_ok specs s \<Longrightarrow> polls_ok specs (poll_run f steps s)"
  unfolding poll_run_def by (induction steps arbitrary: s) (simp_all add: poll_step_ok)

lemma request_jobs_new_ok: "polls_ok specs (request_jobs_new specs)"
  by (simp add: polls_ok_def request_jobs_new_def nth_enumerate_eq job_new_def job_log_def job_ok_def)

subsection \<open>Properties\<close>

lemma strip_prefix_append [simp]: "strip_prefix p (p @ s) = Some s"
  by (induction p) simp_all

lemma timer_index:
  "rj_index job \<le> u64_max \<Longrightarrow> parse_request_timer_index (timer_name job) = Some (rj_index job)"
  by (simp add: parse_request_timer_index_def timer_name_def parse_show_u64)

text \<open>
  C38: a poll job never has two requests outstanding within its timeout, for any interleaving of
  timer events, responses and failing calls: whenever a job sends twice in a row without an answer
  between, the second request is at least the timeout of the job after the first.
\<close>

theorem requests_spaced:
  assumes "i < length specs"
  shows "spaced (request_timeout_ns (rs_jobs (poll_run succeeds steps (request_jobs_new specs)) ! i))
      (job_log i (poll_run succeeds steps (request_jobs_new specs)))"
  using poll_run_ok [OF request_jobs_new_ok [of specs], of succeeds steps] assms by (simp add: polls_ok_def job_ok_def)

definition sample_request :: custom_request_spec where
  "sample_request = \<lparr>cq_data_type = \<lparr>dt_type_name = ''DeribitBookSummary'', dt_metadata = None, dt_identifier = Some ''BTC''\<rparr>,
     cq_interval_secs = 1, cq_fire_immediately = True, cq_overlap_policy = Skip, cq_request_timeout_secs = 2,
     cq_client_id = None\<rparr>"

theorem requests_spaced_witness:
  "spaced 2000000000 (job_log 0 (poll_run (\<lambda>_. True) [StartJobs 0, TimerEvent ''CUSTOM_DATA_REQUEST:0'' 1000000000]
     (request_jobs_new [sample_request])))"
proof -
  have spec: "rj_spec (rs_jobs (poll_run f steps (request_jobs_new [sample_request])) ! 0) = sample_request" for f steps
    using poll_run_ok [OF request_jobs_new_ok [of "[sample_request]"], of f steps] by (simp add: polls_ok_def)
  have limit: "request_timeout_ns (rs_jobs (poll_run f steps (request_jobs_new [sample_request])) ! 0) = 2000000000" for f steps
    by (simp only: request_timeout_ns_def spec) (simp add: sample_request_def sat_mul_def u64_max_def)
  show ?thesis
    using requests_spaced [of 0 "[sample_request]" "\<lambda>_. True" "[StartJobs 0, TimerEvent ''CUSTOM_DATA_REQUEST:0'' 1000000000]"]
    by (simp only: limit) simp
qed

text \<open>
  C39: a lost response does not stop a job. The timer of a job, by the name it was set under,
  reaches that job, and once the timeout since its last request has passed, or when no response is
  outstanding, the event sends the next request, whatever happened before.
\<close>

theorem lost_response_recovers:
  assumes "s = poll_run succeeds steps (request_jobs_new specs)"
    and "i < length specs" "length specs \<le> u64_max"
    and "rj_in_flight (rs_jobs s ! i) \<Longrightarrow> request_timeout_ns (rs_jobs s ! i) \<le> sat_sub now (rj_last_fire_ns (rs_jobs s ! i))"
  shows "job_log i (snd (poll_step succeeds (TimerEvent (timer_name (rs_jobs s ! i)) now) s)) = job_log i s @ [Fired now]"
proof -
  have ok: "length (rs_jobs s) = length specs" "rj_index (rs_jobs s ! i) = i"
    using poll_run_ok [OF request_jobs_new_ok [of specs], of succeeds steps] assms(1,2) by (simp_all add: polls_ok_def)
  obtain fires job where p: "prepare_fire now (rs_jobs s ! i) = (fires, job)" by fastforce
  then have fires using assms(4) by (auto simp: prepare_fire_def Let_def split: if_splits request_overlap_policy.splits)
  with p have "rs_log (snd (fire_custom_data_request succeeds now i s)) = rs_log s @ [(i, Fired now)]"
    using ok(1) assms(2) by (simp add: fire_custom_data_request_def)
  moreover have "parse_request_timer_index (timer_name (rs_jobs s ! i)) = Some i"
    using timer_index [of "rs_jobs s ! i"] ok assms(2,3) by simp
  ultimately show ?thesis by (simp add: poll_step_def job_log_def)
qed

theorem lost_response_recovers_witness:
  "job_log 0 (snd (poll_step (\<lambda>_. False) (TimerEvent (timer_name (rs_jobs (request_jobs_new [sample_request]) ! 0)) 7)
     (request_jobs_new [sample_request]))) = [Fired 7]"
  using lost_response_recovers [of "request_jobs_new [sample_request]" "\<lambda>_. False" "[]" "[sample_request]" 0 7]
  by (simp add: poll_run_def request_jobs_new_def job_new_def u64_max_def job_log_def)

end
