(* ===== verification/Spec2Isabelle.thy ===== *)
theory Spec2Isabelle
  imports Prelude Metrics Failures Config Sink Runtime Queue Queue_Cover Queue_Bounds Worker
    Delivery Shutdown Part Segment Windows Segment_Invariant Segment_Files Replay Replay_Windows
    Roundtrip Chunked_Sink Custom_Segment Book_Sink Seal_Schedule Plan Book_Validation Actor
    Actor_Data Actor_Handover Actor_Hip4 Actor_Incumbents Actor_Keeps Actor_Lighter
    Actor_Matched Actor_New Actor_Run Actor_Slots Actor_Streams Actor_Universe Capture_Budget
    Hip4_Market Matched_State Option_Log Option_Universe Plan_Algebra Predict_Selector
    Reference_Price Request_Poll Rolling_State Universe_Contract Universe_Refresh
begin

text \<open>
  \<^bold>\<open>What this is.\<close> A model of the capture core of \<open>catalog_capture\<close> with the theorems that
  make it correct. The program records market data for replay: producers hand over items, a
  writer thread collects them per partition and gives them to a sink, the sink keeps one open
  Parquet part per partition and publishes it as an immutable file, and a reader turns the files
  back into replay windows. What has to hold is that nothing is lost silently: every item is
  published, once and in order, or the loss is reported, and no replay window runs across a loss.
  In front of it stands the actor, which decides what is recorded: universes of options and
  outcomes change while it runs, and their changes become subscriptions. Paths below are under
  \<open>crates/catalog-capture-core/src\<close>, those marked \<open>adapter\<close> under
  \<open>crates/catalog-capture-runtime-adapter/src\<close>.

  \<^bold>\<open>Theories and code.\<close> Records carry the fields of the structs, datatypes the variants of the
  enums, and the definitions the names of the functions, with a prefix where names would clash.

  \<^item> \<open>Prelude\<close>: saturating and checked 64-bit arithmetic, error values, hash maps as
    association lists with the interface \<open>hash_map\<close>, iteration in any order (\<open>perm_order\<close>).
  \<^item> \<open>Metrics\<close> (\<open>metrics.rs\<close>), \<open>Failures\<close> (\<open>failures.rs\<close>): counters, and the bounded,
    coalescing failure history with the cursors of its observers.
  \<^item> \<open>Config\<close> (\<open>item.rs\<close>, \<open>config.rs\<close>, \<open>lifecycle/mod.rs\<close>, \<open>flush_profile.rs\<close>,
    \<open>lifecycle/row_group_capacity.rs\<close>, the checks of \<open>budget.rs\<close>), \<open>Plan\<close> (\<open>plan.rs\<close>),
    \<open>Seal_Schedule\<close> (\<open>lifecycle/seal.rs\<close>): keys, configuration, capture plans, and the next
    instant at which segments are sealed.
  \<^item> \<open>Sink\<close> (\<open>buffer.rs\<close>, the trait \<open>CaptureSink\<close> of \<open>sink.rs\<close>): a trait implementation is a
    record of its operations on a state, and its contract the locale \<open>capture_sink\<close>.
  \<^item> \<open>Runtime\<close> (\<open>runtime.rs\<close>): the buffers in front of a sink, flushed by rows, bytes, budget,
    interval and seal.
  \<^item> \<open>Queue\<close>, \<open>Queue_Cover\<close>, \<open>Queue_Bounds\<close>, \<open>Worker\<close>, \<open>Delivery\<close>, \<open>Shutdown\<close>
    (\<open>background.rs\<close>): the producer half, the writer half and their interleaving \<open>sys_step\<close>, the
    invariants of its runs, and the end-to-end properties.
  \<^item> \<open>Part\<close> (\<open>lifecycle/segment_support.rs\<close>), \<open>Segment\<close> (\<open>lifecycle/segment.rs\<close>): open parts,
    publication, recovery of orphans, and the segment sink with its replay windows. \<open>Windows\<close> is
    the abstract machine of windows and ordinals that every operation of the segment sink
    refines; \<open>Segment_Invariant\<close> (locale \<open>part_invariant\<close>) carries facts from parts to files;
    \<open>Segment_Files\<close> has the properties.
  \<^item> \<open>Chunked_Sink\<close>, \<open>Book_Sink\<close> (\<open>sink.rs\<close>), \<open>Custom_Segment\<close> (\<open>lifecycle/segment_custom.rs\<close>,
    \<open>sink.rs\<close>): the sinks that write one catalogue file per batch, the order-book sink on top of
    the segment sink, the custom-data sinks, and the sinks that choose between two modes.
  \<^item> \<open>Replay\<close>, \<open>Replay_Windows\<close> (\<open>replay.rs\<close>), \<open>Roundtrip\<close>, \<open>Book_Validation\<close>
    (\<open>order_book_validation.rs\<close>): the reader, the round trip from sink to reader, and the
    validation of a recorded book.
  \<^item> \<open>Capture_Budget\<close> (\<open>budget.rs\<close>): the memory estimate and why the buffers stay below it.
  \<^item> \<open>Plan_Algebra\<close>: difference and merge of capture plans as sets of specifications.
  \<^item> \<open>Option_Universe\<close>, \<open>Option_Log\<close> (\<open>option_universe\<close>), \<open>Hip4_Market\<close> (\<open>hip4\<close>), \<open>Reference_Price\<close>
    (\<open>atm_reference.rs\<close>, \<open>forward_price.rs\<close>, \<open>forward_price_metadata.rs\<close>): the choice of expiries,
    strikes and markets, the plans they expand to, and the log of resolutions.
  \<^item> \<open>Universe_Refresh\<close> (adapter \<open>dynamic_plan.rs\<close>, \<open>dynamic_hip4_universe.rs\<close>,
    \<open>dynamic_option_universe.rs\<close>, \<open>dynamic_option_universe_runtime.rs\<close>): the managers of changing
    universes; \<open>Universe_Contract\<close> has their contract as the locale \<open>plan_manager\<close>.
  \<^item> \<open>Request_Poll\<close> (adapter \<open>custom_data_requests.rs\<close>), \<open>Predict_Selector\<close> (adapter \<open>actor/mod.rs\<close>
    and \<open>crypto_up_down.rs\<close> of \<open>nautilus-predict\<close>): polled data, and the identity of rolling markets.
  \<^item> \<open>Rolling_State\<close> (adapter \<open>hip4_rolling.rs\<close>, \<open>lighter_updown.rs\<close>), \<open>Matched_State\<close>
    (\<open>paired_markets.rs\<close>, adapter \<open>matched_sports.rs\<close>): what the actor keeps of rolling and matched
    markets. \<open>Actor\<close> (adapter \<open>actor/\<close>, \<open>actor_plan.rs\<close>, \<open>actor_runtime.rs\<close>): the plan of the actor,
    its subscriptions, and the changes of both. Its effects are a list of commands.
    \<open>Actor_Streams\<close>: the streams these commands leave open, and the invariant that ties them to the
    plan; \<open>Actor_Keeps\<close>: the obligations of a handler and the rules that compose them.
  \<^item> \<open>Actor_Universe\<close> (adapter \<open>actor/lifecycle.rs\<close>), \<open>Actor_Hip4\<close> (adapter
    \<open>actor/hip4_rolling.rs\<close>), \<open>Actor_Lighter\<close> (adapter \<open>actor/lighter.rs\<close>), \<open>Actor_Matched\<close> (adapter
    \<open>actor/matched_sports.rs\<close>): the handlers of the four kinds of changing universes.
    \<open>Actor_Slots\<close>: what the handlers of the matched markets keep; \<open>Actor_Incumbents\<close>: the slots of
    these markets, their bound, and when an active market is given up; \<open>Actor_Handover\<close>: the same for
    the series of the rolling markets.
  \<^item> \<open>Actor_Data\<close> (adapter \<open>actor/submit.rs\<close>): the callbacks with market data, the recovery of a book
    that has lost a message, the definitions that are written again; \<open>Actor_New\<close> (adapter
    \<open>actor/mod.rs\<close>): configuration, writers and initial state; \<open>Actor_Run\<close> (adapter
    \<open>actor/lifecycle.rs\<close>): the start, one transition per callback, and the states a run reaches.

  \<^bold>\<open>How the parts fit.\<close> \<open>submit_entry\<close> puts an item into the queue; \<open>collect_worker_batch\<close> takes a
  batch out; \<open>process_entry\<close> and \<open>process_tail\<close> apply it to a \<open>runtime\<close>, whose flushes call the
  \<open>sink_ops\<close> they are given; \<open>segment_ops\<close>, \<open>custom_ops\<close>, \<open>book_ops\<close> and the \<open>_catalog_ops\<close> are
  such records. The contract \<open>capture_sink\<close> is what the properties of the background runtime
  assume; it is discharged for the segment sink (locale \<open>row_encoder\<close>), the custom sink (locale
  \<open>row_preparer\<close>) and for the two-mode sinks in segment mode (lemma \<open>capture_sink_wrap\<close>).

  \<^bold>\<open>What the properties show.\<close> Background runtime: no silent loss, a marker in every gap, exact and
  bounded queue, shutdown that ends, drains and reports failures. Segment sink: rows delivered
  once and in order, new windows after breaks and losses, ordinals without holes, no file
  replaced, names that cover their rows. Book sink: a refinement of the segment sink that drops
  increments until a snapshot. Custom data: disjoint files, one schema per file. Reader: windows,
  ranges and frames exactly as recorded. Schedule, plan and keys: exact results and bounds. Actor: in every
  run the open streams are those of the plan, even after a callback that failed; planned
  instruments are live or asked for again; markets are handed over make-before-break; a book never
  continues across a lost message; every planned stream has a writer.

  \<^bold>\<open>Environment.\<close> The Parquet encoder, file system, clock, random identifiers, catalogue, order
  book, time zones and Nautilus types are parameters: functions indexed by a counter that
  advances at each use, so every fault at every point is covered, or operations on a state of
  their own. Their documented behaviour appears as named hypotheses (\<open>encode_ok\<close>, \<open>prepare_ok\<close>,
  \<open>chrono_ok\<close>, injective identifiers), each with a witness. A mutex-protected operation is one
  step; producers and the writer interleave between queue entries.

  \<^bold>\<open>Bounds and partiality.\<close> Counters, sizes and timestamps are naturals with saturation written
  out against \<open>u64_max\<close>; row-group arithmetic is on \<open>64 word\<close>. No definition uses fuel: loops are
  structural or have a termination proof, except the two loops of the seal schedule, which are
  \<open>partial_function\<close>s because the code need not return from them; the theorem says when it does.
  Liveness of shutdown counts the turns the writer needs.

  \<^bold>\<open>Not modelled.\<close> Floating-point estimates, text and JSON output, directory walks, serde and
  logging; the custom data of Predict markets, sealing, metrics and the order of the stops in the
  actor; the command line and the venue adapters of the other crates, which
  connect the core to Nautilus and to the network. Poisoned mutexes are not
  modelled. The order-book sink is not interpreted as a \<open>capture_sink\<close>: it drops rows on purpose.
\<close>

end
